(* ===== verification/Prelude.thy ===== *)
theory Prelude
  imports Main "HOL-Library.Word"
begin

unbundle bit_operations_syntax

text \<open>
  Shared vocabulary of the development: the C integer types as words, byte buffers as
  lists with the copy operations the C code performs on them, arithmetic of \<open>size_t\<close>
  values kept as natural numbers with the wrap-around written out, and the arithmetic
  facts about rings and sequence numbers that several components use.
  The collection \<open>c_simps\<close> gathers the unfolding rules of these helpers.
\<close>

named_theorems c_simps

type_synonym u8 = "8 word"
type_synonym u16 = "16 word"
type_synonym u32 = "32 word"
type_synonym u64 = "64 word"
type_synonym bytes = "u8 list"

subsection \<open>size_t arithmetic\<close>

text \<open>\<open>size_t\<close> is 64 bits wide: sums and differences wrap modulo \<open>2 ^ 64\<close>.\<close>

definition sz_add :: "nat \<Rightarrow> nat \<Rightarrow> nat" where
  "sz_add a b = (a + b) mod 2 ^ 64"

definition sz_sub :: "nat \<Rightarrow> nat \<Rightarrow> nat" where
  "sz_sub a b = nat ((int a - int b) mod 2 ^ 64)"

lemma sz_add_small [c_simps]: "a + b < 2 ^ 64 \<Longrightarrow> sz_add a b = a + b"
  by (simp add: sz_add_def)

lemma sz_sub_small [c_simps]: "b \<le> a \<Longrightarrow> a < 2 ^ 64 \<Longrightarrow> sz_sub a b = a - b"
  by (simp add: sz_sub_def nat_mod_as_int flip: of_nat_diff)

subsection \<open>Byte buffers\<close>

text \<open>
  \<open>memcpy (buf + off) src (length src)\<close>. A copy that would run past the end of the
  buffer is undefined behaviour in C; here it extends the list, so that \<open>length\<close>
  exposes it and a bound on the length is a real statement.
\<close>

definition blit :: "bytes \<Rightarrow> nat \<Rightarrow> bytes \<Rightarrow> bytes" where
  "blit buf off src = take off buf @ src @ drop (off + length src) buf"

lemma length_blit [simp]:
  "off + length src \<le> length buf \<Longrightarrow> length (blit buf off src) = length buf"
  by (simp add: blit_def)

lemma take_blit:
  "off \<le> length buf \<Longrightarrow> take (off + length src) (blit buf off src) = take off buf @ src"
  by (simp add: blit_def)

lemma take_blit_front [simp]:
  "n \<le> off \<Longrightarrow> off \<le> length buf \<Longrightarrow> take n (blit buf off src) = take n buf"
  by (simp add: blit_def min_def)

lemma blit_after:
  "off + length a + length b \<le> length buf \<Longrightarrow>
    blit (blit buf off a) (off + length a) b = blit buf off (a @ b)"
  by (cases a) (auto simp: blit_def min_def ac_simps)

lemma blit_before:
  "off + length a + length b \<le> length buf \<Longrightarrow>
    blit (blit buf (off + length a) b) off a = blit buf off (a @ b)"
  by (cases a) (auto simp: blit_def min_def ac_simps)

lemma blit_slice:
  "off + length src \<le> length buf \<Longrightarrow> take (length src) (drop off (blit buf off src)) = src"
  by (simp add: blit_def)

lemma nth_blit_outside:
  "off + length src \<le> length buf \<Longrightarrow> i < length buf \<Longrightarrow> i < off \<or> off + length src \<le> i \<Longrightarrow>
    blit buf off src ! i = buf ! i"
  by (auto simp: blit_def nth_append)

subsection \<open>Sequence numbers\<close>

text \<open>
  The low bits of an unbounded counter: differences of nearby counters survive the
  truncation, which is what makes modular sequence comparison work.
\<close>

lemma unat_word_diff:
  fixes a b :: nat
  assumes "b \<le> a" "a - b < 2 ^ LENGTH('w::len)"
  shows "unat (of_nat a - of_nat b :: 'w word) = a - b"
proof -
  have "(of_nat a - of_nat b :: 'w word) = of_nat (a - b)"
    using assms(1) by simp
  then show ?thesis using assms(2)
    by (simp add: unat_of_nat take_bit_nat_eq_self)
qed

lemma of_nat_word_eq_near:
  fixes a b :: nat
  assumes "(of_nat a :: 'w::len word) = of_nat b" "a \<le> b" "b - a < 2 ^ LENGTH('w)"
  shows "a = b"
proof -
  have "unat (of_nat b - of_nat a :: 'w word) = b - a"
    using assms by (intro unat_word_diff) auto
  with assms show ?thesis by simp
qed

lemma of_int_word_eq_near:
  fixes a b :: int
  assumes "(of_int a :: 'w::len word) = of_int b" "\<bar>a - b\<bar> < 2 ^ LENGTH('w)"
  shows "a = b"
proof -
  have "a mod 2 ^ LENGTH('w) = b mod 2 ^ LENGTH('w)"
    using assms(1) by (simp add: word_of_int_eq_iff take_bit_eq_mod)
  then have "(2 ^ LENGTH('w)) dvd (a - b)"
    by (simp add: mod_eq_dvd_iff)
  then show ?thesis using assms(2) zdvd_imp_le
    by (metis abs_ge_zero abs_dvd_iff dvd_abs_iff eq_iff_diff_eq_0 leD zero_less_abs_iff)
qed

lemma u8_lt: "unat (x :: u8) < 256" using unsigned_less [of x, where 'a = nat] by simp
lemma u16_lt: "unat (x :: u16) < 65536" using unsigned_less [of x, where 'a = nat] by simp
lemma u32_lt: "unat (x :: u32) < 4294967296" using unsigned_less [of x, where 'a = nat] by simp

lemma unat_ucast_mod: "unat (ucast (x :: 'a::len word) :: 'b::len word) = unat x mod 2 ^ LENGTH('b)"
  by (simp add: unsigned_ucast_eq take_bit_eq_mod)

lemma unat_plus_small:
  "unat a + unat b < 2 ^ LENGTH('a::len) \<Longrightarrow> unat (a + b :: 'a word) = unat a + unat b"
  by (simp add: unat_word_ariths(1))

lemma ucast_u8_u32 [simp]: "(ucast (ucast (x :: u8) :: u32) :: u8) = x"
  by (rule bit_word_eqI) (simp add: bit_simps)

subsection \<open>Powers of two as masks\<close>

lemma and_mask_mod:
  "unat (x AND (2 ^ k - 1) :: 'w::len word) = unat x mod 2 ^ k"
proof -
  have "x AND (2 ^ k - 1) = take_bit k x"
    by (simp add: take_bit_eq_mask mask_eq_exp_minus_1)
  then show ?thesis
    by (metis take_bit_eq_mod unsigned_take_bit_eq)
qed

lemma mod_eq_near:
  fixes a b n :: nat
  assumes "a mod n = b mod n" "a \<le> b" "b - a < n"
  shows "a = b"
proof -
  have "n dvd (b - a)" using assms(1,2) by (metis mod_eq_dvd_iff_nat)
  then show ?thesis using assms(2,3)
    by (metis diff_is_0_eq dvd_imp_le le_antisym leD neq0_conv)
qed

lemma mod_eq_near_int:
  fixes a b n :: int
  assumes "a mod n = b mod n" "\<bar>a - b\<bar> < n"
  shows "a = b"
proof (rule ccontr)
  assume "a \<noteq> b"
  have "n dvd (a - b)" using assms(1) by (simp add: mod_eq_dvd_iff)
  then have "n \<le> \<bar>a - b\<bar>"
    using \<open>a \<noteq> b\<close> by (simp add: zdvd_imp_le)
  with assms(2) show False by simp
qed

end
