(* ===== verification/Device.thy ===== *)
theory Device
  imports Prelude
begin

text \<open>
  The device handle of libexanic (\<open>libs/exanic/exanic.h\<close>), the register index macros of
  \<open>pcie_if.h\<close> and the queries of \<open>port.c\<close> and \<open>util.c\<close>. The register file is a
  function from 32-bit word indices to values: what a read of the memory-mapped register
  returns at that moment. Messages of \<open>exanic_err_printf\<close> are the constructors of
  \<open>exanic_err\<close>; a C function that prints one and returns -1 or NULL returns \<open>Inl\<close>.
\<close>

datatype exanic_err =
    Err_not_network_interface
  | Err_invalid_port_number
  | Err_port_not_supported_by_hardware
  | Err_port_no_rx | Err_port_no_tx | Err_port_not_enabled
  | Err_unknown_if_version | Err_unknown_hardware | Err_unknown_function
  | Err_ioctl_failed | Err_mmap_failed | Err_no_memory
  | Err_max_buffers_not_pow2 | Err_no_buffers
  | Err_tx_size_not_page_multiple | Err_bad_feedback_seq | Err_tx_chunk_too_large
  | Err_missing_end_transmit | Err_default_buffer

record exanic_t =
  registers :: "nat \<Rightarrow> u32"
  num_ports :: nat
  tick_hz :: u32
  caps :: u32
  max_filter_buffers :: nat
  \<comment> \<open>the time field of the info page, when the page is mapped\<close>
  info_page_hw_time :: "u64 option"

subsection \<open>Register indices\<close>

definition REG_EXANIC_INDEX :: "nat \<Rightarrow> nat" where
  "REG_EXANIC_INDEX reg = (0x0000 + reg * 4) div 4"

definition REG_HW_INDEX :: "nat \<Rightarrow> nat" where
  "REG_HW_INDEX reg = (0x0100 + reg * 4) div 4"

definition REG_PORT_OFFSET :: "nat \<Rightarrow> nat \<Rightarrow> nat" where
  "REG_PORT_OFFSET port reg =
     (if port \<ge> 8 then 0x1200 + (0x10 * (port - 8) + reg) * 4
      else 0x0200 + (0x10 * port + reg) * 4)"

definition REG_PORT_INDEX :: "nat \<Rightarrow> nat \<Rightarrow> nat" where
  "REG_PORT_INDEX port reg = REG_PORT_OFFSET port reg div 4"

definition REG_PORT_STAT_OFFSET :: "nat \<Rightarrow> nat \<Rightarrow> nat" where
  "REG_PORT_STAT_OFFSET port reg =
     (if port \<ge> 8 then 0x1400 + (0x10 * (port - 8) + reg) * 4
      else 0x0400 + (0x10 * port + reg) * 4)"

definition REG_PORT_STAT_INDEX :: "nat \<Rightarrow> nat \<Rightarrow> nat" where
  "REG_PORT_STAT_INDEX port reg = REG_PORT_STAT_OFFSET port reg div 4"

text \<open>The numbers of the registers and the bit masks of \<open>pcie_if.h\<close> that are used.\<close>

abbreviation (input) "REG_EXANIC_PCIE_IF_VER \<equiv> 0 :: nat"
abbreviation (input) "REG_EXANIC_HW_ID \<equiv> 1 :: nat"
abbreviation (input) "REG_EXANIC_HW_REV_DATE \<equiv> 3 :: nat"
abbreviation (input) "REG_EXANIC_FUNCTION_ID \<equiv> 8 :: nat"
abbreviation (input) "REG_EXANIC_HW_TIME \<equiv> 9 :: nat"
abbreviation (input) "REG_EXANIC_CAPS \<equiv> 14 :: nat"
abbreviation (input) "REG_EXANIC_HW_TIME_HI \<equiv> 15 :: nat"
abbreviation (input) "REG_EXANIC_DEVKIT_LICENSE_TYPE \<equiv> 36 :: nat"
abbreviation (input) "REG_PORT_ENABLED \<equiv> 0 :: nat"
abbreviation (input) "REG_PORT_SPEED \<equiv> 1 :: nat"
abbreviation (input) "REG_PORT_STATUS \<equiv> 2 :: nat"
abbreviation (input) "REG_PORT_MAC_ADDR_NIC \<equiv> 3 :: nat"
abbreviation (input) "REG_PORT_FLAGS \<equiv> 4 :: nat"
abbreviation (input) "REG_PORT_TX_SUPPORTED_TYPES \<equiv> 7 :: nat"
abbreviation (input) "REG_PORT_TX_COMMAND \<equiv> 8 :: nat"
abbreviation (input) "REG_PORT_TX_LAST_TIME \<equiv> 11 :: nat"
abbreviation (input) "REG_PORT_MAC_ADDR_OUI \<equiv> 12 :: nat"
abbreviation (input) "EXANIC_PORT_RX_UNSUPPORTED \<equiv> 0x01000000 :: u32"
abbreviation (input) "EXANIC_PORT_TX_UNSUPPORTED \<equiv> 0x02000000 :: u32"
abbreviation (input) "EXANIC_PORT_NOT_IMPLEMENTED \<equiv> 0x80000000 :: u32"
abbreviation (input) "EXANIC_PORT_FLAG_PROMISCUOUS \<equiv> 0x01 :: u32"
abbreviation (input) "EXANIC_CAP_HW_TIME_HI \<equiv> 0x100 :: u32"

definition port_reg :: "exanic_t \<Rightarrow> int \<Rightarrow> nat \<Rightarrow> u32" where
  "port_reg ex port reg = registers ex (REG_PORT_INDEX (nat port) reg)"

subsection \<open>util.c\<close>

definition exanic_get_hw_type :: "exanic_t \<Rightarrow> u32" where
  "exanic_get_hw_type ex = registers ex (REG_EXANIC_INDEX REG_EXANIC_HW_ID)"

definition exanic_get_function_id :: "exanic_t \<Rightarrow> u32" where
  "exanic_get_function_id ex = registers ex (REG_EXANIC_INDEX REG_EXANIC_FUNCTION_ID)"

definition exanic_get_caps :: "exanic_t \<Rightarrow> u32" where
  "exanic_get_caps ex = registers ex (REG_EXANIC_INDEX REG_EXANIC_CAPS)"

definition exanic_get_hw_rev_date :: "exanic_t \<Rightarrow> u32" where
  "exanic_get_hw_rev_date ex = registers ex (REG_EXANIC_INDEX REG_EXANIC_HW_REV_DATE)"

definition exanic_is_devkit_demo :: "exanic_t \<Rightarrow> bool" where
  "exanic_is_devkit_demo ex = (registers ex (REG_EXANIC_INDEX REG_EXANIC_DEVKIT_LICENSE_TYPE) = 1)"

definition exanic_is_devkit_free :: "exanic_t \<Rightarrow> bool" where
  "exanic_is_devkit_free ex = (registers ex (REG_EXANIC_INDEX REG_EXANIC_DEVKIT_LICENSE_TYPE) = 2)"

text \<open>The identifiers \<open>exanic_hardware_id_str\<close> and \<open>exanic_function_id_str\<close> know.\<close>

definition exanic_hardware_id_known :: "u32 \<Rightarrow> bool" where
  "exanic_hardware_id_known i = (i \<in> {2, 3, 4, 5, 6, 7, 8, 9, 10, 11, 12})"

definition exanic_function_id_known :: "u32 \<Rightarrow> bool" where
  "exanic_function_id_known i = (i \<in> {0, 1, 2, 3, 4, 0x80000000})"

definition exanic_check_supported :: "exanic_t \<Rightarrow> exanic_err + unit" where
  "exanic_check_supported ex =
     (let pcie_if_ver = registers ex (REG_EXANIC_INDEX REG_EXANIC_PCIE_IF_VER);
          hw_id = registers ex (REG_EXANIC_INDEX REG_EXANIC_HW_ID);
          func_id = registers ex (REG_EXANIC_INDEX REG_EXANIC_FUNCTION_ID)
      in if pcie_if_ver \<noteq> 1 then Inl Err_unknown_if_version
         else if \<not> exanic_hardware_id_known hw_id then Inl Err_unknown_hardware
         else if \<not> exanic_function_id_known func_id then Inl Err_unknown_function
         else Inr ())"

subsection \<open>port.c\<close>

definition check_network_interface :: "exanic_t \<Rightarrow> exanic_err + unit" where
  "check_network_interface ex =
     (if exanic_get_function_id ex \<noteq> 0 \<and> exanic_get_function_id ex \<noteq> 3 \<and>
         exanic_get_function_id ex \<noteq> 4
      then Inl Err_not_network_interface else Inr ())"

definition check_port_rx_usable :: "exanic_t \<Rightarrow> int \<Rightarrow> exanic_err + unit" where
  "check_port_rx_usable ex port =
     (if port < 0 \<or> int (num_ports ex) \<le> port then Inl Err_invalid_port_number
      else if port_reg ex port REG_PORT_STATUS AND
              (EXANIC_PORT_NOT_IMPLEMENTED OR EXANIC_PORT_RX_UNSUPPORTED) \<noteq> 0
           then Inl Err_port_not_supported_by_hardware
      else Inr ())"

definition check_port_tx_usable :: "exanic_t \<Rightarrow> int \<Rightarrow> exanic_err + unit" where
  "check_port_tx_usable ex port =
     (if port < 0 \<or> int (num_ports ex) \<le> port then Inl Err_invalid_port_number
      else if port_reg ex port REG_PORT_STATUS AND
              (EXANIC_PORT_NOT_IMPLEMENTED OR EXANIC_PORT_TX_UNSUPPORTED) \<noteq> 0
           then Inl Err_port_not_supported_by_hardware
      else Inr ())"

definition check_port_configurable :: "exanic_t \<Rightarrow> int \<Rightarrow> exanic_err + unit" where
  "check_port_configurable ex port =
     (if port < 0 \<or> int (num_ports ex) \<le> port then Inl Err_invalid_port_number
      else if port_reg ex port REG_PORT_STATUS AND EXANIC_PORT_NOT_IMPLEMENTED \<noteq> 0
           then Inl Err_port_not_supported_by_hardware
      else Inr ())"

definition exanic_port_rx_usable :: "exanic_t \<Rightarrow> int \<Rightarrow> bool" where
  "exanic_port_rx_usable ex port \<longleftrightarrow>
     0 \<le> port \<and> port < int (num_ports ex) \<and>
     port_reg ex port REG_PORT_STATUS AND
       (EXANIC_PORT_NOT_IMPLEMENTED OR EXANIC_PORT_RX_UNSUPPORTED) = 0"

definition exanic_port_tx_usable :: "exanic_t \<Rightarrow> int \<Rightarrow> bool" where
  "exanic_port_tx_usable ex port \<longleftrightarrow>
     0 \<le> port \<and> port < int (num_ports ex) \<and>
     port_reg ex port REG_PORT_STATUS AND
       (EXANIC_PORT_NOT_IMPLEMENTED OR EXANIC_PORT_TX_UNSUPPORTED) = 0"

definition exanic_port_configurable :: "exanic_t \<Rightarrow> int \<Rightarrow> bool" where
  "exanic_port_configurable ex port =
     (if port < 0 \<or> int (num_ports ex) \<le> port \<or>
         port_reg ex port REG_PORT_STATUS AND EXANIC_PORT_NOT_IMPLEMENTED \<noteq> 0
      then False else True)"

definition exanic_get_num_ports :: "exanic_t \<Rightarrow> nat" where
  "exanic_get_num_ports ex = num_ports ex"

text \<open>
  The integer results of the next functions are the register value converted to \<open>int\<close>;
  a caller that tests them for truth tests the register for being non-zero.
\<close>

definition exanic_get_port_status :: "exanic_t \<Rightarrow> int \<Rightarrow> u32" where
  "exanic_get_port_status ex port =
     (case check_port_configurable ex port of Inl _ \<Rightarrow> 0
      | Inr _ \<Rightarrow> port_reg ex port REG_PORT_STATUS)"

definition exanic_port_enabled :: "exanic_t \<Rightarrow> int \<Rightarrow> u32" where
  "exanic_port_enabled ex port =
     (case check_port_configurable ex port of Inl _ \<Rightarrow> 0
      | Inr _ \<Rightarrow> port_reg ex port REG_PORT_ENABLED)"

definition exanic_port_autoneg_enabled :: "exanic_t \<Rightarrow> int \<Rightarrow> exanic_err + bool" where
  "exanic_port_autoneg_enabled ex port =
     (case check_port_configurable ex port of Inl e \<Rightarrow> Inl e
      | Inr _ \<Rightarrow> Inr (port_reg ex port REG_PORT_FLAGS AND 0x08 \<noteq> 0))"

definition exanic_get_promiscuous_mode :: "exanic_t \<Rightarrow> int \<Rightarrow> exanic_err + bool" where
  "exanic_get_promiscuous_mode ex port =
     (case check_network_interface ex of Inl e \<Rightarrow> Inl e
      | Inr _ \<Rightarrow> (case check_port_rx_usable ex port of Inl e \<Rightarrow> Inl e
      | Inr _ \<Rightarrow> Inr (port_reg ex port REG_PORT_FLAGS AND EXANIC_PORT_FLAG_PROMISCUOUS \<noteq> 0)))"

definition exanic_get_port_speed :: "exanic_t \<Rightarrow> int \<Rightarrow> u32" where
  "exanic_get_port_speed ex port =
     (case check_port_configurable ex port of Inl _ \<Rightarrow> - 1
      | Inr _ \<Rightarrow> port_reg ex port REG_PORT_SPEED)"

text \<open>The \<open>i\<close>-th byte of a little-endian 32-bit value in memory.\<close>

definition le_byte :: "'a::len word \<Rightarrow> nat \<Rightarrow> u8" where
  "le_byte w i = ucast (drop_bit (8 * i) w)"

definition exanic_get_mac_addr :: "exanic_t \<Rightarrow> int \<Rightarrow> exanic_err + bytes" where
  "exanic_get_mac_addr ex port =
     (case check_network_interface ex of Inl e \<Rightarrow> Inl e
      | Inr _ \<Rightarrow> (case check_port_rx_usable ex port of Inl e \<Rightarrow> Inl e
      | Inr _ \<Rightarrow>
          let oui = port_reg ex port REG_PORT_MAC_ADDR_OUI;
              nic = port_reg ex port REG_PORT_MAC_ADDR_NIC
          in Inr (map (le_byte oui) [0, 1, 2] @ map (le_byte nic) [0, 1, 2])))"

definition exanic_get_supported_tx_types :: "exanic_t \<Rightarrow> int \<Rightarrow> exanic_err + u32" where
  "exanic_get_supported_tx_types ex port =
     (case check_network_interface ex of Inl e \<Rightarrow> Inl e
      | Inr _ \<Rightarrow> (case check_port_tx_usable ex port of Inl e \<Rightarrow> Inl e
      | Inr _ \<Rightarrow> Inr (port_reg ex port REG_PORT_TX_SUPPORTED_TYPES)))"

record exanic_port_stats_t =
  st_tx_count :: u32
  st_rx_count :: u32
  st_rx_ignored_count :: u32
  st_rx_error_count :: u32
  st_rx_dropped_count :: u32

definition exanic_get_port_stats :: "exanic_t \<Rightarrow> int \<Rightarrow> exanic_err + exanic_port_stats_t" where
  "exanic_get_port_stats ex port =
     (case check_port_configurable ex port of Inl e \<Rightarrow> Inl e
      | Inr _ \<Rightarrow>
          let stat = (\<lambda>reg. registers ex (REG_PORT_STAT_INDEX (nat port) reg))
          in Inr \<lparr>st_tx_count = stat 1, st_rx_count = stat 2, st_rx_ignored_count = stat 3,
                  st_rx_error_count = stat 4, st_rx_dropped_count = stat 5\<rparr>)"

subsection \<open>Facts\<close>

lemma check_port_rx_usable_iff:
  "check_port_rx_usable ex port = Inr () \<longleftrightarrow> exanic_port_rx_usable ex port"
  by (auto simp: check_port_rx_usable_def exanic_port_rx_usable_def)

lemma check_port_tx_usable_iff:
  "check_port_tx_usable ex port = Inr () \<longleftrightarrow> exanic_port_tx_usable ex port"
  by (auto simp: check_port_tx_usable_def exanic_port_tx_usable_def)

lemma check_port_configurable_iff:
  "check_port_configurable ex port = Inr () \<longleftrightarrow> exanic_port_configurable ex port"
  by (auto simp: check_port_configurable_def exanic_port_configurable_def)

text \<open>
  The port register blocks of different ports do not share a register, also across the
  gap between the lower and the upper eight ports.
\<close>

lemma REG_PORT_INDEX_inj:
  assumes "reg < 16" "reg' < 16" "REG_PORT_INDEX p reg = REG_PORT_INDEX p' reg'"
    "p < 16" "p' < 16"
  shows "p = p' \<and> reg = reg'"
proof -
  have idx: "REG_PORT_INDEX q r = (if 8 \<le> q then 0x480 + 16 * (q - 8) + r else 0x80 + 16 * q + r)"
    for q r by (simp add: REG_PORT_INDEX_def REG_PORT_OFFSET_def)
  have base: "16 * a + r = 16 * b + r' \<Longrightarrow> r < 16 \<Longrightarrow> r' < 16 \<Longrightarrow> a = b \<and> r = r'"
    for a b r r' :: nat by arith
  show ?thesis
  proof (cases "8 \<le> p \<longleftrightarrow> 8 \<le> p'")
    case True
    then show ?thesis
      using assms(1,2,3) base [of "p - 8" reg "p' - 8" reg'] base [of p reg p' reg']
      by (cases "8 \<le> p") (simp_all add: idx)
  next
    case False
    then show ?thesis using assms by (cases "8 \<le> p") (simp_all add: idx)
  qed
qed

end
