(* ===== verification/RxFifo.thy ===== *)
theory RxFifo
  imports Device
begin

text \<open>
  The receive path of libexanic, \<open>libs/exanic/fifo_rx.c\<close> and the inline functions of
  \<open>fifo_rx.h\<close>. The card writes 128-byte chunks into a ring of 16384 in host memory while
  the library reads it. That race is explicit here: the shared memory is a function of
  time, \<open>mem t i\<close> being chunk \<open>i\<close> as the \<open>t\<close>-th memory access sees it, and every
  operation takes the time of its first access and returns the time after its last.
  A spin loop that the hardware may keep busy for ever runs on fuel; \<open>None\<close> means it is
  still spinning.
\<close>

definition RX_NUM_CHUNKS :: nat where
  "RX_NUM_CHUNKS = 512 * 4096 div 128"

abbreviation (input) "RX_CHUNK_PAYLOAD_SIZE \<equiv> 120 :: nat"
abbreviation (input) "RX_FRAME_SWOVFL \<equiv> 256 :: int"
abbreviation (input) "RX_FRAME_TRUNCATED \<equiv> 257 :: int"
abbreviation (input) "RX_FRAME_ERROR_MASK \<equiv> 0x0F :: u8"

record rx_chunk =
  payload :: bytes
  timestamp :: u32
  frame_status :: u8
  chunk_length :: u8
  matched_filter :: u8
  chunk_generation :: u8

type_synonym rx_memory = "nat \<Rightarrow> nat \<Rightarrow> rx_chunk"

record exanic_rx =
  rx_port_number :: int
  rx_buffer_number :: int
  next_chunk :: u32
  generation :: u8
  sentinel_chunk :: u32
  sentinel_chunk_generation :: u32

text \<open>
  Byte \<open>o\<close> of a chunk in memory: the payload, then the info words, little endian.
  \<open>rx_copy\<close> is \<open>memcpy\<close> out of the ring starting at chunk \<open>i\<close>, one access per byte.
\<close>

definition chunk_byte :: "rx_chunk \<Rightarrow> nat \<Rightarrow> u8" where
  "chunk_byte c k =
     (if k < RX_CHUNK_PAYLOAD_SIZE then payload c ! k
      else if k < 124 then le_byte (timestamp c) (k - 120)
      else [frame_status c, chunk_length c, matched_filter c, chunk_generation c] ! (k - 124))"

definition rx_copy :: "rx_memory \<Rightarrow> nat \<Rightarrow> nat \<Rightarrow> nat \<Rightarrow> bytes" where
  "rx_copy mem t i len =
     map (\<lambda>j. chunk_byte (mem (t + j) (i + j div 128)) (j mod 128)) [0..<len]"

subsection \<open>Moving the read position\<close>

definition rx_advance :: "exanic_rx \<Rightarrow> exanic_rx" where
  "rx_advance rx =
     (let n = next_chunk rx + 1
      in if n = of_nat RX_NUM_CHUNKS
         then rx\<lparr>next_chunk := 0, generation := generation rx + 1\<rparr>
         else rx\<lparr>next_chunk := n\<rparr>)"

record catchup_vars =
  eof_gen :: u8
  break_gen :: u8
  eof_chunk :: u32
  break_chunk :: u32
  eof_found :: bool
  before_break :: bool

definition catchup_break :: "rx_chunk \<Rightarrow> nat \<Rightarrow> catchup_vars \<Rightarrow> catchup_vars" where
  "catchup_break u chunk v =
     (if chunk = RX_NUM_CHUNKS - 1
      then v\<lparr>break_gen := chunk_generation u, break_chunk := of_nat (RX_NUM_CHUNKS - 1)\<rparr>
      else if chunk_generation u \<noteq> break_gen v
      then v\<lparr>before_break := True, break_gen := chunk_generation u, break_chunk := of_nat chunk\<rparr>
      else v)"

definition catchup_eof :: "rx_chunk \<Rightarrow> nat \<Rightarrow> catchup_vars \<Rightarrow> catchup_vars" where
  "catchup_eof u chunk v =
     v\<lparr>eof_found := True, eof_gen := chunk_generation u, eof_chunk := of_nat chunk\<rparr>"

text \<open>The backwards loop; its argument is the C variable \<open>chunk\<close> before the decrement.\<close>

fun catchup_scan :: "rx_memory \<Rightarrow> nat \<Rightarrow> nat \<Rightarrow> catchup_vars \<Rightarrow> catchup_vars \<times> nat" where
  "catchup_scan mem t 0 v = (v, t)"
| "catchup_scan mem t (Suc chunk) v =
     (let u = mem t chunk; v1 = catchup_break u chunk v
      in if chunk_length u \<noteq> 0
         then if before_break v1 then (catchup_eof u chunk v1, Suc t)
              else if \<not> eof_found v1 then catchup_scan mem (Suc t) chunk (catchup_eof u chunk v1)
              else catchup_scan mem (Suc t) chunk v1
         else catchup_scan mem (Suc t) chunk v1)"

definition catchup_init :: catchup_vars where
  "catchup_init = \<lparr>eof_gen = 0, break_gen = 0, eof_chunk = 0, break_chunk = 0,
     eof_found = False, before_break = False\<rparr>"

definition exanic_rx_catchup :: "rx_memory \<Rightarrow> nat \<Rightarrow> exanic_rx \<Rightarrow> exanic_rx \<times> nat" where
  "exanic_rx_catchup mem t rx =
     (let (v, t') = catchup_scan mem t RX_NUM_CHUNKS catchup_init;
          (c, g) = (if eof_found v then (eof_chunk v, eof_gen v) else (break_chunk v, break_gen v));
          rx1 = rx\<lparr>sentinel_chunk := c, sentinel_chunk_generation := ucast g,
                   next_chunk := c + 1, generation := g\<rparr>;
          rx2 = (if next_chunk rx1 = of_nat RX_NUM_CHUNKS
                 then rx1\<lparr>next_chunk := 0, generation := generation rx1 + 1\<rparr> else rx1)
      in (rx2, t'))"

subsection \<open>exanic_receive_frame\<close>

text \<open>\<open>do u = buffer[next_chunk]; while (u.generation == (uint8_t)(generation - 1))\<close>\<close>

fun rx_spin :: "nat \<Rightarrow> rx_memory \<Rightarrow> nat \<Rightarrow> exanic_rx \<Rightarrow> (rx_chunk \<times> nat) option" where
  "rx_spin 0 mem t rx = None"
| "rx_spin (Suc fuel) mem t rx =
     (let u = mem t (unat (next_chunk rx))
      in if chunk_generation u = generation rx - 1 then rx_spin fuel mem (Suc t) rx
         else Some (u, Suc t))"

record rx_result =
  ret :: int
  rx_buf :: bytes
  out_timestamp :: "u32 option"
  out_rx :: exanic_rx
  out_time :: nat

text \<open>The last chunk of a frame, \<open>u.info.length != 0\<close>; \<open>rx\<close> has already advanced.\<close>

definition receive_last :: "rx_memory \<Rightarrow> nat \<Rightarrow> exanic_rx \<Rightarrow> u32 \<Rightarrow> rx_chunk \<Rightarrow> nat \<Rightarrow> bytes \<Rightarrow> nat \<Rightarrow> rx_result" where
  "receive_last mem t rx current_chunk u sz buf rx_buf_size =
     (let len = unat (chunk_length u)
      in if rx_buf_size < sz + len
         then \<lparr>ret = - RX_FRAME_TRUNCATED, rx_buf = buf, out_timestamp = None, out_rx = rx, out_time = t\<rparr>
         else
           let buf1 = blit buf sz (rx_copy mem t (unat current_chunk) len);
               t1 = t + len;
               old_sentinel = sentinel_chunk rx;
               old_gen = (ucast (sentinel_chunk_generation rx) :: u8);
               rx1 = rx\<lparr>sentinel_chunk := current_chunk,
                        sentinel_chunk_generation := ucast (chunk_generation u)\<rparr>;
               err = frame_status u AND RX_FRAME_ERROR_MASK
           in if chunk_generation (mem t1 (unat old_sentinel)) \<noteq> old_gen
              then let (rx2, t2) = exanic_rx_catchup mem (Suc t1) rx1
                   in \<lparr>ret = - RX_FRAME_SWOVFL, rx_buf = buf1, out_timestamp = None, out_rx = rx2, out_time = t2\<rparr>
              else if err \<noteq> 0
              then \<lparr>ret = - uint err, rx_buf = buf1, out_timestamp = Some (timestamp u),
                     out_rx = rx1, out_time = Suc t1\<rparr>
              else \<lparr>ret = int (sz + len), rx_buf = buf1, out_timestamp = Some (timestamp u),
                     out_rx = rx1, out_time = Suc t1\<rparr>)"

fun receive_loop :: "nat \<Rightarrow> rx_memory \<Rightarrow> nat \<Rightarrow> exanic_rx \<Rightarrow> rx_chunk \<Rightarrow> nat \<Rightarrow> bytes \<Rightarrow> nat \<Rightarrow> rx_result option" where
  "receive_loop 0 mem t rx u sz buf rx_buf_size = None"
| "receive_loop (Suc fuel) mem t rx u sz buf rx_buf_size =
     (let current_chunk = next_chunk rx; rx1 = rx_advance rx
      in if chunk_length u \<noteq> 0
         then Some (receive_last mem t rx1 current_chunk u sz buf rx_buf_size)
         else
           let fits = sz + RX_CHUNK_PAYLOAD_SIZE \<le> rx_buf_size;
               buf1 = (if fits then blit buf sz (rx_copy mem t (unat current_chunk) RX_CHUNK_PAYLOAD_SIZE)
                       else buf);
               t1 = (if fits then t + RX_CHUNK_PAYLOAD_SIZE else t)
           in (case rx_spin fuel mem t1 rx1 of
                 None \<Rightarrow> None
               | Some (u', t2) \<Rightarrow>
                   if chunk_generation u' \<noteq> generation rx1
                   then let (rx2, t3) = exanic_rx_catchup mem t2 rx1
                        in Some \<lparr>ret = - RX_FRAME_SWOVFL, rx_buf = buf1, out_timestamp = None,
                                 out_rx = rx2, out_time = t3\<rparr>
                   else receive_loop fuel mem t2 rx1 u' (sz + RX_CHUNK_PAYLOAD_SIZE) buf1 rx_buf_size))"

definition exanic_receive_frame :: "nat \<Rightarrow> rx_memory \<Rightarrow> nat \<Rightarrow> exanic_rx \<Rightarrow> bytes \<Rightarrow> nat \<Rightarrow> rx_result option" where
  "exanic_receive_frame fuel mem t rx buf rx_buf_size =
     (let u = mem t (unat (next_chunk rx))
      in if chunk_generation u = generation rx
         then receive_loop fuel mem (Suc t) rx u 0 buf rx_buf_size
         else if chunk_generation u = generation rx - 1
         then Some \<lparr>ret = 0, rx_buf = buf, out_timestamp = None, out_rx = rx, out_time = Suc t\<rparr>
         else let (rx1, t1) = exanic_rx_catchup mem (Suc t) rx
              in Some \<lparr>ret = - RX_FRAME_SWOVFL, rx_buf = buf, out_timestamp = None,
                       out_rx = rx1, out_time = t1\<rparr>)"

subsection \<open>Receiving chunk by chunk\<close>

record rx_chunk_result =
  c_ret :: int
  c_buf :: bytes
  \<comment> \<open>what \<open>*more_chunks\<close> and \<open>*info\<close> are set to; \<open>None\<close>: left alone\<close>
  c_more :: "bool option"
  c_info :: "rx_chunk option"
  c_rx :: exanic_rx
  c_time :: nat

definition exanic_receive_chunk :: "rx_memory \<Rightarrow> nat \<Rightarrow> exanic_rx \<Rightarrow> bytes \<Rightarrow> rx_chunk_result" where
  "exanic_receive_chunk mem t rx buf =
     (let u = mem t (unat (next_chunk rx))
      in if chunk_generation u = generation rx
         then
           let cur = unat (next_chunk rx);
               old_sentinel = unat (sentinel_chunk rx);
               old_gen = (ucast (sentinel_chunk_generation rx) :: u8);
               rx1 = rx_advance (rx\<lparr>sentinel_chunk := next_chunk rx,
                                     sentinel_chunk_generation := ucast (chunk_generation u)\<rparr>);
               last = (chunk_length u \<noteq> 0);
               len = (if last then unat (chunk_length u) else RX_CHUNK_PAYLOAD_SIZE);
               buf1 = blit buf 0 (rx_copy mem (Suc t) cur len);
               t1 = Suc t + len;
               err = frame_status u AND RX_FRAME_ERROR_MASK
           in if chunk_generation (mem t1 old_sentinel) \<noteq> old_gen
              then let (rx2, t2) = exanic_rx_catchup mem (Suc t1) rx1
                   in \<lparr>c_ret = - RX_FRAME_SWOVFL, c_buf = buf1, c_more = None, c_info = None,
                       c_rx = rx2, c_time = t2\<rparr>
              else if last \<and> err \<noteq> 0
              then \<lparr>c_ret = - uint err, c_buf = buf1, c_more = None, c_info = None,
                     c_rx = rx1, c_time = Suc t1\<rparr>
              else \<lparr>c_ret = int len, c_buf = buf1, c_more = Some (\<not> last), c_info = None,
                     c_rx = rx1, c_time = Suc t1\<rparr>
         else if chunk_generation u = generation rx - 1
         then \<lparr>c_ret = 0, c_buf = buf, c_more = None, c_info = None, c_rx = rx, c_time = Suc t\<rparr>
         else let (rx1, t1) = exanic_rx_catchup mem (Suc t) rx
              in \<lparr>c_ret = - RX_FRAME_SWOVFL, c_buf = buf, c_more = None, c_info = None,
                  c_rx = rx1, c_time = t1\<rparr>)"

definition exanic_receive_chunk_ex :: "rx_memory \<Rightarrow> nat \<Rightarrow> exanic_rx \<Rightarrow> bytes \<Rightarrow> rx_chunk_result" where
  "exanic_receive_chunk_ex mem t rx buf =
     (let u = mem t (unat (next_chunk rx))
      in if chunk_generation u = generation rx
         then
           let cur = unat (next_chunk rx);
               old_sentinel = unat (sentinel_chunk rx);
               old_gen = (ucast (sentinel_chunk_generation rx) :: u8);
               rx1 = rx_advance (rx\<lparr>sentinel_chunk := next_chunk rx,
                                     sentinel_chunk_generation := ucast (chunk_generation u)\<rparr>);
               more = (chunk_length u = 0);
               len = (if more then RX_CHUNK_PAYLOAD_SIZE else unat (chunk_length u));
               buf1 = blit buf 0 (rx_copy mem (Suc t) cur len);
               t1 = Suc t + len
           in if chunk_generation (mem t1 old_sentinel) \<noteq> old_gen
              then let (rx2, t2) = exanic_rx_catchup mem (Suc t1) rx1
                   in \<lparr>c_ret = - RX_FRAME_SWOVFL, c_buf = buf1, c_more = None, c_info = None,
                       c_rx = rx2, c_time = t2\<rparr>
              else \<lparr>c_ret = int len, c_buf = buf1, c_more = Some more, c_info = Some u,
                     c_rx = rx1, c_time = Suc t1\<rparr>
         else if chunk_generation u = generation rx - 1
         then \<lparr>c_ret = 0, c_buf = buf, c_more = None, c_info = None, c_rx = rx, c_time = Suc t\<rparr>
         else let (rx1, t1) = exanic_rx_catchup mem (Suc t) rx
              in \<lparr>c_ret = - RX_FRAME_SWOVFL, c_buf = buf, c_more = None, c_info = None,
                  c_rx = rx1, c_time = t1\<rparr>)"

text \<open>
  \<open>exanic_receive_chunk_inplace\<close> hands out the index of the chunk instead of copying it,
  together with an identifier made of the generation and the index.
\<close>

record rx_inplace_result =
  i_ret :: int
  i_chunk :: "nat option"
  i_chunk_id :: "u32 option"
  i_more :: "bool option"
  i_rx :: exanic_rx
  i_time :: nat

definition exanic_receive_chunk_inplace :: "rx_memory \<Rightarrow> nat \<Rightarrow> exanic_rx \<Rightarrow> rx_inplace_result" where
  "exanic_receive_chunk_inplace mem t rx =
     (let u = mem t (unat (next_chunk rx))
      in if chunk_generation u = generation rx
         then
           let cur = unat (next_chunk rx);
               cid = ucast (generation rx) * of_nat RX_NUM_CHUNKS + next_chunk rx;
               rx1 = rx_advance rx;
               err = frame_status u AND RX_FRAME_ERROR_MASK
           in if chunk_length u \<noteq> 0
              then if err \<noteq> 0
                   then \<lparr>i_ret = - uint err, i_chunk = Some cur, i_chunk_id = Some cid,
                          i_more = None, i_rx = rx1, i_time = Suc t\<rparr>
                   else \<lparr>i_ret = uint (chunk_length u), i_chunk = Some cur, i_chunk_id = Some cid,
                          i_more = Some False, i_rx = rx1, i_time = Suc t\<rparr>
              else \<lparr>i_ret = int RX_CHUNK_PAYLOAD_SIZE, i_chunk = Some cur, i_chunk_id = Some cid,
                     i_more = Some True, i_rx = rx1, i_time = Suc t\<rparr>
         else if chunk_generation u = generation rx - 1
         then \<lparr>i_ret = 0, i_chunk = None, i_chunk_id = None, i_more = None, i_rx = rx, i_time = Suc t\<rparr>
         else let (rx1, t1) = exanic_rx_catchup mem (Suc t) rx
              in \<lparr>i_ret = - RX_FRAME_SWOVFL, i_chunk = None, i_chunk_id = None, i_more = None,
                  i_rx = rx1, i_time = t1\<rparr>)"

record rx_inplace_ex_result = rx_inplace_result +
  i_info :: "rx_chunk option"

definition exanic_receive_chunk_inplace_ex :: "rx_memory \<Rightarrow> nat \<Rightarrow> exanic_rx \<Rightarrow> rx_inplace_ex_result" where
  "exanic_receive_chunk_inplace_ex mem t rx =
     (let u = mem t (unat (next_chunk rx))
      in if chunk_generation u = generation rx
         then
           let cur = unat (next_chunk rx);
               cid = ucast (generation rx) * of_nat RX_NUM_CHUNKS + next_chunk rx;
               rx1 = rx_advance rx;
               more = (chunk_length u = 0);
               len = (if more then int RX_CHUNK_PAYLOAD_SIZE else uint (chunk_length u))
           in \<lparr>i_ret = len, i_chunk = Some cur, i_chunk_id = Some cid, i_more = Some more,
                i_rx = rx1, i_time = Suc t, i_info = Some u\<rparr>
         else if chunk_generation u = generation rx - 1
         then \<lparr>i_ret = 0, i_chunk = None, i_chunk_id = None, i_more = None, i_rx = rx, i_time = Suc t,
                i_info = None\<rparr>
         else let (rx1, t1) = exanic_rx_catchup mem (Suc t) rx
              in \<lparr>i_ret = - RX_FRAME_SWOVFL, i_chunk = None, i_chunk_id = None, i_more = None,
                  i_rx = rx1, i_time = t1, i_info = None\<rparr>)"

definition exanic_receive_chunk_recheck :: "rx_memory \<Rightarrow> nat \<Rightarrow> u32 \<Rightarrow> bool" where
  "exanic_receive_chunk_recheck mem t chunk_id =
     (let chunk = unat chunk_id mod RX_NUM_CHUNKS;
          gen = (of_nat (unat chunk_id div RX_NUM_CHUNKS) :: u8)
      in chunk_generation (mem t chunk) = gen)"

definition exanic_receive_chunk_timestamp :: "rx_memory \<Rightarrow> nat \<Rightarrow> u32 \<Rightarrow> u32" where
  "exanic_receive_chunk_timestamp mem t chunk_id =
     timestamp (mem t (unat chunk_id mod RX_NUM_CHUNKS))"

fun exanic_receive_abort :: "nat \<Rightarrow> rx_memory \<Rightarrow> nat \<Rightarrow> exanic_rx \<Rightarrow> (int \<times> exanic_rx \<times> nat) option" where
  "exanic_receive_abort 0 mem t rx = None"
| "exanic_receive_abort (Suc fuel) mem t rx =
     (let u = mem t (unat (next_chunk rx))
      in if chunk_generation u = generation rx
         then
           let rx1 = rx_advance rx; err = frame_status u AND RX_FRAME_ERROR_MASK
           in if chunk_length u \<noteq> 0
              then Some ((if err \<noteq> 0 then - uint err else 0), rx1, Suc t)
              else exanic_receive_abort fuel mem (Suc t) rx1
         else if chunk_generation u \<noteq> generation rx - 1
         then let (rx1, t1) = exanic_rx_catchup mem (Suc t) rx
              in Some (- RX_FRAME_SWOVFL, rx1, t1)
         else exanic_receive_abort fuel mem (Suc t) rx)"

end
