(* ===== verification/RxSpec.thy ===== *)
theory RxSpec
  imports RxFifo
begin

text \<open>
  What the receive path promises. The card's stream of chunks is a function \<open>ring\<close> from
  absolute positions to chunks; position \<open>k\<close> is written to slot \<open>k mod 16384\<close> with
  generation \<open>k div 16384\<close> (modulo 256). Positions below zero stand for the 0xFF fill
  of a fresh buffer. When the card has completed \<open>w\<close> chunks, slot \<open>i\<close> holds the latest
  position below \<open>w\<close> that maps to it. A read position of the library is an absolute
  position too, and the theorems say which stretch of the stream an operation returns.
\<close>

definition slot_pos :: "int \<Rightarrow> nat \<Rightarrow> int" where
  "slot_pos w i = w - 1 - (w - 1 - int i) mod int RX_NUM_CHUNKS"

definition pos_slot :: "int \<Rightarrow> nat" where
  "pos_slot k = nat (k mod int RX_NUM_CHUNKS)"

definition pos_gen :: "int \<Rightarrow> u8" where
  "pos_gen k = of_int (k div int RX_NUM_CHUNKS)"

text \<open>
  The documented behaviour of the card: it completes chunks in order, and a chunk is
  complete once its info words are written. The slot it is working on still carries the
  info words of the chunk it replaces, and no promise about its payload.
\<close>

definition hw_stream :: "(int \<Rightarrow> rx_chunk) \<Rightarrow> bool" where
  "hw_stream ring \<longleftrightarrow> (\<forall>k. chunk_generation (ring k) = pos_gen k \<and>
     (0 \<le> k \<longrightarrow> unat (chunk_length (ring k)) \<le> RX_CHUNK_PAYLOAD_SIZE \<and>
        length (payload (ring k)) = RX_CHUNK_PAYLOAD_SIZE))"

definition hw_memory :: "(int \<Rightarrow> rx_chunk) \<Rightarrow> (nat \<Rightarrow> int) \<Rightarrow> rx_memory \<Rightarrow> bool" where
  "hw_memory ring w mem \<longleftrightarrow>
     (\<forall>t. 0 \<le> w t \<and> w t \<le> w (Suc t)) \<and>
     (\<forall>t i. i < RX_NUM_CHUNKS \<longrightarrow>
        (\<exists>p. mem t i = (ring (slot_pos (w t) i))\<lparr>payload := p\<rparr>) \<and>
        (i \<noteq> pos_slot (w t) \<longrightarrow> payload (mem t i) = payload (ring (slot_pos (w t) i))))"

definition rx_at :: "exanic_rx \<Rightarrow> int \<Rightarrow> bool" where
  "rx_at rx a \<longleftrightarrow> next_chunk rx = of_nat (pos_slot a) \<and> generation rx = pos_gen a"

definition sentinel_at :: "exanic_rx \<Rightarrow> int \<Rightarrow> bool" where
  "sentinel_at rx s \<longleftrightarrow> sentinel_chunk rx = of_nat (pos_slot s) \<and>
     sentinel_chunk_generation rx = ucast (pos_gen s)"

subsection \<open>Positions, slots and generations\<close>

lemma RX_NUM_CHUNKS_val: "RX_NUM_CHUNKS = 16384"
  by (simp add: RX_NUM_CHUNKS_def)

lemma RX_NUM_CHUNKS_pos [simp]: "0 < RX_NUM_CHUNKS"
  by (simp add: RX_NUM_CHUNKS_val)

lemma RX_NUM_CHUNKS_nonzero [simp]: "RX_NUM_CHUNKS \<noteq> 0"
  by (simp add: RX_NUM_CHUNKS_val)

lemma pos_slot_less [simp]: "pos_slot k < RX_NUM_CHUNKS"
  by (simp add: pos_slot_def RX_NUM_CHUNKS_val nat_less_iff)

lemma int_pos_slot: "int (pos_slot k) = k mod int RX_NUM_CHUNKS"
  by (simp add: pos_slot_def RX_NUM_CHUNKS_val)

lemma unat_pos_slot [simp]: "unat (of_nat (pos_slot k) :: u32) = pos_slot k"
  using pos_slot_less [of k]
  by (simp add: unat_of_nat RX_NUM_CHUNKS_val take_bit_nat_eq_self)

lemma unat_slot [simp]: "i < RX_NUM_CHUNKS \<Longrightarrow> unat (of_nat i :: u32) = i"
  by (simp add: unat_of_nat RX_NUM_CHUNKS_val take_bit_nat_eq_self)

lemma pos_gen_Suc_lap: "pos_gen (k + int RX_NUM_CHUNKS) = pos_gen k + 1"
  by (simp add: pos_gen_def div_add_self2)

lemma slot_pos_eq:
  "slot_pos w i = int i + int RX_NUM_CHUNKS * ((w - 1 - int i) div int RX_NUM_CHUNKS)"
  unfolding slot_pos_def using mult_div_mod_eq [of "int RX_NUM_CHUNKS" "w - 1 - int i"] by linarith

lemma slot_pos_bounds:
  "slot_pos w i < w" "w - int RX_NUM_CHUNKS \<le> slot_pos w i"
proof -
  have "0 \<le> (w - 1 - int i) mod int RX_NUM_CHUNKS" "(w - 1 - int i) mod int RX_NUM_CHUNKS < int RX_NUM_CHUNKS"
    by simp_all
  then show "slot_pos w i < w" "w - int RX_NUM_CHUNKS \<le> slot_pos w i"
    unfolding slot_pos_def by linarith+
qed

lemma slot_pos_mod: "i < RX_NUM_CHUNKS \<Longrightarrow> slot_pos w i mod int RX_NUM_CHUNKS = int i"
  by (simp add: slot_pos_eq)

lemma pos_slot_slot_pos: "i < RX_NUM_CHUNKS \<Longrightarrow> pos_slot (slot_pos w i) = i"
  by (simp add: pos_slot_def slot_pos_mod)

lemma slot_pos_unique:
  assumes "k < w" "w - int RX_NUM_CHUNKS \<le> k"
  shows "slot_pos w (pos_slot k) = k"
proof (rule mod_eq_near_int)
  show "slot_pos w (pos_slot k) mod int RX_NUM_CHUNKS = k mod int RX_NUM_CHUNKS"
    by (simp add: slot_pos_mod int_pos_slot)
  show "\<bar>slot_pos w (pos_slot k) - k\<bar> < int RX_NUM_CHUNKS"
    using slot_pos_bounds [of w "pos_slot k"] assms by linarith
qed

text \<open>
  A slot whose generation is that of position \<open>k\<close> holds position \<open>k\<close> itself, unless the
  card is 256 laps away.
\<close>

lemma slot_pos_by_gen:
  assumes gen: "pos_gen (slot_pos w (pos_slot k)) = pos_gen k"
    and w: "k - 254 * int RX_NUM_CHUNKS \<le> w" "w \<le> k + 256 * int RX_NUM_CHUNKS"
  shows "slot_pos w (pos_slot k) = k"
proof -
  let ?N = "int RX_NUM_CHUNKS" and ?p = "slot_pos w (pos_slot k)"
  have m: "?p mod ?N = k mod ?N"
    by (simp add: slot_pos_mod int_pos_slot)
  have diff: "?p - k = ?N * (?p div ?N - k div ?N)"
    using m mult_div_mod_eq [of ?N ?p] mult_div_mod_eq [of ?N k]
    unfolding right_diff_distrib by linarith
  have "\<bar>?p - k\<bar> < ?N * 256"
    using slot_pos_bounds [of w "pos_slot k"] w by (simp add: RX_NUM_CHUNKS_val)
  then have "\<bar>?p div ?N - k div ?N\<bar> < 256"
    unfolding diff by (simp add: RX_NUM_CHUNKS_val)
  with gen have "?p div ?N = k div ?N"
    by (intro of_int_word_eq_near [where 'w = 8]) (simp_all add: pos_gen_def)
  with diff show ?thesis by simp
qed

lemma hw_gen:
  assumes "hw_stream ring" "hw_memory ring w mem" "i < RX_NUM_CHUNKS"
  shows "chunk_generation (mem t i) = pos_gen (slot_pos (w t) i)"
proof -
  obtain p where "mem t i = (ring (slot_pos (w t) i))\<lparr>payload := p\<rparr>"
    using assms(2,3) unfolding hw_memory_def by blast
  with assms(1) show ?thesis by (simp add: hw_stream_def)
qed

lemma hw_mono: "hw_memory ring w mem \<Longrightarrow> t \<le> t' \<Longrightarrow> w t \<le> w t'"
  by (rule lift_Suc_mono_le [of w]) (auto simp: hw_memory_def)

lemma hw_memory_slot:
  assumes "hw_memory ring w mem" "i < RX_NUM_CHUNKS"
  obtains p where "mem t i = (ring (slot_pos (w t) i))\<lparr>payload := p\<rparr>"
    and "i \<noteq> pos_slot (w t) \<Longrightarrow> p = payload (ring (slot_pos (w t) i))"
proof -
  have "(\<exists>p. mem t i = (ring (slot_pos (w t) i))\<lparr>payload := p\<rparr>) \<and>
        (i \<noteq> pos_slot (w t) \<longrightarrow> payload (mem t i) = payload (ring (slot_pos (w t) i)))"
    using assms unfolding hw_memory_def by simp
  then obtain p where p: "mem t i = (ring (slot_pos (w t) i))\<lparr>payload := p\<rparr>"
      and q: "i \<noteq> pos_slot (w t) \<Longrightarrow> payload (mem t i) = payload (ring (slot_pos (w t) i))"
    by (elim conjE exE) simp
  show thesis
  proof (rule that [OF p])
    assume "i \<noteq> pos_slot (w t)"
    from q [OF this] show "p = payload (ring (slot_pos (w t) i))" unfolding p by simp
  qed
qed

text \<open>A position that is complete and not yet being overwritten is read unchanged.\<close>

lemma hw_read:
  assumes "hw_memory ring w mem" "k < w t" "w t < k + int RX_NUM_CHUNKS"
  shows "mem t (pos_slot k) = ring k"
proof -
  have sp: "slot_pos (w t) (pos_slot k) = k"
    using assms(2,3) by (intro slot_pos_unique) auto
  have ne: "pos_slot k \<noteq> pos_slot (w t)"
  proof
    assume "pos_slot k = pos_slot (w t)"
    then have "k mod int RX_NUM_CHUNKS = w t mod int RX_NUM_CHUNKS"
      unfolding int_pos_slot [symmetric] by simp
    then have "k = w t"
      by (rule mod_eq_near_int) (use assms(2,3) in linarith)
    with assms(2) show False by simp
  qed
  obtain p where p: "mem t (pos_slot k) = (ring (slot_pos (w t) (pos_slot k)))\<lparr>payload := p\<rparr>"
      and q: "pos_slot k \<noteq> pos_slot (w t) \<Longrightarrow> p = payload (ring (slot_pos (w t) (pos_slot k)))"
    using hw_memory_slot [OF assms(1) pos_slot_less] by blast
  show ?thesis
    using p q [OF ne] unfolding sp by simp
qed

subsection \<open>Frames of the stream\<close>

definition is_frame :: "(int \<Rightarrow> rx_chunk) \<Rightarrow> int \<Rightarrow> int \<Rightarrow> bool" where
  "is_frame ring a e \<longleftrightarrow> a \<le> e \<and> (\<forall>k. a \<le> k \<and> k < e \<longrightarrow> chunk_length (ring k) = 0) \<and>
     chunk_length (ring e) \<noteq> 0"

definition frame_bytes :: "(int \<Rightarrow> rx_chunk) \<Rightarrow> int \<Rightarrow> int \<Rightarrow> bytes" where
  "frame_bytes ring a e =
     concat (map (\<lambda>k. payload (ring k)) [a..e - 1]) @
     take (unat (chunk_length (ring e))) (payload (ring e))"

lemma frame_bytes_last: "frame_bytes ring e e = take (unat (chunk_length (ring e))) (payload (ring e))"
  by (simp add: frame_bytes_def)

lemma frame_bytes_step: "a < e \<Longrightarrow> frame_bytes ring a e = payload (ring a) @ frame_bytes ring (a + 1) e"
  by (simp add: frame_bytes_def upto_rec1)

lemma is_frame_last: "chunk_length (ring e) \<noteq> 0 \<Longrightarrow> is_frame ring e e"
  by (auto simp: is_frame_def)

lemma is_frame_step: "chunk_length (ring a) = 0 \<Longrightarrow> is_frame ring (a + 1) e \<Longrightarrow> is_frame ring a e"
  unfolding is_frame_def
proof (elim conjE, intro conjI allI impI)
  fix k assume "chunk_length (ring a) = 0" "\<forall>k. a + 1 \<le> k \<and> k < e \<longrightarrow> chunk_length (ring k) = 0"
    "a \<le> k \<and> k < e"
  then show "chunk_length (ring k) = 0" by (cases "k = a") auto
qed auto

lemma is_frame_cases:
  assumes "is_frame ring a e"
  shows "(a = e \<and> chunk_length (ring a) \<noteq> 0) \<or>
    (a < e \<and> chunk_length (ring a) = 0 \<and> is_frame ring (a + 1) e)"
  using assms unfolding is_frame_def by (cases "a = e") auto

lemma stream_length: "hw_stream ring \<Longrightarrow> 0 \<le> k \<Longrightarrow> unat (chunk_length (ring k)) \<le> 120"
  by (simp add: hw_stream_def)

lemma stream_payload: "hw_stream ring \<Longrightarrow> 0 \<le> k \<Longrightarrow> length (payload (ring k)) = 120"
  by (simp add: hw_stream_def)

lemma stream_gen: "hw_stream ring \<Longrightarrow> chunk_generation (ring k) = pos_gen k"
  by (simp add: hw_stream_def)

subsection \<open>Single steps\<close>

lemma pos_slot_Suc:
  "pos_slot (a + 1) = (if pos_slot a + 1 = RX_NUM_CHUNKS then 0 else pos_slot a + 1)"
  and pos_gen_Suc:
  "pos_gen (a + 1) = (if pos_slot a + 1 = RX_NUM_CHUNKS then pos_gen a + 1 else pos_gen a)"
proof -
  let ?N = "int RX_NUM_CHUNKS"
  have a: "a = ?N * (a div ?N) + int (pos_slot a)"
    unfolding int_pos_slot by simp
  have m: "(a + 1) mod ?N = (int (pos_slot a) + 1) mod ?N"
    unfolding int_pos_slot by (simp add: mod_add_left_eq)
  show "pos_slot (a + 1) = (if pos_slot a + 1 = RX_NUM_CHUNKS then 0 else pos_slot a + 1)"
    using pos_slot_less [of a] unfolding pos_slot_def [of "a + 1"] m
    by (auto simp: RX_NUM_CHUNKS_val)
  have "(a + 1) div ?N = (if pos_slot a + 1 = RX_NUM_CHUNKS then a div ?N + 1 else a div ?N)"
    using pos_slot_less [of a] by (subst a) (auto simp: RX_NUM_CHUNKS_val)
  then show "pos_gen (a + 1) = (if pos_slot a + 1 = RX_NUM_CHUNKS then pos_gen a + 1 else pos_gen a)"
    by (simp add: pos_gen_def)
qed

lemma rx_advance_at:
  assumes "rx_at rx a"
  shows "rx_at (rx_advance rx) (a + 1)"
proof -
  have "of_nat (pos_slot a + 1) = (of_nat RX_NUM_CHUNKS :: u32) \<longleftrightarrow> pos_slot a + 1 = RX_NUM_CHUNKS"
    using pos_slot_less [of a] unfolding word_of_nat_eq_iff
    by (simp add: RX_NUM_CHUNKS_val take_bit_nat_eq_self)
  then have "(of_nat (pos_slot a) + 1 :: u32) = of_nat RX_NUM_CHUNKS \<longleftrightarrow> pos_slot a + 1 = RX_NUM_CHUNKS"
    by (simp add: add.commute)
  with assms show ?thesis
    by (simp add: rx_at_def rx_advance_def Let_def pos_slot_Suc pos_gen_Suc)
qed

lemma rx_advance_sentinel [simp]:
  "sentinel_chunk (rx_advance rx) = sentinel_chunk rx"
  "sentinel_chunk_generation (rx_advance rx) = sentinel_chunk_generation rx"
  by (simp_all add: rx_advance_def Let_def)

lemma rx_copy_take:
  assumes "\<And>j. j < len \<Longrightarrow> mem (t + j) i = c" "len \<le> 120" "length (payload c) = 120"
  shows "rx_copy mem t i len = take len (payload c)"
proof (rule nth_equalityI)
  show "length (rx_copy mem t i len) = length (take len (payload c))"
    using assms(2,3) by (simp add: rx_copy_def)
next
  fix j assume "j < length (rx_copy mem t i len)"
  then have "j < len" by (simp add: rx_copy_def)
  with assms show "rx_copy mem t i len ! j = take len (payload c) ! j"
    by (simp add: rx_copy_def chunk_byte_def)
qed

lemma rx_copy_length [simp]: "length (rx_copy mem t i len) = len"
  by (simp add: rx_copy_def)

lemma rx_copy_stream:
  assumes "hw_stream ring" "hw_memory ring w mem" "0 \<le> k" "len \<le> 120" "k < w t"
    and "\<And>t'. t' < t + len \<Longrightarrow> w t' < k + int RX_NUM_CHUNKS"
  shows "rx_copy mem t (pos_slot k) len = take len (payload (ring k))"
proof (rule rx_copy_take)
  fix j assume "j < len"
  then have "k < w (t + j)" "w (t + j) < k + int RX_NUM_CHUNKS"
    using assms(5,6) hw_mono [OF assms(2), of t "t + j"] by auto
  then show "mem (t + j) (pos_slot k) = ring k"
    by (rule hw_read [OF assms(2)])
qed (use assms stream_payload in auto)

subsection \<open>Time moves forward\<close>

lemma catchup_scan_time: "catchup_scan mem t n v = (v', t') \<Longrightarrow> t \<le> t'"
  by (induction n arbitrary: t v)
    (auto simp: Let_def split: if_splits dest: Suc_leD)

lemma exanic_rx_catchup_time: "exanic_rx_catchup mem t rx = (rx', t') \<Longrightarrow> t \<le> t'"
  by (auto simp: exanic_rx_catchup_def Let_def split: prod.splits if_splits dest: catchup_scan_time)

lemma rx_spin_Some:
  "rx_spin fuel mem t rx = Some (u, t') \<Longrightarrow>
    \<exists>t0\<ge>t. t' = Suc t0 \<and> u = mem t0 (unat (next_chunk rx)) \<and> chunk_generation u \<noteq> generation rx - 1"
proof (induction fuel arbitrary: t)
  case (Suc fuel)
  show ?case
  proof (cases "chunk_generation (mem t (unat (next_chunk rx))) = generation rx - 1")
    case True
    with Suc show ?thesis by (fastforce simp: Let_def dest: Suc_leD)
  next
    case False
    with Suc.prems show ?thesis by (auto simp: Let_def)
  qed
qed simp

lemma receive_last_time: "t \<le> out_time (receive_last mem t rx c u sz buf n)"
  by (auto simp: receive_last_def Let_def split: prod.split dest!: exanic_rx_catchup_time)

lemma receive_loop_time:
  "receive_loop fuel mem t rx u sz buf n = Some r \<Longrightarrow> t \<le> out_time r"
proof (induction fuel mem t rx u sz buf n rule: receive_loop.induct)
  case (2 fuel mem t rx u sz buf n)
  let ?t = "if sz + 120 \<le> n then t + 120 else t"
  show ?case
  proof (cases "chunk_length u \<noteq> 0")
    case True
    with 2 show ?thesis using receive_last_time by (auto simp: Let_def)
  next
    case False
    with 2(2) obtain u' t2 where sp: "rx_spin fuel mem ?t (rx_advance rx) = Some (u', t2)"
      by (auto simp: Let_def split: option.splits if_splits)
    then have t2: "t \<le> t2"
      by (auto dest!: rx_spin_Some split: if_splits)
    show ?thesis
    proof (cases "chunk_generation u' \<noteq> generation (rx_advance rx)")
      case True
      with False 2(2) sp t2 show ?thesis
        by (auto simp: Let_def split: prod.splits dest!: exanic_rx_catchup_time)
    next
      case gen: False
      from False gen 2(2) sp have "t2 \<le> out_time r"
        using 2(1) [OF refl refl _ refl refl refl sp refl] by (simp add: Let_def)
      with t2 show ?thesis by simp
    qed
  qed
qed simp

subsection \<open>What a successful receive returns\<close>

text \<open>A chunk found with the generation of position \<open>p\<close> is position \<open>p\<close>, and it is complete.\<close>

lemma chunk_at:
  assumes "hw_stream ring" "hw_memory ring w mem" "rx_at rx p"
    and "chunk_generation (mem t (unat (next_chunk rx))) = generation rx"
    and "p \<le> w t" "w t \<le> p + 256 * int RX_NUM_CHUNKS"
  shows "p < w t" "\<exists>q. mem t (unat (next_chunk rx)) = (ring p)\<lparr>payload := q\<rparr>"
proof -
  have slot: "unat (next_chunk rx) = pos_slot p" and "generation rx = pos_gen p"
    using assms(3) by (simp_all add: rx_at_def)
  with assms(4) have "pos_gen (slot_pos (w t) (pos_slot p)) = pos_gen p"
    using hw_gen [OF assms(1,2) pos_slot_less] by simp
  then have sp: "slot_pos (w t) (pos_slot p) = p"
    using assms(5,6) by (intro slot_pos_by_gen) (auto simp: RX_NUM_CHUNKS_val)
  then show "p < w t" using slot_pos_bounds(1) [of "w t" "pos_slot p"] by simp
  show "\<exists>q. mem t (unat (next_chunk rx)) = (ring p)\<lparr>payload := q\<rparr>"
    using hw_memory_slot [OF assms(2) pos_slot_less [of p], of t] unfolding slot sp by blast
qed

lemma sentinel_ok_bound:
  assumes "hw_stream ring" "hw_memory ring w mem" "sentinel_at rx s"
    and "chunk_generation (mem t (unat (sentinel_chunk rx))) = ucast (sentinel_chunk_generation rx)"
    and "s \<le> w t" "w t \<le> s + 256 * int RX_NUM_CHUNKS"
  shows "w t \<le> s + int RX_NUM_CHUNKS"
proof -
  have "pos_gen (slot_pos (w t) (pos_slot s)) = pos_gen s"
    using assms(3,4) hw_gen [OF assms(1,2) pos_slot_less [of s], of t]
    by (simp add: sentinel_at_def)
  then have "slot_pos (w t) (pos_slot s) = s"
    using assms(5,6) by (intro slot_pos_by_gen) (auto simp: RX_NUM_CHUNKS_val)
  with slot_pos_bounds(2) [of "w t" "pos_slot s"] show ?thesis by simp
qed

text \<open>
  The facts about a result that says it received the frame from position \<open>p\<close> after
  \<open>sz\<close> bytes already in the buffer.
\<close>

definition received :: "(int \<Rightarrow> rx_chunk) \<Rightarrow> (nat \<Rightarrow> int) \<Rightarrow> rx_memory \<Rightarrow> exanic_rx \<Rightarrow>
    nat \<Rightarrow> int \<Rightarrow> nat \<Rightarrow> bytes \<Rightarrow> nat \<Rightarrow> rx_result \<Rightarrow> int \<Rightarrow> bool" where
  "received ring w mem rx t p sz buf n r e \<longleftrightarrow>
     is_frame ring p e \<and> rx_at (out_rx r) (e + 1) \<and> sentinel_at (out_rx r) e \<and>
     t < out_time r \<and> e < w (out_time r - 1) \<and>
     chunk_generation (mem (out_time r - 1) (unat (sentinel_chunk rx))) = ucast (sentinel_chunk_generation rx) \<and>
     ret r = int (sz + length (frame_bytes ring p e)) \<and> ret r \<le> int n \<and>
     length (rx_buf r) = length buf \<and>
     out_timestamp r = Some (timestamp (ring e)) \<and>
     frame_status (ring e) AND RX_FRAME_ERROR_MASK = 0 \<and>
     ((\<forall>t'<out_time r. w t' < p + int RX_NUM_CHUNKS) \<longrightarrow>
        take (nat (ret r)) (rx_buf r) = take sz buf @ frame_bytes ring p e)"

lemma receive_last_received:
  assumes hs: "hw_stream ring" and hm: "hw_memory ring w mem"
    and at: "rx_at rx p" "0 \<le> p" "p < w t" "u = (ring p)\<lparr>payload := q\<rparr>" "chunk_length u \<noteq> 0"
    and n: "n \<le> length buf"
    and r: "r = receive_last mem t (rx_advance rx) (next_chunk rx) u sz buf n" "0 < ret r"
  shows "received ring w mem rx t p sz buf n r p"
proof -
  obtain len where ld: "unat (chunk_length (ring p)) = len" by simp
  have slot: "unat (next_chunk rx) = pos_slot p" using at(1) by (simp add: rx_at_def)
  have len: "len \<le> 120" "length (payload (ring p)) = 120"
    unfolding ld [symmetric] using hs at(2) by (auto intro: stream_length stream_payload)
  let ?buf = "blit buf sz (rx_copy mem t (pos_slot p) len)"
  let ?rx = "(rx_advance rx)\<lparr>sentinel_chunk := next_chunk rx, sentinel_chunk_generation := ucast (pos_gen p)\<rparr>"
  have r': "r = \<lparr>ret = int (sz + len), rx_buf = ?buf, out_timestamp = Some (timestamp (ring p)),
      out_rx = ?rx, out_time = Suc (t + len)\<rparr>" "sz + len \<le> n"
      "chunk_generation (mem (t + len) (unat (sentinel_chunk rx))) = ucast (sentinel_chunk_generation rx)"
      "frame_status (ring p) AND RX_FRAME_ERROR_MASK = 0"
    using r at(4) slot ld stream_gen [OF hs, of p]
    by (auto simp: receive_last_def Let_def split: if_splits prod.splits)
  have "rx_at ?rx (p + 1)"
    using rx_advance_at [OF at(1)] by (simp add: rx_at_def)
  moreover have "sentinel_at ?rx p"
    using at(1) by (simp add: sentinel_at_def rx_at_def)
  moreover have "p < w (t + len)"
    using at(3) hw_mono [OF hm, of t "t + len"] by simp
  moreover have "is_frame ring p p" using at(4,5) by (simp add: is_frame_last)
  moreover have "take (sz + len) ?buf = take sz buf @ take len (payload (ring p))"
    if w: "\<forall>t'<out_time r. w t' < p + int RX_NUM_CHUNKS"
  proof -
    have "rx_copy mem t (pos_slot p) len = take len (payload (ring p))"
      using w r'(1) by (intro rx_copy_stream [OF hs hm at(2) len(1) at(3)]) auto
    then show ?thesis using take_blit [of sz buf "rx_copy mem t (pos_slot p) len"] r'(2) n len by simp
  qed
  ultimately show ?thesis
    unfolding received_def using r' n len
    by (simp add: frame_bytes_last ld nat_int_add)
qed

text \<open>One more chunk in front of a frame that was received.\<close>

lemma received_step:
  assumes rec: "received ring w mem (rx_advance rx) t2 (p + 1) (sz + 120) buf1 n r e"
    and hs: "hw_stream ring" and hm: "hw_memory ring w mem"
    and at: "0 \<le> p" "p < w t" "chunk_length (ring p) = 0"
    and n: "n \<le> length buf"
    and buf1: "buf1 = (if sz + 120 \<le> n then blit buf sz (rx_copy mem t (pos_slot p) 120) else buf)"
    and t: "t + 120 \<le> t2 \<or> n < sz + 120" "t \<le> t2"
  shows "received ring w mem rx t p sz buf n r e"
proof -
  have len: "length (payload (ring p)) = 120" by (rule stream_payload [OF hs at(1)])
  have pe: "p < e" using rec by (simp add: received_def is_frame_def)
  have fits: "sz + 120 \<le> n" using rec by (simp add: received_def)
  have "take (sz + 120) buf1 = take sz buf @ payload (ring p)"
    if w: "\<forall>t'<out_time r. w t' < p + int RX_NUM_CHUNKS"
  proof -
    have "rx_copy mem t (pos_slot p) 120 = take 120 (payload (ring p))"
      using w rec t fits by (intro rx_copy_stream [OF hs hm at(1) _ at(2)]) (auto simp: received_def)
    with len take_blit [of sz buf "rx_copy mem t (pos_slot p) 120"] fits n buf1 show ?thesis by simp
  qed
  moreover have "length buf1 = length buf" using buf1 n by simp
  moreover have "\<forall>t'<out_time r. w t' < p + 1 + int RX_NUM_CHUNKS"
    if "\<forall>t'<out_time r. w t' < p + int RX_NUM_CHUNKS" using that by auto
  ultimately show ?thesis
    using rec at(3) t(2) unfolding received_def
    by (auto simp: frame_bytes_step [OF pe] len intro: is_frame_step)
qed

lemma receive_loop_more:
  assumes "receive_loop (Suc fuel) mem t rx u sz buf n = Some r" "chunk_length u = 0" "0 < ret r"
  obtains u' t1 t2 where
    "t1 = (if sz + 120 \<le> n then t + 120 else t)"
    "rx_spin fuel mem t1 (rx_advance rx) = Some (u', t2)"
    "chunk_generation u' = generation (rx_advance rx)"
    "receive_loop fuel mem t2 (rx_advance rx) u' (sz + 120)
       (if sz + 120 \<le> n then blit buf sz (rx_copy mem t (unat (next_chunk rx)) 120) else buf) n = Some r"
proof -
  let ?t1 = "if sz + 120 \<le> n then t + 120 else t"
  from assms obtain u' t2 where sp: "rx_spin fuel mem ?t1 (rx_advance rx) = Some (u', t2)"
    by (auto simp: Let_def split: option.splits)
  with assms have "chunk_generation u' = generation (rx_advance rx)"
    by (auto simp: Let_def split: prod.splits if_splits)
  with assms sp show thesis by (intro that [OF refl sp]) (simp_all add: Let_def)
qed

lemma receive_loop_received:
  assumes hs: "hw_stream ring" and hm: "hw_memory ring w mem"
  shows "\<lbrakk>receive_loop fuel mem t rx u sz buf n = Some r; 0 < ret r; rx_at rx p; 0 \<le> p;
      u = (ring p)\<lparr>payload := q\<rparr>; p < w t; n \<le> length buf;
      \<forall>t'<out_time r. w t' \<le> p + 256 * int RX_NUM_CHUNKS\<rbrakk> \<Longrightarrow>
    \<exists>e. received ring w mem rx t p sz buf n r e"
proof (induction fuel arbitrary: t rx u sz buf p q)
  case (Suc fuel)
  show ?case
  proof (cases "chunk_length u = 0")
    case False
    with Suc.prems(1) have r: "r = receive_last mem t (rx_advance rx) (next_chunk rx) u sz buf n"
      by (simp add: Let_def)
    have "received ring w mem rx t p sz buf n r p"
      by (rule receive_last_received [OF hs hm Suc.prems(3,4,6,5) False Suc.prems(7) r Suc.prems(2)])
    then show ?thesis ..
  next
    case True
    obtain u' t1 t2 where t1: "t1 = (if sz + 120 \<le> n then t + 120 else t)"
      and sp: "rx_spin fuel mem t1 (rx_advance rx) = Some (u', t2)"
      and gen: "chunk_generation u' = generation (rx_advance rx)"
      and loop: "receive_loop fuel mem t2 (rx_advance rx) u' (sz + 120)
        (if sz + 120 \<le> n then blit buf sz (rx_copy mem t (unat (next_chunk rx)) 120) else buf) n = Some r"
      by (rule receive_loop_more [OF Suc.prems(1) True Suc.prems(2)])
    obtain t0 where t0: "t1 \<le> t0" "t2 = Suc t0" "u' = mem t0 (unat (next_chunk (rx_advance rx)))"
      using rx_spin_Some [OF sp] by blast
    have tt: "t \<le> t0" using t0(1) t1 by (simp split: if_splits)
    have at: "rx_at (rx_advance rx) (p + 1)" by (rule rx_advance_at [OF Suc.prems(3)])
    have "p + 1 \<le> w t0" using Suc.prems(6) hw_mono [OF hm tt] by simp
    moreover have "w t0 \<le> p + 1 + 256 * int RX_NUM_CHUNKS"
    proof -
      have "t0 < out_time r" using receive_loop_time [OF loop] t0(2) by simp
      with Suc.prems(8) have "w t0 \<le> p + 256 * int RX_NUM_CHUNKS" by blast
      then show ?thesis by simp
    qed
    ultimately obtain q' where w0: "p + 1 < w t0" and u': "u' = (ring (p + 1))\<lparr>payload := q'\<rparr>"
      using chunk_at [OF hs hm at gen [unfolded t0(3)]] t0(3) by auto
    have "p + 1 < w t2" using w0 hw_mono [OF hm, of t0 t2] t0(2) by simp
    moreover have "\<forall>t'<out_time r. w t' \<le> p + 1 + 256 * int RX_NUM_CHUNKS"
    proof (intro allI impI)
      fix t' assume "t' < out_time r"
      with Suc.prems(8) have "w t' \<le> p + 256 * int RX_NUM_CHUNKS" by blast
      then show "w t' \<le> p + 1 + 256 * int RX_NUM_CHUNKS" by simp
    qed
    moreover have "n \<le> length (if sz + 120 \<le> n then blit buf sz (rx_copy mem t (unat (next_chunk rx)) 120) else buf)"
      using Suc.prems(7) by simp
    moreover have "0 \<le> p + 1" using Suc.prems(4) by simp
    ultimately obtain e where "received ring w mem (rx_advance rx) t2 (p + 1) (sz + 120)
        (if sz + 120 \<le> n then blit buf sz (rx_copy mem t (unat (next_chunk rx)) 120) else buf) n r e"
      using Suc.IH [OF loop Suc.prems(2) at _ u'] by blast
    note rec = this
    have slot: "unat (next_chunk rx) = pos_slot p" using Suc.prems(3) by (simp add: rx_at_def)
    have clen: "chunk_length (ring p) = 0" using True Suc.prems(5) by simp
    have "t + 120 \<le> t2 \<or> n < sz + 120" "t \<le> t2"
      using t0(1,2) t1 by (simp_all split: if_splits)
    from received_step [OF rec [unfolded slot] hs hm Suc.prems(4,6) clen Suc.prems(7) refl this]
    show ?thesis ..
  qed
qed simp

subsection \<open>A complete frame is received\<close>

definition frame_result :: "rx_chunk \<Rightarrow> nat \<Rightarrow> nat \<Rightarrow> int" where
  "frame_result c sz n =
     (if n < sz then - RX_FRAME_TRUNCATED
      else if frame_status c AND RX_FRAME_ERROR_MASK \<noteq> 0
      then - uint (frame_status c AND RX_FRAME_ERROR_MASK) else int sz)"

text \<open>While the card stays within one lap of the sentinel, nothing looks overwritten.\<close>

lemma sentinel_intact:
  assumes "hw_stream ring" "hw_memory ring w mem" "sentinel_at rx s"
    and "s < w t" "w t \<le> s + int RX_NUM_CHUNKS"
  shows "chunk_generation (mem t (unat (sentinel_chunk rx))) = ucast (sentinel_chunk_generation rx)"
  using assms(3) hw_gen [OF assms(1,2) pos_slot_less [of s], of t] slot_pos_unique [of s "w t"] assms(4,5)
  by (simp add: sentinel_at_def)

lemma info_at:
  assumes "hw_stream ring" "hw_memory ring w mem" "rx_at rx p" "p < w t" "w t \<le> p + int RX_NUM_CHUNKS"
  shows "\<exists>q. mem t (unat (next_chunk rx)) = (ring p)\<lparr>payload := q\<rparr>"
    "chunk_generation (mem t (unat (next_chunk rx))) = generation rx"
proof -
  have slot: "unat (next_chunk rx) = pos_slot p" and sp: "slot_pos (w t) (pos_slot p) = p"
    using assms(3-5) by (auto simp: rx_at_def intro: slot_pos_unique)
  show "\<exists>q. mem t (unat (next_chunk rx)) = (ring p)\<lparr>payload := q\<rparr>"
    using hw_memory_slot [OF assms(2) pos_slot_less [of p], of t] unfolding slot sp by blast
  then show "chunk_generation (mem t (unat (next_chunk rx))) = generation rx"
    using stream_gen [OF assms(1), of p] assms(3) by (auto simp: rx_at_def)
qed

lemma word8_pred_neq [simp]: "(g :: u8) \<noteq> g - 1" "g - 1 \<noteq> (g :: u8)"
  by simp_all

lemma receive_last_result:
  assumes "chunk_generation (mem (t + unat (chunk_length u)) (unat (sentinel_chunk rx)))
      = ucast (sentinel_chunk_generation rx)"
  shows "ret (receive_last mem t rx c u sz buf n) = frame_result u (sz + unat (chunk_length u)) n"
    and "rx_at (out_rx (receive_last mem t rx c u sz buf n)) a = rx_at rx a"
  using assms by (auto simp: receive_last_def frame_result_def rx_at_def Let_def)

lemma receive_loop_complete:
  assumes hs: "hw_stream ring" and hm: "hw_memory ring w mem"
    and lap: "\<And>t'. t \<le> t' \<Longrightarrow> w t' \<le> s + int RX_NUM_CHUNKS"
  shows "\<lbrakk>nat (e - p) < fuel; is_frame ring p e; e < w t; s < p; 0 \<le> p; rx_at rx p; sentinel_at rx s;
      u = (ring p)\<lparr>payload := q\<rparr>\<rbrakk> \<Longrightarrow>
    \<exists>r. receive_loop fuel mem t rx u sz buf n = Some r \<and> rx_at (out_rx r) (e + 1) \<and>
      ret r = frame_result (ring e) (sz + length (frame_bytes ring p e)) n"
  using lap
proof (induction fuel arbitrary: t rx u sz buf p q)
  case (Suc fuel)
  have len: "length (payload (ring p)) = 120" "unat (chunk_length (ring p)) \<le> 120"
    using hs Suc.prems(5) by (auto intro: stream_length stream_payload)
  consider (last) "p = e" "chunk_length (ring p) \<noteq> 0"
    | (more) "p < e" "chunk_length (ring p) = 0" "is_frame ring (p + 1) e"
    using is_frame_cases [OF Suc.prems(2)] by blast
  then show ?case
  proof cases
    case last
    let ?t = "t + unat (chunk_length (ring p))"
    have "s < w ?t" "w ?t \<le> s + int RX_NUM_CHUNKS"
      using hw_mono [OF hm, of t ?t] Suc.prems(3,4,9) last(1) by auto
    then have ok: "chunk_generation (mem (t + unat (chunk_length u)) (unat (sentinel_chunk (rx_advance rx))))
        = ucast (sentinel_chunk_generation (rx_advance rx))"
      using sentinel_intact [OF hs hm Suc.prems(7), of ?t] Suc.prems(8) by simp
    have u: "chunk_length u = chunk_length (ring e)" "frame_status u = frame_status (ring e)"
      using Suc.prems(8) last(1) by simp_all
    have "length (frame_bytes ring p e) = unat (chunk_length u)"
      using len last(1) u by (simp add: frame_bytes_last)
    then show ?thesis
      using receive_last_result [where mem = mem and t = t and u = u and rx = "rx_advance rx",
          OF ok, of "next_chunk rx" sz buf n]
        rx_advance_at [OF Suc.prems(6)] last u
      by (simp add: Let_def frame_result_def)
  next
    case more
    let ?fits = "sz + 120 \<le> n"
    let ?t1 = "if ?fits then t + 120 else t"
      and ?buf = "if ?fits then blit buf sz (rx_copy mem t (unat (next_chunk rx)) 120) else buf"
    have tt: "t \<le> ?t1" by simp
    have wt: "p + 1 < w ?t1 \<or> p + 1 = e \<and> e < w ?t1" "w ?t1 \<le> s + int RX_NUM_CHUNKS"
      using hw_mono [OF hm tt] Suc.prems(3) Suc.prems(9) [OF tt] more(1) by auto
    have at: "rx_at (rx_advance rx) (p + 1)" by (rule rx_advance_at [OF Suc.prems(6)])
    obtain q' where u': "mem ?t1 (unat (next_chunk (rx_advance rx))) = (ring (p + 1))\<lparr>payload := q'\<rparr>"
      and gen: "chunk_generation (mem ?t1 (unat (next_chunk (rx_advance rx)))) = generation (rx_advance rx)"
      using info_at [OF hs hm at, of ?t1] wt Suc.prems(4) by auto
    let ?u = "mem ?t1 (unat (next_chunk (rx_advance rx)))"
    have fuel: "nat (e - (p + 1)) < fuel" "fuel \<noteq> 0"
      using Suc.prems(1) more(1) by auto
    then have spin: "rx_spin fuel mem ?t1 (rx_advance rx) = Some (?u, Suc ?t1)"
      using gen by (cases fuel) (simp_all add: Let_def)
    have "\<exists>r. receive_loop fuel mem (Suc ?t1) (rx_advance rx) ?u (sz + 120) ?buf n = Some r \<and>
        rx_at (out_rx r) (e + 1) \<and>
        ret r = frame_result (ring e) (sz + 120 + length (frame_bytes ring (p + 1) e)) n"
    proof (rule Suc.IH [OF fuel(1) more(3) _ _ _ at _ u'])
      have t1: "t \<le> Suc ?t1" by simp
      show "e < w (Suc ?t1)" using Suc.prems(3) hw_mono [OF hm t1] by simp
      show "w t' \<le> s + int RX_NUM_CHUNKS" if "Suc ?t1 \<le> t'" for t'
        using Suc.prems(9) t1 that by (meson order_trans)
      show "sentinel_at (rx_advance rx) s" using Suc.prems(7) by (simp add: sentinel_at_def)
    qed (use Suc.prems(4,5) in simp_all)
    with spin gen more(2) Suc.prems(8) len show ?thesis
      by (cases ?fits) (simp_all add: Let_def frame_bytes_step [OF more(1)] add.assoc)
  qed
qed simp

end
