(* ===== verification/RxCatchup.thy ===== *)
theory RxCatchup
  imports RxSpec
begin

text \<open>
  Where \<open>__exanic_rx_catchup\<close> leaves the reader. The scan runs down the slots; slots at
  and above the write slot hold the previous lap, those below it the current one, so the
  scan meets the previous lap first (phase A) and the newest chunk after the generation
  changes (phase B). The invariants below are stated over what the scan looks at: whether
  a slot ends a frame, and its generation.
\<close>

definition scan_view :: "rx_memory \<Rightarrow> (nat \<Rightarrow> bool) \<Rightarrow> nat \<Rightarrow> u8 \<Rightarrow> u8 \<Rightarrow> bool" where
  "scan_view mem eof p gA gB \<longleftrightarrow> p < RX_NUM_CHUNKS \<and> gA \<noteq> gB \<and>
     (\<forall>t i. i < RX_NUM_CHUNKS \<longrightarrow> (chunk_length (mem t i) \<noteq> 0) = eof i \<and>
        chunk_generation (mem t i) = (if i < p then gB else gA))"

text \<open>The end of frame remembered from the slots \<open>n\<close> and above of the previous lap.\<close>

definition old_eof :: "(nat \<Rightarrow> bool) \<Rightarrow> u8 \<Rightarrow> nat \<Rightarrow> catchup_vars \<Rightarrow> bool" where
  "old_eof eof gA n v \<longleftrightarrow>
     (if eof_found v
      then \<exists>c. n \<le> c \<and> c < RX_NUM_CHUNKS \<and> eof c \<and> (\<forall>i. c < i \<and> i < RX_NUM_CHUNKS \<longrightarrow> \<not> eof i) \<and>
             eof_chunk v = of_nat c \<and> eof_gen v = gA
      else \<forall>i. n \<le> i \<and> i < RX_NUM_CHUNKS \<longrightarrow> \<not> eof i)"

definition phase_a :: "(nat \<Rightarrow> bool) \<Rightarrow> u8 \<Rightarrow> nat \<Rightarrow> catchup_vars \<Rightarrow> bool" where
  "phase_a eof gA n v \<longleftrightarrow> \<not> before_break v \<and> old_eof eof gA n v \<and>
     (n < RX_NUM_CHUNKS \<longrightarrow> break_gen v = gA \<and> break_chunk v = of_nat (RX_NUM_CHUNKS - 1))"

definition phase_b :: "(nat \<Rightarrow> bool) \<Rightarrow> nat \<Rightarrow> u8 \<Rightarrow> u8 \<Rightarrow> nat \<Rightarrow> catchup_vars \<Rightarrow> bool" where
  "phase_b eof p gA gB n v \<longleftrightarrow> before_break v \<and> old_eof eof gA p v \<and>
     break_gen v = gB \<and> break_chunk v = of_nat (p - 1) \<and> (\<forall>i. n \<le> i \<and> i < p \<longrightarrow> \<not> eof i)"

lemma old_eof_step:
  assumes "old_eof eof gA (Suc n) v" "n < RX_NUM_CHUNKS" "\<not> eof n \<or> eof_found v"
  shows "old_eof eof gA n v"
proof (cases "eof_found v")
  case True
  with assms(1) show ?thesis
    by (auto simp: old_eof_def intro: Suc_leD)
next
  case False
  with assms show ?thesis
    by (auto simp: old_eof_def) (metis le_neq_implies_less not_less_eq_eq not_less)
qed

lemma old_eof_cong:
  "eof_found v' = eof_found v \<Longrightarrow> eof_chunk v' = eof_chunk v \<Longrightarrow> eof_gen v' = eof_gen v \<Longrightarrow>
    old_eof eof gA n v' = old_eof eof gA n v"
  by (simp add: old_eof_def)

lemma catchup_break_simps [simp]:
  "eof_found (catchup_break u c v) = eof_found v"
  "eof_chunk (catchup_break u c v) = eof_chunk v"
  "eof_gen (catchup_break u c v) = eof_gen v"
  by (simp_all add: catchup_break_def)

lemma phase_a_break:
  assumes view: "scan_view mem eof p gA gB" and n: "p \<le> n" "n < RX_NUM_CHUNKS"
    and a: "phase_a eof gA (Suc n) v"
  shows "\<not> before_break (catchup_break (mem t n) n v)"
    "break_gen (catchup_break (mem t n) n v) = gA"
    "break_chunk (catchup_break (mem t n) n v) = of_nat (RX_NUM_CHUNKS - 1)"
proof -
  have g: "chunk_generation (mem t n) = gA" using view n by (simp add: scan_view_def)
  show "\<not> before_break (catchup_break (mem t n) n v)"
    "break_gen (catchup_break (mem t n) n v) = gA"
    "break_chunk (catchup_break (mem t n) n v) = of_nat (RX_NUM_CHUNKS - 1)"
    using a g n(2) unfolding phase_a_def catchup_break_def by auto
qed

lemma phase_a_step:
  assumes view: "scan_view mem eof p gA gB" and n: "p \<le> n" "n < RX_NUM_CHUNKS"
    and a: "phase_a eof gA (Suc n) v"
  shows "\<exists>v'. catchup_scan mem t (Suc n) v = catchup_scan mem (Suc t) n v' \<and> phase_a eof gA n v'"
proof -
  let ?u = "mem t n" and ?v = "catchup_break (mem t n) n v"
  note b = phase_a_break [OF view n a, of t]
  have e: "(chunk_length ?u \<noteq> 0) = eof n" and g: "chunk_generation ?u = gA"
    using view n by (simp_all add: scan_view_def)
  have old: "old_eof eof gA (Suc n) ?v"
    using a by (simp add: phase_a_def old_eof_def)
  show ?thesis
  proof (cases "eof n \<and> \<not> eof_found v")
    case True
    have "old_eof eof gA n (catchup_eof ?u n ?v)"
      using True old n(2) g unfolding old_eof_def catchup_eof_def
      by (auto intro!: exI [of _ n])
    moreover have "break_gen (catchup_eof ?u n ?v) = gA"
      "break_chunk (catchup_eof ?u n ?v) = of_nat (RX_NUM_CHUNKS - 1)"
      "\<not> before_break (catchup_eof ?u n ?v)"
      using b by (simp_all add: catchup_eof_def)
    moreover have "catchup_scan mem t (Suc n) v = catchup_scan mem (Suc t) n (catchup_eof ?u n ?v)"
      using True e b(1) by (simp add: Let_def)
    ultimately show ?thesis by (auto simp: phase_a_def)
  next
    case False
    have "old_eof eof gA n ?v"
      using False by (intro old_eof_step [OF old n(2)]) auto
    moreover have "catchup_scan mem t (Suc n) v = catchup_scan mem (Suc t) n ?v"
      using False e b(1) by (auto simp: Let_def)
    ultimately show ?thesis using b by (auto simp: phase_a_def)
  qed
qed

lemma phase_a_run:
  assumes view: "scan_view mem eof p gA gB"
  shows "p + d \<le> RX_NUM_CHUNKS \<Longrightarrow> phase_a eof gA (p + d) v \<Longrightarrow>
    \<exists>v' t'. catchup_scan mem t (p + d) v = catchup_scan mem t' p v' \<and> phase_a eof gA p v'"
proof (induction d arbitrary: t v)
  case (Suc d)
  then obtain v1 where "catchup_scan mem t (Suc (p + d)) v = catchup_scan mem (Suc t) (p + d) v1"
      and "phase_a eof gA (p + d) v1"
    using phase_a_step [OF view, of "p + d" v t] by auto
  with Suc.IH [of v1 "Suc t"] Suc.prems(1) show ?case by auto
qed auto

text \<open>What the scan leaves behind once it is below the generation change.\<close>

definition scan_done :: "(nat \<Rightarrow> bool) \<Rightarrow> nat \<Rightarrow> u8 \<Rightarrow> u8 \<Rightarrow> catchup_vars \<Rightarrow> bool" where
  "scan_done eof p gA gB v \<longleftrightarrow>
     (\<exists>c<p. eof_found v \<and> eof c \<and> (\<forall>i. c < i \<and> i < p \<longrightarrow> \<not> eof i) \<and>
        eof_chunk v = of_nat c \<and> eof_gen v = gB) \<or>
     ((\<forall>i<p. \<not> eof i) \<and> old_eof eof gA p v \<and>
        (if p = 0 then break_gen v = gA \<and> break_chunk v = of_nat (RX_NUM_CHUNKS - 1)
         else break_gen v = gB \<and> break_chunk v = of_nat (p - 1)))"

lemma phase_b_step:
  assumes view: "scan_view mem eof p gA gB" and n: "n < p"
    and b: "phase_b eof p gA gB (Suc n) v \<or> (Suc n = p \<and> phase_a eof gA p v)"
  shows "\<exists>v'. phase_b eof p gA gB n v' \<and> catchup_scan mem t (Suc n) v = catchup_scan mem (Suc t) n v' \<or>
    scan_done eof p gA gB v' \<and> catchup_scan mem t (Suc n) v = (v', Suc t)"
proof -
  let ?u = "mem t n" and ?v = "catchup_break (mem t n) n v"
  have p: "p < RX_NUM_CHUNKS" "gA \<noteq> gB" "n < RX_NUM_CHUNKS" "n \<noteq> RX_NUM_CHUNKS - 1"
    using view n by (auto simp: scan_view_def)
  have e: "(chunk_length ?u \<noteq> 0) = eof n" and g: "chunk_generation ?u = gB"
    using view n p by (simp_all add: scan_view_def)
  have v: "before_break ?v" "break_gen ?v = gB" "break_chunk ?v = of_nat (p - 1)"
    using b p g unfolding phase_b_def phase_a_def catchup_break_def by (auto simp del: of_nat_diff)
  have old: "old_eof eof gA p ?v"
    using b by (auto simp: phase_b_def phase_a_def old_eof_def)
  have clear: "\<forall>i. Suc n \<le> i \<and> i < p \<longrightarrow> \<not> eof i"
    using b by (auto simp: phase_b_def)
  show ?thesis
  proof (cases "eof n")
    case True
    have "scan_done eof p gA gB (catchup_eof ?u n ?v)"
      unfolding scan_done_def catchup_eof_def using True n clear g
      by (intro disjI1 exI [of _ n]) auto
    with True e v(1) show ?thesis by (auto simp: Let_def)
  next
    case False
    have "\<forall>i. n \<le> i \<and> i < p \<longrightarrow> \<not> eof i"
      using clear False by (metis le_neq_implies_less not_less_eq_eq not_less)
    then have "phase_b eof p gA gB n ?v" using v old by (simp add: phase_b_def)
    with False e show ?thesis by (auto simp: Let_def)
  qed
qed

lemma phase_b_run:
  assumes view: "scan_view mem eof p gA gB"
  shows "n \<le> p \<Longrightarrow> 0 < p \<Longrightarrow> phase_b eof p gA gB n v \<or> (n = p \<and> phase_a eof gA p v) \<Longrightarrow>
    catchup_scan mem t n v = (v', t') \<Longrightarrow> scan_done eof p gA gB v'"
proof (induction n arbitrary: t v)
  case 0
  then show ?case by (auto simp: phase_b_def scan_done_def)
next
  case (Suc n)
  from phase_b_step [OF view _ Suc.prems(3), of t] Suc.prems(1)
  obtain v1 where
    "phase_b eof p gA gB n v1 \<and> catchup_scan mem t (Suc n) v = catchup_scan mem (Suc t) n v1 \<or>
     scan_done eof p gA gB v1 \<and> catchup_scan mem t (Suc n) v = (v1, Suc t)" by auto
  then show ?case using Suc.IH [of v1 "Suc t"] Suc.prems by auto
qed

lemma catchup_scan_done:
  assumes view: "scan_view mem eof p gA gB"
    and scan: "catchup_scan mem t RX_NUM_CHUNKS catchup_init = (v, t')"
  shows "scan_done eof p gA gB v"
proof -
  have "phase_a eof gA RX_NUM_CHUNKS catchup_init"
    by (auto simp: phase_a_def old_eof_def catchup_init_def)
  moreover have "p + (RX_NUM_CHUNKS - p) = RX_NUM_CHUNKS"
    using view by (simp add: scan_view_def)
  ultimately obtain v1 t1 where
    1: "catchup_scan mem t1 p v1 = (v, t')" and 2: "phase_a eof gA p v1"
    using phase_a_run [OF view, of "RX_NUM_CHUNKS - p" catchup_init t] scan by auto
  show ?thesis
  proof (cases "p = 0")
    case True
    with 1 2 show ?thesis by (simp add: scan_done_def phase_a_def)
  next
    case False
    with 1 2 show ?thesis by (intro phase_b_run [OF view _ _ _ 1]) auto
  qed
qed

subsection \<open>Back to positions\<close>

lemma slot_pos_cases:
  assumes "i < RX_NUM_CHUNKS"
  shows "slot_pos w i = (if i < pos_slot w then w - int (pos_slot w) + int i
    else w - int (pos_slot w) + int i - int RX_NUM_CHUNKS)"
proof -
  have p: "pos_slot w < 16384"
    using pos_slot_less [of w] unfolding RX_NUM_CHUNKS_val .
  have m: "(w - int (pos_slot w)) mod int RX_NUM_CHUNKS = 0"
    unfolding int_pos_slot by simp
  define k where "k = (if i < pos_slot w then w - int (pos_slot w) + int i
    else w - int (pos_slot w) + int i - int RX_NUM_CHUNKS)"
  have "(w - int (pos_slot w) + int i) mod int RX_NUM_CHUNKS = int i"
    using m assms by (simp add: mod_add_eq [of "w - int (pos_slot w)" _ "int i", symmetric])
  then have "pos_slot k = i" unfolding k_def pos_slot_def by simp
  moreover have "k < w" "w - int RX_NUM_CHUNKS \<le> k"
    using p assms unfolding k_def RX_NUM_CHUNKS_val by auto
  ultimately show ?thesis using slot_pos_unique [of k w] unfolding k_def by simp
qed

lemma pos_gen_slot_pos:
  assumes "i < RX_NUM_CHUNKS"
  shows "pos_gen (slot_pos w i) = (if i < pos_slot w then pos_gen w else pos_gen w - 1)"
proof -
  let ?N = "int RX_NUM_CHUNKS"
  have b: "w - int (pos_slot w) = ?N * (w div ?N)"
    unfolding int_pos_slot by (simp add: minus_mod_eq_mult_div)
  have "(w - int (pos_slot w) + int i) div ?N = w div ?N"
    using assms unfolding b by simp
  moreover have "(w - int (pos_slot w) + int i - ?N) div ?N = (w - int (pos_slot w) + int i) div ?N - 1"
    using div_add_self2 [of ?N "w - int (pos_slot w) + int i - ?N"] by simp
  ultimately show ?thesis
    unfolding slot_pos_cases [OF assms] by (simp add: pos_gen_def)
qed

lemma hw_scan_view:
  assumes hs: "hw_stream ring" and hm: "hw_memory ring (\<lambda>_. w) mem"
  shows "scan_view mem (\<lambda>i. chunk_length (ring (slot_pos w i)) \<noteq> 0) (pos_slot w) (pos_gen w - 1) (pos_gen w)"
  unfolding scan_view_def
proof (intro conjI allI impI)
  fix t i assume i: "i < RX_NUM_CHUNKS"
  obtain q where "mem t i = (ring (slot_pos w i))\<lparr>payload := q\<rparr>"
    using hw_memory_slot [OF hm i, of t] by blast
  then show "(chunk_length (mem t i) \<noteq> 0) = (chunk_length (ring (slot_pos w i)) \<noteq> 0)"
    and "chunk_generation (mem t i) = (if i < pos_slot w then pos_gen w else pos_gen w - 1)"
    using stream_gen [OF hs] pos_gen_slot_pos [OF i, of w] by auto
qed simp_all

text \<open>Where a reader may resume: after the last end of frame among the chunks still held.\<close>

definition resume_at :: "(int \<Rightarrow> rx_chunk) \<Rightarrow> int \<Rightarrow> int \<Rightarrow> bool" where
  "resume_at ring w e \<longleftrightarrow> w - int RX_NUM_CHUNKS \<le> e \<and> e < w \<and>
     (\<forall>k. e < k \<and> k < w \<longrightarrow> chunk_length (ring k) = 0) \<and>
     (chunk_length (ring e) \<noteq> 0 \<or>
      e = w - 1 \<and> (\<forall>k. w - int RX_NUM_CHUNKS \<le> k \<and> k < w \<longrightarrow> chunk_length (ring k) = 0))"

definition catchup_target :: "catchup_vars \<Rightarrow> u32 \<times> u8" where
  "catchup_target v = (if eof_found v then (eof_chunk v, eof_gen v) else (break_chunk v, break_gen v))"

lemma catchup_scan_target:
  assumes hs: "hw_stream ring" and hm: "hw_memory ring (\<lambda>_. w) mem"
    and scan: "catchup_scan mem t RX_NUM_CHUNKS catchup_init = (v, t')"
  shows "\<exists>e. resume_at ring w e \<and> catchup_target v = (of_nat (pos_slot e), pos_gen e)"
proof -
  let ?N = "int RX_NUM_CHUNKS" and ?p = "pos_slot w"
  let ?eof = "\<lambda>i. chunk_length (ring (slot_pos w i)) \<noteq> 0"
  have slot: "\<exists>i<RX_NUM_CHUNKS. k = slot_pos w i \<and> i = pos_slot k" if "w - ?N \<le> k" "k < w" for k
    using slot_pos_unique [OF that(2,1)] by (metis pos_slot_less)
  have res: "resume_at ring w (slot_pos w c) \<and> (of_nat c, g) = (of_nat (pos_slot (slot_pos w c)), pos_gen (slot_pos w c))"
    if c: "c < RX_NUM_CHUNKS" "?eof c" "g = pos_gen (slot_pos w c)"
      and none: "\<And>i. i < RX_NUM_CHUNKS \<Longrightarrow> slot_pos w c < slot_pos w i \<Longrightarrow> \<not> ?eof i" for c g
  proof -
    have "chunk_length (ring k) = 0" if k: "slot_pos w c < k" "k < w" for k
    proof -
      have "w - ?N \<le> k" using k slot_pos_bounds(2) [of w c] by simp
      from slot [OF this k(2)] k(1) none show ?thesis by blast
    qed
    with c slot_pos_bounds [of w c] show ?thesis
      by (simp add: resume_at_def pos_slot_slot_pos)
  qed
  have up: "i < ?p \<and> (c < i \<or> ?p \<le> c) \<or> ?p \<le> i \<and> c < i \<and> ?p \<le> c"
    if "c < RX_NUM_CHUNKS" "i < RX_NUM_CHUNKS" "slot_pos w c < slot_pos w i" for c i
    using that slot_pos_cases [OF that(1), of w] slot_pos_cases [OF that(2), of w]
    by (auto split: if_splits)
  from catchup_scan_done [OF hw_scan_view [OF hs hm] scan]
  consider (new) c where "c < ?p" "eof_found v" "?eof c" "\<And>i. c < i \<Longrightarrow> i < ?p \<Longrightarrow> \<not> ?eof i"
      "eof_chunk v = of_nat c" "eof_gen v = pos_gen w"
    | (old) c where "?p \<le> c" "c < RX_NUM_CHUNKS" "eof_found v" "?eof c"
      "\<And>i. i < ?p \<Longrightarrow> \<not> ?eof i" "\<And>i. c < i \<Longrightarrow> i < RX_NUM_CHUNKS \<Longrightarrow> \<not> ?eof i"
      "eof_chunk v = of_nat c" "eof_gen v = pos_gen w - 1"
    | (none) "\<not> eof_found v" "\<And>i. i < ?p \<Longrightarrow> \<not> ?eof i"
      "\<And>i. ?p \<le> i \<Longrightarrow> i < RX_NUM_CHUNKS \<Longrightarrow> \<not> ?eof i"
      "if ?p = 0 then break_gen v = pos_gen w - 1 \<and> break_chunk v = of_nat (RX_NUM_CHUNKS - 1)
       else break_gen v = pos_gen w \<and> break_chunk v = of_nat (?p - 1)"
    unfolding scan_done_def old_eof_def by (cases "eof_found v") (auto simp: not_less)
  then show ?thesis
  proof cases
    case new
    have c: "c < RX_NUM_CHUNKS" using new(1) pos_slot_less [of w] by (rule less_trans)
    have g: "eof_gen v = pos_gen (slot_pos w c)"
      using new(1,6) pos_gen_slot_pos [OF c, of w] by simp
    from res [OF c new(3) g] up [OF c] new(1,4) new(2,5) show ?thesis
      by (intro exI [of _ "slot_pos w c"]) (auto simp: catchup_target_def)
  next
    case old
    have g: "eof_gen v = pos_gen (slot_pos w c)"
      using old(1,8) pos_gen_slot_pos [OF old(2), of w] by simp
    from res [OF old(2,4) g] up [OF old(2)] old(3,5,6,7) show ?thesis
      by (intro exI [of _ "slot_pos w c"]) (auto simp: catchup_target_def)
  next
    case none
    let ?c = "if ?p = 0 then RX_NUM_CHUNKS - 1 else ?p - 1"
    have c: "?c < RX_NUM_CHUNKS" using less_imp_diff_less [OF pos_slot_less [of w]] by simp
    have e: "slot_pos w ?c = w - 1"
      using slot_pos_cases [OF c, of w] by (auto simp: RX_NUM_CHUNKS_val)
    have k0: "chunk_length (ring k) = 0" if "w - ?N \<le> k" "k < w" for k
      using slot [OF that] none(2,3) not_less by metis
    have "resume_at ring w (w - 1)"
      using k0 by (simp add: resume_at_def RX_NUM_CHUNKS_val)
    moreover have "catchup_target v = (of_nat (pos_slot (w - 1)), pos_gen (w - 1))"
      using none(1,4) pos_slot_slot_pos [OF c, of w] pos_gen_slot_pos [OF c, of w] c
      unfolding e catchup_target_def by (auto split: if_splits)
    ultimately show ?thesis by blast
  qed
qed

lemma catchup_as_advance:
  assumes "catchup_scan mem t RX_NUM_CHUNKS catchup_init = (v, t')" "catchup_target v = (c, g)"
  shows "exanic_rx_catchup mem t rx =
    (rx_advance (rx\<lparr>sentinel_chunk := c, sentinel_chunk_generation := ucast g,
       next_chunk := c, generation := g\<rparr>), t')"
  using assms
  by (simp add: exanic_rx_catchup_def rx_advance_def catchup_target_def Let_def split: prod.splits)

lemma catchup_resumes:
  assumes "hw_stream ring" "hw_memory ring (\<lambda>_. w) mem"
  shows "\<exists>e. resume_at ring w e \<and> rx_at (fst (exanic_rx_catchup mem t rx)) (e + 1) \<and>
    sentinel_at (fst (exanic_rx_catchup mem t rx)) e"
proof -
  obtain v t' where scan: "catchup_scan mem t RX_NUM_CHUNKS catchup_init = (v, t')"
    by (cases "catchup_scan mem t RX_NUM_CHUNKS catchup_init")
  obtain e where e: "resume_at ring w e" "catchup_target v = (of_nat (pos_slot e), pos_gen e)"
    using catchup_scan_target [OF assms scan] by blast
  let ?rx = "rx\<lparr>sentinel_chunk := of_nat (pos_slot e), sentinel_chunk_generation := ucast (pos_gen e),
    next_chunk := of_nat (pos_slot e), generation := pos_gen e\<rparr>"
  have "rx_at ?rx e" by (simp add: rx_at_def)
  then have "rx_at (rx_advance ?rx) (e + 1)" by (rule rx_advance_at)
  moreover have "sentinel_at (rx_advance ?rx) e" by (simp add: sentinel_at_def)
  ultimately show ?thesis
    using e(1) catchup_as_advance [OF scan e(2), of rx] by auto
qed

end
