(* ===== verification/RxChunks.thy ===== *)
theory RxChunks
  imports RxCatchup
begin

text \<open>
  Receiving by chunks: what \<open>exanic_receive_chunk\<close> copies, what the identifier handed out
  by \<open>exanic_receive_chunk_inplace\<close> says when it is rechecked, and where
  \<open>exanic_receive_abort\<close> stops. The last section builds a small concrete stream.
\<close>

definition chunk_data :: "rx_chunk \<Rightarrow> bytes" where
  "chunk_data c = (if chunk_length c \<noteq> 0 then take (unat (chunk_length c)) (payload c) else payload c)"

text \<open>Not there yet, or lapped.\<close>

lemma gen_old:
  assumes "hw_stream ring" "hw_memory ring w mem" "rx_at rx a" "w t = a"
  shows "chunk_generation (mem t (unat (next_chunk rx))) = generation rx - 1"
proof -
  have "slot_pos a (pos_slot a) = a - int RX_NUM_CHUNKS"
    using slot_pos_unique [of "a - int RX_NUM_CHUNKS" a] by (simp add: pos_slot_def)
  moreover have "pos_gen (a - int RX_NUM_CHUNKS) = pos_gen a - 1"
    using pos_gen_Suc_lap [of "a - int RX_NUM_CHUNKS"] by simp
  ultimately show ?thesis
    using assms(3,4) hw_gen [OF assms(1,2) pos_slot_less [of a], of t] by (simp add: rx_at_def)
qed

lemma gen_lapped:
  assumes "hw_stream ring" "hw_memory ring w mem" "rx_at rx a"
    and "a + int RX_NUM_CHUNKS < w t" "w t \<le> a + 255 * int RX_NUM_CHUNKS"
  shows "chunk_generation (mem t (unat (next_chunk rx))) \<noteq> generation rx"
    "chunk_generation (mem t (unat (next_chunk rx))) \<noteq> generation rx - 1"
proof -
  let ?s = "slot_pos (w t) (pos_slot a)" and ?N = "int RX_NUM_CHUNKS"
  have g: "chunk_generation (mem t (unat (next_chunk rx))) = pos_gen ?s" "generation rx = pos_gen a"
    using assms(3) hw_gen [OF assms(1,2) pos_slot_less [of a], of t] by (simp_all add: rx_at_def)
  have far: "a < ?s" using slot_pos_bounds(2) [of "w t" "pos_slot a"] assms(4) by simp
  show "chunk_generation (mem t (unat (next_chunk rx))) \<noteq> generation rx"
    using slot_pos_by_gen [of "w t" a] far assms(4,5) unfolding g by (auto simp: RX_NUM_CHUNKS_val)
  have lap: "pos_slot (a - ?N) = pos_slot a" "pos_gen (a - ?N) = pos_gen a - 1"
    using pos_gen_Suc_lap [of "a - ?N"] by (simp_all add: pos_slot_def)
  show "chunk_generation (mem t (unat (next_chunk rx))) \<noteq> generation rx - 1"
    using slot_pos_by_gen [of "w t" "a - ?N"] far assms(4,5) unfolding g lap
    by (auto simp: RX_NUM_CHUNKS_val)
qed

text \<open>The chunk identifier is the position modulo the 256 laps a generation can tell apart.\<close>

lemma chunk_id_parts:
  assumes "rx_at rx a"
  defines "cid \<equiv> ucast (generation rx) * of_nat RX_NUM_CHUNKS + next_chunk rx"
  shows "unat cid mod RX_NUM_CHUNKS = pos_slot a" "of_nat (unat cid div RX_NUM_CHUNKS) = pos_gen a"
proof -
  have s: "pos_slot a < 16384" using pos_slot_less [of a] unfolding RX_NUM_CHUNKS_val .
  have g: "unat (pos_gen a) < 256" using unsigned_less [of "pos_gen a"] by simp
  have "unat cid = unat (pos_gen a) * 16384 + pos_slot a"
  proof -
    have "cid = of_nat (unat (pos_gen a) * 16384 + pos_slot a)"
      using assms by (simp add: rx_at_def RX_NUM_CHUNKS_val)
    from of_nat_inverse [OF this [symmetric]] s g show ?thesis by simp
  qed
  then show "unat cid mod RX_NUM_CHUNKS = pos_slot a" "of_nat (unat cid div RX_NUM_CHUNKS) = pos_gen a"
    using s by (simp_all add: RX_NUM_CHUNKS_val)
qed

lemma recheck_iff:
  assumes "hw_stream ring" "hw_memory ring w mem" "rx_at rx a"
    and "a < w t" "w t \<le> a + 256 * int RX_NUM_CHUNKS"
  shows "exanic_receive_chunk_recheck mem t (ucast (generation rx) * of_nat RX_NUM_CHUNKS + next_chunk rx)
    \<longleftrightarrow> w t \<le> a + int RX_NUM_CHUNKS"
proof -
  let ?s = "slot_pos (w t) (pos_slot a)"
  have "exanic_receive_chunk_recheck mem t (ucast (generation rx) * of_nat RX_NUM_CHUNKS + next_chunk rx)
      \<longleftrightarrow> pos_gen ?s = pos_gen a"
    using chunk_id_parts [OF assms(3)] hw_gen [OF assms(1,2) pos_slot_less [of a], of t]
    by (simp add: exanic_receive_chunk_recheck_def Let_def)
  also have "\<dots> \<longleftrightarrow> ?s = a"
    using slot_pos_by_gen [of "w t" a] assms(4,5) by (auto simp: RX_NUM_CHUNKS_val)
  also have "\<dots> \<longleftrightarrow> w t \<le> a + int RX_NUM_CHUNKS"
    using slot_pos_unique [of a "w t"] slot_pos_bounds(2) [of "w t" "pos_slot a"] assms(4) by auto
  finally show ?thesis .
qed

subsection \<open>Skipping the rest of a frame\<close>

lemma abort_skips:
  assumes hs: "hw_stream ring" and hm: "hw_memory ring w mem"
  shows "\<lbrakk>nat (e - p) < fuel; is_frame ring p e; e < w t; rx_at rx p;
      \<And>t'. t \<le> t' \<Longrightarrow> w t' \<le> p + int RX_NUM_CHUNKS\<rbrakk> \<Longrightarrow>
    \<exists>rx' t'. exanic_receive_abort fuel mem t rx =
        Some (- uint (frame_status (ring e) AND RX_FRAME_ERROR_MASK), rx', t') \<and> rx_at rx' (e + 1)"
proof (induction fuel arbitrary: t rx p)
  case (Suc fuel)
  have p: "p \<le> e" using Suc.prems(2) by (simp add: is_frame_def)
  obtain q where u: "mem t (unat (next_chunk rx)) = (ring p)\<lparr>payload := q\<rparr>"
    and gen: "chunk_generation (mem t (unat (next_chunk rx))) = generation rx"
    using info_at [OF hs hm Suc.prems(4), of t] Suc.prems(3) Suc.prems(5) [of t] p by auto
  note at = rx_advance_at [OF Suc.prems(4)]
  consider "p = e" "chunk_length (ring p) \<noteq> 0"
    | (more) "p < e" "chunk_length (ring p) = 0" "is_frame ring (p + 1) e"
    using is_frame_cases [OF Suc.prems(2)] by blast
  then show ?case
  proof cases
    case 1
    with u gen at show ?thesis by (simp add: Let_def)
  next
    case more
    have "e < w (Suc t)" using Suc.prems(3) hw_mono [OF hm, of t "Suc t"] by simp
    moreover have "w t' \<le> p + 1 + int RX_NUM_CHUNKS" if "Suc t \<le> t'" for t'
      using Suc.prems(5) [of t'] that by simp
    ultimately have "\<exists>rx' t'. exanic_receive_abort fuel mem (Suc t) (rx_advance rx) =
        Some (- uint (frame_status (ring e) AND RX_FRAME_ERROR_MASK), rx', t') \<and> rx_at rx' (e + 1)"
      using Suc.prems(1) more(1) by (intro Suc.IH [OF _ more(3) _ at]) auto
    with u gen more(2) show ?thesis by (simp add: Let_def)
  qed
qed simp

subsection \<open>A concrete stream\<close>

text \<open>One frame of two chunks, 125 bytes, at positions 0 and 1 of a fresh buffer.\<close>

definition demo_ring :: "int \<Rightarrow> rx_chunk" where
  "demo_ring k = \<lparr>payload = replicate 120 0xAB, timestamp = 7, frame_status = 0,
     chunk_length = (if k < 0 then 255 else if k = 1 then 5 else 0), matched_filter = 0,
     chunk_generation = pos_gen k\<rparr>"

definition demo_mem :: "int \<Rightarrow> rx_memory" where
  "demo_mem w t i = demo_ring (slot_pos w i)"

definition demo_rx :: exanic_rx where
  "demo_rx = \<lparr>rx_port_number = 0, rx_buffer_number = 0, next_chunk = 0, generation = 0,
     sentinel_chunk = 16383, sentinel_chunk_generation = 255\<rparr>"

lemma demo_stream: "hw_stream demo_ring"
  by (simp add: hw_stream_def demo_ring_def)

lemma demo_memory: "0 \<le> w \<Longrightarrow> hw_memory demo_ring (\<lambda>_. w) (demo_mem w)"
  by (auto simp: hw_memory_def demo_mem_def demo_ring_def intro: exI [of _ "replicate 120 0xAB"])

lemma ucast_fill: "(ucast (- 1 :: u8) :: u32) = 255"
proof -
  have m: "(- 1 :: u8) = 255" by simp
  show ?thesis unfolding m by simp
qed

lemma demo_at: "rx_at demo_rx 0" "sentinel_at demo_rx (-1)"
  by (simp_all add: rx_at_def sentinel_at_def demo_rx_def pos_slot_def pos_gen_def RX_NUM_CHUNKS_val ucast_fill)

lemma demo_frame: "is_frame demo_ring 0 1" "length (frame_bytes demo_ring 0 1) = 125"
  by (auto simp: is_frame_def frame_bytes_def demo_ring_def)

end
