(* ===== verification/RxProps.thy ===== *)
theory RxProps
  imports RxChunks
begin

text \<open>
  The properties of the receive path. In each, \<open>ring\<close> is the card's stream, \<open>w t\<close> the
  number of chunks it has completed at time \<open>t\<close>, and the reader stands at position \<open>a\<close>
  with its sentinel at an earlier position \<open>s\<close>.
\<close>

lemma receive_frame_received:
  assumes hs: "hw_stream ring" and hm: "hw_memory ring w mem"
    and st: "rx_at rx a" "sentinel_at rx s" "s < a" "0 \<le> a" "a \<le> w t" "n \<le> length buf"
    and rcv: "exanic_receive_frame fuel mem t rx buf n = Some r" "0 < ret r"
    and lap: "\<forall>t'<out_time r. w t' \<le> s + 256 * int RX_NUM_CHUNKS"
  obtains e where "received ring w mem rx (Suc t) a 0 buf n r e"
    "\<forall>t'<out_time r. w t' < a + int RX_NUM_CHUNKS"
proof -
  let ?u = "mem t (unat (next_chunk rx))"
  have gen: "chunk_generation ?u = generation rx"
    and loop: "receive_loop fuel mem (Suc t) rx ?u 0 buf n = Some r"
    using rcv by (auto simp: exanic_receive_frame_def Let_def split: if_splits prod.splits)
  have time: "t < out_time r" using receive_loop_time [OF loop] by simp
  have wa: "w t' \<le> a + 256 * int RX_NUM_CHUNKS" if "t' < out_time r" for t'
    using lap that st(3) by fastforce
  from chunk_at [OF hs hm st(1) gen st(5)] wa [OF time]
  obtain q where "a < w t" and u: "?u = (ring a)\<lparr>payload := q\<rparr>" by auto
  then have "a < w (Suc t)" using hw_mono [OF hm, of t "Suc t"] by simp
  then obtain e where e: "received ring w mem rx (Suc t) a 0 buf n r e"
    using receive_loop_received [OF hs hm loop rcv(2) st(1,4) u] st(6) wa by blast
  have T: "out_time r - 1 < out_time r" using time by simp
  have "s \<le> w (out_time r - 1)"
    using e st(3) by (simp add: received_def is_frame_def)
  then have "w (out_time r - 1) \<le> s + int RX_NUM_CHUNKS"
    using sentinel_ok_bound [OF hs hm st(2)] e lap T by (auto simp: received_def)
  then have "w t' < a + int RX_NUM_CHUNKS" if "t' < out_time r" for t'
  proof -
    from that have "t' \<le> out_time r - 1" by simp
    from hw_mono [OF hm this] st(3) \<open>w (out_time r - 1) \<le> s + int RX_NUM_CHUNKS\<close> show ?thesis by simp
  qed
  with e show thesis by (intro that) auto
qed

lemma receive_frame_done:
  assumes hs: "hw_stream ring" and hm: "hw_memory ring w mem"
    and st: "rx_at rx a" "sentinel_at rx s" "s < a" "0 \<le> a"
    and f: "is_frame ring a e" "e < w t" "nat (e - a) < fuel"
    and lap: "\<And>t'. t \<le> t' \<Longrightarrow> w t' \<le> s + int RX_NUM_CHUNKS"
  shows "\<exists>r. exanic_receive_frame fuel mem t rx buf n = Some r \<and> rx_at (out_rx r) (e + 1) \<and>
    ret r = frame_result (ring e) (length (frame_bytes ring a e)) n"
proof -
  have a: "a < w t" "w t \<le> a + int RX_NUM_CHUNKS"
    using f lap [of t] st(3) by (auto simp: is_frame_def)
  from info_at [OF hs hm st(1) a] obtain q where
    u: "mem t (unat (next_chunk rx)) = (ring a)\<lparr>payload := q\<rparr>"
    and gen: "chunk_generation (mem t (unat (next_chunk rx))) = generation rx" by blast
  have lap': "w t' \<le> s + int RX_NUM_CHUNKS" if "Suc t \<le> t'" for t'
    using lap [of t'] that by simp
  have "e < w (Suc t)" using f(2) hw_mono [OF hm, of t "Suc t"] by simp
  from receive_loop_complete [OF hs hm lap' f(3,1) this st(3,4,1,2) u, of 0 buf n] gen show ?thesis
    by (simp add: exanic_receive_frame_def Let_def)
qed

subsection \<open>Properties\<close>

text \<open>
  C1. \<open>exanic_receive_frame\<close> while the card keeps writing: a positive result means that
  the buffer holds, byte for byte, the frame that starts at the read position, of exactly
  the length returned, that the frame carries no error status, and that the reader stands
  right behind it with its sentinel on the frame's last chunk. The sentinel check makes
  this true however the card's writes interleave with the copy, as long as the card
  does not lap the reader 256 times during one call.
\<close>

theorem receive_frame_sound:
  assumes "hw_stream ring" "hw_memory ring w mem"
    and "rx_at rx a" "sentinel_at rx s" "s < a" "0 \<le> a" "a \<le> w t" "n \<le> length buf"
    and "exanic_receive_frame fuel mem t rx buf n = Some r" "0 < ret r"
    and "\<forall>t'<out_time r. w t' \<le> s + 256 * int RX_NUM_CHUNKS"
  shows "\<exists>e. is_frame ring a e \<and> e < w (out_time r - 1) \<and>
    take (nat (ret r)) (rx_buf r) = frame_bytes ring a e \<and>
    ret r = int (length (frame_bytes ring a e)) \<and> length (rx_buf r) = length buf \<and>
    frame_status (ring e) AND RX_FRAME_ERROR_MASK = 0 \<and>
    out_timestamp r = Some (timestamp (ring e)) \<and>
    rx_at (out_rx r) (e + 1) \<and> sentinel_at (out_rx r) e"
proof -
  from receive_frame_received [OF assms] obtain e where
    "received ring w mem rx (Suc t) a 0 buf n r e"
    "\<forall>t'<out_time r. w t' < a + int RX_NUM_CHUNKS" .
  then show ?thesis by (auto simp: received_def)
qed

lemma receive_frame_sound_witness:
  "\<exists>r e. exanic_receive_frame 2 (demo_mem 2) 0 demo_rx (replicate 200 0) 200 = Some r \<and>
     is_frame demo_ring 0 e \<and> take (nat (ret r)) (rx_buf r) = frame_bytes demo_ring 0 e"
proof -
  note hm = demo_memory [of 2, simplified]
  have "\<exists>r. exanic_receive_frame 2 (demo_mem 2) 0 demo_rx (replicate 200 0) 200 = Some r \<and>
      rx_at (out_rx r) (1 + 1) \<and>
      ret r = frame_result (demo_ring 1) (length (frame_bytes demo_ring 0 1)) 200"
    by (rule receive_frame_done [OF demo_stream hm demo_at _ _ demo_frame(1)])
      (simp_all add: RX_NUM_CHUNKS_val)
  then obtain r where r: "exanic_receive_frame 2 (demo_mem 2) 0 demo_rx (replicate 200 0) 200 = Some r"
      "ret r = 125"
    unfolding demo_frame(2) by (auto simp: frame_result_def demo_ring_def)
  with receive_frame_sound [OF demo_stream hm demo_at _ _ _ _ r(1)] show ?thesis
    by (auto simp: RX_NUM_CHUNKS_val)
qed

text \<open>
  C3. A frame that is complete and not overtaken is always delivered: with one unit of fuel
  per chunk the call returns, with the length of the frame if it fits and is good, the
  negated error status if the card marked it bad, and the truncation error if the buffer
  is too small; in every case the reader moves to the chunk after the frame.
\<close>

theorem receive_frame_complete:
  assumes "hw_stream ring" "hw_memory ring w mem"
    and "rx_at rx a" "sentinel_at rx s" "s < a" "0 \<le> a"
    and "is_frame ring a e" "e < w t" "nat (e - a) < fuel"
    and "\<And>t'. t \<le> t' \<Longrightarrow> w t' \<le> s + int RX_NUM_CHUNKS"
  shows "\<exists>r. exanic_receive_frame fuel mem t rx buf n = Some r \<and> rx_at (out_rx r) (e + 1) \<and>
    ret r = (if n < length (frame_bytes ring a e) then - RX_FRAME_TRUNCATED
      else if frame_status (ring e) AND RX_FRAME_ERROR_MASK \<noteq> 0
      then - uint (frame_status (ring e) AND RX_FRAME_ERROR_MASK)
      else int (length (frame_bytes ring a e)))"
  using receive_frame_done [OF assms] by (simp add: frame_result_def)

lemma receive_frame_complete_witness:
  "\<exists>r. exanic_receive_frame 2 (demo_mem 2) 0 demo_rx (replicate 124 0) 124 = Some r \<and>
     ret r = - 257"
proof -
  have "\<exists>r. exanic_receive_frame 2 (demo_mem 2) 0 demo_rx (replicate 124 0) 124 = Some r \<and>
      rx_at (out_rx r) (1 + 1) \<and> ret r = (if 124 < length (frame_bytes demo_ring 0 1) then - RX_FRAME_TRUNCATED
      else if frame_status (demo_ring 1) AND RX_FRAME_ERROR_MASK \<noteq> 0
      then - uint (frame_status (demo_ring 1) AND RX_FRAME_ERROR_MASK)
      else int (length (frame_bytes demo_ring 0 1)))"
    by (rule receive_frame_complete [OF demo_stream demo_memory [of 2, simplified] demo_at _ _ demo_frame(1)])
      (simp_all add: RX_NUM_CHUNKS_val)
  then show ?thesis unfolding demo_frame(2) by auto
qed

text \<open>
  C32. \<open>__exanic_rx_catchup\<close> on a buffer the card is not writing leaves the reader behind the
  most recent end of frame the buffer still holds (the 0xFF fill of unused chunks counts
  as one), or, when there is none, at the card's write position; the sentinel is the chunk
  before. The reader therefore never resumes in the middle of a frame.
\<close>

theorem rx_catchup_resumes:
  assumes "hw_stream ring" "hw_memory ring (\<lambda>_. w) mem"
  shows "\<exists>e. w - int RX_NUM_CHUNKS \<le> e \<and> e < w \<and>
    (\<forall>k. e < k \<and> k < w \<longrightarrow> chunk_length (ring k) = 0) \<and>
    (chunk_length (ring e) \<noteq> 0 \<or>
      e = w - 1 \<and> (\<forall>k. w - int RX_NUM_CHUNKS \<le> k \<and> k < w \<longrightarrow> chunk_length (ring k) = 0)) \<and>
    rx_at (fst (exanic_rx_catchup mem t rx)) (e + 1) \<and>
    sentinel_at (fst (exanic_rx_catchup mem t rx)) e"
  using catchup_resumes [OF assms, of t rx] unfolding resume_at_def by blast

lemma rx_catchup_resumes_witness:
  "\<exists>e. e < 2 \<and> rx_at (fst (exanic_rx_catchup (demo_mem 2) 0 demo_rx)) (e + 1) \<and>
     (\<forall>k. e < k \<and> k < 2 \<longrightarrow> chunk_length (demo_ring k) = 0)"
  using rx_catchup_resumes [OF demo_stream demo_memory [of 2, simplified], of 0 demo_rx] by blast

text \<open>
  The other two outcomes of \<open>exanic_receive_frame\<close>: with no new chunk it returns 0 and
  changes nothing; when the card has lapped the reader it returns the overflow error, has
  copied nothing, and has moved the reader by \<open>__exanic_rx_catchup\<close>.
\<close>

theorem receive_frame_idle_lapped:
  assumes "hw_stream ring" "hw_memory ring w mem" "rx_at rx a"
  shows "(w t = a \<longrightarrow> exanic_receive_frame fuel mem t rx buf n =
      Some \<lparr>ret = 0, rx_buf = buf, out_timestamp = None, out_rx = rx, out_time = Suc t\<rparr>) \<and>
    (a + int RX_NUM_CHUNKS < w t \<and> w t \<le> a + 255 * int RX_NUM_CHUNKS \<longrightarrow>
      (\<exists>r. exanic_receive_frame fuel mem t rx buf n = Some r \<and> ret r = - RX_FRAME_SWOVFL \<and>
        rx_buf r = buf \<and> out_rx r = fst (exanic_rx_catchup mem (Suc t) rx)))"
proof (intro conjI impI)
  assume "w t = a"
  from gen_old [OF assms this] show "exanic_receive_frame fuel mem t rx buf n =
      Some \<lparr>ret = 0, rx_buf = buf, out_timestamp = None, out_rx = rx, out_time = Suc t\<rparr>"
    by (simp add: exanic_receive_frame_def Let_def)
next
  assume "a + int RX_NUM_CHUNKS < w t \<and> w t \<le> a + 255 * int RX_NUM_CHUNKS"
  with gen_lapped [OF assms] show "\<exists>r. exanic_receive_frame fuel mem t rx buf n = Some r \<and>
      ret r = - RX_FRAME_SWOVFL \<and> rx_buf r = buf \<and> out_rx r = fst (exanic_rx_catchup mem (Suc t) rx)"
    by (simp add: exanic_receive_frame_def Let_def split: prod.split)
qed

lemma receive_frame_idle_lapped_witness:
  "exanic_receive_frame 1 (demo_mem 0) 0 demo_rx [1] 1 =
     Some \<lparr>ret = 0, rx_buf = [1], out_timestamp = None, out_rx = demo_rx, out_time = 1\<rparr> \<and>
   (\<exists>r. exanic_receive_frame 1 (demo_mem 20000) 0 demo_rx [1] 1 = Some r \<and> ret r = - 256)"
  using receive_frame_idle_lapped [OF demo_stream demo_memory [of 0, simplified] demo_at(1), where fuel = 1 and t = 0 and buf = "[1]" and n = 1]
    receive_frame_idle_lapped [OF demo_stream demo_memory [of 20000, simplified] demo_at(1), where fuel = 1 and t = 0 and buf = "[1]" and n = 1]
  by (auto simp: RX_NUM_CHUNKS_val)

text \<open>
  C33. \<open>exanic_receive_chunk\<close>: a positive result means that the buffer starts with the
  data of the chunk at the read position (120 bytes, or the tail of a frame), unmodified
  by the card; the more-chunks flag says whether the frame goes on, the frame status of a
  last chunk is good, and reader and sentinel have moved by one chunk.
\<close>

theorem receive_chunk_sound:
  assumes hs: "hw_stream ring" and hm: "hw_memory ring w mem"
    and st: "rx_at rx a" "sentinel_at rx s" "s < a" "0 \<le> a" "a \<le> w t" "120 \<le> length buf"
    and r: "r = exanic_receive_chunk mem t rx buf" "0 < c_ret r"
    and lap: "\<And>t'. w t' \<le> s + 256 * int RX_NUM_CHUNKS"
  shows "c_ret r = int (length (chunk_data (ring a))) \<and>
    take (nat (c_ret r)) (c_buf r) = chunk_data (ring a) \<and> length (c_buf r) = length buf \<and>
    c_more r = Some (chunk_length (ring a) = 0) \<and>
    (chunk_length (ring a) \<noteq> 0 \<longrightarrow> frame_status (ring a) AND RX_FRAME_ERROR_MASK = 0) \<and>
    rx_at (c_rx r) (a + 1) \<and> sentinel_at (c_rx r) a"
proof -
  let ?u = "mem t (unat (next_chunk rx))"
  define len where "len = length (chunk_data (ring a))"
  have plen: "length (payload (ring a)) = 120" "unat (chunk_length (ring a)) \<le> 120"
    using hs st(4) by (auto intro: stream_length stream_payload)
  then have len: "len = (if chunk_length (ring a) \<noteq> 0 then unat (chunk_length (ring a)) else 120)" "len \<le> 120"
    by (auto simp: len_def chunk_data_def)
  have slot: "unat (next_chunk rx) = pos_slot a" using st(1) by (simp add: rx_at_def)
  have gen: "chunk_generation ?u = generation rx"
    using r by (auto simp: exanic_receive_chunk_def Let_def split: if_splits prod.splits)
  have "w t \<le> a + 256 * int RX_NUM_CHUNKS" using lap [of t] st(3) by simp
  from chunk_at [OF hs hm st(1) gen st(5) this] obtain q where aw: "a < w t"
    and u: "?u = (ring a)\<lparr>payload := q\<rparr>" by auto
  let ?rx = "rx_advance (rx\<lparr>sentinel_chunk := next_chunk rx, sentinel_chunk_generation := ucast (pos_gen a)\<rparr>)"
  have res: "r = \<lparr>c_ret = int len, c_buf = blit buf 0 (rx_copy mem (Suc t) (pos_slot a) len),
      c_more = Some (chunk_length (ring a) = 0), c_info = None, c_rx = ?rx, c_time = Suc (Suc t + len)\<rparr>"
    and sent: "chunk_generation (mem (Suc t + len) (unat (sentinel_chunk rx))) = ucast (sentinel_chunk_generation rx)"
    and ok: "chunk_length (ring a) \<noteq> 0 \<longrightarrow> frame_status (ring a) AND RX_FRAME_ERROR_MASK = 0"
    using r gen u len(1) stream_gen [OF hs, of a] unfolding slot
    by (auto simp: exanic_receive_chunk_def Let_def slot simp del: int_nat_eq split: if_splits prod.splits)
  have mono: "w t \<le> w (Suc t + len)" "w t \<le> w (Suc t)" by (rule hw_mono [OF hm], simp)+
  then have "w (Suc t + len) \<le> s + int RX_NUM_CHUNKS"
    using sentinel_ok_bound [OF hs hm st(2) sent] lap st(3) aw by simp
  then have "w t' < a + int RX_NUM_CHUNKS" if "t' < Suc t + len" for t'
    using hw_mono [OF hm, of t' "Suc t + len"] that st(3) by simp
  then have "rx_copy mem (Suc t) (pos_slot a) len = take len (payload (ring a))"
    using aw mono(2) len(2) st(4) by (intro rx_copy_stream [OF hs hm]) auto
  moreover have "take len (payload (ring a)) = chunk_data (ring a)"
    using len plen by (simp add: chunk_data_def)
  ultimately have "take len (c_buf r) = chunk_data (ring a)" "length (c_buf r) = length buf"
    using res take_blit [of 0 buf "chunk_data (ring a)"] st(6) len(2) by (simp_all add: len_def)
  moreover have "rx_at ?rx (a + 1)"
    using st(1) by (intro rx_advance_at) (simp add: rx_at_def)
  moreover have "sentinel_at ?rx a" using st(1) by (simp add: sentinel_at_def rx_at_def)
  ultimately show ?thesis using res ok by (simp add: len_def)
qed

lemma demo_receive_chunk: "c_ret (exanic_receive_chunk (demo_mem 2) 0 demo_rx (replicate 120 0)) = 120"
  by (simp add: exanic_receive_chunk_def demo_mem_def demo_rx_def demo_ring_def slot_pos_def
      pos_gen_def RX_NUM_CHUNKS_val Let_def ucast_fill)

lemma receive_chunk_sound_witness:
  "take 120 (c_buf (exanic_receive_chunk (demo_mem 2) 0 demo_rx (replicate 120 0))) = chunk_data (demo_ring 0)"
  using receive_chunk_sound [OF demo_stream demo_memory [of 2, simplified] demo_at _ _ _ _ refl,
      where t = 0 and buf = "replicate 120 0"] demo_receive_chunk
  by (simp add: RX_NUM_CHUNKS_val)

text \<open>
  C34. The identifier \<open>exanic_receive_chunk_inplace\<close> hands out with a chunk is a faithful
  guard: rechecking it later answers yes exactly as long as the card has not completed
  the slot's next chunk, and until the card reaches that slot again the chunk in memory
  is the chunk of the stream. Generations distinguish 256 laps.
\<close>

theorem receive_chunk_inplace_recheck:
  assumes "hw_stream ring" "hw_memory ring w mem" "rx_at rx a"
    and "a \<le> w t" "w t \<le> a + 256 * int RX_NUM_CHUNKS"
    and "0 < i_ret (exanic_receive_chunk_inplace mem t rx)"
    and "t \<le> t'" "w t' \<le> a + 256 * int RX_NUM_CHUNKS"
  shows "\<exists>c cid. i_chunk (exanic_receive_chunk_inplace mem t rx) = Some c \<and>
    i_chunk_id (exanic_receive_chunk_inplace mem t rx) = Some cid \<and>
    (exanic_receive_chunk_recheck mem t' cid \<longleftrightarrow> w t' \<le> a + int RX_NUM_CHUNKS) \<and>
    (w t' < a + int RX_NUM_CHUNKS \<longrightarrow> mem t' c = ring a) \<and>
    rx_at (i_rx (exanic_receive_chunk_inplace mem t rx)) (a + 1)"
proof -
  let ?cid = "ucast (generation rx) * of_nat RX_NUM_CHUNKS + next_chunk rx"
  have gen: "chunk_generation (mem t (unat (next_chunk rx))) = generation rx"
    using assms(6) by (auto simp: exanic_receive_chunk_inplace_def Let_def split: if_splits prod.splits)
  have "a < w t'"
    using chunk_at(1) [OF assms(1-3) gen assms(4,5)] hw_mono [OF assms(2,7)] by simp
  then have "exanic_receive_chunk_recheck mem t' ?cid \<longleftrightarrow> w t' \<le> a + int RX_NUM_CHUNKS"
    and "w t' < a + int RX_NUM_CHUNKS \<longrightarrow> mem t' (unat (next_chunk rx)) = ring a"
    using recheck_iff [OF assms(1-3) _ assms(8)] hw_read [OF assms(2)] assms(3)
    by (auto simp: rx_at_def)
  moreover have "i_chunk (exanic_receive_chunk_inplace mem t rx) = Some (unat (next_chunk rx))"
    "i_chunk_id (exanic_receive_chunk_inplace mem t rx) = Some ?cid"
    "i_rx (exanic_receive_chunk_inplace mem t rx) = rx_advance rx"
    using gen by (simp_all add: exanic_receive_chunk_inplace_def Let_def)
  ultimately show ?thesis using rx_advance_at [OF assms(3)] by auto
qed

lemma demo_receive_inplace: "i_ret (exanic_receive_chunk_inplace (demo_mem 2) 0 demo_rx) = 120"
  by (simp add: exanic_receive_chunk_inplace_def demo_mem_def demo_rx_def demo_ring_def slot_pos_def
      pos_gen_def RX_NUM_CHUNKS_val Let_def)

lemma receive_chunk_inplace_recheck_witness:
  "\<exists>c cid. i_chunk_id (exanic_receive_chunk_inplace (demo_mem 2) 0 demo_rx) = Some cid \<and>
     exanic_receive_chunk_recheck (demo_mem 2) 9 cid \<and> demo_mem 2 9 c = demo_ring 0"
  using receive_chunk_inplace_recheck [OF demo_stream demo_memory [of 2, simplified] demo_at(1), where t = 0 and t' = 9]
    demo_receive_inplace
  by (auto simp: RX_NUM_CHUNKS_val)

text \<open>
  \<open>exanic_receive_abort\<close> on a frame that completes and is not overtaken ends, returns 0
  or the negated error status of the frame's last chunk, and leaves the reader at the
  first chunk after the frame.
\<close>

theorem receive_abort_skips_frame:
  assumes "hw_stream ring" "hw_memory ring w mem"
    and "nat (e - a) < fuel" "is_frame ring a e" "e < w t" "rx_at rx a"
    and "\<And>t'. t \<le> t' \<Longrightarrow> w t' \<le> a + int RX_NUM_CHUNKS"
  shows "\<exists>rx' t'. exanic_receive_abort fuel mem t rx =
      Some (- uint (frame_status (ring e) AND RX_FRAME_ERROR_MASK), rx', t') \<and> rx_at rx' (e + 1)"
  using abort_skips [OF assms] .

lemma receive_abort_skips_frame_witness:
  "\<exists>rx' t'. exanic_receive_abort 2 (demo_mem 2) 0 demo_rx = Some (0, rx', t') \<and> rx_at rx' 2"
proof -
  have "\<exists>rx' t'. exanic_receive_abort 2 (demo_mem 2) 0 demo_rx =
      Some (- uint (frame_status (demo_ring 1) AND RX_FRAME_ERROR_MASK), rx', t') \<and> rx_at rx' (1 + 1)"
    by (rule receive_abort_skips_frame [OF demo_stream demo_memory [of 2, simplified] _ demo_frame(1) _ demo_at(1)])
      (simp_all add: RX_NUM_CHUNKS_val)
  then show ?thesis by (simp add: demo_ring_def)
qed

end
