(* ===== verification/Checksum.thy ===== *)
theory Checksum
  imports Prelude
begin

text \<open>
  The Internet checksum of \<open>libs/exanic/checksum.h\<close>: \<open>csum_part\<close> adds 16-bit words of the
  buffer into a 64-bit accumulator (the portable version of the header; words are read
  little endian), \<open>csum_pack\<close> folds the accumulator to 16 bits. The properties relate the
  result to the ones' complement sum of the words.
\<close>

fun csum_part :: "bytes \<Rightarrow> u64 \<Rightarrow> u64" where
  "csum_part (a # b # r) s = csum_part r (s + (ucast a + push_bit 8 (ucast b)))"
| "csum_part [a] s = s + ucast a"
| "csum_part [] s = s"

definition csum_pack :: "u64 \<Rightarrow> u16" where
  "csum_pack s =
     (let s1 = drop_bit 32 s + ucast (ucast s :: u32);
          s2 = drop_bit 32 s1 + ucast (ucast s1 :: u32);
          s3 = drop_bit 16 s2 + ucast (ucast s2 :: u16);
          s4 = drop_bit 16 s3 + ucast (ucast s3 :: u16)
      in ucast s4)"

definition csum_pack32 :: "u32 \<Rightarrow> u16" where
  "csum_pack32 s =
     (let s1 = drop_bit 16 s + ucast (ucast s :: u16);
          s2 = drop_bit 16 s1 + ucast (ucast s1 :: u16)
      in ucast s2)"

definition csum :: "bytes \<Rightarrow> u64 \<Rightarrow> u16" where
  "csum buf s = csum_pack (csum_part buf s)"

subsection \<open>Specification\<close>

text \<open>The sum of the 16-bit words of a buffer, an odd last byte padded with zero.\<close>

fun word_sum :: "bytes \<Rightarrow> nat" where
  "word_sum (a # b # r) = unat a + 256 * unat b + word_sum r"
| "word_sum [a] = unat a"
| "word_sum [] = 0"

text \<open>A 16-bit value represents a sum in ones' complement: congruent, and zero only for zero.\<close>

definition ones_complement_of :: "nat \<Rightarrow> u16 \<Rightarrow> bool" where
  "ones_complement_of n c \<longleftrightarrow> unat c mod 65535 = n mod 65535 \<and> (c = 0 \<longleftrightarrow> n = 0)"

lemma word_sum_bound: "word_sum bs \<le> 65535 * ((length bs + 1) div 2)"
proof (induction bs rule: word_sum.induct)
  case (1 a b r)
  have "unat a < 256" "unat b < 256"
    using unsigned_less [of a] unsigned_less [of b] by simp_all
  with 1 show ?case by simp
next
  case (2 a)
  have "unat a < 256" using unsigned_less [of a] by simp
  then show ?case by simp
qed simp

lemma unat_le_pair: "unat (ucast (a :: u8) + push_bit 8 (ucast (b :: u8)) :: u64) = unat a + 256 * unat b"
proof -
  have ab: "unat a < 256" "unat b < 256"
    using unsigned_less [of a] unsigned_less [of b] by simp_all
  have "push_bit 8 (ucast b :: u64) = 256 * ucast b" by (simp add: push_bit_eq_mult)
  moreover have "unat (256 * ucast b :: u64) = 256 * unat b"
    using ab by (simp add: unat_word_ariths(2) unat_ucast_mod)
  ultimately show ?thesis
    using ab unat_plus_small [of "ucast a :: u64" "256 * ucast b"] by (simp add: unat_ucast_mod)
qed

lemma csum_part_sum:
  "unat s + word_sum bs < 2 ^ 64 \<Longrightarrow> unat (csum_part bs s) = unat s + word_sum bs"
proof (induction bs s rule: csum_part.induct)
  case (1 a b r s)
  then have "unat (s + (ucast a + push_bit 8 (ucast b))) = unat s + (unat a + 256 * unat b)"
    using unat_plus_small [of s "ucast a + push_bit 8 (ucast b)"] unfolding unat_le_pair by simp
  with 1 show ?case by simp
next
  case (2 a s)
  have "unat a < 256" using unsigned_less [of a] by simp
  then have "unat (ucast a :: u64) = unat a" by (simp add: unat_ucast_mod)
  with 2 show ?case using unat_plus_small [of s "ucast a"] by simp
qed simp

text \<open>One folding step, on numbers.\<close>

definition fold_at :: "nat \<Rightarrow> nat \<Rightarrow> nat" where
  "fold_at k n = n div 2 ^ k + n mod 2 ^ k"

lemma fold_at_zero: "fold_at k n = 0 \<longleftrightarrow> n = 0"
  unfolding fold_at_def by (metis add_is_0 div_mult_mod_eq mult_0 mod_0 div_0)

lemma fold_at_cong:
  assumes "m dvd 2 ^ k - 1"
  shows "fold_at k n mod m = n mod (m :: nat)"
proof -
  obtain c where c: "(2 :: nat) ^ k = Suc c" by (metis not0_implies_Suc power_not_zero zero_neq_numeral)
  have "n = n div 2 ^ k * 2 ^ k + n mod 2 ^ k" by (rule div_mult_mod_eq [symmetric])
  also have "\<dots> = fold_at k n + c * (n div 2 ^ k)"
    unfolding c fold_at_def by simp
  finally have n: "n = fold_at k n + c * (n div 2 ^ k)" .
  obtain d where "c = m * d" using assms c by (auto elim: dvdE)
  then have "n mod m = (fold_at k n + m * (d * (n div 2 ^ k))) mod m"
    using n by (simp add: mult.assoc)
  then show ?thesis by simp
qed

lemma fold_word:
  "fold_at k (unat s) < 2 ^ LENGTH('b) \<Longrightarrow> LENGTH('a) = k \<Longrightarrow> k < LENGTH('b) \<Longrightarrow>
    unat (drop_bit k s + ucast (ucast s :: 'a::len word) :: 'b::len word) = fold_at k (unat s)"
proof -
  assume a: "fold_at k (unat s) < 2 ^ LENGTH('b)" "LENGTH('a) = k" "k < LENGTH('b)"
  have "unat s mod 2 ^ k < 2 ^ LENGTH('b)"
    by (rule le_less_trans [OF mod_less_eq_dividend unsigned_less])
  then have "unat (ucast (ucast s :: 'a word) :: 'b word) = unat s mod 2 ^ k"
    using a(2) by (simp add: unat_ucast_mod)
  moreover have "unat (drop_bit k s) = unat s div 2 ^ k"
    unfolding unat_drop_bit_eq by (simp add: drop_bit_eq_div)
  ultimately show ?thesis
    using a(1) by (simp add: unat_word_ariths(1) fold_at_def)
qed

lemma fold_at_bound: "n < 2 ^ k * q \<Longrightarrow> fold_at k n < q + 2 ^ k - 1"
proof -
  assume "n < 2 ^ k * q"
  then have "n div 2 ^ k < q" by (simp add: less_mult_imp_div_less mult.commute)
  moreover have "n mod 2 ^ k < 2 ^ k" by simp
  ultimately show ?thesis unfolding fold_at_def by linarith
qed

lemma fold_at_bound2: "n < 2 * 2 ^ k - 1 \<Longrightarrow> fold_at k n < 2 ^ k"
proof -
  assume n: "n < 2 * 2 ^ k - 1"
  then have "n div 2 ^ k < 2" by (intro less_mult_imp_div_less) simp
  then consider "n div 2 ^ k = 0" | "n div 2 ^ k = 1" by linarith
  then show ?thesis
  proof cases
    case 1
    then show ?thesis by (simp add: fold_at_def)
  next
    case 2
    with div_mult_mod_eq [of n "2 ^ k"] n show ?thesis by (simp add: fold_at_def)
  qed
qed

lemma fold32_32_16_16:
  assumes "n < 2 ^ 64"
  shows "fold_at 32 n < 2 ^ 33 - 1" "fold_at 32 (fold_at 32 n) < 2 ^ 32"
    "fold_at 16 (fold_at 32 (fold_at 32 n)) < 2 ^ 17 - 1"
    "fold_at 16 (fold_at 16 (fold_at 32 (fold_at 32 n))) < 2 ^ 16"
proof -
  have "n < 2 ^ 32 * 2 ^ 32" using assms by simp
  from fold_at_bound [OF this] show 1: "fold_at 32 n < 2 ^ 33 - 1" by simp
  then show 2: "fold_at 32 (fold_at 32 n) < 2 ^ 32"
    using fold_at_bound2 [of "fold_at 32 n" 32] by simp
  then have "fold_at 32 (fold_at 32 n) < 2 ^ 16 * 2 ^ 16" by simp
  from fold_at_bound [OF this] show 3: "fold_at 16 (fold_at 32 (fold_at 32 n)) < 2 ^ 17 - 1" by simp
  then show "fold_at 16 (fold_at 16 (fold_at 32 (fold_at 32 n))) < 2 ^ 16"
    using fold_at_bound2 [of "fold_at 16 (fold_at 32 (fold_at 32 n))" 16] by simp
qed

lemma csum_pack_fold:
  "unat (csum_pack s) = fold_at 16 (fold_at 16 (fold_at 32 (fold_at 32 (unat s))))"
proof -
  have "unat s < 2 ^ 64" using unsigned_less [of s] by simp
  note b = fold32_32_16_16 [OF this]
  define s1 where "s1 = drop_bit 32 s + ucast (ucast s :: u32)"
  define s2 where "s2 = drop_bit 32 s1 + ucast (ucast s1 :: u32)"
  define s3 where "s3 = drop_bit 16 s2 + ucast (ucast s2 :: u16)"
  define s4 where "s4 = drop_bit 16 s3 + ucast (ucast s3 :: u16)"
  have 1: "unat s1 = fold_at 32 (unat s)"
    unfolding s1_def using b(1) by (intro fold_word) auto
  have 2: "unat s2 = fold_at 32 (fold_at 32 (unat s))"
    unfolding s2_def 1 [symmetric] using b(2) 1 by (intro fold_word) auto
  have 3: "unat s3 = fold_at 16 (fold_at 32 (fold_at 32 (unat s)))"
    unfolding s3_def 2 [symmetric] using b(3) 2 by (intro fold_word) auto
  have 4: "unat s4 = fold_at 16 (fold_at 16 (fold_at 32 (fold_at 32 (unat s))))"
    unfolding s4_def 3 [symmetric] using b(4) 3 by (intro fold_word) auto
  have "csum_pack s = ucast s4"
    by (simp add: csum_pack_def Let_def s1_def s2_def s3_def s4_def)
  then show ?thesis using 4 b(4) by (simp add: unat_ucast_mod)
qed

lemma csum_pack_ones_complement: "ones_complement_of (unat s) (csum_pack s)"
proof -
  have "unat (csum_pack s) = 0 \<longleftrightarrow> unat s = 0"
    by (simp only: csum_pack_fold fold_at_zero)
  then have "csum_pack s = 0 \<longleftrightarrow> unat s = 0" by (simp only: unat_eq_zero)
  then show ?thesis
    by (simp add: ones_complement_of_def csum_pack_fold fold_at_cong)
qed

lemma csum_pack32_ones_complement: "ones_complement_of (unat s) (csum_pack32 s)"
proof -
  have n: "unat s < 2 ^ 16 * 2 ^ 16" using unsigned_less [of s] by simp
  from fold_at_bound [OF this] have b1: "fold_at 16 (unat s) < 2 ^ 17 - 1" by simp
  then have b2: "fold_at 16 (fold_at 16 (unat s)) < 2 ^ 16"
    using fold_at_bound2 [of "fold_at 16 (unat s)" 16] by simp
  define s1 where "s1 = drop_bit 16 s + ucast (ucast s :: u16)"
  define s2 where "s2 = drop_bit 16 s1 + ucast (ucast s1 :: u16)"
  have 1: "unat s1 = fold_at 16 (unat s)"
    unfolding s1_def using b1 by (intro fold_word) auto
  have 2: "unat s2 = fold_at 16 (fold_at 16 (unat s))"
    unfolding s2_def 1 [symmetric] using b2 1 by (intro fold_word) auto
  have "csum_pack32 s = ucast s2"
    by (simp add: csum_pack32_def Let_def s1_def s2_def)
  then have f: "unat (csum_pack32 s) = fold_at 16 (fold_at 16 (unat s))"
    using 2 b2 by (simp add: unat_ucast_mod)
  then have "unat (csum_pack32 s) = 0 \<longleftrightarrow> unat s = 0"
    by (simp only: fold_at_zero)
  then have "csum_pack32 s = 0 \<longleftrightarrow> unat s = 0" by (simp only: unat_eq_zero)
  with f show ?thesis by (simp add: ones_complement_of_def fold_at_cong)
qed

subsection \<open>Whole buffers\<close>

definition le16_bytes :: "u16 \<Rightarrow> bytes" where
  "le16_bytes c = [ucast c, ucast (drop_bit 8 c)]"

lemma word_sum_append: "even (length bs) \<Longrightarrow> word_sum (bs @ cs) = word_sum bs + word_sum cs"
  by (induction bs rule: word_sum.induct) auto

lemma csum_part_append: "even (length bs) \<Longrightarrow> csum_part (bs @ cs) s = csum_part cs (csum_part bs s)"
  by (induction bs s rule: csum_part.induct) auto

lemma csum_sum:
  assumes "length bs < 2 ^ 48"
  shows "ones_complement_of (word_sum bs) (csum bs 0)"
proof -
  have "(length bs + 1) div 2 < 2 ^ 48" using assms by linarith
  then have "word_sum bs < 2 ^ 64" using word_sum_bound [of bs] by simp
  then have "unat (csum_part bs 0) = word_sum bs" using csum_part_sum [of 0 bs] by simp
  then show ?thesis using csum_pack_ones_complement [of "csum_part bs 0"] by (simp add: csum_def)
qed

lemma ones_complement_all_ones:
  assumes "ones_complement_of n c" "n mod 65535 = 0" "n \<noteq> 0"
  shows "c = 0xFFFF"
proof -
  have c: "unat c mod 65535 = 0" "unat c \<noteq> 0" "unat c < 65536"
    using assms unsigned_less [of c] by (simp_all add: ones_complement_of_def unat_eq_zero)
  then have "65535 dvd unat c" by (simp add: mod_eq_0_iff_dvd)
  then obtain k where "unat c = 65535 * k" by (auto elim: dvdE)
  with c have "unat c = 65535" by (cases k) auto
  then show ?thesis using word_unat_eq_iff [of c "0xFFFF"] by simp
qed

lemma unat_not16: "unat (NOT (c :: u16)) = 65535 - unat c"
proof -
  have "NOT c = - c - 1" by (simp add: not_eq_complement)
  then have "NOT c = 0xFFFF - c" by simp
  moreover have "c \<le> 0xFFFF" using u16_lt [of c] by (simp add: word_le_nat_alt)
  ultimately show ?thesis by (simp add: unat_sub)
qed

lemma le_halves: "unat (ucast (c :: u16) :: u8) + 256 * unat (ucast (drop_bit 8 c) :: u8) = unat c"
proof -
  have "unat c div 256 < 256" using unsigned_less [of c] by (intro less_mult_imp_div_less) simp
  then have "unat (ucast (drop_bit 8 c) :: u8) = unat c div 256"
    by (simp add: unat_ucast_mod unat_drop_bit_eq drop_bit_eq_div [where 'a = nat])
  moreover have "unat (ucast c :: u8) = unat c mod 256" by (simp add: unat_ucast_mod)
  ultimately show ?thesis by simp
qed

lemma csum_complement_verifies:
  assumes "even (length bs)" "length bs < 2 ^ 48 - 2"
  defines "c \<equiv> NOT (csum bs 0)"
  shows "csum (bs @ [ucast c, ucast (drop_bit 8 c)]) 0 = 0xFFFF"
proof -
  let ?m = "bs @ [ucast c, ucast (drop_bit 8 c)]"
  have oc: "ones_complement_of (word_sum bs) (csum bs 0)" using assms(2) by (intro csum_sum) simp
  have "word_sum ?m = word_sum bs + unat c"
    using word_sum_append [OF assms(1)] le_halves [of c] by simp
  moreover have "unat c = 65535 - unat (csum bs 0)" by (simp add: c_def unat_not16)
  moreover have "unat (csum bs 0) \<le> 65535" using u16_lt [of "csum bs 0"] by simp
  ultimately have s: "word_sum ?m + unat (csum bs 0) = word_sum bs + 65535" by simp
  have "(word_sum ?m + unat (csum bs 0)) mod 65535 = (0 + unat (csum bs 0)) mod 65535"
    unfolding s using oc by (simp add: ones_complement_of_def)
  then have "65535 dvd word_sum ?m + unat (csum bs 0) - unat (csum bs 0)"
    by (subst mod_eq_dvd_iff_nat [symmetric]) simp_all
  then have z: "word_sum ?m mod 65535 = 0" by simp
  have "word_sum ?m \<noteq> 0"
  proof
    assume "word_sum ?m = 0"
    with s \<open>unat (csum bs 0) \<le> 65535\<close> have "word_sum bs = 0" "unat (csum bs 0) = 65535" by linarith+
    with oc show False by (simp add: ones_complement_of_def)
  qed
  moreover have "ones_complement_of (word_sum ?m) (csum ?m 0)"
    using assms(2) by (intro csum_sum) simp
  ultimately show ?thesis by (intro ones_complement_all_ones [OF _ z])
qed

subsection \<open>The property\<close>

text \<open>A message is sent with an even length: the specification pads an odd one with a zero byte.\<close>

definition pad_even :: "bytes \<Rightarrow> bytes" where
  "pad_even bs = (if even (length bs) then bs else bs @ [0])"

lemma csum_part_pad: "odd (length bs) \<Longrightarrow> csum_part (bs @ [0]) s = csum_part bs s"
  by (induction bs s rule: csum_part.induct) auto

lemma csum_pad [simp]: "csum (pad_even bs) s = csum bs s"
  by (simp add: pad_even_def csum_def csum_part_pad)

lemma even_pad [simp]: "even (length (pad_even bs))"
  by (simp add: pad_even_def)

text \<open>
  C36. The checksum a sender appends verifies at the receiver: for a message of any length, even or odd, writing the complement of
  \<open>csum\<close> little endian after the message, padded with a zero byte when its length is odd, makes \<open>csum\<close> of the whole
  \<open>0xFFFF\<close>, and the accumulator of the whole never wraps (its value is the sum of the
  16-bit words), so the fold loses no carry. The padded message is shorter than \<open>2 ^ 48 - 2\<close> bytes.
\<close>

theorem csum_verifies:
  assumes "length (pad_even bs) < 2 ^ 48 - 2"
  shows "csum (pad_even bs @ le16_bytes (NOT (csum bs 0))) 0 = 0xFFFF \<and>
    unat (csum_part (pad_even bs @ le16_bytes (NOT (csum bs 0))) 0) = word_sum (pad_even bs @ le16_bytes (NOT (csum bs 0)))"
proof (intro conjI)
  show "csum (pad_even bs @ le16_bytes (NOT (csum bs 0))) 0 = 0xFFFF"
    using csum_complement_verifies [OF even_pad assms] by (simp add: le16_bytes_def)
  let ?m = "pad_even bs @ le16_bytes (NOT (csum bs 0))"
  have "(length ?m + 1) div 2 < 2 ^ 48" using assms by (simp add: le16_bytes_def)
  then have "word_sum ?m < 2 ^ 64" using word_sum_bound [of ?m] by simp
  then show "unat (csum_part ?m 0) = word_sum ?m" using csum_part_sum [of 0 ?m] by simp
qed

theorem csum_verifies_witness:
  "csum [0x45, 0, 0, 0x28] 0 = 0x2845 \<and>
   csum ([0x45, 0, 0, 0x28] @ le16_bytes (NOT (csum [0x45, 0, 0, 0x28] 0))) 0 = 0xFFFF \<and>
   csum ([0x45, 0, 0x28, 0] @ le16_bytes (NOT (csum [0x45, 0, 0x28] 0))) 0 = 0xFFFF"
  using csum_verifies [of "[0x45, 0, 0, 0x28]"] csum_verifies [of "[0x45, 0, 0x28]"]
  by (auto simp: csum_def csum_pack_def Let_def pad_even_def)

end
