(* ===== verification/TxFifo.thy ===== *)
theory TxFifo
  imports Device Checksum
begin

text \<open>
  The transmit path of libexanic, \<open>libs/exanic/fifo_tx.c\<close>. A handle owns a window of the
  card's transmit memory, used as a ring of 64-byte aligned chunks with 16-bit sequence
  numbers; the card reports the last chunk it has sent through a feedback word in memory.
  That word is the environment: \<open>fb k\<close> is what the \<open>k\<close>-th read of it returns, and
  \<open>fb_reads\<close> counts the reads. Register writes are kept in order in \<open>reg_writes\<close>.
  The wait loops run on fuel; \<open>None\<close> means they are still spinning.
\<close>

abbreviation (input) "DEFAULT_TX_BUFFER_SIZE \<equiv> 0x1000 :: nat"
abbreviation (input) "FEEDBACK_INTERVAL \<equiv> 512 :: nat"
abbreviation (input) "EXANIC_TX_TYPE_RAW \<equiv> 1 :: u8"
abbreviation (input) "EXANIC_TX_TYPE_TCP_ACCEL \<equiv> 2 :: u8"
abbreviation (input) "sizeof_tx_chunk \<equiv> 8 :: nat"
abbreviation (input) "sizeof_tx_payload_metadata \<equiv> 18 :: nat"

record exanic_tx =
  tx_port_number :: int
  feedback_slot :: int
  tx_buffer :: bytes
  buffer_offset :: u32
  buffer_size :: u32
  next_offset :: u32
  feedback_seq :: u16
  request_seq :: u16
  rollover_seq :: u16
  next_seq :: u16
  queue_len :: int
  feedback_offsets :: "u32 list"
  \<comment> \<open>the chunk a begin call prepared, as an offset into the window\<close>
  prepared_chunk :: "nat option"
  prepared_chunk_size :: nat
  need_feedback :: bool
  \<comment> \<open>effects: reads of the feedback word, what was stored to it, register writes\<close>
  fb_reads :: nat
  fb_writes :: "u16 list"
  reg_writes :: "(nat \<times> u32) list"

definition CACHE_ALIGN :: "nat \<Rightarrow> nat" where
  "CACHE_ALIGN x = sz_add x 63 div 64 * 64"

definition round_down_pow2 :: "u32 \<Rightarrow> u32" where
  "round_down_pow2 n =
     (let n1 = n OR drop_bit 1 n;
          n2 = n1 OR drop_bit 2 n1;
          n3 = n2 OR drop_bit 4 n2;
          n4 = n3 OR drop_bit 8 n3;
          n5 = n4 OR drop_bit 16 n4
      in drop_bit 1 n5 + 1)"

definition exanic_payload_padding_bytes :: "u8 \<Rightarrow> nat" where
  "exanic_payload_padding_bytes type =
     (if type = EXANIC_TX_TYPE_RAW \<or> type = EXANIC_TX_TYPE_TCP_ACCEL then 2 else 0)"

text \<open>\<open>feedback_offsets[seq & (queue_len - 1)]\<close>\<close>

definition fb_index :: "exanic_tx \<Rightarrow> u16 \<Rightarrow> nat" where
  "fb_index tx s = nat (uint s AND (queue_len tx - 1))"

definition fb_offset :: "exanic_tx \<Rightarrow> u16 \<Rightarrow> u32" where
  "fb_offset tx s = feedback_offsets tx ! fb_index tx s"

subsection \<open>Feedback and space\<close>

definition exanic_update_tx_feedback :: "(nat \<Rightarrow> u16) \<Rightarrow> exanic_tx \<Rightarrow> (exanic_err + unit) \<times> exanic_tx" where
  "exanic_update_tx_feedback fb tx =
     (let s = fb (fb_reads tx); tx1 = tx\<lparr>fb_reads := Suc (fb_reads tx)\<rparr>
      in if uint (next_seq tx - s) \<le> queue_len tx
         then (Inr (), tx1\<lparr>feedback_seq := s\<rparr>)
         else (Inl Err_bad_feedback_seq,
               tx1\<lparr>feedback_seq := next_seq tx - 1, fb_writes := fb_writes tx @ [next_seq tx - 1]\<rparr>))"

definition exanic_max_tx_chunk_size :: "exanic_tx \<Rightarrow> nat" where
  "exanic_max_tx_chunk_size tx = unat (buffer_size tx div 2 - of_nat FEEDBACK_INTERVAL)"

text \<open>The first loop of \<open>exanic_prepare_tx_chunk\<close>: wait for a sequence number.\<close>

fun wait_seq :: "nat \<Rightarrow> (nat \<Rightarrow> u16) \<Rightarrow> exanic_tx \<Rightarrow> ((exanic_err + unit) \<times> exanic_tx) option" where
  "wait_seq 0 fb tx = None"
| "wait_seq (Suc fuel) fb tx =
     (if queue_len tx \<le> uint (next_seq tx - feedback_seq tx)
      then (case exanic_update_tx_feedback fb tx of
              (Inl e, tx1) \<Rightarrow> Some (Inl e, tx1)
            | (Inr _, tx1) \<Rightarrow> wait_seq fuel fb tx1)
      else Some (Inr (), tx))"

text \<open>Its second loop: wait for space; \<open>try_space\<close> is the part before the size check.\<close>

definition not_wrapped :: "exanic_tx \<Rightarrow> bool" where
  "not_wrapped tx \<longleftrightarrow> next_seq tx - feedback_seq tx \<le> next_seq tx - rollover_seq tx"

definition try_space :: "nat \<Rightarrow> exanic_tx \<Rightarrow> bool \<times> exanic_tx" where
  "try_space aligned tx =
     (if not_wrapped tx \<and> sz_add (unat (next_offset tx)) aligned \<le> unat (buffer_size tx)
      then (True, tx)
      else let tx1 = (if not_wrapped tx then tx\<lparr>next_offset := 0, rollover_seq := next_seq tx\<rparr> else tx)
           in (sz_add (unat (next_offset tx1)) aligned \<le> unat (fb_offset tx1 (feedback_seq tx1)), tx1))"

fun wait_space :: "nat \<Rightarrow> (nat \<Rightarrow> u16) \<Rightarrow> nat \<Rightarrow> exanic_tx \<Rightarrow> ((exanic_err + unit) \<times> exanic_tx) option" where
  "wait_space 0 fb aligned tx = None"
| "wait_space (Suc fuel) fb aligned tx =
     (case try_space aligned tx of
        (True, tx1) \<Rightarrow> Some (Inr (), tx1)
      | (False, tx1) \<Rightarrow>
          if exanic_max_tx_chunk_size tx1 < aligned then Some (Inl Err_tx_chunk_too_large, tx1)
          else (case exanic_update_tx_feedback fb tx1 of
                  (Inl e, tx2) \<Rightarrow> Some (Inl e, tx2)
                | (Inr _, tx2) \<Rightarrow> wait_space fuel fb aligned tx2))"

definition wants_feedback :: "exanic_tx \<Rightarrow> nat \<Rightarrow> nat \<Rightarrow> bool" where
  "wants_feedback tx aligned request_offset \<longleftrightarrow>
     queue_len tx div 2 < uint (next_seq tx - request_seq tx) \<or>
     next_seq tx - rollover_seq tx < next_seq tx - request_seq tx \<or>
     FEEDBACK_INTERVAL < sz_sub (sz_add (unat (next_offset tx)) aligned) request_offset"

definition exanic_prepare_tx_chunk ::
    "nat \<Rightarrow> (nat \<Rightarrow> u16) \<Rightarrow> exanic_tx \<Rightarrow> nat \<Rightarrow> ((exanic_err + nat) \<times> exanic_tx) option" where
  "exanic_prepare_tx_chunk fuel fb tx chunk_size =
     (let aligned_size = CACHE_ALIGN chunk_size;
          request_offset = unat (fb_offset tx (request_seq tx))
      in case wait_seq fuel fb tx of
           None \<Rightarrow> None
         | Some (Inl e, tx1) \<Rightarrow> Some (Inl e, tx1)
         | Some (Inr _, tx1) \<Rightarrow>
             (case wait_space fuel fb aligned_size tx1 of
                None \<Rightarrow> None
              | Some (Inl e, tx2) \<Rightarrow> Some (Inl e, tx2)
              | Some (Inr _, tx2) \<Rightarrow>
                  Some (Inr (unat (next_offset tx2)),
                        tx2\<lparr>need_feedback := wants_feedback tx2 aligned_size request_offset\<rparr>)))"

subsection \<open>Sending a chunk\<close>

definition le16 :: "u16 \<Rightarrow> bytes" where
  "le16 x = [ucast x, ucast (drop_bit 8 x)]"

definition buf_write :: "exanic_tx \<Rightarrow> nat \<Rightarrow> bytes \<Rightarrow> exanic_tx" where
  "buf_write tx off bs = tx\<lparr>tx_buffer := blit (tx_buffer tx) off bs\<rparr>"

definition exanic_send_tx_chunk :: "exanic_tx \<Rightarrow> nat \<Rightarrow> exanic_tx" where
  "exanic_send_tx_chunk tx chunk_size =
     (let aligned_size = CACHE_ALIGN chunk_size;
          offset = unat (next_offset tx);
          tx1 = tx\<lparr>next_offset := of_nat (sz_add offset aligned_size)\<rparr>;
          tx2 = buf_write tx1 offset (le16 (next_seq tx1));
          tx3 = buf_write tx2 (offset + 2)
                  (le16 (of_int (feedback_slot tx2 OR (if need_feedback tx2 then 0 else 0x8000))));
          tx4 = tx3\<lparr>reg_writes := reg_writes tx3 @
                  [(REG_PORT_INDEX (nat (tx_port_number tx3)) REG_PORT_TX_COMMAND,
                    of_nat offset + buffer_offset tx3)]\<rparr>;
          tx5 = tx4\<lparr>feedback_offsets := (feedback_offsets tx4)[fb_index tx4 (next_seq tx4) := next_offset tx4]\<rparr>;
          tx6 = (if need_feedback tx5 then tx5\<lparr>request_seq := next_seq tx5\<rparr> else tx5)
      in tx6\<lparr>next_seq := next_seq tx6 + 1\<rparr>)"

text \<open>\<open>exanic_dummy_reg_write\<close>: a write to the read-only version register.\<close>

definition exanic_dummy_reg_write :: "exanic_tx \<Rightarrow> exanic_tx" where
  "exanic_dummy_reg_write tx =
     tx\<lparr>reg_writes := reg_writes tx @ [(REG_EXANIC_INDEX REG_EXANIC_PCIE_IF_VER, 0xdeadbeef)]\<rparr>"

definition exanic_get_tx_mtu :: "exanic_tx \<Rightarrow> nat" where
  "exanic_get_tx_mtu tx =
     (let padding = exanic_payload_padding_bytes EXANIC_TX_TYPE_RAW
      in sz_sub (sz_sub (exanic_max_tx_chunk_size tx) padding) sizeof_tx_chunk)"

text \<open>The length, type and flags fields of a chunk header at offset \<open>off\<close>.\<close>

definition write_header :: "exanic_tx \<Rightarrow> nat \<Rightarrow> nat \<Rightarrow> u8 \<Rightarrow> exanic_tx" where
  "write_header tx off len type = buf_write tx (off + 4) (le16 (of_nat len) @ [type, 0])"

definition exanic_transmit_frame_ex ::
    "nat \<Rightarrow> (nat \<Rightarrow> u16) \<Rightarrow> exanic_tx \<Rightarrow> bytes \<Rightarrow> u32 \<Rightarrow> ((exanic_err + unit) \<times> exanic_tx) option" where
  "exanic_transmit_frame_ex fuel fb tx frame flags =
     (let frame_size = length frame;
          padding = exanic_payload_padding_bytes EXANIC_TX_TYPE_RAW;
          chunk_size = sz_add (sz_add frame_size padding) sizeof_tx_chunk
      in if prepared_chunk tx \<noteq> None then Some (Inl Err_missing_end_transmit, tx)
         else case exanic_prepare_tx_chunk fuel fb tx chunk_size of
           None \<Rightarrow> None
         | Some (Inl e, tx1) \<Rightarrow> Some (Inl e, tx1)
         | Some (Inr chunk, tx1) \<Rightarrow>
             if flags AND 1 \<noteq> 0 then Some (Inr (), exanic_dummy_reg_write tx1)
             else
               let tx2 = write_header tx1 chunk (sz_add frame_size padding) EXANIC_TX_TYPE_RAW;
                   tx3 = buf_write tx2 (chunk + 8) (replicate padding 0);
                   tx4 = buf_write tx3 (chunk + 8 + padding) frame
               in Some (Inr (), exanic_send_tx_chunk tx4 chunk_size))"

definition exanic_transmit_frame ::
    "nat \<Rightarrow> (nat \<Rightarrow> u16) \<Rightarrow> exanic_tx \<Rightarrow> bytes \<Rightarrow> ((exanic_err + unit) \<times> exanic_tx) option" where
  "exanic_transmit_frame fuel fb tx frame = exanic_transmit_frame_ex fuel fb tx frame 0"

subsection \<open>Transmitting in place\<close>

text \<open>The begin functions return where the caller is to put its data.\<close>

definition exanic_begin_transmit_frame ::
    "nat \<Rightarrow> (nat \<Rightarrow> u16) \<Rightarrow> exanic_tx \<Rightarrow> nat \<Rightarrow> ((exanic_err + nat) \<times> exanic_tx) option" where
  "exanic_begin_transmit_frame fuel fb tx frame_size =
     (let padding = exanic_payload_padding_bytes EXANIC_TX_TYPE_RAW;
          len = sz_add padding frame_size;
          chunk_size = sz_add sizeof_tx_chunk len
      in if prepared_chunk tx \<noteq> None then Some (Inl Err_missing_end_transmit, tx)
         else case exanic_prepare_tx_chunk fuel fb tx chunk_size of
           None \<Rightarrow> None
         | Some (Inl e, tx1) \<Rightarrow> Some (Inl e, tx1\<lparr>prepared_chunk := None\<rparr>)
         | Some (Inr chunk, tx1) \<Rightarrow>
             let tx2 = tx1\<lparr>prepared_chunk := Some chunk, prepared_chunk_size := chunk_size\<rparr>;
                 tx3 = write_header tx2 chunk len EXANIC_TX_TYPE_RAW;
                 tx4 = buf_write tx3 (chunk + 8) (replicate padding 0)
             in Some (Inr (chunk + 8 + padding), tx4))"

text \<open>
  The end functions; called without a prepared chunk the C code dereferences NULL, which
  is \<open>None\<close> here.
\<close>

definition exanic_end_transmit_frame :: "exanic_tx \<Rightarrow> nat \<Rightarrow> exanic_tx option" where
  "exanic_end_transmit_frame tx frame_size =
     (if frame_size \<noteq> 0
      then case prepared_chunk tx of
             None \<Rightarrow> None
           | Some chunk \<Rightarrow>
               let padding = exanic_payload_padding_bytes EXANIC_TX_TYPE_RAW;
                   len = sz_add padding frame_size;
                   chunk_size = sz_add sizeof_tx_chunk len;
                   tx1 = buf_write tx (chunk + 4) (le16 (of_nat len))
               in Some ((exanic_send_tx_chunk tx1 chunk_size)\<lparr>prepared_chunk := None\<rparr>)
      else Some ((exanic_send_tx_chunk tx (prepared_chunk_size tx))\<lparr>prepared_chunk := None\<rparr>))"

definition exanic_abort_transmit_frame :: "exanic_tx \<Rightarrow> exanic_tx" where
  "exanic_abort_transmit_frame tx = tx\<lparr>prepared_chunk := None\<rparr>"

subsection \<open>Payloads for the TCP engine\<close>

text \<open>
  \<open>struct tx_payload_metadata\<close> in memory: checksum and connection id in host order, the
  checksum swapped by \<open>htons\<close> first, then 14 reserved bytes, whatever the stack held.
\<close>

definition htons :: "u16 \<Rightarrow> u16" where
  "htons x = push_bit 8 x OR drop_bit 8 x"

definition tx_payload_metadata :: "u16 \<Rightarrow> u16 \<Rightarrow> bytes \<Rightarrow> bytes" where
  "tx_payload_metadata c connection_id junk = le16 c @ le16 connection_id @ junk"

definition exanic_transmit_payload ::
    "nat \<Rightarrow> (nat \<Rightarrow> u16) \<Rightarrow> bytes \<Rightarrow> exanic_tx \<Rightarrow> u16 \<Rightarrow> u8 \<Rightarrow> bytes \<Rightarrow>
      ((exanic_err + unit) \<times> exanic_tx) option" where
  "exanic_transmit_payload fuel fb junk tx connection_id type payload =
     (let payload_size = length payload;
          padding = exanic_payload_padding_bytes type;
          len = sz_add (sz_add padding sizeof_tx_payload_metadata) payload_size;
          chunk_size = sz_add sizeof_tx_chunk len
      in if prepared_chunk tx \<noteq> None then Some (Inl Err_missing_end_transmit, tx)
         else case exanic_prepare_tx_chunk fuel fb tx chunk_size of
           None \<Rightarrow> None
         | Some (Inl e, tx1) \<Rightarrow> Some (Inl e, tx1)
         | Some (Inr chunk, tx1) \<Rightarrow>
             let tx2 = write_header tx1 chunk len type;
                 metadata = tx_payload_metadata (htons (csum payload 0)) connection_id junk;
                 tx3 = buf_write tx2 (chunk + 8 + padding) metadata;
                 tx4 = buf_write tx3 (chunk + 8 + padding + sizeof_tx_payload_metadata) payload
             in Some (Inr (), exanic_send_tx_chunk tx4 chunk_size))"

text \<open>\<open>exanic_begin_transmit_payload\<close> returns where the payload and its checksum go.\<close>

definition exanic_begin_transmit_payload ::
    "nat \<Rightarrow> (nat \<Rightarrow> u16) \<Rightarrow> exanic_tx \<Rightarrow> u16 \<Rightarrow> u8 \<Rightarrow> nat \<Rightarrow>
      ((exanic_err + nat \<times> nat) \<times> exanic_tx) option" where
  "exanic_begin_transmit_payload fuel fb tx connection_id type payload_size =
     (let padding = exanic_payload_padding_bytes type;
          len = sz_add (sz_add padding sizeof_tx_payload_metadata) payload_size;
          chunk_size = sz_add sizeof_tx_chunk len
      in if prepared_chunk tx \<noteq> None then Some (Inl Err_missing_end_transmit, tx)
         else case exanic_prepare_tx_chunk fuel fb tx chunk_size of
           None \<Rightarrow> None
         | Some (Inl e, tx1) \<Rightarrow> Some (Inl e, tx1\<lparr>prepared_chunk := None\<rparr>)
         | Some (Inr chunk, tx1) \<Rightarrow>
             let tx2 = tx1\<lparr>prepared_chunk := Some chunk, prepared_chunk_size := chunk_size\<rparr>;
                 tx3 = write_header tx2 chunk len type;
                 hdr = chunk + 8 + padding;
                 tx4 = buf_write tx3 (hdr + 2) (le16 connection_id)
             in Some (Inr (hdr + sizeof_tx_payload_metadata, hdr), tx4))"

definition exanic_end_transmit_payload :: "exanic_tx \<Rightarrow> u8 \<Rightarrow> nat \<Rightarrow> exanic_tx option" where
  "exanic_end_transmit_payload tx type payload_size =
     (if payload_size \<noteq> 0
      then case prepared_chunk tx of
             None \<Rightarrow> None
           | Some chunk \<Rightarrow>
               let padding = exanic_payload_padding_bytes type;
                   len = sz_add (sz_add padding sizeof_tx_payload_metadata) payload_size;
                   chunk_size = sz_add sizeof_tx_chunk len;
                   tx1 = buf_write tx (chunk + 4) (le16 (of_nat len))
               in Some ((exanic_send_tx_chunk tx1 chunk_size)\<lparr>prepared_chunk := None\<rparr>)
      else Some ((exanic_send_tx_chunk tx (prepared_chunk_size tx))\<lparr>prepared_chunk := None\<rparr>))"

definition exanic_get_tx_timestamp :: "exanic_t \<Rightarrow> exanic_tx \<Rightarrow> u32" where
  "exanic_get_tx_timestamp ex tx = port_reg ex (tx_port_number tx) REG_PORT_TX_LAST_TIME"

end
