(* ===== verification/TxSpec.thy ===== *)
theory TxSpec
  imports TxFifo
begin

text \<open>
  The ring discipline of the transmit window. Ghost state gives the 16-bit sequence
  numbers their unbounded values and every chunk ever placed its extent; the invariant
  says how the current lap and the previous one lie in the window, and the lemmas carry
  it through the wait loops and the send. The card is a monotone count \<open>hh\<close>: its \<open>k\<close>-th
  observed feedback word is the number of the last chunk it has finished with.
\<close>

record ghost =
  gn :: nat  \<comment> \<open>next sequence number\<close>
  gf :: nat  \<comment> \<open>last feedback seen\<close>
  gq :: nat  \<comment> \<open>last feedback requested\<close>
  gr :: nat  \<comment> \<open>first chunk of the current lap\<close>
  gp :: nat  \<comment> \<open>first chunk of the previous lap\<close>
  gst :: "nat \<Rightarrow> nat"
  gen :: "nat \<Rightarrow> nat"

abbreviation (input) "qlen tx \<equiv> nat (queue_len tx)"
abbreviation (input) "bsize tx \<equiv> unat (buffer_size tx)"
abbreviation (input) "noff tx \<equiv> unat (next_offset tx)"

definition tx_shape :: "exanic_tx \<Rightarrow> bool" where
  "tx_shape tx \<longleftrightarrow> (\<exists>k. 2 \<le> k \<and> k \<le> 15 \<and> queue_len tx = 2 ^ k) \<and>
     length (feedback_offsets tx) = qlen tx \<and> length (tx_buffer tx) = bsize tx \<and> bsize tx < 2 ^ 22"

definition tx_seqs :: "exanic_tx \<Rightarrow> ghost \<Rightarrow> bool" where
  "tx_seqs tx g \<longleftrightarrow>
     next_seq tx = of_nat (gn g) \<and> feedback_seq tx = of_nat (gf g) \<and>
     request_seq tx = of_nat (gq g) \<and> rollover_seq tx = of_nat (gr g) \<and>
     gp g \<le> gf g \<and> gf g < gn g \<and> gq g < gn g \<and> gp g \<le> gr g \<and> gr g \<le> gn g \<and>
     gn g \<le> gf g + qlen tx \<and>
     (\<forall>s. s < gn g \<and> gn g \<le> s + qlen tx \<longrightarrow> feedback_offsets tx ! (s mod qlen tx) = of_nat (gen g s))"

definition tx_layout :: "exanic_tx \<Rightarrow> ghost \<Rightarrow> bool" where
  "tx_layout tx g \<longleftrightarrow>
     (\<forall>s. gr g \<le> s \<and> s < gn g \<longrightarrow> gst g s = (if s = gr g then 0 else gen g (s - 1)) \<and> gst g s + 64 \<le> gen g s) \<and>
     (\<forall>s. gp g < s \<and> s < gr g \<longrightarrow> gst g s = gen g (s - 1) \<and> gst g s \<le> gen g s) \<and>
     (\<forall>s. gp g \<le> s \<and> s < gn g \<longrightarrow> gen g s \<le> bsize tx) \<and>
     noff tx = (if gr g = gn g then 0 else gen g (gn g - 1)) \<and>
     (gf g < gr g \<longrightarrow> noff tx \<le> gen g (gf g))"

definition tx_inv :: "exanic_tx \<Rightarrow> ghost \<Rightarrow> bool" where
  "tx_inv tx g \<longleftrightarrow> tx_shape tx \<and> tx_seqs tx g \<and> tx_layout tx g"

text \<open>Room for \<open>aligned\<close> bytes at the next offset that no chunk in flight uses.\<close>

definition tx_fits :: "exanic_tx \<Rightarrow> ghost \<Rightarrow> nat \<Rightarrow> bool" where
  "tx_fits tx g aligned \<longleftrightarrow> noff tx + aligned \<le> bsize tx \<and>
     (gf g < gr g \<longrightarrow> noff tx + aligned \<le> gen g (gf g))"

lemma tx_inv_cong:
  assumes "queue_len tx' = queue_len tx" "feedback_offsets tx' = feedback_offsets tx"
    "length (tx_buffer tx') = length (tx_buffer tx)" "buffer_size tx' = buffer_size tx"
    "next_offset tx' = next_offset tx" "next_seq tx' = next_seq tx" "feedback_seq tx' = feedback_seq tx"
    "request_seq tx' = request_seq tx" "rollover_seq tx' = rollover_seq tx"
  shows "tx_inv tx' g = tx_inv tx g"
  unfolding tx_inv_def tx_shape_def tx_seqs_def tx_layout_def assms ..

subsection \<open>Laps\<close>

lemma tx_layoutD:
  assumes "tx_layout tx g"
  shows "gr g \<le> s \<Longrightarrow> s < gn g \<Longrightarrow> gst g s = (if s = gr g then 0 else gen g (s - 1))"
    "gr g \<le> s \<Longrightarrow> s < gn g \<Longrightarrow> gst g s + 64 \<le> gen g s"
    "gp g < s \<Longrightarrow> s < gr g \<Longrightarrow> gst g s = gen g (s - 1)"
    "gp g < s \<Longrightarrow> s < gr g \<Longrightarrow> gst g s \<le> gen g s"
    "gp g \<le> s \<Longrightarrow> s < gn g \<Longrightarrow> gen g s \<le> bsize tx"
    "noff tx = (if gr g = gn g then 0 else gen g (gn g - 1))"
    "gf g < gr g \<Longrightarrow> noff tx \<le> gen g (gf g)"
  using assms unfolding tx_layout_def by blast+

lemma gen_mono_current:
  assumes "tx_layout tx g"
  shows "gr g \<le> s \<Longrightarrow> s + d < gn g \<Longrightarrow> gen g s \<le> gen g (s + d)"
proof (induction d)
  case (Suc d)
  then have "gst g (s + Suc d) = gen g (s + d)"
    using tx_layoutD(1) [OF assms, of "s + Suc d"] by simp
  with Suc tx_layoutD(2) [OF assms, of "s + Suc d"] show ?case by simp
qed simp

lemma gen_mono_previous:
  assumes "tx_layout tx g"
  shows "gp g \<le> s \<Longrightarrow> s + d < gr g \<Longrightarrow> gen g s \<le> gen g (s + d)"
proof (induction d)
  case (Suc d)
  then have "gst g (s + Suc d) = gen g (s + d)"
    using tx_layoutD(3) [OF assms, of "s + Suc d"] by simp
  with Suc tx_layoutD(4) [OF assms, of "s + Suc d"] show ?case by simp
qed simp

lemma gen_grows:
  assumes "tx_layout tx g"
  shows "gr g + d < gn g \<Longrightarrow> 64 * (d + 1) \<le> gen g (gr g + d)"
proof (induction d)
  case 0
  then show ?case using tx_layoutD(2) [OF assms, of "gr g"] by simp
next
  case (Suc d)
  then show ?case
    using tx_layoutD(1,2) [OF assms, of "gr g + Suc d"] by simp
qed

lemma noff_le:
  assumes "tx_inv tx g"
  shows "noff tx \<le> bsize tx"
proof -
  have l: "tx_layout tx g" and s: "gf g < gn g" "gp g \<le> gf g"
    using assms by (auto simp: tx_inv_def tx_seqs_def)
  then show ?thesis
    using tx_layoutD(5) [OF l, of "gn g - 1"] tx_layoutD(6) [OF l] by auto
qed

lemma lap_short:
  assumes "tx_inv tx g"
  shows "gn g - gr g < 2 ^ 16"
proof (cases "gr g = gn g")
  case False
  with assms have "gr g + (gn g - gr g - 1) < gn g" "gr g + (gn g - gr g - 1) = gn g - 1"
    "tx_layout tx g" by (auto simp: tx_inv_def tx_seqs_def)
  with gen_grows [of tx g "gn g - gr g - 1"] tx_layoutD(6) [of tx g] False
  have "64 * (gn g - gr g) \<le> noff tx" by auto
  with noff_le [OF assms] assms show ?thesis by (auto simp: tx_inv_def tx_shape_def)
qed simp

lemma qlen_pow:
  assumes "tx_shape tx"
  obtains k where "2 \<le> k" "k \<le> 15" "queue_len tx = 2 ^ k" "qlen tx = 2 ^ k"
proof -
  from assms obtain k where k: "2 \<le> k" "k \<le> 15" "queue_len tx = 2 ^ k"
    unfolding tx_shape_def by blast
  moreover from k have "qlen tx = 2 ^ k" by (simp add: nat_power_eq)
  ultimately show thesis by (intro that)
qed

lemma qlen_bounds:
  assumes "tx_shape tx"
  shows "4 \<le> qlen tx" "qlen tx \<le> 2 ^ 15" "queue_len tx = int (qlen tx)"
proof -
  obtain k where k: "2 \<le> k" "k \<le> 15" "queue_len tx = 2 ^ k" "qlen tx = 2 ^ k"
    using qlen_pow [OF assms] .
  have "(2 :: nat) ^ 2 \<le> 2 ^ k" "(2 :: nat) ^ k \<le> 2 ^ 15"
    using k by (intro power_increasing; simp)+
  then show "4 \<le> qlen tx" "qlen tx \<le> 2 ^ 15" unfolding k(4) by simp_all
  show "queue_len tx = int (qlen tx)" using k(3) by simp
qed

lemma le_queue_len:
  assumes "tx_shape tx"
  shows "int n \<le> queue_len tx \<longleftrightarrow> n \<le> qlen tx" "queue_len tx \<le> int n \<longleftrightarrow> qlen tx \<le> n"
  using qlen_bounds(3) [OF assms] by linarith+

lemma fb_index_mod:
  assumes "tx_shape tx"
  shows "fb_index tx (of_nat s) = s mod qlen tx"
proof -
  obtain k where k: "2 \<le> k" "k \<le> 15" "queue_len tx = 2 ^ k" "qlen tx = 2 ^ k"
    using qlen_pow [OF assms] .
  have "fb_index tx (of_nat s) = nat (take_bit k (uint (of_nat s :: u16)))"
    using k(3) by (simp add: fb_index_def take_bit_eq_mask mask_eq_exp_minus_1)
  also have "uint (of_nat s :: u16) = int (s mod 2 ^ 16)"
    by (simp add: unsigned_of_nat take_bit_eq_mod)
  also have "nat (take_bit k (int (s mod 2 ^ 16))) = s mod 2 ^ 16 mod 2 ^ k"
    by (simp add: take_bit_eq_mod nat_mod_distrib nat_power_eq)
  also have "s mod 2 ^ 16 mod 2 ^ k = s mod 2 ^ k"
    using k(2) by (intro mod_mod_cancel le_imp_power_dvd) simp
  finally show ?thesis unfolding k(4) .
qed

lemma seq_diff:
  assumes "a \<le> n" "n - a < 2 ^ 16"
  shows "unat (of_nat n - of_nat a :: u16) = n - a"
  using unat_word_diff [where 'w = 16, OF assms(1)] assms(2) by simp

lemma not_wrapped_iff:
  assumes "tx_inv tx g"
  shows "not_wrapped tx \<longleftrightarrow> gr g \<le> gf g"
proof -
  have s: "tx_seqs tx g" and q: "qlen tx \<le> 2 ^ 15"
    using assms qlen_bounds by (auto simp: tx_inv_def)
  have "unat (next_seq tx - feedback_seq tx) = gn g - gf g"
  proof -
    have "gf g \<le> gn g" "gn g - gf g < 2 ^ 16"
      using s q by (auto simp: tx_seqs_def)
    from seq_diff [OF this] show ?thesis using s by (simp add: tx_seqs_def)
  qed
  moreover have "unat (next_seq tx - rollover_seq tx) = gn g - gr g"
    using s lap_short [OF assms] by (simp add: tx_seqs_def seq_diff)
  ultimately show ?thesis
    using s by (auto simp: not_wrapped_def word_le_nat_alt tx_seqs_def)
qed

subsection \<open>The wait loops\<close>

text \<open>A feedback word the card may legitimately hold: the number of a chunk already sent.\<close>

lemma tx_layout_feedback:
  assumes "tx_layout tx g" "h < gr g \<longrightarrow> noff tx \<le> gen g h"
  shows "tx_layout (tx\<lparr>fb_reads := a, feedback_seq := b\<rparr>) (g\<lparr>gf := h\<rparr>)"
proof -
  let ?tx = "tx\<lparr>fb_reads := a, feedback_seq := b\<rparr>" and ?g = "g\<lparr>gf := h\<rparr>"
  have eq: "gst ?g = gst g" "gen ?g = gen g" "gr ?g = gr g" "gn ?g = gn g" "gp ?g = gp g" "gf ?g = h"
    "next_offset ?tx = next_offset tx" "buffer_size ?tx = buffer_size tx" by simp_all
  show ?thesis
    using assms unfolding tx_layout_def eq by (elim conjE) (intro conjI; assumption)
qed

lemma update_feedback_ok:
  assumes inv: "tx_inv tx g" and h: "gf g \<le> hh (fb_reads tx)" "hh (fb_reads tx) < gn g"
  shows "exanic_update_tx_feedback (\<lambda>k. of_nat (hh k)) tx =
      (Inr (), tx\<lparr>fb_reads := Suc (fb_reads tx), feedback_seq := of_nat (hh (fb_reads tx))\<rparr>)"
    and "tx_inv (tx\<lparr>fb_reads := Suc (fb_reads tx), feedback_seq := of_nat (hh (fb_reads tx))\<rparr>)
      (g\<lparr>gf := hh (fb_reads tx)\<rparr>)"
proof -
  let ?h = "hh (fb_reads tx)"
  have sh: "tx_shape tx" and sq: "tx_seqs tx g" and ly: "tx_layout tx g"
    using inv by (simp_all add: tx_inv_def)
  have d: "gn g - ?h \<le> qlen tx" using sq h by (auto simp: tx_seqs_def)
  with qlen_bounds(2) [OF sh] h(2) have "unat (of_nat (gn g) - of_nat ?h :: u16) = gn g - ?h"
    by (intro seq_diff) auto
  then have "uint (next_seq tx - of_nat ?h) \<le> queue_len tx"
    using d sq le_queue_len(1) [OF sh, of "gn g - ?h"] by (simp add: tx_seqs_def uint_nat)
  then show "exanic_update_tx_feedback (\<lambda>k. of_nat (hh k)) tx =
      (Inr (), tx\<lparr>fb_reads := Suc (fb_reads tx), feedback_seq := of_nat ?h\<rparr>)"
    by (simp add: exanic_update_tx_feedback_def Let_def)
  have "noff tx \<le> gen g ?h" if "?h < gr g"
    using gen_mono_previous [OF ly, of "gf g" "?h - gf g"] tx_layoutD(7) [OF ly] that h(1) sq
    by (simp add: tx_seqs_def)
  then have "tx_layout (tx\<lparr>fb_reads := Suc (fb_reads tx), feedback_seq := of_nat ?h\<rparr>) (g\<lparr>gf := ?h\<rparr>)"
    by (intro tx_layout_feedback [OF ly]) blast
  then show "tx_inv (tx\<lparr>fb_reads := Suc (fb_reads tx), feedback_seq := of_nat ?h\<rparr>) (g\<lparr>gf := ?h\<rparr>)"
    using sh sq h d by (simp add: tx_inv_def tx_shape_def tx_seqs_def)
qed

text \<open>What the wait loops leave alone.\<close>

definition same_chunks :: "ghost \<Rightarrow> ghost \<Rightarrow> bool" where
  "same_chunks g g' \<longleftrightarrow> gn g' = gn g \<and> gq g' = gq g \<and> gst g' = gst g \<and> gen g' = gen g \<and> gf g \<le> gf g'"

definition same_window :: "exanic_tx \<Rightarrow> exanic_tx \<Rightarrow> bool" where
  "same_window tx tx' \<longleftrightarrow> tx_buffer tx' = tx_buffer tx \<and> buffer_size tx' = buffer_size tx \<and>
     buffer_offset tx' = buffer_offset tx \<and> tx_port_number tx' = tx_port_number tx \<and>
     feedback_slot tx' = feedback_slot tx \<and> reg_writes tx' = reg_writes tx \<and>
     prepared_chunk tx' = prepared_chunk tx \<and> feedback_offsets tx' = feedback_offsets tx \<and>
     queue_len tx' = queue_len tx \<and> next_seq tx' = next_seq tx \<and> request_seq tx' = request_seq tx"

lemma same_refl [simp]: "same_chunks g g" "same_window tx tx"
  by (simp_all add: same_chunks_def same_window_def)

lemma same_trans:
  "same_chunks a b \<Longrightarrow> same_chunks b c \<Longrightarrow> same_chunks a c"
  "same_window x y \<Longrightarrow> same_window y z \<Longrightarrow> same_window x z"
  by (simp_all add: same_chunks_def same_window_def)

lemma update_feedback_reads:
  "exanic_update_tx_feedback fb tx = (res, tx') \<Longrightarrow> fb_reads tx' = Suc (fb_reads tx)"
  by (auto simp: exanic_update_tx_feedback_def Let_def split: if_splits)

lemma wait_seq_reads: "wait_seq fuel fb tx = Some (res, tx') \<Longrightarrow> fb_reads tx \<le> fb_reads tx'"
proof (induction fuel arbitrary: tx)
  case (Suc fuel)
  then show ?case
    by (fastforce split: if_splits prod.splits sum.splits dest: update_feedback_reads)
qed simp

lemma try_space_reads: "fb_reads (snd (try_space al tx)) = fb_reads tx"
  by (simp add: try_space_def Let_def)

lemma wait_space_reads: "wait_space fuel fb al tx = Some (res, tx') \<Longrightarrow> fb_reads tx \<le> fb_reads tx'"
proof (induction fuel arbitrary: tx)
  case (Suc fuel)
  obtain b tx1 where t: "try_space al tx = (b, tx1)" by fastforce
  with try_space_reads [of al tx] have "fb_reads tx1 = fb_reads tx" by simp
  with Suc t show ?case
    by (cases b) (fastforce split: if_splits prod.splits sum.splits dest: update_feedback_reads)+
qed simp

lemma wait_seq_inv:
  "\<lbrakk>wait_seq fuel (\<lambda>k. of_nat (hh k)) tx = Some (res, tx'); mono hh; tx_inv tx g;
    gf g \<le> hh (fb_reads tx); \<forall>k. fb_reads tx \<le> k \<and> k < fb_reads tx' \<longrightarrow> hh k < gn g\<rbrakk> \<Longrightarrow>
   \<exists>g'. res = Inr () \<and> tx_inv tx' g' \<and> same_chunks g g' \<and> same_window tx tx' \<and>
      gr g' = gr g \<and> next_offset tx' = next_offset tx \<and>
      gf g' \<le> hh (fb_reads tx') \<and> gn g' < gf g' + qlen tx'"
proof (induction fuel arbitrary: tx g)
  case (Suc fuel)
  have sh: "tx_shape tx" and sq: "tx_seqs tx g" using Suc.prems(3) by (simp_all add: tx_inv_def)
  have "gf g \<le> gn g" "gn g - gf g < 2 ^ 16"
    using sq qlen_bounds(2) [OF sh] by (auto simp: tx_seqs_def)
  then have "unat (next_seq tx - feedback_seq tx) = gn g - gf g"
    using sq seq_diff by (simp add: tx_seqs_def)
  then have full: "queue_len tx \<le> uint (next_seq tx - feedback_seq tx) \<longleftrightarrow> gf g + qlen tx \<le> gn g"
    using le_queue_len(2) [OF sh, of "gn g - gf g"] sq by (auto simp: tx_seqs_def uint_nat)
  show ?case
  proof (cases "gf g + qlen tx \<le> gn g")
    case False
    with full Suc.prems have "res = Inr ()" "tx' = tx" by simp_all
    with False Suc.prems show ?thesis by (intro exI [of _ g]) auto
  next
    case True
    let ?tx = "tx\<lparr>fb_reads := Suc (fb_reads tx), feedback_seq := of_nat (hh (fb_reads tx))\<rparr>"
      and ?g = "g\<lparr>gf := hh (fb_reads tx)\<rparr>"
    have "fb_reads tx < fb_reads tx'"
      using Suc.prems(1) True full
      by (fastforce split: prod.splits sum.splits dest: update_feedback_reads wait_seq_reads)
    then have h: "hh (fb_reads tx) < gn g" using Suc.prems(5) by blast
    from update_feedback_ok [where hh = hh, OF Suc.prems(3,4) h] True full Suc.prems(1)
    have w: "wait_seq fuel (\<lambda>k. of_nat (hh k)) ?tx = Some (res, tx')" and inv: "tx_inv ?tx ?g"
      by simp_all
    have "gf ?g \<le> hh (fb_reads ?tx)" using Suc.prems(2) by (simp add: monoD)
    moreover have "\<forall>k. fb_reads ?tx \<le> k \<and> k < fb_reads tx' \<longrightarrow> hh k < gn ?g"
      using Suc.prems(5) by simp
    moreover have "same_chunks g ?g" "same_window tx ?tx"
      using Suc.prems(4) by (simp_all add: same_chunks_def same_window_def)
    moreover have "gr ?g = gr g" "next_offset ?tx = next_offset tx" by simp_all
    ultimately show ?thesis
      using Suc.IH [OF w Suc.prems(2) inv] same_trans(1) [of g ?g] same_trans(2) [of tx ?tx] by metis
  qed
qed simp

lemma fb_offset_seq:
  assumes "tx_inv tx g" "s < gn g" "gn g \<le> s + qlen tx" "gp g \<le> s"
  shows "unat (fb_offset tx (of_nat s)) = gen g s"
proof -
  have sh: "tx_shape tx" and sq: "tx_seqs tx g" and ly: "tx_layout tx g"
    using assms(1) by (simp_all add: tx_inv_def)
  have "gen g s < 2 ^ 22"
    using tx_layoutD(5) [OF ly assms(4,2)] sh by (simp add: tx_shape_def)
  moreover have "fb_offset tx (of_nat s) = of_nat (gen g s)"
    using sq assms(2,3) unfolding fb_offset_def fb_index_mod [OF sh] tx_seqs_def by blast
  ultimately show ?thesis by (simp add: unat_of_nat take_bit_nat_eq_self)
qed

lemma fb_offset_feedback:
  assumes "tx_inv tx g"
  shows "unat (fb_offset tx (feedback_seq tx)) = gen g (gf g)"
  using fb_offset_seq [OF assms, of "gf g"] assms by (auto simp: tx_inv_def tx_seqs_def)

lemma wrap_inv:
  assumes inv: "tx_inv tx g" and r: "gr g \<le> gf g"
  shows "tx_inv (tx\<lparr>next_offset := 0, rollover_seq := next_seq tx\<rparr>) (g\<lparr>gr := gn g, gp := gr g\<rparr>)"
proof -
  let ?tx = "tx\<lparr>next_offset := 0, rollover_seq := next_seq tx\<rparr>" and ?g = "g\<lparr>gr := gn g, gp := gr g\<rparr>"
  have sh: "tx_shape tx" and sq: "tx_seqs tx g" and ly: "tx_layout tx g"
    using inv by (simp_all add: tx_inv_def)
  have p: "gp g \<le> gr g" using sq by (simp add: tx_seqs_def)
  have eq: "gst ?g = gst g" "gen ?g = gen g" "gr ?g = gn g" "gn ?g = gn g" "gp ?g = gr g" "gf ?g = gf g"
    "unat (next_offset ?tx) = 0" "buffer_size ?tx = buffer_size tx" by simp_all
  have "gst g s = gen g (s - 1) \<and> gst g s \<le> gen g s \<and> gen g (s - 1) \<le> gen g s"
    if "gr g < s" "s < gn g" for s
    using tx_layoutD(1) [OF ly, of s] tx_layoutD(2) [OF ly, of s] that by simp
  then have "tx_layout ?tx ?g"
    using tx_layoutD(5) [OF ly] p unfolding tx_layout_def eq by auto
  moreover have "tx_seqs ?tx ?g" using sq r by (simp add: tx_seqs_def)
  moreover have "tx_shape ?tx" using sh by (simp add: tx_shape_def)
  ultimately show ?thesis by (simp add: tx_inv_def)
qed

lemma try_space_inv:
  assumes inv: "tx_inv tx g" and al: "al < 2 ^ 63" and t: "try_space al tx = (b, tx1)"
  shows "\<exists>g1. tx_inv tx1 g1 \<and> same_chunks g g1 \<and> gf g1 = gf g \<and> same_window tx tx1 \<and>
    feedback_seq tx1 = feedback_seq tx \<and> fb_reads tx1 = fb_reads tx \<and> (b \<longleftrightarrow> tx_fits tx1 g1 al) \<and>
    (g1 = g \<and> tx1 = tx \<and> (b \<or> gf g < gr g) \<or>
     gr g \<le> gf g \<and> bsize tx < noff tx + al \<and> gr g1 = gn g \<and> noff tx1 = 0)"
proof -
  have sh: "tx_shape tx" using inv by (simp add: tx_inv_def)
  have sz: "sz_add (noff tx) al = noff tx + al"
    using noff_le [OF inv] sh al by (intro sz_add_small) (simp add: tx_shape_def)
  have z: "sz_add 0 al = al" using al by (simp add: sz_add_small)
  note nw = not_wrapped_iff [OF inv] and fo = fb_offset_feedback [OF inv]
  have fB: "gen g (gf g) \<le> bsize tx"
    using inv by (auto simp: tx_inv_def tx_seqs_def intro: tx_layoutD(5))
  consider (fit) "gr g \<le> gf g" "noff tx + al \<le> bsize tx"
    | (wrap) "gr g \<le> gf g" "bsize tx < noff tx + al"
    | (prev) "gf g < gr g" by linarith
  then show ?thesis
  proof cases
    case fit
    with t nw sz have "b" "tx1 = tx" by (simp_all add: try_space_def)
    with fit inv show ?thesis by (intro exI [of _ g]) (simp add: tx_fits_def)
  next
    case wrap
    let ?tx = "tx\<lparr>next_offset := 0, rollover_seq := next_seq tx\<rparr>" and ?g = "g\<lparr>gr := gn g, gp := gr g\<rparr>"
    have "gf g < gn g" using inv by (simp add: tx_inv_def tx_seqs_def)
    moreover have "fb_offset ?tx (feedback_seq ?tx) = fb_offset tx (feedback_seq tx)"
      by (simp add: fb_offset_def fb_index_def)
    ultimately have "tx1 = ?tx" "b \<longleftrightarrow> tx_fits ?tx ?g al"
      using t nw sz z wrap fo fB by (auto simp: try_space_def tx_fits_def)
    with wrap wrap_inv [OF inv wrap(1)] show ?thesis
      by (intro exI [of _ ?g]) (simp add: same_chunks_def same_window_def)
  next
    case prev
    with t nw sz fo fB have "tx1 = tx" "b \<longleftrightarrow> tx_fits tx g al"
      by (auto simp: try_space_def tx_fits_def)
    with prev inv show ?thesis by (intro exI [of _ g]) simp
  qed
qed

lemma wait_space_inv:
  "\<lbrakk>wait_space fuel (\<lambda>k. of_nat (hh k)) al tx = Some (res, tx'); mono hh; tx_inv tx g; al < 2 ^ 63;
    gf g \<le> hh (fb_reads tx); \<forall>k. fb_reads tx \<le> k \<and> k < fb_reads tx' \<longrightarrow> hh k < gn g\<rbrakk> \<Longrightarrow>
   \<exists>g'. tx_inv tx' g' \<and> same_chunks g g' \<and> same_window tx tx' \<and> gf g' \<le> hh (fb_reads tx') \<and>
     (res = Inr () \<and> tx_fits tx' g' al \<or>
      res = Inl Err_tx_chunk_too_large \<and> exanic_max_tx_chunk_size tx' < al)"
proof (induction fuel arbitrary: tx g)
  case (Suc fuel)
  obtain b tx1 where t: "try_space al tx = (b, tx1)" by fastforce
  obtain g1 where g1: "tx_inv tx1 g1" "same_chunks g g1" "gf g1 = gf g" "same_window tx tx1"
    "fb_reads tx1 = fb_reads tx" "b \<longleftrightarrow> tx_fits tx1 g1 al"
    using try_space_inv [OF Suc.prems(3,4) t] by blast
  show ?case
  proof (cases "b \<or> exanic_max_tx_chunk_size tx1 < al")
    case True
    with Suc.prems(1) t g1(6) have "tx' = tx1 \<and> (res = Inr () \<and> tx_fits tx1 g1 al \<or>
      res = Inl Err_tx_chunk_too_large \<and> exanic_max_tx_chunk_size tx1 < al)"
      by (cases b) auto
    with g1 Suc.prems(5) show ?thesis by (intro exI [of _ g1]) auto
  next
    case False
    let ?tx = "tx1\<lparr>fb_reads := Suc (fb_reads tx1), feedback_seq := of_nat (hh (fb_reads tx1))\<rparr>"
      and ?g = "g1\<lparr>gf := hh (fb_reads tx1)\<rparr>"
    have ge: "gf g1 \<le> hh (fb_reads tx1)" using g1(3,5) Suc.prems(5) by simp
    obtain u tx2 where u: "exanic_update_tx_feedback (\<lambda>k. of_nat (hh k)) tx1 = (u, tx2)" by fastforce
    have "fb_reads tx1 < fb_reads tx'"
      using Suc.prems(1) t False update_feedback_reads [OF u] u
      by (cases u) (auto dest: wait_space_reads)
    then have lt: "hh (fb_reads tx1) < gn g1"
      using Suc.prems(6) g1(2,5) by (simp add: same_chunks_def)
    from update_feedback_ok [where hh = hh, OF g1(1) ge lt] False t Suc.prems(1)
    have w: "wait_space fuel (\<lambda>k. of_nat (hh k)) al ?tx = Some (res, tx')" and inv: "tx_inv ?tx ?g"
      by simp_all
    have "gf ?g \<le> hh (fb_reads ?tx)" using Suc.prems(2) by (simp add: monoD)
    moreover have "\<forall>k. fb_reads ?tx \<le> k \<and> k < fb_reads tx' \<longrightarrow> hh k < gn ?g"
      using Suc.prems(6) g1(2,5) by (simp add: same_chunks_def)
    moreover have "same_chunks g ?g" "same_window tx ?tx"
      using ge g1 by (simp_all add: same_chunks_def same_window_def)
    ultimately show ?thesis
      using Suc.IH [OF w Suc.prems(2) inv Suc.prems(4)] same_trans(1) [of g ?g] same_trans(2) [of tx ?tx] by metis
  qed
qed simp

subsection \<open>Preparing and sending\<close>

definition in_flight :: "ghost \<Rightarrow> nat \<Rightarrow> bool" where
  "in_flight g s \<longleftrightarrow> gf g < s \<and> s < gn g"

lemma fits_disjoint:
  assumes inv: "tx_inv tx g" and fit: "tx_fits tx g al" and s: "in_flight g s"
  shows "gen g s \<le> noff tx \<or> noff tx + al \<le> gst g s"
proof -
  have sq: "tx_seqs tx g" and ly: "tx_layout tx g" using inv by (simp_all add: tx_inv_def)
  show ?thesis
  proof (cases "gr g \<le> s")
    case True
    then have "gen g s \<le> gen g (gn g - 1)"
      using gen_mono_current [OF ly True, of "gn g - 1 - s"] s by (simp add: in_flight_def)
    with True s tx_layoutD(6) [OF ly] show ?thesis by (auto simp: in_flight_def)
  next
    case False
    then have "gf g < gr g" "gp g \<le> gf g" "gp g < s" using s sq by (auto simp: in_flight_def tx_seqs_def)
    moreover from this have "gen g (gf g) \<le> gen g (s - 1)"
      using gen_mono_previous [OF ly, of "gf g" "s - 1 - gf g"] s False by (simp add: in_flight_def)
    ultimately show ?thesis
      using fit tx_layoutD(3) [OF ly, of s] False by (auto simp: tx_fits_def)
  qed
qed

lemma tx_inv_need_feedback [simp]: "tx_inv (tx\<lparr>need_feedback := b\<rparr>) g = tx_inv tx g"
  by (simp add: tx_inv_def tx_shape_def tx_seqs_def tx_layout_def)

lemma same_window_need_feedback [simp]: "same_window tx (tx'\<lparr>need_feedback := b\<rparr>) = same_window tx tx'"
  by (simp add: same_window_def)

lemma tx_fits_need_feedback [simp]: "tx_fits (tx\<lparr>need_feedback := b\<rparr>) g al = tx_fits tx g al"
  by (simp add: tx_fits_def)

lemma cache_align:
  assumes "cs < 2 ^ 62"
  shows "cs \<le> CACHE_ALIGN cs" "CACHE_ALIGN cs < cs + 64" "0 < cs \<Longrightarrow> 64 \<le> CACHE_ALIGN cs"
    "CACHE_ALIGN cs < 2 ^ 63"
proof -
  have a: "CACHE_ALIGN cs = (cs + 63) div 64 * 64"
    using assms by (simp add: CACHE_ALIGN_def sz_add_small)
  then show "cs \<le> CACHE_ALIGN cs" by linarith
  from a show lt: "CACHE_ALIGN cs < cs + 64" by linarith
  with assms show "CACHE_ALIGN cs < 2 ^ 63" by simp
  assume "0 < cs"
  then have "1 \<le> (cs + 63) div 64" by simp
  with a show "64 \<le> CACHE_ALIGN cs" by linarith
qed

lemma prepare_inv:
  assumes p: "exanic_prepare_tx_chunk fuel (\<lambda>k. of_nat (hh k)) tx cs = Some (res, tx')"
    and m: "mono hh" and inv: "tx_inv tx g" and cs: "cs < 2 ^ 62"
    and h: "gf g \<le> hh (fb_reads tx)" "\<forall>k. fb_reads tx \<le> k \<and> k < fb_reads tx' \<longrightarrow> hh k < gn g"
  shows "\<exists>g'. tx_inv tx' g' \<and> same_chunks g g' \<and> same_window tx tx' \<and> gf g' \<le> hh (fb_reads tx') \<and>
    (res = Inr (noff tx') \<and> tx_fits tx' g' (CACHE_ALIGN cs) \<and> gn g' < gf g' + qlen tx' \<or>
     res = Inl Err_tx_chunk_too_large \<and> exanic_max_tx_chunk_size tx' < CACHE_ALIGN cs)"
proof -
  let ?fb = "\<lambda>k. of_nat (hh k)" and ?al = "CACHE_ALIGN cs"
  obtain r1 tx1 where w1: "wait_seq fuel ?fb tx = Some (r1, tx1)"
    using p by (auto simp: exanic_prepare_tx_chunk_def Let_def split: option.splits)
  have "fb_reads tx1 \<le> fb_reads tx'"
    using p w1 by (auto simp: exanic_prepare_tx_chunk_def Let_def
        split: option.splits prod.splits sum.splits dest: wait_space_reads)
  then have "\<forall>k. fb_reads tx \<le> k \<and> k < fb_reads tx1 \<longrightarrow> hh k < gn g" using h(2) by auto
  from wait_seq_inv [OF w1 m inv h(1) this] obtain g1 where g1: "r1 = Inr ()" "tx_inv tx1 g1"
    "same_chunks g g1" "same_window tx tx1" "gf g1 \<le> hh (fb_reads tx1)" "gn g1 < gf g1 + qlen tx1" by blast
  then obtain r2 tx2 where w2: "wait_space fuel ?fb ?al tx1 = Some (r2, tx2)"
    using p w1 by (auto simp: exanic_prepare_tx_chunk_def Let_def split: option.splits)
  have res: "tx' = tx2 \<and> res = Inl e" if "r2 = Inl e" for e
    using p w1 w2 g1(1) that by (simp add: exanic_prepare_tx_chunk_def Let_def)
  have ok: "\<exists>nf. tx' = tx2\<lparr>need_feedback := nf\<rparr> \<and> res = Inr (noff tx2)" if "r2 = Inr ()"
    using p w1 w2 g1(1) that by (auto simp: exanic_prepare_tx_chunk_def Let_def)
  have "fb_reads tx2 = fb_reads tx'" using res ok by (cases r2) auto
  then have "\<forall>k. fb_reads tx1 \<le> k \<and> k < fb_reads tx2 \<longrightarrow> hh k < gn g1"
    using h(2) g1(3) wait_seq_reads [OF w1] by (auto simp: same_chunks_def)
  from wait_space_inv [OF w2 m g1(2) cache_align(4) [OF cs] g1(5) this] obtain g2 where
    g2: "tx_inv tx2 g2" "same_chunks g1 g2" "same_window tx1 tx2" "gf g2 \<le> hh (fb_reads tx2)"
      "r2 = Inr () \<and> tx_fits tx2 g2 ?al \<or>
       r2 = Inl Err_tx_chunk_too_large \<and> exanic_max_tx_chunk_size tx2 < ?al" by blast
  have q: "gn g2 < gf g2 + qlen tx2"
    using g1(6) g2(2,3) by (simp add: same_chunks_def same_window_def)
  note sc = same_trans(1) [OF g1(3) g2(2)] and sw = same_trans(2) [OF g1(4) g2(3)]
  show ?thesis
  proof (cases r2)
    case (Inl e)
    with res [OF Inl] g2 sc sw show ?thesis by (intro exI [of _ g2]) auto
  next
    case (Inr u)
    then obtain nf where "tx' = tx2\<lparr>need_feedback := nf\<rparr>" "res = Inr (noff tx2)" using ok by auto
    with Inr g2 q sc sw show ?thesis by (intro exI [of _ g2]) auto
  qed
qed

text \<open>The ghost state after a chunk of \<open>al\<close> bytes was sent at offset \<open>off\<close>.\<close>

definition ghost_send :: "ghost \<Rightarrow> nat \<Rightarrow> nat \<Rightarrow> bool \<Rightarrow> ghost" where
  "ghost_send g off al need = g\<lparr>gn := Suc (gn g), gq := (if need then gn g else gq g),
     gst := (gst g)(gn g := off), gen := (gen g)(gn g := off + al)\<rparr>"

lemma send_expand:
  "exanic_send_tx_chunk tx cs = tx\<lparr>
     tx_buffer := blit (blit (tx_buffer tx) (noff tx) (le16 (next_seq tx))) (noff tx + 2)
       (le16 (of_int (feedback_slot tx OR (if need_feedback tx then 0 else 0x8000)))),
     next_offset := of_nat (sz_add (noff tx) (CACHE_ALIGN cs)),
     request_seq := (if need_feedback tx then next_seq tx else request_seq tx),
     next_seq := next_seq tx + 1,
     feedback_offsets := (feedback_offsets tx)
       [fb_index tx (next_seq tx) := of_nat (sz_add (noff tx) (CACHE_ALIGN cs))],
     reg_writes := reg_writes tx @
       [(REG_PORT_INDEX (nat (tx_port_number tx)) REG_PORT_TX_COMMAND, next_offset tx + buffer_offset tx)]\<rparr>"
  by (cases "need_feedback tx") (simp_all add: exanic_send_tx_chunk_def buf_write_def Let_def fb_index_def)

lemma send_fields:
  assumes "noff tx + CACHE_ALIGN cs < 2 ^ 32"
  shows "noff (exanic_send_tx_chunk tx cs) = noff tx + CACHE_ALIGN cs"
    "next_seq (exanic_send_tx_chunk tx cs) = next_seq tx + 1"
    "request_seq (exanic_send_tx_chunk tx cs) = (if need_feedback tx then next_seq tx else request_seq tx)"
    "rollover_seq (exanic_send_tx_chunk tx cs) = rollover_seq tx"
    "feedback_seq (exanic_send_tx_chunk tx cs) = feedback_seq tx"
    "buffer_size (exanic_send_tx_chunk tx cs) = buffer_size tx"
    "queue_len (exanic_send_tx_chunk tx cs) = queue_len tx"
    "fb_reads (exanic_send_tx_chunk tx cs) = fb_reads tx"
    "feedback_offsets (exanic_send_tx_chunk tx cs) =
      (feedback_offsets tx)[fb_index tx (next_seq tx) := of_nat (noff tx + CACHE_ALIGN cs)]"
    "reg_writes (exanic_send_tx_chunk tx cs) = reg_writes tx @
      [(REG_PORT_INDEX (nat (tx_port_number tx)) REG_PORT_TX_COMMAND, next_offset tx + buffer_offset tx)]"
proof -
  have o: "unat (of_nat (noff tx + CACHE_ALIGN cs) :: u32) = noff tx + CACHE_ALIGN cs"
    using assms by (intro of_nat_inverse [OF refl]) simp
  have "next_offset (exanic_send_tx_chunk tx cs) = of_nat (noff tx + CACHE_ALIGN cs)"
    using assms by (simp add: send_expand sz_add_small)
  then show "noff (exanic_send_tx_chunk tx cs) = noff tx + CACHE_ALIGN cs"
    using o by simp
qed (use assms in \<open>simp_all add: send_expand sz_add_small\<close>)

lemma send_buffer:
  "tx_buffer (exanic_send_tx_chunk tx cs) =
    blit (blit (tx_buffer tx) (noff tx) (le16 (next_seq tx))) (noff tx + 2)
      (le16 (of_int (feedback_slot tx OR (if need_feedback tx then 0 else 0x8000))))"
  by (simp add: send_expand)

lemma le16_length [simp]: "length (le16 x) = 2"
  by (simp add: le16_def)

lemma send_seqs:
  assumes inv: "tx_inv tx g" and q: "gn g < gf g + qlen tx" and sz: "noff tx + CACHE_ALIGN cs < 2 ^ 32"
  shows "tx_seqs (exanic_send_tx_chunk tx cs) (ghost_send g (noff tx) (CACHE_ALIGN cs) (need_feedback tx))"
proof -
  have sh: "tx_shape tx" and sq: "tx_seqs tx g" using inv by (simp_all add: tx_inv_def)
  let ?al = "CACHE_ALIGN cs"
  have idx: "fb_index tx (next_seq tx) = gn g mod qlen tx"
    using sq by (simp add: tx_seqs_def fb_index_mod [OF sh])
  have len: "length (feedback_offsets tx) = qlen tx" using sh by (simp add: tx_shape_def)
  have pos: "0 < qlen tx" using qlen_bounds(1) [OF sh] by simp
  have "(feedback_offsets tx)[gn g mod qlen tx := of_nat (noff tx + ?al)] ! (s mod qlen tx)
      = of_nat (((gen g)(gn g := noff tx + ?al)) s)"
    if s: "s < Suc (gn g)" "Suc (gn g) \<le> s + qlen tx" for s
  proof (cases "s = gn g")
    case True
    then show ?thesis using len pos by simp
  next
    case False
    then have "s mod qlen tx \<noteq> gn g mod qlen tx"
      using mod_eq_near [of s "qlen tx" "gn g"] s by linarith
    with False s sq show ?thesis by (simp add: tx_seqs_def)
  qed
  then show ?thesis
    using sq q by (auto simp: tx_seqs_def ghost_send_def send_fields [OF sz] idx fb_index_mod [OF sh])
qed

lemma send_layout:
  assumes inv: "tx_inv tx g" and fit: "tx_fits tx g (CACHE_ALIGN cs)"
    and al: "64 \<le> CACHE_ALIGN cs" and sz: "noff tx + CACHE_ALIGN cs < 2 ^ 32"
  shows "tx_layout (exanic_send_tx_chunk tx cs) (ghost_send g (noff tx) (CACHE_ALIGN cs) b)"
proof -
  have sq: "tx_seqs tx g" and ly: "tx_layout tx g" using inv by (simp_all add: tx_inv_def)
  let ?al = "CACHE_ALIGN cs" and ?tx = "exanic_send_tx_chunk tx cs"
  let ?g = "ghost_send g (noff tx) ?al b"
  have r: "gr g \<le> gn g" "gf g < gn g" using sq by (simp_all add: tx_seqs_def)
  have eq: "gr ?g = gr g" "gn ?g = Suc (gn g)" "gp ?g = gp g" "gf ?g = gf g"
    "gst ?g = (gst g)(gn g := noff tx)" "gen ?g = (gen g)(gn g := noff tx + ?al)"
    by (simp_all add: ghost_send_def)
  show ?thesis unfolding tx_layout_def eq send_fields [OF sz]
  proof (intro conjI allI impI)
    fix s assume s: "gr g \<le> s \<and> s < Suc (gn g)"
    show "((gst g)(gn g := noff tx)) s = (if s = gr g then 0 else ((gen g)(gn g := noff tx + ?al)) (s - 1))"
      using s tx_layoutD(1) [OF ly, of s] tx_layoutD(6) [OF ly] by (auto simp: less_Suc_eq)
    show "((gst g)(gn g := noff tx)) s + 64 \<le> ((gen g)(gn g := noff tx + ?al)) s"
      using s al tx_layoutD(2) [OF ly, of s] by (auto simp: less_Suc_eq)
  next
    fix s assume s: "gp g < s \<and> s < gr g"
    then show "((gst g)(gn g := noff tx)) s = ((gen g)(gn g := noff tx + ?al)) (s - 1)"
      "((gst g)(gn g := noff tx)) s \<le> ((gen g)(gn g := noff tx + ?al)) s"
      using r tx_layoutD(3,4) [OF ly, of s] by auto
  next
    fix s assume "gp g \<le> s \<and> s < Suc (gn g)"
    then show "((gen g)(gn g := noff tx + ?al)) s \<le> bsize tx"
      using fit tx_layoutD(5) [OF ly, of s] by (auto simp: less_Suc_eq tx_fits_def)
  qed (use r fit in \<open>auto simp: tx_fits_def\<close>)
qed

lemma send_inv:
  assumes inv: "tx_inv tx g" and fit: "tx_fits tx g al" and q: "gn g < gf g + qlen tx"
    and cs: "0 < cs" "cs < 2 ^ 62" "CACHE_ALIGN cs \<le> al"
  shows "tx_inv (exanic_send_tx_chunk tx cs) (ghost_send g (noff tx) (CACHE_ALIGN cs) (need_feedback tx))"
proof -
  have sh: "tx_shape tx" using inv by (simp add: tx_inv_def)
  note al = cache_align(3) [OF cs(2,1)]
  have fit': "tx_fits tx g (CACHE_ALIGN cs)" using fit cs(3) by (auto simp: tx_fits_def)
  then have sz: "noff tx + CACHE_ALIGN cs < 2 ^ 32" using sh by (simp add: tx_fits_def tx_shape_def)
  have "length (tx_buffer (exanic_send_tx_chunk tx cs)) = bsize tx"
    using fit' al sh by (simp add: send_buffer tx_fits_def tx_shape_def)
  then have "tx_shape (exanic_send_tx_chunk tx cs)"
    using sh by (simp add: tx_shape_def send_fields [OF sz])
  with send_seqs [OF inv q sz] send_layout [OF inv fit' al sz] show ?thesis
    by (simp add: tx_inv_def)
qed

end
