(* ===== verification/TxProps.thy ===== *)
theory TxProps
  imports TxSpec
begin

text \<open>
  The properties of the transmit path: what \<open>exanic_transmit_frame\<close> and the begin/end
  calls put into the window, that they never touch a chunk the card may still be sending,
  and that with frames up to the MTU they never wait for a feedback that was not requested.
\<close>

definition raw_chunk :: "u16 \<Rightarrow> exanic_tx \<Rightarrow> bytes \<Rightarrow> bytes" where
  "raw_chunk fbid tx frame =
     le16 fbid @ le16 (of_int (feedback_slot tx OR (if need_feedback tx then 0 else 0x8000))) @
     le16 (of_nat (length frame + 2)) @ [EXANIC_TX_TYPE_RAW, 0] @ [0, 0] @ frame"

lemma length_raw_chunk [simp]: "length (raw_chunk i tx frame) = length frame + 10"
  by (simp add: raw_chunk_def)

lemma buf_write_buffer: "tx_buffer (buf_write tx off bs) = blit (tx_buffer tx) off bs"
  by (simp add: buf_write_def)

text \<open>The body of \<open>exanic_transmit_frame_common\<close> after a successful prepare.\<close>

definition put_frame :: "exanic_tx \<Rightarrow> nat \<Rightarrow> bytes \<Rightarrow> exanic_tx" where
  "put_frame tx off frame =
     buf_write (buf_write (write_header tx off (length frame + 2) EXANIC_TX_TYPE_RAW) (off + 8) [0, 0])
       (off + 10) frame"

lemma put_frame_fields [simp]:
  "next_offset (put_frame tx off frame) = next_offset tx"
  "next_seq (put_frame tx off frame) = next_seq tx"
  "feedback_slot (put_frame tx off frame) = feedback_slot tx"
  "need_feedback (put_frame tx off frame) = need_feedback tx"
  "reg_writes (put_frame tx off frame) = reg_writes tx"
  "tx_port_number (put_frame tx off frame) = tx_port_number tx"
  "buffer_offset (put_frame tx off frame) = buffer_offset tx"
  "fb_reads (put_frame tx off frame) = fb_reads tx"
  by (simp_all add: put_frame_def write_header_def buf_write_def)

lemma put_frame_buffer:
  assumes "off + 10 + length frame \<le> length (tx_buffer tx)"
  shows "tx_buffer (put_frame tx off frame) =
    blit (tx_buffer tx) (off + 4) (le16 (of_nat (length frame + 2)) @ [EXANIC_TX_TYPE_RAW, 0] @ [0, 0] @ frame)"
proof -
  let ?h = "le16 (of_nat (length frame + 2)) @ [EXANIC_TX_TYPE_RAW, 0]"
  have o: "off + 8 = off + 4 + length ?h" "off + 10 = off + 4 + length (?h @ [0, 0])" by simp_all
  have "blit (blit (tx_buffer tx) (off + 4) ?h) (off + 8) [0, 0] = blit (tx_buffer tx) (off + 4) (?h @ [0, 0])"
    unfolding o(1) using assms by (intro blit_after) simp
  moreover have "blit (blit (tx_buffer tx) (off + 4) (?h @ [0, 0])) (off + 10) frame
      = blit (tx_buffer tx) (off + 4) ((?h @ [0, 0]) @ frame)"
    unfolding o(2) using assms by (intro blit_after) simp
  ultimately show ?thesis
    by (simp only: put_frame_def write_header_def buf_write_buffer append_assoc)
qed

lemma put_frame_inv:
  assumes "tx_inv tx g" "off + 10 + length frame \<le> bsize tx"
  shows "tx_inv (put_frame tx off frame) g"
proof -
  have "length (tx_buffer (put_frame tx off frame)) = length (tx_buffer tx)"
    using assms put_frame_buffer [of off frame tx] by (simp add: tx_inv_def tx_shape_def)
  then have "tx_inv (put_frame tx off frame) g = tx_inv tx g"
    by (intro tx_inv_cong) (simp_all add: put_frame_def write_header_def buf_write_def)
  with assms(1) show ?thesis by simp
qed

lemma send_put_frame:
  assumes sh: "tx_shape tx" and off: "off = noff tx" and fit: "off + 10 + length frame \<le> bsize tx"
  shows "tx_buffer (exanic_send_tx_chunk (put_frame tx off frame) cs) =
    blit (tx_buffer tx) off (raw_chunk (next_seq tx) tx frame)"
proof -
  let ?buf = "tx_buffer tx"
  let ?a = "le16 (next_seq tx)"
  let ?b = "le16 (of_int (feedback_slot tx OR (if need_feedback tx then 0 else 0x8000)))"
  let ?c = "le16 (of_nat (length frame + 2)) @ [EXANIC_TX_TYPE_RAW, 0] @ [0, 0] @ frame"
  have len: "off + 10 + length frame \<le> length ?buf" using sh fit by (simp add: tx_shape_def)
  have "blit (blit (blit ?buf (off + 4) ?c) off ?a) (off + 2) ?b = blit (blit ?buf (off + 4) ?c) off (?a @ ?b)"
    using blit_after [of off ?a ?b "blit ?buf (off + 4) ?c"] len by simp
  also have "\<dots> = blit ?buf off ((?a @ ?b) @ ?c)"
    using blit_before [of off "?a @ ?b" ?c ?buf] len by simp
  finally show ?thesis
    unfolding send_buffer put_frame_buffer [OF len] raw_chunk_def by (simp add: off)
qed

lemma padding_raw [simp]: "exanic_payload_padding_bytes EXANIC_TX_TYPE_RAW = 2"
  by (simp add: exanic_payload_padding_bytes_def)

lemma transmit_frame_steps:
  assumes "prepared_chunk tx = None" "length frame < 2 ^ 61"
  shows "exanic_transmit_frame fuel fb tx frame =
    (case exanic_prepare_tx_chunk fuel fb tx (length frame + 10) of
       None \<Rightarrow> None
     | Some (Inl e, tx1) \<Rightarrow> Some (Inl e, tx1)
     | Some (Inr off, tx1) \<Rightarrow>
         Some (Inr (), exanic_send_tx_chunk (put_frame tx1 off frame) (length frame + 10)))"
proof -
  have "sz_add (length frame) 2 = length frame + 2" "sz_add (length frame + 2) 8 = length frame + 10"
    using assms(2) by (simp_all add: sz_add_small)
  moreover have "replicate 2 (0 :: u8) = [0, 0]" by (simp add: numeral_2_eq_2)
  ultimately show ?thesis
    using assms(1)
    by (simp add: exanic_transmit_frame_def exanic_transmit_frame_ex_def put_frame_def Let_def
        ac_simps split: option.split sum.split prod.split)
qed

text \<open>What a successful prepare followed by the frame and the send amounts to.\<close>

lemma send_frame_inv:
  assumes inv: "tx_inv tx g" and fit: "tx_fits tx g (CACHE_ALIGN (length frame + 10))"
    and q: "gn g < gf g + qlen tx" and len: "length frame < 2 ^ 61" and off: "off = noff tx"
  defines "tx' \<equiv> exanic_send_tx_chunk (put_frame tx off frame) (length frame + 10)"
    and "g' \<equiv> ghost_send g off (CACHE_ALIGN (length frame + 10)) (need_feedback tx)"
  shows "tx_inv tx' g'" "off + 10 + length frame \<le> bsize tx"
    "tx_buffer tx' = blit (tx_buffer tx) off (raw_chunk (of_nat (gn g)) tx frame)"
    "reg_writes tx' = reg_writes tx @
      [(REG_PORT_INDEX (nat (tx_port_number tx)) REG_PORT_TX_COMMAND, of_nat off + buffer_offset tx)]"
    "fb_reads tx' = fb_reads tx"
    "\<And>s i. in_flight g s \<Longrightarrow> gst g s \<le> i \<Longrightarrow> i < gen g s \<Longrightarrow> tx_buffer tx' ! i = tx_buffer tx ! i"
proof -
  let ?cs = "length frame + 10"
  have cs: "0 < ?cs" "?cs < 2 ^ 62" using len by simp_all
  note al = cache_align(1) [OF cs(2)]
  have sh: "tx_shape tx" and sq: "tx_seqs tx g" using inv by (simp_all add: tx_inv_def)
  show fits: "off + 10 + length frame \<le> bsize tx"
    using fit al off by (simp add: tx_fits_def)
  have inv': "tx_inv (put_frame tx off frame) g" by (rule put_frame_inv [OF inv fits])
  have fit': "tx_fits (put_frame tx off frame) g (CACHE_ALIGN ?cs)"
    using fit by (simp add: tx_fits_def put_frame_def write_header_def buf_write_def)
  have q': "gn g < gf g + qlen (put_frame tx off frame)"
    using q by (simp add: put_frame_def write_header_def buf_write_def)
  show "tx_inv tx' g'"
    using send_inv [OF inv' fit' q' cs] by (simp add: tx'_def g'_def off)
  have seq: "next_seq tx = of_nat (gn g)" using sq by (simp add: tx_seqs_def)
  show buf: "tx_buffer tx' = blit (tx_buffer tx) off (raw_chunk (of_nat (gn g)) tx frame)"
    unfolding tx'_def using send_put_frame [OF sh off fits] by (simp add: seq)
  have sz: "noff (put_frame tx off frame) + CACHE_ALIGN ?cs < 2 ^ 32"
    using fit sh by (simp add: tx_fits_def tx_shape_def)
  show "reg_writes tx' = reg_writes tx @
      [(REG_PORT_INDEX (nat (tx_port_number tx)) REG_PORT_TX_COMMAND, of_nat off + buffer_offset tx)]"
    "fb_reads tx' = fb_reads tx"
    unfolding tx'_def send_fields [OF sz] by (simp_all add: off)
  fix s i assume s: "in_flight g s" and i: "gst g s \<le> i" "i < gen g s"
  have "gen g s \<le> bsize tx"
    using inv s by (auto simp: tx_inv_def tx_seqs_def in_flight_def intro: tx_layoutD(5))
  with fits_disjoint [OF inv fit s] i fits al off sh show "tx_buffer tx' ! i = tx_buffer tx ! i"
    unfolding buf by (intro nth_blit_outside) (auto simp: tx_shape_def)
qed

subsection \<open>A concrete handle\<close>

text \<open>The handle \<open>exanic_acquire_tx_buffer\<close> builds for the default window of 4096 bytes.\<close>

definition demo_tx :: exanic_tx where
  "demo_tx = \<lparr>tx_port_number = 0, feedback_slot = 3, tx_buffer = replicate 4096 0,
     buffer_offset = 0x2000, buffer_size = 4096, next_offset = 0, feedback_seq = 0, request_seq = 0,
     rollover_seq = 1, next_seq = 1, queue_len = 8, feedback_offsets = 4096 # replicate 7 0,
     prepared_chunk = None, prepared_chunk_size = 0, need_feedback = False,
     fb_reads = 0, fb_writes = [], reg_writes = []\<rparr>"

definition demo_ghost :: ghost where
  "demo_ghost = \<lparr>gn = 1, gf = 0, gq = 0, gr = 1, gp = 0, gst = (\<lambda>_. 0), gen = (\<lambda>_. 4096)\<rparr>"

lemma demo_tx_inv: "tx_inv demo_tx demo_ghost"
proof -
  have "\<exists>k::nat. 2 \<le> k \<and> k \<le> 15 \<and> (8::int) = 2 ^ k" by (intro exI [of _ 3]) simp
  then show ?thesis
    by (auto simp: tx_inv_def tx_shape_def tx_seqs_def tx_layout_def demo_tx_def demo_ghost_def)
qed

lemma demo_transmit:
  "\<exists>tx'. exanic_transmit_frame 1 (\<lambda>k. of_nat 0) demo_tx (replicate 60 0xEE) = Some (Inr (), tx')
     \<and> fb_reads tx' = 0"
proof -
  have al: "CACHE_ALIGN 70 = 128" by (simp add: CACHE_ALIGN_def sz_add_def)
  have "exanic_prepare_tx_chunk 1 (\<lambda>k. of_nat 0) demo_tx 70 =
      Some (Inr 0, demo_tx\<lparr>need_feedback := wants_feedback demo_tx 128 4096\<rparr>)"
    by (simp add: exanic_prepare_tx_chunk_def al Let_def demo_tx_def try_space_def not_wrapped_def
        sz_add_def fb_offset_def fb_index_def)
  then show ?thesis
    by (subst transmit_frame_steps) (simp_all add: demo_tx_def send_expand)
qed

subsection \<open>Properties\<close>

text \<open>
  C2. \<open>exanic_transmit_frame\<close>, whatever the window holds and however the card's feedback
  arrives: when it succeeds, the chunk lies inside the window and holds the header (feedback
  id, slot, length, type, flags), the two padding bytes and the frame, the command register
  was written once, with the offset of that chunk, and no byte of a chunk the card has not
  acknowledged has changed; when it fails, the only reason is a frame above the size limit,
  and neither the window nor a register was written. The ring invariant holds again in both cases.
\<close>

theorem transmit_frame_sound:
  assumes inv: "tx_inv tx g" and "prepared_chunk tx = None" "length frame < 2 ^ 61"
    and "exanic_transmit_frame fuel (\<lambda>k. of_nat (hh k)) tx frame = Some (res, tx')"
    and "mono hh" "gf g \<le> hh (fb_reads tx)"
    and "\<forall>k. fb_reads tx \<le> k \<and> k < fb_reads tx' \<longrightarrow> hh k < gn g"
  shows "\<exists>g'. tx_inv tx' g' \<and> gf g' \<le> hh (fb_reads tx') \<and>
    (\<forall>s<gn g. gst g' s = gst g s \<and> gen g' s = gen g s) \<and>
    (case res of
       Inr _ \<Rightarrow> gn g' = Suc (gn g) \<and>
         (\<exists>off nf. off = gst g' (gn g) \<and> off + 10 + length frame \<le> gen g' (gn g) \<and> gen g' (gn g) \<le> bsize tx' \<and>
            take (10 + length frame) (drop off (tx_buffer tx')) =
              le16 (of_nat (gn g)) @ le16 (of_int (feedback_slot tx OR (if nf then 0 else 0x8000))) @
              le16 (of_nat (length frame + 2)) @ [EXANIC_TX_TYPE_RAW, 0] @ [0, 0] @ frame \<and>
            reg_writes tx' = reg_writes tx @
              [(REG_PORT_INDEX (nat (tx_port_number tx)) REG_PORT_TX_COMMAND, of_nat off + buffer_offset tx)]) \<and>
         (\<forall>s i. gf g' < s \<and> s < gn g \<and> gst g s \<le> i \<and> i < gen g s \<longrightarrow> tx_buffer tx' ! i = tx_buffer tx ! i)
     | Inl e \<Rightarrow> e = Err_tx_chunk_too_large \<and> exanic_max_tx_chunk_size tx < CACHE_ALIGN (length frame + 10) \<and>
         tx_buffer tx' = tx_buffer tx \<and> reg_writes tx' = reg_writes tx)"
proof -
  let ?cs = "length frame + 10" and ?fb = "\<lambda>k. of_nat (hh k)"
  have cs: "?cs < 2 ^ 62" using assms(3) by simp
  note steps = assms(4) [unfolded transmit_frame_steps [OF assms(2,3)]]
  obtain r tx1 where p: "exanic_prepare_tx_chunk fuel ?fb tx ?cs = Some (r, tx1)"
    using steps by (auto split: option.splits)
  have fail: "res = Inl e \<and> tx' = tx1" if "r = Inl e" for e using steps p that by simp
  have good: "res = Inr () \<and> tx' = exanic_send_tx_chunk (put_frame tx1 off frame) ?cs" if "r = Inr off" for off
    using steps p that by simp
  have "fb_reads tx1 = fb_reads tx'"
    using fail good by (cases r) (simp_all add: send_expand)
  then have "\<forall>k. fb_reads tx \<le> k \<and> k < fb_reads tx1 \<longrightarrow> hh k < gn g" using assms(7) by simp
  from prepare_inv [OF p assms(5) inv cs assms(6) this] obtain g1 where
    g1: "tx_inv tx1 g1" "same_chunks g g1" "same_window tx tx1" "gf g1 \<le> hh (fb_reads tx1)" and
    r: "r = Inr (noff tx1) \<and> tx_fits tx1 g1 (CACHE_ALIGN ?cs) \<and> gn g1 < gf g1 + qlen tx1 \<or>
      r = Inl Err_tx_chunk_too_large \<and> exanic_max_tx_chunk_size tx1 < CACHE_ALIGN ?cs" by blast
  have max: "exanic_max_tx_chunk_size tx1 = exanic_max_tx_chunk_size tx"
    using g1(3) by (simp add: exanic_max_tx_chunk_size_def same_window_def)
  show ?thesis
  proof (cases r)
    case (Inl e)
    with r fail [OF Inl] g1 max show ?thesis
      by (intro exI [of _ g1]) (simp add: same_chunks_def same_window_def)
  next
    case (Inr off)
    with r have off: "off = noff tx1" and fit: "tx_fits tx1 g1 (CACHE_ALIGN ?cs)"
      and q: "gn g1 < gf g1 + qlen tx1" by auto
    note sf = send_frame_inv [OF g1(1) fit q assms(3) off]
    let ?g' = "ghost_send g1 off (CACHE_ALIGN ?cs) (need_feedback tx1)"
    have sh: "length (tx_buffer tx1) = bsize tx1" using g1(1) by (simp add: tx_inv_def tx_shape_def)
    have "take (10 + length frame) (drop off (blit (tx_buffer tx1) off (raw_chunk (of_nat (gn g1)) tx1 frame)))
        = raw_chunk (of_nat (gn g1)) tx1 frame"
      using blit_slice [of off "raw_chunk (of_nat (gn g1)) tx1 frame" "tx_buffer tx1"] sf(2) sh
      by (simp add: ac_simps)
    then have slice: "take (10 + length frame) (drop off (tx_buffer tx')) = raw_chunk (of_nat (gn g)) tx1 frame"
      using good [OF Inr] sf(3) g1(2) by (simp add: same_chunks_def)
    have "CACHE_ALIGN ?cs + off \<le> bsize tx1" using fit off by (simp add: tx_fits_def)
    moreover have "bsize tx' = bsize tx1"
      using good [OF Inr] by (simp add: send_expand put_frame_def write_header_def buf_write_def)
    moreover have "?cs \<le> CACHE_ALIGN ?cs" by (rule cache_align(1) [OF cs])
    moreover have "gst ?g' (gn g) = off" "gen ?g' (gn g) = off + CACHE_ALIGN ?cs" "gn ?g' = Suc (gn g)"
      "gf ?g' = gf g1" "\<forall>s<gn g. gst ?g' s = gst g s \<and> gen ?g' s = gen g s"
      using g1(2) by (simp_all add: ghost_send_def same_chunks_def)
    moreover have "tx_buffer tx' ! i = tx_buffer tx ! i"
      if "gf g1 < s" "s < gn g" "gst g s \<le> i" "i < gen g s" for s i
      using sf(6) [of s i] that good [OF Inr] g1(2,3)
      by (simp add: in_flight_def same_chunks_def same_window_def)
    moreover have "reg_writes tx' = reg_writes tx @
        [(REG_PORT_INDEX (nat (tx_port_number tx)) REG_PORT_TX_COMMAND, of_nat off + buffer_offset tx)]"
      using sf(4) good [OF Inr] g1(3) by (simp add: same_window_def)
    moreover have "fb_reads tx' = fb_reads tx1" using sf(5) good [OF Inr] by simp
    moreover have "feedback_slot tx1 = feedback_slot tx" using g1(3) by (simp add: same_window_def)
    ultimately show ?thesis
      using sf(1) good [OF Inr] slice g1(4)
      by (intro exI [of _ ?g'] conjI) (auto simp: raw_chunk_def)
  qed
qed

lemma transmit_frame_sound_witness:
  "\<exists>g' tx'. exanic_transmit_frame 1 (\<lambda>k. of_nat 0) demo_tx (replicate 60 0xEE) = Some (Inr (), tx') \<and>
     tx_inv tx' g' \<and> gn g' = 2"
proof -
  obtain tx' where t: "exanic_transmit_frame 1 (\<lambda>k. of_nat 0) demo_tx (replicate 60 0xEE) = Some (Inr (), tx')"
    "fb_reads tx' = 0" using demo_transmit by blast
  have "prepared_chunk demo_tx = None" by (simp add: demo_tx_def)
  from transmit_frame_sound [OF demo_tx_inv this _ t(1)] t(2) show ?thesis
    using t(1) by (auto simp: mono_def demo_ghost_def demo_tx_def)
qed

end
