(* ===== verification/KBase.thy ===== *)
theory KBase
  imports Device
begin

text \<open>
  The data of the kernel driver, \<open>modules/exanic/exanic-structs.h\<close>: the device with its
  register space, its ports with their filter slots and filter buffers, and a context, one
  per open file. Registers are a function from byte offsets to the value last written.
  Pointers to DMA memory are \<open>None\<close> for \<open>NULL\<close>. An operation of the driver returns its
  result and the new state, or \<open>None\<close> where the C code has no defined behaviour: a
  \<open>BUG_ON\<close> that fires or an access outside an array or a bitmap.
\<close>

datatype port_ff = EXANIC_PORT_SFP | EXANIC_PORT_QSFP | EXANIC_PORT_QSFPDD

datatype kerr = ENOMEM | EINVAL | EFAULT | EACCES | ENOTTY | EIO | EBUSY | EOPNOTSUPP | Minus_one

record filter_buffer =
  region_virt :: "nat option"
  region_dma :: u64
  buf_refcount :: int

record ip_filter_slot =
  ip_enable :: bool
  ip_buffer :: nat
  src_addr :: u32
  dst_addr :: u32
  src_port :: u16
  dst_port :: u16
  protocol :: u8

record mac_filter_slot =
  mac_enable :: bool
  mac_buffer :: nat
  dst_mac :: bytes
  ethertype :: u16
  vlan :: u16
  vlan_match_method :: u16

record exanic_port =
  rx_region_virt :: "nat option"
  rx_region_dma :: u64
  ate_rx_region_virt :: "nat option"
  ate_rx_region_dma :: u64
  port_rx_refcount :: u32
  tx_region_usable_offset :: nat
  tx_region_usable_size :: nat
  port_enabled :: bool
  port_power :: bool
  flow_hashing_enabled :: bool
  max_ip_filter_slots :: nat
  max_mac_filter_slots :: nat
  num_hash_functions :: nat
  filter_buffers :: "filter_buffer list"
  ip_filter_slots :: "ip_filter_slot list"
  mac_filter_slots :: "mac_filter_slot list"
  has_ate :: bool
  \<comment> \<open>the counts of the semaphores of the TCP engines\<close>
  ate_lockbox :: "nat list"

record kexanic =
  regs_virt :: "nat \<Rightarrow> u32"
  k_num_ports :: nat
  k_caps :: u32
  hwinfo_nports :: nat
  k_max_filter_buffers :: nat
  port :: "nat \<Rightarrow> exanic_port"
  tx_region_bitmap :: "bool list"
  tx_feedback_bitmap :: "bool list"
  regs_size :: nat
  filters_size :: nat
  tx_region_size :: nat
  k_info_page :: bool
  ndev_ifindex :: "nat \<Rightarrow> int option"
  tx_feedback_virt :: bool
  devkit_regs_size :: nat
  devkit_mem_size :: nat
  devkit_regs_ex_size :: nat
  devkit_mem_ex_size :: nat
  k_hw_id :: u32
  hwinfo_port_ff :: port_ff
  devkit_regs_virt :: bool
  devkit_mem_virt :: bool

record exanic_ctx =
  check_numa_node :: bool
  ctx_tx_region_bitmap :: "bool list"
  ctx_tx_feedback_bitmap :: "bool list"
  ctx_rx_refcount :: "nat \<Rightarrow> u32"
  filter_buffer_ref_list :: "(nat \<times> nat) list"

subsection \<open>Registers\<close>

definition writel :: "u32 \<Rightarrow> nat \<Rightarrow> kexanic \<Rightarrow> kexanic" where
  "writel v off e = e\<lparr>regs_virt := (regs_virt e)(off := v)\<rparr>"

definition set_port :: "nat \<Rightarrow> exanic_port \<Rightarrow> kexanic \<Rightarrow> kexanic" where
  "set_port p x e = e\<lparr>port := (port e)(p := x)\<rparr>"

abbreviation (input) "EXANIC_MAX_PORTS \<equiv> 16 :: nat"
abbreviation (input) "EXANIC_NUM_FILTERS_PER_BANK \<equiv> 32 :: nat"
abbreviation (input) "EXANIC_NUM_FILTERS_PER_REGION \<equiv> 256 :: nat"
abbreviation (input) "REG_BUFFER_BASEADDR \<equiv> 0 :: nat"
abbreviation (input) "REG_RULE_TO_BUFFER \<equiv> 0x20000 :: nat"
abbreviation (input) "REG_FILTER_MAC_RULES \<equiv> 0x40000 :: nat"
abbreviation (input) "REG_FILTER_IP_RULES \<equiv> 0x60000 :: nat"
abbreviation (input) "EXANIC_FILTER_REGION_MAC \<equiv> 0 :: nat"
abbreviation (input) "EXANIC_FILTER_REGION_IP \<equiv> 1 :: nat"

definition REG_FILTERS_OFFSET :: "nat \<Rightarrow> nat \<Rightarrow> nat" where
  "REG_FILTERS_OFFSET p reg = 0x400000 + (0x100000 * p + reg)"

lemma port_writel [simp]: "port (writel v off e) = port e"
  "k_num_ports (writel v off e) = k_num_ports e"
  "k_max_filter_buffers (writel v off e) = k_max_filter_buffers e"
  "tx_region_bitmap (writel v off e) = tx_region_bitmap e"
  "tx_feedback_bitmap (writel v off e) = tx_feedback_bitmap e"
  by (simp_all add: writel_def)

lemma port_set_port [simp]: "port (set_port p x e) q = (if q = p then x else port e q)"
  "k_num_ports (set_port p x e) = k_num_ports e"
  "k_max_filter_buffers (set_port p x e) = k_max_filter_buffers e"
  "regs_virt (set_port p x e) = regs_virt e"
  "tx_region_bitmap (set_port p x e) = tx_region_bitmap e"
  "tx_feedback_bitmap (set_port p x e) = tx_feedback_bitmap e"
  by (simp_all add: set_port_def)

lemma regs_writel: "regs_virt (writel v off e) a = (if a = off then v else regs_virt e a)"
  by (simp add: writel_def)

end
