(* ===== verification/KFilter.thy ===== *)
theory KFilter
  imports KBase
begin

text \<open>
  Flow steering, \<open>modules/exanic/exanic-filter.c\<close>: the driver keeps a list of IP and of
  MAC filter slots per port and programs the write-only rule tables of the card from it.
  A rule table has one 32-bit word per key byte, byte value and bank of 32 filters; bit
  \<open>k\<close> of a word says that filter \<open>k\<close> of the bank accepts that value of that byte.
\<close>

subsection \<open>Bytes of the match key\<close>

definition exanic_ip_filter_is_wildcard_field :: "ip_filter_slot \<Rightarrow> nat \<Rightarrow> bool" where
  "exanic_ip_filter_is_wildcard_field f byte =
     (if byte \<in> {0, 1} then dst_port f = 0
      else if byte \<in> {2, 3} then src_port f = 0
      else if byte \<in> {4, 5, 6, 7} then dst_addr f = 0
      else if byte \<in> {8, 9, 10, 11} then src_addr f = 0
      else if byte = 12 then protocol f = 0
      else False)"

abbreviation (input) "EXANIC_VLAN_MATCH_METHOD_ALL \<equiv> 0 :: u16"
abbreviation (input) "EXANIC_VLAN_MATCH_METHOD_SPECIFIC \<equiv> 1 :: u16"
abbreviation (input) "EXANIC_VLAN_MATCH_METHOD_NOT_VLAN \<equiv> 2 :: u16"
abbreviation (input) "EXANIC_VLAN_MATCH_METHOD_ALL_VLAN \<equiv> 3 :: u16"

definition exanic_mac_filter_is_wildcard_field :: "mac_filter_slot \<Rightarrow> nat \<Rightarrow> bool" where
  "exanic_mac_filter_is_wildcard_field f byte =
     (if byte \<in> {0, 1, 2, 3, 4, 5} then list_all (\<lambda>i. dst_mac f ! i = 0) [0, 1, 2, 3, 4, 5]
      else if byte \<in> {6, 7} then ethertype f = 0
      else if byte = 8
        then vlan_match_method f = EXANIC_VLAN_MATCH_METHOD_ALL \<or>
             vlan_match_method f = EXANIC_VLAN_MATCH_METHOD_ALL_VLAN
      else if byte = 9 then vlan_match_method f = EXANIC_VLAN_MATCH_METHOD_ALL
      else False)"

definition exanic_ip_filter_byte_val_check :: "ip_filter_slot \<Rightarrow> nat \<Rightarrow> nat \<Rightarrow> bool" where
  "exanic_ip_filter_byte_val_check f byte_number byte_value =
     (let check = (\<lambda>prog_value :: u8. unat prog_value = byte_value)
      in if byte_number = 0 then check (ucast (dst_port f AND 0xFF))
         else if byte_number = 1 then check (ucast (drop_bit 8 (dst_port f) AND 0xFF))
         else if byte_number = 2 then check (ucast (src_port f AND 0xFF))
         else if byte_number = 3 then check (ucast (drop_bit 8 (src_port f) AND 0xFF))
         else if byte_number = 4 then check (ucast (dst_addr f AND 0xFF))
         else if byte_number = 5 then check (ucast (drop_bit 8 (dst_addr f) AND 0xFF))
         else if byte_number = 6 then check (ucast (drop_bit 16 (dst_addr f) AND 0xFF))
         else if byte_number = 7 then check (ucast (drop_bit 24 (dst_addr f) AND 0xFF))
         else if byte_number = 8 then check (ucast (src_addr f AND 0xFF))
         else if byte_number = 9 then check (ucast (drop_bit 8 (src_addr f) AND 0xFF))
         else if byte_number = 10 then check (ucast (drop_bit 16 (src_addr f) AND 0xFF))
         else if byte_number = 11 then check (ucast (drop_bit 24 (src_addr f) AND 0xFF))
         else if byte_number = 12 then check (protocol f)
         else False)"

text \<open>\<open>vlan >> 8\<close> and \<open>0x10 |\<close> are computed on \<open>int\<close>, at least 32 bits wide.\<close>

definition exanic_mac_filter_byte_val_check :: "mac_filter_slot \<Rightarrow> nat \<Rightarrow> nat \<Rightarrow> bool" where
  "exanic_mac_filter_byte_val_check f byte_number byte_value =
     (let check = (\<lambda>prog_value :: u8. unat prog_value = byte_value)
      in if byte_number < 6 then check (dst_mac f ! byte_number)
         else if byte_number = 6 then check (ucast (ethertype f) AND 0xFF)
         else if byte_number = 7 then check (ucast (drop_bit 8 (ethertype f)) AND 0xFF)
         else if byte_number = 8
           then check (if vlan_match_method f = EXANIC_VLAN_MATCH_METHOD_NOT_VLAN then 0
                       else ucast (vlan f) AND 0xFF)
         else if byte_number = 9
           then (if vlan_match_method f = EXANIC_VLAN_MATCH_METHOD_SPECIFIC
                 then unat ((0x10 OR drop_bit 8 (ucast (vlan f) :: u32)) AND 0xFF) = byte_value
                 else if vlan_match_method f = EXANIC_VLAN_MATCH_METHOD_ALL then True
                 else if vlan_match_method f = EXANIC_VLAN_MATCH_METHOD_ALL_VLAN
                 then byte_value AND 0x10 \<noteq> 0
                 else byte_value AND 0x10 = 0)
         else False)"

subsection \<open>Programming a bank\<close>

text \<open>
  The word of one table entry: the inner loop over the filters of a bank, and the loops
  over bytes and values that write it. A bank that runs past the end of the slot array is
  an out-of-bounds read.
\<close>

definition bank_filter_val :: "(nat \<Rightarrow> bool) \<Rightarrow> nat \<Rightarrow> u32" where
  "bank_filter_val accepts bank =
     fold (\<lambda>n v. if accepts n then v OR push_bit (n - bank * EXANIC_NUM_FILTERS_PER_BANK) 1 else v)
       [bank * EXANIC_NUM_FILTERS_PER_BANK ..< bank * EXANIC_NUM_FILTERS_PER_BANK + EXANIC_NUM_FILTERS_PER_BANK] 0"

definition ip_accepts :: "ip_filter_slot \<Rightarrow> nat \<Rightarrow> nat \<Rightarrow> bool" where
  "ip_accepts f byte_number byte_value \<longleftrightarrow>
     ip_enable f \<and> (exanic_ip_filter_is_wildcard_field f byte_number \<or>
                    exanic_ip_filter_byte_val_check f byte_number byte_value)"

definition mac_accepts :: "mac_filter_slot \<Rightarrow> nat \<Rightarrow> nat \<Rightarrow> bool" where
  "mac_accepts f byte_number byte_value \<longleftrightarrow>
     mac_enable f \<and> (exanic_mac_filter_is_wildcard_field f byte_number \<or>
                     exanic_mac_filter_byte_val_check f byte_number byte_value)"

definition rule_address :: "nat \<Rightarrow> nat \<Rightarrow> nat \<Rightarrow> nat" where
  "rule_address byte_number byte_value bank =
     push_bit 11 byte_number OR push_bit 3 byte_value OR (bank AND 7)"

definition write_rules ::
    "nat \<Rightarrow> nat \<Rightarrow> (nat \<Rightarrow> nat \<Rightarrow> u32) \<Rightarrow> nat \<Rightarrow> kexanic \<Rightarrow> kexanic" where
  "write_rules base nbytes filter_val bank e =
     fold (\<lambda>byte_number. fold (\<lambda>byte_value.
              writel (filter_val byte_number byte_value)
                (base + rule_address byte_number byte_value bank * 4)) [0..<256])
       [0..<nbytes] e"

definition exanic_update_hardware_ip_filter_bank :: "kexanic \<Rightarrow> nat \<Rightarrow> nat \<Rightarrow> kexanic option" where
  "exanic_update_hardware_ip_filter_bank e port_num bank =
     (let slots = ip_filter_slots (port e port_num)
      in if bank * EXANIC_NUM_FILTERS_PER_BANK + EXANIC_NUM_FILTERS_PER_BANK \<le> length slots
         then Some (write_rules (REG_FILTERS_OFFSET port_num REG_FILTER_IP_RULES) 13
                (\<lambda>i v. bank_filter_val (\<lambda>n. ip_accepts (slots ! n) i v) bank) bank e)
         else None)"

definition exanic_update_hardware_mac_filter_bank :: "kexanic \<Rightarrow> nat \<Rightarrow> nat \<Rightarrow> kexanic option" where
  "exanic_update_hardware_mac_filter_bank e port_num bank =
     (let slots = mac_filter_slots (port e port_num)
      in if bank * EXANIC_NUM_FILTERS_PER_BANK + EXANIC_NUM_FILTERS_PER_BANK \<le> length slots
         then Some (write_rules (REG_FILTERS_OFFSET port_num REG_FILTER_MAC_RULES) 10
                (\<lambda>i v. bank_filter_val (\<lambda>n. mac_accepts (slots ! n) i v) bank) bank e)
         else None)"

subsection \<open>Inserting and removing filters\<close>

definition exanic_set_filter_buffer ::
    "kexanic \<Rightarrow> nat \<Rightarrow> nat \<Rightarrow> nat \<Rightarrow> nat \<Rightarrow> ((kerr + unit) \<times> kexanic) option" where
  "exanic_set_filter_buffer e port_num buffer_num region filter_id =
     (if length (filter_buffers (port e port_num)) \<le> buffer_num then None
      else if region_virt (filter_buffers (port e port_num) ! buffer_num) = None
      then Some (Inl EFAULT, e)
      else Some (Inr (), writel (of_nat buffer_num)
             (REG_FILTERS_OFFSET port_num REG_RULE_TO_BUFFER +
              (region * EXANIC_NUM_FILTERS_PER_REGION + filter_id) * 4) e))"

text \<open>
  The search loops over an array of \<open>max\<close> entries: the index of the first one that is not
  \<open>used\<close>, or \<open>max\<close>; \<open>None\<close> when the array is shorter and the search runs past its end.
\<close>

fun first_not :: "('s \<Rightarrow> bool) \<Rightarrow> 's list \<Rightarrow> nat \<Rightarrow> nat option" where
  "first_not used slots 0 = Some 0"
| "first_not used [] (Suc n) = None"
| "first_not used (s # slots) (Suc n) =
     (if used s then map_option Suc (first_not used slots n) else Some 0)"

definition exanic_insert_ip_filter :: "kexanic \<Rightarrow> nat \<Rightarrow> ip_filter_slot \<Rightarrow> ((kerr + nat) \<times> kexanic) option" where
  "exanic_insert_ip_filter e port_num f =
     (let p = port e port_num
      in case first_not ip_enable (ip_filter_slots p) (max_ip_filter_slots p) of
           None \<Rightarrow> None
         | Some filter_id \<Rightarrow>
           if filter_id = max_ip_filter_slots p then Some (Inl ENOMEM, e)
           else let f' = f\<lparr>ip_enable := True\<rparr>
           in case exanic_set_filter_buffer e port_num (ip_buffer f') EXANIC_FILTER_REGION_IP filter_id of
                None \<Rightarrow> None
              | Some (Inl r, e1) \<Rightarrow> Some (Inl r, e1)
              | Some (Inr _, e1) \<Rightarrow>
                  let p1 = port e1 port_num;
                      e2 = set_port port_num (p1\<lparr>ip_filter_slots := (ip_filter_slots p1)[filter_id := f']\<rparr>) e1
                  in map_option (Pair (Inr filter_id))
                       (exanic_update_hardware_ip_filter_bank e2 port_num
                          (filter_id div EXANIC_NUM_FILTERS_PER_BANK)))"

definition exanic_insert_mac_filter :: "kexanic \<Rightarrow> nat \<Rightarrow> mac_filter_slot \<Rightarrow> ((kerr + nat) \<times> kexanic) option" where
  "exanic_insert_mac_filter e port_num f =
     (let p = port e port_num
      in case first_not mac_enable (mac_filter_slots p) (max_mac_filter_slots p) of
           None \<Rightarrow> None
         | Some filter_id \<Rightarrow>
           if filter_id = max_mac_filter_slots p then Some (Inl ENOMEM, e)
           else let f' = f\<lparr>mac_enable := True\<rparr>
           in case exanic_set_filter_buffer e port_num (mac_buffer f') EXANIC_FILTER_REGION_MAC filter_id of
                None \<Rightarrow> None
              | Some (Inl r, e1) \<Rightarrow> Some (Inl r, e1)
              | Some (Inr _, e1) \<Rightarrow>
                  let p1 = port e1 port_num;
                      e2 = set_port port_num (p1\<lparr>mac_filter_slots := (mac_filter_slots p1)[filter_id := f']\<rparr>) e1
                  in map_option (Pair (Inr filter_id))
                       (exanic_update_hardware_mac_filter_bank e2 port_num
                          (filter_id div EXANIC_NUM_FILTERS_PER_BANK)))"

definition disable_ip_slot :: "nat \<Rightarrow> exanic_port \<Rightarrow> exanic_port" where
  "disable_ip_slot n p =
     p\<lparr>ip_filter_slots := (ip_filter_slots p)[n := (ip_filter_slots p ! n)\<lparr>ip_enable := False\<rparr>]\<rparr>"

definition disable_mac_slot :: "nat \<Rightarrow> exanic_port \<Rightarrow> exanic_port" where
  "disable_mac_slot n p =
     p\<lparr>mac_filter_slots := (mac_filter_slots p)[n := (mac_filter_slots p ! n)\<lparr>mac_enable := False\<rparr>]\<rparr>"

text \<open>The guard compares with \<open>>\<close>, so a \<open>filter_id\<close> equal to the number of slots passes it.\<close>

definition exanic_remove_ip_filter :: "kexanic \<Rightarrow> nat \<Rightarrow> nat \<Rightarrow> ((kerr + unit) \<times> kexanic) option" where
  "exanic_remove_ip_filter e port_num filter_id =
     (if max_ip_filter_slots (port e port_num) < filter_id then Some (Inl Minus_one, e)
      else if length (ip_filter_slots (port e port_num)) \<le> filter_id then None
      else map_option (Pair (Inr ()))
             (exanic_update_hardware_ip_filter_bank
                (set_port port_num (disable_ip_slot filter_id (port e port_num)) e) port_num
                (filter_id div EXANIC_NUM_FILTERS_PER_BANK)))"

definition exanic_remove_mac_filter :: "kexanic \<Rightarrow> nat \<Rightarrow> nat \<Rightarrow> ((kerr + unit) \<times> kexanic) option" where
  "exanic_remove_mac_filter e port_num filter_id =
     (if max_mac_filter_slots (port e port_num) < filter_id then Some (Inl Minus_one, e)
      else if length (mac_filter_slots (port e port_num)) \<le> filter_id then None
      else map_option (Pair (Inr ()))
             (exanic_update_hardware_mac_filter_bank
                (set_port port_num (disable_mac_slot filter_id (port e port_num)) e) port_num
                (filter_id div EXANIC_NUM_FILTERS_PER_BANK)))"

text \<open>Loops over all slots and over all banks.\<close>

definition clear_ip_assoc :: "nat \<Rightarrow> exanic_port \<Rightarrow> exanic_port" where
  "clear_ip_assoc buffer_num p =
     fold (\<lambda>i q. if ip_buffer (ip_filter_slots q ! i) = buffer_num then disable_ip_slot i q else q)
       [0..<max_ip_filter_slots p] p"

definition clear_mac_assoc :: "nat \<Rightarrow> exanic_port \<Rightarrow> exanic_port" where
  "clear_mac_assoc buffer_num p =
     fold (\<lambda>i q. if mac_buffer (mac_filter_slots q ! i) = buffer_num then disable_mac_slot i q else q)
       [0..<max_mac_filter_slots p] p"

fun update_banks :: "(kexanic \<Rightarrow> nat \<Rightarrow> nat \<Rightarrow> kexanic option) \<Rightarrow> nat \<Rightarrow> nat list \<Rightarrow> kexanic \<Rightarrow> kexanic option" where
  "update_banks upd port_num [] e = Some e"
| "update_banks upd port_num (b # bs) e =
     (case upd e port_num b of None \<Rightarrow> None | Some e1 \<Rightarrow> update_banks upd port_num bs e1)"

definition exanic_remove_rx_filter_assoc :: "kexanic \<Rightarrow> nat \<Rightarrow> nat \<Rightarrow> kexanic option" where
  "exanic_remove_rx_filter_assoc e port_num buffer_num =
     (let p = port e port_num
      in if length (ip_filter_slots p) < max_ip_filter_slots p \<or>
            length (mac_filter_slots p) < max_mac_filter_slots p then None
         else case update_banks exanic_update_hardware_ip_filter_bank port_num
                [0..<max_ip_filter_slots p div EXANIC_NUM_FILTERS_PER_BANK]
                (set_port port_num (clear_ip_assoc buffer_num p) e) of
           None \<Rightarrow> None
         | Some e1 \<Rightarrow>
             update_banks exanic_update_hardware_mac_filter_bank port_num
               [0..<max_mac_filter_slots p div EXANIC_NUM_FILTERS_PER_BANK]
               (set_port port_num (clear_mac_assoc buffer_num (port e1 port_num)) e1))"

definition exanic_get_free_filter_buffer :: "kexanic \<Rightarrow> nat \<Rightarrow> (kerr + nat) option" where
  "exanic_get_free_filter_buffer e port_num =
     (case first_not (\<lambda>b. region_virt b \<noteq> None) (filter_buffers (port e port_num)) (k_max_filter_buffers e) of
        None \<Rightarrow> None
      | Some i \<Rightarrow> Some (if i < k_max_filter_buffers e then Inr i else Inl Minus_one))"

end
