(* ===== verification/KDma.thy ===== *)
theory KDma
  imports KFilter
begin

text \<open>
  DMA regions and ports, \<open>modules/exanic/exanic-main.c\<close>: flow hashing, the allocation and
  release of the receive region of a port and of its reference-counted filter buffers, and
  enabling and disabling a port. What the kernel answers is a parameter: \<open>dma\<close> is the
  result of \<open>dma_alloc_coherent\<close> (the mapping and its bus address, \<open>None\<close> when it fails),
  \<open>mapped p\<close> says that user space still maps the receive region of port \<open>p\<close> (its page
  count exceeds one) and \<open>phy_ok\<close> that the PHY came up.
\<close>

abbreviation (input) "REG_PORT_RX_DMA_BASE_ADDR_HI \<equiv> 5 :: nat"
abbreviation (input) "REG_PORT_RX_DMA_BASE_ADDR_LO \<equiv> 6 :: nat"
abbreviation (input) "REG_PORT_IRQ_CONFIG \<equiv> 13 :: nat"
abbreviation (input) "REG_PORT_HASH_CONFIG \<equiv> 14 :: nat"

subsection \<open>Flow hashing\<close>

definition exanic_configure_port_hash :: "kexanic \<Rightarrow> nat \<Rightarrow> bool \<Rightarrow> u32 \<Rightarrow> u32 \<Rightarrow> kexanic" where
  "exanic_configure_port_hash e p enable m f =
     (let e1 = set_port p ((port e p)\<lparr>flow_hashing_enabled := enable\<rparr>) e;
          v = (if enable then 0x80000000 else 0) OR (m AND 0xFF) OR (push_bit 8 f AND 0xF00)
      in writel v (REG_PORT_OFFSET p REG_PORT_HASH_CONFIG) e1)"

subsection \<open>Use of a receive region\<close>

definition exanic_rx_in_use :: "(nat \<Rightarrow> bool) \<Rightarrow> kexanic \<Rightarrow> nat \<Rightarrow> bool option" where
  "exanic_rx_in_use mapped e p =
     (if port_rx_refcount (port e p) > 0 then Some True
      else if rx_region_virt (port e p) \<noteq> None \<and> mapped p then Some True
      else case first_not (\<lambda>b. buf_refcount b \<le> 0) (filter_buffers (port e p)) (k_max_filter_buffers e) of
             None \<Rightarrow> None
           | Some i \<Rightarrow> Some (i < k_max_filter_buffers e))"

definition exanic_alloc_dma ::
    "(int \<Rightarrow> bool) \<Rightarrow> int \<Rightarrow> int \<Rightarrow> (nat \<times> u64) option \<Rightarrow> (nat \<times> u64) option \<times> int" where
  "exanic_alloc_dma node_online dev_node numa_node dma =
     (if numa_node \<noteq> -1
      then if \<not> node_online numa_node then (None, numa_node) else (dma, numa_node)
      else (dma, dev_node))"

definition dma_cfg :: "u64 \<Rightarrow> u64" where
  "dma_cfg a = (if drop_bit 32 a = 0 then 1 else 0)"

subsection \<open>Filter buffers\<close>

definition put_buffer :: "nat \<Rightarrow> nat \<Rightarrow> filter_buffer \<Rightarrow> kexanic \<Rightarrow> kexanic" where
  "put_buffer p b x e =
     set_port p ((port e p)\<lparr>filter_buffers := (filter_buffers (port e p))[b := x]\<rparr>) e"

text \<open>Two writes: the low word at the odd index, then the high word.\<close>

definition write_base_addr :: "nat \<Rightarrow> nat \<Rightarrow> u64 \<Rightarrow> u64 \<Rightarrow> kexanic \<Rightarrow> kexanic" where
  "write_base_addr p b lo hi e =
     (let base = REG_FILTERS_OFFSET p REG_BUFFER_BASEADDR + 2 * b * 4
      in writel (ucast hi) base (writel (ucast lo) (base + 4) e))"

definition exanic_alloc_filter_dma ::
    "(nat \<times> u64) option \<Rightarrow> kexanic \<Rightarrow> nat \<Rightarrow> nat \<Rightarrow> ((kerr + unit) \<times> kexanic) option" where
  "exanic_alloc_filter_dma dma e p b =
     (if k_num_ports e \<le> p then Some (Inl EINVAL, e)
      else if k_max_filter_buffers e \<le> b then Some (Inl EINVAL, e)
      else if length (filter_buffers (port e p)) \<le> b then None
      else
        let buf = filter_buffers (port e p) ! b
        in if 0 < buf_refcount buf
           then if region_virt buf = None then None
                else Some (Inr (), put_buffer p b (buf\<lparr>buf_refcount := buf_refcount buf + 1\<rparr>) e)
           else case dma of
                  None \<Rightarrow> Some (Inl ENOMEM, put_buffer p b (buf\<lparr>region_virt := None\<rparr>) e)
                | Some (virt, addr) \<Rightarrow>
                    let e1 = put_buffer p b (buf\<lparr>region_virt := Some virt, region_dma := addr\<rparr>) e;
                        e2 = write_base_addr p b (addr OR dma_cfg addr) (drop_bit 32 addr) e1;
                        buf2 = filter_buffers (port e2 p) ! b
                    in Some (Inr (), put_buffer p b (buf2\<lparr>buf_refcount := buf_refcount buf2 + 1\<rparr>) e2))"

definition exanic_free_filter_dma :: "kexanic \<Rightarrow> nat \<Rightarrow> nat \<Rightarrow> kexanic option" where
  "exanic_free_filter_dma e p b =
     (if length (filter_buffers (port e p)) \<le> b then None
      else
        let buf = filter_buffers (port e p) ! b
        in if region_virt buf = None then Some e
           else if buf_refcount buf = 0 then None
           else
             let e1 = put_buffer p b (buf\<lparr>buf_refcount := buf_refcount buf - 1\<rparr>) e
             in if buf_refcount buf - 1 \<noteq> 0 then Some e1
                else case exanic_remove_rx_filter_assoc e1 p b of
                       None \<Rightarrow> None
                     | Some e2 \<Rightarrow>
                         let e3 = exanic_configure_port_hash e2 p False 0 0;
                             e4 = write_base_addr p b 0 0 e3;
                             buf4 = filter_buffers (port e4 p) ! b
                         in Some (put_buffer p b (buf4\<lparr>region_virt := None, region_dma := 0\<rparr>) e4))"

subsection \<open>The receive region of a port\<close>

definition exanic_alloc_rx_dma ::
    "(nat \<times> u64) option \<Rightarrow> kexanic \<Rightarrow> nat \<Rightarrow> (kerr + unit) \<times> kexanic" where
  "exanic_alloc_rx_dma dma e p =
     (if rx_region_virt (port e p) \<noteq> None then (Inr (), e)
      else case dma of
             None \<Rightarrow> (Inl ENOMEM, set_port p ((port e p)\<lparr>rx_region_virt := None\<rparr>) e)
           | Some (virt, addr) \<Rightarrow>
               (Inr (), set_port p ((port e p)\<lparr>rx_region_virt := Some virt, rx_region_dma := addr\<rparr>) e))"

definition exanic_free_rx_dma :: "(nat \<Rightarrow> bool) \<Rightarrow> kexanic \<Rightarrow> nat \<Rightarrow> kexanic option" where
  "exanic_free_rx_dma mapped e p =
     (if rx_region_virt (port e p) = None then Some e
      else if port_enabled (port e p) then None
      else case exanic_rx_in_use mapped e p of
             Some False \<Rightarrow>
               Some (set_port p ((port e p)\<lparr>rx_region_virt := None, rx_region_dma := 0,
                                            ate_rx_region_virt := None, ate_rx_region_dma := 0\<rparr>) e)
           | _ \<Rightarrow> None)"

end
