(* ===== verification/KCtx.thy ===== *)
theory KCtx
  imports KDma
begin

text \<open>
  Contexts, \<open>modules/exanic/exanic-ctx.c\<close>: what an open file owns of the device, namely
  pages of the transmit region, feedback slots, references to receive regions and
  references to filter buffers. The driver keeps a bitmap per device and one per context;
  a bitmap is a list of booleans and a bit beyond its end is an access out of bounds.
\<close>

abbreviation (input) "EXANIC_TX_REGION_MAX_NUM_PAGES \<equiv> 512 :: nat"
abbreviation (input) "EXANIC_TX_FEEDBACK_NUM_SLOTS \<equiv> 256 :: nat"
abbreviation (input) "PAGE_SIZE \<equiv> 4096 :: nat"

definition exanic_alloc_ctx :: "bool \<Rightarrow> exanic_ctx option" where
  "exanic_alloc_ctx kmalloc_ok =
     (if kmalloc_ok
      then Some \<lparr>check_numa_node = False,
             ctx_tx_region_bitmap = replicate EXANIC_TX_REGION_MAX_NUM_PAGES False,
             ctx_tx_feedback_bitmap = replicate EXANIC_TX_FEEDBACK_NUM_SLOTS False,
             ctx_rx_refcount = (\<lambda>_. 0), filter_buffer_ref_list = []\<rparr>
      else None)"

subsection \<open>Pages of the transmit region\<close>

text \<open>The inner loop: whether \<open>n\<close> pages from \<open>p\<close> on are free.\<close>

fun pages_free :: "bool list \<Rightarrow> nat \<Rightarrow> nat \<Rightarrow> bool option" where
  "pages_free bm p 0 = Some True"
| "pages_free bm p (Suc n) =
     (if p < length bm then if bm ! p then Some False else pages_free bm (Suc p) n else None)"

text \<open>The outer loop; it ends with the first page that has room, or with one that has not.\<close>

function find_pages :: "bool list \<Rightarrow> nat \<Rightarrow> nat \<Rightarrow> nat \<Rightarrow> nat option" where
  "find_pages bm num_pages usable_end_page page =
     (if page + num_pages \<le> usable_end_page
      then case pages_free bm page num_pages of
             None \<Rightarrow> None
           | Some True \<Rightarrow> Some page
           | Some False \<Rightarrow> find_pages bm num_pages usable_end_page (Suc page)
      else Some page)"
  by auto
termination by (relation "measure (\<lambda>(bm, n, e, p). Suc e - p)") auto

declare find_pages.simps [simp del]

definition set_pages :: "bool \<Rightarrow> nat list \<Rightarrow> bool list \<Rightarrow> bool list" where
  "set_pages v ps bm = fold (\<lambda>p bm. bm[p := v]) ps bm"

definition exanic_alloc_tx_region ::
    "kexanic \<Rightarrow> exanic_ctx \<Rightarrow> nat \<Rightarrow> nat \<Rightarrow> ((kerr + nat) \<times> kexanic \<times> exanic_ctx) option" where
  "exanic_alloc_tx_region e c port_num sz =
     (let P = port e port_num;
          usable_start_page = tx_region_usable_offset P div PAGE_SIZE;
          usable_end_page = usable_start_page + tx_region_usable_size P div PAGE_SIZE;
          num_pages = sz div PAGE_SIZE
      in case find_pages (tx_region_bitmap e) num_pages usable_end_page usable_start_page of
           None \<Rightarrow> None
         | Some page \<Rightarrow>
             if usable_end_page < page + num_pages then Some (Inl ENOMEM, e, c)
             else Some (Inr (page * PAGE_SIZE),
                    e\<lparr>tx_region_bitmap := set_pages True [page..<page + num_pages] (tx_region_bitmap e)\<rparr>,
                    c\<lparr>ctx_tx_region_bitmap := set_pages True [page..<page + num_pages] (ctx_tx_region_bitmap c)\<rparr>))"

text \<open>Clearing the pages of a range the context owns.\<close>

fun clear_pages :: "nat list \<Rightarrow> bool list \<Rightarrow> bool list \<Rightarrow> (bool list \<times> bool list) option" where
  "clear_pages [] dev own = Some (dev, own)"
| "clear_pages (p # ps) dev own =
     (if length own \<le> p then None
      else if own ! p then clear_pages ps (dev[p := False]) (own[p := False])
      else clear_pages ps dev own)"

definition exanic_free_tx_region ::
    "kexanic \<Rightarrow> exanic_ctx \<Rightarrow> nat \<Rightarrow> nat \<Rightarrow> nat \<Rightarrow> ((kerr + unit) \<times> kexanic \<times> exanic_ctx) option" where
  "exanic_free_tx_region e c port_num sz off =
     (let start_page = off div PAGE_SIZE; end_page = start_page + sz div PAGE_SIZE
      in case clear_pages [start_page..<end_page] (tx_region_bitmap e) (ctx_tx_region_bitmap c) of
           None \<Rightarrow> None
         | Some (dev, own) \<Rightarrow>
             Some (Inr (), e\<lparr>tx_region_bitmap := dev\<rparr>, c\<lparr>ctx_tx_region_bitmap := own\<rparr>))"

subsection \<open>Feedback slots\<close>

definition exanic_alloc_tx_feedback ::
    "kexanic \<Rightarrow> exanic_ctx \<Rightarrow> nat \<Rightarrow> ((kerr + nat) \<times> kexanic \<times> exanic_ctx) option" where
  "exanic_alloc_tx_feedback e c port_num =
     (case first_not (\<lambda>b. b) (tx_feedback_bitmap e) EXANIC_TX_FEEDBACK_NUM_SLOTS of
        None \<Rightarrow> None
      | Some slot \<Rightarrow>
          if slot = EXANIC_TX_FEEDBACK_NUM_SLOTS then Some (Inl ENOMEM, e, c)
          else Some (Inr slot,
                 e\<lparr>tx_feedback_bitmap := (tx_feedback_bitmap e)[slot := True]\<rparr>,
                 c\<lparr>ctx_tx_feedback_bitmap := (ctx_tx_feedback_bitmap c)[slot := True]\<rparr>))"

definition exanic_free_tx_feedback ::
    "kexanic \<Rightarrow> exanic_ctx \<Rightarrow> nat \<Rightarrow> nat \<Rightarrow> ((kerr + unit) \<times> kexanic \<times> exanic_ctx) option" where
  "exanic_free_tx_feedback e c port_num slot =
     (case clear_pages [slot] (tx_feedback_bitmap e) (ctx_tx_feedback_bitmap c) of
        None \<Rightarrow> None
      | Some (dev, own) \<Rightarrow>
          Some (Inr (), e\<lparr>tx_feedback_bitmap := dev\<rparr>, c\<lparr>ctx_tx_feedback_bitmap := own\<rparr>))"

subsection \<open>References\<close>

definition exanic_rx_get :: "kexanic \<Rightarrow> exanic_ctx \<Rightarrow> nat \<Rightarrow> kexanic \<times> exanic_ctx" where
  "exanic_rx_get e c p =
     (set_port p ((port e p)\<lparr>port_rx_refcount := port_rx_refcount (port e p) + 1\<rparr>) e,
      c\<lparr>ctx_rx_refcount := (ctx_rx_refcount c)(p := ctx_rx_refcount c p + 1)\<rparr>)"

definition exanic_rx_put :: "kexanic \<Rightarrow> exanic_ctx \<Rightarrow> nat \<Rightarrow> kexanic \<times> exanic_ctx" where
  "exanic_rx_put e c p =
     (set_port p ((port e p)\<lparr>port_rx_refcount := port_rx_refcount (port e p) - 1\<rparr>) e,
      c\<lparr>ctx_rx_refcount := (ctx_rx_refcount c)(p := ctx_rx_refcount c p - 1)\<rparr>)"

definition exanic_has_filter_buffer_ref :: "exanic_ctx \<Rightarrow> nat \<Rightarrow> nat \<Rightarrow> bool" where
  "exanic_has_filter_buffer_ref c p b = list_ex (\<lambda>r. r = (p, b)) (filter_buffer_ref_list c)"

definition exanic_add_filter_buffer_ref :: "bool \<Rightarrow> exanic_ctx \<Rightarrow> nat \<Rightarrow> nat \<Rightarrow> (kerr + unit) \<times> exanic_ctx" where
  "exanic_add_filter_buffer_ref kzalloc_ok c p b =
     (if exanic_has_filter_buffer_ref c p b then (Inr (), c)
      else if \<not> kzalloc_ok then (Inl ENOMEM, c)
      else (Inr (), c\<lparr>filter_buffer_ref_list := (p, b) # filter_buffer_ref_list c\<rparr>))"

definition exanic_remove_filter_buffer_ref :: "exanic_ctx \<Rightarrow> nat \<Rightarrow> nat \<Rightarrow> (kerr + unit) \<times> exanic_ctx" where
  "exanic_remove_filter_buffer_ref c p b =
     (if exanic_has_filter_buffer_ref c p b
      then (Inr (), c\<lparr>filter_buffer_ref_list := remove1 (p, b) (filter_buffer_ref_list c)\<rparr>)
      else (Inl Minus_one, c))"

subsection \<open>Closing a context\<close>

definition bitmap_andnot :: "bool list \<Rightarrow> bool list \<Rightarrow> bool list" where
  "bitmap_andnot a b = map2 (\<lambda>x y. x \<and> \<not> y) a b"

fun free_refs :: "kexanic \<Rightarrow> (nat \<times> nat) list \<Rightarrow> kexanic option" where
  "free_refs e [] = Some e"
| "free_refs e ((p, b) # rs) =
     (case exanic_free_filter_dma e p b of None \<Rightarrow> None | Some e1 \<Rightarrow> free_refs e1 rs)"

definition drop_rx_refs :: "exanic_ctx \<Rightarrow> kexanic \<Rightarrow> kexanic" where
  "drop_rx_refs c e =
     fold (\<lambda>i e. if ctx_rx_refcount c i \<noteq> 0
                 then set_port i ((port e i)\<lparr>port_rx_refcount := port_rx_refcount (port e i) - ctx_rx_refcount c i\<rparr>) e
                 else e) [0..<k_num_ports e] e"

fun free_unused_rx :: "(nat \<Rightarrow> bool) \<Rightarrow> kexanic \<Rightarrow> nat list \<Rightarrow> kexanic option" where
  "free_unused_rx mapped e [] = Some e"
| "free_unused_rx mapped e (i # is) =
     (case exanic_rx_in_use mapped e i of
        None \<Rightarrow> None
      | Some True \<Rightarrow> free_unused_rx mapped e is
      | Some False \<Rightarrow>
          (case exanic_free_rx_dma mapped e i of
             None \<Rightarrow> None | Some e1 \<Rightarrow> free_unused_rx mapped e1 is))"

definition exanic_free_ctx :: "(nat \<Rightarrow> bool) \<Rightarrow> kexanic \<Rightarrow> exanic_ctx \<Rightarrow> kexanic option" where
  "exanic_free_ctx mapped e c =
     (let e1 = e\<lparr>tx_region_bitmap := bitmap_andnot (tx_region_bitmap e) (ctx_tx_region_bitmap c),
                 tx_feedback_bitmap := bitmap_andnot (tx_feedback_bitmap e) (ctx_tx_feedback_bitmap c)\<rparr>
      in case free_refs e1 (filter_buffer_ref_list c) of
           None \<Rightarrow> None
         | Some e2 \<Rightarrow>
             let e3 = drop_rx_refs c e2 in free_unused_rx mapped e3 [0..<k_num_ports e3])"

end
