(* ===== verification/KIoctl.thy ===== *)
theory KIoctl
  imports KCtx
begin

text \<open>
  The \<open>ioctl\<close> entry point of \<open>modules/exanic/exanic-dev.c\<close>. A command is a constructor with
  the input fields of its control block; the output fields are the reply. The outcome of
  copying from and to user space, of \<open>kzalloc\<close> and of the DMA allocation, and the page
  counts of the mapped regions, are the environment.
\<close>

record kenv =
  copy_from_user :: bool
  copy_to_user :: bool
  kzalloc_ok :: bool
  dma_result :: "(nat \<times> u64) option"
  rx_page_count :: "nat \<Rightarrow> int"
  feedback_page_count :: int

datatype exanicctl =
    TX_BUFFER_ALLOC nat nat
  | TX_BUFFER_FREE nat nat nat
  | TX_FEEDBACK_ALLOC nat
  | TX_FEEDBACK_FREE nat nat
  | INFO | INFO_EX | INFO_EX2
  | RX_FILTER_ADD_IP nat nat u32 u32 u16 u16 u8
  | RX_FILTER_ADD_MAC nat nat bytes u16 u16 u16
  | RX_FILTER_REMOVE_IP nat nat
  | RX_FILTER_REMOVE_MAC nat nat
  | RX_FILTER_BUFFER_ALLOC nat nat
  | RX_FILTER_BUFFER_ALLOC_EX nat "nat option"
  | RX_FILTER_BUFFER_FREE nat nat
  | RX_HASH_CONFIGURE nat bool u32 u32
  | DEVKIT_INFO | DEVKIT_INFO_EX | DEVICE_USAGE
  | UNKNOWN_COMMAND

datatype reply =
    Reply_none
  | Reply_offset nat
  | Reply_slot nat
  | Reply_filter nat
  | Reply_buffer nat
  | Reply_info nat nat "int list"
  | Reply_info_ex nat nat "int list" nat
  | Reply_info_ex2 nat nat "int list" nat nat
  | Reply_devkit nat nat
  | Reply_users int

type_synonym ioctl_result = "((kerr + reply) \<times> kexanic \<times> exanic_ctx) option"

definition fail :: "kerr \<Rightarrow> kexanic \<Rightarrow> exanic_ctx \<Rightarrow> ioctl_result" where
  "fail r e c = Some (Inl r, e, c)"

text \<open>The reply is copied out last; a failing copy leaves what has been done in place.\<close>

definition reply_user :: "kenv \<Rightarrow> reply \<Rightarrow> kexanic \<Rightarrow> exanic_ctx \<Rightarrow> ioctl_result" where
  "reply_user env r e c = (if copy_to_user env then Some (Inr r, e, c) else Some (Inl EFAULT, e, c))"

definition if_index :: "kexanic \<Rightarrow> nat \<Rightarrow> int list" where
  "if_index e n = map (\<lambda>i. case ndev_ifindex e i of None \<Rightarrow> 0 | Some x \<Rightarrow> x) [0..<n]"

definition exanic_count_tx_feedback_users :: "kenv \<Rightarrow> kexanic \<Rightarrow> int" where
  "exanic_count_tx_feedback_users env e = (if tx_feedback_virt e then feedback_page_count env - 1 else 0)"

definition exanic_count_rx_users :: "kenv \<Rightarrow> kexanic \<Rightarrow> int" where
  "exanic_count_rx_users env e =
     sum_list (map (\<lambda>i. (if rx_region_virt (port e i) \<noteq> None then rx_page_count env i - 1 else 0) +
        sum_list (map (\<lambda>b. buf_refcount (filter_buffers (port e i) ! b)) [0..<k_max_filter_buffers e]))
      [0..<k_num_ports e])"

definition ioctl_tx_buffer_alloc :: "kenv \<Rightarrow> kexanic \<Rightarrow> exanic_ctx \<Rightarrow> nat \<Rightarrow> nat \<Rightarrow> ioctl_result" where
  "ioctl_tx_buffer_alloc env e c p sz =
     (if \<not> copy_from_user env then fail EFAULT e c
      else if k_num_ports e \<le> p then fail EINVAL e c
      else if sz mod PAGE_SIZE \<noteq> 0 then fail EINVAL e c
      else case exanic_alloc_tx_region e c p sz of
             None \<Rightarrow> None
           | Some (Inl r, e1, c1) \<Rightarrow> Some (Inl r, e1, c1)
           | Some (Inr off, e1, c1) \<Rightarrow> reply_user env (Reply_offset off) e1 c1)"

definition ioctl_tx_buffer_free :: "kenv \<Rightarrow> kexanic \<Rightarrow> exanic_ctx \<Rightarrow> nat \<Rightarrow> nat \<Rightarrow> nat \<Rightarrow> ioctl_result" where
  "ioctl_tx_buffer_free env e c p sz off =
     (if \<not> copy_from_user env then fail EFAULT e c
      else if k_num_ports e \<le> p then fail EINVAL e c
      else if off mod PAGE_SIZE \<noteq> 0 \<or> sz mod PAGE_SIZE \<noteq> 0 then fail EINVAL e c
      else case exanic_free_tx_region e c p sz off of
             None \<Rightarrow> None
           | Some (Inl r, e1, c1) \<Rightarrow> Some (Inl r, e1, c1)
           | Some (Inr _, e1, c1) \<Rightarrow> Some (Inr Reply_none, e1, c1))"

definition ioctl_tx_feedback_alloc :: "kenv \<Rightarrow> kexanic \<Rightarrow> exanic_ctx \<Rightarrow> nat \<Rightarrow> ioctl_result" where
  "ioctl_tx_feedback_alloc env e c p =
     (if \<not> copy_from_user env then fail EFAULT e c
      else if k_num_ports e \<le> p then fail EINVAL e c
      else case exanic_alloc_tx_feedback e c p of
             None \<Rightarrow> None
           | Some (Inl r, e1, c1) \<Rightarrow> Some (Inl r, e1, c1)
           | Some (Inr slot, e1, c1) \<Rightarrow> reply_user env (Reply_slot slot) e1 c1)"

definition ioctl_tx_feedback_free :: "kenv \<Rightarrow> kexanic \<Rightarrow> exanic_ctx \<Rightarrow> nat \<Rightarrow> nat \<Rightarrow> ioctl_result" where
  "ioctl_tx_feedback_free env e c p slot =
     (if \<not> copy_from_user env then fail EFAULT e c
      else if k_num_ports e \<le> p \<or> EXANIC_TX_FEEDBACK_NUM_SLOTS \<le> slot then fail EINVAL e c
      else case exanic_free_tx_feedback e c p slot of
             None \<Rightarrow> None
           | Some (Inl r, e1, c1) \<Rightarrow> Some (Inl r, e1, c1)
           | Some (Inr _, e1, c1) \<Rightarrow> Some (Inr Reply_none, e1, c1))"

subsection \<open>Filters\<close>

definition ioctl_filter_add_ip ::
    "kenv \<Rightarrow> kexanic \<Rightarrow> exanic_ctx \<Rightarrow> nat \<Rightarrow> ip_filter_slot \<Rightarrow> ioctl_result" where
  "ioctl_filter_add_ip env e c p f =
     (if \<not> copy_from_user env then fail EFAULT e c
      else if k_num_ports e \<le> p then fail EINVAL e c
      else if k_max_filter_buffers e \<le> ip_buffer f then fail EINVAL e c
      else case exanic_insert_ip_filter e p f of
             None \<Rightarrow> None
           | Some (Inl r, e1) \<Rightarrow> Some (Inl r, e1, c)
           | Some (Inr n, e1) \<Rightarrow> reply_user env (Reply_filter n) e1 c)"

definition ioctl_filter_add_mac ::
    "kenv \<Rightarrow> kexanic \<Rightarrow> exanic_ctx \<Rightarrow> nat \<Rightarrow> mac_filter_slot \<Rightarrow> ioctl_result" where
  "ioctl_filter_add_mac env e c p f =
     (if \<not> copy_from_user env then fail EFAULT e c
      else if k_num_ports e \<le> p then fail EINVAL e c
      else if k_max_filter_buffers e \<le> mac_buffer f then fail EINVAL e c
      else case exanic_insert_mac_filter e p f of
             None \<Rightarrow> None
           | Some (Inl r, e1) \<Rightarrow> Some (Inl r, e1, c)
           | Some (Inr n, e1) \<Rightarrow> reply_user env (Reply_filter n) e1 c)"

definition ioctl_filter_remove_ip :: "kenv \<Rightarrow> kexanic \<Rightarrow> exanic_ctx \<Rightarrow> nat \<Rightarrow> nat \<Rightarrow> ioctl_result" where
  "ioctl_filter_remove_ip env e c p n =
     (if \<not> copy_from_user env then fail EFAULT e c
      else if k_num_ports e \<le> p then fail EINVAL e c
      else if max_ip_filter_slots (port e p) \<le> n then fail EINVAL e c
      else case exanic_remove_ip_filter e p n of
             None \<Rightarrow> None
           | Some (Inl r, e1) \<Rightarrow> Some (Inl r, e1, c)
           | Some (Inr _, e1) \<Rightarrow> Some (Inr Reply_none, e1, c))"

definition ioctl_filter_remove_mac :: "kenv \<Rightarrow> kexanic \<Rightarrow> exanic_ctx \<Rightarrow> nat \<Rightarrow> nat \<Rightarrow> ioctl_result" where
  "ioctl_filter_remove_mac env e c p n =
     (if \<not> copy_from_user env then fail EFAULT e c
      else if k_num_ports e \<le> p then fail EINVAL e c
      else if max_mac_filter_slots (port e p) \<le> n then fail EINVAL e c
      else case exanic_remove_mac_filter e p n of
             None \<Rightarrow> None
           | Some (Inl r, e1) \<Rightarrow> Some (Inl r, e1, c)
           | Some (Inr _, e1) \<Rightarrow> Some (Inr Reply_none, e1, c))"

subsection \<open>Filter buffers\<close>

text \<open>The common part of the two allocation commands; \<open>tail\<close> is what follows the allocation.\<close>

definition filter_buffer_get ::
    "kenv \<Rightarrow> kexanic \<Rightarrow> exanic_ctx \<Rightarrow> nat \<Rightarrow> nat \<Rightarrow>
     ((kerr + unit) \<Rightarrow> kexanic \<Rightarrow> exanic_ctx \<Rightarrow> ioctl_result) \<Rightarrow> ioctl_result" where
  "filter_buffer_get env e c p b tail =
     (if exanic_has_filter_buffer_ref c p b then Some (Inr Reply_none, e, c)
      else case exanic_add_filter_buffer_ref (kzalloc_ok env) c p b of
             (Inl r, c1) \<Rightarrow> Some (Inl r, e, c1)
           | (Inr _, c1) \<Rightarrow>
               (case exanic_alloc_filter_dma (dma_result env) e p b of
                  None \<Rightarrow> None
                | Some (r, e1) \<Rightarrow> tail r e1 c1))"

definition ioctl_filter_buffer_alloc :: "kenv \<Rightarrow> kexanic \<Rightarrow> exanic_ctx \<Rightarrow> nat \<Rightarrow> nat \<Rightarrow> ioctl_result" where
  "ioctl_filter_buffer_alloc env e c p b =
     (if \<not> copy_from_user env then fail EFAULT e c
      else if k_num_ports e \<le> p then fail EINVAL e c
      else if k_max_filter_buffers e \<le> b then fail EINVAL e c
      else filter_buffer_get env e c p b
        (\<lambda>r e1 c1. case r of
           Inl x \<Rightarrow> Some (Inl x, e1, snd (exanic_remove_filter_buffer_ref c1 p b))
         | Inr _ \<Rightarrow> Some (Inr Reply_none, e1, c1)))"

text \<open>
  The extended command: \<open>None\<close> stands for the buffer number \<open>UINT_MAX\<close>, any free buffer. The
  buffer number is copied out after the allocation and a failing copy takes the reference
  back, but not the allocation.
\<close>

definition ioctl_filter_buffer_alloc_ex :: "kenv \<Rightarrow> kexanic \<Rightarrow> exanic_ctx \<Rightarrow> nat \<Rightarrow> nat option \<Rightarrow> ioctl_result" where
  "ioctl_filter_buffer_alloc_ex env e c p bo =
     (if \<not> copy_from_user env then fail EFAULT e c
      else if k_num_ports e \<le> p then fail EINVAL e c
      else if (case bo of None \<Rightarrow> False | Some b \<Rightarrow> k_max_filter_buffers e \<le> b) then fail EINVAL e c
      else case (case bo of Some b \<Rightarrow> Some (Inr b) | None \<Rightarrow> exanic_get_free_filter_buffer e p) of
             None \<Rightarrow> None
           | Some (Inl _) \<Rightarrow> fail ENOMEM e c
           | Some (Inr b) \<Rightarrow>
               filter_buffer_get env e c p b
                 (\<lambda>r e1 c1.
                    let r1 = (if copy_to_user env then r else Inl EFAULT)
                    in case r1 of
                         Inl x \<Rightarrow> Some (Inl x, e1, snd (exanic_remove_filter_buffer_ref c1 p b))
                       | Inr _ \<Rightarrow> Some (Inr (Reply_buffer b), e1, c1)))"

definition ioctl_filter_buffer_free :: "kenv \<Rightarrow> kexanic \<Rightarrow> exanic_ctx \<Rightarrow> nat \<Rightarrow> nat \<Rightarrow> ioctl_result" where
  "ioctl_filter_buffer_free env e c p b =
     (if \<not> copy_from_user env then fail EFAULT e c
      else if k_num_ports e \<le> p then fail EINVAL e c
      else if k_max_filter_buffers e \<le> b then fail EINVAL e c
      else if length (filter_buffers (port e p)) \<le> b then None
      else if buf_refcount (filter_buffers (port e p) ! b) = 0 then fail EACCES e c
      else let c1 = snd (exanic_remove_filter_buffer_ref c p b)
           in case exanic_free_filter_dma e p b of
                None \<Rightarrow> None
              | Some e1 \<Rightarrow> Some (Inr Reply_none, e1, c1))"

definition ioctl_hash_configure :: "kenv \<Rightarrow> kexanic \<Rightarrow> exanic_ctx \<Rightarrow> nat \<Rightarrow> bool \<Rightarrow> u32 \<Rightarrow> u32 \<Rightarrow> ioctl_result" where
  "ioctl_hash_configure env e c p enable m f =
     (if \<not> copy_from_user env then fail EFAULT e c
      else if k_num_ports e \<le> p then fail EINVAL e c
      else if num_hash_functions (port e p) \<le> unat f then fail EINVAL e c
      else Some (Inr Reply_none, exanic_configure_port_hash e p enable m f, c))"

subsection \<open>The dispatcher\<close>

primrec exanic_ioctl :: "kenv \<Rightarrow> kexanic \<Rightarrow> exanic_ctx \<Rightarrow> exanicctl \<Rightarrow> ioctl_result" where
  "exanic_ioctl env e c (TX_BUFFER_ALLOC p sz) = ioctl_tx_buffer_alloc env e c p sz"
| "exanic_ioctl env e c (TX_BUFFER_FREE p sz off) = ioctl_tx_buffer_free env e c p sz off"
| "exanic_ioctl env e c (TX_FEEDBACK_ALLOC p) = ioctl_tx_feedback_alloc env e c p"
| "exanic_ioctl env e c (TX_FEEDBACK_FREE p slot) = ioctl_tx_feedback_free env e c p slot"
| "exanic_ioctl env e c INFO =
     reply_user env (Reply_info (tx_region_size e) (filters_size e) (if_index e 4)) e c"
| "exanic_ioctl env e c INFO_EX =
     reply_user env (Reply_info_ex (tx_region_size e) (filters_size e) (if_index e 4) (k_max_filter_buffers e)) e c"
| "exanic_ioctl env e c INFO_EX2 =
     reply_user env (Reply_info_ex2 (tx_region_size e) (filters_size e) (if_index e EXANIC_MAX_PORTS)
       (k_max_filter_buffers e) (k_num_ports e)) e c"
| "exanic_ioctl env e c (RX_FILTER_ADD_IP p b sa da sp dp pr) =
     ioctl_filter_add_ip env e c p
       \<lparr>ip_enable = False, ip_buffer = b, src_addr = sa, dst_addr = da, src_port = sp, dst_port = dp, protocol = pr\<rparr>"
| "exanic_ioctl env e c (RX_FILTER_ADD_MAC p b m et v vm) =
     ioctl_filter_add_mac env e c p
       \<lparr>mac_enable = False, mac_buffer = b, dst_mac = m, ethertype = et, vlan = v, vlan_match_method = vm\<rparr>"
| "exanic_ioctl env e c (RX_FILTER_REMOVE_IP p n) = ioctl_filter_remove_ip env e c p n"
| "exanic_ioctl env e c (RX_FILTER_REMOVE_MAC p n) = ioctl_filter_remove_mac env e c p n"
| "exanic_ioctl env e c (RX_FILTER_BUFFER_ALLOC p b) = ioctl_filter_buffer_alloc env e c p b"
| "exanic_ioctl env e c (RX_FILTER_BUFFER_ALLOC_EX p bo) = ioctl_filter_buffer_alloc_ex env e c p bo"
| "exanic_ioctl env e c (RX_FILTER_BUFFER_FREE p b) = ioctl_filter_buffer_free env e c p b"
| "exanic_ioctl env e c (RX_HASH_CONFIGURE p en m f) = ioctl_hash_configure env e c p en m f"
| "exanic_ioctl env e c DEVKIT_INFO = reply_user env (Reply_devkit (devkit_regs_size e) (devkit_mem_size e)) e c"
| "exanic_ioctl env e c DEVKIT_INFO_EX = reply_user env (Reply_devkit (devkit_regs_ex_size e) (devkit_mem_ex_size e)) e c"
| "exanic_ioctl env e c DEVICE_USAGE =
     reply_user env (Reply_users (exanic_count_tx_feedback_users env e + exanic_count_rx_users env e)) e c"
| "exanic_ioctl env e c UNKNOWN_COMMAND = fail ENOTTY e c"

end
