(* ===== verification/KMmap.thy ===== *)
theory KMmap
  imports KIoctl
begin

text \<open>
  Mapping device memory into user space, the \<open>mmap\<close> entry point of
  \<open>modules/exanic/exanic-dev.c\<close>: the page offset selects a region, the size and the write
  flag are checked. What the kernel's remapping functions answer (\<open>remap\<close>) and whether a
  region is on the caller's NUMA node (\<open>same_node\<close>) are parameters. \<open>None\<close> is a kernel
  fault: a division by zero or a read beyond an array.
\<close>

abbreviation (input) "EXANIC_PGOFF_REGISTERS \<equiv> 0 :: nat"
abbreviation (input) "EXANIC_PGOFF_INFO \<equiv> 3 :: nat"
abbreviation (input) "EXANIC_PGOFF_FILTERS \<equiv> 4 :: nat"
abbreviation (input) "EXANIC_PGOFF_TX_REGION \<equiv> 8 :: nat"
abbreviation (input) "EXANIC_PGOFF_TX_FEEDBACK \<equiv> 256 :: nat"
abbreviation (input) "EXANIC_PGOFF_RX_REGION \<equiv> 512 :: nat"
abbreviation (input) "EXANIC_PGOFF_FILTER_REGION \<equiv> 2560 :: nat"
abbreviation (input) "EXANIC_PGOFF_DEVKIT_REGS \<equiv> 262144 :: nat"
abbreviation (input) "EXANIC_PGOFF_DEVKIT_MEM \<equiv> 262148 :: nat"
abbreviation (input) "EXANIC_PGOFF_TX_REGION_EXT \<equiv> 524288 :: nat"
abbreviation (input) "EXANIC_PGOFF_RX_REGION_EXT \<equiv> 557056 :: nat"
abbreviation (input) "EXANIC_PGOFF_DEVKIT_REGS_EXT \<equiv> 1048576 :: nat"
abbreviation (input) "EXANIC_PGOFF_DEVKIT_MEM_EXT \<equiv> 1114112 :: nat"
abbreviation (input) "EXANIC_RX_DMA_NUM_PAGES \<equiv> 512 :: nat"
abbreviation (input) "EXANIC_INFO_NUM_PAGES \<equiv> 1 :: nat"
abbreviation (input) "EXANIC_TX_FEEDBACK_NUM_PAGES \<equiv> 1 :: nat"

record vma =
  vm_pgoff :: nat
  vm_size :: nat
  vm_write :: bool

text \<open>What user space sees after a successful call; an RX region is named by its memory.\<close>

datatype region =
    Registers | Info | Filters | Tx_region | Tx_feedback
  | Rx_region nat
  | Devkit_regs bool
  | Devkit_mem bool

type_synonym map_result = "kerr + region"

text \<open>The size checks; the remapping is tried after them.\<close>

definition remap_region :: "(region \<Rightarrow> kerr option) \<Rightarrow> region \<Rightarrow> map_result" where
  "remap_region remap r = (case remap r of Some err \<Rightarrow> Inl err | None \<Rightarrow> Inr r)"

definition exanic_map_registers :: "(region \<Rightarrow> kerr option) \<Rightarrow> kexanic \<Rightarrow> vma \<Rightarrow> map_result" where
  "exanic_map_registers remap e v =
     (if regs_size e < vm_size v then Inl EINVAL else remap_region remap Registers)"

definition exanic_map_devkit_regs :: "(region \<Rightarrow> kerr option) \<Rightarrow> kexanic \<Rightarrow> vma \<Rightarrow> bool \<Rightarrow> map_result" where
  "exanic_map_devkit_regs remap e v extended =
     (let resource_size = (if extended then devkit_regs_ex_size e else devkit_regs_size e)
      in if resource_size < vm_size v then Inl EINVAL else remap_region remap (Devkit_regs extended))"

definition exanic_map_devkit_mem :: "(region \<Rightarrow> kerr option) \<Rightarrow> kexanic \<Rightarrow> vma \<Rightarrow> bool \<Rightarrow> map_result" where
  "exanic_map_devkit_mem remap e v extended =
     (let resource_size = (if extended then devkit_mem_ex_size e else devkit_mem_size e)
      in if resource_size < vm_size v then Inl EINVAL else remap_region remap (Devkit_mem extended))"

definition exanic_map_info :: "(region \<Rightarrow> kerr option) \<Rightarrow> kexanic \<Rightarrow> vma \<Rightarrow> map_result" where
  "exanic_map_info remap e v =
     (if \<not> k_info_page e then Inl EINVAL
      else if vm_write v then Inl EACCES
      else if EXANIC_INFO_NUM_PAGES * PAGE_SIZE < vm_size v then Inl EINVAL
      else remap_region remap Info)"

definition exanic_map_filters :: "(region \<Rightarrow> kerr option) \<Rightarrow> kexanic \<Rightarrow> vma \<Rightarrow> map_result" where
  "exanic_map_filters remap e v =
     (if filters_size e < vm_size v then Inl EINVAL else remap_region remap Filters)"

definition exanic_map_tx_region :: "(region \<Rightarrow> kerr option) \<Rightarrow> kexanic \<Rightarrow> vma \<Rightarrow> map_result" where
  "exanic_map_tx_region remap e v =
     (if tx_region_size e < vm_size v then Inl EINVAL else remap_region remap Tx_region)"

definition exanic_map_tx_feedback :: "(region \<Rightarrow> kerr option) \<Rightarrow> kexanic \<Rightarrow> vma \<Rightarrow> map_result" where
  "exanic_map_tx_feedback remap e v =
     (if EXANIC_TX_FEEDBACK_NUM_PAGES * PAGE_SIZE < vm_size v then Inl EINVAL
      else remap_region remap Tx_feedback)"

text \<open>
  The buffer is read before the checks; \<open>buffer_num\<close> zero is the default buffer of the port.
\<close>

definition exanic_map_rx_region ::
    "(region \<Rightarrow> kerr option) \<Rightarrow> (nat \<Rightarrow> nat \<Rightarrow> bool) \<Rightarrow> kexanic \<Rightarrow> vma \<Rightarrow> nat \<Rightarrow> nat \<Rightarrow> bool \<Rightarrow> map_result option" where
  "exanic_map_rx_region remap same_node e v port_num buffer_num check_node =
     (if 0 < buffer_num \<and> length (filter_buffers (port e port_num)) \<le> buffer_num - 1 then None
      else
        let virt = (if 0 < buffer_num then region_virt (filter_buffers (port e port_num) ! (buffer_num - 1))
                    else rx_region_virt (port e port_num))
        in Some
          (if vm_write v then Inl EACCES
           else if EXANIC_RX_DMA_NUM_PAGES * PAGE_SIZE < vm_size v then Inl EINVAL
           else if k_num_ports e \<le> port_num then Inl EINVAL
           else if k_max_filter_buffers e < buffer_num then Inl EINVAL
           else if rx_region_virt (port e port_num) = None then Inl EINVAL
           else case virt of
                  None \<Rightarrow> Inl EINVAL
                | Some x \<Rightarrow>
                    if check_node \<and> \<not> same_node port_num buffer_num then Inl EINVAL
                    else remap_region remap (Rx_region x)))"

text \<open>The arithmetic on \<open>unsigned\<close> values wraps.\<close>

definition u32_mul :: "nat \<Rightarrow> nat \<Rightarrow> nat" where
  "u32_mul a b = (a * b) mod 2 ^ 32"

definition filter_region_port :: "kexanic \<Rightarrow> nat \<Rightarrow> nat" where
  "filter_region_port e pgoff =
     (pgoff - EXANIC_PGOFF_FILTER_REGION) div u32_mul (k_max_filter_buffers e) EXANIC_RX_DMA_NUM_PAGES"

definition filter_region_buffer :: "kexanic \<Rightarrow> nat \<Rightarrow> nat" where
  "filter_region_buffer e pgoff =
     nat ((int ((pgoff - EXANIC_PGOFF_FILTER_REGION) div EXANIC_RX_DMA_NUM_PAGES)
           - int (u32_mul (filter_region_port e pgoff) (k_max_filter_buffers e))) mod 2 ^ 32)"

definition exanic_mmap ::
    "(region \<Rightarrow> kerr option) \<Rightarrow> (nat \<Rightarrow> nat \<Rightarrow> bool) \<Rightarrow> kexanic \<Rightarrow> exanic_ctx \<Rightarrow> vma \<Rightarrow> map_result option" where
  "exanic_mmap remap same_node e c v =
     (let off = vm_pgoff v
      in if off = EXANIC_PGOFF_REGISTERS then Some (exanic_map_registers remap e v)
         else if off = EXANIC_PGOFF_INFO then Some (exanic_map_info remap e v)
         else if off = EXANIC_PGOFF_FILTERS then Some (exanic_map_filters remap e v)
         else if off = EXANIC_PGOFF_TX_REGION then Some (exanic_map_tx_region remap e v)
         else if off = EXANIC_PGOFF_TX_FEEDBACK then Some (exanic_map_tx_feedback remap e v)
         else if EXANIC_PGOFF_RX_REGION \<le> off \<and> off < EXANIC_PGOFF_FILTER_REGION then
           (let port_num = (off - EXANIC_PGOFF_RX_REGION) div EXANIC_RX_DMA_NUM_PAGES;
                offset = (off - EXANIC_PGOFF_RX_REGION) mod EXANIC_RX_DMA_NUM_PAGES
            in if k_num_ports e \<le> port_num \<or> offset \<noteq> 0 then Some (Inl EINVAL)
               else exanic_map_rx_region remap same_node e v port_num 0 (check_numa_node c))
         else if EXANIC_PGOFF_FILTER_REGION \<le> off \<and> off < EXANIC_PGOFF_DEVKIT_REGS then
           (if u32_mul (k_max_filter_buffers e) EXANIC_RX_DMA_NUM_PAGES = 0 then None
            else
              let port_num = filter_region_port e off;
                  buffer_num = filter_region_buffer e off;
                  offset = (off - EXANIC_PGOFF_FILTER_REGION) mod EXANIC_RX_DMA_NUM_PAGES
              in if k_num_ports e \<le> port_num \<or> offset \<noteq> 0 then Some (Inl EINVAL)
                 else exanic_map_rx_region remap same_node e v port_num (buffer_num + 1) (check_numa_node c))
         else if off = EXANIC_PGOFF_DEVKIT_REGS then Some (exanic_map_devkit_regs remap e v False)
         else if off = EXANIC_PGOFF_DEVKIT_MEM then Some (exanic_map_devkit_mem remap e v False)
         else if EXANIC_PGOFF_TX_REGION_EXT \<le> off \<and> off < EXANIC_PGOFF_RX_REGION_EXT then
           Some (exanic_map_tx_region remap e v)
         else if EXANIC_PGOFF_RX_REGION_EXT \<le> off \<and> off < EXANIC_PGOFF_DEVKIT_REGS_EXT then
           (let port_num = (off - EXANIC_PGOFF_RX_REGION_EXT) div EXANIC_RX_DMA_NUM_PAGES;
                offset = (off - EXANIC_PGOFF_RX_REGION_EXT) mod EXANIC_RX_DMA_NUM_PAGES
            in if k_num_ports e \<le> port_num \<or> offset \<noteq> 0 then Some (Inl EINVAL)
               else exanic_map_rx_region remap same_node e v port_num 0 (check_numa_node c))
         else if off = EXANIC_PGOFF_DEVKIT_REGS_EXT then Some (exanic_map_devkit_regs remap e v True)
         else if off = EXANIC_PGOFF_DEVKIT_MEM_EXT then Some (exanic_map_devkit_mem remap e v True)
         else Some (Inl EINVAL))"

end
