(* ===== verification/RxAcquire.thy ===== *)
theory RxAcquire
  imports RxFifo KMmap
begin

text \<open>
  Acquiring and releasing receive buffers and flow hashing, \<open>libs/exanic/fifo_rx.c\<close> lines 13
  to 250, and the filter calls of \<open>libs/exanic/filter.c\<close>. The \<open>ioctl\<close> and \<open>mmap\<close> of the
  handle's file are arguments; \<open>mem_of\<close> is what user space reads at a mapped region.
\<close>

type_synonym 's rx_ioctl = "'s \<Rightarrow> exanicctl \<Rightarrow> ((kerr + reply) \<times> 's) option"
type_synonym 's rx_mmap = "'s \<Rightarrow> vma \<Rightarrow> map_result option"

text \<open>An \<open>int\<close> stored in an \<open>unsigned\<close> field.\<close>

definition unsigned_of :: "int \<Rightarrow> nat" where
  "unsigned_of i = nat (i mod 2 ^ 32)"

lemma unsigned_of_nat [simp]: "0 \<le> i \<Longrightarrow> i < 2 ^ 32 \<Longrightarrow> unsigned_of i = nat i"
  by (simp add: unsigned_of_def)

subsection \<open>Page offsets\<close>

text \<open>An \<open>unsigned int\<close>, in bytes.\<close>

definition filter_page_offset :: "exanic_t \<Rightarrow> int \<Rightarrow> int \<Rightarrow> u32" where
  "filter_page_offset ex port_number buffer =
     of_nat (EXANIC_PGOFF_FILTER_REGION * PAGE_SIZE)
     + of_int port_number * of_nat (max_filter_buffers ex) * of_nat EXANIC_RX_DMA_NUM_PAGES * of_nat PAGE_SIZE
     + of_int buffer * of_nat EXANIC_RX_DMA_NUM_PAGES * of_nat PAGE_SIZE"

definition rx_page_offset :: "int \<Rightarrow> u32" where
  "rx_page_offset port_number =
     (if port_number < 4
      then of_nat (EXANIC_PGOFF_RX_REGION * PAGE_SIZE) + of_int port_number * of_nat EXANIC_RX_DMA_NUM_PAGES * of_nat PAGE_SIZE
      else of_nat (EXANIC_PGOFF_RX_REGION_EXT * PAGE_SIZE) + of_int port_number * of_nat EXANIC_RX_DMA_NUM_PAGES * of_nat PAGE_SIZE)"

definition rx_vma :: "nat \<Rightarrow> vma" where
  "rx_vma pgoff = \<lparr>vm_pgoff = pgoff, vm_size = EXANIC_RX_DMA_NUM_PAGES * PAGE_SIZE, vm_write = False\<rparr>"

subsection \<open>Acquire and release\<close>

record rx_handle =
  rxh :: exanic_rx
  rx_map :: region

text \<open>
  The handle after \<open>__exanic_rx_catchup\<close>, which sets every field that \<open>malloc\<close> left
  undefined; \<open>junk\<close> stands for these. Without memory for the handle the mapping and the
  reference to the device stay behind.
\<close>

definition new_rx ::
    "(region \<Rightarrow> rx_memory) \<Rightarrow> nat \<Rightarrow> exanic_rx \<Rightarrow> int \<Rightarrow> int \<Rightarrow> region \<Rightarrow> rx_handle" where
  "new_rx mem_of t junk port_number buffer_number r =
     \<lparr>rxh = fst (exanic_rx_catchup (mem_of r) t (junk\<lparr>rx_port_number := port_number, rx_buffer_number := buffer_number\<rparr>)),
      rx_map = r\<rparr>"

record rx_env =
  rx_malloc_ok :: bool
  rx_mem_of :: "region \<Rightarrow> rx_memory"
  rx_time :: nat
  rx_junk :: exanic_rx

definition map_rx ::
    "'s rx_mmap \<Rightarrow> rx_env \<Rightarrow> 's \<Rightarrow> int \<Rightarrow> int \<Rightarrow> int \<Rightarrow> nat \<Rightarrow> ((exanic_err + rx_handle) \<times> 's \<times> int) option" where
  "map_rx mmap env s ref_count port_number buffer_number pgoff =
     (case mmap s (rx_vma pgoff) of
        None \<Rightarrow> None
      | Some (Inl _) \<Rightarrow> Some (Inl Err_mmap_failed, s, ref_count)
      | Some (Inr r) \<Rightarrow>
          if rx_malloc_ok env
          then Some (Inr (new_rx (rx_mem_of env) (rx_time env) (rx_junk env) port_number buffer_number r), s, ref_count + 1)
          else Some (Inl Err_no_memory, s, ref_count + 1))"

definition exanic_acquire_rx_buffer ::
    "'s rx_ioctl \<Rightarrow> 's rx_mmap \<Rightarrow> rx_env \<Rightarrow> exanic_t \<Rightarrow> 's \<Rightarrow> int \<Rightarrow> int \<Rightarrow> int \<Rightarrow>
     ((exanic_err + rx_handle) \<times> 's \<times> int) option" where
  "exanic_acquire_rx_buffer ioctl mmap env ex s ref_count port_number buffer_number =
     (if port_number < 0 \<or> int (num_ports ex) \<le> port_number then Some (Inl Err_invalid_port_number, s, ref_count)
      else if \<not> exanic_port_rx_usable ex port_number then Some (Inl Err_port_no_rx, s, ref_count)
      else if exanic_port_enabled ex port_number = 0 then Some (Inl Err_port_not_enabled, s, ref_count)
      else if 0 < buffer_number then
        (case ioctl s (RX_FILTER_BUFFER_ALLOC_EX (nat port_number) (Some (nat (buffer_number - 1)))) of
           None \<Rightarrow> None
         | Some (Inl _, s1) \<Rightarrow> Some (Inl Err_ioctl_failed, s1, ref_count)
         | Some (Inr _, s1) \<Rightarrow>
             map_rx mmap env s1 ref_count port_number buffer_number
               (unat (filter_page_offset ex port_number (buffer_number - 1)) div PAGE_SIZE))
      else map_rx mmap env s ref_count port_number buffer_number (unat (rx_page_offset port_number) div PAGE_SIZE))"

text \<open>
  Here the byte offset is an \<open>int\<close>, which is sign-extended when it becomes the offset of the
  mapping. A reply without a buffer number means the file already refers to the buffer; the
  argument then still holds \<open>UINT_MAX\<close>.
\<close>

definition int_page_offset :: "u32 \<Rightarrow> nat" where
  "int_page_offset w = nat (sint w mod 2 ^ 64) div PAGE_SIZE"

definition exanic_acquire_unused_filter_buffer ::
    "'s rx_ioctl \<Rightarrow> 's rx_mmap \<Rightarrow> rx_env \<Rightarrow> exanic_t \<Rightarrow> 's \<Rightarrow> int \<Rightarrow> int \<Rightarrow>
     ((exanic_err + rx_handle) \<times> 's \<times> int) option" where
  "exanic_acquire_unused_filter_buffer ioctl mmap env ex s ref_count port_number =
     (if port_number < 0 \<or> int (num_ports ex) \<le> port_number then Some (Inl Err_invalid_port_number, s, ref_count)
      else if \<not> exanic_port_rx_usable ex port_number then Some (Inl Err_port_no_rx, s, ref_count)
      else if exanic_port_enabled ex port_number = 0 then Some (Inl Err_port_not_enabled, s, ref_count)
      else case ioctl s (RX_FILTER_BUFFER_ALLOC_EX (nat port_number) None) of
             None \<Rightarrow> None
           | Some (Inl _, s1) \<Rightarrow> Some (Inl Err_ioctl_failed, s1, ref_count)
           | Some (Inr r, s1) \<Rightarrow>
               (let b = (case r of Reply_buffer b \<Rightarrow> int b | _ \<Rightarrow> 2 ^ 32 - 1)
                in map_rx mmap env s1 ref_count port_number ((b + 1) mod 2 ^ 32)
                     (int_page_offset (filter_page_offset ex port_number b))))"

definition exanic_release_rx_buffer :: "'s rx_ioctl \<Rightarrow> 's \<Rightarrow> int \<Rightarrow> rx_handle \<Rightarrow> ('s \<times> int) option" where
  "exanic_release_rx_buffer ioctl s ref_count h =
     (if 0 < rx_buffer_number (rxh h)
      then case ioctl s (RX_FILTER_BUFFER_FREE (unsigned_of (rx_port_number (rxh h))) (unsigned_of (rx_buffer_number (rxh h) - 1))) of
             None \<Rightarrow> None
           | Some (_, s1) \<Rightarrow> Some (s1, ref_count - 1)
      else Some (s, ref_count - 1))"

subsection \<open>Flow hashing\<close>

text \<open>The allocation loop; \<open>k\<close> counts the buffers still wanted and \<open>n\<close> those allocated.\<close>

fun hash_alloc :: "'s rx_ioctl \<Rightarrow> nat \<Rightarrow> nat \<Rightarrow> nat \<Rightarrow> 's \<Rightarrow> (nat \<times> 's) option" where
  "hash_alloc ioctl p 0 n s = Some (n, s)"
| "hash_alloc ioctl p (Suc k) n s =
     (case ioctl s (RX_FILTER_BUFFER_ALLOC_EX p (Some n)) of
        None \<Rightarrow> None
      | Some (Inl _, s1) \<Rightarrow> Some (n, s1)
      | Some (Inr _, s1) \<Rightarrow> hash_alloc ioctl p k (Suc n) s1)"

fun hash_rollback :: "'s rx_ioctl \<Rightarrow> nat \<Rightarrow> nat \<Rightarrow> 's \<Rightarrow> (nat \<times> 's) option" where
  "hash_rollback ioctl p 0 s = Some (0, s)"
| "hash_rollback ioctl p (Suc m) s =
     (if Suc m \<noteq> 1 \<and> (Suc m AND m) \<noteq> 0
      then case ioctl s (RX_FILTER_BUFFER_FREE p m) of
             None \<Rightarrow> None
           | Some (_, s1) \<Rightarrow> hash_rollback ioctl p m s1
      else Some (Suc m, s))"

definition exanic_enable_flow_hashing ::
    "'s rx_ioctl \<Rightarrow> exanic_t \<Rightarrow> 's \<Rightarrow> int \<Rightarrow> int \<Rightarrow> u32 \<Rightarrow> ((exanic_err + nat) \<times> 's) option" where
  "exanic_enable_flow_hashing ioctl ex s port_number max_buffers hash_function =
     (if max_buffers \<noteq> 1 \<and> (max_buffers AND (max_buffers - 1)) \<noteq> 0 then Some (Inl Err_max_buffers_not_pow2, s)
      else if port_number < 0 \<or> int (num_ports ex) \<le> port_number then Some (Inl Err_invalid_port_number, s)
      else if \<not> exanic_port_rx_usable ex port_number then Some (Inl Err_port_no_rx, s)
      else if exanic_port_enabled ex port_number = 0 then Some (Inl Err_port_not_enabled, s)
      else case hash_alloc ioctl (nat port_number) (nat max_buffers) 0 s of
             None \<Rightarrow> None
           | Some (n, s1) \<Rightarrow>
               if n = 0 then Some (Inl Err_no_buffers, s1)
               else (case hash_rollback ioctl (nat port_number) n s1 of
                       None \<Rightarrow> None
                     | Some (n2, s2) \<Rightarrow>
                         (case ioctl s2 (RX_HASH_CONFIGURE (nat port_number) True (of_nat (n2 - 1)) hash_function) of
                            None \<Rightarrow> None
                          | Some (_, s3) \<Rightarrow> Some (Inr n2, s3))))"

definition exanic_disable_flow_hashing :: "'s rx_ioctl \<Rightarrow> 's \<Rightarrow> int \<Rightarrow> 's option" where
  "exanic_disable_flow_hashing ioctl s port_number =
     (case ioctl s (RX_HASH_CONFIGURE (unsigned_of port_number) False 0 0) of
        None \<Rightarrow> None | Some (_, s1) \<Rightarrow> Some s1)"

subsection \<open>Filters\<close>

record exanic_ip_filter_t =
  fi_src_addr :: u32
  fi_dst_addr :: u32
  fi_src_port :: u16
  fi_dst_port :: u16
  fi_protocol :: u8

record exanic_mac_filter_t =
  fm_dst_mac :: bytes
  fm_ethertype :: u16
  fm_vlan :: u16
  fm_vlan_match_method :: int

definition exanic_filter_add_ip ::
    "'s rx_ioctl \<Rightarrow> 's \<Rightarrow> exanic_rx \<Rightarrow> exanic_ip_filter_t \<Rightarrow> ((exanic_err + nat) \<times> 's) option" where
  "exanic_filter_add_ip ioctl s buffer f =
     (if rx_buffer_number buffer = 0 then Some (Inl Err_default_buffer, s)
      else case ioctl s (RX_FILTER_ADD_IP (unsigned_of (rx_port_number buffer)) (unsigned_of (rx_buffer_number buffer - 1))
                  (fi_src_addr f) (fi_dst_addr f) (fi_src_port f) (fi_dst_port f) (fi_protocol f)) of
             Some (Inl _, s1) \<Rightarrow> Some (Inl Err_ioctl_failed, s1)
           | Some (Inr (Reply_filter i), s1) \<Rightarrow> Some (Inr i, s1)
           | _ \<Rightarrow> None)"

definition exanic_filter_add_mac ::
    "'s rx_ioctl \<Rightarrow> 's \<Rightarrow> exanic_rx \<Rightarrow> exanic_mac_filter_t \<Rightarrow> ((exanic_err + nat) \<times> 's) option" where
  "exanic_filter_add_mac ioctl s buffer f =
     (if rx_buffer_number buffer = 0 then Some (Inl Err_default_buffer, s)
      else case ioctl s (RX_FILTER_ADD_MAC (unsigned_of (rx_port_number buffer)) (unsigned_of (rx_buffer_number buffer - 1))
                  (fm_dst_mac f) (fm_ethertype f) (fm_vlan f) (of_int (fm_vlan_match_method f))) of
             Some (Inl _, s1) \<Rightarrow> Some (Inl Err_ioctl_failed, s1)
           | Some (Inr (Reply_filter i), s1) \<Rightarrow> Some (Inr i, s1)
           | _ \<Rightarrow> None)"

definition exanic_filter_remove_ip :: "'s rx_ioctl \<Rightarrow> 's \<Rightarrow> int \<Rightarrow> int \<Rightarrow> ((exanic_err + unit) \<times> 's) option" where
  "exanic_filter_remove_ip ioctl s port_number filter_id =
     (case ioctl s (RX_FILTER_REMOVE_IP (unsigned_of port_number) (unsigned_of filter_id)) of
        None \<Rightarrow> None
      | Some (Inl _, s1) \<Rightarrow> Some (Inl Err_ioctl_failed, s1)
      | Some (Inr _, s1) \<Rightarrow> Some (Inr (), s1))"

definition exanic_filter_remove_mac :: "'s rx_ioctl \<Rightarrow> 's \<Rightarrow> int \<Rightarrow> int \<Rightarrow> ((exanic_err + unit) \<times> 's) option" where
  "exanic_filter_remove_mac ioctl s port_number filter_id =
     (case ioctl s (RX_FILTER_REMOVE_MAC (unsigned_of port_number) (unsigned_of filter_id)) of
        None \<Rightarrow> None
      | Some (Inl _, s1) \<Rightarrow> Some (Inl Err_ioctl_failed, s1)
      | Some (Inr _, s1) \<Rightarrow> Some (Inr (), s1))"

end
