(* ===== verification/TxAcquire.thy ===== *)
theory TxAcquire
  imports TxFifo KIoctl
begin

text \<open>
  Acquiring and releasing a transmit buffer, \<open>libs/exanic/fifo_tx.c\<close> lines 39 to 216, against
  the driver as an interface. The functions take the \<open>ioctl\<close> of the handle's file as an
  argument; the locale \<open>tx_kernel\<close> states what they rely on, over a view of the driver's
  state: which pages and feedback slots are taken, and which of them by this file.
\<close>

type_synonym 's ioctl_fun = "'s \<Rightarrow> exanicctl \<Rightarrow> ((kerr + reply) \<times> 's) option"

subsection \<open>Allocation requests\<close>

text \<open>A reply of another command's shape cannot occur and counts as undefined.\<close>

definition exanic_alloc_tx_feedback_slot :: "'s ioctl_fun \<Rightarrow> 's \<Rightarrow> int \<Rightarrow> (nat option \<times> 's) option" where
  "exanic_alloc_tx_feedback_slot ioctl s port_number =
     (case ioctl s (TX_FEEDBACK_ALLOC (nat port_number)) of
        Some (Inl _, s1) \<Rightarrow> Some (None, s1)
      | Some (Inr (Reply_slot k), s1) \<Rightarrow> Some (Some k, s1)
      | _ \<Rightarrow> None)"

definition exanic_free_tx_feedback_slot :: "'s ioctl_fun \<Rightarrow> 's \<Rightarrow> int \<Rightarrow> nat \<Rightarrow> (bool \<times> 's) option" where
  "exanic_free_tx_feedback_slot ioctl s port_number k =
     (case ioctl s (TX_FEEDBACK_FREE (nat port_number) k) of
        None \<Rightarrow> None
      | Some (Inl _, s1) \<Rightarrow> Some (False, s1)
      | Some (Inr _, s1) \<Rightarrow> Some (True, s1))"

definition exanic_alloc_tx_buffer :: "'s ioctl_fun \<Rightarrow> 's \<Rightarrow> int \<Rightarrow> nat \<Rightarrow> (nat option \<times> 's) option" where
  "exanic_alloc_tx_buffer ioctl s port_number sz =
     (case ioctl s (TX_BUFFER_ALLOC (nat port_number) sz) of
        Some (Inl _, s1) \<Rightarrow> Some (None, s1)
      | Some (Inr (Reply_offset off), s1) \<Rightarrow> Some (Some off, s1)
      | _ \<Rightarrow> None)"

definition exanic_free_tx_buffer :: "'s ioctl_fun \<Rightarrow> 's \<Rightarrow> int \<Rightarrow> nat \<Rightarrow> nat \<Rightarrow> (bool \<times> 's) option" where
  "exanic_free_tx_buffer ioctl s port_number sz off =
     (case ioctl s (TX_BUFFER_FREE (nat port_number) sz off) of
        None \<Rightarrow> None
      | Some (Inl _, s1) \<Rightarrow> Some (False, s1)
      | Some (Inr _, s1) \<Rightarrow> Some (True, s1))"

subsection \<open>Acquire and release\<close>

text \<open>
  What the allocator answers (\<open>malloc_ok\<close>, \<open>calloc_ok\<close>), the contents of the mapped transmit
  region and the value of the one field that is not initialised.
\<close>

record tx_env =
  malloc_ok :: bool
  calloc_ok :: bool
  tx_memory :: bytes
  junk_need_feedback :: bool

definition new_tx :: "tx_env \<Rightarrow> int \<Rightarrow> nat \<Rightarrow> nat \<Rightarrow> nat \<Rightarrow> exanic_tx" where
  "new_tx env port_number region_size off slot =
     (let qlen = uint (round_down_pow2 (of_nat (region_size div 512)))
      in \<lparr>tx_port_number = port_number, feedback_slot = int slot,
          tx_buffer = take region_size (drop off (tx_memory env)),
          buffer_offset = of_nat off, buffer_size = of_nat region_size, next_offset = 0,
          feedback_seq = 0, request_seq = 0, rollover_seq = 1, next_seq = 1,
          queue_len = qlen, feedback_offsets = (replicate (nat qlen) 0)[0 := of_nat region_size],
          prepared_chunk = None, prepared_chunk_size = 0, need_feedback = junk_need_feedback env,
          fb_reads = 0, fb_writes = [0], reg_writes = []\<rparr>)"

text \<open>
  The result, the driver's state and the handle's reference count. The three labels of the
  clean-up code are the three failing branches; the last one does not undo
  \<open>exanic_retain_handle\<close>.
\<close>

definition exanic_acquire_tx_buffer ::
    "'s ioctl_fun \<Rightarrow> tx_env \<Rightarrow> exanic_t \<Rightarrow> 's \<Rightarrow> int \<Rightarrow> int \<Rightarrow> nat \<Rightarrow> ((exanic_err + exanic_tx) \<times> 's \<times> int) option" where
  "exanic_acquire_tx_buffer ioctl env ex s ref_count port_number requested_size =
     (if port_number < 0 \<or> int (num_ports ex) \<le> port_number then Some (Inl Err_invalid_port_number, s, ref_count)
      else if \<not> exanic_port_tx_usable ex port_number then Some (Inl Err_port_no_tx, s, ref_count)
      else if exanic_port_enabled ex port_number = 0 then Some (Inl Err_port_not_enabled, s, ref_count)
      else
        let region_size = (if requested_size = 0 then DEFAULT_TX_BUFFER_SIZE else requested_size)
        in if region_size mod PAGE_SIZE \<noteq> 0 then Some (Inl Err_tx_size_not_page_multiple, s, ref_count)
           else if \<not> malloc_ok env then Some (Inl Err_no_memory, s, ref_count)
           else case exanic_alloc_tx_buffer ioctl s port_number region_size of
                  None \<Rightarrow> None
                | Some (None, s1) \<Rightarrow> Some (Inl Err_ioctl_failed, s1, ref_count)
                | Some (Some off, s1) \<Rightarrow>
                    (case exanic_alloc_tx_feedback_slot ioctl s1 port_number of
                       None \<Rightarrow> None
                     | Some (None, s2) \<Rightarrow>
                         (case exanic_free_tx_buffer ioctl s2 port_number region_size off of
                            None \<Rightarrow> None
                          | Some (_, s3) \<Rightarrow> Some (Inl Err_ioctl_failed, s3, ref_count))
                     | Some (Some slot, s2) \<Rightarrow>
                         if \<not> calloc_ok env
                         then (case exanic_free_tx_feedback_slot ioctl s2 port_number slot of
                                 None \<Rightarrow> None
                               | Some (_, s3) \<Rightarrow>
                                   (case exanic_free_tx_buffer ioctl s3 port_number region_size off of
                                      None \<Rightarrow> None
                                    | Some (_, s4) \<Rightarrow> Some (Inl Err_no_memory, s4, ref_count + 1)))
                         else Some (Inr (new_tx env port_number region_size off slot), s2, ref_count + 1)))"

definition exanic_release_tx_buffer ::
    "'s ioctl_fun \<Rightarrow> 's \<Rightarrow> int \<Rightarrow> exanic_tx \<Rightarrow> ('s \<times> int) option" where
  "exanic_release_tx_buffer ioctl s ref_count tx =
     (case exanic_free_tx_buffer ioctl s (tx_port_number tx) (unat (buffer_size tx)) (unat (buffer_offset tx)) of
        None \<Rightarrow> None
      | Some (_, s1) \<Rightarrow>
          (case exanic_free_tx_feedback_slot ioctl s1 (tx_port_number tx) (nat (feedback_slot tx)) of
             None \<Rightarrow> None
           | Some (_, s2) \<Rightarrow> Some (s2, ref_count - 1)))"

subsection \<open>The driver as seen by the library\<close>

record tx_view =
  taken_pages :: "nat set"
  my_pages :: "nat set"
  taken_slots :: "nat set"
  my_slots :: "nat set"

definition page_range :: "nat \<Rightarrow> nat \<Rightarrow> nat set" where
  "page_range off sz = {off div PAGE_SIZE ..< off div PAGE_SIZE + sz div PAGE_SIZE}"

definition take_pages :: "nat set \<Rightarrow> tx_view \<Rightarrow> tx_view" where
  "take_pages P v = v\<lparr>taken_pages := taken_pages v \<union> P, my_pages := my_pages v \<union> P\<rparr>"

definition drop_pages :: "nat set \<Rightarrow> tx_view \<Rightarrow> tx_view" where
  "drop_pages P v = v\<lparr>taken_pages := taken_pages v - (P \<inter> my_pages v), my_pages := my_pages v - P\<rparr>"

definition take_slot :: "nat \<Rightarrow> tx_view \<Rightarrow> tx_view" where
  "take_slot k v = v\<lparr>taken_slots := insert k (taken_slots v), my_slots := insert k (my_slots v)\<rparr>"

definition drop_slot :: "nat \<Rightarrow> tx_view \<Rightarrow> tx_view" where
  "drop_slot k v = v\<lparr>taken_slots := taken_slots v - ({k} \<inter> my_slots v), my_slots := my_slots v - {k}\<rparr>"

lemmas view_defs = take_pages_def drop_pages_def take_slot_def drop_slot_def

definition view_ok :: "tx_view \<Rightarrow> bool" where
  "view_ok v \<longleftrightarrow> my_pages v \<subseteq> taken_pages v \<and> my_slots v \<subseteq> taken_slots v"

text \<open>Giving back what was just taken restores the view.\<close>

lemma drop_take [simp]:
  "view_ok v \<Longrightarrow> P \<inter> taken_pages v = {} \<Longrightarrow> drop_pages P (take_pages P v) = v"
  "view_ok v \<Longrightarrow> k \<notin> taken_slots v \<Longrightarrow> drop_slot k (take_slot k v) = v"
  by (cases v; auto simp: view_ok_def view_defs)+

lemma take_commute: "drop_slot k (drop_pages P v) = drop_pages P (drop_slot k v)"
  "take_slot k (take_pages P v) = take_pages P (take_slot k v)"
  by (simp_all add: view_defs)

lemma drop_other:
  "drop_pages P (take_slot k v) = take_slot k (drop_pages P v)" "view_ok v \<Longrightarrow> view_ok (take_pages P v)"
  "taken_slots (take_pages P v) = taken_slots v" "my_slots (take_pages P v) = my_slots v"
  "taken_pages (take_slot k v) = taken_pages v" "my_pages (take_slot k v) = my_pages v"
  by (auto simp: view_defs view_ok_def)

locale tx_kernel =
  fixes ioctl :: "'s ioctl_fun" and ok :: "'s \<Rightarrow> bool" and view :: "'s \<Rightarrow> tx_view" and ports :: nat
  assumes view_ok: "ok s \<Longrightarrow> view_ok (view s)"
    and buffer_alloc: "\<lbrakk>ok s; p < ports; sz mod PAGE_SIZE = 0\<rbrakk> \<Longrightarrow>
      \<exists>r s'. ioctl s (TX_BUFFER_ALLOC p sz) = Some (r, s') \<and> ok s' \<and>
        ((\<exists>x. r = Inl x) \<and> view s' = view s \<or>
         (\<exists>off. r = Inr (Reply_offset off) \<and> off mod PAGE_SIZE = 0 \<and> off + sz \<le> 512 * PAGE_SIZE \<and>
            page_range off sz \<inter> taken_pages (view s) = {} \<and> view s' = take_pages (page_range off sz) (view s)))"
    and buffer_free: "\<lbrakk>ok s; p < ports; sz mod PAGE_SIZE = 0; off mod PAGE_SIZE = 0; off + sz \<le> 512 * PAGE_SIZE\<rbrakk> \<Longrightarrow>
      \<exists>s'. ioctl s (TX_BUFFER_FREE p sz off) = Some (Inr Reply_none, s') \<and> ok s' \<and>
        view s' = drop_pages (page_range off sz) (view s)"
    and feedback_alloc: "\<lbrakk>ok s; p < ports\<rbrakk> \<Longrightarrow>
      \<exists>r s'. ioctl s (TX_FEEDBACK_ALLOC p) = Some (r, s') \<and> ok s' \<and>
        ((\<exists>x. r = Inl x) \<and> view s' = view s \<or>
         (\<exists>k. r = Inr (Reply_slot k) \<and> k < 256 \<and> k \<notin> taken_slots (view s) \<and> view s' = take_slot k (view s)))"
    and feedback_free: "\<lbrakk>ok s; p < ports; k < 256\<rbrakk> \<Longrightarrow>
      \<exists>s'. ioctl s (TX_FEEDBACK_FREE p k) = Some (Inr Reply_none, s') \<and> ok s' \<and> view s' = drop_slot k (view s)"
begin

lemma free_tx_buffer:
  assumes "ok s" "nat p < ports" "sz mod PAGE_SIZE = 0" "off mod PAGE_SIZE = 0" "off + sz \<le> 512 * PAGE_SIZE"
  obtains s' where "exanic_free_tx_buffer ioctl s p sz off = Some (True, s')" "ok s'"
    "view s' = drop_pages (page_range off sz) (view s)"
  using buffer_free [OF assms] by (auto simp: exanic_free_tx_buffer_def)

lemma free_tx_slot:
  assumes "ok s" "nat p < ports" "k < 256"
  obtains s' where "exanic_free_tx_feedback_slot ioctl s p k = Some (True, s')" "ok s'"
    "view s' = drop_slot k (view s)"
  using feedback_free [OF assms] by (auto simp: exanic_free_tx_feedback_slot_def)

text \<open>Acquiring a buffer gives a window and a slot that were free, or changes nothing.\<close>

lemma acquire_cases:
  assumes ok: "ok s" and ports: "num_ports ex \<le> ports"
  obtains (error) x s' rc' where "exanic_acquire_tx_buffer ioctl env ex s rc p rs = Some (Inl x, s', rc')"
      "ok s'" "view s' = view s"
    | (success) off slot s' sz where
      "exanic_acquire_tx_buffer ioctl env ex s rc p rs = Some (Inr (new_tx env p sz off slot), s', rc + 1)"
      "ok s'" "sz = (if rs = 0 then 0x1000 else rs)" "sz mod PAGE_SIZE = 0" "off mod PAGE_SIZE = 0"
      "off + sz \<le> 512 * PAGE_SIZE" "slot < 256" "nat p < ports"
      "page_range off sz \<inter> taken_pages (view s) = {}" "slot \<notin> taken_slots (view s)"
      "view s' = take_slot slot (take_pages (page_range off sz) (view s))"
proof -
  define sz where "sz = (if rs = 0 then 0x1000 else rs)"
  let ?acq = "exanic_acquire_tx_buffer ioctl env ex s rc p rs"
  note acq = exanic_acquire_tx_buffer_def [of ioctl env ex s rc p rs, unfolded Let_def, folded sz_def]
  have bad: "\<exists>x. ?acq = Some (Inl x, s, rc)"
    if "\<not> (\<not> (p < 0 \<or> int (num_ports ex) \<le> p) \<and> exanic_port_tx_usable ex p \<and> exanic_port_enabled ex p \<noteq> 0 \<and>
      sz mod PAGE_SIZE = 0 \<and> malloc_ok env)"
    using that unfolding acq
    by (cases "p < 0 \<or> int (num_ports ex) \<le> p"; cases "exanic_port_tx_usable ex p"; cases "exanic_port_enabled ex p = 0";
        cases "sz mod PAGE_SIZE = 0") simp_all
  show thesis
  proof (cases "\<not> (p < 0 \<or> int (num_ports ex) \<le> p) \<and> exanic_port_tx_usable ex p \<and> exanic_port_enabled ex p \<noteq> 0 \<and>
      sz mod PAGE_SIZE = 0 \<and> malloc_ok env")
    case False
    from bad [OF False] show thesis using ok by (elim exE) (rule error, simp_all)
  next
    case True
    then have 2: "0 \<le> p" "p < int (num_ports ex)" "sz mod PAGE_SIZE = 0" "malloc_ok env"
      "exanic_port_tx_usable ex p" "exanic_port_enabled ex p \<noteq> 0" by auto
    note c = 2
    have p: "nat p < ports" using 2(1,2) ports by linarith
    from buffer_alloc [OF ok p 2(3)] show thesis
    proof (elim exE conjE)
    fix r s1
    assume 1: "ioctl s (TX_BUFFER_ALLOC (nat p) sz) = Some (r, s1)" "ok s1"
      and d: "(\<exists>x. r = Inl x) \<and> view s1 = view s \<or> (\<exists>off. r = Inr (Reply_offset off) \<and> off mod PAGE_SIZE = 0 \<and> off + sz \<le> 512 * PAGE_SIZE \<and>
        page_range off sz \<inter> taken_pages (view s) = {} \<and> view s1 = take_pages (page_range off sz) (view s))"
    from d show thesis
    proof (elim disjE exE conjE)
      fix x assume "r = Inl x" "view s1 = view s"
      then show thesis using 1 c
        by (intro error [of Err_ioctl_failed s1 rc]) (simp_all add: acq exanic_alloc_tx_buffer_def Let_def)
    next
      fix off assume r: "r = Inr (Reply_offset off)" and off: "off mod PAGE_SIZE = 0" "off + sz \<le> 512 * PAGE_SIZE"
        and fr: "page_range off sz \<inter> taken_pages (view s) = {}" and v1: "view s1 = take_pages (page_range off sz) (view s)"
      have ab: "exanic_alloc_tx_buffer ioctl s p sz = Some (Some off, s1)"
        using 1(1) r by (simp add: exanic_alloc_tx_buffer_def)
      have vok: "view_ok (view s)" using ok by (rule view_ok)
      from feedback_alloc [OF 1(2) p] show thesis
      proof (elim exE conjE)
      fix r2 s2
      assume 2: "ioctl s1 (TX_FEEDBACK_ALLOC (nat p)) = Some (r2, s2)" "ok s2"
        and d2: "(\<exists>x. r2 = Inl x) \<and> view s2 = view s1 \<or>
          (\<exists>k. r2 = Inr (Reply_slot k) \<and> k < 256 \<and> k \<notin> taken_slots (view s1) \<and> view s2 = take_slot k (view s1))"
      from d2 show thesis
      proof (elim disjE exE conjE)
        fix x assume r2: "r2 = Inl x" "view s2 = view s1"
        obtain s3 where "exanic_free_tx_buffer ioctl s2 p sz off = Some (True, s3)" "ok s3"
          "view s3 = drop_pages (page_range off sz) (view s2)"
          using free_tx_buffer [OF 2(2) p c(3) off] by blast
        then show thesis using 2 r2 c ab v1 vok fr
          by (intro error [of Err_ioctl_failed s3 rc])
            (simp_all add: acq exanic_alloc_tx_feedback_slot_def Let_def)
      next
        fix k assume r2: "r2 = Inr (Reply_slot k)" "k < 256" and k: "k \<notin> taken_slots (view s1)" "view s2 = take_slot k (view s1)"
        have as: "exanic_alloc_tx_feedback_slot ioctl s1 p = Some (Some k, s2)"
          using 2(1) r2 by (simp add: exanic_alloc_tx_feedback_slot_def)
        show thesis
        proof (cases "calloc_ok env")
          case True
          then have "?acq = Some (Inr (new_tx env p sz off k), s2, rc + 1)"
            using c ab as by (simp add: acq Let_def)
          then show thesis using 2(2) c(3) off r2(2) p fr k v1 sz_def
            by (intro success) (simp_all add: drop_other)
        next
          case False
          obtain s3 where 3: "exanic_free_tx_feedback_slot ioctl s2 p k = Some (True, s3)" "ok s3"
            "view s3 = drop_slot k (view s2)"
            using free_tx_slot [OF 2(2) p r2(2)] by blast
          obtain s4 where 4: "exanic_free_tx_buffer ioctl s3 p sz off = Some (True, s4)" "ok s4"
            "view s4 = drop_pages (page_range off sz) (view s3)"
            using free_tx_buffer [OF 3(2) p c(3) off] by blast
          have "view_ok (view s1)" using 1(2) by (rule view_ok)
          then have "view s4 = view s" using 3(3) 4(3) k v1 vok fr by simp
          then show thesis using False 3(1) 4(1,2) c ab as
            by (intro error [of Err_no_memory s4 "rc + 1"]) (simp_all add: acq Let_def)
        qed
      qed
      qed
    qed
    qed
  qed
qed

text \<open>Releasing a handle gives back its window and its slot.\<close>

lemma release:
  assumes "ok s" "nat (tx_port_number tx) < ports" "unat (buffer_size tx) mod PAGE_SIZE = 0"
    "unat (buffer_offset tx) mod PAGE_SIZE = 0" "unat (buffer_offset tx) + unat (buffer_size tx) \<le> 512 * PAGE_SIZE"
    "nat (feedback_slot tx) < 256"
  obtains s' where "exanic_release_tx_buffer ioctl s rc tx = Some (s', rc - 1)" "ok s'"
    "view s' = drop_slot (nat (feedback_slot tx))
       (drop_pages (page_range (unat (buffer_offset tx)) (unat (buffer_size tx))) (view s))"
proof -
  obtain s1 where 1: "exanic_free_tx_buffer ioctl s (tx_port_number tx) (unat (buffer_size tx)) (unat (buffer_offset tx)) = Some (True, s1)"
    "ok s1" "view s1 = drop_pages (page_range (unat (buffer_offset tx)) (unat (buffer_size tx))) (view s)"
    using free_tx_buffer [OF assms(1-5)] by blast
  obtain s2 where 2: "exanic_free_tx_feedback_slot ioctl s1 (tx_port_number tx) (nat (feedback_slot tx)) = Some (True, s2)"
    "ok s2" "view s2 = drop_slot (nat (feedback_slot tx)) (view s1)"
    using free_tx_slot [OF 1(2) assms(2,6)] by blast
  show thesis by (rule that [of s2]) (use 1 2 in \<open>simp_all add: exanic_release_tx_buffer_def\<close>)
qed

end

end
