(* ===== verification/TxLive.thy ===== *)
theory TxLive
  imports TxProps
begin

text \<open>
  Why the transmit path does not wait for ever. The card reports only chunks whose
  feedback was requested, so waiting ends only if enough space lies behind the last
  request. \<open>tx_live\<close> is the invariant \<open>exanic_prepare_tx_chunk\<close> keeps to make that true, with
  its limit of half the window minus the feedback interval; the last section shows what
  happens when a rejected frame breaks it.
\<close>

definition tx_live :: "exanic_tx \<Rightarrow> ghost \<Rightarrow> bool" where
  "tx_live tx g \<longleftrightarrow> 4096 dvd bsize tx \<and> 0 < bsize tx \<and>
     gf g \<le> gq g \<and> gn g \<le> gq g + qlen tx div 2 + 1 \<and>
     (gr g \<le> gq g \<and> noff tx \<le> gen g (gq g) + FEEDBACK_INTERVAL \<or>
      gr g = gn g \<and> noff tx = 0 \<and> bsize tx div 2 - FEEDBACK_INTERVAL \<le> gen g (gq g))"

lemma max_chunk:
  assumes "4096 dvd bsize tx" "0 < bsize tx"
  shows "exanic_max_tx_chunk_size tx = bsize tx div 2 - 512" "4096 \<le> bsize tx"
    "64 dvd exanic_max_tx_chunk_size tx"
proof -
  show B: "4096 \<le> bsize tx" using assms by (rule dvd_imp_le)
  have "unat (buffer_size tx div 2) = bsize tx div 2" by (simp add: unat_div)
  then show m: "exanic_max_tx_chunk_size tx = bsize tx div 2 - 512"
    using B by (simp add: exanic_max_tx_chunk_size_def unat_sub word_le_nat_alt)
  obtain k where "bsize tx = 4096 * k" using assms(1) by (elim dvdE)
  then have "bsize tx div 2 - 512 = 64 * (32 * k - 8)" by simp
  then show "64 dvd exanic_max_tx_chunk_size tx" unfolding m by simp
qed

lemma align_le:
  assumes "cs \<le> m" "64 dvd m" "cs < 2 ^ 62"
  shows "CACHE_ALIGN cs \<le> m"
proof -
  obtain k where k: "m = 64 * k" using assms(2) by (elim dvdE)
  have "CACHE_ALIGN cs = (cs + 63) div 64 * 64"
    using assms(3) by (simp add: CACHE_ALIGN_def sz_add_small)
  moreover have "(cs + 63) div 64 \<le> k" using assms(1) k by linarith
  ultimately show ?thesis using k by simp
qed

text \<open>The card answers what was requested, and at the latest from its \<open>T\<close>-th read on.\<close>

definition answers :: "(nat \<Rightarrow> nat) \<Rightarrow> nat \<Rightarrow> ghost \<Rightarrow> bool" where
  "answers hh T g \<longleftrightarrow> mono hh \<and> (\<forall>k. hh k \<le> gq g) \<and> (\<forall>k\<ge>T. hh k = gq g)"

lemma answers_less:
  assumes "answers hh T g" "tx_inv tx g"
  shows "hh k < gn g"
proof -
  have "hh k \<le> gq g" "gq g < gn g"
    using assms by (auto simp: answers_def tx_inv_def tx_seqs_def)
  then show ?thesis by simp
qed

lemma wait_seq_live:
  "\<lbrakk>tx_inv tx g; gn g \<le> gq g + qlen tx div 2 + 1; gf g \<le> hh (fb_reads tx); answers hh T g;
    T - fb_reads tx + (if gf g = gq g then 0 else 1) < fuel\<rbrakk> \<Longrightarrow>
   \<exists>tx'. wait_seq fuel (\<lambda>k. of_nat (hh k)) tx = Some (Inr (), tx')"
proof (induction fuel arbitrary: tx g)
  case (Suc fuel)
  have sh: "tx_shape tx" and sq: "tx_seqs tx g" using Suc.prems(1) by (simp_all add: tx_inv_def)
  have "gf g \<le> gn g" "gn g - gf g < 2 ^ 16"
    using sq qlen_bounds(2) [OF sh] by (auto simp: tx_seqs_def)
  then have "unat (next_seq tx - feedback_seq tx) = gn g - gf g"
    using sq seq_diff by (simp add: tx_seqs_def)
  then have full: "queue_len tx \<le> uint (next_seq tx - feedback_seq tx) \<longleftrightarrow> gf g + qlen tx \<le> gn g"
    using le_queue_len(2) [OF sh, of "gn g - gf g"] sq by (auto simp: tx_seqs_def uint_nat)
  show ?case
  proof (cases "gf g + qlen tx \<le> gn g")
    case False
    with full show ?thesis by simp
  next
    case True
    let ?k = "fb_reads tx"
    let ?tx = "tx\<lparr>fb_reads := Suc ?k, feedback_seq := of_nat (hh ?k)\<rparr>" and ?g = "g\<lparr>gf := hh ?k\<rparr>"
    note up = update_feedback_ok [where hh = hh, OF Suc.prems(1,3) answers_less [OF Suc.prems(4,1)]]
    have nq: "gf g \<noteq> gq g" using True Suc.prems(2) qlen_bounds(1) [OF sh] by linarith
    have "T - Suc ?k + (if hh ?k = gq g then 0 else 1) < fuel"
      using Suc.prems(4,5) nq by (cases "T \<le> ?k") (auto simp: answers_def)
    moreover have "hh ?k \<le> hh (Suc ?k)" "answers hh T ?g"
      using Suc.prems(4) by (auto simp: answers_def mono_def)
    ultimately have "\<exists>tx'. wait_seq fuel (\<lambda>k. of_nat (hh k)) ?tx = Some (Inr (), tx')"
      using Suc.prems(2) by (intro Suc.IH [OF up(2)]) auto
    then show ?thesis using True full up(1) by simp
  qed
qed simp

text \<open>With the last request answered there is room, after a wrap if need be.\<close>

lemma try_space_live:
  assumes inv: "tx_inv tx g" and live: "tx_live tx g" and al: "al \<le> bsize tx div 2 - FEEDBACK_INTERVAL"
    and t: "try_space al tx = (b, tx1)"
  shows "(gf g = gq g \<longrightarrow> b) \<and> (\<exists>g1. tx_inv tx1 g1 \<and> same_chunks g g1 \<and> gf g1 = gf g \<and>
    same_window tx tx1 \<and> fb_reads tx1 = fb_reads tx \<and> (b \<longleftrightarrow> tx_fits tx1 g1 al) \<and> tx_live tx1 g1)"
proof -
  have B: "4096 \<le> bsize tx" "bsize tx < 2 ^ 22"
    using live inv max_chunk(2) by (auto simp: tx_live_def tx_inv_def tx_shape_def)
  then have "al < 2 ^ 63" using al by simp
  from try_space_inv [OF inv this t] obtain g1 where
    g1: "tx_inv tx1 g1" "same_chunks g g1" "gf g1 = gf g" "same_window tx tx1"
      "fb_reads tx1 = fb_reads tx" "b \<longleftrightarrow> tx_fits tx1 g1 al" and
    or: "g1 = g \<and> tx1 = tx \<and> (b \<or> gf g < gr g) \<or>
      gr g \<le> gf g \<and> bsize tx < noff tx + al \<and> gr g1 = gn g \<and> noff tx1 = 0" by blast
  have lt: "gf g < gn g" "gp g \<le> gf g" using inv by (auto simp: tx_inv_def tx_seqs_def)
  have fB: "gen g (gf g) \<le> bsize tx"
    using inv lt by (auto simp: tx_inv_def intro: tx_layoutD(5))
  consider (same) "g1 = g" "tx1 = tx" "b \<or> gf g < gr g"
    | (wrap) "gr g \<le> gf g" "bsize tx < noff tx + al" "gr g1 = gn g" "noff tx1 = 0"
    using or by argo
  then show ?thesis
  proof cases
    case same
    have "b" if "gf g = gq g"
    proof (rule ccontr)
      assume "\<not> b"
      with same live that have "noff tx = 0" "al \<le> gen g (gf g)"
        using al by (auto simp: tx_live_def)
      with fB same g1(6) \<open>\<not> b\<close> show False by (simp add: tx_fits_def)
    qed
    with same g1 live show ?thesis by blast
  next
    case wrap
    then have "gr g \<le> gq g" "noff tx \<le> gen g (gq g) + 512"
      using live lt by (auto simp: tx_live_def)
    then have q: "bsize tx div 2 \<le> gen g (gq g)" using wrap(2) al B by linarith
    have gen: "gen g1 = gen g" "gn g1 = gn g" "gq g1 = gq g" "bsize tx1 = bsize tx" "qlen tx1 = qlen tx"
      using g1(2,4) by (simp_all add: same_chunks_def same_window_def)
    have "tx_live tx1 g1"
      using live wrap q g1(3) unfolding tx_live_def gen by auto
    moreover have "b" if "gf g = gq g"
    proof -
      have "al \<le> gen g (gq g)" "al \<le> bsize tx" using q al B by linarith+
      with that wrap(3,4) lt(1) show ?thesis unfolding g1(6) tx_fits_def gen g1(3) by simp
    qed
    ultimately show ?thesis using g1 by blast
  qed
qed

lemma wait_space_live:
  "\<lbrakk>tx_inv tx g; tx_live tx g; al \<le> bsize tx div 2 - FEEDBACK_INTERVAL;
    gf g \<le> hh (fb_reads tx); answers hh T g;
    T - fb_reads tx + (if gf g = gq g then 0 else 1) < fuel\<rbrakk> \<Longrightarrow>
   \<exists>tx' g'. wait_space fuel (\<lambda>k. of_nat (hh k)) al tx = Some (Inr (), tx') \<and>
     tx_inv tx' g' \<and> same_chunks g g' \<and> same_window tx tx' \<and> tx_fits tx' g' al \<and> tx_live tx' g'"
proof (induction fuel arbitrary: tx g)
  case (Suc fuel)
  obtain b tx1 where t: "try_space al tx = (b, tx1)" by fastforce
  obtain g1 where ready: "gf g = gq g \<longrightarrow> b" and
    g1: "tx_inv tx1 g1" "same_chunks g g1" "gf g1 = gf g" "same_window tx tx1"
      "fb_reads tx1 = fb_reads tx" "b \<longleftrightarrow> tx_fits tx1 g1 al" "tx_live tx1 g1"
    using try_space_live [OF Suc.prems(1,2,3) t] by blast
  show ?case
  proof (cases b)
    case True
    with t g1 show ?thesis by (intro exI [of _ tx1] exI [of _ g1]) simp
  next
    case False
    let ?k = "fb_reads tx"
    let ?tx = "tx1\<lparr>fb_reads := Suc (fb_reads tx1), feedback_seq := of_nat (hh (fb_reads tx1))\<rparr>"
      and ?g = "g1\<lparr>gf := hh (fb_reads tx1)\<rparr>"
    have gq: "gq g1 = gq g" "gn g1 = gn g" and bs: "bsize tx1 = bsize tx" "qlen tx1 = qlen tx"
      using g1(2,4) by (simp_all add: same_chunks_def same_window_def)
    have ans: "answers hh T g1" using Suc.prems(5) gq by (simp add: answers_def)
    have ge: "gf g1 \<le> hh (fb_reads tx1)" using g1(3,5) Suc.prems(4) by simp
    note up = update_feedback_ok [where hh = hh, OF g1(1) ge answers_less [OF ans g1(1)]]
    have "exanic_max_tx_chunk_size tx1 = bsize tx div 2 - 512"
      using g1(7) max_chunk(1) bs by (simp add: tx_live_def)
    then have small: "\<not> exanic_max_tx_chunk_size tx1 < al" using Suc.prems(3) by simp
    have inv': "tx_inv ?tx ?g" by (rule up(2))
    have live': "tx_live ?tx ?g"
      using g1(7) ans unfolding tx_live_def answers_def by simp
    have "T - Suc ?k + (if hh ?k = gq g then 0 else 1) < fuel"
      using Suc.prems(5,6) False ready by (cases "T \<le> ?k") (auto simp: answers_def)
    moreover have "hh ?k \<le> hh (Suc ?k)" "answers hh T ?g"
      using Suc.prems(5) gq by (auto simp: answers_def mono_def)
    ultimately obtain tx' g' where w: "wait_space fuel (\<lambda>k. of_nat (hh k)) al ?tx = Some (Inr (), tx')"
      "tx_inv tx' g'" "same_chunks ?g g'" "same_window ?tx tx'" "tx_fits tx' g' al" "tx_live tx' g'"
      using Suc.IH [OF inv' live' _ _ \<open>answers hh T ?g\<close>] Suc.prems(3) bs gq g1(5) by auto
    have "same_chunks g ?g" "same_window tx ?tx"
      using ge g1 by (simp_all add: same_chunks_def same_window_def)
    with w have "same_chunks g g'" "same_window tx tx'"
      using same_trans(1) [of g ?g g'] same_trans(2) [of tx ?tx tx'] by blast+
    moreover have "wait_space (Suc fuel) (\<lambda>k. of_nat (hh k)) al tx = Some (Inr (), tx')"
      using t False small up(1) w(1) by simp
    ultimately show ?thesis using w by blast
  qed
qed simp

text \<open>The feedback decision keeps the data sent since the last request below the interval.\<close>

lemma send_live:
  assumes inv: "tx_inv tx g" and live: "tx_live tx g" and fit: "tx_fits tx g al"
    and cs: "0 < cs" "cs < 2 ^ 62" "CACHE_ALIGN cs \<le> al" and al: "al < 2 ^ 63"
    and need: "\<not> need_feedback tx \<Longrightarrow> \<not> wants_feedback tx al (gen g (gq g))"
  shows "tx_live (exanic_send_tx_chunk tx cs) (ghost_send g (noff tx) (CACHE_ALIGN cs) (need_feedback tx))"
proof -
  let ?al = "CACHE_ALIGN cs"
  have sh: "tx_shape tx" and sq: "tx_seqs tx g" and ly: "tx_layout tx g"
    using inv by (simp_all add: tx_inv_def)
  have sz: "noff tx + ?al < 2 ^ 32"
    using fit cs(3) sh by (simp add: tx_fits_def tx_shape_def)
  have ord: "gf g \<le> gq g" "gq g < gn g" "gr g \<le> gn g" "gn g \<le> gq g + qlen tx div 2 + 1" "gp g \<le> gf g"
    using live sq by (auto simp: tx_live_def tx_seqs_def)
  show ?thesis
  proof (cases "need_feedback tx")
    case True
    with live ord show ?thesis
      unfolding tx_live_def send_fields [OF sz] by (auto simp: ghost_send_def)
  next
    case False
    from need [OF this] have w: "\<not> wants_feedback tx al (gen g (gq g))" .
    have "gn g - gq g < 2 ^ 16" "gn g - gr g < 2 ^ 16"
      using ord qlen_bounds(2) [OF sh] lap_short [OF inv] by auto
    then have d: "unat (next_seq tx - request_seq tx) = gn g - gq g"
        "unat (next_seq tx - rollover_seq tx) = gn g - gr g"
      using sq ord seq_diff by (simp_all add: tx_seqs_def)
    have "\<not> queue_len tx div 2 < int (gn g - gq g)" "\<not> gn g - gr g < gn g - gq g"
      and b: "sz_sub (sz_add (noff tx) al) (gen g (gq g)) \<le> 512"
      using w d by (simp_all add: wants_feedback_def uint_nat word_less_nat_alt)
    then have q: "gn g - gq g \<le> qlen tx div 2" "gr g \<le> gq g"
      using qlen_bounds(3) [OF sh] ord by linarith+
    have le: "gen g (gq g) \<le> noff tx"
      using gen_mono_current [OF ly q(2), of "gn g - 1 - gq g"] tx_layoutD(6) [OF ly] ord q(2) by auto
    have "noff tx + al < 2 ^ 64" using fit al sh by (simp add: tx_fits_def tx_shape_def)
    then have "noff tx + al \<le> gen g (gq g) + 512"
      using b le by (simp add: sz_add_small sz_sub_small)
    then have "noff tx + ?al \<le> gen g (gq g) + 512" using cs(3) by simp
    with False live ord q show ?thesis
      unfolding tx_live_def send_fields [OF sz] by (auto simp: ghost_send_def)
  qed
qed

lemma prepare_live:
  assumes inv: "tx_inv tx g" and live: "tx_live tx g" and ans: "answers hh T g"
    and h: "gf g \<le> hh (fb_reads tx)" and fuel: "T - fb_reads tx + 1 < fuel"
    and cs: "cs \<le> exanic_max_tx_chunk_size tx"
  obtains tx' g' where
    "exanic_prepare_tx_chunk fuel (\<lambda>k. of_nat (hh k)) tx cs = Some (Inr (noff tx'), tx')"
    "tx_inv tx' g'" "same_chunks g g'" "same_window tx tx'" "tx_fits tx' g' (CACHE_ALIGN cs)"
    "gn g' < gf g' + qlen tx'" "tx_live tx' g'"
    "\<not> need_feedback tx' \<Longrightarrow> \<not> wants_feedback tx' (CACHE_ALIGN cs) (gen g' (gq g'))"
proof -
  let ?fb = "\<lambda>k. of_nat (hh k)" and ?al = "CACHE_ALIGN cs"
  have m: "mono hh" using ans by (simp add: answers_def)
  have mc: "exanic_max_tx_chunk_size tx = bsize tx div 2 - 512" "64 dvd exanic_max_tx_chunk_size tx"
    using max_chunk [of tx] live by (simp_all add: tx_live_def)
  have "bsize tx < 2 ^ 22" using inv by (simp add: tx_inv_def tx_shape_def)
  with cs mc(1) have "cs < 2 ^ 62" by simp
  from align_le [OF cs mc(2) this] have al: "?al \<le> bsize tx div 2 - 512" unfolding mc(1) .
  have nq: "gn g \<le> gq g + qlen tx div 2 + 1" using live by (simp add: tx_live_def)
  have "T - fb_reads tx + (if gf g = gq g then 0 else 1) < fuel" using fuel by simp
  from wait_seq_live [OF inv nq h ans this] obtain tx1 where
    w1: "wait_seq fuel ?fb tx = Some (Inr (), tx1)" ..
  have "\<forall>k. fb_reads tx \<le> k \<and> k < fb_reads tx1 \<longrightarrow> hh k < gn g"
    using answers_less [OF ans inv] by blast
  from wait_seq_inv [OF w1 m inv h this] obtain g1 where g1: "tx_inv tx1 g1" "same_chunks g g1"
    "same_window tx tx1" "gr g1 = gr g" "next_offset tx1 = next_offset tx"
    "gf g1 \<le> hh (fb_reads tx1)" "gn g1 < gf g1 + qlen tx1" by blast
  have eq: "gq g1 = gq g" "gn g1 = gn g" "gen g1 = gen g" "buffer_size tx1 = buffer_size tx"
    "queue_len tx1 = queue_len tx" using g1(2,3) by (simp_all add: same_chunks_def same_window_def)
  have ans1: "answers hh T g1" using ans eq(1) by (simp add: answers_def)
  have "gf g1 \<le> gq g1" using g1(6) ans1 unfolding answers_def by (meson le_trans)
  then have live1: "tx_live tx1 g1" using live unfolding tx_live_def eq g1(4,5) by blast
  have "T - fb_reads tx1 + (if gf g1 = gq g1 then 0 else 1) < fuel"
    using wait_seq_reads [OF w1] fuel by (cases "gf g1 = gq g1") auto
  from wait_space_live [OF g1(1) live1 _ g1(6) ans1 this, of ?al] al eq(4) obtain tx2 g2 where
    w2: "wait_space fuel ?fb ?al tx1 = Some (Inr (), tx2)" and
    g2: "tx_inv tx2 g2" "same_chunks g1 g2" "same_window tx1 tx2" "tx_fits tx2 g2 ?al" "tx_live tx2 g2" by auto
  let ?req = "unat (fb_offset tx (request_seq tx))"
  let ?tx = "tx2\<lparr>need_feedback := wants_feedback tx2 ?al ?req\<rparr>"
  have sq: "tx_seqs tx g" using inv by (simp add: tx_inv_def)
  have "?req = gen g (gq g)"
    using fb_offset_seq [OF inv, of "gq g"] live sq by (simp add: tx_live_def tx_seqs_def)
  then have req: "?req = gen g2 (gq g2)" using g2(2) eq by (simp add: same_chunks_def)
  have wf: "wants_feedback (tx2\<lparr>need_feedback := b\<rparr>) a c = wants_feedback tx2 a c" for b a c
    by (simp add: wants_feedback_def)
  show thesis
  proof (rule that [of ?tx g2])
    show "exanic_prepare_tx_chunk fuel ?fb tx cs = Some (Inr (noff ?tx), ?tx)"
      using w1 w2 by (simp add: exanic_prepare_tx_chunk_def Let_def)
    show "gn g2 < gf g2 + qlen ?tx"
      using g1(7) g2(2,3) by (simp add: same_chunks_def same_window_def)
    show "\<not> wants_feedback ?tx ?al (gen g2 (gq g2))" if "\<not> need_feedback ?tx"
      using that req wf by simp
    show "same_chunks g g2" by (rule same_trans(1) [OF g1(2) g2(2)])
    show "same_window tx ?tx" using same_trans(2) [OF g1(3) g2(3)] by simp
    show "tx_live ?tx g2" using g2(5) by (simp add: tx_live_def)
  qed (use g2 in simp_all)
qed

lemma mtu_val:
  assumes "4096 dvd bsize tx" "0 < bsize tx" "bsize tx < 2 ^ 22"
  shows "exanic_get_tx_mtu tx = exanic_max_tx_chunk_size tx - 10" "10 \<le> exanic_max_tx_chunk_size tx"
  using max_chunk [OF assms(1,2)] assms(3)
  by (simp_all add: exanic_get_tx_mtu_def sz_sub_small)

lemma demo_tx_live: "tx_live demo_tx demo_ghost"
  by (simp add: tx_live_def demo_tx_def demo_ghost_def)

subsection \<open>Waiting for ever\<close>

lemma wait_space_hangs:
  "tx_inv tx g \<Longrightarrow> gf g < gr g \<Longrightarrow> gen g (gf g) < noff tx + al \<Longrightarrow>
    al \<le> exanic_max_tx_chunk_size tx \<Longrightarrow> wait_space fuel (\<lambda>k. of_nat (gf g)) al tx = None"
proof (induction fuel arbitrary: tx)
  case (Suc fuel)
  let ?tx = "tx\<lparr>fb_reads := Suc (fb_reads tx), feedback_seq := of_nat (gf g)\<rparr>"
  have B: "exanic_max_tx_chunk_size tx < 2 ^ 32"
    using unsigned_less [of "buffer_size tx div 2 - of_nat FEEDBACK_INTERVAL", where 'a = nat]
    by (simp add: exanic_max_tx_chunk_size_def)
  obtain b tx1 where t: "try_space al tx = (b, tx1)" by fastforce
  have "al < 2 ^ 63" using Suc.prems(4) B by simp
  from try_space_inv [OF Suc.prems(1) this t] Suc.prems(2,3)
  have "tx1 = tx" "\<not> b" by (auto simp: tx_fits_def)
  moreover have "gf g < gn g" using Suc.prems(1) by (simp add: tx_inv_def tx_seqs_def)
  note up = update_feedback_ok [where hh = "\<lambda>k. gf g", OF Suc.prems(1) le_refl this]
  have "g\<lparr>gf := gf g\<rparr> = g" by simp
  then have "tx_inv ?tx g" using up(2) by simp
  moreover have "exanic_max_tx_chunk_size ?tx = exanic_max_tx_chunk_size tx"
    by (simp add: exanic_max_tx_chunk_size_def)
  ultimately show ?case using t up(1) Suc.IH [of ?tx] Suc.prems by simp
qed simp

lemma wait_seq_free:
  assumes "tx_inv tx g" "gn g < gf g + qlen tx"
  shows "wait_seq (Suc fuel) fb tx = Some (Inr (), tx)"
proof -
  have sh: "tx_shape tx" and sq: "tx_seqs tx g" using assms(1) by (simp_all add: tx_inv_def)
  have "gf g \<le> gn g" "gn g - gf g < 2 ^ 16"
    using sq qlen_bounds(2) [OF sh] by (auto simp: tx_seqs_def)
  then have "unat (next_seq tx - feedback_seq tx) = gn g - gf g"
    using sq seq_diff by (simp add: tx_seqs_def)
  then have "\<not> queue_len tx \<le> uint (next_seq tx - feedback_seq tx)"
    using le_queue_len(2) [OF sh, of "gn g - gf g"] assms(2) sq by (auto simp: tx_seqs_def uint_nat)
  then show ?thesis by simp
qed

text \<open>Eight 64-byte chunks sent in the first lap, the sixth the last one with feedback.\<close>

definition stuck_tx :: exanic_tx where
  "stuck_tx = demo_tx\<lparr>next_offset := 512, feedback_seq := 6, request_seq := 6, rollover_seq := 1,
     next_seq := 9, feedback_offsets := [512, 64, 128, 192, 256, 320, 384, 448]\<rparr>"

definition stuck_ghost :: ghost where
  "stuck_ghost = \<lparr>gn = 9, gf = 6, gq = 6, gr = 1, gp = 0, gst = (\<lambda>s. 64 * (s - 1)),
     gen = (\<lambda>s. if s = 0 then 4096 else 64 * s)\<rparr>"

lemma nat_less_9: "s < (9 :: nat) \<longleftrightarrow> s \<in> {0, 1, 2, 3, 4, 5, 6, 7, 8}"
  by auto

lemma stuck_inv: "tx_inv stuck_tx stuck_ghost"
proof -
  have "\<exists>k::nat. 2 \<le> k \<and> k \<le> 15 \<and> (8::int) = 2 ^ k" by (intro exI [of _ 3]) simp
  then have sh: "tx_shape stuck_tx" by (simp add: tx_shape_def stuck_tx_def demo_tx_def)
  have sq: "tx_seqs stuck_tx stuck_ghost"
    by (auto simp: tx_seqs_def stuck_tx_def stuck_ghost_def demo_tx_def nat_less_9)
  have "tx_layout stuck_tx stuck_ghost"
    by (auto simp: tx_layout_def stuck_tx_def stuck_ghost_def demo_tx_def nat_less_9)
  with sh sq show ?thesis by (simp add: tx_inv_def)
qed

subsection \<open>Properties\<close>

lemma transmit_live:
  assumes inv: "tx_inv tx g" and live: "tx_live tx g" and "prepared_chunk tx = None"
    and len: "length frame \<le> exanic_get_tx_mtu tx"
    and hh: "mono hh" "\<forall>k. hh k \<le> gq g" "\<forall>k\<ge>T. hh k = gq g" "gf g \<le> hh (fb_reads tx)"
    and fuel: "T - fb_reads tx + 2 \<le> fuel"
  shows "\<exists>tx' g'. exanic_transmit_frame fuel (\<lambda>k. of_nat (hh k)) tx frame = Some (Inr (), tx') \<and>
    tx_inv tx' g' \<and> tx_live tx' g' \<and> gn g' = Suc (gn g)"
proof -
  let ?cs = "length frame + 10"
  have mtu: "?cs \<le> exanic_max_tx_chunk_size tx" "exanic_max_tx_chunk_size tx = bsize tx div 2 - 512"
    "bsize tx < 2 ^ 22"
  proof -
    have B: "4096 dvd bsize tx" "0 < bsize tx" "bsize tx < 2 ^ 22"
      using live inv by (simp_all add: tx_live_def tx_inv_def tx_shape_def)
    then show "bsize tx < 2 ^ 22" by simp
    show "exanic_max_tx_chunk_size tx = bsize tx div 2 - 512" by (rule max_chunk(1) [OF B(1,2)])
    show "?cs \<le> exanic_max_tx_chunk_size tx" using len mtu_val [OF B] by linarith
  qed
  then have l: "length frame < 2 ^ 61" "?cs < 2 ^ 62" by simp_all
  have "answers hh T g" "T - fb_reads tx + 1 < fuel" using hh fuel by (simp_all add: answers_def)
  from prepare_live [OF inv live this(1) hh(4) this(2) mtu(1)] obtain tx1 g1 where
    p: "exanic_prepare_tx_chunk fuel (\<lambda>k. of_nat (hh k)) tx ?cs = Some (Inr (noff tx1), tx1)"
    and g1: "tx_inv tx1 g1" "same_chunks g g1" "tx_fits tx1 g1 (CACHE_ALIGN ?cs)"
      "gn g1 < gf g1 + qlen tx1" "tx_live tx1 g1"
      "\<not> need_feedback tx1 \<Longrightarrow> \<not> wants_feedback tx1 (CACHE_ALIGN ?cs) (gen g1 (gq g1))" by metis
  let ?tx = "put_frame tx1 (noff tx1) frame" and ?g = "ghost_send g1 (noff tx1) (CACHE_ALIGN ?cs) (need_feedback tx1)"
  note sf = send_frame_inv [OF g1(1,3,4) l(1) refl]
  have pf: "buffer_size ?tx = buffer_size tx1" "queue_len ?tx = queue_len tx1" "request_seq ?tx = request_seq tx1"
    "rollover_seq ?tx = rollover_seq tx1"
    by (simp_all add: put_frame_def write_header_def buf_write_def)
  have "tx_inv ?tx g1" using sf(2) by (intro put_frame_inv [OF g1(1)])
  moreover have "tx_live ?tx g1" "tx_fits ?tx g1 (CACHE_ALIGN ?cs)"
    using g1(3,5) unfolding tx_live_def tx_fits_def by (simp_all add: pf)
  moreover have "\<not> wants_feedback ?tx (CACHE_ALIGN ?cs) (gen g1 (gq g1))" if "\<not> need_feedback ?tx"
    using g1(6) that by (simp add: wants_feedback_def pf)
  ultimately have "tx_live (exanic_send_tx_chunk ?tx ?cs) (ghost_send g1 (noff ?tx) (CACHE_ALIGN ?cs) (need_feedback ?tx))"
    using l(2) cache_align(4) [OF l(2)] by (intro send_live) auto
  moreover have "gn ?g = Suc (gn g)" using g1(2) by (simp add: ghost_send_def same_chunks_def)
  moreover have "exanic_transmit_frame fuel (\<lambda>k. of_nat (hh k)) tx frame =
      Some (Inr (), exanic_send_tx_chunk ?tx ?cs)"
    using p by (simp add: transmit_frame_steps [OF assms(3) l(1)])
  ultimately show ?thesis using sf(1) by auto
qed



text \<open>
  C35. The size check of \<open>exanic_prepare_tx_chunk\<close> comes after the wrap: rejecting a frame
  above the limit has already reset the next offset and moved the rollover mark, and no
  chunk since the last feedback request is left to free the space behind it. From such a
  state a frame well below the MTU is never sent, however long the call spins and although
  the card has answered every feedback it was asked for.
\<close>

theorem transmit_after_reject_hangs:
  assumes inv: "tx_inv tx g" and "prepared_chunk tx = None" "gr g \<le> gf g" "gf g = gq g"
    and q: "gn g < gf g + qlen tx"
    and big: "length big < 2 ^ 61" "bsize tx < noff tx + CACHE_ALIGN (length big + 10)"
      "exanic_max_tx_chunk_size tx < CACHE_ALIGN (length big + 10)"
    and frame: "gen g (gq g) < CACHE_ALIGN (length frame + 10)"
      "CACHE_ALIGN (length frame + 10) \<le> exanic_max_tx_chunk_size tx" "length frame < 2 ^ 61"
  shows "\<exists>tx'. exanic_transmit_frame 1 (\<lambda>k. of_nat (gq g)) tx big = Some (Inl Err_tx_chunk_too_large, tx') \<and>
    (\<forall>fuel. exanic_transmit_frame fuel (\<lambda>k. of_nat (gq g)) tx' frame = None)"
proof -
  let ?al = "CACHE_ALIGN (length big + 10)" and ?al2 = "CACHE_ALIGN (length frame + 10)"
  obtain b tx1 where t: "try_space ?al tx = (b, tx1)" by fastforce
  have "?al < 2 ^ 63" using big(1) by (intro cache_align) simp
  from try_space_inv [OF inv this t] obtain g1 where
    g1: "tx_inv tx1 g1" "same_chunks g g1" "gf g1 = gf g" "same_window tx tx1" and
    b: "b \<longleftrightarrow> tx_fits tx1 g1 ?al" and
    or: "g1 = g \<and> tx1 = tx \<and> (b \<or> gf g < gr g) \<or> gr g1 = gn g \<and> noff tx1 = 0" by blast
  have nb: "tx1 = tx \<Longrightarrow> g1 = g \<Longrightarrow> \<not> b" using big(2) b by (simp add: tx_fits_def)
  with or assms(3) have w: "gr g1 = gn g" "noff tx1 = 0" by auto
  have lt: "gf g < gn g" using inv by (simp add: tx_inv_def tx_seqs_def)
  have gen: "gen g1 = gen g" "gn g1 = gn g" "gq g1 = gq g"
    and win: "exanic_max_tx_chunk_size tx1 = exanic_max_tx_chunk_size tx" "prepared_chunk tx1 = None"
      "qlen tx1 = qlen tx"
    using g1(2,4) assms(2) by (simp_all add: same_chunks_def same_window_def exanic_max_tx_chunk_size_def)
  have "\<not> b" using b w lt frame(1,2) big(3) assms(4) g1(3) gen by (auto simp: tx_fits_def)
  then have "exanic_prepare_tx_chunk 1 (\<lambda>k. of_nat (gq g)) tx (length big + 10) =
      Some (Inl Err_tx_chunk_too_large, tx1)"
    using wait_seq_free [OF inv q, of 0] t big(3) win(1) by (simp add: exanic_prepare_tx_chunk_def Let_def)
  then have "exanic_transmit_frame 1 (\<lambda>k. of_nat (gq g)) tx big = Some (Inl Err_tx_chunk_too_large, tx1)"
    by (simp add: transmit_frame_steps [OF assms(2) big(1)])
  moreover have "exanic_transmit_frame fuel (\<lambda>k. of_nat (gq g)) tx1 frame = None" for fuel
  proof (cases fuel)
    case (Suc f)
    have "wait_space fuel (\<lambda>k. of_nat (gf g1)) ?al2 tx1 = None"
      using g1(3) gen w lt frame(1,2) assms(4) win(1) by (intro wait_space_hangs [OF g1(1)]) simp_all
    moreover have "wait_seq fuel (\<lambda>k. of_nat (gq g)) tx1 = Some (Inr (), tx1)"
      unfolding Suc using q gen g1(3) win(3) by (intro wait_seq_free [OF g1(1)]) simp
    ultimately show ?thesis
      using g1(3) assms(4)
      by (simp add: transmit_frame_steps [OF win(2) frame(3)] exanic_prepare_tx_chunk_def Let_def)
  qed (simp add: transmit_frame_steps [OF win(2) frame(3)] exanic_prepare_tx_chunk_def)
  ultimately show ?thesis by blast
qed

lemma transmit_after_reject_hangs_witness:
  "\<exists>tx'. exanic_transmit_frame 1 (\<lambda>k. of_nat 6) stuck_tx (replicate 4000 0) = Some (Inl Err_tx_chunk_too_large, tx') \<and>
     (\<forall>fuel. exanic_transmit_frame fuel (\<lambda>k. of_nat 6) tx' (replicate 500 0) = None)"
proof -
  have "\<exists>tx'. exanic_transmit_frame 1 (\<lambda>k. of_nat (gq stuck_ghost)) stuck_tx (replicate 4000 0) =
        Some (Inl Err_tx_chunk_too_large, tx') \<and>
      (\<forall>fuel. exanic_transmit_frame fuel (\<lambda>k. of_nat (gq stuck_ghost)) tx' (replicate 500 0) = None)"
    by (rule transmit_after_reject_hangs [OF stuck_inv])
      (simp_all add: stuck_tx_def demo_tx_def stuck_ghost_def CACHE_ALIGN_def sz_add_small
        exanic_max_tx_chunk_size_def)
  then show ?thesis by (simp add: stuck_ghost_def)
qed

subsection \<open>round_down_pow2\<close>

lemma or_shift_bit:
  "bit (n OR drop_bit k n) i \<longleftrightarrow> bit n i \<or> bit n (i + k)" for n :: u32
  by (simp add: bit_simps add.commute)

lemma round_down_smear:
  fixes n :: u32
  defines "n1 \<equiv> n OR drop_bit 1 n"
  defines "n2 \<equiv> n1 OR drop_bit 2 n1"
  defines "n3 \<equiv> n2 OR drop_bit 4 n2"
  defines "n4 \<equiv> n3 OR drop_bit 8 n3"
  defines "n5 \<equiv> n4 OR drop_bit 16 n4"
  shows "bit n5 i \<longleftrightarrow> (\<exists>j<32. bit n (i + j))"
proof -
  have two: "(\<exists>j<2. P j) \<longleftrightarrow> P 0 \<or> P 1" for P :: "nat \<Rightarrow> bool"
    by (simp add: numeral_2_eq_2 less_Suc_eq disj_commute ex_disj_distrib conj_disj_distribR)
  have 1: "bit n1 i \<longleftrightarrow> (\<exists>j<2. bit n (i + j))" for i
    unfolding n1_def or_shift_bit two by simp
  have dbl: "(\<exists>j<m. bit n (i + j)) \<or> (\<exists>j<m. bit n (i + m + j)) \<longleftrightarrow> (\<exists>j<m + m. bit n (i + j))" for i m
  proof
    assume "\<exists>j<m + m. bit n (i + j)"
    then obtain j where j: "j < m + m" "bit n (i + j)" by blast
    show "(\<exists>j<m. bit n (i + j)) \<or> (\<exists>j<m. bit n (i + m + j))"
    proof (cases "j < m")
      case False
      with j have "j - m < m" "bit n (i + m + (j - m))" by (auto simp: add.assoc)
      then show ?thesis by blast
    qed (use j in blast)
  next
    assume "(\<exists>j<m. bit n (i + j)) \<or> (\<exists>j<m. bit n (i + m + j))"
    then show "\<exists>j<m + m. bit n (i + j)"
    proof
      assume "\<exists>j<m. bit n (i + m + j)"
      then obtain j where "j < m" "bit n (i + (m + j))" by (auto simp: add.assoc)
      then show ?thesis by (intro exI [of _ "m + j"]) simp
    qed (metis trans_less_add1)
  qed
  have 2: "bit n2 i \<longleftrightarrow> (\<exists>j<4. bit n (i + j))" for i
    unfolding n2_def or_shift_bit 1 using dbl [of 2 i] by simp
  have 3: "bit n3 i \<longleftrightarrow> (\<exists>j<8. bit n (i + j))" for i
    unfolding n3_def or_shift_bit 2 using dbl [of 4 i] by simp
  have 4: "bit n4 i \<longleftrightarrow> (\<exists>j<16. bit n (i + j))" for i
    unfolding n4_def or_shift_bit 3 using dbl [of 8 i] by simp
  show ?thesis
    unfolding n5_def or_shift_bit 4 using dbl [of 16 i] by simp
qed

lemma top_bit:
  fixes n :: u32
  assumes "n \<noteq> 0"
  obtains k where "k < 32" "bit n k" "\<And>i. k < i \<Longrightarrow> \<not> bit n i"
proof -
  let ?P = "\<lambda>i. bit n i"
  obtain i where i: "?P i" using assms by (auto simp: bit_eq_iff)
  have b: "\<And>i. ?P i \<Longrightarrow> i \<le> 32" using bit_imp_le_length by fastforce
  show thesis
  proof (rule that)
    show "bit n (Greatest ?P)" using GreatestI_nat [where P = ?P and b = 32, OF i] b by blast
    then show "Greatest ?P < 32" using bit_imp_le_length by fastforce
    show "\<not> bit n j" if "Greatest ?P < j" for j
      using Greatest_le_nat [of ?P j 32] b that by (meson not_le)
  qed
qed

lemma round_down_pow2_spec:
  assumes "n \<noteq> 0"
  shows "\<exists>k<32. round_down_pow2 n = 2 ^ k \<and> 2 ^ k \<le> unat n \<and> unat n < 2 ^ Suc k"
proof -
  obtain k where k: "k < 32" "bit n k" "\<And>i. k < i \<Longrightarrow> \<not> bit n i"
    using top_bit [OF assms] by blast
  let ?n1 = "n OR drop_bit 1 n"
  let ?n2 = "?n1 OR drop_bit 2 ?n1"
  let ?n3 = "?n2 OR drop_bit 4 ?n2"
  let ?n4 = "?n3 OR drop_bit 8 ?n3"
  let ?n5 = "?n4 OR drop_bit 16 ?n4"
  have "(\<exists>j<32. bit n (i + j)) \<longleftrightarrow> i \<le> k" for i
  proof
    assume "i \<le> k"
    then show "\<exists>j<32. bit n (i + j)" using k(1,2) by (intro exI [of _ "k - i"]) simp
  qed (metis k(3) le_add1 le_trans not_less)
  then have "bit ?n5 i \<longleftrightarrow> i < Suc k" for i
    unfolding round_down_smear by (simp add: less_Suc_eq_le)
  then have "?n5 = mask (Suc k)"
    using k(1) by (intro bit_word_eqI) (auto simp: bit_mask_iff)
  moreover have "drop_bit 1 (mask (Suc k) :: u32) = mask k"
    using k(1) by (intro bit_word_eqI) (auto simp: bit_simps)
  ultimately have "drop_bit 1 ?n5 = mask k" by simp
  then have "round_down_pow2 n = 2 ^ k"
    unfolding round_down_pow2_def Let_def by (simp add: mask_eq_exp_minus_1)
  moreover have "2 ^ k \<le> unat n"
  proof -
    have "bit (unat n) k" using k(2) by (simp add: bit_unsigned_iff)
    then have "odd (unat n div 2 ^ k)" by (simp add: bit_iff_odd)
    then have "unat n div 2 ^ k \<noteq> 0" by (intro notI) simp
    then show ?thesis by (metis div_less not_less)
  qed
  moreover have "unat n < 2 ^ Suc k"
  proof -
    have "take_bit (Suc k) n = n"
      using k(3) by (intro bit_word_eqI) (metis bit_take_bit_iff less_Suc_eq_le not_le)
    then have "unat n = take_bit (Suc k) (unat n)" by (metis unsigned_take_bit_eq)
    then show ?thesis by (metis take_bit_nat_less_exp)
  qed
  ultimately show ?thesis using k(1) by blast
qed

text \<open>
  \<open>round_down_pow2\<close>, with which \<open>exanic_acquire_tx_buffer\<close> sizes its queue, returns the
  greatest power of two not above its argument, for every non-zero 32-bit argument.
\<close>

theorem round_down_pow2_greatest:
  assumes "n \<noteq> 0"
  shows "\<exists>k<32. round_down_pow2 n = 2 ^ k \<and> 2 ^ k \<le> unat n \<and> unat n < 2 ^ Suc k"
  using assms by (rule round_down_pow2_spec)

lemma round_down_pow2_greatest_witness:
  "\<exists>k<32. round_down_pow2 11 = 2 ^ k \<and> (2 :: nat) ^ k \<le> 11 \<and> 11 < (2 :: nat) ^ Suc k"
  using round_down_pow2_greatest [of 11] by simp

end
