(* ===== verification/KTable.thy ===== *)
theory KTable
  imports KFilter
begin

text \<open>
  What the rule tables of the card must contain, and the proof that programming a bank
  establishes it. The IP and the MAC table differ in their base register, the number of key
  bytes, the slot type and the test of a byte; the locale \<open>rule_table\<close> has these as its
  parameters and the behaviour of the bank update as its law, and it is interpreted for
  both tables.
\<close>

subsection \<open>Table addresses\<close>

lemma push_or_nat: "y < 2 ^ k \<Longrightarrow> push_bit k x OR y = x * 2 ^ k + (y :: nat)"
proof (induction k arbitrary: y)
  case (Suc k)
  have "push_bit (Suc k) x OR y = of_bool (odd y) + 2 * (push_bit k x OR y div 2)"
    by (subst or_nat_rec) (simp add: push_bit_eq_mult)
  also have "push_bit k x OR y div 2 = x * 2 ^ k + y div 2" using Suc.prems by (intro Suc.IH) simp
  finally show ?case using mod_mult_div_eq [of y 2] by (simp add: algebra_simps mod2_eq_if split: if_splits)
qed (simp add: push_bit_eq_mult)

lemma and_7_nat: "n AND 7 = (n :: nat) mod 8"
  using take_bit_eq_mask [of 3 n] by (simp add: take_bit_eq_mod mask_eq_exp_minus_1)

lemma rule_address_val:
  "byte_value < 256 \<Longrightarrow> rule_address byte_number byte_value bank = byte_number * 2048 + byte_value * 8 + bank mod 8"
proof -
  assume v: "byte_value < 256"
  have "push_bit 3 byte_value OR bank mod 8 = byte_value * 2 ^ 3 + bank mod 8"
    by (intro push_or_nat) simp
  moreover have "push_bit 11 byte_number OR (byte_value * 2 ^ 3 + bank mod 8) =
      byte_number * 2 ^ 11 + (byte_value * 2 ^ 3 + bank mod 8)"
    using v mod_less_divisor [of 8 bank] by (intro push_or_nat) simp
  ultimately show ?thesis by (simp add: rule_address_def and_7_nat or.assoc)
qed

lemma rule_address_eq:
  assumes "v < 256" "w < 256" "rule_address i v b = rule_address j w c"
  shows "i = j \<and> v = w \<and> b mod 8 = c mod 8"
proof -
  have d: "x * 8 + y mod 8 = x' * 8 + y' mod 8 \<Longrightarrow> x = x' \<and> y mod 8 = y' mod 8" for x y x' y' :: nat
  proof -
    assume a: "x * 8 + y mod 8 = x' * 8 + y' mod 8"
    have "(x * 8 + y mod 8) div 8 = x" "(x' * 8 + y' mod 8) div 8 = x'" by simp_all
    with a have "x = x'" by simp
    with a show ?thesis by simp
  qed
  have d2: "i * 256 + v = j * 256 + w \<Longrightarrow> i = j \<and> v = w"
  proof -
    assume a: "i * 256 + v = j * 256 + w"
    have "(i * 256 + v) div 256 = i" "(j * 256 + w) div 256 = j" using assms(1,2) by simp_all
    with a have "i = j" by simp
    with a show ?thesis by simp
  qed
  have "i * 2048 + v * 8 + b mod 8 = j * 2048 + w * 8 + c mod 8"
    using assms(3) unfolding rule_address_val [OF assms(1)] rule_address_val [OF assms(2)] .
  then have "(i * 256 + v) * 8 + b mod 8 = (j * 256 + w) * 8 + c mod 8" by simp
  from d [OF this] have "i * 256 + v = j * 256 + w" "b mod 8 = c mod 8" by simp_all
  moreover have "i = j" "v = w" using d2 [OF \<open>i * 256 + v = j * 256 + w\<close>] assms(1,2) by simp_all
  ultimately show ?thesis by simp
qed

lemma rule_address_bound: "i < 16 \<Longrightarrow> v < 256 \<Longrightarrow> rule_address i v b * 4 < 0x20000"
  using mod_less_divisor [of 8 b] by (simp add: rule_address_val)

subsection \<open>Words of a table\<close>

lemma bank_filter_val_bit:
  "bit (bank_filter_val acc bank) k \<longleftrightarrow> k < 32 \<and> acc (bank * 32 + k)"
proof -
  have "bit (fold (\<lambda>n v. if acc n then v OR push_bit (n - b) 1 else v) [b..<b + m] (0 :: u32)) k \<longleftrightarrow>
      k < m \<and> acc (b + k)" if "m \<le> 32" for b m
    using that
  proof (induction m)
    case (Suc m)
    have "bit (push_bit m 1 :: u32) k \<longleftrightarrow> k = m"
      using Suc.prems by (simp add: push_bit_of_1 bit_exp_iff) auto
    with Suc show ?case by (auto simp: bit_or_iff less_Suc_eq)
  qed simp
  then show ?thesis by (simp add: bank_filter_val_def)
qed

lemma fold_writel_regs:
  assumes "\<And>x. x \<in> set xs \<Longrightarrow> addr x = a \<Longrightarrow> val x = c" "(\<exists>x\<in>set xs. addr x = a) \<or> regs_virt e a = c"
  shows "regs_virt (fold (\<lambda>x. writel (val x) (addr x)) xs e) a = c"
  using assms
proof (induction xs arbitrary: e)
  case (Cons x xs)
  from Cons.prems show ?case
    by (simp, intro Cons.IH) (auto simp: regs_writel)
qed simp

lemma fold_writel_same [simp]: "port (fold (\<lambda>x. writel (val x) (addr x)) xs e) = port e"
  by (induction xs arbitrary: e) simp_all

lemma write_rules_pairs:
  "write_rules base nbytes fv bank e =
    fold (\<lambda>x. writel (fv (fst x) (snd x)) (base + rule_address (fst x) (snd x) bank * 4))
      (List.product [0..<nbytes] [0..<256]) e"
proof -
  have "fold (\<lambda>i. fold (\<lambda>v. writel (fv i v) (base + rule_address i v bank * 4)) ws) is e =
      fold (\<lambda>x. writel (fv (fst x) (snd x)) (base + rule_address (fst x) (snd x) bank * 4))
        (List.product is ws) e" for "is" ws
    by (induction "is" arbitrary: e) (simp_all add: fold_map comp_def)
  then show ?thesis by (simp add: write_rules_def)
qed

lemma in_product: "x \<in> set (List.product [0..<n] [0..<m]) \<longleftrightarrow> fst x < n \<and> snd x < m"
  by (simp add: mem_Times_iff)

lemma write_rules_at:
  assumes "i < nbytes" "v < 256" "b mod 8 = bank mod 8"
  shows "regs_virt (write_rules base nbytes fv bank e) (base + rule_address i v b * 4) = fv i v"
proof -
  have "rule_address i v b = rule_address i v bank" using assms by (simp add: rule_address_val)
  then have a: "base + rule_address i v b * 4 = base + rule_address i v bank * 4" by simp
  show ?thesis unfolding write_rules_pairs a
  proof (rule fold_writel_regs)
    fix x
    assume x: "x \<in> set (List.product [0..<nbytes] [0..<256])"
      and "base + rule_address (fst x) (snd x) bank * 4 = base + rule_address i v bank * 4"
    then have "rule_address (fst x) (snd x) bank = rule_address i v bank" by simp
    moreover have "snd x < 256" using x unfolding in_product by simp
    ultimately show "fv (fst x) (snd x) = fv i v"
      using rule_address_eq [of "snd x" v "fst x" bank i bank] assms(2) by simp
  next
    have "(i, v) \<in> set (List.product [0..<nbytes] [0..<256])" using assms by simp
    then show "(\<exists>x\<in>set (List.product [0..<nbytes] [0..<256]).
        base + rule_address (fst x) (snd x) bank * 4 = base + rule_address i v bank * 4) \<or>
      regs_virt e (base + rule_address i v bank * 4) = fv i v" by (intro disjI1 bexI [of _ "(i, v)"]) simp_all
  qed
qed

lemma write_rules_other:
  assumes "\<And>i v. i < nbytes \<Longrightarrow> v < 256 \<Longrightarrow> a \<noteq> base + rule_address i v bank * 4"
  shows "regs_virt (write_rules base nbytes fv bank e) a = regs_virt e a"
  unfolding write_rules_pairs
proof (rule fold_writel_regs)
  fix x
  assume x: "x \<in> set (List.product [0..<nbytes] [0..<256])" "base + rule_address (fst x) (snd x) bank * 4 = a"
  then have "a \<noteq> base + rule_address (fst x) (snd x) bank * 4" unfolding in_product by (intro assms) simp_all
  with x(2) show "fv (fst x) (snd x) = regs_virt e a" by simp
qed simp

lemma write_rules_port [simp]: "port (write_rules base nbytes fv bank e) = port e"
  unfolding write_rules_pairs by simp

lemma write_rules_only:
  "\<exists>r. write_rules base nbytes fv bank e = e\<lparr>regs_virt := r\<rparr>"
proof -
  have "\<exists>r. fold (\<lambda>x. writel (val x) (addr x)) xs e = e\<lparr>regs_virt := r\<rparr>"
    for xs and val :: "nat \<times> nat \<Rightarrow> u32" and addr
  proof (induction xs arbitrary: e)
    case Nil
    have "e = e\<lparr>regs_virt := regs_virt e\<rparr>" by simp
    then show ?case by (metis fold_Nil id_apply)
  next
    case (Cons x xs)
    from Cons.IH [of "writel (val x) (addr x) e"] show ?case by (auto simp: writel_def)
  qed
  then show ?thesis unfolding write_rules_pairs .
qed

subsection \<open>The contents of a table\<close>

text \<open>
  Row \<open>n\<close> of a table is right for slot \<open>s\<close>: bit \<open>n mod 32\<close> of every word of bank \<open>n div 32\<close>
  is the slot's verdict on that byte value.
\<close>

definition row_ok :: "nat \<Rightarrow> nat \<Rightarrow> ('s \<Rightarrow> nat \<Rightarrow> nat \<Rightarrow> bool) \<Rightarrow> 's \<Rightarrow> (nat \<Rightarrow> u32) \<Rightarrow> nat \<Rightarrow> bool" where
  "row_ok base nbytes accepts s r n \<longleftrightarrow>
     (\<forall>i<nbytes. \<forall>v<256. bit (r (base + rule_address i v (n div 32) * 4)) (n mod 32) = accepts s i v)"

definition table_ok ::
    "nat \<Rightarrow> nat \<Rightarrow> ('s \<Rightarrow> nat \<Rightarrow> nat \<Rightarrow> bool) \<Rightarrow> 's list \<Rightarrow> (nat \<Rightarrow> u32) \<Rightarrow> bool" where
  "table_ok base nbytes accepts xs r \<longleftrightarrow> (\<forall>n<length xs. row_ok base nbytes accepts (xs ! n) r n)"

text \<open>Two register spaces that differ inside a window only.\<close>

definition same_outside :: "nat \<Rightarrow> nat \<Rightarrow> (nat \<Rightarrow> u32) \<Rightarrow> (nat \<Rightarrow> u32) \<Rightarrow> bool" where
  "same_outside lo hi r r' \<longleftrightarrow> (\<forall>a. a < lo \<or> hi \<le> a \<longrightarrow> r' a = r a)"

lemma same_outside_refl [simp]: "same_outside lo hi r r"
  by (simp add: same_outside_def)

lemma same_outsideD: "same_outside lo hi r r' \<Longrightarrow> a < lo \<or> hi \<le> a \<Longrightarrow> r' a = r a"
  unfolding same_outside_def by blast

lemma same_outside_trans:
  "same_outside lo hi r r' \<Longrightarrow> same_outside lo hi r' r'' \<Longrightarrow> same_outside lo hi r r''"
  by (simp add: same_outside_def)

text \<open>Two register spaces that agree on a window.\<close>

definition agree :: "nat \<Rightarrow> nat \<Rightarrow> (nat \<Rightarrow> u32) \<Rightarrow> (nat \<Rightarrow> u32) \<Rightarrow> bool" where
  "agree lo hi r r' \<longleftrightarrow> (\<forall>a. lo \<le> a \<and> a < hi \<longrightarrow> r' a = r a)"

lemma agreeD: "agree lo hi r r' \<Longrightarrow> lo \<le> a \<Longrightarrow> a < hi \<Longrightarrow> r' a = r a"
  by (simp add: agree_def)

lemma same_outside_agree:
  "same_outside lo hi r r' \<Longrightarrow> hi \<le> lo' \<or> hi' \<le> lo \<Longrightarrow> agree lo' hi' r r'"
  unfolding agree_def same_outside_def by (meson dual_order.trans less_le_trans)

lemma agree_mono: "agree lo hi r r' \<Longrightarrow> lo \<le> lo' \<Longrightarrow> hi' \<le> hi \<Longrightarrow> agree lo' hi' r r'"
  unfolding agree_def by (meson le_trans less_le_trans)

lemma table_ok_agree:
  assumes "agree base (base + 0x20000) r r'" "nbytes \<le> 16"
  shows "table_ok base nbytes accepts xs r' = table_ok base nbytes accepts xs r"
proof -
  have "r' (base + rule_address i v b * 4) = r (base + rule_address i v b * 4)"
    if "i < nbytes" "v < 256" for i v b
  proof -
    have "rule_address i v b * 4 < 0x20000" using assms(2) that by (intro rule_address_bound) simp_all
    then show ?thesis by (intro agreeD [OF assms(1)]) simp_all
  qed
  then show ?thesis by (simp add: table_ok_def row_ok_def)
qed

locale rule_table =
  fixes reg nbytes :: nat
    and accepts :: "'s \<Rightarrow> nat \<Rightarrow> nat \<Rightarrow> bool"
    and slots :: "exanic_port \<Rightarrow> 's list"
    and update_bank :: "kexanic \<Rightarrow> nat \<Rightarrow> nat \<Rightarrow> kexanic option"
  assumes nbytes: "nbytes \<le> 16"
    and update_bank: "update_bank e p b =
      (if b * 32 + 32 \<le> length (slots (port e p))
       then Some (write_rules (REG_FILTERS_OFFSET p reg) nbytes
              (\<lambda>i v. bank_filter_val (\<lambda>n. accepts (slots (port e p) ! n) i v) b) b e)
       else None)"
begin

abbreviation (input) "base p \<equiv> REG_FILTERS_OFFSET p reg"
abbreviation (input) "rows p \<equiv> row_ok (base p) nbytes accepts"
abbreviation (input) "table p \<equiv> table_ok (base p) nbytes accepts"

lemma update_bank_frame:
  assumes "update_bank e p b = Some e'"
  shows "port e' = port e" "same_outside (base p) (base p + 0x20000) (regs_virt e) (regs_virt e')"
proof -
  have e': "e' = write_rules (base p) nbytes
      (\<lambda>i v. bank_filter_val (\<lambda>n. accepts (slots (port e p) ! n) i v) b) b e"
    using assms by (simp add: update_bank split: if_splits)
  then show "port e' = port e" by simp
  show "same_outside (base p) (base p + 0x20000) (regs_virt e) (regs_virt e')"
    unfolding same_outside_def e'
  proof (intro allI impI)
    fix a assume a: "a < base p \<or> base p + 0x20000 \<le> a"
    have "a \<noteq> base p + rule_address i v b * 4" if "i < nbytes" "v < 256" for i v
      using a rule_address_bound [of i v b] that nbytes by linarith
    then show "regs_virt (write_rules (base p) nbytes
        (\<lambda>i v. bank_filter_val (\<lambda>n. accepts (slots (port e p) ! n) i v) b) b e) a = regs_virt e a"
      by (intro write_rules_other)
  qed
qed

lemma update_bank_only: "update_bank e p b = Some e' \<Longrightarrow> \<exists>r. e' = e\<lparr>regs_virt := r\<rparr>"
  using write_rules_only by (simp add: update_bank split: if_splits) metis

lemma update_banks_only: "update_banks update_bank p bs e = Some e' \<Longrightarrow> \<exists>r. e' = e\<lparr>regs_virt := r\<rparr>"
proof (induction bs arbitrary: e)
  case (Cons b bs)
  from Cons.prems obtain e1 where e1: "update_bank e p b = Some e1" "update_banks update_bank p bs e1 = Some e'"
    by (auto split: option.splits)
  from update_bank_only [OF e1(1)] Cons.IH [OF e1(2)] show ?case by auto
next
  case Nil
  then have "e' = e\<lparr>regs_virt := regs_virt e\<rparr>" by simp
  then show ?case by blast
qed

lemma update_bank_rows:
  assumes "update_bank e p b = Some e'" "n < length (slots (port e p))" "length (slots (port e p)) \<le> 256"
    and "n div 32 \<noteq> b \<Longrightarrow> rows p (slots (port e p) ! n) (regs_virt e) n"
  shows "rows p (slots (port e p) ! n) (regs_virt e') n"
  unfolding row_ok_def
proof (intro allI impI)
  fix i v :: nat assume iv: "i < nbytes" "v < 256"
  let ?fv = "\<lambda>i v. bank_filter_val (\<lambda>n. accepts (slots (port e p) ! n) i v) b"
  have e': "e' = write_rules (base p) nbytes ?fv b e" and b: "b * 32 + 32 \<le> length (slots (port e p))"
    using assms(1) by (simp_all add: update_bank split: if_splits)
  show "bit (regs_virt e' (base p + rule_address i v (n div 32) * 4)) (n mod 32) = accepts (slots (port e p) ! n) i v"
  proof (cases "n div 32 = b")
    case True
    have "regs_virt e' (base p + rule_address i v (n div 32) * 4) = ?fv i v"
      unfolding e' using iv True by (intro write_rules_at) simp_all
    moreover have "b * 32 + n mod 32 = n" using True div_mult_mod_eq [of n 32] by simp
    ultimately show ?thesis by (simp add: bank_filter_val_bit)
  next
    case False
    have "n div 32 < 8" "b < 8" using assms(2,3) b by (simp_all add: less_mult_imp_div_less)
    then have "base p + rule_address i v (n div 32) * 4 \<noteq> base p + rule_address j w b * 4"
      if "w < 256" for j w
      using False rule_address_eq [OF iv(2) that, of i "n div 32" j b] by auto
    then have "regs_virt e' (base p + rule_address i v (n div 32) * 4) =
        regs_virt e (base p + rule_address i v (n div 32) * 4)"
      unfolding e' by (intro write_rules_other)
    with assms(4) [OF False] iv show ?thesis by (simp add: row_ok_def)
  qed
qed

text \<open>Changing one slot and programming its bank keeps the table right.\<close>

lemma update_bank_table:
  assumes "update_bank e p (n div 32) = Some e'" "length (slots (port e p)) \<le> 256"
    and "table p xs (regs_virt e)" "slots (port e p) = xs[n := s]"
  shows "table p (slots (port e' p)) (regs_virt e')"
  unfolding table_ok_def update_bank_frame(1) [OF assms(1)]
proof (intro allI impI)
  fix m assume m: "m < length (slots (port e p))"
  show "rows p (slots (port e p) ! m) (regs_virt e') m"
  proof (rule update_bank_rows [OF assms(1) m assms(2)])
    assume "m div 32 \<noteq> n div 32"
    then have "m \<noteq> n" by auto
    then show "rows p (slots (port e p) ! m) (regs_virt e) m"
      using assms(3,4) m by (simp add: table_ok_def)
  qed
qed

lemma update_bank_total:
  assumes "n < length (slots (port e p))" "32 dvd length (slots (port e p))"
  shows "\<exists>e'. update_bank e p (n div 32) = Some e'"
proof -
  obtain k where k: "length (slots (port e p)) = 32 * k" using assms(2) by (auto elim: dvdE)
  then have "n div 32 < k" using assms(1) by (simp add: less_mult_imp_div_less)
  then have "n div 32 * 32 + 32 \<le> length (slots (port e p))" unfolding k by linarith
  then show ?thesis by (simp add: update_bank)
qed

text \<open>Programming every bank makes the whole table right, whatever it held before.\<close>

lemma update_banks_rows:
  assumes "update_banks update_bank p bs e = Some e'" "length (slots (port e p)) \<le> 256"
  shows "port e' = port e \<and> same_outside (base p) (base p + 0x20000) (regs_virt e) (regs_virt e') \<and>
    (\<forall>n<length (slots (port e p)). n div 32 \<in> set bs \<or> rows p (slots (port e p) ! n) (regs_virt e) n
       \<longrightarrow> rows p (slots (port e p) ! n) (regs_virt e') n)"
  using assms
proof (induction bs arbitrary: e)
  case (Cons b bs)
  from Cons.prems(1) obtain e1 where e1: "update_bank e p b = Some e1" "update_banks update_bank p bs e1 = Some e'"
    by (auto split: option.splits)
  note f = update_bank_frame [OF e1(1)]
  have IH: "port e' = port e1 \<and> same_outside (base p) (base p + 0x20000) (regs_virt e1) (regs_virt e') \<and>
    (\<forall>n<length (slots (port e1 p)). n div 32 \<in> set bs \<or> rows p (slots (port e1 p) ! n) (regs_virt e1) n
       \<longrightarrow> rows p (slots (port e1 p) ! n) (regs_virt e') n)"
    using e1(2) Cons.prems(2) f(1) by (intro Cons.IH) simp_all
  have "rows p (slots (port e p) ! n) (regs_virt e1) n"
    if "n < length (slots (port e p))" "n div 32 = b \<or> rows p (slots (port e p) ! n) (regs_virt e) n" for n
    using that by (intro update_bank_rows [OF e1(1) that(1) Cons.prems(2)]) auto
  with IH f show ?case by (auto intro: same_outside_trans)
qed simp

lemma update_banks_table:
  assumes "update_banks update_bank p [0..<length (slots (port e p)) div 32] e = Some e'"
    "length (slots (port e p)) \<le> 256" "32 dvd length (slots (port e p))"
  shows "table p (slots (port e' p)) (regs_virt e')"
proof -
  obtain k where k: "length (slots (port e p)) = 32 * k" using assms(3) by (auto elim: dvdE)
  have "n div 32 < k" if "n < length (slots (port e p))" for n
    using that k by (simp add: less_mult_imp_div_less)
  with update_banks_rows [OF assms(1,2)] k show ?thesis by (simp add: table_ok_def)
qed

lemma update_banks_total:
  assumes "\<forall>b\<in>set bs. b * 32 + 32 \<le> length (slots (port e p))"
  shows "\<exists>e'. update_banks update_bank p bs e = Some e'"
  using assms
proof (induction bs arbitrary: e)
  case (Cons b bs)
  then obtain e1 where e1: "update_bank e p b = Some e1" by (auto simp: update_bank)
  with Cons update_bank_frame(1) [OF e1] show ?case by simp
qed simp

end

interpretation ip: rule_table REG_FILTER_IP_RULES 13 ip_accepts ip_filter_slots exanic_update_hardware_ip_filter_bank
  by unfold_locales (simp_all add: exanic_update_hardware_ip_filter_bank_def Let_def)

interpretation mac: rule_table REG_FILTER_MAC_RULES 10 mac_accepts mac_filter_slots exanic_update_hardware_mac_filter_bank
  by unfold_locales (simp_all add: exanic_update_hardware_mac_filter_bank_def Let_def)

end
