(* ===== verification/KMatch.thy ===== *)
theory KMatch
  imports KTable
begin

text \<open>
  What a filter means: the fields of a frame it compares, zero being a wildcard. The card
  looks every byte of the frame's key up in the rule table and a filter hits when all its
  bits are set (the documentation of \<open>pcie_if.h\<close>, \<open>Defining a rule\<close>). The lemmas show that
  the bytewise test of the driver is this field-wise comparison.
\<close>

subsection \<open>IP filters\<close>

record ip_key =
  key_protocol :: u8
  key_src :: u32
  key_dst :: u32
  key_sport :: u16
  key_dport :: u16

text \<open>Byte \<open>i\<close> of \<open>{protocol, src_addr, dst_addr, src_port, dst_port}\<close>.\<close>

definition word_byte :: "nat \<Rightarrow> 'w::len word \<Rightarrow> u8" where
  "word_byte i w = ucast (drop_bit (8 * i) w)"

definition ip_key_byte :: "ip_key \<Rightarrow> nat \<Rightarrow> u8" where
  "ip_key_byte k i =
     (if i < 2 then word_byte i (key_dport k)
      else if i < 4 then word_byte (i - 2) (key_sport k)
      else if i < 8 then word_byte (i - 4) (key_dst k)
      else if i < 12 then word_byte (i - 8) (key_src k)
      else key_protocol k)"

definition ip_matches :: "ip_filter_slot \<Rightarrow> ip_key \<Rightarrow> bool" where
  "ip_matches f k \<longleftrightarrow>
     (protocol f = 0 \<or> protocol f = key_protocol k) \<and>
     (src_addr f = 0 \<or> src_addr f = key_src k) \<and>
     (dst_addr f = 0 \<or> dst_addr f = key_dst k) \<and>
     (src_port f = 0 \<or> src_port f = key_sport k) \<and>
     (dst_port f = 0 \<or> dst_port f = key_dport k)"

definition hw_hit :: "nat \<Rightarrow> nat \<Rightarrow> (nat \<Rightarrow> u32) \<Rightarrow> (nat \<Rightarrow> u8) \<Rightarrow> nat \<Rightarrow> bool" where
  "hw_hit base nbytes r key n \<longleftrightarrow>
     list_all (\<lambda>i. bit (r (base + rule_address i (unat (key i)) (n div 32) * 4)) (n mod 32)) [0..<nbytes]"

lemma row_ok_hit:
  "row_ok base nbytes accepts s r n \<Longrightarrow>
    hw_hit base nbytes r key n \<longleftrightarrow> (\<forall>i<nbytes. accepts s i (unat (key i)))"
  using u8_lt by (auto simp: row_ok_def hw_hit_def list_all_iff)

lemma mask_u8 [simp]: "(ucast (x AND 0xFF) :: u8) = ucast (x :: 'w::len word)"
proof -
  have "(0xFF :: 'w word) = mask 8" by (simp add: mask_eq_exp_minus_1)
  then have "x AND 0xFF = take_bit 8 x" by (simp add: take_bit_eq_mask)
  then show ?thesis by (intro bit_word_eqI) (simp add: bit_unsigned_iff bit_take_bit_iff)
qed

lemma and_FF_u8 [simp]: "(x :: u8) AND 0xFF = x"
  using mask_u8 [of x] by simp

text \<open>A word is determined by its bytes.\<close>

lemma word_eq_bytes:
  fixes x y :: "'w::len word"
  assumes "LENGTH('w) = 8 * k"
  shows "x = y \<longleftrightarrow> (\<forall>i<k. word_byte i x = word_byte i y)"
proof
  assume a: "\<forall>i<k. word_byte i x = word_byte i y"
  show "x = y"
  proof (rule bit_word_eqI)
    fix n assume n: "n < LENGTH('w)"
    then have "word_byte (n div 8) x = word_byte (n div 8) y" using a assms by (simp add: less_mult_imp_div_less)
    then have "bit (word_byte (n div 8) x) (n mod 8) = bit (word_byte (n div 8) y) (n mod 8)" by simp
    then show "bit x n = bit y n" using n
      by (simp add: word_byte_def bit_unsigned_iff bit_drop_bit_eq)
  qed
qed simp

lemma all_less_upt: "(\<forall>i<n. P i) \<longleftrightarrow> list_all P [0..<n]"
  by (auto simp: list_all_iff)

lemma upt_bytes: "[0..<2] = [0, 1 :: nat]" "[0..<4] = [0, 1, 2, 3 :: nat]"
  "[0..<10] = [0, 1, 2, 3, 4, 5, 6, 7, 8, 9 :: nat]"
  "[0..<13] = [0, 1, 2, 3, 4, 5, 6, 7, 8, 9, 10, 11, 12 :: nat]"
  by (simp_all add: upt_rec numeral_eq_Suc)

lemma u16_eq_bytes: "(x :: u16) = y \<longleftrightarrow> word_byte 0 x = word_byte 0 y \<and> word_byte 1 x = word_byte 1 y"
  using word_eq_bytes [of 2 x y] by (simp add: all_less_upt upt_bytes)

lemma u32_eq_bytes: "(x :: u32) = y \<longleftrightarrow> word_byte 0 x = word_byte 0 y \<and> word_byte 1 x = word_byte 1 y \<and>
    word_byte 2 x = word_byte 2 y \<and> word_byte 3 x = word_byte 3 y"
  using word_eq_bytes [of 4 x y] by (simp add: all_less_upt upt_bytes)

lemma ip_accepts_all:
  "(\<forall>i<13. ip_accepts f i (unat (ip_key_byte k i))) \<longleftrightarrow> ip_enable f \<and> ip_matches f k"
proof -
  note eqs = u16_eq_bytes [of "dst_port f" "key_dport k"] u16_eq_bytes [of "src_port f" "key_sport k"]
    u32_eq_bytes [of "dst_addr f" "key_dst k"] u32_eq_bytes [of "src_addr f" "key_src k"]
  show ?thesis
    unfolding all_less_upt upt_bytes ip_matches_def eqs
    by (simp add: ip_accepts_def exanic_ip_filter_is_wildcard_field_def exanic_ip_filter_byte_val_check_def
        ip_key_byte_def word_byte_def word_unat_eq_iff [symmetric]) blast
qed

subsection \<open>MAC filters\<close>

record mac_key =
  key_dst_mac :: bytes
  key_ethertype :: u16
  key_vlan :: "u16 option"

text \<open>Byte \<open>i\<close> of \<open>{is_vlan, vlan, ethertype, dst_mac}\<close>; \<open>is_vlan\<close> is bit 4 of byte 9.\<close>

definition mac_key_byte :: "mac_key \<Rightarrow> nat \<Rightarrow> u8" where
  "mac_key_byte k i =
     (if i < 6 then key_dst_mac k ! i
      else if i < 8 then word_byte (i - 6) (key_ethertype k)
      else if i = 8 then (case key_vlan k of None \<Rightarrow> 0 | Some v \<Rightarrow> word_byte 0 v)
      else (case key_vlan k of None \<Rightarrow> 0 | Some v \<Rightarrow> 0x10 OR word_byte 1 v))"

definition mac_matches :: "mac_filter_slot \<Rightarrow> mac_key \<Rightarrow> bool" where
  "mac_matches f k \<longleftrightarrow>
     ((\<forall>i<6. dst_mac f ! i = 0) \<or> (\<forall>i<6. dst_mac f ! i = key_dst_mac k ! i)) \<and>
     (ethertype f = 0 \<or> ethertype f = key_ethertype k) \<and>
     (if vlan_match_method f = EXANIC_VLAN_MATCH_METHOD_ALL then True
      else if vlan_match_method f = EXANIC_VLAN_MATCH_METHOD_SPECIFIC then key_vlan k = Some (vlan f)
      else if vlan_match_method f = EXANIC_VLAN_MATCH_METHOD_NOT_VLAN then key_vlan k = None
      else key_vlan k \<noteq> None)"

text \<open>VLAN identifiers have 12 bits, in frames and in filters; the methods are the four declared ones.\<close>

definition vlan_ok :: "mac_filter_slot \<Rightarrow> mac_key \<Rightarrow> bool" where
  "vlan_ok f k \<longleftrightarrow> unat (vlan f) < 0x1000 \<and> unat (vlan_match_method f) < 4 \<and>
     (case key_vlan k of None \<Rightarrow> True | Some v \<Rightarrow> unat v < 0x1000)"

lemma vlan_byte_1: "unat (v :: u16) < 0x1000 \<Longrightarrow> unat (0x10 OR word_byte 1 v) = 16 + unat v div 256"
proof -
  assume v: "unat v < 0x1000"
  then have b: "unat v div 256 < 16" by (simp add: less_mult_imp_div_less)
  then have "unat (word_byte 1 v) = unat v div 256"
    by (simp add: word_byte_def unat_ucast_mod unat_drop_bit_eq drop_bit_eq_div [where 'a = nat])
  moreover have "(16 :: nat) OR m = 16 + m" if "m < 16" for m :: nat
    using push_or_nat [of m 4 1] that by (simp add: push_bit_eq_mult)
  ultimately show ?thesis using b by (simp add: unsigned_or_eq)
qed

lemma vlan_specific:
  "unat (v :: u16) < 0x1000 \<Longrightarrow> unat ((0x10 OR drop_bit 8 (ucast v :: u32)) AND 0xFF) = 16 + unat v div 256"
proof -
  assume v: "unat v < 0x1000"
  then have b: "unat v div 256 < 16" by (simp add: less_mult_imp_div_less)
  have "unat (drop_bit 8 (ucast v :: u32)) = unat v div 256"
    using v by (simp add: unat_ucast_mod unat_drop_bit_eq drop_bit_eq_div [where 'a = nat])
  moreover have "(16 :: nat) OR m = 16 + m" if "m < 16" for m :: nat
    using push_or_nat [of m 4 1] that by (simp add: push_bit_eq_mult)
  ultimately have "unat (0x10 OR drop_bit 8 (ucast v :: u32)) = 16 + unat v div 256"
    using b by (simp add: unsigned_or_eq)
  moreover have "unat (x AND 0xFF) = unat x mod 256" for x :: u32
    using and_mask_mod [of x 8] by simp
  ultimately show ?thesis using b by (simp only:) simp
qed

lemma and_16: "m < 16 \<Longrightarrow> (16 + m) AND 16 \<noteq> (0 :: nat)"
proof -
  have "list_all (\<lambda>m. (16 + m) AND 16 \<noteq> (0 :: nat)) [0..<16]" by code_simp
  then show "m < 16 \<Longrightarrow> (16 + m) AND 16 \<noteq> (0 :: nat)" unfolding all_less_upt [symmetric] by blast
qed

lemma mac_accepts_all:
  assumes "vlan_ok f k"
  shows "(\<forall>i<10. mac_accepts f i (unat (mac_key_byte k i))) \<longleftrightarrow> mac_enable f \<and> mac_matches f k"
proof -
  define m where "m = unat (vlan f)"
  have v: "unat (vlan f) < 0x1000" using assms by (simp add: vlan_ok_def)
  have vm: "vlan_match_method f \<in> {0, 1, 2, 3}"
  proof -
    obtain n where n: "vlan_match_method f = of_nat n" "n < 4"
    proof
      show "vlan_match_method f = of_nat (unat (vlan_match_method f))" by simp
      show "unat (vlan_match_method f) < 4" using assms by (simp add: vlan_ok_def)
    qed
    then have "n = 0 \<or> n = 1 \<or> n = 2 \<or> n = 3" by linarith
    then show ?thesis unfolding n(1) by (elim disjE) simp_all
  qed
  have six: "(\<forall>i<6. P i) \<longleftrightarrow> P 0 \<and> P 1 \<and> P 2 \<and> P 3 \<and> P 4 \<and> P (5 :: nat)" for P
    unfolding all_less_upt by (simp add: upt_rec numeral_eq_Suc)
  let ?b = "\<lambda>i. mac_accepts f i (unat (mac_key_byte k i))"
  have macs: "(?b 0 \<and> ?b 1 \<and> ?b 2 \<and> ?b 3 \<and> ?b 4 \<and> ?b 5) \<longleftrightarrow>
      mac_enable f \<and> ((\<forall>i<6. dst_mac f ! i = 0) \<or> (\<forall>i<6. dst_mac f ! i = key_dst_mac k ! i))"
    unfolding six
    by (simp add: mac_accepts_def exanic_mac_filter_is_wildcard_field_def exanic_mac_filter_byte_val_check_def
        mac_key_byte_def word_unat_eq_iff [symmetric]) blast
  have et: "(?b 6 \<and> ?b 7) \<longleftrightarrow> mac_enable f \<and> (ethertype f = 0 \<or> ethertype f = key_ethertype k)"
    unfolding u16_eq_bytes [of "ethertype f" "key_ethertype k"]
    by (simp add: mac_accepts_def exanic_mac_filter_is_wildcard_field_def exanic_mac_filter_byte_val_check_def
        mac_key_byte_def word_byte_def word_unat_eq_iff [symmetric]) blast
  have vl: "(?b 8 \<and> ?b 9) \<longleftrightarrow> mac_enable f \<and>
      (if vlan_match_method f = EXANIC_VLAN_MATCH_METHOD_ALL then True
       else if vlan_match_method f = EXANIC_VLAN_MATCH_METHOD_SPECIFIC then key_vlan k = Some (vlan f)
       else if vlan_match_method f = EXANIC_VLAN_MATCH_METHOD_NOT_VLAN then key_vlan k = None
       else key_vlan k \<noteq> None)"
  proof (cases "key_vlan k")
    case None
    with vm show ?thesis using vlan_specific [OF v]
      by (auto simp: mac_accepts_def exanic_mac_filter_is_wildcard_field_def exanic_mac_filter_byte_val_check_def
          mac_key_byte_def)
  next
    case (Some w)
    have w: "unat w < 0x1000" using assms Some by (simp add: vlan_ok_def)
    then have a16: "(16 + unat w div 256) AND 16 \<noteq> 0" by (intro and_16) (simp add: less_mult_imp_div_less)
    have "unat (vlan f) div 256 = unat w div 256 \<and> unat (ucast (vlan f) :: u8) = unat (word_byte 0 w) \<longleftrightarrow> vlan f = w"
    proof -
      have "unat (ucast (vlan f) :: u8) = unat (vlan f) mod 256" "unat (word_byte 0 w) = unat w mod 256"
        by (simp_all add: word_byte_def unat_ucast_mod)
      then show ?thesis by (metis div_mult_mod_eq word_unat_eq_iff)
    qed
    with Some vm a16 show ?thesis using vlan_specific [OF v] vlan_byte_1 [OF w]
      by (auto simp: mac_accepts_def exanic_mac_filter_is_wildcard_field_def exanic_mac_filter_byte_val_check_def
          mac_key_byte_def)
  qed
  have "(\<forall>i<10. ?b i) \<longleftrightarrow> (?b 0 \<and> ?b 1 \<and> ?b 2 \<and> ?b 3 \<and> ?b 4 \<and> ?b 5) \<and> (?b 6 \<and> ?b 7) \<and> (?b 8 \<and> ?b 9)"
    unfolding all_less_upt upt_bytes by simp
  then show ?thesis unfolding macs et vl mac_matches_def by blast
qed

end
