(* ===== verification/KSide.thy ===== *)
theory KSide
  imports KMatch KDma
begin

text \<open>
  One side of the steering configuration of a port, IP or MAC: the slots of the driver, the
  rule table of the card and the map from rules to buffers. The locale \<open>filter_side\<close> extends
  \<open>rule_table\<close> with what insertion and removal use of a slot; its lemmas say how the side
  stays consistent when a slot is written, when all slots of a buffer are disabled and when
  registers of other parts change.
\<close>

definition rule_reg :: "nat \<Rightarrow> nat \<Rightarrow> nat \<Rightarrow> nat" where
  "rule_reg p region n = REG_FILTERS_OFFSET p REG_RULE_TO_BUFFER + (region * EXANIC_NUM_FILTERS_PER_REGION + n) * 4"

definition live :: "exanic_port \<Rightarrow> nat \<Rightarrow> bool" where
  "live P b \<longleftrightarrow> b < length (filter_buffers P) \<and> region_virt (filter_buffers P ! b) \<noteq> None"

text \<open>
  The side is consistent: the table has the verdicts of the slots, and every enabled rule is
  mapped to its buffer, which is allocated.
\<close>

definition side_ok ::
    "nat \<Rightarrow> nat \<Rightarrow> ('s \<Rightarrow> nat \<Rightarrow> nat \<Rightarrow> bool) \<Rightarrow> ('s \<Rightarrow> bool) \<Rightarrow> ('s \<Rightarrow> nat) \<Rightarrow> nat \<Rightarrow>
     's list \<Rightarrow> (nat \<Rightarrow> u32) \<Rightarrow> nat \<Rightarrow> exanic_port \<Rightarrow> bool" where
  "side_ok reg nbytes accepts enabled buffer region xs r p P \<longleftrightarrow>
     length xs \<le> 256 \<and> 32 dvd length xs \<and>
     table_ok (REG_FILTERS_OFFSET p reg) nbytes accepts xs r \<and>
     (\<forall>n<length xs. enabled (xs ! n) \<longrightarrow>
        r (rule_reg p region n) = of_nat (buffer (xs ! n)) \<and> live P (buffer (xs ! n)))"

locale filter_side = rule_table reg nbytes accepts slots update_bank
  for reg nbytes :: nat and accepts :: "'s \<Rightarrow> nat \<Rightarrow> nat \<Rightarrow> bool"
    and slots :: "exanic_port \<Rightarrow> 's list" and update_bank :: "kexanic \<Rightarrow> nat \<Rightarrow> nat \<Rightarrow> kexanic option" +
  fixes enabled :: "'s \<Rightarrow> bool" and buffer :: "'s \<Rightarrow> nat" and region :: nat
  assumes reg: "0x40000 \<le> reg"
    and region: "region < 2"
begin

abbreviation (input) "side \<equiv> side_ok reg nbytes accepts enabled buffer region"

lemma rule_reg_below: "n < 256 \<Longrightarrow> rule_reg p region n < base p"
  using reg region by (simp add: rule_reg_def REG_FILTERS_OFFSET_def)

lemma side_frame:
  assumes "side xs r p P" "agree (base p) (base p + 0x20000) r r'"
    and rules: "\<And>n. n < 256 \<Longrightarrow> r' (rule_reg p region n) = r (rule_reg p region n)"
    and "\<And>b. live P b \<Longrightarrow> live P' b"
  shows "side xs r' p P'"
proof -
  have "length xs \<le> 256" using assms(1) by (simp add: side_ok_def)
  then have "r' (rule_reg p region n) = r (rule_reg p region n)" if "n < length xs" for n
    using rules [of n] that by simp
  with assms(1,4) show ?thesis
    using table_ok_agree [OF assms(2) nbytes, where accepts = accepts and xs = xs] by (simp add: side_ok_def)
qed

text \<open>A slot is rewritten, its rule mapped to its buffer, and its bank programmed.\<close>

lemma side_put:
  assumes ok: "side xs r p P"
    and upd: "update_bank e p (n div 32) = Some e'" and n: "n < length xs"
    and xs: "slots (port e p) = xs[n := s]"
    and lv: "\<And>b. live P b \<Longrightarrow> live (port e p) b"
    and r: "\<And>a. a \<noteq> rule_reg p region n \<Longrightarrow> regs_virt e a = r a"
    and s: "enabled s \<Longrightarrow> regs_virt e (rule_reg p region n) = of_nat (buffer s) \<and> live (port e p) (buffer s)"
  shows "side (slots (port e' p)) (regs_virt e') p (port e' p)"
proof -
  note f = update_bank_frame [OF upd]
  have l: "length xs \<le> 256" "32 dvd length xs" "table p xs r" using ok by (simp_all add: side_ok_def)
  have n256: "n < 256" using n l by simp
  have "agree (base p) (base p + 0x20000) r (regs_virt e)"
    using r rule_reg_below [OF n256, of p] by (auto simp: agree_def)
  then have "table p xs (regs_virt e)"
    using l(3) by (subst table_ok_agree [OF _ nbytes])
  then have t: "table p (slots (port e' p)) (regs_virt e')"
    using l(1) by (intro update_bank_table [OF upd _ _ xs]) (simp_all add: xs)
  have "regs_virt e' (rule_reg p region m) = of_nat (buffer (xs[n := s] ! m)) \<and> live (port e p) (buffer (xs[n := s] ! m))"
    if m: "m < length xs" and en: "enabled (xs[n := s] ! m)" for m
  proof -
    have "regs_virt e' (rule_reg p region m) = regs_virt e (rule_reg p region m)"
      using f(2) rule_reg_below [of m p] m l(1) by (simp add: same_outside_def)
    moreover have "rule_reg p region m \<noteq> rule_reg p region n" if "m \<noteq> n"
      using that by (simp add: rule_reg_def)
    ultimately show ?thesis
      using ok m en n s r lv by (cases "m = n") (simp_all add: side_ok_def)
  qed
  with t l show ?thesis by (simp add: side_ok_def f(1) xs)
qed

text \<open>All slots are rewritten without enabling any, and every bank is programmed.\<close>

lemma side_clear:
  assumes ok: "side xs r p P"
    and upd: "update_banks update_bank p [0..<length xs div 32] e = Some e'"
    and xs: "slots (port e p) = ys" "length ys = length xs"
    and keep: "\<And>n. n < length xs \<Longrightarrow> enabled (ys ! n) \<Longrightarrow>
      enabled (xs ! n) \<and> buffer (ys ! n) = buffer (xs ! n) \<and> live P' (buffer (xs ! n))"
    and r: "regs_virt e = r" and P': "\<And>b. live P' b \<Longrightarrow> live (port e p) b"
  shows "side (slots (port e' p)) (regs_virt e') p (port e' p)"
proof -
  have l: "length xs \<le> 256" "32 dvd length xs" using ok by (simp_all add: side_ok_def)
  have f: "port e' = port e" "same_outside (base p) (base p + 0x20000) (regs_virt e) (regs_virt e')"
    using update_banks_rows [OF upd] xs l by simp_all
  have "regs_virt e' (rule_reg p region n) = of_nat (buffer (ys ! n)) \<and> live (port e p) (buffer (ys ! n))"
    if n: "n < length xs" and en: "enabled (ys ! n)" for n
  proof -
    have "regs_virt e' (rule_reg p region n) = r (rule_reg p region n)"
      using f(2) rule_reg_below [of n p] n l(1) r by (simp add: same_outside_def)
    with ok keep [OF n en] n P' show ?thesis by (simp add: side_ok_def)
  qed
  moreover have "table p (slots (port e' p)) (regs_virt e')"
    using upd xs l by (intro update_banks_table [of p e]) simp_all
  ultimately show ?thesis using l by (simp add: side_ok_def f(1) xs)
qed

text \<open>A buffer no enabled slot uses may go away.\<close>

lemma side_kill:
  assumes "side xs r p P" "\<forall>n<length xs. enabled (xs ! n) \<longrightarrow> buffer (xs ! n) \<noteq> b"
    "\<And>c. live P c \<Longrightarrow> c \<noteq> b \<Longrightarrow> live P' c"
  shows "side xs r p P'"
  using assms by (auto simp: side_ok_def)

lemma side_hit:
  assumes "side xs r p P" "n < length xs"
  shows "hw_hit (base p) nbytes r key n \<longleftrightarrow> (\<forall>i<nbytes. accepts (xs ! n) i (unat (key i)))"
  using assms by (intro row_ok_hit) (simp add: side_ok_def table_ok_def)

end

interpretation ip: filter_side REG_FILTER_IP_RULES 13 ip_accepts ip_filter_slots
    exanic_update_hardware_ip_filter_bank ip_enable ip_buffer EXANIC_FILTER_REGION_IP
  by unfold_locales simp_all

interpretation mac: filter_side REG_FILTER_MAC_RULES 10 mac_accepts mac_filter_slots
    exanic_update_hardware_mac_filter_bank mac_enable mac_buffer EXANIC_FILTER_REGION_MAC
  by unfold_locales simp_all

end
