(* ===== verification/KSteer.thy ===== *)
theory KSteer
  imports KSide
begin

text \<open>
  The steering invariant of a port and its preservation by every operation on filters and
  filter buffers.
\<close>

text \<open>An allocated filter buffer has references and its bus address is in the card's table.\<close>

definition bufs_ok :: "nat \<Rightarrow> (nat \<Rightarrow> u32) \<Rightarrow> nat \<Rightarrow> exanic_port \<Rightarrow> bool" where
  "bufs_ok maxb r p P \<longleftrightarrow>
     length (filter_buffers P) = maxb \<and> maxb \<le> 0x4000 \<and>
     (\<forall>b<maxb. let x = filter_buffers P ! b in
        0 \<le> buf_refcount x \<and> (region_virt x = None \<longleftrightarrow> buf_refcount x = 0) \<and>
        (region_virt x \<noteq> None \<longrightarrow>
           r (REG_FILTERS_OFFSET p REG_BUFFER_BASEADDR + 2 * b * 4) = ucast (drop_bit 32 (region_dma x)) \<and>
           r (REG_FILTERS_OFFSET p REG_BUFFER_BASEADDR + 2 * b * 4 + 4) = ucast (region_dma x OR dma_cfg (region_dma x))))"

abbreviation (input) "ip_side \<equiv> side_ok REG_FILTER_IP_RULES 13 ip_accepts ip_enable ip_buffer EXANIC_FILTER_REGION_IP"
abbreviation (input) "mac_side \<equiv> side_ok REG_FILTER_MAC_RULES 10 mac_accepts mac_enable mac_buffer EXANIC_FILTER_REGION_MAC"

definition port_inv :: "nat \<Rightarrow> (nat \<Rightarrow> u32) \<Rightarrow> nat \<Rightarrow> exanic_port \<Rightarrow> bool" where
  "port_inv maxb r p P \<longleftrightarrow>
     length (ip_filter_slots P) = max_ip_filter_slots P \<and>
     length (mac_filter_slots P) = max_mac_filter_slots P \<and>
     ip_side (ip_filter_slots P) r p P \<and> mac_side (mac_filter_slots P) r p P \<and> bufs_ok maxb r p P"

definition steer_inv :: "kexanic \<Rightarrow> nat \<Rightarrow> bool" where
  "steer_inv e p \<longleftrightarrow> port_inv (k_max_filter_buffers e) (regs_virt e) p (port e p)"

text \<open>The windows of a port: base addresses, rule map, MAC table, IP table.\<close>

lemma window_simps:
  "n < 256 \<Longrightarrow> rule_reg p 0 n < REG_FILTERS_OFFSET p REG_RULE_TO_BUFFER + 256 * 4"
  "n < 256 \<Longrightarrow> rule_reg p 1 n < REG_FILTERS_OFFSET p REG_RULE_TO_BUFFER + 512 * 4"
  "REG_FILTERS_OFFSET p REG_RULE_TO_BUFFER \<le> rule_reg p region n"
  "REG_FILTERS_OFFSET p REG_RULE_TO_BUFFER + 256 * 4 \<le> rule_reg p 1 n"
  by (simp_all add: rule_reg_def)

lemma bufs_frame:
  assumes "bufs_ok maxb r p P" "agree (REG_FILTERS_OFFSET p 0) (REG_FILTERS_OFFSET p 0x20000) r r'"
    "filter_buffers P' = filter_buffers P"
  shows "bufs_ok maxb r' p P'"
proof -
  have m: "maxb \<le> 0x4000" using assms(1) by (simp add: bufs_ok_def)
  have "r' (REG_FILTERS_OFFSET p 0 + 2 * b * 4) = r (REG_FILTERS_OFFSET p 0 + 2 * b * 4)"
    "r' (REG_FILTERS_OFFSET p 0 + 2 * b * 4 + 4) = r (REG_FILTERS_OFFSET p 0 + 2 * b * 4 + 4)" if "b < maxb" for b
    using m that by (auto intro!: agreeD [OF assms(2)] simp: REG_FILTERS_OFFSET_def)
  with assms(1,3) show ?thesis by (simp add: bufs_ok_def Let_def)
qed

lemma live_same: "filter_buffers P' = filter_buffers P \<Longrightarrow> live P' b = live P b"
  by (simp add: live_def)

text \<open>Nothing in a port's configuration depends on registers outside its window.\<close>

lemma port_inv_frame:
  assumes "port_inv maxb r p P" and ag: "agree (REG_FILTERS_OFFSET p 0) (REG_FILTERS_OFFSET p 0x80000) r r'"
    and P': "filter_buffers P' = filter_buffers P" "ip_filter_slots P' = ip_filter_slots P"
      "mac_filter_slots P' = mac_filter_slots P" "max_ip_filter_slots P' = max_ip_filter_slots P"
      "max_mac_filter_slots P' = max_mac_filter_slots P"
  shows "port_inv maxb r' p P'"
proof -
  have rr: "r' (rule_reg p region n) = r (rule_reg p region n)" if "n < 256" "region < 2" for region n
    using that by (intro agreeD [OF ag]) (auto simp: REG_FILTERS_OFFSET_def rule_reg_def)
  have w: "agree (REG_FILTERS_OFFSET p a) b r r'" if "b \<le> REG_FILTERS_OFFSET p 0x80000" for a b
    using that by (intro agree_mono [OF ag]) (simp_all add: REG_FILTERS_OFFSET_def)
  have "ip_side (ip_filter_slots P) r' p P'"
    using assms(1) rr live_same [OF P'(1)]
    by (intro ip.side_frame [OF _ w]) (auto simp: port_inv_def REG_FILTERS_OFFSET_def)
  moreover have "mac_side (mac_filter_slots P) r' p P'"
    using assms(1) rr live_same [OF P'(1)]
    by (intro mac.side_frame [OF _ w]) (auto simp: port_inv_def REG_FILTERS_OFFSET_def)
  moreover have "bufs_ok maxb r' p P'"
    using assms(1) by (intro bufs_frame [OF _ w P'(1)]) (simp_all add: port_inv_def REG_FILTERS_OFFSET_def)
  ultimately show ?thesis using assms(1) P' by (simp add: port_inv_def)
qed

subsection \<open>Operations stay inside their port\<close>

definition only_port :: "nat \<Rightarrow> kexanic \<Rightarrow> kexanic \<Rightarrow> bool" where
  "only_port p e e' \<longleftrightarrow>
     (\<forall>q. q \<noteq> p \<longrightarrow> port e' q = port e q \<and>
        agree (REG_FILTERS_OFFSET q 0) (REG_FILTERS_OFFSET q 0x80000) (regs_virt e) (regs_virt e')) \<and>
     k_max_filter_buffers e' = k_max_filter_buffers e \<and> k_num_ports e' = k_num_ports e"

lemma only_port_inv: "only_port p e e' \<Longrightarrow> q \<noteq> p \<Longrightarrow> steer_inv e q \<Longrightarrow> steer_inv e' q"
  unfolding steer_inv_def by (rule port_inv_frame [where P = "port e q" and r = "regs_virt e"])
    (simp_all add: only_port_def)

lemma only_port_refl [simp]: "only_port p e e"
  by (simp add: only_port_def agree_def)

lemma only_port_trans: "only_port p e e' \<Longrightarrow> only_port p e' e'' \<Longrightarrow> only_port p e e''"
  by (simp add: only_port_def agree_def)

lemma only_port_set_port [simp]: "only_port p e (set_port p P e)"
  by (simp add: only_port_def agree_def)

lemma port_window_disjoint:
  "q \<noteq> p \<Longrightarrow> REG_FILTERS_OFFSET q 0 \<le> a \<Longrightarrow> a < REG_FILTERS_OFFSET q 0x80000 \<Longrightarrow>
    \<not> (REG_FILTERS_OFFSET p 0 \<le> a \<and> a < REG_FILTERS_OFFSET p 0x80000)"
proof -
  assume q: "q \<noteq> p" "REG_FILTERS_OFFSET q 0 \<le> a" "a < REG_FILTERS_OFFSET q 0x80000"
  show ?thesis
  proof (cases "q < p")
    case True
    then have "q + 1 \<le> p" by simp
    then have "0x100000 * q + 0x100000 \<le> 0x100000 * p" by linarith
    with q show ?thesis by (auto simp: REG_FILTERS_OFFSET_def)
  next
    case False
    then have "p + 1 \<le> q" using q(1) by simp
    then have "0x100000 * p + 0x100000 \<le> 0x100000 * q" by linarith
    with q show ?thesis by (auto simp: REG_FILTERS_OFFSET_def)
  qed
qed

lemma only_portI:
  assumes "\<And>q. q \<noteq> p \<Longrightarrow> port e' q = port e q" "k_max_filter_buffers e' = k_max_filter_buffers e"
    "k_num_ports e' = k_num_ports e"
    and "\<And>a. REG_FILTERS_OFFSET 0 0 \<le> a \<Longrightarrow>
      \<not> (REG_FILTERS_OFFSET p 0 \<le> a \<and> a < REG_FILTERS_OFFSET p 0x80000) \<Longrightarrow> regs_virt e' a = regs_virt e a"
  shows "only_port p e e'"
proof -
  have "regs_virt e' a = regs_virt e a"
    if "q \<noteq> p" "REG_FILTERS_OFFSET q 0 \<le> a" "a < REG_FILTERS_OFFSET q 0x80000" for q a
    using that(2) port_window_disjoint [OF that] by (intro assms(4)) (simp_all add: REG_FILTERS_OFFSET_def)
  with assms(1-3) show ?thesis by (simp add: only_port_def agree_def)
qed

lemma only_port_writel:
  "off < REG_FILTERS_OFFSET 0 0 \<or> REG_FILTERS_OFFSET p 0 \<le> off \<and> off < REG_FILTERS_OFFSET p 0x80000 \<Longrightarrow>
    only_port p e (writel v off e)"
proof -
  assume off: "off < REG_FILTERS_OFFSET 0 0 \<or> REG_FILTERS_OFFSET p 0 \<le> off \<and> off < REG_FILTERS_OFFSET p 0x80000"
  have "\<not> (REG_FILTERS_OFFSET q 0 \<le> off \<and> off < REG_FILTERS_OFFSET q 0x80000)" if "q \<noteq> p" for q
    using off port_window_disjoint [OF that, of off] by (auto simp: REG_FILTERS_OFFSET_def)
  then show ?thesis by (auto simp: only_port_def agree_def regs_writel)
qed

subsection \<open>Inserting\<close>

lemma first_not_Some:
  "first_not used xs n = Some i \<Longrightarrow>
    i \<le> n \<and> (\<forall>j<i. used (xs ! j)) \<and> (i < n \<longrightarrow> i < length xs \<and> \<not> used (xs ! i))"
proof (induction used xs n arbitrary: i rule: first_not.induct)
  case (3 used s xs n)
  show ?case
  proof (cases "used s")
    case True
    with "3.prems" obtain j where j: "i = Suc j" "first_not used xs n = Some j" by auto
    from "3.IH" [OF True j(2)] True show ?thesis by (auto simp: j(1) nth_Cons split: nat.splits)
  qed (use "3.prems" in simp)
qed simp_all

lemma first_not_total: "n \<le> length xs \<Longrightarrow> \<exists>i. first_not used xs n = Some i"
  by (induction used xs n rule: first_not.induct) auto

lemma set_filter_buffer_cases:
  assumes "exanic_set_filter_buffer e p b region n = Some (r, e')"
  obtains "r = Inl EFAULT" "e' = e" "\<not> live (port e p) b"
    | "r = Inr ()" "e' = writel (of_nat b) (rule_reg p region n) e" "live (port e p) b"
proof -
  have l: "b < length (filter_buffers (port e p))"
    using assms by (simp add: exanic_set_filter_buffer_def split: if_splits)
  show thesis
  proof (cases "live (port e p) b")
    case True
    then show thesis using assms l that(2)
      by (simp add: exanic_set_filter_buffer_def live_def rule_reg_def split: if_splits)
  next
    case False
    then show thesis using assms l that(1) by (simp add: exanic_set_filter_buffer_def live_def)
  qed
qed

text \<open>The shape of a successful insertion, and what remains after a rejected one.\<close>

lemma insert_ip_cases:
  assumes "exanic_insert_ip_filter e p f = Some (r, e')"
  obtains "r = Inl ENOMEM" "e' = e" "\<forall>n<max_ip_filter_slots (port e p). ip_enable (ip_filter_slots (port e p) ! n)"
    | "r = Inl EFAULT" "e' = e" "\<not> live (port e p) (ip_buffer f)"
    | n e2 where "r = Inr n" "n < max_ip_filter_slots (port e p)" "n < length (ip_filter_slots (port e p))"
      "\<not> ip_enable (ip_filter_slots (port e p) ! n)" "\<forall>m<n. ip_enable (ip_filter_slots (port e p) ! m)"
      "live (port e p) (ip_buffer f)"
      "e2 = set_port p ((port e p)\<lparr>ip_filter_slots := (ip_filter_slots (port e p))[n := f\<lparr>ip_enable := True\<rparr>]\<rparr>)
              (writel (of_nat (ip_buffer f)) (rule_reg p 1 n) e)"
      "exanic_update_hardware_ip_filter_bank e2 p (n div 32) = Some e'"
proof -
  obtain n where n: "first_not ip_enable (ip_filter_slots (port e p)) (max_ip_filter_slots (port e p)) = Some n"
    using assms by (auto simp: exanic_insert_ip_filter_def Let_def split: option.splits)
  note fn = first_not_Some [OF n]
  show thesis
  proof (cases "n = max_ip_filter_slots (port e p)")
    case True
    then show thesis using assms n fn that(1) by (simp add: exanic_insert_ip_filter_def Let_def)
  next
    case False
    obtain r1 e1 where s: "exanic_set_filter_buffer e p (ip_buffer f) 1 n = Some (r1, e1)"
      using assms n False by (auto simp: exanic_insert_ip_filter_def Let_def split: option.splits)
    from s show thesis
    proof (cases rule: set_filter_buffer_cases)
      case 1
      then show thesis using assms n False s that(2) by (simp add: exanic_insert_ip_filter_def Let_def)
    next
      case 2
      then show thesis using assms n False s fn that(3) [of n]
        by (auto simp: exanic_insert_ip_filter_def Let_def)
    qed
  qed
qed

lemma insert_mac_cases:
  assumes "exanic_insert_mac_filter e p f = Some (r, e')"
  obtains "r = Inl ENOMEM" "e' = e" "\<forall>n<max_mac_filter_slots (port e p). mac_enable (mac_filter_slots (port e p) ! n)"
    | "r = Inl EFAULT" "e' = e" "\<not> live (port e p) (mac_buffer f)"
    | n e2 where "r = Inr n" "n < max_mac_filter_slots (port e p)" "n < length (mac_filter_slots (port e p))"
      "\<not> mac_enable (mac_filter_slots (port e p) ! n)" "\<forall>m<n. mac_enable (mac_filter_slots (port e p) ! m)"
      "live (port e p) (mac_buffer f)"
      "e2 = set_port p ((port e p)\<lparr>mac_filter_slots := (mac_filter_slots (port e p))[n := f\<lparr>mac_enable := True\<rparr>]\<rparr>)
              (writel (of_nat (mac_buffer f)) (rule_reg p 0 n) e)"
      "exanic_update_hardware_mac_filter_bank e2 p (n div 32) = Some e'"
proof -
  obtain n where n: "first_not mac_enable (mac_filter_slots (port e p)) (max_mac_filter_slots (port e p)) = Some n"
    using assms by (auto simp: exanic_insert_mac_filter_def Let_def split: option.splits)
  note fn = first_not_Some [OF n]
  show thesis
  proof (cases "n = max_mac_filter_slots (port e p)")
    case True
    then show thesis using assms n fn that(1) by (simp add: exanic_insert_mac_filter_def Let_def)
  next
    case False
    obtain r1 e1 where s: "exanic_set_filter_buffer e p (mac_buffer f) 0 n = Some (r1, e1)"
      using assms n False by (auto simp: exanic_insert_mac_filter_def Let_def split: option.splits)
    from s show thesis
    proof (cases rule: set_filter_buffer_cases)
      case 1
      then show thesis using assms n False s that(2) by (simp add: exanic_insert_mac_filter_def Let_def)
    next
      case 2
      then show thesis using assms n False s fn that(3) [of n]
        by (auto simp: exanic_insert_mac_filter_def Let_def)
    qed
  qed
qed

lemma insert_ip_inv:
  assumes ins: "exanic_insert_ip_filter e p f = Some (r, e')" and inv: "steer_inv e p"
  shows "steer_inv e' p \<and> only_port p e e'"
  using ins
proof (cases rule: insert_ip_cases)
  case (3 n e2)
  let ?P = "port e p"
  have P: "port_inv (k_max_filter_buffers e) (regs_virt e) p ?P" using inv by (simp add: steer_inv_def)
  then have n256: "n < 256" using 3(3) by (simp add: port_inv_def side_ok_def)
  have e2: "port e2 p = ?P\<lparr>ip_filter_slots := (ip_filter_slots ?P)[n := f\<lparr>ip_enable := True\<rparr>]\<rparr>"
    "regs_virt e2 = (regs_virt e)(rule_reg p 1 n := of_nat (ip_buffer f))"
    "k_max_filter_buffers e2 = k_max_filter_buffers e"
    by (simp_all add: 3(7) writel_def)
  note fr = ip.update_bank_frame [OF 3(8)]
  obtain rr where rr: "e' = e2\<lparr>regs_virt := rr\<rparr>" using ip.update_bank_only [OF 3(8)] by blast
  have lv: "live ?P b \<Longrightarrow> live (port e2 p) b" for b by (simp add: e2(1) live_def)
  have "ip_side (ip_filter_slots (port e' p)) (regs_virt e') p (port e' p)"
    using P 3(3,6) lv by (intro ip.side_put [where P = ?P and xs = "ip_filter_slots ?P" and s = "f\<lparr>ip_enable := True\<rparr>", OF _ 3(8)])
      (simp_all add: port_inv_def e2)
  moreover have same: "regs_virt e' a = regs_virt e a"
    if "a \<noteq> rule_reg p 1 n" "a < REG_FILTERS_OFFSET p REG_FILTER_IP_RULES \<or> REG_FILTERS_OFFSET p REG_FILTER_IP_RULES + 0x20000 \<le> a" for a
  proof -
    have "regs_virt e' a = regs_virt e2 a" using fr(2) that(2) unfolding same_outside_def by blast
    then show ?thesis using that(1) by (simp add: e2(2))
  qed
  have "mac_side (mac_filter_slots ?P) (regs_virt e') p (port e' p)"
  proof (rule mac.side_frame)
    show "mac_side (mac_filter_slots ?P) (regs_virt e) p ?P" using P by (simp add: port_inv_def)
    show "agree (REG_FILTERS_OFFSET p REG_FILTER_MAC_RULES) (REG_FILTERS_OFFSET p REG_FILTER_MAC_RULES + 0x20000) (regs_virt e) (regs_virt e')"
      unfolding agree_def using n256 by (intro allI impI same) (auto simp: REG_FILTERS_OFFSET_def rule_reg_def)
    show "regs_virt e' (rule_reg p 0 m) = regs_virt e (rule_reg p 0 m)" if "m < 256" for m
      using that n256 by (intro same) (auto simp: REG_FILTERS_OFFSET_def rule_reg_def)
  qed (use lv fr(1) in simp)
  moreover have "bufs_ok (k_max_filter_buffers e) (regs_virt e') p (port e' p)"
  proof (rule bufs_frame)
    show "bufs_ok (k_max_filter_buffers e) (regs_virt e) p ?P" using P by (simp add: port_inv_def)
    show "agree (REG_FILTERS_OFFSET p 0) (REG_FILTERS_OFFSET p 0x20000) (regs_virt e) (regs_virt e')"
      unfolding agree_def by (intro allI impI same) (auto simp: REG_FILTERS_OFFSET_def rule_reg_def)
  qed (simp add: fr(1) e2)
  ultimately have "steer_inv e' p" using P by (simp add: steer_inv_def port_inv_def fr(1) e2 rr)
  moreover have "only_port p e e'"
  proof (rule only_portI)
    fix a assume "\<not> (REG_FILTERS_OFFSET p 0 \<le> a \<and> a < REG_FILTERS_OFFSET p 0x80000)"
    then show "regs_virt e' a = regs_virt e a"
      using n256 by (intro same) (auto simp: rule_reg_def REG_FILTERS_OFFSET_def)
  qed (simp_all add: rr 3(7))
  ultimately show ?thesis ..
qed (use inv in simp_all)

lemma insert_mac_inv:
  assumes ins: "exanic_insert_mac_filter e p f = Some (r, e')" and inv: "steer_inv e p"
  shows "steer_inv e' p \<and> only_port p e e'"
  using ins
proof (cases rule: insert_mac_cases)
  case (3 n e2)
  let ?P = "port e p"
  have P: "port_inv (k_max_filter_buffers e) (regs_virt e) p ?P" using inv by (simp add: steer_inv_def)
  then have n256: "n < 256" using 3(3) by (simp add: port_inv_def side_ok_def)
  have e2: "port e2 p = ?P\<lparr>mac_filter_slots := (mac_filter_slots ?P)[n := f\<lparr>mac_enable := True\<rparr>]\<rparr>"
    "regs_virt e2 = (regs_virt e)(rule_reg p 0 n := of_nat (mac_buffer f))"
    "k_max_filter_buffers e2 = k_max_filter_buffers e"
    by (simp_all add: 3(7) writel_def)
  note fr = mac.update_bank_frame [OF 3(8)]
  obtain rr where rr: "e' = e2\<lparr>regs_virt := rr\<rparr>" using mac.update_bank_only [OF 3(8)] by blast
  have lv: "live ?P b \<Longrightarrow> live (port e2 p) b" for b by (simp add: e2(1) live_def)
  have "mac_side (mac_filter_slots (port e' p)) (regs_virt e') p (port e' p)"
    using P 3(3,6) lv by (intro mac.side_put [where P = ?P and xs = "mac_filter_slots ?P" and s = "f\<lparr>mac_enable := True\<rparr>", OF _ 3(8)])
      (simp_all add: port_inv_def e2)
  moreover have same: "regs_virt e' a = regs_virt e a"
    if "a \<noteq> rule_reg p 0 n" "a < REG_FILTERS_OFFSET p REG_FILTER_MAC_RULES \<or> REG_FILTERS_OFFSET p REG_FILTER_MAC_RULES + 0x20000 \<le> a" for a
  proof -
    have "regs_virt e' a = regs_virt e2 a" using fr(2) that(2) unfolding same_outside_def by blast
    then show ?thesis using that(1) by (simp add: e2(2))
  qed
  have "ip_side (ip_filter_slots ?P) (regs_virt e') p (port e' p)"
  proof (rule ip.side_frame)
    show "ip_side (ip_filter_slots ?P) (regs_virt e) p ?P" using P by (simp add: port_inv_def)
    show "agree (REG_FILTERS_OFFSET p REG_FILTER_IP_RULES) (REG_FILTERS_OFFSET p REG_FILTER_IP_RULES + 0x20000) (regs_virt e) (regs_virt e')"
      unfolding agree_def using n256 by (intro allI impI same) (auto simp: REG_FILTERS_OFFSET_def rule_reg_def)
    show "regs_virt e' (rule_reg p 1 m) = regs_virt e (rule_reg p 1 m)" if "m < 256" for m
      using that n256 by (intro same) (auto simp: REG_FILTERS_OFFSET_def rule_reg_def)
  qed (use lv fr(1) in simp)
  moreover have "bufs_ok (k_max_filter_buffers e) (regs_virt e') p (port e' p)"
  proof (rule bufs_frame)
    show "bufs_ok (k_max_filter_buffers e) (regs_virt e) p ?P" using P by (simp add: port_inv_def)
    show "agree (REG_FILTERS_OFFSET p 0) (REG_FILTERS_OFFSET p 0x20000) (regs_virt e) (regs_virt e')"
      unfolding agree_def by (intro allI impI same) (auto simp: REG_FILTERS_OFFSET_def rule_reg_def)
  qed (simp add: fr(1) e2)
  ultimately have "steer_inv e' p" using P by (simp add: steer_inv_def port_inv_def fr(1) e2 rr)
  moreover have "only_port p e e'"
  proof (rule only_portI)
    fix a assume "\<not> (REG_FILTERS_OFFSET p 0 \<le> a \<and> a < REG_FILTERS_OFFSET p 0x80000)"
    then show "regs_virt e' a = regs_virt e a"
      using n256 by (intro same) (auto simp: rule_reg_def REG_FILTERS_OFFSET_def)
  qed (simp_all add: rr 3(7))
  ultimately show ?thesis ..
qed (use inv in simp_all)

subsection \<open>Removing\<close>

lemma remove_ip_cases:
  assumes "exanic_remove_ip_filter e p n = Some (r, e')"
  obtains "r = Inl Minus_one" "e' = e" "max_ip_filter_slots (port e p) < n"
    | "r = Inr ()" "n \<le> max_ip_filter_slots (port e p)" "n < length (ip_filter_slots (port e p))"
      "exanic_update_hardware_ip_filter_bank (set_port p (disable_ip_slot n (port e p)) e) p (n div 32) = Some e'"
  using assms by (auto simp: exanic_remove_ip_filter_def split: if_splits)

lemma remove_ip_inv:
  assumes rem: "exanic_remove_ip_filter e p n = Some (r, e')" and inv: "steer_inv e p"
  shows "steer_inv e' p \<and> only_port p e e'"
  using rem
proof (cases rule: remove_ip_cases)
  case 2
  let ?P = "port e p" and ?e2 = "set_port p (disable_ip_slot n (port e p)) e"
  have P: "port_inv (k_max_filter_buffers e) (regs_virt e) p ?P" using inv by (simp add: steer_inv_def)
  note fr = ip.update_bank_frame [OF 2(4)]
  obtain rr where rr: "e' = ?e2\<lparr>regs_virt := rr\<rparr>" using ip.update_bank_only [OF 2(4)] by blast
  have e2: "port e' p = disable_ip_slot n ?P" by (simp add: fr(1))
  have lv: "live ?P b \<Longrightarrow> live (port e' p) b" for b by (simp add: e2 live_def disable_ip_slot_def)
  have "ip_side (ip_filter_slots (port e' p)) (regs_virt e') p (port e' p)"
    using P 2(3) lv
    by (intro ip.side_put [where P = ?P and xs = "ip_filter_slots ?P" and
          s = "(ip_filter_slots ?P ! n)\<lparr>ip_enable := False\<rparr>", OF _ 2(4)])
      (simp_all add: port_inv_def e2 disable_ip_slot_def)
  moreover have same: "regs_virt e' a = regs_virt e a"
    if "a < REG_FILTERS_OFFSET p REG_FILTER_IP_RULES \<or> REG_FILTERS_OFFSET p REG_FILTER_IP_RULES + 0x20000 \<le> a" for a
    using same_outsideD [OF fr(2) that] by simp
  have "mac_side (mac_filter_slots ?P) (regs_virt e') p (port e' p)"
  proof (rule mac.side_frame)
    show "mac_side (mac_filter_slots ?P) (regs_virt e) p ?P" using P by (simp add: port_inv_def)
    show "agree (REG_FILTERS_OFFSET p REG_FILTER_MAC_RULES) (REG_FILTERS_OFFSET p REG_FILTER_MAC_RULES + 0x20000) (regs_virt e) (regs_virt e')"
      unfolding agree_def by (intro allI impI same) (auto simp: REG_FILTERS_OFFSET_def)
    show "regs_virt e' (rule_reg p 0 m) = regs_virt e (rule_reg p 0 m)" if "m < 256" for m
      using that by (intro same) (auto simp: REG_FILTERS_OFFSET_def rule_reg_def)
  qed (use lv in simp)
  moreover have "bufs_ok (k_max_filter_buffers e) (regs_virt e') p (port e' p)"
  proof (rule bufs_frame)
    show "bufs_ok (k_max_filter_buffers e) (regs_virt e) p ?P" using P by (simp add: port_inv_def)
    show "agree (REG_FILTERS_OFFSET p 0) (REG_FILTERS_OFFSET p 0x20000) (regs_virt e) (regs_virt e')"
      unfolding agree_def by (intro allI impI same) (auto simp: REG_FILTERS_OFFSET_def)
  qed (simp add: e2 disable_ip_slot_def)
  ultimately have "steer_inv e' p"
    using P by (simp add: steer_inv_def port_inv_def e2 disable_ip_slot_def) (simp add: rr)
  moreover have "only_port p e e'"
  proof (rule only_portI)
    fix a assume "\<not> (REG_FILTERS_OFFSET p 0 \<le> a \<and> a < REG_FILTERS_OFFSET p 0x80000)"
    then show "regs_virt e' a = regs_virt e a"
      by (intro same) (auto simp: REG_FILTERS_OFFSET_def)
  qed (simp_all add: rr)
  ultimately show ?thesis ..
qed (use inv in simp_all)

lemma remove_mac_cases:
  assumes "exanic_remove_mac_filter e p n = Some (r, e')"
  obtains "r = Inl Minus_one" "e' = e" "max_mac_filter_slots (port e p) < n"
    | "r = Inr ()" "n \<le> max_mac_filter_slots (port e p)" "n < length (mac_filter_slots (port e p))"
      "exanic_update_hardware_mac_filter_bank (set_port p (disable_mac_slot n (port e p)) e) p (n div 32) = Some e'"
  using assms by (auto simp: exanic_remove_mac_filter_def split: if_splits)

lemma remove_mac_inv:
  assumes rem: "exanic_remove_mac_filter e p n = Some (r, e')" and inv: "steer_inv e p"
  shows "steer_inv e' p \<and> only_port p e e'"
  using rem
proof (cases rule: remove_mac_cases)
  case 2
  let ?P = "port e p" and ?e2 = "set_port p (disable_mac_slot n (port e p)) e"
  have P: "port_inv (k_max_filter_buffers e) (regs_virt e) p ?P" using inv by (simp add: steer_inv_def)
  note fr = mac.update_bank_frame [OF 2(4)]
  obtain rr where rr: "e' = ?e2\<lparr>regs_virt := rr\<rparr>" using mac.update_bank_only [OF 2(4)] by blast
  have e2: "port e' p = disable_mac_slot n ?P" by (simp add: fr(1))
  have lv: "live ?P b \<Longrightarrow> live (port e' p) b" for b by (simp add: e2 live_def disable_mac_slot_def)
  have "mac_side (mac_filter_slots (port e' p)) (regs_virt e') p (port e' p)"
    using P 2(3) lv
    by (intro mac.side_put [where P = ?P and xs = "mac_filter_slots ?P" and
          s = "(mac_filter_slots ?P ! n)\<lparr>mac_enable := False\<rparr>", OF _ 2(4)])
      (simp_all add: port_inv_def e2 disable_mac_slot_def)
  moreover have same: "regs_virt e' a = regs_virt e a"
    if "a < REG_FILTERS_OFFSET p REG_FILTER_MAC_RULES \<or> REG_FILTERS_OFFSET p REG_FILTER_MAC_RULES + 0x20000 \<le> a" for a
    using same_outsideD [OF fr(2) that] by simp
  have "ip_side (ip_filter_slots ?P) (regs_virt e') p (port e' p)"
  proof (rule ip.side_frame)
    show "ip_side (ip_filter_slots ?P) (regs_virt e) p ?P" using P by (simp add: port_inv_def)
    show "agree (REG_FILTERS_OFFSET p REG_FILTER_IP_RULES) (REG_FILTERS_OFFSET p REG_FILTER_IP_RULES + 0x20000) (regs_virt e) (regs_virt e')"
      unfolding agree_def by (intro allI impI same) (auto simp: REG_FILTERS_OFFSET_def)
    show "regs_virt e' (rule_reg p 1 m) = regs_virt e (rule_reg p 1 m)" if "m < 256" for m
      using that by (intro same) (auto simp: REG_FILTERS_OFFSET_def rule_reg_def)
  qed (use lv in simp)
  moreover have "bufs_ok (k_max_filter_buffers e) (regs_virt e') p (port e' p)"
  proof (rule bufs_frame)
    show "bufs_ok (k_max_filter_buffers e) (regs_virt e) p ?P" using P by (simp add: port_inv_def)
    show "agree (REG_FILTERS_OFFSET p 0) (REG_FILTERS_OFFSET p 0x20000) (regs_virt e) (regs_virt e')"
      unfolding agree_def by (intro allI impI same) (auto simp: REG_FILTERS_OFFSET_def)
  qed (simp add: e2 disable_mac_slot_def)
  ultimately have "steer_inv e' p"
    using P by (simp add: steer_inv_def port_inv_def e2 disable_mac_slot_def) (simp add: rr)
  moreover have "only_port p e e'"
  proof (rule only_portI)
    fix a assume "\<not> (REG_FILTERS_OFFSET p 0 \<le> a \<and> a < REG_FILTERS_OFFSET p 0x80000)"
    then show "regs_virt e' a = regs_virt e a"
      by (intro same) (auto simp: REG_FILTERS_OFFSET_def)
  qed (simp_all add: rr)
  ultimately show ?thesis ..
qed (use inv in simp_all)

text \<open>Disabling every slot of a buffer.\<close>

lemma clear_ip_assoc_slots:
  assumes "max_ip_filter_slots P \<le> length (ip_filter_slots P)"
  shows "\<exists>ys. clear_ip_assoc b P = P\<lparr>ip_filter_slots := ys\<rparr> \<and> length ys = length (ip_filter_slots P) \<and>
    (\<forall>n<length ys. ys ! n = (if n < max_ip_filter_slots P \<and> ip_buffer (ip_filter_slots P ! n) = b
       then (ip_filter_slots P ! n)\<lparr>ip_enable := False\<rparr> else ip_filter_slots P ! n))"
proof -
  have "\<exists>ys. fold (\<lambda>i q. if ip_buffer (ip_filter_slots q ! i) = b then disable_ip_slot i q else q) [0..<m] P =
      P\<lparr>ip_filter_slots := ys\<rparr> \<and> length ys = length (ip_filter_slots P) \<and>
      (\<forall>n<length ys. ys ! n = (if n < m \<and> ip_buffer (ip_filter_slots P ! n) = b
         then (ip_filter_slots P ! n)\<lparr>ip_enable := False\<rparr> else ip_filter_slots P ! n))"
    if "m \<le> length (ip_filter_slots P)" for m
    using that
  proof (induction m)
    case 0
    have "P = P\<lparr>ip_filter_slots := ip_filter_slots P\<rparr>" by simp
    then show ?case by (intro exI [of _ "ip_filter_slots P"]) simp
  next
    case (Suc m)
    then obtain ys where ys: "fold (\<lambda>i q. if ip_buffer (ip_filter_slots q ! i) = b then disable_ip_slot i q else q) [0..<m] P =
        P\<lparr>ip_filter_slots := ys\<rparr>" "length ys = length (ip_filter_slots P)"
        "\<forall>n<length ys. ys ! n = (if n < m \<and> ip_buffer (ip_filter_slots P ! n) = b
           then (ip_filter_slots P ! n)\<lparr>ip_enable := False\<rparr> else ip_filter_slots P ! n)" by auto
    have m: "ys ! m = ip_filter_slots P ! m" using ys(2,3) Suc.prems by simp
    let ?zs = "if ip_buffer (ip_filter_slots P ! m) = b then ys[m := (ys ! m)\<lparr>ip_enable := False\<rparr>] else ys"
    show ?case
    proof (intro exI [of _ ?zs] conjI allI impI)
      show "fold (\<lambda>i q. if ip_buffer (ip_filter_slots q ! i) = b then disable_ip_slot i q else q) [0..<Suc m] P =
          P\<lparr>ip_filter_slots := ?zs\<rparr>"
        using m by (simp add: ys(1) disable_ip_slot_def)
      show "length ?zs = length (ip_filter_slots P)" using ys(2) by simp
      fix n assume "n < length ?zs"
      then have "n < length ys" by (simp split: if_splits)
      then show "?zs ! n = (if n < Suc m \<and> ip_buffer (ip_filter_slots P ! n) = b
          then (ip_filter_slots P ! n)\<lparr>ip_enable := False\<rparr> else ip_filter_slots P ! n)"
        using ys(2,3) m by (cases "n = m") (simp_all add: less_Suc_eq)
    qed
  qed
  with assms show ?thesis by (simp add: clear_ip_assoc_def)
qed

lemma clear_mac_assoc_slots:
  assumes "max_mac_filter_slots P \<le> length (mac_filter_slots P)"
  shows "\<exists>ys. clear_mac_assoc b P = P\<lparr>mac_filter_slots := ys\<rparr> \<and> length ys = length (mac_filter_slots P) \<and>
    (\<forall>n<length ys. ys ! n = (if n < max_mac_filter_slots P \<and> mac_buffer (mac_filter_slots P ! n) = b
       then (mac_filter_slots P ! n)\<lparr>mac_enable := False\<rparr> else mac_filter_slots P ! n))"
proof -
  have "\<exists>ys. fold (\<lambda>i q. if mac_buffer (mac_filter_slots q ! i) = b then disable_mac_slot i q else q) [0..<m] P =
      P\<lparr>mac_filter_slots := ys\<rparr> \<and> length ys = length (mac_filter_slots P) \<and>
      (\<forall>n<length ys. ys ! n = (if n < m \<and> mac_buffer (mac_filter_slots P ! n) = b
         then (mac_filter_slots P ! n)\<lparr>mac_enable := False\<rparr> else mac_filter_slots P ! n))"
    if "m \<le> length (mac_filter_slots P)" for m
    using that
  proof (induction m)
    case 0
    have "P = P\<lparr>mac_filter_slots := mac_filter_slots P\<rparr>" by simp
    then show ?case by (intro exI [of _ "mac_filter_slots P"]) simp
  next
    case (Suc m)
    then obtain ys where ys: "fold (\<lambda>i q. if mac_buffer (mac_filter_slots q ! i) = b then disable_mac_slot i q else q) [0..<m] P =
        P\<lparr>mac_filter_slots := ys\<rparr>" "length ys = length (mac_filter_slots P)"
        "\<forall>n<length ys. ys ! n = (if n < m \<and> mac_buffer (mac_filter_slots P ! n) = b
           then (mac_filter_slots P ! n)\<lparr>mac_enable := False\<rparr> else mac_filter_slots P ! n)" by auto
    have m: "ys ! m = mac_filter_slots P ! m" using ys(2,3) Suc.prems by simp
    let ?zs = "if mac_buffer (mac_filter_slots P ! m) = b then ys[m := (ys ! m)\<lparr>mac_enable := False\<rparr>] else ys"
    show ?case
    proof (intro exI [of _ ?zs] conjI allI impI)
      show "fold (\<lambda>i q. if mac_buffer (mac_filter_slots q ! i) = b then disable_mac_slot i q else q) [0..<Suc m] P =
          P\<lparr>mac_filter_slots := ?zs\<rparr>"
        using m by (simp add: ys(1) disable_mac_slot_def)
      show "length ?zs = length (mac_filter_slots P)" using ys(2) by simp
      fix n assume "n < length ?zs"
      then have "n < length ys" by (simp split: if_splits)
      then show "?zs ! n = (if n < Suc m \<and> mac_buffer (mac_filter_slots P ! n) = b
          then (mac_filter_slots P ! n)\<lparr>mac_enable := False\<rparr> else mac_filter_slots P ! n)"
        using ys(2,3) m by (cases "n = m") (simp_all add: less_Suc_eq)
    qed
  qed
  with assms show ?thesis by (simp add: clear_mac_assoc_def)
qed

lemma remove_assoc_inv:
  assumes rem: "exanic_remove_rx_filter_assoc e p b = Some e'"
    and ip: "length (ip_filter_slots (port e p)) = max_ip_filter_slots (port e p)"
      "ip_side (ip_filter_slots (port e p)) (regs_virt e) p P0"
    and mac: "length (mac_filter_slots (port e p)) = max_mac_filter_slots (port e p)"
      "mac_side (mac_filter_slots (port e p)) (regs_virt e) p P0"
    and fb: "\<And>c. live (port e p) c \<longleftrightarrow> live P0 c"
  shows "ip_side (ip_filter_slots (port e' p)) (regs_virt e') p (port e' p) \<and>
    mac_side (mac_filter_slots (port e' p)) (regs_virt e') p (port e' p) \<and>
    length (ip_filter_slots (port e' p)) = length (ip_filter_slots (port e p)) \<and>
    length (mac_filter_slots (port e' p)) = length (mac_filter_slots (port e p)) \<and>
    (\<forall>n<length (ip_filter_slots (port e p)). ip_enable (ip_filter_slots (port e' p) ! n) \<longrightarrow>
        ip_buffer (ip_filter_slots (port e' p) ! n) \<noteq> b) \<and>
    (\<forall>n<length (mac_filter_slots (port e p)). mac_enable (mac_filter_slots (port e' p) ! n) \<longrightarrow>
        mac_buffer (mac_filter_slots (port e' p) ! n) \<noteq> b) \<and>
    (\<exists>xs ys r. e' = set_port p ((port e p)\<lparr>ip_filter_slots := xs, mac_filter_slots := ys\<rparr>) e\<lparr>regs_virt := r\<rparr>) \<and>
    same_outside (REG_FILTERS_OFFSET p REG_FILTER_MAC_RULES) (REG_FILTERS_OFFSET p 0x80000) (regs_virt e) (regs_virt e')"
proof -
  let ?P = "port e p"
  obtain xs where xs: "clear_ip_assoc b ?P = ?P\<lparr>ip_filter_slots := xs\<rparr>" "length xs = length (ip_filter_slots ?P)"
    "\<forall>n<length xs. xs ! n = (if n < max_ip_filter_slots ?P \<and> ip_buffer (ip_filter_slots ?P ! n) = b
       then (ip_filter_slots ?P ! n)\<lparr>ip_enable := False\<rparr> else ip_filter_slots ?P ! n)"
    using clear_ip_assoc_slots [of ?P b] ip(1) by auto
  let ?e1 = "set_port p (?P\<lparr>ip_filter_slots := xs\<rparr>) e"
  obtain e2 where e2: "update_banks exanic_update_hardware_ip_filter_bank p [0..<length (ip_filter_slots ?P) div 32] ?e1 = Some e2"
    "update_banks exanic_update_hardware_mac_filter_bank p [0..<length (mac_filter_slots ?P) div 32]
      (set_port p (clear_mac_assoc b (port e2 p)) e2) = Some e'"
    using rem ip(1) mac(1) by (auto simp: exanic_remove_rx_filter_assoc_def Let_def xs(1) split: option.splits)
  obtain r1 where r1: "e2 = ?e1\<lparr>regs_virt := r1\<rparr>" using ip.update_banks_only [OF e2(1)] by blast
  have l: "length (ip_filter_slots ?P) \<le> 256" "length (mac_filter_slots ?P) \<le> 256"
    using ip(2) mac(2) by (simp_all add: side_ok_def)
  have f1: "same_outside (REG_FILTERS_OFFSET p 0x60000) (REG_FILTERS_OFFSET p 0x60000 + 0x20000) (regs_virt e) (regs_virt e2)"
    using ip.update_banks_rows [OF e2(1)] l xs(2) by simp
  have P2: "port e2 p = ?P\<lparr>ip_filter_slots := xs\<rparr>" by (simp add: r1)
  have s1: "ip_side (ip_filter_slots (port e2 p)) (regs_virt e2) p (port e2 p)"
  proof (rule ip.side_clear [OF ip(2) e2(1), where ys = xs and P' = P0])
    fix n assume "n < length (ip_filter_slots ?P)" "ip_enable (xs ! n)"
    with xs(2,3) ip(2) show "ip_enable (ip_filter_slots ?P ! n) \<and> ip_buffer (xs ! n) = ip_buffer (ip_filter_slots ?P ! n) \<and>
        live P0 (ip_buffer (ip_filter_slots ?P ! n))"
      by (auto simp: side_ok_def split: if_splits)
  qed (use xs(2) fb in \<open>simp_all add: live_def\<close>)
  obtain ys where ys: "clear_mac_assoc b (port e2 p) = (port e2 p)\<lparr>mac_filter_slots := ys\<rparr>"
    "length ys = length (mac_filter_slots ?P)"
    "\<forall>n<length ys. ys ! n = (if n < max_mac_filter_slots ?P \<and> mac_buffer (mac_filter_slots ?P ! n) = b
       then (mac_filter_slots ?P ! n)\<lparr>mac_enable := False\<rparr> else mac_filter_slots ?P ! n)"
    using clear_mac_assoc_slots [of "port e2 p" b] mac(1) by (auto simp: P2)
  let ?e3 = "set_port p (clear_mac_assoc b (port e2 p)) e2"
  obtain r2 where r2: "e' = ?e3\<lparr>regs_virt := r2\<rparr>" using mac.update_banks_only [OF e2(2)] by blast
  have P': "port e' p = ?P\<lparr>ip_filter_slots := xs, mac_filter_slots := ys\<rparr>" by (simp add: r2 ys(1)) (simp add: P2)
  have f2: "same_outside (REG_FILTERS_OFFSET p 0x40000) (REG_FILTERS_OFFSET p 0x40000 + 0x20000) (regs_virt e2) (regs_virt e')"
    using mac.update_banks_rows [OF e2(2)] l ys(1,2) by simp
  have m2: "mac_side (mac_filter_slots ?P) (regs_virt e2) p P0"
  proof (rule mac.side_frame [OF mac(2)])
    show "agree (REG_FILTERS_OFFSET p 0x40000) (REG_FILTERS_OFFSET p 0x40000 + 0x20000) (regs_virt e) (regs_virt e2)"
      by (rule same_outside_agree [OF f1]) (simp add: REG_FILTERS_OFFSET_def)
    show "regs_virt e2 (rule_reg p 0 m) = regs_virt e (rule_reg p 0 m)" if "m < 256" for m
      using that by (intro same_outsideD [OF f1]) (auto simp: REG_FILTERS_OFFSET_def rule_reg_def)
  qed
  have s2: "mac_side (mac_filter_slots (port e' p)) (regs_virt e') p (port e' p)"
  proof (rule mac.side_clear [OF m2 e2(2), where ys = ys and P' = P0])
    fix n assume "n < length (mac_filter_slots ?P)" "mac_enable (ys ! n)"
    with ys(2,3) mac(2) show "mac_enable (mac_filter_slots ?P ! n) \<and> mac_buffer (ys ! n) = mac_buffer (mac_filter_slots ?P ! n) \<and>
        live P0 (mac_buffer (mac_filter_slots ?P ! n))"
      by (auto simp: side_ok_def split: if_splits)
  qed (use ys(1,2) fb in \<open>simp_all add: live_def P2\<close>)
  have "ip_side (ip_filter_slots (port e2 p)) (regs_virt e') p (port e' p)"
  proof (rule ip.side_frame [OF s1])
    show "agree (REG_FILTERS_OFFSET p 0x60000) (REG_FILTERS_OFFSET p 0x60000 + 0x20000) (regs_virt e2) (regs_virt e')"
      by (rule same_outside_agree [OF f2]) (simp add: REG_FILTERS_OFFSET_def)
    show "regs_virt e' (rule_reg p 1 m) = regs_virt e2 (rule_reg p 1 m)" if "m < 256" for m
      using that by (intro same_outsideD [OF f2]) (auto simp: REG_FILTERS_OFFSET_def rule_reg_def)
  qed (simp add: P' P2 live_def)
  moreover have "same_outside (REG_FILTERS_OFFSET p 0x40000) (REG_FILTERS_OFFSET p 0x80000) (regs_virt e) (regs_virt e')"
    unfolding same_outside_def
  proof (intro allI impI)
    fix a assume a: "a < REG_FILTERS_OFFSET p 0x40000 \<or> REG_FILTERS_OFFSET p 0x80000 \<le> a"
    have "regs_virt e' a = regs_virt e2 a"
      using a by (intro same_outsideD [OF f2]) (auto simp: REG_FILTERS_OFFSET_def)
    also have "\<dots> = regs_virt e a"
      using a by (intro same_outsideD [OF f1]) (auto simp: REG_FILTERS_OFFSET_def)
    finally show "regs_virt e' a = regs_virt e a" .
  qed
  moreover have "\<exists>xs ys r. e' = set_port p (?P\<lparr>ip_filter_slots := xs, mac_filter_slots := ys\<rparr>) e\<lparr>regs_virt := r\<rparr>"
    using r1 r2 ys(1) by (simp add: P2 set_port_def) blast
  ultimately show ?thesis
    using s2 xs(2,3) ys(2,3) ip(1) mac(1) by (auto simp: P' P2)
qed

subsection \<open>Filter buffers\<close>

lemma write_base_addr_regs:
  "regs_virt (write_base_addr p b lo hi e) a =
    (if a = REG_FILTERS_OFFSET p 0 + 2 * b * 4 then ucast hi
     else if a = REG_FILTERS_OFFSET p 0 + 2 * b * 4 + 4 then ucast lo else regs_virt e a)"
  by (simp add: write_base_addr_def Let_def regs_writel)

lemma write_base_addr_rest [simp]: "port (write_base_addr p b lo hi e) = port e"
  "k_max_filter_buffers (write_base_addr p b lo hi e) = k_max_filter_buffers e"
  "k_num_ports (write_base_addr p b lo hi e) = k_num_ports e"
  by (simp_all add: write_base_addr_def Let_def)

lemma put_buffer_rest [simp]:
  "port (put_buffer p b x e) q = (if q = p then (port e p)\<lparr>filter_buffers := (filter_buffers (port e p))[b := x]\<rparr> else port e q)"
  "regs_virt (put_buffer p b x e) = regs_virt e"
  "k_max_filter_buffers (put_buffer p b x e) = k_max_filter_buffers e"
  "k_num_ports (put_buffer p b x e) = k_num_ports e"
  by (simp_all add: put_buffer_def)

text \<open>The sides of a port do not see the base addresses of its buffers.\<close>

lemma sides_frame:
  assumes "agree (REG_FILTERS_OFFSET p 0x20000) (REG_FILTERS_OFFSET p 0x80000) r r'"
    "\<And>c. live P c \<Longrightarrow> live P' c"
  shows "ip_side xs r p P \<Longrightarrow> ip_side xs r' p P'" "mac_side ys r p P \<Longrightarrow> mac_side ys r' p P'"
proof -
  have rr: "r' (rule_reg p region n) = r (rule_reg p region n)" if "n < 256" "region < 2" for region n
    using that by (intro agreeD [OF assms(1)]) (auto simp: REG_FILTERS_OFFSET_def rule_reg_def)
  have w: "agree (REG_FILTERS_OFFSET p a) b r r'" if "0x20000 \<le> a" "b \<le> REG_FILTERS_OFFSET p 0x80000" for a b
    using that by (intro agree_mono [OF assms(1)]) (simp_all add: REG_FILTERS_OFFSET_def)
  show "ip_side xs r' p P'" if "ip_side xs r p P"
    by (rule ip.side_frame [OF that w rr]) (simp_all add: REG_FILTERS_OFFSET_def assms(2))
  show "mac_side ys r' p P'" if "mac_side ys r p P"
    by (rule mac.side_frame [OF that w rr]) (simp_all add: REG_FILTERS_OFFSET_def assms(2))
qed

definition buf_ok :: "(nat \<Rightarrow> u32) \<Rightarrow> nat \<Rightarrow> nat \<Rightarrow> filter_buffer \<Rightarrow> bool" where
  "buf_ok r p b x \<longleftrightarrow>
     0 \<le> buf_refcount x \<and> (region_virt x = None \<longleftrightarrow> buf_refcount x = 0) \<and>
     (region_virt x \<noteq> None \<longrightarrow>
        r (REG_FILTERS_OFFSET p 0 + 2 * b * 4) = ucast (drop_bit 32 (region_dma x)) \<and>
        r (REG_FILTERS_OFFSET p 0 + 2 * b * 4 + 4) = ucast (region_dma x OR dma_cfg (region_dma x)))"

lemma bufs_ok_alt:
  "bufs_ok maxb r p P \<longleftrightarrow> length (filter_buffers P) = maxb \<and> maxb \<le> 0x4000 \<and>
    (\<forall>b<maxb. buf_ok r p b (filter_buffers P ! b))"
  by (auto simp: bufs_ok_def buf_ok_def Let_def)

lemma bufs_put:
  assumes "bufs_ok maxb r p P" "filter_buffers P' = (filter_buffers P)[b := x]" "b < maxb \<Longrightarrow> buf_ok r' p b x"
    "\<And>a. a \<noteq> REG_FILTERS_OFFSET p 0 + 2 * b * 4 \<Longrightarrow> a \<noteq> REG_FILTERS_OFFSET p 0 + 2 * b * 4 + 4 \<Longrightarrow>
      REG_FILTERS_OFFSET p 0 \<le> a \<Longrightarrow> a < REG_FILTERS_OFFSET p 0x20000 \<Longrightarrow> r' a = r a"
  shows "bufs_ok maxb r' p P'"
proof -
  have m: "maxb \<le> 0x4000" and l: "length (filter_buffers P) = maxb"
    and ok: "\<And>c. c < maxb \<Longrightarrow> buf_ok r p c (filter_buffers P ! c)"
    using assms(1) by (simp_all add: bufs_ok_alt)
  have "buf_ok r' p c ((filter_buffers P)[b := x] ! c)" if c: "c < maxb" for c
  proof (cases "c = b")
    case True
    then show ?thesis using assms(3) c l by simp
  next
    case False
    have o: "2 * c * 4 \<noteq> 2 * b * 4 + 4" "2 * c * 4 + 4 \<noteq> 2 * b * 4" by presburger+
    have e: "r' (REG_FILTERS_OFFSET p 0 + 2 * c * 4) = r (REG_FILTERS_OFFSET p 0 + 2 * c * 4)"
      "r' (REG_FILTERS_OFFSET p 0 + 2 * c * 4 + 4) = r (REG_FILTERS_OFFSET p 0 + 2 * c * 4 + 4)"
      using False m c o by (intro assms(4); simp add: REG_FILTERS_OFFSET_def)+
    have "(filter_buffers P)[b := x] ! c = filter_buffers P ! c" using False by simp
    moreover have "buf_ok r' p c (filter_buffers P ! c) = buf_ok r p c (filter_buffers P ! c)"
      unfolding buf_ok_def e ..
    ultimately show ?thesis using ok [OF c] by simp
  qed
  with m l show ?thesis by (simp add: bufs_ok_alt assms(2))
qed

lemma alloc_filter_inv:
  assumes al: "exanic_alloc_filter_dma dma e p b = Some (r, e')" and inv: "steer_inv e p"
  shows "steer_inv e' p \<and> only_port p e e'"
proof -
  let ?P = "port e p" and ?m = "k_max_filter_buffers e"
  let ?buf = "filter_buffers ?P ! b"
  have P: "port_inv ?m (regs_virt e) p ?P" using inv by (simp add: steer_inv_def)
  then have bo: "bufs_ok ?m (regs_virt e) p ?P" by (simp add: port_inv_def)
  have done1: "steer_inv e' p \<and> only_port p e e'"
    if e': "port e' p = ?P\<lparr>filter_buffers := (filter_buffers ?P)[b := x]\<rparr>" "\<And>q. q \<noteq> p \<Longrightarrow> port e' q = port e q"
        "k_max_filter_buffers e' = ?m" "k_num_ports e' = k_num_ports e"
      and x: "region_virt ?buf \<noteq> None \<longrightarrow> region_virt x \<noteq> None" "buf_ok (regs_virt e') p b x"
      and r: "\<And>a. a \<noteq> REG_FILTERS_OFFSET p 0 + 2 * b * 4 \<Longrightarrow> a \<noteq> REG_FILTERS_OFFSET p 0 + 2 * b * 4 + 4 \<Longrightarrow>
        regs_virt e' a = regs_virt e a"
      and b: "b < ?m" for x
  proof -
    have b4: "b < 0x4000" using b bo by (simp add: bufs_ok_def)
    have lv: "live ?P c \<Longrightarrow> live (port e' p) c" for c
      using x(1) by (cases "c = b") (auto simp: live_def e')
    have "agree (REG_FILTERS_OFFSET p 0x20000) (REG_FILTERS_OFFSET p 0x80000) (regs_virt e) (regs_virt e')"
      unfolding agree_def using b4 by (intro allI impI r) (auto simp: REG_FILTERS_OFFSET_def)
    note ag = this
    have A: "ip_side (ip_filter_slots ?P) (regs_virt e) p ?P" "mac_side (mac_filter_slots ?P) (regs_virt e) p ?P"
      using P by (simp_all add: port_inv_def)
    have "bufs_ok ?m (regs_virt e') p (port e' p)"
      using x(2) r by (intro bufs_put [OF bo, where b = b and x = x]) (simp_all add: e')
    moreover have "ip_side (ip_filter_slots ?P) (regs_virt e') p (port e' p)"
      by (rule sides_frame(1) [OF ag _ A(1)]) (rule lv)
    moreover have "mac_side (mac_filter_slots ?P) (regs_virt e') p (port e' p)"
      by (rule sides_frame(2) [OF ag _ A(2)]) (rule lv)
    ultimately have "steer_inv e' p" using P by (simp add: steer_inv_def port_inv_def e')
    moreover have "only_port p e e'"
    proof (rule only_portI)
      fix a assume "\<not> (REG_FILTERS_OFFSET p 0 \<le> a \<and> a < REG_FILTERS_OFFSET p 0x80000)"
      then show "regs_virt e' a = regs_virt e a"
        using b4 by (intro r) (auto simp: REG_FILTERS_OFFSET_def)
    qed (simp_all add: e')
    ultimately show ?thesis ..
  qed
  show ?thesis
  proof (cases "k_num_ports e \<le> p \<or> ?m \<le> b")
    case True
    then have "e' = e" using al by (auto simp: exanic_alloc_filter_dma_def split: if_splits)
    with inv show ?thesis by simp
  next
    case False
    then have b: "b < ?m" and len: "length (filter_buffers ?P) = ?m" using bo by (simp_all add: bufs_ok_def)
    have ok: "buf_ok (regs_virt e) p b ?buf" using bo b by (simp add: bufs_ok_alt)
    show ?thesis
    proof (cases "0 < buf_refcount ?buf")
      case True
      then have "e' = put_buffer p b (?buf\<lparr>buf_refcount := buf_refcount ?buf + 1\<rparr>) e"
        using al False len b by (auto simp: exanic_alloc_filter_dma_def Let_def split: if_splits)
      then show ?thesis using True ok b
        by (intro done1 [of "?buf\<lparr>buf_refcount := buf_refcount ?buf + 1\<rparr>"]) (simp_all add: buf_ok_def)
    next
      case f: False
      show ?thesis
      proof (cases dma)
        case None
        then have "e' = put_buffer p b (?buf\<lparr>region_virt := None\<rparr>) e"
          using al False f len b by (simp add: exanic_alloc_filter_dma_def Let_def)
        then show ?thesis using f ok b
          by (intro done1 [of "?buf\<lparr>region_virt := None\<rparr>"]) (auto simp: buf_ok_def)
      next
        case (Some va)
        obtain virt addr where va: "va = (virt, addr)" by (cases va)
        let ?x = "?buf\<lparr>region_virt := Some virt, region_dma := addr\<rparr>"
        have e': "e' = put_buffer p b (?x\<lparr>buf_refcount := buf_refcount ?x + 1\<rparr>)
            (write_base_addr p b (addr OR dma_cfg addr) (drop_bit 32 addr) (put_buffer p b ?x e))"
          using al False f len b Some va by (simp add: exanic_alloc_filter_dma_def Let_def)
        show ?thesis using f ok b
          by (intro done1 [of "?x\<lparr>buf_refcount := buf_refcount ?x + 1\<rparr>"])
            (auto simp: e' buf_ok_def write_base_addr_regs)
      qed
    qed
  qed
qed

lemma hash_reg_below: "p < 16 \<Longrightarrow> REG_PORT_OFFSET p REG_PORT_HASH_CONFIG < REG_FILTERS_OFFSET 0 0"
proof -
  assume "p < 16"
  then have "p - 8 < 8" by simp
  with \<open>p < 16\<close> show ?thesis by (simp add: REG_PORT_OFFSET_def REG_FILTERS_OFFSET_def)
qed

lemma hash_inv:
  assumes "steer_inv e p" "p < 16"
  shows "steer_inv (exanic_configure_port_hash e p en m f) p \<and> only_port p e (exanic_configure_port_hash e p en m f)"
proof -
  have off: "REG_PORT_OFFSET p REG_PORT_HASH_CONFIG < REG_FILTERS_OFFSET 0 0"
    using assms(2) by (rule hash_reg_below)
  then have "only_port p e (exanic_configure_port_hash e p en m f)"
    unfolding exanic_configure_port_hash_def Let_def
    by (intro only_port_trans [OF only_port_set_port only_port_writel]) simp
  moreover have "agree (REG_FILTERS_OFFSET p 0) (REG_FILTERS_OFFSET p 0x80000) (regs_virt e)
      (regs_virt (exanic_configure_port_hash e p en m f))"
    using off by (auto simp: agree_def exanic_configure_port_hash_def Let_def regs_writel REG_FILTERS_OFFSET_def)
  from port_inv_frame [OF assms(1) [unfolded steer_inv_def] this]
  have "steer_inv (exanic_configure_port_hash e p en m f) p"
    by (simp add: steer_inv_def exanic_configure_port_hash_def Let_def)
  ultimately show ?thesis by simp
qed

lemma put_buffer_inv:
  assumes "steer_inv e p" "b < k_max_filter_buffers e" "buf_ok (regs_virt e) p b x" "region_virt x \<noteq> None"
  shows "steer_inv (put_buffer p b x e) p"
proof -
  let ?P = "port e p" and ?P' = "(port e p)\<lparr>filter_buffers := (filter_buffers (port e p))[b := x]\<rparr>"
  have P: "port_inv (k_max_filter_buffers e) (regs_virt e) p ?P" using assms(1) by (simp add: steer_inv_def)
  have lv: "live ?P c \<Longrightarrow> live ?P' c" for c
    using assms(4) by (cases "c = b") (auto simp: live_def)
  have "agree lo hi (regs_virt e) (regs_virt e)" for lo hi by (simp add: agree_def)
  note ag = this
  have A: "ip_side (ip_filter_slots ?P) (regs_virt e) p ?P" "mac_side (mac_filter_slots ?P) (regs_virt e) p ?P"
    using P by (simp_all add: port_inv_def)
  have "ip_side (ip_filter_slots ?P) (regs_virt e) p ?P'"
    by (rule sides_frame(1) [OF ag _ A(1)]) (rule lv)
  moreover have "mac_side (mac_filter_slots ?P) (regs_virt e) p ?P'"
    by (rule sides_frame(2) [OF ag _ A(2)]) (rule lv)
  moreover have "bufs_ok (k_max_filter_buffers e) (regs_virt e) p ?P'"
  proof (rule bufs_put)
    show "bufs_ok (k_max_filter_buffers e) (regs_virt e) p ?P" using P by (simp add: port_inv_def)
    show "filter_buffers ?P' = (filter_buffers ?P)[b := x]" by simp
  qed (use assms(3) in simp_all)
  ultimately show ?thesis using P by (simp add: steer_inv_def port_inv_def)
qed

text \<open>Releasing a buffer: while references remain only the count changes; the last one takes
  every rule of the buffer out of the card before the memory is given back.\<close>

lemma free_filter_inv:
  assumes fr: "exanic_free_filter_dma e p b = Some e'" and inv: "steer_inv e p"
    and b: "b < k_max_filter_buffers e" and p: "p < 16"
  shows "steer_inv e' p \<and> only_port p e e' \<and>
    (buf_refcount (filter_buffers (port e p) ! b) = 1 \<longrightarrow>
       region_virt (filter_buffers (port e' p) ! b) = None \<and>
       regs_virt e' (REG_FILTERS_OFFSET p REG_BUFFER_BASEADDR + 2 * b * 4) = 0 \<and>
       regs_virt e' (REG_FILTERS_OFFSET p REG_BUFFER_BASEADDR + 2 * b * 4 + 4) = 0)"
proof -
  let ?P = "port e p" and ?m = "k_max_filter_buffers e"
  let ?buf = "filter_buffers ?P ! b"
  have P: "port_inv ?m (regs_virt e) p ?P" using inv by (simp add: steer_inv_def)
  then have bo: "bufs_ok ?m (regs_virt e) p ?P" by (simp add: port_inv_def)
  then have len: "length (filter_buffers ?P) = ?m" and ok: "buf_ok (regs_virt e) p b ?buf" and b4: "b < 0x4000"
    using b by (simp_all add: bufs_ok_alt)
  consider "region_virt ?buf = None" | "region_virt ?buf \<noteq> None" "1 < buf_refcount ?buf"
    | "region_virt ?buf \<noteq> None" "buf_refcount ?buf = 1"
    using ok by (fastforce simp: buf_ok_def)
  then show ?thesis
  proof cases
    case 1
    then have "e' = e" "buf_refcount ?buf = 0" using fr len b ok by (auto simp: exanic_free_filter_dma_def Let_def buf_ok_def)
    with inv show ?thesis by simp
  next
    case 2
    then have e': "e' = put_buffer p b (?buf\<lparr>buf_refcount := buf_refcount ?buf - 1\<rparr>) e"
      using fr len b by (auto simp: exanic_free_filter_dma_def Let_def split: if_splits)
    have "steer_inv e' p"
      unfolding e' using 2 ok b by (intro put_buffer_inv inv) (simp_all add: buf_ok_def)
    moreover have "only_port p e e'" unfolding e' put_buffer_def by simp
    ultimately show ?thesis using 2 by simp
  next
    case 3
    let ?x = "?buf\<lparr>buf_refcount := 0\<rparr>"
    let ?e1 = "put_buffer p b ?x e"
    obtain e2 where e2: "exanic_remove_rx_filter_assoc ?e1 p b = Some e2"
      and e': "e' = (let e4 = write_base_addr p b 0 0 (exanic_configure_port_hash e2 p False 0 0);
                         buf4 = filter_buffers (port e4 p) ! b
                     in put_buffer p b (buf4\<lparr>region_virt := None, region_dma := 0\<rparr>) e4)"
      using fr len b 3 by (auto simp: exanic_free_filter_dma_def Let_def split: option.splits)
    have lv1: "live (port ?e1 p) c \<longleftrightarrow> live ?P c" for c
      using 3(1) by (cases "c = b") (auto simp: live_def)
    have "ip_side (ip_filter_slots (port ?e1 p)) (regs_virt ?e1) p ?P"
      "mac_side (mac_filter_slots (port ?e1 p)) (regs_virt ?e1) p ?P"
      using P by (simp_all add: port_inv_def)
    from remove_assoc_inv [OF e2 _ this(1) _ this(2) lv1] P have R:
      "ip_side (ip_filter_slots (port e2 p)) (regs_virt e2) p (port e2 p)"
      "mac_side (mac_filter_slots (port e2 p)) (regs_virt e2) p (port e2 p)"
      "length (ip_filter_slots (port e2 p)) = length (ip_filter_slots ?P)"
      "length (mac_filter_slots (port e2 p)) = length (mac_filter_slots ?P)"
      "\<forall>n<length (ip_filter_slots ?P). ip_enable (ip_filter_slots (port e2 p) ! n) \<longrightarrow> ip_buffer (ip_filter_slots (port e2 p) ! n) \<noteq> b"
      "\<forall>n<length (mac_filter_slots ?P). mac_enable (mac_filter_slots (port e2 p) ! n) \<longrightarrow> mac_buffer (mac_filter_slots (port e2 p) ! n) \<noteq> b"
      "same_outside (REG_FILTERS_OFFSET p REG_FILTER_MAC_RULES) (REG_FILTERS_OFFSET p 0x80000) (regs_virt e) (regs_virt e2)"
      and ex: "\<exists>xs ys r. e2 = set_port p ((port ?e1 p)\<lparr>ip_filter_slots := xs, mac_filter_slots := ys\<rparr>) ?e1\<lparr>regs_virt := r\<rparr>"
      by (simp_all add: port_inv_def)
    obtain xs ys r where x: "e2 = set_port p ((port ?e1 p)\<lparr>ip_filter_slots := xs, mac_filter_slots := ys\<rparr>) ?e1\<lparr>regs_virt := r\<rparr>"
      using ex by blast
    let ?e3 = "exanic_configure_port_hash e2 p False 0 0"
    let ?y = "?x\<lparr>region_virt := None, region_dma := 0\<rparr>"
    have P2: "port e2 p = ?P\<lparr>filter_buffers := (filter_buffers ?P)[b := ?x], ip_filter_slots := xs, mac_filter_slots := ys\<rparr>"
      by (simp add: x)
    have P3: "port ?e3 p = (port e2 p)\<lparr>flow_hashing_enabled := False\<rparr>"
      by (simp add: exanic_configure_port_hash_def Let_def)
    have e'': "e' = put_buffer p b ?y (write_base_addr p b 0 0 ?e3)"
      using b len by (simp add: e' Let_def P3 P2)
    have P': "port e' p = (port e2 p)\<lparr>flow_hashing_enabled := False, filter_buffers := (filter_buffers ?P)[b := ?y]\<rparr>"
      by (simp add: e'' P3 P2)
    have off: "REG_PORT_OFFSET p REG_PORT_HASH_CONFIG < REG_FILTERS_OFFSET 0 0"
      using p by (rule hash_reg_below)
    have r': "regs_virt e' a = (if a = REG_FILTERS_OFFSET p 0 + 2 * b * 4 \<or> a = REG_FILTERS_OFFSET p 0 + 2 * b * 4 + 4 then 0
        else regs_virt e2 a)" if "REG_FILTERS_OFFSET 0 0 \<le> a" for a
      using that off
      by (simp add: e'' write_base_addr_regs exanic_configure_port_hash_def Let_def regs_writel)
    have rr: "regs_virt e' a = regs_virt e a"
      if "REG_FILTERS_OFFSET 0 0 \<le> a" "a \<noteq> REG_FILTERS_OFFSET p 0 + 2 * b * 4" "a \<noteq> REG_FILTERS_OFFSET p 0 + 2 * b * 4 + 4"
        "a < REG_FILTERS_OFFSET p 0x40000 \<or> REG_FILTERS_OFFSET p 0x80000 \<le> a" for a
      using r' [OF that(1)] same_outsideD [OF R(7) that(4)] that(2,3) by simp
    have "agree (REG_FILTERS_OFFSET p 0x20000) (REG_FILTERS_OFFSET p 0x80000) (regs_virt e2) (regs_virt e')"
      unfolding agree_def
    proof (intro allI impI)
      fix a assume a: "REG_FILTERS_OFFSET p 0x20000 \<le> a \<and> a < REG_FILTERS_OFFSET p 0x80000"
      then have "REG_FILTERS_OFFSET 0 0 \<le> a" by (simp add: REG_FILTERS_OFFSET_def)
      from r' [OF this] a b4 show "regs_virt e' a = regs_virt e2 a" by (auto simp: REG_FILTERS_OFFSET_def)
    qed
    note ag = this
    have lv2: "live (port e2 p) c \<Longrightarrow> c \<noteq> b \<Longrightarrow> live (port e' p) c" for c
      by (simp add: P2 P' live_def)
    have "ip_side (ip_filter_slots (port e2 p)) (regs_virt e') p (port e' p)"
    proof (rule ip.side_kill [where b = b])
      show "ip_side (ip_filter_slots (port e2 p)) (regs_virt e') p (port e2 p)"
        by (rule sides_frame(1) [OF ag _ R(1)])
    qed (use R(3,5) lv2 in simp_all)
    moreover have "mac_side (mac_filter_slots (port e2 p)) (regs_virt e') p (port e' p)"
    proof (rule mac.side_kill [where b = b])
      show "mac_side (mac_filter_slots (port e2 p)) (regs_virt e') p (port e2 p)"
        by (rule sides_frame(2) [OF ag _ R(2)])
    qed (use R(4,6) lv2 in simp_all)
    moreover have "bufs_ok ?m (regs_virt e') p (port e' p)"
    proof (rule bufs_put [OF bo, where b = b and x = ?y])
      show "filter_buffers (port e' p) = (filter_buffers ?P)[b := ?y]" by (simp add: P')
      show "buf_ok (regs_virt e') p b ?y" by (simp add: buf_ok_def)
      fix a assume a: "REG_FILTERS_OFFSET p 0 \<le> a" "a < REG_FILTERS_OFFSET p 0x20000"
        "a \<noteq> REG_FILTERS_OFFSET p 0 + 2 * b * 4" "a \<noteq> REG_FILTERS_OFFSET p 0 + 2 * b * 4 + 4"
      show "regs_virt e' a = regs_virt e a"
        using a by (intro rr) (auto simp: REG_FILTERS_OFFSET_def)
    qed
    ultimately have "steer_inv e' p"
      using P R(3,4) by (simp add: steer_inv_def port_inv_def P' P2) (simp add: e'' exanic_configure_port_hash_def Let_def x)
    moreover have "only_port p e e'"
    proof (rule only_portI)
      fix a assume "REG_FILTERS_OFFSET 0 0 \<le> a" "\<not> (REG_FILTERS_OFFSET p 0 \<le> a \<and> a < REG_FILTERS_OFFSET p 0x80000)"
      then show "regs_virt e' a = regs_virt e a"
        using b4 by (intro rr) (auto simp: REG_FILTERS_OFFSET_def)
    qed (simp_all add: e'' exanic_configure_port_hash_def Let_def x)
    ultimately show ?thesis
      using r' [of "REG_FILTERS_OFFSET p 0 + 2 * b * 4"] r' [of "REG_FILTERS_OFFSET p 0 + 2 * b * 4 + 4"] b len
      by (simp add: P' REG_FILTERS_OFFSET_def)
  qed
qed

end
