(* ===== verification/KSystem.thy ===== *)
theory KSystem
  imports KIoctl KSteer
begin

text \<open>
  The driver as a system: any number of open files, whose operations interleave. A state is
  the device and the context of each open file. The invariant has two parts: the pages and
  the feedback slots marked on the device are divided among the contexts, and the steering
  configuration of every port is consistent.
\<close>

subsection \<open>A bitmap divided among owners\<close>

definition divided :: "nat \<Rightarrow> bool list \<Rightarrow> ('fd \<Rightarrow> bool list option) \<Rightarrow> bool" where
  "divided n dev owns \<longleftrightarrow>
     length dev = n \<and>
     (\<forall>fd own. owns fd = Some own \<longrightarrow> length own = n \<and> (\<forall>p<n. own ! p \<longrightarrow> dev ! p)) \<and>
     (\<forall>p<n. dev ! p \<longrightarrow> (\<exists>fd own. owns fd = Some own \<and> own ! p)) \<and>
     (\<forall>fd fd' own own' p. owns fd = Some own \<longrightarrow> owns fd' = Some own' \<longrightarrow> p < n \<longrightarrow>
        own ! p \<longrightarrow> own' ! p \<longrightarrow> fd = fd')"

lemma dividedD:
  assumes "divided n dev owns"
  shows "length dev = n" "owns fd = Some own \<Longrightarrow> length own = n"
    "owns fd = Some own \<Longrightarrow> p < n \<Longrightarrow> own ! p \<Longrightarrow> dev ! p"
    "p < n \<Longrightarrow> dev ! p \<Longrightarrow> \<exists>fd own. owns fd = Some own \<and> own ! p"
    "owns fd = Some own \<Longrightarrow> owns fd' = Some own' \<Longrightarrow> p < n \<Longrightarrow> own ! p \<Longrightarrow> own' ! p \<Longrightarrow> fd = fd'"
  using assms by (simp_all add: divided_def)

lemma dividedI:
  assumes "length dev = n" "\<And>fd own. owns fd = Some own \<Longrightarrow> length own = n"
    "\<And>fd own p. owns fd = Some own \<Longrightarrow> p < n \<Longrightarrow> own ! p \<Longrightarrow> dev ! p"
    "\<And>p. p < n \<Longrightarrow> dev ! p \<Longrightarrow> \<exists>fd own. owns fd = Some own \<and> own ! p"
    "\<And>fd fd' own own' p. owns fd = Some own \<Longrightarrow> owns fd' = Some own' \<Longrightarrow> p < n \<Longrightarrow> own ! p \<Longrightarrow> own' ! p \<Longrightarrow> fd = fd'"
  shows "divided n dev owns"
  using assms by (simp add: divided_def)

text \<open>Taking free bits.\<close>

lemma divided_take:
  assumes d: "divided n dev owns" and fd: "owns fd = Some own"
    and dev': "length dev' = n" "\<And>p. p < n \<Longrightarrow> dev' ! p \<longleftrightarrow> dev ! p \<or> p \<in> S"
    and own': "length own' = n" "\<And>p. p < n \<Longrightarrow> own' ! p \<longleftrightarrow> own ! p \<or> p \<in> S"
    and free: "\<And>p. p < n \<Longrightarrow> p \<in> S \<Longrightarrow> \<not> dev ! p"
  shows "divided n dev' (owns(fd \<mapsto> own'))"
proof (rule dividedI)
  fix f o' p assume f: "(owns(fd \<mapsto> own')) f = Some o'" "p < n" "o' ! p"
  then show "dev' ! p"
    using dividedD(3) [OF d fd] dividedD(3) [OF d, of f o'] dev'(2) own'(2) by (cases "f = fd") auto
next
  fix p assume p: "p < n" "dev' ! p"
  show "\<exists>f o'. (owns(fd \<mapsto> own')) f = Some o' \<and> o' ! p"
  proof (cases "own' ! p")
    case True
    then show ?thesis by (intro exI [of _ fd]) simp
  next
    case False
    with p dev'(2) own'(2) have "dev ! p" "\<not> own ! p" by auto
    then obtain f o' where o: "owns f = Some o'" "o' ! p" using dividedD(4) [OF d p(1)] by blast
    with fd \<open>\<not> own ! p\<close> have "f \<noteq> fd" by auto
    with o show ?thesis by (intro exI [of _ f]) simp
  qed
next
  fix f f' o1 o2 p
  assume a: "(owns(fd \<mapsto> own')) f = Some o1" "(owns(fd \<mapsto> own')) f' = Some o2" "p < n" "o1 ! p" "o2 ! p"
  have *: "f = f'" if "owns f = Some x" "owns f' = Some y" "x ! p" "y ! p" for x y
    using dividedD(5) [OF d that(1,2) a(3) that(3,4)] .
  have nS: "x ! p \<Longrightarrow> owns g = Some x \<Longrightarrow> p \<notin> S" for x g
    using dividedD(3) [OF d _ a(3)] free [OF a(3)] by blast
  show "f = f'"
    using a own'(2) [OF a(3)] * nS fd by (cases "f = fd"; cases "f' = fd") auto
qed (use dividedD(2) [OF d] dev'(1) own'(1) in \<open>auto split: if_splits\<close>)

text \<open>Giving back bits the owner has.\<close>

lemma divided_drop:
  assumes d: "divided n dev owns" and fd: "owns fd = Some own"
    and dev': "length dev' = n" "\<And>p. p < n \<Longrightarrow> dev' ! p \<longleftrightarrow> dev ! p \<and> \<not> (p \<in> S \<and> own ! p)"
    and own': "length own' = n" "\<And>p. p < n \<Longrightarrow> own' ! p \<longleftrightarrow> own ! p \<and> p \<notin> S"
  shows "divided n dev' (owns(fd \<mapsto> own'))"
proof (rule dividedI)
  fix f o' p assume f: "(owns(fd \<mapsto> own')) f = Some o'" "p < n" "o' ! p"
  show "dev' ! p"
  proof (cases "f = fd")
    case True
    with f own'(2) dev'(2) dividedD(3) [OF d fd] show ?thesis by auto
  next
    case False
    then have o: "owns f = Some o'" using f(1) by simp
    have "\<not> own ! p" using dividedD(5) [OF d o fd f(2,3)] False by blast
    with dev'(2) [OF f(2)] dividedD(3) [OF d o f(2,3)] show ?thesis by simp
  qed
next
  fix p assume p: "p < n" "dev' ! p"
  then have "dev ! p" "\<not> (p \<in> S \<and> own ! p)" using dev'(2) by auto
  from dividedD(4) [OF d p(1) this(1)] obtain f o' where o: "owns f = Some o'" "o' ! p" by auto
  show "\<exists>f o'. (owns(fd \<mapsto> own')) f = Some o' \<and> o' ! p"
  proof (cases "f = fd")
    case True
    with o fd \<open>\<not> (p \<in> S \<and> own ! p)\<close> own'(2) [OF p(1)] show ?thesis by (intro exI [of _ fd]) simp
  next
    case False
    with o show ?thesis by (intro exI [of _ f]) simp
  qed
next
  fix f f' o1 o2 p
  assume a: "(owns(fd \<mapsto> own')) f = Some o1" "(owns(fd \<mapsto> own')) f' = Some o2" "p < n" "o1 ! p" "o2 ! p"
  have *: "f = f'" if "owns f = Some x" "owns f' = Some y" "x ! p" "y ! p" for x y
    using dividedD(5) [OF d that(1,2) a(3) that(3,4)] .
  show "f = f'"
    using a own'(2) [OF a(3)] * fd by (cases "f = fd"; cases "f' = fd") auto
qed (use dividedD(2) [OF d] dev'(1) own'(1) in \<open>auto split: if_splits\<close>)

text \<open>A new owner with nothing, and an owner that leaves.\<close>

lemma divided_open:
  assumes "divided n dev owns" "owns fd = None"
  shows "divided n dev (owns(fd \<mapsto> replicate n False))"
proof (rule dividedI)
  fix p assume p: "p < n" "dev ! p"
  then obtain f o' where o: "owns f = Some o'" "o' ! p" using dividedD(4) [OF assms(1)] by blast
  with assms(2) have "f \<noteq> fd" by auto
  with o show "\<exists>f o'. (owns(fd \<mapsto> replicate n False)) f = Some o' \<and> o' ! p"
    by (intro exI [of _ f]) simp
next
  fix f f' o1 o2 p
  assume a: "(owns(fd \<mapsto> replicate n False)) f = Some o1" "(owns(fd \<mapsto> replicate n False)) f' = Some o2"
    "p < n" "o1 ! p" "o2 ! p"
  then have "f \<noteq> fd" "f' \<noteq> fd" by auto
  with a show "f = f'" by (intro dividedD(5) [OF assms(1) _ _ a(3-5)]) simp_all
qed (use assms in \<open>auto simp: divided_def split: if_splits\<close>)

lemma divided_close:
  assumes d: "divided n dev owns" and fd: "owns fd = Some own"
    and dev': "length dev' = n" "\<And>p. p < n \<Longrightarrow> dev' ! p \<longleftrightarrow> dev ! p \<and> \<not> own ! p"
  shows "divided n dev' (owns(fd := None))"
proof (rule dividedI)
  fix f o' p assume f: "(owns(fd := None)) f = Some o'" "p < n" "o' ! p"
  then have o: "owns f = Some o'" and ne: "f \<noteq> fd" by (auto split: if_splits)
  have "\<not> own ! p" using dividedD(5) [OF d o fd f(2,3)] ne by blast
  with dev'(2) [OF f(2)] dividedD(3) [OF d o f(2,3)] show "dev' ! p" by simp
next
  fix p assume p: "p < n" "dev' ! p"
  with dev'(2) dividedD(4) [OF d p(1)] obtain f o' where o: "owns f = Some o'" "o' ! p" by auto
  with p dev'(2) [OF p(1)] fd have "f \<noteq> fd" by auto
  with o show "\<exists>f o'. (owns(fd := None)) f = Some o' \<and> o' ! p" by (intro exI [of _ f]) simp
next
  fix f f' o1 o2 p
  assume a: "(owns(fd := None)) f = Some o1" "(owns(fd := None)) f' = Some o2" "p < n" "o1 ! p" "o2 ! p"
  then show "f = f'" by (intro dividedD(5) [OF d _ _ a(3-5)]) (auto split: if_splits)
qed (use dividedD(2) [OF d] dev'(1) in \<open>auto split: if_splits\<close>)

subsection \<open>The bitmap operations\<close>

lemma length_set_pages [simp]: "length (set_pages v ps bm) = length bm"
  by (induction ps arbitrary: bm) (simp_all add: set_pages_def)

lemma set_pages_nth: "i < length bm \<Longrightarrow> set_pages v ps bm ! i = (if i \<in> set ps then v else bm ! i)"
  by (induction ps arbitrary: bm) (auto simp: set_pages_def nth_list_update)

lemma pages_free_Some:
  "pages_free bm p n = Some r \<Longrightarrow> r \<longleftrightarrow> (\<forall>i. p \<le> i \<and> i < p + n \<longrightarrow> i < length bm \<and> \<not> bm ! i)"
proof (induction bm p n arbitrary: r rule: pages_free.induct)
  case (2 bm p n)
  show ?case
  proof (cases "bm ! p")
    case True
    with "2.prems" show ?thesis by (auto split: if_splits)
  next
    case False
    then have l: "p < length bm" and r: "pages_free bm (Suc p) n = Some r" using "2.prems" by (auto split: if_splits)
    have "(p \<le> i \<and> i < p + Suc n) \<longleftrightarrow> i = p \<or> (Suc p \<le> i \<and> i < Suc p + n)" for i by auto
    then show ?thesis using "2.IH" [OF l False r] l False by (metis (lifting))
  qed
qed auto

lemma pages_free_total: "p + n \<le> length bm \<Longrightarrow> \<exists>r. pages_free bm p n = Some r"
  by (induction bm p n rule: pages_free.induct) auto

text \<open>The search finds the first run of free pages of the usable range, if there is one.\<close>

lemma find_pages_Some:
  "find_pages bm n hi lo = Some page \<Longrightarrow>
    lo \<le> page \<and> (\<forall>q. lo \<le> q \<and> q < page \<longrightarrow> \<not> (\<forall>i. q \<le> i \<and> i < q + n \<longrightarrow> i < length bm \<and> \<not> bm ! i)) \<and>
    (page + n \<le> hi \<longrightarrow> (\<forall>i. page \<le> i \<and> i < page + n \<longrightarrow> i < length bm \<and> \<not> bm ! i))"
proof (induction bm n hi lo arbitrary: page rule: find_pages.induct)
  case (1 bm n hi lo)
  show ?case
  proof (cases "lo + n \<le> hi")
    case False
    with "1.prems" have "page = lo" by (subst (asm) find_pages.simps) simp
    with False show ?thesis by auto
  next
    case True
    then obtain r where r: "pages_free bm lo n = Some r"
      using "1.prems" by (subst (asm) find_pages.simps) (auto split: option.splits)
    note pf = pages_free_Some [OF r]
    show ?thesis
    proof (cases r)
      case True
      with r \<open>lo + n \<le> hi\<close> "1.prems" have "page = lo" by (subst (asm) find_pages.simps) simp
      with pf True show ?thesis by auto
    next
      case False
      with r \<open>lo + n \<le> hi\<close> "1.prems" have f: "find_pages bm n hi (Suc lo) = Some page"
        by (subst (asm) find_pages.simps) simp
      have "(lo \<le> q \<and> q < page) \<longrightarrow> q = lo \<or> Suc lo \<le> q \<and> q < page" for q by auto
      with "1.IH" [OF \<open>lo + n \<le> hi\<close> r _ f] False pf show ?thesis by (metis Suc_leD)
    qed
  qed
qed

lemma find_pages_total: "hi \<le> length bm \<Longrightarrow> \<exists>page. find_pages bm n hi lo = Some page"
proof (induction bm n hi lo rule: find_pages.induct)
  case (1 bm n hi lo)
  show ?case
  proof (cases "lo + n \<le> hi")
    case True
    then obtain r where r: "pages_free bm lo n = Some r" using pages_free_total [of lo n bm] "1.prems" by auto
    show ?thesis
    proof (cases r)
      case False
      then show ?thesis using "1.IH" [OF True r _ "1.prems"] True r by (subst find_pages.simps) simp
    qed (use True r in \<open>subst find_pages.simps, simp\<close>)
  qed (subst find_pages.simps, simp)
qed

lemma clear_pages_Some:
  "clear_pages ps dev own = Some (dev', own') \<Longrightarrow> length dev = length own \<Longrightarrow>
    length dev' = length own \<and> length own' = length own \<and> (\<forall>p\<in>set ps. p < length own) \<and>
    (\<forall>p<length own. (dev' ! p \<longleftrightarrow> dev ! p \<and> \<not> (p \<in> set ps \<and> own ! p)) \<and> (own' ! p \<longleftrightarrow> own ! p \<and> p \<notin> set ps))"
proof (induction ps dev own rule: clear_pages.induct)
  case (2 p ps dev own)
  show ?case
  proof (cases "own ! p")
    case True
    then have l: "\<not> length own \<le> p" and r: "clear_pages ps (dev[p := False]) (own[p := False]) = Some (dev', own')"
      using "2.prems" by (auto split: if_splits)
    from "2.IH"(1) [OF l True r] "2.prems"(2) l True show ?thesis by (auto simp: nth_list_update)
  next
    case False
    then have l: "\<not> length own \<le> p" and r: "clear_pages ps dev own = Some (dev', own')"
      using "2.prems" by (auto split: if_splits)
    from "2.IH"(2) [OF l False r "2.prems"(2)] l False show ?thesis by auto
  qed
qed simp

lemma clear_pages_total:
  "\<forall>p\<in>set ps. p < length own \<Longrightarrow> \<exists>r. clear_pages ps dev own = Some r"
  by (induction ps dev own rule: clear_pages.induct) auto

lemma bitmap_andnot_nth:
  "length a = length b \<Longrightarrow> length (bitmap_andnot a b) = length a \<and>
    (\<forall>p<length a. bitmap_andnot a b ! p \<longleftrightarrow> a ! p \<and> \<not> b ! p)"
  by (simp add: bitmap_andnot_def)

end
