(* ===== verification/KReach.thy ===== *)
theory KReach
  imports KSystem
begin

text \<open>
  The transition system of the driver and its invariant: open, \<open>ioctl\<close> and close of any
  file in any order, on a card whose configuration registers are sensible.
\<close>

type_synonym kstate = "kexanic \<times> (nat \<Rightarrow> exanic_ctx option)"

inductive kstep :: "kstate \<Rightarrow> kstate \<Rightarrow> bool" where
  kopen: "fds fd = None \<Longrightarrow> exanic_alloc_ctx True = Some c \<Longrightarrow> kstep (e, fds) (e, fds(fd \<mapsto> c))"
| kioctl: "fds fd = Some c \<Longrightarrow> exanic_ioctl env e c cmd = Some (r, e', c') \<Longrightarrow>
    kstep (e, fds) (e', fds(fd \<mapsto> c'))"
| kclose: "fds fd = Some c \<Longrightarrow> exanic_free_ctx mapped e c = Some e' \<Longrightarrow>
    kstep (e, fds) (e', fds(fd := None))"

inductive_cases kstepE: "kstep (e, fds) s'"

inductive kreach :: "kstate \<Rightarrow> kstate \<Rightarrow> bool" for s0 where
  kreach_init: "kreach s0 s0"
| kreach_step: "kreach s0 s \<Longrightarrow> kstep s s' \<Longrightarrow> kreach s0 s'"

text \<open>What the probe leaves: a supported number of ports, usable ranges inside the bitmap.\<close>

definition card_ok :: "kexanic \<Rightarrow> bool" where
  "card_ok e \<longleftrightarrow> k_num_ports e \<le> EXANIC_MAX_PORTS \<and>
     (\<forall>p<k_num_ports e. tx_region_usable_offset (port e p) div PAGE_SIZE +
        tx_region_usable_size (port e p) div PAGE_SIZE \<le> EXANIC_TX_REGION_MAX_NUM_PAGES)"

definition pages_ok :: "kstate \<Rightarrow> bool" where
  "pages_ok s \<longleftrightarrow> divided EXANIC_TX_REGION_MAX_NUM_PAGES (tx_region_bitmap (fst s))
     (\<lambda>fd. map_option ctx_tx_region_bitmap (snd s fd))"

definition slots_ok :: "kstate \<Rightarrow> bool" where
  "slots_ok s \<longleftrightarrow> divided EXANIC_TX_FEEDBACK_NUM_SLOTS (tx_feedback_bitmap (fst s))
     (\<lambda>fd. map_option ctx_tx_feedback_bitmap (snd s fd))"

definition refs_ok :: "kexanic \<Rightarrow> exanic_ctx \<Rightarrow> bool" where
  "refs_ok e c \<longleftrightarrow> distinct (filter_buffer_ref_list c) \<and>
     (\<forall>(p, b)\<in>set (filter_buffer_ref_list c). p < k_num_ports e \<and> b < k_max_filter_buffers e)"

definition kinv :: "kstate \<Rightarrow> bool" where
  "kinv s \<longleftrightarrow> card_ok (fst s) \<and> pages_ok s \<and> slots_ok s \<and>
     (\<forall>p<k_num_ports (fst s). steer_inv (fst s) p) \<and>
     (\<forall>fd c. snd s fd = Some c \<longrightarrow> refs_ok (fst s) c)"

subsection \<open>What the operations leave alone\<close>

text \<open>The transmit side of the device, and what the receive side does not touch.\<close>

definition same_tx :: "kexanic \<Rightarrow> kexanic \<Rightarrow> bool" where
  "same_tx e e' \<longleftrightarrow> tx_region_bitmap e' = tx_region_bitmap e \<and> tx_feedback_bitmap e' = tx_feedback_bitmap e \<and>
     k_num_ports e' = k_num_ports e \<and> k_max_filter_buffers e' = k_max_filter_buffers e \<and>
     (\<forall>p. tx_region_usable_offset (port e' p) = tx_region_usable_offset (port e p) \<and>
          tx_region_usable_size (port e' p) = tx_region_usable_size (port e p))"

lemma same_tx_refl [simp]: "same_tx e e"
  by (simp add: same_tx_def)

lemma same_tx_trans: "same_tx e e' \<Longrightarrow> same_tx e' e'' \<Longrightarrow> same_tx e e''"
  by (simp add: same_tx_def)

lemma same_tx_card: "same_tx e e' \<Longrightarrow> card_ok e' = card_ok e"
  by (simp add: same_tx_def card_ok_def)

lemma same_tx_refs: "same_tx e e' \<Longrightarrow> refs_ok e' c = refs_ok e c"
  by (simp add: same_tx_def refs_ok_def)

lemma same_tx_regs [simp]: "same_tx e (e\<lparr>regs_virt := r\<rparr>)"
  by (simp add: same_tx_def)

lemma same_tx_writel [simp]: "same_tx e (writel v off e)"
  by (simp add: same_tx_def)

lemma same_tx_set_port:
  "tx_region_usable_offset P = tx_region_usable_offset (port e p) \<Longrightarrow>
   tx_region_usable_size P = tx_region_usable_size (port e p) \<Longrightarrow> same_tx e (set_port p P e)"
  by (simp add: same_tx_def)

lemma same_tx_put_buffer [simp]: "same_tx e (put_buffer p b x e)"
  by (simp add: put_buffer_def same_tx_set_port)

lemma same_tx_write_base [simp]: "same_tx e (write_base_addr p b lo hi e)"
  unfolding write_base_addr_def Let_def by (rule same_tx_trans [OF same_tx_writel same_tx_writel])

lemma same_tx_hash [simp]: "same_tx e (exanic_configure_port_hash e p en m f)"
  unfolding exanic_configure_port_hash_def Let_def
  by (rule same_tx_trans [OF same_tx_set_port same_tx_writel]) simp_all

lemma same_tx_insert:
  "exanic_insert_ip_filter e p f = Some (r, e') \<Longrightarrow> same_tx e e'"
  "exanic_insert_mac_filter e p g = Some (r', e') \<Longrightarrow> same_tx e e'"
proof -
  assume "exanic_insert_ip_filter e p f = Some (r, e')"
  then show "same_tx e e'"
  proof (cases rule: insert_ip_cases)
    case (3 n e2)
    obtain rr where "e' = e2\<lparr>regs_virt := rr\<rparr>" using ip.update_bank_only [OF 3(8)] by blast
    then show ?thesis unfolding 3(7)
      by (simp add: same_tx_def)
  qed simp_all
next
  assume "exanic_insert_mac_filter e p g = Some (r', e')"
  then show "same_tx e e'"
  proof (cases rule: insert_mac_cases)
    case (3 n e2)
    obtain rr where "e' = e2\<lparr>regs_virt := rr\<rparr>" using mac.update_bank_only [OF 3(8)] by blast
    then show ?thesis unfolding 3(7)
      by (simp add: same_tx_def)
  qed simp_all
qed

lemma same_tx_remove:
  "exanic_remove_ip_filter e p n = Some (r, e') \<Longrightarrow> same_tx e e'"
  "exanic_remove_mac_filter e p n = Some (r', e') \<Longrightarrow> same_tx e e'"
proof -
  assume "exanic_remove_ip_filter e p n = Some (r, e')"
  then show "same_tx e e'"
  proof (cases rule: remove_ip_cases)
    case 2
    obtain rr where "e' = set_port p (disable_ip_slot n (port e p)) e\<lparr>regs_virt := rr\<rparr>"
      using ip.update_bank_only [OF 2(4)] by blast
    then show ?thesis by (simp add: same_tx_def disable_ip_slot_def)
  qed simp_all
next
  assume "exanic_remove_mac_filter e p n = Some (r', e')"
  then show "same_tx e e'"
  proof (cases rule: remove_mac_cases)
    case 2
    obtain rr where "e' = set_port p (disable_mac_slot n (port e p)) e\<lparr>regs_virt := rr\<rparr>"
      using mac.update_bank_only [OF 2(4)] by blast
    then show ?thesis by (simp add: same_tx_def disable_mac_slot_def)
  qed simp_all
qed

lemma same_tx_alloc_filter: "exanic_alloc_filter_dma dma e p b = Some (r, e') \<Longrightarrow> same_tx e e'"
proof -
  assume a: "exanic_alloc_filter_dma dma e p b = Some (r, e')"
  have "same_tx e (put_buffer p b y (write_base_addr p b lo hi (put_buffer p b x e)))" for x y lo hi
    by (rule same_tx_trans [OF same_tx_trans [OF same_tx_put_buffer same_tx_write_base] same_tx_put_buffer])
  with a show ?thesis
    by (auto simp: exanic_alloc_filter_dma_def Let_def split: if_splits option.splits)
qed

text \<open>Only filter slots of the port and registers change.\<close>

lemma remove_assoc_only:
  assumes a: "exanic_remove_rx_filter_assoc e p b = Some e'"
  shows "\<exists>xs ys r. e' = set_port p ((port e p)\<lparr>ip_filter_slots := xs, mac_filter_slots := ys\<rparr>) e\<lparr>regs_virt := r\<rparr>"
proof -
  let ?P = "port e p"
  have l: "max_ip_filter_slots ?P \<le> length (ip_filter_slots ?P)" "max_mac_filter_slots ?P \<le> length (mac_filter_slots ?P)"
    using a by (auto simp: exanic_remove_rx_filter_assoc_def Let_def split: if_splits)
  obtain xs where xs: "clear_ip_assoc b ?P = ?P\<lparr>ip_filter_slots := xs\<rparr>"
    using clear_ip_assoc_slots [OF l(1), of b] by blast
  let ?e1 = "set_port p (?P\<lparr>ip_filter_slots := xs\<rparr>) e"
  obtain e2 where e2: "update_banks exanic_update_hardware_ip_filter_bank p [0..<max_ip_filter_slots ?P div 32] ?e1 = Some e2"
    "update_banks exanic_update_hardware_mac_filter_bank p [0..<max_mac_filter_slots ?P div 32]
      (set_port p (clear_mac_assoc b (port e2 p)) e2) = Some e'"
    using a l by (auto simp: exanic_remove_rx_filter_assoc_def Let_def xs split: option.splits)
  obtain r1 where r1: "e2 = ?e1\<lparr>regs_virt := r1\<rparr>" using ip.update_banks_only [OF e2(1)] by blast
  obtain ys where ys: "clear_mac_assoc b (port e2 p) = (port e2 p)\<lparr>mac_filter_slots := ys\<rparr>"
    using clear_mac_assoc_slots [of "port e2 p" b] l(2) r1 by auto
  obtain r2 where r2: "e' = set_port p (clear_mac_assoc b (port e2 p)) e2\<lparr>regs_virt := r2\<rparr>"
    using mac.update_banks_only [OF e2(2)] by blast
  show ?thesis unfolding r2 ys by (intro exI [of _ xs] exI [of _ ys] exI [of _ r2]) (simp add: r1 set_port_def)
qed

lemma same_tx_remove_assoc: "exanic_remove_rx_filter_assoc e p b = Some e' \<Longrightarrow> same_tx e e'"
  by (drule remove_assoc_only) (auto simp: same_tx_def)

lemma same_tx_free_filter: "exanic_free_filter_dma e p b = Some e' \<Longrightarrow> same_tx e e'"
proof -
  assume a: "exanic_free_filter_dma e p b = Some e'"
  have "same_tx e (put_buffer p b y (write_base_addr p b 0 0 (exanic_configure_port_hash e2 p False 0 0)))"
    if "exanic_remove_rx_filter_assoc (put_buffer p b x e) p b = Some e2" for x y e2
    by (rule same_tx_trans [OF same_tx_trans [OF same_tx_trans [OF same_tx_trans [OF same_tx_put_buffer
            same_tx_remove_assoc [OF that]] same_tx_hash] same_tx_write_base] same_tx_put_buffer])
  with a show ?thesis
    by (auto simp: exanic_free_filter_dma_def Let_def split: if_splits option.splits)
qed

subsection \<open>The invariant is preserved\<close>

abbreviation (input) "steer_all e \<equiv> \<forall>p<k_num_ports e. steer_inv e p"

lemma steer_all_port:
  assumes "steer_all e" "steer_inv e' p \<and> only_port p e e'"
  shows "steer_all e'"
proof (intro allI impI)
  fix q assume "q < k_num_ports e'"
  then have "q < k_num_ports e" using assms(2) by (simp add: only_port_def)
  with assms show "steer_inv e' q" by (cases "q = p") (auto intro: only_port_inv)
qed

lemma steer_same:
  assumes "steer_all e" "regs_virt e' = regs_virt e" "k_num_ports e' = k_num_ports e"
    "k_max_filter_buffers e' = k_max_filter_buffers e"
    and "\<And>p. filter_buffers (port e' p) = filter_buffers (port e p)"
      "\<And>p. ip_filter_slots (port e' p) = ip_filter_slots (port e p)"
      "\<And>p. mac_filter_slots (port e' p) = mac_filter_slots (port e p)"
      "\<And>p. max_ip_filter_slots (port e' p) = max_ip_filter_slots (port e p)"
      "\<And>p. max_mac_filter_slots (port e' p) = max_mac_filter_slots (port e p)"
  shows "steer_all e'"
proof (intro allI impI)
  fix p assume "p < k_num_ports e'"
  then have "port_inv (k_max_filter_buffers e) (regs_virt e) p (port e p)"
    using assms(1,3) by (simp add: steer_inv_def)
  then have "port_inv (k_max_filter_buffers e) (regs_virt e) p (port e' p)"
    by (rule port_inv_frame) (simp_all add: assms agree_def)
  then show "steer_inv e' p" by (simp add: steer_inv_def assms)
qed

text \<open>Operations on the receive side: the transmit side is as before.\<close>

lemma kinv_rx:
  assumes inv: "kinv (e, fds)" and fd: "fds fd = Some c" and tx: "same_tx e e'"
    and c': "ctx_tx_region_bitmap c' = ctx_tx_region_bitmap c" "ctx_tx_feedback_bitmap c' = ctx_tx_feedback_bitmap c"
      "refs_ok e c'" and st: "steer_all e'"
  shows "kinv (e', fds(fd \<mapsto> c'))"
proof -
  have m: "(\<lambda>f. map_option ctx_tx_region_bitmap ((fds(fd \<mapsto> c')) f)) = (\<lambda>f. map_option ctx_tx_region_bitmap (fds f))"
    "(\<lambda>f. map_option ctx_tx_feedback_bitmap ((fds(fd \<mapsto> c')) f)) = (\<lambda>f. map_option ctx_tx_feedback_bitmap (fds f))"
    using fd c' by auto
  have "refs_ok e' x" if "(fds(fd \<mapsto> c')) f = Some x" for f x
    using that inv c'(3) same_tx_refs [OF tx] by (auto simp: kinv_def split: if_splits)
  moreover have "pages_ok (e', fds(fd \<mapsto> c'))" "slots_ok (e', fds(fd \<mapsto> c'))"
    using inv tx unfolding kinv_def pages_ok_def slots_ok_def same_tx_def fst_conv snd_conv m by simp_all
  moreover have "card_ok e'" using inv same_tx_card [OF tx] by (simp add: kinv_def)
  ultimately show ?thesis using st by (simp add: kinv_def)
qed

lemma kinv_id: "kinv (e, fds) \<Longrightarrow> fds fd = Some c \<Longrightarrow> kinv (e, fds(fd \<mapsto> c))"
  by (simp add: fun_upd_idem)

text \<open>Operations on the transmit side.\<close>

lemma kinv_tx:
  assumes inv: "kinv (e, fds)" and fd: "fds fd = Some c"
    and e': "e' = e\<lparr>tx_region_bitmap := bm, tx_feedback_bitmap := fb\<rparr>"
    and c': "c' = c\<lparr>ctx_tx_region_bitmap := cbm, ctx_tx_feedback_bitmap := cfb\<rparr>"
    and d: "divided 512 bm ((\<lambda>f. map_option ctx_tx_region_bitmap (fds f))(fd \<mapsto> cbm))"
      "divided 256 fb ((\<lambda>f. map_option ctx_tx_feedback_bitmap (fds f))(fd \<mapsto> cfb))"
  shows "kinv (e', fds(fd \<mapsto> c'))"
proof -
  have m: "(\<lambda>f. map_option ctx_tx_region_bitmap ((fds(fd \<mapsto> c')) f)) = (\<lambda>f. map_option ctx_tx_region_bitmap (fds f))(fd \<mapsto> cbm)"
    "(\<lambda>f. map_option ctx_tx_feedback_bitmap ((fds(fd \<mapsto> c')) f)) = (\<lambda>f. map_option ctx_tx_feedback_bitmap (fds f))(fd \<mapsto> cfb)"
    by (auto simp: c')
  have "steer_all e'"
  proof (rule steer_same)
    show "steer_all e" using inv by (simp add: kinv_def)
  qed (simp_all add: e')
  moreover have "card_ok e'" using inv by (simp add: kinv_def card_ok_def e')
  moreover have "refs_ok e' x" if "(fds(fd \<mapsto> c')) f = Some x" for f x
  proof -
    have r: "refs_ok e y" if "fds g = Some y" for g y using inv that by (simp add: kinv_def)
    have eq: "refs_ok e' y = refs_ok e y" "refs_ok e c' = refs_ok e c" for y
      by (simp_all add: refs_ok_def e' c')
    show ?thesis
    proof (cases "f = fd")
      case True
      with that have "x = c'" by simp
      with r [OF fd] show ?thesis by (simp only: eq)
    next
      case False
      with that have "fds f = Some x" by simp
      with r show ?thesis by (simp only: eq)
    qed
  qed
  moreover have "pages_ok (e', fds(fd \<mapsto> c'))" "slots_ok (e', fds(fd \<mapsto> c'))"
    using d unfolding pages_ok_def slots_ok_def fst_conv snd_conv m by (simp_all add: e')
  ultimately show ?thesis by (simp add: kinv_def)
qed

lemma divided_now:
  "kinv (e, fds) \<Longrightarrow> divided 512 (tx_region_bitmap e) (\<lambda>f. map_option ctx_tx_region_bitmap (fds f))"
  "kinv (e, fds) \<Longrightarrow> divided 256 (tx_feedback_bitmap e) (\<lambda>f. map_option ctx_tx_feedback_bitmap (fds f))"
  by (simp_all add: kinv_def pages_ok_def slots_ok_def)

lemma divided_keep: "divided n dev owns \<Longrightarrow> owns fd = Some own \<Longrightarrow> divided n dev (owns(fd \<mapsto> own))"
  by (simp add: fun_upd_idem)

text \<open>Allocation: the result is the first free run of the port's usable range.\<close>

lemma alloc_tx_region_spec:
  assumes al: "exanic_alloc_tx_region e c p sz = Some (r, e', c')"
    and len: "length (tx_region_bitmap e) = 512" "length (ctx_tx_region_bitmap c) = 512"
  shows "(r = Inl ENOMEM \<and> e' = e \<and> c' = c) \<or>
    (\<exists>page. r = Inr (page * PAGE_SIZE) \<and>
       tx_region_usable_offset (port e p) div PAGE_SIZE \<le> page \<and>
       page + sz div PAGE_SIZE \<le> tx_region_usable_offset (port e p) div PAGE_SIZE + tx_region_usable_size (port e p) div PAGE_SIZE \<and>
       (\<forall>i. page \<le> i \<and> i < page + sz div PAGE_SIZE \<longrightarrow> i < 512 \<and> \<not> tx_region_bitmap e ! i) \<and>
       e' = e\<lparr>tx_region_bitmap := set_pages True [page..<page + sz div PAGE_SIZE] (tx_region_bitmap e)\<rparr> \<and>
       c' = c\<lparr>ctx_tx_region_bitmap := set_pages True [page..<page + sz div PAGE_SIZE] (ctx_tx_region_bitmap c)\<rparr>)"
proof -
  let ?lo = "tx_region_usable_offset (port e p) div 4096" and ?n = "sz div 4096"
  let ?hi = "?lo + tx_region_usable_size (port e p) div 4096"
  obtain page where pg: "find_pages (tx_region_bitmap e) ?n ?hi ?lo = Some page"
    using al by (auto simp: exanic_alloc_tx_region_def Let_def split: option.splits)
  note f = find_pages_Some [OF pg]
  show ?thesis
  proof (cases "?hi < page + ?n")
    case True
    then show ?thesis using al pg by (simp add: exanic_alloc_tx_region_def Let_def)
  next
    case False
    then show ?thesis using al pg f len
      by (intro disjI2 exI [of _ page]) (auto simp: exanic_alloc_tx_region_def Let_def)
  qed
qed

lemma kinv_alloc_tx_region:
  assumes inv: "kinv (e, fds)" and fd: "fds fd = Some c" and al: "exanic_alloc_tx_region e c p sz = Some (r, e', c')"
  shows "kinv (e', fds(fd \<mapsto> c'))"
proof -
  note d = divided_now [OF inv]
  have len: "length (tx_region_bitmap e) = 512" "length (ctx_tx_region_bitmap c) = 512"
    using dividedD(1) [OF d(1)] dividedD(2) [OF d(1), of fd] fd by simp_all
  from alloc_tx_region_spec [OF al len] show ?thesis
  proof (elim disjE exE conjE)
    assume "e' = e" "c' = c"
    with inv fd show ?thesis by (simp add: kinv_id)
  next
    fix page
    let ?ps = "[page..<page + sz div 4096]"
    assume fr: "\<forall>i. page \<le> i \<and> i < page + sz div PAGE_SIZE \<longrightarrow> i < 512 \<and> \<not> tx_region_bitmap e ! i"
      and e': "e' = e\<lparr>tx_region_bitmap := set_pages True ?ps (tx_region_bitmap e)\<rparr>"
      and c': "c' = c\<lparr>ctx_tx_region_bitmap := set_pages True ?ps (ctx_tx_region_bitmap c)\<rparr>"
    show ?thesis
    proof (rule kinv_tx [OF inv fd])
      show "e' = e\<lparr>tx_region_bitmap := set_pages True ?ps (tx_region_bitmap e), tx_feedback_bitmap := tx_feedback_bitmap e\<rparr>"
        by (simp add: e')
      show "c' = c\<lparr>ctx_tx_region_bitmap := set_pages True ?ps (ctx_tx_region_bitmap c),
          ctx_tx_feedback_bitmap := ctx_tx_feedback_bitmap c\<rparr>"
        by (simp add: c')
      show "divided 512 (set_pages True ?ps (tx_region_bitmap e))
          ((\<lambda>f. map_option ctx_tx_region_bitmap (fds f))(fd \<mapsto> set_pages True ?ps (ctx_tx_region_bitmap c)))"
        using fd fr len by (intro divided_take [OF d(1), where S = "set ?ps"]) (auto simp: set_pages_nth)
      show "divided 256 (tx_feedback_bitmap e)
          ((\<lambda>f. map_option ctx_tx_feedback_bitmap (fds f))(fd \<mapsto> ctx_tx_feedback_bitmap c))"
        using fd by (intro divided_keep [OF d(2)]) simp
    qed
  qed
qed

lemma kinv_free_tx_region:
  assumes inv: "kinv (e, fds)" and fd: "fds fd = Some c" and fr: "exanic_free_tx_region e c p sz off = Some (r, e', c')"
  shows "kinv (e', fds(fd \<mapsto> c'))"
proof -
  note d = divided_now [OF inv]
  have len: "length (tx_region_bitmap e) = 512" "length (ctx_tx_region_bitmap c) = 512"
    using dividedD(1) [OF d(1)] dividedD(2) [OF d(1), of fd] fd by simp_all
  obtain dev own ps where cl: "clear_pages ps (tx_region_bitmap e) (ctx_tx_region_bitmap c) = Some (dev, own)"
    and ec: "e' = e\<lparr>tx_region_bitmap := dev\<rparr>" "c' = c\<lparr>ctx_tx_region_bitmap := own\<rparr>"
    using fr by (auto simp: exanic_free_tx_region_def Let_def split: option.splits)
  have cs: "length dev = 512" "length own = 512"
    "\<And>p. p < 512 \<Longrightarrow> dev ! p \<longleftrightarrow> tx_region_bitmap e ! p \<and> \<not> (p \<in> set ps \<and> ctx_tx_region_bitmap c ! p)"
    "\<And>p. p < 512 \<Longrightarrow> own ! p \<longleftrightarrow> ctx_tx_region_bitmap c ! p \<and> p \<notin> set ps"
    using clear_pages_Some [OF cl] len by simp_all
  show ?thesis
  proof (rule kinv_tx [OF inv fd])
    show "e' = e\<lparr>tx_region_bitmap := dev, tx_feedback_bitmap := tx_feedback_bitmap e\<rparr>" by (simp add: ec)
    show "c' = c\<lparr>ctx_tx_region_bitmap := own, ctx_tx_feedback_bitmap := ctx_tx_feedback_bitmap c\<rparr>" by (simp add: ec)
    show "divided 512 dev ((\<lambda>f. map_option ctx_tx_region_bitmap (fds f))(fd \<mapsto> own))"
      using fd cs by (intro divided_drop [OF d(1), where S = "set ps" and own = "ctx_tx_region_bitmap c"]) simp_all
    show "divided 256 (tx_feedback_bitmap e)
        ((\<lambda>f. map_option ctx_tx_feedback_bitmap (fds f))(fd \<mapsto> ctx_tx_feedback_bitmap c))"
      using fd by (intro divided_keep [OF d(2)]) simp
  qed
qed

lemma kinv_alloc_tx_feedback:
  assumes inv: "kinv (e, fds)" and fd: "fds fd = Some c" and al: "exanic_alloc_tx_feedback e c p = Some (r, e', c')"
  shows "kinv (e', fds(fd \<mapsto> c'))"
proof -
  note d = divided_now [OF inv]
  have len: "length (tx_feedback_bitmap e) = 256" "length (ctx_tx_feedback_bitmap c) = 256"
    using dividedD(1) [OF d(2)] dividedD(2) [OF d(2), of fd] fd by simp_all
  obtain slot where sl: "first_not (\<lambda>b. b) (tx_feedback_bitmap e) 256 = Some slot"
    using al by (auto simp: exanic_alloc_tx_feedback_def split: option.splits)
  note f = first_not_Some [OF sl]
  show ?thesis
  proof (cases "slot = 256")
    case True
    then have "e' = e" "c' = c" using al sl by (simp_all add: exanic_alloc_tx_feedback_def)
    with inv fd show ?thesis by (simp add: kinv_id)
  next
    case False
    then have ec: "e' = e\<lparr>tx_feedback_bitmap := (tx_feedback_bitmap e)[slot := True]\<rparr>"
      "c' = c\<lparr>ctx_tx_feedback_bitmap := (ctx_tx_feedback_bitmap c)[slot := True]\<rparr>"
      using al sl by (simp_all add: exanic_alloc_tx_feedback_def)
    show ?thesis
    proof (rule kinv_tx [OF inv fd])
      show "e' = e\<lparr>tx_region_bitmap := tx_region_bitmap e, tx_feedback_bitmap := (tx_feedback_bitmap e)[slot := True]\<rparr>"
        by (simp add: ec)
      show "c' = c\<lparr>ctx_tx_region_bitmap := ctx_tx_region_bitmap c,
          ctx_tx_feedback_bitmap := (ctx_tx_feedback_bitmap c)[slot := True]\<rparr>" by (simp add: ec)
      show "divided 512 (tx_region_bitmap e)
          ((\<lambda>f. map_option ctx_tx_region_bitmap (fds f))(fd \<mapsto> ctx_tx_region_bitmap c))"
        using fd by (intro divided_keep [OF d(1)]) simp
      show "divided 256 ((tx_feedback_bitmap e)[slot := True])
          ((\<lambda>f. map_option ctx_tx_feedback_bitmap (fds f))(fd \<mapsto> (ctx_tx_feedback_bitmap c)[slot := True]))"
        using fd f False len
        by (intro divided_take [OF d(2), where S = "{slot}" and own = "ctx_tx_feedback_bitmap c"])
          (auto simp: nth_list_update)
    qed
  qed
qed

lemma kinv_free_tx_feedback:
  assumes inv: "kinv (e, fds)" and fd: "fds fd = Some c" and fr: "exanic_free_tx_feedback e c p slot = Some (r, e', c')"
  shows "kinv (e', fds(fd \<mapsto> c'))"
proof -
  note d = divided_now [OF inv]
  have len: "length (tx_feedback_bitmap e) = 256" "length (ctx_tx_feedback_bitmap c) = 256"
    using dividedD(1) [OF d(2)] dividedD(2) [OF d(2), of fd] fd by simp_all
  obtain dev own where cl: "clear_pages [slot] (tx_feedback_bitmap e) (ctx_tx_feedback_bitmap c) = Some (dev, own)"
    and ec: "e' = e\<lparr>tx_feedback_bitmap := dev\<rparr>" "c' = c\<lparr>ctx_tx_feedback_bitmap := own\<rparr>"
    using fr by (auto simp: exanic_free_tx_feedback_def simp del: clear_pages.simps split: option.splits)
  have cs: "length dev = 256" "length own = 256"
    "\<And>p. p < 256 \<Longrightarrow> dev ! p \<longleftrightarrow> tx_feedback_bitmap e ! p \<and> \<not> (p \<in> {slot} \<and> ctx_tx_feedback_bitmap c ! p)"
    "\<And>p. p < 256 \<Longrightarrow> own ! p \<longleftrightarrow> ctx_tx_feedback_bitmap c ! p \<and> p \<notin> {slot}"
    using clear_pages_Some [OF cl] len by simp_all
  show ?thesis
  proof (rule kinv_tx [OF inv fd])
    show "e' = e\<lparr>tx_region_bitmap := tx_region_bitmap e, tx_feedback_bitmap := dev\<rparr>" by (simp add: ec)
    show "c' = c\<lparr>ctx_tx_region_bitmap := ctx_tx_region_bitmap c, ctx_tx_feedback_bitmap := own\<rparr>" by (simp add: ec)
    show "divided 512 (tx_region_bitmap e)
        ((\<lambda>f. map_option ctx_tx_region_bitmap (fds f))(fd \<mapsto> ctx_tx_region_bitmap c))"
      using fd by (intro divided_keep [OF d(1)]) simp
    show "divided 256 dev ((\<lambda>f. map_option ctx_tx_feedback_bitmap (fds f))(fd \<mapsto> own))"
      using fd cs by (intro divided_drop [OF d(2), where S = "{slot}" and own = "ctx_tx_feedback_bitmap c"]) simp_all
  qed
qed

end
