(* ===== verification/KInv.thy ===== *)
theory KInv
  imports KReach
begin

text \<open>
  The driver's invariant holds in every reachable state: one lemma per group of commands,
  then closing a file, then induction over the reachable states.
\<close>

lemma reply_user_state: "reply_user env x e c = Some (r, e', c') \<Longrightarrow> e' = e \<and> c' = c"
  by (auto simp: reply_user_def split: if_splits)

lemma fail_state: "fail x e c = Some (r, e', c') \<Longrightarrow> e' = e \<and> c' = c"
  by (simp add: fail_def)

lemmas ioctl_state = reply_user_state fail_state

subsection \<open>Transmit commands\<close>

lemma ioctl_tx_state:
  "ioctl_tx_buffer_alloc env e c p sz = Some (r, e', c') \<Longrightarrow>
    (e' = e \<and> c' = c) \<or> (\<exists>r'. exanic_alloc_tx_region e c p sz = Some (r', e', c'))"
  "ioctl_tx_buffer_free env e c p sz off = Some (r, e', c') \<Longrightarrow>
    (e' = e \<and> c' = c) \<or> (\<exists>r'. exanic_free_tx_region e c p sz off = Some (r', e', c'))"
  "ioctl_tx_feedback_alloc env e c p = Some (r, e', c') \<Longrightarrow>
    (e' = e \<and> c' = c) \<or> (\<exists>r'. exanic_alloc_tx_feedback e c p = Some (r', e', c'))"
  "ioctl_tx_feedback_free env e c p slot = Some (r, e', c') \<Longrightarrow>
    (e' = e \<and> c' = c) \<or> (\<exists>r'. exanic_free_tx_feedback e c p slot = Some (r', e', c'))"
  by (auto simp: ioctl_tx_buffer_alloc_def ioctl_tx_buffer_free_def ioctl_tx_feedback_alloc_def
      ioctl_tx_feedback_free_def dest!: ioctl_state split: if_splits option.splits prod.splits sum.splits)

subsection \<open>Filter commands\<close>

lemma ioctl_filter_state:
  "ioctl_filter_add_ip env e c p f = Some (r, e', c') \<Longrightarrow>
    c' = c \<and> (e' = e \<or> p < k_num_ports e \<and> (\<exists>r'. exanic_insert_ip_filter e p f = Some (r', e')))"
  "ioctl_filter_add_mac env e c p g = Some (r, e', c') \<Longrightarrow>
    c' = c \<and> (e' = e \<or> p < k_num_ports e \<and> (\<exists>r'. exanic_insert_mac_filter e p g = Some (r', e')))"
  "ioctl_filter_remove_ip env e c p n = Some (r, e', c') \<Longrightarrow>
    c' = c \<and> (e' = e \<or> p < k_num_ports e \<and> (\<exists>r'. exanic_remove_ip_filter e p n = Some (r', e')))"
  "ioctl_filter_remove_mac env e c p n = Some (r, e', c') \<Longrightarrow>
    c' = c \<and> (e' = e \<or> p < k_num_ports e \<and> (\<exists>r'. exanic_remove_mac_filter e p n = Some (r', e')))"
  by (auto simp: ioctl_filter_add_ip_def ioctl_filter_add_mac_def ioctl_filter_remove_ip_def
      ioctl_filter_remove_mac_def dest!: ioctl_state split: if_splits option.splits prod.splits sum.splits)

lemma kinv_filter:
  assumes inv: "kinv (e, fds)" and fd: "fds fd = Some c"
    and op: "e' = e \<or> p < k_num_ports e \<and> same_tx e e' \<and> steer_inv e' p \<and> only_port p e e'"
  shows "kinv (e', fds(fd \<mapsto> c))"
  using op
proof
  assume "e' = e"
  with inv fd show ?thesis by (simp add: kinv_id)
next
  assume o: "p < k_num_ports e \<and> same_tx e e' \<and> steer_inv e' p \<and> only_port p e e'"
  show ?thesis
  proof (rule kinv_rx [OF inv fd])
    show "steer_all e'" using inv o by (intro steer_all_port [of e e' p]) (simp_all add: kinv_def)
    show "refs_ok e c" using inv fd by (simp add: kinv_def)
  qed (use o in simp_all)
qed

lemma kinv_steer: "kinv (e, fds) \<Longrightarrow> p < k_num_ports e \<Longrightarrow> steer_inv e p"
  by (simp add: kinv_def)

lemma kinv_add_ip:
  "kinv (e, fds) \<Longrightarrow> fds fd = Some c \<Longrightarrow> ioctl_filter_add_ip env e c p f = Some (r, e', c') \<Longrightarrow> kinv (e', fds(fd \<mapsto> c'))"
  using ioctl_filter_state(1) insert_ip_inv kinv_steer same_tx_insert(1) by (metis kinv_filter)

lemma kinv_add_mac:
  "kinv (e, fds) \<Longrightarrow> fds fd = Some c \<Longrightarrow> ioctl_filter_add_mac env e c p f = Some (r, e', c') \<Longrightarrow> kinv (e', fds(fd \<mapsto> c'))"
  using ioctl_filter_state(2) insert_mac_inv kinv_steer same_tx_insert(2) by (metis kinv_filter)

lemma kinv_remove_ip:
  "kinv (e, fds) \<Longrightarrow> fds fd = Some c \<Longrightarrow> ioctl_filter_remove_ip env e c p n = Some (r, e', c') \<Longrightarrow> kinv (e', fds(fd \<mapsto> c'))"
  using ioctl_filter_state(3) remove_ip_inv kinv_steer same_tx_remove(1) by (metis kinv_filter)

lemma kinv_remove_mac:
  "kinv (e, fds) \<Longrightarrow> fds fd = Some c \<Longrightarrow> ioctl_filter_remove_mac env e c p n = Some (r, e', c') \<Longrightarrow> kinv (e', fds(fd \<mapsto> c'))"
  using ioctl_filter_state(4) remove_mac_inv kinv_steer same_tx_remove(2) by (metis kinv_filter)

lemma kinv_hash:
  assumes inv: "kinv (e, fds)" and fd: "fds fd = Some c"
    and op: "ioctl_hash_configure env e c p en m f = Some (r, e', c')"
  shows "kinv (e', fds(fd \<mapsto> c'))"
proof -
  have c: "c' = c" and d: "e' = e \<or> p < k_num_ports e \<and> e' = exanic_configure_port_hash e p en m f"
    using op by (auto simp: ioctl_hash_configure_def fail_def split: if_splits)
  have "p < 16" if "p < k_num_ports e" using inv that by (simp add: kinv_def card_ok_def)
  with d hash_inv [OF kinv_steer [OF inv]] show ?thesis
    unfolding c by (intro kinv_filter [OF inv fd, where p = p]) auto
qed

subsection \<open>Filter buffer commands\<close>

lemma refs_add:
  "refs_ok e c \<Longrightarrow> p < k_num_ports e \<Longrightarrow> b < k_max_filter_buffers e \<Longrightarrow>
    refs_ok e (snd (exanic_add_filter_buffer_ref ok c p b))"
  by (auto simp: refs_ok_def exanic_add_filter_buffer_ref_def exanic_has_filter_buffer_ref_def list_ex_iff)

lemma refs_remove: "refs_ok e c \<Longrightarrow> refs_ok e (snd (exanic_remove_filter_buffer_ref c p b))"
proof -
  have "set (remove1 x xs) \<subseteq> set xs" for x and xs :: "(nat \<times> nat) list" by (rule set_remove1_subset)
  then show "refs_ok e c \<Longrightarrow> ?thesis"
    by (auto simp: refs_ok_def exanic_remove_filter_buffer_ref_def split: prod.splits)
qed

lemma ref_bitmaps [simp]:
  "ctx_tx_region_bitmap (snd (exanic_add_filter_buffer_ref ok c p b)) = ctx_tx_region_bitmap c"
  "ctx_tx_feedback_bitmap (snd (exanic_add_filter_buffer_ref ok c p b)) = ctx_tx_feedback_bitmap c"
  "ctx_tx_region_bitmap (snd (exanic_remove_filter_buffer_ref c p b)) = ctx_tx_region_bitmap c"
  "ctx_tx_feedback_bitmap (snd (exanic_remove_filter_buffer_ref c p b)) = ctx_tx_feedback_bitmap c"
  by (simp_all add: exanic_add_filter_buffer_ref_def exanic_remove_filter_buffer_ref_def)

text \<open>The context after an allocation command: the reference added, and perhaps removed again.\<close>

definition ref_steps :: "kenv \<Rightarrow> exanic_ctx \<Rightarrow> nat \<Rightarrow> nat \<Rightarrow> exanic_ctx set" where
  "ref_steps env c p b =
     (let c1 = snd (exanic_add_filter_buffer_ref (kzalloc_ok env) c p b)
      in {c, c1, snd (exanic_remove_filter_buffer_ref c1 p b)})"

lemma filter_buffer_get_state:
  assumes "filter_buffer_get env e c p b tail = Some (r, e', c')"
    and "\<And>x e1 c1. tail x e1 c1 = Some (r, e', c') \<Longrightarrow>
      e' = e1 \<and> (c' = c1 \<or> c' = snd (exanic_remove_filter_buffer_ref c1 p b))"
  shows "c' \<in> ref_steps env c p b \<and> (e' = e \<or> (\<exists>r'. exanic_alloc_filter_dma (dma_result env) e p b = Some (r', e')))"
proof (cases "exanic_has_filter_buffer_ref c p b")
  case True
  then show ?thesis using assms(1) by (auto simp: filter_buffer_get_def ref_steps_def Let_def)
next
  case False
  obtain x c1 where x: "exanic_add_filter_buffer_ref (kzalloc_ok env) c p b = (x, c1)" by fastforce
  show ?thesis
  proof (cases x)
    case (Inl y)
    then show ?thesis using assms(1) False x by (auto simp: filter_buffer_get_def ref_steps_def Let_def)
  next
    case (Inr y)
    then obtain r1 e1 where a: "exanic_alloc_filter_dma (dma_result env) e p b = Some (r1, e1)"
      and t: "tail r1 e1 c1 = Some (r, e', c')"
      using assms(1) False x by (auto simp: filter_buffer_get_def split: option.splits)
    from assms(2) [OF t] a x show ?thesis by (auto simp: ref_steps_def Let_def)
  qed
qed

lemma kinv_refs:
  assumes inv: "kinv (e, fds)" and fd: "fds fd = Some c" and p: "p < k_num_ports e" and b: "b < k_max_filter_buffers e"
    and st: "c' \<in> ref_steps env c p b \<and> (e' = e \<or> (\<exists>r'. exanic_alloc_filter_dma (dma_result env) e p b = Some (r', e')))"
  shows "kinv (e', fds(fd \<mapsto> c'))"
proof (rule kinv_rx [OF inv fd])
  have c: "refs_ok e c" using inv fd by (simp add: kinv_def)
  show "refs_ok e c'" using st refs_add [OF c p b] refs_remove c by (auto simp: ref_steps_def Let_def)
  show "ctx_tx_region_bitmap c' = ctx_tx_region_bitmap c" "ctx_tx_feedback_bitmap c' = ctx_tx_feedback_bitmap c"
    using st by (auto simp: ref_steps_def Let_def)
  show "same_tx e e'" using st same_tx_alloc_filter by auto
  have all: "steer_all e" using inv by (simp add: kinv_def)
  show "steer_all e'"
  proof (cases "e' = e")
    case False
    then obtain r' where "exanic_alloc_filter_dma (dma_result env) e p b = Some (r', e')" using st by blast
    from alloc_filter_inv [OF this kinv_steer [OF inv p]] show ?thesis by (rule steer_all_port [OF all])
  qed (use all in simp)
qed

lemma kinv_buffer_alloc:
  assumes inv: "kinv (e, fds)" and fd: "fds fd = Some c"
    and op: "ioctl_filter_buffer_alloc env e c p b = Some (r, e', c')"
  shows "kinv (e', fds(fd \<mapsto> c'))"
proof (cases "copy_from_user env \<and> p < k_num_ports e \<and> b < k_max_filter_buffers e")
  case True
  let ?tail = "\<lambda>r e1 c1. case r of
           Inl x \<Rightarrow> Some (Inl x, e1, snd (exanic_remove_filter_buffer_ref c1 p b))
         | Inr _ \<Rightarrow> Some (Inr Reply_none, e1, c1)"
  have g: "filter_buffer_get env e c p b ?tail = Some (r, e', c')"
    using op True by (simp add: ioctl_filter_buffer_alloc_def)
  have
    "c' \<in> ref_steps env c p b \<and> (e' = e \<or> (\<exists>r'. exanic_alloc_filter_dma (dma_result env) e p b = Some (r', e')))"
    by (rule filter_buffer_get_state [OF g]) (auto split: sum.splits)
  then show ?thesis using True by (intro kinv_refs [OF inv fd]) simp_all
next
  case False
  then have "e' = e" "c' = c" using op by (auto simp: ioctl_filter_buffer_alloc_def dest!: ioctl_state split: if_splits)
  with inv fd show ?thesis by (simp add: kinv_id)
qed

lemma get_free_filter_buffer_less:
  "exanic_get_free_filter_buffer e p = Some (Inr b) \<Longrightarrow> b < k_max_filter_buffers e"
  by (auto simp: exanic_get_free_filter_buffer_def split: option.splits if_splits)

lemma kinv_buffer_alloc_ex:
  assumes inv: "kinv (e, fds)" and fd: "fds fd = Some c"
    and op: "ioctl_filter_buffer_alloc_ex env e c p bo = Some (r, e', c')"
  shows "kinv (e', fds(fd \<mapsto> c'))"
proof (cases "e' = e \<and> c' = c")
  case True
  with inv fd show ?thesis by (simp add: kinv_id)
next
  case False
  let ?tail = "\<lambda>b r e1 c1.
      let r1 = (if copy_to_user env then r else Inl EFAULT)
      in case r1 of
           Inl x \<Rightarrow> Some (Inl x, e1, snd (exanic_remove_filter_buffer_ref c1 p b))
         | Inr _ \<Rightarrow> Some (Inr (Reply_buffer b), e1, c1)"
  have p: "p < k_num_ports e"
    using op False by (auto simp: ioctl_filter_buffer_alloc_ex_def dest!: ioctl_state split: if_splits)
  obtain b where b: "b < k_max_filter_buffers e" and g: "filter_buffer_get env e c p b (?tail b) = Some (r, e', c')"
  proof (cases bo)
    case None
    then obtain b where "exanic_get_free_filter_buffer e p = Some (Inr b)"
        "filter_buffer_get env e c p b (?tail b) = Some (r, e', c')"
      using op False by (auto simp: ioctl_filter_buffer_alloc_ex_def dest!: ioctl_state split: if_splits option.splits sum.splits)
    with get_free_filter_buffer_less that show ?thesis by blast
  next
    case (Some b)
    then show ?thesis using op False that [of b]
      by (auto simp: ioctl_filter_buffer_alloc_ex_def dest!: ioctl_state split: if_splits)
  qed
  have
    "c' \<in> ref_steps env c p b \<and> (e' = e \<or> (\<exists>r'. exanic_alloc_filter_dma (dma_result env) e p b = Some (r', e')))"
    by (rule filter_buffer_get_state [OF g]) (auto simp: Let_def split: sum.splits if_splits)
  then show ?thesis by (rule kinv_refs [OF inv fd p b])
qed

lemma kinv_buffer_free:
  assumes inv: "kinv (e, fds)" and fd: "fds fd = Some c"
    and op: "ioctl_filter_buffer_free env e c p b = Some (r, e', c')"
  shows "kinv (e', fds(fd \<mapsto> c'))"
proof (cases "e' = e \<and> c' = c")
  case True
  with inv fd show ?thesis by (simp add: kinv_id)
next
  case False
  then have p: "p < k_num_ports e" and b: "b < k_max_filter_buffers e"
    and c': "c' = snd (exanic_remove_filter_buffer_ref c p b)" and f: "exanic_free_filter_dma e p b = Some e'"
    using op by (auto simp: ioctl_filter_buffer_free_def Let_def dest!: ioctl_state split: if_splits option.splits)
  have p16: "p < 16" using inv p by (simp add: kinv_def card_ok_def)
  show ?thesis
  proof (rule kinv_rx [OF inv fd])
    show "same_tx e e'" by (rule same_tx_free_filter [OF f])
    show "refs_ok e c'" unfolding c' using inv fd by (intro refs_remove) (simp add: kinv_def)
    have "steer_all e" using inv by (simp add: kinv_def)
    then show "steer_all e'"
      using free_filter_inv [OF f kinv_steer [OF inv p] b p16] by (intro steer_all_port [of e e' p]) simp_all
  qed (simp_all add: c')
qed

subsection \<open>Every command\<close>

lemma kinv_ioctl:
  assumes inv: "kinv (e, fds)" and fd: "fds fd = Some c" and op: "exanic_ioctl env e c cmd = Some (r, e', c')"
  shows "kinv (e', fds(fd \<mapsto> c'))"
proof -
  have id: "e' = e \<and> c' = c \<Longrightarrow> ?thesis" using inv fd by (simp add: kinv_id)
  show ?thesis
  proof (cases cmd)
    case TX_BUFFER_ALLOC
    with op ioctl_tx_state(1) id kinv_alloc_tx_region [OF inv fd] show ?thesis by fastforce
  next
    case TX_BUFFER_FREE
    with op ioctl_tx_state(2) id kinv_free_tx_region [OF inv fd] show ?thesis by fastforce
  next
    case TX_FEEDBACK_ALLOC
    with op ioctl_tx_state(3) id kinv_alloc_tx_feedback [OF inv fd] show ?thesis by fastforce
  next
    case TX_FEEDBACK_FREE
    with op ioctl_tx_state(4) id kinv_free_tx_feedback [OF inv fd] show ?thesis by fastforce
  qed (use op id ioctl_state kinv_add_ip [OF inv fd] kinv_add_mac [OF inv fd] kinv_remove_ip [OF inv fd]
      kinv_remove_mac [OF inv fd] kinv_hash [OF inv fd] kinv_buffer_alloc [OF inv fd]
      kinv_buffer_alloc_ex [OF inv fd] kinv_buffer_free [OF inv fd] in \<open>auto dest: ioctl_state\<close>)
qed

subsection \<open>Closing a file\<close>

lemma free_refs_inv:
  assumes "free_refs e rs = Some e'" "steer_all e" "k_num_ports e \<le> 16"
    "\<forall>(p, b)\<in>set rs. p < k_num_ports e \<and> b < k_max_filter_buffers e"
  shows "steer_all e' \<and> same_tx e e'"
  using assms
proof (induction rs arbitrary: e)
  case (Cons r rs)
  obtain p b where r: "r = (p, b)" by (cases r)
  then obtain e1 where e1: "exanic_free_filter_dma e p b = Some e1" "free_refs e1 rs = Some e'"
    using Cons.prems(1) by (auto split: option.splits)
  have pb: "p < k_num_ports e" "b < k_max_filter_buffers e" using Cons.prems(4) r by auto
  have tx: "same_tx e e1" by (rule same_tx_free_filter [OF e1(1)])
  have st: "steer_inv e p" "p < 16" using Cons.prems(2,3) pb by auto
  from free_filter_inv [OF e1(1) st(1) pb(2) st(2)]
  have "steer_inv e1 p \<and> only_port p e e1" by blast
  from steer_all_port [OF Cons.prems(2) this] have "steer_all e1" .
  with Cons.IH [OF e1(2)] Cons.prems(3,4) tx have "steer_all e' \<and> same_tx e1 e'"
    by (simp add: same_tx_def)
  with tx show ?case by (blast intro: same_tx_trans)
qed simp

definition rx_only :: "kexanic \<Rightarrow> kexanic \<Rightarrow> bool" where
  "rx_only e e' \<longleftrightarrow> regs_virt e' = regs_virt e \<and> same_tx e e' \<and>
     (\<forall>p. filter_buffers (port e' p) = filter_buffers (port e p) \<and>
          ip_filter_slots (port e' p) = ip_filter_slots (port e p) \<and>
          mac_filter_slots (port e' p) = mac_filter_slots (port e p) \<and>
          max_ip_filter_slots (port e' p) = max_ip_filter_slots (port e p) \<and>
          max_mac_filter_slots (port e' p) = max_mac_filter_slots (port e p))"

lemma rx_only_refl [simp]: "rx_only e e"
  by (simp add: rx_only_def)

lemma rx_only_trans: "rx_only e e' \<Longrightarrow> rx_only e' e'' \<Longrightarrow> rx_only e e''"
  by (simp add: rx_only_def same_tx_def)

lemma rx_only_steer: "steer_all e \<Longrightarrow> rx_only e e' \<Longrightarrow> steer_all e'"
  by (rule steer_same [of e]) (simp_all add: rx_only_def same_tx_def)

lemma rx_only_set_port:
  "rx_only e (set_port i ((port e i)\<lparr>port_rx_refcount := n\<rparr>) e)"
  "rx_only e (set_port i ((port e i)\<lparr>rx_region_virt := a, rx_region_dma := b, ate_rx_region_virt := c, ate_rx_region_dma := d\<rparr>) e)"
  by (simp_all add: rx_only_def same_tx_def)

lemma rx_only_drop: "rx_only e (drop_rx_refs c e)"
proof -
  have "rx_only e (fold (\<lambda>i e. if ctx_rx_refcount c i \<noteq> 0
      then set_port i ((port e i)\<lparr>port_rx_refcount := port_rx_refcount (port e i) - ctx_rx_refcount c i\<rparr>) e
      else e) is e)" for "is"
  proof (induction "is" arbitrary: e)
    case (Cons i "is")
    show ?case by (simp, intro conjI impI rx_only_trans [OF rx_only_set_port(1) Cons.IH] Cons.IH)
  qed simp
  then show ?thesis by (simp add: drop_rx_refs_def)
qed

lemma rx_only_free_unused: "free_unused_rx mapped e is = Some e' \<Longrightarrow> rx_only e e'"
proof (induction "is" arbitrary: e)
  case (Cons i "is")
  have f: "rx_only e e1" if "exanic_free_rx_dma mapped e i = Some e1" for e1
    using that rx_only_set_port(2) by (auto simp: exanic_free_rx_dma_def split: if_splits option.splits bool.splits)
  from Cons.prems show ?case
    by (auto split: option.splits bool.splits dest: Cons.IH intro: rx_only_trans f)
qed simp

lemma kinv_close:
  assumes inv: "kinv (e, fds)" and fd: "fds fd = Some c" and op: "exanic_free_ctx mapped e c = Some e'"
  shows "kinv (e', fds(fd := None))"
proof -
  let ?e1 = "e\<lparr>tx_region_bitmap := bitmap_andnot (tx_region_bitmap e) (ctx_tx_region_bitmap c),
               tx_feedback_bitmap := bitmap_andnot (tx_feedback_bitmap e) (ctx_tx_feedback_bitmap c)\<rparr>"
  note d = divided_now [OF inv]
  obtain e2 where e2: "free_refs ?e1 (filter_buffer_ref_list c) = Some e2"
    and e3: "free_unused_rx mapped (drop_rx_refs c e2) [0..<k_num_ports (drop_rx_refs c e2)] = Some e'"
    using op by (auto simp: exanic_free_ctx_def Let_def split: option.splits)
  have all: "steer_all e" and np: "k_num_ports e \<le> 16" and rc: "refs_ok e c"
    using inv fd by (simp_all add: kinv_def card_ok_def)
  have st1: "steer_all ?e1" by (rule steer_same [OF all]) simp_all
  have f: "steer_all e2 \<and> same_tx ?e1 e2"
    using st1 np rc by (intro free_refs_inv [OF e2]) (simp_all add: refs_ok_def)
  have rx: "rx_only e2 e'" by (rule rx_only_trans [OF rx_only_drop rx_only_free_unused [OF e3]])
  have st: "steer_all e'" using f by (intro rx_only_steer [OF _ rx]) simp
  have tx: "same_tx ?e1 e'" using f rx by (auto simp: rx_only_def intro: same_tx_trans)
  have card: "card_ok e'" using tx inv by (simp add: same_tx_def card_ok_def kinv_def)
  have refs: "refs_ok e' x" if "(fds(fd := None)) f = Some x" for f x
  proof -
    have "refs_ok e x" using that inv by (auto simp: kinv_def split: if_splits)
    then show ?thesis using tx by (simp add: same_tx_def refs_ok_def)
  qed
  have len: "length (tx_region_bitmap e) = 512" "length (ctx_tx_region_bitmap c) = 512"
    "length (tx_feedback_bitmap e) = 256" "length (ctx_tx_feedback_bitmap c) = 256"
    using dividedD(1) [OF d(1)] dividedD(2) [OF d(1), of fd] dividedD(1) [OF d(2)] dividedD(2) [OF d(2), of fd] fd
    by simp_all
  have m: "(\<lambda>f. map_option ctx_tx_region_bitmap ((fds(fd := None)) f)) = (\<lambda>f. map_option ctx_tx_region_bitmap (fds f))(fd := None)"
    "(\<lambda>f. map_option ctx_tx_feedback_bitmap ((fds(fd := None)) f)) = (\<lambda>f. map_option ctx_tx_feedback_bitmap (fds f))(fd := None)"
    by auto
  have b: "tx_region_bitmap e' = bitmap_andnot (tx_region_bitmap e) (ctx_tx_region_bitmap c)"
    "tx_feedback_bitmap e' = bitmap_andnot (tx_feedback_bitmap e) (ctx_tx_feedback_bitmap c)"
    using tx by (simp_all add: same_tx_def)
  have "divided 512 (tx_region_bitmap e') ((\<lambda>f. map_option ctx_tx_region_bitmap (fds f))(fd := None))"
    unfolding b using fd len bitmap_andnot_nth [of "tx_region_bitmap e" "ctx_tx_region_bitmap c"]
    by (intro divided_close [OF d(1), where own = "ctx_tx_region_bitmap c"]) simp_all
  moreover have "divided 256 (tx_feedback_bitmap e') ((\<lambda>f. map_option ctx_tx_feedback_bitmap (fds f))(fd := None))"
    unfolding b using fd len bitmap_andnot_nth [of "tx_feedback_bitmap e" "ctx_tx_feedback_bitmap c"]
    by (intro divided_close [OF d(2), where own = "ctx_tx_feedback_bitmap c"]) simp_all
  ultimately show ?thesis
    using st card refs unfolding kinv_def pages_ok_def slots_ok_def fst_conv snd_conv m by simp
qed

lemma kinv_open:
  assumes inv: "kinv (e, fds)" and fd: "fds fd = None" and op: "exanic_alloc_ctx True = Some c"
  shows "kinv (e, fds(fd \<mapsto> c))"
proof -
  have c: "ctx_tx_region_bitmap c = replicate 512 False" "ctx_tx_feedback_bitmap c = replicate 256 False"
    "filter_buffer_ref_list c = []"
    using op by (auto simp: exanic_alloc_ctx_def)
  note d = divided_now [OF inv]
  have m: "(\<lambda>f. map_option ctx_tx_region_bitmap ((fds(fd \<mapsto> c)) f)) = (\<lambda>f. map_option ctx_tx_region_bitmap (fds f))(fd \<mapsto> replicate 512 False)"
    "(\<lambda>f. map_option ctx_tx_feedback_bitmap ((fds(fd \<mapsto> c)) f)) = (\<lambda>f. map_option ctx_tx_feedback_bitmap (fds f))(fd \<mapsto> replicate 256 False)"
    by (auto simp: c)
  have "divided 512 (tx_region_bitmap e) ((\<lambda>f. map_option ctx_tx_region_bitmap (fds f))(fd \<mapsto> replicate 512 False))"
    using fd by (intro divided_open [OF d(1)]) simp
  moreover have "divided 256 (tx_feedback_bitmap e) ((\<lambda>f. map_option ctx_tx_feedback_bitmap (fds f))(fd \<mapsto> replicate 256 False))"
    using fd by (intro divided_open [OF d(2)]) simp
  moreover have "refs_ok e x" if "(fds(fd \<mapsto> c)) f = Some x" for f x
    using that inv c(3) by (auto simp: kinv_def refs_ok_def split: if_splits)
  ultimately show ?thesis
    using inv unfolding kinv_def pages_ok_def slots_ok_def fst_conv snd_conv m by simp
qed

subsection \<open>Reachable states\<close>

lemma kinv_step: "kstep s s' \<Longrightarrow> kinv s \<Longrightarrow> kinv s'"
  by (induction rule: kstep.induct) (auto intro: kinv_open kinv_ioctl kinv_close)

lemma kinv_reach: "kreach s0 s \<Longrightarrow> kinv s0 \<Longrightarrow> kinv s"
  by (induction rule: kreach.induct) (auto intro: kinv_step)

text \<open>A card after the probe: no file is open and nothing is configured.\<close>

lemma kinv_init:
  assumes "card_ok e" "tx_region_bitmap e = replicate 512 False" "tx_feedback_bitmap e = replicate 256 False"
    "\<forall>p<k_num_ports e. steer_inv e p"
  shows "kinv (e, \<lambda>_. None)"
  using assms by (simp add: kinv_def pages_ok_def slots_ok_def divided_def)

end
