(* ===== verification/KTotal.thy ===== *)
theory KTotal
  imports KInv
begin

text \<open>
  No \<open>BUG_ON\<close> and no access out of bounds: in a state that satisfies the invariant every
  operation has a result.
\<close>

lemma set_filter_buffer_total:
  "b < length (filter_buffers (port e p)) \<Longrightarrow> \<exists>r. exanic_set_filter_buffer e p b region n = Some r"
  by (simp add: exanic_set_filter_buffer_def)

lemma steer_invD:
  assumes "steer_inv e p"
  shows "length (ip_filter_slots (port e p)) = max_ip_filter_slots (port e p)"
    "length (mac_filter_slots (port e p)) = max_mac_filter_slots (port e p)"
    "32 dvd length (ip_filter_slots (port e p))" "32 dvd length (mac_filter_slots (port e p))"
    "length (ip_filter_slots (port e p)) \<le> 256" "length (mac_filter_slots (port e p)) \<le> 256"
    "length (filter_buffers (port e p)) = k_max_filter_buffers e"
    "b < k_max_filter_buffers e \<Longrightarrow> buf_ok (regs_virt e) p b (filter_buffers (port e p) ! b)"
  using assms by (auto simp: steer_inv_def port_inv_def side_ok_def bufs_ok_alt)

lemma insert_ip_total:
  assumes inv: "steer_inv e p" and b: "ip_buffer f < k_max_filter_buffers e"
  shows "\<exists>r. exanic_insert_ip_filter e p f = Some r"
proof -
  note i = steer_invD [OF inv]
  obtain n where n: "first_not ip_enable (ip_filter_slots (port e p)) (max_ip_filter_slots (port e p)) = Some n"
    using first_not_total i(1) by (metis order_refl)
  show ?thesis
  proof (cases "n = max_ip_filter_slots (port e p)")
    case True
    with n show ?thesis by (simp add: exanic_insert_ip_filter_def Let_def)
  next
    case False
    then have nl: "n < length (ip_filter_slots (port e p))" using first_not_Some [OF n] i(1) by simp
    obtain r e1 where s: "exanic_set_filter_buffer e p (ip_buffer f) 1 n = Some (r, e1)"
      using set_filter_buffer_total [of "ip_buffer f" e p] i(7) b by fastforce
    from s show ?thesis
    proof (cases rule: set_filter_buffer_cases)
      case 1
      with n False s show ?thesis by (simp add: exanic_insert_ip_filter_def Let_def)
    next
      case 2
      let ?e2 = "set_port p ((port e1 p)\<lparr>ip_filter_slots := (ip_filter_slots (port e1 p))[n := f\<lparr>ip_enable := True\<rparr>]\<rparr>) e1"
      have "\<exists>e'. exanic_update_hardware_ip_filter_bank ?e2 p (n div 32) = Some e'"
        using nl i(3) by (intro ip.update_bank_total) (simp_all add: 2(2))
      with n False s 2(1) show ?thesis by (auto simp: exanic_insert_ip_filter_def Let_def)
    qed
  qed
qed

lemma insert_mac_total:
  assumes inv: "steer_inv e p" and b: "mac_buffer f < k_max_filter_buffers e"
  shows "\<exists>r. exanic_insert_mac_filter e p f = Some r"
proof -
  note i = steer_invD [OF inv]
  obtain n where n: "first_not mac_enable (mac_filter_slots (port e p)) (max_mac_filter_slots (port e p)) = Some n"
    using first_not_total i(2) by (metis order_refl)
  show ?thesis
  proof (cases "n = max_mac_filter_slots (port e p)")
    case True
    with n show ?thesis by (simp add: exanic_insert_mac_filter_def Let_def)
  next
    case False
    then have nl: "n < length (mac_filter_slots (port e p))" using first_not_Some [OF n] i(2) by simp
    obtain r e1 where s: "exanic_set_filter_buffer e p (mac_buffer f) 0 n = Some (r, e1)"
      using set_filter_buffer_total [of "mac_buffer f" e p] i(7) b by fastforce
    from s show ?thesis
    proof (cases rule: set_filter_buffer_cases)
      case 1
      with n False s show ?thesis by (simp add: exanic_insert_mac_filter_def Let_def)
    next
      case 2
      let ?e2 = "set_port p ((port e1 p)\<lparr>mac_filter_slots := (mac_filter_slots (port e1 p))[n := f\<lparr>mac_enable := True\<rparr>]\<rparr>) e1"
      have "\<exists>e'. exanic_update_hardware_mac_filter_bank ?e2 p (n div 32) = Some e'"
        using nl i(4) by (intro mac.update_bank_total) (simp_all add: 2(2))
      with n False s 2(1) show ?thesis by (auto simp: exanic_insert_mac_filter_def Let_def)
    qed
  qed
qed

lemma remove_total:
  assumes inv: "steer_inv e p"
  shows "n < max_ip_filter_slots (port e p) \<Longrightarrow> \<exists>r. exanic_remove_ip_filter e p n = Some r"
    "n < max_mac_filter_slots (port e p) \<Longrightarrow> \<exists>r. exanic_remove_mac_filter e p n = Some r"
proof -
  note i = steer_invD [OF inv]
  show "\<exists>r. exanic_remove_ip_filter e p n = Some r" if "n < max_ip_filter_slots (port e p)"
  proof -
    have "\<exists>e'. exanic_update_hardware_ip_filter_bank (set_port p (disable_ip_slot n (port e p)) e) p (n div 32) = Some e'"
      using that i by (intro ip.update_bank_total) (simp_all add: disable_ip_slot_def)
    with that i(1) show ?thesis by (auto simp: exanic_remove_ip_filter_def)
  qed
  show "\<exists>r. exanic_remove_mac_filter e p n = Some r" if "n < max_mac_filter_slots (port e p)"
  proof -
    have "\<exists>e'. exanic_update_hardware_mac_filter_bank (set_port p (disable_mac_slot n (port e p)) e) p (n div 32) = Some e'"
      using that i by (intro mac.update_bank_total) (simp_all add: disable_mac_slot_def)
    with that i(2) show ?thesis by (auto simp: exanic_remove_mac_filter_def)
  qed
qed

lemma banks_fit: "32 dvd n \<Longrightarrow> \<forall>b\<in>set [0..<n div 32]. b * 32 + 32 \<le> (n :: nat)"
proof
  fix b assume "32 dvd n" "b \<in> set [0..<n div 32]"
  then obtain k where "n = 32 * k" "b < k" by (auto elim: dvdE)
  then show "b * 32 + 32 \<le> n" by linarith
qed

lemma remove_assoc_total:
  assumes "length (ip_filter_slots (port e p)) = max_ip_filter_slots (port e p)"
    "length (mac_filter_slots (port e p)) = max_mac_filter_slots (port e p)"
    "32 dvd length (ip_filter_slots (port e p))" "32 dvd length (mac_filter_slots (port e p))"
  shows "\<exists>e'. exanic_remove_rx_filter_assoc e p b = Some e'"
proof -
  let ?P = "port e p"
  obtain xs where xs: "clear_ip_assoc b ?P = ?P\<lparr>ip_filter_slots := xs\<rparr>" "length xs = length (ip_filter_slots ?P)"
    using clear_ip_assoc_slots [of ?P b] assms(1) by auto
  let ?e1 = "set_port p (?P\<lparr>ip_filter_slots := xs\<rparr>) e"
  have "\<exists>e2. update_banks exanic_update_hardware_ip_filter_bank p [0..<max_ip_filter_slots ?P div 32] ?e1 = Some e2"
    using banks_fit [OF assms(3)] xs(2) assms(1) by (intro ip.update_banks_total) simp
  then obtain e2 where e2: "update_banks exanic_update_hardware_ip_filter_bank p [0..<max_ip_filter_slots ?P div 32] ?e1 = Some e2"
    by blast
  obtain r1 where r1: "e2 = ?e1\<lparr>regs_virt := r1\<rparr>" using ip.update_banks_only [OF e2] by blast
  obtain ys where ys: "clear_mac_assoc b (port e2 p) = (port e2 p)\<lparr>mac_filter_slots := ys\<rparr>"
    "length ys = length (mac_filter_slots ?P)"
    using clear_mac_assoc_slots [of "port e2 p" b] assms(2) r1 by auto
  have "\<exists>e'. update_banks exanic_update_hardware_mac_filter_bank p [0..<max_mac_filter_slots ?P div 32]
      (set_port p (clear_mac_assoc b (port e2 p)) e2) = Some e'"
    using banks_fit [OF assms(4)] ys assms(2) by (intro mac.update_banks_total) simp
  with e2 show ?thesis using assms(1,2) xs(1) by (simp add: exanic_remove_rx_filter_assoc_def Let_def)
qed

lemma alloc_filter_total: "steer_inv e p \<Longrightarrow> \<exists>r. exanic_alloc_filter_dma dma e p b = Some r"
  using steer_invD(7) [of e p] steer_invD(8) [of e p b]
  by (auto simp: exanic_alloc_filter_dma_def Let_def buf_ok_def split: option.splits)

lemma free_filter_total:
  assumes inv: "steer_inv e p" and b: "b < k_max_filter_buffers e"
  shows "\<exists>e'. exanic_free_filter_dma e p b = Some e'"
proof -
  note i = steer_invD [OF inv]
  have t: "\<exists>e2. exanic_remove_rx_filter_assoc (put_buffer p b x e) p b = Some e2" for x
    using i by (intro remove_assoc_total) simp_all
  let ?B = "filter_buffers (port e p) ! b"
  have "region_virt ?B = None \<or> buf_refcount ?B \<noteq> 0" using i(8) [OF b] by (auto simp: buf_ok_def)
  then show ?thesis
    using i(7) b t [of "?B\<lparr>buf_refcount := buf_refcount ?B - 1\<rparr>"] t [of "?B\<lparr>buf_refcount := 0\<rparr>"]
    by (auto simp: exanic_free_filter_dma_def Let_def split: option.splits)
qed

lemma get_free_total: "steer_inv e p \<Longrightarrow> \<exists>r. exanic_get_free_filter_buffer e p = Some r"
proof -
  assume "steer_inv e p"
  then have "k_max_filter_buffers e \<le> length (filter_buffers (port e p))" using steer_invD(7) by simp
  from first_not_total [OF this, of "\<lambda>b. region_virt b \<noteq> None"] show ?thesis
    by (auto simp: exanic_get_free_filter_buffer_def)
qed

lemma filter_buffer_get_total:
  assumes "steer_inv e p" "\<And>x e1 c1. \<exists>y. tail x e1 c1 = Some y"
  shows "\<exists>y. filter_buffer_get env e c p b tail = Some y"
proof -
  obtain r e1 where "exanic_alloc_filter_dma (dma_result env) e p b = Some (r, e1)"
    using alloc_filter_total [OF assms(1), of "dma_result env" b] by auto
  with assms(2) show ?thesis
    by (auto simp: filter_buffer_get_def split: prod.splits sum.splits)
qed

text \<open>The pages a \<open>TX_BUFFER_FREE\<close> names; nothing bounds them by the size of the bitmap.\<close>

definition free_in_range :: "exanicctl \<Rightarrow> bool" where
  "free_in_range cmd \<longleftrightarrow>
     (case cmd of TX_BUFFER_FREE p sz off \<Rightarrow> off div PAGE_SIZE + sz div PAGE_SIZE \<le> EXANIC_TX_REGION_MAX_NUM_PAGES
      | _ \<Rightarrow> True)"

lemma ioctl_total:
  assumes inv: "kinv (e, fds)" and fd: "fds fd = Some c" and rng: "free_in_range cmd"
  shows "\<exists>y. exanic_ioctl env e c cmd = Some y"
proof -
  note d = divided_now [OF inv]
  have len: "length (tx_region_bitmap e) = 512" "length (ctx_tx_region_bitmap c) = 512"
    "length (tx_feedback_bitmap e) = 256" "length (ctx_tx_feedback_bitmap c) = 256"
    using dividedD(1) [OF d(1)] dividedD(2) [OF d(1), of fd] dividedD(1) [OF d(2)] dividedD(2) [OF d(2), of fd] fd
    by simp_all
  have st: "p < k_num_ports e \<Longrightarrow> steer_inv e p" for p using inv by (simp add: kinv_def)
  show ?thesis
  proof (cases cmd)
    case (TX_BUFFER_ALLOC p sz)
    have "\<exists>page. find_pages (tx_region_bitmap e) (sz div 4096) (tx_region_usable_offset (port e p) div 4096 +
        tx_region_usable_size (port e p) div 4096) (tx_region_usable_offset (port e p) div 4096) = Some page"
      if "p < k_num_ports e"
      using inv that len by (intro find_pages_total) (simp add: kinv_def card_ok_def)
    then have "p < k_num_ports e \<Longrightarrow> \<exists>y. exanic_alloc_tx_region e c p sz = Some y"
      by (force simp: exanic_alloc_tx_region_def Let_def)
    then show ?thesis
      by (fastforce simp: TX_BUFFER_ALLOC ioctl_tx_buffer_alloc_def fail_def reply_user_def split: sum.splits)
  next
    case (TX_BUFFER_FREE p sz off)
    have "\<exists>y. clear_pages [off div 4096..<off div 4096 + sz div 4096] (tx_region_bitmap e) (ctx_tx_region_bitmap c) = Some y"
      using rng len by (intro clear_pages_total) (simp add: TX_BUFFER_FREE free_in_range_def)
    then have "\<exists>y. exanic_free_tx_region e c p sz off = Some y"
      by (force simp: exanic_free_tx_region_def Let_def)
    then show ?thesis
      by (fastforce simp: TX_BUFFER_FREE ioctl_tx_buffer_free_def fail_def split: sum.splits)
  next
    case (TX_FEEDBACK_ALLOC p)
    have "\<exists>s. first_not (\<lambda>b. b) (tx_feedback_bitmap e) 256 = Some s" using len by (intro first_not_total) simp
    then have "\<exists>y. exanic_alloc_tx_feedback e c p = Some y" by (force simp: exanic_alloc_tx_feedback_def)
    then show ?thesis
      by (fastforce simp: TX_FEEDBACK_ALLOC ioctl_tx_feedback_alloc_def fail_def reply_user_def split: sum.splits)
  next
    case (TX_FEEDBACK_FREE p slot)
    have "slot < 256 \<Longrightarrow> \<exists>y. clear_pages [slot] (tx_feedback_bitmap e) (ctx_tx_feedback_bitmap c) = Some y"
      using len by (intro clear_pages_total) simp
    then have "slot < 256 \<Longrightarrow> \<exists>y. exanic_free_tx_feedback e c p slot = Some y"
      by (force simp: exanic_free_tx_feedback_def)
    then show ?thesis
      by (fastforce simp: TX_FEEDBACK_FREE ioctl_tx_feedback_free_def fail_def split: sum.splits)
  next
    case (RX_FILTER_ADD_IP p b sa da sp dp pr)
    let ?f = "\<lparr>ip_enable = False, ip_buffer = b, src_addr = sa, dst_addr = da, src_port = sp, dst_port = dp, protocol = pr\<rparr>"
    have "p < k_num_ports e \<Longrightarrow> b < k_max_filter_buffers e \<Longrightarrow> \<exists>y. exanic_insert_ip_filter e p ?f = Some y"
      using st by (intro insert_ip_total) simp_all
    then show ?thesis
      by (fastforce simp: RX_FILTER_ADD_IP ioctl_filter_add_ip_def fail_def reply_user_def split: sum.splits)
  next
    case (RX_FILTER_ADD_MAC p b m et v vm)
    let ?f = "\<lparr>mac_enable = False, mac_buffer = b, dst_mac = m, ethertype = et, vlan = v, vlan_match_method = vm\<rparr>"
    have "p < k_num_ports e \<Longrightarrow> b < k_max_filter_buffers e \<Longrightarrow> \<exists>y. exanic_insert_mac_filter e p ?f = Some y"
      using st by (intro insert_mac_total) simp_all
    then show ?thesis
      by (fastforce simp: RX_FILTER_ADD_MAC ioctl_filter_add_mac_def fail_def reply_user_def split: sum.splits)
  next
    case (RX_FILTER_REMOVE_IP p n)
    then show ?thesis using remove_total(1) [OF st, of p n]
      by (fastforce simp: ioctl_filter_remove_ip_def fail_def split: sum.splits)
  next
    case (RX_FILTER_REMOVE_MAC p n)
    then show ?thesis using remove_total(2) [OF st, of p n]
      by (fastforce simp: ioctl_filter_remove_mac_def fail_def split: sum.splits)
  next
    case (RX_FILTER_BUFFER_ALLOC p b)
    have "p < k_num_ports e \<Longrightarrow> \<exists>y. filter_buffer_get env e c p b
        (\<lambda>r e1 c1. case r of
           Inl x \<Rightarrow> Some (Inl x, e1, snd (exanic_remove_filter_buffer_ref c1 p b))
         | Inr _ \<Rightarrow> Some (Inr Reply_none, e1, c1)) = Some y"
      by (rule filter_buffer_get_total [OF st]) (auto split: sum.splits)
    then show ?thesis by (auto simp: RX_FILTER_BUFFER_ALLOC ioctl_filter_buffer_alloc_def fail_def)
  next
    case (RX_FILTER_BUFFER_ALLOC_EX p bo)
    have g: "p < k_num_ports e \<Longrightarrow> \<exists>y. filter_buffer_get env e c p b
        (\<lambda>r e1 c1. let r1 = (if copy_to_user env then r else Inl EFAULT)
         in case r1 of
              Inl x \<Rightarrow> Some (Inl x, e1, snd (exanic_remove_filter_buffer_ref c1 p b))
            | Inr _ \<Rightarrow> Some (Inr (Reply_buffer b), e1, c1)) = Some y" for b
      by (rule filter_buffer_get_total [OF st]) (auto simp: Let_def split: sum.splits)
    obtain r where "p < k_num_ports e \<Longrightarrow> exanic_get_free_filter_buffer e p = Some r"
      using get_free_total [OF st, of p] by blast
    with g show ?thesis
      by (cases r; cases bo) (auto simp: RX_FILTER_BUFFER_ALLOC_EX ioctl_filter_buffer_alloc_ex_def fail_def)
  next
    case (RX_FILTER_BUFFER_FREE p b)
    then show ?thesis using free_filter_total [OF st, of p b] steer_invD(7) [OF st, of p]
      by (fastforce simp: ioctl_filter_buffer_free_def fail_def Let_def)
  next
    case (RX_HASH_CONFIGURE p en m f)
    then show ?thesis by (auto simp: ioctl_hash_configure_def fail_def)
  qed (simp_all add: reply_user_def fail_def)
qed

end
