(* ===== verification/KProps.thy ===== *)
theory KProps
  imports KTotal
begin

text \<open>
  Properties of the kernel driver: what the steering tables of the card mean in every
  reachable state, who owns which page of the transmit region, and two defects of the
  \<open>ioctl\<close> handlers.
\<close>

subsection \<open>A card after the probe\<close>

text \<open>
  \<open>exanic_probe\<close> allocates the slots and the buffers with \<open>kzalloc\<close>; the rule tables of the
  card are empty, which is how \<open>exanic_remove\<close> leaves them. The numbers of rules are read
  from the card: banks of 32 and at most the 256 rules of a region.
\<close>

definition fresh_port :: "kexanic \<Rightarrow> nat \<Rightarrow> bool" where
  "fresh_port e p \<longleftrightarrow>
     length (ip_filter_slots (port e p)) = max_ip_filter_slots (port e p) \<and>
     length (mac_filter_slots (port e p)) = max_mac_filter_slots (port e p) \<and>
     max_ip_filter_slots (port e p) \<le> 256 \<and> 32 dvd max_ip_filter_slots (port e p) \<and>
     max_mac_filter_slots (port e p) \<le> 256 \<and> 32 dvd max_mac_filter_slots (port e p) \<and>
     list_all (\<lambda>s. \<not> ip_enable s) (ip_filter_slots (port e p)) \<and>
     list_all (\<lambda>s. \<not> mac_enable s) (mac_filter_slots (port e p)) \<and>
     length (filter_buffers (port e p)) = k_max_filter_buffers e \<and> k_max_filter_buffers e \<le> 0x4000 \<and>
     list_all (\<lambda>b. region_virt b = None \<and> buf_refcount b = 0) (filter_buffers (port e p)) \<and>
     (\<forall>a. REG_FILTERS_OFFSET p REG_FILTER_MAC_RULES \<le> a \<and> a < REG_FILTERS_OFFSET p 0x80000 \<longrightarrow> regs_virt e a = 0)"

definition probed :: "kexanic \<Rightarrow> bool" where
  "probed e \<longleftrightarrow> card_ok e \<and> tx_region_bitmap e = replicate EXANIC_TX_REGION_MAX_NUM_PAGES False \<and>
     tx_feedback_bitmap e = replicate EXANIC_TX_FEEDBACK_NUM_SLOTS False \<and>
     (\<forall>p<k_num_ports e. fresh_port e p)"

lemma fresh_steer: "fresh_port e p \<Longrightarrow> steer_inv e p"
proof -
  assume f: "fresh_port e p"
  have z: "regs_virt e (REG_FILTERS_OFFSET p reg + rule_address i v b * 4) = 0"
    if "0x40000 \<le> reg" "reg \<le> 0x60000" "i < 16" "v < 256" for reg i v b
    using f that rule_address_bound [OF that(3,4), of b] by (simp add: fresh_port_def REG_FILTERS_OFFSET_def)
  have "ip_side (ip_filter_slots (port e p)) (regs_virt e) p (port e p)"
    using f z [of "0x60000"]
    by (simp add: side_ok_def fresh_port_def table_ok_def row_ok_def ip_accepts_def list_all_length)
  moreover have "mac_side (mac_filter_slots (port e p)) (regs_virt e) p (port e p)"
    using f z [of "0x40000"]
    by (simp add: side_ok_def fresh_port_def table_ok_def row_ok_def mac_accepts_def list_all_length)
  moreover have "bufs_ok (k_max_filter_buffers e) (regs_virt e) p (port e p)"
    using f by (simp add: bufs_ok_alt buf_ok_def fresh_port_def list_all_length)
  ultimately show ?thesis using f by (simp add: steer_inv_def port_inv_def fresh_port_def)
qed

lemma probed_reach:
  assumes "probed e0" "kreach (e0, \<lambda>_. None) (e, fds)"
  shows "kinv (e, fds)"
  using assms by (intro kinv_reach [OF assms(2)] kinv_init) (auto simp: probed_def fresh_steer)

subsection \<open>A concrete card for the witnesses\<close>

definition demo_port :: exanic_port where
  "demo_port = \<lparr>rx_region_virt = Some 1, rx_region_dma = 0x200000, ate_rx_region_virt = None,
     ate_rx_region_dma = 0, port_rx_refcount = 1, tx_region_usable_offset = 0x4000,
     tx_region_usable_size = 0x8000, port_enabled = True, port_power = True,
     flow_hashing_enabled = False, max_ip_filter_slots = 32, max_mac_filter_slots = 32,
     num_hash_functions = 3,
     filter_buffers = replicate 2 \<lparr>region_virt = None, region_dma = 0, buf_refcount = 0\<rparr>,
     ip_filter_slots = replicate 32 \<lparr>ip_enable = False, ip_buffer = 0, src_addr = 0, dst_addr = 0,
       src_port = 0, dst_port = 0, protocol = 0\<rparr>,
     mac_filter_slots = replicate 32 \<lparr>mac_enable = False, mac_buffer = 0, dst_mac = [0, 0, 0, 0, 0, 0],
       ethertype = 0, vlan = 0, vlan_match_method = 0\<rparr>,
     has_ate = False, ate_lockbox = replicate 512 1\<rparr>"

definition demo_card :: kexanic where
  "demo_card = \<lparr>regs_virt = (\<lambda>_. 0), k_num_ports = 2, k_caps = 0, hwinfo_nports = 2,
     k_max_filter_buffers = 2, port = (\<lambda>_. demo_port),
     tx_region_bitmap = replicate 512 False, tx_feedback_bitmap = replicate 256 False,
     regs_size = 0x200000, filters_size = 0x400000, tx_region_size = 0x20000, k_info_page = True,
     ndev_ifindex = (\<lambda>_. None), tx_feedback_virt = True, devkit_regs_size = 0, devkit_mem_size = 0,
     devkit_regs_ex_size = 0, devkit_mem_ex_size = 0, k_hw_id = 2, hwinfo_port_ff = EXANIC_PORT_SFP,
     devkit_regs_virt = True, devkit_mem_virt = True\<rparr>"

lemma demo_probed: "probed demo_card"
  by (simp add: probed_def demo_card_def card_ok_def fresh_port_def demo_port_def list_all_length)

definition demo_env :: kenv where
  "demo_env = \<lparr>copy_from_user = True, copy_to_user = True, kzalloc_ok = True,
     dma_result = Some (7, 0x1234000), rx_page_count = (\<lambda>_. 1), feedback_page_count = 1\<rparr>"

text \<open>A sequence of commands on one open file; errors are replies like any other.\<close>

fun run_ioctls :: "kenv \<Rightarrow> exanicctl list \<Rightarrow> kexanic \<Rightarrow> exanic_ctx \<Rightarrow> ((kerr + reply) list \<times> kexanic \<times> exanic_ctx) option" where
  "run_ioctls env [] e c = Some ([], e, c)"
| "run_ioctls env (cmd # cmds) e c =
     (case exanic_ioctl env e c cmd of
        None \<Rightarrow> None
      | Some (r, e1, c1) \<Rightarrow>
          (case run_ioctls env cmds e1 c1 of None \<Rightarrow> None | Some (rs, e2, c2) \<Rightarrow> Some (r # rs, e2, c2)))"

lemma run_ioctls_reach:
  "run_ioctls env cmds e c = Some (rs, e', c') \<Longrightarrow> kreach s0 (e, fds(fd \<mapsto> c)) \<Longrightarrow> kreach s0 (e', fds(fd \<mapsto> c'))"
proof (induction cmds arbitrary: e c rs)
  case (Cons cmd cmds)
  from Cons.prems(1) obtain r e1 c1 rs1 where
    1: "exanic_ioctl env e c cmd = Some (r, e1, c1)" and 2: "run_ioctls env cmds e1 c1 = Some (rs1, e', c')"
    by (auto split: option.splits)
  have "kstep (e, fds(fd \<mapsto> c)) (e1, (fds(fd \<mapsto> c))(fd \<mapsto> c1))" by (rule kioctl [OF _ 1]) simp
  then have "kreach s0 (e1, fds(fd \<mapsto> c1))" using kreach_step [OF Cons.prems(2)] by (simp only: fun_upd_upd)
  from Cons.IH [OF 2 this] show ?case .
qed simp

lemma open_reach: "exanic_alloc_ctx True = Some c \<Longrightarrow> kreach (e, \<lambda>_. None) (e, [fd \<mapsto> c])"
  by (rule kreach_step [OF kreach_init]) (auto intro: kopen)

lemma run_reach:
  assumes "exanic_alloc_ctx True = Some c" "run_ioctls env cmds e c = Some (rs, e', c')"
  shows "kreach (e, \<lambda>_. None) (e', [fd \<mapsto> c'])"
  using run_ioctls_reach [OF assms(2), of "(e, \<lambda>_. None)" "\<lambda>_. None" fd] open_reach [OF assms(1), of e fd] by simp

definition fresh_ctx :: exanic_ctx where
  "fresh_ctx = the (exanic_alloc_ctx True)"

lemma fresh_ctx: "exanic_alloc_ctx True = Some fresh_ctx"
  by (simp add: fresh_ctx_def exanic_alloc_ctx_def)

definition demo_filter :: exanicctl where
  "demo_filter = RX_FILTER_ADD_IP 0 1 0 0xEF000001 0 7000 17"

lemma demo_run:
  "\<exists>e c. run_ioctls demo_env [RX_FILTER_BUFFER_ALLOC 0 1, demo_filter] demo_card fresh_ctx =
       Some ([Inr Reply_none, Inr (Reply_filter 0)], e, c) \<and>
     max_ip_filter_slots (port e 0) = 32 \<and> k_num_ports e = 2 \<and>
     ip_filter_slots (port e 0) ! 0 = \<lparr>ip_enable = True, ip_buffer = 1, src_addr = 0, dst_addr = 0xEF000001,
       src_port = 0, dst_port = 7000, protocol = 17\<rparr>"
proof -
  let ?f = "\<lparr>ip_enable = False, ip_buffer = 1, src_addr = 0, dst_addr = 0xEF000001,
       src_port = 0, dst_port = 7000, protocol = 17\<rparr>"
  obtain e1 c1 where 1: "exanic_ioctl demo_env demo_card fresh_ctx (RX_FILTER_BUFFER_ALLOC 0 1) = Some (Inr Reply_none, e1, c1)"
    "ip_filter_slots (port e1 0) = ip_filter_slots demo_port" "live (port e1 0) 1"
    "max_ip_filter_slots (port e1 0) = 32" "k_num_ports e1 = 2" "k_max_filter_buffers e1 = 2"
    by (auto simp: ioctl_filter_buffer_alloc_def filter_buffer_get_def exanic_has_filter_buffer_ref_def
        exanic_add_filter_buffer_ref_def fresh_ctx_def exanic_alloc_ctx_def exanic_alloc_filter_dma_def Let_def
        demo_env_def demo_card_def demo_port_def live_def put_buffer_def write_base_addr_def set_port_def writel_def
        numeral_2_eq_2)
  let ?ctx = "[0 \<mapsto> c1]"
  have "kreach (demo_card, \<lambda>_. None) (e1, ?ctx)"
    using 1(1) by (intro run_reach [OF fresh_ctx, of demo_env "[RX_FILTER_BUFFER_ALLOC 0 1]" _ "[Inr Reply_none]"]) simp
  then have "steer_inv e1 0" using probed_reach [OF demo_probed] 1(5) by (simp add: kinv_def)
  then obtain r e2 where 2: "exanic_insert_ip_filter e1 0 ?f = Some (r, e2)"
    using insert_ip_total [of e1 0 ?f] 1(6) by auto
  then show ?thesis
  proof (cases rule: insert_ip_cases)
    case (3 n e3)
    have "n = 0" using 3(5) 1(2) by (cases n) (auto simp: demo_port_def)
    obtain rr where rr: "e2 = e3\<lparr>regs_virt := rr\<rparr>" using ip.update_bank_only [OF 3(8)] by blast
    show ?thesis
      unfolding demo_filter_def
      using 1 2 3(1,3) unfolding rr 3(7) \<open>n = 0\<close>
      by (simp add: ioctl_filter_add_ip_def reply_user_def demo_env_def)
  next
    case 1
    have "\<not> ip_enable (ip_filter_slots (port e1 0) ! 0)"
      using \<open>ip_filter_slots (port e1 0) = _\<close> by (simp add: demo_port_def)
    with 1(3) show ?thesis using \<open>max_ip_filter_slots (port e1 0) = 32\<close> by (metis zero_less_numeral)
  qed (use 1 in simp)
qed


subsection \<open>Steering\<close>

lemma steer_reach:
  assumes "probed e0" "kreach (e0, \<lambda>_. None) (e, fds)" "p < k_num_ports e"
  shows "steer_inv e p"
  using probed_reach [OF assms(1,2)] assms(3) by (simp add: kinv_def)

text \<open>Where a rule sends its frames: the buffer register and the base address of the buffer.\<close>

definition steered_to :: "kexanic \<Rightarrow> nat \<Rightarrow> nat \<Rightarrow> nat \<Rightarrow> nat \<Rightarrow> bool" where
  "steered_to e p region n b \<longleftrightarrow>
     b < k_max_filter_buffers e \<and> regs_virt e (rule_reg p region n) = of_nat b \<and>
     (let x = filter_buffers (port e p) ! b; base = REG_FILTERS_OFFSET p REG_BUFFER_BASEADDR + 2 * b * 4
      in region_virt x \<noteq> None \<and> 0 < buf_refcount x \<and>
         regs_virt e base = ucast (drop_bit 32 (region_dma x)) \<and>
         regs_virt e (base + 4) = ucast (region_dma x OR dma_cfg (region_dma x)))"

lemma side_steered:
  assumes "steer_inv e p" "side_ok reg nb acc en bf region xs (regs_virt e) p (port e p)" "n < length xs" "en (xs ! n)"
  shows "steered_to e p region n (bf (xs ! n))"
proof -
  let ?b = "bf (xs ! n)"
  have r: "regs_virt e (rule_reg p region n) = of_nat ?b" and l: "live (port e p) ?b"
    using assms(2-4) by (auto simp: side_ok_def)
  then have "?b < k_max_filter_buffers e" using steer_invD(7) [OF assms(1)] by (simp add: live_def)
  with r l show ?thesis using steer_invD(8) [OF assms(1), of ?b]
    by (auto simp: steered_to_def buf_ok_def live_def Let_def)
qed

text \<open>
  C12. In every state the driver reaches by open, \<open>ioctl\<close> and close, the rule table of the card
  hits an IP rule exactly when the slot of the driver is enabled and each of its fields is a
  wildcard or equal to the field of the frame; and an enabled rule is mapped to its buffer,
  which is allocated and whose bus address is programmed.
\<close>

theorem ip_steering_correct:
  assumes "probed e0" "kreach (e0, \<lambda>_. None) (e, fds)"
    and "p < k_num_ports e" "n < max_ip_filter_slots (port e p)"
  defines "f \<equiv> ip_filter_slots (port e p) ! n"
  shows "(hw_hit (REG_FILTERS_OFFSET p REG_FILTER_IP_RULES) 13 (regs_virt e) (ip_key_byte k) n \<longleftrightarrow>
           ip_enable f \<and> ip_matches f k) \<and>
         (ip_enable f \<longrightarrow> steered_to e p EXANIC_FILTER_REGION_IP n (ip_buffer f))"
proof -
  have s: "steer_inv e p" using assms(1-3) by (rule steer_reach)
  then have ok: "ip_side (ip_filter_slots (port e p)) (regs_virt e) p (port e p)"
    by (simp add: steer_inv_def port_inv_def)
  have n: "n < length (ip_filter_slots (port e p))" using assms(4) steer_invD(1) [OF s] by simp
  from ip.side_hit [OF ok n] side_steered [OF s ok n] show ?thesis
    by (simp add: ip_accepts_all f_def)
qed

lemma ip_steering_correct_witness:
  "\<exists>e c. run_ioctls demo_env [RX_FILTER_BUFFER_ALLOC 0 1, demo_filter] demo_card fresh_ctx =
       Some ([Inr Reply_none, Inr (Reply_filter 0)], e, c) \<and>
     (\<forall>k. hw_hit (REG_FILTERS_OFFSET 0 REG_FILTER_IP_RULES) 13 (regs_virt e) (ip_key_byte k) 0 \<longleftrightarrow>
        key_protocol k = 17 \<and> key_dst k = 0xEF000001 \<and> key_dport k = 7000) \<and>
     steered_to e 0 EXANIC_FILTER_REGION_IP 0 1"
proof -
  obtain e c where r: "run_ioctls demo_env [RX_FILTER_BUFFER_ALLOC 0 1, demo_filter] demo_card fresh_ctx =
       Some ([Inr Reply_none, Inr (Reply_filter 0)], e, c)"
    and s: "max_ip_filter_slots (port e 0) = 32" "k_num_ports e = 2"
      "ip_filter_slots (port e 0) ! 0 = \<lparr>ip_enable = True, ip_buffer = 1, src_addr = 0, dst_addr = 0xEF000001,
       src_port = 0, dst_port = 7000, protocol = 17\<rparr>"
    using demo_run by blast
  have reach: "kreach (demo_card, \<lambda>_. None) (e, [0 \<mapsto> c])" by (rule run_reach [OF fresh_ctx r])
  have "(hw_hit (REG_FILTERS_OFFSET 0 REG_FILTER_IP_RULES) 13 (regs_virt e) (ip_key_byte k) 0 \<longleftrightarrow>
        key_protocol k = 17 \<and> key_dst k = 0xEF000001 \<and> key_dport k = 7000) \<and>
     steered_to e 0 EXANIC_FILTER_REGION_IP 0 1" for k
    using ip_steering_correct [OF demo_probed reach, of 0 0 k] unfolding s by (auto simp: ip_matches_def)
  with r show ?thesis by blast
qed

text \<open>
  C16. The same for MAC rules, for filters and frames with 12-bit VLAN identifiers and one of
  the four declared match methods.
\<close>

theorem mac_steering_correct:
  assumes "probed e0" "kreach (e0, \<lambda>_. None) (e, fds)"
    and "p < k_num_ports e" "n < max_mac_filter_slots (port e p)"
    and "vlan_ok (mac_filter_slots (port e p) ! n) k"
  defines "f \<equiv> mac_filter_slots (port e p) ! n"
  shows "(hw_hit (REG_FILTERS_OFFSET p REG_FILTER_MAC_RULES) 10 (regs_virt e) (mac_key_byte k) n \<longleftrightarrow>
           mac_enable f \<and> mac_matches f k) \<and>
         (mac_enable f \<longrightarrow> steered_to e p EXANIC_FILTER_REGION_MAC n (mac_buffer f))"
proof -
  have s: "steer_inv e p" using assms(1-3) by (rule steer_reach)
  then have ok: "mac_side (mac_filter_slots (port e p)) (regs_virt e) p (port e p)"
    by (simp add: steer_inv_def port_inv_def)
  have n: "n < length (mac_filter_slots (port e p))" using assms(4) steer_invD(2) [OF s] by simp
  from mac.side_hit [OF ok n] side_steered [OF s ok n] show ?thesis
    using mac_accepts_all [OF assms(5)] by (simp add: f_def)
qed

lemma mac_steering_correct_witness:
  "\<not> hw_hit (REG_FILTERS_OFFSET 1 REG_FILTER_MAC_RULES) 10 (regs_virt demo_card)
      (mac_key_byte \<lparr>key_dst_mac = [1, 0, 0x5e, 0, 0, 1], key_ethertype = 0x800, key_vlan = Some 5\<rparr>) 31"
proof -
  let ?k = "\<lparr>key_dst_mac = [1, 0, 0x5e, 0, 0, 1], key_ethertype = 0x800, key_vlan = Some 5\<rparr>"
  have "vlan_ok (mac_filter_slots (port demo_card 1) ! 31) ?k" "\<not> mac_enable (mac_filter_slots (port demo_card 1) ! 31)"
    by (simp_all add: demo_card_def demo_port_def vlan_ok_def)
  then show ?thesis
    using mac_steering_correct [OF demo_probed kreach_init, of 1 31 ?k] by (simp add: demo_card_def demo_port_def)
qed

end
