(* ===== verification/KOwner.thy ===== *)
theory KOwner
  imports KProps
begin

text \<open>
  Who owns what of the device: pages of the transmit region, feedback slots and filter
  buffers, through allocation, release and close, and two defects of the \<open>ioctl\<close> handlers.
\<close>

subsection \<open>Pages and feedback slots\<close>

lemma divided_ex1:
  assumes "divided n dev owns" "p < n"
  shows "dev ! p \<longleftrightarrow> (\<exists>!fd. \<exists>own. owns fd = Some own \<and> own ! p)"
  using dividedD(3-5) [OF assms(1)] assms(2) by metis

text \<open>
  C13. In every reachable state a page of the transmit region is marked in the bitmap of the
  device exactly when one open file, and no second one, has it in its own bitmap; the same
  holds of the feedback slots.
\<close>

theorem tx_pages_exclusive:
  assumes "probed e0" "kreach (e0, \<lambda>_. None) (e, fds)"
  shows "(page < EXANIC_TX_REGION_MAX_NUM_PAGES \<longrightarrow>
       (tx_region_bitmap e ! page \<longleftrightarrow> (\<exists>!fd. \<exists>c. fds fd = Some c \<and> ctx_tx_region_bitmap c ! page))) \<and>
     (slot < EXANIC_TX_FEEDBACK_NUM_SLOTS \<longrightarrow>
       (tx_feedback_bitmap e ! slot \<longleftrightarrow> (\<exists>!fd. \<exists>c. fds fd = Some c \<and> ctx_tx_feedback_bitmap c ! slot)))"
proof -
  note d = divided_now [OF probed_reach [OF assms]]
  have ex: "(\<exists>own. map_option g x = Some own \<and> own ! i) \<longleftrightarrow> (\<exists>c. x = Some c \<and> g c ! i)"
    for g :: "exanic_ctx \<Rightarrow> bool list" and x i by (cases x) simp_all
  show ?thesis
    using divided_ex1 [OF d(1), of page] divided_ex1 [OF d(2), of slot] unfolding ex by blast
qed

lemma tx_pages_exclusive_witness:
  "tx_region_bitmap demo_card ! 5 \<longleftrightarrow>
     (\<exists>!fd. \<exists>c. ([0 \<mapsto> fresh_ctx] :: nat \<Rightarrow> exanic_ctx option) fd = Some c \<and> ctx_tx_region_bitmap c ! 5)"
  using tx_pages_exclusive [OF demo_probed open_reach [OF fresh_ctx, of demo_card 0], of 5] by simp

text \<open>Whether \<open>n\<close> pages from \<open>q\<close> on are free and inside the usable range of a port.\<close>

definition tx_fits :: "kexanic \<Rightarrow> nat \<Rightarrow> nat \<Rightarrow> nat \<Rightarrow> bool" where
  "tx_fits e p n q \<longleftrightarrow>
     tx_region_usable_offset (port e p) div PAGE_SIZE \<le> q \<and>
     q + n \<le> tx_region_usable_offset (port e p) div PAGE_SIZE + tx_region_usable_size (port e p) div PAGE_SIZE \<and>
     (\<forall>i<n. \<not> tx_region_bitmap e ! (q + i))"

lemma find_pages_fits:
  assumes "find_pages (tx_region_bitmap e) n hi lo = Some page" "hi \<le> length (tx_region_bitmap e)"
    and "lo = tx_region_usable_offset (port e p) div PAGE_SIZE" "hi = lo + tx_region_usable_size (port e p) div PAGE_SIZE"
  shows "(\<forall>q<page. \<not> tx_fits e p n q) \<and> (page + n \<le> hi \<longleftrightarrow> tx_fits e p n page)"
proof -
  note f = find_pages_Some [OF assms(1)]
  have run: "(\<forall>i. q \<le> i \<and> i < q + n \<longrightarrow> \<not> tx_region_bitmap e ! i) \<longleftrightarrow> (\<forall>i<n. \<not> tx_region_bitmap e ! (q + i))" for q
    by (metis add_less_cancel_left le_add1 le_add_diff_inverse)
  have "\<not> tx_fits e p n q" if "q < page" for q
  proof
    assume fit: "tx_fits e p n q"
    then have "lo \<le> q" "q + n \<le> hi" and fr: "\<forall>i. q \<le> i \<and> i < q + n \<longrightarrow> \<not> tx_region_bitmap e ! i"
      unfolding run by (simp_all add: tx_fits_def assms(3,4))
    then have "\<forall>i. q \<le> i \<and> i < q + n \<longrightarrow> i < length (tx_region_bitmap e) \<and> \<not> tx_region_bitmap e ! i"
      using assms(2) by auto
    with f that \<open>lo \<le> q\<close> show False by blast
  qed
  moreover have "page + n \<le> hi \<longleftrightarrow> tx_fits e p n page"
    using f run [of page] unfolding tx_fits_def assms(3,4) by auto
  ultimately show ?thesis by blast
qed

text \<open>
  \<open>TX_BUFFER_ALLOC\<close> is first fit: it answers the lowest offset of the port's usable range at
  which the pages are free, gives exactly these pages to the caller, and reports \<open>ENOMEM\<close>
  only when there is no such offset, without a change.
\<close>

theorem tx_buffer_alloc_first_fit:
  assumes "probed e0" "kreach (e0, \<lambda>_. None) (e, fds)" "fds fd = Some c"
    and "p < k_num_ports e" "sz mod PAGE_SIZE = 0" "copy_from_user env" "copy_to_user env"
  shows "(\<exists>q e' c'. exanic_ioctl env e c (TX_BUFFER_ALLOC p sz) = Some (Inr (Reply_offset (q * PAGE_SIZE)), e', c') \<and>
        tx_fits e p (sz div PAGE_SIZE) q \<and> (\<forall>q'<q. \<not> tx_fits e p (sz div PAGE_SIZE) q') \<and>
        (\<forall>i<EXANIC_TX_REGION_MAX_NUM_PAGES.
           (tx_region_bitmap e' ! i \<longleftrightarrow> tx_region_bitmap e ! i \<or> (q \<le> i \<and> i < q + sz div PAGE_SIZE)) \<and>
           (ctx_tx_region_bitmap c' ! i \<longleftrightarrow> ctx_tx_region_bitmap c ! i \<or> (q \<le> i \<and> i < q + sz div PAGE_SIZE))))
     \<or> (exanic_ioctl env e c (TX_BUFFER_ALLOC p sz) = Some (Inl ENOMEM, e, c) \<and>
        (\<forall>q. \<not> tx_fits e p (sz div PAGE_SIZE) q))"
proof -
  have inv: "kinv (e, fds)" using assms(1,2) by (rule probed_reach)
  let ?n = "sz div 4096" and ?lo = "tx_region_usable_offset (port e p) div 4096"
  let ?hi = "?lo + tx_region_usable_size (port e p) div 4096"
  note d = divided_now [OF inv]
  have len: "length (tx_region_bitmap e) = 512" "length (ctx_tx_region_bitmap c) = 512"
    using dividedD(1) [OF d(1)] dividedD(2) [OF d(1), of fd] assms(3) by simp_all
  have hi: "?hi \<le> length (tx_region_bitmap e)" using inv assms(4) len by (simp add: kinv_def card_ok_def)
  then obtain page where pg: "find_pages (tx_region_bitmap e) ?n ?hi ?lo = Some page"
    using find_pages_total by blast
  note f = find_pages_fits [OF pg hi, of p]
  show ?thesis
  proof (cases "page + ?n \<le> ?hi")
    case True
    then show ?thesis using f pg assms(4-7) len
      by (intro disjI1 exI [of _ page] exI)
        (auto simp: ioctl_tx_buffer_alloc_def exanic_alloc_tx_region_def Let_def reply_user_def set_pages_nth split: if_splits)
  next
    case False
    have "\<not> tx_fits e p ?n q" for q
    proof (cases "q < page")
      case True with f show ?thesis by simp
    next
      case ge: False with False show ?thesis by (simp add: tx_fits_def)
    qed
    then show ?thesis using False pg assms(4-7)
      by (intro disjI2) (simp add: ioctl_tx_buffer_alloc_def exanic_alloc_tx_region_def Let_def)
  qed
qed

lemma tx_buffer_alloc_first_fit_witness:
  "\<exists>e' c'. exanic_ioctl demo_env demo_card fresh_ctx (TX_BUFFER_ALLOC 1 0x2000) = Some (Inr (Reply_offset 0x4000), e', c')"
proof -
  have f: "tx_fits demo_card 1 2 4" "\<not> tx_fits demo_card 1 2 0" "\<not> tx_fits demo_card 1 2 1"
    "\<not> tx_fits demo_card 1 2 2" "\<not> tx_fits demo_card 1 2 3"
    by (simp_all add: tx_fits_def demo_card_def demo_port_def)
  have q: "q = 4" if "tx_fits demo_card 1 2 q" "\<forall>q'<q. \<not> tx_fits demo_card 1 2 q'" for q
  proof (rule ccontr)
    assume "q \<noteq> 4"
    moreover have "\<not> 4 < q" using that(2) f(1) by blast
    ultimately have "q = 0 \<or> q = 1 \<or> q = 2 \<or> q = 3" by linarith
    with that(1) f show False by blast
  qed
  from tx_buffer_alloc_first_fit [OF demo_probed open_reach [OF fresh_ctx, of demo_card 0], of 0 fresh_ctx 1 "0x2000" demo_env]
  show ?thesis using f(1) q by (fastforce simp: demo_card_def demo_env_def)
qed

subsection \<open>Commands are defined\<close>

text \<open>
  C18. In every reachable state a command runs to a result, success or error: no \<open>BUG_ON\<close> fires
  and no table is indexed beyond its end. The one exception is \<open>TX_BUFFER_FREE\<close> with a range
  beyond the bitmap.
\<close>

theorem ioctl_defined:
  assumes "probed e0" "kreach (e0, \<lambda>_. None) (e, fds)" "fds fd = Some c" "free_in_range cmd"
  shows "\<exists>r e' c'. exanic_ioctl env e c cmd = Some (r, e', c')"
  using ioctl_total [OF probed_reach [OF assms(1,2)] assms(3,4), of env] by (metis prod_cases3)

lemma ioctl_defined_witness:
  "\<exists>r e' c'. exanic_ioctl demo_env demo_card fresh_ctx (RX_FILTER_REMOVE_MAC 1 31) = Some (r, e', c')"
  by (rule ioctl_defined [OF demo_probed open_reach [OF fresh_ctx, of _ 0]]) (simp_all add: free_in_range_def)

text \<open>
  The exception is real: nothing compares the range of \<open>TX_BUFFER_FREE\<close> with the size of the
  bitmap, so a page-aligned range that ends behind the 512 pages reads (and may clear) bits
  outside it, in every reachable state and for every open file.
\<close>

theorem tx_free_out_of_bounds:
  assumes "probed e0" "kreach (e0, \<lambda>_. None) (e, fds)" "fds fd = Some c" "p < k_num_ports e" "copy_from_user env"
    and "off mod PAGE_SIZE = 0" "sz mod PAGE_SIZE = 0" "0 < sz"
    and "EXANIC_TX_REGION_MAX_NUM_PAGES * PAGE_SIZE < off + sz"
  shows "exanic_ioctl env e c (TX_BUFFER_FREE p sz off) = None"
proof -
  note d = divided_now [OF probed_reach [OF assms(1,2)]]
  have len: "length (tx_region_bitmap e) = 512" "length (ctx_tx_region_bitmap c) = 512"
    using dividedD(1) [OF d(1)] dividedD(2) [OF d(1), of fd] assms(3) by simp_all
  let ?ps = "[off div 4096..<off div 4096 + sz div 4096]"
  obtain a b where ab: "off = 4096 * a" "sz = 4096 * b" using assms(6,7) by (auto simp: mod_eq_0_iff_dvd dvd_def)
  then have "a + b - 1 \<in> set ?ps" "\<not> a + b - 1 < 512" using assms(8,9) by auto
  then have "clear_pages ?ps (tx_region_bitmap e) (ctx_tx_region_bitmap c) = None"
    using clear_pages_Some [of ?ps "tx_region_bitmap e" "ctx_tx_region_bitmap c"] len
    by (cases "clear_pages ?ps (tx_region_bitmap e) (ctx_tx_region_bitmap c)") (auto simp del: set_upt)
  then show ?thesis using assms(4-7)
    by (simp add: ioctl_tx_buffer_free_def exanic_free_tx_region_def Let_def)
qed

lemma tx_free_out_of_bounds_witness:
  "exanic_ioctl demo_env demo_card fresh_ctx (TX_BUFFER_FREE 0 0x1000 0x200000) = None"
  by (rule tx_free_out_of_bounds [OF demo_probed open_reach [OF fresh_ctx, of _ 0]])
    (simp_all add: demo_card_def demo_env_def)

subsection \<open>References to filter buffers\<close>

definition refcount :: "kexanic \<Rightarrow> nat \<times> nat \<Rightarrow> int" where
  "refcount e = (\<lambda>(p, b). buf_refcount (filter_buffers (port e p) ! b))"

definition allocated :: "kexanic \<Rightarrow> nat \<times> nat \<Rightarrow> bool" where
  "allocated e = (\<lambda>(p, b). region_virt (filter_buffers (port e p) ! b) \<noteq> None)"

lemma remove_assoc_buffers:
  "exanic_remove_rx_filter_assoc e p b = Some e' \<Longrightarrow> filter_buffers (port e' q) = filter_buffers (port e q)"
  "exanic_remove_rx_filter_assoc e p b = Some e' \<Longrightarrow> flow_hashing_enabled (port e' q) = flow_hashing_enabled (port e q)"
  by (drule remove_assoc_only; auto split: if_splits)+

text \<open>Releasing one reference: only this buffer changes, and it goes away with the last reference.\<close>

lemma free_filter_refcount:
  assumes "exanic_free_filter_dma e p b = Some e'"
  shows "length (filter_buffers (port e' q)) = length (filter_buffers (port e q)) \<and>
    refcount e' (q, c) = refcount e (q, c) - (if (q, c) = (p, b) \<and> allocated e (p, b) then 1 else 0) \<and>
    allocated e' (q, c) = (if (q, c) = (p, b) then allocated e (p, b) \<and> refcount e (p, b) \<noteq> 1 else allocated e (q, c))"
proof -
  let ?B = "filter_buffers (port e p) ! b"
  have b: "b < length (filter_buffers (port e p))" using assms by (auto simp: exanic_free_filter_dma_def split: if_splits)
  consider "region_virt ?B = None" "e' = e"
    | "region_virt ?B \<noteq> None" "buf_refcount ?B \<noteq> 1" "e' = put_buffer p b (?B\<lparr>buf_refcount := buf_refcount ?B - 1\<rparr>) e"
    | e2 where "region_virt ?B \<noteq> None" "buf_refcount ?B = 1"
        "exanic_remove_rx_filter_assoc (put_buffer p b (?B\<lparr>buf_refcount := 0\<rparr>) e) p b = Some e2"
        "filter_buffers (port e' p) = (filter_buffers (port e2 p))[b := (filter_buffers (port e2 p) ! b)\<lparr>region_virt := None, region_dma := 0\<rparr>]"
        "\<forall>r. r \<noteq> p \<longrightarrow> filter_buffers (port e' r) = filter_buffers (port e2 r)"
    using assms b by (auto simp: exanic_free_filter_dma_def Let_def exanic_configure_port_hash_def split: if_splits option.splits)
  then show ?thesis
  proof cases
    case 1
    then show ?thesis by (auto simp: refcount_def allocated_def)
  next
    case 2
    with b show ?thesis by (auto simp: refcount_def allocated_def put_buffer_def nth_list_update)
  next
    case (3 e2)
    have fb: "filter_buffers (port e2 r) = (if r = p then (filter_buffers (port e p))[b := ?B\<lparr>buf_refcount := 0\<rparr>]
        else filter_buffers (port e r))" for r
      using remove_assoc_buffers(1) [OF 3(3), of r] by (simp add: put_buffer_def)
    show ?thesis
    proof (cases "q = p")
      case True
      have "filter_buffers (port e' p) = (filter_buffers (port e p))[b := ?B\<lparr>buf_refcount := 0, region_virt := None, region_dma := 0\<rparr>]"
        using 3(4) b by (simp add: fb)
      with True 3(1,2) b show ?thesis by (auto simp: refcount_def allocated_def nth_list_update)
    next
      case False
      then have "filter_buffers (port e' q) = filter_buffers (port e q)" using 3(5) fb by simp
      with False show ?thesis by (simp add: refcount_def allocated_def)
    qed
  qed
qed

lemma free_refs_refcount:
  assumes "free_refs e rs = Some e'" "distinct rs"
  shows "refcount e' r = refcount e r - (if r \<in> set rs \<and> allocated e r then 1 else 0) \<and>
    allocated e' r = (allocated e r \<and> \<not> (r \<in> set rs \<and> refcount e r = 1))"
  using assms
proof (induction rs arbitrary: e)
  case (Cons s rs)
  obtain p b where s: "s = (p, b)" by (cases s)
  then obtain e1 where e1: "exanic_free_filter_dma e p b = Some e1" "free_refs e1 rs = Some e'"
    using Cons.prems(1) by (auto split: option.splits)
  obtain q c where r: "r = (q, c)" by (cases r)
  note f = free_filter_refcount [OF e1(1), of q c]
  have "refcount e' r = refcount e1 r - (if r \<in> set rs \<and> allocated e1 r then 1 else 0) \<and>
    allocated e' r = (allocated e1 r \<and> \<not> (r \<in> set rs \<and> refcount e1 r = 1))"
    using Cons.IH [OF e1(2)] Cons.prems(2) by simp
  moreover have "r = s \<Longrightarrow> r \<notin> set rs" using Cons.prems(2) by auto
  ultimately show ?case using f unfolding r s by (auto split: if_splits)
qed simp

lemma free_refs_tx: "free_refs e rs = Some e' \<Longrightarrow> same_tx e e'"
proof (induction rs arbitrary: e)
  case (Cons s rs)
  obtain p b where s: "s = (p, b)" by (cases s)
  with Cons.prems obtain e1 where "exanic_free_filter_dma e p b = Some e1" "free_refs e1 rs = Some e'"
    by (auto split: option.splits)
  with Cons.IH show ?case by (blast intro: same_tx_trans same_tx_free_filter)
qed simp

text \<open>
  C37. Closing a file gives back what it owns and nothing else: its pages and feedback slots
  become free, every filter buffer it refers to loses one reference and goes away exactly
  when that was the last one.
\<close>

theorem close_releases:
  assumes "probed e0" "kreach (e0, \<lambda>_. None) (e, fds)" "fds fd = Some c"
    and op: "exanic_free_ctx mapped e c = Some e'"
  shows "(\<forall>i<EXANIC_TX_REGION_MAX_NUM_PAGES.
            tx_region_bitmap e' ! i \<longleftrightarrow> tx_region_bitmap e ! i \<and> \<not> ctx_tx_region_bitmap c ! i) \<and>
         (\<forall>i<EXANIC_TX_FEEDBACK_NUM_SLOTS.
            tx_feedback_bitmap e' ! i \<longleftrightarrow> tx_feedback_bitmap e ! i \<and> \<not> ctx_tx_feedback_bitmap c ! i) \<and>
         (let mine = \<lambda>r. exanic_has_filter_buffer_ref c (fst r) (snd r)
          in (\<forall>r. refcount e' r = refcount e r - (if mine r \<and> allocated e r then 1 else 0)) \<and>
             (\<forall>r. allocated e' r \<longleftrightarrow> allocated e r \<and> \<not> (mine r \<and> refcount e r = 1)))"
proof -
  let ?e1 = "e\<lparr>tx_region_bitmap := bitmap_andnot (tx_region_bitmap e) (ctx_tx_region_bitmap c),
               tx_feedback_bitmap := bitmap_andnot (tx_feedback_bitmap e) (ctx_tx_feedback_bitmap c)\<rparr>"
  have inv: "kinv (e, fds)" using assms(1,2) by (rule probed_reach)
  note d = divided_now [OF inv]
  obtain e2 where e2: "free_refs ?e1 (filter_buffer_ref_list c) = Some e2"
    and e3: "free_unused_rx mapped (drop_rx_refs c e2) [0..<k_num_ports (drop_rx_refs c e2)] = Some e'"
    using op by (auto simp: exanic_free_ctx_def Let_def split: option.splits)
  have rx: "rx_only e2 e'" by (rule rx_only_trans [OF rx_only_drop rx_only_free_unused [OF e3]])
  have "same_tx ?e1 e'" using free_refs_tx [OF e2] rx by (auto simp: rx_only_def intro: same_tx_trans)
  then have bm: "tx_region_bitmap e' = bitmap_andnot (tx_region_bitmap e) (ctx_tx_region_bitmap c)"
    "tx_feedback_bitmap e' = bitmap_andnot (tx_feedback_bitmap e) (ctx_tx_feedback_bitmap c)"
    by (simp_all add: same_tx_def)
  have len: "length (tx_region_bitmap e) = 512" "length (ctx_tx_region_bitmap c) = 512"
    "length (tx_feedback_bitmap e) = 256" "length (ctx_tx_feedback_bitmap c) = 256"
    using dividedD(1) [OF d(1)] dividedD(2) [OF d(1), of fd] dividedD(1) [OF d(2)] dividedD(2) [OF d(2), of fd] assms(3)
    by simp_all
  note nth = bitmap_andnot_nth [of "tx_region_bitmap e" "ctx_tx_region_bitmap c"]
    bitmap_andnot_nth [of "tx_feedback_bitmap e" "ctx_tx_feedback_bitmap c"]
  have dist: "distinct (filter_buffer_ref_list c)" using inv assms(3) by (simp add: kinv_def refs_ok_def)
  have same: "refcount ?e1 = refcount e" "allocated ?e1 = allocated e" "refcount e' = refcount e2" "allocated e' = allocated e2"
    using rx by (simp_all add: refcount_def allocated_def rx_only_def)
  have mine: "exanic_has_filter_buffer_ref c (fst r) (snd r) \<longleftrightarrow> r \<in> set (filter_buffer_ref_list c)" for r
    by (auto simp: exanic_has_filter_buffer_ref_def list_ex_iff)
  show ?thesis
    using free_refs_refcount [OF e2 dist] nth len unfolding same mine bm Let_def by simp
qed

lemma close_releases_witness:
  "\<exists>e c e'. run_ioctls demo_env [TX_BUFFER_ALLOC 0 0x1000] demo_card fresh_ctx = Some ([Inr (Reply_offset 0x4000)], e, c) \<and>
     exanic_free_ctx (\<lambda>_. False) e c = Some e' \<and> tx_region_bitmap e ! 4 \<and> \<not> tx_region_bitmap e' ! 4"
proof -
  obtain e c where r: "run_ioctls demo_env [TX_BUFFER_ALLOC 0 0x1000] demo_card fresh_ctx = Some ([Inr (Reply_offset 0x4000)], e, c)"
    and 4: "tx_region_bitmap e ! 4" "ctx_tx_region_bitmap c ! 4"
    and e: "port e = port demo_card" "k_num_ports e = 2" "k_max_filter_buffers e = 2"
      "filter_buffer_ref_list c = []" "ctx_rx_refcount c = (\<lambda>_. 0)"
    by (simp add: ioctl_tx_buffer_alloc_def exanic_alloc_tx_region_def Let_def fresh_ctx_def exanic_alloc_ctx_def
        demo_env_def demo_card_def demo_port_def reply_user_def find_pages.simps [of _ _ _ 4] set_pages_def)
  obtain e' where e': "exanic_free_ctx (\<lambda>_. False) e c = Some e'"
    by (simp add: exanic_free_ctx_def drop_rx_refs_def e demo_card_def demo_port_def
        exanic_rx_in_use_def numeral_2_eq_2 Let_def)
  have "kreach (demo_card, \<lambda>_. None) (e, [0 \<mapsto> c])" by (rule run_reach [OF fresh_ctx r])
  from close_releases [OF demo_probed this _ e', of 0] have "\<not> tx_region_bitmap e' ! 4" using 4 by simp
  with r e' 4 show ?thesis by blast
qed

text \<open>
  C31. \<open>RX_FILTER_BUFFER_FREE\<close> does not ask for a reference of the caller: any open file releases
  the last reference to the buffer of another file, which goes away with its filters while
  the other file still refers to it.
\<close>

theorem filter_free_without_reference:
  assumes "probed e0" "kreach (e0, \<lambda>_. None) (e, fds)" "fds fd = Some c" "fds fd2 = Some c2"
    and "exanic_has_filter_buffer_ref c2 p b" "\<not> exanic_has_filter_buffer_ref c p b"
    and "refcount e (p, b) = 1" "copy_from_user env"
  shows "\<exists>e'. exanic_ioctl env e c (RX_FILTER_BUFFER_FREE p b) = Some (Inr Reply_none, e', c) \<and>
     kreach (e0, \<lambda>_. None) (e', fds) \<and> \<not> allocated e' (p, b) \<and> exanic_has_filter_buffer_ref c2 p b"
proof -
  have inv: "kinv (e, fds)" using assms(1,2) by (rule probed_reach)
  then have r: "refs_ok e c2" using assms(4) by (simp add: kinv_def)
  then have p: "p < k_num_ports e" and b: "b < k_max_filter_buffers e"
    using assms(5) by (auto simp: refs_ok_def exanic_has_filter_buffer_ref_def list_ex_iff)
  have st: "steer_inv e p" using inv p by (simp add: kinv_def)
  have len: "length (filter_buffers (port e p)) = k_max_filter_buffers e" by (rule steer_invD(7) [OF st])
  obtain e' where e': "exanic_free_filter_dma e p b = Some e'" using free_filter_total [OF st b] by blast
  have i: "exanic_ioctl env e c (RX_FILTER_BUFFER_FREE p b) = Some (Inr Reply_none, e', c)"
    using assms(6-8) p b len e'
    by (simp add: ioctl_filter_buffer_free_def exanic_remove_filter_buffer_ref_def refcount_def Let_def)
  have "\<not> allocated e' (p, b)" using free_filter_refcount [OF e', of p b] assms(7) by simp
  moreover have "kreach (e0, \<lambda>_. None) (e', fds)"
    using kreach_step [OF assms(2) kioctl [where fds = fds and fd = fd, OF assms(3) i]] assms(3) by (simp add: fun_upd_idem)
  ultimately show ?thesis using i assms(5) by blast
qed

lemma filter_free_without_reference_witness:
  "\<exists>e c2 e'. run_ioctls demo_env [RX_FILTER_BUFFER_ALLOC 0 1] demo_card fresh_ctx = Some ([Inr Reply_none], e, c2) \<and>
     exanic_ioctl demo_env e fresh_ctx (RX_FILTER_BUFFER_FREE 0 1) = Some (Inr Reply_none, e', fresh_ctx) \<and>
     \<not> allocated e' (0, 1) \<and> exanic_has_filter_buffer_ref c2 0 1"
proof -
  obtain e c2 where 1: "run_ioctls demo_env [RX_FILTER_BUFFER_ALLOC 0 1] demo_card fresh_ctx = Some ([Inr Reply_none], e, c2)"
    and 2: "refcount e (0, 1) = 1" "exanic_has_filter_buffer_ref c2 0 1"
    by (auto simp: ioctl_filter_buffer_alloc_def filter_buffer_get_def exanic_has_filter_buffer_ref_def
        exanic_add_filter_buffer_ref_def fresh_ctx_def exanic_alloc_ctx_def exanic_alloc_filter_dma_def Let_def
        demo_env_def demo_card_def demo_port_def refcount_def put_buffer_def write_base_addr_def set_port_def writel_def
        numeral_2_eq_2)
  let ?fds = "[0 \<mapsto> c2, 1 \<mapsto> fresh_ctx]"
  have "kreach (demo_card, \<lambda>_. None) (e, [0 \<mapsto> c2])" by (rule run_reach [OF fresh_ctx 1])
  then have reach: "kreach (demo_card, \<lambda>_. None) (e, ?fds)"
    by (rule kreach_step) (rule kopen [OF _ fresh_ctx], simp)
  have "\<not> exanic_has_filter_buffer_ref fresh_ctx 0 1"
    by (simp add: fresh_ctx_def exanic_alloc_ctx_def exanic_has_filter_buffer_ref_def)
  from filter_free_without_reference [OF demo_probed reach _ _ 2(2) this 2(1), of 1 0 demo_env] 1 2(2) show ?thesis
    by (auto simp: demo_env_def)
qed

subsection \<open>Adding a filter\<close>

text \<open>
  \<open>RX_FILTER_ADD_IP\<close> takes the first slot that is not enabled, whose number it answers, and
  changes no other slot and no buffer; it reports \<open>ENOMEM\<close> when all slots are enabled and
  \<open>EFAULT\<close> when the buffer is not allocated, and then changes nothing.
\<close>

theorem add_ip_filter_result:
  assumes "probed e0" "kreach (e0, \<lambda>_. None) (e, fds)" "copy_from_user env" "copy_to_user env"
    and "p < k_num_ports e" "b < k_max_filter_buffers e"
    and cmd_def: "cmd = RX_FILTER_ADD_IP p b sa da sp dp pr"
  defines "slots \<equiv> ip_filter_slots (port e p)"
  shows "(exanic_ioctl env e c cmd = Some (Inl ENOMEM, e, c) \<and> list_all ip_enable slots) \<or>
     (exanic_ioctl env e c cmd = Some (Inl EFAULT, e, c) \<and> \<not> allocated e (p, b)) \<or>
     (\<exists>n e'. exanic_ioctl env e c cmd = Some (Inr (Reply_filter n), e', c) \<and> allocated e (p, b) \<and>
        n < length slots \<and> \<not> ip_enable (slots ! n) \<and> list_all ip_enable (take n slots) \<and>
        port e' = (port e)(p := (port e p)\<lparr>ip_filter_slots := slots[n :=
          \<lparr>ip_enable = True, ip_buffer = b, src_addr = sa, dst_addr = da, src_port = sp, dst_port = dp, protocol = pr\<rparr>]\<rparr>))"
proof -
  let ?f = "\<lparr>ip_enable = False, ip_buffer = b, src_addr = sa, dst_addr = da, src_port = sp, dst_port = dp, protocol = pr\<rparr>"
  have st: "steer_inv e p" using assms(1,2,5) by (rule steer_reach)
  note i = steer_invD [OF st]
  obtain r e' where ins: "exanic_insert_ip_filter e p ?f = Some (r, e')"
    using insert_ip_total [OF st, of ?f] assms(6) by auto
  have lv: "live (port e p) b \<longleftrightarrow> allocated e (p, b)" using assms(6) i(7) by (simp add: live_def allocated_def)
  from ins show ?thesis
  proof (cases rule: insert_ip_cases)
    case 1
    then show ?thesis using ins assms(3-6) i(1)
      by (intro disjI1) (simp add: cmd_def slots_def ioctl_filter_add_ip_def list_all_length)
  next
    case 2
    then show ?thesis using ins assms(3-6) lv
      by (intro disjI2 disjI1) (simp add: cmd_def ioctl_filter_add_ip_def)
  next
    case (3 n e2)
    obtain rr where "e' = e2\<lparr>regs_virt := rr\<rparr>" using ip.update_bank_only [OF 3(8)] by blast
    then have "port e' = (port e)(p := (port e p)\<lparr>ip_filter_slots := slots[n := ?f\<lparr>ip_enable := True\<rparr>]\<rparr>)"
      unfolding 3(7) by (simp add: slots_def set_port_def)
    then show ?thesis using ins assms(3-6) 3(1,3-6) lv
      by (intro disjI2 exI [of _ n] exI [of _ e']) (auto simp: cmd_def slots_def ioctl_filter_add_ip_def reply_user_def list_all_length)
  qed
qed

lemma add_ip_filter_result_witness:
  "exanic_ioctl demo_env demo_card fresh_ctx (RX_FILTER_ADD_IP 1 0 1 2 3 4 6) = Some (Inl EFAULT, demo_card, fresh_ctx)"
proof -
  have a: "\<not> allocated demo_card (1, 0)" by (simp add: allocated_def demo_card_def demo_port_def)
  have "\<not> ip_enable (ip_filter_slots (port demo_card 1) ! 0)" "0 < length (ip_filter_slots (port demo_card 1))"
    by (simp_all add: demo_card_def demo_port_def)
  then have "\<not> list_all ip_enable (ip_filter_slots (port demo_card 1))" unfolding list_all_length by blast
  with a show ?thesis
    using add_ip_filter_result [OF demo_probed kreach_init, of demo_env 1 0 "RX_FILTER_ADD_IP 1 0 1 2 3 4 6" 1 2 3 4 6 fresh_ctx]
    by (simp add: demo_env_def) (simp add: demo_card_def)
qed

end
