(* ===== verification/KMmapProps.thy ===== *)
theory KMmapProps
  imports KMmap KOwner
begin

text \<open>
  What \<open>mmap\<close> hands out: which page offset gives which region, that nothing larger than a
  region and no writable receive memory is ever mapped, and when the driver faults.
\<close>

subsection \<open>The filter region\<close>

lemma filter_region_split:
  assumes "0 < k_max_filter_buffers e" "k_max_filter_buffers e \<le> 0x4000" "off < 262144"
  shows "u32_mul (k_max_filter_buffers e) 512 = k_max_filter_buffers e * 512"
    "filter_region_port e off = (off - 2560) div 512 div k_max_filter_buffers e"
    "filter_region_buffer e off = (off - 2560) div 512 mod k_max_filter_buffers e"
proof -
  let ?m = "k_max_filter_buffers e" and ?x = "(off - 2560) div 512"
  show 1: "u32_mul ?m 512 = ?m * 512" using assms(2) by (simp add: u32_mul_def)
  show 2: "filter_region_port e off = ?x div ?m"
    unfolding filter_region_port_def 1 by (simp add: div_mult2_eq [symmetric] mult.commute)
  have x: "?x < 512" using assms(3) by (simp add: less_mult_imp_div_less)
  have le: "?x div ?m * ?m \<le> ?x" by simp
  then have "u32_mul (?x div ?m) ?m = ?x div ?m * ?m" using x unfolding u32_mul_def by (intro mod_less le_less_trans [OF le]) simp
  then have "filter_region_buffer e off = nat ((int ?x - int (?x div ?m * ?m)) mod 2 ^ 32)"
    unfolding filter_region_buffer_def 2 by simp
  also have "int ?x - int (?x div ?m * ?m) = int (?x mod ?m)"
    unfolding of_nat_diff [OF le, symmetric] by (simp only: minus_div_mult_eq_mod)
  also have "nat (int (?x mod ?m) mod 2 ^ 32) = ?x mod ?m"
  proof -
    have small: "int y < 2 ^ 32" if "y \<le> z" "z < 512" for y z :: nat using that by simp
    have "int (?x mod ?m) < 2 ^ 32" by (rule small [OF _ x]) simp
    then show ?thesis by simp
  qed
  finally show "filter_region_buffer e off = ?x mod ?m" .
qed

text \<open>The page offset of buffer \<open>b\<close> of port \<open>p\<close>.\<close>

lemma filter_region_at:
  assumes "b < k_max_filter_buffers e" "k_max_filter_buffers e \<le> 0x4000"
    "off = 2560 + (p * k_max_filter_buffers e + b) * 512" "off < 262144"
  shows "filter_region_port e off = p" "filter_region_buffer e off = b" "(off - 2560) mod 512 = 0"
proof -
  have m: "0 < k_max_filter_buffers e" using assms(1) by simp
  have x: "(off - 2560) div 512 = p * k_max_filter_buffers e + b" by (simp add: assms(3))
  show "filter_region_port e off = p" "filter_region_buffer e off = b"
    using assms(1) m by (simp_all add: filter_region_split [OF m assms(2,4)] x)
  show "(off - 2560) mod 512 = 0" by (simp add: assms(3))
qed

lemma kinv_bufs:
  assumes "kinv (e, fds)" "p < k_num_ports e"
  shows "length (filter_buffers (port e p)) = k_max_filter_buffers e" "k_max_filter_buffers e \<le> 0x4000"
proof -
  have "steer_inv e p" using assms by (simp add: kinv_def)
  then show "length (filter_buffers (port e p)) = k_max_filter_buffers e" "k_max_filter_buffers e \<le> 0x4000"
    by (simp_all add: steer_inv_def port_inv_def bufs_ok_alt)
qed

subsection \<open>Faults\<close>

lemma if_None: "((if p then A else B) = None) \<longleftrightarrow> (p \<and> A = None) \<or> (\<not> p \<and> B = None)"
  by simp

lemma map_rx_region_fault:
  "(\<exists>y. exanic_map_rx_region remap same_node e v p b chk = Some y) \<longleftrightarrow> (0 < b \<longrightarrow> b - 1 < length (filter_buffers (port e p)))"
  "exanic_map_rx_region remap same_node e v p b chk = None \<longleftrightarrow> 0 < b \<and> length (filter_buffers (port e p)) \<le> b - 1"
  by (simp_all add: exanic_map_rx_region_def Let_def)

text \<open>
  C30. In every reachable state a mapping request faults the kernel exactly when the card has no
  filter buffers and the page offset is in the filter region: the handler then divides by the
  number of buffers. Every other request has a result.
\<close>

theorem mmap_faults_iff:
  assumes "probed e0" "kreach (e0, \<lambda>_. None) (e, fds)" "0 < k_num_ports e"
  shows "exanic_mmap remap same_node e c v = None \<longleftrightarrow>
    k_max_filter_buffers e = 0 \<and> EXANIC_PGOFF_FILTER_REGION \<le> vm_pgoff v \<and> vm_pgoff v < EXANIC_PGOFF_DEVKIT_REGS"
proof -
  have inv: "kinv (e, fds)" using assms(1,2) by (rule probed_reach)
  note k = kinv_bufs [OF inv]
  have m: "k_max_filter_buffers e \<le> 0x4000" using k(2) [OF assms(3)] .
  show ?thesis
  proof (cases "2560 \<le> vm_pgoff v \<and> vm_pgoff v < 262144 \<and> 0 < k_max_filter_buffers e")
    case True
    then have fr: "filter_region_buffer e (vm_pgoff v) < k_max_filter_buffers e" "u32_mul (k_max_filter_buffers e) 512 \<noteq> 0"
      using m filter_region_split(1,3) [of e "vm_pgoff v"] by simp_all
    have "exanic_mmap remap same_node e c v \<noteq> None"
      using True fr k(1) by (auto simp: exanic_mmap_def Let_def map_rx_region_fault)
    with True show ?thesis by simp
  next
    case False
    show ?thesis
    proof (cases "2560 \<le> vm_pgoff v \<and> vm_pgoff v < 262144")
      case True
      with False have "k_max_filter_buffers e = 0" by simp
      with True show ?thesis by (simp add: exanic_mmap_def Let_def u32_mul_def)
    next
      case no: False
      then have no': "(2560 \<le> vm_pgoff v \<and> vm_pgoff v < 262144) = False" by blast
      show ?thesis
        unfolding exanic_mmap_def Let_def if_None map_rx_region_fault(2) no'
        by (simp only: option.distinct less_irrefl simp_thms)
    qed
  qed
qed

definition bare_card :: kexanic where
  "bare_card = demo_card\<lparr>k_max_filter_buffers := 0, port := (\<lambda>_. demo_port
     \<lparr>filter_buffers := [], max_ip_filter_slots := 0, max_mac_filter_slots := 0, ip_filter_slots := [], mac_filter_slots := []\<rparr>)\<rparr>"

lemma bare_probed: "probed bare_card"
  by (simp add: probed_def bare_card_def demo_card_def card_ok_def fresh_port_def demo_port_def)

lemma mmap_faults_iff_witness:
  "exanic_mmap (\<lambda>_. None) (\<lambda>_ _. True) bare_card fresh_ctx \<lparr>vm_pgoff = 2560, vm_size = 0x1000, vm_write = False\<rparr> = None"
  using mmap_faults_iff [OF bare_probed kreach_init, of "\<lambda>_. None" "\<lambda>_ _. True" fresh_ctx
      "\<lparr>vm_pgoff = 2560, vm_size = 0x1000, vm_write = False\<rparr>"]
  by (simp add: bare_card_def demo_card_def)

subsection \<open>What may be mapped\<close>

definition region_limit :: "kexanic \<Rightarrow> region \<Rightarrow> nat" where
  "region_limit e r =
     (case r of Registers \<Rightarrow> regs_size e | Info \<Rightarrow> PAGE_SIZE | Filters \<Rightarrow> filters_size e
      | Tx_region \<Rightarrow> tx_region_size e | Tx_feedback \<Rightarrow> PAGE_SIZE | Rx_region _ \<Rightarrow> 512 * PAGE_SIZE
      | Devkit_regs ext \<Rightarrow> if ext then devkit_regs_ex_size e else devkit_regs_size e
      | Devkit_mem ext \<Rightarrow> if ext then devkit_mem_ex_size e else devkit_mem_size e)"

definition rx_memory_of :: "kexanic \<Rightarrow> nat \<Rightarrow> bool" where
  "rx_memory_of e x \<longleftrightarrow> (\<exists>p<k_num_ports e. rx_region_virt (port e p) = Some x \<or>
     (\<exists>b<k_max_filter_buffers e. region_virt (filter_buffers (port e p) ! b) = Some x))"

lemma remap_region_Inr: "remap_region remap r = Inr r' \<longleftrightarrow> r' = r \<and> remap r = None"
  by (auto simp: remap_region_def split: option.splits)

lemma map_rx_region_Inr:
  assumes "exanic_map_rx_region remap same_node e v p b chk = Some (Inr r)"
  obtains x where "r = Rx_region x" "\<not> vm_write v" "vm_size v \<le> 512 * PAGE_SIZE" "p < k_num_ports e"
    "b \<le> k_max_filter_buffers e"
    "b = 0 \<Longrightarrow> rx_region_virt (port e p) = Some x"
    "0 < b \<Longrightarrow> region_virt (filter_buffers (port e p) ! (b - 1)) = Some x"
  using assms
  by (auto simp: exanic_map_rx_region_def Let_def remap_region_Inr split: if_splits option.splits)

lemma map_rx_region_memory:
  "exanic_map_rx_region remap same_node e v p b chk = Some (Inr r) \<Longrightarrow>
    \<exists>x. r = Rx_region x \<and> rx_memory_of e x \<and> \<not> vm_write v \<and> vm_size v \<le> 512 * PAGE_SIZE"
proof (erule map_rx_region_Inr)
  fix x assume x: "r = Rx_region x" "\<not> vm_write v" "vm_size v \<le> 512 * PAGE_SIZE" "p < k_num_ports e"
    "b \<le> k_max_filter_buffers e" "b = 0 \<Longrightarrow> rx_region_virt (port e p) = Some x"
    "0 < b \<Longrightarrow> region_virt (filter_buffers (port e p) ! (b - 1)) = Some x"
  have "rx_memory_of e x"
  proof (cases "b = 0")
    case True with x show ?thesis by (auto simp: rx_memory_of_def)
  next
    case False
    then have "b - 1 < k_max_filter_buffers e" using x(5) by simp
    with False x show ?thesis by (auto simp: rx_memory_of_def)
  qed
  with x show ?thesis by simp
qed

definition map_ok :: "kexanic \<Rightarrow> vma \<Rightarrow> region \<Rightarrow> bool" where
  "map_ok e v r \<longleftrightarrow> vm_size v \<le> region_limit e r \<and> (r = Info \<longrightarrow> \<not> vm_write v) \<and>
    (\<forall>x. r = Rx_region x \<longrightarrow> \<not> vm_write v \<and> rx_memory_of e x)"

lemma map_fixed_ok:
  "exanic_map_registers remap e v = Inr r \<Longrightarrow> map_ok e v r"
  "exanic_map_info remap e v = Inr r \<Longrightarrow> map_ok e v r"
  "exanic_map_filters remap e v = Inr r \<Longrightarrow> map_ok e v r"
  "exanic_map_tx_region remap e v = Inr r \<Longrightarrow> map_ok e v r"
  "exanic_map_tx_feedback remap e v = Inr r \<Longrightarrow> map_ok e v r"
  "exanic_map_devkit_regs remap e v ext = Inr r \<Longrightarrow> map_ok e v r"
  "exanic_map_devkit_mem remap e v ext = Inr r \<Longrightarrow> map_ok e v r"
  by (auto simp: exanic_map_registers_def exanic_map_info_def exanic_map_filters_def exanic_map_tx_region_def
      exanic_map_tx_feedback_def exanic_map_devkit_regs_def exanic_map_devkit_mem_def remap_region_Inr
      region_limit_def map_ok_def Let_def split: if_splits)

lemma map_rx_ok: "exanic_map_rx_region remap same_node e v p b chk = Some (Inr r) \<Longrightarrow> map_ok e v r"
  by (drule map_rx_region_memory) (auto simp: region_limit_def map_ok_def)

text \<open>
  C27. Nothing beyond the size of the region is ever mapped; receive memory and the info page are
  never mapped writable; and what is mapped as receive memory is an allocated buffer of a port of
  this card.
\<close>

theorem mmap_sound:
  assumes "exanic_mmap remap same_node e c v = Some (Inr r)"
  shows "vm_size v \<le> region_limit e r \<and> (r = Info \<longrightarrow> \<not> vm_write v) \<and>
    (\<forall>x. r = Rx_region x \<longrightarrow> \<not> vm_write v \<and> rx_memory_of e x)"
  unfolding map_ok_def [symmetric] using assms unfolding exanic_mmap_def Let_def
  by (simp split: if_splits add: map_fixed_ok map_rx_ok)

lemma mmap_sound_witness:
  "exanic_mmap (\<lambda>_. None) (\<lambda>_ _. True) demo_card fresh_ctx \<lparr>vm_pgoff = 1024, vm_size = 0x200000, vm_write = False\<rparr>
     = Some (Inr (Rx_region 1)) \<and> rx_memory_of demo_card 1"
proof -
  have "exanic_mmap (\<lambda>_. None) (\<lambda>_ _. True) demo_card fresh_ctx \<lparr>vm_pgoff = 1024, vm_size = 0x200000, vm_write = False\<rparr>
     = Some (Inr (Rx_region 1))"
    by (simp add: exanic_mmap_def exanic_map_rx_region_def remap_region_def demo_card_def demo_port_def)
  from mmap_sound [OF this] this show ?thesis by simp
qed

end
