(* ===== verification/TxSystem.thy ===== *)
theory TxSystem
  imports TxAcquire TxLive KMmapProps
begin

text \<open>
  The library on the driver: the interface \<open>tx_kernel\<close> holds of the model of the driver, for
  any file, in every state that satisfies the driver's invariant. From it follow who owns the
  window of a transmit handle, that a failing call leaks nothing of the device, and that a
  fresh handle can transmit.
\<close>

subsection \<open>System calls\<close>

text \<open>The argument of an \<open>ioctl\<close> is on the library's stack, so copying it does not fail.\<close>

definition sys_ioctl :: "kenv \<Rightarrow> nat \<Rightarrow> kstate ioctl_fun" where
  "sys_ioctl env fd s cmd =
     (case snd s fd of
        None \<Rightarrow> None
      | Some c \<Rightarrow>
          (case exanic_ioctl (env\<lparr>copy_from_user := True, copy_to_user := True\<rparr>) (fst s) c cmd of
             None \<Rightarrow> None
           | Some (r, e1, c1) \<Rightarrow> Some (r, (e1, (snd s)(fd \<mapsto> c1)))))"

lemma sys_ioctl_step: "sys_ioctl env fd s cmd = Some (r, s') \<Longrightarrow> kstep s s'"
  by (cases s; cases s') (auto simp: sys_ioctl_def split: option.splits intro: kioctl)

text \<open>What a file sees of the bitmaps.\<close>

definition bits :: "bool list \<Rightarrow> nat set" where
  "bits bm = {i. i < length bm \<and> bm ! i}"

definition sys_view :: "nat \<Rightarrow> kstate \<Rightarrow> tx_view" where
  "sys_view fd s =
     (case snd s fd of
        None \<Rightarrow> \<lparr>taken_pages = {}, my_pages = {}, taken_slots = {}, my_slots = {}\<rparr>
      | Some c \<Rightarrow> \<lparr>taken_pages = bits (tx_region_bitmap (fst s)), my_pages = bits (ctx_tx_region_bitmap c),
                  taken_slots = bits (tx_feedback_bitmap (fst s)), my_slots = bits (ctx_tx_feedback_bitmap c)\<rparr>)"

definition sys_ok :: "nat \<Rightarrow> nat \<Rightarrow> kstate \<Rightarrow> bool" where
  "sys_ok fd ports s \<longleftrightarrow> kinv s \<and> snd s fd \<noteq> None \<and> k_num_ports (fst s) = ports"

lemma kinv_lengths:
  assumes "kinv (e, fds)" "fds fd = Some c"
  shows "length (tx_region_bitmap e) = 512" "length (ctx_tx_region_bitmap c) = 512"
    "length (tx_feedback_bitmap e) = 256" "length (ctx_tx_feedback_bitmap c) = 256"
  using dividedD(1,2) [OF divided_now(1) [OF assms(1)]] dividedD(1,2) [OF divided_now(2) [OF assms(1)]] assms(2)
  by fastforce+

lemma sys_okE:
  assumes "sys_ok fd ports s"
  obtains e fds c where "s = (e, fds)" "kinv (e, fds)" "fds fd = Some c" "k_num_ports e = ports"
  using assms by (cases s) (auto simp: sys_ok_def)

lemma sys_view_some [simp]:
  "sys_view fd (e, fds(fd \<mapsto> c)) = \<lparr>taken_pages = bits (tx_region_bitmap e), my_pages = bits (ctx_tx_region_bitmap c),
     taken_slots = bits (tx_feedback_bitmap e), my_slots = bits (ctx_tx_feedback_bitmap c)\<rparr>"
  "fds fd = Some c \<Longrightarrow> sys_view fd (e, fds) = \<lparr>taken_pages = bits (tx_region_bitmap e), my_pages = bits (ctx_tx_region_bitmap c),
     taken_slots = bits (tx_feedback_bitmap e), my_slots = bits (ctx_tx_feedback_bitmap c)\<rparr>"
  by (simp_all add: sys_view_def)

lemma bits_set_pages: "\<forall>p\<in>set ps. p < length bm \<Longrightarrow> bits (set_pages True ps bm) = bits bm \<union> set ps"
  by (auto simp: bits_def set_pages_nth)

lemma bits_upd: "k < length bm \<Longrightarrow> bits (bm[k := True]) = insert k (bits bm)"
  by (auto simp: bits_def nth_list_update)

lemma bits_clear:
  assumes "clear_pages ps dev own = Some (dev', own')" "length dev = length own"
  shows "bits dev' = bits dev - (set ps \<inter> bits own)" "bits own' = bits own - set ps"
  using clear_pages_Some [OF assms] by (auto simp: bits_def assms(2))

lemma sys_view_ok:
  assumes "sys_ok fd ports s" shows "view_ok (sys_view fd s)"
  using assms
proof (rule sys_okE)
  fix e fds c assume s: "s = (e, fds)" "kinv (e, fds)" "fds fd = Some c"
  note d = divided_now [OF s(2)]
  show ?thesis using kinv_lengths [OF s(2,3)] dividedD(3) [OF d(1), of fd] dividedD(3) [OF d(2), of fd] s(1,3)
    by (auto simp: view_ok_def bits_def)
qed

subsection \<open>The four commands\<close>

lemma sys_buffer_alloc:
  assumes ok: "sys_ok fd ports s" and "p < ports" and sz: "sz mod PAGE_SIZE = 0"
  shows "\<exists>r s'. sys_ioctl env fd s (TX_BUFFER_ALLOC p sz) = Some (r, s') \<and> sys_ok fd ports s' \<and>
        ((\<exists>x. r = Inl x) \<and> sys_view fd s' = sys_view fd s \<or>
         (\<exists>off. r = Inr (Reply_offset off) \<and> off mod PAGE_SIZE = 0 \<and> off + sz \<le> 512 * PAGE_SIZE \<and>
            page_range off sz \<inter> taken_pages (sys_view fd s) = {} \<and>
            sys_view fd s' = take_pages (page_range off sz) (sys_view fd s)))"
  using ok
proof (rule sys_okE)
  fix e fds c assume s: "s = (e, fds)" "kinv (e, fds)" "fds fd = Some c" "k_num_ports e = ports"
  let ?env = "env\<lparr>copy_from_user := True, copy_to_user := True\<rparr>"
  note len = kinv_lengths [OF s(2,3)]
  obtain r e' c' where al: "exanic_ioctl ?env e c (TX_BUFFER_ALLOC p sz) = Some (r, e', c')"
    using ioctl_total [OF s(2,3), of "TX_BUFFER_ALLOC p sz" ?env] by (auto simp: free_in_range_def)
  then have inv: "kinv (e', fds(fd \<mapsto> c'))" by (rule kinv_ioctl [OF s(2,3)])
  obtain r0 where al0: "exanic_alloc_tx_region e c p sz = Some (r0, e', c')" and
    r: "r = map_sum id Reply_offset r0"
    using al assms(2) sz s(4) by (auto simp: ioctl_tx_buffer_alloc_def reply_user_def split: option.splits sum.splits)
  have sys: "sys_ioctl env fd s (TX_BUFFER_ALLOC p sz) = Some (r, (e', fds(fd \<mapsto> c')))"
    using al by (simp add: s(1,3) sys_ioctl_def)
  from alloc_tx_region_spec [OF al0 len(1,2)] show ?thesis
  proof (elim disjE exE conjE)
    assume "r0 = Inl ENOMEM" "e' = e" "c' = c"
    then show ?thesis using sys inv s r by (intro exI conjI disjI1) (auto simp: sys_ok_def fun_upd_idem)
  next
    fix page
    assume r0: "r0 = Inr (page * PAGE_SIZE)"
      and fr: "\<forall>i. page \<le> i \<and> i < page + sz div PAGE_SIZE \<longrightarrow> i < 512 \<and> \<not> tx_region_bitmap e ! i"
      and le: "page + sz div PAGE_SIZE \<le> tx_region_usable_offset (port e p) div PAGE_SIZE + tx_region_usable_size (port e p) div PAGE_SIZE"
      and e': "e' = e\<lparr>tx_region_bitmap := set_pages True [page..<page + sz div PAGE_SIZE] (tx_region_bitmap e)\<rparr>"
      and c': "c' = c\<lparr>ctx_tx_region_bitmap := set_pages True [page..<page + sz div PAGE_SIZE] (ctx_tx_region_bitmap c)\<rparr>"
    have pr: "page_range (page * PAGE_SIZE) sz = set [page..<page + sz div PAGE_SIZE]"
      by (simp add: page_range_def)
    have "page + sz div PAGE_SIZE \<le> 512" using le s(2,4) assms(2) by (simp add: kinv_def card_ok_def) (meson order_trans)
    moreover have "sz = sz div PAGE_SIZE * PAGE_SIZE" using sz by auto
    ultimately have "page * PAGE_SIZE + sz \<le> 512 * PAGE_SIZE" by linarith
    moreover have "page_range (page * PAGE_SIZE) sz \<inter> taken_pages (sys_view fd s) = {}"
      using fr s(3) unfolding pr by (auto simp: s(1) bits_def)
    moreover have "sys_view fd (e', fds(fd \<mapsto> c')) = take_pages (page_range (page * PAGE_SIZE) sz) (sys_view fd s)"
      using s(3) fr len unfolding pr by (simp add: s(1) e' c' take_pages_def bits_set_pages)
    moreover have "sys_ok fd ports (e', fds(fd \<mapsto> c'))" using inv s(4) by (simp add: sys_ok_def e')
    ultimately show ?thesis using sys r0 r
      by (intro exI [of _ r] exI [of _ "(e', fds(fd \<mapsto> c'))"] conjI disjI2 exI [of _ "page * PAGE_SIZE"]) simp_all
  qed
qed

lemma sys_buffer_free:
  assumes ok: "sys_ok fd ports s" and "p < ports" "sz mod PAGE_SIZE = 0" "off mod PAGE_SIZE = 0"
    and le: "off + sz \<le> 512 * PAGE_SIZE"
  shows "\<exists>s'. sys_ioctl env fd s (TX_BUFFER_FREE p sz off) = Some (Inr Reply_none, s') \<and> sys_ok fd ports s' \<and>
        sys_view fd s' = drop_pages (page_range off sz) (sys_view fd s)"
  using ok
proof (rule sys_okE)
  fix e fds c assume s: "s = (e, fds)" "kinv (e, fds)" "fds fd = Some c" "k_num_ports e = ports"
  let ?env = "env\<lparr>copy_from_user := True, copy_to_user := True\<rparr>" and ?ps = "[off div 4096..<off div 4096 + sz div 4096]"
  note len = kinv_lengths [OF s(2,3)]
  have "off div 4096 + sz div 4096 \<le> 512"
    using div_le_mono [OF le, of 4096] assms(3) by (simp add: div_add1_eq)
  then have "\<forall>p\<in>set ?ps. p < length (ctx_tx_region_bitmap c)" using len by simp
  then obtain dev own where cl: "clear_pages ?ps (tx_region_bitmap e) (ctx_tx_region_bitmap c) = Some (dev, own)"
    using clear_pages_total by fastforce
  let ?e' = "e\<lparr>tx_region_bitmap := dev\<rparr>" and ?c' = "c\<lparr>ctx_tx_region_bitmap := own\<rparr>"
  have op: "exanic_ioctl ?env e c (TX_BUFFER_FREE p sz off) = Some (Inr Reply_none, ?e', ?c')"
    using assms(2-4) s(4) cl by (simp add: ioctl_tx_buffer_free_def exanic_free_tx_region_def Let_def)
  then have "kinv (?e', fds(fd \<mapsto> ?c'))" by (rule kinv_ioctl [OF s(2,3)])
  then have "sys_ok fd ports (?e', fds(fd \<mapsto> ?c'))" using s(4) by (simp add: sys_ok_def)
  moreover have "sys_view fd (?e', fds(fd \<mapsto> ?c')) = drop_pages (page_range off sz) (sys_view fd s)"
    using s(3) bits_clear [OF cl] len by (simp add: s(1) drop_pages_def page_range_def)
  moreover have "sys_ioctl env fd s (TX_BUFFER_FREE p sz off) = Some (Inr Reply_none, (?e', fds(fd \<mapsto> ?c')))"
    using op by (simp add: s(1,3) sys_ioctl_def)
  ultimately show ?thesis by blast
qed

lemma sys_feedback_alloc:
  assumes ok: "sys_ok fd ports s" and "p < ports"
  shows "\<exists>r s'. sys_ioctl env fd s (TX_FEEDBACK_ALLOC p) = Some (r, s') \<and> sys_ok fd ports s' \<and>
        ((\<exists>x. r = Inl x) \<and> sys_view fd s' = sys_view fd s \<or>
         (\<exists>k. r = Inr (Reply_slot k) \<and> k < 256 \<and> k \<notin> taken_slots (sys_view fd s) \<and>
            sys_view fd s' = take_slot k (sys_view fd s)))"
  using ok
proof (rule sys_okE)
  fix e fds c assume s: "s = (e, fds)" "kinv (e, fds)" "fds fd = Some c" "k_num_ports e = ports"
  let ?env = "env\<lparr>copy_from_user := True, copy_to_user := True\<rparr>"
  note len = kinv_lengths [OF s(2,3)]
  obtain k where k: "first_not (\<lambda>b. b) (tx_feedback_bitmap e) 256 = Some k"
    using first_not_total [of 256 "tx_feedback_bitmap e"] len by auto
  note f = first_not_Some [OF k]
  show ?thesis
  proof (cases "k = 256")
    case True
    then have "sys_ioctl env fd s (TX_FEEDBACK_ALLOC p) = Some (Inl ENOMEM, s)"
      using k assms(2) s by (simp add: sys_ioctl_def ioctl_tx_feedback_alloc_def exanic_alloc_tx_feedback_def fun_upd_idem)
    with ok show ?thesis by blast
  next
    case False
    let ?e' = "e\<lparr>tx_feedback_bitmap := (tx_feedback_bitmap e)[k := True]\<rparr>"
      and ?c' = "c\<lparr>ctx_tx_feedback_bitmap := (ctx_tx_feedback_bitmap c)[k := True]\<rparr>"
    have op: "exanic_ioctl ?env e c (TX_FEEDBACK_ALLOC p) = Some (Inr (Reply_slot k), ?e', ?c')"
      using k assms(2) s(4) False
      by (simp add: ioctl_tx_feedback_alloc_def exanic_alloc_tx_feedback_def reply_user_def)
    then have "kinv (?e', fds(fd \<mapsto> ?c'))" by (rule kinv_ioctl [OF s(2,3)])
    then have "sys_ok fd ports (?e', fds(fd \<mapsto> ?c'))" using s(4) by (simp add: sys_ok_def)
    moreover have "k < 256" "k \<notin> taken_slots (sys_view fd s)" using f False s(3) by (auto simp: s(1) bits_def)
    moreover have "sys_view fd (?e', fds(fd \<mapsto> ?c')) = take_slot k (sys_view fd s)"
      using s(3) len f False by (simp add: s(1) take_slot_def bits_upd)
    moreover have "sys_ioctl env fd s (TX_FEEDBACK_ALLOC p) = Some (Inr (Reply_slot k), (?e', fds(fd \<mapsto> ?c')))"
      using op by (simp add: s(1,3) sys_ioctl_def)
    ultimately show ?thesis by blast
  qed
qed

lemma sys_feedback_free:
  assumes ok: "sys_ok fd ports s" and "p < ports" "k < 256"
  shows "\<exists>s'. sys_ioctl env fd s (TX_FEEDBACK_FREE p k) = Some (Inr Reply_none, s') \<and> sys_ok fd ports s' \<and>
        sys_view fd s' = drop_slot k (sys_view fd s)"
  using ok
proof (rule sys_okE)
  fix e fds c assume s: "s = (e, fds)" "kinv (e, fds)" "fds fd = Some c" "k_num_ports e = ports"
  let ?env = "env\<lparr>copy_from_user := True, copy_to_user := True\<rparr>"
  note len = kinv_lengths [OF s(2,3)]
  obtain dev own where cl: "clear_pages [k] (tx_feedback_bitmap e) (ctx_tx_feedback_bitmap c) = Some (dev, own)"
    using clear_pages_total [of "[k]" "ctx_tx_feedback_bitmap c"] len assms(3) by fastforce
  let ?e' = "e\<lparr>tx_feedback_bitmap := dev\<rparr>" and ?c' = "c\<lparr>ctx_tx_feedback_bitmap := own\<rparr>"
  have op: "exanic_ioctl ?env e c (TX_FEEDBACK_FREE p k) = Some (Inr Reply_none, ?e', ?c')"
    using assms(2,3) s(4) cl by (simp add: ioctl_tx_feedback_free_def exanic_free_tx_feedback_def del: clear_pages.simps)
  then have "kinv (?e', fds(fd \<mapsto> ?c'))" by (rule kinv_ioctl [OF s(2,3)])
  then have "sys_ok fd ports (?e', fds(fd \<mapsto> ?c'))" using s(4) by (simp add: sys_ok_def)
  moreover have "sys_view fd (?e', fds(fd \<mapsto> ?c')) = drop_slot k (sys_view fd s)"
    using s(3) bits_clear [OF cl] len by (simp add: s(1) drop_slot_def)
  moreover have "sys_ioctl env fd s (TX_FEEDBACK_FREE p k) = Some (Inr Reply_none, (?e', fds(fd \<mapsto> ?c')))"
    using op by (simp add: s(1,3) sys_ioctl_def)
  ultimately show ?thesis by blast
qed

interpretation sys: tx_kernel "sys_ioctl env fd" "sys_ok fd ports" "sys_view fd" ports for env fd ports
  by unfold_locales
    (rule sys_view_ok sys_buffer_alloc sys_buffer_free sys_feedback_alloc sys_feedback_free; assumption)+

subsection \<open>A fresh handle\<close>

definition fresh_ghost :: "nat \<Rightarrow> ghost" where
  "fresh_ghost sz = \<lparr>gn = 1, gf = 0, gq = 0, gr = 1, gp = 0, gst = (\<lambda>_. 0), gen = (\<lambda>_. sz)\<rparr>"

lemma new_tx_fields:
  assumes "off + sz \<le> 512 * PAGE_SIZE"
  shows "unat (buffer_size (new_tx env p sz off k)) = sz" "unat (buffer_offset (new_tx env p sz off k)) = off"
    "tx_port_number (new_tx env p sz off k) = p" "feedback_slot (new_tx env p sz off k) = int k"
  using assms by (simp_all add: new_tx_def Let_def of_nat_inverse [OF refl])

lemma new_tx_queue:
  assumes "sz mod PAGE_SIZE = 0" "0 < sz" "sz \<le> 512 * PAGE_SIZE"
  shows "\<exists>k. 3 \<le> k \<and> k \<le> 12 \<and> queue_len (new_tx env p sz off slot) = 2 ^ k"
proof -
  obtain m where m: "sz = 4096 * m" "0 < m" "m \<le> 512" using assms by (auto simp: mod_eq_0_iff_dvd elim!: dvdE)
  have n: "unat (of_nat (sz div 512) :: u32) = 8 * m" 
  proof -
    have "sz div 512 = 8 * m" by (simp add: m(1))
    then show ?thesis using m(3) by (simp only:) (rule of_nat_inverse [OF refl], simp)
  qed
  then have "(of_nat (sz div 512) :: u32) \<noteq> 0" using m(2) by (metis mult_eq_0_iff not_gr_zero unat_0 zero_neq_numeral)
  then obtain k where k: "round_down_pow2 (of_nat (sz div 512)) = 2 ^ k" "k < 32" "2 ^ k \<le> 8 * m" "8 * m < 2 ^ Suc k"
    using round_down_pow2_spec n by metis
  have "(2 :: nat) ^ 3 < 2 ^ Suc k" using k(4) m(2) by simp
  then have "3 \<le> k" by (simp only: power_strict_increasing_iff)
  have "(2 :: nat) ^ k \<le> 2 ^ 12" using k(3) m(3) by simp
  then have "k \<le> 12" by (simp only: power_increasing_iff)
  have "unat ((2 :: u32) ^ k) = 2 ^ k" using k(2) power_strict_increasing [of k 32 "2 :: nat"] by (intro of_nat_inverse) simp_all
  then have "uint ((2 :: u32) ^ k) = 2 ^ k" by (simp add: uint_nat)
  with \<open>3 \<le> k\<close> \<open>k \<le> 12\<close> k(1) show ?thesis by (auto simp: new_tx_def Let_def)
qed

lemma new_tx_inv:
  assumes sz: "sz mod PAGE_SIZE = 0" "0 < sz" and off: "off + sz \<le> 512 * PAGE_SIZE" "off + sz \<le> length (tx_memory env)"
  shows "tx_inv (new_tx env p sz off slot) (fresh_ghost sz) \<and> tx_live (new_tx env p sz off slot) (fresh_ghost sz)"
proof -
  let ?tx = "new_tx env p sz off slot"
  note f = new_tx_fields(1,2) [OF off(1)]
  obtain k where k: "3 \<le> k" "k \<le> 12" "queue_len ?tx = 2 ^ k"
    using new_tx_queue [OF sz, of env p off slot] off(1) by auto
  have q: "qlen ?tx = 2 ^ k" by (simp add: k(3) nat_power_eq)
  have q1: "1 < qlen ?tx" unfolding q using k(1) by (intro one_less_power) simp_all
  have fo: "feedback_offsets ?tx = (replicate (qlen ?tx) 0)[0 := of_nat sz]" by (simp add: new_tx_def Let_def)
  have fields: "next_offset ?tx = 0" "feedback_seq ?tx = 0" "request_seq ?tx = 0" "rollover_seq ?tx = 1" "next_seq ?tx = 1"
    "tx_buffer ?tx = take sz (drop off (tx_memory env))"
    by (simp_all add: new_tx_def Let_def)
  have shape: "tx_shape ?tx"
    using k off f(1) unfolding tx_shape_def fo fields by (intro conjI exI [of _ k]) simp_all
  have seqs: "tx_seqs ?tx (fresh_ghost sz)"
    using q1 by (auto simp: tx_seqs_def fields fo fresh_ghost_def)
  have layout: "tx_layout ?tx (fresh_ghost sz)"
    using f(1) by (auto simp: tx_layout_def fields fresh_ghost_def)
  have "tx_live ?tx (fresh_ghost sz)"
    using sz f(1) q1 by (auto simp: tx_live_def fields fresh_ghost_def mod_eq_0_iff_dvd)
  with shape seqs layout show ?thesis by (simp add: tx_inv_def)
qed

subsection \<open>Properties of acquire and release\<close>

lemma reach_sys_ok:
  "probed e0 \<Longrightarrow> kreach (e0, \<lambda>_. None) s \<Longrightarrow> snd s fd \<noteq> None \<Longrightarrow> sys_ok fd (k_num_ports (fst s)) s"
  by (cases s) (auto simp: sys_ok_def probed_reach)

text \<open>
  C15. The window of an acquired transmit handle consists of pages no open file owned, which now
  belong to this file and to no other; its feedback slot likewise. The window lies inside the
  region and is as large as requested.
\<close>

theorem acquire_tx_buffer_exclusive:
  assumes "probed e0" "kreach (e0, \<lambda>_. None) s" "snd s fd \<noteq> None" "num_ports ex \<le> k_num_ports (fst s)"
    and acq: "exanic_acquire_tx_buffer (sys_ioctl env fd) tenv ex s rc p rs = Some (Inr tx, s', rc')"
  shows "bsize tx = (if rs = 0 then DEFAULT_TX_BUFFER_SIZE else rs) \<and>
     unat (buffer_offset tx) + bsize tx \<le> 512 * PAGE_SIZE \<and>
     (\<forall>i\<in>page_range (unat (buffer_offset tx)) (bsize tx). \<not> tx_region_bitmap (fst s) ! i \<and>
        (\<forall>f. (\<exists>c. snd s' f = Some c \<and> ctx_tx_region_bitmap c ! i) \<longleftrightarrow> f = fd)) \<and>
     (let k = nat (feedback_slot tx) in \<not> tx_feedback_bitmap (fst s) ! k \<and>
        (\<forall>f. (\<exists>c. snd s' f = Some c \<and> ctx_tx_feedback_bitmap c ! k) \<longleftrightarrow> f = fd))"
proof -
  have ok: "sys_ok fd (k_num_ports (fst s)) s" using assms(1-3) by (rule reach_sys_ok)
  from ok obtain e fds c where s: "s = (e, fds)" "kinv (e, fds)" "fds fd = Some c" by (rule sys_okE)
  note len = kinv_lengths [OF s(2,3)]
  from sys.acquire_cases [OF ok assms(4), of env tenv rc p rs] show ?thesis
  proof cases
    case success: (2 off slot s1 sz)
    from success(1) acq have tx: "tx = new_tx tenv p sz off slot" "s' = s1" by simp_all
    note f = new_tx_fields [OF success(6), of tenv p slot, folded tx(1)]
    from success(2) obtain e1 fds1 c1 where s1: "s1 = (e1, fds1)" "kinv (e1, fds1)" "fds1 fd = Some c1"
      by (rule sys_okE)
    note len1 = kinv_lengths [OF s1(2,3)] and d = divided_now [OF s1(2)]
    have vw: "sys_view fd s1 = take_slot slot (take_pages (page_range off sz) (sys_view fd s))" by (rule success(11))
    have own: "page_range off sz \<subseteq> bits (ctx_tx_region_bitmap c1)" "slot \<in> bits (ctx_tx_feedback_bitmap c1)"
      using arg_cong [OF vw, of my_pages] arg_cong [OF vw, of my_slots] s(3) s1(3) by (auto simp: s(1) s1(1) view_defs)
    have lt: "i < 512" if "i \<in> page_range off sz" for i using own(1) that len1 by (auto simp: bits_def)
    have "(\<exists>c. fds1 g = Some c \<and> ctx_tx_region_bitmap c ! i) \<longleftrightarrow> g = fd" if "i \<in> page_range off sz" for g i
      using own(1) that s1(3) dividedD(5) [OF d(1), of g _ fd _ i] lt [OF that] by (auto simp: bits_def)
    moreover have "(\<exists>c. fds1 g = Some c \<and> ctx_tx_feedback_bitmap c ! slot) \<longleftrightarrow> g = fd" for g
      using own(2) s1(3) dividedD(5) [OF d(2), of g _ fd _ slot] success(7) by (auto simp: bits_def)
    moreover have "\<not> tx_region_bitmap e ! i" if "i \<in> page_range off sz" for i
      using success(9) that lt [OF that] s(3) len by (auto simp: s(1) bits_def)
    moreover have "\<not> tx_feedback_bitmap e ! slot"
      using success(7,10) s(3) len by (auto simp: s(1) bits_def)
    ultimately show ?thesis using f success(3,6) by (simp add: tx(2) s1(1) s(1))
  qed (use acq in simp)
qed

definition demo_handle :: exanic_t where
  "demo_handle = \<lparr>registers = (\<lambda>i. if i = REG_PORT_INDEX 0 REG_PORT_ENABLED then 1 else 0), num_ports = 2, tick_hz = 0,
     caps = 0, max_filter_buffers = 2, info_page_hw_time = None\<rparr>"

definition demo_tx_env :: tx_env where
  "demo_tx_env = \<lparr>malloc_ok = True, calloc_ok = True, tx_memory = replicate 0x20000 0, junk_need_feedback = False\<rparr>"

lemma demo_handle_usable: "exanic_port_tx_usable demo_handle 0" "exanic_port_rx_usable demo_handle 0"
  "exanic_port_enabled demo_handle 0 = 1" "num_ports demo_handle = 2" "max_filter_buffers demo_handle = 2"
  by (simp_all add: demo_handle_def exanic_port_tx_usable_def exanic_port_rx_usable_def exanic_port_enabled_def
      check_port_configurable_def port_reg_def REG_PORT_INDEX_def REG_PORT_OFFSET_def)

lemma demo_acquire:
  "\<exists>s'. exanic_acquire_tx_buffer (sys_ioctl demo_env 0) demo_tx_env demo_handle (demo_card, [0 \<mapsto> fresh_ctx]) 1 0 0x2000 =
     Some (Inr (new_tx demo_tx_env 0 0x2000 0x4000 0), s', 2)"
proof -
  let ?env = "demo_env\<lparr>copy_from_user := True, copy_to_user := True\<rparr>"
  obtain e1 c1 where 1: "exanic_ioctl ?env demo_card fresh_ctx (TX_BUFFER_ALLOC 0 0x2000) = Some (Inr (Reply_offset 0x4000), e1, c1)"
    "tx_feedback_bitmap e1 = replicate 256 False" "k_num_ports e1 = 2"
    by (simp add: ioctl_tx_buffer_alloc_def exanic_alloc_tx_region_def Let_def fresh_ctx_def exanic_alloc_ctx_def
        demo_env_def demo_card_def demo_port_def reply_user_def find_pages.simps [of _ _ _ 4] numeral_2_eq_2)
  obtain e2 c2 where 2: "exanic_ioctl ?env e1 c1 (TX_FEEDBACK_ALLOC 0) = Some (Inr (Reply_slot 0), e2, c2)"
    by (simp add: ioctl_tx_feedback_alloc_def exanic_alloc_tx_feedback_def 1 reply_user_def numeral_eq_Suc)
  show ?thesis using demo_handle_usable 1(1) 2
    by (simp add: exanic_acquire_tx_buffer_def exanic_alloc_tx_buffer_def exanic_alloc_tx_feedback_slot_def sys_ioctl_def
        demo_tx_env_def Let_def)
qed

lemma acquire_tx_buffer_exclusive_witness:
  "\<exists>tx s'. exanic_acquire_tx_buffer (sys_ioctl demo_env 0) demo_tx_env demo_handle (demo_card, [0 \<mapsto> fresh_ctx]) 1 0 0x2000 =
       Some (Inr tx, s', 2) \<and>
     (\<forall>f. (\<exists>c. snd s' f = Some c \<and> ctx_tx_region_bitmap c ! 5) \<longleftrightarrow> f = 0)"
proof -
  let ?tx = "new_tx demo_tx_env 0 0x2000 0x4000 0"
  obtain s' where a: "exanic_acquire_tx_buffer (sys_ioctl demo_env 0) demo_tx_env demo_handle (demo_card, [0 \<mapsto> fresh_ctx]) 1 0 0x2000 =
     Some (Inr ?tx, s', 2)"
    using demo_acquire by blast
  have "5 \<in> page_range (unat (buffer_offset ?tx)) (bsize ?tx)"
    by (simp add: new_tx_fields page_range_def)
  moreover have "num_ports demo_handle \<le> k_num_ports (fst (demo_card, [0 \<mapsto> fresh_ctx]))"
    by (simp add: demo_handle_usable demo_card_def)
  ultimately show ?thesis
    using acquire_tx_buffer_exclusive [OF demo_probed open_reach [OF fresh_ctx] _ _ a] a by fastforce
qed

text \<open>Acquiring leaks nothing of the device: when it fails, whatever the reason, no page and no
  feedback slot has changed hands; and releasing a handle right after acquiring it restores
  all four bitmaps.
\<close>

theorem acquire_release_roundtrip:
  assumes "probed e0" "kreach (e0, \<lambda>_. None) s" "snd s fd \<noteq> None" "num_ports ex \<le> k_num_ports (fst s)"
  shows "(\<exists>x s' rc'. exanic_acquire_tx_buffer (sys_ioctl env fd) tenv ex s rc p rs = Some (Inl x, s', rc') \<and>
            sys_view fd s' = sys_view fd s) \<or>
         (\<exists>tx s' s''. exanic_acquire_tx_buffer (sys_ioctl env fd) tenv ex s rc p rs = Some (Inr tx, s', rc + 1) \<and>
            exanic_release_tx_buffer (sys_ioctl env fd) s' (rc + 1) tx = Some (s'', rc) \<and>
            sys_view fd s'' = sys_view fd s)"
proof -
  have ok: "sys_ok fd (k_num_ports (fst s)) s" using assms(1-3) by (rule reach_sys_ok)
  from sys.acquire_cases [OF ok assms(4), of env tenv rc p rs] show ?thesis
  proof cases
    case 1
    then show ?thesis by blast
  next
    case success: (2 off slot s1 sz)
    let ?tx = "new_tx tenv p sz off slot"
    note f = new_tx_fields [OF success(6), of tenv p slot]
    have c: "nat (tx_port_number ?tx) < k_num_ports (fst s)" "bsize ?tx mod PAGE_SIZE = 0"
      "unat (buffer_offset ?tx) mod PAGE_SIZE = 0" "unat (buffer_offset ?tx) + bsize ?tx \<le> 512 * PAGE_SIZE"
      "nat (feedback_slot ?tx) < 256"
      using success(4-8) by (simp_all add: f)
    obtain s2 where r: "exanic_release_tx_buffer (sys_ioctl env fd) s1 (rc + 1) ?tx = Some (s2, rc + 1 - 1)"
      and v: "sys_view fd s2 = drop_slot (nat (feedback_slot ?tx))
        (drop_pages (page_range (unat (buffer_offset ?tx)) (bsize ?tx)) (sys_view fd s1))"
      using sys.release [OF success(2) c, of env "rc + 1"] by blast
    have "view_ok (sys_view fd s)" using ok by (rule sys_view_ok)
    then have "sys_view fd s2 = sys_view fd s"
      using success(9,10) by (simp add: v f success(11) drop_other)
    moreover have "exanic_release_tx_buffer (sys_ioctl env fd) s1 (rc + 1) ?tx = Some (s2, rc)" using r by simp
    ultimately show ?thesis using success(1) by blast
  qed
qed

lemma acquire_release_roundtrip_witness:
  "\<exists>tx s' s''. exanic_acquire_tx_buffer (sys_ioctl demo_env 0) demo_tx_env demo_handle (demo_card, [0 \<mapsto> fresh_ctx]) 1 0 0x2000 =
       Some (Inr tx, s', 2) \<and>
     exanic_release_tx_buffer (sys_ioctl demo_env 0) s' 2 tx = Some (s'', 1) \<and>
     sys_view 0 s'' = sys_view 0 (demo_card, [0 \<mapsto> fresh_ctx])"
proof -
  have "num_ports demo_handle \<le> k_num_ports (fst (demo_card, [0 \<mapsto> fresh_ctx]))"
    by (simp add: demo_handle_usable demo_card_def)
  from acquire_release_roundtrip [OF demo_probed open_reach [OF fresh_ctx] _ this, of 0 demo_env demo_tx_env 1 0 "0x2000"]
  show ?thesis using demo_acquire by fastforce
qed

text \<open>
  C14. An acquired handle is ready: every frame up to its MTU is transmitted at once, with no
  feedback from the card, the feedback word still holding the zero that acquiring stored.
\<close>

theorem acquired_handle_transmits:
  assumes "probed e0" "kreach (e0, \<lambda>_. None) s" "snd s fd \<noteq> None" "num_ports ex \<le> k_num_ports (fst s)"
    and acq: "exanic_acquire_tx_buffer (sys_ioctl env fd) tenv ex s rc p rs = Some (Inr tx, s', rc')"
    and mem: "unat (buffer_offset tx) + bsize tx \<le> length (tx_memory tenv)"
    and len: "length frame \<le> exanic_get_tx_mtu tx"
  shows "fb_writes tx = [0] \<and> (\<exists>tx'. exanic_transmit_frame 2 (\<lambda>_. 0) tx frame = Some (Inr (), tx'))"
proof -
  have ok: "sys_ok fd (k_num_ports (fst s)) s" using assms(1-3) by (rule reach_sys_ok)
  from sys.acquire_cases [OF ok assms(4), of env tenv rc p rs] show ?thesis
  proof cases
    case success: (2 off slot s1 sz)
    from success(1) acq have tx: "tx = new_tx tenv p sz off slot" by simp
    note f = new_tx_fields [OF success(6), of tenv p slot, folded tx]
    have "0 < sz" using success(3) by simp
    from new_tx_inv [OF success(4) this success(6), of tenv p slot] mem
    have inv: "tx_inv tx (fresh_ghost sz)" "tx_live tx (fresh_ghost sz)" unfolding f by (simp_all add: tx)
    have o: "prepared_chunk tx = None" "fb_reads tx = 0" "fb_writes tx = [0]" by (simp_all add: tx new_tx_def Let_def)
    have "\<exists>tx' g'. exanic_transmit_frame 2 (\<lambda>k. of_nat 0) tx frame = Some (Inr (), tx') \<and>
        tx_inv tx' g' \<and> tx_live tx' g' \<and> gn g' = Suc (gn (fresh_ghost sz))"
      by (rule transmit_live [OF inv o(1) len, of "\<lambda>_. 0" 0]) (simp_all add: fresh_ghost_def mono_def o)
    with o(3) show ?thesis by auto
  qed (use acq in simp)
qed

lemma acquired_handle_transmits_witness:
  "\<exists>tx s' tx'. exanic_acquire_tx_buffer (sys_ioctl demo_env 0) demo_tx_env demo_handle (demo_card, [0 \<mapsto> fresh_ctx]) 1 0 0x2000 =
       Some (Inr tx, s', 2) \<and> exanic_transmit_frame 2 (\<lambda>_. 0) tx (replicate 3574 0xAA) = Some (Inr (), tx')"
proof -
  let ?tx = "new_tx demo_tx_env 0 0x2000 0x4000 0"
  obtain s' where a: "exanic_acquire_tx_buffer (sys_ioctl demo_env 0) demo_tx_env demo_handle (demo_card, [0 \<mapsto> fresh_ctx]) 1 0 0x2000 =
     Some (Inr ?tx, s', 2)"
    using demo_acquire by blast
  have f: "bsize ?tx = 0x2000" "unat (buffer_offset ?tx) = 0x4000" by (simp_all add: new_tx_fields)
  then have mtu: "exanic_get_tx_mtu ?tx = 3574" by (subst mtu_val(1)) (simp_all add: max_chunk)
  have ports: "num_ports demo_handle \<le> k_num_ports (fst (demo_card, [0 \<mapsto> fresh_ctx]))"
    by (simp add: demo_handle_usable demo_card_def)
  have "length (tx_memory demo_tx_env) = 0x20000" by (simp add: demo_tx_env_def)
  with acquired_handle_transmits [OF demo_probed open_reach [OF fresh_ctx] _ ports a, of "replicate 3574 0xAA"] f mtu a
  show ?thesis by auto
qed

end
