(* ===== verification/RxSystem.thy ===== *)
theory RxSystem
  imports RxAcquire TxSystem
begin

text \<open>
  Receive buffers on the driver: the page offsets the library computes select the buffer it
  asked for, what flow hashing sets up, and how two handles of one file share a buffer.
\<close>

subsection \<open>Page offsets\<close>

definition sys_mmap :: "(region \<Rightarrow> kerr option) \<Rightarrow> (nat \<Rightarrow> nat \<Rightarrow> bool) \<Rightarrow> nat \<Rightarrow> kstate rx_mmap" where
  "sys_mmap remap same_node fd s v =
     (case snd s fd of None \<Rightarrow> None | Some c \<Rightarrow> exanic_mmap remap same_node (fst s) c v)"

lemma filter_offset_page:
  assumes "0 \<le> p" "0 \<le> b" "nat p * max_filter_buffers ex + nat b < 507"
  shows "unat (filter_page_offset ex p b) = (2560 + (nat p * max_filter_buffers ex + nat b) * 512) * 4096"
    "filter_page_offset ex p b = of_nat ((2560 + (nat p * max_filter_buffers ex + nat b) * 512) * 4096)"
proof -
  have "(of_int p :: u32) = of_nat (nat p)" "(of_int b :: u32) = of_nat (nat b)" using assms by simp_all
  then show eq: "filter_page_offset ex p b = of_nat ((2560 + (nat p * max_filter_buffers ex + nat b) * 512) * 4096)"
    by (simp add: filter_page_offset_def algebra_simps)
  show "unat (filter_page_offset ex p b) = (2560 + (nat p * max_filter_buffers ex + nat b) * 512) * 4096"
    unfolding eq using assms(3) by (intro of_nat_inverse [OF refl]) simp
qed

lemma int_offset_page:
  assumes "0 \<le> p" "0 \<le> b" "nat p * max_filter_buffers ex + nat b < 507"
  shows "int_page_offset (filter_page_offset ex p b) = unat (filter_page_offset ex p b) div 4096"
proof -
  note u = filter_offset_page(1) [OF assms]
  define w where "w = filter_page_offset ex p b"
  have w: "unat w < 2 ^ 31" using assms(3) by (simp add: w_def u)
  have "sint w = signed_take_bit 31 (uint w)" by (simp add: sint_uint)
  also have "\<dots> = uint w"
  proof (rule signed_take_bit_int_eq_self)
    show "- (2 ^ 31) \<le> uint w" by (rule order_trans [of _ 0]) simp_all
    show "uint w < 2 ^ 31" using w by (metis uint_nat of_nat_less_iff of_nat_numeral of_nat_power)
  qed
  finally have s: "sint w = int (unat w)" unfolding uint_nat .
  have small: "nat (int n mod 2 ^ 64) = n" if "n < 2 ^ 31" for n :: nat using that by simp
  have "nat (int (unat w) mod 2 ^ 64) = unat w" by (rule small [OF w])
  then show ?thesis unfolding int_page_offset_def w_def [symmetric] s by simp
qed

lemma rx_offset_page:
  assumes "0 \<le> p" "p < 16"
  shows "unat (rx_page_offset p) div 4096 = (if p < 4 then 512 else 557056) + nat p * 512"
proof -
  have n: "nat p < 16" using assms by simp
  have u: "unat (of_nat ((a + nat p * 512) * 4096) :: u32) div 4096 = a + nat p * 512" if "a \<le> 557056" for a
  proof -
    have "(a + nat p * 512) * 4096 < 2 ^ 32" using n that by simp
    then have "unat (of_nat ((a + nat p * 512) * 4096) :: u32) = (a + nat p * 512) * 4096"
      by (intro of_nat_inverse [OF refl]) simp
    then show ?thesis by simp
  qed
  show ?thesis
  proof (cases "p < 4")
    case True
    then have eq: "rx_page_offset p = of_nat ((512 + nat p * 512) * 4096)" using assms by (simp add: rx_page_offset_def)
    have "unat (rx_page_offset p) div 4096 = 512 + nat p * 512" unfolding eq by (rule u) simp
    with True show ?thesis by (simp only: if_True)
  next
    case False
    then have eq: "rx_page_offset p = of_nat ((557056 + nat p * 512) * 4096)" using assms by (simp add: rx_page_offset_def)
    have "unat (rx_page_offset p) div 4096 = 557056 + nat p * 512" unfolding eq by (rule u) simp
    with False show ?thesis by (simp only: if_False)
  qed
qed

text \<open>The driver maps the buffer the offset stands for.\<close>

lemma mmap_filter_buffer:
  assumes "b < k_max_filter_buffers e" "k_max_filter_buffers e \<le> 0x4000" "p * k_max_filter_buffers e + b < 507"
    "exanic_mmap remap same_node e c (rx_vma (2560 + (p * k_max_filter_buffers e + b) * 512)) = Some (Inr r)"
  shows "\<exists>x. r = Rx_region x \<and> region_virt (filter_buffers (port e p) ! b) = Some x"
proof -
  let ?off = "2560 + (p * k_max_filter_buffers e + b) * 512"
  have lt: "?off < 262144" using assms(3) by simp
  note f = filter_region_at [OF assms(1,2) refl lt]
  have "u32_mul (k_max_filter_buffers e) 512 \<noteq> 0"
    using assms(1,2) filter_region_split(1) [of e 0] by simp
  then have "exanic_map_rx_region remap same_node e (rx_vma ?off) p (b + 1) (check_numa_node c) = Some (Inr r)"
    using assms(4) lt f by (simp add: exanic_mmap_def rx_vma_def Let_def split: if_splits)
  then show ?thesis by (elim map_rx_region_Inr) auto
qed

lemma mmap_rx_buffer:
  assumes "p < 16"
    "exanic_mmap remap same_node e c (rx_vma ((if p < 4 then 512 else 557056) + p * 512)) = Some (Inr r)"
  shows "\<exists>x. r = Rx_region x \<and> rx_region_virt (port e p) = Some x"
proof -
  let ?off = "(if p < 4 then 512 else 557056) + p * 512"
  have "exanic_map_rx_region remap same_node e (rx_vma ?off) p 0 (check_numa_node c) = Some (Inr r)"
  proof (cases "p < 4")
    case True
    have "(512 + p * 512 - 512) div 512 = p" "(512 + p * 512 - 512) mod 512 = 0" by simp_all
    with assms True show ?thesis by (simp add: exanic_mmap_def rx_vma_def Let_def split: if_splits)
  next
    case False
    have "(557056 + p * 512 - 557056) div 512 = p" "(557056 + p * 512 - 557056) mod 512 = 0" by simp_all
    with assms False show ?thesis by (simp add: exanic_mmap_def rx_vma_def Let_def split: if_splits)
  qed
  then show ?thesis by (elim map_rx_region_Inr) auto
qed

subsection \<open>Acquiring a buffer\<close>

lemma catchup_numbers:
  "rx_port_number (fst (exanic_rx_catchup mem t rx)) = rx_port_number rx"
  "rx_buffer_number (fst (exanic_rx_catchup mem t rx)) = rx_buffer_number rx"
  by (simp_all add: exanic_rx_catchup_def Let_def split: prod.splits)

lemma alloc_ex_success:
  assumes "ioctl_filter_buffer_alloc_ex env e c p (Some b) = Some (Inr r, e', c')"
  shows "same_tx e e'" "exanic_has_filter_buffer_ref c' p b" "p < k_num_ports e" "b < k_max_filter_buffers e"
    "exanic_has_filter_buffer_ref c q d \<Longrightarrow> exanic_has_filter_buffer_ref c' q d"
  using assms same_tx_alloc_filter
  by (auto simp: ioctl_filter_buffer_alloc_ex_def fail_def filter_buffer_get_def exanic_add_filter_buffer_ref_def Let_def
      exanic_has_filter_buffer_ref_def split: if_splits option.splits sum.splits prod.splits)

lemma sys_ioctl_some:
  "fds fd = Some c \<Longrightarrow> sys_ioctl env fd (e, fds) cmd = Some (r, s') \<longleftrightarrow>
    (\<exists>e' c'. exanic_ioctl (env\<lparr>copy_from_user := True, copy_to_user := True\<rparr>) e c cmd = Some (r, e', c') \<and>
       s' = (e', fds(fd \<mapsto> c')))"
  by (auto simp: sys_ioctl_def split: option.splits)

lemma map_rx_success:
  "map_rx mmap env s rc p b pgoff = Some (Inr h, s', rc') \<Longrightarrow>
    \<exists>r. mmap s (rx_vma pgoff) = Some (Inr r) \<and> s' = s \<and> rc' = rc + 1 \<and> rx_map h = r \<and>
      rx_port_number (rxh h) = p \<and> rx_buffer_number (rxh h) = b"
  by (auto simp: map_rx_def new_rx_def catchup_numbers split: option.splits sum.splits if_splits)


definition demo_rx_env :: rx_env where
  "demo_rx_env = \<lparr>rx_malloc_ok = True, rx_mem_of = (\<lambda>_ _ _. \<lparr>payload = replicate 120 0, timestamp = 0, frame_status = 0,
     chunk_length = 0, matched_filter = 0, chunk_generation = 0\<rparr>), rx_time = 0,
     rx_junk = \<lparr>rx_port_number = 0, rx_buffer_number = 0, next_chunk = 0, generation = 0, sentinel_chunk = 0,
       sentinel_chunk_generation = 0\<rparr>\<rparr>"

lemma demo_rx_acquire:
  "\<exists>h e' fds'. exanic_acquire_rx_buffer (sys_ioctl demo_env 0) (sys_mmap (\<lambda>_. None) (\<lambda>_ _. True) 0) demo_rx_env demo_handle
     (demo_card, [0 \<mapsto> fresh_ctx]) 1 0 2 = Some (Inr h, (e', fds'), 2)"
proof -
  let ?env = "demo_env\<lparr>copy_from_user := True, copy_to_user := True\<rparr>"
  obtain e1 c1 where 1: "exanic_ioctl ?env demo_card fresh_ctx (RX_FILTER_BUFFER_ALLOC_EX 0 (Some 1)) = Some (Inr (Reply_buffer 1), e1, c1)"
    "k_max_filter_buffers e1 = 2" "k_num_ports e1 = 2" "region_virt (filter_buffers (port e1 0) ! 1) = Some 7"
    "rx_region_virt (port e1 0) = Some 1" "length (filter_buffers (port e1 0)) = 2" "check_numa_node c1 = False"
    by (auto simp: ioctl_filter_buffer_alloc_ex_def filter_buffer_get_def exanic_has_filter_buffer_ref_def
        exanic_add_filter_buffer_ref_def fresh_ctx_def exanic_alloc_ctx_def exanic_alloc_filter_dma_def Let_def
        demo_env_def demo_card_def demo_port_def put_buffer_def write_base_addr_def set_port_def writel_def
        numeral_2_eq_2)
  have off: "unat (filter_page_offset demo_handle 0 (2 - 1)) div 4096 = 3072"
    using filter_offset_page(1) [of 0 1 demo_handle] by (simp add: demo_handle_usable)
  have fr: "filter_region_port e1 3072 = 0" "filter_region_buffer e1 3072 = 1" "u32_mul (k_max_filter_buffers e1) 512 \<noteq> 0"
    using filter_region_at [of 1 e1 3072 0] filter_region_split(1) [of e1 0] by (simp_all add: 1)
  have "exanic_mmap (\<lambda>_. None) (\<lambda>_ _. True) e1 c1 (rx_vma 3072) = Some (Inr (Rx_region 7))"
    using fr by (simp add: exanic_mmap_def rx_vma_def exanic_map_rx_region_def Let_def 1 1(4) [unfolded One_nat_def] remap_region_def
        numeral_2_eq_2)
  then show ?thesis using demo_handle_usable 1(1) off
    by (simp add: exanic_acquire_rx_buffer_def sys_ioctl_def map_rx_def sys_mmap_def demo_rx_env_def)
qed


subsection \<open>Two handles, one reference\<close>

text \<open>A file has at most one reference to a filter buffer, so acquiring a buffer twice takes
  only one: the second request succeeds without a change, and releasing either handle takes
  the buffer away from the other.
\<close>

theorem shared_reference_lost:
  assumes "probed e0" "kreach (e0, \<lambda>_. None) (e, fds)" "fds fd = Some c"
    and "exanic_has_filter_buffer_ref c p b" "refcount e (p, b) = 1"
    and "rx_port_number (rxh h) = int p" "rx_buffer_number (rxh h) = int b + 1"
  shows "sys_ioctl env fd (e, fds) (RX_FILTER_BUFFER_ALLOC_EX p (Some b)) = Some (Inr Reply_none, (e, fds)) \<and>
    (\<exists>e' fds'. exanic_release_rx_buffer (sys_ioctl env fd) (e, fds) rc h = Some ((e', fds'), rc - 1) \<and>
       \<not> allocated e' (p, b))"
proof -
  have inv: "kinv (e, fds)" using assms(1,2) by (rule probed_reach)
  then have r: "refs_ok e c" and np: "k_num_ports e \<le> 16" using assms(3) by (simp_all add: kinv_def card_ok_def)
  have p: "p < k_num_ports e" and b: "b < k_max_filter_buffers e"
    using r assms(4) by (auto simp: refs_ok_def exanic_has_filter_buffer_ref_def list_ex_iff)
  note k = kinv_bufs [OF inv p]
  have "int p < 2 ^ 32" "int b < 2 ^ 32" using p np b k(2) by simp_all
  then have u: "unsigned_of (rx_port_number (rxh h)) = p" "unsigned_of (rx_buffer_number (rxh h) - 1) = b"
    by (simp_all add: assms(6,7))
  have alloc: "sys_ioctl env fd (e, fds) (RX_FILTER_BUFFER_ALLOC_EX p (Some b)) = Some (Inr Reply_none, (e, fds))"
    using assms(3,4) p b
    by (simp add: sys_ioctl_some ioctl_filter_buffer_alloc_ex_def filter_buffer_get_def fun_upd_idem)
  have st: "steer_inv e p" using inv p by (simp add: kinv_def)
  obtain e' where e': "exanic_free_filter_dma e p b = Some e'" using free_filter_total [OF st b] by blast
  have "\<not> allocated e' (p, b)" using free_filter_refcount [OF e', of p b] assms(5) by simp
  moreover have "\<exists>c'. sys_ioctl env fd (e, fds) (RX_FILTER_BUFFER_FREE p b) = Some (Inr Reply_none, (e', fds(fd \<mapsto> c')))"
    using assms(3,5) p b k(1) e'
    by (intro exI [of _ "snd (exanic_remove_filter_buffer_ref c p b)"])
      (simp add: sys_ioctl_some ioctl_filter_buffer_free_def refcount_def Let_def)
  ultimately show ?thesis using alloc u assms(7) by (auto simp: exanic_release_rx_buffer_def)
qed

lemma shared_reference_lost_witness:
  "\<exists>e c e' fds'. run_ioctls demo_env [RX_FILTER_BUFFER_ALLOC 0 1] demo_card fresh_ctx = Some ([Inr Reply_none], e, c) \<and>
     exanic_release_rx_buffer (sys_ioctl demo_env 0) (e, [0 \<mapsto> c]) 2
       \<lparr>rxh = (rx_junk demo_rx_env)\<lparr>rx_buffer_number := 2\<rparr>, rx_map = Rx_region 7\<rparr> = Some ((e', fds'), 1) \<and>
     \<not> allocated e' (0, 1)"
proof -
  obtain e c where 1: "run_ioctls demo_env [RX_FILTER_BUFFER_ALLOC 0 1] demo_card fresh_ctx = Some ([Inr Reply_none], e, c)"
    and 2: "refcount e (0, 1) = 1" "exanic_has_filter_buffer_ref c 0 1"
    by (auto simp: ioctl_filter_buffer_alloc_def filter_buffer_get_def exanic_has_filter_buffer_ref_def
        exanic_add_filter_buffer_ref_def fresh_ctx_def exanic_alloc_ctx_def exanic_alloc_filter_dma_def Let_def
        demo_env_def demo_card_def demo_port_def refcount_def put_buffer_def write_base_addr_def set_port_def writel_def
        numeral_2_eq_2)
  let ?h = "\<lparr>rxh = (rx_junk demo_rx_env)\<lparr>rx_buffer_number := 2\<rparr>, rx_map = Rx_region 7\<rparr>"
  have "kreach (demo_card, \<lambda>_. None) (e, [0 \<mapsto> c])" by (rule run_reach [OF fresh_ctx 1])
  from shared_reference_lost [OF demo_probed this _ 2(2,1), of 0 ?h demo_env 2] 1 show ?thesis
    by (auto simp: demo_rx_env_def)
qed

subsection \<open>Flow hashing\<close>

lemma and_pred_pow2: "n \<noteq> 0 \<Longrightarrow> (n AND (n - 1)) = 0 \<longleftrightarrow> (\<exists>k. n = (2 :: nat) ^ k)"
proof (induction n rule: less_induct)
  case (less n)
  show ?case
  proof (cases "even n")
    case True
    then obtain j where j: "n = 2 * j" by (elim evenE)
    with less.prems have j0: "j \<noteq> 0" "j < n" by simp_all
    have "n AND (n - 1) = 2 * (j AND (j - 1))"
    proof -
      have "n - 1 = 2 * (j - 1) + 1" using j j0 by simp
      then show ?thesis using j by (simp add: and_rec [of "2 * j"])
    qed
    moreover have "(\<exists>k. n = 2 ^ k) \<longleftrightarrow> (\<exists>k. j = 2 ^ k)"
    proof
      assume "\<exists>k. n = 2 ^ k"
      then obtain k where k: "n = 2 ^ k" by blast
      with True have "k \<noteq> 0" by (cases k) simp_all
      with k j show "\<exists>k. j = 2 ^ k" by (cases k) simp_all
    next
      assume "\<exists>k. j = 2 ^ k"
      with j show "\<exists>k. n = 2 ^ k" by (metis power_Suc)
    qed
    ultimately show ?thesis using less.IH [OF j0(2,1)] by simp
  next
    case False
    then have "n AND (n - 1) = n - 1"
    proof -
      obtain j where j: "n = 2 * j + 1" using False by (elim oddE)
      then show ?thesis by (simp add: and_rec [of "Suc (2 * j)"])
    qed
    moreover have "(\<exists>k. n = 2 ^ k) \<longleftrightarrow> n = 1"
      using False by (metis even_power even_two_times_div_two power_0 dvd_refl bot_nat_0.not_eq_extremum)
    ultimately show ?thesis using less.prems by auto
  qed
qed

text \<open>What the loops do to the driver: the file refers to the first \<open>n\<close> buffers.\<close>

definition holds :: "nat \<Rightarrow> kstate \<Rightarrow> nat \<Rightarrow> nat \<Rightarrow> bool" where
  "holds fd s p n \<longleftrightarrow> (\<exists>c. snd s fd = Some c \<and> (\<forall>b<n. exanic_has_filter_buffer_ref c p b))"

lemma hash_alloc_holds:
  assumes "hash_alloc (sys_ioctl env fd) p k n s = Some (m, s')" "sys_ok fd ports s" "p < ports" "holds fd s p n"
  shows "sys_ok fd ports s' \<and> holds fd s' p m \<and> n \<le> m \<and> m \<le> n + k \<and> (n < m \<longrightarrow> m \<le> k_max_filter_buffers (fst s')) \<and>
    same_tx (fst s) (fst s')"
  using assms
proof (induction k arbitrary: n s)
  case (Suc k)
  obtain e fds c where s: "s = (e, fds)" "kinv (e, fds)" "fds fd = Some c" "k_num_ports e = ports"
    using Suc.prems(2) by (rule sys_okE)
  from Suc.prems(1) obtain r s1 where io: "sys_ioctl env fd s (RX_FILTER_BUFFER_ALLOC_EX p (Some n)) = Some (r, s1)"
    by (auto split: option.splits)
  then obtain e1 c1 where op: "exanic_ioctl (env\<lparr>copy_from_user := True, copy_to_user := True\<rparr>) e c
      (RX_FILTER_BUFFER_ALLOC_EX p (Some n)) = Some (r, e1, c1)" and s1: "s1 = (e1, fds(fd \<mapsto> c1))"
    using s(3) by (auto simp: s(1) sys_ioctl_some)
  have inv: "kinv (e1, fds(fd \<mapsto> c1))" by (rule kinv_ioctl [OF s(2,3) op])
  have refs: "exanic_has_filter_buffer_ref c p b" if "b < n" for b
    using Suc.prems(4) that s(1,3) by (auto simp: holds_def)
  show ?case
  proof (cases r)
    case (Inl x)
    with Suc.prems(1) io have m: "m = n" "s' = s1" by auto
    have tx: "same_tx e e1" and keep: "\<And>b. b \<noteq> n \<Longrightarrow> exanic_has_filter_buffer_ref c p b \<Longrightarrow> exanic_has_filter_buffer_ref c1 p b"
      using op Inl same_tx_alloc_filter
      by (auto simp: ioctl_filter_buffer_alloc_ex_def fail_def filter_buffer_get_def exanic_add_filter_buffer_ref_def Let_def
          exanic_has_filter_buffer_ref_def exanic_remove_filter_buffer_ref_def list_ex_iff
          split: if_splits option.splits sum.splits prod.splits)
    have "sys_ok fd ports s1" using inv s(4) tx by (simp add: s1 sys_ok_def same_tx_def)
    moreover have "holds fd s1 p n" using refs keep by (auto simp: holds_def s1)
    ultimately show ?thesis using tx by (simp add: m s1 s(1))
  next
    case (Inr y)
    have al: "ioctl_filter_buffer_alloc_ex (env\<lparr>copy_from_user := True, copy_to_user := True\<rparr>) e c p (Some n) = Some (Inr y, e1, c1)"
      using op Inr by simp
    note a = alloc_ex_success [OF al]
    have rec: "hash_alloc (sys_ioctl env fd) p k (Suc n) s1 = Some (m, s')" using Suc.prems(1) io Inr by simp
    have ok: "sys_ok fd ports s1" using inv s(4) a(1) by (simp add: s1 sys_ok_def same_tx_def)
    have h: "holds fd s1 p (Suc n)" using refs a(2,5) by (auto simp: holds_def s1 less_Suc_eq)
    from Suc.IH [OF rec ok Suc.prems(3) h]
    have IH: "sys_ok fd ports s'" "holds fd s' p m" "Suc n \<le> m" "m \<le> Suc n + k"
      "Suc n < m \<longrightarrow> m \<le> k_max_filter_buffers (fst s')" "same_tx (fst s1) (fst s')" by simp_all
    have tx: "same_tx e (fst s')" using same_tx_trans [OF a(1)] IH(6) by (simp add: s1)
    then have "k_max_filter_buffers (fst s') = k_max_filter_buffers e" by (simp add: same_tx_def)
    then have "m \<le> k_max_filter_buffers (fst s')" using IH(3,5) a(4) by (cases "m = Suc n") auto
    with IH tx show ?thesis by (simp add: s(1))
  qed
qed auto

lemma hash_rollback_holds:
  assumes "hash_rollback (sys_ioctl env fd) p m s = Some (n, s')" "sys_ok fd ports s" "p < ports" "holds fd s p m" "m \<noteq> 0"
  shows "sys_ok fd ports s' \<and> holds fd s' p n \<and> same_tx (fst s) (fst s') \<and> (\<exists>k. n = 2 ^ k) \<and> n \<le> m \<and>
    (\<forall>k. 2 ^ k \<le> m \<longrightarrow> 2 ^ k \<le> n)"
  using assms
proof (induction m arbitrary: s)
  case (Suc m)
  show ?case
  proof (cases "Suc m \<noteq> 1 \<and> (Suc m AND m) \<noteq> 0")
    case False
    then have "n = Suc m" "s' = s" using Suc.prems(1) by auto
    moreover have "\<exists>k. Suc m = 2 ^ k" using False and_pred_pow2 [of "Suc m"] by (cases "Suc m = 1") (auto intro: exI [of _ 0])
    ultimately show ?thesis using Suc.prems(2,4) by simp
  next
    case True
    obtain e fds c where s: "s = (e, fds)" "kinv (e, fds)" "fds fd = Some c" "k_num_ports e = ports"
      using Suc.prems(2) by (rule sys_okE)
    from Suc.prems(1) True obtain r s1 where io: "sys_ioctl env fd s (RX_FILTER_BUFFER_FREE p m) = Some (r, s1)"
      and rec: "hash_rollback (sys_ioctl env fd) p m s1 = Some (n, s')"
      by (auto split: option.splits)
    then obtain e1 c1 where op: "exanic_ioctl (env\<lparr>copy_from_user := True, copy_to_user := True\<rparr>) e c
        (RX_FILTER_BUFFER_FREE p m) = Some (r, e1, c1)" and s1: "s1 = (e1, fds(fd \<mapsto> c1))"
      using s(3) by (auto simp: s(1) sys_ioctl_some)
    have inv: "kinv (e1, fds(fd \<mapsto> c1))" by (rule kinv_ioctl [OF s(2,3) op])
    have tx: "same_tx e e1" and keep: "\<And>b. b \<noteq> m \<Longrightarrow> exanic_has_filter_buffer_ref c p b \<Longrightarrow> exanic_has_filter_buffer_ref c1 p b"
      using op same_tx_free_filter
      by (auto simp: ioctl_filter_buffer_free_def fail_def Let_def exanic_has_filter_buffer_ref_def
          exanic_remove_filter_buffer_ref_def list_ex_iff split: if_splits option.splits)
    have "holds fd s1 p m" using Suc.prems(4) keep by (auto simp: holds_def s1 s(1,3))
    moreover have "sys_ok fd ports s1" using inv s(4) tx by (simp add: s1 sys_ok_def same_tx_def)
    moreover have "m \<noteq> 0" using True by simp
    ultimately have IH: "sys_ok fd ports s'" "holds fd s' p n" "same_tx (fst s1) (fst s')" "\<exists>k. n = 2 ^ k" "n \<le> m"
      "\<forall>k. 2 ^ k \<le> m \<longrightarrow> 2 ^ k \<le> n"
      using Suc.IH [OF rec _ Suc.prems(3)] by simp_all
    have "\<not> (\<exists>k. Suc m = 2 ^ k)" using True and_pred_pow2 [of "Suc m"] by simp
    then have "\<forall>k. 2 ^ k \<le> Suc m \<longrightarrow> 2 ^ k \<le> n" using IH(6) by (metis le_Suc_eq)
    moreover have "same_tx e (fst s')" using same_tx_trans [OF tx] IH(3) by (simp add: s1)
    ultimately show ?thesis using IH by (simp add: s(1))
  qed
qed simp

text \<open>Allocating and releasing buffers never turns hashing on.\<close>

lemma flow_alloc_filter:
  "exanic_alloc_filter_dma dma e p b = Some (r, e') \<Longrightarrow> flow_hashing_enabled (port e' q) = flow_hashing_enabled (port e q)"
  by (auto simp: exanic_alloc_filter_dma_def put_buffer_def Let_def split: if_splits option.splits)

lemma flow_free_filter:
  "exanic_free_filter_dma e p b = Some e' \<Longrightarrow> flow_hashing_enabled (port e' q) \<Longrightarrow> flow_hashing_enabled (port e q)"
  using remove_assoc_buffers(2) [of _ p b]
  by (fastforce simp: exanic_free_filter_dma_def put_buffer_def exanic_configure_port_hash_def Let_def
      split: if_splits option.splits)

lemma flow_ioctl:
  assumes "sys_ioctl env fd s cmd = Some (r, s')" "cmd = RX_FILTER_BUFFER_ALLOC_EX p (Some b) \<or> cmd = RX_FILTER_BUFFER_FREE p b"
    "flow_hashing_enabled (port (fst s') q)"
  shows "flow_hashing_enabled (port (fst s) q)"
  using assms flow_alloc_filter [of _ _ p b] flow_free_filter [of _ p b]
  by (auto simp: sys_ioctl_def ioctl_filter_buffer_alloc_ex_def ioctl_filter_buffer_free_def filter_buffer_get_def fail_def Let_def
      split: option.splits if_splits prod.splits sum.splits)

lemma flow_hash_alloc:
  "hash_alloc (sys_ioctl env fd) p k n s = Some (m, s') \<Longrightarrow> flow_hashing_enabled (port (fst s') q) \<Longrightarrow>
    flow_hashing_enabled (port (fst s) q)"
proof (induction k arbitrary: n s)
  case (Suc k)
  from Suc.prems(1) obtain r s1 where "sys_ioctl env fd s (RX_FILTER_BUFFER_ALLOC_EX p (Some n)) = Some (r, s1)"
    "s' = s1 \<or> hash_alloc (sys_ioctl env fd) p k (Suc n) s1 = Some (m, s')"
    by (auto split: option.splits sum.splits)
  with Suc.IH Suc.prems(2) show ?case by (blast intro: flow_ioctl)
qed simp

lemma flow_hash_rollback:
  "hash_rollback (sys_ioctl env fd) p m s = Some (n, s') \<Longrightarrow> flow_hashing_enabled (port (fst s') q) \<Longrightarrow>
    flow_hashing_enabled (port (fst s) q)"
proof (induction m arbitrary: s)
  case (Suc m)
  from Suc.prems(1) have "s' = s \<or> (\<exists>r s1. sys_ioctl env fd s (RX_FILTER_BUFFER_FREE p m) = Some (r, s1) \<and>
    hash_rollback (sys_ioctl env fd) p m s1 = Some (n, s'))"
    by (auto split: option.splits if_splits)
  with Suc.IH Suc.prems(2) show ?case by (blast intro: flow_ioctl)
qed simp

text \<open>
  \<open>exanic_enable_flow_hashing\<close> returns a power of two, at most the number asked for and the
  greatest not above the number of buffers it could get; the file refers to that many buffers
  from zero on, and the port hashes over them. But the result of the last request is not
  looked at: with a hash function the card does not have, the call still succeeds, and the
  port does not hash unless it did before.
\<close>

theorem enable_flow_hashing_result:
  assumes "probed e0" "kreach (e0, \<lambda>_. None) (e, fds)" "fds fd = Some c" "num_ports ex \<le> k_num_ports e"
    and en: "exanic_enable_flow_hashing (sys_ioctl env fd) ex (e, fds) pn mb hf = Some (Inr n, (e', fds'))"
  defines "p \<equiv> nat pn"
  shows "(\<exists>k. n = 2 ^ k) \<and> int n \<le> mb \<and> n \<le> k_max_filter_buffers e \<and>
     (\<exists>c'. fds' fd = Some c' \<and> (\<forall>b<n. exanic_has_filter_buffer_ref c' p b)) \<and>
     (if unat hf < num_hash_functions (port e' p)
      then flow_hashing_enabled (port e' p) \<and>
           regs_virt e' (REG_PORT_OFFSET p REG_PORT_HASH_CONFIG) =
             0x80000000 OR (of_nat (n - 1) AND 0xFF) OR (push_bit 8 hf AND 0xF00)
      else flow_hashing_enabled (port e' p) \<longrightarrow> flow_hashing_enabled (port e p))"
proof -
  let ?io = "sys_ioctl env fd"
  have ok: "sys_ok fd (k_num_ports e) (e, fds)" using reach_sys_ok [OF assms(1,2), of fd] assms(3) by simp
  obtain m s1 s2 r where al: "hash_alloc ?io p (nat mb) 0 (e, fds) = Some (m, s1)" "m \<noteq> 0"
    and rb: "hash_rollback ?io p m s1 = Some (n, s2)"
    and cf: "?io s2 (RX_HASH_CONFIGURE p True (of_nat (n - 1)) hf) = Some (r, (e', fds'))"
    and p: "0 \<le> pn" "p < k_num_ports e"
    using en assms(4) by (auto simp: exanic_enable_flow_hashing_def p_def split: if_splits option.splits)
  have "holds fd (e, fds) p 0" using assms(3) by (simp add: holds_def)
  note A = hash_alloc_holds [OF al(1) ok p(2) this]
  note R = hash_rollback_holds [OF rb _ p(2) _ al(2)]
  have R': "sys_ok fd (k_num_ports e) s2" "holds fd s2 p n" "\<exists>k. n = 2 ^ k" "n \<le> m" using R A by simp_all
  obtain e2 fds2 c2 where s2: "s2 = (e2, fds2)" "fds2 fd = Some c2" "k_num_ports e2 = k_num_ports e"
    using R'(1) by (rule sys_okE) blast
  have "same_tx e (fst s1)" using A by simp
  then have "m \<le> k_max_filter_buffers e" using A al(2) by (simp add: same_tx_def)
  moreover have "int m \<le> mb" using A al(2) by linarith
  moreover have "fds' = fds2(fd \<mapsto> c2)"
    using cf s2 by (auto simp: sys_ioctl_some ioctl_hash_configure_def fail_def split: if_splits)
  moreover have "if unat hf < num_hash_functions (port e' p)
      then flow_hashing_enabled (port e' p) \<and>
           regs_virt e' (REG_PORT_OFFSET p REG_PORT_HASH_CONFIG) =
             0x80000000 OR (of_nat (n - 1) AND 0xFF) OR (push_bit 8 hf AND 0xF00)
      else flow_hashing_enabled (port e' p) \<longrightarrow> flow_hashing_enabled (port e p)"
  proof (cases "unat hf < num_hash_functions (port e2 p)")
    case True
    then have e': "e' = exanic_configure_port_hash e2 p True (of_nat (n - 1)) hf"
      using cf s2 p(2) by (auto simp: sys_ioctl_some ioctl_hash_configure_def)
    with True show ?thesis by (simp add: exanic_configure_port_hash_def regs_writel Let_def)
  next
    case False
    then have "e' = e2" using cf s2 p(2) by (auto simp: sys_ioctl_some ioctl_hash_configure_def fail_def)
    with False show ?thesis using flow_hash_alloc [OF al(1), of p] flow_hash_rollback [OF rb, of p] by (simp add: s2(1))
  qed
  ultimately show ?thesis using R'(2-4) s2(1,2) by (auto simp: holds_def)
qed

lemma enable_flow_hashing_result_witness:
  "\<exists>e' fds'. exanic_enable_flow_hashing (sys_ioctl demo_env 0) demo_handle (demo_card, [0 \<mapsto> fresh_ctx]) 0 1 5 =
     Some (Inr 1, (e', fds')) \<and> \<not> flow_hashing_enabled (port e' 0)"
proof -
  let ?env = "demo_env\<lparr>copy_from_user := True, copy_to_user := True\<rparr>"
  obtain e1 c1 where 1: "exanic_ioctl ?env demo_card fresh_ctx (RX_FILTER_BUFFER_ALLOC_EX 0 (Some 0)) = Some (Inr (Reply_buffer 0), e1, c1)"
    "k_num_ports e1 = 2" "num_hash_functions (port e1 0) = 3"
    by (auto simp: ioctl_filter_buffer_alloc_ex_def filter_buffer_get_def exanic_has_filter_buffer_ref_def
        exanic_add_filter_buffer_ref_def fresh_ctx_def exanic_alloc_ctx_def exanic_alloc_filter_dma_def Let_def
        demo_env_def demo_card_def demo_port_def put_buffer_def write_base_addr_def set_port_def writel_def)
  then have en: "exanic_enable_flow_hashing (sys_ioctl demo_env 0) demo_handle (demo_card, [0 \<mapsto> fresh_ctx]) 0 1 5 =
      Some (Inr 1, (e1, [0 \<mapsto> c1]))"
    using demo_handle_usable
    by (simp add: exanic_enable_flow_hashing_def sys_ioctl_def ioctl_hash_configure_def fail_def)
  have "[0 \<mapsto> fresh_ctx] 0 = Some fresh_ctx" by simp
  note W = enable_flow_hashing_result [OF demo_probed open_reach [OF fresh_ctx, of demo_card 0] this _ en]
  have "flow_hashing_enabled (port e1 (nat 0)) \<longrightarrow> flow_hashing_enabled (port demo_card (nat 0))"
    using W 1(3)
    by (simp add: demo_handle_usable demo_card_def)
  with en show ?thesis by (simp add: demo_card_def demo_port_def)
qed

subsection \<open>A stale reference\<close>

text \<open>
  When the file still refers to the buffer the driver chooses (because another file has
  released it), the reply carries no buffer number and the library goes on with
  \<open>UINT_MAX\<close>: on port 0 it maps the default receive buffer of port 3 and returns it as an
  unused filter buffer of port 0.
\<close>

theorem stale_reference_wrong_buffer:
  assumes "fds fd = Some c" "num_ports ex = k_num_ports e" "4 \<le> k_num_ports e"
    and "exanic_port_rx_usable ex 0" "exanic_port_enabled ex 0 \<noteq> 0"
    and "exanic_get_free_filter_buffer e 0 = Some (Inr b)" "exanic_has_filter_buffer_ref c 0 b"
    and "rx_region_virt (port e 3) = Some x" "\<not> check_numa_node c" "remap (Rx_region x) = None" "rx_malloc_ok renv"
  shows "\<exists>h. exanic_acquire_unused_filter_buffer (sys_ioctl env fd) (sys_mmap remap same_node fd) renv ex (e, fds) rc 0 =
      Some (Inr h, (e, fds), rc + 1) \<and>
    rx_map h = Rx_region x \<and> rx_port_number (rxh h) = 0 \<and> rx_buffer_number (rxh h) = 0"
proof -
  have io: "sys_ioctl env fd (e, fds) (RX_FILTER_BUFFER_ALLOC_EX 0 None) = Some (Inr Reply_none, (e, fds))"
    using assms(1,3,6,7)
    by (simp add: sys_ioctl_some ioctl_filter_buffer_alloc_ex_def filter_buffer_get_def fun_upd_idem)
  have "filter_page_offset ex 0 (2 ^ 32 - 1) = 0x800000" by (simp add: filter_page_offset_def)
  then have off: "int_page_offset (filter_page_offset ex 0 (2 ^ 32 - 1)) = 2048"
    by (simp add: int_page_offset_def)
  have "exanic_mmap remap same_node e c (rx_vma 2048) = Some (Inr (Rx_region x))"
    using assms(3,8-10)
    by (simp add: exanic_mmap_def rx_vma_def exanic_map_rx_region_def Let_def remap_region_def)
  then show ?thesis using assms(1-5,11) io off
    by (simp add: exanic_acquire_unused_filter_buffer_def map_rx_def sys_mmap_def new_rx_def catchup_numbers)
qed

definition quad_card :: kexanic where
  "quad_card = demo_card\<lparr>k_num_ports := 4\<rparr>"

lemma quad_probed: "probed quad_card"
  by (simp add: probed_def quad_card_def demo_card_def card_ok_def fresh_port_def demo_port_def list_all_length)

lemma stale_reference_wrong_buffer_witness:
  "\<exists>e (fds :: nat \<Rightarrow> exanic_ctx option) c h. kreach (quad_card, \<lambda>_. None) (e, fds) \<and> fds 0 = Some c \<and> exanic_has_filter_buffer_ref c 0 0 \<and>
     exanic_acquire_unused_filter_buffer (sys_ioctl demo_env 0) (sys_mmap (\<lambda>_. None) (\<lambda>_ _. True) 0) demo_rx_env
       (demo_handle\<lparr>num_ports := 4\<rparr>) (e, fds) 1 0 = Some (Inr h, (e, fds), 2) \<and>
     rx_map h = Rx_region 1 \<and> rx_region_virt (port e 3) = Some 1"
proof -
  obtain e1 c1 where 1: "run_ioctls demo_env [RX_FILTER_BUFFER_ALLOC 0 0] quad_card fresh_ctx = Some ([Inr Reply_none], e1, c1)"
    and 2: "refcount e1 (0, 0) = 1" "exanic_has_filter_buffer_ref c1 0 0" "\<not> check_numa_node c1" "k_num_ports e1 = 4"
      "k_max_filter_buffers e1 = 2" "rx_region_virt (port e1 3) = Some 1"
    by (auto simp: ioctl_filter_buffer_alloc_def filter_buffer_get_def exanic_has_filter_buffer_ref_def
        exanic_add_filter_buffer_ref_def fresh_ctx_def exanic_alloc_ctx_def exanic_alloc_filter_dma_def Let_def
        demo_env_def quad_card_def demo_card_def demo_port_def refcount_def put_buffer_def write_base_addr_def set_port_def
        writel_def)
  let ?fds = "[0 \<mapsto> c1, 1 \<mapsto> fresh_ctx] :: nat \<Rightarrow> exanic_ctx option"
  have "kreach (quad_card, \<lambda>_. None) (e1, [0 \<mapsto> c1] :: nat \<Rightarrow> exanic_ctx option)" by (rule run_reach [OF fresh_ctx 1])
  then have reach: "kreach (quad_card, \<lambda>_. None) (e1, ?fds)"
    by (rule kreach_step) (rule kopen [OF _ fresh_ctx], simp)
  have st: "steer_inv e1 0" using steer_reach [OF quad_probed reach] 2(4) by simp
  have len: "length (filter_buffers (port e1 0)) = 2" using steer_invD(7) [OF st] 2(5) by simp
  obtain e' where e': "exanic_free_filter_dma e1 0 0 = Some e'" using free_filter_total [OF st, of 0] 2(5) by auto
  have o: "only_port 0 e1 e'" and tx: "same_tx e1 e'"
    using free_filter_inv [OF e' st] 2(5) same_tx_free_filter [OF e'] by simp_all
  have no: "\<not> exanic_has_filter_buffer_ref fresh_ctx 0 0"
    by (simp add: fresh_ctx_def exanic_alloc_ctx_def exanic_has_filter_buffer_ref_def)
  have "exanic_ioctl demo_env e1 fresh_ctx (RX_FILTER_BUFFER_FREE 0 0) = Some (Inr Reply_none, e', fresh_ctx)"
    using 2 len e' no
    by (simp add: ioctl_filter_buffer_free_def exanic_remove_filter_buffer_ref_def refcount_def demo_env_def Let_def)
  then have "kstep (e1, ?fds) (e', ?fds(1 \<mapsto> fresh_ctx))"
    by (intro kioctl [where fds = ?fds and fd = 1 and c = fresh_ctx]) simp
  then have r2: "kreach (quad_card, \<lambda>_. None) (e', ?fds)"
    using kreach_step [OF reach] by (simp add: fun_upd_idem)
  have nb: "region_virt (filter_buffers (port e' 0) ! 0) = None" "length (filter_buffers (port e' 0)) = 2"
    using free_filter_refcount [OF e', of 0 0] 2(1) len by (simp_all add: allocated_def)
  then obtain x xs where "filter_buffers (port e' 0) = x # xs" by (cases "filter_buffers (port e' 0)") auto
  then have g: "exanic_get_free_filter_buffer e' 0 = Some (Inr 0)"
    using nb tx 2(5) by (simp add: exanic_get_free_filter_buffer_def same_tx_def numeral_2_eq_2)
  have u: "exanic_port_rx_usable (demo_handle\<lparr>num_ports := 4\<rparr>) 0" "exanic_port_enabled (demo_handle\<lparr>num_ports := 4\<rparr>) 0 \<noteq> 0"
    by (simp_all add: demo_handle_def exanic_port_rx_usable_def exanic_port_enabled_def
      check_port_configurable_def port_reg_def REG_PORT_INDEX_def REG_PORT_OFFSET_def)
  have k: "k_num_ports e' = 4" "rx_region_virt (port e' 3) = Some 1" using o 2(4,6) by (simp_all add: only_port_def)
  have "\<exists>h. exanic_acquire_unused_filter_buffer (sys_ioctl demo_env 0) (sys_mmap (\<lambda>_. None) (\<lambda>_ _. True) 0) demo_rx_env
       (demo_handle\<lparr>num_ports := 4\<rparr>) (e', ?fds) 1 0 = Some (Inr h, (e', ?fds), 1 + 1) \<and>
     rx_map h = Rx_region 1 \<and> rx_port_number (rxh h) = 0 \<and> rx_buffer_number (rxh h) = 0"
    by (rule stale_reference_wrong_buffer [where c = c1, OF _ _ _ u g 2(2) k(2) 2(3)]) (simp_all add: k(1) demo_rx_env_def)
  moreover have "?fds 0 = Some c1" by simp
  ultimately show ?thesis using r2 2(2) k(2) unfolding one_add_one by blast
qed

end
