(* ===== verification/KPort.thy ===== *)
theory KPort
  imports KDma
begin

text \<open>
  Ports of the card, \<open>modules/exanic/exanic-main.c\<close> lines 455 to 997 and the parts of
  \<open>exanic_probe\<close> that use them: power, enabling and disabling, the mirroring and bridging
  features, MAC addresses, and the numbers of ports and of devices. The PHY operations write
  the power-down register; what the PHY answers on its I2C bus is a parameter.
\<close>

abbreviation (input) "REG_EXANIC_FEATURE_CFG \<equiv> 2 :: nat"
abbreviation (input) "REG_EXANIC_MIRROR_ENABLE_EXT \<equiv> 20 :: nat"
abbreviation (input) "REG_HW_POWERDOWN \<equiv> 14 :: nat"
abbreviation (input) "EXANIC_FEATURE_MIRROR_RX_0 \<equiv> 0x01 :: u32"
abbreviation (input) "EXANIC_FEATURE_MIRROR_TX_0 \<equiv> 0x02 :: u32"
abbreviation (input) "EXANIC_FEATURE_MIRROR_RX_1 \<equiv> 0x04 :: u32"
abbreviation (input) "EXANIC_FEATURE_MIRROR_TX_1 \<equiv> 0x08 :: u32"
abbreviation (input) "EXANIC_FEATURE_MIRROR_RX_2 \<equiv> 0x10 :: u32"
abbreviation (input) "EXANIC_FEATURE_MIRROR_TX_2 \<equiv> 0x20 :: u32"
abbreviation (input) "EXANIC_FEATURE_BRIDGE \<equiv> 0x40 :: u32"
abbreviation (input) "EXANIC_FEATURE_BRIDGE_MIRROR_MASK \<equiv> 0x7F :: u32"
abbreviation (input) "EXANIC_FEATURE_AUX_MASK \<equiv> 0x7F00 :: u32"
abbreviation (input) "EXANIC_FEATURE_AUX_ENABLE \<equiv> 0x10000 :: u32"
abbreviation (input) "EXANIC_FEATURE_MIRROR_OUTPUT_EXT_MASK \<equiv> 0xF00000 :: u32"
abbreviation (input) "EXANIC_CAP_BRIDGING \<equiv> 0x00010000 :: u32"
abbreviation (input) "EXANIC_CAP_MIRRORING \<equiv> 0x00020000 :: u32"
abbreviation (input) "EXANIC_CAP_EXT_MIRRORING \<equiv> 0x00100000 :: u32"
abbreviation (input) "EXANIC_HW_X4 \<equiv> 2 :: u32"
abbreviation (input) "EXANIC_HW_X2 \<equiv> 3 :: u32"
abbreviation (input) "EXANIC_SFP_TXDIS0 \<equiv> 4 :: nat"

definition REG_EXANIC_OFFSET :: "nat \<Rightarrow> nat" where
  "REG_EXANIC_OFFSET reg = 0x0000 + reg * 4"

definition REG_HW_OFFSET :: "nat \<Rightarrow> nat" where
  "REG_HW_OFFSET reg = 0x0100 + reg * 4"

subsection \<open>Which ports need power\<close>

definition port_feature_bits_4port :: "nat \<Rightarrow> u32" where
  "port_feature_bits_4port p =
     (if p = 0 then EXANIC_FEATURE_MIRROR_RX_0 OR EXANIC_FEATURE_MIRROR_TX_0 OR EXANIC_FEATURE_BRIDGE
      else if p = 1 then EXANIC_FEATURE_MIRROR_RX_1 OR EXANIC_FEATURE_MIRROR_TX_1 OR EXANIC_FEATURE_BRIDGE
      else if p = 2 then EXANIC_FEATURE_MIRROR_RX_2 OR EXANIC_FEATURE_MIRROR_TX_2
      else if p = 3 then EXANIC_FEATURE_MIRROR_RX_0 OR EXANIC_FEATURE_MIRROR_TX_0 OR
        EXANIC_FEATURE_MIRROR_RX_1 OR EXANIC_FEATURE_MIRROR_TX_1 OR
        EXANIC_FEATURE_MIRROR_RX_2 OR EXANIC_FEATURE_MIRROR_TX_2
      else 0)"

definition port_feature_bits_2port :: "nat \<Rightarrow> u32" where
  "port_feature_bits_2port p =
     (if p = 0 \<or> p = 1
      then EXANIC_FEATURE_MIRROR_RX_0 OR EXANIC_FEATURE_MIRROR_TX_0 OR EXANIC_FEATURE_BRIDGE
      else 0)"

definition exanic_port_needs_power :: "kexanic \<Rightarrow> nat \<Rightarrow> bool" where
  "exanic_port_needs_power e p =
     (let cfg = regs_virt e (REG_EXANIC_OFFSET REG_EXANIC_FEATURE_CFG);
          reg = regs_virt e (REG_EXANIC_OFFSET REG_EXANIC_MIRROR_ENABLE_EXT);
          out_port = unat (drop_bit 20 (cfg AND EXANIC_FEATURE_MIRROR_OUTPUT_EXT_MASK))
      in if hwinfo_nports e = 2 \<and> cfg AND port_feature_bits_2port p \<noteq> 0 then True
         else if hwinfo_nports e = 4 \<and> cfg AND port_feature_bits_4port p \<noteq> 0 then True
         else if k_caps e AND EXANIC_CAP_EXT_MIRRORING \<noteq> 0
         then reg AND push_bit (2 * p) 3 \<noteq> 0 \<or> (reg \<noteq> 0 \<and> p = out_port)
         else False)"

subsection \<open>Power\<close>

text \<open>
  What the PHYs answer: \<open>phy_i2c_ok p\<close> when the external PHY of port \<open>p\<close> on an X2 or X4 accepts
  its set-up, \<open>phy_init_ok p\<close> when its initial configuration succeeds. The two power functions are
  those of \<open>exanic-phyops.c\<close>; a port that is powered has had its operations filled in.
\<close>

record phy_env =
  phy_i2c_ok :: "nat \<Rightarrow> bool"
  phy_init_ok :: "nat \<Rightarrow> bool"

definition x2_x4 :: "kexanic \<Rightarrow> bool" where
  "x2_x4 e \<longleftrightarrow> k_hw_id e = EXANIC_HW_X2 \<or> k_hw_id e = EXANIC_HW_X4"

definition exanic_phyops_poweron :: "phy_env \<Rightarrow> kexanic \<Rightarrow> nat \<Rightarrow> bool \<times> kexanic" where
  "exanic_phyops_poweron env e p =
     (let off = REG_HW_OFFSET REG_HW_POWERDOWN; reg = regs_virt e off
      in if x2_x4 e
         then (let reg1 = reg AND NOT (push_bit p 1);
                   reg2 = reg1 OR push_bit (EXANIC_SFP_TXDIS0 + p) 1
               in (phy_i2c_ok env p, writel reg2 off (writel reg1 off e)))
         else (True, writel (reg OR push_bit (EXANIC_SFP_TXDIS0 + p) 1) off e))"

definition exanic_phyops_poweroff :: "kexanic \<Rightarrow> nat \<Rightarrow> kexanic" where
  "exanic_phyops_poweroff e p =
     (let off = REG_HW_OFFSET REG_HW_POWERDOWN;
          reg = regs_virt e off AND NOT (push_bit (EXANIC_SFP_TXDIS0 + p) 1)
      in writel (if x2_x4 e then reg OR push_bit p 1 else reg) off e)"

definition exanic_set_port_power :: "phy_env \<Rightarrow> kexanic \<Rightarrow> nat \<Rightarrow> bool \<Rightarrow> bool \<times> kexanic" where
  "exanic_set_port_power env e p on =
     (if port_power (port e p) \<and> \<not> on
      then let e1 = exanic_phyops_poweroff e p
           in (True, set_port p ((port e1 p)\<lparr>port_power := on\<rparr>) e1)
      else if \<not> port_power (port e p) \<and> on
      then let (ok, e1) = exanic_phyops_poweron env e p
           in if ok \<and> phy_init_ok env p
              then (True, set_port p ((port e1 p)\<lparr>port_power := on\<rparr>) e1)
              else (False, e1)
      else (True, e))"

definition exanic_enable_port :: "phy_env \<Rightarrow> kexanic \<Rightarrow> nat \<Rightarrow> ((kerr + unit) \<times> kexanic) option" where
  "exanic_enable_port env e p =
     (if k_num_ports e \<le> p \<or> rx_region_virt (port e p) = None then None
      else let (ok, e1) = exanic_set_port_power env e p True
           in if \<not> ok then Some (Inl EIO, e1)
              else
                let dma = rx_region_dma (port e1 p);
                    e2 = writel (ucast (dma OR dma_cfg dma)) (REG_PORT_OFFSET p REG_PORT_RX_DMA_BASE_ADDR_LO) e1;
                    e3 = writel (ucast (drop_bit 32 dma)) (REG_PORT_OFFSET p REG_PORT_RX_DMA_BASE_ADDR_HI) e2;
                    e4 = writel 1 (REG_PORT_OFFSET p REG_PORT_ENABLED) e3
                in Some (Inr (), set_port p ((port e4 p)\<lparr>port_enabled := True\<rparr>) e4))"

definition exanic_disable_port :: "phy_env \<Rightarrow> kexanic \<Rightarrow> nat \<Rightarrow> kexanic" where
  "exanic_disable_port env e p =
     (if \<not> port_enabled (port e p)
      then writel 0 (REG_PORT_OFFSET p REG_PORT_IRQ_CONFIG) (writel 0 (REG_PORT_OFFSET p REG_PORT_ENABLED) e)
      else
        let e1 = writel 0 (REG_PORT_OFFSET p REG_PORT_ENABLED) (writel 0 (REG_PORT_OFFSET p REG_PORT_IRQ_CONFIG) e);
            e2 = (if \<not> exanic_port_needs_power e1 p then snd (exanic_set_port_power env e1 p False) else e1)
        in set_port p ((port e2 p)\<lparr>port_enabled := False\<rparr>) e2)"

subsection \<open>Features\<close>

datatype exanic_feature = EXANIC_MIRROR_RX | EXANIC_MIRROR_TX | EXANIC_BRIDGE

definition EXANIC_MIRRORING_SUPPORT :: "kexanic \<Rightarrow> bool" where
  "EXANIC_MIRRORING_SUPPORT e \<longleftrightarrow> k_caps e AND EXANIC_CAP_MIRRORING \<noteq> 0 \<or> k_hw_id e = EXANIC_HW_X4"

definition EXANIC_BRIDGING_SUPPORT :: "kexanic \<Rightarrow> bool" where
  "EXANIC_BRIDGING_SUPPORT e \<longleftrightarrow> k_caps e AND EXANIC_CAP_BRIDGING \<noteq> 0 \<or>
     k_hw_id e = EXANIC_HW_X2 \<or> k_hw_id e = EXANIC_HW_X4"

fun exanic_feature_bit :: "kexanic \<Rightarrow> nat \<Rightarrow> exanic_feature \<Rightarrow> u32 option" where
  "exanic_feature_bit e p EXANIC_MIRROR_RX =
     (if \<not> EXANIC_MIRRORING_SUPPORT e then None
      else if hwinfo_nports e = 4
      then if p = 0 then Some EXANIC_FEATURE_MIRROR_RX_0
           else if p = 1 then Some EXANIC_FEATURE_MIRROR_RX_1
           else if p = 2 then Some EXANIC_FEATURE_MIRROR_RX_2 else None
      else if hwinfo_nports e = 2 then if p = 0 then Some EXANIC_FEATURE_MIRROR_RX_0 else None
      else None)"
| "exanic_feature_bit e p EXANIC_MIRROR_TX =
     (if \<not> EXANIC_MIRRORING_SUPPORT e then None
      else if hwinfo_nports e = 4
      then if p = 0 then Some EXANIC_FEATURE_MIRROR_TX_0
           else if p = 1 then Some EXANIC_FEATURE_MIRROR_TX_1
           else if p = 2 then Some EXANIC_FEATURE_MIRROR_TX_2 else None
      else if hwinfo_nports e = 2 then if p = 0 then Some EXANIC_FEATURE_MIRROR_TX_0 else None
      else None)"
| "exanic_feature_bit e p EXANIC_BRIDGE =
     (if \<not> EXANIC_BRIDGING_SUPPORT e then None
      else if p = 0 then Some EXANIC_FEATURE_BRIDGE
      else if p = 1 then Some EXANIC_FEATURE_BRIDGE else None)"

definition ext_mirroring :: "kexanic \<Rightarrow> exanic_feature \<Rightarrow> bool" where
  "ext_mirroring e f \<longleftrightarrow> k_caps e AND EXANIC_CAP_EXT_MIRRORING \<noteq> 0 \<and>
     (f = EXANIC_MIRROR_RX \<or> f = EXANIC_MIRROR_TX)"

definition ext_bit :: "nat \<Rightarrow> exanic_feature \<Rightarrow> u32" where
  "ext_bit p f = push_bit (2 * p) (if f = EXANIC_MIRROR_RX then 1 else 2)"

text \<open>The state, which is written in every case, beside the result.\<close>

definition exanic_get_feature_cfg :: "kexanic \<Rightarrow> nat \<Rightarrow> exanic_feature \<Rightarrow> (kerr + unit) \<times> bool" where
  "exanic_get_feature_cfg e p f =
     (if ext_mirroring e f
      then (Inr (), regs_virt e (REG_EXANIC_OFFSET REG_EXANIC_MIRROR_ENABLE_EXT) AND ext_bit p f \<noteq> 0)
      else case exanic_feature_bit e p f of
             Some b \<Rightarrow> (Inr (), regs_virt e (REG_EXANIC_OFFSET REG_EXANIC_FEATURE_CFG) AND b \<noteq> 0)
           | None \<Rightarrow> (Inl EINVAL, False))"

text \<open>The loop over the ports; the result of \<open>exanic_set_port_power\<close> is not looked at.\<close>

fun update_power :: "phy_env \<Rightarrow> nat list \<Rightarrow> kexanic \<Rightarrow> kexanic" where
  "update_power env [] e = e"
| "update_power env (i # is) e =
     update_power env is
       (snd (exanic_set_port_power env e i (port_enabled (port e i) \<or> exanic_port_needs_power e i)))"

definition exanic_set_feature_cfg ::
    "phy_env \<Rightarrow> kexanic \<Rightarrow> nat \<Rightarrow> exanic_feature \<Rightarrow> bool \<Rightarrow> (kerr + unit) \<times> kexanic" where
  "exanic_set_feature_cfg env e p f state =
     (if ext_mirroring e f
      then let reg = regs_virt e (REG_EXANIC_OFFSET REG_EXANIC_MIRROR_ENABLE_EXT);
               new_reg = (if state then reg OR ext_bit p f else reg AND NOT (ext_bit p f))
           in if reg = new_reg then (Inr (), e)
              else (Inr (), update_power env [0..<k_num_ports e]
                     (writel new_reg (REG_EXANIC_OFFSET REG_EXANIC_MIRROR_ENABLE_EXT) e))
      else case exanic_feature_bit e p f of
             None \<Rightarrow> (if \<not> state then Inr () else Inl EINVAL, e)
           | Some b \<Rightarrow>
               let reg = regs_virt e (REG_EXANIC_OFFSET REG_EXANIC_FEATURE_CFG);
                   new_reg = (if state then reg OR b else reg AND NOT b)
               in if reg = new_reg then (Inr (), e)
                  else (Inr (), update_power env [0..<k_num_ports e]
                         (writel new_reg (REG_EXANIC_OFFSET REG_EXANIC_FEATURE_CFG) e)))"

text \<open>What the probe does with the features a card comes up with.\<close>

fun probe_power :: "phy_env \<Rightarrow> nat list \<Rightarrow> kexanic \<Rightarrow> kexanic" where
  "probe_power env [] e = e"
| "probe_power env (i # is) e =
     probe_power env is
       (if exanic_port_needs_power e i then snd (exanic_set_port_power env e i True) else e)"

definition probe_features :: "phy_env \<Rightarrow> kexanic \<Rightarrow> kexanic" where
  "probe_features env e =
     (let off = REG_EXANIC_OFFSET REG_EXANIC_FEATURE_CFG; reg = regs_virt e off;
          aux = reg AND EXANIC_FEATURE_AUX_ENABLE \<noteq> 0;
          reg0 = reg AND NOT EXANIC_FEATURE_BRIDGE_MIRROR_MASK;
          reg1 = (if aux then reg0 OR drop_bit 8 (reg0 AND EXANIC_FEATURE_AUX_MASK) else reg);
          e1 = (if aux then writel reg1 off e else e);
          e2 = probe_power env [0..<k_num_ports e1] e1
      in if reg1 AND EXANIC_FEATURE_AUX_ENABLE \<noteq> 0
         then writel (reg1 AND NOT EXANIC_FEATURE_AUX_ENABLE) off e2 else e2)"

subsection \<open>MAC addresses\<close>

definition exanic_get_mac_addr_regs :: "kexanic \<Rightarrow> nat \<Rightarrow> bytes" where
  "exanic_get_mac_addr_regs e p =
     (let r = regs_virt e (REG_PORT_OFFSET p REG_PORT_MAC_ADDR_OUI);
          s = regs_virt e (REG_PORT_OFFSET p REG_PORT_MAC_ADDR_NIC)
      in [ucast (r AND 0xFF), ucast (drop_bit 8 r AND 0xFF), ucast (drop_bit 16 r AND 0xFF),
          ucast (s AND 0xFF), ucast (drop_bit 8 s AND 0xFF), ucast (drop_bit 16 s AND 0xFF)])"

definition mac_word :: "bytes \<Rightarrow> u32" where
  "mac_word m = ucast (m ! 0) OR push_bit 8 (ucast (m ! 1)) OR push_bit 16 (ucast (m ! 2))"

definition exanic_set_mac_addr_regs :: "kexanic \<Rightarrow> nat \<Rightarrow> bytes \<Rightarrow> kexanic" where
  "exanic_set_mac_addr_regs e p mac =
     writel (mac_word (drop 3 mac)) (REG_PORT_OFFSET p REG_PORT_MAC_ADDR_NIC)
       (writel (mac_word mac) (REG_PORT_OFFSET p REG_PORT_MAC_ADDR_OUI) e)"

definition inc_mac_addr :: "bytes \<Rightarrow> u32 \<Rightarrow> bytes" where
  "inc_mac_addr addr n =
     (let nic = (push_bit 16 (ucast (addr ! 3)) OR push_bit 8 (ucast (addr ! 4)) OR ucast (addr ! 5)) + n
      in addr[3 := ucast (drop_bit 16 nic AND 0xFF), 4 := ucast (drop_bit 8 nic AND 0xFF),
              5 := ucast (nic AND 0xFF)])"

text \<open>Consecutive addresses for the ports of a card, as the probe assigns them.\<close>

fun probe_macs :: "nat list \<Rightarrow> bytes \<Rightarrow> kexanic \<Rightarrow> kexanic" where
  "probe_macs [] mac e = e"
| "probe_macs (p # ps) mac e = probe_macs ps (inc_mac_addr mac 1) (exanic_set_mac_addr_regs e p mac)"

subsection \<open>Ports and devices\<close>

definition port_limit :: "kexanic \<Rightarrow> nat" where
  "port_limit e =
     (case hwinfo_port_ff e of
        EXANIC_PORT_SFP \<Rightarrow> hwinfo_nports e
      | EXANIC_PORT_QSFP \<Rightarrow> hwinfo_nports e * 4
      | EXANIC_PORT_QSFPDD \<Rightarrow> hwinfo_nports e * 8)"

fun count_ports :: "kexanic \<Rightarrow> nat \<Rightarrow> nat \<Rightarrow> nat" where
  "count_ports e 0 port_idx = port_idx"
| "count_ports e (Suc k) port_idx =
     (if regs_virt e (REG_PORT_OFFSET port_idx REG_PORT_STATUS) AND EXANIC_PORT_NOT_IMPLEMENTED \<noteq> 0
      then port_idx else count_ports e k (Suc port_idx))"

definition kexanic_get_num_ports :: "kexanic \<Rightarrow> nat" where
  "kexanic_get_num_ports e = count_ports e (min EXANIC_MAX_PORTS (port_limit e)) 0"

text \<open>The number of a new device: the devices of the list are scanned again for every candidate.\<close>

function exanic_get_id :: "nat list \<Rightarrow> nat \<Rightarrow> nat" where
  "exanic_get_id ids i = (if i \<in> set ids then exanic_get_id ids (i + 1) else i)"
  by pat_completeness auto
termination
proof (relation "measure (\<lambda>(ids, i). Suc (Max (insert 0 (set ids))) - i)")
  fix ids :: "nat list" and i
  assume "i \<in> set ids"
  then have "i \<le> Max (insert 0 (set ids))" by (intro Max_ge) auto
  then show "((ids, i + 1), ids, i) \<in> measure (\<lambda>(ids, i). Suc (Max (insert 0 (set ids))) - i)" by simp
qed simp

declare exanic_get_id.simps [simp del]

definition exanic_devkit_offset_to_size :: "u32 \<Rightarrow> nat" where
  "exanic_devkit_offset_to_size offset =
     (case find (bit offset) [0..<32] of None \<Rightarrow> 0 | Some n \<Rightarrow> 2 ^ n)"

end
