(* ===== verification/KPortProps.thy ===== *)
theory KPortProps
  imports KPort KProps
begin

text \<open>
  Properties of the ports: power follows use, the features read back what was set, and the
  MAC addresses.
\<close>

subsection \<open>What the operations touch\<close>

lemma feature_offsets [simp]:
  "REG_EXANIC_OFFSET REG_EXANIC_FEATURE_CFG = 8" "REG_EXANIC_OFFSET REG_EXANIC_MIRROR_ENABLE_EXT = 80"
  "REG_HW_OFFSET REG_HW_POWERDOWN = 312"
  by (simp_all add: REG_EXANIC_OFFSET_def REG_HW_OFFSET_def)

lemma port_offset_large: "512 \<le> REG_PORT_OFFSET p r"
  by (simp add: REG_PORT_OFFSET_def)

lemma writel_const [simp]: "k_caps (writel v off e) = k_caps e" "k_hw_id (writel v off e) = k_hw_id e"
  "hwinfo_nports (writel v off e) = hwinfo_nports e"
  by (simp_all add: writel_def)

lemma set_port_const [simp]: "k_caps (set_port p x e) = k_caps e" "k_hw_id (set_port p x e) = k_hw_id e"
  "hwinfo_nports (set_port p x e) = hwinfo_nports e"
  by (simp_all add: set_port_def)

text \<open>Two states of one card that agree on the feature registers and on which ports are enabled.\<close>

definition same_features :: "kexanic \<Rightarrow> kexanic \<Rightarrow> bool" where
  "same_features e e' \<longleftrightarrow> regs_virt e' 8 = regs_virt e 8 \<and> regs_virt e' 80 = regs_virt e 80 \<and>
     k_caps e' = k_caps e \<and> k_hw_id e' = k_hw_id e \<and> hwinfo_nports e' = hwinfo_nports e \<and>
     k_num_ports e' = k_num_ports e"

lemma same_features_refl [simp]: "same_features e e"
  by (simp add: same_features_def)

lemma same_features_trans: "same_features e1 e2 \<Longrightarrow> same_features e2 e3 \<Longrightarrow> same_features e1 e3"
  by (simp add: same_features_def)

lemma same_features_writel [simp]: "off \<noteq> 8 \<Longrightarrow> off \<noteq> 80 \<Longrightarrow> same_features e (writel v off e)"
  by (simp add: same_features_def regs_writel)

lemma needs_power_cong: "same_features e e' \<Longrightarrow> exanic_port_needs_power e' p = exanic_port_needs_power e p"
  by (simp add: same_features_def exanic_port_needs_power_def)

lemma feature_bit_cong: "same_features e e' \<Longrightarrow> exanic_feature_bit e' p f = exanic_feature_bit e p f"
  by (cases f) (simp_all add: same_features_def EXANIC_MIRRORING_SUPPORT_def EXANIC_BRIDGING_SUPPORT_def)

lemma get_feature_cong: "same_features e e' \<Longrightarrow> exanic_get_feature_cfg e' p f = exanic_get_feature_cfg e p f"
  by (simp add: exanic_get_feature_cfg_def feature_bit_cong ext_mirroring_def)
    (simp add: same_features_def split: option.splits)

text \<open>Power touches the power-down register and the flag of one port.\<close>

lemma set_port_power_frame:
  assumes "exanic_set_port_power env e p on = (ok, e')"
  shows "same_features e e'" "q \<noteq> p \<Longrightarrow> port e' q = port e q"
    "port e' p = (port e p)\<lparr>port_power := port_power (port e' p)\<rparr>" "a \<noteq> 312 \<Longrightarrow> regs_virt e' a = regs_virt e a"
    "ok \<Longrightarrow> port_power (port e' p) = on" "\<not> ok \<Longrightarrow> \<not> port_power (port e' p) \<and> on"
    "port_power (port e' p) \<Longrightarrow> port_power (port e p) \<or> on"
  using assms
  by (auto simp: exanic_set_port_power_def exanic_phyops_poweron_def exanic_phyops_poweroff_def Let_def regs_writel
      same_features_def split: if_splits prod.splits)

lemma set_port_power_enabled:
  assumes "exanic_set_port_power env e p on = (ok, e')"
  shows "port_enabled (port e' q) = port_enabled (port e q)"
proof (cases "q = p")
  case True
  then show ?thesis by (subst True, subst set_port_power_frame(3) [OF assms]) simp
qed (simp add: set_port_power_frame(2) [OF assms])

subsection \<open>Power follows use\<close>

abbreviation (input) in_use :: "kexanic \<Rightarrow> nat \<Rightarrow> bool" where
  "in_use e p \<equiv> port_enabled (port e p) \<or> exanic_port_needs_power e p"

text \<open>
  What holds of every port at any time, and what holds of a port between two operations; \<open>r\<close>
  says that the PHYs have always come up.
\<close>

definition power_base :: "kexanic \<Rightarrow> bool" where
  "power_base e \<longleftrightarrow> k_num_ports e \<le> 16 \<and> (x2_x4 e \<longrightarrow> k_num_ports e \<le> 4) \<and>
     (\<forall>p<k_num_ports e. (port_enabled (port e p) \<longrightarrow> port_power (port e p)) \<and>
        (port_power (port e p) \<longrightarrow> bit (regs_virt e (REG_HW_OFFSET REG_HW_POWERDOWN)) (EXANIC_SFP_TXDIS0 + p)))"

definition power_at :: "bool \<Rightarrow> kexanic \<Rightarrow> nat \<Rightarrow> bool" where
  "power_at r e p \<longleftrightarrow> (port_power (port e p) \<longrightarrow> in_use e p) \<and> (r \<longrightarrow> exanic_port_needs_power e p \<longrightarrow> port_power (port e p))"

definition reliable :: "phy_env \<Rightarrow> bool" where
  "reliable env \<longleftrightarrow> (\<forall>p. phy_i2c_ok env p \<and> phy_init_ok env p)"

lemma set_port_power_reg:
  assumes "exanic_set_port_power env e p on = (ok, e')"
  shows "port_power (port e p) = on \<and> e' = e \<or>
    \<not> port_power (port e p) \<and> on \<and> regs_virt e' 312 = (if x2_x4 e then regs_virt e 312 AND NOT (push_bit p 1) else regs_virt e 312) OR push_bit (4 + p) 1 \<or>
    port_power (port e p) \<and> \<not> on \<and> regs_virt e' 312 = (regs_virt e 312 AND NOT (push_bit (4 + p) 1)) OR (if x2_x4 e then push_bit p 1 else 0)"
  using assms
  by (simp add: exanic_set_port_power_def exanic_phyops_poweron_def exanic_phyops_poweroff_def Let_def regs_writel
      split: if_splits) (auto simp: regs_writel)

lemma set_port_power_tx:
  assumes "exanic_set_port_power env e p on = (ok, e')" "power_base e" "p < k_num_ports e" "q < k_num_ports e"
    "port_power (port e' q)"
  shows "bit (regs_virt e' 312) (4 + q)"
proof -
  have lt: "q < 16" "p < 16" and x: "x2_x4 e \<Longrightarrow> p < 4" and old: "port_power (port e q) \<Longrightarrow> bit (regs_virt e 312) (4 + q)"
    using assms(2-4) by (auto simp: power_base_def)
  note F = set_port_power_frame [OF assms(1)]
  show ?thesis
  proof (cases "q = p")
    case True
    with F(7) assms(5) have "port_power (port e p) \<or> on" by simp
    moreover have "port_power (port e p) \<and> \<not> on \<Longrightarrow> False"
      using F(5-6) assms(5) True by blast
    ultimately show ?thesis using set_port_power_reg [OF assms(1)] old True lt
      by (auto simp: bit_simps)
  next
    case False
    then have "bit (regs_virt e 312) (4 + q)" using F(2) assms(5) old by simp
    then show ?thesis using set_port_power_reg [OF assms(1)] False lt x
      by (auto simp: bit_simps)
  qed
qed

lemma set_port_power_at:
  assumes "exanic_set_port_power env e p on = (ok, e')" "power_base e" "p < k_num_ports e" "port_enabled (port e p) \<Longrightarrow> on"
  shows "power_base e'" "q \<noteq> p \<Longrightarrow> power_at r e' q = power_at r e q"
    "on = in_use e p \<Longrightarrow> (r \<Longrightarrow> reliable env) \<Longrightarrow> power_at r e' p"
    "ok \<Longrightarrow> on \<Longrightarrow> port_power (port e' p)"
proof -
  note F = set_port_power_frame [OF assms(1)]
  note n = needs_power_cong [OF F(1)]
  note en = set_port_power_enabled [OF assms(1)]
  show "power_at r e' q = power_at r e q" if "q \<noteq> p" using F(2) [OF that] n by (simp add: power_at_def)
  show "ok \<Longrightarrow> on \<Longrightarrow> port_power (port e' p)" by (simp add: F(5))
  show "power_at r e' p" if "on = in_use e p" "r \<Longrightarrow> reliable env"
  proof -
    have "ok" if r using assms(1) \<open>r \<Longrightarrow> reliable env\<close> [OF that]
      by (auto simp: exanic_set_port_power_def reliable_def exanic_phyops_poweron_def Let_def split: if_splits prod.splits)
    then show ?thesis using F(5-6) that(1) unfolding power_at_def n en by blast
  qed
  have x: "x2_x4 e' = x2_x4 e" "k_num_ports e' = k_num_ports e" using F(1) by (simp_all add: x2_x4_def same_features_def)
  have "port_power (port e' q)" if "port_enabled (port e' q)" "q < k_num_ports e" for q
  proof (cases "q = p")
    case True
    have "port_enabled (port e p)" using that(1) unfolding en True .
    then have "on" "port_power (port e p)" using assms(2-4) by (auto simp: power_base_def)
    then show ?thesis using assms(1) True by (simp add: exanic_set_port_power_def)
  next
    case False
    then show ?thesis using that assms(2) F(2) by (simp add: power_base_def)
  qed
  then show "power_base e'"
    using assms(2) set_port_power_tx [OF assms(1-3)] x by (simp add: power_base_def)
qed


lemma update_power_at:
  assumes "power_base e" "set is \<subseteq> {..<k_num_ports e}" "\<And>q. q < k_num_ports e \<Longrightarrow> q \<notin> set is \<Longrightarrow> power_at r e q"
    "r \<Longrightarrow> reliable env"
  shows "power_base (update_power env is e) \<and> same_features e (update_power env is e) \<and>
    (\<forall>q<k_num_ports e. power_at r (update_power env is e) q)"
  using assms
proof (induction "is" arbitrary: e)
  case (Cons i "is")
  obtain ok e1 where 1: "exanic_set_port_power env e i (in_use e i) = (ok, e1)" by fastforce
  note A = set_port_power_at [OF 1 Cons.prems(1)] and F = set_port_power_frame(1) [OF 1]
  have n: "k_num_ports e1 = k_num_ports e" and i: "i < k_num_ports e" using F Cons.prems(2) by (simp_all add: same_features_def)
  have "power_at r e1 q" if "q < k_num_ports e" "q \<notin> set is" for q
  proof (cases "q = i")
    case True
    then show ?thesis using A(3) [OF i _ refl Cons.prems(4)] by blast
  next
    case False
    then show ?thesis using A(2) [OF i _ False] Cons.prems(3) that by auto
  qed
  then have "power_base (update_power env is e1) \<and> same_features e1 (update_power env is e1) \<and>
    (\<forall>q<k_num_ports e1. power_at r (update_power env is e1) q)"
    using A(1) [OF i] Cons.prems(2,4) n by (intro Cons.IH) auto
  then show ?case using 1 n same_features_trans [OF F] by simp
qed simp

definition power_inv :: "bool \<Rightarrow> kexanic \<Rightarrow> bool" where
  "power_inv r e \<longleftrightarrow> power_base e \<and> (\<forall>q<k_num_ports e. power_at r e q)"

text \<open>A write to a register other than the power-down register, then the loop over the ports.\<close>

lemma power_base_writel: "off \<noteq> 312 \<Longrightarrow> power_base (writel v off e) = power_base e"
  by (simp add: power_base_def x2_x4_def regs_writel)

lemma update_power_inv:
  assumes "power_base e" "off \<noteq> 312" "r \<Longrightarrow> reliable env"
  shows "power_inv r (update_power env [0..<k_num_ports e] (writel v off e))"
proof -
  have "power_base (writel v off e)" using assms power_base_writel by simp
  note U = update_power_at [OF this _ _ assms(3), of "[0..<k_num_ports e]", simplified]
  show ?thesis using U by (auto simp: power_inv_def same_features_def lessThan_atLeast0)
qed

lemma set_feature_inv:
  assumes "power_inv r e" "r \<Longrightarrow> reliable env" "exanic_set_feature_cfg env e p f st = (res, e')"
  shows "power_inv r e'"
  using assms update_power_inv [of e _ r env]
  by (auto simp: exanic_set_feature_cfg_def power_inv_def Let_def split: if_splits option.splits)

lemma power_inv_writel:
  assumes "off \<noteq> 312" "off \<noteq> 8" "off \<noteq> 80"
  shows "power_inv r (writel v off e) = power_inv r e"
  using assms needs_power_cong [OF same_features_writel [OF assms(2,3), of e v]]
  by (simp add: power_inv_def power_base_writel power_at_def)

lemma power_at_writel: "off \<noteq> 312 \<Longrightarrow> off \<noteq> 8 \<Longrightarrow> off \<noteq> 80 \<Longrightarrow> power_at r (writel v off e) q = power_at r e q"
  using needs_power_cong [OF same_features_writel] by (simp add: power_at_def)

lemma reliable_ok: "exanic_set_port_power env e p on = (ok, e') \<Longrightarrow> reliable env \<Longrightarrow> ok"
  by (auto simp: exanic_set_port_power_def reliable_def exanic_phyops_poweron_def Let_def split: if_splits prod.splits)

lemma set_enabled_base:
  "power_base e \<Longrightarrow> b \<longrightarrow> port_power (port e p) \<Longrightarrow> power_base (set_port p ((port e p)\<lparr>port_enabled := b\<rparr>) e)"
  by (simp add: power_base_def x2_x4_def)

lemma set_enabled_at:
  "power_at r (set_port p ((port e p)\<lparr>port_enabled := b\<rparr>) e) q \<longleftrightarrow>
     (if q = p then (port_power (port e p) \<longrightarrow> b \<or> exanic_port_needs_power e p) \<and>
        (r \<longrightarrow> exanic_port_needs_power e p \<longrightarrow> port_power (port e p))
      else power_at r e q)"
proof -
  have "same_features e (set_port p ((port e p)\<lparr>port_enabled := b\<rparr>) e)" by (simp add: same_features_def)
  then show ?thesis by (simp add: power_at_def needs_power_cong)
qed

lemma enable_port_inv:
  assumes "power_inv r e" "r \<Longrightarrow> reliable env" "exanic_enable_port env e p = Some (res, e')"
  shows "power_inv r e'"
proof -
  obtain ok e1 where 1: "exanic_set_port_power env e p True = (ok, e1)" by fastforce
  have p: "p < k_num_ports e" using assms(3) by (simp add: exanic_enable_port_def split: if_splits)
  have base: "power_base e" using assms(1) by (simp add: power_inv_def)
  note A = set_port_power_at [OF 1 base p] and F = set_port_power_frame [OF 1]
  have k: "k_num_ports e1 = k_num_ports e" using F(1) by (simp add: same_features_def)
  have others: "power_at r e1 q" if "q < k_num_ports e" "q \<noteq> p" for q
    using A(2) assms(1) that by (simp add: power_inv_def)
  show ?thesis
  proof (cases ok)
    case False
    then have "e' = e1" using assms(3) 1 by (simp add: exanic_enable_port_def split: if_splits)
    moreover have "power_at r e1 p" using False F(6) reliable_ok [OF 1] assms(2) by (auto simp: power_at_def)
    ultimately show ?thesis using A(1) k others by (auto simp: power_inv_def)
  next
    case True
    define d where "d = rx_region_dma (port e1 p)"
    define e4 where "e4 = writel 1 (REG_PORT_OFFSET p REG_PORT_ENABLED)
      (writel (ucast (drop_bit 32 d)) (REG_PORT_OFFSET p REG_PORT_RX_DMA_BASE_ADDR_HI)
        (writel (ucast (d OR dma_cfg d)) (REG_PORT_OFFSET p REG_PORT_RX_DMA_BASE_ADDR_LO) e1))"
    have e': "e' = set_port p ((port e4 p)\<lparr>port_enabled := True\<rparr>) e4"
      using assms(3) 1 True by (simp add: exanic_enable_port_def Let_def e4_def d_def split: if_splits)
    have on: "port_power (port e4 p)" using F(5) True by (simp add: e4_def)
    have off: "REG_PORT_OFFSET p r \<noteq> 312" "REG_PORT_OFFSET p r \<noteq> 8" "REG_PORT_OFFSET p r \<noteq> 80" for r
      using port_offset_large [of p r] by simp_all
    have "power_base e4" "\<And>q. power_at r e4 q = power_at r e1 q"
      using A(1) off by (simp_all add: e4_def power_base_writel power_at_writel)
    moreover have "k_num_ports e4 = k_num_ports e" by (simp add: e4_def k)
    ultimately show ?thesis using on others
      by (auto simp: power_inv_def e' set_enabled_base set_enabled_at)
  qed
qed

lemma disable_port_inv:
  assumes "power_inv r e" "p < k_num_ports e"
  shows "power_inv r (exanic_disable_port env e p)"
proof -
  have off: "REG_PORT_OFFSET p r \<noteq> 312" "REG_PORT_OFFSET p r \<noteq> 8" "REG_PORT_OFFSET p r \<noteq> 80" for r
    using port_offset_large [of p r] by simp_all
  define e1 where "e1 = writel 0 (REG_PORT_OFFSET p REG_PORT_ENABLED) (writel 0 (REG_PORT_OFFSET p REG_PORT_IRQ_CONFIG) e)"
  have inv1: "power_inv r e1" using assms(1) off by (simp add: e1_def power_inv_writel)
  show ?thesis
  proof (cases "port_enabled (port e p)")
    case False
    then show ?thesis using assms(1) off by (simp add: exanic_disable_port_def power_inv_writel)
  next
    case True
    define e1' where "e1' = set_port p ((port e1 p)\<lparr>port_enabled := False\<rparr>) e1"
    have base: "power_base e1'" and k: "k_num_ports e1' = k_num_ports e"
      using inv1 by (simp_all add: e1'_def power_inv_def set_enabled_base) (simp add: e1_def)
    have needs: "exanic_port_needs_power e1' p = exanic_port_needs_power e1 p"
      by (intro needs_power_cong) (simp add: e1'_def same_features_def)
    have at: "power_at r e1' q" if "q < k_num_ports e" "q = p \<longrightarrow> exanic_port_needs_power e1 p" for q
    proof -
      have "power_at r e1 q" using inv1 that(1) by (simp add: power_inv_def e1_def)
      then show ?thesis using that(2) unfolding e1'_def set_enabled_at by (cases "q = p") (simp_all add: power_at_def)
    qed
    show ?thesis
    proof (cases "exanic_port_needs_power e1 p")
      case True
      with \<open>port_enabled (port e p)\<close> have "exanic_disable_port env e p = e1'"
        by (simp add: exanic_disable_port_def Let_def e1_def e1'_def)
      with True show ?thesis using base at k by (auto simp: power_inv_def)
    next
      case False
      obtain ok e2 where 2: "exanic_set_port_power env e1' p False = (ok, e2)" by fastforce
      have swap: "x\<lparr>port_enabled := False, port_power := False\<rparr> = x\<lparr>port_power := False, port_enabled := False\<rparr>"
        for x :: exanic_port by (cases x) simp
      have "snd (exanic_set_port_power env e1' p False) =
          (let x = snd (exanic_set_port_power env e1 p False) in set_port p ((port x p)\<lparr>port_enabled := False\<rparr>) x)"
        by (simp add: exanic_set_port_power_def exanic_phyops_poweroff_def e1'_def set_port_def writel_def Let_def x2_x4_def swap)
      with False \<open>port_enabled (port e p)\<close> have e': "exanic_disable_port env e p = e2"
        by (simp add: exanic_disable_port_def Let_def e1_def 2)
      have off: "\<not> port_enabled (port e1' p)" by (simp add: e1'_def)
      have "p < k_num_ports e1'" using assms(2) k by simp
      note A = set_port_power_at [OF 2 base this]
      have "power_base e2" "\<And>q. q \<noteq> p \<Longrightarrow> power_at r e2 q = power_at r e1' q" using A(1,2) off by blast+
      moreover have "power_at r e2 p"
        using set_port_power_frame(1,2,3,5,6) [OF 2] False needs off
        by (auto simp: power_at_def needs_power_cong)
      ultimately have "power_at r e2 q" if "q < k_num_ports e" for q
        using at [OF that] False by (cases "q = p") auto
      then show ?thesis
        unfolding e' using \<open>power_base e2\<close> k set_port_power_frame(1) [OF 2] by (auto simp: power_inv_def same_features_def)
    qed
  qed
qed

lemma probe_power_eq:
  "distinct is \<Longrightarrow> (\<And>i. i \<in> set is \<Longrightarrow> \<not> port_power (port e i) \<and> \<not> port_enabled (port e i)) \<Longrightarrow>
    probe_power env is e = update_power env is e"
proof (induction "is" arbitrary: e)
  case (Cons i "is")
  obtain ok e1 where 1: "exanic_set_port_power env e i True = (ok, e1)" by fastforce
  have "exanic_set_port_power env e i False = (True, e)"
    using Cons.prems(2) [of i] by (simp add: exanic_set_port_power_def)
  moreover have "port e1 j = port e j" if "j \<noteq> i" for j using set_port_power_frame(2) [OF 1 that] .
  ultimately show ?case using Cons 1 by (cases "exanic_port_needs_power e i") (auto, metis)
qed simp

lemma and_not_disjoint: "a AND m = 0 \<Longrightarrow> (c AND NOT a) AND m = c AND (m :: u32)"
proof (rule bit_eqI)
  fix n
  assume "possible_bit TYPE(u32) n" "a AND m = 0"
  then have "\<not> bit (a AND m) n" by simp
  then show "bit ((c AND NOT a) AND m) n = bit (c AND m) n" using \<open>possible_bit TYPE(u32) n\<close> by (auto simp: bit_simps)
qed

lemma needs_power_aux:
  "exanic_port_needs_power (writel (regs_virt e 8 AND NOT EXANIC_FEATURE_AUX_ENABLE) 8 e) p = exanic_port_needs_power e p"
proof -
  have "EXANIC_FEATURE_AUX_ENABLE AND port_feature_bits_2port p = 0" "EXANIC_FEATURE_AUX_ENABLE AND port_feature_bits_4port p = 0"
    "EXANIC_FEATURE_AUX_ENABLE AND EXANIC_FEATURE_MIRROR_OUTPUT_EXT_MASK = 0"
    by (simp_all add: port_feature_bits_2port_def port_feature_bits_4port_def)
  note m = this [THEN and_not_disjoint, of "regs_virt e 8"]
  let ?e = "writel (regs_virt e 8 AND NOT EXANIC_FEATURE_AUX_ENABLE) 8 e"
  have r: "regs_virt ?e 8 = regs_virt e 8 AND NOT EXANIC_FEATURE_AUX_ENABLE" "regs_virt ?e 80 = regs_virt e 80"
    by (simp_all add: regs_writel)
  show ?thesis unfolding exanic_port_needs_power_def Let_def by (simp only: feature_offsets writel_const r m)
qed

lemma power_inv_aux: "power_inv r (writel (regs_virt e 8 AND NOT EXANIC_FEATURE_AUX_ENABLE) 8 e) = power_inv r e"
  unfolding power_inv_def power_at_def needs_power_aux by (simp add: power_base_writel)

lemma probe_features_inv:
  assumes "k_num_ports e \<le> 16" "x2_x4 e \<longrightarrow> k_num_ports e \<le> 4"
    "\<forall>p<k_num_ports e. \<not> port_power (port e p) \<and> \<not> port_enabled (port e p)" "r \<Longrightarrow> reliable env"
  shows "power_inv r (probe_features env e)"
proof -
  define cfg where "cfg = regs_virt e 8"
  define reg1 where "reg1 = (if cfg AND EXANIC_FEATURE_AUX_ENABLE \<noteq> 0
    then cfg AND NOT EXANIC_FEATURE_BRIDGE_MIRROR_MASK OR drop_bit 8 ((cfg AND NOT EXANIC_FEATURE_BRIDGE_MIRROR_MASK) AND EXANIC_FEATURE_AUX_MASK)
    else cfg)"
  define e1 where "e1 = (if cfg AND EXANIC_FEATURE_AUX_ENABLE \<noteq> 0 then writel reg1 8 e else e)"
  have "power_base e1" using assms(1-3) by (simp add: e1_def power_base_writel) (simp add: power_base_def)
  moreover have k: "k_num_ports e1 = k_num_ports e" by (simp add: e1_def)
  ultimately have U: "power_inv r (update_power env [0..<k_num_ports e1] e1)"
    and F: "same_features e1 (update_power env [0..<k_num_ports e1] e1)"
    using update_power_at [of e1 "[0..<k_num_ports e1]" r env] assms(4)
    by (auto simp: power_inv_def same_features_def lessThan_atLeast0)
  have "probe_power env [0..<k_num_ports e1] e1 = update_power env [0..<k_num_ports e1] e1"
    using assms(3) k by (intro probe_power_eq) (simp_all add: e1_def)
  note PE = this
  have R8: "regs_virt (update_power env [0..<k_num_ports e1] e1) 8 = reg1"
    using F by (simp add: same_features_def) (simp add: e1_def regs_writel reg1_def cfg_def)
  have "probe_features env e = (let e2 = update_power env [0..<k_num_ports e1] e1 in
      if reg1 AND EXANIC_FEATURE_AUX_ENABLE \<noteq> 0 then writel (regs_virt e2 8 AND NOT EXANIC_FEATURE_AUX_ENABLE) 8 e2 else e2)"
    unfolding probe_features_def Let_def feature_offsets cfg_def [symmetric] reg1_def [symmetric] e1_def [symmetric] PE R8
    by (rule refl)
  then show ?thesis unfolding Let_def using U power_inv_aux by (simp split del: if_split split: if_split)
qed

text \<open>The port operations, in any order; \<open>good\<close> says how the PHYs may behave.\<close>

inductive port_step :: "(phy_env \<Rightarrow> bool) \<Rightarrow> kexanic \<Rightarrow> kexanic \<Rightarrow> bool" for good where
  enable_step: "good env \<Longrightarrow> exanic_enable_port env e p = Some (res, e') \<Longrightarrow> port_step good e e'"
| disable_step: "good env \<Longrightarrow> p < k_num_ports e \<Longrightarrow> port_step good e (exanic_disable_port env e p)"
| feature_step: "good env \<Longrightarrow> exanic_set_feature_cfg env e p f st = (res, e') \<Longrightarrow> port_step good e e'"

lemma port_step_inv: "port_step good e e' \<Longrightarrow> power_inv r e \<Longrightarrow> (\<And>env. good env \<Longrightarrow> r \<Longrightarrow> reliable env) \<Longrightarrow> power_inv r e'"
  by (induction rule: port_step.induct) (blast intro: enable_port_inv disable_port_inv set_feature_inv)+

lemma port_steps_inv:
  assumes "(port_step good)\<^sup>*\<^sup>* e e'" "power_inv r e" "\<And>env. good env \<Longrightarrow> r \<Longrightarrow> reliable env"
  shows "power_inv r e'"
  using assms(1,2) by (induction rule: rtranclp_induct) (blast intro: port_step_inv assms(3))+

text \<open>
  C28. After the probe and any sequence of enabling, disabling and feature changes, a port is
  powered only if it is enabled or a mirroring or bridging feature needs it, an enabled port is
  powered, and a powered port has its transmitter on; if the PHYs come up whenever they are
  asked to, every port that a feature needs is powered.
\<close>

theorem power_follows_use:
  assumes "k_num_ports e0 \<le> EXANIC_MAX_PORTS" "x2_x4 e0 \<longrightarrow> k_num_ports e0 \<le> 4"
    and "\<forall>p<k_num_ports e0. \<not> port_power (port e0 p) \<and> \<not> port_enabled (port e0 p)"
    and "good env0" "(port_step good)\<^sup>*\<^sup>* (probe_features env0 e0) e" "p < k_num_ports e"
  shows "(port_power (port e p) \<longrightarrow> port_enabled (port e p) \<or> exanic_port_needs_power e p) \<and>
    (port_enabled (port e p) \<longrightarrow> port_power (port e p)) \<and>
    (port_power (port e p) \<longrightarrow> bit (regs_virt e (REG_HW_OFFSET REG_HW_POWERDOWN)) (EXANIC_SFP_TXDIS0 + p)) \<and>
    ((\<forall>env. good env \<longrightarrow> reliable env) \<longrightarrow> exanic_port_needs_power e p \<longrightarrow> port_power (port e p))"
proof -
  define r where "r = (\<forall>env. good env \<longrightarrow> reliable env)"
  have good: "\<And>env. good env \<Longrightarrow> r \<Longrightarrow> reliable env" by (simp add: r_def)
  have "power_inv r (probe_features env0 e0)" using probe_features_inv [OF assms(1-3)] good assms(4) by blast
  then have "power_inv r e" by (rule port_steps_inv [OF assms(5) _ good])
  then show ?thesis using assms(6) by (simp add: power_inv_def power_base_def power_at_def r_def)
qed

subsection \<open>Where a feature lives\<close>

text \<open>The register and the bit a feature of a port lives in.\<close>

definition feature_loc :: "kexanic \<Rightarrow> nat \<Rightarrow> exanic_feature \<Rightarrow> (nat \<times> u32) option" where
  "feature_loc e p f =
     (if ext_mirroring e f then Some (REG_EXANIC_OFFSET REG_EXANIC_MIRROR_ENABLE_EXT, ext_bit p f)
      else map_option (Pair (REG_EXANIC_OFFSET REG_EXANIC_FEATURE_CFG)) (exanic_feature_bit e p f))"

definition single_bit :: "u32 \<Rightarrow> bool" where
  "single_bit b \<longleftrightarrow> (\<exists>k<32. b = push_bit k 1)"

lemma single_bit_set:
  assumes "single_bit b"
  shows "(w OR b) AND b \<noteq> 0" "(w AND NOT b) AND b = 0"
proof -
  obtain k where k: "k < 32" "b = push_bit k 1" using assms by (auto simp: single_bit_def)
  then have "bit ((w OR b) AND b) k" by (simp add: bit_simps)
  then show "(w OR b) AND b \<noteq> 0" by auto
  show "(w AND NOT b) AND b = 0" by (rule bit_eqI) (auto simp: bit_simps)
qed

lemma single_bit_other:
  assumes "single_bit b" "single_bit c" "b \<noteq> c"
  shows "(w OR b) AND c = w AND c" "(w AND NOT b) AND c = w AND c"
proof -
  obtain i j where "i < 32" "j < 32" "b = push_bit i 1" "c = push_bit j 1" "i \<noteq> j"
    using assms by (auto simp: single_bit_def)
  then show "(w OR b) AND c = w AND c" "(w AND NOT b) AND c = w AND c"
    by (auto intro!: bit_eqI simp: bit_simps)
qed

lemma feature_loc_single:
  assumes "feature_loc e p f = Some (r, b)" "p < EXANIC_MAX_PORTS"
  shows "single_bit b"
proof -
  have "single_bit 1" "single_bit 2" "single_bit 4" "single_bit 8" "single_bit 16" "single_bit 32" "single_bit 64"
    unfolding single_bit_def by (rule exI [of _ 0], simp) (rule exI [of _ 1], simp, rule exI [of _ 2], simp,
      rule exI [of _ 3], simp, rule exI [of _ 4], simp, rule exI [of _ 5], simp, rule exI [of _ 6], simp)
  moreover have "single_bit (ext_bit p f)"
    unfolding single_bit_def ext_bit_def using assms(2)
    by (intro exI [of _ "if f = EXANIC_MIRROR_RX then 2 * p else 2 * p + 1"]) (simp add: push_bit_eq_mult)
  ultimately show ?thesis
    using assms(1) by (cases f) (auto simp: feature_loc_def split: if_splits)
qed

lemma get_feature_loc:
  "exanic_get_feature_cfg e p f =
     (case feature_loc e p f of None \<Rightarrow> (Inl EINVAL, False) | Some (r, b) \<Rightarrow> (Inr (), regs_virt e r AND b \<noteq> 0))"
  by (simp add: exanic_get_feature_cfg_def feature_loc_def split: option.splits)

lemma update_power_frame:
  "same_features e (update_power env is e) \<and> (\<forall>q. port_enabled (port (update_power env is e) q) = port_enabled (port e q))"
proof (induction "is" arbitrary: e)
  case (Cons i "is")
  obtain ok e1 where 1: "exanic_set_port_power env e i (in_use e i) = (ok, e1)" by fastforce
  have "port_enabled (port e1 q) = port_enabled (port e q)" for q by (rule set_port_power_enabled [OF 1])
  then show ?case using same_features_trans [OF set_port_power_frame(1) [OF 1]] Cons.IH [of e1] 1 by simp
qed simp

lemma set_feature_eq:
  "exanic_set_feature_cfg env e p f st =
     (case feature_loc e p f of
        None \<Rightarrow> (if st then Inl EINVAL else Inr (), e)
      | Some (r, b) \<Rightarrow>
          (let new = (if st then regs_virt e r OR b else regs_virt e r AND NOT b)
           in (Inr (), if regs_virt e r = new then e else update_power env [0..<k_num_ports e] (writel new r e))))"
  by (simp add: exanic_set_feature_cfg_def feature_loc_def Let_def if_distrib [of "Pair _"] split: option.split)

lemma feature_loc_reg: "feature_loc e p f = Some (r, b) \<Longrightarrow> r \<in> {8, 80}"
  by (auto simp: feature_loc_def split: if_splits)

lemma set_feature_loc:
  assumes "exanic_set_feature_cfg env e p f st = (res, e')"
  shows "feature_loc e p f = None \<Longrightarrow> e' = e \<and> res = (if st then Inl EINVAL else Inr ())"
    "feature_loc e p f = Some (r, b) \<Longrightarrow> res = Inr () \<and>
         (\<forall>a\<in>{8, 80}. regs_virt e' a = (if a = r then (if st then regs_virt e r OR b else regs_virt e r AND NOT b) else regs_virt e a))"
    and "k_caps e' = k_caps e" "k_hw_id e' = k_hw_id e" "hwinfo_nports e' = hwinfo_nports e" "k_num_ports e' = k_num_ports e"
    "port_enabled (port e' q) = port_enabled (port e q)"
proof -
  have f: "regs_virt (update_power env is x) 8 = regs_virt x 8" "regs_virt (update_power env is x) 80 = regs_virt x 80"
    "k_caps (update_power env is x) = k_caps x" "k_hw_id (update_power env is x) = k_hw_id x"
    "hwinfo_nports (update_power env is x) = hwinfo_nports x" "k_num_ports (update_power env is x) = k_num_ports x"
    "port_enabled (port (update_power env is x) q) = port_enabled (port x q)" for "is" x
    using update_power_frame [of x env "is"] by (simp_all add: same_features_def)
  show "feature_loc e p f = None \<Longrightarrow> e' = e \<and> res = (if st then Inl EINVAL else Inr ())"
    using assms by (simp add: set_feature_eq)
  show "res = Inr () \<and>
      (\<forall>a\<in>{8, 80}. regs_virt e' a = (if a = r then (if st then regs_virt e r OR b else regs_virt e r AND NOT b) else regs_virt e a))"
    if "feature_loc e p f = Some (r, b)"
  proof -
    define new where "new = (if st then regs_virt e r OR b else regs_virt e r AND NOT b)"
    have "(res, e') = (Inr (), if regs_virt e r = new then e else update_power env [0..<k_num_ports e] (writel new r e))"
      using assms unfolding set_feature_eq that new_def Let_def by (simp only: option.case prod.case)
    then show ?thesis unfolding new_def [symmetric] by (auto simp: f regs_writel)
  qed
  show "k_caps e' = k_caps e" "k_hw_id e' = k_hw_id e" "hwinfo_nports e' = hwinfo_nports e" "k_num_ports e' = k_num_ports e"
    "port_enabled (port e' q) = port_enabled (port e q)"
    using assms by (auto simp: set_feature_eq Let_def f split: option.splits prod.splits if_split_asm)
qed

lemma feature_loc_same:
  assumes "exanic_set_feature_cfg env e p f st = (res, e')"
  shows "feature_loc e' q g = feature_loc e q g"
  using set_feature_loc(3-5) [OF assms]
  by (cases g) (simp_all add: feature_loc_def ext_mirroring_def EXANIC_MIRRORING_SUPPORT_def EXANIC_BRIDGING_SUPPORT_def)

definition off_card :: kexanic where
  "off_card = demo_card\<lparr>port := (\<lambda>_. demo_port\<lparr>port_power := False, port_enabled := False\<rparr>)\<rparr>"

definition good_phy :: phy_env where
  "good_phy = \<lparr>phy_i2c_ok = (\<lambda>_. True), phy_init_ok = (\<lambda>_. True)\<rparr>"

lemma power_follows_use_witness:
  "\<exists>e. (port_step reliable)\<^sup>*\<^sup>* (probe_features good_phy off_card) e \<and> \<not> port_enabled (port e 1) \<and> port_power (port e 1)"
proof -
  have init: "probe_features good_phy off_card = off_card"
    by (simp add: probe_features_def off_card_def demo_card_def exanic_port_needs_power_def Let_def numeral_2_eq_2)
  obtain res e where set: "exanic_set_feature_cfg good_phy off_card 0 EXANIC_MIRROR_RX True = (res, e)" by fastforce
  have r: "reliable good_phy" by (simp add: reliable_def good_phy_def)
  have steps: "(port_step reliable)\<^sup>*\<^sup>* (probe_features good_phy off_card) e"
    unfolding init by (rule r_into_rtranclp, rule feature_step [where good = reliable, OF _ set], rule r)
  have e: "k_num_ports e = 2" "exanic_port_needs_power e 1" "\<not> port_enabled (port e 1)"
    using set_feature_loc(2) [OF set, of 8 1] set_feature_loc(3-7) [OF set]
    by (simp_all add: feature_loc_def ext_mirroring_def off_card_def demo_card_def EXANIC_MIRRORING_SUPPORT_def
        exanic_port_needs_power_def Let_def port_feature_bits_2port_def)
  have "exanic_port_needs_power e 1 \<longrightarrow> port_power (port e 1)"
    using power_follows_use [OF _ _ _ r steps, of 1] by (simp add: off_card_def demo_card_def e)
  with steps e show ?thesis by blast
qed

subsection \<open>Features\<close>

text \<open>Setting a feature of a port either succeeds, and then reading it back gives the value set,
  or fails with \<open>EINVAL\<close>, which happens exactly when a feature the card does not have is switched
  on, and changes nothing. Features that live in another bit read as before; bridging lives in
  one bit for ports 0 and 1.
\<close>

theorem set_get_feature:
  assumes "exanic_set_feature_cfg env e p f st = (res, e')" "p < EXANIC_MAX_PORTS" "q < EXANIC_MAX_PORTS"
  shows "res = (if fst (exanic_get_feature_cfg e p f) = Inl EINVAL \<and> st then Inl EINVAL else Inr ()) \<and>
    (res = Inr () \<longrightarrow> snd (exanic_get_feature_cfg e' p f) = st) \<and>
    (res \<noteq> Inr () \<longrightarrow> e' = e) \<and>
    (feature_loc e q g \<noteq> feature_loc e p f \<longrightarrow> exanic_get_feature_cfg e' q g = exanic_get_feature_cfg e q g) \<and>
    feature_loc e 0 EXANIC_BRIDGE = feature_loc e 1 EXANIC_BRIDGE"
proof (intro conjI impI)
  note L = set_feature_loc(1,2) [OF assms(1)] and S = feature_loc_same [OF assms(1)]
  have sb: "single_bit b" if "feature_loc e x g = Some (r, b)" "x = p \<or> x = q" for x g r b
    using feature_loc_single [OF that(1)] that(2) assms(2,3) by blast
  show "res = (if fst (exanic_get_feature_cfg e p f) = Inl EINVAL \<and> st then Inl EINVAL else Inr ())" "res \<noteq> Inr () \<Longrightarrow> e' = e"
    using L by (cases "feature_loc e p f"; auto simp: get_feature_loc)+
  show "snd (exanic_get_feature_cfg e' p f) = st" if "res = Inr ()"
  proof (cases "feature_loc e p f")
    case None
    then show ?thesis using L(1) that by (simp add: get_feature_loc split: if_splits)
  next
    case (Some rb)
    obtain r b where rb: "rb = (r, b)" by (cases rb)
    note sets = single_bit_set [OF sb [OF Some [unfolded rb]]]
    have "regs_virt e' r = (if st then regs_virt e r OR b else regs_virt e r AND NOT b)"
      using L(2) [OF Some [unfolded rb]] feature_loc_reg [OF Some [unfolded rb]] by auto
    then show ?thesis using sets by (simp add: get_feature_loc S Some rb)
  qed
  show "exanic_get_feature_cfg e' q g = exanic_get_feature_cfg e q g" if "feature_loc e q g \<noteq> feature_loc e p f"
  proof (cases "feature_loc e q g")
    case (Some sc)
    obtain s c where sc: "sc = (s, c)" by (cases sc)
    have "regs_virt e' s AND c = regs_virt e s AND c"
    proof (cases "feature_loc e p f")
      case None
      then show ?thesis using L(1) by simp
    next
      case (Some rb)
      obtain r b where rb: "rb = (r, b)" by (cases rb)
      have other: "(regs_virt e s OR b) AND c = regs_virt e s AND c" "(regs_virt e s AND NOT b) AND c = regs_virt e s AND c" if "s = r"
        using single_bit_other [OF sb [OF Some [unfolded rb]] sb [OF \<open>feature_loc e q g = Some sc\<close> [unfolded sc]]]
          that \<open>feature_loc e q g \<noteq> _\<close> Some \<open>feature_loc e q g = Some sc\<close> rb sc by auto
      have "regs_virt e' s = (if s = r then (if st then regs_virt e r OR b else regs_virt e r AND NOT b) else regs_virt e s)"
        using L(2) [OF Some [unfolded rb]] feature_loc_reg [OF \<open>feature_loc e q g = Some sc\<close> [unfolded sc]] by auto
      then show ?thesis using other by auto
    qed
    then show ?thesis by (simp add: get_feature_loc S Some sc)
  qed (simp add: get_feature_loc S)
  show "feature_loc e 0 EXANIC_BRIDGE = feature_loc e 1 EXANIC_BRIDGE"
    by (simp add: feature_loc_def ext_mirroring_def)
qed

lemma set_get_feature_witness:
  "\<exists>e'. exanic_set_feature_cfg good_phy off_card 1 EXANIC_BRIDGE True = (Inr (), e') \<and>
     exanic_get_feature_cfg e' 0 EXANIC_MIRROR_TX = exanic_get_feature_cfg off_card 0 EXANIC_MIRROR_TX \<and>
     snd (exanic_get_feature_cfg e' 1 EXANIC_BRIDGE)"
proof -
  obtain res e' where set: "exanic_set_feature_cfg good_phy off_card 1 EXANIC_BRIDGE True = (res, e')" by fastforce
  have f: "feature_loc off_card 1 EXANIC_BRIDGE = Some (8, 0x40)" "feature_loc off_card 0 EXANIC_MIRROR_TX = Some (8, 2)"
    by (simp_all add: feature_loc_def ext_mirroring_def off_card_def demo_card_def EXANIC_BRIDGING_SUPPORT_def EXANIC_MIRRORING_SUPPORT_def)
  have g: "exanic_get_feature_cfg off_card 1 EXANIC_BRIDGE = (Inr (), False)"
    unfolding get_feature_loc f by (simp add: off_card_def demo_card_def)
  have "feature_loc off_card 0 EXANIC_MIRROR_TX \<noteq> feature_loc off_card 1 EXANIC_BRIDGE" unfolding f by simp
  then show ?thesis using set_get_feature [OF set, of 0 EXANIC_MIRROR_TX] set unfolding g by auto
qed

text \<open>
  The result of a power change is not looked at: with a PHY that does not come up, switching a
  feature on succeeds while its port stays off, and the transmitter of the port stays on,
  because a later power-off finds the port already off.
\<close>

lemma feature_without_power:
  assumes "phy_env.phy_init_ok env p = False" "\<not> port_power (port e p)" "p < 16"
    "exanic_set_port_power env e p True = (ok, e1)" "exanic_set_port_power env e1 p False = (ok2, e2)"
  shows "\<not> ok" "\<not> port_power (port e1 p)" "bit (regs_virt e1 (REG_HW_OFFSET REG_HW_POWERDOWN)) (EXANIC_SFP_TXDIS0 + p)" "ok2" "e2 = e1"
  using assms
  by (auto simp: exanic_set_port_power_def exanic_phyops_poweron_def Let_def regs_writel bit_simps split: prod.splits if_splits)

subsection \<open>MAC addresses\<close>

text \<open>The number in the three low bytes of an address.\<close>

definition nic_number :: "bytes \<Rightarrow> nat" where
  "nic_number m = 65536 * unat (m ! 3) + 256 * unat (m ! 4) + unat (m ! 5)"

lemma byte_high_bit: "8 \<le> k \<Longrightarrow> \<not> bit (x :: u8) (k + n)"
  using bit_imp_le_length [of x "k + n"] by auto

lemma mac_word_bytes:
  "ucast (mac_word m AND 0xFF) = m ! 0" "ucast (drop_bit 8 (mac_word m) AND 0xFF) = m ! 1"
  "ucast (drop_bit 16 (mac_word m) AND 0xFF) = m ! 2"
  by (auto intro!: bit_eqI simp: mac_word_def bit_simps byte_high_bit)

lemma byte_less: "unat (b :: u8) < 256"
  using unsigned_less [of b] by simp

lemma unat_low_byte: "unat (ucast w :: u8) = unat (w :: u32) mod 256"
  by (simp add: unsigned_ucast_eq take_bit_eq_mod)

lemma unat_drop: "unat (drop_bit 8 w) = unat (w :: u32) div 256" "unat (drop_bit 16 w) = unat (w :: u32) div 65536"
  by (simp_all add: drop_bit_eq_div unat_div)

lemma nic_word:
  "unat (push_bit 16 (ucast a) OR push_bit 8 (ucast b) OR ucast c :: u32) = 65536 * unat (a :: u8) + 256 * unat (b :: u8) + unat (c :: u8)"
proof -
  have "push_bit 16 (ucast a) OR push_bit 8 (ucast b) OR ucast c = push_bit 16 (ucast a) + (push_bit 8 (ucast b) + ucast c :: u32)"
    by (subst disjunctive_add, auto simp: bit_simps dest: bit_imp_le_length)+
  also have "unat \<dots> = 65536 * unat a + 256 * unat b + unat c"
  proof -
    note byte_less [of a] byte_less [of b] byte_less [of c]
    moreover from this have "take_bit 32 (unat a) = unat a" "take_bit 32 (unat b) = unat b" "take_bit 32 (unat c) = unat c"
      by (simp_all add: take_bit_nat_eq_self)
    ultimately show ?thesis
      by (simp add: push_bit_eq_mult unat_word_ariths unsigned_ucast_eq)
  qed
  finally show ?thesis .
qed

lemma inc_mac_addr_nic:
  assumes "length m = 6"
  shows "length (inc_mac_addr m k) = 6" "take 3 (inc_mac_addr m k) = take 3 m"
    "nic_number (inc_mac_addr m k) = (nic_number m + unat k) mod 2 ^ 24"
proof -
  show "length (inc_mac_addr m k) = 6" "take 3 (inc_mac_addr m k) = take 3 m"
    using assms by (simp_all add: inc_mac_addr_def Let_def)
  define w where "w = (push_bit 16 (ucast (m ! 3)) OR push_bit 8 (ucast (m ! 4)) OR ucast (m ! 5)) + k"
  have w: "unat w = (nic_number m + unat k) mod 2 ^ 32"
    by (simp add: w_def unat_word_ariths nic_word nic_number_def)
  have "nic_number (inc_mac_addr m k) = 65536 * (unat w div 65536 mod 256) + 256 * (unat w div 256 mod 256) + unat w mod 256"
    using assms
    by (simp add: inc_mac_addr_def Let_def nic_number_def flip: w_def)
      (simp add: unat_low_byte unat_drop)
  also have "\<dots> = unat w mod 2 ^ 24"
    using mod_mult2_eq [of "unat w" 256 65536] mod_mult2_eq [of "unat w div 256" 256 256]
    by (simp add: div_mult2_eq [symmetric])
  also have "\<dots> = (nic_number m + unat k) mod 2 ^ 24" unfolding w by (simp add: mod_mod_cancel)
  finally show "nic_number (inc_mac_addr m k) = (nic_number m + unat k) mod 2 ^ 24" .
qed

lemma set_get_mac:
  assumes "length m = 6"
  shows "exanic_get_mac_addr_regs (exanic_set_mac_addr_regs e p m) p = m"
    "p < 16 \<Longrightarrow> q < 16 \<Longrightarrow> q \<noteq> p \<Longrightarrow>
      exanic_get_mac_addr_regs (exanic_set_mac_addr_regs e p m) q = exanic_get_mac_addr_regs e q"
proof -
  have r: "REG_PORT_OFFSET p 3 \<noteq> REG_PORT_OFFSET p 12" by (simp add: REG_PORT_OFFSET_def)
  obtain m0 m1 m2 m3 m4 m5 where m: "m = [m0, m1, m2, m3, m4, m5]"
    using assms by (auto simp: numeral_eq_Suc length_Suc_conv)
  show "exanic_get_mac_addr_regs (exanic_set_mac_addr_regs e p m) p = m"
    using r mac_word_bytes [of m] mac_word_bytes [of "drop 3 m"]
    by (simp add: exanic_get_mac_addr_regs_def exanic_set_mac_addr_regs_def regs_writel Let_def m numeral_2_eq_2)
  show "exanic_get_mac_addr_regs (exanic_set_mac_addr_regs e p m) q = exanic_get_mac_addr_regs e q"
    if "p < 16" "q < 16" "q \<noteq> p"
  proof -
    have "REG_PORT_OFFSET q x \<noteq> REG_PORT_OFFSET p y" if "x < 16" "y < 16" for x y
      using that \<open>p < 16\<close> \<open>q < 16\<close> \<open>q \<noteq> p\<close> by (auto simp: REG_PORT_OFFSET_def split: if_splits)
    then show ?thesis by (simp add: exanic_get_mac_addr_regs_def exanic_set_mac_addr_regs_def regs_writel)
  qed
qed

lemma probe_macs_other:
  "length m = 6 \<Longrightarrow> set ps \<subseteq> {..<16} \<Longrightarrow> q \<notin> set ps \<Longrightarrow> q < 16 \<Longrightarrow>
    exanic_get_mac_addr_regs (probe_macs ps m e) q = exanic_get_mac_addr_regs e q"
  by (induction ps arbitrary: m e) (simp_all add: inc_mac_addr_nic set_get_mac(2))

lemma probe_macs_nth:
  assumes "length m = 6" "i < k" "j + k \<le> 16"
  shows "length (exanic_get_mac_addr_regs (probe_macs [j..<j + k] m e) (j + i)) = 6 \<and>
    take 3 (exanic_get_mac_addr_regs (probe_macs [j..<j + k] m e) (j + i)) = take 3 m \<and>
    nic_number (exanic_get_mac_addr_regs (probe_macs [j..<j + k] m e) (j + i)) = (nic_number m + i) mod 2 ^ 24"
  using assms
proof (induction k arbitrary: i j m e)
  case (Suc k)
  note inc = inc_mac_addr_nic [OF Suc.prems(1), of 1]
  have up: "[j..<j + Suc k] = j # [Suc j..<Suc j + k]" by (simp add: upt_conv_Cons)
  show ?case
  proof (cases i)
    case 0
    have "nic_number m < 2 ^ 24"
      using byte_less [of "m ! 3"] byte_less [of "m ! 4"] byte_less [of "m ! 5"]
      unfolding nic_number_def by simp
    moreover have "exanic_get_mac_addr_regs (probe_macs [j..<j + Suc k] m e) j = m"
    proof -
      have sub: "set [Suc j..<Suc j + k] \<subseteq> {..<16}" "j \<notin> set [Suc j..<Suc j + k]" using Suc.prems(3) by auto
      show ?thesis unfolding up using probe_macs_other [OF inc(1) sub, of "exanic_set_mac_addr_regs e j m"] Suc.prems
        by (simp only: probe_macs.simps) (simp add: set_get_mac(1))
    qed
    ultimately show ?thesis using Suc.prems(1) 0 by simp
  next
    case (Suc i')
    have "(x mod 16777216 + i') mod 16777216 = (x + i') mod 16777216" for x :: nat by (rule mod_add_left_eq)
    then show ?thesis
      unfolding up using Suc.IH [OF inc(1), of i' "Suc j" "exanic_set_mac_addr_regs e j m"] Suc.prems inc(2,3) Suc
      by simp
  qed
qed simp

lemma word_offset: "4 * (REG_PORT_OFFSET p r div 4) = REG_PORT_OFFSET p r"
  by (simp add: REG_PORT_OFFSET_def)

text \<open>The probe gives the ports of a card consecutive addresses: port \<open>p\<close> has the base address
  plus \<open>p\<close>, modulo \<open>2 ^ 24\<close> in the last three bytes, with the vendor bytes unchanged, so no two
  ports share an address. The library reads the same address from the mapped registers.
\<close>

theorem mac_addresses_consecutive:
  assumes "length m = 6" "n \<le> EXANIC_MAX_PORTS" "p < n" "q < n" "e' = probe_macs [0..<n] m e"
    and "registers ex = (\<lambda>i. regs_virt e' (4 * i))"
    and "check_network_interface ex = Inr ()" "check_port_rx_usable ex (int p) = Inr ()"
  shows "take 3 (exanic_get_mac_addr_regs e' p) = take 3 m \<and>
    nic_number (exanic_get_mac_addr_regs e' p) = (nic_number m + p) mod 2 ^ 24 \<and>
    (exanic_get_mac_addr_regs e' p = exanic_get_mac_addr_regs e' q \<longleftrightarrow> p = q) \<and>
    exanic_get_mac_addr ex (int p) = Inr (exanic_get_mac_addr_regs e' p)"
proof (intro conjI)
  note P = probe_macs_nth [OF assms(1), of _ n 0 e, simplified, folded assms(5)]
  show "take 3 (exanic_get_mac_addr_regs e' p) = take 3 m"
    "nic_number (exanic_get_mac_addr_regs e' p) = (nic_number m + p) mod 2 ^ 24"
    using P [of p] assms(2,3) by simp_all
  have less: "a = b" if "(x + b) mod 16777216 = (x + a) mod 16777216" "a \<le> b" "b < 16777216" for a b x :: nat
    using that mod_eq_dvd_iff_nat [of "x + a" "x + b" 16777216] by (auto dest: dvd_imp_le)
  have "p = q" if "(x + p) mod 16777216 = (x + q) mod 16777216" for x
    using less [of x q p] less [of x p q] that assms(2-4) by (cases "p \<le> q") auto
  then show "exanic_get_mac_addr_regs e' p = exanic_get_mac_addr_regs e' q \<longleftrightarrow> p = q"
    using P [of p] P [of q] assms(2-4) by metis
  show "exanic_get_mac_addr ex (int p) = Inr (exanic_get_mac_addr_regs e' p)"
    using assms(6-8)
    by (simp add: exanic_get_mac_addr_def exanic_get_mac_addr_regs_def port_reg_def REG_PORT_INDEX_def le_byte_def Let_def word_offset)
qed

definition mac_handle :: "kexanic \<Rightarrow> exanic_t" where
  "mac_handle e = \<lparr>registers = (\<lambda>i. regs_virt e (4 * i)), num_ports = 2, tick_hz = 0, caps = 0,
     max_filter_buffers = 0, info_page_hw_time = None\<rparr>"

lemma mac_addresses_consecutive_witness:
  "let e = probe_macs [0..<2] [0x64, 0x3F, 0x5F, 1, 0xFF, 0xFF] demo_card
   in exanic_get_mac_addr (mac_handle e) 1 = Inr (exanic_get_mac_addr_regs e 1) \<and>
      exanic_get_mac_addr_regs e 0 \<noteq> exanic_get_mac_addr_regs e 1"
proof -
  define e where "e = probe_macs [0..<2] [0x64, 0x3F, 0x5F, 1, 0xFF, 0xFF] demo_card"
  have r: "regs_virt e (REG_PORT_OFFSET 1 2) = 0" "regs_virt e 32 = 0"
    by (simp_all add: e_def numeral_2_eq_2 exanic_set_mac_addr_regs_def regs_writel demo_card_def REG_PORT_OFFSET_def)
  have ok: "check_network_interface (mac_handle e) = Inr ()" "check_port_rx_usable (mac_handle e) (int 1) = Inr ()"
    using r by (simp_all add: check_network_interface_def exanic_get_function_id_def check_port_rx_usable_def port_reg_def
        mac_handle_def REG_EXANIC_INDEX_def REG_PORT_INDEX_def word_offset)
  have "registers (mac_handle e) = (\<lambda>i. regs_virt e (4 * i))" by (simp add: mac_handle_def)
  from mac_addresses_consecutive [OF _ _ _ _ e_def this ok, of 0] show ?thesis
    by (auto simp flip: e_def)
qed

subsection \<open>Counting ports and devices\<close>

text \<open>The ports are the implemented ones below the first port that is not implemented.\<close>

lemma count_ports_spec:
  "i \<le> count_ports e k i \<and> count_ports e k i \<le> i + k \<and>
   (\<forall>q. i \<le> q \<and> q < count_ports e k i \<longrightarrow>
      regs_virt e (REG_PORT_OFFSET q REG_PORT_STATUS) AND EXANIC_PORT_NOT_IMPLEMENTED = 0) \<and>
   (count_ports e k i < i + k \<longrightarrow>
      regs_virt e (REG_PORT_OFFSET (count_ports e k i) REG_PORT_STATUS) AND EXANIC_PORT_NOT_IMPLEMENTED \<noteq> 0)"
proof (induction k arbitrary: i)
  case (Suc k)
  have "i \<le> q \<longleftrightarrow> q = i \<or> Suc i \<le> q" for q by auto
  with Suc.IH [of "Suc i"] show ?case by (auto simp del: and_numerals)
qed auto

lemma get_num_ports_bounds:
  "kexanic_get_num_ports e \<le> EXANIC_MAX_PORTS" "kexanic_get_num_ports e \<le> port_limit e"
  using count_ports_spec [of 0 e "min EXANIC_MAX_PORTS (port_limit e)"]
  by (auto simp: kexanic_get_num_ports_def)

text \<open>A new device gets the least number no other device has.\<close>

lemma get_id_least:
  "exanic_get_id ids i \<notin> set ids \<and> i \<le> exanic_get_id ids i \<and> (\<forall>j. i \<le> j \<and> j < exanic_get_id ids i \<longrightarrow> j \<in> set ids)"
proof (induction ids i rule: exanic_get_id.induct)
  case (1 ids i)
  show ?case
  proof (cases "i \<in> set ids")
    case True
    then have "exanic_get_id ids i = exanic_get_id ids (i + 1)" by (simp add: exanic_get_id.simps [of ids i])
    with 1 [OF True] True show ?thesis by (auto simp: Suc_le_eq) (metis le_neq_implies_less)
  next
    case False
    then have "exanic_get_id ids i = i" by (simp add: exanic_get_id.simps [of ids i])
    with False show ?thesis by auto
  qed
qed

end
