(* ===== verification/KAte.thy ===== *)
theory KAte
  imports KPortProps Checksum
begin

text \<open>
  The accelerated TCP engines of a port, \<open>modules/exanic/exanic-ate.c\<close>: who owns an engine,
  handing a connection over to it, and updating its acknowledgement and window while it runs.
  The writes of an operation are kept as the list of registers and values in program order,
  so that the state the engine sees between two writes can be stated.
\<close>

abbreviation (input) "EXANIC_ATE_ENGINES_PER_PORT \<equiv> 512 :: nat"
abbreviation (input) "REG_ATE_DMAC_HI \<equiv> 0 :: nat"
abbreviation (input) "REG_ATE_DMAC_HI_SMAC_LO \<equiv> 4 :: nat"
abbreviation (input) "REG_ATE_SMAC_LO \<equiv> 8 :: nat"
abbreviation (input) "REG_ATE_PART_CSUM \<equiv> 12 :: nat"
abbreviation (input) "REG_ATE_SRC_IP \<equiv> 16 :: nat"
abbreviation (input) "REG_ATE_DST_IP \<equiv> 20 :: nat"
abbreviation (input) "REG_ATE_SRC_DST_PORT \<equiv> 24 :: nat"
abbreviation (input) "REG_ATE_SEQ \<equiv> 28 :: nat"
abbreviation (input) "REG_ATE_ACK \<equiv> 32 :: nat"
abbreviation (input) "REG_ATE_WINDOW \<equiv> 36 :: nat"
abbreviation (input) "REG_ATE_ACK_2 \<equiv> 40 :: nat"
abbreviation (input) "REG_ATE_WINDOW_2 \<equiv> 44 :: nat"
abbreviation (input) "REG_ATE_CTL \<equiv> 48 :: nat"
abbreviation (input) "REG_ATE_MAX_SEQ \<equiv> 52 :: nat"
abbreviation (input) "REG_ATE_CTL_ENABLE \<equiv> 1 :: u32"
abbreviation (input) "REG_ATE_CTL_CHECK_MAX_SEQ \<equiv> 2 :: u32"
abbreviation (input) "REG_ATE_CTL_ACK_WIN_SEL \<equiv> 4 :: u32"

definition REG_ATE_OFFSET :: "nat \<Rightarrow> nat \<Rightarrow> nat \<Rightarrow> nat" where
  "REG_ATE_OFFSET p ate_id reg = 0x40000 + ((push_bit 15 p OR push_bit 6 ate_id) OR reg)"

record exanic_ate_cfg =
  eth_dst :: bytes
  eth_src :: bytes
  ip_dst :: u32
  ip_src :: u32
  port_dst :: u16
  port_src :: u16
  init_seq_num :: u32
  max_seq_num :: u32
  ack_num :: u32
  window :: u16
  win_limit_disabled :: bool

record ate_update_t =
  upd_max_seq_num :: u32
  upd_ack_num :: u32
  upd_window :: u16

record ate_regdump_t =
  ack :: u32
  ack2 :: u32
  win :: u32
  win2 :: u32
  ctrl :: u32
  seq :: u32

definition htons :: "u16 \<Rightarrow> u16" where
  "htons w = push_bit 8 w OR drop_bit 8 w"

definition htonl :: "u32 \<Rightarrow> u32" where
  "htonl w = push_bit 24 w OR push_bit 8 (w AND 0xFF00) OR drop_bit 8 (w AND 0xFF0000) OR drop_bit 24 w"

definition CONVERT_HW_WINDOW :: "u16 \<Rightarrow> u32" where
  "CONVERT_HW_WINDOW sz = push_bit 16 (ucast (htons sz))"

subsection \<open>Owning an engine\<close>

definition exanic_ate_available :: "kexanic \<Rightarrow> nat \<Rightarrow> bool" where
  "exanic_ate_available e p = has_ate (port e p)"

text \<open>The semaphores of the engines are counts. The engine number is an \<open>int\<close>; a negative number passes the test and indexes outside the array.\<close>

definition exanic_ate_acquire :: "kexanic \<Rightarrow> nat \<Rightarrow> int \<Rightarrow> ((kerr + unit) \<times> kexanic) option" where
  "exanic_ate_acquire e p ate_id =
     (if int EXANIC_ATE_ENGINES_PER_PORT \<le> ate_id then Some (Inl EINVAL, e)
      else if \<not> devkit_regs_virt e then Some (Inl EOPNOTSUPP, e)
      else if \<not> exanic_ate_available e p then Some (Inl EOPNOTSUPP, e)
      else if ate_id < 0 then None
      else if ate_lockbox (port e p) ! nat ate_id = 0 then Some (Inl EBUSY, e)
      else Some (Inr (), set_port p ((port e p)\<lparr>ate_lockbox := (ate_lockbox (port e p))[nat ate_id := ate_lockbox (port e p) ! nat ate_id - 1]\<rparr>) e))"

definition exanic_ate_release :: "kexanic \<Rightarrow> nat \<Rightarrow> int \<Rightarrow> kexanic option" where
  "exanic_ate_release e p ate_id =
     (if int EXANIC_ATE_ENGINES_PER_PORT \<le> ate_id then Some e
      else if ate_id < 0 then None
      else Some (set_port p ((port e p)\<lparr>ate_lockbox := (ate_lockbox (port e p))[nat ate_id := ate_lockbox (port e p) ! nat ate_id + 1]\<rparr>) e))"

subsection \<open>Register programs\<close>

fun run_writes :: "(nat \<times> u32) list \<Rightarrow> kexanic \<Rightarrow> kexanic" where
  "run_writes [] e = e"
| "run_writes ((off, v) # ws) e = run_writes ws (writel v off e)"

definition ate_reg :: "kexanic \<Rightarrow> nat \<Rightarrow> nat \<Rightarrow> nat \<Rightarrow> u32" where
  "ate_reg e p ate_id reg = regs_virt e (REG_ATE_OFFSET p ate_id reg)"

definition exanic_ate_disable :: "kexanic \<Rightarrow> nat \<Rightarrow> nat \<Rightarrow> kexanic" where
  "exanic_ate_disable e p ate_id =
     (if EXANIC_ATE_ENGINES_PER_PORT \<le> ate_id then e
      else writel (ate_reg e p ate_id REG_ATE_CTL AND NOT REG_ATE_CTL_ENABLE) (REG_ATE_OFFSET p ate_id REG_ATE_CTL) e)"

definition bytes_of :: "u32 \<Rightarrow> bytes" where
  "bytes_of w = [ucast w, ucast (drop_bit 8 w), ucast (drop_bit 16 w), ucast (drop_bit 24 w)]"

definition four :: "u8 \<Rightarrow> u8 \<Rightarrow> u8 \<Rightarrow> u8 \<Rightarrow> u32" where
  "four a b c d = ucast a OR push_bit 8 (ucast b) OR push_bit 16 (ucast c) OR push_bit 24 (ucast d)"

definition ate_csum_ip :: "exanic_ate_cfg \<Rightarrow> u16" where
  "ate_csum_ip cfg = csum (bytes_of (htonl (ip_src cfg)) @ bytes_of (htonl (ip_dst cfg))) 0xc506"

definition ate_csum_tcp :: "exanic_ate_cfg \<Rightarrow> u16" where
  "ate_csum_tcp cfg =
     csum (bytes_of (htonl (ip_src cfg)) @ bytes_of (htonl (ip_dst cfg)) @
       bytes_of (push_bit 16 (ucast (htons (port_src cfg))) OR ucast (htons (port_dst cfg)))) 0x501a"

definition ate_init_writes :: "nat \<Rightarrow> nat \<Rightarrow> exanic_ate_cfg \<Rightarrow> (nat \<times> u32) list" where
  "ate_init_writes p ate_id cfg = map (\<lambda>(r, v). (REG_ATE_OFFSET p ate_id r, v))
     [(REG_ATE_DMAC_HI, four (eth_dst cfg ! 0) (eth_dst cfg ! 1) (eth_dst cfg ! 2) (eth_dst cfg ! 3)),
      (REG_ATE_DMAC_HI_SMAC_LO, four (eth_dst cfg ! 4) (eth_dst cfg ! 5) (eth_src cfg ! 0) (eth_src cfg ! 1)),
      (REG_ATE_SMAC_LO, four (eth_src cfg ! 2) (eth_src cfg ! 3) (eth_src cfg ! 4) (eth_src cfg ! 5)),
      (REG_ATE_PART_CSUM, push_bit 16 (ucast (ate_csum_tcp cfg)) OR ucast (ate_csum_ip cfg)),
      (REG_ATE_SRC_IP, ip_src cfg), (REG_ATE_DST_IP, ip_dst cfg),
      (REG_ATE_SRC_DST_PORT, push_bit 16 (ucast (port_dst cfg)) OR ucast (port_src cfg)),
      (REG_ATE_SEQ, init_seq_num cfg), (REG_ATE_ACK, ack_num cfg),
      (REG_ATE_WINDOW, CONVERT_HW_WINDOW (window cfg)),
      (REG_ATE_ACK_2, ack_num cfg), (REG_ATE_WINDOW_2, CONVERT_HW_WINDOW (window cfg)),
      (REG_ATE_MAX_SEQ, max_seq_num cfg),
      (REG_ATE_CTL, if win_limit_disabled cfg then REG_ATE_CTL_ENABLE else REG_ATE_CTL_ENABLE OR REG_ATE_CTL_CHECK_MAX_SEQ)]"

definition exanic_ate_init :: "kexanic \<Rightarrow> nat \<Rightarrow> nat \<Rightarrow> exanic_ate_cfg \<Rightarrow> (kerr + unit) \<times> kexanic" where
  "exanic_ate_init e p ate_id cfg =
     (if \<not> devkit_regs_virt e then (Inl EOPNOTSUPP, e)
      else (Inr (), run_writes (ate_init_writes p ate_id cfg) e))"

definition ate_update_writes :: "u32 \<Rightarrow> nat \<Rightarrow> nat \<Rightarrow> ate_update_t \<Rightarrow> (nat \<times> u32) list" where
  "ate_update_writes ctl p ate_id cfg = map (\<lambda>(r, v). (REG_ATE_OFFSET p ate_id r, v))
     ((if ctl AND REG_ATE_CTL_ACK_WIN_SEL = 0
       then [(REG_ATE_ACK_2, upd_ack_num cfg), (REG_ATE_WINDOW_2, CONVERT_HW_WINDOW (upd_window cfg)),
             (REG_ATE_CTL, ctl OR REG_ATE_CTL_ACK_WIN_SEL)]
       else [(REG_ATE_ACK, upd_ack_num cfg), (REG_ATE_WINDOW, CONVERT_HW_WINDOW (upd_window cfg)),
             (REG_ATE_CTL, ctl AND NOT REG_ATE_CTL_ACK_WIN_SEL)])
      @ [(REG_ATE_MAX_SEQ, upd_max_seq_num cfg)])"

definition exanic_ate_update :: "kexanic \<Rightarrow> nat \<Rightarrow> nat \<Rightarrow> ate_update_t \<Rightarrow> (kerr + unit) \<times> kexanic" where
  "exanic_ate_update e p ate_id cfg =
     (if \<not> devkit_mem_virt e then (Inl EOPNOTSUPP, e)
      else (Inr (), run_writes (ate_update_writes (ate_reg e p ate_id REG_ATE_CTL) p ate_id cfg) e))"

definition exanic_ate_read_seq :: "kexanic \<Rightarrow> nat \<Rightarrow> nat \<Rightarrow> u32" where
  "exanic_ate_read_seq e p ate_id = ate_reg e p ate_id REG_ATE_SEQ"

definition exanic_ate_regdump :: "kexanic \<Rightarrow> nat \<Rightarrow> nat \<Rightarrow> ate_regdump_t" where
  "exanic_ate_regdump e p ate_id =
     \<lparr>ack = ate_reg e p ate_id REG_ATE_ACK, ack2 = ate_reg e p ate_id REG_ATE_ACK_2,
      win = ate_reg e p ate_id REG_ATE_WINDOW, win2 = ate_reg e p ate_id REG_ATE_WINDOW_2,
      ctrl = ate_reg e p ate_id REG_ATE_CTL, seq = exanic_ate_read_seq e p ate_id\<rparr>"

subsection \<open>The client of the engines\<close>

text \<open>One callback at most; callbacks are numbered, \<open>None\<close> is \<open>NULL\<close>.\<close>

definition exanic_ate_client_register :: "nat option \<Rightarrow> nat \<Rightarrow> (kerr + unit) \<times> nat option" where
  "exanic_ate_client_register client cb =
     (case client of Some _ \<Rightarrow> (Inl EBUSY, client) | None \<Rightarrow> (Inr (), Some cb))"

definition exanic_ate_client_unregister :: "nat option \<Rightarrow> nat \<Rightarrow> nat option" where
  "exanic_ate_client_unregister client cb = (if client \<noteq> Some cb then client else None)"

definition exanic_ate_deliver_skb :: "nat option \<Rightarrow> 'skb \<Rightarrow> (nat \<times> 'skb) list" where
  "exanic_ate_deliver_skb client skb = (case client of None \<Rightarrow> [] | Some cb \<Rightarrow> [(cb, skb)])"

subsection \<open>Registers of an engine\<close>

lemma or_low_bits:
  assumes "b < 2 ^ k"
  shows "push_bit k a OR b = push_bit k a + (b :: nat)"
proof -
  have "take_bit k b = b" using assms by (simp add: take_bit_nat_eq_self)
  then have "\<not> bit b n" if "k \<le> n" for n using that by (metis bit_take_bit_iff not_less)
  then have "push_bit k a AND b = 0" by (intro bit_eqI) (auto simp: bit_simps)
  then show ?thesis by (simp add: disjunctive_add_eq_or)
qed

lemma ate_offset:
  assumes "ate_id < 512" "reg < 64"
  shows "REG_ATE_OFFSET p ate_id reg = 0x40000 + (32768 * p + 64 * ate_id + reg)"
proof -
  have "push_bit 15 p OR push_bit 6 ate_id = push_bit 6 (push_bit 9 p + ate_id)"
    using or_low_bits [of "push_bit 6 ate_id" 15 p] assms(1) by (simp add: push_bit_eq_mult)
  with or_low_bits [of reg 6 "push_bit 9 p + ate_id"] assms(2) show ?thesis
    by (simp add: REG_ATE_OFFSET_def push_bit_eq_mult)
qed

lemma ate_offset_eq:
  "ate_id < 512 \<Longrightarrow> r < 64 \<Longrightarrow> s < 64 \<Longrightarrow> REG_ATE_OFFSET p ate_id r = REG_ATE_OFFSET p ate_id s \<longleftrightarrow> r = s"
  by (simp add: ate_offset)

text \<open>The acknowledgement and window the engine uses at a moment.\<close>

definition ate_selected :: "kexanic \<Rightarrow> nat \<Rightarrow> nat \<Rightarrow> u32 \<times> u32" where
  "ate_selected e p ate_id =
     (if ate_reg e p ate_id REG_ATE_CTL AND REG_ATE_CTL_ACK_WIN_SEL = 0
      then (ate_reg e p ate_id REG_ATE_ACK, ate_reg e p ate_id REG_ATE_WINDOW)
      else (ate_reg e p ate_id REG_ATE_ACK_2, ate_reg e p ate_id REG_ATE_WINDOW_2))"

definition ate_enabled :: "kexanic \<Rightarrow> nat \<Rightarrow> nat \<Rightarrow> bool" where
  "ate_enabled e p ate_id \<longleftrightarrow> ate_reg e p ate_id REG_ATE_CTL AND REG_ATE_CTL_ENABLE \<noteq> 0"

lemma sel_bits:
  "(c OR 4) AND 4 \<noteq> 0" "((c :: u32) AND NOT 4) AND 4 = 0"
  "((c :: u32) OR 4) AND 1 = c AND 1" "((c :: u32) AND NOT 4) AND 1 = c AND 1"
proof -
  have s: "single_bit 4" "single_bit 1"
    unfolding single_bit_def by (rule exI [of _ 2], simp) (rule exI [of _ 0], simp)
  show "(c OR 4) AND 4 \<noteq> 0" "(c AND NOT 4) AND 4 = 0" "(c OR 4) AND 1 = c AND 1" "(c AND NOT 4) AND 1 = c AND 1"
    using single_bit_set [OF s(1), of c] single_bit_other [OF s, of c] by simp_all
qed

lemma all_take_4: "P [] \<Longrightarrow> P [a] \<Longrightarrow> P [a, b] \<Longrightarrow> P [a, b, c] \<Longrightarrow> P [a, b, c, d] \<Longrightarrow> P (take n [a, b, c, d])"
  by (auto simp: take_Cons split: nat.split)

lemma ate_reg_writel:
  "ate_id < 512 \<Longrightarrow> r < 64 \<Longrightarrow> s < 64 \<Longrightarrow>
    ate_reg (writel v (REG_ATE_OFFSET p ate_id s) e) p ate_id r = (if r = s then v else ate_reg e p ate_id r)"
  by (simp add: ate_reg_def regs_writel ate_offset_eq)

text \<open>
  C29. Updating a running engine never shows it half an update: after any number of the writes
  the acknowledgement and window it uses are the old pair or the new pair, and it stays enabled
  or disabled as it was; at the end it uses the new pair and the new limit, and its own
  sequence number has not been touched.
\<close>

theorem ate_update_atomic:
  assumes "exanic_ate_update e p ate_id cfg = (Inr (), e')" "ate_id < EXANIC_ATE_ENGINES_PER_PORT"
  shows "(\<forall>n. let s = run_writes (take n (ate_update_writes (ate_reg e p ate_id REG_ATE_CTL) p ate_id cfg)) e in
      ate_selected s p ate_id \<in> {ate_selected e p ate_id, (upd_ack_num cfg, CONVERT_HW_WINDOW (upd_window cfg))} \<and>
      ate_enabled s p ate_id = ate_enabled e p ate_id) \<and>
    ate_selected e' p ate_id = (upd_ack_num cfg, CONVERT_HW_WINDOW (upd_window cfg)) \<and>
    ate_reg e' p ate_id REG_ATE_MAX_SEQ = upd_max_seq_num cfg \<and>
    ate_reg e' p ate_id REG_ATE_SEQ = ate_reg e p ate_id REG_ATE_SEQ"
proof (intro conjI allI)
  define ctl where "ctl = ate_reg e p ate_id REG_ATE_CTL"
  note sel = sel_bits [of ctl]
  have e': "e' = run_writes (ate_update_writes ctl p ate_id cfg) e"
    using assms(1) by (simp add: exanic_ate_update_def ctl_def split: if_splits)
  note defs = ate_update_writes_def ate_selected_def ate_enabled_def ate_reg_writel [OF assms(2)] Let_def
  show "ate_selected e' p ate_id = (upd_ack_num cfg, CONVERT_HW_WINDOW (upd_window cfg))"
    "ate_reg e' p ate_id REG_ATE_MAX_SEQ = upd_max_seq_num cfg"
    "ate_reg e' p ate_id REG_ATE_SEQ = ate_reg e p ate_id REG_ATE_SEQ"
    unfolding e' using sel by (simp_all add: defs)
  show "let s = run_writes (take n (ate_update_writes (ate_reg e p ate_id REG_ATE_CTL) p ate_id cfg)) e in
      ate_selected s p ate_id \<in> {ate_selected e p ate_id, (upd_ack_num cfg, CONVERT_HW_WINDOW (upd_window cfg))} \<and>
      ate_enabled s p ate_id = ate_enabled e p ate_id" for n
    unfolding ctl_def [symmetric]
  proof (cases "ctl AND REG_ATE_CTL_ACK_WIN_SEL = 0")
    case True
    then show "let s = run_writes (take n (ate_update_writes ctl p ate_id cfg)) e in
      ate_selected s p ate_id \<in> {ate_selected e p ate_id, (upd_ack_num cfg, CONVERT_HW_WINDOW (upd_window cfg))} \<and>
      ate_enabled s p ate_id = ate_enabled e p ate_id"
      using sel unfolding ate_update_writes_def
      by simp (rule all_take_4; simp add: defs flip: ctl_def)
  next
    case False
    then show "let s = run_writes (take n (ate_update_writes ctl p ate_id cfg)) e in
      ate_selected s p ate_id \<in> {ate_selected e p ate_id, (upd_ack_num cfg, CONVERT_HW_WINDOW (upd_window cfg))} \<and>
      ate_enabled s p ate_id = ate_enabled e p ate_id"
      using sel unfolding ate_update_writes_def
      by simp (rule all_take_4; simp add: defs flip: ctl_def)
  qed
qed

definition demo_update :: ate_update_t where
  "demo_update = \<lparr>upd_max_seq_num = 9000, upd_ack_num = 77, upd_window = 0x1234\<rparr>"

lemma ate_update_atomic_witness:
  "\<exists>e'. exanic_ate_update demo_card 1 3 demo_update = (Inr (), e') \<and> ate_selected e' 1 3 = (77, 0x34120000)"
proof -
  obtain e' where 1: "exanic_ate_update demo_card 1 3 demo_update = (Inr (), e')"
    by (simp add: exanic_ate_update_def demo_card_def)
  have "CONVERT_HW_WINDOW 0x1234 = 0x34120000" by (simp add: CONVERT_HW_WINDOW_def htons_def)
  then show ?thesis using 1 ate_update_atomic [OF 1] by (simp add: demo_update_def)
qed

subsection \<open>Handing a connection over\<close>

lemma run_writes_other: "off \<notin> fst ` set ws \<Longrightarrow> regs_virt (run_writes ws e) off = regs_virt e off"
  by (induction ws e rule: run_writes.induct) (auto simp: regs_writel)

lemma csum_seed:
  assumes "length bs < 2 ^ 16" "unat s < 2 ^ 32"
  shows "ones_complement_of (unat s + word_sum bs) (csum bs s)"
proof -
  have "(length bs + 1) div 2 \<le> 2 ^ 16" using assms(1) by linarith
  then have "word_sum bs \<le> 65535 * 2 ^ 16" using word_sum_bound [of bs] by linarith
  then have "unat (csum_part bs s) = unat s + word_sum bs" using assms(2) by (intro csum_part_sum) simp
  then show ?thesis using csum_pack_ones_complement [of "csum_part bs s"] by (simp add: csum_def)
qed

lemma ate_init_ctl_last:
  "ate_init_writes p ate_id cfg = butlast (ate_init_writes p ate_id cfg) @ [last (ate_init_writes p ate_id cfg)]"
  "ate_id < 512 \<Longrightarrow> REG_ATE_OFFSET p ate_id REG_ATE_CTL \<notin> fst ` set (butlast (ate_init_writes p ate_id cfg))"
  by (auto simp: ate_init_writes_def ate_offset)

text \<open>Handing a connection over writes the control register last: a disabled engine stays
  disabled until every other register holds the new connection, whose partial checksum
  register holds the ones' complement sums of the addresses and ports over the constant part
  of the headers.
\<close>

theorem ate_init_enables_last:
  assumes "exanic_ate_init e p ate_id cfg = (Inr (), e')" "ate_id < EXANIC_ATE_ENGINES_PER_PORT" "\<not> ate_enabled e p ate_id"
  shows "(\<forall>n<length (ate_init_writes p ate_id cfg). \<not> ate_enabled (run_writes (take n (ate_init_writes p ate_id cfg)) e) p ate_id) \<and>
    ate_enabled e' p ate_id \<and>
    ate_selected e' p ate_id = (ack_num cfg, CONVERT_HW_WINDOW (window cfg)) \<and>
    exanic_ate_read_seq e' p ate_id = init_seq_num cfg \<and> ate_reg e' p ate_id REG_ATE_MAX_SEQ = max_seq_num cfg \<and>
    (ate_reg e' p ate_id REG_ATE_CTL AND REG_ATE_CTL_CHECK_MAX_SEQ = 0 \<longleftrightarrow> win_limit_disabled cfg) \<and>
    ones_complement_of (0xc506 + word_sum (bytes_of (htonl (ip_src cfg)) @ bytes_of (htonl (ip_dst cfg))))
      (ucast (ate_reg e' p ate_id REG_ATE_PART_CSUM))"
proof (intro conjI allI impI)
  let ?ws = "ate_init_writes p ate_id cfg"
  have e': "e' = run_writes ?ws e" using assms(1) by (simp add: exanic_ate_init_def split: if_splits)
  show "\<not> ate_enabled (run_writes (take n ?ws) e) p ate_id" if "n < length ?ws" for n
  proof -
    have "take n ?ws = take n (butlast ?ws)"
      using that ate_init_ctl_last(1) [of p ate_id cfg] by (metis butlast_take take_butlast)
    then have "REG_ATE_OFFSET p ate_id REG_ATE_CTL \<notin> fst ` set (take n ?ws)"
      using ate_init_ctl_last(2) [OF assms(2), of p cfg] set_take_subset [of n "butlast ?ws"] by (metis image_mono subsetD)
    then have "ate_reg (run_writes (take n ?ws) e) p ate_id REG_ATE_CTL = ate_reg e p ate_id REG_ATE_CTL"
      unfolding ate_reg_def by (rule run_writes_other)
    with assms(3) show ?thesis by (simp add: ate_enabled_def)
  qed
  note defs = e' ate_init_writes_def ate_enabled_def ate_selected_def exanic_ate_read_seq_def ate_reg_writel [OF assms(2)]
  show "ate_enabled e' p ate_id" "ate_selected e' p ate_id = (ack_num cfg, CONVERT_HW_WINDOW (window cfg))"
    "exanic_ate_read_seq e' p ate_id = init_seq_num cfg" "ate_reg e' p ate_id REG_ATE_MAX_SEQ = max_seq_num cfg"
    "ate_reg e' p ate_id REG_ATE_CTL AND REG_ATE_CTL_CHECK_MAX_SEQ = 0 \<longleftrightarrow> win_limit_disabled cfg"
    by (simp_all add: defs)
  have "ucast (ate_reg e' p ate_id REG_ATE_PART_CSUM) = ate_csum_ip cfg"
    by (simp add: defs) (auto intro!: bit_eqI simp: bit_simps)
  moreover have "ones_complement_of (0xc506 + word_sum (bytes_of (htonl (ip_src cfg)) @ bytes_of (htonl (ip_dst cfg)))) (ate_csum_ip cfg)"
    unfolding ate_csum_ip_def using csum_seed [of "bytes_of (htonl (ip_src cfg)) @ bytes_of (htonl (ip_dst cfg))" "0xc506"]
    by (simp add: bytes_of_def)
  ultimately show "ones_complement_of (0xc506 + word_sum (bytes_of (htonl (ip_src cfg)) @ bytes_of (htonl (ip_dst cfg))))
      (ucast (ate_reg e' p ate_id REG_ATE_PART_CSUM))" by simp
qed

definition demo_cfg :: exanic_ate_cfg where
  "demo_cfg = \<lparr>eth_dst = [1, 2, 3, 4, 5, 6], eth_src = [7, 8, 9, 10, 11, 12], ip_dst = 0xC0A80001, ip_src = 0xC0A80002,
     port_dst = 80, port_src = 4000, init_seq_num = 1, max_seq_num = 5000, ack_num = 9, window = 100,
     win_limit_disabled = False\<rparr>"

lemma ate_init_enables_last_witness:
  "\<exists>e'. exanic_ate_init demo_card 0 5 demo_cfg = (Inr (), e') \<and> ate_enabled e' 0 5 \<and>
     \<not> ate_enabled (run_writes (take 13 (ate_init_writes 0 5 demo_cfg)) demo_card) 0 5"
proof -
  obtain e' where 1: "exanic_ate_init demo_card 0 5 demo_cfg = (Inr (), e')"
    by (simp add: exanic_ate_init_def demo_card_def)
  have off: "\<not> ate_enabled demo_card 0 5" by (simp add: ate_enabled_def ate_reg_def demo_card_def)
  have "13 < length (ate_init_writes 0 5 demo_cfg)" by (simp add: ate_init_writes_def)
  then show ?thesis using 1 ate_init_enables_last [OF 1 _ off] by simp
qed

text \<open>
  Ownership: an engine that was acquired is busy until it is released, and releasing an engine
  that nobody holds raises its count, so that two clients may then hold it.
\<close>

lemma ate_exclusive:
  assumes "exanic_ate_acquire e p i = Some (Inr (), e1)" "ate_lockbox (port e p) ! nat i = 1" "nat i < length (ate_lockbox (port e p))"
  shows "exanic_ate_acquire e1 p i = Some (Inl EBUSY, e1)"
    "\<exists>e2. exanic_ate_release e1 p i = Some e2 \<and> ate_lockbox (port e2 p) = ate_lockbox (port e p)"
  using assms
  by (auto simp: exanic_ate_acquire_def exanic_ate_release_def exanic_ate_available_def set_port_def split: if_splits)
    (metis list_update_id)

end
