(* ===== verification/TcpBuffer.thy ===== *)
theory TcpBuffer
  imports Prelude
begin

text \<open>
  The buffers of a TCP socket of the exasock library, \<open>libs/exasock/tcp_buffer.h\<close>, with the
  state they work on (\<open>kernel/structs.h\<close>, \<open>structs.h\<close>). Sequence numbers are 32-bit words that
  wrap. The list of out of order segments is the array of the code: six pairs, an empty slot
  has equal bounds. An assertion that fails is \<open>None\<close>. The kernel stack works on the same
  state; what it stores between two steps of a compare-and-swap loop is an argument.
\<close>

datatype tcp_conn_state =
    EXA_TCP_CLOSED | EXA_TCP_LISTEN | EXA_TCP_SYN_SENT | EXA_TCP_SYN_RCVD | EXA_TCP_ESTABLISHED
  | EXA_TCP_CLOSE_WAIT | EXA_TCP_FIN_WAIT_1 | EXA_TCP_FIN_WAIT_2 | EXA_TCP_CLOSING
  | EXA_TCP_LAST_ACK | EXA_TCP_TIME_WAIT

type_synonym seg = "u32 \<times> u32"

record exa_tcp_state =
  read_seq :: u32
  adv_wnd_end :: u32
  dup_acks_seq :: u32
  tx_consistent :: bool
  send_seq :: u32
  wnd_end_pending :: u32
  recv_seg :: "seg list"
  ooo_ack_seq :: u32
  ooo_seg_count :: u8
  send_ack :: u32
  rwnd_end :: u32
  recv_seq :: u32
  proc_seq :: u32
  rmss :: u16
  wscale :: u8
  tcp_state :: tcp_conn_state
  cwnd :: u32
  ate_wnd_end :: u32
  ack_pending :: bool
  init_send_seq :: u32
  init_recv_seq :: u32

record exa_socket =
  tcp :: exa_tcp_state
  rx_buffer_size :: nat
  tx_buffer_size :: nat
  rx_buffer :: bytes
  tx_buffer :: bytes
  sock_error :: nat

abbreviation (input) "EXA_TCP_MAX_RX_SEGMENTS \<equiv> 6 :: nat"
abbreviation (input) "EXA_TCP_FAST_RETRANS_THRESH \<equiv> 3 :: u8"

definition seq_compare :: "u32 \<Rightarrow> u32 \<Rightarrow> int" where
  "seq_compare a b = sint (a - b)"

text \<open>
  The compare-and-swap loop: \<open>intf\<close> lists what the kernel stores in \<open>proc_seq\<close> before each
  attempt. The result, the last value seen, and the value stored.
\<close>

fun proc_seq_cas :: "u32 list \<Rightarrow> u32 \<Rightarrow> u32 \<Rightarrow> u32 \<Rightarrow> bool \<times> u32 \<times> u32" where
  "proc_seq_cas [] proc old new =
     (if proc = old then (True, old, new)
      else if seq_compare new proc > 0 then (True, proc, new) else (False, proc, proc))"
| "proc_seq_cas (x # intf) proc old new =
     (if x = old then (True, old, new)
      else if seq_compare new x > 0 then proc_seq_cas intf x x new else (False, x, x))"

subsection \<open>Out of order counter\<close>

definition out_of_order_reset :: "exa_tcp_state \<Rightarrow> exa_tcp_state" where
  "out_of_order_reset t = t\<lparr>ooo_seg_count := 0, ooo_ack_seq := recv_seq t, dup_acks_seq := recv_seq t - 1\<rparr>"

definition out_of_order_seg_count :: "exa_tcp_state \<Rightarrow> u32 \<Rightarrow> exa_tcp_state" where
  "out_of_order_seg_count t recv =
     (if ooo_ack_seq t = recv
      then let n = ooo_seg_count t + 1; t1 = t\<lparr>ooo_seg_count := n\<rparr>
           in if n = EXA_TCP_FAST_RETRANS_THRESH then t1\<lparr>dup_acks_seq := ooo_ack_seq t1\<rparr> else t1
      else t\<lparr>ooo_ack_seq := recv, ooo_seg_count := 1\<rparr>)"

subsection \<open>Allocation\<close>

record rx_region =
  al_prev :: u32
  al_buf1 :: nat
  al_len1 :: nat
  al_buf2 :: nat
  al_len2 :: nat
  al_skip :: nat

definition rx_mask :: "exa_socket \<Rightarrow> u32" where
  "rx_mask sock = of_nat (rx_buffer_size sock) - 1"

definition exa_tcp_rx_buffer_alloc ::
    "u32 list \<Rightarrow> exa_socket \<Rightarrow> u32 \<Rightarrow> nat \<Rightarrow> rx_region option \<times> exa_socket" where
  "exa_tcp_rx_buffer_alloc intf sock seg_seq seg_len =
     (let t = tcp sock;
          seg_end_seq = seg_seq + of_nat seg_len;
          wrap_seq = seg_end_seq AND NOT (rx_mask sock)
      in if rx_buffer_size sock < unat (seg_end_seq - read_seq t) then (None, sock)
         else if seq_compare seg_end_seq (proc_seq t) \<le> 0 then (None, sock)
         else
           let (ok, prev, stored) = proc_seq_cas intf (proc_seq t) (proc_seq t) seg_end_seq;
               sock1 = sock\<lparr>tcp := t\<lparr>proc_seq := stored\<rparr>\<rparr>
           in if \<not> ok then (None, sock1)
              else
                let skip = (if seq_compare seg_seq prev < 0 then unat (prev - seg_seq) else 0);
                    alloc_seq = (if seq_compare seg_seq prev < 0 then prev else seg_seq);
                    buf1 = unat (alloc_seq AND rx_mask sock)
                in if seq_compare alloc_seq wrap_seq < 0
                   then (Some \<lparr>al_prev = prev, al_buf1 = buf1, al_len1 = unat (wrap_seq - alloc_seq),
                                al_buf2 = 0, al_len2 = unat (seg_end_seq - wrap_seq), al_skip = skip\<rparr>, sock1)
                   else (Some \<lparr>al_prev = prev, al_buf1 = buf1, al_len1 = unat (seg_end_seq - alloc_seq),
                                al_buf2 = 0, al_len2 = 0, al_skip = skip\<rparr>, sock1))"

subsection \<open>Segments\<close>

definition seg_empty :: "seg \<Rightarrow> bool" where
  "seg_empty s \<longleftrightarrow> snd s - fst s = 0"

text \<open>\<open>for (; i < MAX && P (recv_seg[i]); i++)\<close>\<close>

function seg_scan :: "(seg \<Rightarrow> bool) \<Rightarrow> seg list \<Rightarrow> nat \<Rightarrow> nat" where
  "seg_scan P segs i = (if i < length segs \<and> P (segs ! i) then seg_scan P segs (i + 1) else i)"
  by pat_completeness auto
termination by (relation "measure (\<lambda>(P, segs, i). length segs - i)") auto

declare seg_scan.simps [simp del]

text \<open>Moving the segments from index \<open>i\<close> on down to index \<open>j\<close> and clearing the slots left over.\<close>

definition seg_move :: "nat \<Rightarrow> nat \<Rightarrow> seg list \<Rightarrow> seg list" where
  "seg_move j i segs = take j segs @ drop i segs @ replicate (i - j) (0, 0)"

definition drop_processed :: "u32 \<Rightarrow> seg list \<Rightarrow> seg list" where
  "drop_processed recv segs =
     (if \<not> seg_empty (segs ! 0) \<and> seq_compare (snd (segs ! 0)) recv \<le> 0
      then let i = seg_scan (\<lambda>s. \<not> seg_empty s \<and> seq_compare (snd s) recv \<le> 0) segs 1;
               segs1 = seg_move 0 i segs
           in if \<not> seg_empty (segs1 ! 0) \<and> seq_compare (fst (segs1 ! 0)) recv < 0
              then segs1[0 := (recv, snd (segs1 ! 0))] else segs1
      else segs)"

text \<open>New data at \<open>recv_seq\<close>: the new processing pointer and the segments that remain.\<close>

definition merge_front :: "u32 \<Rightarrow> seg list \<Rightarrow> u32 \<times> seg list" where
  "merge_front proc segs =
     (if \<not> seg_empty (segs ! 0) \<and> seq_compare (fst (segs ! 0)) proc \<le> 0
      then let i = seg_scan (\<lambda>s. 0 < snd s - fst s \<and> seq_compare (fst s) proc \<le> 0) segs 1;
               e = snd (segs ! (i - 1))
           in (if seq_compare proc e < 0 then e else proc, seg_move 0 i segs)
      else (proc, segs))"

text \<open>New data elsewhere.\<close>

definition insert_segment :: "u32 \<Rightarrow> u32 \<Rightarrow> seg list \<Rightarrow> seg list option" where
  "insert_segment s e segs =
     (let i = seg_scan (\<lambda>x. \<not> seg_empty x \<and> seq_compare (snd x) s < 0) segs 0
      in if EXA_TCP_MAX_RX_SEGMENTS \<le> i then Some segs
         else if seg_empty (segs ! i) then Some (segs[i := (s, e)])
         else if seq_compare e (fst (segs ! i)) < 0
         then Some (take i segs @ (s, e) # butlast (drop i segs))
         else if \<not> (seq_compare s (snd (segs ! i)) \<le> 0 \<and> seq_compare (fst (segs ! i)) e \<le> 0) then None
         else
           let b1 = (if seq_compare s (fst (segs ! i)) < 0 then s else fst (segs ! i));
               e1 = (if seq_compare (snd (segs ! i)) e < 0 then e else snd (segs ! i));
               segs1 = segs[i := (b1, e1)];
               j = seg_scan (\<lambda>x. \<not> seg_empty x \<and> seq_compare (fst x) e1 \<le> 0) segs1 (i + 1);
               last_end = snd (segs1 ! (j - 1));
               e2 = (if seq_compare e1 last_end < 0 then last_end else e1)
           in Some (seg_move (i + 1) j (segs1[i := (b1, e2)])))"

subsection \<open>Commit and abort\<close>

definition exa_tcp_rx_buffer_commit :: "exa_tcp_state \<Rightarrow> u32 \<Rightarrow> nat \<Rightarrow> u32 \<Rightarrow> exa_tcp_state option" where
  "exa_tcp_rx_buffer_commit t sq len prev_proc_seq =
     (let recv = recv_seq t
      in if len = 0
         then Some (if seq_compare recv sq < 0 then out_of_order_seg_count t recv
                    else if seq_compare recv (ooo_ack_seq t) > 0 then out_of_order_reset t else t)
         else
           let segs = drop_processed recv (recv_seg t)
           in if recv = sq
              then let (proc, segs1) = merge_front (proc_seq t) segs
                   in if seg_empty (segs1 ! 0) \<or> seq_compare (fst (segs1 ! 0)) proc > 0
                      then Some (out_of_order_reset (t\<lparr>proc_seq := proc, recv_seg := segs1, recv_seq := proc\<rparr>))
                      else None
              else case insert_segment sq (sq + of_nat len) segs of
                     None \<Rightarrow> None
                   | Some segs1 \<Rightarrow>
                       let t1 = out_of_order_seg_count t recv
                       in if fst (segs1 ! 0) = recv \<and> \<not> seg_empty (segs1 ! 0) \<and> recv = prev_proc_seq
                          then Some (t1\<lparr>recv_seq := snd (segs1 ! 0), proc_seq := snd (segs1 ! 0), recv_seg := seg_move 0 1 segs1\<rparr>)
                          else Some (t1\<lparr>recv_seg := segs1, proc_seq := prev_proc_seq\<rparr>))"

function abort_loop :: "u32 \<Rightarrow> u32 \<Rightarrow> nat \<Rightarrow> nat \<Rightarrow> seg list \<Rightarrow> seg list" where
  "abort_loop s e i j segs =
     (if i < EXA_TCP_MAX_RX_SEGMENTS \<and> \<not> seg_empty (segs ! i)
      then let i1 = (if seq_compare s (snd (segs ! i)) < 0 \<and> seq_compare (fst (segs ! i)) e < 0 then i + 1 else i);
               segs1 = (if j < i1
                        then segs[j := if i1 < EXA_TCP_MAX_RX_SEGMENTS then segs ! i1 else (0, 0)] else segs)
           in abort_loop s e (i1 + 1) (j + 1) segs1
      else segs)"
  by pat_completeness auto
termination by (relation "measure (\<lambda>(s, e, i, j, segs). EXA_TCP_MAX_RX_SEGMENTS - i)") (simp, simp, arith)

declare abort_loop.simps [simp del]

definition exa_tcp_rx_buffer_abort :: "exa_tcp_state \<Rightarrow> u32 \<Rightarrow> nat \<Rightarrow> u32 \<Rightarrow> exa_tcp_state" where
  "exa_tcp_rx_buffer_abort t sq len prev_proc_seq =
     (let t1 = t\<lparr>recv_seg := abort_loop sq (sq + of_nat len) 0 0 (recv_seg t)\<rparr>
      in if 0 < len then t1\<lparr>proc_seq := prev_proc_seq\<rparr> else t1)"


subsection \<open>Reading\<close>

text \<open>The pieces of the ring with data, as offsets and lengths.\<close>

definition exa_tcp_rx_buffer_read_begin :: "exa_socket \<Rightarrow> (nat \<times> nat) \<times> (nat \<times> nat)" where
  "exa_tcp_rx_buffer_read_begin sock =
     (let t = tcp sock;
          buf_offset = unat (read_seq t AND rx_mask sock);
          n = unat (recv_seq t - read_seq t)
      in if n \<le> rx_buffer_size sock - buf_offset then ((buf_offset, n), (0, 0))
         else ((buf_offset, rx_buffer_size sock - buf_offset), (0, n - (rx_buffer_size sock - buf_offset))))"

definition exa_tcp_rx_buffer_read_end :: "exa_tcp_state \<Rightarrow> nat \<Rightarrow> exa_tcp_state" where
  "exa_tcp_rx_buffer_read_end t len =
     (let t1 = t\<lparr>read_seq := read_seq t + of_nat len\<rparr> in if 0 < len then t1\<lparr>ack_pending := True\<rparr> else t1)"

definition closed_by_peer :: "tcp_conn_state \<Rightarrow> bool" where
  "closed_by_peer s \<longleftrightarrow> s = EXA_TCP_CLOSE_WAIT \<or> s = EXA_TCP_CLOSING \<or> s = EXA_TCP_LAST_ACK \<or>
     s = EXA_TCP_TIME_WAIT \<or> s = EXA_TCP_CLOSED"

definition exa_tcp_rx_buffer_eof :: "exa_tcp_state \<Rightarrow> bool" where
  "exa_tcp_rx_buffer_eof t \<longleftrightarrow> read_seq t = recv_seq t \<and> closed_by_peer (tcp_state t)"

definition exa_tcp_rx_buffer_ready :: "exa_tcp_state \<Rightarrow> bool" where
  "exa_tcp_rx_buffer_ready t \<longleftrightarrow> read_seq t \<noteq> recv_seq t \<or> closed_by_peer (tcp_state t)"

subsection \<open>The transmit buffer\<close>

definition tx_mask :: "exa_socket \<Rightarrow> u32" where
  "tx_mask sock = of_nat (tx_buffer_size sock) - 1"

text \<open>The copy loop over the pieces of the message; a state of the loop is the buffer, the offset
  in it and the offset in the message.\<close>

primrec tx_copy :: "nat \<Rightarrow> nat \<Rightarrow> nat \<Rightarrow> bytes list \<Rightarrow> bytes \<Rightarrow> nat \<Rightarrow> nat \<Rightarrow> bytes" where
  "tx_copy bsize skip_len iov_len [] buf buf_offs offs = buf"
| "tx_copy bsize skip_len iov_len (v # iov) buf buf_offs offs =
     (if iov_len \<le> offs then buf
      else
        let len = (if length v < iov_len - offs then length v else iov_len - offs);
            skip = (if offs < skip_len then skip_len - offs else 0)
        in if len \<le> skip then tx_copy bsize skip_len iov_len iov buf buf_offs (offs + len)
           else if buf_offs + len - skip < bsize
           then tx_copy bsize skip_len iov_len iov (blit buf buf_offs (take (len - skip) (drop skip v)))
                  (buf_offs + (len - skip)) (offs + len)
           else
             let l = bsize - buf_offs
             in tx_copy bsize skip_len iov_len iov
                  (blit (blit buf buf_offs (take l (drop skip v))) 0 (take (len - skip - l) (drop (skip + l) v)))
                  (len - skip - l) (offs + len))"

definition exa_tcp_tx_buffer_write :: "exa_socket \<Rightarrow> bytes list \<Rightarrow> nat \<Rightarrow> nat \<Rightarrow> exa_socket option" where
  "exa_tcp_tx_buffer_write sock iov skip_len send_len =
     (if tx_buffer_size sock < send_len then None
      else let t = tcp sock in
        Some (sock\<lparr>tx_buffer := tx_copy (tx_buffer_size sock) skip_len (skip_len + send_len) iov (tx_buffer sock)
                (unat (send_seq t AND tx_mask sock)) 0,
              tcp := t\<lparr>adv_wnd_end := wnd_end_pending t, send_seq := send_seq t + of_nat send_len,
                tx_consistent := True\<rparr>\<rparr>))"

definition exa_tcp_tx_buffer_get :: "exa_socket \<Rightarrow> u32 \<Rightarrow> nat \<Rightarrow> (nat \<times> nat) list" where
  "exa_tcp_tx_buffer_get sock sq len =
     (let m = tx_mask sock; seq_end = sq + of_nat len
      in if sq AND NOT m = (seq_end - 1) AND NOT m then [(unat (sq AND m), len)]
         else [(unat (sq AND m), tx_buffer_size sock - unat (sq AND m)), (0, unat (seq_end AND m))])"

definition exa_tcp_tx_buffer_empty :: "exa_tcp_state \<Rightarrow> bool" where
  "exa_tcp_tx_buffer_empty t \<longleftrightarrow> seq_compare (send_seq t) (send_ack t) \<le> 0"

end
