(* ===== verification/TcpState.thy ===== *)
theory TcpState
  imports TcpBuffer Checksum
begin

text \<open>
  The connection state of a TCP socket of the exasock library, \<open>libs/exasock/tcp.h\<close>: what a
  received segment and the calls of the application do to it, the size of the next segment,
  and the window advertised. Locks and the profiling code are left out; nothing else stores in
  the state between the load of \<open>state\<close> and its compare-and-swap. The window scale of the peer is
  any byte; a shift by 32 or more, undefined in C, gives 0 here.
\<close>

abbreviation (input) "TH_FIN \<equiv> 0x01 :: u8"
abbreviation (input) "TH_SYN \<equiv> 0x02 :: u8"
abbreviation (input) "TH_RST \<equiv> 0x04 :: u8"
abbreviation (input) "TH_ACK \<equiv> 0x10 :: u8"
abbreviation (input) "TCPOPT_EOL \<equiv> 0 :: u8"
abbreviation (input) "TCPOPT_NOP \<equiv> 1 :: u8"
abbreviation (input) "TCPOPT_MAXSEG \<equiv> 2 :: u8"
abbreviation (input) "TCPOPT_WINDOW \<equiv> 3 :: u8"
abbreviation (input) "TCP_MAXWIN \<equiv> 65535 :: u32"
abbreviation (input) "EXA_TCP_MSS \<equiv> 1460 :: u16"
abbreviation (input) "EXA_TCP_WSCALE \<equiv> 8 :: nat"
abbreviation (input) "EXA_TCP_SYNACK_WIN \<equiv> 32000 :: u32"
abbreviation (input) "ECONNRESET \<equiv> 104 :: nat"
abbreviation (input) "ECONNREFUSED \<equiv> 111 :: nat"

definition ntohl :: "u32 \<Rightarrow> u32" where
  "ntohl x = push_bit 24 (x AND 0xFF) OR push_bit 8 (x AND 0xFF00) OR (drop_bit 8 x AND 0xFF00) OR drop_bit 24 x"

subsection \<open>Segment size and window\<close>

text \<open>The sequence number and the size of the largest segment that may be sent now.\<close>

definition exa_tcp_max_seg_len :: "exa_socket \<Rightarrow> bool \<Rightarrow> (u32 \<times> nat) option" where
  "exa_tcp_max_seg_len sock is_ate =
     (let t = tcp sock
      in if tcp_state t \<noteq> EXA_TCP_ESTABLISHED \<and> tcp_state t \<noteq> EXA_TCP_CLOSE_WAIT then None
         else
           let cwnd_end = send_ack t + cwnd t;
               wnd_end = (if \<not> is_ate then if seq_compare cwnd_end (rwnd_end t) < 0 then cwnd_end else rwnd_end t
                          else ntohl (ate_wnd_end t));
               wnd_end1 = (if of_nat (tx_buffer_size sock) < wnd_end - send_ack t
                           then send_ack t + of_nat (tx_buffer_size sock) else wnd_end);
               wnd_space = sint (wnd_end1 - send_seq t)
           in Some (send_seq t, if wnd_space < 0 then 0 else if int (unat (rmss t)) < wnd_space then unat (rmss t) else nat wnd_space))"

definition exa_tcp_calc_window :: "exa_socket \<Rightarrow> u32 \<Rightarrow> u16" where
  "exa_tcp_calc_window sock recv =
     (let rx_space = of_nat (rx_buffer_size sock) - (recv - read_seq (tcp sock));
          rx_space1 = (if wscale (tcp sock) \<noteq> 0 then drop_bit EXA_TCP_WSCALE rx_space else rx_space)
      in if rx_space1 < TCP_MAXWIN then ucast rx_space1 else ucast TCP_MAXWIN)"

definition exa_tcp_get_window :: "exa_socket \<Rightarrow> u32 \<Rightarrow> u16 \<times> exa_socket" where
  "exa_tcp_get_window sock recv =
     (let t = tcp sock; window = exa_tcp_calc_window sock recv
      in (window, sock\<lparr>tcp := t\<lparr>wnd_end_pending :=
            recv + push_bit (if wscale t \<noteq> 0 then EXA_TCP_WSCALE else 0) (ucast window)\<rparr>\<rparr>))"

subsection \<open>Opening and closing\<close>

definition exa_tcp_listening :: "exa_tcp_state \<Rightarrow> bool" where
  "exa_tcp_listening t \<longleftrightarrow> tcp_state t = EXA_TCP_LISTEN"

definition exa_tcp_connecting :: "exa_tcp_state \<Rightarrow> bool" where
  "exa_tcp_connecting t \<longleftrightarrow> tcp_state t = EXA_TCP_SYN_SENT \<or> tcp_state t = EXA_TCP_SYN_RCVD"

definition exa_tcp_write_closed :: "exa_tcp_state \<Rightarrow> bool" where
  "exa_tcp_write_closed t \<longleftrightarrow> tcp_state t \<notin> {EXA_TCP_ESTABLISHED, EXA_TCP_CLOSE_WAIT, EXA_TCP_SYN_SENT, EXA_TCP_SYN_RCVD, EXA_TCP_LISTEN}"

definition exa_tcp_state_init_conn :: "exa_tcp_state \<Rightarrow> u32 \<Rightarrow> exa_tcp_state" where
  "exa_tcp_state_init_conn t isn = t\<lparr>send_seq := isn, send_ack := isn, rwnd_end := isn, init_send_seq := isn\<rparr>"

text \<open>The cached header has the ports, in network order; its other fields are 0 or fixed.\<close>

record exa_tcp_conn =
  th_sport :: u16
  th_dport :: u16
  ph_csum :: u64

definition cached_hdr :: "u16 \<Rightarrow> u16 \<Rightarrow> u64 \<Rightarrow> exa_tcp_conn" where
  "cached_hdr local_port peer_port addr_csum =
     \<lparr>th_sport = local_port, th_dport = peer_port, ph_csum = ucast (csum [] (addr_csum + 0x0600))\<rparr>"

definition exa_tcp_connect :: "u16 \<Rightarrow> u16 \<Rightarrow> u64 \<Rightarrow> exa_tcp_state \<Rightarrow> (exa_tcp_conn \<times> exa_tcp_state) option" where
  "exa_tcp_connect local_port peer_port addr_csum t =
     (if tcp_state t = EXA_TCP_CLOSED
      then Some (cached_hdr local_port peer_port addr_csum, t\<lparr>tcp_state := EXA_TCP_SYN_SENT\<rparr>) else None)"

record exa_tcp_init_state =
  local_seq :: u32
  peer_seq :: u32
  peer_window :: u16
  peer_mss :: u16
  peer_wscale :: u8

definition exa_tcp_state_init_acc :: "exa_tcp_state \<Rightarrow> exa_tcp_init_state \<Rightarrow> exa_tcp_state" where
  "exa_tcp_state_init_acc t i =
     t\<lparr>send_seq := local_seq i, send_ack := local_seq i, rwnd_end := local_seq i + ucast (peer_window i),
       rmss := peer_mss i, wscale := peer_wscale i,
       read_seq := peer_seq i, recv_seq := peer_seq i, proc_seq := peer_seq i,
       adv_wnd_end := peer_seq i + EXA_TCP_SYNACK_WIN, ooo_ack_seq := peer_seq i, dup_acks_seq := peer_seq i - 1,
       init_send_seq := local_seq i, init_recv_seq := peer_seq i\<rparr>"

definition exa_tcp_accept :: "u16 \<Rightarrow> u16 \<Rightarrow> u64 \<Rightarrow> exa_tcp_state \<Rightarrow> (exa_tcp_conn \<times> exa_tcp_state) option" where
  "exa_tcp_accept local_port peer_port addr_csum t =
     (if tcp_state t = EXA_TCP_CLOSED
      then Some (cached_hdr local_port peer_port addr_csum, t\<lparr>tcp_state := EXA_TCP_ESTABLISHED\<rparr>) else None)"

definition exa_tcp_shutdown_write :: "exa_tcp_state \<Rightarrow> exa_tcp_state" where
  "exa_tcp_shutdown_write t =
     (case tcp_state t of
        EXA_TCP_SYN_SENT \<Rightarrow> t\<lparr>tcp_state := EXA_TCP_CLOSED\<rparr>
      | EXA_TCP_SYN_RCVD \<Rightarrow> t\<lparr>tcp_state := EXA_TCP_FIN_WAIT_1\<rparr>
      | EXA_TCP_ESTABLISHED \<Rightarrow> t\<lparr>tcp_state := EXA_TCP_FIN_WAIT_1\<rparr>
      | EXA_TCP_CLOSE_WAIT \<Rightarrow> t\<lparr>tcp_state := EXA_TCP_LAST_ACK\<rparr>
      | _ \<Rightarrow> t)"

definition exa_tcp_reset :: "exa_tcp_state \<Rightarrow> exa_tcp_state" where
  "exa_tcp_reset t = t\<lparr>tcp_state := EXA_TCP_CLOSED\<rparr>"

definition exa_tcp_error_close :: "exa_socket \<Rightarrow> nat \<Rightarrow> exa_socket" where
  "exa_tcp_error_close sock err = sock\<lparr>sock_error := err, tcp := (tcp sock)\<lparr>tcp_state := EXA_TCP_CLOSED\<rparr>\<rparr>"

definition exa_tcp_clear_ack_pending :: "exa_tcp_state \<Rightarrow> exa_tcp_state" where
  "exa_tcp_clear_ack_pending t = (if tcp_state t \<noteq> EXA_TCP_FIN_WAIT_1 then t\<lparr>ack_pending := False\<rparr> else t)"

subsection \<open>Options of a SYN\<close>

text \<open>The memory from the first option on is a function; \<open>None\<close> is a loop that does not end.\<close>

definition apply_opt :: "(nat \<Rightarrow> u8) \<Rightarrow> nat \<Rightarrow> u16 \<times> u8 \<Rightarrow> u16 \<times> u8" where
  "apply_opt opts i st =
     (if opts i = TCPOPT_MAXSEG
      then let m = push_bit 8 (ucast (opts (i + 2))) OR ucast (opts (i + 3)) in (if EXA_TCP_MSS < m then EXA_TCP_MSS else m, snd st)
      else if opts i = TCPOPT_WINDOW then (fst st, opts (i + 2)) else st)"

partial_function (option) syn_opts :: "(nat \<Rightarrow> u8) \<Rightarrow> nat \<Rightarrow> nat \<Rightarrow> u16 \<times> u8 \<Rightarrow> (u16 \<times> u8) option" where
  "syn_opts opts len i st =
     (if i < len \<and> opts i \<noteq> TCPOPT_EOL
      then syn_opts opts len (i + (if opts i = TCPOPT_NOP then 1 else unat (opts (i + 1)))) (apply_opt opts i st)
      else Some st)"

definition exa_tcp_apply_syn_opts :: "exa_tcp_state \<Rightarrow> (nat \<Rightarrow> u8) \<Rightarrow> nat \<Rightarrow> exa_tcp_state option" where
  "exa_tcp_apply_syn_opts t opts len =
     (case syn_opts opts len 0 (rmss t, wscale t) of None \<Rightarrow> None | Some (m, w) \<Rightarrow> Some (t\<lparr>rmss := m, wscale := w\<rparr>))"

subsection \<open>Segments received\<close>

text \<open>Before the segment is validated: \<open>Inl\<close> is the return of -1. \<open>None\<close> is no return.\<close>

definition exa_tcp_pre_update_state ::
    "exa_tcp_state \<Rightarrow> u8 \<Rightarrow> u32 \<Rightarrow> u32 \<Rightarrow> (nat \<Rightarrow> u8) \<Rightarrow> nat \<Rightarrow> (unit + exa_tcp_state) option" where
  "exa_tcp_pre_update_state t flags data_seq ack_seq opts len =
     (if flags AND TH_RST \<noteq> 0
      then if tcp_state t = EXA_TCP_SYN_SENT
           then if flags AND TH_ACK = 0 \<or> ack_seq \<noteq> send_seq t then Some (Inl ())
                else Some (Inr (t\<lparr>read_seq := data_seq, recv_seq := data_seq, proc_seq := data_seq\<rparr>))
           else Some (Inr t)
      else if flags AND TH_SYN \<noteq> 0
      then if tcp_state t = EXA_TCP_SYN_SENT
           then map_option Inr (exa_tcp_apply_syn_opts
                  (t\<lparr>read_seq := data_seq, recv_seq := data_seq, proc_seq := data_seq, adv_wnd_end := data_seq,
                     ooo_ack_seq := data_seq, dup_acks_seq := data_seq - 1, init_recv_seq := data_seq\<rparr>) opts len)
           else Some (Inl ())
      else if tcp_state t = EXA_TCP_SYN_SENT then Some (Inl ()) else Some (Inr t))"

text \<open>Acknowledgement, window and reset of a valid segment. The window is shifted as an \<open>int\<close>.\<close>

definition exa_tcp_update_state :: "exa_socket \<Rightarrow> u8 \<Rightarrow> u32 \<Rightarrow> u32 \<Rightarrow> u16 \<Rightarrow> exa_socket" where
  "exa_tcp_update_state sock flags data_seq ack_seq win =
     (let t = tcp sock;
          win_end = ack_seq + push_bit (if flags AND TH_SYN \<noteq> 0 then 0 else unat (wscale t)) (ucast win);
          t1 = (if flags AND TH_ACK \<noteq> 0
                then t\<lparr>send_ack := (if seq_compare (send_ack t) ack_seq < 0 then ack_seq else send_ack t),
                       rwnd_end := (if seq_compare (rwnd_end t) win_end < 0 then win_end else rwnd_end t)\<rparr> else t)
      in if flags AND TH_RST \<noteq> 0 \<and> seq_compare data_seq (recv_seq t1) \<le> 0
         then exa_tcp_error_close (sock\<lparr>tcp := t1\<rparr>) (if tcp_state t1 = EXA_TCP_SYN_SENT then ECONNREFUSED else ECONNRESET)
         else sock\<lparr>tcp := if seq_compare data_seq (recv_seq t1) < 0 then t1\<lparr>ack_pending := True\<rparr> else t1\<rparr>)"

text \<open>The state machine; the flag says that the connection has just been established.\<close>

definition exa_tcp_update_conn_state :: "exa_tcp_state \<Rightarrow> u8 \<Rightarrow> u32 \<Rightarrow> nat \<Rightarrow> exa_tcp_state \<times> bool" where
  "exa_tcp_update_conn_state t flags data_seq len =
     (let fin = (flags AND TH_FIN \<noteq> 0 \<and> seq_compare (data_seq + of_nat len) (recv_seq t) \<le> 0);
          acked = (flags AND TH_ACK \<noteq> 0 \<and> seq_compare (send_seq t) (send_ack t) \<le> 0);
          fin_acked = (flags AND TH_ACK \<noteq> 0 \<and> seq_compare (send_seq t) (send_ack t) < 0)
      in case tcp_state t of
           EXA_TCP_SYN_SENT \<Rightarrow>
             if flags AND (TH_SYN OR TH_ACK) = TH_SYN OR TH_ACK \<and> seq_compare (send_seq t) (send_ack t) \<le> 0
             then (t\<lparr>tcp_state := EXA_TCP_ESTABLISHED, ack_pending := True\<rparr>, True)
             else if flags AND (TH_SYN OR TH_ACK) = TH_SYN
             then (t\<lparr>tcp_state := EXA_TCP_SYN_RCVD, ack_pending := True\<rparr>, False)
             else (t, False)
         | EXA_TCP_SYN_RCVD \<Rightarrow> if acked then (t\<lparr>tcp_state := EXA_TCP_ESTABLISHED\<rparr>, True) else (t, False)
         | EXA_TCP_ESTABLISHED \<Rightarrow>
             if fin then (t\<lparr>tcp_state := EXA_TCP_CLOSE_WAIT, ack_pending := True\<rparr>, False) else (t, False)
         | EXA_TCP_FIN_WAIT_1 \<Rightarrow>
             if fin \<and> fin_acked then (t\<lparr>tcp_state := EXA_TCP_TIME_WAIT, ack_pending := True\<rparr>, False)
             else if fin then (t\<lparr>tcp_state := EXA_TCP_CLOSING, ack_pending := True\<rparr>, False)
             else if fin_acked then (t\<lparr>tcp_state := EXA_TCP_FIN_WAIT_2\<rparr>, False)
             else (t, False)
         | EXA_TCP_FIN_WAIT_2 \<Rightarrow>
             if fin then (t\<lparr>tcp_state := EXA_TCP_TIME_WAIT, ack_pending := True\<rparr>, False) else (t, False)
         | EXA_TCP_CLOSING \<Rightarrow> if fin_acked then (t\<lparr>tcp_state := EXA_TCP_TIME_WAIT\<rparr>, False) else (t, False)
         | EXA_TCP_CLOSE_WAIT \<Rightarrow> if fin then (t\<lparr>ack_pending := True\<rparr>, False) else (t, False)
         | EXA_TCP_LAST_ACK \<Rightarrow> if fin_acked then (t\<lparr>tcp_state := EXA_TCP_CLOSED\<rparr>, False) else (t, False)
         | _ \<Rightarrow> (t, False))"

end
