(* ===== verification/TcpRx.thy ===== *)
theory TcpRx
  imports TcpState
begin

text \<open>
  A TCP packet from the receive FIFO to the application: the IP and TCP headers
  (\<open>libs/exasock/ip.h\<close>, \<open>tcp.h\<close>), the copy of the payload from the chunks into the ring and the part
  of \<open>exanic_poll_single_rx\<close> that handles TCP (\<open>exanic.c\<close>), and \<open>recvfrom_tcp\<close> (\<open>socket/recv.c\<close>).
  Packet memory is a function from offsets to bytes. The results of the successive calls of
  \<open>exanic_receive_chunk_inplace\<close> are an argument: the chunk, or \<open>None\<close> for a negative return, with
  what was stored in \<open>more_chunks\<close>, if anything.
\<close>

subsection \<open>Headers\<close>

definition le16_at :: "(nat \<Rightarrow> u8) \<Rightarrow> nat \<Rightarrow> u16" where
  "le16_at m i = ucast (m i) OR push_bit 8 (ucast (m (i + 1)))"

definition be16_at :: "(nat \<Rightarrow> u8) \<Rightarrow> nat \<Rightarrow> u16" where
  "be16_at m i = push_bit 8 (ucast (m i)) OR ucast (m (i + 1))"

definition be32_at :: "(nat \<Rightarrow> u8) \<Rightarrow> nat \<Rightarrow> u32" where
  "be32_at m i = push_bit 24 (ucast (m i)) OR push_bit 16 (ucast (m (i + 1))) OR push_bit 8 (ucast (m (i + 2))) OR ucast (m (i + 3))"

definition le32_at :: "(nat \<Rightarrow> u8) \<Rightarrow> nat \<Rightarrow> u32" where
  "le32_at m i = ucast (m i) OR push_bit 8 (ucast (m (i + 1))) OR push_bit 16 (ucast (m (i + 2))) OR push_bit 24 (ucast (m (i + 3)))"

text \<open>Addresses and ports stay in network order: the fields as this machine loads them.\<close>

record exa_ip =
  address :: u32
  broadcast :: u32

record ip_result =
  ip_peer :: u32
  ip_local :: u32
  ip_next :: nat
  ip_next_len :: nat
  ip_proto :: u8

definition IN_MULTICAST :: "u32 \<Rightarrow> bool" where
  "IN_MULTICAST a \<longleftrightarrow> a AND 0xF0000000 = 0xE0000000"

definition exa_ip_parse_hdr :: "exa_ip \<Rightarrow> (nat \<Rightarrow> u8) \<Rightarrow> nat \<Rightarrow> nat \<Rightarrow> ip_result option" where
  "exa_ip_parse_hdr ctx m hdr read_end =
     (let hl = unat (m hdr AND 0xF) * 4; dst = le32_at m (hdr + 16)
      in if sz_sub read_end hdr < 20 then None
         else if drop_bit 4 (m hdr) \<noteq> 4 then None
         else if dst \<noteq> address ctx \<and> \<not> IN_MULTICAST (ntohl dst) \<and> dst \<noteq> 0xFFFFFFFF \<and> dst \<noteq> broadcast ctx then None
         else if csum (map m [hdr..<hdr + hl]) 0 \<noteq> 0xFFFF then None
         else if be16_at m (hdr + 6) AND 0x3FFF \<noteq> 0 then None
         else Some \<lparr>ip_peer = le32_at m (hdr + 12), ip_local = dst, ip_next = hdr + hl,
                ip_next_len = sz_sub (unat (be16_at m (hdr + 2))) hl, ip_proto = m (hdr + 9)\<rparr>)"

definition ipaddr_csum :: "u32 \<Rightarrow> u32 \<Rightarrow> u64" where
  "ipaddr_csum peer local_addr = ucast peer + ucast local_addr"

record tcp_result =
  th_peer :: u16
  th_local :: u16
  th_opt :: nat
  th_opt_len :: nat
  th_data :: nat
  th_data_seq :: u32
  th_data_len :: nat
  th_ack_seq :: u32
  th_flags :: u8
  th_window :: u16
  th_csum :: u64

text \<open>\<open>htons (x)\<close>, added to the sum as a number.\<close>

definition htons_of_nat :: "nat \<Rightarrow> u64" where
  "htons_of_nat n = (let x = of_nat n :: u16 in ucast (push_bit 8 x OR drop_bit 8 x))"

definition exa_tcp_parse_hdr :: "(nat \<Rightarrow> u8) \<Rightarrow> nat \<Rightarrow> nat \<Rightarrow> nat \<Rightarrow> u64 \<Rightarrow> tcp_result option" where
  "exa_tcp_parse_hdr m hdr read_end pkt_len addr_csum =
     (let hdr_len = unat (drop_bit 4 (m (hdr + 12))) * 4; flags = m (hdr + 13)
      in if sz_sub read_end hdr < 20 then None
         else if hdr_len < 20 then None
         else if pkt_len < hdr_len then None
         else Some \<lparr>th_peer = le16_at m hdr, th_local = le16_at m (hdr + 2), th_opt = hdr + 20, th_opt_len = hdr_len - 20,
                th_data = hdr + hdr_len, th_data_seq = be32_at m (hdr + 4) + (if flags AND TH_SYN \<noteq> 0 then 1 else 0),
                th_data_len = pkt_len - hdr_len, th_ack_seq = be32_at m (hdr + 8), th_flags = flags,
                th_window = be16_at m (hdr + 14),
                th_csum = csum_part (map m [hdr..<hdr + hdr_len]) (addr_csum + htons_of_nat 6 + htons_of_nat pkt_len)\<rparr>)"

definition exa_tcp_validate_csum :: "u16 \<Rightarrow> u64 \<Rightarrow> bool" where
  "exa_tcp_validate_csum th_sum cs \<longleftrightarrow> \<not> (th_sum \<noteq> 0 \<and> csum_pack cs \<noteq> 0xFFFF)"

subsection \<open>Payload\<close>

type_synonym rcall = "bytes option \<times> bool option"

record body_io =
  io_calls :: "rcall list"
  io_csum :: u64
  io_more :: bool
  io_ring :: bytes

text \<open>\<open>Waiting\<close>: no further call has returned; the loop spins.\<close>

datatype 'a outcome = Waiting | Failed | Done 'a

definition next_call :: "rcall \<Rightarrow> rcall list \<Rightarrow> body_io \<Rightarrow> body_io" where
  "next_call c calls io = io\<lparr>io_calls := calls, io_more := (case snd c of None \<Rightarrow> io_more io | Some m \<Rightarrow> m)\<rparr>"

text \<open>The loop that skips \<open>skip\<close> bytes; its result is the rest of the chunk they end in.\<close>

primrec recv_skip :: "nat \<Rightarrow> rcall list \<Rightarrow> nat \<Rightarrow> nat \<Rightarrow> body_io \<Rightarrow> bytes outcome \<times> body_io" where
  "recv_skip skip [] offs remaining io = (Waiting, io)"
| "recv_skip skip (c # calls) offs remaining io =
     (let io1 = next_call c calls io
      in case fst c of
           None \<Rightarrow> (Failed, io1)
         | Some ptr \<Rightarrow>
             let io2 = io1\<lparr>io_csum := csum_part (take remaining ptr) (io_csum io1)\<rparr>
             in if skip \<le> offs + length ptr then (Done (drop (skip - offs) ptr), io2)
                else if \<not> io_more io2 then (Failed, io2)
                else recv_skip skip calls (offs + length ptr) (remaining - length ptr) io2)"

text \<open>The loop that fills a buffer of \<open>blen\<close> bytes at \<open>base\<close>.\<close>

primrec recv_fill :: "nat \<Rightarrow> nat \<Rightarrow> rcall list \<Rightarrow> nat \<Rightarrow> nat \<Rightarrow> body_io \<Rightarrow> bytes outcome \<times> body_io" where
  "recv_fill base blen [] offs remaining io = (Waiting, io)"
| "recv_fill base blen (c # calls) offs remaining io =
     (let io1 = next_call c calls io
      in case fst c of
           None \<Rightarrow> (Failed, io1)
         | Some ptr \<Rightarrow>
             let io2 = io1\<lparr>io_csum := csum_part (take remaining ptr) (io_csum io1)\<rparr>
             in if blen \<le> offs + length ptr
                then (Done (drop (blen - offs) ptr), io2\<lparr>io_ring := blit (io_ring io2) (base + offs) (take (blen - offs) ptr)\<rparr>)
                else let io3 = io2\<lparr>io_ring := blit (io_ring io2) (base + offs) ptr\<rparr>
                     in if \<not> io_more io3 then (Failed, io3)
                        else recv_fill base blen calls (offs + length ptr) (remaining - length ptr) io3)"

text \<open>One buffer: what is left of the current chunk first, then the loop.\<close>

definition recv_buf :: "nat \<Rightarrow> nat \<Rightarrow> nat \<Rightarrow> bytes \<Rightarrow> body_io \<Rightarrow> bytes outcome \<times> body_io" where
  "recv_buf base blen left part io =
     (if blen \<le> length part
      then (Done (drop blen part), io\<lparr>io_ring := blit (io_ring io) base (take blen part)\<rparr>)
      else recv_fill base blen (io_calls io) (length part) (left - length part) (io\<lparr>io_ring := blit (io_ring io) base part\<rparr>))"

definition exanic_poll_recv_body ::
    "nat \<Rightarrow> nat \<Rightarrow> nat \<Rightarrow> nat \<Rightarrow> nat \<Rightarrow> bytes \<Rightarrow> body_io \<Rightarrow> unit outcome \<times> body_io" where
  "exanic_poll_recv_body skip b1 l1 b2 l2 init io =
     (let n = skip + l1 + l2;
          io0 = io\<lparr>io_csum := csum_part (take n init) (io_csum io)\<rparr>
      in case (if skip \<le> length init then (Done (drop skip init), io0)
               else recv_skip skip (io_calls io0) (length init) (n - length init) io0) of
           (Waiting, io1) \<Rightarrow> (Waiting, io1)
         | (Failed, io1) \<Rightarrow> (Failed, io1)
         | (Done part, io1) \<Rightarrow>
             (case recv_buf b1 l1 (l1 + l2) part io1 of
                (Waiting, io2) \<Rightarrow> (Waiting, io2)
              | (Failed, io2) \<Rightarrow> (Failed, io2)
              | (Done part2, io2) \<Rightarrow>
                  (case recv_buf b2 l2 l2 part2 io2 of
                     (Waiting, io3) \<Rightarrow> (Waiting, io3)
                   | (Failed, io3) \<Rightarrow> (Failed, io3)
                   | (Done _, io3) \<Rightarrow> (Done (), io3))))"

subsection \<open>The packet\<close>

text \<open>What the packet and the hardware give, beside the socket.\<close>

record tcp_packet =
  pk_seq :: u32
  pk_len :: nat
  pk_ack :: u32
  pk_flags :: u8
  pk_win :: u16
  pk_opt :: "nat \<Rightarrow> u8"
  pk_opt_len :: nat
  pk_init :: bytes
  pk_csum :: u64
  pk_sum :: u16
  pk_more :: bool
  pk_calls :: "rcall list"
  pk_valid :: bool

datatype rx_status = Rx_waiting | Rx_hung | Rx_assert | Rx_dropped | Rx_aborted | Rx_committed

text \<open>
  The receive ring for the payload: without space, or without payload, all of it is skipped.
  \<open>pk_valid\<close> is the answer of \<open>exanic_receive_chunk_recheck\<close> for the header chunk.
\<close>

definition tcp_region :: "u32 list \<Rightarrow> exa_socket \<Rightarrow> tcp_packet \<Rightarrow> rx_region \<times> exa_socket" where
  "tcp_region intf sock p =
     (let (r, sock1) = (if pk_len p = 0 then (None, sock) else exa_tcp_rx_buffer_alloc intf sock (pk_seq p) (pk_len p))
      in (case r of Some g \<Rightarrow> g
          | None \<Rightarrow> \<lparr>al_prev = 0, al_buf1 = 0, al_len1 = 0, al_buf2 = 0, al_len2 = 0, al_skip = pk_len p\<rparr>, sock1))"

definition tcp_receive_payload :: "u32 list \<Rightarrow> exa_socket \<Rightarrow> tcp_packet \<Rightarrow> rx_status \<times> exa_socket \<times> body_io" where
  "tcp_receive_payload intf sock p =
     (let (g, sock1) = tcp_region intf sock p;
          (st, io) = exanic_poll_recv_body (al_skip g) (al_buf1 g) (al_len1 g) (al_buf2 g) (al_len2 g) (pk_init p)
             \<lparr>io_calls = pk_calls p, io_csum = pk_csum p, io_more = pk_more p, io_ring = rx_buffer sock1\<rparr>;
          sock2 = sock1\<lparr>rx_buffer := io_ring io\<rparr>;
          sq = pk_seq p + of_nat (al_skip g);
          n = al_len1 g + al_len2 g
      in case st of
           Waiting \<Rightarrow> (Rx_waiting, sock2, io)
         | Failed \<Rightarrow> (Rx_aborted, sock2\<lparr>tcp := exa_tcp_rx_buffer_abort (tcp sock2) sq n (al_prev g)\<rparr>, io)
         | Done _ \<Rightarrow>
             if exa_tcp_validate_csum (pk_sum p) (io_csum io) \<and> pk_valid p
             then (case exa_tcp_rx_buffer_commit (tcp sock2) sq n (al_prev g) of
                     None \<Rightarrow> (Rx_assert, sock2, io)
                   | Some t \<Rightarrow> (Rx_committed, sock2\<lparr>tcp := t\<rparr>, io))
             else (Rx_aborted, sock2\<lparr>tcp := exa_tcp_rx_buffer_abort (tcp sock2) sq n (al_prev g)\<rparr>, io))"

text \<open>The packet with the state machine around it; the last component is \<open>more_chunks\<close> at the end,
  which makes \<open>exanic_poll_single_rx\<close> call \<open>exanic_receive_abort\<close>.\<close>

definition tcp_receive_packet :: "u32 list \<Rightarrow> exa_socket \<Rightarrow> tcp_packet \<Rightarrow> rx_status \<times> exa_socket \<times> bool" where
  "tcp_receive_packet intf sock p =
     (if exa_tcp_listening (tcp sock) then (Rx_dropped, sock, pk_more p)
      else case exa_tcp_pre_update_state (tcp sock) (pk_flags p) (pk_seq p) (pk_ack p) (pk_opt p) (pk_opt_len p) of
             None \<Rightarrow> (Rx_hung, sock, pk_more p)
           | Some (Inl _) \<Rightarrow> (Rx_dropped, sock, pk_more p)
           | Some (Inr t) \<Rightarrow>
               (case tcp_receive_payload intf (sock\<lparr>tcp := t\<rparr>) p of
                  (Rx_committed, sock1, io) \<Rightarrow>
                    let sock2 = exa_tcp_update_state sock1 (pk_flags p) (pk_seq p) (pk_ack p) (pk_win p);
                        (t2, _) = exa_tcp_update_conn_state (tcp sock2) (pk_flags p) (pk_seq p) (pk_len p)
                    in (Rx_committed, sock2\<lparr>tcp := t2\<rparr>, io_more io)
                | (st, sock1, io) \<Rightarrow> (st, sock1, io_more io)))"

subsection \<open>The application\<close>

abbreviation (input) "ETIMEDOUT \<equiv> 110 :: nat"
abbreviation (input) "EINVAL \<equiv> 22 :: nat"
abbreviation (input) "EBADF \<equiv> 9 :: nat"

datatype recv_ready = Not_ready | Ready_error nat | Ready_data "(nat \<times> nat) \<times> (nat \<times> nat)"

text \<open>The test of \<open>recv_block_tcp\<close>, and whether it returns with \<open>rx_lock\<close> held; \<open>None\<close> is a socket whose state is gone.
  The branch for a failing \<open>exa_tcp_rx_buffer_read_begin\<close> is left out: that function returns 0.\<close>

definition recv_block_tcp_ready :: "exa_socket option \<Rightarrow> bool \<Rightarrow> recv_ready \<times> bool" where
  "recv_block_tcp_ready so rx_shutdown =
     (case so of
        None \<Rightarrow> (Ready_error EBADF, False)
      | Some sock \<Rightarrow>
          let ps = exa_tcp_rx_buffer_read_begin sock
          in if 0 < snd (fst ps) \<or> 0 < snd (snd ps) \<or> rx_shutdown then (Ready_data ps, True)
             else if exa_tcp_rx_buffer_eof (tcp sock)
             then if sock_error sock = ETIMEDOUT \<and> tcp_state (tcp sock) = EXA_TCP_CLOSED then (Ready_error ETIMEDOUT, True)
                  else (Ready_data ps, True)
             else (Not_ready, False))"

text \<open>The copy out of the two pieces.\<close>

definition recv_copy :: "bytes \<Rightarrow> (nat \<times> nat) \<times> (nat \<times> nat) \<Rightarrow> nat \<Rightarrow> bytes" where
  "recv_copy ring ps len =
     (let ((b1, l1), (b2, l2)) = ps
      in if l2 = 0 \<or> len \<le> l1 then take (min l1 len) (drop b1 ring)
         else take l1 (drop b1 ring) @ take (min (l1 + l2) len - l1) (drop b2 ring))"

text \<open>\<open>recvfrom_tcp\<close> when the wait tests the socket: \<open>None\<close> keeps waiting, otherwise the error or the bytes, the socket
  and whether \<open>rx_lock\<close> is held on return. The address of the peer is not returned.\<close>

definition recvfrom_tcp :: "bool \<Rightarrow> bool \<Rightarrow> exa_socket \<Rightarrow> nat \<Rightarrow> bool \<Rightarrow> ((nat + bytes) \<times> exa_socket \<times> bool) option" where
  "recvfrom_tcp connected rx_shutdown sock len peek =
     (if \<not> connected then Some (Inl EINVAL, sock, False)
      else case recv_block_tcp_ready (Some sock) rx_shutdown of
             (Not_ready, _) \<Rightarrow> None
           | (Ready_error e, locked) \<Rightarrow> Some (Inl e, sock, locked)
           | (Ready_data ps, _) \<Rightarrow>
               let buf = recv_copy (rx_buffer sock) ps len
               in Some (Inr buf, sock\<lparr>tcp := exa_tcp_rx_buffer_read_end (tcp sock) (if peek then 0 else length buf)\<rparr>, False))"

end
