(* ===== verification/TcpReasm.thy ===== *)
theory TcpReasm
  imports TcpBuffer
begin

text \<open>
  Reassembly against an abstract receiver that works on unbounded stream positions: the set of
  positions received, as the prefix before \<open>recv\<close> and a sorted list of separated intervals.
\<close>

subsection \<open>Positions and sequence numbers\<close>

lemma seq_compare_pos:
  assumes "int a - int b < 2 ^ 31" "int b - int a \<le> 2 ^ 31"
  shows "seq_compare (of_nat a) (of_nat b) = int a - int b"
proof -
  have d: "(of_nat a - of_nat b :: u32) = of_int (int a - int b)" by simp
  have small: "sint (of_int k :: u32) = k" if "- (2 ^ 31) \<le> k" "k < 2 ^ 31" for k
    using that by (simp add: signed_of_int signed_take_bit_int_eq_self)
  show ?thesis unfolding seq_compare_def d by (rule small) (use assms in simp_all)
qed

definition conc :: "nat \<times> nat \<Rightarrow> seg" where
  "conc s = (of_nat (fst s), of_nat (snd s))"

lemma conc_simps [simp]: "fst (conc s) = of_nat (fst s)" "snd (conc s) = of_nat (snd s)" "conc (b, e) = (of_nat b, of_nat e)"
  by (simp_all add: conc_def)

lemma seg_empty_zero [simp]: "seg_empty (0, 0)"
  by (simp add: seg_empty_def)

lemma seg_empty_conc: "b < e \<Longrightarrow> e - b < 2 ^ 32 \<Longrightarrow> \<not> seg_empty (of_nat b, of_nat e)"
  using unat_word_diff [of b e, where 'w = 32] by (auto simp: seg_empty_def)

subsection \<open>Sorted intervals\<close>

text \<open>Separated intervals after \<open>lo\<close>: no two of them touch.\<close>

fun segs_ok :: "nat \<Rightarrow> (nat \<times> nat) list \<Rightarrow> bool" where
  "segs_ok lo [] = True"
| "segs_ok lo ((b, e) # r) = (lo < b \<and> b < e \<and> segs_ok e r)"

definition covered :: "(nat \<times> nat) list \<Rightarrow> nat set" where
  "covered segs = (\<Union>(b, e)\<in>set segs. {b..<e})"

lemma covered_simps [simp]: "covered [] = {}" "covered ((b, e) # r) = {b..<e} \<union> covered r"
  "covered (xs @ ys) = covered xs \<union> covered ys"
  by (auto simp: covered_def)

lemma segs_ok_mono: "segs_ok lo r \<Longrightarrow> lo' \<le> lo \<Longrightarrow> segs_ok lo' r"
  by (cases r) auto

lemma segs_ok_above: "segs_ok lo r \<Longrightarrow> (b, e) \<in> set r \<Longrightarrow> lo < b \<and> b < e"
proof (induction lo r rule: segs_ok.induct)
  case (2 lo b' e' r)
  then show ?case by (metis segs_ok.simps(2) less_trans order_less_le_trans set_ConsD prod.inject less_imp_le)
qed simp

lemma covered_above: "segs_ok lo r \<Longrightarrow> x \<in> covered r \<Longrightarrow> lo < x"
  by (auto simp: covered_def dest!: segs_ok_above)

lemma segs_ok_append:
  "segs_ok lo (xs @ ys) \<longleftrightarrow> segs_ok lo xs \<and> segs_ok (if xs = [] then lo else snd (last xs)) ys"
  by (induction lo xs rule: segs_ok.induct) auto

lemma segs_ok_take: "segs_ok lo xs \<Longrightarrow> segs_ok lo (take n xs)"
  by (metis append_take_drop_id segs_ok_append)

text \<open>An interval that ends at \<open>m\<close> takes in the intervals it reaches.\<close>

fun absorb :: "nat \<Rightarrow> (nat \<times> nat) list \<Rightarrow> nat \<times> (nat \<times> nat) list" where
  "absorb m [] = (m, [])"
| "absorb m ((b, e) # r) = (if b \<le> m then absorb (max m e) r else (m, (b, e) # r))"

lemma absorb_spec:
  assumes "segs_ok lo r" "lo \<le> m"
  shows "segs_ok (fst (absorb m r)) (snd (absorb m r)) \<and> m \<le> fst (absorb m r) \<and>
    {lo..<m} \<union> covered r = {lo..<fst (absorb m r)} \<union> covered (snd (absorb m r)) \<and>
    length (snd (absorb m r)) \<le> length r"
  using assms
proof (induction m r arbitrary: lo rule: absorb.induct)
  case (2 m b e r)
  show ?case
  proof (cases "b \<le> m")
    case True
    have "segs_ok e r" "lo < b" "b < e" using 2 by simp_all
    then have "segs_ok lo r" by (auto elim: segs_ok_mono)
    from 2(1) [OF True this] 2(3)
    have IH: "segs_ok (fst (absorb (max m e) r)) (snd (absorb (max m e) r))" "max m e \<le> fst (absorb (max m e) r)"
      "{lo..<max m e} \<union> covered r = {lo..<fst (absorb (max m e) r)} \<union> covered (snd (absorb (max m e) r))"
      "length (snd (absorb (max m e) r)) \<le> length r" by simp_all
    have "{lo..<m} \<union> covered ((b, e) # r) = {lo..<max m e} \<union> covered r" using True \<open>lo < b\<close> by auto
    with IH True show ?thesis by simp
  next
    case False
    then show ?thesis using 2 by auto
  qed
qed simp

text \<open>The same with the reach fixed at the start, as the loops of the code have it.\<close>

lemma absorb_takeWhile:
  assumes "segs_ok lo r" "lo \<le> m"
  defines "t \<equiv> takeWhile (\<lambda>s. fst s \<le> m) r"
  shows "absorb m r = (if t = [] then m else max m (snd (last t)), drop (length t) r)"
  using assms(1,2) unfolding t_def
proof (induction r arbitrary: lo m)
  case (Cons s r)
  obtain b e where s: "s = (b, e)" by (cases s)
  show ?case
  proof (cases "b \<le> m")
    case True
    have ok: "segs_ok e r" using Cons.prems s by simp
    have tw: "takeWhile (\<lambda>s. fst s \<le> max m e) r = takeWhile (\<lambda>s. fst s \<le> m) r"
      using segs_ok_above [OF ok] by (intro takeWhile_cong) force+
    have "absorb (max m e) r = (if takeWhile (\<lambda>s. fst s \<le> m) r = [] then max m e
        else max (max m e) (snd (last (takeWhile (\<lambda>s. fst s \<le> m) r))), drop (length (takeWhile (\<lambda>s. fst s \<le> m) r)) r)"
      using Cons.IH [of e "max m e"] ok tw by simp
    moreover have "e < snd (last (takeWhile (\<lambda>s. fst s \<le> m) r))" if "takeWhile (\<lambda>s. fst s \<le> m) r \<noteq> []"
      using segs_ok_above [OF ok] set_takeWhileD [OF last_in_set [OF that]]
      by (metis less_trans prod.collapse)
    ultimately show ?thesis using True by (auto simp: s)
  next
    case False
    then show ?thesis by (simp add: s)
  qed
qed simp

subsection \<open>The array of segments\<close>

text \<open>The slots of the code for an abstract list.\<close>

definition slots :: "(nat \<times> nat) list \<Rightarrow> seg list" where
  "slots S = map conc S @ replicate (EXA_TCP_MAX_RX_SEGMENTS - length S) (0, 0)"

lemma length_slots [simp]: "length S \<le> 6 \<Longrightarrow> length (slots S) = 6"
  by (simp add: slots_def)

lemma slots_nth: "i < length S \<Longrightarrow> slots S ! i = conc (S ! i)"
  by (simp add: slots_def nth_append)

lemma slots_empty: "length S \<le> i \<Longrightarrow> i < 6 \<Longrightarrow> slots S ! i = (0, 0)"
  by (simp add: slots_def nth_append)

lemma slots_0: "slots S ! 0 = (case S of [] \<Rightarrow> (0, 0) | d # _ \<Rightarrow> conc d)"
  by (cases S) (simp_all add: slots_def)

lemma seg_scan_eq: "i \<le> length segs \<Longrightarrow> seg_scan P segs i = i + length (takeWhile P (drop i segs))"
proof (induction "length segs - i" arbitrary: i)
  case 0
  then show ?case by (simp add: seg_scan.simps [of P segs i])
next
  case (Suc n)
  then have "i < length segs" by linarith
  with Suc show ?case
    by (simp add: seg_scan.simps [of P segs i] Cons_nth_drop_Suc [symmetric])
qed

lemma scan_slots:
  assumes "i \<le> length S" "length S \<le> 6" "\<And>s. P s \<Longrightarrow> \<not> seg_empty s"
  shows "seg_scan P (slots S) i = i + length (takeWhile (\<lambda>s. P (conc s)) (drop i S))"
proof -
  have "takeWhile P (replicate n (0, 0)) = []" for n using assms(3) [of "(0, 0)"] by (cases n) auto
  moreover have "drop i (slots S) = map conc (drop i S) @ replicate (6 - length S) (0, 0)"
    using assms(1) by (simp add: slots_def drop_map)
  moreover have "takeWhile P (map conc xs @ replicate n (0, 0)) = map conc (takeWhile (\<lambda>s. P (conc s)) xs)" for xs n
    using \<open>\<And>n. takeWhile P (replicate n (0, 0)) = []\<close> by (induction xs) auto
  ultimately show ?thesis using assms by (simp add: seg_scan_eq)
qed

lemma move_slots: "j \<le> i \<Longrightarrow> i \<le> length S \<Longrightarrow> length S \<le> 6 \<Longrightarrow> seg_move j i (slots S) = slots (take j S @ drop i S)"
  by (simp add: seg_move_def slots_def take_map drop_map replicate_add [symmetric])

lemma update_slots: "i < length S \<Longrightarrow> (slots S)[i := conc s] = slots (S[i := s])"
  by (simp add: slots_def list_update_append map_update)

text \<open>All positions lie in a window of \<open>2 ^ 30\<close>, so that comparisons are those of the positions.\<close>

definition window :: "nat \<Rightarrow> nat \<Rightarrow> bool" where
  "window lo x \<longleftrightarrow> lo \<le> x \<and> x \<le> lo + 2 ^ 30"

lemma window_compare: "window lo a \<Longrightarrow> window lo b \<Longrightarrow> seq_compare (of_nat a) (of_nat b) = int a - int b"
  by (intro seq_compare_pos) (simp_all add: window_def)

definition segs_in :: "nat \<Rightarrow> (nat \<times> nat) list \<Rightarrow> bool" where
  "segs_in lo S \<longleftrightarrow> segs_ok lo S \<and> length S \<le> EXA_TCP_MAX_RX_SEGMENTS \<and> (\<forall>s\<in>set S. window lo (fst s) \<and> window lo (snd s) \<and> fst s < snd s)"

lemma segs_in_intro:
  assumes "segs_ok lo S" "length S \<le> 6" "\<And>s. s \<in> set S \<Longrightarrow> snd s \<le> lo + 2 ^ 30"
  shows "segs_in lo S"
proof -
  have "window lo (fst s) \<and> window lo (snd s) \<and> fst s < snd s" if "s \<in> set S" for s
    using segs_ok_above [OF assms(1), of "fst s" "snd s"] assms(3) [OF that] that by (simp add: window_def)
  with assms show ?thesis by (simp add: segs_in_def)
qed

lemma segs_in_nonempty: "segs_in lo S \<Longrightarrow> s \<in> set S \<Longrightarrow> \<not> seg_empty (conc s)"
proof -
  assume "segs_in lo S" "s \<in> set S"
  then have "window lo (fst s)" "window lo (snd s)" "fst s < snd s" by (simp_all add: segs_in_def)
  then show "\<not> seg_empty (conc s)" using seg_empty_conc [of "fst s" "snd s"] by (simp add: window_def conc_def)
qed

lemma segs_in_compare:
  assumes "segs_in lo S" "s \<in> set S" "window lo x"
  shows "seq_compare (of_nat (fst s)) (of_nat x) = int (fst s) - int x" "seq_compare (of_nat (snd s)) (of_nat x) = int (snd s) - int x"
    "seq_compare (of_nat x) (of_nat (fst s)) = int x - int (fst s)" "seq_compare (of_nat x) (of_nat (snd s)) = int x - int (snd s)"
proof -
  have "window lo (fst s)" "window lo (snd s)" using assms(1,2) by (simp_all add: segs_in_def)
  then show "seq_compare (of_nat (fst s)) (of_nat x) = int (fst s) - int x" "seq_compare (of_nat (snd s)) (of_nat x) = int (snd s) - int x"
    "seq_compare (of_nat x) (of_nat (fst s)) = int x - int (fst s)" "seq_compare (of_nat x) (of_nat (snd s)) = int x - int (snd s)"
    using assms(3) by (simp_all add: window_compare)
qed

text \<open>A loop that skips segments by comparing one bound with a position.\<close>

lemma scan_slots_cmp:
  assumes "length S \<le> 6" "i \<le> length S" "\<And>s. P s \<Longrightarrow> \<not> seg_empty s"
    and "\<And>s. s \<in> set (drop i S) \<Longrightarrow> P (conc s) \<longleftrightarrow> Q s"
  shows "seg_scan P (slots S) i = i + length (takeWhile Q (drop i S))"
proof -
  have "takeWhile (\<lambda>s. P (conc s)) (drop i S) = takeWhile Q (drop i S)"
    using assms(4) by (intro takeWhile_cong refl)
  then show ?thesis using scan_slots [OF assms(2,1,3)] by simp
qed

subsection \<open>Segments the kernel has processed\<close>

definition abs_drop :: "nat \<Rightarrow> (nat \<times> nat) list \<Rightarrow> (nat \<times> nat) list" where
  "abs_drop rc S =
     (if S \<noteq> [] \<and> snd (hd S) \<le> rc
      then (case dropWhile (\<lambda>s. snd s \<le> rc) S of [] \<Rightarrow> [] | (b, e) # r \<Rightarrow> (max b rc, e) # r)
      else S)"

lemma drop_processed_slots:
  assumes "segs_in lo S" "window lo rc"
  shows "drop_processed (of_nat rc) (slots S) = slots (abs_drop rc S)"
proof (cases S)
  case Nil
  then show ?thesis by (simp add: drop_processed_def abs_drop_def slots_empty)
next
  case (Cons s r)
  have len: "length S \<le> 6" using assms(1) by (simp add: segs_in_def)
  have s: "slots S ! 0 = conc s" "\<not> seg_empty (conc s)" "seq_compare (snd (conc s)) (of_nat rc) = int (snd s) - int rc"
    using Cons slots_nth [of 0 S] segs_in_nonempty [OF assms(1)] segs_in_compare(2) [OF assms(1) _ assms(2)] by simp_all
  show ?thesis
  proof (cases "snd s \<le> rc")
    case False
    then show ?thesis using s Cons by (simp add: drop_processed_def abs_drop_def)
  next
    case True
    let ?i = "length (takeWhile (\<lambda>s. snd s \<le> rc) S)"
    define D where "D = dropWhile (\<lambda>s. snd s \<le> rc) S"
    have ad: "abs_drop rc S = (case D of [] \<Rightarrow> [] | (b, e) # r \<Rightarrow> (max b rc, e) # r)"
      using Cons True by (simp add: abs_drop_def D_def)
    have "seg_scan (\<lambda>s. \<not> seg_empty s \<and> seq_compare (snd s) (of_nat rc) \<le> 0) (slots S) 1 = 1 + length (takeWhile (\<lambda>s. snd s \<le> rc) (drop 1 S))"
      using Cons segs_in_nonempty [OF assms(1)] segs_in_compare(2) [OF assms(1) _ assms(2)]
      by (intro scan_slots_cmp [OF len]) (auto dest: in_set_dropD)
    then have i: "seg_scan (\<lambda>s. \<not> seg_empty s \<and> seq_compare (snd s) (of_nat rc) \<le> 0) (slots S) 1 = ?i"
      using Cons True by simp
    have mv: "seg_move 0 ?i (slots S) = slots D"
      using move_slots [OF _ _ len, of 0 ?i] by (simp add: length_takeWhile_le dropWhile_eq_drop D_def)
    note D0 = slots_0 [of D]
    have "drop_processed (of_nat rc) (slots S) = (if \<not> seg_empty (slots D ! 0) \<and> seq_compare (fst (slots D ! 0)) (of_nat rc) < 0
        then (slots D)[0 := (of_nat rc, snd (slots D ! 0))] else slots D)"
      using s True by (simp add: drop_processed_def i [unfolded One_nat_def] mv Let_def)
    also have "\<dots> = slots (abs_drop rc S)"
    proof (cases D)
      case Nil
      then show ?thesis using D0 by (simp add: ad)
    next
      case D': (Cons d r')
      have d: "d \<in> set S" using D' set_dropWhileD [of d "\<lambda>s. snd s \<le> rc" S] by (simp flip: D_def)
      then have "\<not> seg_empty (conc d)" "seq_compare (fst (conc d)) (of_nat rc) = int (fst d) - int rc"
        using segs_in_nonempty [OF assms(1)] segs_in_compare(1) [OF assms(1) _ assms(2)] by simp_all
      moreover have "(slots (d # r'))[0 := conc (rc, snd d)] = slots ((rc, snd d) # r')"
        using update_slots [of 0 "d # r'" "(rc, snd d)"] by simp
      ultimately show ?thesis using D0 D' by (cases d) (simp add: max_def ad)
    qed
    finally show ?thesis .
  qed
qed

lemma abs_drop_spec:
  assumes "segs_in lo S" "window lo rc"
  shows "segs_in lo (abs_drop rc S)" "{..<rc} \<union> covered (abs_drop rc S) = {..<rc} \<union> covered S"
    "length (abs_drop rc S) \<le> length S" "segs_ok rc S \<Longrightarrow> abs_drop rc S = S"
proof -
  have ok: "segs_ok lo S" using assms(1) by (simp add: segs_in_def)
  have drop: "segs_ok lo (dropWhile (\<lambda>s. snd s \<le> rc) S) \<and> {..<rc} \<union> covered (dropWhile (\<lambda>s. snd s \<le> rc) S) = {..<rc} \<union> covered S"
    if "segs_ok lo S" for S
    using that
  proof (induction S)
    case (Cons s S)
    obtain b e where s: "s = (b, e)" by (cases s)
    with Cons.prems have "segs_ok e S" "lo \<le> e" "b < e" by simp_all
    have "segs_ok lo S" by (rule segs_ok_mono [OF \<open>segs_ok e S\<close> \<open>lo \<le> e\<close>])
    note IH = Cons.IH [OF this]
    show ?case
    proof (cases "e \<le> rc")
      case True
      then have "{..<rc} \<union> covered (s # S) = {..<rc} \<union> covered S" using s by auto
      then show ?thesis using IH True s by simp
    next
      case False
      then show ?thesis using Cons.prems s by simp
    qed
  qed simp
  define D where "D = dropWhile (\<lambda>s. snd s \<le> rc) S"
  have D: "segs_ok lo D" "{..<rc} \<union> covered D = {..<rc} \<union> covered S" using drop [OF ok] by (simp_all add: D_def)
  have ad: "abs_drop rc S = (if S \<noteq> [] \<and> snd (hd S) \<le> rc then (case D of [] \<Rightarrow> [] | (b, e) # r \<Rightarrow> (max b rc, e) # r) else S)"
    by (simp add: abs_drop_def D_def)
  show "length (abs_drop rc S) \<le> length S"
    using length_dropWhile_le [of "\<lambda>s. snd s \<le> rc" S] by (auto simp: abs_drop_def split: list.splits prod.splits)
  show "{..<rc} \<union> covered (abs_drop rc S) = {..<rc} \<union> covered S"
  proof (cases D)
    case (Cons d r)
    obtain b e where d: "d = (b, e)" by (cases d)
    have "{..<rc} \<union> {max b rc..<e} = {..<rc} \<union> {b..<e}" by auto
    then show ?thesis using D(2) Cons d by (auto simp: ad)
  qed (use D(2) in \<open>simp add: ad\<close>)
  show "segs_in lo (abs_drop rc S)"
  proof (rule segs_in_intro)
    show "length (abs_drop rc S) \<le> 6" using \<open>length (abs_drop rc S) \<le> length S\<close> assms(1) by (simp add: segs_in_def)
    show "segs_ok lo (abs_drop rc S)"
    proof (cases D)
      case (Cons d r)
      obtain b e where d: "d = (b, e)" by (cases d)
      have "\<not> snd d \<le> rc" using hd_dropWhile [of "\<lambda>s. snd s \<le> rc" S] Cons unfolding D_def by simp
      then show ?thesis using D(1) Cons d ok by (auto simp: ad)
    qed (use ok in \<open>simp add: ad\<close>)
    show "snd s \<le> lo + 2 ^ 30" if s: "s \<in> set (abs_drop rc S)" for s
    proof -
      have "\<exists>s'\<in>set S. snd s' = snd s"
      proof (cases D)
        case (Cons d r)
        then have "set (d # r) \<subseteq> set S" using set_dropWhileD [of _ "\<lambda>s. snd s \<le> rc" S] unfolding D_def by (metis subsetI)
        then show ?thesis using s Cons by (auto simp: ad split: if_splits prod.splits) force+
      qed (use s in \<open>auto simp: ad split: if_splits\<close>)
      then show ?thesis using assms(1) by (auto simp: segs_in_def window_def)
    qed
  qed
  show "abs_drop rc S = S" if "segs_ok rc S"
    using that by (cases S) (auto simp: abs_drop_def)
qed

subsection \<open>New data in order\<close>

lemma conc_not_empty: "window lo b \<Longrightarrow> window lo e \<Longrightarrow> b < e \<Longrightarrow> \<not> seg_empty (conc (b, e))"
  by (simp add: conc_def window_def seg_empty_conc)

lemma merge_front_slots:
  assumes "segs_in lo S" "window lo p"
  shows "merge_front (of_nat p) (slots S) = (of_nat (fst (absorb p S)), slots (snd (absorb p S)))"
proof (cases S)
  case Nil
  then show ?thesis by (simp add: merge_front_def slots_0)
next
  case (Cons s r)
  have len: "length S \<le> 6" and ok: "segs_ok lo S" "lo \<le> p" using assms by (simp_all add: segs_in_def window_def)
  have s: "slots S ! 0 = conc s" "\<not> seg_empty (conc s)" "seq_compare (fst (conc s)) (of_nat p) = int (fst s) - int p"
    using Cons slots_0 [of S] segs_in_nonempty [OF assms(1)] segs_in_compare(1) [OF assms(1) _ assms(2)] by simp_all
  show ?thesis
  proof (cases "fst s \<le> p")
    case False
    then show ?thesis using s Cons by (cases s) (simp add: merge_front_def)
  next
    case True
    define t where "t = takeWhile (\<lambda>s. fst s \<le> p) S"
    have t: "t \<noteq> []" "length t \<le> length S" using Cons True by (simp_all add: t_def length_takeWhile_le)
    have "seg_scan (\<lambda>s. 0 < snd s - fst s \<and> seq_compare (fst s) (of_nat p) \<le> 0) (slots S) 1 =
        1 + length (takeWhile (\<lambda>s. fst s \<le> p) (drop 1 S))"
    proof (rule scan_slots_cmp [OF len])
      show "0 < snd (conc s) - fst (conc s) \<and> seq_compare (fst (conc s)) (of_nat p) \<le> 0 \<longleftrightarrow> fst s \<le> p" if "s \<in> set (drop 1 S)" for s
        using segs_in_nonempty [OF assms(1) in_set_dropD [OF that]] segs_in_compare(1) [OF assms(1) in_set_dropD [OF that] assms(2)]
        by (auto simp: seg_empty_def word_gt_0)
    qed (use Cons in \<open>auto simp: seg_empty_def\<close>)
    then have i: "seg_scan (\<lambda>s. 0 < snd s - fst s \<and> seq_compare (fst s) (of_nat p) \<le> 0) (slots S) 1 = length t"
      using Cons True by (simp add: t_def)
    have l: "last t = S ! (length t - 1)" "last t \<in> set S"
      using t(1) set_takeWhileD [OF last_in_set [OF t(1), unfolded t_def]] by (simp_all add: last_conv_nth takeWhile_nth flip: t_def)
        (simp add: last_conv_nth t_def takeWhile_nth)
    have "slots S ! (length t - 1) = conc (last t)"
      unfolding l(1) using t by (intro slots_nth) (cases t; simp)
    moreover have "seq_compare (of_nat p) (snd (conc (last t))) = int p - int (snd (last t))"
      using segs_in_compare(4) [OF assms(1) l(2) assms(2)] by simp
    moreover have "seg_move 0 (length t) (slots S) = slots (drop (length t) S)" using move_slots [OF _ t(2) len] by simp
    moreover have "absorb p S = (max p (snd (last t)), drop (length t) S)"
      using absorb_takeWhile [OF ok] t(1) by (simp add: t_def)
    ultimately show ?thesis using s True by (simp add: merge_front_def i [unfolded One_nat_def] Let_def max_def)
  qed
qed

subsection \<open>New data out of order\<close>

definition abs_insert :: "nat \<Rightarrow> nat \<Rightarrow> (nat \<times> nat) list \<Rightarrow> (nat \<times> nat) list" where
  "abs_insert s e S =
     (let pre = takeWhile (\<lambda>x. snd x < s) S
      in if EXA_TCP_MAX_RX_SEGMENTS \<le> length pre then S
         else case drop (length pre) S of
                [] \<Rightarrow> pre @ [(s, e)]
              | (b, x) # r \<Rightarrow>
                  if e < b then take EXA_TCP_MAX_RX_SEGMENTS (pre @ (s, e) # (b, x) # r)
                  else pre @ (min s b, fst (absorb (max x e) r)) # snd (absorb (max x e) r))"

lemma insert_slot:
  assumes "length (pre @ q # r) \<le> 6"
  shows "take (length pre) (slots (pre @ q # r)) @ conc a # butlast (drop (length pre) (slots (pre @ q # r))) =
    slots (take 6 (pre @ a # q # r))"
proof (cases "length (pre @ q # r) = 6")
  case True
  then have "length pre < 6" "length r = 5 - length pre" by simp_all
  then have "take 6 (pre @ a # q # r) = pre @ a # butlast (q # r)" by (simp add: butlast_conv_take take_Cons')
  with True show ?thesis using map_butlast [of conc "q # r"] by (simp add: slots_def del: butlast.simps)
next
  case False
  define n where "n = 5 - length (pre @ q # r)"
  have n: "6 - length (pre @ q # r) = Suc n" "6 - length (pre @ a # q # r) = n" using assms False by (simp_all add: n_def)
  have "take 6 (pre @ a # q # r) = pre @ a # q # r" using assms False by simp
  moreover have "butlast (replicate (Suc n) z) = replicate n z" for z :: seg
    by (induction n) auto
  ultimately show ?thesis unfolding slots_def n by (simp add: butlast_append del: replicate_Suc) (simp add: n_def)
qed

lemma insert_slots:
  assumes "segs_in lo S" "window lo s" "window lo e" "s < e"
  shows "insert_segment (of_nat s) (of_nat e) (slots S) = Some (slots (abs_insert s e S))"
proof -
  have len: "length S \<le> 6" and ok: "segs_ok lo S" using assms by (simp_all add: segs_in_def)
  define pre where "pre = takeWhile (\<lambda>x. snd x < s) S"
  have pre: "S = pre @ drop (length pre) S" "length pre \<le> length S"
    by (simp_all add: pre_def length_takeWhile_le takeWhile_eq_take [symmetric]) (metis takeWhile_dropWhile_id dropWhile_eq_drop)
  have "seg_scan (\<lambda>x. \<not> seg_empty x \<and> seq_compare (snd x) (of_nat s) < 0) (slots S) 0 = 0 + length (takeWhile (\<lambda>x. snd x < s) (drop 0 S))"
    using segs_in_nonempty [OF assms(1)] segs_in_compare(2) [OF assms(1) _ assms(2)] by (intro scan_slots_cmp [OF len]) auto
  then have i: "seg_scan (\<lambda>x. \<not> seg_empty x \<and> seq_compare (snd x) (of_nat s) < 0) (slots S) 0 = length pre" by (simp add: pre_def)
  show ?thesis
  proof (cases "drop (length pre) S")
    case Nil
    then have S: "S = pre" using pre by simp
    show ?thesis
    proof (cases "6 \<le> length pre")
      case True
      then show ?thesis by (simp add: insert_segment_def i abs_insert_def Let_def flip: pre_def)
    next
      case False
      then have "slots S ! length pre = (0, 0)" using S by (intro slots_empty) simp_all
      moreover have "(slots S)[length pre := conc (s, e)] = slots (pre @ [(s, e)])"
        using False by (cases "6 - length pre") (auto simp: S slots_def list_update_append)
      ultimately show ?thesis using False Nil by (simp add: insert_segment_def i abs_insert_def Let_def flip: pre_def)
    qed
  next
    case (Cons bx r)
    obtain b x where bx: "bx = (b, x)" by (cases bx)
    have S: "S = pre @ (b, x) # r" using pre Cons bx by simp
    have i6: "length pre < 6" "length pre < length S" using len S by simp_all
    have in_S: "(b, x) \<in> set S" using S by simp
    have at_i: "slots S ! length pre = conc (b, x)" using slots_nth [OF i6(2)] by (simp add: S nth_append)
    have ne: "\<not> seg_empty (conc (b, x))" using segs_in_nonempty [OF assms(1) in_S] .
    have bx_win: "window lo b" "window lo x" "b < x" using assms(1) in_S by (auto simp: segs_in_def)
    have "\<not> x < s"
      using Cons bx pre by (metis dropWhile_eq_drop hd_dropWhile list.sel(1) list.discI pre_def snd_conv)
    have c: "seq_compare (of_nat e) (of_nat b) = int e - int b" "seq_compare (of_nat s) (of_nat x) = int s - int x"
      "seq_compare (of_nat b) (of_nat e) = int b - int e" "seq_compare (of_nat s) (of_nat b) = int s - int b"
      "seq_compare (of_nat x) (of_nat e) = int x - int e"
      using assms(2,3) bx_win by (simp_all add: window_compare)
    show ?thesis
    proof (cases "e < b")
      case True
      have "take (length pre) (slots S) @ conc (s, e) # butlast (drop (length pre) (slots S)) = slots (take 6 (pre @ (s, e) # (b, x) # r))"
        unfolding S by (rule insert_slot) (use len S in simp)
      then show ?thesis using True c i6 at_i ne Cons bx
        by (simp add: insert_segment_def i abs_insert_def Let_def flip: pre_def)
    next
      case False
      define e1 where "e1 = max x e"
      define S1 where "S1 = pre @ (min s b, e1) # r"
      define t where "t = takeWhile (\<lambda>s. fst s \<le> e1) r"
      have w1: "window lo e1" using assms(3) bx_win by (simp add: e1_def max_def)
      have S1: "(slots S)[length pre := conc (min s b, e1)] = slots S1" "length S1 \<le> 6" "drop (length pre + 1) S1 = r"
        using update_slots [OF i6(2), of "(min s b, e1)"] len by (simp_all add: S S1_def)
      have "seg_scan (\<lambda>x. \<not> seg_empty x \<and> seq_compare (fst x) (of_nat e1) \<le> 0) (slots S1) (length pre + 1) =
          length pre + 1 + length (takeWhile (\<lambda>s. fst s \<le> e1) (drop (length pre + 1) S1))"
      proof (rule scan_slots_cmp [OF S1(2)])
        show "\<not> seg_empty (conc s) \<and> seq_compare (fst (conc s)) (of_nat e1) \<le> 0 \<longleftrightarrow> fst s \<le> e1" if "s \<in> set (drop (length pre + 1) S1)" for s
        proof -
          have "s \<in> set S" using that unfolding S1(3) by (simp add: S)
          then show ?thesis using segs_in_nonempty [OF assms(1)] segs_in_compare(1) [OF assms(1) _ w1] by simp
        qed
      qed (simp_all add: S1_def)
      then have j: "seg_scan (\<lambda>x. \<not> seg_empty x \<and> seq_compare (fst x) (of_nat e1) \<le> 0) (slots S1) (length pre + 1) = length pre + 1 + length t"
        unfolding S1(3) by (simp add: t_def)
      have okr: "segs_ok x r" "x \<le> e1" using ok by (simp_all add: S segs_ok_append e1_def)
      define m where "m = (if t = [] then e1 else max e1 (snd (last t)))"
      have ab: "absorb e1 r = (m, drop (length t) r)" using absorb_takeWhile [OF okr] by (simp add: t_def m_def)
      have b1: "(if seq_compare (of_nat s) (of_nat b) < 0 then of_nat s else of_nat b) = (of_nat (min s b) :: u32)" and
        e1': "(if seq_compare (of_nat x) (of_nat e) < 0 then of_nat e else of_nat x) = (of_nat e1 :: u32)"
        using c by (simp_all add: min_def max_def e1_def)
      have t_len: "length t \<le> length r" by (simp add: t_def length_takeWhile_le)
      have le: "(if seq_compare (of_nat e1) (snd (slots S1 ! (length pre + 1 + length t - 1))) < 0
          then snd (slots S1 ! (length pre + 1 + length t - 1)) else of_nat e1) = of_nat m"
      proof (cases "t = []")
        case True
        then show ?thesis using slots_nth [of "length pre" S1] by (simp add: m_def S1_def seq_compare_def)
      next
        case t: False
        have "length pre + 1 + length t - 1 < length S1" using t t_len by (cases t) (simp_all add: S1_def)
        from slots_nth [OF this] have "slots S1 ! (length pre + 1 + length t - 1) = conc (r ! (length t - 1))"
          using t by (cases t) (simp_all add: S1_def nth_append)
        also have "r ! (length t - 1) = last t"
          using takeWhile_nth [of "length t - 1" "\<lambda>s. fst s \<le> e1" r] t by (simp add: last_conv_nth flip: t_def)
        finally have l: "slots S1 ! (length pre + 1 + length t - 1) = conc (last t)" .
        have "last t \<in> set S" using set_takeWhileD [OF last_in_set [OF t, unfolded t_def]] by (simp add: S flip: t_def)
        then have "seq_compare (of_nat e1) (of_nat (snd (last t))) = int e1 - int (snd (last t))"
          by (rule segs_in_compare(4) [OF assms(1) _ w1])
        then show ?thesis unfolding l using t by (simp add: m_def max_def)
      qed
      have mv: "seg_move (length pre + 1) (length pre + 1 + length t) ((slots S1)[length pre := (of_nat (min s b), of_nat m)]) =
          slots (pre @ (min s b, m) # drop (length t) r)"
        using update_slots [of "length pre" S1 "(min s b, m)"] S1(2) t_len
          move_slots [of "length pre + 1" "length pre + 1 + length t" "pre @ (min s b, m) # r"] by (simp add: S1_def)
      have "insert_segment (of_nat s) (of_nat e) (slots S) = Some (slots (pre @ (min s b, m) # drop (length t) r))"
        unfolding insert_segment_def Let_def i at_i conc_simps fst_conv snd_conv b1 e1' S1(1) [unfolded conc_simps] j le mv
        using i6 ne c False \<open>\<not> x < s\<close> by simp
      then show ?thesis using False i6 Cons bx
        by (simp add: abs_insert_def Let_def ab flip: pre_def e1_def)
    qed
  qed
qed

lemma segs_in_covered:
  assumes "segs_ok lo S" "length S \<le> 6" "covered S \<subseteq> {..<lo + 2 ^ 30}"
  shows "segs_in lo S"
proof (rule segs_in_intro [OF assms(1,2)])
  fix s assume s: "s \<in> set S"
  then have "fst s < snd s" using segs_ok_above [OF assms(1), of "fst s" "snd s"] by simp
  then have "snd s - 1 \<in> covered S" using s unfolding covered_def by (cases s) (auto intro!: bexI [of _ s])
  then have "snd s - 1 < lo + 2 ^ 30" using assms(3) by blast
  then show "snd s \<le> lo + 2 ^ 30" by linarith
qed

lemma covered_window: "segs_in lo S \<Longrightarrow> covered S \<subseteq> {..<lo + 2 ^ 30}"
  by (force simp: segs_in_def covered_def window_def)

lemma abs_insert_cases:
  obtains (full) pre where "6 \<le> length S" "abs_insert s e S = S"
  | (last) "\<And>x. x \<in> set S \<Longrightarrow> snd x < s" "length S < 6" "abs_insert s e S = S @ [(s, e)]"
  | (between) pre b x r where "S = pre @ (b, x) # r" "length pre < 6" "\<And>x. x \<in> set pre \<Longrightarrow> snd x < s" "s \<le> x" "e < b"
      "abs_insert s e S = take 6 (pre @ (s, e) # (b, x) # r)"
  | (merge) pre b x r where "S = pre @ (b, x) # r" "length pre < 6" "\<And>x. x \<in> set pre \<Longrightarrow> snd x < s" "s \<le> x" "b \<le> e"
      "abs_insert s e S = pre @ (min s b, fst (absorb (max x e) r)) # snd (absorb (max x e) r)"
proof -
  define pre where "pre = takeWhile (\<lambda>x. snd x < s) S"
  have split: "S = pre @ drop (length pre) S" by (simp add: pre_def takeWhile_eq_take [symmetric])
      (metis takeWhile_dropWhile_id dropWhile_eq_drop)
  have lt: "\<And>x. x \<in> set pre \<Longrightarrow> snd x < s" using set_takeWhileD unfolding pre_def by fastforce
  have ai: "abs_insert s e S = (if 6 \<le> length pre then S else case drop (length pre) S of [] \<Rightarrow> pre @ [(s, e)]
    | (b, x) # r \<Rightarrow> if e < b then take 6 (pre @ (s, e) # (b, x) # r)
                  else pre @ (min s b, fst (absorb (max x e) r)) # snd (absorb (max x e) r))"
    unfolding abs_insert_def Let_def pre_def ..
  show ?thesis
  proof (cases "6 \<le> length pre")
    case True
    then have "6 \<le> length S" using split by (metis length_append trans_le_add1)
    then show ?thesis using True ai by (intro full) simp_all
  next
    case lp: False
    show ?thesis
    proof (cases "drop (length pre) S")
      case Nil
      then have "S = pre" using split by simp
      then show ?thesis using Nil ai lt lp by (intro last) simp_all
    next
      case (Cons bx r)
      obtain b x where bx: "bx = (b, x)" by (cases bx)
      have S: "S = pre @ (b, x) # r" using split Cons bx by simp
      have "\<not> x < s" using Cons bx
        by (metis dropWhile_eq_drop hd_dropWhile list.sel(1) list.discI pre_def snd_conv)
      then show ?thesis using between [OF S] merge [OF S] lt lp ai Cons bx by (cases "e < b") simp_all
    qed
  qed
qed

lemma abs_insert_order:
  assumes "segs_ok lo S" "lo < s" "s < e"
  shows "segs_ok lo (abs_insert s e S)"
proof (cases s e S rule: abs_insert_cases)
  case last
  have "snd (List.last S) < s" if "S \<noteq> []" using last(1) that by simp
  then show ?thesis using assms last(3) by (auto simp: segs_ok_append)
next
  case (between pre b x r)
  have "snd (List.last pre) < s" if "pre \<noteq> []" using between(3) that by simp
  then have "segs_ok lo (pre @ (s, e) # (b, x) # r)" using assms between(5) by (auto simp: between(1) segs_ok_append)
  then show ?thesis unfolding between(6) by (rule segs_ok_take)
next
  case (merge pre b x r)
  define a where "a = absorb (max x e) r"
  have ok: "segs_ok lo pre" "(if pre = [] then lo else snd (List.last pre)) < b" "b < x" "segs_ok x r"
    using assms(1) by (simp_all add: merge(1) segs_ok_append)
  have a: "segs_ok (fst a) (snd a)" "max x e \<le> fst a" using absorb_spec [OF ok(4), of "max x e"] by (simp_all add: a_def)
  have "snd (List.last pre) < s" if "pre \<noteq> []" using merge(3) that by simp
  then show ?thesis using assms(2) ok a by (simp add: merge(6) segs_ok_append min_less_iff_disj flip: a_def)
qed (use assms in simp)

lemma abs_insert_covered:
  assumes "segs_ok lo S" "s < e" "length S \<le> 6"
  shows "covered (abs_insert s e S) \<subseteq> covered S \<union> {s..<e}"
    and "length S < 6 \<Longrightarrow> covered (abs_insert s e S) = covered S \<union> {s..<e}"
    and "length (abs_insert s e S) \<le> 6"
proof -
  have "covered (abs_insert s e S) \<subseteq> covered S \<union> {s..<e} \<and>
    (length S < 6 \<longrightarrow> covered (abs_insert s e S) = covered S \<union> {s..<e}) \<and> length (abs_insert s e S) \<le> 6"
  proof (cases s e S rule: abs_insert_cases)
    case (between pre b x r)
    have "covered (take n xs) \<subseteq> covered xs" for n xs by (force simp: covered_def dest: in_set_takeD)
    from this [of 6 "pre @ (s, e) # (b, x) # r"]
    have "covered (abs_insert s e S) \<subseteq> covered S \<union> {s..<e}" unfolding between(6) by (auto simp: between(1))
    moreover have "take 6 (pre @ (s, e) # (b, x) # r) = pre @ (s, e) # (b, x) # r" if "length S < 6"
      using that by (simp add: between(1))
    ultimately show ?thesis unfolding between(6) by (auto simp: between(1))
  next
    case (merge pre b x r)
    define a where "a = absorb (max x e) r"
    have okr: "b < x" "segs_ok x r" using assms(1) by (simp_all add: merge(1) segs_ok_append)
    have a: "max x e \<le> fst a" "{x..<max x e} \<union> covered r = {x..<fst a} \<union> covered (snd a)" "length (snd a) \<le> length r"
      using absorb_spec [OF okr(2), of "max x e"] by (simp_all add: a_def)
    have "{min s b..<fst a} = {min s b..<x} \<union> {x..<fst a}" using a(1) okr(1) by auto
    then have "{min s b..<fst a} \<union> covered (snd a) = {min s b..<x} \<union> ({x..<max x e} \<union> covered r)" using a(2) by blast
    also have "{min s b..<x} \<union> ({x..<max x e} \<union> covered r) = {min s b..<max x e} \<union> covered r" using okr(1) by auto
    also have "{min s b..<max x e} = {b..<x} \<union> {s..<e}" using merge(4,5) okr(1) assms(2) by auto
    finally have cov: "{min s b..<fst a} \<union> covered (snd a) = {b..<x} \<union> {s..<e} \<union> covered r" .
    have "covered (abs_insert s e S) = covered pre \<union> ({min s b..<fst a} \<union> covered (snd a))" by (simp add: merge(6) a_def)
    also have "\<dots> = covered S \<union> {s..<e}" unfolding cov by (auto simp: merge(1))
    finally show ?thesis using a(3) assms(3) by (simp add: merge(6)) (simp add: merge(1) a_def)
  qed (use assms in auto)
  then show "covered (abs_insert s e S) \<subseteq> covered S \<union> {s..<e}"
    and "length S < 6 \<Longrightarrow> covered (abs_insert s e S) = covered S \<union> {s..<e}"
    and "length (abs_insert s e S) \<le> 6" by simp_all
qed

end
