(* ===== verification/TcpProps.thy ===== *)
theory TcpProps
  imports TcpReasm
begin

text \<open>
  The claims about the TCP buffers. \<open>rep\<close> relates the state of the code to stream positions:
  the receive pointer stands for \<open>rc\<close>, the read pointer for \<open>rd\<close>, the array of segments
  for the list \<open>S\<close>, and all of them lie in one window.
\<close>

definition rep :: "nat \<Rightarrow> nat \<Rightarrow> nat \<Rightarrow> (nat \<times> nat) list \<Rightarrow> exa_tcp_state \<Rightarrow> bool" where
  "rep lo rd rc S t \<longleftrightarrow> read_seq t = of_nat rd \<and> recv_seq t = of_nat rc \<and> recv_seg t = slots S \<and>
     segs_in lo S \<and> lo \<le> rd \<and> rd \<le> rc \<and> rc \<le> lo + 2 ^ 30"

text \<open>The positions received: what the reader may take, and the segments beyond.\<close>

definition rcvd :: "nat \<Rightarrow> (nat \<times> nat) list \<Rightarrow> nat set" where
  "rcvd rc S = {..<rc} \<union> covered S"

lemma out_of_order_seg_count_simps [simp]:
  "recv_seq (out_of_order_seg_count t r) = recv_seq t" "read_seq (out_of_order_seg_count t r) = read_seq t"
  "proc_seq (out_of_order_seg_count t r) = proc_seq t" "recv_seg (out_of_order_seg_count t r) = recv_seg t"
  by (simp_all add: out_of_order_seg_count_def Let_def)

lemma out_of_order_reset_simps [simp]:
  "recv_seq (out_of_order_reset t) = recv_seq t" "read_seq (out_of_order_reset t) = read_seq t"
  "proc_seq (out_of_order_reset t) = proc_seq t" "recv_seg (out_of_order_reset t) = recv_seg t"
  by (simp_all add: out_of_order_reset_def)

lemma rep_window: "rep lo rd rc S t \<Longrightarrow> window lo rc"
  by (simp add: rep_def window_def)

lemma of_nat_window: "window lo a \<Longrightarrow> window lo b \<Longrightarrow> (of_nat a :: u32) = of_nat b \<longleftrightarrow> a = b"
  using window_compare [of lo a b] by (auto simp: seq_compare_def)

text \<open>New data in order: the receive pointer moves past it and past the segments it reaches.\<close>

lemma commit_in_order:
  assumes "rep lo rd rc S t" "proc_seq t = of_nat (rc + len)" "0 < len" "rc + len \<le> lo + 2 ^ 30"
  defines "a \<equiv> absorb (rc + len) (abs_drop rc S)"
  shows "\<exists>t'. exa_tcp_rx_buffer_commit t (of_nat rc) len prev = Some t' \<and> rep lo rd (fst a) (snd a) t' \<and>
    proc_seq t' = of_nat (fst a) \<and> rc + len \<le> fst a \<and> segs_ok (fst a) (snd a) \<and>
    rcvd (fst a) (snd a) = rcvd rc S \<union> {rc..<rc + len}"
proof -
  have r: "segs_in lo S" "lo \<le> rd" "rd \<le> rc" "recv_seq t = of_nat rc" "read_seq t = of_nat rd" "recv_seg t = slots S"
    using assms(1) by (simp_all add: rep_def)
  have w: "window lo rc" "window lo (rc + len)" using assms(1,4) r by (simp_all add: rep_def window_def)
  have d: "segs_in lo (abs_drop rc S)" "{..<rc} \<union> covered (abs_drop rc S) = {..<rc} \<union> covered S"
    using abs_drop_spec [OF r(1) w(1)] by simp_all
  have dr: "drop_processed (of_nat rc) (slots S) = slots (abs_drop rc S)" by (rule drop_processed_slots [OF r(1) w(1)])
  have mf: "merge_front (proc_seq t) (slots (abs_drop rc S)) = (of_nat (fst a), slots (snd a))"
    using merge_front_slots [OF d(1) w(2)] assms(2) by (simp add: a_def)
  have ab: "segs_ok (fst a) (snd a)" "rc + len \<le> fst a"
      "{lo..<rc + len} \<union> covered (abs_drop rc S) = {lo..<fst a} \<union> covered (snd a)" "length (snd a) \<le> length (abs_drop rc S)"
    using absorb_spec [of lo "abs_drop rc S" "rc + len"] d(1) r by (simp_all add: a_def segs_in_def)
  have lo: "lo \<le> rc" using r by simp
  have "{lo..<fst a} \<union> covered (snd a) \<subseteq> {..<lo + 2 ^ 30}"
    unfolding ab(3) [symmetric] using covered_window [OF d(1)] assms(4) by auto
  then have "fst a \<le> lo + 2 ^ 30" "covered (snd a) \<subseteq> {..<lo + 2 ^ 30}"
    using ab(2) assms(3) lo ivl_subset [of lo "fst a" 0 "lo + 2 ^ 30"] by (auto simp: atLeast0LessThan)
  moreover have "segs_ok lo (snd a)" using segs_ok_mono [OF ab(1), of lo] ab(2) lo by simp
  moreover have "length (snd a) \<le> 6" using ab(4) d(1) by (simp add: segs_in_def)
  ultimately have a_in: "segs_in lo (snd a)" "window lo (fst a)"
    using segs_in_covered ab(2) lo by (simp_all add: window_def)
  have "{..<fst a} \<union> covered (snd a) = {..<lo} \<union> ({lo..<fst a} \<union> covered (snd a))" using ab(2) lo by auto
  also have "\<dots> = {..<rc + len} \<union> covered (abs_drop rc S)" unfolding ab(3) [symmetric] using lo by auto
  also have "\<dots> = {rc..<rc + len} \<union> ({..<rc} \<union> covered (abs_drop rc S))" by auto
  finally have rcv: "rcvd (fst a) (snd a) = rcvd rc S \<union> {rc..<rc + len}" unfolding rcvd_def d(2) by auto
  have front: "seg_empty (slots (snd a) ! 0) \<or> seq_compare (fst (slots (snd a) ! 0)) (of_nat (fst a)) > 0"
  proof (cases "snd a")
    case (Cons q rest)
    have "fst a < fst q" using ab(1) Cons by (cases q) simp
    moreover have "seq_compare (fst (conc q)) (of_nat (fst a)) = int (fst q) - int (fst a)"
      using segs_in_compare(1) [OF a_in(1) _ a_in(2), of q] Cons by simp
    ultimately show ?thesis using Cons by (simp add: slots_0)
  qed (simp add: slots_0)
  then have "exa_tcp_rx_buffer_commit t (of_nat rc) len prev =
      Some (out_of_order_reset (t\<lparr>proc_seq := of_nat (fst a), recv_seg := slots (snd a), recv_seq := of_nat (fst a)\<rparr>))"
    using assms(3) unfolding exa_tcp_rx_buffer_commit_def Let_def r(4,6) dr mf by simp
  then show ?thesis using r a_in ab rcv by (simp add: rep_def window_def)
qed

text \<open>New data beyond the receive pointer goes to the list; only when nothing is being processed
  before it and the first segment starts at the receive pointer does that pointer move.\<close>

lemma commit_out_of_order:
  assumes "rep lo rd rc S t" "0 < len" "rc \<le> pv" "pv \<le> s" "s \<noteq> rc" "s + len \<le> lo + 2 ^ 30"
  defines "I \<equiv> abs_insert s (s + len) (abs_drop rc S)"
  shows "\<exists>t' rc' S'. exa_tcp_rx_buffer_commit t (of_nat s) len (of_nat pv) = Some t' \<and> rep lo rd rc' S' t' \<and>
    rcvd rc' S' = rcvd rc I \<and> rc \<le> rc' \<and> (segs_ok rc S \<longrightarrow> segs_ok rc' S') \<and>
    proc_seq t' = (if rc' = rc then of_nat pv else of_nat rc')"
proof -
  have r: "segs_in lo S" "lo \<le> rd" "rd \<le> rc" "recv_seq t = of_nat rc" "read_seq t = of_nat rd" "recv_seg t = slots S"
      "rc \<le> lo + 2 ^ 30"
    using assms(1) by (simp_all add: rep_def)
  have w: "window lo rc" "window lo s" "window lo (s + len)" "window lo pv"
    using assms r by (simp_all add: window_def)
  have d: "segs_in lo (abs_drop rc S)" using abs_drop_spec [OF r(1) w(1)] by simp
  have dr: "drop_processed (of_nat rc) (slots S) = slots (abs_drop rc S)" by (rule drop_processed_slots [OF r(1) w(1)])
  have ins: "insert_segment (of_nat s) (of_nat s + of_nat len) (slots (abs_drop rc S)) = Some (slots I)"
    using insert_slots [OF d w(2,3)] assms(2) by (simp add: I_def)
  have d': "segs_ok lo (abs_drop rc S)" "length (abs_drop rc S) \<le> 6" using d by (simp_all add: segs_in_def)
  have I1: "segs_ok lo I" using abs_insert_order [OF d'(1)] r assms by (simp add: I_def)
  have I2: "length I \<le> 6" "covered I \<subseteq> covered (abs_drop rc S) \<union> {s..<s + len}"
    using abs_insert_covered [OF d'(1) _ d'(2), of s "s + len"] assms(2) by (simp_all add: I_def)
  then have "covered I \<subseteq> {..<lo + 2 ^ 30}" using covered_window [OF d] assms(6) by fastforce
  then have I: "segs_in lo I" by (rule segs_in_covered [OF I1 I2(1)])
  have fresh: "segs_ok rc I" if "segs_ok rc S"
  proof -
    have "abs_drop rc S = S" using abs_drop_spec(4) [OF r(1) w(1) that] .
    then show ?thesis using abs_insert_order [OF that, of s "s + len"] assms by (simp add: I_def)
  qed
  have neq: "(of_nat rc :: u32) \<noteq> of_nat s" using of_nat_window [OF w(1,2)] assms(5) by simp
  define t1 where "t1 = out_of_order_seg_count t (recv_seq t)"
  have t1: "recv_seq t1 = of_nat rc" "read_seq t1 = of_nat rd" by (simp_all add: t1_def r)
  have cm: "exa_tcp_rx_buffer_commit t (of_nat s) len (of_nat pv) =
      (if fst (slots I ! 0) = of_nat rc \<and> \<not> seg_empty (slots I ! 0) \<and> (of_nat rc :: u32) = of_nat pv
       then Some (t1\<lparr>recv_seq := snd (slots I ! 0), proc_seq := snd (slots I ! 0), recv_seg := seg_move 0 1 (slots I)\<rparr>)
       else Some (t1\<lparr>recv_seg := slots I, proc_seq := of_nat pv\<rparr>))"
    using neq assms(2) by (simp add: exa_tcp_rx_buffer_commit_def Let_def r(4,6) dr ins t1_def)
  show ?thesis
  proof (cases "fst (slots I ! 0) = of_nat rc \<and> \<not> seg_empty (slots I ! 0) \<and> (of_nat rc :: u32) = of_nat pv")
    case False
    have "rep lo rd rc I (t1\<lparr>recv_seg := slots I, proc_seq := of_nat pv\<rparr>)" using t1 r I by (simp add: rep_def)
    then show ?thesis using cm False fresh by (intro exI [of _ "t1\<lparr>recv_seg := slots I, proc_seq := of_nat pv\<rparr>"] exI [of _ rc] exI [of _ I]) simp
  next
    case True
    then obtain q R where q: "I = q # R" by (cases I) (auto simp: slots_0)
    obtain b e where be: "q = (b, e)" by (cases q)
    have win: "window lo b" "window lo e" "b < e" using I q be by (simp_all add: segs_in_def)
    have "b = rc" using True of_nat_window [OF win(1) w(1)] by (simp add: q be slots_0)
    have mv: "seg_move 0 1 (slots I) = slots R" using move_slots [of 0 1 I] I2(1) q by simp
    have ok: "segs_ok e R" using I1 q be by simp
    then have "segs_ok lo R" using segs_ok_mono [of e R lo] win by (simp add: window_def)
    then have R: "segs_in lo R" using I q by (simp add: segs_in_def)
    define t' where "t' = t1\<lparr>recv_seq := of_nat e, proc_seq := of_nat e, recv_seg := slots R\<rparr>"
    have "exa_tcp_rx_buffer_commit t (of_nat s) len (of_nat pv) = Some t'"
      unfolding cm if_P [OF True] mv by (simp add: t'_def q be slots_0)
    moreover have "rep lo rd e R t'"
      using t1 r R win \<open>b = rc\<close> by (simp add: rep_def t'_def window_def)
    moreover have "rcvd e R = rcvd rc I" using win \<open>b = rc\<close> by (auto simp: rcvd_def q be)
    moreover have "proc_seq t' = (if e = rc then of_nat pv else of_nat e)" using win \<open>b = rc\<close> by (simp add: t'_def)
    ultimately show ?thesis using ok win \<open>b = rc\<close> by (metis order_less_imp_le)
  qed
qed

text \<open>Both cases.\<close>

lemma commit_spec:
  assumes "rep lo rd rc S t" "proc_seq t = of_nat (s + len)" "0 < len" "rc \<le> pv" "pv \<le> s" "s + len \<le> lo + 2 ^ 30"
  obtains t' rc' S' where "exa_tcp_rx_buffer_commit t (of_nat s) len (of_nat pv) = Some t'" "rep lo rd rc' S' t'"
    "rcvd rc' S' \<subseteq> rcvd rc S \<union> {s..<s + len}"
    "s = rc \<or> length S < 6 \<Longrightarrow> rcvd rc' S' = rcvd rc S \<union> {s..<s + len}"
    "rc \<le> rc'" "s = rc \<Longrightarrow> s + len \<le> rc'" "segs_ok rc S \<Longrightarrow> segs_ok rc' S'"
    "proc_seq t' = (if rc' = rc then of_nat pv else of_nat rc')"
proof (cases "s = rc")
  case True
  define a where "a = absorb (rc + len) (abs_drop rc S)"
  obtain t' where t': "exa_tcp_rx_buffer_commit t (of_nat s) len (of_nat pv) = Some t'" "rep lo rd (fst a) (snd a) t'"
      "proc_seq t' = of_nat (fst a)" "rc + len \<le> fst a" "segs_ok (fst a) (snd a)"
      "rcvd (fst a) (snd a) = rcvd rc S \<union> {s..<s + len}"
    using commit_in_order [OF assms(1) _ assms(3), of "of_nat pv"] assms True by (auto simp: a_def)
  show ?thesis by (rule that [OF t'(1,2)]) (use t'(3-6) True assms(3) in simp_all)
next
  case False
  have r: "segs_in lo S" using assms(1) by (simp add: rep_def)
  note d = abs_drop_spec [OF r rep_window [OF assms(1)]]
  define D where "D = abs_drop rc S"
  define I where "I = abs_insert s (s + len) D"
  have D: "segs_ok lo D" "length D \<le> 6" "length D \<le> length S" "rcvd rc D = rcvd rc S"
    using d by (simp_all add: D_def segs_in_def rcvd_def)
  have I: "covered I \<subseteq> covered D \<union> {s..<s + len}" "length S < 6 \<longrightarrow> covered I = covered D \<union> {s..<s + len}"
    using abs_insert_covered [OF D(1) _ D(2), of s "s + len"] D(3) assms(3) by (simp_all add: I_def)
  have "rcvd rc I \<subseteq> rcvd rc D \<union> {s..<s + len}" "length S < 6 \<longrightarrow> rcvd rc I = rcvd rc D \<union> {s..<s + len}"
    using I unfolding rcvd_def by auto
  note rI = this [unfolded D(4)]
  obtain t' rc' S' where t': "exa_tcp_rx_buffer_commit t (of_nat s) len (of_nat pv) = Some t'" "rep lo rd rc' S' t'"
      "rcvd rc' S' = rcvd rc I" "rc \<le> rc'" "segs_ok rc S \<longrightarrow> segs_ok rc' S'"
      "proc_seq t' = (if rc' = rc then of_nat pv else of_nat rc')"
    using commit_out_of_order [OF assms(1,3,4,5) False assms(6)] by (auto simp: I_def D_def)
  show ?thesis by (rule that [OF t'(1,2)]) (use t'(3-) rI False in simp_all)
qed

text \<open>C20. A commit refines the receiver that works on positions. It never fails; what it records
  as received is never more than what was received before and the new data; all of the new data is recorded when it is in order
  or fewer than six segments are stored, while with six stored data out of order may be discarded; the receive pointer never moves back, and moves past data in order; the
  segments stay sorted, apart and beyond the receive pointer; the processing pointer is the
  receive pointer, or goes back to where the allocation found it.\<close>

theorem commit_refines:
  assumes "rep lo rd rc S t" "proc_seq t = of_nat (s + len)" "0 < len" "rc \<le> pv" "pv \<le> s" "s + len \<le> lo + 2 ^ 30"
  shows "\<exists>t' rc' S'. exa_tcp_rx_buffer_commit t (of_nat s) len (of_nat pv) = Some t' \<and> rep lo rd rc' S' t' \<and>
    rcvd rc' S' \<subseteq> rcvd rc S \<union> {s..<s + len} \<and>
    (s = rc \<or> length S < 6 \<longrightarrow> rcvd rc' S' = rcvd rc S \<union> {s..<s + len}) \<and>
    rc \<le> rc' \<and> (s = rc \<longrightarrow> s + len \<le> rc') \<and> (segs_ok rc S \<longrightarrow> segs_ok rc' S') \<and>
    proc_seq t' \<in> {recv_seq t', of_nat pv}"
proof -
  from assms obtain t' rc' S' where c: "exa_tcp_rx_buffer_commit t (of_nat s) len (of_nat pv) = Some t'" "rep lo rd rc' S' t'"
      "rcvd rc' S' \<subseteq> rcvd rc S \<union> {s..<s + len}"
      "s = rc \<or> length S < 6 \<longrightarrow> rcvd rc' S' = rcvd rc S \<union> {s..<s + len}"
      "rc \<le> rc'" "s = rc \<longrightarrow> s + len \<le> rc'" "segs_ok rc S \<longrightarrow> segs_ok rc' S'"
      "proc_seq t' = (if rc' = rc then of_nat pv else of_nat rc')"
    by (rule commit_spec) simp
  moreover have "recv_seq t' = of_nat rc'" using c(2) by (simp add: rep_def)
  ultimately show ?thesis by (intro exI [of _ t'] exI [of _ rc'] exI [of _ S']) simp
qed

text \<open>A socket just before the wrap of the sequence numbers.\<close>

definition demo_tcp :: exa_tcp_state where
  "demo_tcp = \<lparr>read_seq = 0xFFFFFFFE, adv_wnd_end = 0, dup_acks_seq = 0, tx_consistent = True, send_seq = 0,
     wnd_end_pending = 0, recv_seg = replicate 6 (0, 0), ooo_ack_seq = 0xFFFFFFFE, ooo_seg_count = 0, send_ack = 0, rwnd_end = 0,
     recv_seq = 0xFFFFFFFE, proc_seq = 0xFFFFFFFE, rmss = 1460, wscale = 0, tcp_state = EXA_TCP_ESTABLISHED, cwnd = 0,
     ate_wnd_end = 0, ack_pending = False, init_send_seq = 0, init_recv_seq = 0xFFFFFFFE\<rparr>"

definition demo_sock :: exa_socket where
  "demo_sock = \<lparr>tcp = demo_tcp, rx_buffer_size = 4, tx_buffer_size = 4, rx_buffer = [9, 9, 9, 9], tx_buffer = [9, 9, 9, 9], sock_error = 0\<rparr>"

lemma commit_refines_witness:
  "\<exists>t' rc' S'. exa_tcp_rx_buffer_commit (demo_tcp\<lparr>proc_seq := 2\<rparr>) (of_nat 4294967296) 2 (of_nat 4294967294) = Some t' \<and>
    rep 4294967290 4294967294 rc' S' t' \<and> rcvd rc' S' = rcvd 4294967294 [] \<union> {4294967296..<4294967296 + 2}"
proof -
  have r: "rep 4294967290 4294967294 4294967294 [] (demo_tcp\<lparr>proc_seq := 2\<rparr>)"
    by (simp add: rep_def demo_tcp_def slots_def segs_in_def)
  have "proc_seq (demo_tcp\<lparr>proc_seq := 2\<rparr>) = of_nat (4294967296 + 2)" by simp
  from commit_refines [OF r this, of 4294967294] show ?thesis by fastforce
qed

end
