(* ===== verification/TcpRing.thy ===== *)
theory TcpRing
  imports TcpProps
begin

text \<open>
  Where stream positions lie in the ring, and what \<open>exa_tcp_rx_buffer_alloc\<close> and
  \<open>exa_tcp_rx_buffer_read_begin\<close> hand out: the pieces list the slots of the positions in order.
\<close>

subsection \<open>Slots of positions\<close>

lemma ring_piece:
  assumes "a \<le> b" "a mod N + (b - a) \<le> N"
  shows "map (\<lambda>p. p mod N) [a..<b] = [a mod N..<a mod N + (b - a)]"
proof (rule nth_equalityI)
  fix i assume "i < length (map (\<lambda>p. p mod N) [a..<b])"
  then have i: "i < b - a" by simp
  have "(a + i) mod N = (a mod N + i) mod N" by (simp add: mod_add_left_eq)
  also have "\<dots> = a mod N + i" using i assms(2) by simp
  finally show "map (\<lambda>p. p mod N) [a..<b] ! i = [a mod N..<a mod N + (b - a)] ! i" using i by simp
qed simp

lemma ring_split:
  assumes "a \<le> w" "w \<le> b" "b - a \<le> N" "b < w + N" "w mod N = 0"
  shows "map (\<lambda>p. p mod N) [a..<b] = [a mod N..<a mod N + (w - a)] @ [0..<b - w]" "a mod N + (w - a) \<le> N"
proof -
  define q where "q = w div N"
  have q: "w = N * q" using mult_div_mod_eq [of N w] assms(5) by (simp add: q_def)
  show le: "a mod N + (w - a) \<le> N"
  proof (cases "a = w")
    case False
    define r where "r = a - N * (q - 1)"
    have "0 < q" using q False assms(1) by (cases q) simp_all
    then have w: "w = N * (q - 1) + N" using q by (cases q) simp_all
    then have a: "a = N * (q - 1) + r" "r < N" using assms(1,2,3) False by (simp_all add: r_def)
    then have "a mod N = r" by simp
    then show ?thesis using a w by simp
  qed (use assms(5) in simp)
  have "[a..<b] = [a..<w] @ [w..<b]" using assms(1,2) by (metis le_Suc_ex upt_add_eq_append le_add_diff_inverse)
  then show "map (\<lambda>p. p mod N) [a..<b] = [a mod N..<a mod N + (w - a)] @ [0..<b - w]"
    using ring_piece [OF assms(1) le] ring_piece [of w b N] assms by simp
qed

lemma pow_mask:
  fixes m :: u32
  assumes "m = 2 ^ k - 1" "k \<le> 30"
  shows "unat (of_nat a AND m) = a mod 2 ^ k" "of_nat a AND NOT m = of_nat (a - a mod 2 ^ k)"
proof -
  have "a mod 4294967296 mod 2 ^ k = a mod 2 ^ k"
    using assms(2) le_imp_power_dvd [of k 32 "2 :: nat"] by (intro mod_mod_cancel) simp
  then show un: "unat (of_nat a AND m) = a mod 2 ^ k"
    unfolding assms(1) and_mask_mod by (simp add: unat_of_nat take_bit_eq_mod)
  have "of_nat a AND NOT m = of_nat a - (of_nat a AND m)"
    by (subst disjunctive_diff_eq_and_not) (auto simp: bit_eq_iff bit_simps)
  also have "of_nat a AND m = of_nat (unat (of_nat a AND m))" by simp
  also note un
  finally show "of_nat a AND NOT m = of_nat (a - a mod 2 ^ k)" by simp
qed

lemma ring_mask:
  assumes "rx_buffer_size sock = 2 ^ k" "k \<le> 30"
  shows "unat (of_nat a AND rx_mask sock) = a mod 2 ^ k" "of_nat a AND NOT (rx_mask sock) = of_nat (a - a mod 2 ^ k)"
  using pow_mask [of "rx_mask sock" k] assms by (simp_all add: rx_mask_def)

subsection \<open>Allocation\<close>

text \<open>The slots of the two pieces.\<close>

definition region_slots :: "rx_region \<Rightarrow> nat list" where
  "region_slots g = [al_buf1 g..<al_buf1 g + al_len1 g] @ [al_buf2 g..<al_buf2 g + al_len2 g]"

lemma alloc_result:
  assumes "rx_buffer_size sock = 2 ^ k" "k \<le> 30" "rep lo rd rc S (tcp sock)" "proc_seq (tcp sock) = of_nat pc"
    and "rc \<le> pc" "pc \<le> lo + 2 ^ 30" "lo \<le> x" "x + n \<le> lo + 2 ^ 30"
  shows "\<not> (pc < x + n \<and> x + n \<le> rd + 2 ^ k) \<Longrightarrow> exa_tcp_rx_buffer_alloc [] sock (of_nat x) n = (None, sock)"
    and "pc < x + n \<Longrightarrow> x + n \<le> rd + 2 ^ k \<Longrightarrow>
      \<exists>g. exa_tcp_rx_buffer_alloc [] sock (of_nat x) n = (Some g, sock\<lparr>tcp := (tcp sock)\<lparr>proc_seq := of_nat (x + n)\<rparr>\<rparr>) \<and>
        al_prev g = of_nat pc \<and> al_skip g = max x pc - x \<and> al_len1 g + al_len2 g = x + n - max x pc \<and>
        al_buf1 g + al_len1 g \<le> 2 ^ k \<and> al_buf2 g + al_len2 g \<le> 2 ^ k \<and>
        region_slots g = map (\<lambda>p. p mod 2 ^ k) [max x pc..<x + n]"
proof -
  let ?a = "max x pc" and ?e = "x + n"
  define w where "w = ?e - ?e mod 2 ^ k"
  have r: "read_seq (tcp sock) = of_nat rd" "lo \<le> rd" "rd \<le> rc" using assms(3) by (simp_all add: rep_def)
  have kp: "(2 :: nat) ^ k \<le> 2 ^ 30" using assms(2) by (intro power_increasing) simp_all
  have win: "window lo x" "window lo ?e" "window lo pc" "window lo rd" using assms r by (simp_all add: window_def)
  have e: "of_nat x + of_nat n = (of_nat ?e :: u32)" by simp
  have cmp: "seq_compare (of_nat ?e) (of_nat pc) = int ?e - int pc" "seq_compare (of_nat x) (of_nat pc) = int x - int pc"
    using win window_compare by blast+
  have ws: "of_nat ?e AND NOT (rx_mask sock) = of_nat w" unfolding w_def by (rule ring_mask(2) [OF assms(1,2)])
  have w: "w \<le> ?e" "?e < w + 2 ^ k" "w mod 2 ^ k = 0" "?e - w < 2 ^ 32"
  proof -
    have m: "?e mod 2 ^ k < 2 ^ k" by simp
    show "w \<le> ?e" by (simp add: w_def)
    show "?e < w + 2 ^ k" using m mod_less_eq_dividend [of ?e "2 ^ k"] unfolding w_def by linarith
    show "w mod 2 ^ k = 0" unfolding w_def by (simp add: minus_mod_eq_mult_div)
    show "?e - w < 2 ^ 32" using \<open>?e < w + 2 ^ k\<close> kp by simp
  qed
  have space: "\<not> 2 ^ k < unat (of_nat ?e - of_nat rd :: u32) \<longleftrightarrow> ?e \<le> rd + 2 ^ k" if "pc < ?e"
  proof -
    have "unat (of_nat ?e - of_nat rd :: u32) = ?e - rd"
      using that r assms by (intro unat_word_diff) simp_all
    then show ?thesis by auto
  qed
  show "exa_tcp_rx_buffer_alloc [] sock (of_nat x) n = (None, sock)" if "\<not> (pc < ?e \<and> ?e \<le> rd + 2 ^ k)"
  proof (cases "pc < ?e")
    case True
    then show ?thesis using that space [OF True] by (simp add: exa_tcp_rx_buffer_alloc_def Let_def r(1) assms(1))
  next
    case False
    then have "seq_compare (of_nat x + of_nat n) (proc_seq (tcp sock)) \<le> 0" using cmp(1) unfolding e assms(4) by linarith
    then show ?thesis by (simp add: exa_tcp_rx_buffer_alloc_def Let_def)
  qed
  assume new: "pc < ?e" and fits: "?e \<le> rd + 2 ^ k"
  have n1: "\<not> rx_buffer_size sock < unat (of_nat ?e - read_seq (tcp sock))" using space [OF new] fits by (simp add: r(1) assms(1))
  have n2: "\<not> seq_compare (of_nat ?e) (proc_seq (tcp sock)) \<le> 0" using cmp(1) new unfolding assms(4) by linarith
  have a: "?a \<le> ?e" "?e - ?a \<le> 2 ^ k" using new fits r assms by simp_all
  have alloc: "(if seq_compare (of_nat x) (of_nat pc) < 0 then of_nat pc else of_nat x) = (of_nat ?a :: u32)"
    using cmp(2) by (simp add: max_def)
  have skip: "(if seq_compare (of_nat x) (of_nat pc) < 0 then unat (of_nat pc - of_nat x :: u32) else 0) = ?a - x"
  proof (cases "x < pc")
    case True
    then have "unat (of_nat pc - of_nat x :: u32) = pc - x" using assms by (intro unat_word_diff) simp_all
    then show ?thesis using True cmp(2) by simp
  qed (use cmp(2) in simp)
  have wc: "seq_compare (of_nat ?a) (of_nat w) < 0 \<longleftrightarrow> ?a < w"
  proof -
    have "seq_compare (of_nat ?a) (of_nat w) = int ?a - int w"
      using a w kp by (intro seq_compare_pos) simp_all
    then show ?thesis by simp
  qed
  have b1: "unat (of_nat ?a AND rx_mask sock) = ?a mod 2 ^ k" by (rule ring_mask(1) [OF assms(1,2)])
  have al: "exa_tcp_rx_buffer_alloc [] sock (of_nat x) n =
      (Some (if ?a < w then \<lparr>al_prev = of_nat pc, al_buf1 = ?a mod 2 ^ k, al_len1 = unat (of_nat w - of_nat ?a :: u32),
               al_buf2 = 0, al_len2 = unat (of_nat ?e - of_nat w :: u32), al_skip = ?a - x\<rparr>
             else \<lparr>al_prev = of_nat pc, al_buf1 = ?a mod 2 ^ k, al_len1 = unat (of_nat ?e - of_nat ?a :: u32),
               al_buf2 = 0, al_len2 = 0, al_skip = ?a - x\<rparr>),
       sock\<lparr>tcp := (tcp sock)\<lparr>proc_seq := of_nat ?e\<rparr>\<rparr>)"
    unfolding exa_tcp_rx_buffer_alloc_def Let_def e if_not_P [OF n1] if_not_P [OF n2] proc_seq_cas.simps simp_thms if_True
      prod.case not_True_eq_False if_False assms(4) ws alloc skip wc b1
    using n2 by (simp add: assms(4))
  have le: "unat (of_nat w - of_nat ?a :: u32) = w - ?a" if "?a < w" using that w a kp by (intro unat_word_diff) simp_all
  have "?e - ?a < 2 ^ LENGTH(32)" "?e - w < 2 ^ LENGTH(32)" using w a kp by simp_all
  note ee = unat_word_diff [OF a(1) this(1)] unat_word_diff [OF w(1) this(2)]
  show "\<exists>g. exa_tcp_rx_buffer_alloc [] sock (of_nat x) n = (Some g, sock\<lparr>tcp := (tcp sock)\<lparr>proc_seq := of_nat ?e\<rparr>\<rparr>) \<and>
        al_prev g = of_nat pc \<and> al_skip g = ?a - x \<and> al_len1 g + al_len2 g = ?e - ?a \<and>
        al_buf1 g + al_len1 g \<le> 2 ^ k \<and> al_buf2 g + al_len2 g \<le> 2 ^ k \<and>
        region_slots g = map (\<lambda>p. p mod 2 ^ k) [?a..<?e]"
  proof (cases "?a < w")
    case True
    then show ?thesis unfolding al if_P [OF True] le [OF True] ee
      using ring_split [of ?a w ?e "2 ^ k"] w a by (simp add: region_slots_def)
  next
    case False
    then have "?a mod 2 ^ k + (?e - ?a) \<le> 2 ^ k"
    proof -
      have "?a = w + (?a - w)" "?a - w < 2 ^ k" using False w a by linarith+
      then have "?a mod 2 ^ k = ?a - w" using w(3) by (metis add.left_neutral mod_add_left_eq mod_less)
      then show ?thesis using False w a by linarith
    qed
    then show ?thesis unfolding al if_not_P [OF False] ee
      using ring_piece [of ?a ?e "2 ^ k"] a by (simp add: region_slots_def)
  qed
qed

subsection \<open>Reading\<close>

definition read_slots :: "(nat \<times> nat) \<times> (nat \<times> nat) \<Rightarrow> nat list" where
  "read_slots ps = [fst (fst ps)..<fst (fst ps) + snd (fst ps)] @ [fst (snd ps)..<fst (snd ps) + snd (snd ps)]"

lemma read_begin_slots:
  assumes "rx_buffer_size sock = 2 ^ k" "k \<le> 30" "rep lo rd rc S (tcp sock)" "rc \<le> rd + 2 ^ k"
  shows "read_slots (exa_tcp_rx_buffer_read_begin sock) = map (\<lambda>p. p mod 2 ^ k) [rd..<rc]"
proof -
  have r: "read_seq (tcp sock) = of_nat rd" "recv_seq (tcp sock) = of_nat rc" "rd \<le> rc" "rc \<le> lo + 2 ^ 30" "lo \<le> rd"
    using assms(3) by (simp_all add: rep_def)
  have n: "unat (of_nat rc - of_nat rd :: u32) = rc - rd" using r by (intro unat_word_diff) simp_all
  have off: "unat (of_nat rd AND rx_mask sock) = rd mod 2 ^ k" by (rule ring_mask(1) [OF assms(1,2)])
  let ?o = "rd mod 2 ^ k"
  have o: "?o < 2 ^ k" by simp
  show ?thesis
  proof (cases "rc - rd \<le> 2 ^ k - ?o")
    case True
    then have "?o + (rc - rd) \<le> 2 ^ k" using o by linarith
    then show ?thesis using True ring_piece [OF r(3), of "2 ^ k"]
      by (simp add: exa_tcp_rx_buffer_read_begin_def Let_def r(1,2) n off assms(1) read_slots_def)
  next
    case False
    define w where "w = rd + (2 ^ k - ?o)"
    have "w = rd - ?o + 2 ^ k" using o mod_less_eq_dividend [of rd "2 ^ k"] unfolding w_def by linarith
    moreover have "(rd - ?o) mod 2 ^ k = 0" by (simp add: minus_mod_eq_mult_div)
    ultimately have w: "w mod 2 ^ k = 0" by (metis mod_add_self2)
    have le: "rd \<le> w" "w \<le> rc" "rc - rd \<le> 2 ^ k" "rc < w + 2 ^ k" "w - rd = 2 ^ k - ?o" "rd + 2 ^ k - ?o = w"
      using False assms(4) o unfolding w_def by linarith+
    show ?thesis using False o unfolding ring_split(1) [OF le(1-4) w] le(5)
      by (simp add: exa_tcp_rx_buffer_read_begin_def Let_def r(1,2) n off assms(1) read_slots_def le(6))
  qed
qed

lemma ring_disjoint:
  fixes xs ys :: "nat list"
  assumes "\<And>p q. p \<in> set xs \<Longrightarrow> q \<in> set ys \<Longrightarrow> q < p \<and> p < q + N"
  shows "set (map (\<lambda>p. p mod N) xs) \<inter> set (map (\<lambda>p. p mod N) ys) = {}"
proof (rule ccontr)
  assume "set (map (\<lambda>p. p mod N) xs) \<inter> set (map (\<lambda>p. p mod N) ys) \<noteq> {}"
  then obtain p q where "p \<in> set xs" "q \<in> set ys" "p mod N = q mod N" by auto
  moreover from this assms have "q < p" "p < q + N" by simp_all
  moreover from this have "p - q < N" by linarith
  ultimately show False using mod_eq_near [of q N p] by simp
qed

subsection \<open>Claim\<close>

text \<open>C21. The allocation of ring space for a segment. It succeeds exactly when the segment ends beyond
  what has been taken for processing and fits in the ring after the unread data; then the two
  pieces lie inside the ring and are the slots, in order, of the positions that are new, none
  of them a slot the reader is being offered.\<close>

theorem alloc_bounds:
  assumes "rx_buffer_size sock = 2 ^ k" "k \<le> 30" "rep lo rd rc S (tcp sock)" "proc_seq (tcp sock) = of_nat pc"
    and "rc \<le> pc" "pc \<le> lo + 2 ^ 30" "lo \<le> x" "x + n \<le> lo + 2 ^ 30"
  shows "case exa_tcp_rx_buffer_alloc [] sock (of_nat x) n of
      (None, sock') \<Rightarrow> sock' = sock \<and> \<not> (pc < x + n \<and> x + n \<le> rd + 2 ^ k)
    | (Some g, sock') \<Rightarrow> pc < x + n \<and> x + n \<le> rd + 2 ^ k \<and>
        sock' = sock\<lparr>tcp := (tcp sock)\<lparr>proc_seq := of_nat (x + n)\<rparr>\<rparr> \<and> al_prev g = of_nat pc \<and> al_skip g = max x pc - x \<and>
        al_buf1 g + al_len1 g \<le> 2 ^ k \<and> al_buf2 g + al_len2 g \<le> 2 ^ k \<and>
        region_slots g = map (\<lambda>p. p mod 2 ^ k) [max x pc..<x + n] \<and>
        set (region_slots g) \<inter> set (read_slots (exa_tcp_rx_buffer_read_begin sock)) = {}"
proof (cases "pc < x + n \<and> x + n \<le> rd + 2 ^ k")
  case False
  then show ?thesis using alloc_result(1) [OF assms] by simp
next
  case True
  then obtain g where g: "exa_tcp_rx_buffer_alloc [] sock (of_nat x) n =
        (Some g, sock\<lparr>tcp := (tcp sock)\<lparr>proc_seq := of_nat (x + n)\<rparr>\<rparr>)" "al_prev g = of_nat pc" "al_skip g = max x pc - x"
      "al_buf1 g + al_len1 g \<le> 2 ^ k" "al_buf2 g + al_len2 g \<le> 2 ^ k"
      "region_slots g = map (\<lambda>p. p mod 2 ^ k) [max x pc..<x + n]"
    using alloc_result(2) [OF assms] by blast
  have "read_slots (exa_tcp_rx_buffer_read_begin sock) = map (\<lambda>p. p mod 2 ^ k) [rd..<rc]"
    using True assms(5) by (intro read_begin_slots [OF assms(1,2,3)]) simp
  moreover have "set (map (\<lambda>p. p mod 2 ^ k) [max x pc..<x + n]) \<inter> set (map (\<lambda>p. p mod 2 ^ k) [rd..<rc]) = {}"
    using True assms(5) by (intro ring_disjoint) auto
  ultimately show ?thesis unfolding g(1) using g(2-) True by simp
qed

lemma alloc_bounds_witness:
  "\<exists>g sock'. exa_tcp_rx_buffer_alloc [] demo_sock 0xFFFFFFFF 3 = (Some g, sock') \<and>
    region_slots g = map (\<lambda>p. p mod 4) [4294967295..<4294967298]"
proof -
  have "rep 4294967290 4294967294 4294967294 [] (tcp demo_sock)"
    by (simp add: rep_def demo_sock_def demo_tcp_def slots_def segs_in_def)
  moreover have "rx_buffer_size demo_sock = 2 ^ 2" "proc_seq (tcp demo_sock) = of_nat 4294967294"
    by (simp_all add: demo_sock_def demo_tcp_def)
  ultimately show ?thesis using alloc_bounds [of demo_sock 2 4294967290 4294967294 4294967294 "[]" 4294967294 4294967295 3]
    by (auto split: prod.splits option.splits)
qed

end
