(* ===== verification/TcpCopy.thy ===== *)
theory TcpCopy
  imports TcpRx TcpRing
begin

text \<open>
  The copy of a payload into the ring: it changes only the slots of the region, and when it
  ends it has put there the bytes after the skipped ones, whatever the sizes of the chunks.
\<close>

subsection \<open>The bytes of the calls\<close>

definition calls_bytes :: "rcall list \<Rightarrow> bytes" where
  "calls_bytes calls = concat (map (\<lambda>c. case fst c of None \<Rightarrow> [] | Some p \<Rightarrow> p) calls)"

lemma calls_bytes_simps [simp]:
  "calls_bytes [] = []" "fst c = Some p \<Longrightarrow> calls_bytes (c # cs) = p @ calls_bytes cs"
  by (simp_all add: calls_bytes_def)

lemma next_call_simps [simp]: "io_calls (next_call c cs io) = cs" "io_ring (next_call c cs io) = io_ring io"
  by (simp_all add: next_call_def)

subsection \<open>Changes inside an interval\<close>

definition unchanged_outside :: "nat set \<Rightarrow> bytes \<Rightarrow> bytes \<Rightarrow> bool" where
  "unchanged_outside A r r' \<longleftrightarrow> length r' = length r \<and> (\<forall>i. i \<notin> A \<longrightarrow> i < length r \<longrightarrow> r' ! i = r ! i)"

lemma unchanged_outside_refl [simp]: "unchanged_outside A r r"
  by (simp add: unchanged_outside_def)

lemma unchanged_outside_trans: "unchanged_outside A r r' \<Longrightarrow> unchanged_outside A r' r'' \<Longrightarrow> unchanged_outside A r r''"
  by (auto simp: unchanged_outside_def)

lemma unchanged_outside_mono: "unchanged_outside A r r' \<Longrightarrow> A \<subseteq> B \<Longrightarrow> unchanged_outside B r r'"
  by (auto simp: unchanged_outside_def)

lemma unchanged_outside_blit:
  "base + length p \<le> length r \<Longrightarrow> unchanged_outside {base..<base + length p} r (blit r base p)"
  by (auto simp: unchanged_outside_def blit_def nth_append)

definition slice :: "nat \<Rightarrow> nat \<Rightarrow> bytes \<Rightarrow> bytes" where
  "slice base n r = take n (drop base r)"

lemma slice_blit: "base + length p \<le> length r \<Longrightarrow> slice base (length p) (blit r base p) = p"
  by (simp add: slice_def blit_def)

lemma slice_same:
  "unchanged_outside A r r' \<Longrightarrow> A \<inter> {base..<base + n} = {} \<Longrightarrow> base + n \<le> length r \<Longrightarrow> slice base n r' = slice base n r"
proof (rule nth_equalityI)
  fix i assume a: "unchanged_outside A r r'" "A \<inter> {base..<base + n} = {}" "base + n \<le> length r" "i < length (slice base n r')"
  then have "i < n" "base + i \<notin> A" by (auto simp: slice_def)
  then show "slice base n r' ! i = slice base n r ! i" using a by (simp add: slice_def unchanged_outside_def)
qed (simp add: slice_def unchanged_outside_def)

lemma slice_split: "slice base (m + n) r = slice base m r @ slice (base + m) n r"
  by (simp add: slice_def take_add add.commute)

subsection \<open>The loops\<close>

lemma recv_skip_ring: "io_ring (snd (recv_skip skip calls offs rm io)) = io_ring io"
  by (induction calls arbitrary: offs rm io) (simp_all add: Let_def split: option.splits)

lemma recv_skip_done:
  "recv_skip skip calls offs rm io = (Done part, io') \<Longrightarrow> offs \<le> skip \<Longrightarrow>
    skip - offs \<le> length (calls_bytes calls) \<and> part @ calls_bytes (io_calls io') = drop (skip - offs) (calls_bytes calls)"
proof (induction calls arbitrary: offs rm io)
  case (Cons c calls)
  then obtain p where p: "fst c = Some p" by (cases "fst c") (simp_all add: Let_def)
  show ?case
  proof (cases "skip \<le> offs + length p")
    case True
    then show ?thesis using Cons.prems p by (auto simp: Let_def)
  next
    case False
    then have "recv_skip skip calls (offs + length p) (rm - length p)
        ((next_call c calls io)\<lparr>io_csum := csum_part (take rm p) (io_csum (next_call c calls io))\<rparr>) = (Done part, io')"
      using Cons.prems(1) p by (simp add: Let_def split: if_splits)
    from Cons.IH [OF this] False
    have "skip - (offs + length p) \<le> length (calls_bytes calls)"
      "part @ calls_bytes (io_calls io') = drop (skip - (offs + length p)) (calls_bytes calls)" by simp_all
    then show ?thesis using p False by (simp add: le_diff_conv)
  qed
qed simp

lemma recv_fill_done:
  assumes "recv_fill base blen calls offs rm io = (st, io')" "offs \<le> blen" "base + blen \<le> length (io_ring io)"
  shows "unchanged_outside {base + offs..<base + blen} (io_ring io) (io_ring io') \<and>
    (\<forall>part. st = Done part \<longrightarrow> blen - offs \<le> length (calls_bytes calls) \<and>
      slice (base + offs) (blen - offs) (io_ring io') = take (blen - offs) (calls_bytes calls) \<and>
      part @ calls_bytes (io_calls io') = drop (blen - offs) (calls_bytes calls))"
  using assms
proof (induction calls arbitrary: offs rm io)
  case (Cons c calls)
  let ?io1 = "next_call c calls io"
  show ?case
  proof (cases "fst c")
    case None
    then show ?thesis using Cons.prems by (auto simp: Let_def)
  next
    case (Some p)
    define io2 where "io2 = ?io1\<lparr>io_csum := csum_part (take rm p) (io_csum ?io1)\<rparr>"
    have io2: "io_ring io2 = io_ring io" "io_calls io2 = calls" by (simp_all add: io2_def)
    show ?thesis
    proof (cases "blen \<le> offs + length p")
      case True
      let ?q = "take (blen - offs) p"
      have q: "length ?q = blen - offs" "base + offs + length ?q \<le> length (io_ring io)" using True Cons.prems by simp_all
      have "st = Done (drop (blen - offs) p)" "io' = io2\<lparr>io_ring := blit (io_ring io) (base + offs) ?q\<rparr>"
        using Cons.prems(1) True Some by (simp_all add: Let_def io2_def)
      then show ?thesis using unchanged_outside_blit [OF q(2)] slice_blit [OF q(2)] q True Some Cons.prems(2) by (simp add: io2)
    next
      case False
      define io3 where "io3 = io2\<lparr>io_ring := blit (io_ring io) (base + offs) p\<rparr>"
      have b: "unchanged_outside {base + offs..<base + offs + length p} (io_ring io) (io_ring io3)"
          "slice (base + offs) (length p) (io_ring io3) = p" "length (io_ring io3) = length (io_ring io)"
        using False Cons.prems(3) by (simp_all add: io3_def unchanged_outside_blit slice_blit)
      show ?thesis
      proof (cases "io_more io3")
        case False
        have "st = Failed \<and> io' = io3" using Cons.prems(1) \<open>\<not> blen \<le> offs + length p\<close> Some False
          by (simp add: Let_def io3_def io2_def)
        moreover have "unchanged_outside {base + offs..<base + blen} (io_ring io) (io_ring io3)"
          using \<open>\<not> blen \<le> offs + length p\<close> by (intro unchanged_outside_mono [OF b(1)]) auto
        ultimately show ?thesis by simp
      next
        case True
        have "recv_fill base blen calls (offs + length p) (rm - length p) io3 = (st, io')"
          using Cons.prems(1) False Some True by (simp add: Let_def io3_def io2_def)
        from Cons.IH [OF this] False Cons.prems(3) b(3)
        have IH: "unchanged_outside {base + (offs + length p)..<base + blen} (io_ring io3) (io_ring io')"
          "\<forall>part. st = Done part \<longrightarrow> blen - (offs + length p) \<le> length (calls_bytes calls) \<and>
            slice (base + (offs + length p)) (blen - (offs + length p)) (io_ring io') = take (blen - (offs + length p)) (calls_bytes calls) \<and>
            part @ calls_bytes (io_calls io') = drop (blen - (offs + length p)) (calls_bytes calls)" by simp_all
        have out: "unchanged_outside {base + offs..<base + blen} (io_ring io) (io_ring io')"
          using False by (intro unchanged_outside_trans [OF unchanged_outside_mono [OF b(1)] unchanged_outside_mono [OF IH(1)]]) auto
        have keep: "slice (base + offs) (length p) (io_ring io') = p"
          using slice_same [OF IH(1), of "base + offs" "length p"] b(2,3) False Cons.prems(3) by auto
        have n: "blen - offs = length p + (blen - (offs + length p))" using False by simp
        show ?thesis
        proof (intro conjI allI impI)
          fix part assume st: "st = Done part"
          show "slice (base + offs) (blen - offs) (io_ring io') = take (blen - offs) (calls_bytes (c # calls))"
            using IH(2) st keep Some unfolding n slice_split by (simp add: add.assoc)
          show "blen - offs \<le> length (calls_bytes (c # calls))" "part @ calls_bytes (io_calls io') = drop (blen - offs) (calls_bytes (c # calls))"
            using IH(2) st Some n by simp_all
        qed (rule out)
      qed
    qed
  qed
qed simp

lemma recv_buf_done:
  assumes "recv_buf base blen left part io = (st, io')" "base + blen \<le> length (io_ring io)"
  shows "unchanged_outside {base..<base + blen} (io_ring io) (io_ring io') \<and>
    (\<forall>rest. st = Done rest \<longrightarrow> blen \<le> length (part @ calls_bytes (io_calls io)) \<and>
      slice base blen (io_ring io') = take blen (part @ calls_bytes (io_calls io)) \<and>
      rest @ calls_bytes (io_calls io') = drop blen (part @ calls_bytes (io_calls io)))"
proof (cases "blen \<le> length part")
  case True
  let ?q = "take blen part"
  have q: "length ?q = blen" "base + length ?q \<le> length (io_ring io)" using True assms(2) by simp_all
  then show ?thesis using assms(1) True unchanged_outside_blit [OF q(2)] slice_blit [OF q(2)] by (auto simp: recv_buf_def)
next
  case False
  define io1 where "io1 = io\<lparr>io_ring := blit (io_ring io) base part\<rparr>"
  have b: "unchanged_outside {base..<base + length part} (io_ring io) (io_ring io1)" "slice base (length part) (io_ring io1) = part"
      "length (io_ring io1) = length (io_ring io)" "io_calls io1 = io_calls io"
    using False assms(2) by (simp_all add: io1_def unchanged_outside_blit slice_blit)
  have "recv_fill base blen (io_calls io) (length part) (left - length part) io1 = (st, io')"
    using assms(1) False by (simp add: recv_buf_def io1_def)
  from recv_fill_done [OF this] False assms(2) b(3)
  have f: "unchanged_outside {base + length part..<base + blen} (io_ring io1) (io_ring io')"
    "\<forall>rest. st = Done rest \<longrightarrow> blen - length part \<le> length (calls_bytes (io_calls io)) \<and>
      slice (base + length part) (blen - length part) (io_ring io') = take (blen - length part) (calls_bytes (io_calls io)) \<and>
      rest @ calls_bytes (io_calls io') = drop (blen - length part) (calls_bytes (io_calls io))" by simp_all
  have out: "unchanged_outside {base..<base + blen} (io_ring io) (io_ring io')"
    using False by (intro unchanged_outside_trans [OF unchanged_outside_mono [OF b(1)] unchanged_outside_mono [OF f(1)]]) auto
  have keep: "slice base (length part) (io_ring io') = part"
    using slice_same [OF f(1), of base "length part"] b(2,3) False assms(2) by auto
  have n: "blen = length part + (blen - length part)" using False by simp
  have "slice base blen (io_ring io') = part @ slice (base + length part) (blen - length part) (io_ring io')"
    using keep slice_split [of base "length part" "blen - length part" "io_ring io'"] n by simp
  then show ?thesis using out f(2) False by auto
qed

subsection \<open>The body\<close>

lemma recv_body_ring:
  assumes "exanic_poll_recv_body skip b1 l1 b2 l2 init io = (st, io')"
    and "b1 + l1 \<le> length (io_ring io)" "b2 + l2 \<le> length (io_ring io)"
    and "{b1..<b1 + l1} \<inter> {b2..<b2 + l2} = {}"
  defines "D \<equiv> init @ calls_bytes (io_calls io)"
  shows "unchanged_outside ({b1..<b1 + l1} \<union> {b2..<b2 + l2}) (io_ring io) (io_ring io')"
    and "st = Done () \<Longrightarrow> skip + l1 + l2 \<le> length D \<and> slice b1 l1 (io_ring io') = take l1 (drop skip D) \<and>
      slice b2 l2 (io_ring io') = take l2 (drop (skip + l1) D)"
proof -
  define io0 where "io0 = io\<lparr>io_csum := csum_part (take (skip + l1 + l2) init) (io_csum io)\<rparr>"
  obtain s1 io1 where first: "(if skip \<le> length init then (Done (drop skip init), io0)
      else recv_skip skip (io_calls io0) (length init) (skip + l1 + l2 - length init) io0) = (s1, io1)" by force
  have r1: "io_ring io1 = io_ring io"
    using first recv_skip_ring [of skip "io_calls io0" "length init" "skip + l1 + l2 - length init" io0]
    by (auto simp: io0_def split: if_splits)
  have d1: "skip \<le> length D \<and> part @ calls_bytes (io_calls io1) = drop skip D" if "s1 = Done part" for part
    using first that recv_skip_done [of skip "io_calls io0" "length init" "skip + l1 + l2 - length init" io0 part io1]
    by (auto simp: io0_def D_def le_diff_conv split: if_splits)
  have body: "(st, io') = (case (s1, io1) of (Waiting, io1) \<Rightarrow> (Waiting, io1) | (Failed, io1) \<Rightarrow> (Failed, io1)
         | (Done part, io1) \<Rightarrow> (case recv_buf b1 l1 (l1 + l2) part io1 of (Waiting, io2) \<Rightarrow> (Waiting, io2) | (Failed, io2) \<Rightarrow> (Failed, io2)
              | (Done part2, io2) \<Rightarrow> (case recv_buf b2 l2 l2 part2 io2 of (Waiting, io3) \<Rightarrow> (Waiting, io3)
                   | (Failed, io3) \<Rightarrow> (Failed, io3) | (Done _, io3) \<Rightarrow> (Done (), io3))))"
    unfolding first [symmetric] io0_def by (simp add: exanic_poll_recv_body_def Let_def flip: assms(1))
  let ?out = "\<lambda>r. unchanged_outside ({b1..<b1 + l1} \<union> {b2..<b2 + l2}) (io_ring io) r"
  have "?out (io_ring io') \<and> (st = Done () \<longrightarrow> skip + l1 + l2 \<le> length D \<and> slice b1 l1 (io_ring io') = take l1 (drop skip D) \<and>
      slice b2 l2 (io_ring io') = take l2 (drop (skip + l1) D))"
  proof (cases s1)
    case (Done part)
    obtain s2 io2 where b: "recv_buf b1 l1 (l1 + l2) part io1 = (s2, io2)" by force
    note f2 = recv_buf_done [OF b, unfolded r1, OF assms(2)]
    have o2: "?out (io_ring io2)" by (rule unchanged_outside_mono [OF conjunct1 [OF f2]]) simp
    show ?thesis
    proof (cases s2)
      case (Done part2)
      obtain s3 io3 where c: "recv_buf b2 l2 l2 part2 io2 = (s3, io3)" by force
      have len2: "length (io_ring io2) = length (io_ring io)" using f2 by (simp add: unchanged_outside_def)
      have f3: "unchanged_outside {b2..<b2 + l2} (io_ring io2) (io_ring io3)"
        "\<forall>rest. s3 = Done rest \<longrightarrow> l2 \<le> length (part2 @ calls_bytes (io_calls io2)) \<and>
          slice b2 l2 (io_ring io3) = take l2 (part2 @ calls_bytes (io_calls io2))"
        using recv_buf_done [OF c] assms(3) len2 by simp_all
      have o3: "?out (io_ring io3)" by (rule unchanged_outside_trans [OF o2 unchanged_outside_mono [OF f3(1)]]) simp
      have eq: "io' = io3" "st = Done () \<longrightarrow> (\<exists>rest. s3 = Done rest)"
        using body \<open>s1 = Done part\<close> Done b c by (cases s3; simp)+
      have s1': "slice b1 l1 (io_ring io3) = slice b1 l1 (io_ring io2)"
        using slice_same [OF f3(1)] assms(2,4) len2 by (simp add: Int_commute)
      have "l1 \<le> length (drop skip D)" "slice b1 l1 (io_ring io2) = take l1 (drop skip D)"
          "part2 @ calls_bytes (io_calls io2) = drop l1 (drop skip D)"
        using f2 Done d1 [OF \<open>s1 = Done part\<close>] by simp_all
      then show ?thesis using o3 eq f3(2) s1' d1 [OF \<open>s1 = Done part\<close>] by (auto simp: add.commute)
    qed (use body Done b o2 in simp_all)
  qed (use body r1 in simp_all)
  then show "?out (io_ring io')" and "st = Done () \<Longrightarrow> skip + l1 + l2 \<le> length D \<and>
      slice b1 l1 (io_ring io') = take l1 (drop skip D) \<and> slice b2 l2 (io_ring io') = take l2 (drop (skip + l1) D)" by simp_all
qed

text \<open>The same on the slots of a region that holds the positions from \<open>a\<close> to \<open>e\<close>.\<close>

lemma slice_map: "base + n \<le> length r \<Longrightarrow> slice base n r = map (\<lambda>i. r ! i) [base..<base + n]"
  by (intro nth_equalityI) (simp_all add: slice_def)

lemma ring_distinct:
  assumes "e - a \<le> N"
  shows "distinct (map (\<lambda>p. p mod N) [a..<e])"
proof -
  have eq: "p = q" if "p mod N = q mod N" "a \<le> p" "p \<le> q" "q < e" for p q
    using that assms by (intro mod_eq_near [of p N q]) linarith+
  have "inj_on (\<lambda>p. p mod N) {a..<e}"
  proof (rule inj_onI)
    fix p q assume "p \<in> {a..<e}" "q \<in> {a..<e}" "p mod N = q mod N"
    then show "p = q" using eq [of p q] eq [of q p] by (cases "p \<le> q") simp_all
  qed
  then show ?thesis by (simp add: distinct_map)
qed

lemma recv_body_region:
  assumes "exanic_poll_recv_body (al_skip g) (al_buf1 g) (al_len1 g) (al_buf2 g) (al_len2 g) init io = (st, io')"
    and "length (io_ring io) = N" "al_buf1 g + al_len1 g \<le> N" "al_buf2 g + al_len2 g \<le> N"
    and "region_slots g = map (\<lambda>p. p mod N) [a..<e]" "e - a \<le> N"
    and "take n (init @ calls_bytes (io_calls io)) = map stream [x..<x + m]" "x \<le> a" "al_skip g = a - x" "e = x + n" "a \<le> e"
  shows "unchanged_outside (set (map (\<lambda>p. p mod N) [a..<e])) (io_ring io) (io_ring io')"
    and "st = Done () \<Longrightarrow> p \<in> {a..<e} \<Longrightarrow> io_ring io' ! (p mod N) = stream p"
proof -
  let ?D = "init @ calls_bytes (io_calls io)"
  have dist: "distinct (region_slots g)"
    unfolding assms(5) using assms(6) by (rule ring_distinct)
  have disj: "{al_buf1 g..<al_buf1 g + al_len1 g} \<inter> {al_buf2 g..<al_buf2 g + al_len2 g} = {}"
    using dist unfolding region_slots_def distinct_append by simp
  have sets: "{al_buf1 g..<al_buf1 g + al_len1 g} \<union> {al_buf2 g..<al_buf2 g + al_len2 g} = set (map (\<lambda>p. p mod N) [a..<e])"
    unfolding assms(5) [symmetric] by (simp add: region_slots_def)
  note body = recv_body_ring [OF assms(1) assms(3,4) [folded assms(2)] disj]
  show out: "unchanged_outside (set (map (\<lambda>p. p mod N) [a..<e])) (io_ring io) (io_ring io')" using body(1) by (simp only: sets)
  have lens: "al_len1 g + al_len2 g = e - a" using arg_cong [OF assms(5), of length] by (simp add: region_slots_def)
  assume st: "st = Done ()" and p: "p \<in> {a..<e}"
  have len: "length (io_ring io') = N" using out assms(2) by (simp add: unchanged_outside_def)
  have b: "al_skip g + al_len1 g + al_len2 g \<le> length ?D"
      "slice (al_buf1 g) (al_len1 g) (io_ring io') = take (al_len1 g) (drop (al_skip g) ?D)"
      "slice (al_buf2 g) (al_len2 g) (io_ring io') = take (al_len2 g) (drop (al_skip g + al_len1 g) ?D)"
    using body(2) [OF st] by simp_all
  have n: "n \<le> length ?D" using b(1) lens assms(8-11) by simp
  have "map (\<lambda>i. io_ring io' ! i) (region_slots g) = slice (al_buf1 g) (al_len1 g) (io_ring io') @ slice (al_buf2 g) (al_len2 g) (io_ring io')"
    using assms(3,4) len by (simp add: region_slots_def slice_map)
  also have "\<dots> = take (e - a) (drop (a - x) ?D)" unfolding b(2,3) lens [symmetric] assms(9) by (simp only: take_add drop_drop add.commute)
  finally have eq: "map (\<lambda>p. io_ring io' ! (p mod N)) [a..<e] = take (e - a) (drop (a - x) ?D)"
    unfolding assms(5) by (simp add: comp_def)
  have i: "p - a < e - a" using p by auto
  have gen: "take (e - a) (drop (a - x) D) ! (p - a) = take n D ! (p - x)" if "n \<le> length D" for D :: bytes
    using that i p assms(8-11) by simp
  have "io_ring io' ! (p mod N) = map (\<lambda>p. io_ring io' ! (p mod N)) [a..<e] ! (p - a)" using p i by simp
  also have "\<dots> = take n ?D ! (p - x)" unfolding eq by (rule gen [OF n])
  also have "\<dots> = stream p"
  proof -
    have "m = n" using arg_cong [OF assms(7), of length] n by simp
    moreover have "p - x < n" "x + (p - x) = p" using p assms(8-11) by auto
    ultimately show ?thesis unfolding assms(7) by simp
  qed
  finally show "io_ring io' ! (p mod N) = stream p" .
qed

end
