(* ===== verification/TcpStream.thy ===== *)
theory TcpStream
  imports TcpCopy
begin

text \<open>
  The whole receive path of a TCP socket, from packets to the application. \<open>stream p\<close> is the
  byte the peer sends at position \<open>p\<close>. The invariant ties the socket to positions: what is
  marked as received and not yet read is in the ring, in its slot.
\<close>

subsection \<open>Invariant\<close>

definition stream_inv :: "(nat \<Rightarrow> u8) \<Rightarrow> nat \<Rightarrow> nat \<Rightarrow> nat \<Rightarrow> (nat \<times> nat) list \<Rightarrow> exa_socket \<Rightarrow> bool" where
  "stream_inv stream k rd rc S sock \<longleftrightarrow>
     rx_buffer_size sock = 2 ^ k \<and> k \<le> 29 \<and> length (rx_buffer sock) = 2 ^ k \<and> tcp_state (tcp sock) \<noteq> EXA_TCP_SYN_SENT \<and>
     read_seq (tcp sock) = of_nat rd \<and> recv_seq (tcp sock) = of_nat rc \<and> proc_seq (tcp sock) = of_nat rc \<and>
     recv_seg (tcp sock) = slots S \<and> segs_ok rc S \<and> length S \<le> EXA_TCP_MAX_RX_SEGMENTS \<and> rd \<le> rc \<and>
     rcvd rc S \<subseteq> {..<rd + 2 ^ k} \<and> (\<forall>p\<in>rcvd rc S. rd \<le> p \<longrightarrow> rx_buffer sock ! (p mod 2 ^ k) = stream p)"

abbreviation (input) "base rd \<equiv> rd - 2 ^ 29 :: nat"

lemma window_size: "k \<le> 29 \<Longrightarrow> (2 :: nat) ^ k \<le> 2 ^ 29"
  by (rule power_increasing) simp_all

lemma stream_inv_rep:
  assumes "stream_inv stream k rd rc S sock"
  shows "rep (base rd) rd rc S (tcp sock)" "rc \<le> rd + 2 ^ k"
proof -
  have i: "k \<le> 29" "segs_ok rc S" "length S \<le> 6" "rd \<le> rc" "rcvd rc S \<subseteq> {..<rd + 2 ^ k}"
    using assms by (simp_all add: stream_inv_def)
  show rc: "rc \<le> rd + 2 ^ k"
  proof (cases rc)
    case (Suc n)
    then have "n \<in> rcvd rc S" by (simp add: rcvd_def)
    then show ?thesis using i(5) Suc by auto
  qed simp
  have "rd + 2 ^ k \<le> base rd + 2 ^ 30" using window_size [OF i(1)] by simp
  moreover have "covered S \<subseteq> {..<rd + 2 ^ k}" using i(5) by (simp add: rcvd_def)
  ultimately have "covered S \<subseteq> {..<base rd + 2 ^ 30}" by force
  then have "segs_in (base rd) S" using i by (intro segs_in_covered) (auto intro: segs_ok_mono)
  then show "rep (base rd) rd rc S (tcp sock)"
    using assms rc \<open>rd + 2 ^ k \<le> base rd + 2 ^ 30\<close> by (simp add: rep_def stream_inv_def)
qed

subsection \<open>The segments a corrupt packet does not touch\<close>

text \<open>The region of an invalid packet overlaps no stored segment.\<close>

definition abort_harmless :: "exa_tcp_state \<Rightarrow> u32 \<Rightarrow> nat \<Rightarrow> bool" where
  "abort_harmless t sq len \<longleftrightarrow> (\<forall>s\<in>set (recv_seg t). seg_empty s \<or>
     \<not> (seq_compare sq (snd s) < 0 \<and> seq_compare (fst s) (sq + of_nat len) < 0))"

lemma abort_loop_harmless:
  assumes "\<forall>s\<in>set segs. seg_empty s \<or> \<not> (seq_compare b (snd s) < 0 \<and> seq_compare (fst s) e < 0)" "length segs = 6"
  shows "abort_loop b e i i segs = segs"
proof (induction "6 - i" arbitrary: i)
  case 0
  then show ?case by (simp add: abort_loop.simps [of b e i])
next
  case (Suc n)
  then have i: "i < 6" by simp
  then have "seg_empty (segs ! i) \<or> \<not> (seq_compare b (snd (segs ! i)) < 0 \<and> seq_compare (fst (segs ! i)) e < 0)"
    using assms by simp
  moreover have "abort_loop b e (i + 1) (i + 1) segs = segs" using Suc(1) [of "i + 1"] Suc(2) by simp
  ultimately show ?case
  proof (cases "seg_empty (segs ! i)")
    case False
    with \<open>seg_empty (segs ! i) \<or> _\<close> have nc: "\<not> (seq_compare b (snd (segs ! i)) < 0 \<and> seq_compare (fst (segs ! i)) e < 0)" by simp
    show ?thesis unfolding abort_loop.simps [of b e i i segs] Let_def if_not_P [OF nc]
      using i \<open>abort_loop b e (i + 1) (i + 1) segs = segs\<close> by simp
  qed (use abort_loop.simps [of b e i i segs] in simp)
qed

lemma abort_harmless_state:
  assumes "abort_harmless t sq len" "length (recv_seg t) = 6"
  shows "exa_tcp_rx_buffer_abort t sq len pv = (if 0 < len then t\<lparr>proc_seq := pv\<rparr> else t)"
proof -
  have "abort_loop sq (sq + of_nat len) 0 0 (recv_seg t) = recv_seg t"
    using assms(1) [unfolded abort_harmless_def] assms(2) by (rule abort_loop_harmless)
  then show ?thesis unfolding exa_tcp_rx_buffer_abort_def Let_def by (cases "len = 0") simp_all
qed

lemma abort_harmless_disjoint:
  assumes "abort_harmless t (of_nat a) (e - a)" "recv_seg t = slots S" "segs_in lo S" "window lo a" "window lo e" "a \<le> e"
  shows "covered S \<inter> {a..<e} = {}"
proof -
  have sum: "of_nat a + of_nat (e - a) = (of_nat e :: u32)" using assms(6) by simp
  have "snd q \<le> a \<or> e \<le> fst q" if q: "q \<in> set S" for q
  proof -
    have "conc q \<in> set (recv_seg t)" using q by (simp add: assms(2) slots_def)
    then have "seg_empty (conc q) \<or> \<not> (seq_compare (of_nat a) (snd (conc q)) < 0 \<and> seq_compare (fst (conc q)) (of_nat e) < 0)"
      using assms(1) unfolding abort_harmless_def sum by blast
    then show ?thesis using segs_in_nonempty [OF assms(3) q] segs_in_compare(1) [OF assms(3) q assms(5)]
      segs_in_compare(4) [OF assms(3) q assms(4)] by auto
  qed
  then show ?thesis by (force simp: covered_def disjoint_iff)
qed

subsection \<open>One packet\<close>

text \<open>A packet at position \<open>x\<close>, near the reader.\<close>

definition near :: "nat \<Rightarrow> nat \<Rightarrow> tcp_packet \<Rightarrow> bool" where
  "near rd x p \<longleftrightarrow> pk_seq p = of_nat x \<and> rd \<le> x + 2 ^ 29 \<and> x + pk_len p \<le> rd + 2 ^ 29"

text \<open>As many of its bytes as arrive are those of the stream.\<close>

definition carries :: "(nat \<Rightarrow> u8) \<Rightarrow> nat \<Rightarrow> tcp_packet \<Rightarrow> bool" where
  "carries stream x p \<longleftrightarrow> (let bs = take (pk_len p) (pk_init p @ calls_bytes (pk_calls p)) in bs = map stream [x..<x + length bs])"

lemma carries_some: "\<exists>stream. carries stream x p"
proof -
  let ?bs = "take (pk_len p) (pk_init p @ calls_bytes (pk_calls p))"
  have "?bs = map (\<lambda>q. ?bs ! (q - x)) [x..<x + length ?bs]" by (rule nth_equalityI) simp_all
  then show ?thesis unfolding carries_def Let_def by blast
qed

definition region_ok :: "exa_socket \<Rightarrow> tcp_packet \<Rightarrow> bool" where
  "region_ok sock p \<longleftrightarrow> (let (g, _) = tcp_region [] sock p
     in abort_harmless (tcp sock) (pk_seq p + of_nat (al_skip g)) (al_len1 g + al_len2 g))"

lemma commit_nothing:
  "\<exists>t'. exa_tcp_rx_buffer_commit t sq 0 pv = Some t' \<and> recv_seq t' = recv_seq t \<and> read_seq t' = read_seq t \<and>
    proc_seq t' = proc_seq t \<and> recv_seg t' = recv_seg t \<and> tcp_state t' = tcp_state t"
  by (simp add: exa_tcp_rx_buffer_commit_def Let_def out_of_order_seg_count_def out_of_order_reset_def)

lemma commit_tcp_state: "exa_tcp_rx_buffer_commit t sq n pv = Some t' \<Longrightarrow> tcp_state t' = tcp_state t"
  by (auto simp: exa_tcp_rx_buffer_commit_def Let_def out_of_order_seg_count_def out_of_order_reset_def
      split: if_splits option.splits prod.splits)

text \<open>What the packet got in the ring: nothing, or the slots from \<open>a\<close> to \<open>e\<close>.\<close>

lemma region_cases:
  assumes "stream_inv stream k rd rc S sock" "near rd x p"
  obtains (none) "tcp_region [] sock p = (\<lparr>al_prev = 0, al_buf1 = 0, al_len1 = 0, al_buf2 = 0, al_len2 = 0, al_skip = pk_len p\<rparr>, sock)"
  | (some) g a e where "tcp_region [] sock p = (g, sock\<lparr>tcp := (tcp sock)\<lparr>proc_seq := of_nat e\<rparr>\<rparr>)" "a = max x rc" "e = x + pk_len p"
      "a < e" "e \<le> rd + 2 ^ k" "al_prev g = of_nat rc" "al_skip g = a - x" "al_len1 g + al_len2 g = e - a"
      "al_buf1 g + al_len1 g \<le> 2 ^ k" "al_buf2 g + al_len2 g \<le> 2 ^ k" "region_slots g = map (\<lambda>q. q mod 2 ^ k) [a..<e]"
proof -
  have i: "rx_buffer_size sock = 2 ^ k" "k \<le> 30" "proc_seq (tcp sock) = of_nat rc" "pk_seq p = of_nat x"
    using assms by (simp_all add: stream_inv_def near_def)
  note r = stream_inv_rep [OF assms(1)]
  have w: "rc \<le> base rd + 2 ^ 30" "base rd \<le> x" "x + pk_len p \<le> base rd + 2 ^ 30"
    using r(1) assms(2) unfolding rep_def near_def by auto
  note al = alloc_result [OF i(1,2) r(1) i(3) order_refl w]
  show ?thesis
  proof (cases "pk_len p \<noteq> 0 \<and> rc < x + pk_len p \<and> x + pk_len p \<le> rd + 2 ^ k")
    case True
    then obtain g where g: "exa_tcp_rx_buffer_alloc [] sock (of_nat x) (pk_len p) =
          (Some g, sock\<lparr>tcp := (tcp sock)\<lparr>proc_seq := of_nat (x + pk_len p)\<rparr>\<rparr>)"
        "al_prev g = of_nat rc" "al_skip g = max x rc - x" "al_len1 g + al_len2 g = x + pk_len p - max x rc"
        "al_buf1 g + al_len1 g \<le> 2 ^ k" "al_buf2 g + al_len2 g \<le> 2 ^ k" "region_slots g = map (\<lambda>q. q mod 2 ^ k) [max x rc..<x + pk_len p]"
      using al(2) by blast
    show ?thesis
      by (rule some [of g "x + pk_len p" "max x rc"]) (use g True in \<open>simp_all add: tcp_region_def i(4)\<close>)
  next
    case False
    then show ?thesis by (intro none) (use al(1) in \<open>auto simp: tcp_region_def i(4)\<close>)
  qed
qed

text \<open>Slots of other positions in the window of the ring are not those of the region.\<close>

lemma other_slot:
  assumes "rd \<le> p" "p < rd + N" "rd \<le> a" "e \<le> rd + N" "p \<notin> {a..<e}"
  shows "p mod N \<notin> set (map (\<lambda>q. q mod N) [a..<e])"
proof
  assume "p mod N \<in> set (map (\<lambda>q. q mod N) [a..<e])"
  then obtain q where q: "a \<le> q" "q < e" "p mod N = q mod N" by auto
  have "p = q"
  proof (cases "p \<le> q")
    case True
    then have "q - p < N" using q assms by linarith
    then show ?thesis by (rule mod_eq_near [OF q(3) True])
  next
    case False
    then have "q \<le> p" "p - q < N" using q assms by linarith+
    then show ?thesis using mod_eq_near [OF q(3) [symmetric]] by simp
  qed
  then show False using q assms(5) by simp
qed

lemma payload_inv:
  assumes inv: "stream_inv stream k rd rc S sock" and near: "near rd x p"
    and run: "tcp_receive_payload [] sock p = (st, sock', io)"
  shows "carries stream x p \<Longrightarrow> st \<noteq> Rx_assert \<and> (st = Rx_committed \<longrightarrow> (\<exists>rc' S'. stream_inv stream k rd rc' S' sock'))"
    and "region_ok sock p \<Longrightarrow> st = Rx_aborted \<Longrightarrow> stream_inv stream k rd rc S sock'"
proof -
  note i = inv [unfolded stream_inv_def]
  note rep = stream_inv_rep [OF inv]
  have len: "length (rx_buffer sock) = 2 ^ k" using i by simp
  let ?io0 = "\<lparr>io_calls = pk_calls p, io_csum = pk_csum p, io_more = pk_more p, io_ring = rx_buffer sock\<rparr>"
  have "(carries stream x p \<longrightarrow> st \<noteq> Rx_assert \<and> (st = Rx_committed \<longrightarrow> (\<exists>rc' S'. stream_inv stream k rd rc' S' sock'))) \<and>
    (region_ok sock p \<longrightarrow> st = Rx_aborted \<longrightarrow> stream_inv stream k rd rc S sock')"
    using inv near
  proof (cases rule: region_cases)
    case none
    obtain o1 io1 where b: "exanic_poll_recv_body (pk_len p) 0 0 0 0 (pk_init p) ?io0 = (o1, io1)" by force
    have ring: "io_ring io1 = rx_buffer sock"
      using recv_body_ring(1) [OF b] by (auto simp: unchanged_outside_def intro: nth_equalityI)
    obtain t' where t': "exa_tcp_rx_buffer_commit (tcp sock) (pk_seq p + of_nat (pk_len p)) 0 0 = Some t'"
        "recv_seq t' = recv_seq (tcp sock)" "read_seq t' = read_seq (tcp sock)" "proc_seq t' = proc_seq (tcp sock)"
        "recv_seg t' = recv_seg (tcp sock)" "tcp_state t' = tcp_state (tcp sock)"
      using commit_nothing [of "tcp sock"] by blast
    have ab: "exa_tcp_rx_buffer_abort (tcp sock) (pk_seq p + of_nat (pk_len p)) 0 0 = tcp sock" if "region_ok sock p"
      using abort_harmless_state that i by (simp add: region_ok_def none)
    have run': "(st, sock') = (case o1 of Waiting \<Rightarrow> (Rx_waiting, sock)
        | Failed \<Rightarrow> (Rx_aborted, sock\<lparr>tcp := exa_tcp_rx_buffer_abort (tcp sock) (pk_seq p + of_nat (pk_len p)) 0 0\<rparr>)
        | Done _ \<Rightarrow> if exa_tcp_validate_csum (pk_sum p) (io_csum io1) \<and> pk_valid p then (Rx_committed, sock\<lparr>tcp := t'\<rparr>)
            else (Rx_aborted, sock\<lparr>tcp := exa_tcp_rx_buffer_abort (tcp sock) (pk_seq p + of_nat (pk_len p)) 0 0\<rparr>))"
      using run by (cases o1) (auto simp: tcp_receive_payload_def none b Let_def ring t'(1) split: if_splits)
    have "stream_inv stream k rd rc S (sock\<lparr>tcp := t'\<rparr>)" using i t' by (simp add: stream_inv_def)
    then show ?thesis using run' ab inv by (cases o1) (auto split: if_splits)
  next
    case (some g a e)
    define s1 where "s1 = sock\<lparr>tcp := (tcp sock)\<lparr>proc_seq := of_nat e\<rparr>\<rparr>"
    obtain o1 io1 where b: "exanic_poll_recv_body (al_skip g) (al_buf1 g) (al_len1 g) (al_buf2 g) (al_len2 g) (pk_init p) ?io0 = (o1, io1)" by force
    have rdrc: "rd \<le> rc" using i by simp
    have pk: "pk_seq p = of_nat x" "x \<le> a" "rd \<le> a" "rc \<le> a"
      using near rdrc some(2) by (simp_all add: near_def le_max_iff_disj)
    have sq: "pk_seq p + of_nat (al_skip g) = of_nat a" using pk some(7) by (simp add: of_nat_diff)
    have ea: "e - a \<le> 2 ^ k" "a \<le> e" using some pk by linarith+
    have fits: "e \<le> base rd + 2 ^ 30" using near some(3) unfolding near_def by auto
    define s2 where "s2 = s1\<lparr>rx_buffer := io_ring io1\<rparr>"
    have s2: "rep (base rd) rd rc S (tcp s2)" "proc_seq (tcp s2) = of_nat (a + (e - a))" "tcp_state (tcp s2) \<noteq> EXA_TCP_SYN_SENT"
      using rep(1) i ea(2) by (simp_all add: s2_def s1_def rep_def)
    obtain t' rc' S' where c: "exa_tcp_rx_buffer_commit (tcp s2) (of_nat a) (e - a) (of_nat rc) = Some t'" "rep (base rd) rd rc' S' t'"
        "rcvd rc' S' \<subseteq> rcvd rc S \<union> {a..<a + (e - a)}" "segs_ok rc S \<Longrightarrow> segs_ok rc' S'" "rc \<le> rc'"
        "proc_seq t' = (if rc' = rc then of_nat rc else of_nat rc')"
      by (rule commit_spec [OF s2(1,2) _ order_refl pk(4)]) (use some(4) fits ea(2) in simp_all)
    obtain any where any: "carries any x p" using carries_some by blast
    note bd = recv_body_region [OF b, where N = "2 ^ k" and a = a and e = e and n = "pk_len p" and x = x]
    have out: "unchanged_outside (set (map (\<lambda>q. q mod 2 ^ k) [a..<e])) (rx_buffer sock) (io_ring io1)"
      using bd(1) [where stream = any] any len some ea pk by (simp add: carries_def Let_def)
    have keep: "io_ring io1 ! (q mod 2 ^ k) = stream q" if "q \<in> rcvd rc S" "rd \<le> q" "q \<notin> {a..<e}" for q
    proof -
      have "q < rd + 2 ^ k" using that(1) i by auto
      then have "q mod 2 ^ k \<notin> set (map (\<lambda>q. q mod 2 ^ k) [a..<e])" using that pk some(5) by (intro other_slot [of rd]) auto
      then have "io_ring io1 ! (q mod 2 ^ k) = rx_buffer sock ! (q mod 2 ^ k)" using out len by (simp add: unchanged_outside_def del: set_map)
      then show ?thesis using that i by simp
    qed
    have ring_len: "length (io_ring io1) = 2 ^ k" using out len by (simp add: unchanged_outside_def)
    have run': "(st, sock') = (case o1 of Waiting \<Rightarrow> (Rx_waiting, s2)
        | Failed \<Rightarrow> (Rx_aborted, s2\<lparr>tcp := exa_tcp_rx_buffer_abort (tcp s2) (of_nat a) (e - a) (of_nat rc)\<rparr>)
        | Done _ \<Rightarrow> if exa_tcp_validate_csum (pk_sum p) (io_csum io1) \<and> pk_valid p then (Rx_committed, s2\<lparr>tcp := t'\<rparr>)
            else (Rx_aborted, s2\<lparr>tcp := exa_tcp_rx_buffer_abort (tcp s2) (of_nat a) (e - a) (of_nat rc)\<rparr>))"
      using run b c(1) by (cases o1) (auto simp: tcp_receive_payload_def some(1,6,8) Let_def sq s2_def s1_def split: if_splits)
    have committed: "stream_inv stream k rd rc' S' (s2\<lparr>tcp := t'\<rparr>)" if car: "carries stream x p" and o1: "o1 = Done ()"
    proof -
      have new: "io_ring io1 ! (q mod 2 ^ k) = stream q" if "q \<in> {a..<e}" for q
        using bd(2) [where stream = stream, OF _ _ _ _ _ _ _ _ _ _ o1 that] car len some ea pk by (simp add: carries_def Let_def)
      have rec: "rcvd rc' S' \<subseteq> rcvd rc S \<union> {a..<e}" using c(3) ea(2) by simp
      have "rcvd rc' S' \<subseteq> {..<rd + 2 ^ k}" using rec i some(5) by force
      moreover have "\<forall>q\<in>rcvd rc' S'. rd \<le> q \<longrightarrow> io_ring io1 ! (q mod 2 ^ k) = stream q"
        using rec new keep by blast
      moreover have "segs_ok rc' S'" using c(4) i by simp
      moreover have "tcp_state t' \<noteq> EXA_TCP_SYN_SENT" using commit_tcp_state [OF c(1)] s2(3) by simp
      ultimately show ?thesis using i c(2,5,6) ring_len by (auto simp: stream_inv_def s2_def s1_def rep_def segs_in_def)
    qed
    have aborted: "stream_inv stream k rd rc S (s2\<lparr>tcp := exa_tcp_rx_buffer_abort (tcp s2) (of_nat a) (e - a) (of_nat rc)\<rparr>)"
      if ok: "region_ok sock p"
    proof -
      have h: "abort_harmless (tcp sock) (of_nat a) (e - a)" using ok sq some(8) by (simp add: region_ok_def some(1))
      then have "abort_harmless (tcp s2) (of_nat a) (e - a)" by (simp add: abort_harmless_def s2_def s1_def)
      then have t: "exa_tcp_rx_buffer_abort (tcp s2) (of_nat a) (e - a) (of_nat rc) = (tcp s2)\<lparr>proc_seq := of_nat rc\<rparr>"
        using abort_harmless_state [of "tcp s2"] some(4) i by (simp add: s2_def s1_def)
      have w: "window (base rd) a" "window (base rd) e" using fits pk ea(2) by (simp_all add: window_def)
      have "covered S \<inter> {a..<e} = {}"
        using abort_harmless_disjoint [OF h _ _ w ea(2)] rep(1) by (simp add: rep_def)
      then have "q \<notin> {a..<e}" if "q \<in> rcvd rc S" for q using that pk(4) by (auto simp: rcvd_def)
      then have "\<forall>q\<in>rcvd rc S. rd \<le> q \<longrightarrow> io_ring io1 ! (q mod 2 ^ k) = stream q" using keep by blast
      then show ?thesis using i ring_len unfolding t by (simp add: stream_inv_def s2_def s1_def)
    qed
    show ?thesis using run' committed aborted by (cases o1) (auto split: if_splits)
  qed
  then show "carries stream x p \<Longrightarrow> st \<noteq> Rx_assert \<and> (st = Rx_committed \<longrightarrow> (\<exists>rc' S'. stream_inv stream k rd rc' S' sock'))"
    and "region_ok sock p \<Longrightarrow> st = Rx_aborted \<Longrightarrow> stream_inv stream k rd rc S sock'" by simp_all
qed

text \<open>The state machine leaves the receive side alone.\<close>

definition same_rx :: "exa_socket \<Rightarrow> exa_socket \<Rightarrow> bool" where
  "same_rx sock sock' \<longleftrightarrow> rx_buffer_size sock' = rx_buffer_size sock \<and> rx_buffer sock' = rx_buffer sock \<and>
     read_seq (tcp sock') = read_seq (tcp sock) \<and> recv_seq (tcp sock') = recv_seq (tcp sock) \<and>
     proc_seq (tcp sock') = proc_seq (tcp sock) \<and> recv_seg (tcp sock') = recv_seg (tcp sock) \<and>
     (tcp_state (tcp sock) \<noteq> EXA_TCP_SYN_SENT \<longrightarrow> tcp_state (tcp sock') \<noteq> EXA_TCP_SYN_SENT)"

lemma same_rx_inv: "same_rx sock sock' \<Longrightarrow> stream_inv stream k rd rc S sock \<Longrightarrow> stream_inv stream k rd rc S sock'"
  by (simp add: same_rx_def stream_inv_def)

lemma same_rx_trans: "same_rx s1 s2 \<Longrightarrow> same_rx s2 s3 \<Longrightarrow> same_rx s1 s3"
  by (simp add: same_rx_def)

lemma update_state_rx: "same_rx sock (exa_tcp_update_state sock flags dseq aseq win)"
  by (simp add: same_rx_def exa_tcp_update_state_def exa_tcp_error_close_def Let_def)

lemma update_conn_state_rx:
  "tcp_state (tcp sock) \<noteq> EXA_TCP_SYN_SENT \<Longrightarrow>
    same_rx sock (sock\<lparr>tcp := fst (exa_tcp_update_conn_state (tcp sock) flags dseq n)\<rparr>)"
  by (cases "tcp_state (tcp sock)") (simp_all add: same_rx_def exa_tcp_update_conn_state_def Let_def)

lemma shutdown_write_rx: "same_rx sock (sock\<lparr>tcp := exa_tcp_shutdown_write (tcp sock)\<rparr>)"
  by (simp add: same_rx_def exa_tcp_shutdown_write_def split: tcp_conn_state.split)

lemma get_window_rx: "same_rx sock (snd (exa_tcp_get_window sock recv))"
  by (simp add: same_rx_def exa_tcp_get_window_def Let_def)

lemma tx_write_rx: "exa_tcp_tx_buffer_write sock iov skip n = Some sock' \<Longrightarrow> same_rx sock sock'"
  by (auto simp: same_rx_def exa_tcp_tx_buffer_write_def Let_def split: if_splits)

lemma packet_inv:
  assumes inv: "stream_inv stream k rd rc S sock" and near: "near rd x p"
    and run: "tcp_receive_packet [] sock p = (st, sock', mc)"
  shows "carries stream x p \<Longrightarrow> st \<noteq> Rx_assert \<and> (st = Rx_committed \<longrightarrow> (\<exists>rc' S'. stream_inv stream k rd rc' S' sock'))"
    and "region_ok sock p \<Longrightarrow> st = Rx_aborted \<Longrightarrow> stream_inv stream k rd rc S sock'"
    and "st = Rx_dropped \<Longrightarrow> stream_inv stream k rd rc S sock'"
proof -
  have ns: "tcp_state (tcp sock) \<noteq> EXA_TCP_SYN_SENT" using inv by (simp add: stream_inv_def)
  then have pre: "exa_tcp_pre_update_state (tcp sock) (pk_flags p) (pk_seq p) (pk_ack p) (pk_opt p) (pk_opt_len p) \<in>
      {Some (Inl ()), Some (Inr (tcp sock))}"
    by (simp add: exa_tcp_pre_update_state_def)
  obtain st1 sock1 io where b: "tcp_receive_payload [] sock p = (st1, sock1, io)" by (cases "tcp_receive_payload [] sock p") auto
  note P = payload_inv [OF inv near b]
  have nd: "st1 \<noteq> Rx_dropped"
    using b by (auto simp: tcp_receive_payload_def Let_def split: prod.splits outcome.splits if_splits option.splits)
  have "(carries stream x p \<longrightarrow> st \<noteq> Rx_assert \<and> (st = Rx_committed \<longrightarrow> (\<exists>rc' S'. stream_inv stream k rd rc' S' sock'))) \<and>
    (region_ok sock p \<longrightarrow> st = Rx_aborted \<longrightarrow> stream_inv stream k rd rc S sock') \<and> (st = Rx_dropped \<longrightarrow> stream_inv stream k rd rc S sock')"
  proof (cases "exa_tcp_listening (tcp sock) \<or>
      exa_tcp_pre_update_state (tcp sock) (pk_flags p) (pk_seq p) (pk_ack p) (pk_opt p) (pk_opt_len p) = Some (Inl ())")
    case True
    then have "st = Rx_dropped \<and> sock' = sock" using run by (auto simp: tcp_receive_packet_def split: if_splits)
    then show ?thesis using inv by simp
  next
    case False
    show ?thesis
    proof (cases "st1 = Rx_committed")
      case c: True
      define sock2 where "sock2 = exa_tcp_update_state sock1 (pk_flags p) (pk_seq p) (pk_ack p) (pk_win p)"
      have r: "st = Rx_committed" "sock' = sock2\<lparr>tcp := fst (exa_tcp_update_conn_state (tcp sock2) (pk_flags p) (pk_seq p) (pk_len p))\<rparr>"
        using run pre False b c by (auto simp: tcp_receive_packet_def Let_def sock2_def split: prod.splits)
      show ?thesis
      proof (intro conjI impI)
        assume "carries stream x p"
        then obtain rc' S' where 1: "stream_inv stream k rd rc' S' sock1" using P(1) c by auto
        then have 2: "stream_inv stream k rd rc' S' sock2" using same_rx_inv [OF update_state_rx] by (simp add: sock2_def)
        then have "same_rx sock2 sock'" unfolding r by (intro update_conn_state_rx) (simp add: stream_inv_def)
        then show "\<exists>rc' S'. stream_inv stream k rd rc' S' sock'" using same_rx_inv 2 by blast
      qed (use r in simp_all)
    next
      case c: False
      have "st = st1 \<and> sock' = sock1" using run pre False b c by (cases st1) (auto simp: tcp_receive_packet_def)
      then show ?thesis using P c nd by auto
    qed
  qed
  then show "carries stream x p \<Longrightarrow> st \<noteq> Rx_assert \<and> (st = Rx_committed \<longrightarrow> (\<exists>rc' S'. stream_inv stream k rd rc' S' sock'))"
    and "region_ok sock p \<Longrightarrow> st = Rx_aborted \<Longrightarrow> stream_inv stream k rd rc S sock'"
    and "st = Rx_dropped \<Longrightarrow> stream_inv stream k rd rc S sock'" by simp_all
qed

subsection \<open>Reading\<close>

lemma recv_copy_slots:
  assumes "\<And>i. i \<in> set (read_slots ps) \<Longrightarrow> i < length ring"
  shows "recv_copy ring ps len = take len (map (\<lambda>i. ring ! i) (read_slots ps))"
proof -
  obtain b1 l1 b2 l2 where ps: "ps = ((b1, l1), (b2, l2))" by (metis surj_pair)
  have sl: "slice b n ring = map (\<lambda>i. ring ! i) [b..<b + n]" if "\<And>i. i \<in> {b..<b + n} \<Longrightarrow> i < length ring" for b n
  proof (cases n)
    case (Suc m)
    then have "b + n \<le> length ring" using that [of "b + m"] by simp
    then show ?thesis by (rule slice_map)
  qed (simp add: slice_def)
  have 1: "map (\<lambda>i. ring ! i) (read_slots ps) = slice b1 l1 ring @ slice b2 l2 ring"
    using assms sl [of b1 l1] sl [of b2 l2] by (simp add: ps read_slots_def)
  have l: "length (slice b1 l1 ring) = l1"
    using sl [of b1 l1] assms by (simp add: ps read_slots_def)
  show ?thesis
  proof (cases "l2 = 0 \<or> len \<le> l1")
    case True
    then show ?thesis unfolding 1 using l by (auto simp: recv_copy_def ps slice_def min.commute)
  next
    case False
    then have "min (l1 + l2) len - l1 = min (len - l1) l2" by linarith
    then show ?thesis unfolding 1 using l False by (simp add: recv_copy_def ps slice_def)
  qed
qed

lemma recvfrom_inv:
  assumes inv: "stream_inv stream k rd rc S sock" and r: "recvfrom_tcp c sh sock len peek = Some (Inr buf, sock', l)"
  shows "buf = map stream [rd..<rd + length buf] \<and>
    (if peek then same_rx sock sock' else stream_inv stream k (rd + length buf) rc S sock')"
proof -
  note i = inv [unfolded stream_inv_def]
  note rep = stream_inv_rep [OF inv]
  let ?ps = "exa_tcp_rx_buffer_read_begin sock"
  have sl: "read_slots ?ps = map (\<lambda>p. p mod 2 ^ k) [rd..<rc]"
    using i rep by (intro read_begin_slots [of sock k "base rd"]) simp_all
  have rd: "rd \<le> rc" "length (rx_buffer sock) = 2 ^ k" using i by simp_all
  have buf: "buf = recv_copy (rx_buffer sock) ?ps len"
      "sock' = sock\<lparr>tcp := exa_tcp_rx_buffer_read_end (tcp sock) (if peek then 0 else length buf)\<rparr>"
    using r by (auto simp: recvfrom_tcp_def recv_block_tcp_ready_def Let_def split: if_splits)
  have "buf = take len (map (\<lambda>p. rx_buffer sock ! (p mod 2 ^ k)) [rd..<rc])"
    unfolding buf(1) using rd by (subst recv_copy_slots) (auto simp: sl comp_def)
  also have "map (\<lambda>p. rx_buffer sock ! (p mod 2 ^ k)) [rd..<rc] = map stream [rd..<rc]"
    using i by (intro map_cong refl) (simp add: rcvd_def)
  finally have b: "buf = map stream (take len [rd..<rc])" by (simp add: take_map)
  then have bl: "length buf = min len (rc - rd)" by simp
  have pre: "buf = map stream [rd..<rd + length buf]" using b rd(1) unfolding bl by (simp add: take_upt min_def)
  have "stream_inv stream k (rd + length buf) rc S sock'" if "\<not> peek"
  proof -
    have "rcvd rc S \<subseteq> {..<rd + length buf + 2 ^ k}" using i by force
    then show ?thesis using i that bl unfolding buf(2)
      by (auto simp: stream_inv_def exa_tcp_rx_buffer_read_end_def Let_def)
  qed
  moreover have "same_rx sock sock'" if peek using that unfolding buf(2) by (simp add: same_rx_def exa_tcp_rx_buffer_read_end_def Let_def)
  ultimately show ?thesis using pre by simp
qed

subsection \<open>Runs\<close>

text \<open>
  A connection from position \<open>start\<close> on and what the application has read: packets of the stream
  arrive in any order and any number of times, damaged packets are thrown away, the application reads and sends.
  Positions of packets stay within \<open>2 ^ 29\<close> of the reader, and the kernel stack stores nothing during a step. \<open>intact\<close> tells whether
  the region of every packet thrown away overlapped no stored segment: where one does, the abort of the
  code keeps overwritten data (\<open>abort_keeps_overwritten\<close> of TcpFaults).
\<close>

inductive runs :: "(nat \<Rightarrow> u8) \<Rightarrow> nat \<Rightarrow> nat \<Rightarrow> bool \<Rightarrow> exa_socket \<Rightarrow> bytes \<Rightarrow> bool" for stream k start where
  opened: "\<lbrakk>rx_buffer_size sock = 2 ^ k; length (rx_buffer sock) = 2 ^ k; tcp_state (tcp sock) \<noteq> EXA_TCP_SYN_SENT;
      read_seq (tcp sock) = of_nat start; recv_seq (tcp sock) = of_nat start; proc_seq (tcp sock) = of_nat start;
      recv_seg (tcp sock) = replicate EXA_TCP_MAX_RX_SEGMENTS (0, 0)\<rbrakk> \<Longrightarrow> runs stream k start True sock []"
| packet: "\<lbrakk>runs stream k start intact sock out; near (start + length out) x p; carries stream x p;
      tcp_receive_packet [] sock p = (st, sock', mc); st \<in> {Rx_committed, Rx_dropped}\<rbrakk> \<Longrightarrow> runs stream k start intact sock' out"
| damaged: "\<lbrakk>runs stream k start intact sock out; near (start + length out) x p;
      tcp_receive_packet [] sock p = (Rx_aborted, sock', mc)\<rbrakk> \<Longrightarrow> runs stream k start (intact \<and> region_ok sock p) sock' out"
| read: "\<lbrakk>runs stream k start intact sock out; recvfrom_tcp c sh sock len False = Some (Inr buf, sock', l)\<rbrakk> \<Longrightarrow> runs stream k start intact sock' (out @ buf)"
| peek: "\<lbrakk>runs stream k start intact sock out; recvfrom_tcp c sh sock len True = Some (Inr buf, sock', l)\<rbrakk> \<Longrightarrow> runs stream k start intact sock' out"
| sent: "\<lbrakk>runs stream k start intact sock out; exa_tcp_tx_buffer_write sock iov skip n = Some sock'\<rbrakk> \<Longrightarrow> runs stream k start intact sock' out"
| window: "runs stream k start intact sock out \<Longrightarrow> runs stream k start intact (snd (exa_tcp_get_window sock recv)) out"
| shutdown: "runs stream k start intact sock out \<Longrightarrow> runs stream k start intact (sock\<lparr>tcp := exa_tcp_shutdown_write (tcp sock)\<rparr>) out"

lemma runs_inv:
  assumes "runs stream k start intact sock out" "k \<le> 29" "intact"
  shows "out = map stream [start..<start + length out] \<and> (\<exists>rc S. stream_inv stream k (start + length out) rc S sock)"
  using assms(1,3)
proof induction
  case (opened sock)
  have "stream_inv stream k start start [] sock" using opened assms(2) by (auto simp: stream_inv_def slots_def rcvd_def)
  then show ?case by auto
next
  case (packet intact sock out x p st sock' mc)
  then obtain rc S where "stream_inv stream k (start + length out) rc S sock" by blast
  note inv = packet_inv [OF this packet(2,4)]
  show ?case using inv(1,3) packet by auto
next
  case (damaged intact sock out x p sock' mc)
  then obtain rc S where "stream_inv stream k (start + length out) rc S sock" by blast
  note inv = packet_inv(2) [OF this damaged(2,3)]
  then show ?case using damaged by auto
next
  case (read intact sock out c sh len buf sock' l)
  then obtain rc S where "stream_inv stream k (start + length out) rc S sock" by blast
  from recvfrom_inv [OF this read(2)]
  have b: "buf = map stream [start + length out..<start + length out + length buf]"
      "stream_inv stream k (start + length (out @ buf)) rc S sock'" by (simp_all add: add.assoc)
  have "[start..<start + length (out @ buf)] = [start..<start + length out] @ [start + length out..<start + length out + length buf]"
    using upt_add_eq_append [of start "start + length out" "length buf"] by (simp add: add.assoc)
  then have "out @ buf = map stream [start..<start + length (out @ buf)]" using b(1) read.IH [OF read.prems] by (simp del: length_append) 
  then show ?case using b(2) by blast
next
  case (peek intact sock out c sh len buf sock' l)
  then obtain rc S where inv: "stream_inv stream k (start + length out) rc S sock" by blast
  from recvfrom_inv [OF this peek(2)] show ?case using same_rx_inv [OF _ inv] peek by auto
next
  case (sent intact sock out iov skip n sock')
  then show ?case using same_rx_inv [OF tx_write_rx] by blast
next
  case (window intact sock out recv)
  then show ?case using same_rx_inv [OF get_window_rx] by blast
next
  case (shutdown intact sock out)
  then show ?case using same_rx_inv [OF shutdown_write_rx] by blast
qed

subsection \<open>Claim\<close>

text \<open>C4. The receive path delivers the stream. In every run in which no packet that is thrown away (a bad checksum, a chunk that was
  overwritten) overlaps a stored segment, the kernel stack stores nothing during a step, and packets stay within \<open>2 ^ 29\<close> of the
  reader, whatever the application has read is the
  bytes of the stream in order, without a gap or a repetition, in whatever order the packets come and however those that are accepted
  overlap; what it reads or peeks next continues it; and no packet of the stream makes an assertion fail.\<close>

theorem stream_delivered:
  assumes "runs stream k start True sock out" "k \<le> 29"
  shows "out = map stream [start..<start + length out] \<and>
    (\<forall>c sh len peek buf sock' l. recvfrom_tcp c sh sock len peek = Some (Inr buf, sock', l) \<longrightarrow>
       buf = map stream [start + length out..<start + length out + length buf]) \<and>
    (\<forall>x p. near (start + length out) x p \<longrightarrow> carries stream x p \<longrightarrow> fst (tcp_receive_packet [] sock p) \<noteq> Rx_assert)"
proof -
  from runs_inv [OF assms TrueI] obtain rc S where
    "out = map stream [start..<start + length out]" and inv: "stream_inv stream k (start + length out) rc S sock" by blast
  moreover have "fst (tcp_receive_packet [] sock p) \<noteq> Rx_assert" if "near (start + length out) x p" "carries stream x p" for x p
    using packet_inv(1) [OF inv that(1) _ that(2)] by (metis prod.collapse)
  ultimately show ?thesis using recvfrom_inv [OF inv] by blast
qed

text \<open>A run across the wrap of the sequence numbers: the second half arrives first.\<close>

definition demo_packet :: "u32 \<Rightarrow> bytes \<Rightarrow> tcp_packet" where
  "demo_packet sq bs = \<lparr>pk_seq = sq, pk_len = length bs, pk_ack = 0, pk_flags = 0x10, pk_win = 0, pk_opt = (\<lambda>_. 0), pk_opt_len = 0,
     pk_init = take 1 bs, pk_csum = 0, pk_sum = 0, pk_more = True, pk_calls = [(Some (drop 1 bs), Some False)], pk_valid = True\<rparr>"

definition demo_sock1 :: exa_socket where
  "demo_sock1 = fst (snd (tcp_receive_packet [] demo_sock (demo_packet 0 [2, 3])))"

definition demo_sock2 :: exa_socket where
  "demo_sock2 = fst (snd (tcp_receive_packet [] demo_sock1 (demo_packet 0xFFFFFFFE [0, 1])))"

lemma demo1: "fst (tcp_receive_packet [] demo_sock (demo_packet 0 [2, 3])) = Rx_committed"
  by code_simp

lemma demo2: "fst (tcp_receive_packet [] demo_sock1 (demo_packet 0xFFFFFFFE [0, 1])) = Rx_committed"
  by code_simp

lemma demo3: "map_option fst (recvfrom_tcp True False demo_sock2 10 False) = Some (Inr [0, 1, 2, 3])"
  by code_simp

definition demo_bytes :: "nat \<Rightarrow> u8" where
  "demo_bytes p = of_nat (p - 4294967294)"

lemma demo_tcp_run: "\<exists>sock. runs demo_bytes 2 4294967294 True sock [0, 1, 2, 3]"
proof -
  have "runs demo_bytes 2 4294967294 True demo_sock []"
    by (rule runs.opened) (simp_all add: demo_sock_def demo_tcp_def)
  then have "runs demo_bytes 2 4294967294 True demo_sock1 []"
  proof (rule runs.packet)
    show "near (4294967294 + length ([] :: bytes)) 4294967296 (demo_packet 0 [2, 3])" by (simp add: near_def demo_packet_def)
    show "carries demo_bytes 4294967296 (demo_packet 0 [2, 3])"
      by (simp add: carries_def demo_packet_def calls_bytes_def demo_bytes_def upt_rec_numeral)
    show "tcp_receive_packet [] demo_sock (demo_packet 0 [2, 3]) =
        (Rx_committed, demo_sock1, snd (snd (tcp_receive_packet [] demo_sock (demo_packet 0 [2, 3]))))"
      using demo1 by (simp add: demo_sock1_def prod_eq_iff)
  qed simp
  then have "runs demo_bytes 2 4294967294 True demo_sock2 []"
  proof (rule runs.packet)
    show "near (4294967294 + length ([] :: bytes)) 4294967294 (demo_packet 0xFFFFFFFE [0, 1])" by (simp add: near_def demo_packet_def)
    show "carries demo_bytes 4294967294 (demo_packet 0xFFFFFFFE [0, 1])"
      by (simp add: carries_def demo_packet_def calls_bytes_def demo_bytes_def upt_rec_numeral)
    show "tcp_receive_packet [] demo_sock1 (demo_packet 0xFFFFFFFE [0, 1]) =
        (Rx_committed, demo_sock2, snd (snd (tcp_receive_packet [] demo_sock1 (demo_packet 0xFFFFFFFE [0, 1]))))"
      using demo2 by (simp add: demo_sock2_def prod_eq_iff)
  qed simp
  moreover obtain sock l where "recvfrom_tcp True False demo_sock2 10 False = Some (Inr [0, 1, 2, 3], sock, l)" using demo3 by auto
  ultimately show ?thesis using runs.read by fastforce
qed

lemma stream_delivered_witness:
  "(\<exists>sock. runs demo_bytes 2 4294967294 True sock [0, 1, 2, 3]) \<and> [0, 1, 2, 3] = map demo_bytes [4294967294..<4294967298]"
proof -
  obtain sock where r: "runs demo_bytes 2 4294967294 True sock [0, 1, 2, 3]" using demo_tcp_run by blast
  from stream_delivered [OF r] have "[0, 1, 2, 3] = map demo_bytes [4294967294..<4294967298]" by simp
  with r show ?thesis by blast
qed

end
