(* ===== verification/TcpFaults.thy ===== *)
theory TcpFaults
  imports TcpStream
begin

text \<open>
  What a peer can do to the receive path: a packet thrown away after its data was written over
  stored segments, a length below the size of the headers, and an option of length zero.
\<close>

subsection \<open>Segments that outlive the data\<close>

lemma abort_loop_below: "m < j \<Longrightarrow> abort_loop s e i j segs ! m = segs ! m"
proof (induction "6 - i" arbitrary: i j segs rule: less_induct)
  case less
  show ?case
  proof (cases "i < 6 \<and> \<not> seg_empty (segs ! i)")
    case True
    define i1 where "i1 = (if seq_compare s (snd (segs ! i)) < 0 \<and> seq_compare (fst (segs ! i)) e < 0 then i + 1 else i)"
    define segs1 where "segs1 = (if j < i1 then segs[j := if i1 < 6 then segs ! i1 else (0, 0)] else segs)"
    have "abort_loop s e i j segs = abort_loop s e (i1 + 1) (j + 1) segs1"
      using True abort_loop.simps [of s e i j segs] by (simp add: i1_def segs1_def Let_def)
    moreover have "abort_loop s e (i1 + 1) (j + 1) segs1 ! m = segs1 ! m"
      using True less.prems by (intro less.hyps) (auto simp: i1_def)
    ultimately show ?thesis using less.prems by (simp add: segs1_def)
  next
    case False
    show ?thesis unfolding abort_loop.simps [of s e i j segs] if_not_P [OF False] by (rule refl)
  qed
qed

lemma length_abort_loop: "length (abort_loop s e i j segs) = length segs"
proof (induction "6 - i" arbitrary: i j segs rule: less_induct)
  case less
  show ?case
  proof (cases "i < 6 \<and> \<not> seg_empty (segs ! i)")
    case True
    define i1 where "i1 = (if seq_compare s (snd (segs ! i)) < 0 \<and> seq_compare (fst (segs ! i)) e < 0 then i + 1 else i)"
    define segs1 where "segs1 = (if j < i1 then segs[j := if i1 < 6 then segs ! i1 else (0, 0)] else segs)"
    have "abort_loop s e i j segs = abort_loop s e (i1 + 1) (j + 1) segs1"
      using True abort_loop.simps [of s e i j segs] by (simp add: i1_def segs1_def Let_def)
    moreover have "length (abort_loop s e (i1 + 1) (j + 1) segs1) = length segs1"
      using True by (intro less.hyps) (auto simp: i1_def)
    ultimately show ?thesis by (simp add: segs1_def)
  next
    case False
    show ?thesis unfolding abort_loop.simps [of s e i j segs] if_not_P [OF False] by (rule refl)
  qed
qed

lemma abort_loop_skip:
  assumes "\<And>m. i \<le> m \<Longrightarrow> m < k \<Longrightarrow> \<not> seg_empty (segs ! m) \<and> \<not> seq_compare s (snd (segs ! m)) < 0" "i \<le> k" "k \<le> 6"
  shows "abort_loop s e i i segs = abort_loop s e k k segs"
  using assms
proof (induction "k - i" arbitrary: i)
  case (Suc n)
  then have "i < k" by simp
  then have h: "i < 6" "\<not> seg_empty (segs ! i)" "\<not> seq_compare s (snd (segs ! i)) < 0" using Suc.prems by auto
  then have "abort_loop s e i i segs = abort_loop s e (i + 1) (i + 1) segs"
    using abort_loop.simps [of s e i i segs] by (simp add: Let_def)
  also have "\<dots> = abort_loop s e k k segs" using Suc.hyps Suc.prems \<open>i < k\<close> by auto
  finally show ?case .
qed simp

text \<open>An aborted packet does not remove every stored segment it has written over. When the region it was
  given overlaps two neighbours of the list, the second stays listed as received, with what
  the damaged packet left in its slots.\<close>

theorem abort_keeps_overwritten:
  assumes "segs_in lo (pre @ q1 # q2 # r)" "recv_seg t = slots (pre @ q1 # q2 # r)" "window lo s" "window lo (s + n)"
    and "\<forall>q\<in>set pre. snd q \<le> s" "s < snd q1" "fst q2 < s + n"
  shows "conc q2 \<in> set (recv_seg (exa_tcp_rx_buffer_abort t (of_nat s) n pv)) \<and> fst q2 \<in> {s..<s + n}"
proof -
  define S where "S = pre @ q1 # q2 # r"
  let ?k = "length pre"
  let ?segs = "slots S"
  have len: "length S \<le> 6" "?k + 2 \<le> length S" using assms(1) by (simp_all add: segs_in_def S_def)
  have q1: "?segs ! ?k = conc q1" using slots_nth [of ?k S] by (simp add: S_def)
  have q2: "?segs ! (?k + 1) = conc q2" using slots_nth [of "?k + 1" S] by (simp add: S_def nth_append)
  have in_S: "q1 \<in> set S" "q2 \<in> set S" by (simp_all add: S_def)
  note seg = assms(1) [folded S_def]
  have order: "snd q1 < fst q2" "fst q1 < snd q1" "fst q2 < snd q2"
    using assms(1) by (cases q1; cases q2; simp add: segs_in_def segs_ok_append)+
  have skip: "abort_loop (of_nat s) (of_nat (s + n)) 0 0 ?segs = abort_loop (of_nat s) (of_nat (s + n)) ?k ?k ?segs"
  proof (rule abort_loop_skip)
    fix m assume m: "m < ?k"
    then have e: "?segs ! m = conc (pre ! m)" "pre ! m \<in> set S" using slots_nth [of m S] by (simp_all add: S_def nth_append)
    have "snd (pre ! m) \<le> s" using assms(5) m by simp
    moreover have "seq_compare (of_nat s) (snd (conc (pre ! m))) = int s - int (snd (pre ! m))"
      using segs_in_compare(4) [OF seg e(2) assms(3)] by simp
    ultimately show "\<not> seg_empty (?segs ! m) \<and> \<not> seq_compare (of_nat s) (snd (?segs ! m)) < 0"
      using segs_in_nonempty [OF seg e(2)] unfolding e(1) by simp
  qed (use len in simp_all)
  have c: "\<not> seg_empty (conc q1)" "seq_compare (of_nat s) (snd (conc q1)) < 0" "seq_compare (fst (conc q1)) (of_nat (s + n)) < 0"
    using segs_in_nonempty [OF seg in_S(1)] segs_in_compare(4) [OF seg in_S(1) assms(3)] segs_in_compare(1) [OF seg in_S(1) assms(4)]
      assms(6,7) order by simp_all
  have "abort_loop (of_nat s) (of_nat (s + n)) ?k ?k ?segs = abort_loop (of_nat s) (of_nat (s + n)) (?k + 2) (?k + 1) (?segs[?k := conc q2])"
    using abort_loop.simps [of "of_nat s" "of_nat (s + n)" ?k ?k ?segs] c len q1 q2 by (simp add: Let_def)
  then have "abort_loop (of_nat s) (of_nat (s + n)) 0 0 ?segs ! ?k = conc q2"
    using abort_loop_below [of ?k "?k + 1"] len skip by simp
  moreover have "recv_seg (exa_tcp_rx_buffer_abort t (of_nat s) n pv) = abort_loop (of_nat s) (of_nat (s + n)) 0 0 ?segs"
    using assms(2) by (simp add: exa_tcp_rx_buffer_abort_def Let_def S_def)
  moreover have "?k < length (abort_loop (of_nat s) (of_nat (s + n)) 0 0 ?segs)" using len by (simp add: length_abort_loop)
  moreover have "fst q2 \<in> {s..<s + n}" using order assms(6,7) by simp
  ultimately show ?thesis using nth_mem by metis
qed

lemma abort_keeps_overwritten_witness:
  "conc (7, 8) \<in> set (recv_seg (exa_tcp_rx_buffer_abort (demo_tcp\<lparr>recv_seg := slots [(4, 5), (7, 8)]\<rparr>) (of_nat 1) 9 0)) \<and> (7 :: nat) \<in> {1..<1 + 9}"
  using abort_keeps_overwritten [of 0 "[]" "(4, 5)" "(7, 8)" "[]" "demo_tcp\<lparr>recv_seg := slots [(4, 5), (7, 8)]\<rparr>" 1 9 0]
  by (simp add: segs_in_def window_def)

subsection \<open>Options of a SYN\<close>

text \<open>The loop meets an option with a zero length byte.\<close>

inductive zero_option :: "(nat \<Rightarrow> u8) \<Rightarrow> nat \<Rightarrow> nat \<Rightarrow> bool" for opts len where
  here: "i < len \<Longrightarrow> opts i \<noteq> TCPOPT_EOL \<Longrightarrow> opts i \<noteq> TCPOPT_NOP \<Longrightarrow> opts (i + 1) = 0 \<Longrightarrow> zero_option opts len i"
| nop: "i < len \<Longrightarrow> opts i = TCPOPT_NOP \<Longrightarrow> zero_option opts len (i + 1) \<Longrightarrow> zero_option opts len i"
| option: "i < len \<Longrightarrow> opts i \<noteq> TCPOPT_EOL \<Longrightarrow> opts i \<noteq> TCPOPT_NOP \<Longrightarrow> zero_option opts len (i + unat (opts (i + 1))) \<Longrightarrow>
    zero_option opts len i"

lemma zero_option_stuck:
  assumes "i < len" "opts i \<noteq> TCPOPT_EOL" "opts i \<noteq> TCPOPT_NOP" "opts (i + 1) = 0"
  shows "syn_opts opts len i st = None"
proof (rule ccontr)
  assume "syn_opts opts len i st \<noteq> None"
  then obtain r where r: "syn_opts opts len i st = Some r" by auto
  have "\<not> (i < len \<and> opts i \<noteq> TCPOPT_EOL \<and> opts i \<noteq> TCPOPT_NOP \<and> opts (i + 1) = 0)"
  proof (rule syn_opts.raw_induct [where P = "\<lambda>opts len i st r. \<not> (i < len \<and> opts i \<noteq> TCPOPT_EOL \<and> opts i \<noteq> TCPOPT_NOP \<and> opts (i + 1) = 0)", OF _ r])
    fix f :: "(nat \<Rightarrow> u8) \<Rightarrow> nat \<Rightarrow> nat \<Rightarrow> u16 \<times> u8 \<Rightarrow> (u16 \<times> u8) option" and opts :: "nat \<Rightarrow> u8" and len i st r
    assume IH: "\<And>opts len i st r. f opts len i st = Some r \<Longrightarrow> \<not> (i < len \<and> opts i \<noteq> TCPOPT_EOL \<and> opts i \<noteq> TCPOPT_NOP \<and> opts (i + 1) = 0)"
      and eq: "(if i < len \<and> opts i \<noteq> TCPOPT_EOL
        then f opts len (i + (if opts i = TCPOPT_NOP then 1 else unat (opts (i + 1)))) (apply_opt opts i st) else Some st) = Some r"
    show "\<not> (i < len \<and> opts i \<noteq> TCPOPT_EOL \<and> opts i \<noteq> TCPOPT_NOP \<and> opts (i + 1) = 0)"
    proof
      assume z: "i < len \<and> opts i \<noteq> TCPOPT_EOL \<and> opts i \<noteq> TCPOPT_NOP \<and> opts (i + 1) = 0"
      then have "f opts len i (apply_opt opts i st) = Some r" using eq by simp
      from IH [OF this] z show False by blast
    qed
  qed
  with assms show False by simp
qed

lemma zero_option_none: "zero_option opts len i \<Longrightarrow> syn_opts opts len i st = None"
proof (induction arbitrary: st rule: zero_option.induct)
  case (here i)
  then show ?case by (rule zero_option_stuck)
qed (simp_all add: syn_opts.simps)

lemma no_zero_option_some: "\<not> zero_option opts len i \<Longrightarrow> \<exists>r. syn_opts opts len i st = Some r"
proof (induction "len - i" arbitrary: i st rule: less_induct)
  case less
  show ?case
  proof (cases "i < len \<and> opts i \<noteq> TCPOPT_EOL")
    case True
    let ?n = "if opts i = TCPOPT_NOP then 1 else unat (opts (i + 1))"
    have "0 < ?n" using less.prems zero_option.here [of i len opts] True by (auto simp: unat_gt_0)
    moreover have "\<not> zero_option opts len (i + ?n)"
      using less.prems zero_option.nop [of i len opts] zero_option.option [of i len opts] True by auto
    ultimately have "\<exists>r. syn_opts opts len (i + ?n) (apply_opt opts i st) = Some r"
      using True by (intro less.hyps) auto
    then show ?thesis using True by (subst syn_opts.simps) simp
  qed (simp add: syn_opts.simps)
qed

text \<open>C26. Applying the options of a SYN returns exactly when the walk over them meets no option with a zero
  length; with one, the loop of the code does not end.\<close>

theorem syn_options_return_iff:
  "exa_tcp_apply_syn_opts t opts len = None \<longleftrightarrow> zero_option opts len 0"
proof (cases "zero_option opts len 0")
  case True
  then show ?thesis using zero_option_none [OF True, of "(rmss t, wscale t)"] by (simp add: exa_tcp_apply_syn_opts_def)
next
  case False
  obtain m w where "syn_opts opts len 0 (rmss t, wscale t) = Some (m, w)"
    using no_zero_option_some [OF False] by (metis surj_pair)
  then show ?thesis using False by (simp add: exa_tcp_apply_syn_opts_def)
qed

subsection \<open>Lengths\<close>

lemma blit_length: "length r \<le> length (blit r off p) \<and> (off \<le> length r \<longrightarrow> off + length p \<le> length (blit r off p))"
  by (auto simp: blit_def)

lemma recv_fill_length: "length (io_ring io) \<le> length (io_ring (snd (recv_fill off blen calls offs rm io)))"
proof (induction calls arbitrary: offs rm io)
  case (Cons c calls)
  show ?case
  proof (cases "fst c")
    case (Some p)
    have step: "length (io_ring io) \<le> length (io_ring (snd (recv_fill off blen calls a b (io'\<lparr>io_ring := blit (io_ring io) f p\<rparr>))))" for a b f io'
      using Cons.IH [of "io'\<lparr>io_ring := blit (io_ring io) f p\<rparr>" a b] blit_length [of "io_ring io" f p] by simp
    show ?thesis using Some blit_length [of "io_ring io"] step by (simp add: Let_def)
  qed (simp add: Let_def)
qed simp

lemma recv_buf_length: "length (io_ring io) \<le> length (io_ring (snd (recv_buf off blen left part io)))"
  using blit_length [of "io_ring io" off] recv_fill_length [of "io\<lparr>io_ring := blit (io_ring io) off part\<rparr>" off blen "io_calls io" "length part" "left - length part"]
  by (auto simp: recv_buf_def intro: order_trans)

lemma recv_body_overrun:
  assumes "exanic_poll_recv_body 0 b1 l1 b2 l2 init io = (st, io')" "length init < l1" "b1 \<le> length (io_ring io)"
  shows "b1 + length init \<le> length (io_ring io')"
proof -
  define io0 where "io0 = io\<lparr>io_csum := csum_part (take (l1 + l2) init) (io_csum io)\<rparr>"
  obtain s2 io2 where b: "recv_buf b1 l1 (l1 + l2) init io0 = (s2, io2)" by force
  have "b1 + length init \<le> length (io_ring (io0\<lparr>io_ring := blit (io_ring io0) b1 init\<rparr>))"
    using blit_length [of "io_ring io" b1 init] assms(3) by (simp add: io0_def)
  also have "\<dots> \<le> length (io_ring io2)"
    using recv_fill_length [of "io0\<lparr>io_ring := blit (io_ring io0) b1 init\<rparr>" b1 l1 "io_calls io0" "length init" "l1 + l2 - length init"] b assms(2)
    by (simp add: recv_buf_def)
  finally have 2: "b1 + length init \<le> length (io_ring io2)" .
  have "io' = (case s2 of Done part2 \<Rightarrow> snd (recv_buf b2 l2 l2 part2 io2) | _ \<Rightarrow> io2)"
    using assms(1) b by (cases s2) (auto simp: exanic_poll_recv_body_def Let_def io0_def split: prod.splits outcome.splits)
  then have "length (io_ring io2) \<le> length (io_ring io')" using recv_buf_length [of io2 b2 l2 l2] by (cases s2) auto
  with 2 show ?thesis by linarith
qed

lemma nibble_bound: "unat (m AND 0xF) \<le> 15" "unat (drop_bit 4 m) \<le> 15" for m :: u8
proof -
  have "m AND 0xF \<le> 0xF" by (rule word_and_le1)
  then show "unat (m AND 0xF) \<le> 15" by (simp add: word_le_nat_alt)
  have "unat (drop_bit 4 m) = unat m div 16" by (simp add: drop_bit_eq_div unat_div)
  then show "unat (drop_bit 4 m) \<le> 15" using u8_lt [of m] by simp
qed

text \<open>The length of the data when the IP header is longer than the packet says.\<close>

lemma malformed_data_len:
  assumes "exa_ip_parse_hdr ctx m hdr read_end = Some ip" "unat (be16_at m (hdr + 2)) < unat (m hdr AND 0xF) * 4"
    and "exa_tcp_parse_hdr m (ip_next ip) read_end (ip_next_len ip) cs = Some h"
  shows "\<exists>d. 20 \<le> d \<and> d \<le> 120 \<and> th_data_len h = 2 ^ 64 - d"
proof -
  let ?hl = "unat (m hdr AND 0xF) * 4" and ?n = "unat (be16_at m (hdr + 2))"
  define d where "d = ?hl - ?n"
  have d: "0 < d" "d \<le> 60" using assms(2) nibble_bound(1) [of "m hdr"] by (simp_all add: d_def)
  have "ip_next_len ip = sz_sub ?n ?hl" using assms(1) by (auto simp: exa_ip_parse_hdr_def Let_def split: if_splits)
  also have "\<dots> = 2 ^ 64 - d"
  proof -
    have "int ?n - int ?hl = - int d" using assms(2) by (simp add: d_def)
    moreover have "(- int d) mod 2 ^ 64 = 2 ^ 64 - int d" using d by (subst minus_mod_int_eq) simp_all
    ultimately show ?thesis using d by (simp add: sz_sub_def)
  qed
  finally have len: "ip_next_len ip = 2 ^ 64 - d" .
  define t where "t = unat (drop_bit 4 (m (ip_next ip + 12))) * 4"
  have "20 \<le> t" "t \<le> 60" "th_data_len h = ip_next_len ip - t"
    using assms(3) nibble_bound(2) [of "m (ip_next ip + 12)"] by (auto simp: exa_tcp_parse_hdr_def Let_def t_def split: if_splits)
  then show ?thesis using d len by (intro exI [of _ "d + t"]) simp
qed

lemma alloc_malformed:
  assumes inv: "stream_inv stream k rd rc S sock" and d: "0 < d" "d \<le> 120" "rc + d < x" "x \<le> rd + 2 ^ k + d"
  shows "\<exists>g sock'. exa_tcp_rx_buffer_alloc [] sock (of_nat x) (2 ^ 64 - d) = (Some g, sock') \<and> rx_buffer sock' = rx_buffer sock \<and>
    al_skip g = 0 \<and> al_buf1 g = x mod 2 ^ k \<and> al_len1 g = 2 ^ 32 - d"
proof -
  note i = inv [unfolded stream_inv_def]
  note rep = stream_inv_rep [OF inv]
  define e where "e = x - d"
  define w where "w = e - e mod 2 ^ k"
  have kp: "(2 :: nat) ^ k \<le> 2 ^ 29" using i by (intro window_size) simp
  have e: "rc < e" "e \<le> rd + 2 ^ k" "x = e + d" using d by (simp_all add: e_def)
  have rd: "rd \<le> rc" "rx_buffer_size sock = 2 ^ k" "k \<le> 30" "read_seq (tcp sock) = of_nat rd" "proc_seq (tcp sock) = of_nat rc"
    using i by simp_all
  have "(of_nat (2 ^ 64 - d) :: u32) = - of_nat d" using d(2) by (simp add: of_nat_diff)
  then have sum: "of_nat x + of_nat (2 ^ 64 - d) = (of_nat e :: u32)" by (simp add: e(3))
  have sp: "unat (of_nat e - of_nat rd :: u32) = e - rd" using e rd kp by (intro unat_word_diff) simp_all
  have c1: "seq_compare (of_nat e) (of_nat rc) = int e - int rc" using e rd kp by (intro seq_compare_pos) simp_all
  have c2: "seq_compare (of_nat x) (of_nat rc) = int x - int rc" using e rd kp d by (intro seq_compare_pos) simp_all
  have ws: "of_nat e AND NOT (rx_mask sock) = of_nat w" unfolding w_def by (rule ring_mask(2) [OF rd(2,3)])
  have wb: "w \<le> e" "e < w + 2 ^ k"
  proof -
    have "e mod 2 ^ k < 2 ^ k" by simp
    then show "w \<le> e" "e < w + 2 ^ k" using mod_less_eq_dividend [of e "2 ^ k"] unfolding w_def by linarith+
  qed
  have c3: "seq_compare (of_nat x) (of_nat w) = int x - int w" using e(3) wb kp d by (intro seq_compare_pos) simp_all
  have "unat (of_nat e - of_nat x :: u32) = 2 ^ 32 - d"
  proof -
    have "(of_nat e - of_nat x :: u32) = of_nat (2 ^ 32 - d)" using d(2) by (simp add: e(3) of_nat_diff)
    moreover have "unat (of_nat (2 ^ 32 - d) :: u32) = 2 ^ 32 - d" unfolding unat_of_nat using d by simp
    ultimately show ?thesis by simp
  qed
  then show ?thesis
    using sp c1 c2 c3 e rd wb ring_mask(1) [OF rd(2,3), of x]
    unfolding exa_tcp_rx_buffer_alloc_def sum by (simp add: Let_def ws)
qed

text \<open>C25. A packet whose IP length is below its IP header length is not rejected. Its data length wraps to almost
  \<open>2 ^ 64\<close>, the allocation accepts it as new data and hands out almost \<open>2 ^ 32\<close> bytes from a slot of the ring,
  and the copy writes past the end of the ring.\<close>

theorem malformed_length_overruns:
  assumes "exa_ip_parse_hdr ctx m hdr read_end = Some ip" "unat (be16_at m (hdr + 2)) < unat (m hdr AND 0xF) * 4"
    and "exa_tcp_parse_hdr m (ip_next ip) read_end (ip_next_len ip) cs = Some h"
    and "pk_len p = th_data_len h" "pk_seq p = of_nat x"
    and "stream_inv stream k rd rc S sock" "rc + 120 < x" "x \<le> rd + 2 ^ k + 20"
    and "length (pk_init p) < 2 ^ 31" "2 ^ k < x mod 2 ^ k + length (pk_init p)"
  shows "2 ^ 64 - 120 \<le> th_data_len h \<and> 2 ^ 32 - 120 \<le> al_len1 (fst (tcp_region [] sock p)) \<and>
    length (rx_buffer sock) < length (rx_buffer (fst (snd (tcp_receive_payload [] sock p))))"
proof -
  obtain d where d: "20 \<le> d" "d \<le> 120" "th_data_len h = 2 ^ 64 - d" using malformed_data_len [OF assms(1-3)] by blast
  obtain g sock' where g: "exa_tcp_rx_buffer_alloc [] sock (of_nat x) (2 ^ 64 - d) = (Some g, sock')" "rx_buffer sock' = rx_buffer sock"
      "al_skip g = 0" "al_buf1 g = x mod 2 ^ k" "al_len1 g = 2 ^ 32 - d"
    using alloc_malformed [OF assms(6), of d x] d assms(7,8) by auto
  have reg: "tcp_region [] sock p = (g, sock')" using g(1) d assms(4,5) by (simp add: tcp_region_def)
  have len: "length (rx_buffer sock) = 2 ^ k" using assms(6) by (simp add: stream_inv_def)
  obtain st io where b: "exanic_poll_recv_body 0 (al_buf1 g) (al_len1 g) (al_buf2 g) (al_len2 g) (pk_init p)
      \<lparr>io_calls = pk_calls p, io_csum = pk_csum p, io_more = pk_more p, io_ring = rx_buffer sock\<rparr> = (st, io)" by force
  have "x mod 2 ^ k < 2 ^ k" by simp
  then have "al_buf1 g + length (pk_init p) \<le> length (io_ring io)"
    using recv_body_overrun [OF b] assms(9) d len by (simp add: g(4,5))
  moreover have "rx_buffer (fst (snd (tcp_receive_payload [] sock p))) = io_ring io"
    using b by (auto simp: tcp_receive_payload_def reg g(2,3) Let_def split: outcome.splits option.splits)
  moreover have "2 ^ 64 - 120 \<le> (2 :: nat) ^ 64 - d" "2 ^ 32 - 120 \<le> (2 :: nat) ^ 32 - d"
    using d(2) by (rule diff_le_mono2)+
  ultimately show ?thesis using d(3) reg g(4,5) len assms(10) by simp
qed

definition bad_headers :: "nat \<Rightarrow> u8" where
  "bad_headers i = (let bs = [69, 0, 0, 0, 0, 0, 64, 0, 64, 6, 38, 246, 10, 0, 0, 2, 10, 0, 0, 1, 31, 144, 31, 145, 0, 0, 0, 127, 0, 0, 0, 0, 80, 16, 0, 0, 0, 0, 0, 0] in if i < 40 then bs ! i else 0)"

definition bad_ip :: exa_ip where
  "bad_ip = \<lparr>address = 0x0100000A, broadcast = 0xFF00000A\<rparr>"

definition bad_sock :: exa_socket where
  "bad_sock = demo_sock\<lparr>rx_buffer_size := 128, rx_buffer := replicate 128 0\<rparr>"

definition bad_packet :: tcp_packet where
  "bad_packet = (demo_packet 127 [])\<lparr>pk_len := 2 ^ 64 - 40, pk_init := [1, 2], pk_calls := []\<rparr>"

lemma bad_ip_parse: "exa_ip_parse_hdr bad_ip bad_headers 0 60 =
    Some \<lparr>ip_peer = 0x0200000A, ip_local = 0x0100000A, ip_next = 20, ip_next_len = 2 ^ 64 - 20, ip_proto = 6\<rparr>"
proof -
  have bs: "map bad_headers [0..<20] = [0x45, 0, 0, 0, 0, 0, 0x40, 0, 0x40, 6, 38, 246, 10, 0, 0, 2, 10, 0, 0, 1]"
    by code_simp
  have cs: "csum [0x45, 0, 0, 0, 0, 0, 0x40, 0, 0x40, 6, 38, 246, 10, 0, 0, 2, 10, 0, 0, 1] 0 = 0xFFFF" by code_simp
  have hd: "bad_headers 0 = 0x45" "bad_headers (Suc (Suc 0)) = 0" "bad_headers (Suc (Suc (Suc 0))) = 0" "bad_headers 6 = 0x40" "bad_headers 7 = 0" "bad_headers 9 = 6"
      "bad_headers 12 = 10" "bad_headers 13 = 0" "bad_headers 14 = 0" "bad_headers 15 = 2" "bad_headers 16 = 10" "bad_headers 17 = 0"
      "bad_headers 18 = 0" "bad_headers 19 = 1"
    by (simp_all add: bad_headers_def)
  show ?thesis
    by (simp add: exa_ip_parse_hdr_def Let_def be16_at_def le32_at_def hd bs cs bad_ip_def sz_sub_def)
qed

lemma bad_tcp_parse: "map_option th_data_len (exa_tcp_parse_hdr bad_headers 20 60 (2 ^ 64 - 20) 0) = Some (2 ^ 64 - 40)"
  by (simp add: exa_tcp_parse_hdr_def Let_def bad_headers_def sz_sub_def)

lemma bad_inv: "stream_inv (\<lambda>_. 0) 7 4294967294 4294967294 [] bad_sock"
  by (auto simp: stream_inv_def bad_sock_def demo_sock_def demo_tcp_def slots_def rcvd_def)

lemma malformed_length_overruns_witness:
  "length (rx_buffer bad_sock) < length (rx_buffer (fst (snd (tcp_receive_payload [] bad_sock bad_packet))))"
proof -
  obtain h where h: "exa_tcp_parse_hdr bad_headers 20 60 (2 ^ 64 - 20) 0 = Some h" "th_data_len h = 2 ^ 64 - 40"
    using bad_tcp_parse by auto
  have len: "unat (be16_at bad_headers (0 + 2)) < unat (bad_headers 0 AND 0xF) * 4"
    by (simp add: be16_at_def bad_headers_def)
  show ?thesis
    using malformed_length_overruns [OF bad_ip_parse len _ _ _ bad_inv, of 0 h bad_packet 4294967423] h
    by (simp add: bad_packet_def demo_packet_def)
qed

subsection \<open>A timeout\<close>

text \<open>After a timeout \<open>recvfrom_tcp\<close> returns with \<open>rx_lock\<close> held; on every other return it is free.\<close>

lemma recvfrom_lock:
  "recvfrom_tcp c sh sock len peek = Some (r, sock', locked) \<Longrightarrow> locked \<longleftrightarrow> r = Inl ETIMEDOUT"
  by (auto simp: recvfrom_tcp_def recv_block_tcp_ready_def Let_def split: if_splits)

end
