(* ===== verification/CsumIov.thy ===== *)
theory CsumIov
  imports Checksum
begin

text \<open>
  Messages in pieces (\<open>struct iovec\<close>): the checksum over the pieces of
  \<open>libs/exasock/checksum.h\<close> and the copy loop of \<open>exanic_dev_send\<close>
  (\<open>libs/exasock/exanic.c\<close>). Both are what the flat message gives.
\<close>

subsection \<open>Checksum of a message in pieces\<close>

text \<open>The sum and the offset reached; the first byte of a piece that starts at an odd offset is the
  high byte of a word. \<open>(v ! 0 + skip)\<close> is what the code adds, whose cast binds before the addition.\<close>

primrec csum_iov_loop :: "nat \<Rightarrow> nat \<Rightarrow> bytes list \<Rightarrow> u64 \<Rightarrow> nat \<Rightarrow> u64 \<times> nat" where
  "csum_iov_loop skip_len iov_len [] acc offs = (acc, offs)"
| "csum_iov_loop skip_len iov_len (v # iov) acc offs =
     (if iov_len \<le> offs then (acc, offs)
      else
        let len = (if length v < iov_len - offs then length v else iov_len - offs);
            skip = (if offs < skip_len then skip_len - offs else 0);
            sum1 = (if skip < len
                    then if odd (offs + skip) \<noteq> odd skip_len
                         then csum_part (take (len - skip - 1) (drop (skip + 1) v)) acc + of_nat ((unat (v ! 0) + skip) * 256)
                         else csum_part (take (len - skip) (drop skip v)) acc
                    else acc)
        in csum_iov_loop skip_len iov_len iov sum1 (offs + len))"

definition csum_iov :: "bytes list \<Rightarrow> nat \<Rightarrow> nat \<Rightarrow> u64 \<Rightarrow> u16 option" where
  "csum_iov iov skip_len data_len acc =
     (let (s, offs) = csum_iov_loop skip_len (skip_len + data_len) iov acc 0
      in if offs = skip_len + data_len then Some (csum_pack s) else None)"

text \<open>The pieces copied one after the other.\<close>

primrec iov_gather :: "nat \<Rightarrow> nat \<Rightarrow> bytes list \<Rightarrow> nat \<Rightarrow> bytes \<times> nat" where
  "iov_gather skip_len iov_len [] offs = ([], offs)"
| "iov_gather skip_len iov_len (v # iov) offs =
     (if iov_len \<le> offs then ([], offs)
      else
        let len = (if length v < iov_len - offs then length v else iov_len - offs);
            skip = (if offs < skip_len then skip_len - offs else 0);
            (r, e) = iov_gather skip_len iov_len iov (offs + len)
        in ((if skip < len then take (len - skip) (drop skip v) else []) @ r, e))"

subsection \<open>The sum of the pieces is the sum of the message\<close>

lemma word_sum_zero: "word_sum (0 # b # r) = 256 * unat b + word_sum r" "word_sum [0] = 0"
  by simp_all

lemma word_sum_split: "word_sum (xs @ ys) = word_sum xs + word_sum (if even (length xs) then ys else 0 # ys)"
proof (induction xs rule: word_sum.induct)
  case (2 a)
  show ?case by (cases ys) simp_all
qed auto

definition padded :: "bool \<Rightarrow> bytes \<Rightarrow> bytes" where
  "padded b bs = (if b then 0 # bs else bs)"

lemma word_sum_padded_append:
  "word_sum (padded b (xs @ ys)) = word_sum (padded b xs) + word_sum (padded (b \<noteq> odd (length xs)) ys)"
  using word_sum_split [of "0 # xs" ys] word_sum_split [of xs ys] by (cases b) (auto simp: padded_def)

text \<open>What is left of the message at an offset, and whether it starts in the middle of a word.\<close>

definition iov_rest :: "nat \<Rightarrow> nat \<Rightarrow> bytes list \<Rightarrow> nat \<Rightarrow> bytes" where
  "iov_rest skip_len iov_len iov offs = drop (skip_len - offs) (take (iov_len - offs) (concat iov))"

lemma iov_rest_Cons:
  fixes v :: bytes
  assumes "offs \<le> iov_len"
  defines "len \<equiv> min (length v) (iov_len - offs)"
  shows "iov_rest skip_len iov_len (v # iov) offs =
    drop (skip_len - offs) (take len v) @ iov_rest skip_len iov_len iov (offs + len)"
proof (cases "length v \<le> iov_len - offs")
  case True
  then have "len = length v" by (simp add: len_def)
  with True show ?thesis by (simp add: iov_rest_def)
next
  case False
  then have "len = iov_len - offs" by (simp add: len_def)
  with False assms(1) show ?thesis by (simp add: iov_rest_def)
qed

lemma csum_part_padded:
  assumes "\<not> b \<or> bs \<noteq> []" "unat s + word_sum (padded b bs) < 2 ^ 64"
  shows "unat (if b then csum_part (tl bs) s + of_nat (unat (bs ! 0) * 256) else csum_part bs s) = unat s + word_sum (padded b bs)"
proof (cases b)
  case False
  with assms show ?thesis by (simp add: padded_def csum_part_sum)
next
  case True
  with assms(1) obtain a r where bs: "bs = a # r" by (cases bs) auto
  with True assms(2) have s: "unat s + word_sum r + 256 * unat a < 2 ^ 64" by (simp add: padded_def)
  then have "unat (csum_part r s) = unat s + word_sum r" by (intro csum_part_sum) simp
  moreover have "unat (of_nat (unat a * 256) :: u64) = unat a * 256"
    using s unfolding unat_of_nat by simp
  ultimately show ?thesis using True bs s by (simp add: padded_def unat_word_ariths(1) add.assoc)
qed

lemma csum_iov_loop_Cons:
  assumes "offs < L" "len = min (length v) (L - offs)"
  shows "csum_iov_loop skip_len L (v # iov) s offs = csum_iov_loop skip_len L iov
    (if skip_len - offs < len
     then if odd (offs + (skip_len - offs)) \<noteq> odd skip_len
          then csum_part (take (len - (skip_len - offs) - 1) (drop (skip_len - offs + 1) v)) s + of_nat ((unat (v ! 0) + (skip_len - offs)) * 256)
          else csum_part (take (len - (skip_len - offs)) (drop (skip_len - offs) v)) s
     else s) (offs + len)"
proof -
  have "(if length v < L - offs then length v else L - offs) = len" using assms(2) by simp
  moreover have "(if offs < skip_len then skip_len - offs else 0) = skip_len - offs" by simp
  ultimately show ?thesis using assms(1) by (simp only: csum_iov_loop.simps Let_def not_le if_False simp_thms if_P flip: not_less)
qed

lemma csum_iov_loop_sum:
  assumes "offs \<le> L" "unat s + word_sum (padded (odd (offs - skip_len)) (iov_rest skip_len L iov offs)) < 2 ^ 64"
  shows "unat (fst (csum_iov_loop skip_len L iov s offs)) =
      unat s + word_sum (padded (odd (offs - skip_len)) (iov_rest skip_len L iov offs)) \<and>
    snd (csum_iov_loop skip_len L iov s offs) = min L (offs + length (concat iov))"
  using assms
proof (induction iov arbitrary: s offs)
  case Nil
  then show ?case by (simp add: iov_rest_def padded_def)
next
  case (Cons v iov)
  show ?case
  proof (cases "L \<le> offs")
    case True
    with Cons.prems(1) show ?thesis by (simp add: iov_rest_def padded_def)
  next
    case False
    define len where "len = min (length v) (L - offs)"
    define P where "P = drop (skip_len - offs) (take len v)"
    define b where "b = odd (offs - skip_len)"
    define R where "R = iov_rest skip_len L iov (offs + len)"
    define s1 where "s1 = (if skip_len - offs < len then (if b then csum_part (tl P) s + of_nat (unat (P ! 0) * 256) else csum_part P s) else s)"
    have len: "len \<le> length v" "offs + len \<le> L" using False by (auto simp: len_def)
    have rest: "iov_rest skip_len L (v # iov) offs = P @ R"
      unfolding P_def R_def len_def using False by (intro iov_rest_Cons) simp
    have lP: "length P = len - (skip_len - offs)" using len by (simp add: P_def)
    have par: "odd (offs + len - skip_len) \<longleftrightarrow> b \<noteq> odd (length P)"
    proof (cases "skip_len \<le> offs")
      case True
      then have "offs + len - skip_len = (offs - skip_len) + length P" using lP by simp
      then show ?thesis by (auto simp: b_def)
    next
      case False
      then have "offs + len - skip_len = length P" "\<not> b" using lP by (auto simp: b_def)
      then show ?thesis by simp
    qed
    have sum: "word_sum (padded b (P @ R)) = word_sum (padded b P) + word_sum (padded (odd (offs + len - skip_len)) R)"
      unfolding word_sum_padded_append par ..
    have s1: "unat s1 = unat s + word_sum (padded b P)"
    proof (cases "skip_len - offs < len")
      case True
      with lP have "P \<noteq> []" by auto
      then show ?thesis using True Cons.prems(2) unfolding rest b_def [symmetric] sum s1_def
        by (simp add: csum_part_padded)
    next
      case False
      then have "P = []" "b = False \<or> len = 0" using lP by (auto simp: b_def)
      then show ?thesis using False by (auto simp: s1_def padded_def)
    qed
    have IH: "unat (fst (csum_iov_loop skip_len L iov s1 (offs + len))) = unat s1 + word_sum (padded (odd (offs + len - skip_len)) R) \<and>
        snd (csum_iov_loop skip_len L iov s1 (offs + len)) = min L (offs + len + length (concat iov))"
      unfolding R_def using Cons.prems(2) len(2) unfolding rest b_def [symmetric] sum
      by (intro Cons.IH) (simp_all add: s1 R_def)
    have step: "csum_iov_loop skip_len L (v # iov) s offs = csum_iov_loop skip_len L iov s1 (offs + len)"
    proof (cases "skip_len - offs < len")
      case True
      have "odd (offs + (skip_len - offs)) \<noteq> odd skip_len \<longleftrightarrow> b"
        unfolding b_def by (cases "skip_len \<le> offs") auto
      moreover have "skip_len - offs = 0" if b using that by (cases "skip_len \<le> offs") (auto simp: b_def)
      moreover have "P ! 0 = v ! 0" if "skip_len - offs = 0" using True len that by (simp add: P_def)
      moreover have "tl P = take (len - 1) (drop 1 v)" if "skip_len - offs = 0"
        using that by (simp add: P_def drop_Suc tl_take)
      moreover have "P = take (len - (skip_len - offs)) (drop (skip_len - offs) v)" by (simp add: P_def drop_take)
      ultimately show ?thesis
        unfolding csum_iov_loop_Cons [OF False [unfolded not_le] len_def] s1_def using True by (cases b) simp_all
    next
      case no: False
      then show ?thesis unfolding csum_iov_loop_Cons [OF False [unfolded not_le] len_def] s1_def by simp
    qed
    have "min L (offs + len + length (concat iov)) = min L (offs + length (concat (v # iov)))"
      using False by (auto simp: len_def)
    then show ?thesis using IH unfolding step rest b_def [symmetric] sum s1 by simp
  qed
qed

subsection \<open>Flat messages\<close>

lemma iov_gather_rest:
  "offs \<le> L \<Longrightarrow> iov_gather skip_len L iov offs = (iov_rest skip_len L iov offs, min L (offs + length (concat iov)))"
proof (induction iov arbitrary: offs)
  case Nil
  then show ?case by (simp add: iov_rest_def)
next
  case (Cons v iov)
  show ?case
  proof (cases "L \<le> offs")
    case True
    with Cons.prems show ?thesis by (simp add: iov_rest_def)
  next
    case False
    define len where "len = min (length v) (L - offs)"
    have "(if length v < L - offs then length v else L - offs) = len" by (simp add: len_def)
    moreover have "(if offs < skip_len then skip_len - offs else 0) = skip_len - offs" by simp
    moreover have "iov_gather skip_len L iov (offs + len) = (iov_rest skip_len L iov (offs + len), min L (offs + len + length (concat iov)))"
      using False by (intro Cons.IH) (simp add: len_def)
    moreover have "(if skip_len - offs < len then take (len - (skip_len - offs)) (drop (skip_len - offs) v) else []) =
        drop (skip_len - offs) (take len v)"
      by (simp add: drop_take)
    moreover have "min L (offs + len + length (concat iov)) = min L (offs + length (concat (v # iov)))"
      using False by (auto simp: len_def)
    ultimately show ?thesis using False Cons.prems
      by (simp add: Let_def iov_rest_Cons flip: len_def)
  qed
qed

lemma iov_rest_start: "iov_rest skip_len (skip_len + n) iov 0 = take n (drop skip_len (concat iov))"
  by (simp add: iov_rest_def drop_take)

lemma csum_iov_flat:
  assumes "skip_len + n \<le> length (concat iov)" "unat s + word_sum (take n (drop skip_len (concat iov))) < 2 ^ 64"
  shows "\<exists>t. csum_iov iov skip_len n s = Some (csum_pack t) \<and> unat t = unat s + word_sum (take n (drop skip_len (concat iov)))"
proof -
  obtain t e where l: "csum_iov_loop skip_len (skip_len + n) iov s 0 = (t, e)" by force
  from csum_iov_loop_sum [of 0 "skip_len + n" s skip_len iov] have "unat t = unat s + word_sum (take n (drop skip_len (concat iov)))" "e = skip_len + n"
    using assms unfolding l iov_rest_start by (simp_all add: padded_def)
  then show ?thesis using l by (intro exI [of _ t]) (simp add: csum_iov_def)
qed

lemma csum_iov_loop_offs:
  "offs \<le> L \<Longrightarrow> snd (csum_iov_loop skip_len L iov s offs) = min L (offs + length (concat iov))"
proof (induction iov arbitrary: s offs)
  case (Cons v iov)
  show ?case
  proof (cases "offs < L")
    case True
    then show ?thesis
      unfolding csum_iov_loop_Cons [OF True refl] by (subst Cons.IH) (auto simp: min_def)
  next
    case False
    with Cons.prems show ?thesis by simp
  qed
qed simp

lemma csum_iov_defined:
  assumes "skip_len + n \<le> length (concat iov)"
  shows "\<exists>c. csum_iov iov skip_len n s = Some c"
  using assms csum_iov_loop_offs [of 0 "skip_len + n" skip_len iov s] by (simp add: csum_iov_def case_prod_beta)

end
