(* ===== verification/NetHdr.thy ===== *)
theory NetHdr
  imports TcpRx CsumIov TxFifo
begin

text \<open>
  The lower layers of a packet: Ethernet (\<open>libs/exasock/ether.h\<close>), the IP header of the packets
  a socket sends (\<open>ip.h\<close>) and the neighbour of the destination (\<open>dst.h\<close>, \<open>kernel/structs.h\<close>).
  Fields in network order are kept as this machine loads them, so \<open>htons\<close> of a constant is the
  constant with its bytes swapped.
\<close>

definition be16_bytes :: "u16 \<Rightarrow> bytes" where
  "be16_bytes x = [ucast (drop_bit 8 x), ucast x]"

definition be32_bytes :: "u32 \<Rightarrow> bytes" where
  "be32_bytes x = [ucast (drop_bit 24 x), ucast (drop_bit 16 x), ucast (drop_bit 8 x), ucast x]"

definition le32_bytes :: "u32 \<Rightarrow> bytes" where
  "le32_bytes x = [ucast x, ucast (drop_bit 8 x), ucast (drop_bit 16 x), ucast (drop_bit 24 x)]"

subsection \<open>Ethernet\<close>

abbreviation (input) "ETH_P_IP \<equiv> 0x0800 :: u16"
abbreviation (input) "ETH_P_8021Q \<equiv> 0x8100 :: u16"
abbreviation (input) "VLAN_HDR_VID_MASK \<equiv> 0x0FFF :: u16"

record exa_eth =
  eth_dev_addr :: bytes
  eth_vlan_id :: u16

record exa_eth_tx =
  h_dest :: bytes
  h_source :: bytes
  h_proto :: u16
  h_vlan_tci :: u16
  h_vlan_proto :: u16

definition is_multicast_eth_addr :: "u8 \<Rightarrow> bool" where
  "is_multicast_eth_addr a0 \<longleftrightarrow> a0 AND 1 \<noteq> 0"

text \<open>The VLAN fields keep what the memory of the new context held.\<close>

definition exa_eth_tx_init :: "exa_eth_tx \<Rightarrow> u16 \<Rightarrow> exa_eth_tx" where
  "exa_eth_tx_init ctx proto = ctx\<lparr>h_dest := replicate 6 0xFF, h_source := replicate 6 0xFF, h_proto := htons proto\<rparr>"

definition exa_eth_set_src :: "exa_eth_tx \<Rightarrow> bytes \<Rightarrow> u16 \<Rightarrow> exa_eth_tx" where
  "exa_eth_set_src ctx src vlan =
     (let ctx1 = ctx\<lparr>h_source := src\<rparr>
      in if vlan \<noteq> 0 then ctx1\<lparr>h_vlan_tci := vlan, h_vlan_proto := h_proto ctx1, h_proto := htons ETH_P_8021Q\<rparr> else ctx1)"

definition exa_eth_set_dest :: "exa_eth_tx \<Rightarrow> bytes \<Rightarrow> exa_eth_tx" where
  "exa_eth_set_dest ctx dest = ctx\<lparr>h_dest := dest\<rparr>"

text \<open>The results are the protocol and where the next header starts. The comparison with the size of a
  header is unsigned: it passes when the header starts beyond the end.\<close>

definition exa_eth_parse_vlan_hdr :: "exa_eth \<Rightarrow> (nat \<Rightarrow> u8) \<Rightarrow> nat \<Rightarrow> nat \<Rightarrow> (u16 \<times> nat) option" where
  "exa_eth_parse_vlan_hdr ctx m hdr read_end =
     (if sz_sub read_end hdr < 4 then None
      else if le16_at m hdr AND htons VLAN_HDR_VID_MASK = eth_vlan_id ctx then Some (le16_at m (hdr + 2), hdr + 4)
      else None)"

definition exa_eth_parse_hdr :: "exa_eth \<Rightarrow> (nat \<Rightarrow> u8) \<Rightarrow> nat \<Rightarrow> nat \<Rightarrow> (u16 \<times> nat) option" where
  "exa_eth_parse_hdr ctx m hdr read_end =
     (if sz_sub read_end hdr < 14 then None
      else if map m [hdr..<hdr + 6] \<noteq> eth_dev_addr ctx \<and> \<not> is_multicast_eth_addr (m hdr) then None
      else if le16_at m (hdr + 12) = htons ETH_P_8021Q then exa_eth_parse_vlan_hdr ctx m (hdr + 14) read_end
      else if eth_vlan_id ctx \<noteq> 0 then None
      else Some (le16_at m (hdr + 12), hdr + 14))"

text \<open>The build functions put a header in front of the bytes built so far.\<close>

definition exa_eth_build_hdr :: "exa_eth_tx \<Rightarrow> bytes \<Rightarrow> bytes" where
  "exa_eth_build_hdr ctx hdr =
     (if h_proto ctx = htons ETH_P_8021Q
      then h_dest ctx @ h_source ctx @ le16_bytes (h_proto ctx) @ le16_bytes (h_vlan_tci ctx) @ le16_bytes (h_vlan_proto ctx) @ hdr
      else h_dest ctx @ h_source ctx @ le16_bytes (h_proto ctx) @ hdr)"

subsection \<open>IP\<close>

abbreviation (input) "IPPROTO_TCP \<equiv> 6 :: u8"
abbreviation (input) "IPPROTO_UDP \<equiv> 17 :: u8"
abbreviation (input) "IPDEFTTL \<equiv> 64 :: u8"

text \<open>The fields of the header that vary between sockets; the others are constants.\<close>

record exa_ip_tx =
  ip_ttl :: u8
  ip_p :: u8
  ip_src :: u32
  ip_dst :: u32

definition exa_ip_tx_init :: "u8 \<Rightarrow> exa_ip_tx" where
  "exa_ip_tx_init proto = \<lparr>ip_ttl = IPDEFTTL, ip_p = proto, ip_src = 0, ip_dst = 0\<rparr>"

definition exa_ip_set_src :: "exa_ip_tx \<Rightarrow> u32 \<Rightarrow> exa_ip_tx" where
  "exa_ip_set_src ctx a = ctx\<lparr>ip_src := a\<rparr>"

definition exa_ip_set_dest :: "exa_ip_tx \<Rightarrow> u32 \<Rightarrow> exa_ip_tx" where
  "exa_ip_set_dest ctx a = ctx\<lparr>ip_dst := a\<rparr>"

definition exa_ip_set_ttl :: "exa_ip_tx \<Rightarrow> u8 \<Rightarrow> exa_ip_tx" where
  "exa_ip_set_ttl ctx ttl = ctx\<lparr>ip_ttl := ttl\<rparr>"

definition exa_ip_addr_csum :: "exa_ip_tx \<Rightarrow> u64" where
  "exa_ip_addr_csum ctx = ucast (ip_src ctx) + ucast (ip_dst ctx)"

definition ip_hdr :: "exa_ip_tx \<Rightarrow> u16 \<Rightarrow> u16 \<Rightarrow> bytes" where
  "ip_hdr ctx len c = [0x45, 0] @ be16_bytes len @ [0, 0] @ be16_bytes 0x4000 @ [ip_ttl ctx, ip_p ctx] @ le16_bytes c @
     le32_bytes (ip_src ctx) @ le32_bytes (ip_dst ctx)"

definition exa_ip_build_hdr :: "exa_ip_tx \<Rightarrow> bytes \<Rightarrow> nat \<Rightarrow> bytes" where
  "exa_ip_build_hdr ctx hdr data_len =
     (let len = of_nat (length hdr + data_len + 20)
      in ip_hdr ctx len (NOT (csum (ip_hdr ctx len 0) 0)) @ hdr)"

subsection \<open>Neighbours\<close>

datatype dst_state = DST_EMPTY | DST_INCOMPLETE | DST_VALID | DST_INVALID

record exa_dst_entry =
  de_dst_addr :: u32
  de_src_addr :: u32
  de_eth_addr :: bytes
  de_gen_id :: u8
  de_def_rt :: bool
  de_state :: dst_state

record exa_dst =
  dst_addr :: u32
  dst_src_addr :: u32
  dst_idx :: "nat option"
  dst_gen_id :: u8
  dst_eth_addr :: bytes
  no_lookup :: bool

definition exa_dst_hash :: "u32 \<Rightarrow> u32" where
  "exa_dst_hash a0 =
     (let a1 = a0 + NOT (push_bit 15 a0);
          a2 = a1 XOR drop_bit 10 a1;
          a3 = a2 + push_bit 3 a2;
          a4 = a3 XOR drop_bit 6 a3;
          a5 = a4 + NOT (push_bit 11 a4)
      in a5 XOR drop_bit 16 a5)"

definition exa_dst_set_addr :: "exa_dst \<Rightarrow> u32 \<Rightarrow> u32 \<Rightarrow> exa_dst" where
  "exa_dst_set_addr ctx dst src =
     (let ctx1 = ctx\<lparr>dst_addr := dst, dst_src_addr := src, dst_idx := None\<rparr>; a = ntohl dst
      in if IN_MULTICAST a
         then ctx1\<lparr>no_lookup := True,
           dst_eth_addr := [0x01, 0x00, 0x5E, ucast (drop_bit 16 (a AND 0x7F0000)), ucast (drop_bit 8 (a AND 0xFF00)), ucast (a AND 0xFF)]\<rparr>
         else ctx1\<lparr>no_lookup := False\<rparr>)"

definition dst_match :: "u32 \<Rightarrow> u32 \<Rightarrow> exa_dst_entry \<Rightarrow> bool" where
  "dst_match dst src e \<longleftrightarrow>
     de_state e = DST_VALID \<and> de_dst_addr e = dst \<and> (src = 0 \<and> de_def_rt e \<or> de_src_addr e = src)"

text \<open>The probes from \<open>idx\<close>; \<open>n\<close> slots are left. The size of the table is a power of two.\<close>

fun dst_probe :: "exa_dst_entry list \<Rightarrow> u32 \<Rightarrow> u32 \<Rightarrow> nat \<Rightarrow> nat \<Rightarrow> nat option" where
  "dst_probe tbl dst src 0 idx = None"
| "dst_probe tbl dst src (Suc n) idx =
     (if dst_match dst src (tbl ! idx) then Some idx
      else if de_state (tbl ! idx) = DST_EMPTY then None
      else dst_probe tbl dst src n ((idx + 1) mod length tbl))"

definition exa_dst_lookup :: "exa_dst_entry list \<Rightarrow> u32 \<Rightarrow> u32 \<Rightarrow> nat option" where
  "exa_dst_lookup tbl dst src = dst_probe tbl dst src (length tbl) (unat (exa_dst_hash dst) mod length tbl)"

text \<open>\<open>exa_dst_update\<close> when the table does not change under it; the result is whether there is a new address,
  and the entry marked as used.\<close>

definition exa_dst_update :: "exa_dst_entry list \<Rightarrow> exa_dst \<Rightarrow> bool \<times> exa_dst \<times> nat option" where
  "exa_dst_update tbl ctx =
     (if no_lookup ctx then (False, ctx, None)
      else
        let unchanged = (case dst_idx ctx of None \<Rightarrow> False
               | Some i \<Rightarrow> de_state (tbl ! i) = DST_VALID \<and> de_gen_id (tbl ! i) = dst_gen_id ctx)
        in if unchanged then (False, ctx, dst_idx ctx)
           else case exa_dst_lookup tbl (dst_addr ctx) (dst_src_addr ctx) of
                  None \<Rightarrow> (False, ctx, None)
                | Some i \<Rightarrow> (True, ctx\<lparr>dst_eth_addr := de_eth_addr (tbl ! i), dst_idx := Some i, dst_gen_id := de_gen_id (tbl ! i)\<rparr>, Some i))"

definition exa_dst_found :: "exa_dst \<Rightarrow> bool" where
  "exa_dst_found ctx \<longleftrightarrow> no_lookup ctx \<or> dst_idx ctx \<noteq> None"

end
