(* ===== verification/TcpHdr.thy ===== *)
theory TcpHdr
  imports NetHdr
begin

text \<open>
  The headers of the segments a TCP socket sends, \<open>libs/exasock/tcp.h\<close>. A header is the list of
  its bytes. The cached header \<open>ctx->hdr\<close> is what \<open>exa_tcp_connect\<close> and \<open>exa_tcp_accept\<close> leave: the
  ports, a length of 20 bytes, and 0.
\<close>

abbreviation (input) "TH_PUSH \<equiv> 0x08 :: u8"

definition tcp_hdr :: "exa_tcp_conn \<Rightarrow> u32 \<Rightarrow> u32 \<Rightarrow> u8 \<Rightarrow> u8 \<Rightarrow> u16 \<Rightarrow> u16 \<Rightarrow> bytes" where
  "tcp_hdr ctx sq ack off flags win c =
     le16_bytes (th_sport ctx) @ le16_bytes (th_dport ctx) @ be32_bytes sq @ be32_bytes ack @ [push_bit 4 off, flags] @ be16_bytes win @ le16_bytes c @ [0, 0]"

text \<open>What a segment without data says in each state; no segment is sent in the other states.\<close>

definition ctrl_fields :: "exa_tcp_state \<Rightarrow> (u32 \<times> u32 \<times> u8) option" where
  "ctrl_fields t =
     (let sq = send_seq t; recv = recv_seq t
      in case tcp_state t of
           EXA_TCP_SYN_SENT \<Rightarrow> Some (sq - 1, 0, TH_SYN)
         | EXA_TCP_SYN_RCVD \<Rightarrow> Some (sq - 1, recv, TH_SYN OR TH_ACK)
         | EXA_TCP_ESTABLISHED \<Rightarrow> Some (sq, recv, TH_ACK)
         | EXA_TCP_CLOSE_WAIT \<Rightarrow> Some (sq, recv + 1, TH_ACK)
         | EXA_TCP_FIN_WAIT_1 \<Rightarrow> Some (sq, recv, TH_FIN OR TH_ACK)
         | EXA_TCP_FIN_WAIT_2 \<Rightarrow> Some (sq, recv, TH_ACK)
         | EXA_TCP_CLOSING \<Rightarrow> Some (sq + 1, recv + 1, TH_ACK)
         | EXA_TCP_LAST_ACK \<Rightarrow> Some (sq, recv + 1, TH_FIN OR TH_ACK)
         | EXA_TCP_TIME_WAIT \<Rightarrow> Some (sq + 1, recv + 1, TH_ACK)
         | _ \<Rightarrow> None)"

definition syn_opts_bytes :: bytes where
  "syn_opts_bytes = [TCPOPT_MAXSEG, 4, ucast (drop_bit 8 EXA_TCP_MSS), ucast (EXA_TCP_MSS AND 0xFF), TCPOPT_NOP, TCPOPT_WINDOW, 3, of_nat EXA_TCP_WSCALE]"

definition exa_tcp_build_ctrl :: "exa_tcp_conn \<Rightarrow> exa_socket \<Rightarrow> (bytes \<times> exa_socket) option" where
  "exa_tcp_build_ctrl ctx sock =
     (let t = tcp sock;
          opts = (if tcp_state t = EXA_TCP_SYN_SENT \<or> tcp_state t = EXA_TCP_SYN_RCVD then syn_opts_bytes else [])
      in case ctrl_fields t of
           None \<Rightarrow> None
         | Some (sq, ack, flags) \<Rightarrow>
             let (win, sock1) = exa_tcp_get_window sock (recv_seq t);
                 len = 20 + length opts;
                 h = tcp_hdr ctx sq ack (of_nat (len div 4)) flags win;
                 c = NOT (csum (h 0 @ opts) (ph_csum ctx + htons_of_nat len))
             in Some (h c @ opts, sock1))"

definition rst_fields :: "exa_tcp_state \<Rightarrow> (u32 \<times> u32) option" where
  "rst_fields t =
     (let sq = send_seq t; recv = recv_seq t
      in case tcp_state t of
           EXA_TCP_SYN_RCVD \<Rightarrow> Some (sq, recv)
         | EXA_TCP_ESTABLISHED \<Rightarrow> Some (sq, recv)
         | EXA_TCP_CLOSE_WAIT \<Rightarrow> Some (sq, recv + 1)
         | EXA_TCP_FIN_WAIT_1 \<Rightarrow> Some (sq + 1, recv)
         | EXA_TCP_FIN_WAIT_2 \<Rightarrow> Some (sq + 1, recv)
         | EXA_TCP_CLOSING \<Rightarrow> Some (sq + 1, recv + 1)
         | EXA_TCP_LAST_ACK \<Rightarrow> Some (sq + 1, recv + 1)
         | EXA_TCP_TIME_WAIT \<Rightarrow> Some (sq + 1, recv + 1)
         | _ \<Rightarrow> None)"

definition exa_tcp_build_rst :: "exa_tcp_conn \<Rightarrow> exa_tcp_state \<Rightarrow> bytes option" where
  "exa_tcp_build_rst ctx t =
     (case rst_fields t of
        None \<Rightarrow> None
      | Some (sq, ack) \<Rightarrow>
          let h = tcp_hdr ctx sq ack 5 (TH_RST OR TH_ACK) 0
          in Some (h (NOT (csum (h 0) (ph_csum ctx + htons_of_nat 20)))))"

text \<open>A segment with data; \<open>None\<close> is a failed assertion.\<close>

definition exa_tcp_build_hdr ::
    "exa_tcp_conn \<Rightarrow> exa_socket \<Rightarrow> u32 \<Rightarrow> bytes list \<Rightarrow> nat \<Rightarrow> nat \<Rightarrow> (bytes \<times> exa_socket) option" where
  "exa_tcp_build_hdr ctx sock sq iov skip_len data_len =
     (let t = tcp sock
      in if tcp_state t \<notin> {EXA_TCP_ESTABLISHED, EXA_TCP_CLOSE_WAIT, EXA_TCP_FIN_WAIT_1, EXA_TCP_CLOSING, EXA_TCP_LAST_ACK} then None
         else
           let ack = recv_seq t + (if tcp_state t = EXA_TCP_CLOSE_WAIT then 1 else 0);
               (win, sock1) = exa_tcp_get_window sock (recv_seq t);
               h = tcp_hdr ctx sq ack 5 (TH_PUSH OR TH_ACK) win;
               csum_hdr = csum_part (h 0) (ph_csum ctx + htons_of_nat (20 + data_len))
           in case csum_iov iov skip_len data_len csum_hdr of
                None \<Rightarrow> None
              | Some c \<Rightarrow> Some (h (NOT c), sock1))"

end
