(* ===== verification/UdpHdr.thy ===== *)
theory UdpHdr
  imports NetHdr
begin

text \<open>
  UDP headers, \<open>libs/exasock/udp.h\<close>: the cached header and its partial checksum, the header of a
  datagram sent, and the check of a datagram received.
\<close>

record exa_udp_tx =
  uh_sport :: u16
  uh_dport :: u16
  partial_csum :: u64

definition udp_hdr :: "exa_udp_tx \<Rightarrow> u16 \<Rightarrow> u16 \<Rightarrow> bytes" where
  "udp_hdr ctx len c = le16_bytes (uh_sport ctx) @ le16_bytes (uh_dport ctx) @ be16_bytes len @ le16_bytes c"

definition exa_udp_tx_init :: exa_udp_tx where
  "exa_udp_tx_init =
     (let ctx = \<lparr>uh_sport = 0, uh_dport = 0, partial_csum = 0\<rparr>
      in ctx\<lparr>partial_csum := ucast (csum (udp_hdr ctx 0 0) 0x1100)\<rparr>)"

definition exa_udp_set_src :: "exa_udp_tx \<Rightarrow> u16 \<Rightarrow> u64 \<Rightarrow> exa_udp_tx" where
  "exa_udp_set_src ctx port addr_csum =
     (let ctx1 = ctx\<lparr>uh_sport := port\<rparr>
      in ctx1\<lparr>partial_csum := ucast (csum (udp_hdr ctx1 0 0) (addr_csum + 0x1100))\<rparr>)"

definition exa_udp_set_dest :: "exa_udp_tx \<Rightarrow> u16 \<Rightarrow> u64 \<Rightarrow> exa_udp_tx" where
  "exa_udp_set_dest ctx port addr_csum =
     (let ctx1 = ctx\<lparr>uh_dport := port\<rparr>
      in ctx1\<lparr>partial_csum := ucast (csum (udp_hdr ctx1 0 0) (addr_csum + 0x1100))\<rparr>)"

text \<open>\<open>None\<close> is the failed assertion of \<open>csum_iov\<close>.\<close>

definition exa_udp_build_hdr :: "exa_udp_tx \<Rightarrow> bytes list \<Rightarrow> nat \<Rightarrow> nat \<Rightarrow> bytes option" where
  "exa_udp_build_hdr ctx iov skip_len data_len =
     (let len = data_len + 8
      in case csum_iov iov skip_len data_len (partial_csum ctx + 2 * htons_of_nat len) of
           None \<Rightarrow> None
         | Some c \<Rightarrow> Some (udp_hdr ctx (of_nat len) (NOT c)))"

record udp_result =
  uh_peer :: u16
  uh_local :: u16
  uh_data :: nat
  uh_data_len :: nat
  uh_csum :: u64

definition exa_udp_parse_hdr :: "(nat \<Rightarrow> u8) \<Rightarrow> nat \<Rightarrow> nat \<Rightarrow> nat \<Rightarrow> u64 \<Rightarrow> udp_result option" where
  "exa_udp_parse_hdr m hdr read_end pkt_len addr_csum =
     (let ulen = unat (be16_at m (hdr + 4))
      in if sz_sub read_end hdr < 8 then None
         else if pkt_len < ulen then None
         else if ulen < 8 then None
         else Some \<lparr>uh_peer = le16_at m hdr, uh_local = le16_at m (hdr + 2), uh_data = hdr + 8, uh_data_len = ulen - 8,
                uh_csum = csum_part (map m [hdr..<hdr + 8]) (addr_csum + 0x1100 + ucast (le16_at m (hdr + 4)))\<rparr>)"

definition exa_udp_validate_csum :: "u16 \<Rightarrow> u64 \<Rightarrow> bool" where
  "exa_udp_validate_csum uh_sum cs \<longleftrightarrow> \<not> (uh_sum \<noteq> 0 \<and> csum_pack cs \<noteq> 0xFFFF)"

end
