(* ===== verification/TxPath.thy ===== *)
theory TxPath
  imports TcpHdr UdpHdr
begin

text \<open>
  Sending from a socket, \<open>libs/exasock/exanic.c\<close>: from the headers and the pieces of the message to the
  transmit window of the port. The port is the device of the interface, \<open>None\<close> when there is none; a
  bonded interface and the exclusive lock are left out. The result \<open>None\<close> of a function is a failed
  assertion, or the wait for the card that does not end within the fuel.
\<close>

subsection \<open>Frames\<close>

abbreviation (input) "MAX_HDR_LEN \<equiv> 128 :: nat"
abbreviation (input) "TX_TRIALS \<equiv> 65536 :: nat"

primrec try_begin ::
    "nat \<Rightarrow> (exanic_tx \<Rightarrow> ((exanic_err + 'a) \<times> exanic_tx) option) \<Rightarrow> exanic_tx \<Rightarrow> ('a option \<times> exanic_tx) option" where
  "try_begin 0 begin_tx tx = Some (None, tx)"
| "try_begin (Suc n) begin_tx tx =
     (case begin_tx tx of
        None \<Rightarrow> None
      | Some (Inl _, tx1) \<Rightarrow> try_begin n begin_tx tx1
      | Some (Inr p, tx1) \<Rightarrow> Some (Some p, tx1))"

definition exanic_dev_send ::
    "nat \<Rightarrow> (nat \<Rightarrow> u16) \<Rightarrow> exanic_tx \<Rightarrow> bytes \<Rightarrow> bytes list \<Rightarrow> nat \<Rightarrow> nat \<Rightarrow> bool \<Rightarrow> exanic_tx option" where
  "exanic_dev_send fuel fb tx hdr iov skip_len data_len warm =
     (let frame_len = sz_add (length hdr) data_len
      in if MAX_HDR_LEN < length hdr then None
         else if exanic_get_tx_mtu tx < frame_len then Some tx
         else case try_begin TX_TRIALS (\<lambda>t. exanic_begin_transmit_frame fuel fb t frame_len) tx of
                None \<Rightarrow> None
              | Some (None, tx1) \<Rightarrow> Some tx1
              | Some (Some p, tx1) \<Rightarrow>
                  let (bs, offs) = iov_gather skip_len (skip_len + data_len) iov 0;
                      tx2 = buf_write (buf_write tx1 p hdr) (p + length hdr) bs
                  in if offs \<noteq> skip_len + data_len then None
                     else if warm then Some (exanic_abort_transmit_frame tx2)
                     else exanic_end_transmit_frame tx2 0)"

definition exanic_send ::
    "nat \<Rightarrow> (nat \<Rightarrow> u16) \<Rightarrow> exanic_tx option \<Rightarrow> bytes \<Rightarrow> bytes list \<Rightarrow> nat \<Rightarrow> nat \<Rightarrow> bool \<Rightarrow> exanic_tx option option" where
  "exanic_send fuel fb dev hdr iov skip_len data_len warm =
     (case dev of
        None \<Rightarrow> Some None
      | Some tx \<Rightarrow> map_option Some (exanic_dev_send fuel fb tx hdr iov skip_len data_len warm))"

text \<open>A payload for the TCP engine of the port.\<close>

definition exanic_ate_send ::
    "nat \<Rightarrow> (nat \<Rightarrow> u16) \<Rightarrow> exanic_tx option \<Rightarrow> u16 \<Rightarrow> bytes list \<Rightarrow> nat \<Rightarrow> nat \<Rightarrow> bool \<Rightarrow> exanic_tx option option" where
  "exanic_ate_send fuel fb dev ate_id iov skip_len data_len warm =
     (case dev of
        None \<Rightarrow> Some None
      | Some tx \<Rightarrow>
          (case try_begin TX_TRIALS (\<lambda>t. exanic_begin_transmit_payload fuel fb t ate_id EXANIC_TX_TYPE_TCP_ACCEL data_len) tx of
             None \<Rightarrow> None
           | Some (None, tx1) \<Rightarrow> Some (Some tx1)
           | Some (Some (p, csum_at), tx1) \<Rightarrow>
               (case csum_iov iov skip_len data_len 0 of
                  None \<Rightarrow> None
                | Some c \<Rightarrow>
                    let (bs, offs) = iov_gather skip_len (skip_len + data_len) iov 0;
                        tx2 = buf_write (buf_write tx1 csum_at (le16 (htons c))) p bs
                    in if offs \<noteq> skip_len + data_len then None
                       else if warm then Some (Some (exanic_abort_transmit_frame tx2))
                       else map_option Some (exanic_end_transmit_payload tx2 EXANIC_TX_TYPE_TCP_ACCEL 0))))"

subsection \<open>Packets\<close>

text \<open>
  The lower layers of a socket and the port. \<open>Queued\<close> is what \<open>exa_sys_dst_queue\<close> (\<open>sys.c\<close>) asks the
  kernel to send once the neighbour is known: the destination, the interface, the buffer that holds the packet
  from its IP header on, and the length given for it. \<open>stack\<close> is what the buffer held before.
\<close>

abbreviation (input) "MAX_MSG_SIZE \<equiv> 4096 :: nat"

record net_tx =
  nt_eth :: exa_eth_tx
  nt_ip :: exa_ip_tx
  nt_dst :: exa_dst
  nt_dev :: "exanic_tx option"
  nt_if_addr :: u32
  nt_used :: "nat set"

datatype hand_over = Sent | Discarded | Queued u32 u32 bytes nat

definition exa_sys_dst_queue :: "bytes \<Rightarrow> u32 \<Rightarrow> u32 \<Rightarrow> bytes \<Rightarrow> bytes list \<Rightarrow> nat \<Rightarrow> nat \<Rightarrow> bool \<Rightarrow> hand_over option" where
  "exa_sys_dst_queue stack dst src hdr iov skip_len data_len warm =
     (if MAX_MSG_SIZE < length hdr + data_len then Some Discarded
      else
        let (bs, offs) = iov_gather skip_len (skip_len + data_len) iov 0
        in if offs \<noteq> skip_len + data_len then None
           else Some (Queued dst src (blit (blit stack 0 hdr) (length hdr) bs) (if warm then 0 else length hdr + offs)))"

definition dst_refresh :: "exa_dst_entry list \<Rightarrow> net_tx \<Rightarrow> net_tx" where
  "dst_refresh tbl nt =
     (let (upd, d, used) = exa_dst_update tbl (nt_dst nt)
      in nt\<lparr>nt_dst := d, nt_used := nt_used nt \<union> set_option used,
           nt_eth := (if upd then exa_eth_set_dest (nt_eth nt) (dst_eth_addr d) else nt_eth nt)\<rparr>)"

definition exanic_ip_send_iov ::
    "nat \<Rightarrow> (nat \<Rightarrow> u16) \<Rightarrow> bytes \<Rightarrow> exa_dst_entry list \<Rightarrow> net_tx \<Rightarrow> bytes \<Rightarrow> bytes list \<Rightarrow> nat \<Rightarrow> nat \<Rightarrow> bool \<Rightarrow>
      (hand_over \<times> net_tx) option" where
  "exanic_ip_send_iov fuel fb stack tbl nt hdr iov skip_len data_len warm =
     (let hdr1 = exa_ip_build_hdr (nt_ip nt) hdr data_len; nt1 = dst_refresh tbl nt
      in if exa_dst_found (nt_dst nt1)
         then map_option (\<lambda>dev. (Sent, nt1\<lparr>nt_dev := dev\<rparr>))
                (exanic_send fuel fb (nt_dev nt1) (exa_eth_build_hdr (nt_eth nt1) hdr1) iov skip_len data_len warm)
         else map_option (\<lambda>h. (h, nt1))
                (exa_sys_dst_queue stack (dst_addr (nt_dst nt1)) (nt_if_addr nt1) hdr1 iov skip_len data_len warm))"

subsection \<open>UDP\<close>

definition exanic_udp_set_src :: "exa_udp_tx \<times> net_tx \<Rightarrow> (bytes \<times> u16 \<times> u32 \<times> exanic_tx option) option \<Rightarrow> u16 \<Rightarrow> exa_udp_tx \<times> net_tx" where
  "exanic_udp_set_src ctx ip_ctx port =
     (let (udp, nt) = ctx;
          nt1 = (case ip_ctx of
                   None \<Rightarrow> nt\<lparr>nt_dev := None\<rparr>
                 | Some (mac, vlan, a, dev) \<Rightarrow> nt\<lparr>nt_dev := dev, nt_if_addr := a, nt_eth := exa_eth_set_src (nt_eth nt) mac vlan,
                     nt_ip := exa_ip_set_src (nt_ip nt) a\<rparr>)
      in (exa_udp_set_src udp port (exa_ip_addr_csum (nt_ip nt1)), nt1))"

definition exanic_udp_set_dest :: "exa_udp_tx \<times> net_tx \<Rightarrow> u32 \<Rightarrow> u16 \<Rightarrow> u8 \<Rightarrow> exa_udp_tx \<times> net_tx" where
  "exanic_udp_set_dest ctx a port ttl =
     (let (udp, nt) = ctx;
          ip = exa_ip_set_ttl (exa_ip_set_dest (nt_ip nt) a) ttl;
          d = exa_dst_set_addr (nt_dst nt) a (ip_src ip)
      in (exa_udp_set_dest udp port (exa_ip_addr_csum ip),
          nt\<lparr>nt_ip := ip, nt_dst := d, nt_eth := (if exa_dst_found d then exa_eth_set_dest (nt_eth nt) (dst_eth_addr d) else nt_eth nt)\<rparr>))"

definition exanic_udp_send_iov ::
    "nat \<Rightarrow> (nat \<Rightarrow> u16) \<Rightarrow> bytes \<Rightarrow> exa_dst_entry list \<Rightarrow> exa_udp_tx \<times> net_tx \<Rightarrow> bytes list \<Rightarrow> bool \<Rightarrow>
      (nat \<times> hand_over \<times> exa_udp_tx \<times> net_tx) option" where
  "exanic_udp_send_iov fuel fb stack tbl ctx iov warm =
     (let (udp, nt) = ctx; data_len = sum_list (map length iov)
      in case exa_udp_build_hdr udp iov 0 data_len of
           None \<Rightarrow> None
         | Some hdr \<Rightarrow>
             map_option (\<lambda>(h, nt1). (data_len, h, udp, nt1)) (exanic_ip_send_iov fuel fb stack tbl nt hdr iov 0 data_len warm))"

subsection \<open>TCP\<close>

record exanic_tcp =
  tc_conn :: exa_tcp_conn
  tc_net :: net_tx

definition exanic_tcp_send_ctrl ::
    "nat \<Rightarrow> (nat \<Rightarrow> u16) \<Rightarrow> bytes \<Rightarrow> exa_dst_entry list \<Rightarrow> exanic_tcp \<times> exa_socket \<Rightarrow> (exanic_tcp \<times> exa_socket) option" where
  "exanic_tcp_send_ctrl fuel fb stack tbl s =
     (let (ctx, sock) = s; sock1 = sock\<lparr>tcp := exa_tcp_clear_ack_pending (tcp sock)\<rparr>
      in case exa_tcp_build_ctrl (tc_conn ctx) sock1 of
           None \<Rightarrow> Some (ctx, sock1)
         | Some (hdr, sock2) \<Rightarrow>
             map_option (\<lambda>(_, nt). (ctx\<lparr>tc_net := nt\<rparr>, sock2)) (exanic_ip_send_iov fuel fb stack tbl (tc_net ctx) hdr [] 0 0 False))"

definition exanic_tcp_shutdown_write ::
    "nat \<Rightarrow> (nat \<Rightarrow> u16) \<Rightarrow> bytes \<Rightarrow> exa_dst_entry list \<Rightarrow> exanic_tcp \<times> exa_socket \<Rightarrow> (exanic_tcp \<times> exa_socket) option" where
  "exanic_tcp_shutdown_write fuel fb stack tbl s =
     exanic_tcp_send_ctrl fuel fb stack tbl (fst s, (snd s)\<lparr>tcp := exa_tcp_shutdown_write (tcp (snd s))\<rparr>)"

definition exanic_tcp_reset ::
    "nat \<Rightarrow> (nat \<Rightarrow> u16) \<Rightarrow> bytes \<Rightarrow> exa_dst_entry list \<Rightarrow> exanic_tcp \<times> exa_socket \<Rightarrow> (exanic_tcp \<times> exa_socket) option" where
  "exanic_tcp_reset fuel fb stack tbl s =
     (let (ctx, sock) = s; sock1 = sock\<lparr>tcp := exa_tcp_reset (tcp sock)\<rparr>
      in case exa_tcp_build_rst (tc_conn ctx) (tcp sock) of
           None \<Rightarrow> Some (ctx, sock1)
         | Some hdr \<Rightarrow>
             map_option (\<lambda>(_, nt). (ctx\<lparr>tc_net := nt\<rparr>, sock1)) (exanic_ip_send_iov fuel fb stack tbl (tc_net ctx) hdr [] 0 0 False))"

definition exanic_tcp_writeable :: "bool \<Rightarrow> exa_socket \<Rightarrow> bool" where
  "exanic_tcp_writeable is_ate sock =
     (if exa_tcp_connecting (tcp sock) then False
      else case exa_tcp_max_seg_len sock is_ate of None \<Rightarrow> True | Some (_, len) \<Rightarrow> 0 < len)"

definition exanic_adjust_tcp_seg_len :: "exanic_tx \<Rightarrow> nat \<Rightarrow> nat \<Rightarrow> exa_eth_tx \<Rightarrow> bool \<Rightarrow> nat" where
  "exanic_adjust_tcp_seg_len tx data_len max_window_size eth is_ate =
     (let mtu = exanic_get_tx_mtu tx;
          len = (if data_len < max_window_size then data_len else max_window_size);
          hdr_len = (if is_ate then sizeof_tx_payload_metadata
                     else 20 + 20 + (if h_proto eth = htons ETH_P_8021Q then 18 else 14))
      in if mtu < len + hdr_len then sz_sub mtu hdr_len else len)"

text \<open>The result of the call is \<open>None\<close> for \<open>-1\<close>. The size of the transmit window is read from the device of
  the interface, which has one while a connection uses it.\<close>

definition exanic_tcp_send_iov ::
    "nat \<Rightarrow> (nat \<Rightarrow> u16) \<Rightarrow> bytes \<Rightarrow> exa_dst_entry list \<Rightarrow> u16 option \<Rightarrow> exanic_tcp \<times> exa_socket \<Rightarrow> bytes list \<Rightarrow> nat \<Rightarrow> nat \<Rightarrow> bool \<Rightarrow>
      (nat option \<times> exanic_tcp \<times> exa_socket) option" where
  "exanic_tcp_send_iov fuel fb stack tbl ate s iov skip_len data_len warm =
     (let (ctx, sock) = s; is_ate = (ate \<noteq> None)
      in case exa_tcp_max_seg_len sock is_ate of
           None \<Rightarrow> Some (None, ctx, sock)
         | Some (sq, max_len) \<Rightarrow>
             if max_len = 0 \<and> data_len \<noteq> 0 then Some (Some 0, ctx, sock)
             else case nt_dev (tc_net ctx) of
               None \<Rightarrow> None
             | Some tx \<Rightarrow>
                 let send_len = exanic_adjust_tcp_seg_len tx data_len max_len (nt_eth (tc_net ctx)) is_ate;
                     sock1 = (if warm then sock else sock\<lparr>tcp := (exa_tcp_clear_ack_pending (tcp sock))\<lparr>tx_consistent := False\<rparr>\<rparr>)
                 in case ate of
                      Some ate_id \<Rightarrow>
                        map_option (\<lambda>dev. (Some send_len, ctx\<lparr>tc_net := (tc_net ctx)\<lparr>nt_dev := dev\<rparr>\<rparr>, sock1))
                          (exanic_ate_send fuel fb (nt_dev (tc_net ctx)) ate_id iov skip_len send_len warm)
                    | None \<Rightarrow>
                        (case exa_tcp_build_hdr (tc_conn ctx) sock1 sq iov skip_len send_len of
                           None \<Rightarrow> None
                         | Some (hdr, sock2) \<Rightarrow>
                             (case exanic_ip_send_iov fuel fb stack tbl (tc_net ctx) hdr iov skip_len send_len warm of
                                None \<Rightarrow> None
                              | Some (_, nt) \<Rightarrow>
                                  (if warm then Some (Some send_len, ctx\<lparr>tc_net := nt\<rparr>, sock2)
                                   else map_option (\<lambda>sock3. (Some send_len, ctx\<lparr>tc_net := nt\<rparr>, sock3))
                                          (exa_tcp_tx_buffer_write sock2 iov skip_len send_len)))))"

text \<open>The inner loop of \<open>sendmsg_bypass_tcp\<close> (\<open>socket/send.c\<close>); it ends when the call sends nothing.\<close>

fun tcp_send_loop ::
    "nat \<Rightarrow> nat \<Rightarrow> (nat \<Rightarrow> u16) \<Rightarrow> bytes \<Rightarrow> exa_dst_entry list \<Rightarrow> u16 option \<Rightarrow> exanic_tcp \<times> exa_socket \<Rightarrow> bytes list \<Rightarrow> nat \<Rightarrow> nat \<Rightarrow> bool \<Rightarrow>
      (nat option \<times> nat \<times> exanic_tcp \<times> exa_socket) option" where
  "tcp_send_loop 0 fuel fb stack tbl ate s iov count nwritten warm = None"
| "tcp_send_loop (Suc n) fuel fb stack tbl ate s iov count nwritten warm =
     (if count \<le> nwritten then Some (Some 0, nwritten, s)
      else case exanic_tcp_send_iov fuel fb stack tbl ate s iov nwritten (count - nwritten) warm of
             None \<Rightarrow> None
           | Some (r, s1) \<Rightarrow>
               (if r = None \<or> r = Some 0 then Some (r, nwritten, s1)
                else tcp_send_loop n fuel fb stack tbl ate s1 iov count (nwritten + the r) warm))"

text \<open>\<open>exanic_tcp_build_hdr\<close>: the headers of the next segment for an application that sends it itself. The result has
  whether the connection is closed, and \<open>None\<close> where the call fails.\<close>

datatype hdr_request = Hdr_bytes bytes | Hdr_lookup u32 | Hdr_closed bool

definition exanic_tcp_build_hdr ::
    "exa_dst_entry list \<Rightarrow> exanic_tcp \<times> exa_socket \<Rightarrow> (hdr_request \<times> exanic_tcp \<times> exa_socket) option" where
  "exanic_tcp_build_hdr tbl s =
     (let (ctx, sock) = s
      in case exa_tcp_max_seg_len sock False of
           None \<Rightarrow> Some (Hdr_closed (\<not> exa_tcp_connecting (tcp sock)), ctx, sock)
         | Some (sq, _) \<Rightarrow>
             let nt = dst_refresh tbl (tc_net ctx); ctx1 = ctx\<lparr>tc_net := nt\<rparr>
             in if \<not> exa_dst_found (nt_dst nt) then Some (Hdr_lookup (dst_addr (nt_dst nt)), ctx1, sock)
                else map_option (\<lambda>(h, sock1). (Hdr_bytes (exa_eth_build_hdr (nt_eth nt) (exa_ip_build_hdr (nt_ip nt) h 0)), ctx1, sock1))
                       (exa_tcp_build_hdr (tc_conn ctx) sock sq [] 0 0))"

end
