(* ===== verification/PollRx.thy ===== *)
theory PollRx
  imports UdpHdr
begin

text \<open>The headers of a frame, as \<open>exanic_poll_single_rx\<close> (\<open>libs/exasock/exanic.c\<close>) reads them from the
  first chunk; \<open>None\<close> is a frame that is not for the sockets library.\<close>

datatype rx_headers = Udp_headers ip_result udp_result | Tcp_headers ip_result tcp_result

definition poll_headers :: "exa_eth \<Rightarrow> exa_ip \<Rightarrow> (nat \<Rightarrow> u8) \<Rightarrow> nat \<Rightarrow> nat \<Rightarrow> rx_headers option" where
  "poll_headers eth ip m hdr chunk_end =
     (case exa_eth_parse_hdr eth m hdr chunk_end of
        None \<Rightarrow> None
      | Some (eth_proto, ip_at) \<Rightarrow>
          if eth_proto \<noteq> htons ETH_P_IP then None
          else case exa_ip_parse_hdr ip m ip_at chunk_end of
            None \<Rightarrow> None
          | Some r \<Rightarrow>
              let a = ipaddr_csum (ip_peer r) (ip_local r)
              in if ip_proto r = IPPROTO_UDP then map_option (Udp_headers r) (exa_udp_parse_hdr m (ip_next r) chunk_end (ip_next_len r) a)
                 else if ip_proto r = IPPROTO_TCP then map_option (Tcp_headers r) (exa_tcp_parse_hdr m (ip_next r) chunk_end (ip_next_len r) a)
                 else None)"

end
