(* ===== verification/HdrProps.thy ===== *)
theory HdrProps
  imports TxPath PollRx TcpProps
begin

text \<open>
  What one socket puts on the wire another socket accepts: the headers of \<open>TxPath\<close> go through the
  parsers of the receive path and give back the addresses, the ports and the fields, and the
  checksums verify.
\<close>

subsection \<open>Bytes in packet memory\<close>

definition bytes_at :: "(nat \<Rightarrow> u8) \<Rightarrow> nat \<Rightarrow> bytes \<Rightarrow> bool" where
  "bytes_at m b bs \<longleftrightarrow> map m [b..<b + length bs] = bs"

lemma bytes_at_append: "bytes_at m b (xs @ ys) \<longleftrightarrow> bytes_at m b xs \<and> bytes_at m (b + length xs) ys"
proof -
  have "[b..<b + length (xs @ ys)] = [b..<b + length xs] @ [b + length xs..<b + length xs + length ys]"
    using upt_add_eq_append [of b "b + length xs" "length ys"] by (simp add: add.assoc)
  then show ?thesis by (simp add: bytes_at_def append_eq_append_conv)
qed

lemma bytes_at_simps: "bytes_at m b []" "bytes_at m b (x # xs) \<longleftrightarrow> m b = x \<and> bytes_at m (Suc b) xs"
proof -
  show "bytes_at m b []" by (simp add: bytes_at_def)
  show "bytes_at m b (x # xs) \<longleftrightarrow> m b = x \<and> bytes_at m (Suc b) xs"
    using bytes_at_append [of m b "[x]" xs] by (simp add: bytes_at_def)
qed

lemma bytes_at_map: "bytes_at m b bs \<Longrightarrow> n = b + length bs \<Longrightarrow> map m [b..<n] = bs"
  by (simp add: bytes_at_def)

lemma le16_at_bytes: "bytes_at m b (le16_bytes x) \<Longrightarrow> le16_at m b = x"
proof -
  assume "bytes_at m b (le16_bytes x)"
  then have "m b = ucast x" "m (b + 1) = ucast (drop_bit 8 x)" by (simp_all add: le16_bytes_def bytes_at_simps)
  then show ?thesis by (intro bit_word_eqI) (auto simp: le16_at_def bit_simps)
qed

lemma be16_at_bytes: "bytes_at m b (be16_bytes x) \<Longrightarrow> be16_at m b = x"
proof -
  assume "bytes_at m b (be16_bytes x)"
  then have "m b = ucast (drop_bit 8 x)" "m (b + 1) = ucast x" by (simp_all add: be16_bytes_def bytes_at_simps)
  then show ?thesis by (intro bit_word_eqI) (auto simp: be16_at_def bit_simps)
qed

lemma bytes_word:
  "ucast (ucast x :: u8) OR push_bit 8 (ucast (ucast (drop_bit 8 x) :: u8)) OR push_bit 16 (ucast (ucast (drop_bit 16 x) :: u8))
    OR push_bit 24 (ucast (ucast (drop_bit 24 x) :: u8)) = (x :: u32)"
proof (rule bit_word_eqI)
  fix n assume n: "n < LENGTH(32)"
  then consider "n < 8" | "8 \<le> n" "n < 16" | "16 \<le> n" "n < 24" | "24 \<le> n" by linarith
  then show "bit (ucast (ucast x :: u8) OR push_bit 8 (ucast (ucast (drop_bit 8 x) :: u8)) OR push_bit 16 (ucast (ucast (drop_bit 16 x) :: u8))
      OR push_bit 24 (ucast (ucast (drop_bit 24 x) :: u8)) :: u32) n = bit x n"
    using n by cases (auto simp: bit_simps)
qed

lemma be32_at_bytes: "bytes_at m b (be32_bytes x) \<Longrightarrow> be32_at m b = x"
proof -
  assume "bytes_at m b (be32_bytes x)"
  then have "m b = ucast (drop_bit 24 x)" "m (b + 1) = ucast (drop_bit 16 x)" "m (b + 2) = ucast (drop_bit 8 x)" "m (b + 3) = ucast x"
    by (simp_all add: be32_bytes_def bytes_at_simps eval_nat_numeral)
  then show ?thesis using bytes_word [of x] by (simp add: be32_at_def or.commute or.left_commute)
qed

lemma le32_at_bytes: "bytes_at m b (le32_bytes x) \<Longrightarrow> le32_at m b = x"
proof -
  assume "bytes_at m b (le32_bytes x)"
  then have "m b = ucast x" "m (b + 1) = ucast (drop_bit 8 x)" "m (b + 2) = ucast (drop_bit 16 x)" "m (b + 3) = ucast (drop_bit 24 x)"
    by (simp_all add: le32_bytes_def bytes_at_simps eval_nat_numeral)
  then show ?thesis using bytes_word [of x] by (simp add: le32_at_def or.assoc)
qed

lemma length_bytes [simp]:
  "length (le16_bytes x) = 2" "length (be16_bytes x) = 2" "length (be32_bytes y) = 4" "length (le32_bytes y) = 4"
  by (simp_all add: le16_bytes_def be16_bytes_def be32_bytes_def le32_bytes_def)

subsection \<open>Checksums\<close>

lemma word_sum_le16: "word_sum (le16_bytes c @ bs) = unat c + word_sum bs"
  using le_halves [of c] by (simp add: le16_bytes_def)

lemma complement_verifies:
  assumes "ones_complement_of n c" "ones_complement_of (n' + unat (NOT c)) x" "n' mod 65535 = n mod 65535" "n' \<noteq> 0"
  shows "x = 0xFFFF"
proof (rule ones_complement_all_ones [OF assms(2)])
  have c: "unat c \<le> 65535" using u16_lt [of c] by simp
  then have s: "n' + unat (NOT c) + unat c = n' + 65535" by (simp add: unat_not16)
  have "(n' + unat (NOT c) + unat c) mod 65535 = (0 + unat c) mod 65535"
    unfolding s using assms(1,3) by (simp add: ones_complement_of_def)
  then have "65535 dvd n' + unat (NOT c) + unat c - unat c"
    by (subst mod_eq_dvd_iff_nat [symmetric]) simp_all
  then show "(n' + unat (NOT c)) mod 65535 = 0" by simp
  show "n' + unat (NOT c) \<noteq> 0" using assms(4) by simp
qed

subsection \<open>The IP header\<close>

lemma length_ip_hdr [simp]: "length (ip_hdr ip len c) = 20"
  by (simp add: ip_hdr_def)

lemma word_sum_ip_hdr: "word_sum (ip_hdr ip len c) = word_sum (ip_hdr ip len 0) + unat c"
  using le_halves [of c] by (simp add: ip_hdr_def le16_bytes_def be16_bytes_def le32_bytes_def)

lemma csum_ip_hdr: "csum (ip_hdr ip len (NOT (csum (ip_hdr ip len 0) 0))) 0 = 0xFFFF"
proof (rule complement_verifies)
  show "ones_complement_of (word_sum (ip_hdr ip len 0)) (csum (ip_hdr ip len 0) 0)" by (rule csum_sum) simp
  show "ones_complement_of (word_sum (ip_hdr ip len 0) + unat (NOT (csum (ip_hdr ip len 0) 0)))
      (csum (ip_hdr ip len (NOT (csum (ip_hdr ip len 0) 0))) 0)"
    using csum_sum [of "ip_hdr ip len (NOT (csum (ip_hdr ip len 0) 0))"] word_sum_ip_hdr [of ip len "NOT (csum (ip_hdr ip len 0) 0)"] by simp
  show "word_sum (ip_hdr ip len 0) \<noteq> 0" by (simp add: ip_hdr_def be16_bytes_def)
qed simp

lemma length_ip_build [simp]: "length (exa_ip_build_hdr ip l4 n) = 20 + length l4"
  by (simp add: exa_ip_build_hdr_def Let_def)

lemma ip_header_received:
  assumes at: "bytes_at m b (exa_ip_build_hdr ip l4 n)" and to: "address ctx = ip_dst ip"
    and len: "length l4 + n + 20 < 65536" and re: "b + 20 \<le> re" "re < 2 ^ 64"
  shows "exa_ip_parse_hdr ctx m b re =
    Some \<lparr>ip_peer = ip_src ip, ip_local = ip_dst ip, ip_next = b + 20, ip_next_len = length l4 + n, ip_proto = ip_p ip\<rparr>"
proof -
  define w :: u16 where "w = of_nat (length l4 + n + 20)"
  define c where "c = NOT (csum (ip_hdr ip w 0) 0)"
  have h: "bytes_at m b (ip_hdr ip w c)"
    using at by (simp add: exa_ip_build_hdr_def Let_def bytes_at_append w_def c_def)
  have w: "unat w = length l4 + n + 20" unfolding w_def unat_of_nat using len by simp
  from h have hd: "bytes_at m b [0x45, 0]" "bytes_at m (b + 2) (be16_bytes w)" "bytes_at m (b + 6) (be16_bytes 0x4000)"
      "bytes_at m (b + 8) [ip_ttl ip, ip_p ip]" "bytes_at m (b + 12) (le32_bytes (ip_src ip))" "bytes_at m (b + 16) (le32_bytes (ip_dst ip))"
    unfolding ip_hdr_def bytes_at_append by (simp_all add: eval_nat_numeral)
  have b0: "m b = 0x45" "m (b + 9) = ip_p ip" using hd(1,4) by (simp_all add: bytes_at_simps eval_nat_numeral)
  have "map m [b..<b + 20] = ip_hdr ip w c" using h by (simp add: bytes_at_def)
  then have cs: "csum (map m [b..<b + 20]) 0 = 0xFFFF" unfolding c_def by (simp add: csum_ip_hdr)
  have len: "sz_sub (unat w) 20 = length l4 + n" using len by (simp add: w sz_sub_small)
  have f: "be16_at m (Suc (Suc b)) = w" using be16_at_bytes [OF hd(2)] by simp
  have "20 \<le> re - b" "sz_sub re b = re - b" using re by (simp_all add: sz_sub_small)
  then show ?thesis
    using b0 cs len to by (simp add: exa_ip_parse_hdr_def Let_def f be16_at_bytes [OF hd(3)]
        le32_at_bytes [OF hd(5)] le32_at_bytes [OF hd(6)])
qed

subsection \<open>The Ethernet header\<close>

definition eth_accepts :: "exa_eth \<Rightarrow> exa_eth_tx \<Rightarrow> u16 \<Rightarrow> bool" where
  "eth_accepts rx tx proto \<longleftrightarrow> length (h_dest tx) = 6 \<and> length (h_source tx) = 6 \<and>
     (h_dest tx = eth_dev_addr rx \<or> is_multicast_eth_addr (h_dest tx ! 0)) \<and>
     (if h_proto tx = htons ETH_P_8021Q
      then h_vlan_tci tx AND htons VLAN_HDR_VID_MASK = eth_vlan_id rx \<and> h_vlan_proto tx = proto
      else eth_vlan_id rx = 0 \<and> h_proto tx = proto)"

definition eth_len :: "exa_eth_tx \<Rightarrow> nat" where
  "eth_len tx = (if h_proto tx = htons ETH_P_8021Q then 18 else 14)"

lemma length_eth_build: "eth_accepts rx tx proto \<Longrightarrow> length (exa_eth_build_hdr tx hdr) = eth_len tx + length hdr"
  by (simp add: eth_accepts_def exa_eth_build_hdr_def eth_len_def)

lemma eth_header_received:
  assumes at: "bytes_at m b (exa_eth_build_hdr tx hdr)" and acc: "eth_accepts rx tx proto"
    and re: "b + eth_len tx \<le> re" "re < 2 ^ 64"
  shows "exa_eth_parse_hdr rx m b re = Some (proto, b + eth_len tx) \<and> bytes_at m (b + eth_len tx) hdr"
proof -
  have l: "length (h_dest tx) = 6" "length (h_source tx) = 6" using acc by (simp_all add: eth_accepts_def)
  have hd: "bytes_at m b (h_dest tx)" "bytes_at m (b + 12) (le16_bytes (h_proto tx))"
    using at l by (auto simp: exa_eth_build_hdr_def bytes_at_append add.assoc split: if_splits)
  have dest: "map m [b..<b + 6] = h_dest tx" using hd(1) l by (simp add: bytes_at_def)
  moreover have "map m [b..<b + 6] ! 0 = m b" by simp
  ultimately have m0: "m b = h_dest tx ! 0" by simp
  have "14 \<le> eth_len tx" by (simp add: eth_len_def)
  then have sz: "\<not> sz_sub re b < 14" using re by (simp add: sz_sub_small)
  have to: "\<not> (h_dest tx \<noteq> eth_dev_addr rx \<and> \<not> is_multicast_eth_addr (m b))" using acc m0 by (auto simp: eth_accepts_def)
  show ?thesis
  proof (cases "h_proto tx = htons ETH_P_8021Q")
    case True
    then have v: "bytes_at m (b + 14) (le16_bytes (h_vlan_tci tx))" "bytes_at m (b + 16) (le16_bytes (h_vlan_proto tx))" "bytes_at m (b + 18) hdr"
      using at l by (auto simp: exa_eth_build_hdr_def bytes_at_append add.assoc add.commute)
    have "\<not> sz_sub re (b + 14) < 4" using True re by (simp add: eth_len_def sz_sub_small)
    then show ?thesis
      using True acc to sz v(3) dest
      by (simp add: exa_eth_parse_hdr_def exa_eth_parse_vlan_hdr_def le16_at_bytes [OF hd(2)] le16_at_bytes [OF v(1)] le16_at_bytes [OF v(2), unfolded add.commute [of b]]
          eth_accepts_def eth_len_def add.assoc)
  next
    case False
    then have "bytes_at m (b + 14) hdr"
      using at l by (auto simp: exa_eth_build_hdr_def bytes_at_append add.assoc add.commute)
    then show ?thesis
      using False acc to sz dest by (simp add: exa_eth_parse_hdr_def le16_at_bytes [OF hd(2)] eth_accepts_def eth_len_def)
  qed
qed

subsection \<open>Transport headers\<close>

lemma pack_verifies:
  assumes "unat t = x + k" "unat s = y + k + unat (NOT (csum_pack t))" "x mod 65535 = y mod 65535" "y \<noteq> 0"
  shows "csum_pack s = 0xFFFF"
proof (rule complement_verifies)
  show "ones_complement_of (x + k) (csum_pack t)" using csum_pack_ones_complement [of t] by (simp add: assms(1))
  show "ones_complement_of ((y + k) + unat (NOT (csum_pack t))) (csum_pack s)"
    using csum_pack_ones_complement [of s] by (simp add: assms(2))
  show "(y + k) mod 65535 = (x + k) mod 65535" using assms(3) by (metis mod_add_left_eq)
  show "y + k \<noteq> 0" using assms(4) by simp
qed

lemma packed_mod: "unat (csum_pack s) mod 65535 = unat s mod 65535"
  using csum_pack_ones_complement [of s] by (simp add: ones_complement_of_def)

lemma be16_htons: "be16_bytes x = le16_bytes (htons x)"
proof -
  have "ucast (drop_bit 8 x) = (ucast (htons x) :: u8)" "ucast x = (ucast (drop_bit 8 (htons x)) :: u8)"
    by (rule bit_word_eqI; auto simp: htons_def bit_simps)+
  then show ?thesis by (simp add: be16_bytes_def le16_bytes_def)
qed

lemma htons_of_nat_word: "htons_of_nat n = ucast (htons (of_nat n))"
  by (simp add: htons_of_nat_def htons_def Let_def)

lemma unat_htons_of_nat: "unat (htons_of_nat n) = unat (htons (of_nat n))"
  using u16_lt [of "htons (of_nat n)"] by (simp add: htons_of_nat_word unat_ucast_mod)

lemma payload_bound: "length D < 65536 \<Longrightarrow> word_sum D < 2 ^ 32"
proof -
  assume "length D < 65536"
  then have "(length D + 1) div 2 \<le> 32768" by linarith
  then show ?thesis using word_sum_bound [of D] by simp
qed

lemma word_sum_udp_hdr: "word_sum (udp_hdr udp len c) = word_sum (udp_hdr udp 0 0) + unat (htons len) + unat c"
  using le_halves [of c] le_halves [of "htons len"]
  unfolding udp_hdr_def be16_htons by (simp add: le16_bytes_def htons_def)

lemma length_udp_hdr [simp]: "length (udp_hdr udp len c) = 8"
  by (simp add: udp_hdr_def)

definition udp_cached :: "exa_udp_tx \<Rightarrow> u64 \<Rightarrow> bool" where
  "udp_cached udp A \<longleftrightarrow> partial_csum udp = ucast (csum (udp_hdr udp 0 0) (A + 0x1100))"

lemma unat_add64: "unat a + unat b < 2 ^ 64 \<Longrightarrow> unat (a + b :: u64) = unat a + unat b"
  by (simp add: unat_plus_small)

lemma udp_header_received:
  assumes build: "exa_udp_build_hdr udp iov skip n = Some h" and cached: "udp_cached udp A" and A: "unat A < 2 ^ 34"
    and iov: "skip + n \<le> length (concat iov)" and n: "n + 8 < 65536"
    and at: "bytes_at m b h" and re: "b + 8 \<le> re" "re < 2 ^ 64"
  defines "D \<equiv> take n (drop skip (concat iov))"
  shows "length h = 8 \<and> (\<exists>u. exa_udp_parse_hdr m b re (n + 8) A = Some u \<and> uh_peer u = uh_sport udp \<and> uh_local u = uh_dport udp \<and>
    uh_data u = b + 8 \<and> uh_data_len u = n \<and> exa_udp_validate_csum (le16_at m (b + 6)) (csum_part D (uh_csum u)))"
proof -
  define l :: u16 where "l = of_nat (n + 8)"
  define H where "H = word_sum (udp_hdr udp 0 0)"
  define c0 where "c0 = csum (udp_hdr udp 0 0) (A + 0x1100)"
  have l: "unat l = n + 8" unfolding l_def unat_of_nat using n by simp
  have L: "unat (htons_of_nat (n + 8)) = unat (htons l)" "unat (htons l) < 65536"
    using u16_lt [of "htons l"] by (simp_all add: unat_htons_of_nat l_def)
  have D: "word_sum D < 2 ^ 32" using n by (intro payload_bound) (simp add: D_def)
  have H: "H < 2 ^ 32" unfolding H_def by (intro payload_bound) simp
  have A1: "unat (A + 0x1100) = unat A + 0x1100" using A by (subst unat_add64) simp_all
  have c0: "unat c0 mod 65535 = (unat A + 0x1100 + H) mod 65535" "unat c0 < 65536"
    using csum_part_sum [of "A + 0x1100" "udp_hdr udp 0 0"] A H A1 u16_lt [of c0]
    by (simp_all add: c0_def csum_def packed_mod H_def)
  have P: "unat (partial_csum udp) = unat c0"
    using cached c0(2) by (simp add: udp_cached_def c0_def unat_ucast_mod)
  have L2: "unat (2 * htons_of_nat (n + 8)) = 2 * unat (htons l)"
    using L by (simp add: unat_word_ariths(2))
  have X: "unat (partial_csum udp + 2 * htons_of_nat (n + 8)) = unat c0 + 2 * unat (htons l)"
    using P L2 L(2) c0(2) by (subst unat_add64) simp_all
  obtain t where t: "csum_iov iov skip n (partial_csum udp + 2 * htons_of_nat (n + 8)) = Some (csum_pack t)"
      "unat t = unat (partial_csum udp + 2 * htons_of_nat (n + 8)) + word_sum D"
    using csum_iov_flat [OF iov, of "partial_csum udp + 2 * htons_of_nat (n + 8)"] X L(2) c0(2) D by (auto simp: D_def)
  define c where "c = NOT (csum_pack t)"
  have h: "h = udp_hdr udp l c" using build t(1) by (simp add: exa_udp_build_hdr_def Let_def l_def c_def)
  from at have hd: "bytes_at m b (le16_bytes (uh_sport udp))" "bytes_at m (b + 2) (le16_bytes (uh_dport udp))"
      "bytes_at m (b + 4) (be16_bytes l)" "bytes_at m (b + 4) (le16_bytes (htons l))" "bytes_at m (b + 6) (le16_bytes c)"
    unfolding h udp_hdr_def bytes_at_append by (simp_all add: eval_nat_numeral be16_htons)
  have map: "map m [b..<b + 8] = udp_hdr udp l c" using at by (simp add: h bytes_at_def)
  define s0 where "s0 = A + 0x1100 + ucast (htons l)"
  have s0: "unat s0 = unat A + 0x1100 + unat (htons l)"
    unfolding s0_def using A1 A L(2) by (subst unat_add64) (simp_all add: unat_ucast_mod)
  have wh: "word_sum (udp_hdr udp l c) = H + unat (htons l) + unat c" unfolding word_sum_udp_hdr [of udp l c] H_def ..
  have s1: "unat (csum_part (udp_hdr udp l c) s0) = unat s0 + word_sum (udp_hdr udp l c)"
    using s0 A L(2) H u16_lt [of c] by (intro csum_part_sum) (simp add: wh)
  have s2: "unat (csum_part D (csum_part (udp_hdr udp l c) s0)) = unat (csum_part (udp_hdr udp l c) s0) + word_sum D"
    using s0 s1 A L(2) H D u16_lt [of c] by (intro csum_part_sum) (simp add: wh)
  have "csum_pack (csum_part D (csum_part (udp_hdr udp l c) s0)) = 0xFFFF"
  proof (rule pack_verifies)
    show "unat t = unat c0 + (2 * unat (htons l) + word_sum D)" using t(2) X by simp
    show "unat (csum_part D (csum_part (udp_hdr udp l c) s0)) = (unat A + 0x1100 + H) + (2 * unat (htons l) + word_sum D) + unat (NOT (csum_pack t))"
      using s0 s1 s2 unfolding wh c_def [symmetric] by simp
  qed (use c0(1) in simp_all)
  moreover have "\<not> sz_sub re b < 8" using re by (simp add: sz_sub_small)
  ultimately show ?thesis
    by (simp add: h exa_udp_parse_hdr_def Let_def be16_at_bytes [OF hd(3)] le16_at_bytes [OF hd(1)] le16_at_bytes [OF hd(2), simplified]
        le16_at_bytes [OF hd(4)] le16_at_bytes [OF hd(5)] l map exa_udp_validate_csum_def flip: s0_def)
qed

lemma length_tcp_hdr [simp]: "length (tcp_hdr ctx sq ack off flags win c) = 20"
  by (simp add: tcp_hdr_def)

lemma word_sum_tcp_hdr:
  "word_sum (tcp_hdr ctx sq ack off flags win c @ opts) = word_sum (tcp_hdr ctx sq ack off flags win 0 @ opts) + unat c"
proof -
  have "word_sum (tcp_hdr ctx sq ack off flags win c) = word_sum (tcp_hdr ctx sq ack off flags win 0) + unat c"
    using le_halves [of c] by (simp add: tcp_hdr_def le16_bytes_def be16_bytes_def be32_bytes_def)
  then show ?thesis by (simp add: word_sum_append)
qed

lemma data_offset: "k \<le> 15 \<Longrightarrow> unat (drop_bit 4 (push_bit 4 (of_nat k :: u8))) = k"
proof -
  assume k: "k \<le> 15"
  have "unat (of_nat k :: u8) = k" unfolding unat_of_nat using k by simp
  then have "unat (push_bit 4 (of_nat k :: u8)) = 16 * k"
    using k by (simp add: push_bit_eq_mult unat_word_ariths(2))
  then show ?thesis by (simp add: drop_bit_eq_div unat_div)
qed

lemma tcp_header_received:
  fixes sq ack :: u32 and flags :: u8 and win :: u16
  assumes ctx: "ctx = cached_hdr sport dport A" and A: "unat A < 2 ^ 34"
    and opts: "4 dvd length opts" "length opts \<le> 40" and len: "20 + length opts + length D < 65536"
  defines "h \<equiv> \<lambda>c. tcp_hdr ctx sq ack (of_nat ((20 + length opts) div 4)) flags win c @ opts"
  assumes t: "unat t = unat (ph_csum ctx + htons_of_nat (20 + length opts + length D)) + word_sum (h 0) + word_sum D"
    and at: "bytes_at m b (h (NOT (csum_pack t)))" and re: "b + 20 \<le> re" "re < 2 ^ 64"
  shows "\<exists>r. exa_tcp_parse_hdr m b re (20 + length opts + length D) A = Some r \<and> th_peer r = sport \<and> th_local r = dport \<and>
    th_data_seq r = sq + (if flags AND TH_SYN \<noteq> 0 then 1 else 0) \<and> th_ack_seq r = ack \<and> th_flags r = flags \<and> th_window r = win \<and>
    th_opt r = b + 20 \<and> th_opt_len r = length opts \<and> th_data r = b + 20 + length opts \<and> th_data_len r = length D \<and>
    exa_tcp_validate_csum (le16_at m (b + 16)) (csum_part D (th_csum r))"
proof -
  define N where "N = 20 + length opts + length D"
  define c where "c = NOT (csum_pack t)"
  define c0 where "c0 = csum [] (A + 0x600)"
  define k where "k = (20 + length opts) div 4"
  obtain q where q: "length opts = 4 * q" "q \<le> 10" using opts by (elim dvdE) simp
  have k: "k \<le> 15" "k * 4 = 20 + length opts" using q by (simp_all add: k_def)
  have L: "unat (htons_of_nat N) < 65536" by (simp add: unat_htons_of_nat u16_lt [simplified])
  have D: "word_sum D < 2 ^ 32" "word_sum (h 0) < 2 ^ 32" using len by (intro payload_bound; simp add: h_def)+
  have A1: "unat (A + 0x600) = unat A + 0x600" using A by (subst unat_add64) simp_all
  have c0: "unat c0 mod 65535 = (unat A + 0x600) mod 65535" "unat c0 < 65536"
    using A1 u16_lt [of c0] by (simp_all add: c0_def csum_def packed_mod)
  have P: "unat (ph_csum ctx) = unat c0" using c0(2) by (simp add: ctx cached_hdr_def c0_def unat_ucast_mod)
  have X: "unat (ph_csum ctx + htons_of_nat N) = unat c0 + unat (htons_of_nat N)"
    using P L c0(2) by (subst unat_add64) simp_all
  have wh: "word_sum (h c) = word_sum (h 0) + unat c" unfolding h_def word_sum_tcp_hdr [of _ _ _ _ _ _ c] ..
  define K :: u8 where "K = of_nat k"
  have "bytes_at m b (tcp_hdr ctx sq ack K flags win c)" using at by (simp add: h_def bytes_at_append K_def c_def k_def)
  then have hd: "bytes_at m b (le16_bytes (th_sport ctx))" "bytes_at m (b + 2) (le16_bytes (th_dport ctx))"
      "bytes_at m (b + 4) (be32_bytes sq)" "bytes_at m (b + 8) (be32_bytes ack)" "bytes_at m (b + 12) [push_bit 4 K, flags]"
      "bytes_at m (b + 14) (be16_bytes win)" "bytes_at m (b + 16) (le16_bytes c)"
    unfolding tcp_hdr_def bytes_at_append by (simp_all add: eval_nat_numeral)
  have m12: "m (b + 12) = push_bit 4 K" "m (b + 13) = flags" using hd(5) by (simp_all add: bytes_at_simps eval_nat_numeral)
  have hl: "unat (drop_bit 4 (m (b + 12))) * 4 = 20 + length opts" unfolding m12(1) K_def data_offset [OF k(1)] by (rule k(2))
  have map: "map m [b..<b + (20 + length opts)] = h c" using at by (simp add: h_def bytes_at_def c_def)
  define s0 where "s0 = A + htons_of_nat 6 + htons_of_nat N"
  have six: "htons_of_nat 6 = 0x600" by (simp add: htons_of_nat_def Let_def)
  have s0: "unat s0 = unat A + 0x600 + unat (htons_of_nat N)"
    unfolding s0_def six using A1 A L by (subst unat_add64) simp_all
  have s1: "unat (csum_part (h c) s0) = unat s0 + word_sum (h c)"
    using s0 A L D u16_lt [of c] by (intro csum_part_sum) (simp add: wh)
  have s2: "unat (csum_part D (csum_part (h c) s0)) = unat (csum_part (h c) s0) + word_sum D"
    using s0 s1 A L D u16_lt [of c] by (intro csum_part_sum) (simp add: wh)
  have "csum_pack (csum_part D (csum_part (h c) s0)) = 0xFFFF"
  proof (rule pack_verifies)
    show "unat t = unat c0 + (unat (htons_of_nat N) + word_sum (h 0) + word_sum D)" using t X by (simp add: N_def)
    show "unat (csum_part D (csum_part (h c) s0)) =
        (unat A + 0x600) + (unat (htons_of_nat N) + word_sum (h 0) + word_sum D) + unat (NOT (csum_pack t))"
      using s0 s1 s2 unfolding wh c_def [symmetric] by simp
  qed (use c0(1) in simp_all)
  moreover have "\<not> sz_sub re b < 20" using re by (simp add: sz_sub_small)
  moreover have "20 + length opts \<le> N" "N - (20 + length opts) = length D" by (simp_all add: N_def)
  moreover have "le16_at m b = sport" "le16_at m (b + 2) = dport" "be32_at m (b + 4) = sq" "be32_at m (b + 8) = ack"
      "be16_at m (b + 14) = win" "le16_at m (b + 16) = c"
    using le16_at_bytes [OF hd(1)] le16_at_bytes [OF hd(2)] be32_at_bytes [OF hd(3)] be32_at_bytes [OF hd(4)]
      be16_at_bytes [OF hd(6)] le16_at_bytes [OF hd(7)] by (simp_all add: ctx cached_hdr_def)
  ultimately show ?thesis
    unfolding N_def [symmetric] exa_tcp_parse_hdr_def Let_def hl m12(2) s0_def [symmetric]
    by (simp add: map exa_tcp_validate_csum_def add.assoc)
qed

subsection \<open>Frames\<close>

lemma ip_frame_received:
  assumes at: "bytes_at m b (exa_eth_build_hdr eth (exa_ip_build_hdr ip l4 n))"
    and acc: "eth_accepts rx eth (htons ETH_P_IP)" and to: "address ipc = ip_dst ip"
    and len: "length l4 + n + 20 < 65536" and re: "b + length (exa_eth_build_hdr eth (exa_ip_build_hdr ip l4 n)) \<le> re" "re < 2 ^ 64"
  defines "k \<equiv> b + eth_len eth + 20"
  shows "exa_eth_parse_hdr rx m b re = Some (htons ETH_P_IP, b + eth_len eth)"
    "exa_ip_parse_hdr ipc m (b + eth_len eth) re =
      Some \<lparr>ip_peer = ip_src ip, ip_local = ip_dst ip, ip_next = k, ip_next_len = length l4 + n, ip_proto = ip_p ip\<rparr>"
    "bytes_at m k l4" "k + length l4 \<le> re"
proof -
  note fl = length_eth_build [OF acc, of "exa_ip_build_hdr ip l4 n"]
  have "b + eth_len eth \<le> re" using re(1) fl by simp
  from eth_header_received [OF at acc this re(2)] have
    e: "exa_eth_parse_hdr rx m b re = Some (htons ETH_P_IP, b + eth_len eth)" "bytes_at m (b + eth_len eth) (exa_ip_build_hdr ip l4 n)"
    by simp_all
  show "exa_eth_parse_hdr rx m b re = Some (htons ETH_P_IP, b + eth_len eth)" by (rule e(1))
  have "b + eth_len eth + 20 \<le> re" using re(1) fl by simp
  from ip_header_received [OF e(2) to len this re(2)]
  show "exa_ip_parse_hdr ipc m (b + eth_len eth) re =
      Some \<lparr>ip_peer = ip_src ip, ip_local = ip_dst ip, ip_next = k, ip_next_len = length l4 + n, ip_proto = ip_p ip\<rparr>"
    by (simp add: k_def)
  show "bytes_at m k l4" using e(2) by (simp add: exa_ip_build_hdr_def Let_def bytes_at_append k_def)
  show "k + length l4 \<le> re" using re(1) fl by (simp add: k_def)
qed

lemma addr_csum_bound: "unat (exa_ip_addr_csum ip) < 2 ^ 34"
proof -
  have "unat (ip_src ip) < 2 ^ 32" "unat (ip_dst ip) < 2 ^ 32"
    using unsigned_less [of "ip_src ip"] unsigned_less [of "ip_dst ip"] by simp_all
  then show ?thesis unfolding exa_ip_addr_csum_def by (subst unat_add64) (simp_all add: unat_ucast_mod)
qed

lemma addr_csum_received: "ipaddr_csum (ip_src ip) (ip_dst ip) = exa_ip_addr_csum ip"
  by (simp add: ipaddr_csum_def exa_ip_addr_csum_def)

lemma tcp_build_hdr_bytes:
  assumes "exa_tcp_build_hdr ctx sock sq iov skip n = Some (h, sock')"
    and iov: "skip + n \<le> length (concat iov)" "n < 65536" and cached: "ctx = cached_hdr sport dport A"
  defines "D \<equiv> take n (drop skip (concat iov))"
    and "h0 \<equiv> tcp_hdr ctx sq (recv_seq (tcp sock) + (if tcp_state (tcp sock) = EXA_TCP_CLOSE_WAIT then 1 else 0)) 5 (TH_PUSH OR TH_ACK)
      (exa_tcp_calc_window sock (recv_seq (tcp sock)))"
  shows "\<exists>t. h = h0 (NOT (csum_pack t)) \<and> unat t = unat (ph_csum ctx + htons_of_nat (20 + n)) + word_sum (h0 0) + word_sum D"
proof -
  define s where "s = ph_csum ctx + htons_of_nat (20 + n)"
  have "length (h0 0) = 20" by (simp add: h0_def)
  then have b: "word_sum (h0 0) < 2 ^ 32" "word_sum D < 2 ^ 32" using iov by (intro payload_bound; simp add: D_def)+
  have "unat (ph_csum ctx) < 65536" "unat (htons_of_nat (20 + n)) < 65536"
    using u16_lt [of "csum [] (A + 0x600)"] u16_lt [of "htons (of_nat (20 + n))"]
    by (simp_all add: cached cached_hdr_def unat_ucast_mod unat_htons_of_nat)
  then have s: "unat s < 2 ^ 32" unfolding s_def by (subst unat_add64) simp_all
  have s1: "unat (csum_part (h0 0) s) = unat s + word_sum (h0 0)" using s b by (intro csum_part_sum) simp
  obtain t where t: "csum_iov iov skip n (csum_part (h0 0) s) = Some (csum_pack t)" "unat t = unat s + word_sum (h0 0) + word_sum D"
    using csum_iov_flat [OF iov(1), of "csum_part (h0 0) s"] s s1 b by (auto simp: D_def)
  have "h = h0 (NOT (csum_pack t))"
    using assms(1) t(1) by (auto simp: exa_tcp_build_hdr_def Let_def exa_tcp_get_window_def h0_def s_def split: if_splits)
  then show ?thesis using t(2) by (auto simp: s_def)
qed

text \<open>C22. A data segment built by the sender, with its IP and Ethernet headers, is accepted by the receiver it is addressed to:
  the parsers give back the addresses, ports, numbers, flags and window, the payload starts after the headers and has
  the length sent, and with the payload the checksum verifies.\<close>

theorem tcp_segment_received:
  assumes build: "exa_tcp_build_hdr ctx sock sq iov skip n = Some (h, sock')" and ctx: "ctx = cached_hdr sport dport (exa_ip_addr_csum ip)"
    and ip: "ip_p ip = IPPROTO_TCP" "address ipc = ip_dst ip" and eth: "eth_accepts rx eth (htons ETH_P_IP)"
    and iov: "skip + n \<le> length (concat iov)" "40 + n < 65536"
    and frame: "F = exa_eth_build_hdr eth (exa_ip_build_hdr ip h n)" "bytes_at m b F" "b + length F \<le> re" "re < 2 ^ 64"
  shows "\<exists>r t. poll_headers rx ipc m b re = Some (Tcp_headers r t) \<and> ip_peer r = ip_src ip \<and> ip_local r = ip_dst ip \<and>
    th_peer t = sport \<and> th_local t = dport \<and> th_data_seq t = sq \<and>
    th_ack_seq t = recv_seq (tcp sock) + (if tcp_state (tcp sock) = EXA_TCP_CLOSE_WAIT then 1 else 0) \<and>
    th_flags t = TH_PUSH OR TH_ACK \<and> th_window t = exa_tcp_calc_window sock (recv_seq (tcp sock)) \<and>
    th_opt_len t = 0 \<and> th_data t = b + length F \<and> th_data_len t = n \<and>
    exa_tcp_validate_csum (le16_at m (ip_next r + 16)) (csum_part (take n (drop skip (concat iov))) (th_csum t))"
proof -
  define D where "D = take n (drop skip (concat iov))"
  define ack where "ack = recv_seq (tcp sock) + (if tcp_state (tcp sock) = EXA_TCP_CLOSE_WAIT then 1 else 0)"
  define h0 where "h0 = tcp_hdr ctx sq ack 5 (TH_PUSH OR TH_ACK) (exa_tcp_calc_window sock (recv_seq (tcp sock)))"
  define k where "k = b + eth_len eth + 20"
  have n: "n < 65536" and lD: "length D = n" using iov by (simp_all add: D_def)
  from tcp_build_hdr_bytes [OF build iov(1) n ctx] obtain t where
    h: "h = h0 (NOT (csum_pack t))" and t: "unat t = unat (ph_csum ctx + htons_of_nat (20 + n)) + word_sum (h0 0) + word_sum D"
    by (auto simp: h0_def ack_def D_def)
  have lh: "length h = 20" by (simp add: h h0_def)
  have l: "length h + n + 20 < 65536" using iov(2) lh by simp
  note f = ip_frame_received [OF frame(2) [unfolded frame(1)] eth ip(2) l frame(3) [unfolded frame(1)] frame(4), folded k_def]
  obtain r where r: "exa_tcp_parse_hdr m k re (20 + n) (exa_ip_addr_csum ip) = Some r" "th_peer r = sport" "th_local r = dport"
      "th_data_seq r = sq" "th_ack_seq r = ack" "th_flags r = TH_PUSH OR TH_ACK" "th_window r = exa_tcp_calc_window sock (recv_seq (tcp sock))"
      "th_opt_len r = 0" "th_data r = k + 20" "th_data_len r = n" "exa_tcp_validate_csum (le16_at m (k + 16)) (csum_part D (th_csum r))"
    using tcp_header_received [OF ctx addr_csum_bound, of "[]" D t sq ack "TH_PUSH OR TH_ACK" "exa_tcp_calc_window sock (recv_seq (tcp sock))" m k re]
      t f(3,4) frame(4) iov(2) lD lh by (auto simp: h h0_def)
  have "length F = eth_len eth + 40" unfolding frame(1) length_eth_build [OF eth] by (simp add: lh)
  moreover have "IPPROTO_TCP \<noteq> IPPROTO_UDP" by simp
  ultimately show ?thesis
    using r f(1,2) ip(1) lh by (simp add: poll_headers_def Let_def addr_csum_received ack_def k_def add.commute flip: D_def)
qed

text \<open>C23. The same for a datagram: what \<open>exanic_udp_set_dest\<close> leaves in the cached header, \<open>exa_udp_build_hdr\<close> and the lower
  layers complete to a frame that the addressed receiver takes as a datagram with these ports and this length, and whose
  checksum verifies.\<close>

theorem udp_datagram_received:
  assumes dest: "exanic_udp_set_dest ctx0 a port ttl = (udp, nt)"
    and build: "exa_udp_build_hdr udp iov 0 n = Some h" and n: "n = length (concat iov)" "28 + n < 65536"
    and ip: "ip_p (nt_ip nt) = IPPROTO_UDP" "address ipc = a" and eth: "eth_accepts rx (nt_eth nt) (htons ETH_P_IP)"
    and frame: "F = exa_eth_build_hdr (nt_eth nt) (exa_ip_build_hdr (nt_ip nt) h n)" "bytes_at m b F" "b + length F \<le> re" "re < 2 ^ 64"
  shows "\<exists>r u. poll_headers rx ipc m b re = Some (Udp_headers r u) \<and> ip_peer r = ip_src (nt_ip nt) \<and> ip_local r = a \<and>
    uh_peer u = uh_sport udp \<and> uh_local u = port \<and> uh_data u = b + length F \<and> uh_data_len u = n \<and>
    exa_udp_validate_csum (le16_at m (ip_next r + 6)) (csum_part (concat iov) (uh_csum u))"
proof -
  define k where "k = b + eth_len (nt_eth nt) + 20"
  have d: "uh_dport udp = port" "ip_dst (nt_ip nt) = a" "udp_cached udp (exa_ip_addr_csum (nt_ip nt))"
    using dest by (auto simp: exanic_udp_set_dest_def Let_def exa_udp_set_dest_def exa_ip_set_dest_def exa_ip_set_ttl_def udp_cached_def udp_hdr_def
        split: prod.splits)
  have lh: "length h = 8" using build by (auto simp: exa_udp_build_hdr_def Let_def split: option.splits)
  have l: "length h + n + 20 < 65536" using n(2) lh by simp
  have to: "address ipc = ip_dst (nt_ip nt)" using ip(2) d(2) by simp
  note f = ip_frame_received [OF frame(2) [unfolded frame(1)] eth to l frame(3) [unfolded frame(1)] frame(4), folded k_def]
  have "0 + n \<le> length (concat iov)" "n + 8 < 65536" "k + 8 \<le> re" using n f(4) lh by simp_all
  from udp_header_received [OF build d(3) addr_csum_bound this(1,2) f(3) this(3) frame(4)] obtain u where
    u: "exa_udp_parse_hdr m k re (n + 8) (exa_ip_addr_csum (nt_ip nt)) = Some u" "uh_peer u = uh_sport udp" "uh_local u = port"
      "uh_data u = k + 8" "uh_data_len u = n" "exa_udp_validate_csum (le16_at m (k + 6)) (csum_part (concat iov) (uh_csum u))"
    using n(1) d(1) by auto
  have "length F = eth_len (nt_eth nt) + 28" unfolding frame(1) length_eth_build [OF eth] by (simp add: lh)
  then show ?thesis
    using u f(1,2) ip(1) lh d(2) addr_csum_received [of "nt_ip nt"] by (simp add: poll_headers_def Let_def k_def add.commute)
qed

lemma bytes_at_nth: "bytes_at ((!) bs) 0 bs"
  by (simp add: bytes_at_def map_nth)

definition demo_eth_rx :: exa_eth where
  "demo_eth_rx = \<lparr>eth_dev_addr = [2, 0, 0, 0, 0, 1], eth_vlan_id = 0x0500\<rparr>"

definition demo_eth :: exa_eth_tx where
  "demo_eth = exa_eth_set_dest (exa_eth_set_src (exa_eth_tx_init \<lparr>h_dest = [], h_source = [], h_proto = 0, h_vlan_tci = 0, h_vlan_proto = 0\<rparr>
     ETH_P_IP) [2, 0, 0, 0, 0, 2] 0x0500) [2, 0, 0, 0, 0, 1]"

definition demo_peer :: exa_ip where
  "demo_peer = \<lparr>address = 0x0200000A, broadcast = 0xFF00000A\<rparr>"

definition demo_ip :: exa_ip_tx where
  "demo_ip = exa_ip_set_dest (exa_ip_set_src (exa_ip_tx_init IPPROTO_TCP) 0x0100000A) 0x0200000A"

lemma demo_eth_accepts: "eth_accepts demo_eth_rx demo_eth (htons ETH_P_IP)"
  by (simp add: eth_accepts_def demo_eth_rx_def demo_eth_def exa_eth_set_dest_def exa_eth_set_src_def exa_eth_tx_init_def htons_def)

lemma demo_build: "exa_tcp_build_hdr (cached_hdr 0x401F 0x5000 (exa_ip_addr_csum demo_ip)) demo_sock 7 [[1, 2, 3], [4, 5]] 1 3 \<noteq> None"
  by code_simp

lemma tcp_segment_received_witness:
  "\<exists>h r t. poll_headers demo_eth_rx demo_peer ((!) (exa_eth_build_hdr demo_eth (exa_ip_build_hdr demo_ip h 3) @ [2, 3, 4])) 0 61 =
    Some (Tcp_headers r t) \<and> th_data t = 58 \<and> th_data_len t = 3"
proof -
  obtain h sock' where h: "exa_tcp_build_hdr (cached_hdr 0x401F 0x5000 (exa_ip_addr_csum demo_ip)) demo_sock 7 [[1, 2, 3], [4, 5]] 1 3 = Some (h, sock')"
    using demo_build by auto
  define F where "F = exa_eth_build_hdr demo_eth (exa_ip_build_hdr demo_ip h 3)"
  have "length h = 20" using h by (auto simp: exa_tcp_build_hdr_def Let_def split: if_splits option.splits prod.splits)
  then have lF: "length F = 58" unfolding F_def length_eth_build [OF demo_eth_accepts]
    by (simp add: eth_len_def demo_eth_def exa_eth_set_dest_def exa_eth_set_src_def)
  have m: "bytes_at ((!) (F @ [2, 3, 4])) 0 F" using bytes_at_nth [of "F @ [2, 3, 4]"] unfolding bytes_at_append ..
  show ?thesis
    using tcp_segment_received [OF h refl _ _ demo_eth_accepts _ _ F_def m, of demo_peer 61] lF
    by (auto simp: demo_ip_def demo_peer_def exa_ip_set_dest_def exa_ip_set_src_def exa_ip_tx_init_def F_def)
qed

definition demo_udp0 :: "exa_udp_tx \<times> net_tx" where
  "demo_udp0 = (exa_udp_set_src exa_udp_tx_init 0x3412 0, \<lparr>nt_eth = demo_eth, nt_ip = exa_ip_set_src (exa_ip_tx_init IPPROTO_UDP) 0x0100000A,
     nt_dst = \<lparr>dst_addr = 0, dst_src_addr = 0, dst_idx = None, dst_gen_id = 0, dst_eth_addr = [], no_lookup = True\<rparr>, nt_dev = None, nt_if_addr = 0, nt_used = {}\<rparr>)"

definition demo_udp :: "exa_udp_tx \<times> net_tx" where
  "demo_udp = exanic_udp_set_dest demo_udp0 0x0200000A 0x5000 64"

lemma demo_udp_pair: "exanic_udp_set_dest demo_udp0 0x0200000A 0x5000 64 = (fst demo_udp, snd demo_udp)"
  by (simp add: demo_udp_def)

lemma demo_udp_build: "exa_udp_build_hdr (fst demo_udp) [[1, 2, 3], [4, 5]] 0 5 \<noteq> None"
  by code_simp

lemma demo_udp_ip: "ip_p (nt_ip (snd demo_udp)) = IPPROTO_UDP" "nt_eth (snd demo_udp) = demo_eth"
  by (simp_all add: demo_udp_def demo_udp0_def exanic_udp_set_dest_def Let_def exa_ip_set_dest_def exa_ip_set_ttl_def exa_ip_set_src_def exa_ip_tx_init_def
      exa_dst_set_addr_def IN_MULTICAST_def ntohl_def exa_dst_found_def)

lemma udp_datagram_received_witness:
  "\<exists>h r u. poll_headers demo_eth_rx demo_peer ((!) (exa_eth_build_hdr demo_eth (exa_ip_build_hdr (nt_ip (snd demo_udp)) h 5) @ [1, 2, 3, 4, 5])) 0 51 =
    Some (Udp_headers r u) \<and> uh_local u = 0x5000 \<and> uh_data_len u = 5"
proof -
  obtain h where h: "exa_udp_build_hdr (fst demo_udp) [[1, 2, 3], [4, 5]] 0 5 = Some h" using demo_udp_build by auto
  define F where "F = exa_eth_build_hdr (nt_eth (snd demo_udp)) (exa_ip_build_hdr (nt_ip (snd demo_udp)) h 5)"
  have "length h = 8" using h by (auto simp: exa_udp_build_hdr_def Let_def split: option.splits)
  then have lF: "length F = 46" unfolding F_def demo_udp_ip length_eth_build [OF demo_eth_accepts]
    by (simp add: eth_len_def demo_eth_def exa_eth_set_dest_def exa_eth_set_src_def)
  have m: "bytes_at ((!) (F @ [1, 2, 3, 4, 5])) 0 F" using bytes_at_nth [of "F @ [1, 2, 3, 4, 5]"] unfolding bytes_at_append ..
  have a: "address demo_peer = 0x0200000A" by (simp add: demo_peer_def)
  have acc: "eth_accepts demo_eth_rx (nt_eth (snd demo_udp)) (htons ETH_P_IP)" unfolding demo_udp_ip by (rule demo_eth_accepts)
  show ?thesis
    using udp_datagram_received [OF demo_udp_pair h _ _ demo_udp_ip(1) a acc F_def m, of 51] lF
    by (auto simp: F_def demo_udp_ip)
qed

end
