(* ===== verification/TxSend.thy ===== *)
theory TxSend
  imports HdrProps TxLive
begin

text \<open>
  Sending meets the transmit path of the library: \<open>exanic_dev_send\<close>, which builds the frame in the
  window between the begin and end calls, sends what \<open>exanic_transmit_frame\<close> sends for the flat frame.
\<close>

lemma send_prepared:
  "exanic_send_tx_chunk (tx\<lparr>prepared_chunk := p, prepared_chunk_size := z\<rparr>) cs =
    (exanic_send_tx_chunk tx cs)\<lparr>prepared_chunk := p, prepared_chunk_size := z\<rparr>"
  by (simp add: send_expand fb_index_def)

lemma put_frame_prepared:
  "put_frame (tx\<lparr>prepared_chunk := p, prepared_chunk_size := z\<rparr>) off frame =
    (put_frame tx off frame)\<lparr>prepared_chunk := p, prepared_chunk_size := z\<rparr>"
  by (simp add: put_frame_def write_header_def buf_write_def)

lemma put_frame_split:
  assumes "off + 10 + length xs + length ys \<le> length (tx_buffer tx)"
  shows "buf_write (buf_write (buf_write (write_header tx off (length (xs @ ys) + 2) EXANIC_TX_TYPE_RAW) (off + 8) [0, 0]) (off + 10) xs)
      (off + 10 + length xs) ys = put_frame tx off (xs @ ys)"
proof -
  define t where "t = buf_write (write_header tx off (length (xs @ ys) + 2) EXANIC_TX_TYPE_RAW) (off + 8) [0, 0]"
  have "length (tx_buffer t) = length (tx_buffer tx)" using assms by (simp add: t_def write_header_def buf_write_def)
  then have "blit (blit (tx_buffer t) (off + 10) xs) (off + 10 + length xs) ys = blit (tx_buffer t) (off + 10) (xs @ ys)"
    using assms by (intro blit_after) simp
  then have "buf_write (buf_write t (off + 10) xs) (off + 10 + length xs) ys = buf_write t (off + 10) (xs @ ys)"
    by (simp add: buf_write_def)
  then show ?thesis by (simp only: put_frame_def t_def)
qed

lemma dev_send_prepared:
  assumes "prepared_chunk tx = None" "length hdr \<le> MAX_HDR_LEN" "length hdr + n \<le> exanic_get_tx_mtu tx" "length hdr + n < 2 ^ 61"
    and iov: "skip + n \<le> length (concat iov)"
    and prep: "exanic_prepare_tx_chunk fuel fb tx (length hdr + n + 10) = Some (Inr off, tx1)"
    and fit: "off + 10 + length hdr + n \<le> length (tx_buffer tx1)"
  defines "D \<equiv> take n (drop skip (concat iov))"
  shows "exanic_dev_send fuel fb tx hdr iov skip n False =
    Some ((exanic_send_tx_chunk (put_frame tx1 off (hdr @ D)) (length hdr + n + 10))\<lparr>prepared_chunk := None, prepared_chunk_size := length hdr + n + 10\<rparr>)"
proof -
  define z where "z = length hdr + n + 10"
  define F where "F = length hdr + n"
  have D: "length D = n" using iov by (simp add: D_def)
  have sz: "sz_add (length hdr) n = F" "sz_add 2 F = F + 2" "sz_add sizeof_tx_chunk (F + 2) = z"
    using assms(4) by (simp_all add: sz_add_small F_def z_def)
  have rep: "replicate 2 (0 :: u8) = [0, 0]" by (simp add: numeral_2_eq_2)
  define tx2 where "tx2 = tx1\<lparr>prepared_chunk := Some off, prepared_chunk_size := z\<rparr>"
  define tx3 where "tx3 = buf_write (write_header tx2 off (F + 2) EXANIC_TX_TYPE_RAW) (off + 8) [0, 0]"
  have "exanic_begin_transmit_frame fuel fb tx F = Some (Inr (off + 10), tx3)"
    unfolding exanic_begin_transmit_frame_def padding_raw Let_def sz using prep [folded z_def] assms(1) by (simp add: tx2_def tx3_def rep)
  then have b: "try_begin TX_TRIALS (\<lambda>t. exanic_begin_transmit_frame fuel fb t F) tx = Some (Some (off + 10), tx3)"
    using try_begin.simps(2) [of 65535 "\<lambda>t. exanic_begin_transmit_frame fuel fb t F" tx] by simp
  have g: "iov_gather skip (skip + n) iov 0 = (D, skip + n)" using iov by (simp add: iov_gather_rest iov_rest_start D_def)
  have "buf_write (buf_write tx3 (off + 10) hdr) (off + 10 + length hdr) D = put_frame tx2 off (hdr @ D)"
    using fit D put_frame_split [of off hdr D tx2] by (simp add: tx3_def F_def tx2_def)
  then show ?thesis
    using assms(2,3) b g
    by (simp add: exanic_dev_send_def Let_def sz(1) exanic_end_transmit_frame_def tx2_def put_frame_prepared send_prepared
        flip: F_def) (simp add: F_def z_def)
qed

lemma dev_send_live:
  assumes inv: "tx_inv tx g" and live: "tx_live tx g" and prep: "prepared_chunk tx = None"
    and len: "length hdr \<le> MAX_HDR_LEN" "length hdr + n \<le> exanic_get_tx_mtu tx" and iov: "skip + n \<le> length (concat iov)"
    and hh: "mono hh" "\<forall>k. hh k \<le> gq g" "\<forall>k\<ge>T. hh k = gq g" "gf g \<le> hh (fb_reads tx)"
    and fuel: "T - fb_reads tx + 2 \<le> fuel"
  shows "\<exists>tx0 g'. exanic_transmit_frame fuel (\<lambda>k. of_nat (hh k)) tx (hdr @ take n (drop skip (concat iov))) = Some (Inr (), tx0) \<and>
    exanic_dev_send fuel (\<lambda>k. of_nat (hh k)) tx hdr iov skip n False =
      Some (tx0\<lparr>prepared_chunk := None, prepared_chunk_size := length hdr + n + 10\<rparr>) \<and>
    tx_inv tx0 g' \<and> tx_live tx0 g' \<and> gn g' = Suc (gn g)"
proof -
  let ?D = "take n (drop skip (concat iov))" and ?fb = "\<lambda>k. of_nat (hh k)"
  have lD: "length ?D = n" using iov by simp
  then have lF: "length (hdr @ ?D) = length hdr + n" by simp
  have B: "4096 dvd bsize tx" "0 < bsize tx" "bsize tx < 2 ^ 22"
    using live inv by (simp_all add: tx_live_def tx_inv_def tx_shape_def)
  have cs: "length hdr + n + 10 \<le> exanic_max_tx_chunk_size tx" using len(2) mtu_val [OF B] by linarith
  moreover have "exanic_max_tx_chunk_size tx = bsize tx div 2 - 512" by (rule max_chunk(1) [OF B(1,2)])
  ultimately have l: "length hdr + n < 2 ^ 61" using B(3) by simp
  have ans: "answers hh T g" "T - fb_reads tx + 1 < fuel" using hh fuel by (simp_all add: answers_def)
  from prepare_live [OF inv live ans(1) hh(4) ans(2) cs] obtain tx1 g1 where
    p: "exanic_prepare_tx_chunk fuel ?fb tx (length hdr + n + 10) = Some (Inr (noff tx1), tx1)"
    and g1: "tx_inv tx1 g1" "tx_fits tx1 g1 (CACHE_ALIGN (length hdr + n + 10))" "gn g1 < gf g1 + qlen tx1" by metis
  have "noff tx1 + 10 + length (hdr @ ?D) \<le> bsize tx1"
    using send_frame_inv(2) [OF g1(1) _ g1(3), of "hdr @ ?D"] g1(2) lF l by simp
  moreover have "length (tx_buffer tx1) = bsize tx1" using g1(1) by (simp add: tx_inv_def tx_shape_def)
  ultimately have fit: "noff tx1 + 10 + length hdr + n \<le> length (tx_buffer tx1)" using lF by simp
  have "length (hdr @ ?D) \<le> exanic_get_tx_mtu tx" using len(2) lF by simp
  from transmit_live [OF inv live prep this hh fuel] obtain tx0 g' where
    t: "exanic_transmit_frame fuel ?fb tx (hdr @ ?D) = Some (Inr (), tx0)" "tx_inv tx0 g'" "tx_live tx0 g'" "gn g' = Suc (gn g)" by blast
  have "length (hdr @ ?D) < 2 ^ 61" using l lF by simp
  from t(1) [unfolded transmit_frame_steps [OF prep this] lF] have
    "tx0 = exanic_send_tx_chunk (put_frame tx1 (noff tx1) (hdr @ ?D)) (length hdr + n + 10)" using p by simp
  then have "exanic_dev_send fuel ?fb tx hdr iov skip n False =
      Some (tx0\<lparr>prepared_chunk := None, prepared_chunk_size := length hdr + n + 10\<rparr>)"
    using dev_send_prepared [OF prep len l iov p fit] by simp
  with t show ?thesis by blast
qed

lemma tx_inv_prepared: "tx_inv (tx\<lparr>prepared_chunk := p, prepared_chunk_size := z\<rparr>) g = tx_inv tx g"
    "tx_live (tx\<lparr>prepared_chunk := p, prepared_chunk_size := z\<rparr>) g = tx_live tx g"
  by (rule tx_inv_cong; simp) (simp add: tx_live_def)

text \<open>C24. For a live port, sending a header and pieces of a message is sending the frame they make up: the state afterwards is
  the one \<open>exanic_transmit_frame\<close> leaves for the flat frame, but for the record of the chunk in preparation, and the
  port stays live.\<close>

theorem dev_send_transmits:
  assumes inv: "tx_inv tx g" and live: "tx_live tx g" and prep: "prepared_chunk tx = None"
    and len: "length hdr \<le> MAX_HDR_LEN" "length hdr + n \<le> exanic_get_tx_mtu tx" and iov: "skip + n \<le> length (concat iov)"
    and hh: "mono hh" "\<forall>k. hh k \<le> gq g" "\<forall>k\<ge>T. hh k = gq g" "gf g \<le> hh (fb_reads tx)"
    and fuel: "T - fb_reads tx + 2 \<le> fuel"
  shows "\<exists>tx0 tx1 g'. exanic_transmit_frame fuel (\<lambda>k. of_nat (hh k)) tx (hdr @ take n (drop skip (concat iov))) = Some (Inr (), tx0) \<and>
    exanic_send fuel (\<lambda>k. of_nat (hh k)) (Some tx) hdr iov skip n False = Some (Some tx1) \<and>
    tx1 = tx0\<lparr>prepared_chunk := None, prepared_chunk_size := length hdr + n + 10\<rparr> \<and> tx_inv tx1 g' \<and> tx_live tx1 g' \<and> gn g' = Suc (gn g)"
  using dev_send_live [OF assms] by (auto simp: exanic_send_def tx_inv_prepared)

lemma dev_send_transmits_witness:
  "\<exists>tx1 g'. exanic_send 2 (\<lambda>k. of_nat 0) (Some demo_tx) [1, 2] [[3, 4], [5]] 1 2 False = Some (Some tx1) \<and> tx_live tx1 g' \<and> gn g' = 2"
proof -
  have mtu: "exanic_get_tx_mtu demo_tx = 1526"
    by (simp add: exanic_get_tx_mtu_def exanic_max_tx_chunk_size_def demo_tx_def sz_sub_small)
  have "Suc (gn demo_ghost) = 2" by (simp add: demo_ghost_def)
  then show ?thesis
    using dev_send_transmits [OF demo_tx_inv demo_tx_live, of "[1, 2]" 2 1 "[[3, 4], [5]]" "\<lambda>_. 0" 0 2]
    by (simp only: mtu) (auto simp: demo_tx_def demo_ghost_def mono_def)
qed

text \<open>C38. A later segment of a message whose neighbour is not known is handed to the kernel with a length that counts the
  part of the message sent before: behind the packet the kernel is told to take as many bytes of the caller's stack as
  that part has, or bytes from beyond the buffer.\<close>

theorem queued_segment_leaks_stack:
  assumes "\<not> exa_dst_found (nt_dst (dst_refresh tbl nt))" and iov: "skip + n \<le> length (concat iov)"
    and len: "20 + length hdr + n \<le> MAX_MSG_SIZE" "length stack = MAX_MSG_SIZE"
    and P: "P = exa_ip_build_hdr (nt_ip nt) hdr n @ take n (drop skip (concat iov))"
  shows "exanic_ip_send_iov fuel fb stack tbl nt hdr iov skip n False =
    Some (Queued (dst_addr (nt_dst (dst_refresh tbl nt))) (nt_if_addr nt) (P @ drop (length P) stack) (length P + skip), dst_refresh tbl nt)"
proof -
  let ?D = "take n (drop skip (concat iov))" and ?h = "exa_ip_build_hdr (nt_ip nt) hdr n"
  have D: "length ?D = n" using iov by simp
  have "blit (blit stack 0 ?h) (0 + length ?h) ?D = blit stack 0 P" unfolding P using len D by (intro blit_after) simp
  then have b: "blit (blit stack 0 ?h) (length ?h) ?D = P @ drop (length P) stack" by (simp add: blit_def)
  have g: "iov_gather skip (skip + n) iov 0 = (?D, skip + n)" using iov by (simp add: iov_gather_rest iov_rest_start)
  have "length P = 20 + length hdr + n" using D by (simp add: P)
  moreover have "nt_if_addr (dst_refresh tbl nt) = nt_if_addr nt" by (simp add: dst_refresh_def Let_def split: prod.splits)
  ultimately show ?thesis using assms(1) len(1) b g
    by (simp add: exanic_ip_send_iov_def Let_def exa_sys_dst_queue_def)
qed

definition leak_net :: net_tx where
  "leak_net = (snd demo_udp0)\<lparr>nt_dst := \<lparr>dst_addr = 0x0200000A, dst_src_addr = 0x0100000A, dst_idx = None, dst_gen_id = 0,
     dst_eth_addr = [], no_lookup = False\<rparr>\<rparr>"

lemma leak_unknown: "\<not> exa_dst_found (nt_dst (dst_refresh [] leak_net))"
  by (simp add: leak_net_def demo_udp0_def dst_refresh_def exa_dst_update_def exa_dst_lookup_def exa_dst_found_def Let_def)

lemma queued_segment_leaks_stack_witness:
  "\<exists>P nt'. length P = 23 \<and> exanic_ip_send_iov 0 (\<lambda>_. 0) (replicate 4096 0x5E) [] leak_net [] [[1, 2, 3, 4], [5]] 2 3 False =
    Some (Queued 0x0200000A 0 (P @ drop 23 (replicate 4096 0x5E)) 25, nt')"
proof -
  have "dst_addr (nt_dst (dst_refresh [] leak_net)) = 0x0200000A" "nt_if_addr leak_net = 0"
    by (simp_all add: leak_net_def demo_udp0_def dst_refresh_def exa_dst_update_def exa_dst_lookup_def exa_dst_found_def Let_def)
  then show ?thesis
    using queued_segment_leaks_stack [OF leak_unknown, of 2 3 "[[1, 2, 3, 4], [5]]" "[]" "replicate 4096 0x5E" _ 0 "\<lambda>_. 0"] by simp
qed

end
