(* ===== verification/TcpTx.thy ===== *)
theory TcpTx
  imports TcpRing TcpRx CsumIov
begin

text \<open>
  The transmit buffer of a TCP socket: a ring of the bytes sent and not yet acknowledged, written by
  \<open>exa_tcp_tx_buffer_write\<close> (\<open>libs/exasock/tcp_buffer.h\<close>) and read by the kernel module when it sends a
  segment again, \<open>exasock_tcp_tx_buffer_get\<close> (\<open>modules/exasock/exasock-tcp.c\<close>). It refines a queue of bytes:
  a send appends, an acknowledgement drops from the front, a retransmission reads a slice.
\<close>

text \<open>\<open>None\<close> is the return of -1, after the copy.\<close>

definition exasock_tcp_tx_buffer_get :: "exa_socket \<Rightarrow> u32 \<Rightarrow> nat \<Rightarrow> bytes option" where
  "exasock_tcp_tx_buffer_get sock sq len =
     (let t = tcp sock; m = tx_mask sock; seq_end = sq + of_nat len
      in if seq_compare (send_seq t) seq_end < 0 then None
         else
           let data = (if sq AND NOT m = (seq_end - 1) AND NOT m then take len (drop (unat (sq AND m)) (tx_buffer sock))
                  else take (tx_buffer_size sock - unat (sq AND m)) (drop (unat (sq AND m)) (tx_buffer sock)) @ take (unat (seq_end AND m)) (tx_buffer sock))
           in if seq_compare sq (send_ack t) < 0 then None else Some data)"

subsection \<open>Writing round a ring\<close>

primrec ring_put :: "nat \<Rightarrow> nat \<Rightarrow> bytes \<Rightarrow> bytes \<Rightarrow> bytes" where
  "ring_put n off [] buf = buf"
| "ring_put n off (x # xs) buf = ring_put n ((off + 1) mod n) xs (buf[off := x])"

lemma length_ring_put [simp]: "length (ring_put n off xs buf) = length buf"
  by (induction xs arbitrary: off buf) simp_all

lemma ring_put_append:
  "off < n \<Longrightarrow> ring_put n off (xs @ ys) buf = ring_put n ((off + length xs) mod n) ys (ring_put n off xs buf)"
proof (induction xs arbitrary: off buf)
  case (Cons x xs)
  have "(off + 1) mod n < n" using Cons.prems by simp
  from Cons.IH [OF this] show ?case by (simp add: mod_simps)
qed simp

lemma blit_update: "off + length xs < length buf \<Longrightarrow> blit (buf[off := x]) (Suc off) xs = blit buf off (x # xs)"
  by (simp add: blit_def take_Suc_conv_app_nth)

lemma ring_put_blit: "off + length xs \<le> n \<Longrightarrow> length buf = n \<Longrightarrow> ring_put n off xs buf = blit buf off xs"
proof (induction xs arbitrary: off buf)
  case (Cons x xs)
  show ?case
  proof (cases "xs = []")
    case True
    with Cons.prems show ?thesis by (simp add: blit_def upd_conv_take_nth_drop)
  next
    case False
    then have "0 < length xs" by simp
    then have "Suc off < n" using Cons.prems(1) by (simp only: list.size add_Suc_right)
    then have "Suc off mod n = Suc off" by simp
    with Cons.prems show ?thesis by (simp add: Cons.IH blit_update)
  qed
qed (simp add: blit_def)

lemma ring_put_nth:
  "off < n \<Longrightarrow> length buf = n \<Longrightarrow> length xs \<le> n \<Longrightarrow> i < n \<Longrightarrow>
    ring_put n off xs buf ! i = (if (i + n - off) mod n < length xs then xs ! ((i + n - off) mod n) else buf ! i)"
proof (induction xs rule: rev_induct)
  case (snoc x xs)
  have p: "(off + length xs) mod n = (if off + length xs < n then off + length xs else off + length xs - n)"
    using snoc.prems by (auto simp: mod_if)
  have q: "(i + n - off) mod n = (if off \<le> i then i - off else i + n - off)"
    using snoc.prems by (auto simp: mod_if)
  show ?case
    using snoc by (auto simp: ring_put_append p q nth_append nth_list_update)
qed simp

lemma ring_put_wrap:
  assumes "off < n" "length buf = n" "n \<le> off + length xs" "length xs \<le> n"
  shows "ring_put n off xs buf = blit (blit buf off (take (n - off) xs)) 0 (drop (n - off) xs)"
proof -
  have l: "length (take (n - off) xs) = n - off" using assms by simp
  have m: "(off + (n - off)) mod n = 0" using assms(1) by simp
  have "ring_put n off xs buf = ring_put n off (take (n - off) xs @ drop (n - off) xs) buf" by simp
  also have "\<dots> = ring_put n 0 (drop (n - off) xs) (ring_put n off (take (n - off) xs) buf)"
    unfolding ring_put_append [OF assms(1)] l m ..
  also have "\<dots> = ring_put n 0 (drop (n - off) xs) (blit buf off (take (n - off) xs))"
    using assms l by (subst ring_put_blit [of off "take (n - off) xs"]) simp_all
  also have "\<dots> = blit (blit buf off (take (n - off) xs)) 0 (drop (n - off) xs)"
    using assms l by (intro ring_put_blit) simp_all
  finally show ?thesis .
qed

lemma tx_copy_ring:
  "length buf = n \<Longrightarrow> off < n \<Longrightarrow> offs \<le> L \<Longrightarrow> length (iov_rest skip L iov offs) \<le> n \<Longrightarrow>
    tx_copy n skip L iov buf off offs = ring_put n off (iov_rest skip L iov offs) buf"
proof (induction iov arbitrary: buf off offs)
  case Nil
  then show ?case by (simp add: iov_rest_def)
next
  case (Cons v iov)
  show ?case
  proof (cases "L \<le> offs")
    case True
    with Cons.prems(3) show ?thesis by (simp add: iov_rest_def)
  next
    case False
    define len where "len = min (length v) (L - offs)"
    define sk where "sk = skip - offs"
    define P where "P = drop sk (take len v)"
    define R where "R = iov_rest skip L iov (offs + len)"
    have len: "(if length v < L - offs then length v else L - offs) = len" "(if offs < skip then skip - offs else 0) = sk"
        "offs + len \<le> L" "len \<le> length v"
      using False by (simp_all add: len_def sk_def)
    have rest: "iov_rest skip L (v # iov) offs = P @ R"
      unfolding P_def R_def sk_def len_def using False by (intro iov_rest_Cons) simp
    have lP: "length P = len - sk" using len(4) by (simp add: P_def)
    have PR: "length P + length R \<le> n" using Cons.prems(4) unfolding rest by simp
    have IH: "tx_copy n skip L iov b o' (offs + len) = ring_put n o' R b" if "length b = n" "o' < n" for b o'
      unfolding R_def using that len(3) PR by (intro Cons.IH) (simp_all add: R_def)
    have step: "ring_put n off (P @ R) buf = ring_put n ((off + length P) mod n) R (ring_put n off P buf)"
      by (rule ring_put_append [OF Cons.prems(2)])
    note copy = tx_copy.simps(2) [of n skip L v iov buf off offs, unfolded Let_def len(1,2)]
    show ?thesis
    proof (cases "len \<le> sk")
      case True
      then have "P = []" using lP by simp
      then show ?thesis using True False IH [OF Cons.prems(1,2)] unfolding rest copy by simp
    next
      case gt: False
      have P: "P = take (len - sk) (drop sk v)" by (simp add: P_def drop_take)
      show ?thesis
      proof (cases "off + len - sk < n")
        case True
        then have o: "off + length P < n" "off + (len - sk) = off + length P" using gt lP by simp_all
        have b: "ring_put n off P buf = blit buf off P" using o(1) Cons.prems(1) by (intro ring_put_blit) simp_all
        have "length (blit buf off P) = n" using o(1) Cons.prems(1) by simp
        from IH [OF this o(1)] show ?thesis
          unfolding rest step b copy using True False gt o by (simp flip: P)
      next
        case wrap: False
        then have ge: "n \<le> off + length P" using gt lP by simp
        have lPn: "length P \<le> n" using PR by simp
        have t: "take (n - off) (drop sk v) = take (n - off) P" "take (len - (sk + (n - off))) (drop (sk + (n - off)) v) = drop (n - off) P"
          using ge lP unfolding P by (simp_all add: drop_take add.commute)
        have m: "(off + length P) mod n = len - sk - (n - off)"
        proof -
          have "(off + length P) mod n = off + length P - n" using ge lPn Cons.prems(2) by (simp add: le_mod_geq)
          then show ?thesis using lP Cons.prems(2) by linarith
        qed
        note b = ring_put_wrap [OF Cons.prems(2,1) ge lPn]
        have "length (blit (blit buf off (take (n - off) P)) 0 (drop (n - off) P)) = n"
          using Cons.prems(1,2) ge lPn by simp
        moreover have "len - sk - (n - off) < n" using lP lPn Cons.prems(2) by simp
        ultimately show ?thesis
          unfolding rest step b m copy using wrap False gt IH by (simp add: t)
      qed
    qed
  qed
qed

subsection \<open>The ring as a queue\<close>

text \<open>\<open>a\<close> is the position of the first byte not acknowledged, \<open>U\<close> the bytes from there on.\<close>

definition tx_rep :: "nat \<Rightarrow> nat \<Rightarrow> bytes \<Rightarrow> exa_socket \<Rightarrow> bool" where
  "tx_rep k a U sock \<longleftrightarrow> k \<le> 30 \<and> tx_buffer_size sock = 2 ^ k \<and> length (tx_buffer sock) = 2 ^ k \<and>
     send_ack (tcp sock) = of_nat a \<and> send_seq (tcp sock) = of_nat (a + length U) \<and> length U \<le> 2 ^ k \<and>
     (\<forall>i<length U. tx_buffer sock ! ((a + i) mod 2 ^ k) = U ! i)"

lemma tx_mask_pow:
  assumes "tx_rep k a U sock"
  shows "unat (of_nat x AND tx_mask sock) = x mod 2 ^ k" "of_nat x AND NOT (tx_mask sock) = of_nat (x - x mod 2 ^ k)"
  using pow_mask [of "tx_mask sock" k] assms by (simp_all add: tx_mask_def tx_rep_def)

lemma ring_distance:
  assumes "i + n < N \<or> i < n + N" "n \<le> i + N" "0 < (N :: nat)"
  shows "((a + i) mod N + N - (a + n) mod N) mod N = (if n \<le> i then i - n else i + N - n) mod N"
proof -
  have "(a + n) mod N \<le> (a + i) mod N + N" using assms(3) by (simp add: less_imp_le_nat trans_le_add2)
  then have "int ((a + i) mod N + N - (a + n) mod N) = int ((a + i) mod N) + int N - int ((a + n) mod N)" by simp
  then have "int (((a + i) mod N + N - (a + n) mod N) mod N) = (int ((a + i) mod N) + int N - int ((a + n) mod N)) mod int N"
    by (simp add: zmod_int)
  also have "\<dots> = (int (a + i) mod int N - int (a + n) mod int N + int N) mod int N" by (simp add: zmod_int add.commute add_diff_eq)
  also have "\<dots> = (int i - int n) mod int N" unfolding mod_add_self2 mod_diff_eq by simp
  also have "\<dots> = int ((if n \<le> i then i - n else i + N - n) mod N)"
  proof (cases "n \<le> i")
    case True
    then show ?thesis by (simp add: zmod_int of_nat_diff)
  next
    case False
    have "int ((i + N - n) mod N) = (int i + int N - int n) mod int N" using assms(2) by (simp add: zmod_int of_nat_diff)
    also have "\<dots> = (int i - int n + int N) mod int N" by (simp add: algebra_simps)
    also have "\<dots> = (int i - int n) mod int N" by (rule mod_add_self2)
    finally show ?thesis using False by simp
  qed
  finally show ?thesis by (simp only: of_nat_eq_iff)
qed

lemma tx_write_rep:
  assumes rep: "tx_rep k a U sock" and w: "exa_tcp_tx_buffer_write sock iov skip n = Some sock'"
    and iov: "skip + n \<le> length (concat iov)" and room: "length U + n \<le> 2 ^ k"
  shows "tx_rep k a (U @ take n (drop skip (concat iov))) sock'"
proof -
  define D where "D = take n (drop skip (concat iov))"
  define N where "N = (2 :: nat) ^ k"
  define off where "off = (a + length U) mod N"
  note r = rep [unfolded tx_rep_def, folded N_def]
  have N: "0 < N" "off < N" by (simp_all add: N_def off_def)
  have D: "length D = n" using iov by (simp add: D_def)
  have rest: "iov_rest skip (skip + n) iov 0 = D" by (simp add: iov_rest_start D_def)
  have bo: "unat (send_seq (tcp sock) AND tx_mask sock) = off"
    using r tx_mask_pow(1) [OF rep, of "a + length U"] by (simp add: off_def N_def)
  have buf: "tx_copy N skip (skip + n) iov (tx_buffer sock) off 0 = ring_put N off D (tx_buffer sock)"
    unfolding rest [symmetric] using r N room D by (intro tx_copy_ring) (simp_all add: rest N_def)
  have s': "sock' = sock\<lparr>tx_buffer := ring_put N off D (tx_buffer sock),
      tcp := (tcp sock)\<lparr>adv_wnd_end := wnd_end_pending (tcp sock), send_seq := send_seq (tcp sock) + of_nat n, tx_consistent := True\<rparr>\<rparr>"
    using w r unfolding exa_tcp_tx_buffer_write_def Let_def bo by (auto simp: buf split: if_splits)
  have nth: "ring_put N off D (tx_buffer sock) ! ((a + i) mod N) = (U @ D) ! i" if i: "i < length U + n" for i
  proof -
    have d: "((a + i) mod N + N - off) mod N = (if length U \<le> i then i - length U else i + N - length U) mod N"
      unfolding off_def using i room N by (intro ring_distance) (auto simp: N_def)
    have p: "ring_put N off D (tx_buffer sock) ! ((a + i) mod N) =
        (if ((a + i) mod N + N - off) mod N < n then D ! (((a + i) mod N + N - off) mod N) else tx_buffer sock ! ((a + i) mod N))"
      using N r room D by (subst ring_put_nth) (simp_all add: N_def)
    show ?thesis
    proof (cases "length U \<le> i")
      case True
      then have "i - length U < N" "i - length U < n" using i room N(1) by (simp_all add: N_def)
      with True show ?thesis unfolding p d by (simp add: nth_append)
    next
      case False
      then have "i + N - length U < N" "n \<le> i + N - length U" using room by (simp_all add: N_def)
      moreover have "tx_buffer sock ! ((a + i) mod N) = U ! i" using r False by simp
      ultimately show ?thesis unfolding p d using False by (simp add: nth_append)
    qed
  qed
  show ?thesis
    unfolding D_def [symmetric] tx_rep_def N_def [symmetric] s'
    using r room nth by (simp add: D N_def)
qed

lemma of_nat_near:
  assumes "A \<le> B" "B - A < 2 ^ 32"
  shows "(of_nat A = (of_nat B :: u32)) \<longleftrightarrow> A = B"
proof
  assume "of_nat A = (of_nat B :: u32)"
  then have "unat (of_nat B - of_nat A :: u32) = 0" by simp
  moreover have "unat (of_nat B - of_nat A :: u32) = B - A" using assms by (intro unat_word_diff) simp_all
  ultimately show "A = B" using assms(1) by linarith
qed simp

lemma tx_get_rep:
  assumes rep: "tx_rep k a U sock" and len: "0 < len" "i + len \<le> length U"
  shows "exasock_tcp_tx_buffer_get sock (of_nat (a + i)) len = Some (take len (drop i U))"
proof -
  define N where "N = (2 :: nat) ^ k"
  define x where "x = a + i"
  define y where "y = x + len - 1"
  note r = rep [unfolded tx_rep_def, folded N_def]
  have "N \<le> 2 ^ 30" unfolding N_def using r by (intro power_increasing) simp_all
  then have N: "0 < N" "N \<le> 2 ^ 30" "len \<le> N" using r len by (simp_all add: N_def)
  have y: "of_nat (x + len) - 1 = (of_nat y :: u32)" "y = x + (len - 1)" using len(1) by (simp_all add: y_def of_nat_diff)
  have e: "of_nat x + of_nat len = (of_nat (x + len) :: u32)" by simp
  have cmp: "seq_compare (of_nat (a + length U)) (of_nat (x + len)) = int (a + length U) - int (x + len)"
    using len r N(2) by (intro seq_compare_pos) (simp_all add: x_def)
  have cmp2: "seq_compare (of_nat x) (of_nat a) = int x - int a"
    using len r N(2) by (intro seq_compare_pos) (simp_all add: x_def)
  have sq: "send_seq (tcp sock) = of_nat (a + length U)" "send_ack (tcp sock) = of_nat a" using r by simp_all
  have m: "unat (of_nat x AND tx_mask sock) = x mod N" "unat (of_nat (x + len) AND tx_mask sock) = (x + len) mod N"
    unfolding N_def by (rule tx_mask_pow(1) [OF rep])+
  have blk: "(of_nat x AND NOT (tx_mask sock) = (of_nat y AND NOT (tx_mask sock) :: u32)) \<longleftrightarrow> x mod N + len \<le> N"
  proof -
    have xm: "x mod N < N" "y mod N < N" using N(1) by simp_all
    have le: "x - x mod N \<le> y - y mod N"
    proof -
      have "x div N * N \<le> y div N * N" by (simp add: y(2) div_le_mono)
      then show ?thesis by (simp add: minus_mod_eq_div_mult)
    qed
    have "x = (x - x mod N) + x mod N" "y - y mod N \<le> y" "N \<le> 1073741824" using N(2) by simp_all
    then have "y - y mod N - (x - x mod N) < 4294967296" using xm N(3) y(2) len(1) le by linarith
    then have "y - y mod N - (x - x mod N) < 2 ^ 32" by simp
    then have "(of_nat (x - x mod N) = (of_nat (y - y mod N) :: u32)) \<longleftrightarrow> x - x mod N = y - y mod N"
      by (rule of_nat_near [OF le])
    also have "\<dots> \<longleftrightarrow> x mod N + len \<le> N"
    proof
      assume "x - x mod N = y - y mod N"
      then have "y mod N = x mod N + (len - 1)" using y(2) mod_less_eq_dividend [of x N] mod_less_eq_dividend [of y N] by linarith
      then show "x mod N + len \<le> N" using xm(2) by linarith
    next
      assume "x mod N + len \<le> N"
      then have "y mod N = x mod N + (len - 1)"
        using len(1) mod_add_eq [of x N "len - 1"] unfolding y(2) by (metis One_nat_def Suc_le_eq Suc_pred add_Suc_right mod_less mod_add_left_eq)
      then show "x - x mod N = y - y mod N" using y(2) by linarith
    qed
    finally show ?thesis using tx_mask_pow(2) [OF rep, of x] tx_mask_pow(2) [OF rep, of y] by (simp add: N_def)
  qed
  have ts: "tx_buffer_size sock = N" using r by simp
  have xU: "a \<le> x" "x + len \<le> a + length U" using len(2) by (simp_all add: x_def)
  have nth: "tx_buffer sock ! ((x + j) mod N) = U ! (i + j)" if "j < len" for j
    using r that len(2) by (auto simp: x_def add.assoc)
  have lb: "length (tx_buffer sock) = N" using r by simp
  have data: "(if x mod N + len \<le> N then take len (drop (x mod N) (tx_buffer sock))
      else take (N - x mod N) (drop (x mod N) (tx_buffer sock)) @ take ((x + len) mod N) (tx_buffer sock)) = take len (drop i U)" (is "?d = _")
  proof (cases "x mod N + len \<le> N")
    case True
    have "(x + j) mod N = x mod N + j" if "j < len" for j
      using that True by (metis add_less_cancel_left le_trans less_le_trans mod_add_left_eq mod_less nat_less_le)
    then have "take len (drop (x mod N) (tx_buffer sock)) ! j = take len (drop i U) ! j" if "j < len" for j
      using True that nth [OF that] lb len(2) by simp
    moreover have "length (take len (drop (x mod N) (tx_buffer sock))) = len" using True lb by simp
    ultimately have "take len (drop (x mod N) (tx_buffer sock)) = take len (drop i U)"
      using len(2) by (intro nth_equalityI) simp_all
    with True show ?thesis by simp
  next
    case False
    have xm: "x mod N < N" using N(1) by simp
    have w: "(x + j) mod N = (if x mod N + j < N then x mod N + j else x mod N + j - N)" if "j \<le> len" for j
    proof -
      have e: "(x + j) mod N = (x mod N + j) mod N" by (rule mod_add_left_eq [symmetric])
      have "x mod N + j - N < N" using xm that N(1,3) by linarith
      then show ?thesis unfolding e using le_mod_geq [of N "x mod N + j"] by (cases "x mod N + j < N") simp_all
    qed
    from False w [of len] have l: "(x + len) mod N = x mod N + len - N" by simp
    show ?thesis
    proof (rule nth_equalityI)
      show "length ?d = length (take len (drop i U))" using False xm lb l len(2) N(3) by simp
      fix j assume "j < length ?d"
      then have j: "j < len" using False xm lb l N(3) by simp
      show "?d ! j = take len (drop i U) ! j"
      proof (cases "x mod N + j < N")
        case True
        then have "j < N - x mod N" "tx_buffer sock ! (x mod N + j) = U ! (i + j)" using nth [OF j] w [of j] j by simp_all
        then show ?thesis using False j len(2) xm by (simp add: nth_append lb)
      next
        case wrap: False
        then have g: "\<not> j < N - x mod N" "tx_buffer sock ! (x mod N + j - N) = U ! (i + j)" using nth [OF j] w [of j] j by simp_all
        have "j - (N - x mod N) = x mod N + j - N" "x mod N + j - N < x mod N + len - N" using wrap xm j by linarith+
        then show ?thesis using False j len(2) xm g l by (simp add: nth_append lb)
      qed
    qed
  qed
  show ?thesis
    unfolding exasock_tcp_tx_buffer_get_def Let_def x_def [symmetric] sq e y(1) cmp cmp2 blk m ts data
    using xU by simp
qed

text \<open>What an acknowledgement does: only a position after the first byte not acknowledged counts.\<close>

lemma tx_ack_rep:
  assumes rep: "tx_rep k a U sock" and x: "x \<le> a + length U" "a < x + 2 ^ 31"
    and s': "tx_buffer_size sock' = tx_buffer_size sock" "tx_buffer sock' = tx_buffer sock" "send_seq (tcp sock') = send_seq (tcp sock)"
      "send_ack (tcp sock') = (if seq_compare (send_ack (tcp sock)) (of_nat x) < 0 then of_nat x else send_ack (tcp sock))"
  shows "tx_rep k (max a x) (drop (x - a) U) sock'"
proof -
  note r = rep [unfolded tx_rep_def]
  have "(2 :: nat) ^ k \<le> 2 ^ 30" using r by (intro power_increasing) simp_all
  then have "length U \<le> 2 ^ 30" using r by simp
  then have cmp: "seq_compare (send_ack (tcp sock)) (of_nat x) = int a - int x" using r x by (simp add: seq_compare_pos)
  show ?thesis
  proof (cases "a < x")
    case True
    then have "x + length (drop (x - a) U) = a + length U" using x(1) by simp
    then have "of_nat (x + length (drop (x - a) U)) = send_seq (tcp sock)" using r by simp
    moreover have "tx_buffer sock ! ((x + i) mod 2 ^ k) = drop (x - a) U ! i" if "i < length (drop (x - a) U)" for i
    proof -
      have "x - a + i < length U" "a + (x - a + i) = x + i" using that True by simp_all
      with r have "tx_buffer sock ! ((x + i) mod 2 ^ k) = U ! (x - a + i)" by metis
      then show ?thesis using that by simp
    qed
    moreover have "length U + a - x \<le> 2 ^ k" using True r by linarith
    ultimately show ?thesis using True r s' cmp by (simp add: tx_rep_def max_def)
  next
    case False
    then show ?thesis using r s' cmp by (simp add: tx_rep_def max_def)
  qed
qed

text \<open>The window never lets a send overrun the bytes not acknowledged.\<close>

lemma max_seg_len_room:
  assumes rep: "tx_rep k a U sock" and m: "exa_tcp_max_seg_len sock False = Some (sq, n)" and n: "0 < n"
  shows "sq = send_seq (tcp sock) \<and> length U + n \<le> 2 ^ k"
proof -
  note r = rep [unfolded tx_rep_def]
  define N where "N = (2 :: nat) ^ k"
  have "N \<le> 2 ^ 30" unfolding N_def using r by (intro power_increasing) simp_all
  then have N: "N \<le> 1073741824" by simp
  define t where "t = tcp sock"
  define w0 where "w0 = (if seq_compare (send_ack t + cwnd t) (rwnd_end t) < 0 then send_ack t + cwnd t else rwnd_end t)"
  define w where "w = (if of_nat N < w0 - send_ack t then send_ack t + of_nat N else w0)"
  have "unat (of_nat N :: u32) = N" unfolding unat_of_nat using N by simp
  then have wb: "unat (w - send_ack t) \<le> N" unfolding w_def by (auto simp: word_less_nat_alt)
  define d where "d = unat (w - send_ack t)"
  have "w = of_nat (a + d)" using r by (simp add: d_def t_def)
  moreover have "send_seq t = of_nat (a + length U)" using r by (simp add: t_def)
  moreover have "length U \<le> N" "d \<le> N" using r wb by (simp_all add: N_def d_def)
  ultimately have "seq_compare w (send_seq t) = int (a + d) - int (a + length U)"
    using N by (simp only:) (intro seq_compare_pos; simp)
  then have sp: "sint (w - send_seq t) = int d - int (length U)" by (simp add: seq_compare_def)
  have ts: "tx_buffer_size sock = N" using r by (simp add: N_def)
  have "exa_tcp_max_seg_len sock False =
      (if tcp_state t \<noteq> EXA_TCP_ESTABLISHED \<and> tcp_state t \<noteq> EXA_TCP_CLOSE_WAIT then None
       else Some (send_seq t, if sint (w - send_seq t) < 0 then 0
              else if int (unat (rmss t)) < sint (w - send_seq t) then unat (rmss t) else nat (sint (w - send_seq t))))"
    unfolding exa_tcp_max_seg_len_def Let_def ts w_def w0_def t_def by simp
  then have "n = (if sint (w - send_seq t) < 0 then 0
              else if int (unat (rmss t)) < sint (w - send_seq t) then unat (rmss t) else nat (sint (w - send_seq t)))" "sq = send_seq t"
    using m by (simp_all split: if_splits)
  moreover define rm where "rm = unat (rmss t)"
  ultimately have "n \<le> nat (int d - int (length U))" "sq = send_seq t" using n unfolding sp rm_def [symmetric] by (simp_all split: if_splits)
  then show ?thesis using n wb unfolding d_def N_def t_def by linarith
qed

subsection \<open>What a received packet does to the send side\<close>

definition same_tx :: "exa_tcp_state \<Rightarrow> exa_tcp_state \<Rightarrow> bool" where
  "same_tx t t' \<longleftrightarrow> send_seq t' = send_seq t \<and> send_ack t' = send_ack t"

lemma same_tx_intro [simp]: "same_tx t t"
  by (simp add: same_tx_def)

lemma alloc_tx:
  "exa_tcp_rx_buffer_alloc intf sock sq n = (r, sock') \<Longrightarrow>
    same_tx (tcp sock) (tcp sock') \<and> tx_buffer_size sock' = tx_buffer_size sock \<and> tx_buffer sock' = tx_buffer sock"
  unfolding exa_tcp_rx_buffer_alloc_def Let_def by (auto simp: same_tx_def split: if_splits prod.splits)

lemma region_tx:
  "tcp_region intf sock p = (g, sock') \<Longrightarrow>
    same_tx (tcp sock) (tcp sock') \<and> tx_buffer_size sock' = tx_buffer_size sock \<and> tx_buffer sock' = tx_buffer sock"
  by (auto simp: tcp_region_def dest!: alloc_tx split: if_splits prod.splits)

lemma commit_tx: "exa_tcp_rx_buffer_commit t sq n p = Some t' \<Longrightarrow> same_tx t t'"
  by (auto simp: exa_tcp_rx_buffer_commit_def Let_def same_tx_def out_of_order_seg_count_def out_of_order_reset_def
      split: if_splits prod.splits option.splits)

lemma abort_tx: "same_tx t (exa_tcp_rx_buffer_abort t sq n p)"
  by (simp add: exa_tcp_rx_buffer_abort_def Let_def same_tx_def)

lemma payload_tx:
  assumes "tcp_receive_payload intf sock p = (st, sock', io)"
  shows "same_tx (tcp sock) (tcp sock') \<and> tx_buffer_size sock' = tx_buffer_size sock \<and> tx_buffer sock' = tx_buffer sock"
proof -
  obtain g sock1 where reg: "tcp_region intf sock p = (g, sock1)" by force
  note s1 = region_tx [OF reg]
  have t: "send_seq (exa_tcp_rx_buffer_abort x a b c) = send_seq x" "send_ack (exa_tcp_rx_buffer_abort x a b c) = send_ack x" for x a b c
    using abort_tx [of x a b c] by (simp_all add: same_tx_def)
  show ?thesis
    using assms s1 unfolding tcp_receive_payload_def reg Let_def
    by (auto simp: t same_tx_def dest!: commit_tx split: prod.splits outcome.splits if_splits option.splits)
qed

lemma pre_update_tx:
  "exa_tcp_pre_update_state t flags dseq aseq opts n = Some (Inr t') \<Longrightarrow> same_tx t t'"
  by (auto simp: exa_tcp_pre_update_state_def exa_tcp_apply_syn_opts_def same_tx_def split: if_splits option.splits prod.splits)

lemma conn_state_tx: "same_tx t (fst (exa_tcp_update_conn_state t flags dseq n))"
  by (cases "tcp_state t") (simp_all add: exa_tcp_update_conn_state_def Let_def same_tx_def)

lemma update_state_tx:
  "send_seq (tcp (exa_tcp_update_state sock flags dseq aseq win)) = send_seq (tcp sock)"
  "send_ack (tcp (exa_tcp_update_state sock flags dseq aseq win)) =
    (if flags AND TH_ACK \<noteq> 0 \<and> seq_compare (send_ack (tcp sock)) aseq < 0 then aseq else send_ack (tcp sock))"
  "tx_buffer_size (exa_tcp_update_state sock flags dseq aseq win) = tx_buffer_size sock"
  "tx_buffer (exa_tcp_update_state sock flags dseq aseq win) = tx_buffer sock"
  by (simp_all add: exa_tcp_update_state_def exa_tcp_error_close_def Let_def)

text \<open>Only a packet that is taken, and has its ACK flag set, moves the first byte not acknowledged.\<close>

definition acks :: "rx_status \<Rightarrow> tcp_packet \<Rightarrow> bool" where
  "acks st p \<longleftrightarrow> st = Rx_committed \<and> pk_flags p AND TH_ACK \<noteq> 0"

lemma packet_tx:
  assumes "tcp_receive_packet intf sock p = (st, sock', mc)"
  shows "tx_buffer_size sock' = tx_buffer_size sock \<and> tx_buffer sock' = tx_buffer sock \<and> send_seq (tcp sock') = send_seq (tcp sock) \<and>
    send_ack (tcp sock') = (if acks st p \<and> seq_compare (send_ack (tcp sock)) (pk_ack p) < 0 then pk_ack p else send_ack (tcp sock))"
proof (cases "exa_tcp_listening (tcp sock)")
  case True
  with assms show ?thesis by (auto simp: tcp_receive_packet_def acks_def)
next
  case False
  show ?thesis
  proof (cases "exa_tcp_pre_update_state (tcp sock) (pk_flags p) (pk_seq p) (pk_ack p) (pk_opt p) (pk_opt_len p)")
    case None
    with assms False show ?thesis by (auto simp: tcp_receive_packet_def acks_def)
  next
    case (Some q)
    show ?thesis
    proof (cases q)
      case (Inl u)
      with assms False Some show ?thesis by (auto simp: tcp_receive_packet_def acks_def)
    next
      case (Inr t)
      note same = pre_update_tx [OF Some [unfolded Inr]]
      obtain st1 sock1 io where b: "tcp_receive_payload intf (sock\<lparr>tcp := t\<rparr>) p = (st1, sock1, io)" by (rule prod_cases3)
      note pay = payload_tx [OF b]
      show ?thesis
      proof (cases "st1 = Rx_committed")
        case True
        define sock2 where "sock2 = exa_tcp_update_state sock1 (pk_flags p) (pk_seq p) (pk_ack p) (pk_win p)"
        have "st = Rx_committed" "sock' = sock2\<lparr>tcp := fst (exa_tcp_update_conn_state (tcp sock2) (pk_flags p) (pk_seq p) (pk_len p))\<rparr>"
          using assms False Some Inr b True by (auto simp: tcp_receive_packet_def sock2_def Let_def split: prod.splits)
        then show ?thesis
          using same pay conn_state_tx [of "tcp sock2" "pk_flags p" "pk_seq p" "pk_len p"]
          by (simp add: same_tx_def sock2_def update_state_tx acks_def)
      next
        case False
        then have "st = st1" "sock' = sock1"
          using assms \<open>\<not> exa_tcp_listening (tcp sock)\<close> Some Inr b by (auto simp: tcp_receive_packet_def split: rx_status.splits)
        with False same pay show ?thesis by (simp add: same_tx_def acks_def)
      qed
    qed
  qed
qed

end
