(* ===== verification/TcpSession.thy ===== *)
theory TcpSession
  imports TcpTx TxPath
begin

text \<open>
  A TCP connection that sends: the calls of \<open>exanic_tcp_send_iov\<close> and the packets received, in any
  order. At every moment the kernel module can send again any byte not acknowledged, and gets
  the byte the application sent.
\<close>

lemma tx_rep_cong:
  assumes "tx_buffer_size s' = tx_buffer_size s" "exa_socket.tx_buffer s' = exa_socket.tx_buffer s" "same_tx (tcp s) (tcp s')"
  shows "tx_rep k a U s' = tx_rep k a U s"
  using assms by (simp add: tx_rep_def same_tx_def)

lemma build_hdr_socket:
  "exa_tcp_build_hdr ctx sock sq iov skip n = Some (h, sock') \<Longrightarrow> \<exists>w. sock' = sock\<lparr>tcp := (tcp sock)\<lparr>wnd_end_pending := w\<rparr>\<rparr>"
  by (auto simp: exa_tcp_build_hdr_def exa_tcp_get_window_def Let_def split: if_splits option.splits)

lemma sz_sub_big: "a < b \<Longrightarrow> b \<le> 2 ^ 32 \<Longrightarrow> 2 ^ 63 \<le> sz_sub a b"
proof -
  assume a: "a < b" "b \<le> 2 ^ 32"
  define d where "d = b - a"
  have d: "0 < d" "d \<le> 2 ^ 32" "int a - int b = - int d" using a by (simp_all add: d_def)
  then have "(- int d) mod 2 ^ 64 = 2 ^ 64 - int d" by (subst minus_mod_int_eq) simp_all
  with d show ?thesis by (simp add: sz_sub_def)
qed

lemma adjust_seg_len:
  assumes "exanic_adjust_tcp_seg_len tx n m eth is_ate < 2 ^ 62"
  shows "exanic_adjust_tcp_seg_len tx n m eth is_ate \<le> min n m"
proof -
  define mtu where "mtu = exanic_get_tx_mtu tx"
  define h where "h = (if is_ate then sizeof_tx_payload_metadata else 20 + 20 + (if h_proto eth = htons ETH_P_8021Q then 18 else 14))"
  have "mtu < 2 ^ 64" unfolding mtu_def exanic_get_tx_mtu_def Let_def sz_sub_def by (simp add: nat_less_iff)
  moreover have "h \<le> 2 ^ 32" by (simp add: h_def)
  ultimately have "mtu < h \<Longrightarrow> 2 ^ 63 \<le> sz_sub mtu h" "h \<le> mtu \<Longrightarrow> sz_sub mtu h = mtu - h"
    using sz_sub_big [of mtu h] sz_sub_small [of h mtu] by blast+
  then show ?thesis
    using assms unfolding exanic_adjust_tcp_seg_len_def Let_def mtu_def [symmetric] h_def [symmetric]
    by (cases "mtu < h") (auto split: if_splits)
qed

text \<open>One call: the bytes sent are at the end of the queue, however the segment was handed over.\<close>

lemma send_iov_rep:
  assumes rep: "tx_rep k a U sock" and iov: "skip + dl \<le> length (concat iov)"
    and run: "exanic_tcp_send_iov fuel fb stack tbl None (ctx, sock) iov skip dl False = Some (Some n, ctx', sock')"
  shows "n \<le> dl \<and> tx_rep k a (U @ take n (drop skip (concat iov))) sock'"
proof -
  obtain sq m where m: "exa_tcp_max_seg_len sock False = Some (sq, m)"
    using run by (cases "exa_tcp_max_seg_len sock False") (auto simp: exanic_tcp_send_iov_def Let_def)
  show ?thesis
  proof (cases "m = 0 \<and> dl \<noteq> 0")
    case True
    then have "n = 0" "sock' = sock" using run m by (auto simp: exanic_tcp_send_iov_def Let_def)
    with rep show ?thesis by simp
  next
    case False
    then obtain tx where tx: "nt_dev (tc_net ctx) = Some tx" using run m by (auto simp: exanic_tcp_send_iov_def Let_def split: option.splits if_splits)
    define sl where "sl = exanic_adjust_tcp_seg_len tx dl m (nt_eth (tc_net ctx)) False"
    define sock1 where "sock1 = sock\<lparr>tcp := (exa_tcp_clear_ack_pending (tcp sock))\<lparr>tx_consistent := False\<rparr>\<rparr>"
    obtain h sock2 where h: "exa_tcp_build_hdr (tc_conn ctx) sock1 sq iov skip sl = Some (h, sock2)" and
        w: "exa_tcp_tx_buffer_write sock2 iov skip sl = Some sock'" and n: "n = sl"
      using run m tx False unfolding exanic_tcp_send_iov_def Let_def by (auto simp: sl_def sock1_def split: option.splits if_splits)
    have same1: "tx_rep k a V sock1 = tx_rep k a V sock" for V
      by (rule tx_rep_cong) (simp_all add: sock1_def exa_tcp_clear_ack_pending_def same_tx_def)
    obtain e where "sock2 = sock1\<lparr>tcp := (tcp sock1)\<lparr>wnd_end_pending := e\<rparr>\<rparr>" using build_hdr_socket [OF h] by blast
    then have "tx_rep k a V sock2 = tx_rep k a V sock1" for V by (intro tx_rep_cong) (simp_all add: same_tx_def)
    then have rep2: "tx_rep k a U sock2" using rep same1 by simp
    have "sl \<le> tx_buffer_size sock2" using w by (auto simp: exa_tcp_tx_buffer_write_def split: if_splits)
    also have "\<dots> \<le> 2 ^ 30" using rep2 power_increasing [of k 30 "2 :: nat"] unfolding tx_rep_def by simp
    finally have "sl \<le> min dl m" unfolding sl_def by (intro adjust_seg_len) simp
    then have b: "sl \<le> dl" "sl \<le> m" by simp_all
    have room: "length U + sl \<le> 2 ^ k"
    proof (cases "m = 0")
      case True
      with b rep show ?thesis by (simp add: tx_rep_def)
    next
      case False
      then show ?thesis using max_seg_len_room [OF rep m] b(2) by simp
    qed
    show ?thesis using tx_write_rep [OF rep2 w _ room] iov b(1) n by simp
  qed
qed

subsection \<open>Sessions\<close>

text \<open>From the position \<open>s\<close> of the first byte on: what was sent, and how much of it is acknowledged. The peer
  acknowledges only what was sent, and its acknowledgements are not older than half the sequence space.\<close>

inductive tx_session :: "nat \<Rightarrow> nat \<Rightarrow> exa_socket \<Rightarrow> bytes \<Rightarrow> nat \<Rightarrow> bool" for k s where
  open_session: "k \<le> 30 \<Longrightarrow> tx_buffer_size sock = 2 ^ k \<Longrightarrow> length (exa_socket.tx_buffer sock) = 2 ^ k \<Longrightarrow>
    send_seq (tcp sock) = of_nat s \<Longrightarrow> send_ack (tcp sock) = of_nat s \<Longrightarrow> tx_session k s sock [] 0"
| send: "tx_session k s sock sent acked \<Longrightarrow>
    exanic_tcp_send_iov fuel fb stack tbl None (ctx, sock) iov skip dl False = Some (Some n, ctx', sock') \<Longrightarrow>
    skip + dl \<le> length (concat iov) \<Longrightarrow> tx_session k s sock' (sent @ take n (drop skip (concat iov))) acked"
| receive: "tx_session k s sock sent acked \<Longrightarrow> tcp_receive_packet intf sock p = (st, sock', mc) \<Longrightarrow>
    pk_ack p = of_nat (s + x) \<Longrightarrow> x \<le> length sent \<Longrightarrow> acked < x + 2 ^ 31 \<Longrightarrow>
    tx_session k s sock' sent (if acks st p then max acked x else acked)"

lemma session_rep: "tx_session k s sock sent acked \<Longrightarrow> acked \<le> length sent \<and> tx_rep k (s + acked) (drop acked sent) sock"
proof (induction rule: tx_session.induct)
  case (open_session sock)
  then show ?case by (simp add: tx_rep_def)
next
  case (send sock sent acked fuel fb stack tbl ctx iov skip dl n ctx' sock')
  then have "tx_rep k (s + acked) (drop acked sent @ take n (drop skip (concat iov))) sock'"
    using send_iov_rep [OF _ send.hyps(3,2)] by blast
  then show ?case using send.IH by simp
next
  case (receive sock sent acked intf p st sock' mc x)
  note t = packet_tx [OF receive.hyps(2)]
  show ?case
  proof (cases "acks st p")
    case True
    have rep: "tx_rep k (s + acked) (drop acked sent) sock" "acked \<le> length sent" using receive.IH by simp_all
    have "tx_rep k (max (s + acked) (s + x)) (drop (s + x - (s + acked)) (drop acked sent)) sock'"
    proof (rule tx_ack_rep [OF rep(1)])
      show "s + x \<le> s + acked + length (drop acked sent)" using receive.hyps(4) rep(2) by simp
      show "s + acked < s + x + 2 ^ 31" using receive.hyps(5) by simp
    qed (use t True receive.hyps(3) in simp_all)
    moreover have "max (s + acked) (s + x) = s + max acked x" "x - acked + acked = max acked x" by simp_all
    ultimately show ?thesis using True rep(2) receive.hyps(4) by simp
  next
    case False
    then have "tx_rep k (s + acked) (drop acked sent) sock' = tx_rep k (s + acked) (drop acked sent) sock"
      using t by (intro tx_rep_cong) (simp_all add: same_tx_def)
    with False receive.IH show ?thesis by simp
  qed
qed

text \<open>C11. In every run of a connection that sends, with any segment sizes, any pieces, any order of sends and
  packets, and whether segments left at once or were queued for the neighbour, the kernel module gets from the
  transmit buffer, for every range not yet acknowledged, exactly the bytes the application sent there.\<close>

theorem retransmission_reads_stream:
  assumes "tx_session k s sock sent acked" "acked \<le> i" "0 < len" "i + len \<le> length sent"
  shows "exasock_tcp_tx_buffer_get sock (of_nat (s + i)) len = Some (take len (drop i sent))"
proof -
  have "acked \<le> length sent" "tx_rep k (s + acked) (drop acked sent) sock" using session_rep [OF assms(1)] by simp_all
  then have "exasock_tcp_tx_buffer_get sock (of_nat (s + acked + (i - acked))) len = Some (take len (drop (i - acked) (drop acked sent)))"
    using assms(2-4) by (intro tx_get_rep) simp_all
  then show ?thesis using assms(2) by simp
qed

subsection \<open>A concrete session\<close>

definition small_dev :: exanic_tx where
  "small_dev = \<lparr>tx_port_number = 0, feedback_slot = 0, tx_buffer = [], buffer_offset = 0, buffer_size = 4096, next_offset = 0,
     feedback_seq = 0, request_seq = 0, rollover_seq = 1, next_seq = 1, queue_len = 8, feedback_offsets = [],
     prepared_chunk = None, prepared_chunk_size = 0, need_feedback = False, fb_reads = 0, fb_writes = [], reg_writes = []\<rparr>"

definition small_tcp :: exa_tcp_state where
  "small_tcp = \<lparr>read_seq = 0, adv_wnd_end = 0, dup_acks_seq = 0, tx_consistent = True, send_seq = 0xFFFFFFFF,
     wnd_end_pending = 0, recv_seg = replicate 6 (0, 0), ooo_ack_seq = 0, ooo_seg_count = 0, send_ack = 0xFFFFFFFF, rwnd_end = 100,
     recv_seq = 0, proc_seq = 0, rmss = 3, wscale = 0, tcp_state = EXA_TCP_ESTABLISHED, cwnd = 100,
     ate_wnd_end = 0, ack_pending = False, init_send_seq = 0, init_recv_seq = 0\<rparr>"

definition small_sock :: exa_socket where
  "small_sock = \<lparr>tcp = small_tcp, rx_buffer_size = 4, tx_buffer_size = 4, rx_buffer = [9, 9, 9, 9], tx_buffer = [9, 9, 9, 9], sock_error = 0\<rparr>"

definition small_ctx :: exanic_tcp where
  "small_ctx = \<lparr>tc_conn = cached_hdr 1 2 3, tc_net =
     \<lparr>nt_eth = \<lparr>h_dest = [], h_source = [], h_proto = 0, h_vlan_tci = 0, h_vlan_proto = 0\<rparr>, nt_ip = exa_ip_tx_init IPPROTO_TCP,
      nt_dst = \<lparr>dst_addr = 5, dst_src_addr = 0, dst_idx = None, dst_gen_id = 0, dst_eth_addr = [], no_lookup = False\<rparr>,
      nt_dev = Some small_dev, nt_if_addr = 0, nt_used = {}\<rparr>\<rparr>"

definition no_neighbours :: "exa_dst_entry list" where
  "no_neighbours = [\<lparr>de_dst_addr = 0, de_src_addr = 0, de_eth_addr = [], de_gen_id = 0, de_def_rt = False, de_state = DST_EMPTY\<rparr>]"

lemma small_mtu: "exanic_get_tx_mtu small_dev = 1526"
  by (simp add: exanic_get_tx_mtu_def exanic_payload_padding_bytes_def exanic_max_tx_chunk_size_def small_dev_def sz_sub_def)

lemma small_send:
  "\<exists>ctx' sock'. exanic_tcp_send_iov 0 (\<lambda>_. 0) [] no_neighbours None (small_ctx, small_sock) [[1, 2], [3, 4]] 0 4 False =
    Some (Some 3, ctx', sock')"
proof -
  have m: "exa_tcp_max_seg_len small_sock False = Some (0xFFFFFFFF, 3)"
    by (simp add: exa_tcp_max_seg_len_def small_sock_def small_tcp_def seq_compare_def)
  have l: "exanic_adjust_tcp_seg_len small_dev 4 3 (nt_eth (tc_net small_ctx)) False = 3"
    unfolding exanic_adjust_tcp_seg_len_def small_mtu by simp
  define sock1 where "sock1 = small_sock\<lparr>tcp := (exa_tcp_clear_ack_pending (tcp small_sock))\<lparr>tx_consistent := False\<rparr>\<rparr>"
  have "tcp_state (tcp sock1) = EXA_TCP_ESTABLISHED" by (simp add: sock1_def small_sock_def small_tcp_def exa_tcp_clear_ack_pending_def)
  then obtain h sock2 where h: "exa_tcp_build_hdr (tc_conn small_ctx) sock1 0xFFFFFFFF [[1, 2], [3, 4]] 0 3 = Some (h, sock2)"
    using csum_iov_defined [of 0 3 "[[1, 2], [3, 4]]"]
    by (fastforce simp: exa_tcp_build_hdr_def Let_def split: prod.splits option.splits)
  then obtain sock3 where w: "exa_tcp_tx_buffer_write sock2 [[1, 2], [3, 4]] 0 3 = Some sock3"
    using build_hdr_socket [OF h] by (auto simp: exa_tcp_tx_buffer_write_def Let_def sock1_def small_sock_def)
  have d: "nt_dev (tc_net small_ctx) = Some small_dev" by (simp add: small_ctx_def)
  have "length h = 20" using h by (auto simp: exa_tcp_build_hdr_def tcp_hdr_def Let_def le16_bytes_def be16_bytes_def be32_bytes_def split: if_splits option.splits prod.splits)
  then obtain r nt where "exanic_ip_send_iov 0 (\<lambda>_. 0) [] no_neighbours (tc_net small_ctx) h [[1, 2], [3, 4]] 0 3 False = Some (r, nt)"
    by (auto simp: exanic_ip_send_iov_def Let_def small_ctx_def dst_refresh_def exa_dst_update_def exa_dst_lookup_def no_neighbours_def dst_match_def
        exa_dst_found_def exa_sys_dst_queue_def exa_ip_build_hdr_def ip_hdr_def le16_bytes_def be16_bytes_def le32_bytes_def)
  then show ?thesis using m l d h w unfolding exanic_tcp_send_iov_def Let_def sock1_def by simp
qed

lemma retransmission_reads_stream_witness:
  "\<exists>sock. exasock_tcp_tx_buffer_get sock (of_nat (4294967295 + 1)) 2 = Some [2, 3]"
proof -
  obtain ctx' sock' where s: "exanic_tcp_send_iov 0 (\<lambda>_. 0) [] no_neighbours None (small_ctx, small_sock) [[1, 2], [3, 4]] 0 4 False =
      Some (Some 3, ctx', sock')" using small_send by auto
  have "tx_session 2 4294967295 small_sock [] 0" by (rule open_session) (simp_all add: small_sock_def small_tcp_def)
  from send [OF this s] have "tx_session 2 4294967295 sock' [1, 2, 3] 0" by simp
  from retransmission_reads_stream [OF this, of 1 2] show ?thesis by auto
qed

end
