(* ===== verification/UdpQueue.thy ===== *)
theory UdpQueue
  imports UdpHdr TcpRx
begin

text \<open>
  UDP sockets of the sockets library: the receive queue (\<open>libs/exasock/udp_queue.h\<close>, the layout of an
  entry from \<open>kernel/structs.h\<close>), the UDP part of \<open>exanic_poll_single_rx\<close> (\<open>exanic.c\<close>) and the calls
  that receive a datagram (\<open>socket/recv.c\<close>). A pointer into the queue is an offset in its buffer. The edge
  notification of \<open>epoll\<close> and the test for a socket that is gone are left out.
\<close>

subsection \<open>The queue\<close>

record exa_endpoint =
  local_addr :: u32
  peer_addr :: u32
  local_port :: u16
  peer_port :: u16

record exa_timestamp =
  ts_sec :: u32
  ts_nsec :: u32

record udp_socket =
  udp_next_write :: u32
  udp_next_read :: u32
  udp_buffer_size :: nat
  udp_buffer :: bytes
  udp_rx_shutdown :: bool
  udp_bound :: bool
  udp_rx_ready :: bool

definition exa_udp_queue_entry_size :: "nat \<Rightarrow> nat" where
  "exa_udp_queue_entry_size len = sz_add len (16 + 16 + 63) div 64 * 64"

definition ep_bytes :: "exa_endpoint \<Rightarrow> bytes" where
  "ep_bytes ep = le32_bytes (local_addr ep) @ le32_bytes (peer_addr ep) @ le16_bytes (local_port ep) @ le16_bytes (peer_port ep)"

definition ep_at :: "(nat \<Rightarrow> u8) \<Rightarrow> nat \<Rightarrow> exa_endpoint" where
  "ep_at m i = \<lparr>local_addr = le32_at m i, peer_addr = le32_at m (i + 4), local_port = le16_at m (i + 8), peer_port = le16_at m (i + 10)\<rparr>"

definition ts_bytes :: "exa_timestamp \<times> exa_timestamp \<Rightarrow> bytes" where
  "ts_bytes ts = le32_bytes (ts_sec (fst ts)) @ le32_bytes (ts_nsec (fst ts)) @ le32_bytes (ts_sec (snd ts)) @ le32_bytes (ts_nsec (snd ts))"

definition ts_at :: "(nat \<Rightarrow> u8) \<Rightarrow> nat \<Rightarrow> exa_timestamp \<times> exa_timestamp" where
  "ts_at m i = (\<lparr>ts_sec = le32_at m i, ts_nsec = le32_at m (i + 4)\<rparr>, \<lparr>ts_sec = le32_at m (i + 8), ts_nsec = le32_at m (i + 12)\<rparr>)"

definition exa_udp_queue_write_alloc :: "udp_socket \<Rightarrow> exa_endpoint \<Rightarrow> nat \<Rightarrow> nat option \<times> udp_socket" where
  "exa_udp_queue_write_alloc sock ep max_pkt_len =
     (let reserve_len = exa_udp_queue_entry_size max_pkt_len;
          next_write = unat (udp_next_write sock); next_read = unat (udp_next_read sock);
          put_hdr = (\<lambda>s nw. (Some (nw + 16), s\<lparr>udp_next_write := of_nat nw, udp_buffer := blit (udp_buffer s) (nw + 4) (ep_bytes ep)\<rparr>))
      in if udp_buffer_size sock \<le> sz_add next_write reserve_len
         then (if next_write < next_read \<or> next_read \<le> reserve_len then (None, sock)
               else put_hdr (sock\<lparr>udp_buffer := blit (udp_buffer sock) next_write (le32_bytes 0)\<rparr>) 0)
         else if next_write < next_read \<and> next_read \<le> sz_add next_write reserve_len then (None, sock)
         else put_hdr sock next_write)"

text \<open>\<open>None\<close> is the failed assertion.\<close>

definition exa_udp_queue_write_commit ::
    "udp_socket \<Rightarrow> nat \<Rightarrow> (exa_timestamp \<times> exa_timestamp) option \<Rightarrow> udp_socket option" where
  "exa_udp_queue_write_commit sock data_len ts =
     (let nw = unat (udp_next_write sock); es = exa_udp_queue_entry_size data_len;
          buf = blit (udp_buffer sock) nw (le32_bytes (of_nat data_len));
          buf1 = (case ts of None \<Rightarrow> buf | Some t \<Rightarrow> blit buf (nw + es - 16) (ts_bytes t));
          next_write = of_nat (nw + es) :: u32
      in if unat next_write < udp_buffer_size sock then Some (sock\<lparr>udp_buffer := buf1, udp_next_write := next_write\<rparr>) else None)"

text \<open>The read position after a possible wrap.\<close>

definition udp_wrap :: "udp_socket \<Rightarrow> u32" where
  "udp_wrap sock = (if udp_next_write sock < udp_next_read sock \<and> le32_at ((!) (udp_buffer sock)) (unat (udp_next_read sock)) = 0
     then 0 else udp_next_read sock)"

definition exa_udp_queue_ready :: "udp_socket \<Rightarrow> bool" where
  "exa_udp_queue_ready sock \<longleftrightarrow> udp_wrap sock \<noteq> udp_next_write sock"

text \<open>The first packet: its endpoint, the offset and length of its data, and its timestamps.\<close>

definition exa_udp_queue_read_begin ::
    "udp_socket \<Rightarrow> (exa_endpoint \<times> nat \<times> nat \<times> exa_timestamp \<times> exa_timestamp) option \<times> udp_socket" where
  "exa_udp_queue_read_begin sock =
     (let next_read = udp_wrap sock; sock1 = sock\<lparr>udp_next_read := next_read\<rparr>; r = unat next_read; m = (!) (udp_buffer sock)
      in if next_read = udp_next_write sock then (None, sock1)
         else let len = unat (le32_at m r)
              in (Some (ep_at m (r + 4), r + 16, len, ts_at m (r + exa_udp_queue_entry_size len - 16)), sock1))"

definition exa_udp_queue_read_end :: "udp_socket \<Rightarrow> udp_socket" where
  "exa_udp_queue_read_end sock =
     (let r = unat (udp_next_read sock)
      in sock\<lparr>udp_next_read := of_nat (r + exa_udp_queue_entry_size (unat (le32_at ((!) (udp_buffer sock)) r)))\<rparr>)"

definition exa_notify_udp_read_update :: "udp_socket \<Rightarrow> udp_socket" where
  "exa_notify_udp_read_update sock = sock\<lparr>udp_rx_ready := exa_udp_queue_ready sock\<rparr>"

subsection \<open>Reception of a packet\<close>

record udp_packet =
  up_ep :: exa_endpoint
  up_len :: nat
  up_init :: bytes
  up_csum :: u64
  up_sum :: u16
  up_more :: bool
  up_calls :: "rcall list"
  up_valid :: bool
  up_ts :: "(exa_timestamp \<times> exa_timestamp) option"

text \<open>After the socket has been found, up to the release of its lock; the last component is
  \<open>more_chunks\<close>.\<close>

definition udp_receive_packet :: "udp_socket \<Rightarrow> udp_packet \<Rightarrow> rx_status \<times> udp_socket \<times> bool" where
  "udp_receive_packet sock p =
     (case exa_udp_queue_write_alloc sock (up_ep p) (up_len p) of
        (None, sock1) \<Rightarrow> (Rx_dropped, exa_notify_udp_read_update sock1, up_more p)
      | (Some data, sock1) \<Rightarrow>
          let (st, io) = exanic_poll_recv_body 0 data (up_len p) 0 0 (up_init p)
                \<lparr>io_calls = up_calls p, io_csum = up_csum p, io_more = up_more p, io_ring = udp_buffer sock1\<rparr>;
              sock2 = sock1\<lparr>udp_buffer := io_ring io\<rparr>
          in case st of
               Waiting \<Rightarrow> (Rx_waiting, sock2, io_more io)
             | Failed \<Rightarrow> (Rx_aborted, exa_notify_udp_read_update sock2, io_more io)
             | Done _ \<Rightarrow>
                 if exa_udp_validate_csum (up_sum p) (io_csum io) \<and> up_valid p
                 then (case exa_udp_queue_write_commit sock2 (up_len p) (up_ts p) of
                         None \<Rightarrow> (Rx_assert, sock2, io_more io)
                       | Some sock3 \<Rightarrow> (Rx_committed, exa_notify_udp_read_update sock3, io_more io))
                 else (Rx_aborted, exa_notify_udp_read_update sock2, io_more io))"

subsection \<open>Receive calls\<close>

text \<open>\<open>ep0\<close> is what the endpoint on the caller's stack holds before the call.\<close>

definition recv_block_udp_ready ::
    "exa_endpoint \<Rightarrow> udp_socket \<Rightarrow> (exa_endpoint \<times> nat option \<times> nat \<times> (exa_timestamp \<times> exa_timestamp) option) option \<times> udp_socket" where
  "recv_block_udp_ready ep0 sock =
     (case exa_udp_queue_read_begin sock of
        (Some (ep, pkt, len, ts), sock1) \<Rightarrow> (Some (ep, Some pkt, len, Some ts), sock1)
      | (None, sock1) \<Rightarrow> (if udp_rx_shutdown sock1 then Some (ep0, None, 0, None) else None, sock1))"

datatype udp_recv = Recv_einval | Recv_wait | Recv_data bytes exa_endpoint nat

definition recvfrom_udp :: "exa_endpoint \<Rightarrow> nat \<Rightarrow> bool \<Rightarrow> bool \<Rightarrow> udp_socket \<Rightarrow> udp_recv \<times> udp_socket" where
  "recvfrom_udp ep0 len peek trunc sock =
     (if \<not> udp_bound sock then (Recv_einval, sock)
      else case recv_block_udp_ready ep0 sock of
        (None, sock1) \<Rightarrow> (Recv_wait, sock1)
      | (Some (ep, pkt, pkt_len, _), sock1) \<Rightarrow>
          let data_len = (if pkt_len < len then pkt_len else len);
              buf = (case pkt of None \<Rightarrow> [] | Some i \<Rightarrow> take data_len (drop i (udp_buffer sock1)));
              sock2 = (if peek then sock1 else exa_notify_udp_read_update (exa_udp_queue_read_end sock1))
          in (Recv_data buf ep (if trunc then pkt_len else data_len), sock2))"

definition read_udp :: "exa_endpoint \<Rightarrow> nat \<Rightarrow> udp_socket \<Rightarrow> (bytes option) \<times> udp_socket" where
  "read_udp ep0 count sock =
     (case recv_block_udp_ready ep0 sock of
        (None, sock1) \<Rightarrow> (None, sock1)
      | (Some (ep, pkt, pkt_len, _), sock1) \<Rightarrow>
          let data_len = (if pkt_len < count then pkt_len else count);
              buf = (case pkt of None \<Rightarrow> [] | Some i \<Rightarrow> take data_len (drop i (udp_buffer sock1)))
          in (Some buf, exa_notify_udp_read_update (exa_udp_queue_read_end sock1)))"

end
