(* ===== verification/UdpFifo.thy ===== *)
theory UdpFifo
  imports UdpQueue HdrProps TcpCopy
begin

text \<open>
  The receive queue of a UDP socket is a FIFO of datagrams: what the packets put in comes out in the
  same order, whole, whatever wraps, failed packets and short reads happen in between.
\<close>

subsection \<open>An interface for queues\<close>

text \<open>A queue with a state, an operation that puts something in or refuses, and one that takes the first
  element out or only shows it; \<open>view\<close> is what the caller gets of an element.\<close>

locale fifo =
  fixes rep :: "'s \<Rightarrow> 'a list \<Rightarrow> bool"
    and offer :: "'s \<Rightarrow> 'i \<Rightarrow> 'a option \<times> 's" and okay :: "'i \<Rightarrow> bool"
    and fetch :: "'s \<Rightarrow> 'o \<Rightarrow> 'v option \<times> 's" and takes :: "'o \<Rightarrow> bool" and view :: "'o \<Rightarrow> 'a \<Rightarrow> 'v"
  assumes offer_rep: "rep s Q \<Longrightarrow> okay i \<Longrightarrow> offer s i = (r, s') \<Longrightarrow> rep s' (Q @ (case r of None \<Rightarrow> [] | Some x \<Rightarrow> [x]))"
    and fetch_empty: "rep s [] \<Longrightarrow> fetch s q = (v, s') \<Longrightarrow> v = None \<and> rep s' []"
    and fetch_first: "rep s (x # Q) \<Longrightarrow> fetch s q = (v, s') \<Longrightarrow> v = Some (view q x) \<and> rep s' (if takes q then Q else x # Q)"

text \<open>A run of such a queue: what was put in, and what was taken out, each with the request that took it.\<close>

fun fifo_run :: "('s \<Rightarrow> 'i \<Rightarrow> 'a option \<times> 's) \<Rightarrow> ('s \<Rightarrow> 'o \<Rightarrow> 'v option \<times> 's) \<Rightarrow> ('o \<Rightarrow> bool) \<Rightarrow> ('i + 'o) list \<Rightarrow> 's \<Rightarrow>
    's \<times> 'a list \<times> ('o \<times> 'v) list" where
  "fifo_run offer fetch takes [] s = (s, [], [])"
| "fifo_run offer fetch takes (Inl i # ops) s =
     (let (r, s1) = offer s i; (s2, ins, outs) = fifo_run offer fetch takes ops s1
      in (s2, (case r of None \<Rightarrow> ins | Some x \<Rightarrow> x # ins), outs))"
| "fifo_run offer fetch takes (Inr q # ops) s =
     (let (r, s1) = fetch s q; (s2, ins, outs) = fifo_run offer fetch takes ops s1
      in (s2, ins, (case r of None \<Rightarrow> outs | Some v \<Rightarrow> if takes q then (q, v) # outs else outs)))"

context fifo
begin

lemma run_order:
  "rep s Q \<Longrightarrow> \<forall>i. Inl i \<in> set ops \<longrightarrow> okay i \<Longrightarrow> fifo_run offer fetch takes ops s = (s', ins, outs) \<Longrightarrow>
    length outs \<le> length (Q @ ins) \<and> rep s' (drop (length outs) (Q @ ins)) \<and>
    (\<forall>k<length outs. snd (outs ! k) = view (fst (outs ! k)) ((Q @ ins) ! k))"
proof (induction ops arbitrary: s Q s' ins outs)
  case (Cons op ops)
  show ?case
  proof (cases op)
    case (Inl i)
    obtain r s1 where p: "offer s i = (r, s1)" by force
    obtain ins1 where run: "fifo_run offer fetch takes ops s1 = (s', ins1, outs)" and ins: "ins = (case r of None \<Rightarrow> ins1 | Some x \<Rightarrow> x # ins1)"
      using Cons.prems(3) Inl p by (auto simp: Let_def split: prod.splits)
    have "rep s1 (Q @ (case r of None \<Rightarrow> [] | Some x \<Rightarrow> [x]))" using offer_rep [OF Cons.prems(1) _ p] Cons.prems(2) Inl by simp
    from Cons.IH [OF this _ run] Cons.prems(2)
    have IH: "length outs \<le> length ((Q @ (case r of None \<Rightarrow> [] | Some x \<Rightarrow> [x])) @ ins1) \<and>
        rep s' (drop (length outs) ((Q @ (case r of None \<Rightarrow> [] | Some x \<Rightarrow> [x])) @ ins1)) \<and>
        (\<forall>k<length outs. snd (outs ! k) = view (fst (outs ! k)) (((Q @ (case r of None \<Rightarrow> [] | Some x \<Rightarrow> [x])) @ ins1) ! k))"
      by (metis list.set_intros(2))
    have eq: "(Q @ (case r of None \<Rightarrow> [] | Some x \<Rightarrow> [x])) @ ins1 = Q @ ins" by (simp add: ins split: option.splits)
    show ?thesis by (rule IH [unfolded eq])
  next
    case (Inr q)
    obtain r s1 where g: "fetch s q = (r, s1)" by force
    obtain outs1 where run: "fifo_run offer fetch takes ops s1 = (s', ins, outs1)"
      and outs: "outs = (case r of None \<Rightarrow> outs1 | Some v \<Rightarrow> if takes q then (q, v) # outs1 else outs1)"
      using Cons.prems(3) Inr g by (auto simp: Let_def split: prod.splits)
    have ok: "\<forall>i. Inl i \<in> set ops \<longrightarrow> okay i" using Cons.prems(2) by simp
    show ?thesis
    proof (cases Q)
      case Nil
      then have "r = None" "rep s1 []" using fetch_empty g Cons.prems(1) by blast+
      then show ?thesis using Cons.IH [OF _ ok run] Nil outs by force
    next
      case (Cons x Q')
      then have r: "r = Some (view q x)" "rep s1 (if takes q then Q' else x # Q')" using fetch_first g Cons.prems(1) by blast+
      show ?thesis
      proof (cases "takes q")
        case True
        then show ?thesis using Cons.IH [OF _ ok run] Cons outs r by (auto simp: nth_Cons split: nat.splits)
      next
        case False
        then show ?thesis using Cons.IH [OF _ ok run, of "x # Q'"] Cons outs r by simp
      qed
    qed
  qed
qed simp

end

subsection \<open>Entries\<close>

abbreviation "entry_size \<equiv> exa_udp_queue_entry_size"

lemma entry_size:
  assumes "n < 2 ^ 63"
  shows "n + 32 \<le> entry_size n" "entry_size n \<le> n + 95" "64 dvd entry_size n" "0 < entry_size n"
proof -
  have eq: "entry_size n = (n + 95) div 64 * 64" using assms by (simp add: exa_udp_queue_entry_size_def sz_add_small)
  have "n + 95 = (n + 95) div 64 * 64 + (n + 95) mod 64" "(n + 95) mod 64 < 64" by simp_all
  then show "n + 32 \<le> entry_size n" "entry_size n \<le> n + 95" "0 < entry_size n" unfolding eq by linarith+
  show "64 dvd entry_size n" unfolding eq by simp
qed

definition entry_hdr :: "exa_endpoint \<Rightarrow> nat \<Rightarrow> bytes" where
  "entry_hdr ep n = le32_bytes (of_nat n) @ ep_bytes ep"

definition entry_at :: "bytes \<Rightarrow> nat \<Rightarrow> exa_endpoint \<times> bytes \<Rightarrow> bool" where
  "entry_at buf a e \<longleftrightarrow> bytes_at ((!) buf) a (entry_hdr (fst e) (length (snd e))) \<and> bytes_at ((!) buf) (a + 16) (snd e)"

primrec chain :: "bytes \<Rightarrow> nat \<Rightarrow> nat \<Rightarrow> (exa_endpoint \<times> bytes) list \<Rightarrow> bool" where
  "chain buf a b [] = (a = b)"
| "chain buf a b (e # Q) = (entry_at buf a e \<and> chain buf (a + entry_size (length (snd e))) b Q)"

abbreviation entry_ok :: "exa_endpoint \<times> bytes \<Rightarrow> bool" where
  "entry_ok e \<equiv> 0 < length (snd e) \<and> length (snd e) < 65536"

lemma length_ep_bytes [simp]: "length (ep_bytes ep) = 12"
  by (simp add: ep_bytes_def)

lemma length_entry_hdr [simp]: "length (entry_hdr ep n) = 16"
  by (simp add: entry_hdr_def)

lemma ep_at_bytes: "bytes_at m i (ep_bytes ep) \<Longrightarrow> ep_at m i = ep"
proof -
  assume "bytes_at m i (ep_bytes ep)"
  then have "bytes_at m i (le32_bytes (local_addr ep))" "bytes_at m (i + 4) (le32_bytes (peer_addr ep))"
      "bytes_at m (i + 8) (le16_bytes (local_port ep))" "bytes_at m (i + 10) (le16_bytes (peer_port ep))"
    by (simp_all add: ep_bytes_def bytes_at_append add.commute)
  then show ?thesis unfolding ep_at_def by (simp only: le32_at_bytes le16_at_bytes) simp
qed

lemma entry_at_fields:
  assumes "entry_at buf a e" "entry_ok e"
  shows "unat (le32_at ((!) buf) a) = length (snd e)" "ep_at ((!) buf) (a + 4) = fst e"
proof -
  have "bytes_at ((!) buf) a (le32_bytes (of_nat (length (snd e))))" "bytes_at ((!) buf) (a + 4) (ep_bytes (fst e))"
    using assms(1) by (simp_all add: entry_at_def entry_hdr_def bytes_at_append)
  then show "unat (le32_at ((!) buf) a) = length (snd e)" "ep_at ((!) buf) (a + 4) = fst e"
    using assms(2) by (simp_all add: le32_at_bytes ep_at_bytes unat_of_nat)
qed

lemma chain_le: "chain buf a b Q \<Longrightarrow> a \<le> b"
  by (induction Q arbitrary: a) (auto dest: order_trans [OF le_add1])

lemma chain_append: "chain buf a b (Q1 @ Q2) \<longleftrightarrow> (\<exists>c. chain buf a c Q1 \<and> chain buf c b Q2)"
  by (induction Q1 arbitrary: a) auto

lemma chain_aligned: "chain buf a b Q \<Longrightarrow> 64 dvd a \<Longrightarrow> \<forall>e\<in>set Q. entry_ok e \<Longrightarrow> 64 dvd b"
proof (induction Q arbitrary: a)
  case (Cons e Q)
  then have "64 dvd a + entry_size (length (snd e))" by (intro dvd_add entry_size) simp_all
  then show ?case using Cons.IH Cons.prems by auto
qed simp

lemma bytes_at_blit: "base + length p \<le> length r \<Longrightarrow> bytes_at ((!) (blit r base p)) base p"
  using slice_map [of base "length p" "blit r base p"] slice_blit [of base p r] by (simp add: bytes_at_def)

lemma bytes_at_same:
  "unchanged_outside A r r' \<Longrightarrow> A \<inter> {b..<b + length bs} = {} \<Longrightarrow> b + length bs \<le> length r \<Longrightarrow>
    bytes_at ((!) r') b bs = bytes_at ((!) r) b bs"
proof -
  assume a: "unchanged_outside A r r'" "A \<inter> {b..<b + length bs} = {}" "b + length bs \<le> length r"
  then have "map ((!) r') [b..<b + length bs] = map ((!) r) [b..<b + length bs]"
    by (intro map_cong refl) (simp add: unchanged_outside_def set_eq_iff, metis atLeastLessThan_iff less_le_trans)
  then show ?thesis unfolding bytes_at_def by (simp only:)
qed

lemma chain_same:
  assumes "unchanged_outside A r r'" "A \<inter> {a..<b} = {}" "b \<le> length r" "\<forall>e\<in>set Q. entry_ok e" "chain r a b Q"
  shows "chain r' a b Q"
  using assms(2,4,5)
proof (induction Q arbitrary: a)
  case (Cons e Q)
  have s: "length (snd e) + 32 \<le> entry_size (length (snd e))" using Cons.prems(2) by (intro entry_size) auto
  have b: "a + entry_size (length (snd e)) \<le> b" using Cons.prems(3) chain_le by auto
  have "A \<inter> {a..<a + length (entry_hdr (fst e) (length (snd e)))} = {}" "A \<inter> {a + 16..<a + 16 + length (snd e)} = {}"
    using Cons.prems(1) s b by force+
  then have "entry_at r' a e"
    using Cons.prems(3) s b assms(3) bytes_at_same [OF assms(1)] by (simp add: entry_at_def)
  moreover have "A \<inter> {a + entry_size (length (snd e))..<b} = {}" using Cons.prems(1) by force
  ultimately show ?case using Cons.IH Cons.prems(2,3) by simp
qed simp

subsection \<open>The layout of the queue\<close>

text \<open>The entries lie between the read and the write position, or, when the writer has wrapped, up to a mark
  and from the start of the buffer.\<close>

definition udp_layout :: "bytes \<Rightarrow> nat \<Rightarrow> nat \<Rightarrow> (exa_endpoint \<times> bytes) list \<Rightarrow> bool" where
  "udp_layout buf r w Q \<longleftrightarrow> (r \<le> w \<and> chain buf r w Q) \<or>
     (w < r \<and> (\<exists>m Q1 Q2. Q = Q1 @ Q2 \<and> m < length buf \<and> 64 dvd m \<and> bytes_at ((!) buf) m (le32_bytes 0) \<and> chain buf r m Q1 \<and> chain buf 0 w Q2))"

definition udp_rep :: "udp_socket \<Rightarrow> (exa_endpoint \<times> bytes) list \<Rightarrow> bool" where
  "udp_rep s Q \<longleftrightarrow> 64 dvd udp_buffer_size s \<and> udp_buffer_size s < 2 ^ 31 \<and> length (udp_buffer s) = udp_buffer_size s \<and>
     64 dvd unat (udp_next_read s) \<and> 64 dvd unat (udp_next_write s) \<and>
     unat (udp_next_read s) < udp_buffer_size s \<and> unat (udp_next_write s) < udp_buffer_size s \<and>
     (\<forall>e\<in>set Q. entry_ok e) \<and> udp_layout (udp_buffer s) (unat (udp_next_read s)) (unat (udp_next_write s)) Q"

definition occupied :: "nat \<Rightarrow> nat \<Rightarrow> nat \<Rightarrow> nat set" where
  "occupied r w N = (if r \<le> w then {r..<w} else {0..<w} \<union> {r..<N})"

lemma aligned_room: "64 dvd m \<Longrightarrow> 64 dvd N \<Longrightarrow> m < N \<Longrightarrow> m + 64 \<le> (N :: nat)"
  by (elim dvdE) simp

lemma layout_same:
  assumes "udp_layout buf r w Q" "unchanged_outside A buf b" "A \<inter> occupied r w (length buf) = {}" "\<forall>e\<in>set Q. entry_ok e"
    and "64 dvd length buf" "w \<le> length buf"
  shows "udp_layout b r w Q"
proof (cases "r \<le> w")
  case True
  then have "A \<inter> {r..<w} = {}" "chain buf r w Q" using assms(1,3) by (auto simp: occupied_def udp_layout_def)
  then show ?thesis using chain_same [OF assms(2)] assms(4,6) True by (simp add: udp_layout_def)
next
  case False
  then obtain m Q1 Q2 where Q: "Q = Q1 @ Q2" "m < length buf" "64 dvd m" "bytes_at ((!) buf) m (le32_bytes 0)" "chain buf r m Q1" "chain buf 0 w Q2"
    using assms(1) by (auto simp: udp_layout_def)
  have m: "r \<le> m" "m + 64 \<le> length buf" using chain_le [OF Q(5)] aligned_room [OF Q(3) assms(5) Q(2)] by simp_all
  have A: "A \<inter> {0..<w} = {}" "A \<inter> {r..<length buf} = {}" using assms(3) False by (auto simp: occupied_def)
  then have "A \<inter> {m..<m + length (le32_bytes 0)} = {}" "A \<inter> {r..<m} = {}" using m by force+
  then have "bytes_at ((!) b) m (le32_bytes 0)" "chain b r m Q1" "chain b 0 w Q2"
    using Q m A(1) assms(4,6) bytes_at_same [OF assms(2)] chain_same [OF assms(2)] by simp_all
  moreover have "length b = length buf" using assms(2) by (simp add: unchanged_outside_def)
  ultimately show ?thesis using False Q by (auto simp: udp_layout_def)
qed

text \<open>There is room for an entry of \<open>n\<close> bytes at the write position.\<close>

definition udp_room :: "udp_socket \<Rightarrow> nat \<Rightarrow> bool" where
  "udp_room s n \<longleftrightarrow> unat (udp_next_write s) + entry_size n < udp_buffer_size s \<and>
     (unat (udp_next_read s) \<le> unat (udp_next_write s) \<or> unat (udp_next_write s) + entry_size n < unat (udp_next_read s))"

lemma room_free:
  "udp_room s n \<Longrightarrow> {unat (udp_next_write s)..<unat (udp_next_write s) + entry_size n} \<inter>
    occupied (unat (udp_next_read s)) (unat (udp_next_write s)) N = {}"
  by (auto simp: udp_room_def occupied_def)

lemma rep_write:
  assumes "udp_rep s Q" "udp_room s n" "unchanged_outside A (udp_buffer s) b"
    "A \<subseteq> {unat (udp_next_write s)..<unat (udp_next_write s) + entry_size n}"
  shows "udp_rep (s\<lparr>udp_buffer := b\<rparr>) Q"
proof -
  have "A \<inter> occupied (unat (udp_next_read s)) (unat (udp_next_write s)) (length (udp_buffer s)) = {}"
    using room_free [OF assms(2)] assms(4) by blast
  then have "udp_layout b (unat (udp_next_read s)) (unat (udp_next_write s)) Q"
    using assms(1) by (intro layout_same [OF _ assms(3)]) (simp_all add: udp_rep_def)
  moreover have "length b = length (udp_buffer s)" using assms(3) by (simp add: unchanged_outside_def)
  ultimately show ?thesis using assms(1) by (simp add: udp_rep_def)
qed

lemma blit_unchanged: "i + length p \<le> length buf \<Longrightarrow> unchanged_outside {i..<i + length p} buf (blit buf i p)"
  by (rule unchanged_outside_blit)

text \<open>The mark of the wrap.\<close>

lemma rep_wrapped:
  assumes "udp_rep s Q" "unat (udp_next_read s) \<le> unat (udp_next_write s)" "0 < unat (udp_next_read s)"
  shows "udp_rep (s\<lparr>udp_buffer := blit (udp_buffer s) (unat (udp_next_write s)) (le32_bytes 0), udp_next_write := 0\<rparr>) Q"
proof -
  let ?r = "unat (udp_next_read s)" and ?w = "unat (udp_next_write s)"
  let ?b = "blit (udp_buffer s) ?w (le32_bytes 0)"
  have R: "64 dvd ?w" "64 dvd length (udp_buffer s)" "?w < length (udp_buffer s)" "\<forall>e\<in>set Q. entry_ok e" "chain (udp_buffer s) ?r ?w Q"
    using assms(1,2) by (auto simp: udp_rep_def udp_layout_def)
  have w: "?w + length (le32_bytes 0) \<le> length (udp_buffer s)" using aligned_room [OF R(1-3)] by simp
  have "chain ?b ?r ?w Q" using R w by (intro chain_same [OF unchanged_outside_blit [OF w]]) auto
  then have "udp_layout ?b ?r 0 Q"
    using assms(3) R(1,3) w bytes_at_blit [OF w] unfolding udp_layout_def
    by (intro disjI2 conjI exI [of _ ?w] exI [of _ Q] exI [of _ "[]"]) simp_all
  then show ?thesis using assms(1) w by (simp add: udp_rep_def)
qed

lemma unat_small: "n < 2 ^ 31 \<Longrightarrow> unat (of_nat n :: u32) = n"
  by (simp add: unat_of_nat)

lemma alloc_rep:
  assumes rep: "udp_rep s Q" and n: "n < 65536" and alloc: "exa_udp_queue_write_alloc s ep n = (res, s')"
  shows "case res of None \<Rightarrow> s' = s
    | Some p \<Rightarrow> p = unat (udp_next_write s') + 16 \<and> udp_rep s' Q \<and> udp_room s' n \<and>
        bytes_at ((!) (udp_buffer s')) (unat (udp_next_write s') + 4) (ep_bytes ep) \<and>
        udp_buffer_size s' = udp_buffer_size s \<and> udp_next_read s' = udp_next_read s \<and>
        udp_rx_shutdown s' = udp_rx_shutdown s \<and> udp_bound s' = udp_bound s \<and> udp_rx_ready s' = udp_rx_ready s"
proof -
  let ?r = "unat (udp_next_read s)" and ?w = "unat (udp_next_write s)" and ?N = "udp_buffer_size s" and ?es = "entry_size n"
  define put where "put t nw = (Some (nw + 16), t\<lparr>udp_next_write := of_nat nw, udp_buffer := blit (udp_buffer t) (nw + 4) (ep_bytes ep)\<rparr>)"
    for t :: udp_socket and nw :: nat
  have B: "?r < ?N" "?w < ?N" "?N < 2 ^ 31" using rep by (simp_all add: udp_rep_def)
  have es: "n + 32 \<le> ?es" "?es \<le> n + 95" using entry_size [of n] n by simp_all
  have add: "sz_add ?w ?es = ?w + ?es" using es n B by (simp add: sz_add_small)
  have fin: ?thesis if t: "udp_rep t Q" "udp_room t n" "put t (unat (udp_next_write t)) = (res, s')"
      "udp_buffer_size t = ?N" "udp_next_read t = udp_next_read s" "udp_rx_shutdown t = udp_rx_shutdown s"
      "udp_bound t = udp_bound s" "udp_rx_ready t = udp_rx_ready s" for t
  proof -
    let ?u = "unat (udp_next_write t)"
    have fit: "?u + 4 + length (ep_bytes ep) \<le> length (udp_buffer t)" using t(1,2) es by (simp add: udp_rep_def udp_room_def)
    have s': "s' = t\<lparr>udp_buffer := blit (udp_buffer t) (?u + 4) (ep_bytes ep)\<rparr>" "res = Some (?u + 16)" using t(3) by (auto simp: put_def)
    have "{?u + 4..<?u + 4 + length (ep_bytes ep)} \<subseteq> {?u..<?u + ?es}" using es by auto
    from rep_write [OF t(1,2) unchanged_outside_blit [OF fit] this] bytes_at_blit [OF fit] t(2,4-) show ?thesis
      by (simp add: s' udp_room_def)
  qed
  show ?thesis
  proof (cases "?N \<le> ?w + ?es")
    case True
    show ?thesis
    proof (cases "?w < ?r \<or> ?r \<le> ?es")
      case False
      let ?t = "s\<lparr>udp_buffer := blit (udp_buffer s) ?w (le32_bytes 0), udp_next_write := 0\<rparr>"
      have "put ?t 0 = (res, s')"
        using alloc True False by (simp add: exa_udp_queue_write_alloc_def Let_def add put_def)
      moreover have "udp_rep ?t Q" using rep False by (intro rep_wrapped) auto
      moreover have "udp_room ?t n" using False B by (auto simp: udp_room_def)
      ultimately show ?thesis by (intro fin [of ?t]) simp_all
    qed (use alloc True in \<open>auto simp: exa_udp_queue_write_alloc_def Let_def add\<close>)
  next
    case False
    show ?thesis
    proof (cases "?w < ?r \<and> ?r \<le> ?w + ?es")
      case True
      then show ?thesis using alloc False by (auto simp: exa_udp_queue_write_alloc_def Let_def add)
    next
      case ok: False
      have "put s ?w = (res, s')" using alloc False ok by (simp add: exa_udp_queue_write_alloc_def Let_def add put_def)
      moreover have "udp_room s n" using False ok by (auto simp: udp_room_def)
      ultimately show ?thesis using rep by (intro fin [of s]) simp_all
    qed
  qed
qed

lemma layout_extend:
  assumes "udp_layout b r w Q" "entry_at b w e" "r \<le> w \<or> w + entry_size (length (snd e)) < r"
  shows "udp_layout b r (w + entry_size (length (snd e))) (Q @ [e])"
proof (cases "r \<le> w")
  case True
  then show ?thesis using assms by (auto simp: udp_layout_def chain_append)
next
  case False
  then obtain m Q1 Q2 where Q: "Q = Q1 @ Q2" "m < length b" "64 dvd m" "bytes_at ((!) b) m (le32_bytes 0)" "chain b r m Q1" "chain b 0 w Q2"
    using assms(1) by (auto simp: udp_layout_def)
  then have "chain b 0 (w + entry_size (length (snd e))) (Q2 @ [e])" using assms(2) by (auto simp: chain_append)
  then show ?thesis using assms(3) False Q unfolding udp_layout_def
    by (intro disjI2 conjI exI [of _ m] exI [of _ Q1] exI [of _ "Q2 @ [e]"]) simp_all
qed

lemma commit_rep:
  assumes rep: "udp_rep s Q" and room: "udp_room s n" and n: "0 < n" "n < 65536" "length d = n"
    and ep: "bytes_at ((!) (udp_buffer s)) (unat (udp_next_write s) + 4) (ep_bytes ep)"
    and d: "bytes_at ((!) (udp_buffer s)) (unat (udp_next_write s) + 16) d"
  shows "\<exists>s'. exa_udp_queue_write_commit s n ts = Some s' \<and> udp_rep s' (Q @ [(ep, d)]) \<and>
    udp_rx_shutdown s' = udp_rx_shutdown s \<and> udp_bound s' = udp_bound s"
proof -
  let ?w = "unat (udp_next_write s)" and ?N = "udp_buffer_size s" and ?es = "entry_size n" and ?b = "udp_buffer s"
  let ?l = "le32_bytes (of_nat n)"
  define b1 where "b1 = blit ?b ?w ?l"
  define b2 where "b2 = (case ts of None \<Rightarrow> b1 | Some t \<Rightarrow> blit b1 (?w + ?es - 16) (ts_bytes t))"
  have es: "n + 32 \<le> ?es" "64 dvd ?es" using entry_size [of n] n by simp_all
  have B: "?w + ?es < ?N" "length ?b = ?N" "?N < 2 ^ 31" "64 dvd ?w" using rep room by (simp_all add: udp_rep_def udp_room_def)
  have l: "?w + length ?l \<le> length ?b" using B es by simp
  have len1: "length b1 = ?N" using B l by (simp add: b1_def)
  have u1: "unchanged_outside {?w..<?w + 4} ?b b1" using unchanged_outside_blit [OF l] by (simp add: b1_def)
  have lts: "length (ts_bytes t) = 16" for t by (simp add: ts_bytes_def)
  have u2: "unchanged_outside {?w + ?es - 16..<?w + ?es} b1 b2"
  proof (cases ts)
    case (Some t)
    have "?w + ?es - 16 + length (ts_bytes t) \<le> length b1" using B es by (simp add: lts len1)
    from unchanged_outside_blit [OF this] show ?thesis using es by (simp add: b2_def Some lts)
  qed (simp add: b2_def)
  have "{?w..<?w + 4} \<union> {?w + ?es - 16..<?w + ?es} \<subseteq> {?w..<?w + ?es}" using es by auto
  moreover have "unchanged_outside ({?w..<?w + 4} \<union> {?w + ?es - 16..<?w + ?es}) ?b b2"
    using u1 u2 by (meson Un_upper1 Un_upper2 unchanged_outside_mono unchanged_outside_trans)
  ultimately have rep2: "udp_rep (s\<lparr>udp_buffer := b2\<rparr>) Q" using rep_write [OF rep room] by blast
  have keep: "bytes_at ((!) b2) i bs" if "bytes_at ((!) b1) i bs" "?w \<le> i" "i + length bs + 16 \<le> ?w + ?es" for i bs
    using that bytes_at_same [OF u2, of i bs] len1 B by (simp add: disjoint_iff)
  have keep1: "bytes_at ((!) b1) i bs" if "bytes_at ((!) ?b) i bs" "?w + 4 \<le> i" "i + length bs + 16 \<le> ?w + ?es" for i bs
    using that bytes_at_same [OF u1, of i bs] B by (simp add: disjoint_iff)
  have "bytes_at ((!) b2) ?w ?l" using bytes_at_blit [OF l] es by (intro keep) (simp_all add: b1_def)
  moreover have "bytes_at ((!) b2) (?w + 4) (ep_bytes ep)" "bytes_at ((!) b2) (?w + 16) d"
    using ep d es n by (intro keep keep1; simp)+
  ultimately have "entry_at b2 ?w (ep, d)" using n by (simp add: entry_at_def entry_hdr_def bytes_at_append)
  then have "udp_layout b2 (unat (udp_next_read s)) (?w + ?es) (Q @ [(ep, d)])"
    using layout_extend [of b2 "unat (udp_next_read s)" ?w Q "(ep, d)"] rep2 room n by (simp add: udp_rep_def udp_room_def)
  moreover define nw :: u32 where "nw = of_nat (?w + ?es)"
  have nw: "unat nw = ?w + ?es" unfolding nw_def using B by (intro unat_small) simp
  moreover have "64 dvd ?w + ?es" "d \<noteq> []" using B es n by auto
  ultimately have "udp_rep (s\<lparr>udp_buffer := b2, udp_next_write := nw\<rparr>) (Q @ [(ep, d)])"
    using rep2 B n by (simp add: udp_rep_def nw)
  moreover have "exa_udp_queue_write_commit s n ts = Some (s\<lparr>udp_buffer := b2, udp_next_write := nw\<rparr>)"
    unfolding exa_udp_queue_write_commit_def Let_def nw_def [symmetric] nw b2_def b1_def using B by simp
  ultimately show ?thesis by simp
qed

text \<open>Reading.\<close>

lemma wrap_rep:
  assumes rep: "udp_rep s Q"
  defines "s1 \<equiv> s\<lparr>udp_next_read := udp_wrap s\<rparr>"
  shows "udp_rep s1 Q" "exa_udp_queue_ready s \<longleftrightarrow> Q \<noteq> []"
    "Q = e # Q' \<Longrightarrow> entry_at (udp_buffer s) (unat (udp_wrap s)) e \<and> udp_rep (exa_udp_queue_read_end s1) Q' \<and>
       unat (udp_wrap s) + entry_size (length (snd e)) < length (udp_buffer s)"
proof -
  let ?r = "unat (udp_next_read s)" and ?w = "unat (udp_next_write s)" and ?b = "udp_buffer s" and ?r1 = "unat (udp_wrap s)"
  have ok: "\<forall>e\<in>set Q. entry_ok e" using rep by (simp add: udp_rep_def)
  have lt: "udp_next_write s < udp_next_read s \<longleftrightarrow> ?w < ?r" by (simp add: word_less_nat_alt)
  have step: "(?r1 \<le> ?w \<and> chain ?b ?r1 ?w Q) \<or> (?w < ?r1 \<and> ?r1 = ?r \<and> (\<exists>m Q1 Q2. Q = Q1 @ Q2 \<and> Q1 \<noteq> [] \<and> m < length ?b \<and> 64 dvd m \<and>
      bytes_at ((!) ?b) m (le32_bytes 0) \<and> chain ?b ?r m Q1 \<and> chain ?b 0 ?w Q2))"
  proof (cases "?r \<le> ?w")
    case True
    then have "udp_wrap s = udp_next_read s" by (simp add: udp_wrap_def lt)
    then show ?thesis using rep True by (simp add: udp_rep_def udp_layout_def)
  next
    case False
    then obtain m Q1 Q2 where Q: "Q = Q1 @ Q2" "m < length ?b" "64 dvd m" "bytes_at ((!) ?b) m (le32_bytes 0)" "chain ?b ?r m Q1" "chain ?b 0 ?w Q2"
      using rep by (auto simp: udp_rep_def udp_layout_def)
    show ?thesis
    proof (cases Q1)
      case Nil
      then have "udp_wrap s = 0" using Q(4,5) False by (simp add: udp_wrap_def lt le32_at_bytes)
      then show ?thesis using Q(1,6) Nil by simp
    next
      case (Cons e1 Q3)
      then have "entry_at ?b ?r e1" "entry_ok e1" using Q(1,5) ok by auto
      then have "le32_at ((!) ?b) ?r \<noteq> 0" using entry_at_fields(1) by fastforce
      then have "udp_wrap s = udp_next_read s" by (simp add: udp_wrap_def)
      moreover have "Q1 \<noteq> []" using Cons by simp
      ultimately show ?thesis using Q False by (intro disjI2 conjI exI [of _ m] exI [of _ Q1] exI [of _ Q2]) simp_all
    qed
  qed
  then have lay: "udp_layout ?b ?r1 ?w Q" by (auto simp: udp_layout_def)
  have r1: "64 dvd ?r1" "?r1 < udp_buffer_size s" using rep by (auto simp: udp_wrap_def udp_rep_def)
  show rep1: "udp_rep s1 Q" using rep lay r1 by (simp add: udp_rep_def s1_def)
  show "exa_udp_queue_ready s \<longleftrightarrow> Q \<noteq> []"
  proof (cases Q)
    case Nil
    then have "?r1 = ?w" using step by auto
    then show ?thesis using Nil by (simp add: exa_udp_queue_ready_def unsigned_word_eqI)
  next
    case (Cons e Q')
    have "?r1 \<noteq> ?w"
    proof
      assume eq: "?r1 = ?w"
      then have "chain ?b (?w + entry_size (length (snd e))) ?w Q'" using step Cons by auto
      then show False using chain_le [of ?b "?w + entry_size (length (snd e))" ?w Q'] entry_size(4) [of "length (snd e)"] ok Cons by simp
    qed
    then show ?thesis using Cons by (auto simp: exa_udp_queue_ready_def)
  qed
  assume Q: "Q = e # Q'"
  let ?es = "entry_size (length (snd e))"
  have e: "entry_at ?b ?r1 e" "entry_ok e" and lay2: "udp_layout ?b (?r1 + ?es) ?w Q'" and fit: "?r1 + ?es < length ?b"
  proof -
    show eok: "entry_ok e" using ok Q by simp
    have w: "?w < length ?b" using rep by (simp add: udp_rep_def)
    from step have "entry_at ?b ?r1 e \<and> udp_layout ?b (?r1 + ?es) ?w Q' \<and> ?r1 + ?es < length ?b"
    proof (elim disjE conjE exE)
      assume "?r1 \<le> ?w" "chain ?b ?r1 ?w Q"
      then show ?thesis using Q w chain_le [of ?b "?r1 + ?es" ?w Q'] by (auto simp: udp_layout_def)
    next
      fix m Q1 Q2
      assume a: "?w < ?r1" "?r1 = ?r" "Q = Q1 @ Q2" "Q1 \<noteq> []" "m < length ?b" "64 dvd m" "bytes_at ((!) ?b) m (le32_bytes 0)"
        "chain ?b ?r m Q1" "chain ?b 0 ?w Q2"
      then obtain Q3 where Q1: "Q1 = e # Q3" "Q' = Q3 @ Q2" using Q by (cases Q1) auto
      have "entry_at ?b ?r1 e" "chain ?b (?r1 + ?es) m Q3" using a(2,8) Q1 by simp_all
      then show ?thesis using a Q1 chain_le [of ?b "?r1 + ?es" m Q3] by (auto simp: udp_layout_def)
    qed
    then show "entry_at ?b ?r1 e" "udp_layout ?b (?r1 + ?es) ?w Q'" "?r1 + ?es < length ?b" by simp_all
  qed
  have len: "unat (le32_at ((!) ?b) ?r1) = length (snd e)" by (rule entry_at_fields(1) [OF e])
  define nr :: u32 where "nr = of_nat (?r1 + ?es)"
  have nr: "unat nr = ?r1 + ?es" unfolding nr_def using fit rep by (intro unat_small) (simp add: udp_rep_def)
  have dv: "64 dvd ?r1 + ?es" using r1 e(2) entry_size(3) [of "length (snd e)"] by simp
  have "udp_rep (s1\<lparr>udp_next_read := nr\<rparr>) Q'"
    using rep lay2 fit dv Q by (simp add: udp_rep_def s1_def nr)
  moreover have "exa_udp_queue_read_end s1 = s1\<lparr>udp_next_read := nr\<rparr>"
    by (simp add: exa_udp_queue_read_end_def Let_def s1_def len nr_def)
  ultimately have "udp_rep (exa_udp_queue_read_end s1) Q'" by simp
  then show "entry_at ?b ?r1 e \<and> udp_rep (exa_udp_queue_read_end s1) Q' \<and> ?r1 + ?es < length ?b" using e(1) fit by simp
qed

subsection \<open>The socket\<close>

definition udp_sock_rep :: "udp_socket \<Rightarrow> (exa_endpoint \<times> bytes) list \<Rightarrow> bool" where
  "udp_sock_rep s Q \<longleftrightarrow> udp_rep s Q \<and> \<not> udp_rx_shutdown s \<and> udp_bound s \<and> udp_rx_ready s = (Q \<noteq> [])"

definition up_dgram :: "udp_packet \<Rightarrow> exa_endpoint \<times> bytes" where
  "up_dgram p = (up_ep p, take (up_len p) (up_init p @ calls_bytes (up_calls p)))"

definition up_ok :: "udp_packet \<Rightarrow> bool" where
  "up_ok p \<longleftrightarrow> 0 < up_len p \<and> up_len p < 65536"

lemma notify_rep: "udp_rep s Q \<Longrightarrow> \<not> udp_rx_shutdown s \<Longrightarrow> udp_bound s \<Longrightarrow> udp_sock_rep (exa_notify_udp_read_update s) Q"
  using wrap_rep(2) [of s Q] by (simp add: udp_sock_rep_def exa_notify_udp_read_update_def udp_rep_def)

lemma packet_rep:
  assumes rep: "udp_sock_rep s Q" and ok: "up_ok p" and run: "udp_receive_packet s p = (st, s', mc)"
  shows "udp_sock_rep s' (Q @ (if st = Rx_committed then [up_dgram p] else []))" "st \<noteq> Rx_assert"
proof -
  let ?n = "up_len p"
  have R: "udp_rep s Q" "\<not> udp_rx_shutdown s" "udp_bound s" "udp_rx_ready s = (Q \<noteq> [])" using rep by (simp_all add: udp_sock_rep_def)
  have n: "0 < ?n" "?n < 65536" using ok by (simp_all add: up_ok_def)
  obtain res s1 where al: "exa_udp_queue_write_alloc s (up_ep p) ?n = (res, s1)" by force
  note A = alloc_rep [OF R(1) n(2) al]
  have "udp_sock_rep s' (Q @ (if st = Rx_committed then [up_dgram p] else [])) \<and> st \<noteq> Rx_assert"
  proof (cases res)
    case None
    then show ?thesis using A R run al notify_rep by (auto simp: udp_receive_packet_def)
  next
    case (Some data)
    let ?w = "unat (udp_next_write s1)"
    have A: "data = ?w + 16" "udp_rep s1 Q" "udp_room s1 ?n" "bytes_at ((!) (udp_buffer s1)) (?w + 4) (ep_bytes (up_ep p))"
        "\<not> udp_rx_shutdown s1" "udp_bound s1" "udp_rx_ready s1 = (Q \<noteq> [])" using A R Some by simp_all
    obtain b io where body: "exanic_poll_recv_body 0 data ?n 0 0 (up_init p)
        \<lparr>io_calls = up_calls p, io_csum = up_csum p, io_more = up_more p, io_ring = udp_buffer s1\<rparr> = (b, io)" by force
    have es: "?n + 32 \<le> entry_size ?n" using entry_size [of ?n] n by simp
    have fit: "data + ?n \<le> length (udp_buffer s1)" using A(1-3) es by (simp add: udp_rep_def udp_room_def)
    from recv_body_ring [OF body] fit have ring: "unchanged_outside {data..<data + ?n} (udp_buffer s1) (io_ring io)"
        "b = Done () \<Longrightarrow> ?n \<le> length (up_init p @ calls_bytes (up_calls p)) \<and>
           slice data ?n (io_ring io) = take ?n (up_init p @ calls_bytes (up_calls p))" by simp_all
    define s2 where "s2 = s1\<lparr>udp_buffer := io_ring io\<rparr>"
    have rep2: "udp_rep s2 Q" unfolding s2_def using es A(1) by (intro rep_write [OF A(2,3) ring(1)]) auto
    have s2: "\<not> udp_rx_shutdown s2" "udp_bound s2" "udp_rx_ready s2 = (Q \<noteq> [])" "udp_room s2 ?n" "udp_next_write s2 = udp_next_write s1"
      using A by (simp_all add: s2_def udp_room_def)
    have run2: "(case b of Waiting \<Rightarrow> (Rx_waiting, s2, io_more io)
        | Failed \<Rightarrow> (Rx_aborted, exa_notify_udp_read_update s2, io_more io)
        | Done _ \<Rightarrow> if exa_udp_validate_csum (up_sum p) (io_csum io) \<and> up_valid p
            then (case exa_udp_queue_write_commit s2 ?n (up_ts p) of None \<Rightarrow> (Rx_assert, s2, io_more io)
              | Some s3 \<Rightarrow> (Rx_committed, exa_notify_udp_read_update s3, io_more io))
            else (Rx_aborted, exa_notify_udp_read_update s2, io_more io)) = (st, s', mc)"
      unfolding s2_def using run al Some body by (simp add: udp_receive_packet_def Let_def)
    have no: "udp_sock_rep s2 Q" "udp_sock_rep (exa_notify_udp_read_update s2) Q"
      using rep2 s2 notify_rep by (simp_all add: udp_sock_rep_def)
    show ?thesis
    proof (cases "b = Done () \<and> exa_udp_validate_csum (up_sum p) (io_csum io) \<and> up_valid p")
      case False
      then show ?thesis using run2 no by (cases b) auto
    next
      case True
      then have D: "length (snd (up_dgram p)) = ?n" "slice data ?n (io_ring io) = snd (up_dgram p)" using ring(2) by (auto simp: up_dgram_def min_def)
      have len: "length (io_ring io) = length (udp_buffer s1)" using ring(1) by (simp add: unchanged_outside_def)
      have "bytes_at ((!) (udp_buffer s2)) (unat (udp_next_write s2) + 16) (snd (up_dgram p))"
        using D fit A(1) slice_map [of data ?n "io_ring io"] len by (simp add: bytes_at_def s2_def)
      moreover have "bytes_at ((!) (udp_buffer s2)) (unat (udp_next_write s2) + 4) (ep_bytes (up_ep p))"
        using bytes_at_same [OF ring(1), of "?w + 4" "ep_bytes (up_ep p)"] A(1,4) fit by (simp add: s2_def)
      ultimately obtain s3 where s3: "exa_udp_queue_write_commit s2 ?n (up_ts p) = Some s3" "udp_rep s3 (Q @ [(up_ep p, snd (up_dgram p))])"
          "\<not> udp_rx_shutdown s3" "udp_bound s3"
        using commit_rep [OF rep2 s2(4) n D(1)] s2(1,2) by metis
      have "up_dgram p = (up_ep p, snd (up_dgram p))" by (simp add: up_dgram_def)
      then show ?thesis using run2 True s3 notify_rep [OF s3(2-4)] by simp
    qed
  qed
  then show "udp_sock_rep s' (Q @ (if st = Rx_committed then [up_dgram p] else []))" "st \<noteq> Rx_assert" by simp_all
qed

type_synonym recv_request = "exa_endpoint \<times> nat \<times> bool \<times> bool"

definition udp_offer :: "udp_socket \<Rightarrow> udp_packet \<Rightarrow> (exa_endpoint \<times> bytes) option \<times> udp_socket" where
  "udp_offer s p = (case udp_receive_packet s p of (st, s', _) \<Rightarrow> (if st = Rx_committed then Some (up_dgram p) else None, s'))"

definition udp_fetch :: "udp_socket \<Rightarrow> recv_request \<Rightarrow> (bytes \<times> exa_endpoint \<times> nat) option \<times> udp_socket" where
  "udp_fetch s q =
     (case q of (ep0, len, peek, trunc) \<Rightarrow>
        (case recvfrom_udp ep0 len peek trunc s of
           (Recv_data buf ep n, s') \<Rightarrow> (Some (buf, ep, n), s')
         | (_, s') \<Rightarrow> (None, s')))"

definition udp_takes :: "recv_request \<Rightarrow> bool" where
  "udp_takes q = (\<not> fst (snd (snd q)))"

definition udp_view :: "recv_request \<Rightarrow> exa_endpoint \<times> bytes \<Rightarrow> bytes \<times> exa_endpoint \<times> nat" where
  "udp_view q e = (case q of (_, len, _, trunc) \<Rightarrow>
     (take len (snd e), fst e, if trunc then length (snd e) else min (length (snd e)) len))"

lemma fetch_rep:
  assumes rep: "udp_sock_rep s Q" and run: "udp_fetch s q = (v, s')"
  shows "case Q of [] \<Rightarrow> v = None \<and> udp_sock_rep s' []
    | e # Q' \<Rightarrow> v = Some (udp_view q e) \<and> udp_sock_rep s' (if udp_takes q then Q' else Q)"
proof -
  obtain ep0 len peek trunc where q: "q = (ep0, len, peek, trunc)" by (cases q)
  let ?s1 = "s\<lparr>udp_next_read := udp_wrap s\<rparr>"
  have R: "udp_rep s Q" "\<not> udp_rx_shutdown s" "udp_bound s" "udp_rx_ready s = (Q \<noteq> [])" using rep by (simp_all add: udp_sock_rep_def)
  note W = wrap_rep [OF R(1)]
  show ?thesis
  proof (cases Q)
    case Nil
    then have "udp_wrap s = udp_next_write s" using W(2) by (simp add: exa_udp_queue_ready_def)
    then have "v = None" "s' = ?s1" using run R
      by (auto simp: udp_fetch_def q recvfrom_udp_def recv_block_udp_ready_def exa_udp_queue_read_begin_def Let_def)
    then show ?thesis using Nil W(1) R by (simp add: udp_sock_rep_def)
  next
    case (Cons e Q')
    let ?r = "unat (udp_wrap s)"
    have e: "entry_at (udp_buffer s) ?r e" "udp_rep (exa_udp_queue_read_end ?s1) Q'" using W(3) [OF Cons] by simp_all
    have eok: "entry_ok e" using R(1) Cons by (simp add: udp_rep_def)
    note f = entry_at_fields [OF e(1) eok]
    have ne: "udp_wrap s \<noteq> udp_next_write s" using W(2) Cons by (simp add: exa_udp_queue_ready_def)
    have fit: "?r + 16 + length (snd e) \<le> length (udp_buffer s)"
      using W(3) [OF Cons] entry_size(1) [of "length (snd e)"] eok by simp
    have "map ((!) (udp_buffer s)) [?r + 16..<?r + 16 + length (snd e)] = snd e" using e(1) by (simp add: entry_at_def bytes_at_def)
    then have d: "take (length (snd e)) (drop (?r + 16) (udp_buffer s)) = snd e"
      using slice_map [OF fit] by (simp add: slice_def)
    then have "take (min (length (snd e)) len) (drop (?r + 16) (udp_buffer s)) = take len (snd e)"
      by (metis min.commute take_take)
    moreover have m: "(if length (snd e) < len then length (snd e) else len) = min (length (snd e)) len" by simp
    ultimately have d2: "take (if length (snd e) < len then length (snd e) else len) (drop (?r + 16) (udp_buffer s)) = take len (snd e)" by simp
    have "recvfrom_udp ep0 len peek trunc s = (Recv_data (take len (snd e)) (fst e) (if trunc then length (snd e) else min (length (snd e)) len),
        if peek then ?s1 else exa_notify_udp_read_update (exa_udp_queue_read_end ?s1))"
      unfolding m [symmetric] using ne R(3) f d2
      by (simp add: recvfrom_udp_def recv_block_udp_ready_def exa_udp_queue_read_begin_def Let_def del: if_split)
    then have "v = Some (udp_view q e)" "s' = (if peek then ?s1 else exa_notify_udp_read_update (exa_udp_queue_read_end ?s1))"
      using run by (simp_all add: udp_fetch_def q udp_view_def)
    moreover have "udp_sock_rep (exa_notify_udp_read_update (exa_udp_queue_read_end ?s1)) Q'"
      using e(2) R by (intro notify_rep) (simp_all add: exa_udp_queue_read_end_def)
    moreover have "udp_sock_rep ?s1 Q" using W(1) R by (simp add: udp_sock_rep_def)
    ultimately show ?thesis using Cons by (simp add: udp_takes_def q)
  qed
qed

interpretation udp: fifo udp_sock_rep udp_offer up_ok udp_fetch udp_takes udp_view
proof unfold_locales
  fix s Q i r s' assume "udp_sock_rep s Q" "up_ok i" "udp_offer s i = (r, s')"
  then show "udp_sock_rep s' (Q @ (case r of None \<Rightarrow> [] | Some x \<Rightarrow> [x]))"
    using packet_rep(1) by (fastforce simp: udp_offer_def split: prod.splits if_splits)
next
  fix s q v s' assume "udp_sock_rep s []" "udp_fetch s q = (v, s')"
  then show "v = None \<and> udp_sock_rep s' []" using fetch_rep by fastforce
next
  fix s x Q q v s' assume "udp_sock_rep s (x # Q)" "udp_fetch s q = (v, s')"
  then show "v = Some (udp_view q x) \<and> udp_sock_rep s' (if udp_takes q then Q else x # Q)" using fetch_rep by fastforce
qed

text \<open>A socket after its memory has been set up: an empty queue of whole cache lines.\<close>

definition udp_fresh :: "udp_socket \<Rightarrow> bool" where
  "udp_fresh s \<longleftrightarrow> udp_next_write s = 0 \<and> udp_next_read s = 0 \<and> length (udp_buffer s) = udp_buffer_size s \<and> 0 < udp_buffer_size s \<and>
     64 dvd udp_buffer_size s \<and> udp_buffer_size s < 2 ^ 31 \<and> \<not> udp_rx_shutdown s \<and> udp_bound s \<and> \<not> udp_rx_ready s"

lemma fresh_rep: "udp_fresh s \<Longrightarrow> udp_sock_rep s []"
  by (simp add: udp_fresh_def udp_sock_rep_def udp_rep_def udp_layout_def)

subsection \<open>Properties\<close>

text \<open>C5. On a UDP socket that is not shut down for reading, when every packet has between 1 and 65535 bytes of data: in whatever way the
  reception of the packets goes, and whatever the application reads in between, the calls return the datagrams that were
  committed, in that order, none twice and none left out, each with its own endpoint and data, cut to the space of the call; the
  socket is marked readable exactly when datagrams are left, and no reception fails an assertion. Empty datagrams, which the code also
  accepts, are left out because they can be lost (\<open>empty_datagram_loses_queue\<close>), and a receive call on a socket that is shut down
  corrupts the queue (\<open>shutdown_read_corrupts_queue\<close>).\<close>

theorem datagrams_delivered:
  assumes "udp_fresh s0" "\<forall>p. Inl p \<in> set ops \<longrightarrow> 0 < up_len p \<and> up_len p < 65536" "fifo_run udp_offer udp_fetch udp_takes ops s0 = (s, ins, outs)"
  shows "length outs \<le> length ins \<and> (\<forall>k<length outs. snd (outs ! k) = udp_view (fst (outs ! k)) (ins ! k)) \<and>
    (exa_udp_queue_ready s \<longleftrightarrow> length outs < length ins) \<and> udp_rx_ready s = exa_udp_queue_ready s \<and>
    (\<forall>p. 0 < up_len p \<and> up_len p < 65536 \<longrightarrow> fst (udp_receive_packet s p) \<noteq> Rx_assert)"
proof -
  note r = udp.run_order [OF fresh_rep [OF assms(1)] assms(2) [folded up_ok_def] assms(3)]
  then have s: "udp_sock_rep s (drop (length outs) ins)" by simp
  then have rd: "exa_udp_queue_ready s \<longleftrightarrow> length outs < length ins" "udp_rx_ready s = exa_udp_queue_ready s"
    using wrap_rep(2) by (auto simp: udp_sock_rep_def)
  have "fst (udp_receive_packet s p) \<noteq> Rx_assert" if "up_ok p" for p
    using packet_rep(2) [OF s that] by (metis prod.collapse)
  then show ?thesis using r rd by (simp add: up_ok_def)
qed

text \<open>A datagram in two chunks, looked at and then read with less space than it has.\<close>

definition demo_udp_sock :: udp_socket where
  "demo_udp_sock = \<lparr>udp_next_write = 0, udp_next_read = 0, udp_buffer_size = 192, udp_buffer = replicate 192 0x55,
     udp_rx_shutdown = False, udp_bound = True, udp_rx_ready = False\<rparr>"

definition demo_ep :: exa_endpoint where
  "demo_ep = \<lparr>local_addr = 0x0100000A, peer_addr = 0x0200000A, local_port = 0x5000, peer_port = 0x3412\<rparr>"

definition demo_udp_packet :: "bytes \<Rightarrow> udp_packet" where
  "demo_udp_packet d = \<lparr>up_ep = demo_ep, up_len = length d, up_init = take 1 d, up_csum = 0, up_sum = 0, up_more = True,
     up_calls = [(Some (drop 1 d), Some False)], up_valid = True, up_ts = None\<rparr>"

definition demo_ops :: "(udp_packet + recv_request) list" where
  "demo_ops = [Inl (demo_udp_packet [1, 2, 3]), Inr (demo_ep, 2, True, True), Inr (demo_ep, 2, False, True)]"

lemma demo_fresh: "udp_fresh demo_udp_sock"
  by (simp add: udp_fresh_def demo_udp_sock_def)

lemma demo_entry: "entry_size 3 = 64"
  by (simp add: exa_udp_queue_entry_size_def sz_add_def)

lemma demo_offer:
  "\<exists>s. udp_offer demo_udp_sock (demo_udp_packet [1, 2, 3]) = (Some (demo_ep, [1, 2, 3]), s)"
  by (simp add: udp_offer_def udp_receive_packet_def demo_udp_packet_def demo_udp_sock_def exa_udp_queue_write_alloc_def Let_def
      demo_entry [unfolded numeral_3_eq_3] sz_add_def exanic_poll_recv_body_def recv_buf_def next_call_def up_dgram_def calls_bytes_def
      exa_udp_validate_csum_def exa_udp_queue_write_commit_def exa_notify_udp_read_update_def)

lemma datagrams_delivered_witness:
  "\<exists>s outs. fifo_run udp_offer udp_fetch udp_takes demo_ops demo_udp_sock = (s, [(demo_ep, [1, 2, 3])], outs) \<and>
    map snd outs = [([1, 2], demo_ep, 3)] \<and> \<not> exa_udp_queue_ready s"
proof -
  obtain s ins outs where r: "fifo_run udp_offer udp_fetch udp_takes demo_ops demo_udp_sock = (s, ins, outs)" using prod_cases3 by blast
  have ok: "up_ok (demo_udp_packet [1, 2, 3])" by (simp add: demo_udp_packet_def up_ok_def)
  obtain s1 where s1: "udp_offer demo_udp_sock (demo_udp_packet [1, 2, 3]) = (Some (demo_ep, [1, 2, 3]), s1)" using demo_offer by blast
  obtain s2 v2 where s2: "udp_fetch s1 (demo_ep, 2, True, True) = (v2, s2)" by force
  obtain s3 v3 where s3: "udp_fetch s2 (demo_ep, 2, False, True) = (v3, s3)" by force
  have "udp_sock_rep s1 [(demo_ep, [1, 2, 3])]" using udp.offer_rep [OF fresh_rep [OF demo_fresh] ok s1] by simp
  then have "udp_sock_rep s2 [(demo_ep, [1, 2, 3])]" using fetch_rep [OF _ s2] by (fastforce simp: udp_takes_def)
  then have "v3 = Some (udp_view (demo_ep, 2, False, True) (demo_ep, [1, 2, 3]))" using fetch_rep [OF _ s3] by fastforce
  then have "ins = [(demo_ep, [1, 2, 3])]" "length outs = 1" "fst (outs ! 0) = (demo_ep, 2, False, True)"
    using r s1 s2 s3 by (auto simp: demo_ops_def udp_takes_def split: option.splits)
  moreover have "\<forall>p. Inl p \<in> set demo_ops \<longrightarrow> 0 < up_len p \<and> up_len p < 65536" using ok by (auto simp: demo_ops_def up_ok_def)
  ultimately show ?thesis using datagrams_delivered [OF demo_fresh _ r] r by (cases outs) (auto simp: udp_view_def)
qed

text \<open>C39. A datagram without data that is first in line when the writer has wrapped is read as the mark of the wrap: it and
  all datagrams behind it up to the wrap are lost, and the read position jumps to the start of the buffer.\<close>

theorem empty_datagram_loses_queue:
  assumes "udp_next_write s < udp_next_read s" "chain (udp_buffer s) (unat (udp_next_read s)) m ((ep, []) # Q1)"
    and "chain (udp_buffer s) 0 (unat (udp_next_write s)) Q2"
  shows "udp_wrap s = 0 \<and> chain (udp_buffer s) (unat (udp_wrap s)) (unat (udp_next_write s)) Q2 \<and>
    (Q2 = [] \<longrightarrow> \<not> exa_udp_queue_ready s \<and> fst (exa_udp_queue_read_begin s) = None) \<and>
    (\<forall>ep' d Q3. Q2 = (ep', d) # Q3 \<longrightarrow> entry_ok (ep', d) \<longrightarrow>
       (\<exists>ts. fst (exa_udp_queue_read_begin s) = Some (ep', 16, length d, ts)))"
proof -
  have "bytes_at ((!) (udp_buffer s)) (unat (udp_next_read s)) (le32_bytes 0)"
    using assms(2) by (simp add: entry_at_def entry_hdr_def bytes_at_append)
  then have w: "udp_wrap s = 0" using assms(1) by (simp add: udp_wrap_def le32_at_bytes)
  have "\<not> exa_udp_queue_ready s \<and> fst (exa_udp_queue_read_begin s) = None" if "Q2 = []"
  proof -
    have "unat (udp_next_write s) = 0" using assms(3) that by simp
    then have "udp_next_write s = 0" by (simp add: unat_eq_0)
    then show ?thesis by (simp add: exa_udp_queue_ready_def exa_udp_queue_read_begin_def w)
  qed
  moreover have "\<exists>ts. fst (exa_udp_queue_read_begin s) = Some (ep', 16, length d, ts)" if Q2: "Q2 = (ep', d) # Q3" "entry_ok (ep', d)" for ep' d Q3
  proof -
    have e: "entry_at (udp_buffer s) 0 (ep', d)" "0 + entry_size (length d) \<le> unat (udp_next_write s)" using assms(3) Q2 chain_le by auto
    then have "udp_next_write s \<noteq> 0" using entry_size(4) [of "length d"] Q2 by auto
    then show ?thesis using entry_at_fields [OF e(1) Q2(2)] by (simp add: exa_udp_queue_read_begin_def w Let_def)
  qed
  ultimately show ?thesis using w assms(3) by simp
qed

text \<open>A receive call on an empty queue after the socket was shut down for reading frees an entry that is not there: the
  call returns no data, and the read position moves past the write position by the length that an old entry left in the
  buffer; to every later reader the queue is one that has wrapped, with old entries as new datagrams.\<close>

theorem shutdown_read_corrupts_queue:
  assumes "udp_rep s []" "udp_next_read s = udp_next_write s" "udp_rx_shutdown s" "udp_bound s"
    and "unat (udp_next_read s) + entry_size (unat (le32_at ((!) (udp_buffer s)) (unat (udp_next_read s)))) < udp_buffer_size s"
  shows "\<exists>s'. recvfrom_udp ep0 len False trunc s = (Recv_data [] ep0 0, s') \<and> udp_next_write s' = udp_next_write s \<and>
    udp_next_write s' < udp_next_read s' \<and> unat (udp_next_read s') =
      unat (udp_next_read s) + entry_size (unat (le32_at ((!) (udp_buffer s)) (unat (udp_next_read s))))"
proof -
  let ?r = "unat (udp_next_read s)"
  let ?es = "entry_size (unat (le32_at ((!) (udp_buffer s)) ?r))"
  have w: "udp_wrap s = udp_next_read s" using assms(2) by (simp add: udp_wrap_def)
  have len: "unat (le32_at ((!) (udp_buffer s)) ?r) < 2 ^ 32" using unsigned_less [of "le32_at ((!) (udp_buffer s)) ?r", where 'a = nat] by simp
  define s1 where "s1 = exa_udp_queue_read_end s"
  have "s\<lparr>udp_next_read := udp_next_read s\<rparr> = s" by simp
  then have rb: "exa_udp_queue_read_begin s = (None, s)" using w assms(2) by (simp add: exa_udp_queue_read_begin_def Let_def)
  have rv: "recvfrom_udp ep0 len False trunc s = (Recv_data [] ep0 0, exa_notify_udp_read_update s1)"
    using assms(3,4) by (simp add: recvfrom_udp_def recv_block_udp_ready_def rb s1_def)
  have "?r + ?es < 2 ^ 31" using assms(1,5) by (simp add: udp_rep_def)
  moreover have "udp_next_read s1 = of_nat (?r + ?es)" by (simp add: s1_def exa_udp_queue_read_end_def Let_def)
  ultimately have nr: "unat (udp_next_read s1) = ?r + ?es" by (simp only: unat_small)
  have "0 < ?es" using len by (intro entry_size(4)) simp
  then have "udp_next_write s < udp_next_read s1" unfolding word_less_nat_alt nr using assms(2) by simp
  moreover have "udp_next_write s1 = udp_next_write s" by (simp add: s1_def exa_udp_queue_read_end_def Let_def)
  ultimately show ?thesis
    unfolding rv using nr by (intro exI [of _ "exa_notify_udp_read_update s1"]) (simp add: exa_notify_udp_read_update_def)
qed

text \<open>A shut down socket whose buffer still has the entry of a datagram of 100 bytes at the read position.\<close>

definition stale_sock :: udp_socket where
  "stale_sock = \<lparr>udp_next_write = 64, udp_next_read = 64, udp_buffer_size = 4096,
     udp_buffer = replicate 64 0 @ [100, 0, 0, 0] @ replicate 4028 0, udp_rx_shutdown = True, udp_bound = True, udp_rx_ready = False\<rparr>"

lemma shutdown_read_corrupts_queue_witness:
  "\<exists>s'. recvfrom_udp demo_ep 10 False False stale_sock = (Recv_data [] demo_ep 0, s') \<and> unat (udp_next_read s') = 256"
proof -
  have l: "le32_at ((!) (udp_buffer stale_sock)) 64 = 100" by (simp add: stale_sock_def le32_at_def nth_append)
  have es: "entry_size 100 = 192" by (simp add: exa_udp_queue_entry_size_def sz_add_def)
  have "udp_rep stale_sock []" by (simp add: udp_rep_def udp_layout_def stale_sock_def)
  moreover have f: "udp_next_read stale_sock = 64" "udp_next_write stale_sock = 64" "udp_buffer_size stale_sock = 4096"
    by (simp_all add: stale_sock_def)
  moreover have "udp_rx_shutdown stale_sock" "udp_bound stale_sock" by (simp_all add: stale_sock_def)
  ultimately show ?thesis
    using shutdown_read_corrupts_queue [of stale_sock demo_ep 10 False] l es by auto
qed

lemma empty_datagram_loses_queue_witness:
  "\<exists>s. udp_next_read s = 64 \<and> fst (exa_udp_queue_read_begin s) = None"
proof -
  define s where "s = \<lparr>udp_next_write = 0, udp_next_read = 64, udp_buffer_size = 192,
     udp_buffer = replicate 64 0 @ entry_hdr demo_ep 0 @ replicate 112 0, udp_rx_shutdown = False, udp_bound = True, udp_rx_ready = True\<rparr>"
  have at: "bytes_at ((!) (udp_buffer s)) 64 (entry_hdr demo_ep 0)"
    using slice_map [of 64 16 "udp_buffer s"] by (simp add: bytes_at_def s_def slice_def)
  have "entry_size 0 = 64" by (simp add: exa_udp_queue_entry_size_def sz_add_def)
  then have "chain (udp_buffer s) (unat (udp_next_read s)) 128 [(demo_ep, [])]"
    using at by (simp add: entry_at_def bytes_at_simps) (simp add: s_def)
  moreover have "chain (udp_buffer s) 0 (unat (udp_next_write s)) []" "udp_next_write s < udp_next_read s" by (simp_all add: s_def)
  ultimately have "fst (exa_udp_queue_read_begin s) = None" using empty_datagram_loses_queue [of s 128 demo_ep "[]" "[]"] by simp
  then show ?thesis by (intro exI [of _ s]) (simp add: s_def)
qed

end
