(* ===== verification/SockTable.thy ===== *)
theory SockTable
  imports UdpQueue
begin

text \<open>
  The hash table of bound sockets (\<open>libs/exasock/structs.h\<close>) and the multicast memberships of a socket
  (\<open>sockets.c\<close>, \<open>udp.h\<close>). An item is the link embedded in a socket or in a membership; links are
  followed in memory, so a walk along a chain that runs in a circle has the value \<open>None\<close>. The lower
  half of the table holds sockets, the upper half memberships. A socket is its file descriptor, a
  membership its address in memory; the list of memberships of a socket is the list of these.
\<close>

subsection \<open>State\<close>

datatype ht_item = Sock_item nat | Memb_item nat

record exa_mcast_endpoint =
  multiaddr :: u32
  mc_interface :: u32

record exa_mcast_membership =
  parent_sock :: nat
  mcast_ep :: exa_mcast_endpoint

record sock_table =
  ht_table :: "nat \<Rightarrow> ht_item option"
  ht_next :: "ht_item \<Rightarrow> ht_item option"
  ht_bind :: "nat \<Rightarrow> exa_endpoint"
  ht_memb :: "nat \<Rightarrow> exa_mcast_membership"
  ip_memberships :: "nat \<Rightarrow> nat list"

record exa_hashtable_key =
  key_addr0 :: u32
  key_addr1 :: u32
  key_port0 :: u16
  key_port1 :: u16

subsection \<open>Hashing\<close>

definition rot :: "u32 \<Rightarrow> nat \<Rightarrow> u32" where
  "rot x k = push_bit k x OR drop_bit (32 - k) x"

definition exa_hashtable_hash :: "exa_hashtable_key \<Rightarrow> u32" where
  "exa_hashtable_hash key =
     (let a = key_addr0 key; b = key_addr1 key; c = push_bit 16 (ucast (key_port0 key)) OR ucast (key_port1 key);
          c = c XOR b; c = c - rot b 14;
          a = a XOR c; a = a - rot c 11;
          b = b XOR a; b = b - rot a 25;
          c = c XOR b; c = c - rot b 16;
          a = a XOR c; a = a - rot c 4;
          b = b XOR a; b = b - rot a 14;
          c = c XOR b
      in c - rot b 24)"

abbreviation (input) "EXA_UCAST_IDX \<equiv> 0 :: nat"
abbreviation (input) "EXA_MCAST_IDX \<equiv> 1 :: nat"
abbreviation (input) "EXA_HASHTABLE_SIZE_LOG2 \<equiv> 16 :: nat"

definition EXA_HASHTABLE_IDX :: "exa_hashtable_key \<Rightarrow> nat \<Rightarrow> nat" where
  "EXA_HASHTABLE_IDX key sel = unat ((exa_hashtable_hash key AND (2 ^ (EXA_HASHTABLE_SIZE_LOG2 - 1) - 1)) OR push_bit (EXA_HASHTABLE_SIZE_LOG2 - 1) (of_nat sel))"

definition ucast_key :: "exa_endpoint \<Rightarrow> exa_hashtable_key" where
  "ucast_key ep = \<lparr>key_addr0 = local_addr ep, key_addr1 = peer_addr ep, key_port0 = local_port ep, key_port1 = peer_port ep\<rparr>"

definition mcast_key :: "exa_mcast_endpoint \<Rightarrow> u16 \<Rightarrow> exa_hashtable_key" where
  "mcast_key mc port = \<lparr>key_addr0 = multiaddr mc, key_addr1 = mc_interface mc, key_port0 = port, key_port1 = 0\<rparr>"

subsection \<open>Chains\<close>

definition exa_hashtable_insert :: "sock_table \<Rightarrow> nat \<Rightarrow> ht_item \<Rightarrow> sock_table" where
  "exa_hashtable_insert ht idx item = ht\<lparr>ht_next := (ht_next ht)(item := ht_table ht idx), ht_table := (ht_table ht)(idx := Some item)\<rparr>"

text \<open>The item and the one before it.\<close>

partial_function (option) hashtable_find ::
    "(ht_item \<Rightarrow> ht_item option) \<Rightarrow> ht_item \<Rightarrow> ht_item option \<Rightarrow> ht_item option \<Rightarrow> (ht_item \<times> ht_item option) option option" where
  "hashtable_find nxt remove_item cur prev =
     (case cur of
        None \<Rightarrow> Some None
      | Some c \<Rightarrow> if c \<noteq> remove_item then hashtable_find nxt remove_item (nxt c) (Some c) else Some (Some (c, prev)))"

definition exa_hashtable_remove :: "sock_table \<Rightarrow> nat \<Rightarrow> ht_item \<Rightarrow> (bool \<times> sock_table) option" where
  "exa_hashtable_remove ht idx remove_obj =
     (case hashtable_find (ht_next ht) remove_obj (ht_table ht idx) None of
        None \<Rightarrow> None
      | Some None \<Rightarrow> Some (False, ht)
      | Some (Some (found, None)) \<Rightarrow> Some (True, ht\<lparr>ht_table := (ht_table ht)(idx := ht_next ht found)\<rparr>)
      | Some (Some (found, Some prev)) \<Rightarrow> Some (True, ht\<lparr>ht_next := (ht_next ht)(prev := ht_next ht found)\<rparr>))"

text \<open>The first item of a chain that passes a test.\<close>

partial_function (option) hashtable_scan :: "(ht_item \<Rightarrow> bool) \<Rightarrow> (ht_item \<Rightarrow> ht_item option) \<Rightarrow> ht_item option \<Rightarrow> ht_item option option" where
  "hashtable_scan test nxt cur =
     (case cur of None \<Rightarrow> Some None | Some c \<Rightarrow> if test c then Some (Some c) else hashtable_scan test nxt (nxt c))"

subsection \<open>Memberships\<close>

definition exa_socket_ip_memberships_find :: "sock_table \<Rightarrow> nat \<Rightarrow> exa_mcast_endpoint \<Rightarrow> nat option" where
  "exa_socket_ip_memberships_find ht fd ep = find (\<lambda>m. mcast_ep (ht_memb ht m) = ep) (ip_memberships ht fd)"

text \<open>\<open>m\<close> is the memory that \<open>calloc\<close> returns.\<close>

definition exa_socket_ip_memberships_add :: "sock_table \<Rightarrow> nat \<Rightarrow> nat \<Rightarrow> exa_mcast_endpoint \<Rightarrow> sock_table" where
  "exa_socket_ip_memberships_add ht m fd ep = ht\<lparr>ht_memb := (ht_memb ht)(m := \<lparr>parent_sock = fd, mcast_ep = ep\<rparr>),
     ht_next := (ht_next ht)(Memb_item m := None), ip_memberships := (ip_memberships ht)(fd := m # ip_memberships ht fd)\<rparr>"

definition exa_socket_ip_memberships_remove :: "sock_table \<Rightarrow> nat \<Rightarrow> exa_mcast_endpoint \<Rightarrow> nat option \<times> sock_table" where
  "exa_socket_ip_memberships_remove ht fd ep =
     (case exa_socket_ip_memberships_find ht fd ep of
        None \<Rightarrow> (None, ht)
      | Some m \<Rightarrow> (Some m, ht\<lparr>ip_memberships := (ip_memberships ht)(fd := remove1 m (ip_memberships ht fd))\<rparr>))"

subsection \<open>Insertion and removal\<close>

definition exa_udp_insert :: "sock_table \<Rightarrow> nat \<Rightarrow> sock_table" where
  "exa_udp_insert ht fd = exa_hashtable_insert ht (EXA_HASHTABLE_IDX (ucast_key (ht_bind ht fd)) EXA_UCAST_IDX) (Sock_item fd)"

definition exa_udp_remove :: "sock_table \<Rightarrow> nat \<Rightarrow> (bool \<times> sock_table) option" where
  "exa_udp_remove ht fd = exa_hashtable_remove ht (EXA_HASHTABLE_IDX (ucast_key (ht_bind ht fd)) EXA_UCAST_IDX) (Sock_item fd)"

text \<open>\<open>None\<close> is the assertion that the membership is in the list of the socket, or a walk without end.\<close>

definition exa_udp_mcast_insert :: "sock_table \<Rightarrow> nat \<Rightarrow> exa_mcast_endpoint \<Rightarrow> sock_table option" where
  "exa_udp_mcast_insert ht fd mc =
     (case exa_socket_ip_memberships_find ht fd mc of
        None \<Rightarrow> None
      | Some m \<Rightarrow> Some (exa_hashtable_insert ht (EXA_HASHTABLE_IDX (mcast_key mc (local_port (ht_bind ht fd))) EXA_MCAST_IDX) (Memb_item m)))"

definition exa_udp_mcast_remove :: "sock_table \<Rightarrow> nat \<Rightarrow> exa_mcast_endpoint \<Rightarrow> (bool \<times> sock_table) option" where
  "exa_udp_mcast_remove ht fd mc =
     (case exa_socket_ip_memberships_find ht fd mc of
        None \<Rightarrow> None
      | Some m \<Rightarrow> exa_hashtable_remove ht (EXA_HASHTABLE_IDX (mcast_key mc (local_port (ht_bind ht fd))) EXA_MCAST_IDX) (Memb_item m))"

primrec mcast_insert_list :: "nat \<Rightarrow> nat list \<Rightarrow> sock_table \<Rightarrow> sock_table option" where
  "mcast_insert_list fd [] ht = Some ht"
| "mcast_insert_list fd (m # ms) ht =
     (case exa_udp_mcast_insert ht fd (mcast_ep (ht_memb ht m)) of None \<Rightarrow> None | Some ht1 \<Rightarrow> mcast_insert_list fd ms ht1)"

definition exa_udp_mcast_insert_all :: "sock_table \<Rightarrow> nat \<Rightarrow> sock_table option" where
  "exa_udp_mcast_insert_all ht fd = mcast_insert_list fd (ip_memberships ht fd) ht"

primrec mcast_remove_list :: "nat \<Rightarrow> nat list \<Rightarrow> sock_table \<Rightarrow> sock_table option" where
  "mcast_remove_list fd [] ht = Some ht"
| "mcast_remove_list fd (m # ms) ht =
     (case exa_udp_mcast_remove ht fd (mcast_ep (ht_memb ht m)) of None \<Rightarrow> None | Some (_, ht1) \<Rightarrow> mcast_remove_list fd ms ht1)"

definition exa_udp_mcast_remove_all :: "sock_table \<Rightarrow> nat \<Rightarrow> sock_table option" where
  "exa_udp_mcast_remove_all ht fd = mcast_remove_list fd (ip_memberships ht fd) ht"

subsection \<open>Lookup\<close>

text \<open>A test that meets an item of the other kind takes it for no match; the invariant excludes it. The result is
  \<open>None\<close> for a walk without end, \<open>Some None\<close> for -1.\<close>

definition sock_test :: "sock_table \<Rightarrow> exa_endpoint \<Rightarrow> ht_item \<Rightarrow> bool" where
  "sock_test ht e item =
     (case item of Sock_item fd \<Rightarrow> ht_bind ht fd = e | Memb_item _ \<Rightarrow> False)"

definition memb_test :: "sock_table \<Rightarrow> exa_mcast_endpoint \<Rightarrow> u16 \<Rightarrow> ht_item \<Rightarrow> bool" where
  "memb_test ht mc port item =
     (case item of
        Sock_item _ \<Rightarrow> False
      | Memb_item m \<Rightarrow> local_port (ht_bind ht (parent_sock (ht_memb ht m))) = port \<and> peer_port (ht_bind ht (parent_sock (ht_memb ht m))) = 0 \<and>
          mcast_ep (ht_memb ht m) = mc)"

definition item_fd :: "sock_table \<Rightarrow> ht_item \<Rightarrow> nat" where
  "item_fd ht item = (case item of Sock_item fd \<Rightarrow> fd | Memb_item m \<Rightarrow> parent_sock (ht_memb ht m))"

definition ucast_scan :: "sock_table \<Rightarrow> exa_endpoint \<Rightarrow> ht_item option option" where
  "ucast_scan ht e = hashtable_scan (sock_test ht e) (ht_next ht) (ht_table ht (EXA_HASHTABLE_IDX (ucast_key e) EXA_UCAST_IDX))"

definition exa_hashtable_ucast_lookup :: "sock_table \<Rightarrow> exa_endpoint \<Rightarrow> nat option option" where
  "exa_hashtable_ucast_lookup ht e =
     (let e1 = e\<lparr>peer_addr := 0, peer_port := 0\<rparr>; e2 = e1\<lparr>local_addr := 0\<rparr>
      in case ucast_scan ht e of
           None \<Rightarrow> None
         | Some (Some i) \<Rightarrow> Some (Some (item_fd ht i))
         | Some None \<Rightarrow>
             (case ucast_scan ht e1 of
                None \<Rightarrow> None
              | Some (Some i) \<Rightarrow> Some (Some (item_fd ht i))
              | Some None \<Rightarrow> map_option (map_option (item_fd ht)) (ucast_scan ht e2)))"

definition mcast_scan :: "sock_table \<Rightarrow> exa_mcast_endpoint \<Rightarrow> u16 \<Rightarrow> ht_item option option" where
  "mcast_scan ht mc port = hashtable_scan (memb_test ht mc port) (ht_next ht) (ht_table ht (EXA_HASHTABLE_IDX (mcast_key mc port) EXA_MCAST_IDX))"

definition exa_hashtable_mcast_lookup :: "sock_table \<Rightarrow> exa_endpoint \<Rightarrow> u32 \<Rightarrow> nat option option" where
  "exa_hashtable_mcast_lookup ht e if_addr =
     (let mc = \<lparr>multiaddr = local_addr e, mc_interface = if_addr\<rparr>
      in case mcast_scan ht mc (local_port e) of
           None \<Rightarrow> None
         | Some (Some i) \<Rightarrow> Some (Some (item_fd ht i))
         | Some None \<Rightarrow> map_option (map_option (item_fd ht)) (mcast_scan ht (mc\<lparr>mc_interface := 0\<rparr>) (local_port e)))"

definition exa_udp_lookup :: "sock_table \<Rightarrow> exa_endpoint \<Rightarrow> u32 \<Rightarrow> nat option option" where
  "exa_udp_lookup ht ep if_addr =
     (if IN_MULTICAST (ntohl (local_addr ep)) then exa_hashtable_mcast_lookup ht ep if_addr else exa_hashtable_ucast_lookup ht ep)"

end
