(* ===== verification/IpCtx.thy ===== *)
theory IpCtx
  imports TxPath
begin

text \<open>
  Interface contexts of \<open>libs/exasock/exanic.c\<close>: the list of the contexts in use, their reference counts, and
  the search for the ExaNIC port behind an address. What the system answers (\<open>getifaddrs\<close>, the VLAN and
  interface queries, the opening of a port or bonding device) is the record \<open>if_env\<close>. A context is its address in memory.
\<close>

subsection \<open>State\<close>

record exanic_ip =
  if_address :: u32
  if_netmask :: u32
  if_broadcast :: u32
  eth_dev_addr :: bytes
  vlan_id :: u16
  if_dev :: "exanic_tx option"
  refcount :: int

record ip_ctxs =
  ctx_mem :: "nat \<Rightarrow> exanic_ip"
  exanic_ctx_list :: "nat list"
  exanic_ctx_all_refcount :: int
  exanic_ctx_need_cleanup :: bool

abbreviation (input) "AF_INET \<equiv> 2 :: nat"

record ifaddr =
  ifa_name :: string
  ifa_addr :: "(nat \<times> u32) option"
  ifa_up :: bool
  ifa_netmask :: "u32 option"
  ifa_broadaddr :: "u32 option"

text \<open>\<open>ip_open live ifname device port\<close> is the outcome of opening a device: the memory for the context, the MAC address, and the
  transmit handle of the active port; \<open>live\<close> are the contexts that exist.\<close>

record if_env =
  getifaddrs :: "ifaddr list option"
  real_device :: "string \<Rightarrow> string \<times> u16"
  find_port :: "string \<Rightarrow> (string \<times> nat) option"
  ip_open :: "nat list \<Rightarrow> string \<Rightarrow> string \<Rightarrow> nat \<Rightarrow> (nat \<times> bytes \<times> exanic_tx option) option"

subsection \<open>Search\<close>

fun ifaddrs_lookup :: "if_env \<Rightarrow> u32 \<Rightarrow> ifaddr list \<Rightarrow> (string \<times> string \<times> nat \<times> u16 \<times> u32 \<times> u32) option" where
  "ifaddrs_lookup env a [] = None"
| "ifaddrs_lookup env a (ifa # ifas) =
     (if ifa_addr ifa \<noteq> Some (AF_INET, a) then ifaddrs_lookup env a ifas
      else if \<not> ifa_up ifa then ifaddrs_lookup env a ifas
      else
        let (ifname, vlan) = real_device env (ifa_name ifa)
        in case find_port env ifname of
             None \<Rightarrow> None
           | Some (device, port) \<Rightarrow>
               (case (ifa_netmask ifa, ifa_broadaddr ifa) of
                  (Some nmask, Some bcast) \<Rightarrow> Some (ifname, device, port, vlan, nmask, bcast)
                | _ \<Rightarrow> None))"

definition exanic_ip_lookup :: "if_env \<Rightarrow> u32 \<Rightarrow> (string \<times> string \<times> nat \<times> u16 \<times> u32 \<times> u32) option" where
  "exanic_ip_lookup env a = (case getifaddrs env of None \<Rightarrow> None | Some ifas \<Rightarrow> ifaddrs_lookup env a ifas)"

definition exanic_ip_find :: "if_env \<Rightarrow> u32 \<Rightarrow> bool" where
  "exanic_ip_find env a \<longleftrightarrow> exanic_ip_lookup env a \<noteq> None"

text \<open>Whether it is an ExaNIC, and the address of the interface if there is one.\<close>

fun ifaddrs_by_interface :: "if_env \<Rightarrow> string \<Rightarrow> ifaddr list \<Rightarrow> bool \<times> u32 option" where
  "ifaddrs_by_interface env ifname [] = (False, None)"
| "ifaddrs_by_interface env ifname (ifa # ifas) =
     (if ifa_name ifa \<noteq> ifname then ifaddrs_by_interface env ifname ifas
      else case ifa_addr ifa of
             None \<Rightarrow> ifaddrs_by_interface env ifname ifas
           | Some (family, a) \<Rightarrow>
               if family \<noteq> AF_INET then ifaddrs_by_interface env ifname ifas
               else if \<not> ifa_up ifa then ifaddrs_by_interface env ifname ifas
               else (find_port env (fst (real_device env ifname)) \<noteq> None, Some a))"

definition exanic_ip_find_by_interface :: "if_env \<Rightarrow> string \<Rightarrow> bool \<times> u32 option" where
  "exanic_ip_find_by_interface env ifname =
     (case getifaddrs env of None \<Rightarrow> (False, None) | Some ifas \<Rightarrow> ifaddrs_by_interface env ifname ifas)"

subsection \<open>References\<close>

definition exanic_ip_alloc :: "if_env \<Rightarrow> nat list \<Rightarrow> string \<Rightarrow> string \<Rightarrow> nat \<Rightarrow> u16 \<Rightarrow> u32 \<Rightarrow> u32 \<Rightarrow> u32 \<Rightarrow> (nat \<times> exanic_ip) option" where
  "exanic_ip_alloc env live ifname device port vlan a nmask bcast =
     map_option (\<lambda>(ctx, mac, dev). (ctx, \<lparr>if_address = a, if_netmask = nmask, if_broadcast = bcast, eth_dev_addr = mac,
         vlan_id = vlan, if_dev = dev, refcount = 0\<rparr>)) (ip_open env live ifname device port)"

definition find_ctx :: "ip_ctxs \<Rightarrow> u32 \<Rightarrow> nat option" where
  "find_ctx s a = find (\<lambda>ctx. if_address (ctx_mem s ctx) = a) (exanic_ctx_list s)"

definition add_ref :: "nat \<Rightarrow> int \<Rightarrow> ip_ctxs \<Rightarrow> ip_ctxs" where
  "add_ref ctx d s = s\<lparr>ctx_mem := (ctx_mem s)(ctx := (ctx_mem s ctx)\<lparr>refcount := refcount (ctx_mem s ctx) + d\<rparr>)\<rparr>"

definition link_ctx :: "nat \<Rightarrow> exanic_ip \<Rightarrow> ip_ctxs \<Rightarrow> ip_ctxs" where
  "link_ctx ctx ip s = s\<lparr>ctx_mem := (ctx_mem s)(ctx := ip), exanic_ctx_list := ctx # exanic_ctx_list s\<rparr>"

definition exanic_ip_acquire :: "if_env \<Rightarrow> u32 \<Rightarrow> ip_ctxs \<Rightarrow> nat option \<times> ip_ctxs" where
  "exanic_ip_acquire env a s =
     (case find_ctx s a of
        Some ctx \<Rightarrow> (Some ctx, add_ref ctx 1 s)
      | None \<Rightarrow>
          (case exanic_ip_lookup env a of
             None \<Rightarrow> (None, s)
           | Some (ifname, device, port, vlan, nmask, bcast) \<Rightarrow>
               (case exanic_ip_alloc env (exanic_ctx_list s) ifname device port vlan a nmask bcast of
                  None \<Rightarrow> (None, s)
                | Some (ctx, ip) \<Rightarrow> (Some ctx, link_ctx ctx (ip\<lparr>refcount := refcount ip + 1\<rparr>) s))))"

definition exanic_ip_acquire_ref :: "nat \<Rightarrow> ip_ctxs \<Rightarrow> ip_ctxs" where
  "exanic_ip_acquire_ref ctx s = add_ref ctx 1 s"

definition exanic_ip_release :: "nat \<Rightarrow> ip_ctxs \<Rightarrow> ip_ctxs" where
  "exanic_ip_release ctx s =
     (let s1 = add_ref ctx (- 1) s
      in if refcount (ctx_mem s1 ctx) = 0 then s1\<lparr>exanic_ctx_need_cleanup := True\<rparr> else s1)"

fun drop_heads :: "(nat \<Rightarrow> exanic_ip) \<Rightarrow> nat list \<Rightarrow> nat list" where
  "drop_heads mem [] = []"
| "drop_heads mem (ctx # rest) = (if refcount (mem ctx) = 0 then drop_heads mem rest else ctx # rest)"

fun unlink_free :: "(nat \<Rightarrow> exanic_ip) \<Rightarrow> nat list \<Rightarrow> nat list" where
  "unlink_free mem (i # ctx # rest) =
     (if refcount (mem ctx) = 0 then unlink_free mem (i # rest) else i # unlink_free mem (ctx # rest))"
| "unlink_free mem l = l"

definition exanic_ip_cleanup :: "ip_ctxs \<Rightarrow> ip_ctxs" where
  "exanic_ip_cleanup s =
     (if 0 < exanic_ctx_all_refcount s then s
      else s\<lparr>exanic_ctx_list := unlink_free (ctx_mem s) (drop_heads (ctx_mem s) (exanic_ctx_list s)), exanic_ctx_need_cleanup := False\<rparr>)"

text \<open>What \<open>exanic_poll\<close> does with the contexts when no packet came.\<close>

definition poll_cleanup :: "ip_ctxs \<Rightarrow> ip_ctxs" where
  "poll_cleanup s = (if exanic_ctx_need_cleanup s then exanic_ip_cleanup s else s)"

definition acquire_ifaddr :: "if_env \<Rightarrow> ifaddr \<Rightarrow> ip_ctxs \<Rightarrow> ip_ctxs" where
  "acquire_ifaddr env ifa s =
     (case ifa_addr ifa of
        None \<Rightarrow> s
      | Some (family, a) \<Rightarrow>
          if family \<noteq> AF_INET then s
          else if find_ctx s a \<noteq> None then s
          else
            let (ifname, vlan) = real_device env (ifa_name ifa)
            in case find_port env ifname of
                 None \<Rightarrow> s
               | Some (device, port) \<Rightarrow>
                   (case (ifa_netmask ifa, ifa_broadaddr ifa) of
                      (Some nmask, Some bcast) \<Rightarrow>
                        (case exanic_ip_alloc env (exanic_ctx_list s) ifname device port vlan a nmask bcast of
                           None \<Rightarrow> s
                         | Some (ctx, ip) \<Rightarrow> link_ctx ctx ip s)
                    | _ \<Rightarrow> s))"

definition exanic_ip_acquire_all :: "if_env \<Rightarrow> ip_ctxs \<Rightarrow> ip_ctxs" where
  "exanic_ip_acquire_all env s =
     (let s1 = (if exanic_ctx_all_refcount s = 0
                then case getifaddrs env of None \<Rightarrow> s | Some ifas \<Rightarrow> fold (acquire_ifaddr env) ifas s
                else s)
      in s1\<lparr>exanic_ctx_all_refcount := exanic_ctx_all_refcount s1 + 1\<rparr>)"

definition exanic_ip_release_all :: "ip_ctxs \<Rightarrow> ip_ctxs" where
  "exanic_ip_release_all s =
     (let s1 = s\<lparr>exanic_ctx_all_refcount := exanic_ctx_all_refcount s - 1\<rparr>
      in if exanic_ctx_all_refcount s1 = 0 then s1\<lparr>exanic_ctx_need_cleanup := True\<rparr> else s1)"

end
