(* ===== verification/SockLayer.thy ===== *)
theory SockLayer
  imports SockTable IpCtx
begin

text \<open>
  UDP sockets from \<open>socket\<close> to \<open>close\<close>, as the application calls them: which interface contexts a socket holds, when it is
  in the hash table, and its multicast memberships (\<open>libs/exasock/sockets.c\<close>, \<open>socket/socket.c\<close>, the automatic bind of
  \<open>socket/send.c\<close>). A call runs under the write lock of its socket, so it is one step. \<open>None\<close> is a failed assertion,
  the boolean result is false for -1. What the kernel and the C library answer is the record \<open>kern\<close>.
\<close>

subsection \<open>State\<close>

datatype exa_bypass_state = EXA_BYPASS_DISABLED | EXA_BYPASS_INACTIVE | EXA_BYPASS_AVAIL | EXA_BYPASS_ACTIVE

fun bypass_level :: "exa_bypass_state \<Rightarrow> nat" where
  "bypass_level EXA_BYPASS_DISABLED = 0"
| "bypass_level EXA_BYPASS_INACTIVE = 1"
| "bypass_level EXA_BYPASS_AVAIL = 2"
| "bypass_level EXA_BYPASS_ACTIVE = 3"

instantiation exa_bypass_state :: linorder
begin

definition less_eq_exa_bypass_state :: "exa_bypass_state \<Rightarrow> exa_bypass_state \<Rightarrow> bool" where
  "less_eq_exa_bypass_state a b \<longleftrightarrow> bypass_level a \<le> bypass_level b"

definition less_exa_bypass_state :: "exa_bypass_state \<Rightarrow> exa_bypass_state \<Rightarrow> bool" where
  "less_exa_bypass_state a b \<longleftrightarrow> bypass_level a < bypass_level b"

instance
proof
  fix a b :: exa_bypass_state
  show "a \<le> b \<Longrightarrow> b \<le> a \<Longrightarrow> a = b"
    by (cases a; cases b) (simp_all add: less_eq_exa_bypass_state_def)
qed (auto simp: less_eq_exa_bypass_state_def less_exa_bypass_state_def)

end

record exanic_udp =
  udp_hdrs :: "exa_udp_tx \<times> net_tx"
  udp_exanic_ctx :: "nat option"

record usock =
  sk_valid :: bool
  bypass_state :: exa_bypass_state
  sk_bound :: bool
  sk_connected :: bool
  bound_to_device :: bool
  listen_interface :: "nat option"
  listen_all_if :: bool
  listen_mcast :: bool
  ctx_udp :: "exanic_udp option"
  ip_multicast_if :: u32
  ip_multicast_ttl :: u8
  mcast_num_not_bypassed :: u32
  mcast_listening_denominator_iface :: u32

record sock_net =
  net_ctxs :: ip_ctxs
  net_socks :: "nat \<Rightarrow> usock"
  net_table :: sock_table

text \<open>
  \<open>k_bind\<close> and \<open>k_connect\<close> are the two \<open>ioctl\<close> requests, \<open>k_open\<close> the replacement of the descriptor by an exasock one with its
  buffers (the end point of the native socket, if it succeeds), \<open>k_udp\<close> and \<open>k_memb\<close> the memory for a new context or membership,
  \<open>k_dst\<close> the table of neighbours, \<open>k_route\<close> the request for a source address, \<open>k_opt\<close> whether the kernel accepts a socket option.
\<close>

record kern =
  k_if :: if_env
  k_bind :: "u32 \<Rightarrow> u16 \<Rightarrow> u16 option"
  k_connect :: "u32 \<Rightarrow> u16 \<Rightarrow> (u32 \<times> u16) option"
  k_open :: "exa_endpoint option"
  k_udp :: "exanic_udp option"
  k_memb :: "nat option"
  k_dst :: "exa_dst_entry list"
  k_route :: "u32 \<Rightarrow> u32 \<Rightarrow> u32 option"
  k_opt :: bool

abbreviation (input) "INADDR_ANY \<equiv> 0 :: u32"

definition on_ctxs :: "(ip_ctxs \<Rightarrow> ip_ctxs) \<Rightarrow> sock_net \<Rightarrow> sock_net" where
  "on_ctxs f n = n\<lparr>net_ctxs := f (net_ctxs n)\<rparr>"

definition on_sock :: "nat \<Rightarrow> (usock \<Rightarrow> usock) \<Rightarrow> sock_net \<Rightarrow> sock_net" where
  "on_sock fd f n = n\<lparr>net_socks := (net_socks n)(fd := f (net_socks n fd))\<rparr>"

definition on_table :: "(sock_table \<Rightarrow> sock_table) \<Rightarrow> sock_net \<Rightarrow> sock_net" where
  "on_table f n = n\<lparr>net_table := f (net_table n)\<rparr>"

definition table_opt :: "(sock_table \<Rightarrow> sock_table option) \<Rightarrow> sock_net \<Rightarrow> sock_net option" where
  "table_opt f n = map_option (\<lambda>t. n\<lparr>net_table := t\<rparr>) (f (net_table n))"

abbreviation sk_bind :: "sock_net \<Rightarrow> nat \<Rightarrow> exa_endpoint" where
  "sk_bind n fd \<equiv> ht_bind (net_table n) fd"

definition set_bind :: "nat \<Rightarrow> exa_endpoint \<Rightarrow> sock_net \<Rightarrow> sock_net" where
  "set_bind fd ep = on_table (\<lambda>t. t\<lparr>ht_bind := (ht_bind t)(fd := ep)\<rparr>)"

subsection \<open>System calls\<close>

definition exa_sys_bind :: "kern \<Rightarrow> exa_endpoint \<Rightarrow> exa_endpoint option" where
  "exa_sys_bind k ep =
     map_option (\<lambda>port. if local_port ep = 0 then ep\<lparr>local_port := port\<rparr> else ep) (k_bind k (local_addr ep) (local_port ep))"

definition exa_sys_connect :: "kern \<Rightarrow> exa_endpoint \<Rightarrow> exa_endpoint option" where
  "exa_sys_connect k ep =
     map_option (\<lambda>(a, port).
         let ep1 = (if local_addr ep = 0 then ep\<lparr>local_addr := a\<rparr> else ep)
         in if local_port ep1 = 0 then ep1\<lparr>local_port := port\<rparr> else ep1) (k_connect k (peer_addr ep) (peer_port ep))"

definition exa_dst_lookup_src :: "kern \<Rightarrow> u32 \<Rightarrow> u32 \<Rightarrow> u32 option" where
  "exa_dst_lookup_src k dst src =
     (case exa_dst_lookup (k_dst k) dst src of Some i \<Rightarrow> Some (de_src_addr (k_dst k ! i)) | None \<Rightarrow> k_route k dst src)"

subsection \<open>Interfaces\<close>

definition exa_socket_holds_interfaces :: "usock \<Rightarrow> bool" where
  "exa_socket_holds_interfaces sk \<longleftrightarrow> listen_all_if sk \<or> listen_interface sk \<noteq> None"

definition exa_socket_release_interfaces :: "nat \<Rightarrow> sock_net \<Rightarrow> sock_net" where
  "exa_socket_release_interfaces fd n =
     (let n1 = (if listen_all_if (net_socks n fd) then on_ctxs exanic_ip_release_all n
                else case listen_interface (net_socks n fd) of None \<Rightarrow> n | Some ctx \<Rightarrow> on_ctxs (exanic_ip_release ctx) n)
      in on_sock fd (\<lambda>sk. sk\<lparr>listen_all_if := False, listen_interface := None\<rparr>) n1)"

definition release_old :: "nat \<Rightarrow> sock_net \<Rightarrow> sock_net" where
  "release_old fd n = (case listen_interface (net_socks n fd) of None \<Rightarrow> n | Some ctx \<Rightarrow> on_ctxs (exanic_ip_release ctx) n)"

definition exa_socket_update_interfaces :: "kern \<Rightarrow> nat \<Rightarrow> u32 \<Rightarrow> sock_net \<Rightarrow> bool \<times> sock_net" where
  "exa_socket_update_interfaces k fd addr n =
     (if bound_to_device (net_socks n fd) then (True, n)
      else if IN_MULTICAST (ntohl addr) then (True, exa_socket_release_interfaces fd n)
      else if addr = INADDR_ANY then
        (let n1 = (if \<not> listen_all_if (net_socks n fd) then on_ctxs (exanic_ip_acquire_all (k_if k)) n else n)
         in (True, on_sock fd (\<lambda>sk. sk\<lparr>listen_all_if := True, listen_interface := None\<rparr>) (release_old fd n1)))
      else
        case exanic_ip_acquire (k_if k) addr (net_ctxs n) of
          (None, s) \<Rightarrow> (False, n\<lparr>net_ctxs := s\<rparr>)
        | (Some ctx, s) \<Rightarrow>
            (let n1 = n\<lparr>net_ctxs := s\<rparr>;
                 n2 = (if listen_all_if (net_socks n1 fd) then on_ctxs exanic_ip_release_all n1 else n1)
             in (True, on_sock fd (\<lambda>sk. sk\<lparr>listen_all_if := False, listen_interface := Some ctx\<rparr>) (release_old fd n2))))"

subsection \<open>Memberships\<close>

definition memb_ifaces :: "sock_net \<Rightarrow> nat \<Rightarrow> u32 list" where
  "memb_ifaces n fd = map (\<lambda>m. mc_interface (mcast_ep (ht_memb (net_table n) m))) (ip_memberships (net_table n) fd)"

definition exa_socket_ip_memberships_get_denominator_iface :: "sock_net \<Rightarrow> nat \<Rightarrow> u32" where
  "exa_socket_ip_memberships_get_denominator_iface n fd =
     (case memb_ifaces n fd of
        [] \<Rightarrow> NOT INADDR_ANY
      | denom # rest \<Rightarrow>
          if list_ex (\<lambda>i. i = INADDR_ANY \<or> i \<noteq> denom \<and> denom \<noteq> INADDR_ANY) (denom # rest) then INADDR_ANY
          else if sk_bound (net_socks n fd) \<and> \<not> IN_MULTICAST (ntohl (local_addr (sk_bind n fd))) \<and> local_addr (sk_bind n fd) \<noteq> denom
          then INADDR_ANY else denom)"

definition update_denominator :: "nat \<Rightarrow> sock_net \<Rightarrow> sock_net" where
  "update_denominator fd n = on_sock fd (\<lambda>sk. sk\<lparr>mcast_listening_denominator_iface := exa_socket_ip_memberships_get_denominator_iface n fd\<rparr>) n"

definition memberships_add :: "kern \<Rightarrow> nat \<Rightarrow> exa_mcast_endpoint \<Rightarrow> sock_net \<Rightarrow> bool \<times> sock_net" where
  "memberships_add k fd mc n =
     (case k_memb k of
        None \<Rightarrow> (False, n)
      | Some m \<Rightarrow> (True, update_denominator fd (on_table (\<lambda>t. exa_socket_ip_memberships_add t m fd mc) n)))"

definition memberships_remove :: "nat \<Rightarrow> exa_mcast_endpoint \<Rightarrow> sock_net \<Rightarrow> sock_net" where
  "memberships_remove fd mc n =
     (case exa_socket_ip_memberships_remove (net_table n) fd mc of
        (None, _) \<Rightarrow> n
      | (Some m, t) \<Rightarrow> update_denominator fd (n\<lparr>net_table := t\<rparr>))"

definition memberships_remove_all :: "nat \<Rightarrow> sock_net \<Rightarrow> sock_net" where
  "memberships_remove_all fd n = update_denominator fd (on_table (\<lambda>t. t\<lparr>ip_memberships := (ip_memberships t)(fd := [])\<rparr>) n)"

definition exa_mcast_membership_has_multiaddr :: "sock_net \<Rightarrow> nat \<Rightarrow> u32 \<Rightarrow> bool" where
  "exa_mcast_membership_has_multiaddr n fd a \<longleftrightarrow>
     list_ex (\<lambda>m. a = multiaddr (mcast_ep (ht_memb (net_table n) m))) (ip_memberships (net_table n) fd)"

definition listen_denominator :: "kern \<Rightarrow> nat \<Rightarrow> sock_net \<Rightarrow> bool \<times> sock_net" where
  "listen_denominator k fd n =
     (case exa_socket_update_interfaces k fd (mcast_listening_denominator_iface (net_socks n fd)) n of
        (False, n1) \<Rightarrow> (False, n1)
      | (True, n1) \<Rightarrow> (True, on_sock fd (\<lambda>sk. sk\<lparr>listen_mcast := True\<rparr>) n1))"

definition exa_socket_add_mcast_interface :: "kern \<Rightarrow> nat \<Rightarrow> u32 \<Rightarrow> sock_net \<Rightarrow> bool \<times> sock_net" where
  "exa_socket_add_mcast_interface k fd addr_local n =
     (if addr_local = INADDR_ANY \<or> exa_mcast_membership_has_multiaddr n fd addr_local then listen_denominator k fd n else (True, n))"

definition exa_socket_add_mcast :: "kern \<Rightarrow> nat \<Rightarrow> exa_mcast_endpoint \<Rightarrow> sock_net \<Rightarrow> (bool \<times> sock_net) option" where
  "exa_socket_add_mcast k fd mc n =
     (if \<not> sk_bound (net_socks n fd) then None
      else if local_addr (sk_bind n fd) = INADDR_ANY \<or> exa_mcast_membership_has_multiaddr n fd (local_addr (sk_bind n fd))
      then
        (case listen_denominator k fd n of
           (False, n1) \<Rightarrow> Some (False, n1)
         | (True, n1) \<Rightarrow> map_option (Pair True) (table_opt (\<lambda>t. exa_udp_mcast_insert t fd mc) n1))
      else Some (True, n))"

definition exa_socket_del_mcast :: "kern \<Rightarrow> nat \<Rightarrow> exa_mcast_endpoint \<Rightarrow> sock_net \<Rightarrow> (bool \<times> sock_net) option" where
  "exa_socket_del_mcast k fd mc n =
     (if \<not> sk_bound (net_socks n fd) then None
      else
        let listening_addr = (if ip_memberships (net_table n) fd \<noteq> [] then mcast_listening_denominator_iface (net_socks n fd)
                              else local_addr (sk_bind n fd))
        in case exa_socket_update_interfaces k fd listening_addr n of
             (False, n1) \<Rightarrow> Some (False, n1)
           | (True, n1) \<Rightarrow>
               let n2 = (if ip_memberships (net_table n1) fd = [] then on_sock fd (\<lambda>sk. sk\<lparr>listen_mcast := False\<rparr>) n1 else n1)
               in map_option (Pair True) (table_opt (\<lambda>t. map_option snd (exa_udp_mcast_remove t fd mc)) n2))"

end
