(* ===== verification/SockCalls.thy ===== *)
theory SockCalls
  imports SockLayer
begin

text \<open>
  The calls of an application on a UDP socket, from the transmit context up to \<open>bind\<close>, \<open>connect\<close>, \<open>setsockopt\<close> and
  \<open>close\<close> (\<open>libs/exasock/exanic.c\<close>, \<open>sockets.c\<close>, \<open>socket/socket.c\<close>, \<open>socket/send.c\<close>).
\<close>

subsection \<open>The transmit context\<close>

definition exa_dst_init :: "exa_dst \<Rightarrow> exa_dst" where
  "exa_dst_init ctx = ctx\<lparr>dst_addr := INADDR_ANY, dst_src_addr := INADDR_ANY, no_lookup := True, dst_idx := None\<rparr>"

definition exanic_udp_alloc :: "kern \<Rightarrow> nat \<Rightarrow> sock_net \<Rightarrow> (bool \<times> sock_net) option" where
  "exanic_udp_alloc k fd n =
     (if ctx_udp (net_socks n fd) \<noteq> None then None
      else case k_udp k of
             None \<Rightarrow> Some (False, n)
           | Some mem \<Rightarrow>
               (let nt = snd (udp_hdrs mem);
                    nt1 = nt\<lparr>nt_eth := exa_eth_tx_init (nt_eth nt) ETH_P_IP, nt_ip := exa_ip_tx_init IPPROTO_UDP,
                            nt_dst := exa_dst_init (nt_dst nt), nt_dev := None\<rparr>
                in Some (True, on_sock fd (\<lambda>sk. sk\<lparr>ctx_udp := Some \<lparr>udp_hdrs = (exa_udp_tx_init, nt1), udp_exanic_ctx = None\<rparr>\<rparr>) n)))"

definition exanic_udp_free :: "nat \<Rightarrow> sock_net \<Rightarrow> sock_net option" where
  "exanic_udp_free fd n =
     (case ctx_udp (net_socks n fd) of
        None \<Rightarrow> None
      | Some u \<Rightarrow>
          (let n1 = (case udp_exanic_ctx u of None \<Rightarrow> n | Some ctx \<Rightarrow> on_ctxs (exanic_ip_release ctx) n)
           in Some (on_sock fd (\<lambda>sk. sk\<lparr>ctx_udp := None\<rparr>) n1)))"

definition udp_set_src :: "nat \<Rightarrow> exanic_udp \<Rightarrow> nat \<Rightarrow> u16 \<Rightarrow> sock_net \<Rightarrow> exanic_udp \<times> sock_net" where
  "udp_set_src fd u ctx port n =
     (let n1 = on_ctxs (exanic_ip_acquire_ref ctx) n;
          n2 = (case udp_exanic_ctx u of None \<Rightarrow> n1 | Some old \<Rightarrow> on_ctxs (exanic_ip_release old) n1);
          ip = ctx_mem (net_ctxs n2) ctx
      in (\<lparr>udp_hdrs = exanic_udp_set_src (udp_hdrs u) (Some (eth_dev_addr ip, vlan_id ip, if_address ip, if_dev ip)) port,
           udp_exanic_ctx = Some ctx\<rparr>, n2))"

definition udp_set_dest :: "exanic_udp \<Rightarrow> u32 \<Rightarrow> u16 \<Rightarrow> u8 \<Rightarrow> exanic_udp" where
  "udp_set_dest u a port ttl = u\<lparr>udp_hdrs := exanic_udp_set_dest (udp_hdrs u) a port ttl\<rparr>"

definition set_udp :: "nat \<Rightarrow> exanic_udp \<Rightarrow> sock_net \<Rightarrow> sock_net" where
  "set_udp fd u = on_sock fd (\<lambda>sk. sk\<lparr>ctx_udp := Some u\<rparr>)"

definition udp_src_addr :: "kern \<Rightarrow> usock \<Rightarrow> u32 \<Rightarrow> u32 \<Rightarrow> u32 option" where
  "udp_src_addr k sk local daddr =
     (if local \<noteq> INADDR_ANY \<and> \<not> IN_MULTICAST (ntohl local) then Some local
      else if IN_MULTICAST (ntohl daddr) then Some (ip_multicast_if sk)
      else exa_dst_lookup_src k daddr INADDR_ANY)"

definition exa_socket_udp_update_tx :: "kern \<Rightarrow> nat \<Rightarrow> u32 \<Rightarrow> u16 \<Rightarrow> sock_net \<Rightarrow> (bool \<times> sock_net) option" where
  "exa_socket_udp_update_tx k fd daddr dport n =
     (let sk = net_socks n fd; local = local_addr (sk_bind n fd); lport = local_port (sk_bind n fd);
          ttl = (if IN_MULTICAST (ntohl daddr) then ip_multicast_ttl sk else IPDEFTTL)
      in if \<not> sk_bound sk then None
         else case ctx_udp sk of
                None \<Rightarrow> None
              | Some u \<Rightarrow>
                  (let (udp, nt) = udp_hdrs u
                   in if ip_dst (nt_ip nt) = daddr
                      then Some (True, if uh_dport udp \<noteq> dport \<or> ip_ttl (nt_ip nt) \<noteq> ttl
                                       then set_udp fd (udp_set_dest u daddr dport ttl) n else n)
                      else case udp_src_addr k sk local daddr of
                             None \<Rightarrow> Some (False, n)
                           | Some src_addr \<Rightarrow>
                               if ip_src (nt_ip nt) = src_addr \<and> uh_sport udp = lport
                               then Some (True, set_udp fd (udp_set_dest u daddr dport ttl) n)
                               else
                                 (let (r, s) = (if src_addr = local \<and> listen_interface sk \<noteq> None
                                                then (listen_interface sk, exanic_ip_acquire_ref (the (listen_interface sk)) (net_ctxs n))
                                                else exanic_ip_acquire (k_if k) src_addr (net_ctxs n))
                                  in case r of
                                       None \<Rightarrow> Some (False, n\<lparr>net_ctxs := s\<rparr>)
                                     | Some ctx \<Rightarrow>
                                         (let (u1, n1) = udp_set_src fd u ctx lport (n\<lparr>net_ctxs := s\<rparr>)
                                          in Some (True, on_ctxs (exanic_ip_release ctx)
                                               (set_udp fd (udp_set_dest u1 daddr dport ttl) n1))))))"

subsection \<open>Bypass\<close>

definition table_insert :: "nat \<Rightarrow> sock_net \<Rightarrow> sock_net" where
  "table_insert fd n = (if exa_socket_holds_interfaces (net_socks n fd) then on_table (\<lambda>t. exa_udp_insert t fd) n else n)"

definition table_remove :: "nat \<Rightarrow> sock_net \<Rightarrow> sock_net option" where
  "table_remove fd n =
     (if exa_socket_holds_interfaces (net_socks n fd) then table_opt (\<lambda>t. map_option snd (exa_udp_remove t fd)) n else Some n)"

definition exa_socket_udp_enable_bypass :: "kern \<Rightarrow> nat \<Rightarrow> exa_endpoint \<Rightarrow> sock_net \<Rightarrow> (bool \<times> sock_net) option" where
  "exa_socket_udp_enable_bypass k fd ep n =
     (case exanic_udp_alloc k fd n of
        None \<Rightarrow> None
      | Some (False, n1) \<Rightarrow> Some (False, n1)
      | Some (True, n1) \<Rightarrow>
          (let bound = (local_addr ep \<noteq> INADDR_ANY \<or> local_port ep \<noteq> 0); n2 = set_bind fd ep n1
           in case (if bound then exa_socket_update_interfaces k fd (local_addr ep) n2 else (True, n2)) of
                (False, n3) \<Rightarrow> map_option (Pair False) (exanic_udp_free fd n3)
              | (True, n3) \<Rightarrow>
                  (let n4 = (if bound then on_sock fd (\<lambda>sk. sk\<lparr>sk_bound := True\<rparr>) n3 else n3);
                       connected = (sk_bound (net_socks n4 fd) \<and> (peer_addr ep \<noteq> INADDR_ANY \<or> peer_port ep \<noteq> 0))
                   in case (if connected then exa_socket_udp_update_tx k fd (peer_addr ep) (peer_port ep) n4 else Some (True, n4)) of
                        None \<Rightarrow> None
                      | Some (False, n5) \<Rightarrow>
                          map_option (Pair False) (exanic_udp_free fd (on_sock fd (\<lambda>sk. sk\<lparr>sk_bound := False\<rparr>) (exa_socket_release_interfaces fd n5)))
                      | Some (True, n5) \<Rightarrow>
                          Some (True, table_insert fd (if connected then on_sock fd (\<lambda>sk. sk\<lparr>sk_connected := True\<rparr>) n5 else n5)))))"

definition exa_socket_enable_bypass :: "kern \<Rightarrow> nat \<Rightarrow> sock_net \<Rightarrow> (bool \<times> sock_net) option" where
  "exa_socket_enable_bypass k fd n =
     (if bypass_state (net_socks n fd) = EXA_BYPASS_ACTIVE then None
      else case k_open k of
             None \<Rightarrow> Some (False, n)
           | Some ep \<Rightarrow>
               (case exa_socket_udp_enable_bypass k fd ep (on_sock fd (\<lambda>sk. sk\<lparr>bypass_state := EXA_BYPASS_ACTIVE\<rparr>) n) of
                  None \<Rightarrow> None
                | Some (False, n1) \<Rightarrow> Some (False, on_sock fd (\<lambda>sk. sk\<lparr>bypass_state := EXA_BYPASS_AVAIL\<rparr>) n1)
                | Some (True, n1) \<Rightarrow> Some (True, n1)))"

definition need_bypass :: "kern \<Rightarrow> nat \<Rightarrow> sock_net \<Rightarrow> (bool \<times> sock_net) option" where
  "need_bypass k fd n = (if bypass_state (net_socks n fd) \<noteq> EXA_BYPASS_ACTIVE then exa_socket_enable_bypass k fd n else Some (True, n))"

subsection \<open>Bind, connect, close\<close>

definition exa_socket_udp_bind :: "kern \<Rightarrow> nat \<Rightarrow> u32 \<Rightarrow> u16 \<Rightarrow> sock_net \<Rightarrow> (bool \<times> sock_net) option" where
  "exa_socket_udp_bind k fd addr port n =
     (if sk_bound (net_socks n fd) then None
      else case exa_socket_update_interfaces k fd addr n of
             (False, n1) \<Rightarrow> Some (False, n1)
           | (True, n1) \<Rightarrow>
               (case (if ip_memberships (net_table n1) fd \<noteq> [] then exa_socket_add_mcast_interface k fd addr n1 else (True, n1)) of
                  (False, n2) \<Rightarrow> Some (False, exa_socket_release_interfaces fd n2)
                | (True, n2) \<Rightarrow>
                    (let n3 = on_sock fd (\<lambda>sk. sk\<lparr>sk_bound := True\<rparr>) n2
                     in case exa_sys_bind k ((sk_bind n3 fd)\<lparr>local_addr := addr, local_port := port\<rparr>) of
                          None \<Rightarrow> Some (False, exa_socket_release_interfaces fd (on_sock fd (\<lambda>sk. sk\<lparr>sk_bound := False\<rparr>) n3))
                        | Some ep \<Rightarrow>
                            (let n4 = set_bind fd ep n3
                             in map_option (\<lambda>n5. (True, table_insert fd n5))
                                  (if listen_mcast (net_socks n4 fd) then table_opt (\<lambda>t. exa_udp_mcast_insert_all t fd) n4 else Some n4)))))"

definition exa_socket_udp_connect :: "kern \<Rightarrow> nat \<Rightarrow> u32 \<Rightarrow> u16 \<Rightarrow> sock_net \<Rightarrow> (bool \<times> sock_net) option" where
  "exa_socket_udp_connect k fd addr port n =
     (if \<not> sk_bound (net_socks n fd) \<or> sk_connected (net_socks n fd) then None
      else case exa_sys_connect k ((sk_bind n fd)\<lparr>peer_addr := addr, peer_port := port\<rparr>) of
             None \<Rightarrow> Some (False, n)
           | Some ep \<Rightarrow>
               (case table_remove fd n of
                  None \<Rightarrow> None
                | Some n1 \<Rightarrow>
                    (case exa_socket_update_interfaces k fd (local_addr ep) n1 of
                       (False, n2) \<Rightarrow> Some (False, table_insert fd n2)
                     | (True, n2) \<Rightarrow>
                         (case exa_socket_udp_update_tx k fd addr port n2 of
                            Some (True, n3) \<Rightarrow> Some (True, on_sock fd (\<lambda>sk. sk\<lparr>sk_connected := True\<rparr>) (table_insert fd (set_bind fd ep n3)))
                          | _ \<Rightarrow> None))))"

definition exa_socket_udp_target :: "kern \<Rightarrow> nat \<Rightarrow> u32 \<Rightarrow> u16 \<Rightarrow> sock_net \<Rightarrow> (bool \<times> sock_net) option" where
  "exa_socket_udp_target k fd daddr dport n =
     (if \<not> sk_bound (net_socks n fd) \<or> sk_connected (net_socks n fd) then None else exa_socket_udp_update_tx k fd daddr dport n)"

definition exa_socket_udp_remove :: "nat \<Rightarrow> sock_net \<Rightarrow> sock_net option" where
  "exa_socket_udp_remove fd n =
     (case (if listen_mcast (net_socks n fd) then table_opt (\<lambda>t. exa_udp_mcast_remove_all t fd) n else Some n) of
        None \<Rightarrow> None
      | Some n1 \<Rightarrow> table_remove fd n1)"

definition exa_socket_udp_free :: "nat \<Rightarrow> sock_net \<Rightarrow> sock_net option" where
  "exa_socket_udp_free fd n =
     map_option (on_sock fd (\<lambda>sk. sk\<lparr>sk_bound := False, bypass_state := EXA_BYPASS_DISABLED\<rparr>))
       (exanic_udp_free fd (exa_socket_release_interfaces fd n))"

definition zero_usock :: usock where
  "zero_usock = \<lparr>sk_valid = False, bypass_state = EXA_BYPASS_DISABLED, sk_bound = False, sk_connected = False, bound_to_device = False,
     listen_interface = None, listen_all_if = False, listen_mcast = False, ctx_udp = None, ip_multicast_if = 0, ip_multicast_ttl = 0,
     mcast_num_not_bypassed = 0, mcast_listening_denominator_iface = 0\<rparr>"

definition zero_endpoint :: exa_endpoint where
  "zero_endpoint = \<lparr>local_addr = 0, peer_addr = 0, local_port = 0, peer_port = 0\<rparr>"

definition exa_socket_zero :: "nat \<Rightarrow> sock_net \<Rightarrow> sock_net" where
  "exa_socket_zero fd n =
     on_table (\<lambda>t. t\<lparr>ht_next := (ht_next t)(Sock_item fd := None)\<rparr>)
       (set_bind fd zero_endpoint (on_sock fd (\<lambda>_. zero_usock) (memberships_remove_all fd n)))"

definition exa_socket_init :: "bool \<Rightarrow> nat \<Rightarrow> sock_net \<Rightarrow> sock_net" where
  "exa_socket_init default_disable fd n =
     on_table (\<lambda>t. t\<lparr>ip_memberships := (ip_memberships t)(fd := [])\<rparr>)
       (on_sock fd (\<lambda>sk. sk\<lparr>ip_multicast_if := INADDR_ANY, ip_multicast_ttl := 1, mcast_listening_denominator_iface := 0xFFFFFFFF,
          bypass_state := (if default_disable then EXA_BYPASS_INACTIVE else EXA_BYPASS_AVAIL)\<rparr>) n)"

definition sock_socket :: "bool \<Rightarrow> nat \<Rightarrow> sock_net \<Rightarrow> sock_net" where
  "sock_socket default_disable fd n =
     on_sock fd (\<lambda>sk. sk\<lparr>sk_valid := True\<rparr>) (exa_socket_init default_disable fd (exa_socket_zero fd n))"

definition sock_close :: "nat \<Rightarrow> sock_net \<Rightarrow> sock_net option" where
  "sock_close fd n =
     map_option (exa_socket_zero fd)
       (if bypass_state (net_socks n fd) = EXA_BYPASS_ACTIVE
        then case exa_socket_udp_remove fd n of None \<Rightarrow> None | Some n1 \<Rightarrow> exa_socket_udp_free fd n1
        else Some n)"

text \<open>\<open>native\<close> is the answer of the C library when the socket is not in bypass mode.\<close>

definition sock_bind :: "kern \<Rightarrow> bool \<Rightarrow> nat \<Rightarrow> u32 \<Rightarrow> u16 \<Rightarrow> sock_net \<Rightarrow> (bool \<times> sock_net) option" where
  "sock_bind k native fd addr port n =
     (case (if bypass_state (net_socks n fd) = EXA_BYPASS_AVAIL \<and> (addr = INADDR_ANY \<or> exanic_ip_find (k_if k) addr)
            then exa_socket_enable_bypass k fd n else Some (True, n)) of
        None \<Rightarrow> None
      | Some (False, n1) \<Rightarrow> Some (False, n1)
      | Some (True, n1) \<Rightarrow>
          if bypass_state (net_socks n1 fd) = EXA_BYPASS_ACTIVE then exa_socket_udp_bind k fd addr port n1 else Some (native, n1))"

definition connect_udp :: "kern \<Rightarrow> nat \<Rightarrow> u32 \<Rightarrow> u16 \<Rightarrow> sock_net \<Rightarrow> (bool \<times> sock_net) option" where
  "connect_udp k fd addr port n =
     (if \<not> sk_bound (net_socks n fd) \<or> sk_connected (net_socks n fd) then None
      else if listen_all_if (net_socks n fd) \<and> exa_dst_lookup_src k addr (local_addr (sk_bind n fd)) = None then Some (False, n)
      else exa_socket_udp_connect k fd addr port n)"

text \<open>\<open>native\<close> is the local address after a native \<open>connect\<close> that succeeded; it is 0 when it is not known.\<close>

definition sock_connect :: "kern \<Rightarrow> u32 option \<Rightarrow> nat \<Rightarrow> u32 \<Rightarrow> u16 \<Rightarrow> sock_net \<Rightarrow> (bool \<times> sock_net) option" where
  "sock_connect k native fd addr port n =
     (if bypass_state (net_socks n fd) = EXA_BYPASS_ACTIVE then connect_udp k fd addr port n
      else case native of
             None \<Rightarrow> Some (False, n)
           | Some name \<Rightarrow>
               if EXA_BYPASS_AVAIL \<le> bypass_state (net_socks n fd) \<and> exanic_ip_find (k_if k) name
               then exa_socket_enable_bypass k fd n else Some (True, n))"

definition auto_bind :: "kern \<Rightarrow> nat \<Rightarrow> u32 \<Rightarrow> sock_net \<Rightarrow> (bool \<times> sock_net) option" where
  "auto_bind k fd addr n =
     (let sk = net_socks n fd
      in if bypass_state sk = EXA_BYPASS_ACTIVE then Some (True, n)
         else if bypass_state sk \<le> EXA_BYPASS_INACTIVE then Some (True, n)
         else if IN_MULTICAST (ntohl addr) \<and> ip_multicast_if sk \<noteq> INADDR_ANY \<and> exanic_ip_find (k_if k) (ip_multicast_if sk) \<or>
                exa_dst_lookup_src k addr (local_addr (sk_bind n fd)) \<noteq> None
         then (case exa_socket_enable_bypass k fd n of
                 None \<Rightarrow> None
               | Some (False, n1) \<Rightarrow> Some (False, n1)
               | Some (True, n1) \<Rightarrow> exa_socket_udp_bind k fd 0 0 n1)
         else Some (True, n))"

subsection \<open>Options\<close>

datatype mreq = Mreqn nat u32 u32 | Mreq u32 u32 | Mreq_short

definition parse_mreq :: "if_env \<Rightarrow> (nat \<Rightarrow> string option) \<Rightarrow> mreq \<Rightarrow> (exa_mcast_endpoint \<times> bool) option" where
  "parse_mreq env if_indextoname opt =
     (case opt of
        Mreqn ifindex a grp \<Rightarrow>
          if ifindex \<noteq> 0
          then (case if_indextoname ifindex of
                  None \<Rightarrow> None
                | Some devname \<Rightarrow>
                    (let (is_exanic, found) = exanic_ip_find_by_interface env devname;
                         ifaddr = (case found of None \<Rightarrow> INADDR_ANY | Some x \<Rightarrow> x)
                     in if ifaddr = INADDR_ANY then None else Some (\<lparr>multiaddr = grp, mc_interface = ifaddr\<rparr>, is_exanic)))
          else Some (\<lparr>multiaddr = grp, mc_interface = a\<rparr>, exanic_ip_find env a)
      | Mreq a grp \<Rightarrow> Some (\<lparr>multiaddr = grp, mc_interface = a\<rparr>, exanic_ip_find env a)
      | Mreq_short \<Rightarrow> None)"

definition join_group :: "kern \<Rightarrow> nat \<Rightarrow> exa_mcast_endpoint \<Rightarrow> sock_net \<Rightarrow> (bool \<times> sock_net) option" where
  "join_group k fd mc n =
     (case memberships_add k fd mc n of
        (False, n1) \<Rightarrow> Some (False, n1)
      | (True, n1) \<Rightarrow>
          if sk_bound (net_socks n1 fd)
          then (case exa_socket_add_mcast k fd mc n1 of
                  None \<Rightarrow> None
                | Some (False, n2) \<Rightarrow> Some (False, memberships_remove fd mc n2)
                | Some (True, n2) \<Rightarrow> Some (True, n2))
          else Some (True, n1))"

definition bypass_join :: "kern \<Rightarrow> nat \<Rightarrow> exa_mcast_endpoint \<Rightarrow> sock_net \<Rightarrow> (bool \<times> sock_net) option" where
  "bypass_join k fd mc n =
     (case need_bypass k fd n of None \<Rightarrow> None | Some (False, n1) \<Rightarrow> Some (False, n1) | Some (True, n1) \<Rightarrow> join_group k fd mc n1)"

definition ip_add_membership :: "kern \<Rightarrow> (nat \<Rightarrow> string option) \<Rightarrow> nat \<Rightarrow> mreq \<Rightarrow> sock_net \<Rightarrow> (bool \<times> sock_net) option" where
  "ip_add_membership k names fd opt n =
     (let sk = net_socks n fd
      in case parse_mreq (k_if k) names opt of
           None \<Rightarrow> Some (False, n)
         | Some (mc, is_exanic) \<Rightarrow>
             if \<not> is_exanic \<and> mc_interface mc \<noteq> INADDR_ANY \<and> bypass_state sk = EXA_BYPASS_ACTIVE then Some (False, n)
             else if is_exanic \<and> EXA_BYPASS_AVAIL \<le> bypass_state sk \<and>
                     (0 < mcast_num_not_bypassed sk \<or> exa_socket_ip_memberships_find (net_table n) fd mc \<noteq> None) then Some (False, n)
             else if \<not> k_opt k then Some (False, n)
             else if is_exanic \<and> EXA_BYPASS_AVAIL \<le> bypass_state sk then bypass_join k fd mc n
             else Some (True, on_sock fd (\<lambda>s. s\<lparr>mcast_num_not_bypassed := mcast_num_not_bypassed s + 1\<rparr>) n))"

definition leave_group :: "kern \<Rightarrow> nat \<Rightarrow> exa_mcast_endpoint \<Rightarrow> sock_net \<Rightarrow> (bool \<times> sock_net) option" where
  "leave_group k fd mc n =
     (if sk_bound (net_socks n fd)
      then map_option (\<lambda>(ok, n1). (ok, memberships_remove fd mc n1)) (exa_socket_del_mcast k fd mc n)
      else Some (True, memberships_remove fd mc n))"

definition ip_drop_membership :: "kern \<Rightarrow> (nat \<Rightarrow> string option) \<Rightarrow> nat \<Rightarrow> mreq \<Rightarrow> sock_net \<Rightarrow> (bool \<times> sock_net) option" where
  "ip_drop_membership k names fd opt n =
     (let sk = net_socks n fd
      in case parse_mreq (k_if k) names opt of
           None \<Rightarrow> Some (False, n)
         | Some (mc, is_exanic) \<Rightarrow>
             if is_exanic \<and> EXA_BYPASS_AVAIL \<le> bypass_state sk
             then (if bypass_state sk \<noteq> EXA_BYPASS_ACTIVE then Some (False, n)
                   else if exa_socket_ip_memberships_find (net_table n) fd mc = None then Some (False, n)
                   else if \<not> k_opt k then Some (False, n)
                   else leave_group k fd mc n)
             else if mcast_num_not_bypassed sk = 0 then Some (False, n)
             else if \<not> k_opt k then Some (False, n)
             else Some (True, on_sock fd (\<lambda>s. s\<lparr>mcast_num_not_bypassed := mcast_num_not_bypassed s - 1\<rparr>) n))"

definition exa_mcast_listen :: "kern \<Rightarrow> (nat \<Rightarrow> string option) \<Rightarrow> nat \<Rightarrow> mreq \<Rightarrow> sock_net \<Rightarrow> (bool \<times> sock_net) option" where
  "exa_mcast_listen k names fd opt n =
     (let sk = net_socks n fd
      in if bypass_state sk \<le> EXA_BYPASS_INACTIVE then Some (False, n)
         else if 0 < mcast_num_not_bypassed sk then Some (False, n)
         else case parse_mreq (k_if k) names opt of
                None \<Rightarrow> Some (False, n)
              | Some (mc, is_exanic) \<Rightarrow>
                  if exa_socket_ip_memberships_find (net_table n) fd mc \<noteq> None then Some (False, n)
                  else if \<not> IN_MULTICAST (ntohl (multiaddr mc)) \<or> \<not> (is_exanic \<or> mc_interface mc = INADDR_ANY) then Some (False, n)
                  else bypass_join k fd mc n)"

definition exa_no_accel :: "nat \<Rightarrow> int \<Rightarrow> sock_net \<Rightarrow> bool \<times> sock_net" where
  "exa_no_accel fd val n =
     (let st = bypass_state (net_socks n fd)
      in if val \<noteq> 0 \<and> st = EXA_BYPASS_ACTIVE \<or> val = 0 \<and> st = EXA_BYPASS_DISABLED then (False, n)
         else (True, on_sock fd (\<lambda>sk. sk\<lparr>bypass_state := (if val \<noteq> 0 then EXA_BYPASS_DISABLED else EXA_BYPASS_AVAIL)\<rparr>) n))"

definition bind_to_device :: "kern \<Rightarrow> nat \<Rightarrow> string \<Rightarrow> sock_net \<Rightarrow> (bool \<times> sock_net) option" where
  "bind_to_device k fd ifname n =
     (case exanic_ip_find_by_interface (k_if k) (take 15 ifname) of
        (True, Some a) \<Rightarrow>
          if EXA_BYPASS_AVAIL \<le> bypass_state (net_socks n fd)
          then (case need_bypass k fd n of
                  None \<Rightarrow> None
                | Some (False, n1) \<Rightarrow> Some (False, n1)
                | Some (True, n1) \<Rightarrow>
                    (let n2 = snd (exa_socket_update_interfaces k fd a (on_sock fd (\<lambda>sk. sk\<lparr>bound_to_device := False\<rparr>) n1))
                     in Some (True, on_sock fd (\<lambda>sk. sk\<lparr>bound_to_device := True\<rparr>) n2)))
          else Some (True, on_sock fd (\<lambda>sk. sk\<lparr>bypass_state := EXA_BYPASS_DISABLED\<rparr>) n)
      | _ \<Rightarrow> Some (True, on_sock fd (\<lambda>sk. sk\<lparr>bypass_state := EXA_BYPASS_DISABLED\<rparr>) n))"

end
