(* ===== verification/SockRefs.thy ===== *)
theory SockRefs
  imports SockCalls
begin

text \<open>
  The reference counts of the interface contexts: what each operation on the list of contexts does to a table of
  references, and the references that sockets hold.
\<close>

subsection \<open>The list of contexts\<close>

text \<open>Memory that is given to a new context is not the memory of one in the list.\<close>

definition env_fresh :: "if_env \<Rightarrow> bool" where
  "env_fresh env \<longleftrightarrow> (\<forall>live ifname device port. \<forall>r\<in>set_option (ip_open env live ifname device port). fst r \<notin> set live)"

text \<open>\<open>R\<close> counts the references to each context, \<open>A\<close> the users of all interfaces. When nothing uses all interfaces, a context
  without a reference is there only while a cleanup is pending.\<close>

definition ctx_inv :: "(nat \<Rightarrow> int) \<Rightarrow> int \<Rightarrow> ip_ctxs \<Rightarrow> bool" where
  "ctx_inv R A s \<longleftrightarrow> distinct (exanic_ctx_list s) \<and> inj_on (\<lambda>c. if_address (ctx_mem s c)) (set (exanic_ctx_list s)) \<and>
     (\<forall>c\<in>set (exanic_ctx_list s). refcount (ctx_mem s c) = R c) \<and> (\<forall>c. 0 \<le> R c) \<and> (\<forall>c. R c \<noteq> 0 \<longrightarrow> c \<in> set (exanic_ctx_list s)) \<and>
     0 \<le> A \<and> exanic_ctx_all_refcount s = A \<and>
     (exanic_ctx_need_cleanup s \<or> 0 < A \<or> (\<forall>c\<in>set (exanic_ctx_list s). R c \<noteq> 0))"

lemma ctx_invI:
  assumes "distinct (exanic_ctx_list s)" "inj_on (\<lambda>c. if_address (ctx_mem s c)) (set (exanic_ctx_list s))"
    and "\<And>c. c \<in> set (exanic_ctx_list s) \<Longrightarrow> refcount (ctx_mem s c) = R c" "\<And>c. 0 \<le> R c"
    and "\<And>c. R c \<noteq> 0 \<Longrightarrow> c \<in> set (exanic_ctx_list s)" "0 \<le> A" "exanic_ctx_all_refcount s = A"
    and "exanic_ctx_need_cleanup s \<or> 0 < A \<or> (\<forall>c\<in>set (exanic_ctx_list s). R c \<noteq> 0)"
  shows "ctx_inv R A s"
  using assms unfolding ctx_inv_def by blast

lemma ctx_invD:
  assumes "ctx_inv R A s"
  shows "distinct (exanic_ctx_list s)" "inj_on (\<lambda>c. if_address (ctx_mem s c)) (set (exanic_ctx_list s))"
    and "\<And>c. c \<in> set (exanic_ctx_list s) \<Longrightarrow> refcount (ctx_mem s c) = R c" "\<And>c. 0 \<le> R c"
    and "\<And>c. R c \<noteq> 0 \<Longrightarrow> c \<in> set (exanic_ctx_list s)" "0 \<le> A" "exanic_ctx_all_refcount s = A"
    and "exanic_ctx_need_cleanup s \<or> 0 < A \<or> (\<forall>c\<in>set (exanic_ctx_list s). R c \<noteq> 0)"
  using assms unfolding ctx_inv_def by blast+

lemma add_ref_simps [simp]:
  "exanic_ctx_list (add_ref c d s) = exanic_ctx_list s" "exanic_ctx_all_refcount (add_ref c d s) = exanic_ctx_all_refcount s"
  "exanic_ctx_need_cleanup (add_ref c d s) = exanic_ctx_need_cleanup s" "if_address (ctx_mem (add_ref c d s) x) = if_address (ctx_mem s x)"
  "refcount (ctx_mem (add_ref c d s) x) = refcount (ctx_mem s x) + (if x = c then d else 0)"
  by (simp_all add: add_ref_def)

lemma acquire_ref_inv:
  assumes inv: "ctx_inv R A s" and c: "c \<in> set (exanic_ctx_list s)"
  shows "ctx_inv (R(c := R c + 1)) A (exanic_ip_acquire_ref c s)"
proof -
  have "R c + 1 \<noteq> 0" using ctx_invD(4) [OF inv, of c] by linarith
  then show ?thesis unfolding exanic_ip_acquire_ref_def
    by (intro ctx_invI) (use ctx_invD [OF inv] c in \<open>auto split: if_splits\<close>)
qed

lemma release_inv:
  assumes inv: "ctx_inv R A s" and c: "0 < R c"
  shows "ctx_inv (R(c := R c - 1)) A (exanic_ip_release c s)"
proof -
  let ?s = "add_ref c (- 1) s"
  note D = ctx_invD [OF inv]
  have "c \<in> set (exanic_ctx_list s)" using D(5) c by fastforce
  then have r: "refcount (ctx_mem ?s c) = R c - 1" using D(3) by simp
  have "exanic_ip_release c s = ?s\<lparr>exanic_ctx_need_cleanup := exanic_ctx_need_cleanup s \<or> R c = 1\<rparr>"
    unfolding exanic_ip_release_def Let_def r by (cases s) (simp add: add_ref_def)
  then show ?thesis using D c by (auto intro!: ctx_invI split: if_splits)
qed

lemma find_ctx_some: "find_ctx s a = Some c \<Longrightarrow> c \<in> set (exanic_ctx_list s) \<and> if_address (ctx_mem s c) = a"
  by (auto simp: find_ctx_def find_Some_iff)

lemma find_ctx_none: "find_ctx s a = None \<Longrightarrow> c \<in> set (exanic_ctx_list s) \<Longrightarrow> if_address (ctx_mem s c) \<noteq> a"
  by (auto simp: find_ctx_def find_None_iff)

lemma alloc_some:
  assumes "exanic_ip_alloc env live ifname device port vlan a nmask bcast = Some (c, ip)" "env_fresh env"
  shows "c \<notin> set live" "if_address ip = a" "refcount ip = 0"
  using assms unfolding exanic_ip_alloc_def env_fresh_def by (force split: prod.splits)+

lemma link_inv:
  assumes inv: "ctx_inv R A s" and c: "c \<notin> set (exanic_ctx_list s)" and a: "find_ctx s (if_address ip) = None"
    and k: "0 \<le> refcount ip" "0 < refcount ip \<or> 0 < A \<or> exanic_ctx_need_cleanup s"
  shows "ctx_inv (R(c := refcount ip)) A (link_ctx c ip s)"
proof (rule ctx_invI)
  note D = ctx_invD [OF inv]
  show "inj_on (\<lambda>x. if_address (ctx_mem (link_ctx c ip s) x)) (set (exanic_ctx_list (link_ctx c ip s)))"
  proof -
    have "inj_on (\<lambda>x. if x = c then if_address ip else if_address (ctx_mem s x)) (insert c (set (exanic_ctx_list s)))"
      using D(2) c find_ctx_none [OF a] unfolding inj_on_def by auto metis+
    moreover have "(\<lambda>x. if_address (ctx_mem (link_ctx c ip s) x)) = (\<lambda>x. if x = c then if_address ip else if_address (ctx_mem s x))"
      by (auto simp: link_ctx_def)
    ultimately show ?thesis by (simp add: link_ctx_def)
  qed
  show "exanic_ctx_need_cleanup (link_ctx c ip s) \<or> 0 < A \<or> (\<forall>d\<in>set (exanic_ctx_list (link_ctx c ip s)). (R(c := refcount ip)) d \<noteq> 0)"
    using D(8) k(2) by (auto simp: link_ctx_def)
qed (use ctx_invD [OF inv] c k in \<open>auto simp: link_ctx_def split: if_splits\<close>)

lemma acquire_inv:
  assumes inv: "ctx_inv R A s" and env: "env_fresh env" and ac: "exanic_ip_acquire env a s = (r, s')"
  shows "case r of None \<Rightarrow> s' = s | Some c \<Rightarrow> ctx_inv (R(c := R c + 1)) A s' \<and> c \<in> set (exanic_ctx_list s') \<and> if_address (ctx_mem s' c) = a"
proof (cases "find_ctx s a")
  case (Some c)
  then have rs: "r = Some c" "s' = add_ref c 1 s" using ac by (simp_all add: exanic_ip_acquire_def)
  show ?thesis using find_ctx_some [OF Some] acquire_ref_inv [OF inv, of c] by (simp add: rs exanic_ip_acquire_ref_def)
next
  case None
  show ?thesis
  proof (cases r)
    case None2: None
    then show ?thesis using ac None by (auto simp: exanic_ip_acquire_def split: option.splits)
  next
    case (Some c)
    then obtain ifname device port vlan nmask bcast ip where
      al: "exanic_ip_alloc env (exanic_ctx_list s) ifname device port vlan a nmask bcast = Some (c, ip)"
      and s': "s' = link_ctx c (ip\<lparr>refcount := refcount ip + 1\<rparr>) s"
      using ac None by (auto simp: exanic_ip_acquire_def split: option.splits prod.splits)
    note f = alloc_some [OF al env]
    have R: "R c = 0" using ctx_invD(5) [OF inv] f(1) by blast
    have "ctx_inv (R(c := 1)) A s'"
      using link_inv [OF inv f(1), of "ip\<lparr>refcount := refcount ip + 1\<rparr>"] None f by (simp add: s')
    then show ?thesis using f R by (simp add: Some s' link_ctx_def)
  qed
qed

lemma acquire_ifaddr_inv:
  assumes inv: "ctx_inv R A s" and env: "env_fresh env" and n: "exanic_ctx_need_cleanup s"
  shows "ctx_inv R A (acquire_ifaddr env ifa s) \<and> exanic_ctx_need_cleanup (acquire_ifaddr env ifa s)"
proof -
  have new: "ctx_inv R A (link_ctx c ip s)"
    if "exanic_ip_alloc env (exanic_ctx_list s) ifname device port vlan a nmask bcast = Some (c, ip)" "find_ctx s a = None"
    for ifname device port vlan a nmask bcast c ip
  proof -
    note f = alloc_some [OF that(1) env]
    have "R(c := refcount ip) = R" using ctx_invD(5) [OF inv] f by (auto simp: fun_eq_iff)
    then show ?thesis using link_inv [OF inv f(1), of ip] that(2) f n by simp
  qed
  have k: "exanic_ctx_need_cleanup (link_ctx c ip s)" for c ip using n by (simp add: link_ctx_def)
  show ?thesis unfolding acquire_ifaddr_def using inv n by (auto split: option.splits prod.splits simp: new k)
qed

lemma fold_acquire_inv:
  "ctx_inv R A s \<Longrightarrow> env_fresh env \<Longrightarrow> exanic_ctx_need_cleanup s \<Longrightarrow> ctx_inv R A (fold (acquire_ifaddr env) ifas s)"
  by (induction ifas arbitrary: s) (simp_all add: acquire_ifaddr_inv)

lemma acquire_ifaddr_flag:
  "acquire_ifaddr env ifa (s\<lparr>exanic_ctx_need_cleanup := b\<rparr>) = (acquire_ifaddr env ifa s)\<lparr>exanic_ctx_need_cleanup := b\<rparr>"
proof -
  have f: "find_ctx (s\<lparr>exanic_ctx_need_cleanup := b\<rparr>) a = find_ctx s a" for a by (simp add: find_ctx_def)
  have l: "link_ctx c ip (s\<lparr>exanic_ctx_need_cleanup := b\<rparr>) = (link_ctx c ip s)\<lparr>exanic_ctx_need_cleanup := b\<rparr>" for c ip by (simp add: link_ctx_def)
  show ?thesis unfolding acquire_ifaddr_def f by (auto split: option.split prod.split simp: l)
qed

lemma fold_acquire_flag:
  "fold (acquire_ifaddr env) ifas (s\<lparr>exanic_ctx_need_cleanup := b\<rparr>) = (fold (acquire_ifaddr env) ifas s)\<lparr>exanic_ctx_need_cleanup := b\<rparr>"
  by (induction ifas arbitrary: s) (simp_all add: acquire_ifaddr_flag)

lemma acquire_all_inv:
  assumes inv: "ctx_inv R A s" and env: "env_fresh env"
  shows "ctx_inv R (A + 1) (exanic_ip_acquire_all env s)"
proof -
  have up: "ctx_inv R (A + 1) (t\<lparr>exanic_ctx_all_refcount := exanic_ctx_all_refcount t + 1\<rparr>)"
    if "ctx_inv R A (t\<lparr>exanic_ctx_need_cleanup := True\<rparr>)" for t
    using ctx_invD [OF that] by (auto intro!: ctx_invI)
  have flag: "ctx_inv R A (s\<lparr>exanic_ctx_need_cleanup := True\<rparr>)" using ctx_invD [OF inv] by (auto intro!: ctx_invI)
  have fold: "ctx_inv R A ((fold (acquire_ifaddr env) ifas s)\<lparr>exanic_ctx_need_cleanup := True\<rparr>)" for ifas
    using fold_acquire_inv [OF flag env, of ifas] by (simp add: fold_acquire_flag)
  show ?thesis unfolding exanic_ip_acquire_all_def Let_def using up flag fold by (auto split: option.split)
qed

lemma release_all_inv:
  assumes inv: "ctx_inv R A s" and A: "0 < A"
  shows "ctx_inv R (A - 1) (exanic_ip_release_all s)"
  using ctx_invD [OF inv] A unfolding exanic_ip_release_all_def Let_def by (auto intro!: ctx_invI)

lemma unlink_drop: "unlink_free mem (drop_heads mem l) = filter (\<lambda>c. refcount (mem c) \<noteq> 0) l"
proof -
  have u: "refcount (mem i) \<noteq> 0 \<Longrightarrow> unlink_free mem (i # l) = filter (\<lambda>c. refcount (mem c) \<noteq> 0) (i # l)" for i l
    by (induction l arbitrary: i) simp_all
  show ?thesis by (induction l) (simp_all add: u)
qed

lemma cleanup_inv:
  assumes inv: "ctx_inv R A s"
  shows "ctx_inv R A (poll_cleanup s)" "{c. R c \<noteq> 0} \<subseteq> set (exanic_ctx_list (poll_cleanup s))"
    "A = 0 \<Longrightarrow> set (exanic_ctx_list (poll_cleanup s)) = {c. R c \<noteq> 0}"
proof -
  note D = ctx_invD [OF inv]
  have set: "set (filter (\<lambda>c. refcount (ctx_mem s c) \<noteq> 0) (exanic_ctx_list s)) = {c. R c \<noteq> 0}" using D(3,5) by auto
  show "A = 0 \<Longrightarrow> set (exanic_ctx_list (poll_cleanup s)) = {c. R c \<noteq> 0}"
    unfolding poll_cleanup_def exanic_ip_cleanup_def unlink_drop using D set by auto
  show "{c. R c \<noteq> 0} \<subseteq> set (exanic_ctx_list (poll_cleanup s))"
    unfolding poll_cleanup_def exanic_ip_cleanup_def unlink_drop using D set by auto
  show "ctx_inv R A (poll_cleanup s)"
    unfolding poll_cleanup_def exanic_ip_cleanup_def unlink_drop
    using D set by (auto intro!: ctx_invI simp: inj_on_def)
qed

subsection \<open>What sockets hold\<close>

definition sock_refs :: "usock \<Rightarrow> nat \<Rightarrow> int" where
  "sock_refs sk c = of_bool (listen_interface sk = Some c) + of_bool (\<exists>u. ctx_udp sk = Some u \<and> udp_exanic_ctx u = Some c)"

definition held :: "nat \<Rightarrow> sock_net \<Rightarrow> nat \<Rightarrow> int" where
  "held N n c = (\<Sum>fd<N. sock_refs (net_socks n fd) c)"

definition all_held :: "nat \<Rightarrow> sock_net \<Rightarrow> int" where
  "all_held N n = (\<Sum>fd<N. of_bool (listen_all_if (net_socks n fd)))"

definition no_refs :: "usock \<Rightarrow> bool" where
  "no_refs sk \<longleftrightarrow> \<not> listen_all_if sk \<and> listen_interface sk = None \<and> ctx_udp sk = None"

definition one_listen :: "usock \<Rightarrow> bool" where
  "one_listen sk \<longleftrightarrow> \<not> listen_all_if sk \<or> listen_interface sk = None"

definition counted :: "nat \<Rightarrow> sock_net \<Rightarrow> bool" where
  "counted N n \<longleftrightarrow> ctx_inv (held N n) (all_held N n) (net_ctxs n) \<and> (\<forall>fd. one_listen (net_socks n fd))"

lemma sum_upd:
  fixes g :: "'a \<Rightarrow> int" and f :: "nat \<Rightarrow> 'a"
  assumes "fd < N"
  shows "(\<Sum>i<N. g ((f(fd := x)) i)) = (\<Sum>i<N. g (f i)) - g (f fd) + g x"
proof -
  have "(\<Sum>i\<in>{..<N} - {fd}. g ((f(fd := x)) i)) = (\<Sum>i\<in>{..<N} - {fd}. g (f i))" by (rule sum.cong) auto
  moreover have "fd \<in> {..<N}" "finite {..<N}" using assms by simp_all
  ultimately show ?thesis using sum.remove [of "{..<N}" fd "\<lambda>i. g ((f(fd := x)) i)"] sum.remove [of "{..<N}" fd "\<lambda>i. g (f i)"]
    by (simp del: fun_upd_apply add: fun_upd_same)
qed

lemma sock_refs_nonneg [simp]: "0 \<le> sock_refs sk c"
  by (simp add: sock_refs_def)

lemma held_ge: "fd < N \<Longrightarrow> sock_refs (net_socks n fd) c \<le> held N n c"
  unfolding held_def by (rule member_le_sum) auto

lemma all_held_ge: "fd < N \<Longrightarrow> listen_all_if (net_socks n fd) \<Longrightarrow> 0 < all_held N n"
  unfolding all_held_def using member_le_sum [of fd "{..<N}" "\<lambda>fd. of_bool (listen_all_if (net_socks n fd)) :: int"] by simp

text \<open>A step that changes one socket keeps the counts when the contexts change with its references.\<close>

lemma counted_step:
  assumes "counted N n" "fd < N" "net_socks n' = (net_socks n)(fd := sk)" "one_listen sk"
    and "ctx_inv (\<lambda>c. held N n c - sock_refs (net_socks n fd) c + sock_refs sk c)
           (all_held N n - of_bool (listen_all_if (net_socks n fd)) + of_bool (listen_all_if sk)) (net_ctxs n')"
  shows "counted N n'"
proof -
  have "held N n' = (\<lambda>c. held N n c - sock_refs (net_socks n fd) c + sock_refs sk c)"
    unfolding held_def assms(3) by (intro ext sum_upd assms(2))
  moreover have "all_held N n' = all_held N n - of_bool (listen_all_if (net_socks n fd)) + of_bool (listen_all_if sk)"
    unfolding all_held_def assms(3) by (rule sum_upd [OF assms(2)])
  ultimately show ?thesis using assms by (simp add: counted_def)
qed

lemma counted_cong:
  assumes "counted N n" "net_ctxs n' = net_ctxs n" "net_socks n' = (net_socks n)(fd := sk)"
    and "listen_interface sk = listen_interface (net_socks n fd)" "listen_all_if sk = listen_all_if (net_socks n fd)" "ctx_udp sk = ctx_udp (net_socks n fd)"
  shows "counted N n'"
proof -
  have e: "sock_refs (net_socks n' i) = sock_refs (net_socks n i)" "listen_all_if (net_socks n' i) = listen_all_if (net_socks n i)"
      "one_listen (net_socks n' i) = one_listen (net_socks n i)" for i
    using assms by (auto simp: sock_refs_def one_listen_def fun_eq_iff)
  have "held N n' = held N n" by (intro ext) (simp add: held_def e(1))
  moreover have "all_held N n' = all_held N n" unfolding all_held_def e(2) ..
  ultimately show ?thesis using assms(1,2) by (simp add: counted_def e(3))
qed

lemmas net_defs = on_ctxs_def on_sock_def on_table_def table_opt_def set_bind_def set_udp_def

lemma counted_simps [simp]:
  "counted N (on_table f n) = counted N n" "counted N (set_bind fd ep n) = counted N n" "counted N (n\<lparr>net_table := t\<rparr>) = counted N n"
proof -
  have that: "counted N n' = counted N n" if "net_ctxs n' = net_ctxs n" "net_socks n' = net_socks n" for n'
  proof -
    have "held N n' = held N n" "all_held N n' = all_held N n" by (intro ext) (simp_all only: held_def all_held_def that)
    then show ?thesis by (simp only: counted_def that)
  qed
  show "counted N (on_table f n) = counted N n" by (rule that) (simp_all add: net_defs)
  show "counted N (set_bind fd ep n) = counted N n" by (rule that) (simp_all add: net_defs)
  show "counted N (n\<lparr>net_table := t\<rparr>) = counted N n" by (rule that) simp_all
qed

lemma counted_on_sock:
  assumes "counted N n" "listen_interface (f (net_socks n fd)) = listen_interface (net_socks n fd)"
    "listen_all_if (f (net_socks n fd)) = listen_all_if (net_socks n fd)" "ctx_udp (f (net_socks n fd)) = ctx_udp (net_socks n fd)"
  shows "counted N (on_sock fd f n)"
  by (rule counted_cong [OF assms(1), of _ fd "f (net_socks n fd)"]) (simp_all add: on_sock_def assms)

subsection \<open>Interfaces\<close>

lemma release_counted:
  assumes "counted N n" "fd < N"
  shows "counted N (exa_socket_release_interfaces fd n)"
proof (rule counted_step [OF assms])
  let ?sk = "net_socks n fd"
  let ?sk' = "?sk\<lparr>listen_all_if := False, listen_interface := None\<rparr>"
  show "net_socks (exa_socket_release_interfaces fd n) = (net_socks n)(fd := ?sk')"
    by (simp add: exa_socket_release_interfaces_def net_defs split: option.split)
  show "one_listen ?sk'" by (simp add: one_listen_def)
  have inv: "ctx_inv (held N n) (all_held N n) (net_ctxs n)" and one: "one_listen ?sk" using assms(1) by (simp_all add: counted_def)
  show "ctx_inv (\<lambda>c. held N n c - sock_refs ?sk c + sock_refs ?sk' c)
     (all_held N n - of_bool (listen_all_if ?sk) + of_bool (listen_all_if ?sk')) (net_ctxs (exa_socket_release_interfaces fd n))"
  proof (cases "listen_all_if ?sk")
    case True
    then have "sock_refs ?sk' = sock_refs ?sk" using one by (auto simp: sock_refs_def one_listen_def)
    then show ?thesis using True release_all_inv [OF inv all_held_ge [OF assms(2) True]]
      by (simp add: exa_socket_release_interfaces_def net_defs)
  next
    case all: False
    show ?thesis
    proof (cases "listen_interface ?sk")
      case None
      then have "sock_refs ?sk' = sock_refs ?sk" by (auto simp: sock_refs_def)
      then show ?thesis using None all inv by (simp add: exa_socket_release_interfaces_def net_defs)
    next
      case (Some ctx)
      have R: "(\<lambda>c. held N n c - sock_refs ?sk c + sock_refs ?sk' c) = (held N n)(ctx := held N n ctx - 1)"
        using Some by (auto simp: sock_refs_def fun_eq_iff)
      have "0 < sock_refs ?sk ctx" using Some by (simp add: sock_refs_def add_pos_nonneg)
      then have "0 < held N n ctx" using held_ge [OF assms(2), of n ctx] by linarith
      then show ?thesis using release_inv [OF inv, of ctx] Some all unfolding R by (simp add: exa_socket_release_interfaces_def net_defs)
    qed
  qed
qed

lemma release_frame:
  "net_table (exa_socket_release_interfaces fd n) = net_table n"
  "net_socks (exa_socket_release_interfaces fd n) = (net_socks n)(fd := (net_socks n fd)\<lparr>listen_all_if := False, listen_interface := None\<rparr>)"
  by (simp_all add: exa_socket_release_interfaces_def net_defs split: option.split)

lemma release_old_frame [simp]: "net_table (release_old fd n) = net_table n" "net_socks (release_old fd n) = net_socks n"
  by (simp_all add: release_old_def net_defs split: option.split)

lemma update_frame:
  assumes "exa_socket_update_interfaces k fd a n = (b, n')"
  shows "net_table n' = net_table n" "\<exists>x y. net_socks n' = (net_socks n)(fd := (net_socks n fd)\<lparr>listen_all_if := x, listen_interface := y\<rparr>) \<and>
      (b \<and> \<not> bound_to_device (net_socks n fd) \<and> \<not> IN_MULTICAST (ntohl a) \<longrightarrow> x \<or> y \<noteq> None) \<and>
      (\<not> b \<or> bound_to_device (net_socks n fd) \<longrightarrow> x = listen_all_if (net_socks n fd) \<and> y = listen_interface (net_socks n fd))"
proof -
  show "net_table n' = net_table n" using assms
    by (auto simp: exa_socket_update_interfaces_def Let_def release_frame net_defs split: if_splits prod.splits option.splits)
  have same: "(net_socks n)(fd := (net_socks n fd)\<lparr>listen_all_if := listen_all_if (net_socks n fd), listen_interface := listen_interface (net_socks n fd)\<rparr>) = net_socks n"
    by (auto simp: fun_eq_iff)
  show "\<exists>x y. net_socks n' = (net_socks n)(fd := (net_socks n fd)\<lparr>listen_all_if := x, listen_interface := y\<rparr>) \<and>
      (b \<and> \<not> bound_to_device (net_socks n fd) \<and> \<not> IN_MULTICAST (ntohl a) \<longrightarrow> x \<or> y \<noteq> None) \<and>
      (\<not> b \<or> bound_to_device (net_socks n fd) \<longrightarrow> x = listen_all_if (net_socks n fd) \<and> y = listen_interface (net_socks n fd))"
  proof (cases "bound_to_device (net_socks n fd)")
    case True
    then show ?thesis using assms same
      by (intro exI [of _ "listen_all_if (net_socks n fd)"] exI [of _ "listen_interface (net_socks n fd)"]) (simp add: exa_socket_update_interfaces_def)
  next
    case dev: False
    show ?thesis
    proof (cases b)
      case False
      then have "net_socks n' = net_socks n" using assms dev
        by (auto simp: exa_socket_update_interfaces_def Let_def net_defs split: if_splits prod.splits option.splits)
      then show ?thesis using False same
        by (intro exI [of _ "listen_all_if (net_socks n fd)"] exI [of _ "listen_interface (net_socks n fd)"]) simp
    next
      case b: True
      show ?thesis
      proof (cases "IN_MULTICAST (ntohl a)")
        case True
        then have "n' = exa_socket_release_interfaces fd n" using assms dev by (simp add: exa_socket_update_interfaces_def)
        then show ?thesis using dev b True by (intro exI [of _ False] exI [of _ None]) (simp add: release_frame)
      next
        case mc: False
        show ?thesis
        proof (cases "a = 0")
          case True
          then show ?thesis using assms dev mc b
            by (intro exI [of _ True] exI [of _ None]) (auto simp: exa_socket_update_interfaces_def Let_def net_defs split: if_splits)
        next
          case False
          then obtain ctx s where "exanic_ip_acquire (k_if k) a (net_ctxs n) = (Some ctx, s)"
            using assms dev mc b by (auto simp: exa_socket_update_interfaces_def split: prod.splits option.splits)
          then show ?thesis using assms dev mc b False
            by (intro exI [of _ False] exI [of _ "Some ctx"]) (auto simp: exa_socket_update_interfaces_def Let_def net_defs split: if_splits)
        qed
      qed
    qed
  qed
qed

lemma release_old_inv:
  assumes inv: "ctx_inv R A (net_ctxs n)" and pos: "\<And>c. listen_interface (net_socks n fd) = Some c \<Longrightarrow> 0 < R c"
  shows "ctx_inv (\<lambda>c. R c - of_bool (listen_interface (net_socks n fd) = Some c)) A (net_ctxs (release_old fd n))"
proof (cases "listen_interface (net_socks n fd)")
  case None
  then show ?thesis using inv by (simp add: release_old_def)
next
  case (Some ctx)
  have "(\<lambda>c. R c - of_bool (Some ctx = Some c)) = R(ctx := R ctx - 1)" by (auto simp: fun_eq_iff)
  then show ?thesis using release_inv [OF inv pos [OF Some]] Some by (simp add: release_old_def net_defs)
qed

lemma listen_pos: "fd < N \<Longrightarrow> listen_interface (net_socks n fd) = Some c \<Longrightarrow> 0 < held N n c"
proof -
  assume "fd < N" "listen_interface (net_socks n fd) = Some c"
  then have "0 < sock_refs (net_socks n fd) c" by (simp add: sock_refs_def add_pos_nonneg)
  then show ?thesis using held_ge [OF \<open>fd < N\<close>, of n c] by linarith
qed

lemma update_counted:
  assumes c: "counted N n" "fd < N" and env: "env_fresh (k_if k)" and u: "exa_socket_update_interfaces k fd a n = (b, n')"
  shows "counted N n'"
proof -
  let ?sk = "net_socks n fd"
  have inv: "ctx_inv (held N n) (all_held N n) (net_ctxs n)" using c(1) by (simp add: counted_def)
  note pos = listen_pos [OF c(2), of n]
  show ?thesis
  proof (cases "bound_to_device ?sk \<or> IN_MULTICAST (ntohl a)")
    case True
    then show ?thesis using u c release_counted [OF c] by (auto simp: exa_socket_update_interfaces_def split: if_splits)
  next
    case single: False
    show ?thesis
    proof (cases "a = 0")
      case True
      define n1 where "n1 = (if \<not> listen_all_if ?sk then on_ctxs (exanic_ip_acquire_all (k_if k)) n else n)"
      have n1: "net_socks n1 = net_socks n" by (simp add: n1_def net_defs)
      have n': "n' = on_sock fd (\<lambda>sk. sk\<lparr>listen_all_if := True, listen_interface := None\<rparr>) (release_old fd n1)"
        using u single True by (simp add: exa_socket_update_interfaces_def n1_def Let_def)
      let ?sk' = "?sk\<lparr>listen_all_if := True, listen_interface := None\<rparr>"
      have "ctx_inv (held N n) (all_held N n + of_bool (\<not> listen_all_if ?sk)) (net_ctxs n1)"
        using inv acquire_all_inv [OF inv env] by (simp add: n1_def net_defs)
      then have i: "ctx_inv (\<lambda>c. held N n c - of_bool (listen_interface ?sk = Some c)) (all_held N n + of_bool (\<not> listen_all_if ?sk)) (net_ctxs n')"
        using release_old_inv [of "held N n" _ n1 fd] pos by (simp add: n1 n' net_defs)
      have "(\<lambda>c. held N n c - of_bool (listen_interface ?sk = Some c)) = (\<lambda>c. held N n c - sock_refs ?sk c + sock_refs ?sk' c)"
          "all_held N n + of_bool (\<not> listen_all_if ?sk) = all_held N n - of_bool (listen_all_if ?sk) + of_bool (listen_all_if ?sk')"
        by (auto simp: sock_refs_def fun_eq_iff)
      then show ?thesis using i n1
        by (cases "listen_all_if ?sk"; intro counted_step [OF c, of _ ?sk']) (simp_all add: n' net_defs one_listen_def)
    next
      case False
      obtain r s where ac: "exanic_ip_acquire (k_if k) a (net_ctxs n) = (r, s)" by fastforce
      note acq = acquire_inv [OF inv env ac]
      show ?thesis
      proof (cases r)
        case None
        then have "n' = n" using u single False ac acq by (simp add: exa_socket_update_interfaces_def)
        then show ?thesis using c(1) by simp
      next
        case (Some ctx)
        let ?R = "(held N n)(ctx := held N n ctx + 1)"
        define n2 where "n2 = (if listen_all_if ?sk then on_ctxs exanic_ip_release_all (n\<lparr>net_ctxs := s\<rparr>) else n\<lparr>net_ctxs := s\<rparr>)"
        have n2: "net_socks n2 = net_socks n" by (simp add: n2_def net_defs)
        have n': "n' = on_sock fd (\<lambda>sk. sk\<lparr>listen_all_if := False, listen_interface := Some ctx\<rparr>) (release_old fd n2)"
          using u single False ac Some by (simp add: exa_socket_update_interfaces_def n2_def Let_def)
        let ?sk' = "?sk\<lparr>listen_all_if := False, listen_interface := Some ctx\<rparr>"
        have s: "ctx_inv ?R (all_held N n) s" using acq Some by simp
        have "ctx_inv ?R (all_held N n - of_bool (listen_all_if ?sk)) (net_ctxs n2)"
          using s release_all_inv [OF s] all_held_ge [OF c(2)] by (simp add: n2_def net_defs)
        moreover have "listen_interface ?sk = Some x \<Longrightarrow> 0 < ?R x" for x using pos ctx_invD(4) [OF inv, of x] by (auto intro: add_nonneg_pos)
        ultimately have i: "ctx_inv (\<lambda>c. ?R c - of_bool (listen_interface ?sk = Some c)) (all_held N n - of_bool (listen_all_if ?sk)) (net_ctxs n')"
          using release_old_inv [of ?R _ n2 fd] by (simp add: n2 n' net_defs)
        have "(\<lambda>c. ?R c - of_bool (listen_interface ?sk = Some c)) = (\<lambda>c. held N n c - sock_refs ?sk c + sock_refs ?sk' c)"
            "all_held N n - of_bool (listen_all_if ?sk) = all_held N n - of_bool (listen_all_if ?sk) + of_bool (listen_all_if ?sk')"
          by (auto simp: sock_refs_def fun_eq_iff)
        then show ?thesis using i n2 by (intro counted_step [OF c, of _ ?sk']) (simp_all add: n' net_defs one_listen_def)
      qed
    qed
  qed
qed

subsection \<open>The transmit context\<close>

lemma alloc_counted:
  assumes "counted N n" "fd < N" "exanic_udp_alloc k fd n = Some (b, n')"
  shows "counted N n'" "net_table n' = net_table n"
    "net_socks n' = (net_socks n)(fd := (net_socks n fd)\<lparr>ctx_udp := ctx_udp (net_socks n' fd)\<rparr>)"
    "b \<Longrightarrow> ctx_udp (net_socks n' fd) \<noteq> None" "\<not> b \<Longrightarrow> n' = n"
proof -
  have none: "ctx_udp (net_socks n fd) = None" using assms(3) by (auto simp: exanic_udp_alloc_def split: if_splits)
  have "b \<longrightarrow> (\<exists>u. n' = on_sock fd (\<lambda>sk. sk\<lparr>ctx_udp := Some u\<rparr>) n \<and> udp_exanic_ctx u = None)" "\<not> b \<longrightarrow> n' = n"
    using assms(3) by (auto simp: exanic_udp_alloc_def Let_def split: if_splits option.splits)
  moreover have "counted N (on_sock fd (\<lambda>sk. sk\<lparr>ctx_udp := Some u\<rparr>) n)" if "udp_exanic_ctx u = None" for u
  proof (rule counted_step [OF assms(1,2), of _ "(net_socks n fd)\<lparr>ctx_udp := Some u\<rparr>"])
    have "sock_refs ((net_socks n fd)\<lparr>ctx_udp := Some u\<rparr>) = sock_refs (net_socks n fd)" using none that by (auto simp: sock_refs_def)
    then show "ctx_inv (\<lambda>c. held N n c - sock_refs (net_socks n fd) c + sock_refs ((net_socks n fd)\<lparr>ctx_udp := Some u\<rparr>) c)
        (all_held N n - of_bool (listen_all_if (net_socks n fd)) + of_bool (listen_all_if ((net_socks n fd)\<lparr>ctx_udp := Some u\<rparr>)))
        (net_ctxs (on_sock fd (\<lambda>sk. sk\<lparr>ctx_udp := Some u\<rparr>) n))"
      using assms(1) by (simp add: counted_def net_defs)
  qed (use assms(1) in \<open>simp_all add: net_defs one_listen_def counted_def\<close>)
  ultimately show "counted N n'" "net_table n' = net_table n"
    "net_socks n' = (net_socks n)(fd := (net_socks n fd)\<lparr>ctx_udp := ctx_udp (net_socks n' fd)\<rparr>)"
    "b \<Longrightarrow> ctx_udp (net_socks n' fd) \<noteq> None" "\<not> b \<Longrightarrow> n' = n"
    using assms(1) by (cases b; force simp: net_defs)+
qed

lemma free_counted:
  assumes "counted N n" "fd < N" "exanic_udp_free fd n = Some n'"
  shows "counted N n'" "net_table n' = net_table n" "net_socks n' = (net_socks n)(fd := (net_socks n fd)\<lparr>ctx_udp := None\<rparr>)"
proof -
  let ?sk = "net_socks n fd"
  let ?sk' = "?sk\<lparr>ctx_udp := None\<rparr>"
  obtain u where u: "ctx_udp ?sk = Some u" using assms(3) by (auto simp: exanic_udp_free_def split: option.splits)
  show t: "net_table n' = net_table n" "net_socks n' = (net_socks n)(fd := ?sk')"
    using assms(3) by (auto simp: exanic_udp_free_def u net_defs split: option.splits)
  have inv: "ctx_inv (held N n) (all_held N n) (net_ctxs n)" using assms(1) by (simp add: counted_def)
  show "counted N n'"
  proof (rule counted_step [OF assms(1,2) t(2)])
    show "ctx_inv (\<lambda>c. held N n c - sock_refs ?sk c + sock_refs ?sk' c)
      (all_held N n - of_bool (listen_all_if ?sk) + of_bool (listen_all_if ?sk')) (net_ctxs n')"
    proof (cases "udp_exanic_ctx u")
      case None
      then have "sock_refs ?sk' = sock_refs ?sk" using u by (auto simp: sock_refs_def)
      then show ?thesis using inv None u assms(3) by (auto simp: exanic_udp_free_def net_defs)
    next
      case (Some ctx)
      have R: "(\<lambda>c. held N n c - sock_refs ?sk c + sock_refs ?sk' c) = (held N n)(ctx := held N n ctx - 1)"
        using Some u by (auto simp: sock_refs_def fun_eq_iff)
      have "0 < sock_refs ?sk ctx" using Some u by (simp add: sock_refs_def)
      then have "0 < held N n ctx" using held_ge [OF assms(2), of n ctx] by linarith
      then show ?thesis using release_inv [OF inv, of ctx] Some u assms(3) unfolding R by (auto simp: exanic_udp_free_def net_defs)
    qed
  qed (use assms(1) in \<open>simp add: counted_def one_listen_def\<close>)
qed

lemma src_counted:
  assumes c: "counted N n" "fd < N" and u: "ctx_udp (net_socks n fd) = Some u"
    and s: "ctx_inv ((held N n)(ctx := held N n ctx + 1)) (all_held N n) s" "ctx \<in> set (exanic_ctx_list s)"
    and r: "udp_set_src fd u ctx p (n\<lparr>net_ctxs := s\<rparr>) = (u1, n1)"
    and n': "n' = on_ctxs (exanic_ip_release ctx) (set_udp fd (udp_set_dest u1 a q t) n1)"
  shows "counted N n' \<and> net_table n' = net_table n \<and> (\<exists>v. net_socks n' = (net_socks n)(fd := (net_socks n fd)\<lparr>ctx_udp := Some v\<rparr>))"
proof -
  let ?H = "held N n"
  let ?sk = "net_socks n fd"
  let ?v = "udp_set_dest u1 a q t"
  let ?sk' = "?sk\<lparr>ctx_udp := Some ?v\<rparr>"
  let ?R1 = "?H(ctx := ?H ctx + 2)"
  define R2 where "R2 = (\<lambda>x. ?R1 x - of_bool (udp_exanic_ctx u = Some x))"
  have inv: "ctx_inv ?H (all_held N n) (net_ctxs n)" using c(1) by (simp add: counted_def)
  have old: "0 < ?H x" if "udp_exanic_ctx u = Some x" for x
  proof -
    have "0 < sock_refs ?sk x" using u that by (simp add: sock_refs_def)
    then show ?thesis using held_ge [OF c(2), of n x] by linarith
  qed
  have v: "udp_exanic_ctx ?v = Some ctx" and n1: "net_socks n1 = net_socks n" "net_table n1 = net_table n"
    using r by (auto simp: udp_set_src_def udp_set_dest_def Let_def net_defs split: option.splits)
  have r1: "ctx_inv ?R1 (all_held N n) (exanic_ip_acquire_ref ctx s)" 
  proof -
    have "(?H(ctx := ?H ctx + 1))(ctx := (?H(ctx := ?H ctx + 1)) ctx + 1) = ?R1" by (simp add: fun_eq_iff)
    then show ?thesis using acquire_ref_inv [OF s] by (simp only:)
  qed
  have "ctx_inv R2 (all_held N n) (net_ctxs n1)"
  proof (cases "udp_exanic_ctx u")
    case None
    have "R2 = ?R1" using None by (auto simp: R2_def fun_eq_iff)
    moreover have "net_ctxs n1 = exanic_ip_acquire_ref ctx s" using r None by (auto simp: udp_set_src_def Let_def net_defs)
    ultimately show ?thesis using r1 by simp
  next
    case (Some x)
    have "0 < ?R1 x" using old [OF Some] by auto
    moreover have "R2 = ?R1(x := ?R1 x - 1)" using Some by (auto simp: R2_def fun_eq_iff)
    ultimately show ?thesis using release_inv [OF r1, of x] r Some by (auto simp: udp_set_src_def Let_def net_defs)
  qed
  moreover have "0 < R2 ctx" using ctx_invD(4) [OF inv, of ctx] old [of ctx] by (auto simp: R2_def)
  ultimately have i: "ctx_inv (R2(ctx := R2 ctx - 1)) (all_held N n) (net_ctxs n')"
    using release_inv [of R2 _ "net_ctxs n1" ctx] by (simp add: n' net_defs)
  have R: "R2(ctx := R2 ctx - 1) = (\<lambda>x. ?H x - sock_refs ?sk x + sock_refs ?sk' x)"
    using u v by (auto simp: R2_def sock_refs_def fun_eq_iff)
  have sk: "net_socks n' = (net_socks n)(fd := ?sk')" by (simp add: n' net_defs n1)
  have "counted N n'" by (rule counted_step [OF c sk]) (use c(1) i in \<open>simp_all add: counted_def one_listen_def R\<close>)
  then show ?thesis using sk by (auto simp: n' net_defs n1)
qed

lemma tx_counted:
  assumes c: "counted N n" "fd < N" and env: "env_fresh (k_if k)"
    and r: "exa_socket_udp_update_tx k fd a p n = Some (b, n')"
  shows "counted N n' \<and> net_table n' = net_table n \<and> (net_socks n' = net_socks n \<or> (\<exists>v. net_socks n' = (net_socks n)(fd := (net_socks n fd)\<lparr>ctx_udp := Some v\<rparr>)))"
proof -
  let ?sk = "net_socks n fd"
  let ?G = "counted N n' \<and> net_table n' = net_table n \<and> (net_socks n' = net_socks n \<or> (\<exists>v. net_socks n' = (net_socks n)(fd := ?sk\<lparr>ctx_udp := Some v\<rparr>)))"
  have inv: "ctx_inv (held N n) (all_held N n) (net_ctxs n)" using c(1) by (simp add: counted_def)
  obtain u where u: "ctx_udp ?sk = Some u" using r by (auto simp: exa_socket_udp_update_tx_def Let_def split: if_splits option.splits)
  have same: ?G if "n' = n" using that c(1) by simp
  have dest: ?G if "n' = set_udp fd (udp_set_dest u a' q t) n" for a' q t
  proof -
    have "counted N n'"
    proof (rule counted_step [OF c, of _ "?sk\<lparr>ctx_udp := Some (udp_set_dest u a' q t)\<rparr>"])
      have "sock_refs (?sk\<lparr>ctx_udp := Some (udp_set_dest u a' q t)\<rparr>) = sock_refs ?sk" using u by (auto simp: sock_refs_def udp_set_dest_def)
      then show "ctx_inv (\<lambda>x. held N n x - sock_refs ?sk x + sock_refs (?sk\<lparr>ctx_udp := Some (udp_set_dest u a' q t)\<rparr>) x)
          (all_held N n - of_bool (listen_all_if ?sk) + of_bool (listen_all_if (?sk\<lparr>ctx_udp := Some (udp_set_dest u a' q t)\<rparr>))) (net_ctxs n')"
        using inv by (simp add: that net_defs)
    qed (use c(1) in \<open>simp_all add: that net_defs counted_def one_listen_def\<close>)
    then show ?thesis by (auto simp: that net_defs)
  qed
  let ?rs = "\<lambda>src. if src = local_addr (sk_bind n fd) \<and> listen_interface ?sk \<noteq> None
       then (listen_interface ?sk, exanic_ip_acquire_ref (the (listen_interface ?sk)) (net_ctxs n)) else exanic_ip_acquire (k_if k) src (net_ctxs n)"
  have ref: "case x of None \<Rightarrow> s = net_ctxs n | Some ctx \<Rightarrow> ctx_inv ((held N n)(ctx := held N n ctx + 1)) (all_held N n) s \<and> ctx \<in> set (exanic_ctx_list s)"
    if "?rs src = (x, s)" for src x s
  proof (cases "src = local_addr (sk_bind n fd) \<and> listen_interface ?sk \<noteq> None")
    case True
    then obtain ctx where ctx: "listen_interface ?sk = Some ctx" by blast
    have "0 < held N n ctx" by (rule listen_pos [OF c(2) ctx])
    then have "ctx \<in> set (exanic_ctx_list (net_ctxs n))" using ctx_invD(5) [OF inv, of ctx] by simp
    then show ?thesis using that True ctx acquire_ref_inv [OF inv, of ctx] by (auto simp: exanic_ip_acquire_ref_def)
  next
    case False
    then show ?thesis using that acquire_inv [OF inv env, of src x s] by (auto split: option.splits)
  qed
  obtain udp nt where uh: "udp_hdrs u = (udp, nt)" by fastforce
  have bound: "\<not> \<not> sk_bound ?sk" using r by (auto simp: exa_socket_udp_update_tx_def Let_def split: if_splits)
  define ttl where "ttl = (if IN_MULTICAST (ntohl a) then ip_multicast_ttl ?sk else IPDEFTTL)"
  note r1 = r [unfolded exa_socket_udp_update_tx_def Let_def if_not_P [OF bound] u uh option.case prod.case, folded ttl_def]
  show ?G
  proof (cases "ip_dst (nt_ip nt) = a")
    case True
    then show ?thesis using r1 same dest by (auto split: if_splits)
  next
    case d: False
    note r2 = r1 [unfolded if_not_P [OF d]]
    show ?thesis
    proof (cases "udp_src_addr k ?sk (local_addr (sk_bind n fd)) a")
      case None
      then show ?thesis using r2 same by simp
    next
      case (Some src)
      note r3 = r2 [unfolded Some option.case]
      show ?thesis
      proof (cases "ip_src (nt_ip nt) = src \<and> uh_sport udp = local_port (sk_bind n fd)")
        case True
        then show ?thesis using r3 dest by auto
      next
        case e: False
        obtain x s where xs: "?rs src = (x, s)" by (cases "?rs src") blast
        note r4 = r3 [unfolded if_not_P [OF e] xs prod.case]
        show ?thesis
        proof (cases x)
          case None
          have "s = net_ctxs n" using ref [OF xs] None by simp
          moreover have "n' = n\<lparr>net_ctxs := s\<rparr>" using r4 unfolding None option.case by simp
          ultimately show ?thesis using same by simp
        next
          case (Some ctx)
          obtain u1 n1 where s1: "udp_set_src fd u ctx (local_port (sk_bind n fd)) (n\<lparr>net_ctxs := s\<rparr>) = (u1, n1)" by fastforce
          have n': "n' = on_ctxs (exanic_ip_release ctx) (set_udp fd (udp_set_dest u1 a p ttl) n1)"
            using r4 unfolding Some option.case s1 prod.case by simp
          note rf = ref [OF xs, unfolded Some option.case]
          show ?thesis using src_counted [OF c u conjunct1 [OF rf] conjunct2 [OF rf] s1 n'] by blast
        qed
      qed
    qed
  qed
qed

end
