(* ===== verification/SockProps.thy ===== *)
theory SockProps
  imports SockTable
begin

text \<open>
  The hash table of sockets as the list of the items in it, newest first: every chain is the part of that list with
  its index. Lookup finds the socket that fits a packet best.
\<close>

subsection \<open>Chains in memory\<close>

primrec hpath :: "('a \<Rightarrow> 'a option) \<Rightarrow> 'a option \<Rightarrow> 'a list \<Rightarrow> 'a option \<Rightarrow> bool" where
  "hpath nxt p [] q = (p = q)"
| "hpath nxt p (x # xs) q = (p = Some x \<and> hpath nxt (nxt x) xs q)"

lemma hpath_append [simp]: "hpath nxt p (xs @ ys) q \<longleftrightarrow> (\<exists>r. hpath nxt p xs r \<and> hpath nxt r ys q)"
  by (induction xs arbitrary: p) auto

lemma hpath_upd [simp]: "u \<notin> set xs \<Longrightarrow> hpath (nxt(u := v)) p xs q = hpath nxt p xs q"
  by (induction xs arbitrary: p) auto

lemma scan_path: "hpath nxt p xs None \<Longrightarrow> hashtable_scan test nxt p = Some (find test xs)"
  by (induction xs arbitrary: p) (simp_all add: hashtable_scan.simps)

primrec before :: "'a option \<Rightarrow> 'a \<Rightarrow> 'a list \<Rightarrow> 'a option" where
  "before pv i [] = pv"
| "before pv i (x # xs) = (if x = i then pv else before (Some x) i xs)"

lemma before_split: "i \<notin> set xs \<Longrightarrow> before pv i (xs @ i # ys) = (if xs = [] then pv else Some (last xs))"
  by (induction xs arbitrary: pv) auto

lemma find_path:
  "hpath nxt p xs None \<Longrightarrow> hashtable_find nxt i p pv = Some (if i \<in> set xs then Some (i, before pv i xs) else None)"
  by (induction xs arbitrary: p pv) (auto simp: hashtable_find.simps)

lemma unlink_path:
  assumes "hpath nxt p (xs @ i # ys) None" "distinct (xs @ i # ys)"
  shows "if xs = [] then p = Some i \<and> hpath nxt (nxt i) ys None else hpath (nxt(last xs := nxt i)) p (xs @ ys) None"
proof (cases xs rule: rev_cases)
  case (snoc zs c)
  then have "c \<notin> set zs" "c \<notin> set ys" using assms(2) by auto
  then show ?thesis using assms(1) snoc by auto
qed (use assms in simp)

lemma find_filter: "\<forall>x\<in>set xs. test x \<longrightarrow> P x \<Longrightarrow> find test (filter P xs) = find test xs"
  by (induction xs) auto

subsection \<open>The table\<close>

definition item_idx :: "sock_table \<Rightarrow> ht_item \<Rightarrow> nat" where
  "item_idx ht item =
     (case item of
        Sock_item fd \<Rightarrow> EXA_HASHTABLE_IDX (ucast_key (ht_bind ht fd)) 0
      | Memb_item m \<Rightarrow> EXA_HASHTABLE_IDX (mcast_key (mcast_ep (ht_memb ht m)) (local_port (ht_bind ht (parent_sock (ht_memb ht m))))) 1)"

definition bucket :: "sock_table \<Rightarrow> ht_item list \<Rightarrow> nat \<Rightarrow> ht_item list" where
  "bucket ht L idx = filter (\<lambda>i. item_idx ht i = idx) L"

definition table_rep :: "sock_table \<Rightarrow> ht_item list \<Rightarrow> bool" where
  "table_rep ht L \<longleftrightarrow> distinct L \<and> (\<forall>idx. hpath (ht_next ht) (ht_table ht idx) (bucket ht L idx) None) \<and>
     (\<forall>fd. \<forall>m\<in>set (ip_memberships ht fd). parent_sock (ht_memb ht m) = fd)"

lemma item_idx_cong:
  "ht_bind h' = ht_bind h \<Longrightarrow> ht_memb h' = ht_memb h \<Longrightarrow> item_idx h' = item_idx h"
  by (intro ext) (simp add: item_idx_def split: ht_item.split)

lemma insert_rep:
  assumes "table_rep ht L" "i \<notin> set L"
  shows "table_rep (exa_hashtable_insert ht (item_idx ht i) i) (i # L)"
proof -
  let ?h = "exa_hashtable_insert ht (item_idx ht i) i"
  have idx: "item_idx ?h = item_idx ht" by (rule item_idx_cong) (simp_all add: exa_hashtable_insert_def)
  have "hpath (ht_next ?h) (ht_table ?h idx) (bucket ?h (i # L) idx) None" for idx
  proof -
    have "hpath (ht_next ht) (ht_table ht idx) (bucket ht L idx) None" using assms(1) by (simp add: table_rep_def)
    moreover have "i \<notin> set (bucket ht L idx)" using assms(2) by (simp add: bucket_def)
    ultimately show ?thesis unfolding bucket_def idx by (auto simp: exa_hashtable_insert_def bucket_def)
  qed
  then show ?thesis using assms by (simp add: table_rep_def exa_hashtable_insert_def)
qed

lemma remove_rep:
  assumes rep: "table_rep ht L"
  shows "\<exists>ht'. exa_hashtable_remove ht (item_idx ht i) i = Some (i \<in> set L, ht') \<and> table_rep ht' (remove1 i L)"
proof -
  let ?x = "item_idx ht i"
  have d: "distinct L" and P: "hpath (ht_next ht) (ht_table ht idx) (bucket ht L idx) None" for idx
    using rep by (simp_all add: table_rep_def)
  have mem: "i \<in> set (bucket ht L ?x) \<longleftrightarrow> i \<in> set L" by (simp add: bucket_def)
  note f = find_path [OF P [of ?x], of i None, unfolded mem]
  show ?thesis
  proof (cases "i \<in> set L")
    case False
    then show ?thesis using f rep by (simp add: exa_hashtable_remove_def remove1_idem)
  next
    case True
    then obtain xs ys where b: "bucket ht L ?x = xs @ i # ys" "i \<notin> set xs" using mem split_list_first by metis
    have db: "distinct (xs @ i # ys)" using d b(1) by (metis bucket_def distinct_filter)
    note u = unlink_path [OF P [of ?x, unfolded b(1)] db]
    have f: "hashtable_find (ht_next ht) i (ht_table ht ?x) None = Some (Some (i, if xs = [] then None else Some (last xs)))"
      using f True by (simp add: b(1) before_split [OF b(2)])
    define ht' where "ht' = (if xs = [] then ht\<lparr>ht_table := (ht_table ht)(?x := ht_next ht i)\<rparr>
      else ht\<lparr>ht_next := (ht_next ht)(last xs := ht_next ht i)\<rparr>)"
    have same: "ht_bind ht' = ht_bind ht" "ht_memb ht' = ht_memb ht" "ip_memberships ht' = ip_memberships ht" by (simp_all add: ht'_def)
    have idx: "item_idx ht' = item_idx ht" by (rule item_idx_cong) (simp_all add: same)
    have bk: "bucket ht' (remove1 i L) idx = (if idx = ?x then xs @ ys else bucket ht L idx)" for idx
    proof -
      have "bucket ht' (remove1 i L) idx = remove1 i (bucket ht L idx)" unfolding bucket_def idx by (rule filter_remove1)
      also have "\<dots> = (if idx = ?x then xs @ ys else bucket ht L idx)"
      proof (cases "idx = ?x")
        case True
        then show ?thesis using b by (simp add: remove1_append)
      next
        case False
        then show ?thesis by (auto simp: bucket_def intro!: remove1_idem)
      qed
      finally show ?thesis .
    qed
    have "hpath (ht_next ht') (ht_table ht' idx) (bucket ht' (remove1 i L) idx) None" for idx
    proof (cases "idx = ?x")
      case True
      then show ?thesis using u P [of ?x] unfolding bk by (cases "xs = []") (simp_all add: ht'_def)
    next
      case False
      have "last xs \<notin> set (bucket ht L idx)" if "xs \<noteq> []"
      proof
        assume "last xs \<in> set (bucket ht L idx)"
        moreover have "last xs \<in> set (bucket ht L ?x)" using that b(1) by simp
        ultimately show False using False by (simp add: bucket_def)
      qed
      then show ?thesis using False P [of idx] unfolding bk by (cases "xs = []") (simp_all add: ht'_def)
    qed
    then have "table_rep ht' (remove1 i L)" using rep same by (simp add: table_rep_def)
    moreover have "exa_hashtable_remove ht ?x i = Some (True, ht')" by (simp add: exa_hashtable_remove_def f ht'_def)
    ultimately show ?thesis using True by simp
  qed
qed

subsection \<open>Runs\<close>

text \<open>What the sockets layer does with the table; the second argument is the list of items, newest first. A bound address changes
  only while the socket is not in the table, and the local port only while none of its memberships is.\<close>

inductive table_run :: "sock_table \<Rightarrow> ht_item list \<Rightarrow> bool" where
  empty: "\<forall>idx. ht_table ht idx = None \<Longrightarrow> \<forall>fd. ip_memberships ht fd = [] \<Longrightarrow> table_run ht []"
| insert: "table_run ht L \<Longrightarrow> Sock_item fd \<notin> set L \<Longrightarrow> table_run (exa_udp_insert ht fd) (Sock_item fd # L)"
| remove: "table_run ht L \<Longrightarrow> exa_udp_remove ht fd = Some (b, ht') \<Longrightarrow> table_run ht' (remove1 (Sock_item fd) L)"
| join: "table_run ht L \<Longrightarrow> Memb_item m \<notin> set L \<Longrightarrow> \<forall>fd. m \<notin> set (ip_memberships ht fd) \<Longrightarrow>
    table_run (exa_socket_ip_memberships_add ht m fd mc) L"
| leave: "table_run ht L \<Longrightarrow> exa_socket_ip_memberships_remove ht fd mc = (Some m, ht') \<Longrightarrow> Memb_item m \<notin> set L \<Longrightarrow> table_run ht' L"
| mcast_insert: "table_run ht L \<Longrightarrow> exa_socket_ip_memberships_find ht fd mc = Some m \<Longrightarrow> Memb_item m \<notin> set L \<Longrightarrow>
    exa_udp_mcast_insert ht fd mc = Some ht' \<Longrightarrow> table_run ht' (Memb_item m # L)"
| mcast_remove: "table_run ht L \<Longrightarrow> exa_socket_ip_memberships_find ht fd mc = Some m \<Longrightarrow>
    exa_udp_mcast_remove ht fd mc = Some (b, ht') \<Longrightarrow> table_run ht' (remove1 (Memb_item m) L)"
| bind: "table_run ht L \<Longrightarrow> Sock_item fd \<notin> set L \<Longrightarrow>
    local_port ep = local_port (ht_bind ht fd) \<or> (\<forall>m. Memb_item m \<in> set L \<longrightarrow> parent_sock (ht_memb ht m) \<noteq> fd) \<Longrightarrow>
    table_run (ht\<lparr>ht_bind := (ht_bind ht)(fd := ep)\<rparr>) L"

lemma table_rep_cong:
  assumes "table_rep ht L" "\<forall>i\<in>set L. item_idx ht' i = item_idx ht i" "ht_table ht' = ht_table ht"
    and "\<forall>i\<in>set L. ht_next ht' i = ht_next ht i" "\<forall>fd. \<forall>m\<in>set (ip_memberships ht' fd). parent_sock (ht_memb ht' m) = fd"
  shows "table_rep ht' L"
proof -
  have path: "hpath n' p xs None" if "hpath n p xs None" "\<forall>i\<in>set xs. n' i = n i" for n n' p and xs :: "ht_item list"
    using that by (induction xs arbitrary: p) auto
  have "bucket ht' L idx = bucket ht L idx" for idx using assms(2) by (auto simp: bucket_def intro: filter_cong)
  moreover have "hpath (ht_next ht') (ht_table ht idx) (bucket ht L idx) None" for idx
  proof (rule path)
    show "hpath (ht_next ht) (ht_table ht idx) (bucket ht L idx) None" using assms(1) by (simp add: table_rep_def)
    show "\<forall>i\<in>set (bucket ht L idx). ht_next ht' i = ht_next ht i" using assms(4) by (simp add: bucket_def)
  qed
  ultimately have "hpath (ht_next ht') (ht_table ht' idx) (bucket ht' L idx) None" for idx by (simp add: assms(3))
  then show ?thesis using assms(1,5) by (simp add: table_rep_def)
qed

lemma join_rep:
  assumes rep: "table_rep ht L" and L: "Memb_item m \<notin> set L" and m: "\<forall>fd. m \<notin> set (ip_memberships ht fd)"
  shows "table_rep (exa_socket_ip_memberships_add ht m fd mc) L"
proof -
  let ?h = "exa_socket_ip_memberships_add ht m fd mc"
  have h: "ht_bind ?h = ht_bind ht" "ht_table ?h = ht_table ht" "ht_memb ?h = (ht_memb ht)(m := \<lparr>parent_sock = fd, mcast_ep = mc\<rparr>)"
      "ht_next ?h = (ht_next ht)(Memb_item m := None)" "ip_memberships ?h = (ip_memberships ht)(fd := m # ip_memberships ht fd)"
    by (simp_all add: exa_socket_ip_memberships_add_def)
  have "item_idx ?h i = item_idx ht i" if "i \<in> set L" for i
    using that L by (cases i rule: ht_item.exhaust) (auto simp: item_idx_def h)
  moreover have "ht_next ?h i = ht_next ht i" if "i \<in> set L" for i using that L by (auto simp: h)
  moreover have "\<forall>fd. \<forall>m\<in>set (ip_memberships ?h fd). parent_sock (ht_memb ?h m) = fd"
  proof (intro allI ballI)
    fix fd' m' assume m': "m' \<in> set (ip_memberships ?h fd')"
    show "parent_sock (ht_memb ?h m') = fd'"
    proof (cases "m' \<in> set (ip_memberships ht fd')")
      case True
      then have "m' \<noteq> m" "parent_sock (ht_memb ht m') = fd'" using m rep by (auto simp: table_rep_def)
      then show ?thesis by (simp add: h)
    qed (use m' in \<open>simp add: h split: if_splits\<close>)
  qed
  ultimately show ?thesis by (intro table_rep_cong [OF rep]) (simp_all add: h(2))
qed

lemma memberships_rep:
  assumes rep: "table_rep ht L" and ms: "set ms \<subseteq> set (ip_memberships ht fd)"
  shows "table_rep (ht\<lparr>ip_memberships := (ip_memberships ht)(fd := ms)\<rparr>) L"
proof -
  let ?h = "ht\<lparr>ip_memberships := (ip_memberships ht)(fd := ms)\<rparr>"
  have "item_idx ?h = item_idx ht" by (rule item_idx_cong) simp_all
  moreover have "\<forall>fd. \<forall>m\<in>set (ip_memberships ?h fd). parent_sock (ht_memb ?h m) = fd" using rep ms by (auto simp: table_rep_def)
  ultimately show ?thesis by (intro table_rep_cong [OF rep]) simp_all
qed

lemma bind_rep:
  assumes rep: "table_rep ht L" and L: "Sock_item fd \<notin> set L"
    and p: "local_port ep = local_port (ht_bind ht fd) \<or> (\<forall>m. Memb_item m \<in> set L \<longrightarrow> parent_sock (ht_memb ht m) \<noteq> fd)"
  shows "table_rep (ht\<lparr>ht_bind := (ht_bind ht)(fd := ep)\<rparr>) L"
proof -
  have "item_idx (ht\<lparr>ht_bind := (ht_bind ht)(fd := ep)\<rparr>) i = item_idx ht i" if "i \<in> set L" for i
    using that L p by (cases i rule: ht_item.exhaust) (auto simp: item_idx_def)
  moreover have "\<forall>fd. \<forall>m\<in>set (ip_memberships ht fd). parent_sock (ht_memb ht m) = fd" using rep by (simp add: table_rep_def)
  ultimately show ?thesis by (intro table_rep_cong [OF rep]) simp_all
qed

lemma find_memb:
  assumes "exa_socket_ip_memberships_find ht fd mc = Some m"
  shows "m \<in> set (ip_memberships ht fd)" "mcast_ep (ht_memb ht m) = mc"
  using assms by (auto simp: exa_socket_ip_memberships_find_def find_Some_iff)

lemma memb_idx:
  assumes "table_rep ht L" "exa_socket_ip_memberships_find ht fd mc = Some m"
  shows "EXA_HASHTABLE_IDX (mcast_key mc (local_port (ht_bind ht fd))) EXA_MCAST_IDX = item_idx ht (Memb_item m)"
  using find_memb [OF assms(2)] assms(1) by (auto simp: item_idx_def table_rep_def)

lemma run_rep: "table_run ht L \<Longrightarrow> table_rep ht L"
proof (induction rule: table_run.induct)
  case (empty ht)
  then show ?case by (simp add: table_rep_def bucket_def)
next
  case (insert ht L fd)
  then show ?case using insert_rep [of ht L "Sock_item fd"] by (simp add: exa_udp_insert_def item_idx_def)
next
  case (remove ht L fd b ht')
  then show ?case using remove_rep [of ht L "Sock_item fd"] by (auto simp: exa_udp_remove_def item_idx_def)
next
  case (join ht L m fd mc)
  then show ?case by (intro join_rep)
next
  case (leave ht L fd mc m ht')
  then have "ht' = ht\<lparr>ip_memberships := (ip_memberships ht)(fd := remove1 m (ip_memberships ht fd))\<rparr>"
    by (auto simp: exa_socket_ip_memberships_remove_def split: option.splits)
  then show ?case using memberships_rep [OF leave.IH set_remove1_subset] by simp
next
  case (mcast_insert ht L fd mc m ht')
  then show ?case using insert_rep [OF mcast_insert.IH mcast_insert.hyps(3)] memb_idx [OF mcast_insert.IH mcast_insert.hyps(2)]
    by (simp add: exa_udp_mcast_insert_def)
next
  case (mcast_remove ht L fd mc m b ht')
  then show ?case using remove_rep [OF mcast_remove.IH, of "Memb_item m"] memb_idx [OF mcast_remove.IH mcast_remove.hyps(2)]
    by (auto simp: exa_udp_mcast_remove_def)
next
  case (bind ht L fd ep)
  then show ?case by (intro bind_rep)
qed

subsection \<open>Lookup\<close>

lemma ucast_scan_rep: "table_rep ht L \<Longrightarrow> ucast_scan ht e = Some (find (sock_test ht e) L)"
proof -
  assume rep: "table_rep ht L"
  let ?idx = "EXA_HASHTABLE_IDX (ucast_key e) EXA_UCAST_IDX"
  have "find (sock_test ht e) (bucket ht L ?idx) = find (sock_test ht e) L"
    unfolding bucket_def by (rule find_filter) (auto simp: sock_test_def item_idx_def split: ht_item.splits)
  moreover have "hpath (ht_next ht) (ht_table ht ?idx) (bucket ht L ?idx) None" using rep by (simp add: table_rep_def)
  ultimately show ?thesis using scan_path by (metis ucast_scan_def)
qed

lemma mcast_scan_rep: "table_rep ht L \<Longrightarrow> mcast_scan ht mc port = Some (find (memb_test ht mc port) L)"
proof -
  assume rep: "table_rep ht L"
  let ?idx = "EXA_HASHTABLE_IDX (mcast_key mc port) EXA_MCAST_IDX"
  have "find (memb_test ht mc port) (bucket ht L ?idx) = find (memb_test ht mc port) L"
    unfolding bucket_def by (rule find_filter) (auto simp: memb_test_def item_idx_def split: ht_item.splits)
  moreover have "hpath (ht_next ht) (ht_table ht ?idx) (bucket ht L ?idx) None" using rep by (simp add: table_rep_def)
  ultimately show ?thesis using scan_path by (metis mcast_scan_def)
qed

text \<open>How well an item fits a packet to \<open>e\<close> on the interface \<open>a\<close>, 0 the best: a socket by its addresses, ports and the wildcards
  in them, a membership by its group and interface.\<close>

definition item_rank :: "sock_table \<Rightarrow> exa_endpoint \<Rightarrow> u32 \<Rightarrow> ht_item \<Rightarrow> nat option" where
  "item_rank ht e a item =
     (case item of
        Sock_item fd \<Rightarrow>
          (let b = ht_bind ht fd
           in if IN_MULTICAST (ntohl (local_addr e)) \<or> local_port b \<noteq> local_port e then None
              else if b = e then Some 0
              else if peer_addr b \<noteq> 0 \<or> peer_port b \<noteq> 0 then None
              else if local_addr b = local_addr e then Some 1
              else if local_addr b = 0 then Some 2 else None)
      | Memb_item m \<Rightarrow>
          (let b = ht_bind ht (parent_sock (ht_memb ht m)); mc = mcast_ep (ht_memb ht m)
           in if \<not> IN_MULTICAST (ntohl (local_addr e)) \<or> local_port b \<noteq> local_port e \<or> peer_port b \<noteq> 0 \<or> multiaddr mc \<noteq> local_addr e then None
              else if mc_interface mc = a then Some 0 else if mc_interface mc = 0 then Some 1 else None))"

definition is_best :: "('a \<Rightarrow> nat option) \<Rightarrow> ('a \<Rightarrow> 'b) \<Rightarrow> 'a list \<Rightarrow> 'b option \<Rightarrow> bool" where
  "is_best rank f L r \<longleftrightarrow> (r = None \<longleftrightarrow> (\<forall>i\<in>set L. rank i = None)) \<and>
     (\<forall>x. r = Some x \<longrightarrow> (\<exists>i\<in>set L. \<exists>k. f i = x \<and> rank i = Some k \<and> (\<forall>j\<in>set L. \<forall>n. rank j = Some n \<longrightarrow> k \<le> n)))"

lemma staged_best:
  assumes "\<And>i. t0 i \<longleftrightarrow> rank i = Some 0" "\<And>i. \<not> t0 i \<Longrightarrow> t1 i \<longleftrightarrow> rank i = Some 1"
    and "\<And>i. \<not> t0 i \<Longrightarrow> \<not> t1 i \<Longrightarrow> t2 i \<longleftrightarrow> rank i = Some 2" "\<And>i k. rank i = Some k \<Longrightarrow> k \<le> 2"
  shows "is_best rank f L (case find t0 L of Some i \<Rightarrow> Some (f i) | None \<Rightarrow> (case find t1 L of Some i \<Rightarrow> Some (f i) | None \<Rightarrow> map_option f (find t2 L)))"
proof -
  have ge1: "rank j = Some n \<Longrightarrow> 1 \<le> n" if "\<not> t0 j" for j n using assms(1) that by (cases n) auto
  have ge2: "rank j = Some n \<Longrightarrow> 2 \<le> n" if "\<not> t0 j" "\<not> t1 j" for j n
    using assms(2) [OF that(1)] ge1 [OF that(1), of n] that(2) by (cases "n = 1") auto
  have none: "rank j = None" if "\<not> t0 j" "\<not> t1 j" "\<not> t2 j" for j
    using assms(3) [OF that(1,2)] ge2 [OF that(1,2)] assms(4) that(3) by (cases "rank j") (auto simp: order_antisym_conv)
  show ?thesis
  proof (cases "find t0 L")
    case (Some i)
    then have "i \<in> set L" "rank i = Some 0" using assms(1) by (auto simp: find_Some_iff)
    then show ?thesis using Some by (auto simp: is_best_def)
  next
    case None0: None
    then have n0: "\<forall>j\<in>set L. \<not> t0 j" by (auto simp: find_None_iff)
    show ?thesis
    proof (cases "find t1 L")
      case (Some i)
      then have "i \<in> set L" "rank i = Some 1" using assms(2) n0 by (auto simp: find_Some_iff)
      then show ?thesis using Some None0 n0 ge1 by (auto simp: is_best_def intro!: bexI [of _ i])
    next
      case None1: None
      then have n1: "\<forall>j\<in>set L. \<not> t1 j" by (auto simp: find_None_iff)
      show ?thesis
      proof (cases "find t2 L")
        case (Some i)
        then have "i \<in> set L" "rank i = Some 2" using assms(3) n0 n1 by (auto simp: find_Some_iff)
        moreover have "2 \<le> n" if "j \<in> set L" "rank j = Some n" for j n using ge2 that n0 n1 by blast
        ultimately show ?thesis using Some None0 None1 by (auto simp: is_best_def intro!: bexI [of _ i])
      next
        case None
        then have "\<forall>j\<in>set L. rank j = None" using none n0 n1 by (auto simp: find_None_iff)
        then show ?thesis using None None0 None1 by (simp add: is_best_def)
      qed
    qed
  qed
qed

lemma ucast_best:
  assumes "table_rep ht L" "\<not> IN_MULTICAST (ntohl (local_addr e))"
  shows "\<exists>r. exa_hashtable_ucast_lookup ht e = Some r \<and> is_best (item_rank ht e a) (item_fd ht) L r"
proof -
  let ?e1 = "e\<lparr>peer_addr := 0, peer_port := 0\<rparr>"
  let ?e2 = "?e1\<lparr>local_addr := 0\<rparr>"
  have "is_best (item_rank ht e a) (item_fd ht) L (case find (sock_test ht e) L of Some i \<Rightarrow> Some (item_fd ht i)
      | None \<Rightarrow> (case find (sock_test ht ?e1) L of Some i \<Rightarrow> Some (item_fd ht i) | None \<Rightarrow> map_option (item_fd ht) (find (sock_test ht ?e2) L)))"
    using assms(2) by (intro staged_best) (auto simp: sock_test_def item_rank_def Let_def split: ht_item.splits if_splits)
  then show ?thesis using assms(1)
    by (auto simp: exa_hashtable_ucast_lookup_def Let_def ucast_scan_rep split: option.splits)
qed

lemma mcast_best:
  assumes "table_rep ht L" "IN_MULTICAST (ntohl (local_addr e))"
  shows "\<exists>r. exa_hashtable_mcast_lookup ht e a = Some r \<and> is_best (item_rank ht e a) (item_fd ht) L r"
proof -
  let ?mc = "\<lparr>multiaddr = local_addr e, mc_interface = a\<rparr>"
  have mc: "mc = \<lparr>multiaddr = x, mc_interface = y\<rparr> \<longleftrightarrow> multiaddr mc = x \<and> mc_interface mc = y" for mc x y by (cases mc) auto
  have "is_best (item_rank ht e a) (item_fd ht) L (case find (memb_test ht ?mc (local_port e)) L of Some i \<Rightarrow> Some (item_fd ht i)
      | None \<Rightarrow> (case find (memb_test ht (?mc\<lparr>mc_interface := 0\<rparr>) (local_port e)) L of Some i \<Rightarrow> Some (item_fd ht i)
          | None \<Rightarrow> map_option (item_fd ht) (find (\<lambda>_. False) L)))"
    using assms(2) by (intro staged_best) (auto simp: memb_test_def item_rank_def Let_def mc split: ht_item.splits if_splits)
  moreover have "find (\<lambda>_. False) L = None" by (simp add: find_None_iff)
  ultimately show ?thesis using assms(1)
    by (auto simp: exa_hashtable_mcast_lookup_def Let_def mcast_scan_rep split: option.splits)
qed


definition demo_ht :: sock_table where
  "demo_ht = \<lparr>ht_table = \<lambda>_. None, ht_next = \<lambda>_. None, ht_bind = (\<lambda>_. \<lparr>local_addr = 0, peer_addr = 0, local_port = 0x5000, peer_port = 0\<rparr>),
     ht_memb = (\<lambda>_. \<lparr>parent_sock = 0, mcast_ep = \<lparr>multiaddr = 0, mc_interface = 0\<rparr>\<rparr>), ip_memberships = \<lambda>_. []\<rparr>"

definition demo_ht1 :: sock_table where
  "demo_ht1 = exa_udp_insert (demo_ht\<lparr>ht_bind := (ht_bind demo_ht)(4 := \<lparr>local_addr = 0x0100000A, peer_addr = 0, local_port = 0x5000, peer_port = 0\<rparr>)\<rparr>) 4"

definition demo_ht2 :: sock_table where
  "demo_ht2 = exa_udp_insert demo_ht1 7"

lemma demo_table_run: "table_run demo_ht2 [Sock_item 7, Sock_item 4]"
  unfolding demo_ht2_def demo_ht1_def
  by (intro table_run.insert table_run.bind table_run.empty) (simp_all add: demo_ht_def)


lemma bucket_kinds: "EXA_HASHTABLE_IDX key EXA_UCAST_IDX < 2 ^ 15" "2 ^ 15 \<le> EXA_HASHTABLE_IDX key EXA_MCAST_IDX"
proof -
  define x where "x = exa_hashtable_hash key AND 0x7FFF"
  have x: "unat x < 2 ^ 15"
    using word_and_le1 [of "exa_hashtable_hash key" "0x7FFF"] by (simp add: x_def word_le_nat_alt)
  then show "EXA_HASHTABLE_IDX key EXA_UCAST_IDX < 2 ^ 15" by (simp add: EXA_HASHTABLE_IDX_def x_def)
  have "(0x8000 :: u32) \<le> x OR 0x8000" by (rule le_word_or1)
  then show "2 ^ 15 \<le> EXA_HASHTABLE_IDX key EXA_MCAST_IDX" by (simp add: EXA_HASHTABLE_IDX_def x_def word_le_nat_alt push_bit_eq_mult)
qed

end
