(* ===== verification/SockInv.thy ===== *)
theory SockInv
  imports SockRefs SockProps
begin

text \<open>
  The invariant of the UDP sockets: the references are counted, the hash table holds the items of a list, and each socket is in it
  when it is bound. An operation on a socket leaves the part of the others alone.
\<close>

subsection \<open>The table\<close>

definition same_socks :: "sock_table \<Rightarrow> sock_table \<Rightarrow> bool" where
  "same_socks t t' \<longleftrightarrow> ht_bind t' = ht_bind t \<and> ht_memb t' = ht_memb t \<and> ip_memberships t' = ip_memberships t"

lemma same_socks_trans: "same_socks a b \<Longrightarrow> same_socks b c \<Longrightarrow> same_socks a c"
  by (simp add: same_socks_def)

lemma same_insert [simp]: "same_socks t (exa_hashtable_insert t idx i)"
  by (simp add: same_socks_def exa_hashtable_insert_def)

lemma same_remove: "exa_hashtable_remove t idx i = Some (b, t') \<Longrightarrow> same_socks t t'"
  by (auto simp: same_socks_def exa_hashtable_remove_def split: option.splits)

lemma rep_insert:
  "table_rep t L \<Longrightarrow> Sock_item fd \<notin> set L \<Longrightarrow> table_rep (exa_udp_insert t fd) (Sock_item fd # L) \<and> same_socks t (exa_udp_insert t fd)"
  using insert_rep [of t L "Sock_item fd"] by (simp add: exa_udp_insert_def item_idx_def)

lemma rep_remove:
  assumes "table_rep t L"
  shows "\<exists>b t'. exa_udp_remove t fd = Some (b, t') \<and> table_rep t' (remove1 (Sock_item fd) L) \<and> same_socks t t'"
  using remove_rep [OF assms, of "Sock_item fd"] same_remove by (fastforce simp: exa_udp_remove_def item_idx_def)

lemma rep_distinct: "table_rep t L \<Longrightarrow> distinct L"
  by (simp add: table_rep_def)

lemma rep_parent: "table_rep t L \<Longrightarrow> m \<in> set (ip_memberships t fd) \<Longrightarrow> parent_sock (ht_memb t m) = fd"
  by (simp add: table_rep_def)

lemma find_self:
  "m \<in> set ms \<Longrightarrow> distinct (map f ms) \<Longrightarrow> find (\<lambda>x. f x = f m) ms = Some m"
  by (induction ms) (auto simp: image_iff)

abbreviation memb_ep :: "sock_table \<Rightarrow> nat \<Rightarrow> exa_mcast_endpoint" where
  "memb_ep t m \<equiv> mcast_ep (ht_memb t m)"

lemma memb_find_self:
  "m \<in> set (ip_memberships t fd) \<Longrightarrow> distinct (map (memb_ep t) (ip_memberships t fd)) \<Longrightarrow>
    exa_socket_ip_memberships_find t fd (memb_ep t m) = Some m"
  unfolding exa_socket_ip_memberships_find_def by (rule find_self)

lemma rep_mcast_insert:
  assumes rep: "table_rep t L" and f: "exa_socket_ip_memberships_find t fd mc = Some m" and L: "Memb_item m \<notin> set L"
  shows "\<exists>t'. exa_udp_mcast_insert t fd mc = Some t' \<and> table_rep t' (Memb_item m # L) \<and> same_socks t t'"
  using insert_rep [OF rep L] memb_idx [OF rep f] f by (simp add: exa_udp_mcast_insert_def)

lemma rep_mcast_remove:
  assumes rep: "table_rep t L" and f: "exa_socket_ip_memberships_find t fd mc = Some m"
  shows "\<exists>b t'. exa_udp_mcast_remove t fd mc = Some (b, t') \<and> table_rep t' (remove1 (Memb_item m) L) \<and> same_socks t t'"
  using remove_rep [OF rep, of "Memb_item m"] memb_idx [OF rep f] f same_remove by (fastforce simp: exa_udp_mcast_remove_def)

lemma rep_insert_list:
  assumes "table_rep t L" "set ms \<subseteq> set (ip_memberships t fd)" "distinct ms" "distinct (map (memb_ep t) (ip_memberships t fd))"
    and "\<forall>m\<in>set ms. Memb_item m \<notin> set L"
  shows "\<exists>t' L'. mcast_insert_list fd ms t = Some t' \<and> table_rep t' L' \<and> set L' = set L \<union> Memb_item ` set ms \<and> same_socks t t'"
  using assms
proof (induction ms arbitrary: t L)
  case Nil
  then show ?case by (auto simp: same_socks_def)
next
  case (Cons m ms)
  have f: "exa_socket_ip_memberships_find t fd (memb_ep t m) = Some m" using Cons.prems by (intro memb_find_self) simp_all
  obtain t1 where t1: "exa_udp_mcast_insert t fd (memb_ep t m) = Some t1" "table_rep t1 (Memb_item m # L)" "same_socks t t1"
    using rep_mcast_insert [OF Cons.prems(1) f] Cons.prems(5) by auto
  have "\<exists>t' L'. mcast_insert_list fd ms t1 = Some t' \<and> table_rep t' L' \<and> set L' = set (Memb_item m # L) \<union> Memb_item ` set ms \<and> same_socks t1 t'"
    using t1(3) Cons.prems by (intro Cons.IH [OF t1(2)]) (auto simp: same_socks_def)
  then obtain t' L' where "mcast_insert_list fd ms t1 = Some t'" "table_rep t' L'" "set L' = set (Memb_item m # L) \<union> Memb_item ` set ms" "same_socks t1 t'"
    by blast
  then show ?case using t1 same_socks_trans [OF t1(3)] by (intro exI [of _ t'] exI [of _ L']) auto
qed

lemma rep_remove_list:
  assumes "table_rep t L" "set ms \<subseteq> set (ip_memberships t fd)" "distinct (map (memb_ep t) (ip_memberships t fd))"
  shows "\<exists>t' L'. mcast_remove_list fd ms t = Some t' \<and> table_rep t' L' \<and> set L' = set L - Memb_item ` set ms \<and> same_socks t t'"
  using assms
proof (induction ms arbitrary: t L)
  case Nil
  then show ?case by (auto simp: same_socks_def)
next
  case (Cons m ms)
  have f: "exa_socket_ip_memberships_find t fd (memb_ep t m) = Some m" using Cons.prems by (intro memb_find_self) simp_all
  obtain b t1 where t1: "exa_udp_mcast_remove t fd (memb_ep t m) = Some (b, t1)" "table_rep t1 (remove1 (Memb_item m) L)" "same_socks t t1"
    using rep_mcast_remove [OF Cons.prems(1) f] by blast
  have L1: "set (remove1 (Memb_item m) L) = set L - {Memb_item m}" using rep_distinct [OF Cons.prems(1)] by simp
  have "\<exists>t' L'. mcast_remove_list fd ms t1 = Some t' \<and> table_rep t' L' \<and> set L' = set (remove1 (Memb_item m) L) - Memb_item ` set ms \<and> same_socks t1 t'"
    using t1(3) Cons.prems by (intro Cons.IH [OF t1(2)]) (auto simp: same_socks_def)
  then obtain t' L' where "mcast_remove_list fd ms t1 = Some t'" "table_rep t' L'" "set L' = set L - {Memb_item m} - Memb_item ` set ms" "same_socks t1 t'"
    unfolding L1 by blast
  then show ?case using t1 same_socks_trans [OF t1(3)] by (intro exI [of _ t'] exI [of _ L']) auto
qed

subsection \<open>The invariant\<close>

definition sk_ok :: "usock \<Rightarrow> bool" where
  "sk_ok sk \<longleftrightarrow> (bypass_state sk = EXA_BYPASS_ACTIVE \<longrightarrow> sk_valid sk) \<and> (ctx_udp sk \<noteq> None \<longleftrightarrow> bypass_state sk = EXA_BYPASS_ACTIVE) \<and>
     (bypass_state sk \<noteq> EXA_BYPASS_ACTIVE \<longrightarrow> \<not> sk_bound sk \<and> no_refs sk \<and> \<not> listen_mcast sk) \<and>
     \<not> IN_MULTICAST (ntohl (mcast_listening_denominator_iface sk))"

definition item_ok :: "sock_net \<Rightarrow> ht_item set \<Rightarrow> nat \<Rightarrow> bool" where
  "item_ok n L fd \<longleftrightarrow>
     (let sk = net_socks n fd; ep = sk_bind n fd
      in (sk_bound sk \<longrightarrow> local_port ep \<noteq> 0) \<and> (Sock_item fd \<in> L \<longrightarrow> sk_bound sk \<and> exa_socket_holds_interfaces sk) \<and>
         (sk_bound sk \<and> \<not> IN_MULTICAST (ntohl (local_addr ep)) \<and> \<not> bound_to_device sk \<longrightarrow> Sock_item fd \<in> L))"

definition memb_ok :: "sock_net \<Rightarrow> ht_item set \<Rightarrow> nat \<Rightarrow> bool" where
  "memb_ok n L fd \<longleftrightarrow>
     (let sk = net_socks n fd; t = net_table n; ms = ip_memberships t fd
      in distinct (map (memb_ep t) ms) \<and> (\<forall>m\<in>set ms. \<not> IN_MULTICAST (ntohl (mc_interface (memb_ep t m)))) \<and>
         (bypass_state sk \<noteq> EXA_BYPASS_ACTIVE \<longrightarrow> ms = []) \<and>
         (\<forall>m. Memb_item m \<in> L \<and> parent_sock (ht_memb t m) = fd \<longrightarrow> m \<in> set ms \<and> listen_mcast sk \<and> sk_bound sk) \<and>
         (sk_bound sk \<and> local_addr (sk_bind n fd) = INADDR_ANY \<longrightarrow> Memb_item ` set ms \<subseteq> L))"

definition sock_ok :: "sock_net \<Rightarrow> ht_item set \<Rightarrow> nat \<Rightarrow> bool" where
  "sock_ok n L fd \<longleftrightarrow> sk_ok (net_socks n fd) \<and> item_ok n L fd \<and> memb_ok n L fd"

text \<open>The invariant for all sockets but one.\<close>

definition inv_but :: "nat \<Rightarrow> nat \<Rightarrow> sock_net \<Rightarrow> ht_item list \<Rightarrow> bool" where
  "inv_but N fd n L \<longleftrightarrow> counted N n \<and> table_rep (net_table n) L \<and> (\<forall>x. x \<noteq> fd \<longrightarrow> sock_ok n (set L) x)"

definition sock_inv :: "nat \<Rightarrow> sock_net \<Rightarrow> ht_item list \<Rightarrow> bool" where
  "sock_inv N n L \<longleftrightarrow> counted N n \<and> table_rep (net_table n) L \<and> (\<forall>x. sock_ok n (set L) x)"

lemma sock_inv_but: "sock_inv N n L \<longleftrightarrow> inv_but N fd n L \<and> sock_ok n (set L) fd"
  by (auto simp: sock_inv_def inv_but_def)

definition item_owner :: "sock_table \<Rightarrow> ht_item \<Rightarrow> nat" where
  "item_owner t i = (case i of Sock_item fd \<Rightarrow> fd | Memb_item m \<Rightarrow> parent_sock (ht_memb t m))"

lemma item_owner_simps [simp]: "item_owner t (Sock_item fd) = fd" "item_owner t (Memb_item m) = parent_sock (ht_memb t m)"
  by (simp_all add: item_owner_def)

lemma frame_but:
  assumes inv: "inv_but N fd n L" and c: "counted N n'" and rep: "table_rep (net_table n') L'"
    and sk: "\<And>x. x \<noteq> fd \<Longrightarrow> net_socks n' x = net_socks n x \<and> sk_bind n' x = sk_bind n x \<and>
        ip_memberships (net_table n') x = ip_memberships (net_table n) x"
    and memb: "\<And>x m. x \<noteq> fd \<Longrightarrow> m \<in> set (ip_memberships (net_table n) x) \<or> Memb_item m \<in> set L \<or> Memb_item m \<in> set L' \<Longrightarrow>
        parent_sock (ht_memb (net_table n') m) = x \<or> parent_sock (ht_memb (net_table n) m) = x \<Longrightarrow> ht_memb (net_table n') m = ht_memb (net_table n) m"
    and L: "\<And>i. item_owner (net_table n) i \<noteq> fd \<Longrightarrow> i \<in> set L' \<longleftrightarrow> i \<in> set L"
  shows "inv_but N fd n' L'"
proof -
  have "sock_ok n' (set L') x" if x: "x \<noteq> fd" for x
  proof -
    have ok: "sock_ok n (set L) x" and rep0: "table_rep (net_table n) L" using inv x by (simp_all add: inv_but_def)
    have eq: "ht_memb (net_table n') m = ht_memb (net_table n) m" if "m \<in> set (ip_memberships (net_table n) x)" for m
      using memb [OF x] rep_parent [OF rep0 that] that by blast
    have ep: "memb_ep (net_table n') m = memb_ep (net_table n) m" if "m \<in> set (ip_memberships (net_table n) x)" for m
      using eq [OF that] by simp
    have map: "map (memb_ep (net_table n')) (ip_memberships (net_table n) x) = map (memb_ep (net_table n)) (ip_memberships (net_table n) x)"
      using ep by simp
    have items: "Memb_item m \<in> set L \<and> parent_sock (ht_memb (net_table n) m) = x"
      if "Memb_item m \<in> set L'" "parent_sock (ht_memb (net_table n') m) = x" for m
      using memb [OF x, of m] L [of "Memb_item m"] that x by auto
    have ms: "Memb_item m \<in> set L' \<longleftrightarrow> Memb_item m \<in> set L" if "m \<in> set (ip_memberships (net_table n) x)" for m
      using L [of "Memb_item m"] rep_parent [OF rep0 that] x by simp
    have si: "Sock_item x \<in> set L' \<longleftrightarrow> Sock_item x \<in> set L" using L [of "Sock_item x"] x by simp
    have "memb_ok n (set L) x" using ok by (simp add: sock_ok_def)
    note M = this [unfolded memb_ok_def Let_def]
    have s: "net_socks n' x = net_socks n x" "sk_bind n' x = sk_bind n x" "ip_memberships (net_table n') x = ip_memberships (net_table n) x"
      using sk [OF x] by simp_all
    have "memb_ok n' (set L') x" unfolding memb_ok_def Let_def s map
    proof (intro conjI)
      show "\<forall>m\<in>set (ip_memberships (net_table n) x). \<not> IN_MULTICAST (ntohl (mc_interface (memb_ep (net_table n') m)))"
        using M ep by simp
      show "\<forall>m. Memb_item m \<in> set L' \<and> parent_sock (ht_memb (net_table n') m) = x \<longrightarrow>
          m \<in> set (ip_memberships (net_table n) x) \<and> listen_mcast (net_socks n x) \<and> sk_bound (net_socks n x)"
        using M items by blast
      show "sk_bound (net_socks n x) \<and> local_addr (sk_bind n x) = INADDR_ANY \<longrightarrow> Memb_item ` set (ip_memberships (net_table n) x) \<subseteq> set L'"
        using M ms by blast
    qed (use M in blast)+
    moreover have "item_ok n' (set L') x" using ok si sk [OF x] unfolding sock_ok_def item_ok_def Let_def by auto
    ultimately show ?thesis using ok sk [OF x] by (simp add: sock_ok_def)
  qed
  then show ?thesis using c rep by (simp add: inv_but_def)
qed

subsection \<open>Steps on one socket\<close>

lemma but_same_table:
  assumes "inv_but N fd n L" "counted N n'" "net_table n' = net_table n" "\<And>x. x \<noteq> fd \<Longrightarrow> net_socks n' x = net_socks n x"
  shows "inv_but N fd n' L"
  by (rule frame_but [OF assms(1,2)]) (use assms in \<open>auto simp: inv_but_def\<close>)

lemma but_table:
  assumes "inv_but N fd n L" "table_rep t L'" "same_socks (net_table n) t"
    and "\<And>i. item_owner (net_table n) i \<noteq> fd \<Longrightarrow> i \<in> set L' \<longleftrightarrow> i \<in> set L"
  shows "inv_but N fd (n\<lparr>net_table := t\<rparr>) L'"
  by (rule frame_but [OF assms(1)]) (use assms in \<open>auto simp: inv_but_def same_socks_def\<close>)

lemma but_sock:
  assumes "inv_but N fd n L" "listen_interface (f (net_socks n fd)) = listen_interface (net_socks n fd)"
    "listen_all_if (f (net_socks n fd)) = listen_all_if (net_socks n fd)" "ctx_udp (f (net_socks n fd)) = ctx_udp (net_socks n fd)"
  shows "inv_but N fd (on_sock fd f n) L"
proof (rule but_same_table [OF assms(1)])
  show "counted N (on_sock fd f n)" using assms by (intro counted_on_sock) (simp_all add: inv_but_def)
qed (simp_all add: net_defs)

lemma but_bind:
  assumes inv: "inv_but N fd n L" and L: "Sock_item fd \<notin> set L"
    and p: "local_port ep = local_port (sk_bind n fd) \<or> (\<forall>m. Memb_item m \<in> set L \<longrightarrow> parent_sock (ht_memb (net_table n) m) \<noteq> fd)"
  shows "inv_but N fd (set_bind fd ep n) L"
proof (rule frame_but [OF inv])
  show "counted N (set_bind fd ep n)" using inv by (simp add: inv_but_def)
  show "table_rep (net_table (set_bind fd ep n)) L"
    using bind_rep [OF _ L p] inv by (simp add: inv_but_def set_bind_def on_table_def)
qed (auto simp: net_defs)

lemma but_insert:
  assumes "inv_but N fd n L" "Sock_item fd \<notin> set L"
  shows "inv_but N fd (on_table (\<lambda>t. exa_udp_insert t fd) n) (Sock_item fd # L)"
proof -
  have "inv_but N fd (n\<lparr>net_table := exa_udp_insert (net_table n) fd\<rparr>) (Sock_item fd # L)"
    by (rule but_table [OF assms(1)]) (use rep_insert [of "net_table n" L fd] assms in \<open>auto simp: inv_but_def\<close>)
  then show ?thesis by (simp add: on_table_def)
qed

lemma but_remove:
  assumes "inv_but N fd n L"
  shows "\<exists>t. exa_udp_remove (net_table n) fd \<noteq> None \<and> map_option snd (exa_udp_remove (net_table n) fd) = Some t \<and>
    inv_but N fd (n\<lparr>net_table := t\<rparr>) (remove1 (Sock_item fd) L) \<and> same_socks (net_table n) t"
proof -
  have rep: "table_rep (net_table n) L" using assms by (simp add: inv_but_def)
  obtain b t where t: "exa_udp_remove (net_table n) fd = Some (b, t)" "table_rep t (remove1 (Sock_item fd) L)" "same_socks (net_table n) t"
    using rep_remove [OF rep] by blast
  have "inv_but N fd (n\<lparr>net_table := t\<rparr>) (remove1 (Sock_item fd) L)"
    by (rule but_table [OF assms t(2,3)]) (use rep_distinct [OF rep] in auto)
  then show ?thesis using t by simp
qed

lemma but_update:
  assumes "inv_but N fd n L" "fd < N" "env_fresh (k_if k)" "exa_socket_update_interfaces k fd a n = (b, n')"
  shows "inv_but N fd n' L"
proof (rule but_same_table [OF assms(1)])
  show "counted N n'" using update_counted [OF _ assms(2-)] assms(1) by (simp add: inv_but_def)
  obtain x y where "net_socks n' = (net_socks n)(fd := (net_socks n fd)\<lparr>listen_all_if := x, listen_interface := y\<rparr>)"
    using update_frame(2) [OF assms(4)] by blast
  then show "\<And>z. z \<noteq> fd \<Longrightarrow> net_socks n' z = net_socks n z" by simp
qed (rule update_frame(1) [OF assms(4)])

lemma but_release:
  assumes "inv_but N fd n L" "fd < N"
  shows "inv_but N fd (exa_socket_release_interfaces fd n) L"
  by (rule but_same_table [OF assms(1)]) (use assms in \<open>simp_all add: release_frame release_counted inv_but_def\<close>)

lemma but_alloc:
  assumes a: "inv_but N fd n L" "fd < N" "exanic_udp_alloc k fd n = Some (b, n')"
  shows "inv_but N fd n' L"
proof (rule but_same_table [OF a(1)])
  have c: "counted N n" using a(1) by (simp add: inv_but_def)
  note A = alloc_counted [OF c a(2,3)]
  show "counted N n'" "net_table n' = net_table n" by (rule A)+
  show "net_socks n' x = net_socks n x" if "x \<noteq> fd" for x by (subst A(3)) (use that in simp)
qed

lemma but_free:
  assumes a: "inv_but N fd n L" "fd < N" "exanic_udp_free fd n = Some n'"
  shows "inv_but N fd n' L"
proof (rule but_same_table [OF a(1)])
  have c: "counted N n" using a(1) by (simp add: inv_but_def)
  show "counted N n'" "net_table n' = net_table n" by (rule free_counted [OF c a(2,3)])+
  show "net_socks n' x = net_socks n x" if "x \<noteq> fd" for x using that by (simp add: free_counted [OF c a(2,3)])
qed

lemma but_tx:
  assumes a: "inv_but N fd n L" "fd < N" "env_fresh (k_if k)" "exa_socket_udp_update_tx k fd a p n = Some (b, n')"
  shows "inv_but N fd n' L"
  by (rule but_same_table [OF a(1)]) (use tx_counted [OF _ a(2-)] a(1) in \<open>auto simp: inv_but_def\<close>)

subsection \<open>Interfaces of memberships\<close>

definition listens :: "bool \<Rightarrow> nat option \<Rightarrow> bool" where
  "listens x y \<longleftrightarrow> x \<or> y \<noteq> None"

lemma holds_listens: "exa_socket_holds_interfaces sk = listens (listen_all_if sk) (listen_interface sk)"
  by (simp add: exa_socket_holds_interfaces_def listens_def)

abbreviation set_listen :: "bool \<Rightarrow> nat option \<Rightarrow> bool \<Rightarrow> usock \<Rightarrow> usock" where
  "set_listen x y z sk \<equiv> sk\<lparr>listen_all_if := x, listen_interface := y, listen_mcast := z\<rparr>"

lemma listen_frame:
  assumes "listen_denominator k fd n = (b, n')" "\<not> IN_MULTICAST (ntohl (mcast_listening_denominator_iface (net_socks n fd)))"
  shows "net_table n' = net_table n \<and> (\<exists>x y z. net_socks n' = (net_socks n)(fd := set_listen x y z (net_socks n fd)) \<and>
     (b \<longrightarrow> z) \<and> (\<not> b \<longrightarrow> z = listen_mcast (net_socks n fd)) \<and>
     (exa_socket_holds_interfaces (net_socks n fd) \<or> b \<and> \<not> bound_to_device (net_socks n fd) \<longrightarrow> listens x y))"
proof -
  let ?sk = "net_socks n fd"
  obtain n1 b1 where u: "exa_socket_update_interfaces k fd (mcast_listening_denominator_iface ?sk) n = (b1, n1)" by fastforce
  obtain x y where xy: "net_socks n1 = (net_socks n)(fd := ?sk\<lparr>listen_all_if := x, listen_interface := y\<rparr>)"
      "b1 \<and> \<not> bound_to_device ?sk \<longrightarrow> x \<or> y \<noteq> None"
      "\<not> b1 \<or> bound_to_device ?sk \<longrightarrow> x = listen_all_if ?sk \<and> y = listen_interface ?sk"
    using update_frame(2) [OF u] assms(2) by blast
  have l: "exa_socket_holds_interfaces ?sk \<or> b1 \<and> \<not> bound_to_device ?sk \<longrightarrow> listens x y"
    using xy(2,3) by (auto simp: holds_listens listens_def)
  have n': "b = b1" "n' = (if b1 then on_sock fd (\<lambda>sk. sk\<lparr>listen_mcast := True\<rparr>) n1 else n1)"
    using assms(1) u by (auto simp: listen_denominator_def split: bool.splits)
  have "net_socks n' = (net_socks n)(fd := set_listen x y (b1 \<or> listen_mcast ?sk) ?sk)" using xy(1) by (auto simp: n' net_defs fun_eq_iff)
  moreover have "net_table n' = net_table n" using update_frame(1) [OF u] by (simp add: n' net_defs)
  ultimately show ?thesis using l n'(1) by blast
qed

lemma but_listen:
  assumes "inv_but N fd n L" "fd < N" "env_fresh (k_if k)" "listen_denominator k fd n = (b, n')"
  shows "inv_but N fd n' L"
  using assms(4) but_update [OF assms(1-3)]
  by (auto simp: listen_denominator_def split: prod.splits bool.splits intro: but_sock)

end
