(* ===== verification/SockOps.thy ===== *)
theory SockOps
  imports SockInv
begin

text \<open>
  Every call on a UDP socket keeps the invariant, and which of them can fail an assertion.
\<close>

lemma net_sel [simp]:
  "net_table (on_sock fd f n) = net_table n" "net_socks (on_sock fd f n) = (net_socks n)(fd := f (net_socks n fd))"
  "net_socks (set_bind fd ep n) = net_socks n" "ht_memb (net_table (set_bind fd ep n)) = ht_memb (net_table n)"
  "ip_memberships (net_table (set_bind fd ep n)) = ip_memberships (net_table n)" "sk_bind (set_bind fd ep n) fd = ep"
  "net_socks (on_table g n) = net_socks n" "net_table (on_table g n) = g (net_table n)"
  by (simp_all add: net_defs)

subsection \<open>The kernel\<close>

definition ifaddrs_ok :: "if_env \<Rightarrow> bool" where
  "ifaddrs_ok env \<longleftrightarrow> (\<forall>ifas. getifaddrs env = Some ifas \<longrightarrow>
     (\<forall>ifa\<in>set ifas. \<forall>family a. ifa_addr ifa = Some (family, a) \<longrightarrow> \<not> IN_MULTICAST (ntohl a)))"

text \<open>New memory is not in use, interfaces do not have multicast addresses, and a bound socket has a port.\<close>

definition kern_ok :: "kern \<Rightarrow> sock_net \<Rightarrow> bool" where
  "kern_ok k n \<longleftrightarrow> env_fresh (k_if k) \<and> ifaddrs_ok (k_if k) \<and>
     (\<forall>m. k_memb k = Some m \<longrightarrow> (\<forall>fd. m \<notin> set (ip_memberships (net_table n) fd))) \<and>
     (\<forall>a p q. k_bind k a p = Some q \<longrightarrow> q \<noteq> 0) \<and>
     (\<forall>ep. k_open k = Some ep \<and> local_addr ep \<noteq> INADDR_ANY \<longrightarrow> local_port ep \<noteq> 0)"

lemma kern_okD:
  assumes "kern_ok k n"
  shows "env_fresh (k_if k)" "ifaddrs_ok (k_if k)" "\<And>m fd. k_memb k = Some m \<Longrightarrow> m \<notin> set (ip_memberships (net_table n) fd)"
    "\<And>a p q. k_bind k a p = Some q \<Longrightarrow> q \<noteq> 0" "\<And>ep. k_open k = Some ep \<Longrightarrow> local_addr ep \<noteq> INADDR_ANY \<Longrightarrow> local_port ep \<noteq> 0"
  using assms unfolding kern_ok_def by blast+

lemma kern_ok_cong: "ip_memberships (net_table n') = ip_memberships (net_table n) \<Longrightarrow> kern_ok k n' = kern_ok k n"
  by (simp add: kern_ok_def)

lemma lookup_unicast: "ifaddrs_lookup env a ifas \<noteq> None \<Longrightarrow> \<exists>ifa\<in>set ifas. ifa_addr ifa = Some (AF_INET, a)"
  by (induction ifas) (auto split: if_splits)

lemma find_unicast: "ifaddrs_ok env \<Longrightarrow> exanic_ip_find env a \<Longrightarrow> \<not> IN_MULTICAST (ntohl a)"
  using lookup_unicast by (force simp: exanic_ip_find_def exanic_ip_lookup_def ifaddrs_ok_def split: option.splits)

lemma by_interface_unicast: "ifaddrs_by_interface env name ifas = (b, Some a) \<Longrightarrow> \<exists>ifa\<in>set ifas. \<exists>family. ifa_addr ifa = Some (family, a)"
  by (induction ifas) (auto split: if_splits option.splits prod.splits)

lemma find_by_interface_unicast:
  "ifaddrs_ok env \<Longrightarrow> exanic_ip_find_by_interface env name = (b, Some a) \<Longrightarrow> \<not> IN_MULTICAST (ntohl a)"
  using by_interface_unicast by (force simp: exanic_ip_find_by_interface_def ifaddrs_ok_def split: option.splits)

lemma any_unicast [simp]: "\<not> IN_MULTICAST (ntohl 0)" "\<not> IN_MULTICAST (ntohl 0xFFFFFFFF)"
  by (simp_all add: IN_MULTICAST_def ntohl_def)

lemma parse_unicast:
  assumes "ifaddrs_ok env" "parse_mreq env names opt = Some (mc, ex)" "ex \<or> mc_interface mc = INADDR_ANY"
  shows "\<not> IN_MULTICAST (ntohl (mc_interface mc))"
  using assms find_unicast find_by_interface_unicast
  by (auto simp: parse_mreq_def Let_def split: mreq.splits if_splits option.splits prod.splits)

subsection \<open>Sockets that are not bound\<close>

lemma sock_okD:
  assumes "sock_inv N n L"
  shows "sk_ok (net_socks n fd)" "item_ok n (set L) fd" "memb_ok n (set L) fd" "counted N n" "table_rep (net_table n) L"
  using assms by (auto simp: sock_inv_def sock_ok_def)

lemma unbound_items:
  assumes "sock_inv N n L" "\<not> sk_bound (net_socks n fd)"
  shows "Sock_item fd \<notin> set L" "\<And>m. Memb_item m \<in> set L \<Longrightarrow> parent_sock (ht_memb (net_table n) m) \<noteq> fd"
    "\<And>m. m \<in> set (ip_memberships (net_table n) fd) \<Longrightarrow> Memb_item m \<notin> set L"
proof -
  show "Sock_item fd \<notin> set L" using sock_okD(2) [OF assms(1), of fd] assms(2) by (auto simp: item_ok_def Let_def)
  show m: "\<And>m. Memb_item m \<in> set L \<Longrightarrow> parent_sock (ht_memb (net_table n) m) \<noteq> fd"
    using sock_okD(3) [OF assms(1), of fd] assms(2) by (auto simp: memb_ok_def Let_def)
  show "\<And>m. m \<in> set (ip_memberships (net_table n) fd) \<Longrightarrow> Memb_item m \<notin> set L"
    using m rep_parent [OF sock_okD(5) [OF assms(1)]] by blast
qed

text \<open>A step that leaves the socket unbound.\<close>

lemma unbound_step:
  assumes inv: "sock_inv N n L" "\<not> sk_bound (net_socks n fd)" and but: "inv_but N fd n' L"
    and t: "ht_memb (net_table n') = ht_memb (net_table n)" "ip_memberships (net_table n') fd = ip_memberships (net_table n) fd"
    and sk: "sk_ok (net_socks n' fd)" "\<not> sk_bound (net_socks n' fd)"
    and byp: "bypass_state (net_socks n' fd) \<noteq> EXA_BYPASS_ACTIVE \<longrightarrow> bypass_state (net_socks n fd) \<noteq> EXA_BYPASS_ACTIVE"
  shows "sock_inv N n' L"
proof -
  note U = unbound_items [OF inv]
  have "item_ok n' (set L) fd" using U(1) sk(2) by (simp add: item_ok_def Let_def)
  moreover have "memb_ok n' (set L) fd"
    using sock_okD(3) [OF inv(1), of fd] U(2) sk(2) byp unfolding memb_ok_def Let_def t by blast
  ultimately show ?thesis using but sk(1) by (simp add: sock_inv_but [of _ _ _ fd] sock_ok_def)
qed

lemma tx_defined: "sk_bound (net_socks n fd) \<Longrightarrow> ctx_udp (net_socks n fd) \<noteq> None \<Longrightarrow> exa_socket_udp_update_tx k fd a p n \<noteq> None"
  by (auto simp: exa_socket_udp_update_tx_def Let_def split: option.splits prod.splits)

lemma inactive_facts:
  assumes "sock_inv N n L" "bypass_state (net_socks n fd) \<noteq> EXA_BYPASS_ACTIVE"
  shows "\<not> sk_bound (net_socks n fd)" "listen_all_if (net_socks n fd) = False" "listen_interface (net_socks n fd) = None"
    "ctx_udp (net_socks n fd) = None" "listen_mcast (net_socks n fd) = False" "ip_memberships (net_table n) fd = []"
    "\<not> IN_MULTICAST (ntohl (mcast_listening_denominator_iface (net_socks n fd)))"
  using sock_okD(1,3) [OF assms(1), of fd] assms(2) by (auto simp: sk_ok_def no_refs_def memb_ok_def Let_def)

subsection \<open>Bypass\<close>

lemma enable_fail:
  assumes inv: "sock_inv N n L" "bypass_state (net_socks n fd) \<noteq> EXA_BYPASS_ACTIVE" and fd: "fd < N"
    and but: "inv_but N fd m L" and t: "ht_memb (net_table m) = ht_memb (net_table n)" "ip_memberships (net_table m) = ip_memberships (net_table n)"
    and sk: "listen_all_if (net_socks m fd) = False" "listen_interface (net_socks m fd) = None" "\<not> sk_bound (net_socks m fd)"
      "listen_mcast (net_socks m fd) = False" "ctx_udp (net_socks m fd) \<noteq> None" "sk_valid (net_socks m fd)"
      "mcast_listening_denominator_iface (net_socks m fd) = mcast_listening_denominator_iface (net_socks n fd)"
  shows "\<exists>m'. exanic_udp_free fd m = Some m' \<and> sock_inv N (on_sock fd (\<lambda>sk. sk\<lparr>bypass_state := EXA_BYPASS_AVAIL\<rparr>) m') L \<and>
    ip_memberships (net_table m') = ip_memberships (net_table n) \<and> sk_valid (net_socks m' fd)"
proof -
  obtain m' where m': "exanic_udp_free fd m = Some m'" using sk(5) by (auto simp: exanic_udp_free_def split: option.splits)
  have c: "counted N m" using but by (simp add: inv_but_def)
  note F = free_counted [OF c fd m'] and I = inactive_facts [OF inv]
  have b: "inv_but N fd (on_sock fd (\<lambda>sk. sk\<lparr>bypass_state := EXA_BYPASS_AVAIL\<rparr>) m') L"
    by (intro but_sock but_free [OF but fd m']) simp_all
  have "sock_inv N (on_sock fd (\<lambda>sk. sk\<lparr>bypass_state := EXA_BYPASS_AVAIL\<rparr>) m') L"
    by (rule unbound_step [OF inv(1) I(1) b]) (use I sk F t inv(2) in \<open>simp_all add: net_defs sk_ok_def no_refs_def\<close>)
  then show ?thesis using m' F t sk(6) by simp
qed

lemma insert_inv:
  assumes but: "inv_but N fd n L" and L: "Sock_item fd \<notin> set L"
  shows "\<exists>L'. inv_but N fd (table_insert fd n) L' \<and> set L' = set L \<union> (if exa_socket_holds_interfaces (net_socks n fd) then {Sock_item fd} else {}) \<and>
    same_socks (net_table n) (net_table (table_insert fd n)) \<and> net_socks (table_insert fd n) = net_socks n"
proof -
  have "same_socks (net_table n) (net_table n)" by (simp add: same_socks_def)
  moreover have "same_socks (net_table n) (exa_udp_insert (net_table n) fd)" by (simp add: exa_udp_insert_def)
  ultimately show ?thesis using but but_insert [OF but L]
    by (cases "exa_socket_holds_interfaces (net_socks n fd)")
      (auto simp: table_insert_def on_table_def intro: exI [of _ L] exI [of _ "Sock_item fd # L"])
qed

lemma bound_ok:
  assumes rep: "ht_memb t = ht_memb (net_table n0)" "ip_memberships t fd = ip_memberships (net_table n0) fd"
    and M: "memb_ok n0 L0 fd" and t: "t = net_table n" "same_socks t (net_table n')" "net_socks n' = net_socks n"
    and L: "L' = L \<union> (if exa_socket_holds_interfaces (net_socks n fd) then {Sock_item fd} else {})"
    and sk: "sk_ok (net_socks n fd)" "bypass_state (net_socks n fd) = EXA_BYPASS_ACTIVE" "sk_bound (net_socks n fd)" "local_port (ht_bind t fd) \<noteq> 0"
    and holds: "\<not> IN_MULTICAST (ntohl (local_addr (ht_bind t fd))) \<Longrightarrow> \<not> bound_to_device (net_socks n fd) \<Longrightarrow> exa_socket_holds_interfaces (net_socks n fd)"
    and memb: "\<And>m. Memb_item m \<in> L \<Longrightarrow> parent_sock (ht_memb t m) = fd \<Longrightarrow> m \<in> set (ip_memberships t fd) \<and> listen_mcast (net_socks n fd)"
      "local_addr (ht_bind t fd) = INADDR_ANY \<Longrightarrow> Memb_item ` set (ip_memberships t fd) \<subseteq> L"
    and notin: "Sock_item fd \<notin> L"
  shows "sock_ok n' L' fd"
proof -
  have eq: "ht_bind (net_table n') = ht_bind t" "ht_memb (net_table n') = ht_memb t" "ip_memberships (net_table n') = ip_memberships t"
    using t(2) by (simp_all add: same_socks_def)
  have "item_ok n' L' fd" using sk holds L notin unfolding item_ok_def Let_def eq t(3) by auto
  moreover have "memb_ok n' L' fd"
    using M sk(2,3) memb L unfolding memb_ok_def Let_def eq t(3) rep by (auto split: if_splits)
  ultimately show ?thesis using sk(1) by (simp add: sock_ok_def t(3))
qed

lemma enable_inv:
  assumes inv: "sock_inv N n L" and act: "bypass_state (net_socks n fd) \<noteq> EXA_BYPASS_ACTIVE" and fd: "fd < N" and k: "kern_ok k n"
    and val: "sk_valid (net_socks n fd)"
  shows "\<exists>b n' L'. exa_socket_enable_bypass k fd n = Some (b, n') \<and> sock_inv N n' L' \<and>
    ip_memberships (net_table n') = ip_memberships (net_table n) \<and> sk_valid (net_socks n' fd) \<and> (b \<longrightarrow> bypass_state (net_socks n' fd) = EXA_BYPASS_ACTIVE)"
proof (cases "k_open k")
  case None
  then show ?thesis using inv act val by (auto simp: exa_socket_enable_bypass_def)
next
  case (Some ep)
  note I = inactive_facts [OF inv act] and U = unbound_items [OF inv inactive_facts(1) [OF inv act]]
  let ?sk = "net_socks n fd"
  define n0 where "n0 = on_sock fd (\<lambda>sk. sk\<lparr>bypass_state := EXA_BYPASS_ACTIVE\<rparr>) n"
  have but0: "inv_but N fd n0 L" unfolding n0_def using inv by (intro but_sock) (auto simp: sock_inv_but [of _ _ _ fd])
  have n0: "net_socks n0 = (net_socks n)(fd := ?sk\<lparr>bypass_state := EXA_BYPASS_ACTIVE\<rparr>)" "net_table n0 = net_table n"
    by (simp_all add: n0_def net_defs)
  have "exanic_udp_alloc k fd n0 \<noteq> None"
    using I(4) by (cases "k_udp k") (simp_all add: exanic_udp_alloc_def Let_def n0)
  then obtain b1 n1 where al: "exanic_udp_alloc k fd n0 = Some (b1, n1)" by auto
  have c0: "counted N n0" using but0 by (simp add: inv_but_def)
  note A = alloc_counted [OF c0 fd al] and but1 = but_alloc [OF but0 fd al]
  show ?thesis
  proof (cases b1)
    case False
    have b: "inv_but N fd (on_sock fd (\<lambda>sk. sk\<lparr>bypass_state := EXA_BYPASS_AVAIL\<rparr>) n0) L" by (intro but_sock but0) simp_all
    have "sock_inv N (on_sock fd (\<lambda>sk. sk\<lparr>bypass_state := EXA_BYPASS_AVAIL\<rparr>) n0) L"
      by (rule unbound_step [OF inv I(1) b]) (use I act n0 in \<open>simp_all add: net_defs sk_ok_def no_refs_def\<close>)
    moreover have "exa_socket_enable_bypass k fd n = Some (False, on_sock fd (\<lambda>sk. sk\<lparr>bypass_state := EXA_BYPASS_AVAIL\<rparr>) n0)"
      using False A(5) al Some act by (simp add: exa_socket_enable_bypass_def exa_socket_udp_enable_bypass_def n0_def [symmetric])
    ultimately show ?thesis using n0 val by auto
  next
    case True
    define c1 where "c1 = ctx_udp (net_socks n1 fd)"
    have c1: "c1 \<noteq> None" using A(4) True by (simp add: c1_def)
    have n1: "net_socks n1 = (net_socks n)(fd := ?sk\<lparr>bypass_state := EXA_BYPASS_ACTIVE, ctx_udp := c1\<rparr>)" "net_table n1 = net_table n"
      using A(2,3) unfolding n0 c1_def [symmetric] by simp_all
    define n2 where "n2 = set_bind fd ep n1"
    define bnd where "bnd = (local_addr ep \<noteq> INADDR_ANY \<or> local_port ep \<noteq> 0)"
    have but2: "inv_but N fd n2 L" unfolding n2_def using U(1,2) by (intro but_bind [OF but1]) (auto simp: n1)
    have n2: "net_socks n2 = net_socks n1" "ht_memb (net_table n2) = ht_memb (net_table n)" "ip_memberships (net_table n2) = ip_memberships (net_table n)"
        "ht_bind (net_table n2) fd = ep"
      by (simp_all add: n2_def net_defs n1)
    have b1: "b1 = True" using True by simp
    have E0: "exa_socket_enable_bypass k fd n = (case exa_socket_udp_enable_bypass k fd ep n0 of None \<Rightarrow> None
        | Some (False, n1) \<Rightarrow> Some (False, on_sock fd (\<lambda>sk. sk\<lparr>bypass_state := EXA_BYPASS_AVAIL\<rparr>) n1) | Some (True, n1) \<Rightarrow> Some (True, n1))"
      using act Some by (simp add: exa_socket_enable_bypass_def n0_def)
    note E1 = exa_socket_udp_enable_bypass_def [of k fd ep n0, unfolded al b1 option.case prod.case bool.case Let_def, folded n2_def bnd_def]
    obtain b3 n3 where u: "(if bnd then exa_socket_update_interfaces k fd (local_addr ep) n2 else (True, n2)) = (b3, n3)" by fastforce
    have but3: "inv_but N fd n3 L" using u but_update [OF but2 fd kern_okD(1) [OF k]] but2 by (auto split: if_splits)
    have t3: "net_table n3 = net_table n2" using u update_frame(1) by (auto split: if_splits)
    obtain x y where xy: "net_socks n3 fd = ?sk\<lparr>bypass_state := EXA_BYPASS_ACTIVE, ctx_udp := c1, listen_all_if := x, listen_interface := y\<rparr>"
        "\<not> b3 \<or> \<not> bnd \<longrightarrow> x = False \<and> y = None" "bnd \<and> b3 \<and> \<not> bound_to_device ?sk \<and> \<not> IN_MULTICAST (ntohl (local_addr ep)) \<longrightarrow> listens x y"
    proof (cases bnd)
      case True
      then have u': "exa_socket_update_interfaces k fd (local_addr ep) n2 = (b3, n3)" using u by simp
      obtain x y where f: "net_socks n3 = (net_socks n2)(fd := (net_socks n2 fd)\<lparr>listen_all_if := x, listen_interface := y\<rparr>)"
          "b3 \<and> \<not> bound_to_device (net_socks n2 fd) \<and> \<not> IN_MULTICAST (ntohl (local_addr ep)) \<longrightarrow> x \<or> y \<noteq> None"
          "\<not> b3 \<or> bound_to_device (net_socks n2 fd) \<longrightarrow> x = listen_all_if (net_socks n2 fd) \<and> y = listen_interface (net_socks n2 fd)"
        using update_frame(2) [OF u'] by blast
      show ?thesis by (rule that [of y x]) (use f True I in \<open>auto simp: n2 n1 listens_def\<close>)
    next
      case False
      then have "n3 = n2" "b3" using u by simp_all
      moreover have "?sk\<lparr>bypass_state := EXA_BYPASS_ACTIVE, ctx_udp := c1\<rparr> =
          ?sk\<lparr>bypass_state := EXA_BYPASS_ACTIVE, ctx_udp := c1, listen_all_if := False, listen_interface := None\<rparr>"
        using I(2,3) by (cases ?sk) simp
      ultimately show ?thesis using that [of None False] False by (simp add: n2 n1)
    qed
    show ?thesis
    proof (cases b3)
      case False
      obtain m' where m': "exanic_udp_free fd n3 = Some m'" "sock_inv N (on_sock fd (\<lambda>sk. sk\<lparr>bypass_state := EXA_BYPASS_AVAIL\<rparr>) m') L"
          "ip_memberships (net_table m') = ip_memberships (net_table n)" "sk_valid (net_socks m' fd)"
        using enable_fail [OF inv act fd but3] xy False I c1 val by (auto simp: t3 n2)
      have "exa_socket_enable_bypass k fd n = Some (False, on_sock fd (\<lambda>sk. sk\<lparr>bypass_state := EXA_BYPASS_AVAIL\<rparr>) m')"
        unfolding E0 E1 u using False m'(1) by simp
      then show ?thesis using m' by auto
    next
      case b3: True
      have b3': "b3 = True" using b3 by simp
      define n4 where "n4 = (if bnd then on_sock fd (\<lambda>sk. sk\<lparr>sk_bound := True\<rparr>) n3 else n3)"
      have but4: "inv_but N fd n4 L" using but3 by (auto simp: n4_def intro: but_sock)
      have n4: "net_socks n4 fd = ?sk\<lparr>bypass_state := EXA_BYPASS_ACTIVE, ctx_udp := c1, listen_all_if := x, listen_interface := y, sk_bound := bnd\<rparr>"
          "net_table n4 = net_table n2"
        using xy(1) I(1) t3 by (auto simp: n4_def net_defs)
      define conn where "conn = (sk_bound (net_socks n4 fd) \<and> (peer_addr ep \<noteq> INADDR_ANY \<or> peer_port ep \<noteq> 0))"
      have "(if conn then exa_socket_udp_update_tx k fd (peer_addr ep) (peer_port ep) n4 else Some (True, n4)) \<noteq> None"
        using tx_defined [of n4 fd k "peer_addr ep" "peer_port ep"] c1 by (auto simp: conn_def n4)
      then obtain b5 n5 where tx: "(if conn then exa_socket_udp_update_tx k fd (peer_addr ep) (peer_port ep) n4 else Some (True, n4)) = Some (b5, n5)"
        by fastforce
      have c4: "counted N n4" using but4 by (simp add: inv_but_def)
      have but5: "inv_but N fd n5 L" using tx but_tx [OF but4 fd kern_okD(1) [OF k]] but4 by (auto split: if_splits)
      have n5: "\<exists>c5. c5 \<noteq> None \<and> net_socks n5 fd = (net_socks n4 fd)\<lparr>ctx_udp := c5\<rparr>" "net_table n5 = net_table n2"
        using tx tx_counted [OF c4 fd kern_okD(1) [OF k], of "peer_addr ep" "peer_port ep" b5 n5] n4 c1
        by (auto split: if_splits intro: exI [of _ c1])
      then obtain c5 where c5: "c5 \<noteq> None"
          "net_socks n5 fd = ?sk\<lparr>bypass_state := EXA_BYPASS_ACTIVE, listen_all_if := x, listen_interface := y, sk_bound := bnd, ctx_udp := c5\<rparr>"
        unfolding n4 by auto
      note E2 = E1 [unfolded u b3' prod.case bool.case, folded n4_def, folded conn_def, unfolded tx option.case prod.case]
      show ?thesis
      proof (cases b5)
        case False
        define n6 where "n6 = on_sock fd (\<lambda>sk. sk\<lparr>sk_bound := False\<rparr>) (exa_socket_release_interfaces fd n5)"
        have but6: "inv_but N fd n6 L" unfolding n6_def by (intro but_sock but_release but5 fd) simp_all
        obtain m' where m': "exanic_udp_free fd n6 = Some m'" "sock_inv N (on_sock fd (\<lambda>sk. sk\<lparr>bypass_state := EXA_BYPASS_AVAIL\<rparr>) m') L"
            "ip_memberships (net_table m') = ip_memberships (net_table n)" "sk_valid (net_socks m' fd)"
          using enable_fail [OF inv act fd but6] c5 I val by (auto simp: n6_def net_defs release_frame n5 n2)
        have "exa_socket_enable_bypass k fd n = Some (False, on_sock fd (\<lambda>sk. sk\<lparr>bypass_state := EXA_BYPASS_AVAIL\<rparr>) m')"
          unfolding E0 E2 using False m'(1) by (simp add: n6_def)
        then show ?thesis using m' by auto
      next
        case b5: True
        define n6 where "n6 = (if conn then on_sock fd (\<lambda>sk. sk\<lparr>sk_connected := True\<rparr>) n5 else n5)"
        have but6: "inv_but N fd n6 L" using but5 by (auto simp: n6_def intro: but_sock)
        have n6: "\<exists>cn. net_socks n6 fd = ?sk\<lparr>bypass_state := EXA_BYPASS_ACTIVE, listen_all_if := x, listen_interface := y, sk_bound := bnd, ctx_udp := c5, sk_connected := cn\<rparr>"
            "net_table n6 = net_table n2"
          using c5 n5(2) by (auto simp: n6_def net_defs intro: exI [of _ "sk_connected ?sk"])
        have run: "exa_socket_enable_bypass k fd n = Some (True, table_insert fd n6)"
          unfolding E0 E2 using b5 by (simp add: n6_def)
        obtain L' where L': "inv_but N fd (table_insert fd n6) L'" "set L' = set L \<union> (if exa_socket_holds_interfaces (net_socks n6 fd) then {Sock_item fd} else {})"
            "same_socks (net_table n6) (net_table (table_insert fd n6))" "net_socks (table_insert fd n6) = net_socks n6"
          using insert_inv [OF but6 U(1)] by blast
        obtain cn where cn: "net_socks n6 fd = ?sk\<lparr>bypass_state := EXA_BYPASS_ACTIVE, listen_all_if := x, listen_interface := y, sk_bound := bnd, ctx_udp := c5, sk_connected := cn\<rparr>"
          using n6(1) by blast
        have sk6: "sk_ok (net_socks n6 fd)" using cn c5(1) I val by (simp add: sk_ok_def)
        have "sock_ok (table_insert fd n6) (set L') fd"
        proof (cases bnd)
          case True
          then have p: "local_port ep \<noteq> 0" using kern_okD(5) [OF k Some] by (auto simp: bnd_def)
          show ?thesis
            by (rule bound_ok [where n = n6 and t = "net_table n6" and n0 = n and ?L0.0 = "set L" and L = "set L"])
              (use n6(2) n2 n1 sk6 cn True p L' U sock_okD(3) [OF inv] xy(3) b3 I in \<open>auto simp: holds_listens\<close>)
        next
          case False
          have l: "\<not> exa_socket_holds_interfaces (net_socks n6 fd)" using False cn xy(2) by (simp add: holds_listens listens_def)
          have eq: "net_table (table_insert fd n6) = net_table n6" using l by (simp add: table_insert_def)
          show ?thesis using sk6 False cn U n6(2) n2 I l L'(2,4) unfolding sock_ok_def item_ok_def memb_ok_def Let_def eq by auto
        qed
        then have "sock_inv N (table_insert fd n6) L'" using L'(1) by (simp add: sock_inv_but [of _ _ _ fd])
        then show ?thesis using run L'(3,4) n6(2) n2 cn val by (auto simp: same_socks_def)
      qed
    qed
  qed
qed

subsection \<open>Bind\<close>

lemma mcast_if_frame:
  assumes "(if ms \<noteq> [] then exa_socket_add_mcast_interface k fd a n else (True, n)) = (b, n')"
    and "\<not> IN_MULTICAST (ntohl (mcast_listening_denominator_iface (net_socks n fd)))"
  shows "net_table n' = net_table n \<and> (\<exists>x y z. net_socks n' = (net_socks n)(fd := set_listen x y z (net_socks n fd)) \<and>
     (b \<and> a = INADDR_ANY \<and> ms \<noteq> [] \<longrightarrow> z) \<and> (exa_socket_holds_interfaces (net_socks n fd) \<longrightarrow> listens x y))"
proof (cases "ms \<noteq> [] \<and> (a = INADDR_ANY \<or> exa_mcast_membership_has_multiaddr n fd a)")
  case True
  then have "listen_denominator k fd n = (b, n')" using assms(1) by (auto simp: exa_socket_add_mcast_interface_def)
  from listen_frame [OF this assms(2)] show ?thesis by blast
next
  case False
  then have "n' = n" "a = INADDR_ANY \<longrightarrow> ms = []" using assms(1) by (auto simp: exa_socket_add_mcast_interface_def split: if_splits)
  moreover have "net_socks n = (net_socks n)(fd := set_listen (listen_all_if (net_socks n fd)) (listen_interface (net_socks n fd)) (listen_mcast (net_socks n fd)) (net_socks n fd))"
    by (auto simp: fun_eq_iff)
  ultimately show ?thesis by (metis holds_listens)
qed

lemma but_mcast_if:
  assumes "inv_but N fd n L" "fd < N" "env_fresh (k_if k)"
    and "(if ms \<noteq> [] then exa_socket_add_mcast_interface k fd a n else (True, n)) = (b, n')"
  shows "inv_but N fd n' L"
  using assms(1,4) but_listen [OF assms(1-3)] by (auto simp: exa_socket_add_mcast_interface_def split: if_splits)

lemma distinct_memb: "memb_ok n L fd \<Longrightarrow> distinct (ip_memberships (net_table n) fd)"
  by (simp add: memb_ok_def Let_def distinct_map)

lemma but_insert_all:
  assumes but: "inv_but N fd n L" and d: "distinct (map (memb_ep (net_table n)) (ip_memberships (net_table n) fd))"
    and L: "\<forall>m\<in>set (ip_memberships (net_table n) fd). Memb_item m \<notin> set L"
  shows "\<exists>t L'. exa_udp_mcast_insert_all (net_table n) fd = Some t \<and> inv_but N fd (n\<lparr>net_table := t\<rparr>) L' \<and>
    set L' = set L \<union> Memb_item ` set (ip_memberships (net_table n) fd) \<and> same_socks (net_table n) t"
proof -
  have rep: "table_rep (net_table n) L" using but by (simp add: inv_but_def)
  obtain t L' where t: "mcast_insert_list fd (ip_memberships (net_table n) fd) (net_table n) = Some t" "table_rep t L'"
      "set L' = set L \<union> Memb_item ` set (ip_memberships (net_table n) fd)" "same_socks (net_table n) t"
    using rep_insert_list [OF rep subset_refl _ d L] d by (auto simp: distinct_map)
  have "inv_but N fd (n\<lparr>net_table := t\<rparr>) L'"
    by (rule but_table [OF but t(2,4)]) (use t(3) rep_parent [OF rep] in auto)
  then show ?thesis using t by (auto simp: exa_udp_mcast_insert_all_def)
qed

lemma udp_bind_inv:
  assumes inv: "sock_inv N n L" and fd: "fd < N" and k: "kern_ok k n"
    and act: "bypass_state (net_socks n fd) = EXA_BYPASS_ACTIVE" and unb: "\<not> sk_bound (net_socks n fd)"
  shows "\<exists>b n' L'. exa_socket_udp_bind k fd a p n = Some (b, n') \<and> sock_inv N n' L' \<and> sk_valid (net_socks n' fd)"
proof -
  let ?sk = "net_socks n fd" and ?ms = "ip_memberships (net_table n) fd"
  note U = unbound_items [OF inv unb] and env = kern_okD(1) [OF k] and M = sock_okD(3) [OF inv, of fd]
  have S: "sk_ok ?sk" by (rule sock_okD(1) [OF inv])
  then have val: "sk_valid ?sk" and den: "\<not> IN_MULTICAST (ntohl (mcast_listening_denominator_iface ?sk))" and ctx: "ctx_udp ?sk \<noteq> None"
    using act by (simp_all add: sk_ok_def)
  have but: "inv_but N fd n L" using inv by (simp add: sock_inv_but [of _ _ _ fd])
  have unbound: "sock_inv N m L \<and> sk_valid (net_socks m fd)"
    if "inv_but N fd m L" "net_table m = net_table n" "net_socks m fd = set_listen x y z ?sk" for m x y z
    using unbound_step [OF inv unb that(1)] that act unb S by (auto simp: sk_ok_def)
  obtain b1 n1 where u: "exa_socket_update_interfaces k fd a n = (b1, n1)" by fastforce
  note but1 = but_update [OF but fd env u]
  have t1: "net_table n1 = net_table n" by (rule update_frame(1) [OF u])
  obtain x1 y1 where s1: "net_socks n1 = (net_socks n)(fd := ?sk\<lparr>listen_all_if := x1, listen_interface := y1\<rparr>)"
      "b1 \<and> \<not> bound_to_device ?sk \<and> \<not> IN_MULTICAST (ntohl a) \<longrightarrow> listens x1 y1"
    using update_frame(2) [OF u] by (auto simp: listens_def)
  have s1': "net_socks n1 fd = set_listen x1 y1 (listen_mcast ?sk) ?sk" using s1(1) by simp
  note E0 = exa_socket_udp_bind_def [of k fd a p n, unfolded if_not_P [OF unb] u prod.case t1]
  show ?thesis
  proof (cases b1)
    case False
    then show ?thesis unfolding E0 using unbound [OF but1 t1 s1'] by auto
  next
    case b1: True
    obtain b2 n2 where m: "(if ?ms \<noteq> [] then exa_socket_add_mcast_interface k fd a n1 else (True, n1)) = (b2, n2)" by fastforce
    note but2 = but_mcast_if [OF but1 fd env m]
    have den1: "\<not> IN_MULTICAST (ntohl (mcast_listening_denominator_iface (net_socks n1 fd)))" using den by (simp add: s1)
    obtain x y z where f: "net_table n2 = net_table n1" "net_socks n2 = (net_socks n1)(fd := set_listen x y z (net_socks n1 fd))"
        "b2 \<and> a = INADDR_ANY \<and> ?ms \<noteq> [] \<longrightarrow> z" "exa_socket_holds_interfaces (net_socks n1 fd) \<longrightarrow> listens x y"
      using mcast_if_frame [OF m den1] by blast
    have s2: "net_socks n2 fd = set_listen x y z ?sk" using f(2) s1' by simp
    have t2: "net_table n2 = net_table n" using f(1) t1 by simp
    have h2: "\<not> bound_to_device ?sk \<and> \<not> IN_MULTICAST (ntohl a) \<longrightarrow> listens x y" using f(4) s1 b1 by (simp add: holds_listens)
    have b1': "b1 = True" using b1 by simp
    note E1 = E0 [unfolded b1' bool.case m prod.case]
    show ?thesis
    proof (cases b2)
      case False
      have "net_socks (exa_socket_release_interfaces fd n2) fd = set_listen False None z ?sk" by (simp add: release_frame s2)
      then have "sock_inv N (exa_socket_release_interfaces fd n2) L \<and> sk_valid (net_socks (exa_socket_release_interfaces fd n2) fd)"
        by (intro unbound [OF but_release [OF but2 fd]]) (simp_all add: release_frame t2)
      then show ?thesis unfolding E1 using False by auto
    next
      case b2: True
      have b2': "b2 = True" using b2 by simp
      define n3 where "n3 = on_sock fd (\<lambda>sk. sk\<lparr>sk_bound := True\<rparr>) n2"
      have but3: "inv_but N fd n3 L" unfolding n3_def by (intro but_sock but2) simp_all
      have n3: "net_socks n3 fd = (set_listen x y z ?sk)\<lparr>sk_bound := True\<rparr>" "net_table n3 = net_table n" by (simp_all add: n3_def s2 t2)
      note E2 = E1 [unfolded b2' bool.case Let_def, folded n3_def]
      show ?thesis
      proof (cases "exa_sys_bind k ((sk_bind n3 fd)\<lparr>local_addr := a, local_port := p\<rparr>)")
        case None
        define n4 where "n4 = exa_socket_release_interfaces fd (on_sock fd (\<lambda>sk. sk\<lparr>sk_bound := False\<rparr>) n3)"
        have "net_socks n4 fd = set_listen False None z ?sk" using unb by (simp add: n4_def release_frame n3)
        then have "sock_inv N n4 L \<and> sk_valid (net_socks n4 fd)"
          by (intro unbound) (auto simp: n4_def release_frame n3 intro!: but_release but_sock but3 fd)
        then show ?thesis unfolding E2 None by (auto simp: n4_def)
      next
        case (Some ep)
        obtain q where q: "k_bind k a p = Some q"
            "ep = (if p = 0 then (sk_bind n3 fd)\<lparr>local_addr := a, local_port := q\<rparr> else (sk_bind n3 fd)\<lparr>local_addr := a, local_port := p\<rparr>)"
          using Some by (auto simp: exa_sys_bind_def)
        have ep: "local_addr ep = a" "local_port ep \<noteq> 0"
          using kern_okD(4) [OF k q(1)] unfolding q(2) by (cases "p = 0"; simp)+
        define n4 where "n4 = set_bind fd ep n3"
        have but4: "inv_but N fd n4 L" unfolding n4_def using U(1,2) by (intro but_bind [OF but3]) (auto simp: n3)
        have n4: "net_socks n4 fd = (set_listen x y z ?sk)\<lparr>sk_bound := True\<rparr>" "ht_memb (net_table n4) = ht_memb (net_table n)"
            "ip_memberships (net_table n4) = ip_memberships (net_table n)" "sk_bind n4 fd = ep"
          by (simp_all add: n4_def n3)
        have "\<exists>t L5. (if z then exa_udp_mcast_insert_all (net_table n4) fd else Some (net_table n4)) = Some t \<and> inv_but N fd (n4\<lparr>net_table := t\<rparr>) L5 \<and>
            set L5 = set L \<union> (if z then Memb_item ` set ?ms else {}) \<and> same_socks (net_table n4) t"
        proof (cases z)
          case True
          have "distinct (map (memb_ep (net_table n4)) (ip_memberships (net_table n4) fd))" using M by (simp add: n4 memb_ok_def Let_def)
          then show ?thesis using but_insert_all [OF but4] True U(3) by (simp add: n4)
        next
          case False
          then show ?thesis using but4 by (intro exI [of _ "net_table n4"] exI [of _ L]) (simp add: same_socks_def)
        qed
        then obtain t L5 where t: "(if z then exa_udp_mcast_insert_all (net_table n4) fd else Some (net_table n4)) = Some t"
            "inv_but N fd (n4\<lparr>net_table := t\<rparr>) L5" "set L5 = set L \<union> (if z then Memb_item ` set ?ms else {})" "same_socks (net_table n4) t"
          by blast
        define n5 where "n5 = n4\<lparr>net_table := t\<rparr>"
        have run: "exa_socket_udp_bind k fd a p n = Some (True, table_insert fd n5)"
          unfolding E2 Some option.case n4_def [symmetric] using t(1) by (cases z) (auto simp: table_opt_def n4(1) n5_def)
        have n5: "net_socks n5 fd = (set_listen x y z ?sk)\<lparr>sk_bound := True\<rparr>" "ht_memb (net_table n5) = ht_memb (net_table n)"
            "ip_memberships (net_table n5) = ip_memberships (net_table n)" "sk_bind n5 fd = ep"
          using n4 t(4) by (simp_all add: n5_def same_socks_def)
        have L5: "Sock_item fd \<notin> set L5" using U(1) t(3) by auto
        obtain L' where L': "inv_but N fd (table_insert fd n5) L'" "set L' = set L5 \<union> (if exa_socket_holds_interfaces (net_socks n5 fd) then {Sock_item fd} else {})"
            "same_socks (net_table n5) (net_table (table_insert fd n5))" "net_socks (table_insert fd n5) = net_socks n5"
          using insert_inv [OF t(2) [folded n5_def] L5] by blast
        have sk: "sk_ok (net_socks n5 fd)" using S act by (simp add: n5 sk_ok_def)
        have "sock_ok (table_insert fd n5) (set L') fd"
        proof (rule bound_ok [where n = n5 and t = "net_table n5" and n0 = n and ?L0.0 = "set L" and L = "set L5"])
          show "m \<in> set (ip_memberships (net_table n5) fd) \<and> listen_mcast (net_socks n5 fd)"
            if "Memb_item m \<in> set L5" "parent_sock (ht_memb (net_table n5) m) = fd" for m
            using that U(2) t(3) by (auto simp: n5 split: if_splits)
          show "Memb_item ` set (ip_memberships (net_table n5) fd) \<subseteq> set L5" if "local_addr (sk_bind n5 fd) = INADDR_ANY"
            using that f(3) b2 t(3) by (cases "?ms = []") (auto simp: n5 ep)
        qed (use n5 L' L5 sk M act ep h2 in \<open>simp_all add: holds_listens\<close>)
        then have "sock_inv N (table_insert fd n5) L'" using L'(1) by (simp add: sock_inv_but [of _ _ _ fd])
        then show ?thesis unfolding run using L'(4) n5 val by auto
      qed
    qed
  qed
qed

subsection \<open>Connect\<close>

lemma remove_inv:
  assumes but: "inv_but N fd n L" and h: "\<not> exa_socket_holds_interfaces (net_socks n fd) \<Longrightarrow> Sock_item fd \<notin> set L"
  shows "\<exists>n1 L1. table_remove fd n = Some n1 \<and> inv_but N fd n1 L1 \<and> set L1 = set L - {Sock_item fd} \<and> net_socks n1 = net_socks n \<and>
    same_socks (net_table n) (net_table n1)"
proof (cases "exa_socket_holds_interfaces (net_socks n fd)")
  case True
  have "distinct L" using but rep_distinct by (auto simp: inv_but_def)
  then show ?thesis using but_remove [OF but] True by (force simp: table_remove_def table_opt_def)
next
  case False
  then show ?thesis using but h by (auto simp: table_remove_def same_socks_def)
qed

lemma sys_connect_port:
  "exa_sys_connect k ep = Some ep1 \<Longrightarrow> local_port ep \<noteq> 0 \<Longrightarrow> local_port ep1 = local_port ep \<and> (local_addr ep \<noteq> 0 \<longrightarrow> local_addr ep1 = local_addr ep)"
  by (auto simp: exa_sys_connect_def Let_def split: if_splits)

lemma insert_connected:
  "on_sock fd (\<lambda>sk. sk\<lparr>sk_connected := c\<rparr>) (table_insert fd n) = table_insert fd (on_sock fd (\<lambda>sk. sk\<lparr>sk_connected := c\<rparr>) n)"
  by (simp add: table_insert_def exa_socket_holds_interfaces_def on_table_def on_sock_def)

lemma udp_connect_inv:
  assumes inv: "sock_inv N n L" and fd: "fd < N" and k: "kern_ok k n" and act: "bypass_state (net_socks n fd) = EXA_BYPASS_ACTIVE"
    and r: "exa_socket_udp_connect k fd a p n = Some (b, n')"
  shows "\<exists>L'. sock_inv N n' L' \<and> sk_valid (net_socks n' fd)"
proof -
  let ?sk = "net_socks n fd" and ?ms = "ip_memberships (net_table n) fd"
  have bound: "sk_bound ?sk" "\<not> (\<not> sk_bound ?sk \<or> sk_connected ?sk)" using r by (auto simp: exa_socket_udp_connect_def split: if_splits)
  note env = kern_okD(1) [OF k] and M = sock_okD(3) [OF inv, of fd]
  note M' = M [unfolded memb_ok_def Let_def] and I = sock_okD(2) [OF inv, of fd, unfolded item_ok_def Let_def]
  have S: "sk_ok ?sk" by (rule sock_okD(1) [OF inv])
  then have val: "sk_valid ?sk" and ctx: "ctx_udp ?sk \<noteq> None" using act by (simp_all add: sk_ok_def)
  have but: "inv_but N fd n L" using inv by (simp add: sock_inv_but [of _ _ _ fd])
  note E0 = r [unfolded exa_socket_udp_connect_def if_not_P [OF bound(2)]]
  show ?thesis
  proof (cases "exa_sys_connect k ((sk_bind n fd)\<lparr>peer_addr := a, peer_port := p\<rparr>)")
    case None
    then show ?thesis using E0 inv val by auto
  next
    case (Some ep)
    have ep: "local_port ep = local_port (sk_bind n fd)" "local_port ep \<noteq> 0" "local_addr (sk_bind n fd) \<noteq> 0 \<longrightarrow> local_addr ep = local_addr (sk_bind n fd)"
      using sys_connect_port [OF Some] I bound(1) by auto
    obtain n1 L1 where n1: "table_remove fd n = Some n1" "inv_but N fd n1 L1" "set L1 = set L - {Sock_item fd}" "net_socks n1 = net_socks n"
        "same_socks (net_table n) (net_table n1)"
      using remove_inv [OF but] I by blast
    have t1: "ht_memb (net_table n1) = ht_memb (net_table n)" "ip_memberships (net_table n1) = ip_memberships (net_table n)" "sk_bind n1 = sk_bind n"
      using n1(5) by (simp_all add: same_socks_def)
    obtain b2 n2 where u: "exa_socket_update_interfaces k fd (local_addr ep) n1 = (b2, n2)" by fastforce
    note but2 = but_update [OF n1(2) fd env u]
    have t2: "net_table n2 = net_table n1" by (rule update_frame(1) [OF u])
    obtain x y where s2: "net_socks n2 = (net_socks n)(fd := ?sk\<lparr>listen_all_if := x, listen_interface := y\<rparr>)"
        "b2 \<and> \<not> bound_to_device ?sk \<and> \<not> IN_MULTICAST (ntohl (local_addr ep)) \<longrightarrow> listens x y"
        "\<not> b2 \<longrightarrow> x = listen_all_if ?sk \<and> y = listen_interface ?sk"
      using update_frame(2) [OF u] by (auto simp: listens_def n1(4))
    have L1: "Sock_item fd \<notin> set L1" using n1(3) by simp
    have memb: "m \<in> set ?ms \<and> listen_mcast ?sk" if "Memb_item m \<in> set L1" "parent_sock (ht_memb (net_table n) m) = fd" for m
      using that M' n1(3) by auto
    note E1 = E0 [unfolded Some option.case n1(1) u prod.case]
    show ?thesis
    proof (cases b2)
      case False
      then have s2': "net_socks n2 fd = ?sk" using s2 by simp
      obtain L' where L': "inv_but N fd (table_insert fd n2) L'" "set L' = set L1 \<union> (if exa_socket_holds_interfaces (net_socks n2 fd) then {Sock_item fd} else {})"
          "same_socks (net_table n2) (net_table (table_insert fd n2))" "net_socks (table_insert fd n2) = net_socks n2"
        using insert_inv [OF but2 L1] by blast
      have "sock_ok (table_insert fd n2) (set L') fd"
      proof (rule bound_ok [where n = n2 and t = "net_table n2" and n0 = n and ?L0.0 = "set L" and L = "set L1"])
        show "exa_socket_holds_interfaces (net_socks n2 fd)"
          if "\<not> IN_MULTICAST (ntohl (local_addr (ht_bind (net_table n2) fd)))" "\<not> bound_to_device (net_socks n2 fd)"
          using that I bound(1) by (auto simp: t2 t1 s2')
        show "Memb_item ` set (ip_memberships (net_table n2) fd) \<subseteq> set L1" if "local_addr (sk_bind n2 fd) = INADDR_ANY"
          using that M' bound(1) n1(3) by (auto simp: t2 t1)
      qed (use S act bound(1) I L' L1 M memb in \<open>auto simp: t2 t1 s2'\<close>)
      then have "sock_inv N (table_insert fd n2) L'" using L'(1) by (simp add: sock_inv_but [of _ _ _ fd])
      moreover have "n' = table_insert fd n2" using E1 False by simp
      ultimately show ?thesis using L'(4) s2' val by auto
    next
      case b2: True
      have b2': "b2 = True" using b2 by simp
      obtain n3 where tx: "exa_socket_udp_update_tx k fd a p n2 = Some (True, n3)"
        and n': "n' = on_sock fd (\<lambda>sk. sk\<lparr>sk_connected := True\<rparr>) (table_insert fd (set_bind fd ep n3))"
        using E1 by (auto simp: b2' split: option.splits prod.splits bool.splits)
      have c2: "counted N n2" using but2 by (simp add: inv_but_def)
      note T = tx_counted [OF c2 fd env tx] and but3 = but_tx [OF but2 fd env tx]
      have s2': "net_socks n2 fd = ?sk\<lparr>listen_all_if := x, listen_interface := y\<rparr>" using s2 by simp
      obtain c3 where n3: "net_socks n3 fd = ?sk\<lparr>listen_all_if := x, listen_interface := y, ctx_udp := c3\<rparr>" "c3 \<noteq> None"
      proof (cases "net_socks n3 = net_socks n2")
        case True
        have "?sk\<lparr>listen_all_if := x, listen_interface := y\<rparr> = ?sk\<lparr>listen_all_if := x, listen_interface := y, ctx_udp := ctx_udp ?sk\<rparr>" by (cases ?sk) simp
        then show ?thesis using that [of "ctx_udp ?sk"] ctx True s2' by simp
      qed (use T s2' that in auto)
      have t3: "net_table n3 = net_table n1" using T t2 by simp
      define n4 where "n4 = on_sock fd (\<lambda>sk. sk\<lparr>sk_connected := True\<rparr>) (set_bind fd ep n3)"
      have "inv_but N fd (set_bind fd ep n3) L1" using L1 ep(1) by (intro but_bind [OF but3]) (simp_all add: t3 t1)
      then have but4: "inv_but N fd n4 L1" unfolding n4_def by (intro but_sock) simp_all
      have n4: "net_socks n4 fd = ?sk\<lparr>listen_all_if := x, listen_interface := y, ctx_udp := c3, sk_connected := True\<rparr>"
          "ht_memb (net_table n4) = ht_memb (net_table n)" "ip_memberships (net_table n4) = ip_memberships (net_table n)" "sk_bind n4 fd = ep"
        by (simp_all add: n4_def n3 t3 t1)
      obtain L' where L': "inv_but N fd (table_insert fd n4) L'" "set L' = set L1 \<union> (if exa_socket_holds_interfaces (net_socks n4 fd) then {Sock_item fd} else {})"
          "same_socks (net_table n4) (net_table (table_insert fd n4))" "net_socks (table_insert fd n4) = net_socks n4"
        using insert_inv [OF but4 L1] by blast
      have "sock_ok (table_insert fd n4) (set L') fd"
      proof (rule bound_ok [where n = n4 and t = "net_table n4" and n0 = n and ?L0.0 = "set L" and L = "set L1"])
        show "Memb_item ` set (ip_memberships (net_table n4) fd) \<subseteq> set L1" if "local_addr (sk_bind n4 fd) = INADDR_ANY"
          using that M' bound(1) n1(3) ep(3) by (auto simp: n4)
        show "exa_socket_holds_interfaces (net_socks n4 fd)"
          if "\<not> IN_MULTICAST (ntohl (local_addr (ht_bind (net_table n4) fd)))" "\<not> bound_to_device (net_socks n4 fd)"
          using that s2(2) b2 by (simp add: n4 holds_listens)
      qed (use S act bound(1) ep(2) L' L1 M memb n3(2) in \<open>simp_all add: n4 sk_ok_def\<close>)
      then have "sock_inv N (table_insert fd n4) L'" using L'(1) by (simp add: sock_inv_but [of _ _ _ fd])
      then show ?thesis unfolding n' insert_connected n4_def [symmetric] using L'(4) n4 val by auto
    qed
  qed
qed

lemma sock_ok_cong:
  assumes ok: "sock_ok n L fd" and sk: "sk_ok (net_socks n' fd)" and t: "net_table n' = net_table n"
    and f: "sk_bound (net_socks n' fd) = sk_bound (net_socks n fd)" "bypass_state (net_socks n' fd) = bypass_state (net_socks n fd)"
      "bound_to_device (net_socks n' fd) = bound_to_device (net_socks n fd)" "listen_mcast (net_socks n' fd) = listen_mcast (net_socks n fd)"
      "exa_socket_holds_interfaces (net_socks n' fd) = exa_socket_holds_interfaces (net_socks n fd)"
  shows "sock_ok n' L fd"
  using ok sk unfolding sock_ok_def item_ok_def memb_ok_def Let_def t f by blast

lemma target_inv:
  assumes inv: "sock_inv N n L" and fd: "fd < N" and env: "env_fresh (k_if k)"
    and r: "exa_socket_udp_update_tx k fd a p n = Some (b, n')"
  shows "sock_inv N n' L \<and> sk_valid (net_socks n' fd) = sk_valid (net_socks n fd)"
proof -
  have but: "inv_but N fd n L" using inv by (simp add: sock_inv_but [of _ _ _ fd])
  have c: "counted N n" using but by (simp add: inv_but_def)
  note T = tx_counted [OF c fd env r]
  have ctx: "ctx_udp (net_socks n fd) \<noteq> None" using r by (auto simp: exa_socket_udp_update_tx_def Let_def split: if_splits option.splits)
  obtain c3 where n3: "net_socks n' fd = (net_socks n fd)\<lparr>ctx_udp := c3\<rparr>" "c3 \<noteq> None"
  proof (cases "net_socks n' = net_socks n")
    case True
    then show ?thesis using that [of "ctx_udp (net_socks n fd)"] ctx by simp
  qed (use T that in auto)
  have "sock_ok n (set L) fd" using inv by (simp add: sock_inv_def)
  then have "sock_ok n' (set L) fd" using T n3 ctx sock_okD(1) [OF inv, of fd]
    by (elim sock_ok_cong) (auto simp: sk_ok_def exa_socket_holds_interfaces_def)
  then show ?thesis using but_tx [OF but fd env r] n3 by (simp add: sock_inv_but [of _ _ _ fd])
qed

subsection \<open>Memberships\<close>

lemma not_any_unicast: "\<not> IN_MULTICAST (ntohl (- 1))"
  by (simp add: IN_MULTICAST_def ntohl_def mask_eq_exp_minus_1)

lemma denom_unicast:
  assumes "\<forall>m\<in>set (ip_memberships (net_table n) fd). \<not> IN_MULTICAST (ntohl (mc_interface (memb_ep (net_table n) m)))"
  shows "\<not> IN_MULTICAST (ntohl (exa_socket_ip_memberships_get_denominator_iface n fd))"
proof (cases "memb_ifaces n fd")
  case Nil
  then show ?thesis by (simp add: exa_socket_ip_memberships_get_denominator_iface_def not_any_unicast)
next
  case (Cons d ds)
  have "d \<in> set (memb_ifaces n fd)" by (simp add: Cons)
  then have "\<not> IN_MULTICAST (ntohl d)" using assms by (auto simp: memb_ifaces_def)
  then show ?thesis by (auto simp: exa_socket_ip_memberships_get_denominator_iface_def Cons)
qed

lemma update_denominator_frame [simp]:
  "net_table (update_denominator fd n) = net_table n"
  "net_socks (update_denominator fd n) = (net_socks n)(fd := (net_socks n fd)\<lparr>mcast_listening_denominator_iface := exa_socket_ip_memberships_get_denominator_iface n fd\<rparr>)"
  by (simp_all add: update_denominator_def)

lemma but_denominator: "inv_but N fd n L \<Longrightarrow> inv_but N fd (update_denominator fd n) L"
  unfolding update_denominator_def by (rule but_sock) simp_all

lemma but_memberships:
  assumes "inv_but N fd n L" "set ms \<subseteq> set (ip_memberships (net_table n) fd)"
  shows "inv_but N fd (n\<lparr>net_table := (net_table n)\<lparr>ip_memberships := (ip_memberships (net_table n))(fd := ms)\<rparr>\<rparr>) L"
  by (rule frame_but [OF assms(1)]) (use assms memberships_rep in \<open>auto simp: inv_but_def\<close>)

lemma memberships_remove_some:
  assumes "exa_socket_ip_memberships_find (net_table n) fd mc = Some m"
  shows "memberships_remove fd mc n = update_denominator fd (n\<lparr>net_table := (net_table n)\<lparr>ip_memberships :=
      (ip_memberships (net_table n))(fd := remove1 m (ip_memberships (net_table n) fd))\<rparr>\<rparr>)"
  using assms by (simp add: memberships_remove_def exa_socket_ip_memberships_remove_def)

lemma sk_ok_denominator: "sk_ok sk \<Longrightarrow> \<not> IN_MULTICAST (ntohl d) \<Longrightarrow> sk_ok (sk\<lparr>mcast_listening_denominator_iface := d\<rparr>)"
  by (simp add: sk_ok_def no_refs_def)

lemma distinct_map_remove1: "distinct (map f xs) \<Longrightarrow> distinct (map f (remove1 x xs))"
  by (induction xs) (auto dest: set_remove1_subset [THEN subsetD])

lemma memb_ok_cong:
  assumes "memb_ok n L fd" "ht_memb (net_table n') = ht_memb (net_table n)" "ip_memberships (net_table n') fd = ip_memberships (net_table n) fd"
    and "sk_bind n' fd = sk_bind n fd" "sk_bound (net_socks n' fd) = sk_bound (net_socks n fd)" "bypass_state (net_socks n' fd) = bypass_state (net_socks n fd)"
    and "listen_mcast (net_socks n' fd) = listen_mcast (net_socks n fd)"
  shows "memb_ok n' L fd"
  using assms(1) unfolding memb_ok_def Let_def assms(2-) .

lemma leave_ok:
  assumes but: "inv_but N fd n L" and f: "exa_socket_ip_memberships_find (net_table n) fd mc = Some m"
    and sk: "sk_ok (net_socks n fd)" "item_ok n (set L) fd" "bypass_state (net_socks n fd) = EXA_BYPASS_ACTIVE"
    and M: "distinct (map (memb_ep (net_table n)) (ip_memberships (net_table n) fd))"
      "\<forall>x\<in>set (ip_memberships (net_table n) fd). \<not> IN_MULTICAST (ntohl (mc_interface (memb_ep (net_table n) x)))"
      "\<And>x. Memb_item x \<in> set L \<Longrightarrow> parent_sock (ht_memb (net_table n) x) = fd \<Longrightarrow>
        x \<in> set (ip_memberships (net_table n) fd) \<and> listen_mcast (net_socks n fd) \<and> sk_bound (net_socks n fd)"
      "sk_bound (net_socks n fd) \<Longrightarrow> local_addr (sk_bind n fd) = INADDR_ANY \<Longrightarrow> Memb_item ` (set (ip_memberships (net_table n) fd) - {m}) \<subseteq> set L"
    and L: "Memb_item m \<notin> set L"
  shows "sock_inv N (memberships_remove fd mc n) L"
proof -
  let ?ms = "ip_memberships (net_table n) fd"
  let ?n = "n\<lparr>net_table := (net_table n)\<lparr>ip_memberships := (ip_memberships (net_table n))(fd := remove1 m ?ms)\<rparr>\<rparr>"
  have sub: "set (remove1 m ?ms) = set ?ms - {m}" using M(1) by (simp add: distinct_map)
  have dm: "distinct (map (memb_ep (net_table n)) (remove1 m ?ms))" by (rule distinct_map_remove1 [OF M(1)])
  have u: "\<forall>m\<in>set (ip_memberships (net_table ?n) fd). \<not> IN_MULTICAST (ntohl (mc_interface (memb_ep (net_table ?n) m)))"
    using M(2) sub by auto
  have "inv_but N fd (memberships_remove fd mc n) L" unfolding memberships_remove_some [OF f]
    by (intro but_denominator but_memberships but) (simp add: sub)
  moreover have "sk_ok (net_socks (memberships_remove fd mc n) fd)"
    using sk_ok_denominator [OF sk(1) denom_unicast [OF u]] by (simp add: memberships_remove_some [OF f])
  moreover have "item_ok (memberships_remove fd mc n) (set L) fd"
    using sk(2) by (simp add: memberships_remove_some [OF f] item_ok_def Let_def exa_socket_holds_interfaces_def)
  moreover have "memb_ok (memberships_remove fd mc n) (set L) fd" unfolding memb_ok_def Let_def memberships_remove_some [OF f]
  proof (intro conjI)
    show "\<forall>x. Memb_item x \<in> set L \<and> parent_sock (ht_memb (net_table (update_denominator fd ?n)) x) = fd \<longrightarrow>
        x \<in> set (ip_memberships (net_table (update_denominator fd ?n)) fd) \<and> listen_mcast (net_socks (update_denominator fd ?n) fd) \<and>
        sk_bound (net_socks (update_denominator fd ?n) fd)"
      using M(3) L by (auto simp: sub)
    show "sk_bound (net_socks (update_denominator fd ?n) fd) \<and> local_addr (sk_bind (update_denominator fd ?n) fd) = INADDR_ANY \<longrightarrow>
        Memb_item ` set (ip_memberships (net_table (update_denominator fd ?n)) fd) \<subseteq> set L"
      using M(4) by (auto simp: sub)
  qed (use dm u sk(3) in simp_all)
  ultimately show ?thesis by (simp add: sock_inv_but [of _ _ _ fd] sock_ok_def)
qed

lemma add_ok:
  assumes inv: "sock_inv N n L" and m: "\<And>fd. m \<notin> set (ip_memberships (net_table n) fd)"
    and new: "exa_socket_ip_memberships_find (net_table n) fd mc = None" and uni: "\<not> IN_MULTICAST (ntohl (mc_interface mc))"
    and n': "n' = update_denominator fd (on_table (\<lambda>t. exa_socket_ip_memberships_add t m fd mc) n)"
  shows "inv_but N fd n' L" "sk_ok (net_socks n' fd)" "item_ok n' (set L) fd" "Memb_item m \<notin> set L"
    "exa_socket_ip_memberships_find (net_table n') fd mc = Some m"
    "bypass_state (net_socks n fd) = EXA_BYPASS_ACTIVE \<Longrightarrow>
      \<not> (sk_bound (net_socks n fd) \<and> local_addr (sk_bind n fd) = INADDR_ANY) \<Longrightarrow> memb_ok n' (set L) fd"
    "distinct (map (memb_ep (net_table n')) (ip_memberships (net_table n') fd))"
    "\<forall>m\<in>set (ip_memberships (net_table n') fd). \<not> IN_MULTICAST (ntohl (mc_interface (memb_ep (net_table n') m)))"
    "\<And>x. Memb_item x \<in> set L \<Longrightarrow> parent_sock (ht_memb (net_table n') x) = fd \<Longrightarrow> x \<in> set (ip_memberships (net_table n') fd)"
    "memb_ok (n'\<lparr>net_table := (net_table n')\<lparr>ip_memberships := (ip_memberships (net_table n'))(fd := ip_memberships (net_table n) fd)\<rparr>\<rparr>) (set L) fd"
proof -
  let ?t = "net_table n" and ?sk = "net_socks n fd"
  let ?ms = "ip_memberships ?t fd"
  have rep: "table_rep ?t L" by (rule sock_okD(5) [OF inv])
  have L: "Memb_item m \<notin> set L" using sock_okD(3) [OF inv, of "parent_sock (ht_memb ?t m)"] m by (auto simp: memb_ok_def Let_def)
  have but: "inv_but N fd n L" using inv by (simp add: sock_inv_but [of _ _ _ fd])
  have t': "ht_bind (net_table n') = ht_bind ?t" "ht_memb (net_table n') = (ht_memb ?t)(m := \<lparr>parent_sock = fd, mcast_ep = mc\<rparr>)"
      "ip_memberships (net_table n') = (ip_memberships ?t)(fd := m # ?ms)"
    by (simp_all add: n' exa_socket_ip_memberships_add_def)
  have "inv_but N fd (on_table (\<lambda>t. exa_socket_ip_memberships_add t m fd mc) n) L"
  proof (rule frame_but [OF but])
    show "counted N (on_table (\<lambda>t. exa_socket_ip_memberships_add t m fd mc) n)" using sock_okD(4) [OF inv] by simp
    show "table_rep (net_table (on_table (\<lambda>t. exa_socket_ip_memberships_add t m fd mc) n)) L" using join_rep [OF rep L] m by simp
  qed (use m L in \<open>auto simp: exa_socket_ip_memberships_add_def\<close>)
  then show "inv_but N fd n' L" unfolding n' by (rule but_denominator)
  show "Memb_item m \<notin> set L" by (rule L)
  note M = sock_okD(3) [OF inv, of fd, unfolded memb_ok_def Let_def]
  have neq: "memb_ep ?t x \<noteq> mc" if "x \<in> set ?ms" for x
    using new that by (auto simp: exa_socket_ip_memberships_find_def find_None_iff)
  have fresh: "m \<notin> set ?ms" by (rule m)
  have ep: "memb_ep (net_table n') x = memb_ep ?t x" if "x \<in> set ?ms" for x using that fresh by (auto simp: t')
  have map: "map (memb_ep (net_table n')) ?ms = map (memb_ep ?t) ?ms" using ep by simp
  have mc: "memb_ep (net_table n') m = mc" by (simp add: t')
  have d: "distinct (map (memb_ep (net_table n')) (m # ?ms))" unfolding list.map map distinct.simps mc using M neq by auto
  have u: "\<forall>x\<in>set (m # ?ms). \<not> IN_MULTICAST (ntohl (mc_interface (memb_ep (net_table n') x)))" using M uni ep by (auto simp: t')
  have ms': "ip_memberships (net_table n') fd = m # ?ms" by (simp add: t')
  show "exa_socket_ip_memberships_find (net_table n') fd mc = Some m"
    by (simp add: exa_socket_ip_memberships_find_def t')
  define d where "d = exa_socket_ip_memberships_get_denominator_iface (on_table (\<lambda>t. exa_socket_ip_memberships_add t m fd mc) n) fd"
  have s': "net_socks n' fd = ?sk\<lparr>mcast_listening_denominator_iface := d\<rparr>" by (simp add: n' d_def)
  have "\<not> IN_MULTICAST (ntohl d)" unfolding d_def
    by (rule denom_unicast) (use u ms' in \<open>simp add: n'\<close>)
  then show "sk_ok (net_socks n' fd)" using sk_ok_denominator [OF sock_okD(1) [OF inv]] by (simp add: s')
  show "item_ok n' (set L) fd"
    using sock_okD(2) [OF inv, of fd] by (simp add: item_ok_def Let_def s' t' exa_socket_holds_interfaces_def)
  have items: "x \<in> set ?ms \<and> listen_mcast ?sk \<and> sk_bound ?sk"
    if "Memb_item x \<in> set L" "parent_sock (ht_memb (net_table n') x) = fd" for x
  proof -
    have "x \<noteq> m" using that(1) L by blast
    then show ?thesis using that M by (simp add: t')
  qed
  have base: "distinct (map (memb_ep (net_table n')) ?ms)" "\<forall>x\<in>set ?ms. \<not> IN_MULTICAST (ntohl (mc_interface (memb_ep (net_table n') x)))"
    using d u by simp_all
  show "memb_ok n' (set L) fd"
    if "bypass_state ?sk = EXA_BYPASS_ACTIVE" "\<not> (sk_bound ?sk \<and> local_addr (sk_bind n fd) = INADDR_ANY)"
    unfolding memb_ok_def Let_def ms' using that d u items by (auto simp: s' t'(1))
  show "distinct (map (memb_ep (net_table n')) (ip_memberships (net_table n') fd))"
    "\<forall>m\<in>set (ip_memberships (net_table n') fd). \<not> IN_MULTICAST (ntohl (mc_interface (memb_ep (net_table n') m)))"
    unfolding ms' by (rule d, rule u)
  show "x \<in> set (ip_memberships (net_table n') fd)" if "Memb_item x \<in> set L" "parent_sock (ht_memb (net_table n') x) = fd" for x
    using items [OF that] by (simp add: ms')
  show "memb_ok (n'\<lparr>net_table := (net_table n')\<lparr>ip_memberships := (ip_memberships (net_table n'))(fd := ?ms)\<rparr>\<rparr>) (set L) fd"
    unfolding memb_ok_def Let_def using base items M by (auto simp: s' t'(1))
qed

lemma join_inv:
  assumes inv: "sock_inv N n L" and fd: "fd < N" and k: "kern_ok k n" and act: "bypass_state (net_socks n fd) = EXA_BYPASS_ACTIVE"
    and new: "exa_socket_ip_memberships_find (net_table n) fd mc = None" and uni: "\<not> IN_MULTICAST (ntohl (mc_interface mc))"
  shows "\<exists>b n' L'. join_group k fd mc n = Some (b, n') \<and> sock_inv N n' L'"
proof (cases "k_memb k")
  case None
  then show ?thesis using inv by (auto simp: join_group_def memberships_add_def)
next
  case (Some m)
  define n1 where "n1 = update_denominator fd (on_table (\<lambda>t. exa_socket_ip_memberships_add t m fd mc) n)"
  have fresh: "m \<notin> set (ip_memberships (net_table n) x)" for x by (rule kern_okD(3) [OF k Some])
  note A = add_ok [OF inv fresh new uni n1_def]
  have t1: "ht_bind (net_table n1) = ht_bind (net_table n)" "ip_memberships (net_table n1) = (ip_memberships (net_table n))(fd := m # ip_memberships (net_table n) fd)"
    by (simp_all add: n1_def exa_socket_ip_memberships_add_def)
  obtain d where s1: "net_socks n1 = (net_socks n)(fd := (net_socks n fd)\<lparr>mcast_listening_denominator_iface := d\<rparr>)" by (simp add: n1_def)
  have add: "memberships_add k fd mc n = (True, n1)" by (simp add: memberships_add_def Some n1_def)
  note E0 = join_group_def [of k fd mc n, unfolded add prod.case bool.case]
  show ?thesis
  proof (cases "sk_bound (net_socks n fd)")
    case False
    then have "sock_inv N n1 L" using A act by (simp add: sock_inv_but [of _ _ _ fd] sock_ok_def)
    then show ?thesis unfolding E0 using False s1 by auto
  next
    case bound: True
    have nb: "\<not> \<not> sk_bound (net_socks n1 fd)" using bound s1 by simp
    show ?thesis
    proof (cases "local_addr (sk_bind n1 fd) = INADDR_ANY \<or> exa_mcast_membership_has_multiaddr n1 fd (local_addr (sk_bind n1 fd))")
      case False
      then have "sock_inv N n1 L" using A(1-3,6) act t1 by (simp add: sock_inv_but [of _ _ _ fd] sock_ok_def)
      then show ?thesis unfolding E0 exa_socket_add_mcast_def if_not_P [OF nb] if_not_P [OF False] using nb by auto
    next
      case True
      obtain b2 n2 where l: "listen_denominator k fd n1 = (b2, n2)" by fastforce
      have S1: "sk_ok (net_socks n1 fd)" by (rule A(2))
      have den: "\<not> IN_MULTICAST (ntohl (mcast_listening_denominator_iface (net_socks n1 fd)))" using S1 by (simp add: sk_ok_def)
      note but2 = but_listen [OF A(1) fd kern_okD(1) [OF k] l]
      obtain x y z where f: "net_table n2 = net_table n1" "net_socks n2 = (net_socks n1)(fd := set_listen x y z (net_socks n1 fd))" "b2 \<longrightarrow> z"
          "\<not> b2 \<longrightarrow> z = listen_mcast (net_socks n1 fd)"
          "exa_socket_holds_interfaces (net_socks n1 fd) \<or> b2 \<and> \<not> bound_to_device (net_socks n1 fd) \<longrightarrow> listens x y"
        using listen_frame [OF l den] by blast
      have s2: "net_socks n2 fd = set_listen x y z (net_socks n1 fd)" using f(2) by simp
      have act1: "bypass_state (net_socks n1 fd) = EXA_BYPASS_ACTIVE" using act s1 by simp
      have S2: "sk_ok (net_socks n2 fd)" using S1 act1 by (simp add: sk_ok_def s2)
      have I2: "item_ok n2 (set L) fd"
        using A(3) f(5) by (auto simp: item_ok_def Let_def f(1) s2 holds_listens [of "set_listen x y z (net_socks n1 fd)"])
      have find2: "exa_socket_ip_memberships_find (net_table n2) fd mc = Some m" using A(5) f(1) by simp
      note E1 = E0 [unfolded exa_socket_add_mcast_def if_not_P [OF nb] if_P [OF True] l prod.case]
      show ?thesis
      proof (cases b2)
        case False
        have rm: "memberships_remove fd mc n2 = update_denominator fd (n2\<lparr>net_table := (net_table n1)\<lparr>ip_memberships :=
            (ip_memberships (net_table n1))(fd := ip_memberships (net_table n) fd)\<rparr>\<rparr>)"
          using memberships_remove_some [OF find2] by (simp add: f(1) t1)
        have "set (ip_memberships (net_table n) fd) \<subseteq> set (ip_memberships (net_table n2) fd)" by (auto simp: f(1) t1)
        then have but3: "inv_but N fd (memberships_remove fd mc n2) L"
          using but_memberships [OF but2] unfolding rm f(1) by (intro but_denominator) simp
        have M3: "memb_ok (memberships_remove fd mc n2) (set L) fd"
          using A(10) by (rule memb_ok_cong) (use False f(4) in \<open>simp_all add: rm s2\<close>)
        have u: "\<not> IN_MULTICAST (ntohl (exa_socket_ip_memberships_get_denominator_iface (n2\<lparr>net_table := (net_table n1)\<lparr>ip_memberships :=
            (ip_memberships (net_table n1))(fd := ip_memberships (net_table n) fd)\<rparr>\<rparr>) fd))"
          by (rule denom_unicast) (use M3 in \<open>simp add: rm memb_ok_def Let_def\<close>)
        have "sk_ok (net_socks (memberships_remove fd mc n2) fd)" using sk_ok_denominator [OF S2 u] by (simp add: rm)
        moreover have "item_ok (memberships_remove fd mc n2) (set L) fd"
          using I2 by (simp add: rm item_ok_def Let_def f(1) exa_socket_holds_interfaces_def)
        ultimately have "sock_inv N (memberships_remove fd mc n2) L" using but3 M3 by (simp add: sock_inv_but [of _ _ _ fd] sock_ok_def)
        then show ?thesis unfolding E1 using False nb by auto
      next
        case b2: True
        have rep2: "table_rep (net_table n2) L" using but2 by (simp add: inv_but_def)
        obtain t where t: "exa_udp_mcast_insert (net_table n2) fd mc = Some t" "table_rep t (Memb_item m # L)" "same_socks (net_table n2) t"
          using rep_mcast_insert [OF rep2 find2 A(4)] by blast
        have own: "parent_sock (ht_memb (net_table n2) m) = fd" using rep_parent [OF rep2] by (simp add: f(1) t1)
        have but3: "inv_but N fd (n2\<lparr>net_table := t\<rparr>) (Memb_item m # L)" by (rule but_table [OF but2 t(2,3)]) (use own in auto)
        have "listen_mcast (net_socks n2 fd)" "sk_bound (net_socks n2 fd)" "bypass_state (net_socks n2 fd) = EXA_BYPASS_ACTIVE"
          using f(3) b2 act1 nb by (simp_all add: s2)
        moreover have M1: "distinct (map (memb_ep (net_table n1)) (ip_memberships (net_table n1) fd))"
            "\<forall>m\<in>set (ip_memberships (net_table n1) fd). \<not> IN_MULTICAST (ntohl (mc_interface (memb_ep (net_table n1) m)))"
            "\<And>x. Memb_item x \<in> insert (Memb_item m) (set L) \<Longrightarrow> parent_sock (ht_memb (net_table n1) x) = fd \<Longrightarrow> x \<in> set (ip_memberships (net_table n1) fd)"
            "local_addr (sk_bind n1 fd) = INADDR_ANY \<Longrightarrow> Memb_item ` set (ip_memberships (net_table n1) fd) \<subseteq> insert (Memb_item m) (set L)"
          using A(7-9) sock_okD(3) [OF inv, of fd] bound by (auto simp: t1 memb_ok_def Let_def)
        ultimately have "memb_ok (n2\<lparr>net_table := t\<rparr>) (set (Memb_item m # L)) fd"
          using t(3) f(1) unfolding memb_ok_def Let_def by (auto simp: same_socks_def)
        moreover have "item_ok (n2\<lparr>net_table := t\<rparr>) (set (Memb_item m # L)) fd"
          using I2 t(3) by (simp add: item_ok_def Let_def same_socks_def)
        ultimately have "sock_inv N (n2\<lparr>net_table := t\<rparr>) (Memb_item m # L)" using but3 S2 by (simp add: sock_inv_but [of _ _ _ fd] sock_ok_def)
        then show ?thesis unfolding E1 using b2 t(1) nb by (auto simp: table_opt_def)
      qed
    qed
  qed
qed

lemma leave_inv:
  assumes inv: "sock_inv N n L" and fd: "fd < N" and k: "kern_ok k n" and act: "bypass_state (net_socks n fd) = EXA_BYPASS_ACTIVE"
    and f: "exa_socket_ip_memberships_find (net_table n) fd mc = Some m" and r: "leave_group k fd mc n = Some (True, n')"
  shows "\<exists>L'. sock_inv N n' L'"
proof -
  let ?sk = "net_socks n fd" and ?ms = "ip_memberships (net_table n) fd"
  have but: "inv_but N fd n L" using inv by (simp add: sock_inv_but [of _ _ _ fd])
  note S = sock_okD(1) [OF inv, of fd] and I = sock_okD(2) [OF inv, of fd] and M = sock_okD(3) [OF inv, of fd]
  have m: "m \<in> set ?ms" using find_memb [OF f] by blast
  have M1: "distinct (map (memb_ep (net_table n)) ?ms)" "\<forall>x\<in>set ?ms. \<not> IN_MULTICAST (ntohl (mc_interface (memb_ep (net_table n) x)))"
    using M by (simp_all add: memb_ok_def Let_def)
  have M2: "x \<in> set ?ms \<and> listen_mcast ?sk \<and> sk_bound ?sk" if "Memb_item x \<in> set L" "parent_sock (ht_memb (net_table n) x) = fd" for x
    using M that by (simp add: memb_ok_def Let_def)
  have M3: "Memb_item ` set ?ms \<subseteq> set L" if "sk_bound ?sk" "local_addr (sk_bind n fd) = INADDR_ANY"
    using M that by (simp add: memb_ok_def Let_def)
  show ?thesis
  proof (cases "sk_bound ?sk")
    case False
    have "sock_inv N (memberships_remove fd mc n) L"
      by (rule leave_ok [OF but f S I act M1 M2]) (use False unbound_items(3) [OF inv False m] in simp_all)
    then show ?thesis using r False by (auto simp: leave_group_def)
  next
    case True
    have ne: "?ms \<noteq> []" using m by auto
    obtain n2 where d: "exa_socket_del_mcast k fd mc n = Some (True, n2)" and n': "n' = memberships_remove fd mc n2"
      using r True by (auto simp: leave_group_def)
    obtain b1 n1 where u: "exa_socket_update_interfaces k fd (mcast_listening_denominator_iface ?sk) n = (b1, n1)" by fastforce
    note but1 = but_update [OF but fd kern_okD(1) [OF k] u]
    have t1: "net_table n1 = net_table n" by (rule update_frame(1) [OF u])
    have den: "\<not> IN_MULTICAST (ntohl (mcast_listening_denominator_iface ?sk))" using S by (simp add: sk_ok_def)
    have b1: "b1 = True" and n2: "Some n2 = table_opt (\<lambda>t. map_option snd (exa_udp_mcast_remove t fd mc)) n1"
      using d True ne u t1 by (auto simp: exa_socket_del_mcast_def Let_def split: bool.splits if_splits)
    obtain x y where s1: "net_socks n1 = (net_socks n)(fd := ?sk\<lparr>listen_all_if := x, listen_interface := y\<rparr>)"
        "exa_socket_holds_interfaces ?sk \<longrightarrow> listens x y"
      using update_frame(2) [OF u] b1 den by (auto simp: listens_def holds_listens)
    have rep1: "table_rep (net_table n1) L" using but1 by (simp add: inv_but_def)
    obtain b t where t: "exa_udp_mcast_remove (net_table n1) fd mc = Some (b, t)" "table_rep t (remove1 (Memb_item m) L)" "same_socks (net_table n1) t"
      using rep_mcast_remove [OF rep1] f t1 by metis
    have n2: "n2 = n1\<lparr>net_table := t\<rparr>" using n2 t(1) by (simp add: table_opt_def)
    have L1: "set (remove1 (Memb_item m) L) = set L - {Memb_item m}" using rep_distinct [OF rep1] by simp
    have own: "parent_sock (ht_memb (net_table n) m) = fd" by (rule rep_parent [OF sock_okD(5) [OF inv] m])
    have "i \<in> set (remove1 (Memb_item m) L) \<longleftrightarrow> i \<in> set L" if "item_owner (net_table n1) i \<noteq> fd" for i
      using that own unfolding L1 t1 by auto
    then have but2: "inv_but N fd n2 (remove1 (Memb_item m) L)" unfolding n2 by (rule but_table [OF but1 t(2,3)])
    have eq: "ht_bind (net_table n2) = ht_bind (net_table n)" "ht_memb (net_table n2) = ht_memb (net_table n)" "ip_memberships (net_table n2) = ip_memberships (net_table n)"
        "net_socks n2 fd = ?sk\<lparr>listen_all_if := x, listen_interface := y\<rparr>"
      using t(3) t1 s1(1) by (simp_all add: n2 same_socks_def)
    have "sock_inv N (memberships_remove fd mc n2) (remove1 (Memb_item m) L)"
    proof (rule leave_ok [OF but2])
      show "exa_socket_ip_memberships_find (net_table n2) fd mc = Some m" using f by (simp add: exa_socket_ip_memberships_find_def eq)
      show "sk_ok (net_socks n2 fd)" using S act by (simp add: sk_ok_def eq)
      show "item_ok n2 (set (remove1 (Memb_item m) L)) fd" using I s1(2) unfolding item_ok_def Let_def eq(1) L1
        by (auto simp: eq(4) holds_listens)
    qed (use M1 M2 M3 act L1 in \<open>auto simp: eq\<close>)
    then show ?thesis by (auto simp: n')
  qed
qed

subsection \<open>Close\<close>

lemma zero_inv:
  assumes but: "inv_but N fd n L" and nr: "no_refs (net_socks n fd)"
    and L: "Sock_item fd \<notin> set L" "\<And>m. Memb_item m \<in> set L \<Longrightarrow> parent_sock (ht_memb (net_table n) m) \<noteq> fd"
  shows "sock_inv N (exa_socket_zero fd n) L" "net_socks (exa_socket_zero fd n) fd = zero_usock" "ip_memberships (net_table (exa_socket_zero fd n)) fd = []"
proof -
  let ?n1 = "n\<lparr>net_table := (net_table n)\<lparr>ip_memberships := (ip_memberships (net_table n))(fd := [])\<rparr>\<rparr>"
  let ?n2 = "update_denominator fd ?n1"
  let ?n3 = "on_sock fd (\<lambda>_. zero_usock) ?n2"
  let ?n4 = "set_bind fd zero_endpoint ?n3"
  let ?t = "(net_table ?n4)\<lparr>ht_next := (ht_next (net_table ?n4))(Sock_item fd := None)\<rparr>"
  have z: "exa_socket_zero fd n = ?n4\<lparr>net_table := ?t\<rparr>"
    by (simp add: exa_socket_zero_def memberships_remove_all_def on_table_def)
  have but2: "inv_but N fd ?n2 L" by (intro but_denominator but_memberships but) simp
  have but3: "inv_but N fd ?n3 L" by (rule but_sock [OF but2]) (use nr in \<open>simp_all add: zero_usock_def no_refs_def\<close>)
  have but4: "inv_but N fd ?n4 L" by (rule but_bind [OF but3 L(1)]) (use L(2) in simp)
  then have rep: "table_rep (net_table ?n4) L" by (simp add: inv_but_def)
  have par: "\<forall>x. \<forall>m\<in>set (ip_memberships ?t x). parent_sock (ht_memb ?t m) = x" using rep by (simp add: table_rep_def)
  have idx: "item_idx ?t = item_idx (net_table ?n4)" by (rule item_idx_cong) simp_all
  have nxt: "\<forall>i\<in>set L. ht_next ?t i = ht_next (net_table ?n4) i" using L(1) by auto
  have "table_rep ?t L" by (rule table_rep_cong [OF rep _ _ nxt par]) (simp_all add: idx)
  then have but5: "inv_but N fd (exa_socket_zero fd n) L" unfolding z
    by (intro but_table [OF but4]) (auto simp: same_socks_def)
  show sk: "net_socks (exa_socket_zero fd n) fd = zero_usock" by (simp add: z)
  show ms: "ip_memberships (net_table (exa_socket_zero fd n)) fd = []" by (simp add: z)
  have "ht_memb (net_table (exa_socket_zero fd n)) = ht_memb (net_table n)" by (simp add: z)
  then have "sock_ok (exa_socket_zero fd n) (set L) fd"
    using L unfolding sock_ok_def sk_ok_def item_ok_def memb_ok_def Let_def sk ms by (auto simp: zero_usock_def no_refs_def)
  then show "sock_inv N (exa_socket_zero fd n) L" using but5 by (simp add: sock_inv_but [of _ _ _ fd])
qed

lemma mcast_remove_inv:
  assumes inv: "sock_inv N n L"
  shows "\<exists>n1 L1. (if listen_mcast (net_socks n fd) then table_opt (\<lambda>t. exa_udp_mcast_remove_all t fd) n else Some n) = Some n1 \<and>
    inv_but N fd n1 L1 \<and> net_socks n1 = net_socks n \<and> same_socks (net_table n) (net_table n1) \<and>
    (\<forall>m. Memb_item m \<in> set L1 \<longrightarrow> parent_sock (ht_memb (net_table n) m) \<noteq> fd) \<and> (Sock_item fd \<in> set L1 \<longrightarrow> Sock_item fd \<in> set L)"
proof -
  let ?t = "net_table n"
  have but: "inv_but N fd n L" using inv by (simp add: sock_inv_but [of _ _ _ fd])
  have rep: "table_rep ?t L" by (rule sock_okD(5) [OF inv])
  note M = sock_okD(3) [OF inv, of fd, unfolded memb_ok_def Let_def]
  show ?thesis
  proof (cases "listen_mcast (net_socks n fd)")
    case False
    then show ?thesis using but M by (auto simp: same_socks_def)
  next
    case True
    have d: "distinct (map (memb_ep ?t) (ip_memberships ?t fd))" using M by blast
    obtain t L1 where t: "mcast_remove_list fd (ip_memberships ?t fd) ?t = Some t" "table_rep t L1"
        "set L1 = set L - Memb_item ` set (ip_memberships ?t fd)" "same_socks ?t t"
      using rep_remove_list [OF rep subset_refl d] by blast
    have own: "i \<in> set L1 \<longleftrightarrow> i \<in> set L" if "item_owner ?t i \<noteq> fd" for i
      using that rep_parent [OF rep] unfolding t(3) by auto
    have "inv_but N fd (n\<lparr>net_table := t\<rparr>) L1" by (rule but_table [OF but t(2,4) own])
    moreover have "\<forall>m. Memb_item m \<in> set L1 \<longrightarrow> parent_sock (ht_memb ?t m) \<noteq> fd" using M t(3) by blast
    ultimately show ?thesis using True t by (auto simp: table_opt_def exa_udp_mcast_remove_all_def)
  qed
qed

lemma close_inv:
  assumes inv: "sock_inv N n L" and fd: "fd < N"
  shows "\<exists>n' L'. sock_close fd n = Some n' \<and> sock_inv N n' L' \<and> net_socks n' fd = zero_usock \<and> ip_memberships (net_table n') fd = []"
proof (cases "bypass_state (net_socks n fd) = EXA_BYPASS_ACTIVE")
  case False
  have but: "inv_but N fd n L" using inv by (simp add: sock_inv_but [of _ _ _ fd])
  note I = inactive_facts [OF inv False] and U = unbound_items [OF inv inactive_facts(1) [OF inv False]]
  have "no_refs (net_socks n fd)" using I by (simp add: no_refs_def)
  from zero_inv [OF but this U(1,2)] show ?thesis using False by (auto simp: sock_close_def)
next
  case True
  obtain n1 L1 where n1: "(if listen_mcast (net_socks n fd) then table_opt (\<lambda>t. exa_udp_mcast_remove_all t fd) n else Some n) = Some n1"
      "inv_but N fd n1 L1" "net_socks n1 = net_socks n" "same_socks (net_table n) (net_table n1)"
      "\<forall>m. Memb_item m \<in> set L1 \<longrightarrow> parent_sock (ht_memb (net_table n) m) \<noteq> fd" "Sock_item fd \<in> set L1 \<longrightarrow> Sock_item fd \<in> set L"
    using mcast_remove_inv [OF inv, of fd] by blast
  have "Sock_item fd \<notin> set L1" if "\<not> exa_socket_holds_interfaces (net_socks n1 fd)"
    using that n1(3,6) sock_okD(2) [OF inv, of fd] by (auto simp: item_ok_def Let_def)
  then obtain n2 L2 where n2: "table_remove fd n1 = Some n2" "inv_but N fd n2 L2" "set L2 = set L1 - {Sock_item fd}" "net_socks n2 = net_socks n1"
      "same_socks (net_table n1) (net_table n2)"
    using remove_inv [OF n1(2)] by blast
  let ?n3 = "exa_socket_release_interfaces fd n2"
  have but3: "inv_but N fd ?n3 L2" by (rule but_release [OF n2(2) fd])
  have ctx: "ctx_udp (net_socks n2 fd) \<noteq> None" using sock_okD(1) [OF inv, of fd] True by (simp add: n2(4) n1(3) sk_ok_def)
  then obtain n4 where n4: "exanic_udp_free fd ?n3 = Some n4"
    by (auto simp: exanic_udp_free_def release_frame Let_def)
  have c3: "counted N ?n3" using but3 by (simp add: inv_but_def)
  note F = free_counted [OF c3 fd n4]
  let ?n5 = "on_sock fd (\<lambda>sk. sk\<lparr>sk_bound := False, bypass_state := EXA_BYPASS_DISABLED\<rparr>) n4"
  have but5: "inv_but N fd ?n5 L2" by (intro but_sock but_free [OF but3 fd n4]) simp_all
  have nr: "no_refs (net_socks ?n5 fd)" by (simp add: F release_frame no_refs_def)
  have memb: "ht_memb (net_table ?n5) = ht_memb (net_table n)" using n1(4) n2(5) by (simp add: F release_frame same_socks_def)
  have run: "sock_close fd n = Some (exa_socket_zero fd ?n5)"
    using True n1(1) n2(1) n4 by (simp add: sock_close_def exa_socket_udp_remove_def exa_socket_udp_free_def)
  from zero_inv [OF but5 nr] show ?thesis unfolding run using n1(5) n2(3) memb by auto
qed

subsection \<open>Socket and device\<close>

lemma socket_inv:
  assumes inv: "sock_inv N n L" and val: "\<not> sk_valid (net_socks n fd)"
  shows "sock_inv N (sock_socket dd fd n) L"
proof -
  have act: "bypass_state (net_socks n fd) \<noteq> EXA_BYPASS_ACTIVE" using sock_okD(1) [OF inv, of fd] val by (auto simp: sk_ok_def)
  have but: "inv_but N fd n L" using inv by (simp add: sock_inv_but [of _ _ _ fd])
  note I = inactive_facts [OF inv act] and U = unbound_items [OF inv inactive_facts(1) [OF inv act]]
  have nr: "no_refs (net_socks n fd)" using I by (simp add: no_refs_def)
  note Z = zero_inv [OF but nr U(1,2)]
  let ?z = "exa_socket_zero fd n"
  let ?f = "\<lambda>sk. sk\<lparr>ip_multicast_if := INADDR_ANY, ip_multicast_ttl := 1, mcast_listening_denominator_iface := 0xFFFFFFFF,
      bypass_state := (if dd then EXA_BYPASS_INACTIVE else EXA_BYPASS_AVAIL)\<rparr>"
  have "on_table (\<lambda>t. t\<lparr>ip_memberships := (ip_memberships t)(fd := [])\<rparr>) (on_sock fd ?f ?z) = on_sock fd ?f ?z"
    using Z(3) by (simp add: on_table_def on_sock_def fun_upd_idem)
  then have eq: "sock_socket dd fd n = on_sock fd (\<lambda>sk. sk\<lparr>sk_valid := True\<rparr>) (on_sock fd ?f ?z)"
    by (simp add: sock_socket_def exa_socket_init_def)
  have bz: "inv_but N fd ?z L" using Z(1) by (simp add: sock_inv_but [of _ _ _ fd])
  have b: "inv_but N fd (sock_socket dd fd n) L" unfolding eq by (intro but_sock bz) simp_all
  show ?thesis
    by (rule unbound_step [OF Z(1) _ b]) (auto simp: eq Z(2) zero_usock_def sk_ok_def no_refs_def)
qed

lemma device_inv:
  assumes inv: "sock_inv N n L" and fd: "fd < N" and k: "kern_ok k n" and act: "bypass_state (net_socks n fd) = EXA_BYPASS_ACTIVE"
    and a: "\<not> IN_MULTICAST (ntohl a)"
    and n': "n' = on_sock fd (\<lambda>sk. sk\<lparr>bound_to_device := True\<rparr>)
      (snd (exa_socket_update_interfaces k fd a (on_sock fd (\<lambda>sk. sk\<lparr>bound_to_device := False\<rparr>) n)))"
  shows "sock_inv N n' L"
proof -
  let ?sk = "net_socks n fd"
  let ?n0 = "on_sock fd (\<lambda>sk. sk\<lparr>bound_to_device := False\<rparr>) n"
  have but: "inv_but N fd n L" using inv by (simp add: sock_inv_but [of _ _ _ fd])
  have but0: "inv_but N fd ?n0 L" by (intro but_sock but) simp_all
  obtain b n1 where u: "exa_socket_update_interfaces k fd a ?n0 = (b, n1)" by fastforce
  have but1: "inv_but N fd n1 L" by (rule but_update [OF but0 fd kern_okD(1) [OF k] u])
  have n1: "n' = on_sock fd (\<lambda>sk. sk\<lparr>bound_to_device := True\<rparr>) n1" by (simp add: n' u)
  have t1: "net_table n1 = net_table n" using update_frame(1) [OF u] by simp
  obtain x y where xy: "net_socks n1 = (net_socks ?n0)(fd := (net_socks ?n0 fd)\<lparr>listen_all_if := x, listen_interface := y\<rparr>)"
      "b \<longrightarrow> listens x y" "\<not> b \<longrightarrow> x = listen_all_if ?sk \<and> y = listen_interface ?sk"
    using update_frame(2) [OF u] a by (auto simp: listens_def)
  have s: "net_socks n' fd = ?sk\<lparr>listen_all_if := x, listen_interface := y, bound_to_device := True\<rparr>" using xy(1) by (simp add: n1)
  have t': "net_table n' = net_table n" by (simp add: n1 t1)
  have "sk_ok (net_socks n' fd)" using sock_okD(1) [OF inv, of fd] act by (simp add: s sk_ok_def)
  moreover have "item_ok n' (set L) fd"
    using sock_okD(2) [OF inv, of fd] xy(2,3) by (cases b) (auto simp: item_ok_def Let_def s t' holds_listens)
  moreover have "memb_ok n' (set L) fd"
    by (rule memb_ok_cong [OF sock_okD(3) [OF inv, of fd]]) (simp_all add: s t')
  moreover have "inv_but N fd n' L" unfolding n1 by (intro but_sock but1) simp_all
  ultimately show ?thesis by (simp add: sock_inv_but [of _ _ _ fd] sock_ok_def)
qed

lemma field_inv:
  assumes inv: "sock_inv N n L"
    and f: "listen_interface (f (net_socks n fd)) = listen_interface (net_socks n fd)" "listen_all_if (f (net_socks n fd)) = listen_all_if (net_socks n fd)"
      "ctx_udp (f (net_socks n fd)) = ctx_udp (net_socks n fd)" "sk_bound (f (net_socks n fd)) = sk_bound (net_socks n fd)"
      "bound_to_device (f (net_socks n fd)) = bound_to_device (net_socks n fd)" "listen_mcast (f (net_socks n fd)) = listen_mcast (net_socks n fd)"
      "sk_valid (f (net_socks n fd)) = sk_valid (net_socks n fd)"
      "mcast_listening_denominator_iface (f (net_socks n fd)) = mcast_listening_denominator_iface (net_socks n fd)"
      "bypass_state (f (net_socks n fd)) = bypass_state (net_socks n fd) \<or> bypass_state (net_socks n fd) \<noteq> EXA_BYPASS_ACTIVE \<and> bypass_state (f (net_socks n fd)) \<noteq> EXA_BYPASS_ACTIVE"
  shows "sock_inv N (on_sock fd f n) L"
proof -
  have but: "inv_but N fd (on_sock fd f n) L" using inv f by (intro but_sock) (simp_all add: sock_inv_but [of _ _ _ fd])
  have ok: "sk_ok (f (net_socks n fd))" using sock_okD(1) [OF inv, of fd] f by (auto simp: sk_ok_def no_refs_def)
  show ?thesis
  proof (cases "bypass_state (f (net_socks n fd)) = bypass_state (net_socks n fd)")
    case True
    have "sock_ok n (set L) fd" using inv by (simp add: sock_inv_def)
    then have "sock_ok (on_sock fd f n) (set L) fd" by (rule sock_ok_cong) (use True f ok in \<open>simp_all add: exa_socket_holds_interfaces_def\<close>)
    then show ?thesis using but by (simp add: sock_inv_but [of _ _ _ fd])
  next
    case False
    then have a: "bypass_state (net_socks n fd) \<noteq> EXA_BYPASS_ACTIVE" using f by blast
    show ?thesis by (rule unbound_step [OF inv inactive_facts(1) [OF inv a] but]) (use f ok a inactive_facts(1) [OF inv a] in simp_all)
  qed
qed

end
