(* ===== verification/SockRun.thy ===== *)
theory SockRun
  imports SockOps
begin

text \<open>
  Runs of an application that opens, uses and closes UDP sockets, and what holds in those whose calls are all harmless. The last section is a run that
  opens two sockets, as a test.
\<close>

subsection \<open>Calls\<close>

text \<open>\<open>sendto\<close> with a destination: whether it got as far as sending.\<close>

definition sendto_bypass_udp :: "kern \<Rightarrow> nat \<Rightarrow> u32 \<Rightarrow> u16 \<Rightarrow> sock_net \<Rightarrow> (bool \<times> sock_net) option" where
  "sendto_bypass_udp k fd addr port n =
     (if sk_connected (net_socks n fd) then Some (False, n) else exa_socket_udp_target k fd addr port n)"

definition sock_sendto :: "kern \<Rightarrow> nat \<Rightarrow> u32 \<Rightarrow> u16 \<Rightarrow> sock_net \<Rightarrow> (bool \<times> sock_net) option" where
  "sock_sendto k fd addr port n =
     (case (if bypass_state (net_socks n fd) \<noteq> EXA_BYPASS_ACTIVE then auto_bind k fd addr n else Some (True, n)) of
        None \<Rightarrow> None
      | Some (False, n1) \<Rightarrow> Some (False, n1)
      | Some (True, n1) \<Rightarrow>
          if bypass_state (net_socks n1 fd) \<noteq> EXA_BYPASS_ACTIVE then Some (True, n1) else sendto_bypass_udp k fd addr port n1)"

definition multicast_if :: "kern \<Rightarrow> nat \<Rightarrow> u32 \<Rightarrow> sock_net \<Rightarrow> bool \<times> sock_net" where
  "multicast_if k fd a n = (if \<not> k_opt k then (False, n) else (True, on_sock fd (\<lambda>sk. sk\<lparr>ip_multicast_if := a\<rparr>) n))"

definition multicast_ttl :: "kern \<Rightarrow> nat \<Rightarrow> int \<Rightarrow> sock_net \<Rightarrow> bool \<times> sock_net" where
  "multicast_ttl k fd val n = (if \<not> k_opt k then (False, n) else (True, on_sock fd (\<lambda>sk. sk\<lparr>ip_multicast_ttl := word_of_int val\<rparr>) n))"

datatype call =
    Bind bool u32 u16 | Connect "u32 option" u32 u16 | Sendto u32 u16
  | Join mreq | Leave mreq | Mcast_listen mreq
  | To_device string | No_accel int | Mcast_if u32 | Mcast_ttl int

fun do_call :: "kern \<Rightarrow> (nat \<Rightarrow> string option) \<Rightarrow> nat \<Rightarrow> call \<Rightarrow> sock_net \<Rightarrow> (bool \<times> sock_net) option" where
  "do_call k names fd (Bind native addr port) n = sock_bind k native fd addr port n"
| "do_call k names fd (Connect native addr port) n = sock_connect k native fd addr port n"
| "do_call k names fd (Sendto addr port) n = sock_sendto k fd addr port n"
| "do_call k names fd (Join opt) n = ip_add_membership k names fd opt n"
| "do_call k names fd (Leave opt) n = ip_drop_membership k names fd opt n"
| "do_call k names fd (Mcast_listen opt) n = exa_mcast_listen k names fd opt n"
| "do_call k names fd (To_device ifname) n = bind_to_device k fd ifname n"
| "do_call k names fd (No_accel val) n = Some (exa_no_accel fd val n)"
| "do_call k names fd (Mcast_if a) n = Some (multicast_if k fd a n)"
| "do_call k names fd (Mcast_ttl val) n = Some (multicast_ttl k fd val n)"

text \<open>Three things the code accepts break its own invariant: switching acceleration on again for a socket in bypass mode, binding such a socket to
  a device that is not an ExaNIC (both leave bypass mode without a clean-up), and a leave of a group that fails after the membership is gone. A call
  is harmless when it does none of them.\<close>

fun harmless :: "kern \<Rightarrow> nat \<Rightarrow> call \<Rightarrow> sock_net \<Rightarrow> bool \<Rightarrow> sock_net \<Rightarrow> bool" where
  "harmless k fd (No_accel val) n b n' \<longleftrightarrow> bypass_state (net_socks n fd) \<noteq> EXA_BYPASS_ACTIVE \<or> val \<noteq> 0"
| "harmless k fd (To_device ifname) n b n' \<longleftrightarrow> bypass_state (net_socks n fd) \<noteq> EXA_BYPASS_ACTIVE \<or>
     (\<exists>a. exanic_ip_find_by_interface (k_if k) (take 15 ifname) = (True, Some a))"
| "harmless k fd (Leave opt) n b n' \<longleftrightarrow> b \<or> n' = n"
| "harmless k fd _ n b n' \<longleftrightarrow> True"

subsection \<open>Runs\<close>

definition net_start :: "sock_net \<Rightarrow> bool" where
  "net_start n \<longleftrightarrow> exanic_ctx_list (net_ctxs n) = [] \<and> exanic_ctx_all_refcount (net_ctxs n) = 0 \<and>
     (\<forall>fd. net_socks n fd = zero_usock) \<and> (\<forall>idx. ht_table (net_table n) idx = None) \<and> (\<forall>fd. ip_memberships (net_table n) fd = [])"

text \<open>Every call that meets no failed assertion is a step; \<open>ok\<close> tells whether all of them were harmless. The kernel answers as \<open>kern_ok\<close> says.\<close>

inductive sock_run :: "nat \<Rightarrow> bool \<Rightarrow> sock_net \<Rightarrow> bool" for N :: nat where
  start: "net_start n \<Longrightarrow> sock_run N True n"
| socket: "sock_run N ok n \<Longrightarrow> \<not> sk_valid (net_socks n fd) \<Longrightarrow> sock_run N ok (sock_socket default_disable fd n)"
| call: "sock_run N ok n \<Longrightarrow> fd < N \<Longrightarrow> sk_valid (net_socks n fd) \<Longrightarrow> kern_ok k n \<Longrightarrow>
    do_call k names fd c n = Some (b, n') \<Longrightarrow> sock_run N (ok \<and> harmless k fd c n b n') n'"
| close: "sock_run N ok n \<Longrightarrow> fd < N \<Longrightarrow> sock_close fd n = Some n' \<Longrightarrow> sock_run N ok n'"
| poll: "sock_run N ok n \<Longrightarrow> sock_run N ok (on_ctxs poll_cleanup n)"

subsection \<open>The invariant of runs\<close>

lemma start_inv: "net_start n \<Longrightarrow> sock_inv N n []"
  unfolding sock_inv_def
proof (intro conjI allI)
  assume n: "net_start n"
  have z: "sock_refs zero_usock c = 0" "\<not> listen_all_if zero_usock" "one_listen zero_usock" for c
    by (simp_all add: sock_refs_def zero_usock_def one_listen_def)
  have h: "held N n = (\<lambda>_. 0)" "all_held N n = 0" using n z by (auto simp: held_def all_held_def net_start_def)
  show "counted N n" unfolding counted_def h using n z by (auto simp: net_start_def intro: ctx_invI)
  show "table_rep (net_table n) []" using n by (simp add: table_rep_def net_start_def bucket_def)
  show "sock_ok n (set []) fd" for fd
    using n by (simp add: sock_ok_def sk_ok_def item_ok_def memb_ok_def Let_def net_start_def zero_usock_def no_refs_def)
qed

lemma poll_inv: "sock_inv N n L \<Longrightarrow> sock_inv N (on_ctxs poll_cleanup n) L"
proof -
  assume inv: "sock_inv N n L"
  have s: "net_socks (on_ctxs poll_cleanup n) = net_socks n" "net_table (on_ctxs poll_cleanup n) = net_table n"
      "net_ctxs (on_ctxs poll_cleanup n) = poll_cleanup (net_ctxs n)"
    by (simp_all add: on_ctxs_def)
  have h: "held N (on_ctxs poll_cleanup n) = held N n" "all_held N (on_ctxs poll_cleanup n) = all_held N n"
    by (simp_all add: held_def all_held_def s fun_eq_iff)
  have "counted N (on_ctxs poll_cleanup n)" using sock_okD(4) [OF inv] cleanup_inv(1) unfolding counted_def h s by blast
  moreover have "sock_ok (on_ctxs poll_cleanup n) (set L) fd" for fd
    using sock_okD(1-3) [OF inv, of fd] unfolding sock_ok_def item_ok_def memb_ok_def s by blast
  ultimately show ?thesis using sock_okD(5) [OF inv] by (simp add: sock_inv_def s)
qed

text \<open>The state after a step that may turn bypass mode on.\<close>

lemma need_inv:
  assumes inv: "sock_inv N n L" and fd: "fd < N" and k: "kern_ok k n" and val: "sk_valid (net_socks n fd)"
    and r: "need_bypass k fd n = Some (b, n')"
  shows "\<exists>L'. sock_inv N n' L'" "kern_ok k n'" "b \<Longrightarrow> bypass_state (net_socks n' fd) = EXA_BYPASS_ACTIVE"
    "ip_memberships (net_table n') = ip_memberships (net_table n)"
proof -
  have "(\<exists>L'. sock_inv N n' L') \<and> ip_memberships (net_table n') = ip_memberships (net_table n) \<and>
      (b \<longrightarrow> bypass_state (net_socks n' fd) = EXA_BYPASS_ACTIVE)"
    using r inv enable_inv [OF inv _ fd k val] by (cases "bypass_state (net_socks n fd) = EXA_BYPASS_ACTIVE") (auto simp: need_bypass_def)
  then show "\<exists>L'. sock_inv N n' L'" "kern_ok k n'" "b \<Longrightarrow> bypass_state (net_socks n' fd) = EXA_BYPASS_ACTIVE"
      "ip_memberships (net_table n') = ip_memberships (net_table n)"
    using k kern_ok_cong by blast+
qed

lemma need_find:
  assumes inv: "sock_inv N n L" and fd: "fd < N" and k: "kern_ok k n" and val: "sk_valid (net_socks n fd)"
    and r: "need_bypass k fd n = Some (b, n')" and f: "exa_socket_ip_memberships_find (net_table n) fd mc = None"
  shows "exa_socket_ip_memberships_find (net_table n') fd mc = None"
proof (cases "bypass_state (net_socks n fd) = EXA_BYPASS_ACTIVE")
  case True
  then show ?thesis using r f by (simp add: need_bypass_def)
next
  case False
  then show ?thesis using inactive_facts(6) [OF inv False] need_inv(4) [OF inv fd k val r]
    by (simp add: exa_socket_ip_memberships_find_def)
qed

lemma bypass_join_inv:
  assumes inv: "sock_inv N n L" and fd: "fd < N" and k: "kern_ok k n" and val: "sk_valid (net_socks n fd)"
    and f: "exa_socket_ip_memberships_find (net_table n) fd mc = None" and uni: "\<not> IN_MULTICAST (ntohl (mc_interface mc))"
    and r: "bypass_join k fd mc n = Some (b, n')"
  shows "\<exists>L'. sock_inv N n' L'"
proof -
  obtain b1 n1 where n1: "need_bypass k fd n = Some (b1, n1)" using r by (auto simp: bypass_join_def split: option.splits)
  obtain L1 where L1: "sock_inv N n1 L1" using need_inv(1) [OF inv fd k val n1] by blast
  show ?thesis
  proof (cases b1)
    case False
    then show ?thesis using r n1 L1 by (auto simp: bypass_join_def)
  next
    case True
    show ?thesis
      using join_inv [OF L1 fd need_inv(2) [OF inv fd k val n1] need_inv(3) [OF inv fd k val n1] need_find [OF inv fd k val n1 f] uni] True r n1
      by (auto simp: bypass_join_def)
  qed
qed

lemma enable_step:
  assumes inv: "sock_inv N n L" and fd: "fd < N" and k: "kern_ok k n" and val: "sk_valid (net_socks n fd)"
    and act: "bypass_state (net_socks n fd) \<noteq> EXA_BYPASS_ACTIVE" and r: "exa_socket_enable_bypass k fd n = Some (b, n')"
  shows "\<exists>L'. sock_inv N n' L'" "kern_ok k n'" "b \<Longrightarrow> bypass_state (net_socks n' fd) = EXA_BYPASS_ACTIVE"
  using need_inv [OF inv fd k val, of b n'] act r by (simp_all add: need_bypass_def)

lemma udp_bind_step:
  assumes "sock_inv N n L" "fd < N" "kern_ok k n" "bypass_state (net_socks n fd) = EXA_BYPASS_ACTIVE" "exa_socket_udp_bind k fd a p n = Some (b, n')"
  shows "\<exists>L'. sock_inv N n' L'"
proof -
  have "\<not> sk_bound (net_socks n fd)" using assms(5) by (auto simp: exa_socket_udp_bind_def)
  from udp_bind_inv [OF assms(1-4) this, of a p] show ?thesis using assms(5) by auto
qed

lemma bind_call:
  assumes inv: "sock_inv N n L" and fd: "fd < N" and k: "kern_ok k n" and val: "sk_valid (net_socks n fd)"
    and r: "sock_bind k native fd a p n = Some (b, n')"
  shows "\<exists>L'. sock_inv N n' L'"
proof (cases "bypass_state (net_socks n fd) = EXA_BYPASS_AVAIL \<and> (a = INADDR_ANY \<or> exanic_ip_find (k_if k) a)")
  case False
  then have "(if bypass_state (net_socks n fd) = EXA_BYPASS_ACTIVE then exa_socket_udp_bind k fd a p n else Some (native, n)) = Some (b, n')"
    using r unfolding sock_bind_def by (simp only: if_False option.case prod.case bool.case)
  then show ?thesis using udp_bind_step [OF inv fd k] inv by (auto split: if_splits)
next
  case True
  then have act: "bypass_state (net_socks n fd) \<noteq> EXA_BYPASS_ACTIVE" by simp
  note r' = r [unfolded sock_bind_def if_P [OF True]]
  obtain b1 n1 where n1: "exa_socket_enable_bypass k fd n = Some (b1, n1)" using r' by (auto split: option.splits)
  note E = enable_step [OF inv fd k val act n1]
  then obtain L1 where L1: "sock_inv N n1 L1" by blast
  show ?thesis
  proof (cases b1)
    case False
    then show ?thesis using r' n1 L1 by auto
  next
    case True
    then show ?thesis using r' n1 L1 E(3) udp_bind_step [OF L1 fd E(2)] by auto
  qed
qed

lemma connect_call:
  assumes inv: "sock_inv N n L" and fd: "fd < N" and k: "kern_ok k n" and val: "sk_valid (net_socks n fd)"
    and r: "sock_connect k native fd a p n = Some (b, n')"
  shows "\<exists>L'. sock_inv N n' L'"
proof (cases "bypass_state (net_socks n fd) = EXA_BYPASS_ACTIVE")
  case True
  then have "connect_udp k fd a p n = Some (b, n')" using r by (simp add: sock_connect_def)
  then show ?thesis using inv udp_connect_inv [OF inv fd k True] by (auto simp: connect_udp_def split: if_splits)
next
  case False
  then show ?thesis using r inv enable_step(1) [OF inv fd k val False]
    by (auto simp: sock_connect_def split: option.splits if_splits)
qed

lemma auto_bind_step:
  assumes inv: "sock_inv N n L" and fd: "fd < N" and k: "kern_ok k n" and val: "sk_valid (net_socks n fd)"
    and r: "auto_bind k fd a n = Some (b, n')"
  shows "\<exists>L'. sock_inv N n' L'"
proof -
  have id: "n' = n \<Longrightarrow> ?thesis" using inv by blast
  have en: ?thesis if act: "bypass_state (net_socks n fd) \<noteq> EXA_BYPASS_ACTIVE" and n1: "exa_socket_enable_bypass k fd n = Some (b1, n1)"
      and n': "(if b1 then exa_socket_udp_bind k fd 0 0 n1 else Some (False, n1)) = Some (b, n')" for b1 n1
  proof -
    note E = enable_step [OF inv fd k val act n1]
    then obtain L1 where L1: "sock_inv N n1 L1" by blast
    show ?thesis using n' L1 E(3) udp_bind_step [OF L1 fd E(2)] by (cases b1) auto
  qed
  have c: "(case x of None \<Rightarrow> None | Some (False, n1) \<Rightarrow> Some (False, n1) | Some (True, n1) \<Rightarrow> f n1) = Some (b, n') \<Longrightarrow>
      \<exists>b1 n1. x = Some (b1, n1) \<and> (if b1 then f n1 else Some (False, n1)) = Some (b, n')" for x and f :: "sock_net \<Rightarrow> (bool \<times> sock_net) option"
    by (auto split: option.splits prod.splits bool.splits)
  have "n' = n \<or> bypass_state (net_socks n fd) \<noteq> EXA_BYPASS_ACTIVE \<and>
      (case exa_socket_enable_bypass k fd n of None \<Rightarrow> None | Some (False, n1) \<Rightarrow> Some (False, n1)
        | Some (True, n1) \<Rightarrow> exa_socket_udp_bind k fd 0 0 n1) = Some (b, n')"
    using r unfolding auto_bind_def Let_def by (simp only: split: if_splits) simp_all
  then show ?thesis using id en c [where x = "exa_socket_enable_bypass k fd n"] by blast
qed

lemma sendto_call:
  assumes inv: "sock_inv N n L" and fd: "fd < N" and k: "kern_ok k n" and val: "sk_valid (net_socks n fd)"
    and r: "sock_sendto k fd a p n = Some (b, n')"
  shows "\<exists>L'. sock_inv N n' L'"
proof -
  obtain b1 n1 where n1: "(if bypass_state (net_socks n fd) \<noteq> EXA_BYPASS_ACTIVE then auto_bind k fd a n else Some (True, n)) = Some (b1, n1)"
    using r unfolding sock_sendto_def by (auto split: option.splits)
  have "\<exists>L1. sock_inv N n1 L1" using n1 inv auto_bind_step [OF inv fd k val, of a b1 n1] by (auto split: if_splits)
  then obtain L1 where L1: "sock_inv N n1 L1" by blast
  note r' = r [unfolded sock_sendto_def n1 option.case prod.case]
  have "n' = n1 \<or> exa_socket_udp_update_tx k fd a p n1 = Some (b, n')"
    using r' by (cases b1) (auto simp: sendto_bypass_udp_def exa_socket_udp_target_def split: if_splits)
  then show ?thesis using L1 target_inv [OF L1 fd kern_okD(1) [OF k]] by blast
qed

lemma count_inv: "sock_inv N n L \<Longrightarrow> sock_inv N (on_sock fd (\<lambda>s. s\<lparr>mcast_num_not_bypassed := x s\<rparr>) n) L"
  by (rule field_inv) simp_all

lemma join_call:
  assumes inv: "sock_inv N n L" and fd: "fd < N" and k: "kern_ok k n" and val: "sk_valid (net_socks n fd)"
    and r: "ip_add_membership k names fd opt n = Some (b, n')"
  shows "\<exists>L'. sock_inv N n' L'"
proof (cases "parse_mreq (k_if k) names opt")
  case None
  then show ?thesis using r inv by (auto simp: ip_add_membership_def)
next
  case (Some x)
  then obtain mc ex where p: "parse_mreq (k_if k) names opt = Some (mc, ex)" by (cases x) auto
  have "n' = n \<or> n' = on_sock fd (\<lambda>s. s\<lparr>mcast_num_not_bypassed := mcast_num_not_bypassed s + 1\<rparr>) n \<or>
      ex \<and> exa_socket_ip_memberships_find (net_table n) fd mc = None \<and> bypass_join k fd mc n = Some (b, n')"
    using r p by (auto simp: ip_add_membership_def Let_def split: if_splits)
  then show ?thesis using inv count_inv [OF inv, of fd "\<lambda>s. mcast_num_not_bypassed s + 1"] bypass_join_inv [OF inv fd k val] parse_unicast [OF kern_okD(2) [OF k] p]
    by blast
qed

lemma listen_call:
  assumes inv: "sock_inv N n L" and fd: "fd < N" and k: "kern_ok k n" and val: "sk_valid (net_socks n fd)"
    and r: "exa_mcast_listen k names fd opt n = Some (b, n')"
  shows "\<exists>L'. sock_inv N n' L'"
proof (cases "parse_mreq (k_if k) names opt")
  case None
  then show ?thesis using r inv by (auto simp: exa_mcast_listen_def Let_def split: if_splits)
next
  case (Some x)
  then obtain mc ex where p: "parse_mreq (k_if k) names opt = Some (mc, ex)" by (cases x) auto
  have "n' = n \<or> (ex \<or> mc_interface mc = INADDR_ANY) \<and> exa_socket_ip_memberships_find (net_table n) fd mc = None \<and>
      bypass_join k fd mc n = Some (b, n')"
    using r p by (auto simp: exa_mcast_listen_def Let_def split: if_splits)
  then show ?thesis using inv bypass_join_inv [OF inv fd k val] parse_unicast [OF kern_okD(2) [OF k] p] by blast
qed

lemma level_active: "EXA_BYPASS_AVAIL \<le> st \<longleftrightarrow> st = EXA_BYPASS_AVAIL \<or> st = EXA_BYPASS_ACTIVE"
  by (cases st) (simp_all add: less_eq_exa_bypass_state_def)

lemma leave_call:
  assumes inv: "sock_inv N n L" and fd: "fd < N" and k: "kern_ok k n" and val: "sk_valid (net_socks n fd)"
    and r: "ip_drop_membership k names fd opt n = Some (b, n')" and h: "b \<or> n' = n"
  shows "\<exists>L'. sock_inv N n' L'"
proof (cases "parse_mreq (k_if k) names opt")
  case None
  then show ?thesis using r inv by (auto simp: ip_drop_membership_def)
next
  case (Some x)
  then obtain mc ex where p: "parse_mreq (k_if k) names opt = Some (mc, ex)" by (cases x) auto
  have "n' = n \<or> n' = on_sock fd (\<lambda>s. s\<lparr>mcast_num_not_bypassed := mcast_num_not_bypassed s - 1\<rparr>) n \<or>
      bypass_state (net_socks n fd) = EXA_BYPASS_ACTIVE \<and> (\<exists>m. exa_socket_ip_memberships_find (net_table n) fd mc = Some m) \<and>
      leave_group k fd mc n = Some (b, n')"
    using r p by (auto simp: ip_drop_membership_def Let_def split: if_splits)
  then show ?thesis using h inv count_inv [OF inv, of fd "\<lambda>s. mcast_num_not_bypassed s - 1"] leave_inv [OF inv fd k] by (cases b) auto
qed

lemma device_call:
  assumes inv: "sock_inv N n L" and fd: "fd < N" and k: "kern_ok k n" and val: "sk_valid (net_socks n fd)"
    and r: "bind_to_device k fd name n = Some (b, n')"
    and h: "bypass_state (net_socks n fd) \<noteq> EXA_BYPASS_ACTIVE \<or> (\<exists>a. exanic_ip_find_by_interface (k_if k) (take 15 name) = (True, Some a))"
  shows "\<exists>L'. sock_inv N n' L'"
proof -
  let ?off = "on_sock fd (\<lambda>sk. sk\<lparr>bypass_state := EXA_BYPASS_DISABLED\<rparr>) n"
  let ?dev = "\<lambda>a n1. on_sock fd (\<lambda>sk. sk\<lparr>bound_to_device := True\<rparr>)
      (snd (exa_socket_update_interfaces k fd a (on_sock fd (\<lambda>sk. sk\<lparr>bound_to_device := False\<rparr>) n1)))"
  consider "n' = ?off" "bypass_state (net_socks n fd) \<noteq> EXA_BYPASS_ACTIVE"
    | a b1 n1 where "exanic_ip_find_by_interface (k_if k) (take 15 name) = (True, Some a)" "need_bypass k fd n = Some (b1, n1)" "n' = (if b1 then ?dev a n1 else n1)"
    using r h by (fastforce simp: bind_to_device_def Let_def level_active split: prod.splits bool.splits option.splits if_splits)
  then show ?thesis
  proof cases
    case 1
    have "sock_inv N ?off L" by (rule field_inv [OF inv]) (use 1 in simp_all)
    then show ?thesis using 1 by blast
  next
    case 2
    note E = need_inv [OF inv fd k val 2(2)]
    then obtain L1 where L1: "sock_inv N n1 L1" by blast
    show ?thesis
      using 2(3) L1 device_inv [OF L1 fd E(2) E(3) find_by_interface_unicast [OF kern_okD(2) [OF k] 2(1)] refl] by (cases b1) auto
  qed
qed

lemma call_inv:
  assumes inv: "sock_inv N n L" and fd: "fd < N" and k: "kern_ok k n" and val: "sk_valid (net_socks n fd)"
    and r: "do_call k names fd c n = Some (b, n')" and h: "harmless k fd c n b n'"
  shows "\<exists>L'. sock_inv N n' L'"
proof (cases c)
  case (No_accel v)
  have "n' = n \<or> bypass_state (net_socks n fd) \<noteq> EXA_BYPASS_ACTIVE \<and>
      n' = on_sock fd (\<lambda>sk. sk\<lparr>bypass_state := (if v \<noteq> 0 then EXA_BYPASS_DISABLED else EXA_BYPASS_AVAIL)\<rparr>) n"
    using r h No_accel by (auto simp: exa_no_accel_def Let_def split: if_splits)
  moreover have "sock_inv N (on_sock fd (\<lambda>sk. sk\<lparr>bypass_state := (if v \<noteq> 0 then EXA_BYPASS_DISABLED else EXA_BYPASS_AVAIL)\<rparr>) n) L"
    if "bypass_state (net_socks n fd) \<noteq> EXA_BYPASS_ACTIVE"
    by (rule field_inv [OF inv]) (use that in simp_all)
  ultimately show ?thesis using inv by blast
next
  case (Mcast_if a)
  have "sock_inv N (on_sock fd (\<lambda>sk. sk\<lparr>ip_multicast_if := a\<rparr>) n) L" by (rule field_inv [OF inv]) simp_all
  then show ?thesis using r inv Mcast_if by (auto simp: multicast_if_def split: if_splits)
next
  case (Mcast_ttl v)
  have "sock_inv N (on_sock fd (\<lambda>sk. sk\<lparr>ip_multicast_ttl := word_of_int v\<rparr>) n) L" by (rule field_inv [OF inv]) simp_all
  then show ?thesis using r inv Mcast_ttl by (auto simp: multicast_ttl_def split: if_splits)
qed (use assms bind_call [OF inv fd k val] connect_call [OF inv fd k val] sendto_call [OF inv fd k val] join_call [OF inv fd k val]
    leave_call [OF inv fd k val] listen_call [OF inv fd k val] device_call [OF inv fd k val] in auto)

lemma reach_inv: "sock_run N ok n \<Longrightarrow> ok \<Longrightarrow> \<exists>L. sock_inv N n L"
proof (induction rule: sock_run.induct)
  case (start n)
  then show ?case using start_inv by blast
next
  case (socket ok n fd dd)
  then show ?case using socket_inv by blast
next
  case (call ok n fd k names c b n')
  then show ?case using call_inv by blast
next
  case (close ok n fd n')
  then show ?case using close_inv by fastforce
next
  case (poll ok n)
  then show ?case using poll_inv by blast
qed

subsection \<open>Claims\<close>

lemma held_nonneg: "0 \<le> sock_refs sk c"
  by (simp add: sock_refs_def)

lemma held_ne: "fd < N \<Longrightarrow> 0 < sock_refs (net_socks n fd) c \<Longrightarrow> held N n c \<noteq> 0"
  unfolding held_def using member_le_sum [of fd "{..<N}" "\<lambda>fd. sock_refs (net_socks n fd) c"] held_nonneg by force

lemma held_some: "held N n c \<noteq> 0 \<Longrightarrow> \<exists>fd<N. 0 < sock_refs (net_socks n fd) c"
  unfolding held_def using held_nonneg by (metis (no_types, lifting) lessThan_iff order_le_less sum.neutral)

lemma all_held_none: "\<forall>fd<N. \<not> listen_all_if (net_socks n fd) \<Longrightarrow> all_held N n = 0"
  by (simp add: all_held_def)

text \<open>C7. In every run of UDP sockets whose calls are all harmless (no acceleration switched on again and no binding to another device for a socket in
  bypass mode, no leave that fails half way), other failed calls included, with a kernel that answers as \<open>kern_ok\<close> says (new memory is not in use, no interface
  has a multicast address, a bound socket has a port), the reference count of an interface context is the number of
  sockets that listen on it plus the number that send through it. A context that a socket uses is always in the list, so a clean-up
  never frees it; a clean-up while no socket listens on all interfaces leaves exactly the contexts in use. No two contexts are
  for one address.\<close>

theorem contexts_counted:
  assumes run: "sock_run N True n"
  shows "(\<forall>c\<in>set (exanic_ctx_list (net_ctxs n)). refcount (ctx_mem (net_ctxs n) c) = (\<Sum>fd<N. sock_refs (net_socks n fd) c)) \<and>
    inj_on (\<lambda>c. if_address (ctx_mem (net_ctxs n) c)) (set (exanic_ctx_list (net_ctxs n))) \<and>
    {c. \<exists>fd<N. 0 < sock_refs (net_socks n fd) c} \<subseteq> set (exanic_ctx_list (poll_cleanup (net_ctxs n))) \<and>
    ((\<forall>fd<N. \<not> listen_all_if (net_socks n fd)) \<longrightarrow>
      set (exanic_ctx_list (poll_cleanup (net_ctxs n))) = {c. \<exists>fd<N. 0 < sock_refs (net_socks n fd) c})"
proof -
  obtain L where "sock_inv N n L" using reach_inv [OF run TrueI] by blast
  then have inv: "ctx_inv (held N n) (all_held N n) (net_ctxs n)" by (simp add: sock_inv_def counted_def)
  have used: "{c. \<exists>fd<N. 0 < sock_refs (net_socks n fd) c} = {c. held N n c \<noteq> 0}" using held_ne held_some by blast
  show ?thesis unfolding used
    using ctx_invD(2,3) [OF inv] cleanup_inv(2,3) [OF inv] all_held_none [of N n] by (simp add: held_def)
qed

definition matches :: "exa_endpoint \<Rightarrow> exa_endpoint \<Rightarrow> bool" where
  "matches ep e \<longleftrightarrow> local_port ep = local_port e \<and> (ep = e \<or> peer_addr ep = 0 \<and> peer_port ep = 0 \<and> local_addr ep \<in> {local_addr e, INADDR_ANY})"

text \<open>C8. In every run of UDP sockets whose calls are all harmless the lookup for a packet ends, and the socket it returns is open, in bypass mode, and bound to the
  port of the packet. If a packet to a unicast address matches the end point of a bound socket that is not bound to a device, it is given to a socket; so is
  a packet to a group for which a socket that is bound to the port on all addresses and not connected has a membership, on the interface
  or on any.\<close>

theorem sockets_found:
  assumes run: "sock_run N True n"
  shows "\<exists>r. exa_udp_lookup (net_table n) e a = Some r \<and>
    (\<forall>fd. r = Some fd \<longrightarrow> sk_valid (net_socks n fd) \<and> bypass_state (net_socks n fd) = EXA_BYPASS_ACTIVE \<and> sk_bound (net_socks n fd) \<and>
       local_port (sk_bind n fd) = local_port e) \<and>
    (\<forall>fd. sk_bound (net_socks n fd) \<and> \<not> bound_to_device (net_socks n fd) \<and> matches (sk_bind n fd) e \<and> \<not> IN_MULTICAST (ntohl (local_addr e)) \<longrightarrow> r \<noteq> None) \<and>
    (\<forall>fd. \<forall>m\<in>set (ip_memberships (net_table n) fd). sk_bound (net_socks n fd) \<and> local_addr (sk_bind n fd) = INADDR_ANY \<and>
       local_port (sk_bind n fd) = local_port e \<and> peer_port (sk_bind n fd) = 0 \<and> IN_MULTICAST (ntohl (local_addr e)) \<and>
       multiaddr (mcast_ep (ht_memb (net_table n) m)) = local_addr e \<and> mc_interface (mcast_ep (ht_memb (net_table n) m)) \<in> {a, INADDR_ANY} \<longrightarrow> r \<noteq> None)"
proof -
  let ?t = "net_table n"
  obtain L where inv: "sock_inv N n L" using reach_inv [OF run TrueI] by blast
  note rep = sock_okD(5) [OF inv]
  obtain r where r: "exa_udp_lookup ?t e a = Some r" "is_best (item_rank ?t e a) (item_fd ?t) L r"
    using ucast_best [OF rep, of e a] mcast_best [OF rep, of e a] by (cases "IN_MULTICAST (ntohl (local_addr e))") (auto simp: exa_udp_lookup_def)
  have found: "i \<in> set L \<Longrightarrow> item_rank ?t e a i \<noteq> None \<Longrightarrow> r \<noteq> None" for i using r(2) by (auto simp: is_best_def)
  have owner: "sk_bound (net_socks n (item_fd ?t i))" if "i \<in> set L" for i
    using that sock_okD(2,3) [OF inv, of "item_fd ?t i"] by (cases i rule: ht_item.exhaust) (auto simp: item_ok_def memb_ok_def Let_def item_fd_def)
  have act: "sk_bound (net_socks n fd) \<Longrightarrow> bypass_state (net_socks n fd) = EXA_BYPASS_ACTIVE \<and> sk_valid (net_socks n fd)" for fd
    using sock_okD(1) [OF inv, of fd] by (auto simp: sk_ok_def)
  have "\<forall>fd. r = Some fd \<longrightarrow> sk_valid (net_socks n fd) \<and> bypass_state (net_socks n fd) = EXA_BYPASS_ACTIVE \<and> sk_bound (net_socks n fd) \<and>
      local_port (sk_bind n fd) = local_port e"
  proof (intro allI impI)
    fix fd assume "r = Some fd"
    then obtain i k where i: "i \<in> set L" "item_fd ?t i = fd" "item_rank ?t e a i = Some k" using r(2) by (auto simp: is_best_def)
    have "local_port (sk_bind n fd) = local_port e"
      using i(2,3) by (auto simp: item_rank_def item_fd_def Let_def split: ht_item.splits if_splits)
    then show "sk_valid (net_socks n fd) \<and> bypass_state (net_socks n fd) = EXA_BYPASS_ACTIVE \<and> sk_bound (net_socks n fd) \<and>
        local_port (sk_bind n fd) = local_port e" using owner [OF i(1)] act i(2) by simp
  qed
  moreover have "r \<noteq> None" if "sk_bound (net_socks n fd)" "\<not> bound_to_device (net_socks n fd)" "matches (sk_bind n fd) e" "\<not> IN_MULTICAST (ntohl (local_addr e))" for fd
  proof (rule found)
    have "\<not> IN_MULTICAST (ntohl (local_addr (sk_bind n fd)))" using that(3,4) by (auto simp: matches_def)
    then show "Sock_item fd \<in> set L" using sock_okD(2) [OF inv, of fd] that by (auto simp: item_ok_def Let_def)
    show "item_rank ?t e a (Sock_item fd) \<noteq> None" using that(3,4) by (auto simp: item_rank_def Let_def matches_def)
  qed
  moreover have "r \<noteq> None" if "m \<in> set (ip_memberships ?t fd)" "sk_bound (net_socks n fd)" "local_addr (sk_bind n fd) = INADDR_ANY"
      "local_port (sk_bind n fd) = local_port e" "peer_port (sk_bind n fd) = 0" "IN_MULTICAST (ntohl (local_addr e))"
      "multiaddr (mcast_ep (ht_memb ?t m)) = local_addr e" "mc_interface (mcast_ep (ht_memb ?t m)) \<in> {a, INADDR_ANY}" for fd m
  proof (rule found)
    show "Memb_item m \<in> set L" using sock_okD(3) [OF inv, of fd] that by (auto simp: memb_ok_def Let_def)
    show "item_rank ?t e a (Memb_item m) \<noteq> None" using that rep_parent [OF rep that(1)] by (auto simp: item_rank_def Let_def)
  qed
  ultimately show ?thesis using r(1) by blast
qed

text \<open>C9. In every run of UDP sockets whose calls are all harmless a socket has a transmit context exactly while it is in bypass mode. One that is not in bypass mode is not
  bound, listens on no interface and is in no group; one in bypass mode is open, never listens both on one interface and on
  all, has a port once it is bound, and has joined no group twice on the same interface.\<close>

theorem bypass_fields:
  assumes run: "sock_run N True n"
  shows "\<forall>fd. (ctx_udp (net_socks n fd) \<noteq> None) = (bypass_state (net_socks n fd) = EXA_BYPASS_ACTIVE) \<and>
    (if bypass_state (net_socks n fd) = EXA_BYPASS_ACTIVE
     then sk_valid (net_socks n fd) \<and> (listen_all_if (net_socks n fd) \<longrightarrow> listen_interface (net_socks n fd) = None) \<and>
       (sk_bound (net_socks n fd) \<longrightarrow> local_port (sk_bind n fd) \<noteq> 0) \<and>
       distinct (map (\<lambda>m. mcast_ep (ht_memb (net_table n) m)) (ip_memberships (net_table n) fd))
     else \<not> sk_bound (net_socks n fd) \<and> \<not> exa_socket_holds_interfaces (net_socks n fd) \<and> \<not> listen_mcast (net_socks n fd) \<and>
       ip_memberships (net_table n) fd = [])"
proof
  fix fd
  obtain L where inv: "sock_inv N n L" using reach_inv [OF run TrueI] by blast
  note S = sock_okD(1) [OF inv, of fd] and I = sock_okD(2) [OF inv, of fd] and M = sock_okD(3) [OF inv, of fd]
  have "one_listen (net_socks n fd)" using sock_okD(4) [OF inv] by (simp add: counted_def)
  then show "(ctx_udp (net_socks n fd) \<noteq> None) = (bypass_state (net_socks n fd) = EXA_BYPASS_ACTIVE) \<and>
    (if bypass_state (net_socks n fd) = EXA_BYPASS_ACTIVE
     then sk_valid (net_socks n fd) \<and> (listen_all_if (net_socks n fd) \<longrightarrow> listen_interface (net_socks n fd) = None) \<and>
       (sk_bound (net_socks n fd) \<longrightarrow> local_port (sk_bind n fd) \<noteq> 0) \<and>
       distinct (map (\<lambda>m. mcast_ep (ht_memb (net_table n) m)) (ip_memberships (net_table n) fd))
     else \<not> sk_bound (net_socks n fd) \<and> \<not> exa_socket_holds_interfaces (net_socks n fd) \<and> \<not> listen_mcast (net_socks n fd) \<and>
       ip_memberships (net_table n) fd = [])"
    using S I M by (auto simp: sk_ok_def item_ok_def memb_ok_def Let_def one_listen_def no_refs_def exa_socket_holds_interfaces_def)
qed

lemma close_others: "sock_close fd n = Some n' \<Longrightarrow> x \<noteq> fd \<Longrightarrow> net_socks n' x = net_socks n x"
  by (auto simp: sock_close_def exa_socket_udp_remove_def exa_socket_udp_free_def exanic_udp_free_def table_remove_def table_opt_def
      exa_socket_zero_def memberships_remove_all_def update_denominator_def on_sock_def on_ctxs_def on_table_def set_bind_def
      exa_socket_release_interfaces_def Let_def split: if_splits option.splits)

text \<open>C10. In every run of UDP sockets whose calls are all harmless, \<open>close\<close> meets no failed assertion, whatever the state of the socket: it leaves the socket as a new one, no lookup
  finds it any more, and the other sockets are as before.\<close>

theorem close_returns:
  assumes run: "sock_run N True n" and fd: "fd < N"
  shows "\<exists>n'. sock_close fd n = Some n' \<and> net_socks n' = (net_socks n)(fd := zero_usock) \<and>
    (\<forall>e a. exa_udp_lookup (net_table n') e a \<noteq> Some (Some fd)) \<and> (\<forall>c. sock_refs (net_socks n' fd) c = 0)"
proof -
  obtain L where inv: "sock_inv N n L" using reach_inv [OF run TrueI] by blast
  obtain n' L' where n': "sock_close fd n = Some n'" "sock_inv N n' L'" "net_socks n' fd = zero_usock" using close_inv [OF inv fd] by blast
  have L': "item_fd (net_table n') i \<noteq> fd" if "i \<in> set L'" for i
    using that sock_okD(2,3) [OF n'(2), of fd] n'(3)
    by (cases i rule: ht_item.exhaust) (auto simp: item_ok_def memb_ok_def Let_def item_fd_def zero_usock_def)
  have "exa_udp_lookup (net_table n') e a \<noteq> Some (Some fd)" for e a
    using ucast_best [OF sock_okD(5) [OF n'(2)], of e a] mcast_best [OF sock_okD(5) [OF n'(2)], of e a] L'
    by (cases "IN_MULTICAST (ntohl (local_addr e))") (auto simp: exa_udp_lookup_def is_best_def)
  moreover have "net_socks n' = (net_socks n)(fd := zero_usock)" using close_others [OF n'(1)] n'(3) by auto
  ultimately show ?thesis using n' by (auto simp: sock_refs_def zero_usock_def)
qed

text \<open>C40. After any run of harmless calls, switching acceleration on for a socket that has it on already takes the socket out of bypass mode without a clean-up. Its close then
  releases nothing: the table of sockets still starts with the same items, no count goes down, and the contexts the socket
  used count more references than sockets use from then on, so that no clean-up ever frees them.\<close>

theorem no_accel_leaks:
  assumes run: "sock_run N True n" and fd: "fd < N" and act: "bypass_state (net_socks n fd) = EXA_BYPASS_ACTIVE"
  shows "\<exists>n1 n2. exa_no_accel fd 0 n = (True, n1) \<and> sock_close fd n1 = Some n2 \<and> net_socks n2 fd = zero_usock \<and>
    net_ctxs n2 = net_ctxs n \<and> ht_table (net_table n2) = ht_table (net_table n) \<and>
    (\<forall>c\<in>set (exanic_ctx_list (net_ctxs n)). 0 < sock_refs (net_socks n fd) c \<longrightarrow>
       (\<Sum>x<N. sock_refs (net_socks n2 x) c) < refcount (ctx_mem (net_ctxs n2) c) \<and> c \<in> set (exanic_ctx_list (poll_cleanup (net_ctxs n2))))"
proof -
  obtain L where "sock_inv N n L" using reach_inv [OF run TrueI] by blast
  then have inv: "ctx_inv (held N n) (all_held N n) (net_ctxs n)" by (simp add: sock_inv_def counted_def)
  define n1 where "n1 = on_sock fd (\<lambda>sk. sk\<lparr>bypass_state := EXA_BYPASS_AVAIL\<rparr>) n"
  have n1: "exa_no_accel fd 0 n = (True, n1)" using act by (simp add: exa_no_accel_def n1_def)
  have n2: "sock_close fd n1 = Some (exa_socket_zero fd n1)" by (simp add: sock_close_def n1_def)
  let ?n2 = "exa_socket_zero fd n1"
  have f: "net_socks ?n2 = (net_socks n)(fd := zero_usock)" "net_ctxs ?n2 = net_ctxs n" "ht_table (net_table ?n2) = ht_table (net_table n)"
    by (auto simp: exa_socket_zero_def memberships_remove_all_def update_denominator_def on_sock_def on_table_def set_bind_def n1_def)
  have less: "(\<Sum>x<N. sock_refs (net_socks ?n2 x) c) < held N n c" if "0 < sock_refs (net_socks n fd) c" for c
  proof -
    have "(\<Sum>x<N. sock_refs (net_socks ?n2 x) c) = held N n c - sock_refs (net_socks n fd) c + sock_refs zero_usock c"
      unfolding held_def f by (rule sum_upd [OF fd])
    then show ?thesis using that by (simp add: sock_refs_def zero_usock_def)
  qed
  have kept: "c \<in> set (exanic_ctx_list (poll_cleanup (net_ctxs n)))" if "0 < sock_refs (net_socks n fd) c" for c
    using cleanup_inv(2) [OF inv] held_ne [OF fd that] by blast
  show ?thesis
    by (rule exI [of _ n1], rule exI [of _ ?n2]) (use n1 n2 f less kept ctx_invD(3) [OF inv] in auto)
qed

subsection \<open>A run\<close>

definition demo_if :: if_env where
  "demo_if = \<lparr>getifaddrs = Some [\<lparr>ifa_name = ''eth2'', ifa_addr = Some (AF_INET, 0x0100000A), ifa_up = True, ifa_netmask = Some 0x00FFFFFF,
       ifa_broadaddr = Some 0xFF00000A\<rparr>],
     real_device = (\<lambda>name. (name, 0)), find_port = (\<lambda>_. Some (''exanic0'', 0)),
     ip_open = (\<lambda>live _ _ _. Some (Suc (sum_list live), [2, 0, 0, 0, 0, 1], None))\<rparr>"

definition demo_mem :: "exa_udp_tx \<times> net_tx" where
  "demo_mem = (exa_udp_tx_init, \<lparr>nt_eth = \<lparr>h_dest = [], h_source = [], h_proto = 0, h_vlan_tci = 0, h_vlan_proto = 0\<rparr>, nt_ip = exa_ip_tx_init IPPROTO_UDP,
     nt_dst = \<lparr>dst_addr = 0, dst_src_addr = 0, dst_idx = None, dst_gen_id = 0, dst_eth_addr = [], no_lookup = True\<rparr>, nt_dev = None, nt_if_addr = 0, nt_used = {}\<rparr>)"

definition demo_kern :: kern where
  "demo_kern = \<lparr>k_if = demo_if, k_bind = (\<lambda>a p. Some (if p = 0 then 0x5000 else p)), k_connect = (\<lambda>a p. None), k_open = Some zero_endpoint,
     k_udp = Some \<lparr>udp_hdrs = demo_mem, udp_exanic_ctx = None\<rparr>, k_memb = None, k_dst = [], k_route = (\<lambda>_ _. None), k_opt = True\<rparr>"

definition demo_n0 :: sock_net where
  "demo_n0 = \<lparr>net_ctxs = \<lparr>ctx_mem = (\<lambda>_. \<lparr>if_address = 0, if_netmask = 0, if_broadcast = 0, eth_dev_addr = [], vlan_id = 0, if_dev = None, refcount = 0\<rparr>),
       exanic_ctx_list = [], exanic_ctx_all_refcount = 0, exanic_ctx_need_cleanup = False\<rparr>,
     net_socks = (\<lambda>_. zero_usock), net_table = demo_ht\<rparr>"

definition demo_n1 :: sock_net where
  "demo_n1 = sock_socket False 3 demo_n0"

definition demo_n2 :: sock_net where
  "demo_n2 = snd (the (do_call demo_kern (\<lambda>_. None) 3 (Bind True 0x0100000A 0x5000) demo_n1))"

lemma not_in_sum: "Suc (sum_list L) \<notin> set L"
  using member_le_sum_list [of "Suc (sum_list L)" L] by auto

lemma demo_kern_ok: "kern_ok demo_kern n"
  using not_in_sum by (auto simp: kern_ok_def demo_kern_def demo_if_def env_fresh_def ifaddrs_ok_def zero_endpoint_def IN_MULTICAST_def ntohl_def)

lemma demo_reach1: "sock_run 4 True demo_n1"
  unfolding demo_n1_def by (intro sock_run.socket sock_run.start) (simp_all add: demo_n0_def net_start_def demo_ht_def zero_usock_def)

lemma demo_n1_facts: "net_socks demo_n1 3 = zero_usock\<lparr>sk_valid := True, bypass_state := EXA_BYPASS_AVAIL, ip_multicast_ttl := 1,
      mcast_listening_denominator_iface := 0xFFFFFFFF\<rparr>" "exanic_ctx_list (net_ctxs demo_n1) = []" "ip_memberships (net_table demo_n1) 3 = []"
  by (simp_all add: demo_n1_def demo_n0_def sock_socket_def exa_socket_init_def exa_socket_zero_def memberships_remove_all_def update_denominator_def net_defs
      zero_usock_def demo_ht_def)

lemma demo_bind: "\<exists>n2. do_call demo_kern (\<lambda>_. None) 3 (Bind True 0x0100000A 0x5000) demo_n1 = Some (True, n2) \<and>
    bypass_state (net_socks n2 3) = EXA_BYPASS_ACTIVE \<and> sk_bound (net_socks n2 3) \<and> listen_interface (net_socks n2 3) = Some 1 \<and>
    exanic_ctx_list (net_ctxs n2) = [1] \<and> \<not> bound_to_device (net_socks n2 3) \<and> sk_bind n2 3 = \<lparr>local_addr = 0x0100000A, peer_addr = 0, local_port = 0x5000, peer_port = 0\<rparr>"
  by (simp add: sock_bind_def demo_n1_facts exa_socket_enable_bypass_def zero_usock_def demo_kern_def demo_if_def exanic_ip_find_def exanic_ip_lookup_def
      exa_socket_udp_enable_bypass_def exanic_udp_alloc_def Let_def on_sock_def zero_endpoint_def set_bind_def table_insert_def exa_socket_holds_interfaces_def
      exa_socket_udp_bind_def exa_socket_update_interfaces_def exanic_ip_acquire_def find_ctx_def exanic_ip_alloc_def on_table_def IN_MULTICAST_def ntohl_def
      release_old_def exa_sys_bind_def exa_udp_insert_def exa_hashtable_insert_def link_ctx_def)

lemma demo_n2_facts: "do_call demo_kern (\<lambda>_. None) 3 (Bind True 0x0100000A 0x5000) demo_n1 = Some (True, demo_n2)"
    "bypass_state (net_socks demo_n2 3) = EXA_BYPASS_ACTIVE" "sk_bound (net_socks demo_n2 3)" "listen_interface (net_socks demo_n2 3) = Some 1"
    "exanic_ctx_list (net_ctxs demo_n2) = [1]" "\<not> bound_to_device (net_socks demo_n2 3)"
    "sk_bind demo_n2 3 = \<lparr>local_addr = 0x0100000A, peer_addr = 0, local_port = 0x5000, peer_port = 0\<rparr>"
  using demo_bind by (auto simp: demo_n2_def)

lemma demo_reach: "sock_run 4 True demo_n2"
  using sock_run.call [OF demo_reach1 _ _ demo_kern_ok demo_n2_facts(1)] by (simp add: demo_n1_facts)

lemma demo_ref: "0 < sock_refs (net_socks demo_n2 3) 1"
  by (simp add: sock_refs_def demo_n2_facts)

lemma contexts_counted_witness: "1 \<in> set (exanic_ctx_list (poll_cleanup (net_ctxs demo_n2)))"
proof -
  have "1 \<in> {c. \<exists>fd<4. 0 < sock_refs (net_socks demo_n2 fd) c}" using demo_ref by (intro CollectI exI [of _ 3]) simp
  then show ?thesis using contexts_counted [OF demo_reach] by blast
qed

lemma sockets_found_witness:
  "\<exists>fd. exa_udp_lookup (net_table demo_n2) \<lparr>local_addr = 0x0100000A, peer_addr = 0x0200000A, local_port = 0x5000, peer_port = 0x1234\<rparr> 0 = Some (Some fd) \<and>
     sk_bound (net_socks demo_n2 fd)"
proof -
  let ?e = "\<lparr>local_addr = 0x0100000A, peer_addr = 0x0200000A, local_port = 0x5000, peer_port = 0x1234\<rparr>"
  obtain r where r: "exa_udp_lookup (net_table demo_n2) ?e 0 = Some r"
    and owner: "\<forall>fd. r = Some fd \<longrightarrow> sk_valid (net_socks demo_n2 fd) \<and> bypass_state (net_socks demo_n2 fd) = EXA_BYPASS_ACTIVE \<and>
       sk_bound (net_socks demo_n2 fd) \<and> local_port (sk_bind demo_n2 fd) = local_port ?e"
    and found: "\<forall>fd. sk_bound (net_socks demo_n2 fd) \<and> \<not> bound_to_device (net_socks demo_n2 fd) \<and> matches (sk_bind demo_n2 fd) ?e \<and>
       \<not> IN_MULTICAST (ntohl (local_addr ?e)) \<longrightarrow> r \<noteq> None"
    using sockets_found [OF demo_reach, of ?e 0] by (elim exE conjE) (rule that)
  have "matches (sk_bind demo_n2 3) ?e" by (simp add: matches_def demo_n2_facts)
  moreover have "\<not> IN_MULTICAST (ntohl (local_addr ?e))" by (simp add: IN_MULTICAST_def ntohl_def)
  ultimately obtain fd where "r = Some fd" using spec [OF found, of 3] demo_n2_facts(3,6) by (cases r) simp_all
  then show ?thesis using r spec [OF owner, of fd] by (intro exI [of _ fd]) simp
qed

lemma bypass_fields_witness: "ctx_udp (net_socks demo_n2 3) \<noteq> None \<and> sk_valid (net_socks demo_n2 3) \<and> \<not> listen_all_if (net_socks demo_n2 3)"
  using bypass_fields [OF demo_reach] demo_n2_facts(2,4) by (metis option.distinct(1))

lemma close_returns_witness: "\<exists>n'. sock_close 3 demo_n2 = Some n' \<and> net_socks n' 3 = zero_usock"
  using close_returns [OF demo_reach, of 3] by auto

lemma no_accel_leaks_witness:
  "\<exists>n1 n2. exa_no_accel 3 0 demo_n2 = (True, n1) \<and> sock_close 3 n1 = Some n2 \<and> net_socks n2 3 = zero_usock \<and>
     0 < refcount (ctx_mem (net_ctxs n2) 1) \<and> 1 \<in> set (exanic_ctx_list (poll_cleanup (net_ctxs n2)))"
proof -
  obtain n1 n2 where n: "exa_no_accel 3 0 demo_n2 = (True, n1)" "sock_close 3 n1 = Some n2" "net_socks n2 3 = zero_usock"
      "(\<Sum>x<4. sock_refs (net_socks n2 x) 1) < refcount (ctx_mem (net_ctxs n2) 1)" "1 \<in> set (exanic_ctx_list (poll_cleanup (net_ctxs n2)))"
    using no_accel_leaks [OF demo_reach _ demo_n2_facts(2)] demo_ref demo_n2_facts(5) by fastforce
  have "0 \<le> (\<Sum>x<4. sock_refs (net_socks n2 x) 1)" by (rule sum_nonneg) (rule held_nonneg)
  then show ?thesis using n by (intro exI [of _ n1] exI [of _ n2]) simp
qed

end
