(* ===== verification/Spec2Isabelle.thy ===== *)
theory Spec2Isabelle
  imports RxProps TxProps RxSystem KMmapProps KPortProps KAte TcpFaults TxSend TcpSession UdpFifo SockRun
begin

text \<open>
  The ExaNIC network card software, \<open>src/cffex_md_exanic/exanic-software-master\<close>: a user-space
  library that sends and receives frames through memory shared with the card, a kernel driver
  that hands that memory out, and a sockets library on top. Paths below are relative to that
  directory.

  \<^bold>\<open>The parts and how they meet.\<close>
  The card writes received frames as chunks of 120 bytes into rings of 16384 slots in host memory, with a
  generation number in each chunk. \<open>libs/exanic\<close> reads them without a system call, and writes
  frames into pages of a transmit region, told by a feedback slot how far the card has got.
  \<open>modules/exanic\<close> owns the card: by \<open>ioctl\<close> it gives pages, feedback slots, receive
  buffers and steering filters to open files, programs the rule tables of the card, and maps the
  memory by \<open>mmap\<close>. \<open>libs/exasock\<close> takes TCP and UDP packets from a receive ring into the memory of a
  socket, and builds the packets a socket sends, beside a kernel stack that works on the same socket.

  \<^bold>\<open>Theories, in the order of the imports.\<close>
  Each names the functions of the source; records have the fields of the structures.
  \<^item> Prelude: words, byte buffers, \<open>size_t\<close>, sequence numbers (\<open>c_simps\<close>).
  \<^item> Device: registers, identity and ports of a handle (\<open>libs/exanic/exanic.h\<close>, \<open>port.c\<close>, \<open>util.c\<close>, \<open>pcie_if.h\<close>).
  \<^item> RxFifo: receive, chunk by chunk, in place, abort and catchup (\<open>fifo_rx.h\<close>, \<open>fifo_rx.c\<close>).
    Memory is a function of time, since the card writes while the code reads. RxSpec states what
    the card promises; RxCatchup, RxChunks and RxProps prove the claims about frames.
  \<^item> TxFifo: transmit (\<open>fifo_tx.c\<close>); TxSpec has a ghost of what is in flight and its invariant, TxProps and
    TxLive the claims, TxAcquire how a handle gets its region, TxSystem the handle on top of the driver.
  \<^item> Checksum: \<open>checksum.h\<close>, against the one's complement sum.
  \<^item> KBase: the device, its ports, contexts (\<open>exanic-structs.h\<close>). KFilter: \<open>exanic-filter.c\<close>. KDma: receive
    regions and filter buffers. KCtx: \<open>exanic-ctx.c\<close>. KIoctl, KMmap: \<open>exanic-dev.c\<close>. KPort: ports and features of
    \<open>exanic-main.c\<close>. KAte: \<open>exanic-ate.c\<close>.
  \<^item> KTable, KMatch, KSide, KSteer: what the rule tables of the card mean and the invariant of the
    steering configuration. The locales \<open>rule_table\<close> and \<open>filter_side\<close> hold what the IP and the MAC side
    share; both are interpreted on both sides.
  \<^item> KSystem, KReach, KInv, KTotal: the driver with any number of open files as a transition system, its
    invariant by induction over the reachable states, and that every command is defined there.
    KProps, KOwner, KMmapProps, KPortProps: the claims. RxAcquire, RxSystem: the library's receive
    buffers on the driver.
  \<^item> TcpBuffer: the rings and the list of out of order segments of a socket (\<open>libs/exasock/tcp_buffer.h\<close>).
    TcpState: the connection state (\<open>tcp.h\<close>). TcpRx: a packet from the chunks to the ring and
    on to the application (\<open>exanic.c\<close>, \<open>ip.h\<close>, \<open>socket/recv.c\<close>).
  \<^item> TcpReasm: stream positions as natural numbers, and every loop over the array of segments as an
    operation on a sorted list of intervals. TcpProps: the commit refines a receiver that works on
    sets of positions. TcpRing: which slots the allocation and the reader get. TcpCopy: the copy.
    TcpStream: runs of a socket deliver the stream. TcpFaults: what malformed packets do.
  \<^item> CsumIov: the checksum and the copy of a scattered message. NetHdr, TcpHdr, UdpHdr: headers and
    neighbours (\<open>ether.h\<close>, \<open>ip.h\<close>, \<open>dst.h\<close>, \<open>tcp.h\<close>, \<open>udp.h\<close>). TxPath: sending, from a socket to the transmit window
    or the kernel (\<open>exanic.c\<close>, \<open>sys.c\<close>). PollRx: the headers of a received frame. HdrProps: what is
    built is accepted. TxSend: sending meets the transmit path of the library.
  \<^item> TcpTx: the transmit buffer as a queue of bytes, and the read of it by the kernel module
    (\<open>modules/exasock/exasock-tcp.c\<close>). TcpSession: runs of a sending socket.
  \<^item> UdpQueue: the receive queue of a UDP socket, reception and receive calls (\<open>udp_queue.h\<close>, \<open>exanic.c\<close>,
    \<open>socket/recv.c\<close>). UdpFifo: the locale \<open>fifo\<close> for queues with an order, interpreted on the socket.
  \<^item> SockTable: the hash table that finds the socket of a packet, and the multicast memberships (\<open>structs.h\<close>,
    \<open>sockets.c\<close>, \<open>udp.h\<close>). SockProps: the chains as the list of what was inserted, and the best match.
  \<^item> IpCtx: contexts of interfaces and their reference counts (\<open>exanic.c\<close>). SockLayer: which contexts a socket holds,
    and its groups (\<open>sockets.c\<close>, \<open>sys.c\<close>). SockCalls: the calls of the application (\<open>socket/socket.c\<close>, \<open>socket/send.c\<close>,
    \<open>sockets.c\<close>). SockRefs: every step keeps the counts. SockInv, SockOps: the invariant of all sockets, one lemma
    for each call. SockRun: runs of calls, as a transition system, and the claims.

  \<^bold>\<open>What the groups of lemmas show.\<close>
  A positive result of a receive call is a frame the card completed and had not overwritten, and a complete frame is
  delivered; a frame sent is on the wire once, unchanged, and sending makes progress. In every reachable
  state of the driver the tables of the card select the buffer of the right filter, pages and feedback slots have one
  owner, a port is powered when it is used, and no mapping exceeds its region. The application of a
  TCP socket reads the stream of its peer as long as no packet thrown away overlaps a stored segment, a retransmission reads what was sent, and a
  UDP socket hands out its datagrams in order when none is empty. What one socket builds another accepts. In every run of harmless calls on UDP
  sockets the interface contexts count their users and the table of sockets finds exactly open sockets. Several lemmas state defects of the code, as it is: they name what
  the code does on the input that shows it.

  \<^bold>\<open>Bounds and fuel.\<close>
  Loops that wait for the card (\<open>exanic_receive_frame\<close>, \<open>exanic_transmit_frame\<close>) have fuel, one unit for each look at memory; the
  liveness claims say how much is enough. The loops of the driver and of the segment array
  are bounded by their arrays. The option loop of a SYN may not end and is a partial function.
  A call that waits for more chunks than its argument lists is \<open>Waiting\<close>. Sequence numbers are 32-bit
  words, compared as in the code; claims on positions ask that the positions in play lie in a window of \<open>2 ^ 30\<close>, and
  the run of a socket moves that window with the reader, so that streams have any length.

  \<^bold>\<open>What is a parameter.\<close>
  The card (memory over time, answers of the PHYs), the kernel (\<open>copy_from_user\<close>, allocation, remapping) and,
  for a socket, what the kernel stack stores during a compare-and-swap, and what the kernel and the C library answer to a call
  (the record \<open>kern\<close>). Runs of calls ask that new memory is not memory in use, that interfaces have no multicast
  address and that a bound socket has a port (\<open>kern_ok\<close>); a run takes every call that meets no failed
  assertion and records whether all were harmless (\<open>sock_run\<close>): three calls that the code accepts break its own invariant, and \<open>no_accel_leaks\<close> shows
  what one of them does. In the same way \<open>runs\<close> of TcpStream records whether every packet thrown away was harmless (\<open>region_ok\<close>). A call on a socket is one step. Hypotheses about the card
  state the behaviour documented in \<open>pcie_if.h\<close> and \<open>fifo_if.h\<close>.

  \<^bold>\<open>Not modelled.\<close>
  Of the driver: the network device, PHY and I2C access, PTP, \<open>sysfs\<close>, probe and remove beyond the parts
  named. Of \<open>libs/exanic\<close>: time, configuration, the library side of filters and firewall, EEPROM and transceivers. Of exasock: the TCP side of the
  calls (listen, accept, linger), polling of many sockets, bonded interfaces, ancillary data, time stamping options, and the rest of the kernel module. The utilities, the examples, performance tests and build files are glue over
  these libraries. Outside this directory, \<open>src/\<close> holds market data plugins in C++ that
  copy fields of exchange messages, vendored programming interfaces and generated code; \<open>src/cffex_md_exanic/dependency\<close> is an older
  copy of the libraries.
\<close>

end
